(* ===== verification/Prelude.thy ===== *)
theory Prelude
  imports Main "HOL-Library.Word" "HOL-Library.Multiset"
begin

text \<open>
  The vocabulary the components share: Go's byte slices and block hashes, big-endian
  integers, division that truncates towards zero, signed 64-bit wrap-around, and the
  generic lemmas on lists and sets that the component proofs use.
\<close>

named_theorems go_defs \<open>small definitions of the model that are always unfolded\<close>
named_theorems go_frame \<open>fields an operation does not write\<close>

section \<open>Types\<close>

type_synonym byte = "8 word"

text \<open>A \<open>chainhash.Hash\<close> is an array of 32 bytes; \<open>wf_hash\<close> states the length.\<close>

type_synonym hash = "byte list"

definition HashSize :: nat where
  "HashSize = 32"

definition wf_hash :: "hash \<Rightarrow> bool" where
  "wf_hash h \<longleftrightarrow> length h = HashSize"

definition zeroHash :: hash where
  "zeroHash = replicate 32 0"

lemma wf_zeroHash [simp]: "wf_hash zeroHash"
  by (simp add: wf_hash_def zeroHash_def HashSize_def)

section \<open>Integers\<close>

text \<open>Go's \<open>/\<close> and \<open>%\<close> on signed integers truncate towards zero.\<close>

definition go_div :: "int \<Rightarrow> int \<Rightarrow> int" where
  "go_div a b = sgn a * sgn b * (\<bar>a\<bar> div \<bar>b\<bar>)"

definition go_mod :: "int \<Rightarrow> int \<Rightarrow> int" where
  "go_mod a b = a - b * go_div a b"

lemma go_div_nonneg [simp]: "0 \<le> a \<Longrightarrow> 0 < b \<Longrightarrow> go_div a b = a div b"
  by (cases "a = 0") (simp_all add: go_div_def)

lemma go_mod_nonneg [simp]: "0 \<le> a \<Longrightarrow> 0 < b \<Longrightarrow> go_mod a b = a mod b"
  by (simp add: go_mod_def minus_mult_div_eq_mod)

lemma go_div_small: "\<bar>a\<bar> < \<bar>b\<bar> \<Longrightarrow> go_div a b = 0"
  by (simp add: go_div_def)

lemma floor_bounds:
  fixes a n :: int
  assumes "0 < n"
  shows "a div n * n \<le> a \<and> a < (a div n + 1) * n"
  unfolding distrib_right using div_mult_mod_eq [of a n] pos_mod_bound [OF assms, of a] pos_mod_sign [OF assms, of a] by linarith

text \<open>The value a mathematical integer has once it is stored in an \<open>int64\<close>.\<close>

definition wrap64 :: "int \<Rightarrow> int" where
  "wrap64 x = (x + 2 ^ 63) mod 2 ^ 64 - 2 ^ 63"

lemma wrap64_id [simp]: "- (2 ^ 63) \<le> x \<Longrightarrow> x < 2 ^ 63 \<Longrightarrow> wrap64 x = x"
  by (simp add: wrap64_def)

lemma wrap64_bounds: "- (2 ^ 63) \<le> wrap64 x" "wrap64 x < 2 ^ 63"
  by (simp_all add: wrap64_def)

lemma wrap64_cong: "wrap64 x mod 2 ^ 64 = x mod 2 ^ 64"
proof -
  have "((x + 2 ^ 63) mod 2 ^ 64 - 2 ^ 63) mod 2 ^ 64 = (x + 2 ^ 63 - 2 ^ 63) mod 2 ^ 64"
    by (rule mod_diff_left_eq)
  then show ?thesis by (simp add: wrap64_def)
qed

lemma wrap64_plus [simp]: "wrap64 (wrap64 x + y) = wrap64 (x + y)"
proof -
  have "((x + 2 ^ 63) mod 2 ^ 64 + y) mod 2 ^ 64 = (x + 2 ^ 63 + y) mod (2 ^ 64 :: int)"
    by (rule mod_add_left_eq)
  then show ?thesis unfolding wrap64_def by (simp add: algebra_simps)
qed

lemma wrap64_minus [simp]: "wrap64 (wrap64 x - y) = wrap64 (x - y)"
  using wrap64_plus [of x "- y"] by simp

section \<open>Big-endian integers\<close>

fun be_encode :: "nat \<Rightarrow> nat \<Rightarrow> byte list" where
  "be_encode 0 v = []"
| "be_encode (Suc k) v = be_encode k (v div 256) @ [word_of_nat (v mod 256)]"

definition be_decode :: "byte list \<Rightarrow> nat" where
  "be_decode bs = foldl (\<lambda>a b. a * 256 + unat b) 0 bs"

lemma length_be_encode [simp]: "length (be_encode k v) = k"
  by (induction k arbitrary: v) auto

lemma unat_byte_mod: "unat (word_of_nat (v mod 256) :: byte) = v mod 256"
  by (simp add: unat_of_nat)

lemma be_decode_snoc: "be_decode (bs @ [b]) = be_decode bs * 256 + unat b"
  by (simp add: be_decode_def)

lemma be_decode_encode: "v < 256 ^ k \<Longrightarrow> be_decode (be_encode k v) = v"
proof (induction k arbitrary: v)
  case 0
  then show ?case by (simp add: be_decode_def)
next
  case (Suc k)
  have "v div 256 < 256 ^ k"
    using Suc.prems by (simp add: less_mult_imp_div_less mult.commute)
  then have "be_decode (be_encode k (v div 256)) = v div 256"
    by (rule Suc.IH)
  then show ?case
    by (simp add: be_decode_snoc unat_byte_mod)
qed

section \<open>Finite sets as Go maps with empty values\<close>

text \<open>\<open>m[k] = struct{}{}\<close> for every \<open>k\<close> of a slice, and \<open>delete(m, k)\<close> likewise.\<close>

lemma foldl_insert_set: "foldl (\<lambda>p h. insert h p) A xs = A \<union> set xs"
  by (induction xs arbitrary: A) auto

lemma foldl_remove_set: "foldl (\<lambda>p h. p - {h}) A xs = A - set xs"
  by (induction xs arbitrary: A) auto

lemma card_union_distinct:
  "finite A \<Longrightarrow> distinct xs \<Longrightarrow> set xs \<inter> A = {} \<Longrightarrow> card (A \<union> set xs) = card A + length xs"
  by (subst card_Un_disjoint) (auto simp: distinct_card)

lemma card_minus_distinct:
  "finite A \<Longrightarrow> distinct xs \<Longrightarrow> set xs \<subseteq> A \<Longrightarrow> card (A - set xs) + length xs = card A"
proof -
  assume a: "finite A" "distinct xs" "set xs \<subseteq> A"
  have "card (A - set xs) = card A - card (set xs)"
    using a by (simp add: card_Diff_subset)
  moreover have "card (set xs) \<le> card A"
    using a by (simp add: card_mono)
  ultimately show ?thesis
    using a(2) by (simp add: distinct_card)
qed

end
