(* ===== verification/DiffLog.thy ===== *)
theory DiffLog
  imports Prelude
begin

text \<open>
  A log of reversible changes: the contract between a component that stores diffs and the
  state those diffs build. \<open>replay\<close> is the specification of "the state at height \<open>n\<close>":
  the first \<open>n\<close> diffs applied to the initial state. The locale assumes only that undoing
  a diff that was valid restores the state before it; the facts about moving one position
  forwards or backwards, and about growing or trimming the log, are proved once here.
\<close>

definition replay :: "('d \<Rightarrow> 's \<Rightarrow> 's) \<Rightarrow> 'd list \<Rightarrow> nat \<Rightarrow> 's \<Rightarrow> 's" where
  "replay app ds n s = fold app (take n ds) s"

fun valid_log :: "('d \<Rightarrow> 's \<Rightarrow> 's) \<Rightarrow> ('d \<Rightarrow> 's \<Rightarrow> bool) \<Rightarrow> 'd list \<Rightarrow> 's \<Rightarrow> bool" where
  "valid_log app ok [] s \<longleftrightarrow> True"
| "valid_log app ok (d # ds) s \<longleftrightarrow> ok d s \<and> valid_log app ok ds (app d s)"

lemma replay_0 [simp]: "replay app ds 0 s = s"
  by (simp add: replay_def)

lemma replay_Suc: "n < length ds \<Longrightarrow> replay app ds (Suc n) s = app (ds ! n) (replay app ds n s)"
  by (simp add: replay_def take_Suc_conv_app_nth)

lemma replay_append: "n \<le> length ds \<Longrightarrow> replay app (ds @ es) n s = replay app ds n s"
  by (simp add: replay_def)

lemma replay_butlast: "n < length ds \<Longrightarrow> replay app (butlast ds) n s = replay app ds n s"
  by (simp add: replay_def take_butlast)

lemma valid_log_append:
  "valid_log app ok (ds @ es) s \<longleftrightarrow>
     valid_log app ok ds s \<and> valid_log app ok es (fold app ds s)"
  by (induction ds arbitrary: s) auto

lemma valid_log_snoc:
  "valid_log app ok (ds @ [d]) s \<longleftrightarrow>
     valid_log app ok ds s \<and> ok d (replay app ds (length ds) s)"
  by (simp add: valid_log_append replay_def)

lemma valid_log_butlast: "valid_log app ok ds s \<Longrightarrow> valid_log app ok (butlast ds) s"
  by (cases ds rule: rev_cases) (auto simp: valid_log_append)

lemma valid_log_nth:
  assumes "valid_log app ok ds s" and "n < length ds"
  shows "ok (ds ! n) (replay app ds n s)"
proof -
  have "ds = take n ds @ ds ! n # drop (Suc n) ds"
    using assms(2) by (rule id_take_nth_drop)
  then have "valid_log app ok (take n ds @ ds ! n # drop (Suc n) ds) s"
    using assms(1) by metis
  then show ?thesis
    by (simp add: valid_log_append replay_def)
qed

locale diff_log =
  fixes app :: "'d \<Rightarrow> 's \<Rightarrow> 's"
    and unapp :: "'d \<Rightarrow> 's \<Rightarrow> 's"
    and ok :: "'d \<Rightarrow> 's \<Rightarrow> bool"
    and inv :: "'s \<Rightarrow> bool"
  assumes undo: "ok d s \<Longrightarrow> unapp d (app d s) = s"
    and inv_app: "inv s \<Longrightarrow> ok d s \<Longrightarrow> inv (app d s)"
begin

lemma unreplay:
  assumes "valid_log app ok ds s" and "n < length ds"
  shows "unapp (ds ! n) (replay app ds (Suc n) s) = replay app ds n s"
  using valid_log_nth [OF assms] assms(2) by (simp add: replay_Suc undo)

lemma inv_replay:
  assumes "inv s" and "valid_log app ok ds s"
  shows "inv (replay app ds n s)"
  using assms unfolding replay_def
proof (induction ds arbitrary: s n)
  case Nil
  then show ?case by simp
next
  case (Cons d ds)
  then show ?case by (cases n) (auto simp: inv_app)
qed

lemma replay_between:
  assumes "valid_log app ok ds s" and "i \<le> j" and "j \<le> length ds"
  shows "fold unapp (rev (drop i (take j ds))) (replay app ds j s) = replay app ds i s"
  using assms(2,3)
proof (induction j)
  case 0
  then show ?case by simp
next
  case (Suc j)
  show ?case
  proof (cases "i = Suc j")
    case False
    with Suc.prems have "drop i (take (Suc j) ds) = drop i (take j ds) @ [ds ! j]"
      by (simp add: take_Suc_conv_app_nth)
    with Suc False unreplay [OF assms(1), of j] show ?thesis by simp
  qed simp
qed

end

end
