(* ===== verification/TicketPool.thy ===== *)
theory TicketPool
  imports DiffLog
begin

text \<open>
  The live ticket pool of \<open>stakedb/ticketpool.go\<close>: a slice of pool diffs, a cursor at
  the next diff to apply, and the pool itself as a set of ticket hashes. Operations return
  the new state beside an optional error, because the code changes the state on some of its
  error paths. An index out of range is the error value \<open>PanicIndex\<close>. The badger database
  is third-party code: its state has a type of its own and its write operation is an
  argument.
\<close>

section \<open>State\<close>

record PoolDiff =
  In :: "hash list"
  Out :: "hash list"

record 'db TicketPool =
  cursor :: int
  tip :: int
  diffs :: "PoolDiff list"
  pool :: "hash set"
  diffDB :: 'db

datatype tp_error =
    NotBuildOn int int
  | NotConnected int int
  | CursorAtTip
  | CursorAtGenesis
  | PastTip
  | InvalidCursor int
  | PoolSize int int
  | StoreError string
  | PanicIndex

type_synonym 'db tp_result = "'db TicketPool \<times> tp_error option"

text \<open>The write of a key and a value to the diff database, as the code uses it.\<close>

type_synonym 'db kv_set = "'db \<Rightarrow> byte list \<Rightarrow> byte list \<Rightarrow> string + 'db"

section \<open>Serialisation of a diff\<close>

definition uint64Bytes :: "nat \<Rightarrow> byte list" where
  "uint64Bytes v = be_encode 8 (v mod 2 ^ 64)"

definition encodeDiff :: "PoolDiff \<Rightarrow> byte list" where
  "encodeDiff d = uint64Bytes (length (In d)) @ concat (In d)
     @ uint64Bytes (length (Out d)) @ concat (Out d)"

definition storeDiff :: "'db kv_set \<Rightarrow> 'db \<Rightarrow> PoolDiff \<Rightarrow> nat \<Rightarrow> string + 'db" where
  "storeDiff dbSet db d height = dbSet db (uint64Bytes height) (encodeDiff d)"

section \<open>Moving the cursor\<close>

definition NewTicketPool :: "PoolDiff list \<Rightarrow> 'db \<Rightarrow> 'db TicketPool" where
  "NewTicketPool poolDiffs db =
     \<lparr>cursor = 0, tip = int (length poolDiffs), diffs = poolDiffs, pool = {}, diffDB = db\<rparr>"

definition maxCursor :: "'db TicketPool \<Rightarrow> int" where
  "maxCursor tp = (if tip tp = 0 then 0 else tip tp - 1)"

definition applyDiff :: "'db TicketPool \<Rightarrow> hash list \<Rightarrow> hash list \<Rightarrow> 'db TicketPool" where
  "applyDiff tp ins outs =
     (let grown = foldl (\<lambda>p h. insert h p) (pool tp) ins
      in tp\<lparr>pool := foldl (\<lambda>p h. p - {h}) grown outs\<rparr>)"

definition advance :: "'db TicketPool \<Rightarrow> 'db tp_result" where
  "advance tp =
     (if cursor tp > maxCursor tp then (tp, Some CursorAtTip)
      else if cursor tp < 0 \<or> int (length (diffs tp)) \<le> cursor tp then (tp, Some PanicIndex)
      else
        let diffToNext = diffs tp ! nat (cursor tp);
            initPoolSize = int (card (pool tp));
            expectedFinalSize =
              initPoolSize + int (length (In diffToNext)) - int (length (Out diffToNext));
            tp1 = applyDiff tp (In diffToNext) (Out diffToNext);
            tp2 = tp1\<lparr>cursor := cursor tp1 + 1\<rparr>
        in if int (card (pool tp2)) \<noteq> expectedFinalSize
           then (tp2, Some (PoolSize (int (card (pool tp2))) expectedFinalSize))
           else (tp2, None))"

definition retreat :: "'db TicketPool \<Rightarrow> 'db tp_result" where
  "retreat tp =
     (if cursor tp = 0 then (tp, Some CursorAtGenesis)
      else if cursor tp - 1 < 0 \<or> int (length (diffs tp)) \<le> cursor tp - 1
      then (tp, Some PanicIndex)
      else
        let diffFromPrev = diffs tp ! nat (cursor tp - 1);
            initPoolSize = int (card (pool tp));
            expectedFinalSize =
              initPoolSize - int (length (In diffFromPrev)) + int (length (Out diffFromPrev));
            tp1 = applyDiff tp (Out diffFromPrev) (In diffFromPrev);
            tp2 = tp1\<lparr>cursor := cursor tp1 - 1\<rparr>
        in if int (card (pool tp2)) \<noteq> expectedFinalSize
           then (tp2, Some (PoolSize (int (card (pool tp2))) expectedFinalSize))
           else (tp2, None))"

lemma applyDiff_eq: "applyDiff tp ins outs = tp\<lparr>pool := (pool tp \<union> set ins) - set outs\<rparr>"
  by (simp add: applyDiff_def foldl_insert_set foldl_remove_set)

lemma advance_cursor: "advance tp = (tp', None) \<Longrightarrow> cursor tp' = cursor tp + 1"
  by (auto simp: advance_def applyDiff_eq Let_def split: if_splits)

lemma retreat_cursor: "retreat tp = (tp', None) \<Longrightarrow> cursor tp' = cursor tp - 1"
  by (auto simp: retreat_def applyDiff_eq Let_def split: if_splits)

text \<open>The loops \<open>for height > tp.cursor\<close> and \<open>for tp.cursor > height\<close>.\<close>

function advance_loop :: "int \<Rightarrow> 'db TicketPool \<Rightarrow> 'db tp_result" where
  "advance_loop height tp =
     (if height > cursor tp then
        (case advance tp of
           (tp', None) \<Rightarrow> advance_loop height tp'
         | (tp', Some e) \<Rightarrow> (tp', Some e))
      else (tp, None))"
  by pat_completeness auto
termination
  by (relation "measure (\<lambda>(h, tp). nat (h - cursor tp))") (auto dest!: sym [THEN advance_cursor])

function retreat_loop :: "int \<Rightarrow> 'db TicketPool \<Rightarrow> 'db tp_result" where
  "retreat_loop height tp =
     (if cursor tp > height then
        (case retreat tp of
           (tp', None) \<Rightarrow> retreat_loop height tp'
         | (tp', Some e) \<Rightarrow> (tp', Some e))
      else (tp, None))"
  by pat_completeness auto
termination
  by (relation "measure (\<lambda>(h, tp). nat (cursor tp - h))") (auto dest!: sym [THEN retreat_cursor])

declare advance_loop.simps [simp del] retreat_loop.simps [simp del]

definition advanceTo :: "int \<Rightarrow> 'db TicketPool \<Rightarrow> 'db tp_result" where
  "advanceTo height tp =
     (if height > tip tp then (tp, Some PastTip) else advance_loop height tp)"

definition retreatTo :: "int \<Rightarrow> 'db TicketPool \<Rightarrow> 'db tp_result" where
  "retreatTo height tp =
     (if height < 0 \<or> height > tip tp then (tp, Some (InvalidCursor height))
      else retreat_loop height tp)"

definition AdvanceToTip :: "'db TicketPool \<Rightarrow> 'db TicketPool \<times> int \<times> tp_error option" where
  "AdvanceToTip tp =
     (case advanceTo (tip tp) tp of (tp', err) \<Rightarrow> (tp', cursor tp', err))"

definition CurrentPool :: "'db TicketPool \<Rightarrow> hash set \<times> int" where
  "CurrentPool tp = (pool tp, cursor tp)"

definition CurrentPoolSize :: "'db TicketPool \<Rightarrow> nat" where
  "CurrentPoolSize tp = card (pool tp)"

definition Pool :: "int \<Rightarrow> 'db TicketPool \<Rightarrow> 'db TicketPool \<times> (tp_error + hash set)" where
  "Pool height tp =
     (if height > tip tp then (tp, Inl (NotConnected height (tip tp)))
      else case advance_loop height tp of
             (tp1, Some e) \<Rightarrow> (tp1, Inl e)
           | (tp1, None) \<Rightarrow>
               (case retreat_loop height tp1 of
                  (tp2, Some e) \<Rightarrow> (tp2, Inl e)
                | (tp2, None) \<Rightarrow> (tp2, Inr (fst (CurrentPool tp2)))))"

section \<open>Growing and trimming the diffs\<close>

definition append_diff :: "PoolDiff \<Rightarrow> 'db TicketPool \<Rightarrow> 'db TicketPool" where
  "append_diff d tp = tp\<lparr>tip := tip tp + 1, diffs := diffs tp @ [d]\<rparr>"

text \<open>The part of \<open>Append\<close> that runs under the lock.\<close>

definition Append_locked ::
  "'db kv_set \<Rightarrow> PoolDiff \<Rightarrow> int \<Rightarrow> 'db TicketPool \<Rightarrow> 'db tp_result" where
  "Append_locked dbSet d height tp =
     (let tp1 = append_diff d tp
      in case storeDiff dbSet (diffDB tp1) d (nat (height mod 2 ^ 64)) of
           Inl e \<Rightarrow> (tp1, Some (StoreError e))
         | Inr db \<Rightarrow> (tp1\<lparr>diffDB := db\<rparr>, None))"

definition Append :: "'db kv_set \<Rightarrow> PoolDiff \<Rightarrow> int \<Rightarrow> 'db TicketPool \<Rightarrow> 'db tp_result" where
  "Append dbSet d height tp =
     (if height \<noteq> tip tp + 1 then (tp, Some (NotBuildOn height (tip tp)))
      else Append_locked dbSet d height tp)"

definition AppendAndAdvancePool ::
  "'db kv_set \<Rightarrow> PoolDiff \<Rightarrow> int \<Rightarrow> 'db TicketPool \<Rightarrow> 'db tp_result" where
  "AppendAndAdvancePool dbSet d height tp =
     (if height \<noteq> tip tp + 1 then (tp, Some (NotBuildOn height (tip tp)))
      else case Append_locked dbSet d height tp of
             (tp1, Some e) \<Rightarrow> (tp1, Some e)
           | (tp1, None) \<Rightarrow> advance tp1)"

definition Trim :: "'db TicketPool \<Rightarrow> 'db TicketPool \<times> (tp_error + int \<times> PoolDiff)" where
  "Trim tp =
     (if tip tp = 0 \<or> diffs tp = [] then (tp, Inr (tip tp, \<lparr>In = [], Out = []\<rparr>))
      else
        let tp1 = tp\<lparr>tip := tip tp - 1\<rparr>;
            newMaxCursor = maxCursor tp1;
            (tp2, err) = (if cursor tp1 > newMaxCursor then retreatTo newMaxCursor tp1
                          else (tp1, None))
        in if err = Some PanicIndex then (tp2, Inl PanicIndex)
           else
             let undo = last (diffs tp2);
                 tp3 = tp2\<lparr>diffs := butlast (diffs tp2)\<rparr>
             in (tp3, Inr (tip tp3, undo)))"

section \<open>The state a height stands for\<close>

definition diff_app :: "PoolDiff \<Rightarrow> hash set \<Rightarrow> hash set" where
  "diff_app d P = (P \<union> set (In d)) - set (Out d)"

definition diff_unapp :: "PoolDiff \<Rightarrow> hash set \<Rightarrow> hash set" where
  "diff_unapp d P = (P \<union> set (Out d)) - set (In d)"

text \<open>
  A diff fits a pool when its incoming tickets are new and distinct, and its outgoing
  tickets are distinct members of the pool once the incoming ones are there.
\<close>

definition diff_ok :: "PoolDiff \<Rightarrow> hash set \<Rightarrow> bool" where
  "diff_ok d P \<longleftrightarrow> distinct (In d) \<and> distinct (Out d) \<and> set (In d) \<inter> P = {}
     \<and> set (Out d) \<subseteq> P \<union> set (In d)"

abbreviation pool_at :: "PoolDiff list \<Rightarrow> nat \<Rightarrow> hash set" where
  "pool_at ds n \<equiv> replay diff_app ds n {}"

abbreviation valid_diffs :: "PoolDiff list \<Rightarrow> bool" where
  "valid_diffs ds \<equiv> valid_log diff_app diff_ok ds {}"

interpretation tpl: diff_log diff_app diff_unapp diff_ok finite
  by unfold_locales (auto simp: diff_app_def diff_unapp_def diff_ok_def)

definition tp_inv :: "'db TicketPool \<Rightarrow> bool" where
  "tp_inv tp \<longleftrightarrow> tip tp = int (length (diffs tp)) \<and> 0 \<le> cursor tp \<and> cursor tp \<le> tip tp
     \<and> valid_diffs (diffs tp) \<and> pool tp = pool_at (diffs tp) (nat (cursor tp))"

lemma diff_app_size:
  assumes "diff_ok d P" and "finite P"
  shows "int (card (diff_app d P)) = int (card P) + int (length (In d)) - int (length (Out d))"
proof -
  have "card (P \<union> set (In d)) = card P + length (In d)"
    using assms by (intro card_union_distinct) (auto simp: diff_ok_def)
  moreover have "card ((P \<union> set (In d)) - set (Out d)) + length (Out d) = card (P \<union> set (In d))"
    using assms by (intro card_minus_distinct) (auto simp: diff_ok_def)
  ultimately show ?thesis
    by (simp add: diff_app_def)
qed

text \<open>The pool with the cursor moved to another height.\<close>

definition at_height :: "'db TicketPool \<Rightarrow> int \<Rightarrow> 'db TicketPool" where
  "at_height tp h = tp\<lparr>cursor := h, pool := pool_at (diffs tp) (nat h)\<rparr>"

lemma at_height_simps [simp]:
  "cursor (at_height tp h) = h"
  "tip (at_height tp h) = tip tp"
  "diffs (at_height tp h) = diffs tp"
  "pool (at_height tp h) = pool_at (diffs tp) (nat h)"
  "diffDB (at_height tp h) = diffDB tp"
  "at_height (at_height tp h) h' = at_height tp h'"
  by (simp_all add: at_height_def)

lemma at_height_self: "tp_inv tp \<Longrightarrow> at_height tp (cursor tp) = tp"
  by (simp add: at_height_def tp_inv_def)

lemma at_height_inv: "tp_inv tp \<Longrightarrow> 0 \<le> h \<Longrightarrow> h \<le> tip tp \<Longrightarrow> tp_inv (at_height tp h)"
  by (simp add: tp_inv_def)

lemma advance_step:
  assumes "tp_inv tp" and "cursor tp < tip tp"
  shows "advance tp = (at_height tp (cursor tp + 1), None)"
proof -
  let ?n = "nat (cursor tp)" and ?P = "pool tp"
  let ?d = "diffs tp ! ?n"
  have n: "?n < length (diffs tp)" and P: "?P = pool_at (diffs tp) ?n"
    and v: "valid_diffs (diffs tp)"
    using assms by (auto simp: tp_inv_def)
  have ok: "diff_ok ?d ?P" using valid_log_nth [OF v n] P by simp
  have "finite ?P" using tpl.inv_replay [OF _ v] P by simp
  then have size: "int (card (diff_app ?d ?P)) = int (card ?P) + int (length (In ?d)) - int (length (Out ?d))"
    using ok by (intro diff_app_size)
  have next_pool: "pool_at (diffs tp) (nat (cursor tp + 1)) = diff_app ?d ?P"
    using n P assms(1) by (simp add: nat_add_distrib tp_inv_def replay_Suc)
  have guards: "\<not> cursor tp > maxCursor tp" "\<not> cursor tp < 0" "\<not> int (length (diffs tp)) \<le> cursor tp"
    using assms by (auto simp: tp_inv_def maxCursor_def)
  show ?thesis
    using guards size next_pool
    by (simp add: advance_def applyDiff_eq Let_def at_height_def diff_app_def)
qed

lemma retreat_step:
  assumes "tp_inv tp" and "0 < cursor tp"
  shows "retreat tp = (at_height tp (cursor tp - 1), None)"
proof -
  let ?n = "nat (cursor tp - 1)"
  let ?d = "diffs tp ! ?n" and ?P = "pool_at (diffs tp) ?n"
  have n: "?n < length (diffs tp)" and v: "valid_diffs (diffs tp)" and c: "nat (cursor tp) = Suc ?n"
    using assms by (auto simp: tp_inv_def)
  have P: "pool tp = diff_app ?d ?P"
    using assms n c by (simp add: tp_inv_def replay_Suc)
  have undo: "diff_unapp ?d (pool tp) = ?P"
    using tpl.unreplay [OF v n] assms c by (simp add: tp_inv_def)
  have "finite ?P" using tpl.inv_replay [OF _ v] by simp
  then have "int (card (pool tp)) = int (card ?P) + int (length (In ?d)) - int (length (Out ?d))"
    unfolding P using valid_log_nth [OF v n] by (intro diff_app_size)
  then show ?thesis
    using assms undo
    by (simp add: retreat_def applyDiff_eq Let_def at_height_def diff_unapp_def tp_inv_def)
qed

lemma advance_loop_reaches:
  "tp_inv tp \<Longrightarrow> cursor tp \<le> h \<Longrightarrow> h \<le> tip tp \<Longrightarrow> advance_loop h tp = (at_height tp h, None)"
proof (induction h tp rule: advance_loop.induct)
  case (1 h tp)
  show ?case
  proof (cases "cursor tp < h")
    case True
    have "advance tp = (at_height tp (cursor tp + 1), None)"
      using 1 True by (intro advance_step) auto
    moreover have "tp_inv (at_height tp (cursor tp + 1))"
      using 1 True by (intro at_height_inv) (auto simp: tp_inv_def)
    ultimately show ?thesis
      using 1 True by (simp add: advance_loop.simps [of h tp])
  next
    case False
    then have "h = cursor tp" using 1 by simp
    then show ?thesis
      using 1 at_height_self [of tp] by (simp add: advance_loop.simps [of "cursor tp" tp])
  qed
qed

lemma retreat_loop_reaches:
  "tp_inv tp \<Longrightarrow> 0 \<le> h \<Longrightarrow> h \<le> cursor tp \<Longrightarrow> retreat_loop h tp = (at_height tp h, None)"
proof (induction h tp rule: retreat_loop.induct)
  case (1 h tp)
  show ?case
  proof (cases "h < cursor tp")
    case True
    have "retreat tp = (at_height tp (cursor tp - 1), None)"
      using 1 True by (intro retreat_step) auto
    moreover have "tp_inv (at_height tp (cursor tp - 1))"
      using 1 True by (intro at_height_inv) (auto simp: tp_inv_def)
    ultimately show ?thesis
      using 1 True by (simp add: retreat_loop.simps [of h tp])
  next
    case False
    then have "h = cursor tp" using 1 by simp
    then show ?thesis
      using 1 at_height_self [of tp] by (simp add: retreat_loop.simps [of "cursor tp" tp])
  qed
qed

lemma advance_loop_idle: "h \<le> cursor tp \<Longrightarrow> advance_loop h tp = (tp, None)"
  by (simp add: advance_loop.simps [of h tp])

lemma retreat_loop_idle: "cursor tp \<le> h \<Longrightarrow> retreat_loop h tp = (tp, None)"
  by (simp add: retreat_loop.simps [of h tp])

text \<open>A height below genesis: the loop stops at genesis with the error of \<open>retreat\<close>.\<close>

lemma retreat_loop_negative:
  "tp_inv tp \<Longrightarrow> h < 0 \<Longrightarrow> retreat_loop h tp = (at_height tp 0, Some CursorAtGenesis)"
proof (induction h tp rule: retreat_loop.induct)
  case (1 h tp)
  show ?case
  proof (cases "0 < cursor tp")
    case True
    have "retreat tp = (at_height tp (cursor tp - 1), None)"
      using 1 True by (intro retreat_step) auto
    moreover have "tp_inv (at_height tp (cursor tp - 1))"
      using 1 True by (intro at_height_inv) (auto simp: tp_inv_def)
    ultimately show ?thesis
      using 1 True by (simp add: retreat_loop.simps [of h tp])
  next
    case False
    then have "cursor tp = 0" using 1 by (simp add: tp_inv_def)
    then have "retreat tp = (tp, Some CursorAtGenesis)" by (simp add: retreat_def)
    then have "retreat_loop h tp = (tp, Some CursorAtGenesis)"
      using \<open>cursor tp = 0\<close> "1.prems"(2) by (subst retreat_loop.simps) simp
    moreover have "at_height tp 0 = tp"
      using at_height_self [OF "1.prems"(1)] \<open>cursor tp = 0\<close> by metis
    ultimately show ?thesis by simp
  qed
qed

lemma Pool_result:
  assumes "tp_inv tp"
  shows "Pool h tp =
    (if h > tip tp then (tp, Inl (NotConnected h (tip tp)))
     else if h < 0 then (at_height tp 0, Inl CursorAtGenesis)
     else (at_height tp h, Inr (pool_at (diffs tp) (nat h))))"
proof -
  consider "h > tip tp" | "h < 0" "h \<le> tip tp" | "0 \<le> h" "h \<le> tip tp" "cursor tp \<le> h"
    | "0 \<le> h" "h \<le> tip tp" "h < cursor tp" by linarith
  then show ?thesis
  proof cases
    case 1
    then show ?thesis by (simp add: Pool_def)
  next
    case 2
    moreover have "advance_loop h tp = (tp, None)"
      using 2 assms by (intro advance_loop_idle) (simp add: tp_inv_def)
    ultimately show ?thesis
      using assms by (simp add: Pool_def retreat_loop_negative)
  next
    case 3
    then show ?thesis
      using assms by (simp add: Pool_def advance_loop_reaches retreat_loop_idle CurrentPool_def)
  next
    case 4
    then show ?thesis
      using assms by (simp add: Pool_def advance_loop_idle retreat_loop_reaches CurrentPool_def)
  qed
qed

lemma Pool_inv: "tp_inv tp \<Longrightarrow> tp_inv (fst (Pool h tp))"
  by (auto simp: Pool_result intro!: at_height_inv) (simp_all add: tp_inv_def)

lemma NewTicketPool_inv: "valid_diffs ds \<Longrightarrow> tp_inv (NewTicketPool ds db)"
  by (simp add: tp_inv_def NewTicketPool_def)

lemma AdvanceToTip_result:
  assumes "tp_inv tp"
  shows "AdvanceToTip tp = (at_height tp (tip tp), tip tp, None)"
  using assms advance_loop_reaches [OF assms, of "tip tp"]
  by (simp add: AdvanceToTip_def advanceTo_def tp_inv_def)

lemma append_diff_inv:
  assumes "tp_inv tp" and "diff_ok d (pool_at (diffs tp) (length (diffs tp)))"
  shows "tp_inv (append_diff d tp)"
  using assms by (simp add: tp_inv_def append_diff_def valid_log_snoc replay_append nat_le_iff)

lemma tp_inv_diffDB [simp]: "tp_inv (tp\<lparr>diffDB := db\<rparr>) = tp_inv tp"
  by (simp add: tp_inv_def)

lemma Append_locked_cases:
  obtains e where "Append_locked dbSet d h tp = (append_diff d tp, Some (StoreError e))"
  | db where "Append_locked dbSet d h tp = ((append_diff d tp)\<lparr>diffDB := db\<rparr>, None)"
  by (cases "storeDiff dbSet (diffDB (append_diff d tp)) d (nat (h mod 2 ^ 64))")
    (simp_all add: Append_locked_def Let_def)

lemma Append_inv:
  assumes "tp_inv tp" and "diff_ok d (pool_at (diffs tp) (length (diffs tp)))"
  shows "tp_inv (fst (Append dbSet d h tp))"
  using assms append_diff_inv [OF assms]
  by (cases rule: Append_locked_cases [of dbSet d h tp]) (auto simp: Append_def)

lemma AppendAndAdvancePool_inv:
  assumes "tp_inv tp" and "diff_ok d (pool_at (diffs tp) (length (diffs tp)))"
  shows "tp_inv (fst (AppendAndAdvancePool dbSet d h tp))"
proof (cases rule: Append_locked_cases [of dbSet d h tp])
  case (1 e)
  then show ?thesis
    using assms append_diff_inv [OF assms] by (auto simp: AppendAndAdvancePool_def)
next
  case (2 db)
  let ?tp = "(append_diff d tp)\<lparr>diffDB := db\<rparr>"
  have inv: "tp_inv ?tp" using append_diff_inv [OF assms] by simp
  have "cursor ?tp < tip ?tp" using assms(1) by (simp add: append_diff_def tp_inv_def)
  then have "advance ?tp = (at_height ?tp (cursor ?tp + 1), None)"
    using inv by (intro advance_step)
  moreover have "tp_inv (at_height ?tp (cursor ?tp + 1))"
    using inv \<open>cursor ?tp < tip ?tp\<close> by (intro at_height_inv) (auto simp: tp_inv_def)
  ultimately show ?thesis
    using 2 assms(1) by (auto simp: AppendAndAdvancePool_def)
qed

lemma tp_inv_shorter:
  assumes "tp_inv tp" and "cursor tp < tip tp"
  shows "tp_inv (tp\<lparr>tip := tip tp - 1, diffs := butlast (diffs tp)\<rparr>)"
proof -
  have "nat (cursor tp) < length (diffs tp)" "diffs tp \<noteq> []"
    using assms by (auto simp: tp_inv_def)
  then show ?thesis
    using assms by (simp add: tp_inv_def valid_log_butlast replay_butlast of_nat_diff Suc_le_eq)
qed

text \<open>\<open>retreat\<close> does not look at the tip, so \<open>Trim\<close> may lower it first.\<close>

lemma retreat_tip:
  "retreat (tp\<lparr>tip := t\<rparr>) = (fst (retreat tp)\<lparr>tip := t\<rparr>, snd (retreat tp))"
  by (simp add: retreat_def applyDiff_eq Let_def)

lemma retreat_loop_tip:
  "retreat_loop h (tp\<lparr>tip := t\<rparr>) = (fst (retreat_loop h tp)\<lparr>tip := t\<rparr>, snd (retreat_loop h tp))"
proof (induction h tp rule: retreat_loop.induct)
  case (1 h tp)
  then show ?case
    by (simp add: retreat_loop.simps [of h "tp\<lparr>tip := t\<rparr>"] retreat_loop.simps [of h tp]
        retreat_tip split: prod.split option.split)
qed

lemma Trim_result:
  assumes "tp_inv tp" and "0 < tip tp"
  defines "c \<equiv> min (cursor tp) (max 0 (tip tp - 2))"
  shows "Trim tp = ((at_height tp c)\<lparr>tip := tip tp - 1, diffs := butlast (diffs tp)\<rparr>,
           Inr (tip tp - 1, last (diffs tp)))"
proof -
  let ?m = "max 0 (tip tp - 2)" and ?tp1 = "tp\<lparr>tip := tip tp - 1\<rparr>"
  have m: "maxCursor ?tp1 = ?m" using assms(2) by (auto simp: maxCursor_def)
  have ne: "diffs tp \<noteq> []" using assms by (auto simp: tp_inv_def)
  show ?thesis
  proof (cases "cursor tp > ?m")
    case True
    have "retreatTo ?m ?tp1 = ((at_height tp ?m)\<lparr>tip := tip tp - 1\<rparr>, None)"
      using True assms(1,2) retreat_loop_reaches [OF assms(1), of ?m]
      by (simp add: retreatTo_def retreat_loop_tip)
    then show ?thesis
      using True m ne assms(2) by (simp add: Trim_def c_def Let_def)
  next
    case False
    then have "c = cursor tp" unfolding c_def by linarith
    then have "at_height tp c = tp" using at_height_self [OF assms(1)] by simp
    with False show ?thesis
      using m ne assms(2) by (auto simp: Trim_def Let_def)
  qed
qed

lemma Trim_inv: "tp_inv tp \<Longrightarrow> tp_inv (fst (Trim tp))"
proof (cases "0 < tip tp")
  case True
  assume inv: "tp_inv tp"
  let ?c = "min (cursor tp) (max 0 (tip tp - 2))"
  have "tp_inv (at_height tp ?c)"
    using inv True by (intro at_height_inv) (auto simp: tp_inv_def)
  then have "tp_inv ((at_height tp ?c)\<lparr>tip := tip tp - 1, diffs := butlast (diffs tp)\<rparr>)"
    using tp_inv_shorter [of "at_height tp ?c"] True by simp
  then show ?thesis using Trim_result [OF inv True] by simp
next
  case False
  assume "tp_inv tp"
  with False show ?thesis by (simp add: Trim_def tp_inv_def)
qed

section \<open>Runs of the exported operations\<close>

text \<open>
  One step is one exported call made with the lock held: a query at any height, a move to
  the tip, a trim, or an append of a diff that fits the pool at the tip, whatever the
  database answers.
\<close>

inductive tp_step :: "'db TicketPool \<Rightarrow> 'db TicketPool \<Rightarrow> bool" where
  query: "tp_step tp (fst (Pool h tp))"
| to_tip: "tp_step tp (fst (AdvanceToTip tp))"
| trim: "tp_step tp (fst (Trim tp))"
| append: "diff_ok d (pool_at (diffs tp) (length (diffs tp))) \<Longrightarrow>
     tp_step tp (fst (Append dbSet d h tp))"
| append_advance: "diff_ok d (pool_at (diffs tp) (length (diffs tp))) \<Longrightarrow>
     tp_step tp (fst (AppendAndAdvancePool dbSet d h tp))"

inductive tp_reachable :: "PoolDiff list \<Rightarrow> 'db \<Rightarrow> 'db TicketPool \<Rightarrow> bool"
  for ds :: "PoolDiff list" and db :: 'db where
  start: "tp_reachable ds db (NewTicketPool ds db)"
| step: "tp_reachable ds db tp \<Longrightarrow> tp_step tp tp' \<Longrightarrow> tp_reachable ds db tp'"

lemma AdvanceToTip_inv: "tp_inv tp \<Longrightarrow> tp_inv (fst (AdvanceToTip tp))"
  by (simp add: AdvanceToTip_result) (rule at_height_inv, auto simp: tp_inv_def)

lemma tp_step_inv: "tp_step tp tp' \<Longrightarrow> tp_inv tp \<Longrightarrow> tp_inv tp'"
  by (induction rule: tp_step.induct)
    (blast intro: Pool_inv AdvanceToTip_inv Trim_inv Append_inv AppendAndAdvancePool_inv)+

lemma tp_reachable_inv:
  assumes "tp_reachable ds db tp" and "valid_diffs ds"
  shows "tp_inv tp"
  using assms by (induction rule: tp_reachable.induct) (auto intro: NewTicketPool_inv tp_step_inv)

section \<open>Two concurrent appends\<close>

text \<open>
  \<open>Append\<close> compares the height with the tip before it takes the lock, so the test and
  the locked part are two steps of a thread.
\<close>

datatype append_pc =
    Append_start PoolDiff int
  | Append_passed PoolDiff int
  | Append_done "tp_error option"

inductive append_step ::
  "'db kv_set \<Rightarrow> (nat \<Rightarrow> append_pc) \<times> 'db TicketPool \<Rightarrow> (nat \<Rightarrow> append_pc) \<times> 'db TicketPool \<Rightarrow> bool"
  for dbSet :: "'db kv_set" where
  reject: "pcs i = Append_start d h \<Longrightarrow> h \<noteq> tip tp + 1 \<Longrightarrow>
     append_step dbSet (pcs, tp) (pcs(i := Append_done (Some (NotBuildOn h (tip tp)))), tp)"
| accept: "pcs i = Append_start d h \<Longrightarrow> h = tip tp + 1 \<Longrightarrow>
     append_step dbSet (pcs, tp) (pcs(i := Append_passed d h), tp)"
| locked: "pcs i = Append_passed d h \<Longrightarrow>
     append_step dbSet (pcs, tp)
       (pcs(i := Append_done (snd (Append_locked dbSet d h tp))), fst (Append_locked dbSet d h tp))"

lemma append_steps_race:
  assumes "pcs 0 = Append_start d0 (tip tp + 1)" and "pcs 1 = Append_start d1 (tip tp + 1)"
    and tp1: "Append_locked dbSet d0 (tip tp + 1) tp = (tp1, e0)"
    and tp2: "Append_locked dbSet d1 (tip tp + 1) tp1 = (tp2, e1)"
  shows "(append_step dbSet)\<^sup>*\<^sup>* (pcs, tp) (pcs(0 := Append_done e0, 1 := Append_done e1), tp2)"
proof -
  let ?h = "tip tp + 1"
  let ?a = "pcs(0 := Append_passed d0 ?h)"
  let ?b = "?a(1 := Append_passed d1 ?h)"
  let ?c = "?b(0 := Append_done e0)"
  have 1: "append_step dbSet (pcs, tp) (?a, tp)"
    using assms(1) by (intro accept) auto
  have 2: "append_step dbSet (?a, tp) (?b, tp)"
    using assms(2) by (intro accept) auto
  have 3: "append_step dbSet (?b, tp) (?c, tp1)"
    using append_step.locked [of ?b 0 d0 ?h dbSet tp] tp1 by simp
  have 4: "append_step dbSet (?c, tp1) (?c(1 := Append_done e1), tp2)"
    using append_step.locked [of ?c 1 d1 ?h dbSet tp1] tp2 by simp
  have "?c(1 := Append_done e1) = pcs(0 := Append_done e0, 1 := Append_done e1)"
    by (simp add: fun_eq_iff)
  then show ?thesis
    using 1 2 3 4 by (metis (no_types, lifting) rtranclp.rtrancl_into_rtrancl rtranclp.rtrancl_refl)
qed

section \<open>Properties\<close>

lemma advance_at_tip: "tp_inv tp \<Longrightarrow> 0 < tip tp \<Longrightarrow> cursor tp = tip tp \<Longrightarrow> advance tp = (tp, Some CursorAtTip)"
  by (simp add: advance_def maxCursor_def)

lemma retreat_at_genesis: "cursor tp = 0 \<Longrightarrow> retreat tp = (tp, Some CursorAtGenesis)"
  by (simp add: retreat_def)

text \<open>C1. The pool of a height: in every state that exported calls reach from a log of fitting
  diffs, \<open>Pool\<close> at a height between genesis and the tip returns exactly the tickets that
  the first \<open>h\<close> diffs build from the empty pool, leaves the cursor at that height and keeps
  the diffs, whichever direction the cursor had to move.\<close>

theorem Pool_at_height:
  assumes "tp_reachable ds db tp" and "valid_log diff_app diff_ok ds {}"
    and "0 \<le> h" and "h \<le> tip tp"
  shows "snd (Pool h tp) = Inr (replay diff_app (diffs tp) (nat h) {})
    \<and> cursor (fst (Pool h tp)) = h \<and> diffs (fst (Pool h tp)) = diffs tp"
  using assms Pool_result [OF tp_reachable_inv [OF assms(1,2)], of h] by simp

theorem Pool_at_height_witness:
  "snd (Pool 1 (NewTicketPool [\<lparr>In = [[1], [2]], Out = []\<rparr>, \<lparr>In = [[3]], Out = [[1]]\<rparr>] ()))
     = Inr {[1], [2]}"
proof -
  let ?ds = "[\<lparr>In = [[1], [2]], Out = []\<rparr>, \<lparr>In = [[3]], Out = [[1]]\<rparr>] :: PoolDiff list"
  have "snd (Pool 1 (NewTicketPool ?ds ())) = Inr (replay diff_app ?ds (nat 1) {})"
    using Pool_at_height [OF tp_reachable.start, of ?ds 1 "()"]
    by (simp add: diff_ok_def diff_app_def NewTicketPool_def)
  then show ?thesis by (simp add: replay_def diff_app_def insert_commute)
qed

text \<open>C2. The invariant of the pool: in every reachable state the tip counts the diffs, the
  cursor lies between 0 and the tip, the diffs fit each other, and the pool holds what the
  diffs before the cursor build.\<close>

theorem ticket_pool_invariant:
  assumes "tp_reachable ds db tp" and "valid_log diff_app diff_ok ds {}"
  shows "tip tp = int (length (diffs tp)) \<and> 0 \<le> cursor tp \<and> cursor tp \<le> tip tp
    \<and> valid_log diff_app diff_ok (diffs tp) {}
    \<and> pool tp = replay diff_app (diffs tp) (nat (cursor tp)) {}"
  using tp_reachable_inv [OF assms] by (simp add: tp_inv_def)

theorem ticket_pool_invariant_witness:
  "pool (fst (AdvanceToTip (NewTicketPool [\<lparr>In = [[1], [2]], Out = []\<rparr>] ()))) = {[1], [2]}"
proof -
  let ?ds = "[\<lparr>In = [[1], [2]], Out = []\<rparr>] :: PoolDiff list"
  let ?tp = "fst (AdvanceToTip (NewTicketPool ?ds ()))"
  have ok: "valid_log diff_app diff_ok ?ds {}" by (simp add: diff_ok_def)
  have r: "tp_reachable ?ds () ?tp"
    by (rule tp_reachable.step [OF tp_reachable.start tp_step.to_tip])
  have e: "AdvanceToTip (NewTicketPool ?ds ()) = (at_height (NewTicketPool ?ds ()) 1, 1, None)"
    using AdvanceToTip_result [OF NewTicketPool_inv [OF ok]] by (simp add: NewTicketPool_def)
  have "pool ?tp = replay diff_app (diffs ?tp) (nat (cursor ?tp)) {}"
    using ticket_pool_invariant [OF r ok] by blast
  then show ?thesis
    unfolding e by (simp add: NewTicketPool_def replay_def diff_app_def insert_commute)
qed

text \<open>\<open>Trim\<close> undoes an append: after a successful \<open>Append\<close> of a fitting diff at the next
  height, \<open>Trim\<close> returns that diff and the old tip, the diffs are the old ones, and the
  pool still matches the cursor, which \<open>Trim\<close> keeps below the new last diff.\<close>

theorem Trim_undoes_Append:
  assumes "tp_inv tp" and "diff_ok d (replay diff_app (diffs tp) (length (diffs tp)) {})"
    and "Append dbSet d (tip tp + 1) tp = (tp', None)"
  shows "snd (Trim tp') = Inr (tip tp, d) \<and> diffs (fst (Trim tp')) = diffs tp
    \<and> tip (fst (Trim tp')) = tip tp \<and> tp_inv (fst (Trim tp'))
    \<and> cursor (fst (Trim tp')) = min (cursor tp) (max 0 (tip tp - 1))"
proof -
  have inv: "tp_inv tp'" using Append_inv [OF assms(1,2), of dbSet "tip tp + 1"] assms(3) by simp
  obtain db where "Append_locked dbSet d (tip tp + 1) tp = ((append_diff d tp)\<lparr>diffDB := db\<rparr>, None)"
    using assms(3) by (cases rule: Append_locked_cases [of dbSet d "tip tp + 1" tp])
      (auto simp: Append_def)
  then have tp': "tp' = (append_diff d tp)\<lparr>diffDB := db\<rparr>"
    using assms(3) by (simp add: Append_def)
  then have "0 < tip tp'" using assms(1) by (simp add: append_diff_def tp_inv_def)
  from Trim_result [OF inv this] Trim_inv [OF inv] show ?thesis
    using tp' by (simp add: append_diff_def)
qed

theorem Trim_undoes_Append_witness:
  "snd (Trim (fst (Append (\<lambda>db k v. Inr ()) \<lparr>In = [[1]], Out = []\<rparr> 1 (NewTicketPool [] ()))))
     = Inr (0, \<lparr>In = [[1]], Out = []\<rparr>)"
  using Trim_undoes_Append [OF NewTicketPool_inv, of "[]" "\<lparr>In = [[1]], Out = []\<rparr>" "()"
      "\<lambda>db k v. Inr ()"]
  by (simp add: diff_ok_def NewTicketPool_def Append_def Append_locked_def append_diff_def
      storeDiff_def)

text \<open>Every branch of \<open>AppendAndAdvancePool\<close>: a height that does not build on the tip is
  refused without a change; a failed write reports the error but leaves the diff and the
  higher tip in memory; otherwise the diff is appended and the cursor moves by one, to the
  pool of that height.\<close>

theorem AppendAndAdvancePool_branches:
  assumes "tp_inv tp" and "diff_ok d (replay diff_app (diffs tp) (length (diffs tp)) {})"
  shows "AppendAndAdvancePool dbSet d h tp =
    (if h \<noteq> tip tp + 1 then (tp, Some (NotBuildOn h (tip tp)))
     else case storeDiff dbSet (diffDB tp) d (nat (h mod 2 ^ 64)) of
       Inl e \<Rightarrow> (tp\<lparr>tip := h, diffs := diffs tp @ [d]\<rparr>, Some (StoreError e))
     | Inr db \<Rightarrow>
         (tp\<lparr>cursor := cursor tp + 1, tip := h, diffs := diffs tp @ [d],
            pool := replay diff_app (diffs tp @ [d]) (nat (cursor tp + 1)) {}, diffDB := db\<rparr>, None))"
proof (cases "h = tip tp + 1 \<and> (\<exists>db. storeDiff dbSet (diffDB tp) d (nat (h mod 2 ^ 64)) = Inr db)")
  case True
  then obtain db where h: "h = tip tp + 1"
    and db: "storeDiff dbSet (diffDB tp) d (nat (h mod 2 ^ 64)) = Inr db" by blast
  let ?tp = "(append_diff d tp)\<lparr>diffDB := db\<rparr>"
  have inv: "tp_inv ?tp" using append_diff_inv [OF assms] by simp
  have "cursor ?tp < tip ?tp" using assms(1) by (simp add: append_diff_def tp_inv_def)
  then have "advance ?tp = (at_height ?tp (cursor ?tp + 1), None)"
    using inv by (intro advance_step)
  moreover have "Append_locked dbSet d h tp = (?tp, None)"
    using db by (simp add: Append_locked_def append_diff_def Let_def)
  ultimately show ?thesis
    using h db by (simp add: AppendAndAdvancePool_def at_height_def append_diff_def)
next
  case False
  then show ?thesis
    by (cases "storeDiff dbSet (diffDB tp) d (nat (h mod 2 ^ 64))")
      (auto simp: AppendAndAdvancePool_def Append_locked_def append_diff_def Let_def)
qed

theorem AppendAndAdvancePool_branches_witness:
  "AppendAndAdvancePool (\<lambda>db k v. Inl ''full'') \<lparr>In = [[1]], Out = []\<rparr> 1 (NewTicketPool [] ())
     = (\<lparr>cursor = 0, tip = 1, diffs = [\<lparr>In = [[1]], Out = []\<rparr>], pool = {}, diffDB = ()\<rparr>,
        Some (StoreError ''full''))"
  using AppendAndAdvancePool_branches [OF NewTicketPool_inv, of "[]" "\<lparr>In = [[1]], Out = []\<rparr>" "()"
      "\<lambda>db k v. Inl ''full''" 1]
  by (simp add: diff_ok_def NewTicketPool_def storeDiff_def)

text \<open>C39. The errors of the ticket pool, in a state that its calls reach from a log whose diffs fit each other: \<open>Pool\<close> at a height above
  the tip is refused without a change, at a negative height it stops at genesis with the error of \<open>retreat\<close>, and at every other
  height it returns the pool of that height; \<open>AdvanceToTip\<close> succeeds and stops at the tip; \<open>Trim\<close> does not panic, and
  returns the last diff and the tip below, or an empty diff at tip 0. So the size checks of \<open>advance\<close> and
  \<open>retreat\<close> and the slice accesses behind these calls do not fail. \<open>Append\<close> and \<open>AppendAndAdvancePool\<close> of a diff that fits fail only for a height that does not
  follow the tip, then without a change, or because the write to the database fails; in the latter case the
  call fails half way: the diff stays in memory and the tip is one higher.\<close>

theorem ticket_pool_errors:
  assumes "tp_reachable ds db tp" and "valid_log diff_app diff_ok ds {}"
  shows "(h > tip tp \<longrightarrow> Pool h tp = (tp, Inl (NotConnected h (tip tp))))
    \<and> (h < 0 \<longrightarrow> snd (Pool h tp) = Inl CursorAtGenesis \<and> cursor (fst (Pool h tp)) = 0)
    \<and> (0 \<le> h \<and> h \<le> tip tp \<longrightarrow> snd (Pool h tp) = Inr (replay diff_app (diffs tp) (nat h) {}) \<and> cursor (fst (Pool h tp)) = h)
    \<and> snd (snd (AdvanceToTip tp)) = None \<and> fst (snd (AdvanceToTip tp)) = tip tp
    \<and> snd (Trim tp) = Inr (if tip tp = 0 then (0, \<lparr>In = [], Out = []\<rparr>) else (tip tp - 1, last (diffs tp)))
    \<and> (diff_ok d (replay diff_app (diffs tp) (length (diffs tp)) {}) \<longrightarrow>
         (\<forall>r \<in> {Append dbSet d k tp, AppendAndAdvancePool dbSet d k tp}.
            snd r = None \<and> k = tip tp + 1 \<and> tip (fst r) = k
            \<or> r = (tp, Some (NotBuildOn k (tip tp))) \<and> k \<noteq> tip tp + 1
            \<or> (\<exists>e. r = (tp\<lparr>tip := tip tp + 1, diffs := diffs tp @ [d]\<rparr>, Some (StoreError e)))))"
proof -
  have inv: "tp_inv tp" using tp_reachable_inv [OF assms] .
  then have t: "0 \<le> tip tp" by (simp add: tp_inv_def)
  have trim: "snd (Trim tp) = Inr (if tip tp = 0 then (0, \<lparr>In = [], Out = []\<rparr>) else (tip tp - 1, last (diffs tp)))"
    using Trim_result [OF inv] t by (cases "0 < tip tp") (simp_all add: Trim_def)
  have "snd (Append dbSet d k tp) = None \<and> k = tip tp + 1 \<and> tip (fst (Append dbSet d k tp)) = k
      \<or> Append dbSet d k tp = (tp, Some (NotBuildOn k (tip tp))) \<and> k \<noteq> tip tp + 1
      \<or> (\<exists>e. Append dbSet d k tp = (tp\<lparr>tip := tip tp + 1, diffs := diffs tp @ [d]\<rparr>, Some (StoreError e)))"
    by (cases rule: Append_locked_cases [of dbSet d k tp]) (auto simp: Append_def append_diff_def)
  moreover have "snd r = None \<and> k = tip tp + 1 \<and> tip (fst r) = k
      \<or> r = (tp, Some (NotBuildOn k (tip tp))) \<and> k \<noteq> tip tp + 1
      \<or> (\<exists>e. r = (tp\<lparr>tip := tip tp + 1, diffs := diffs tp @ [d]\<rparr>, Some (StoreError e)))"
    if "diff_ok d (replay diff_app (diffs tp) (length (diffs tp)) {})" "r = AppendAndAdvancePool dbSet d k tp" for r
    unfolding that(2) AppendAndAdvancePool_branches [OF inv that(1)] by (auto split: sum.split)
  ultimately show ?thesis
    using t trim Pool_result [OF inv, of h] AdvanceToTip_result [OF inv] by auto
qed

theorem ticket_pool_errors_witness:
  "snd (Pool (- 2) (NewTicketPool [\<lparr>In = [[1]], Out = []\<rparr>] ())) = Inl CursorAtGenesis
   \<and> Pool 7 (NewTicketPool [] ()) = (NewTicketPool [] (), Inl (NotConnected 7 0))
   \<and> snd (Trim (NewTicketPool [\<lparr>In = [[1]], Out = []\<rparr>] ())) = Inr (0, \<lparr>In = [[1]], Out = []\<rparr>)"
  using ticket_pool_errors [OF tp_reachable.start, of "[\<lparr>In = [[1]], Out = []\<rparr>]" "()" "- 2"]
    ticket_pool_errors [OF tp_reachable.start, of "[]" "()" 7]
  by (simp add: diff_ok_def diff_app_def NewTicketPool_def)

text \<open>The height test of \<open>Append\<close> runs before the lock is taken: two concurrent calls for
  the same next height can both pass it and both succeed, after which the tip is two higher
  and two diffs are stored under one database key.\<close>

theorem Append_race:
  assumes "\<And>db k v. \<exists>db'. dbSet db k v = Inr db'"
    and "pcs 0 = Append_start d0 (tip tp + 1)" and "pcs 1 = Append_start d1 (tip tp + 1)"
  shows "\<exists>pcs' tp'. (append_step dbSet)\<^sup>*\<^sup>* (pcs, tp) (pcs', tp')
    \<and> pcs' 0 = Append_done None \<and> pcs' 1 = Append_done None
    \<and> tip tp' = tip tp + 2 \<and> diffs tp' = diffs tp @ [d0, d1]"
proof -
  have ok: "\<exists>db. Append_locked dbSet d h tp = ((append_diff d tp)\<lparr>diffDB := db\<rparr>, None)" for d h tp
    using assms(1) [of "diffDB (append_diff d tp)" "uint64Bytes (nat (h mod 2 ^ 64))" "encodeDiff d"]
    by (auto simp: Append_locked_def storeDiff_def Let_def)
  obtain db0 where 0: "Append_locked dbSet d0 (tip tp + 1) tp = ((append_diff d0 tp)\<lparr>diffDB := db0\<rparr>, None)"
    using ok by blast
  obtain db1 where 1: "Append_locked dbSet d1 (tip tp + 1) ((append_diff d0 tp)\<lparr>diffDB := db0\<rparr>)
      = ((append_diff d1 ((append_diff d0 tp)\<lparr>diffDB := db0\<rparr>))\<lparr>diffDB := db1\<rparr>, None)"
    using ok by blast
  show ?thesis
    using append_steps_race [OF assms(2,3) 0 1]
    by (intro exI conjI) (assumption, simp_all add: append_diff_def)
qed

theorem Append_race_witness:
  "\<exists>pcs' tp'. (append_step (\<lambda>db k v. Inr ()))\<^sup>*\<^sup>*
       (\<lambda>i. Append_start \<lparr>In = [], Out = []\<rparr> 1, NewTicketPool [] ()) (pcs', tp')
     \<and> tip tp' = 2 \<and> pcs' 0 = Append_done None \<and> pcs' 1 = Append_done None"
  using Append_race [of "\<lambda>db k v. Inr ()" "\<lambda>i. Append_start \<lparr>In = [], Out = []\<rparr> 1"
      "\<lparr>In = [], Out = []\<rparr>" "NewTicketPool [] ()" "\<lparr>In = [], Out = []\<rparr>"]
  by (fastforce simp: NewTicketPool_def)

end
