(* ===== verification/PoolDiffDB.thy ===== *)
theory PoolDiffDB
  imports TicketPool
begin

text \<open>
  Loading the pool diffs from the on-disk database (\<open>stakedb/ticketpool.go\<close>:
  \<open>dbVersion\<close>, \<open>LoadAllPoolDiffs\<close> and its two versions). A badger iterator yields items
  in key order; it is third-party code, so the loaders take the list of items it yields.
  The gob decoder of version 0 is an argument. The reads of \<open>bytes.Reader\<close>, the panics on
  short keys, on heights out of order and on slices too large to allocate are written out.
\<close>

record db_item =
  item_key :: "byte list"
  item_value :: "byte list"
  item_meta :: byte

datatype load_error =
    EOF
  | NegativeOffset
  | ShortRead nat
  | Trailing nat
  | DecodeError string
  | BadVersionSize nat
  | BadVersion nat
  | PanicShortKey
  | PanicMakeSlice
  | PanicHeight nat nat
  | PanicLength nat nat

definition currentVersion :: nat where
  "currentVersion = 1"

definition dbVersion :: "db_item option \<Rightarrow> load_error + nat" where
  "dbVersion verItem =
     (case verItem of
        None \<Rightarrow> Inr 0
      | Some it \<Rightarrow>
          (if length (item_value it) \<noteq> 4 then Inl (BadVersionSize (length (item_value it)))
           else Inr (be_decode (item_value it))))"

section \<open>Reading a value\<close>

text \<open>
  \<open>reader_Read n r\<close> is \<open>bytes.Reader.Read\<close> into a buffer of \<open>n > 0\<close> bytes where \<open>r\<close> is what
  has not been read; \<open>reader_ReadAt n v off\<close> is \<open>ReadAt\<close> on the whole value.
\<close>

definition reader_Read :: "nat \<Rightarrow> byte list \<Rightarrow> load_error + byte list \<times> byte list" where
  "reader_Read n r = (if r = [] then Inl EOF else Inr (take n r, drop n r))"

definition reader_ReadAt :: "nat \<Rightarrow> byte list \<Rightarrow> int \<Rightarrow> load_error + byte list" where
  "reader_ReadAt n v off =
     (if off < 0 then Inl NegativeOffset
      else if int (length v) \<le> off then Inl EOF
      else let b = take n (drop (nat off) v) in if length b < n then Inl EOF else Inr b)"

fun readHashes :: "nat \<Rightarrow> byte list \<Rightarrow> load_error + hash list \<times> byte list" where
  "readHashes 0 r = Inr ([], r)"
| "readHashes (Suc k) r =
     (case reader_Read HashSize r of
        Inl e \<Rightarrow> Inl e
      | Inr (h, r1) \<Rightarrow>
          (if length h \<noteq> HashSize then Inl (ShortRead (length h))
           else case readHashes k r1 of
                  Inl e \<Rightarrow> Inl e
                | Inr (hs, r2) \<Rightarrow> Inr (h # hs, r2)))"

definition decodeDiff :: "nat \<Rightarrow> byte list \<Rightarrow> load_error + PoolDiff" where
  "decodeDiff maxAlloc v =
     (case reader_Read 8 v of
        Inl e \<Rightarrow> Inl e
      | Inr (inLenBytes, r1) \<Rightarrow>
          if length inLenBytes \<noteq> 8 then Inl (ShortRead (length inLenBytes))
          else
            let inLen = be_decode inLenBytes
            in case reader_ReadAt 8 v (wrap64 (8 + wrap64 (int inLen) * int HashSize)) of
                 Inl e \<Rightarrow> Inl e
               | Inr outLenBytes \<Rightarrow>
                   let outLen = be_decode outLenBytes
                   in if maxAlloc < inLen * HashSize \<or> maxAlloc < outLen * HashSize
                      then Inl PanicMakeSlice
                      else
                        (case readHashes inLen r1 of
                           Inl e \<Rightarrow> Inl e
                         | Inr (ins, r2) \<Rightarrow>
                             (case readHashes outLen (drop 8 r2) of
                                Inl e \<Rightarrow> Inl e
                              | Inr (outs, r3) \<Rightarrow>
                                  if r3 \<noteq> [] then Inl (Trailing (length r3))
                                  else Inr \<lparr>In = ins, Out = outs\<rparr>)))"

section \<open>Loading all diffs\<close>

text \<open>The checks both loaders make after a value is decoded, and after the loop.\<close>

definition heightCheck :: "nat \<Rightarrow> nat \<Rightarrow> load_error option" where
  "heightCheck lastheight height =
     (if (lastheight + 1) mod 2 ^ 64 \<noteq> height then Some (PanicHeight height lastheight) else None)"

definition lengthCheck ::
  "PoolDiff list \<Rightarrow> nat list \<Rightarrow> nat \<Rightarrow> load_error + PoolDiff list \<times> nat list" where
  "lengthCheck poolDiffs heights lastheight =
     (if 0 < length poolDiffs \<and> length poolDiffs \<noteq> lastheight
      then Inl (PanicLength lastheight (length poolDiffs))
      else Inr (poolDiffs, heights))"

fun loadItemsV1 ::
  "nat \<Rightarrow> db_item list \<Rightarrow> PoolDiff list \<Rightarrow> nat list \<Rightarrow> nat
     \<Rightarrow> load_error + PoolDiff list \<times> nat list" where
  "loadItemsV1 maxAlloc [] poolDiffs heights lastheight = lengthCheck poolDiffs heights lastheight"
| "loadItemsV1 maxAlloc (it # its) poolDiffs heights lastheight =
     (if item_meta it = 1 then loadItemsV1 maxAlloc its poolDiffs heights lastheight
      else if length (item_key it) < 8 then Inl PanicShortKey
      else
        let height = be_decode (take 8 (item_key it))
        in case decodeDiff maxAlloc (item_value it) of
             Inl e \<Rightarrow> Inl e
           | Inr d \<Rightarrow>
               (case heightCheck lastheight height of
                  Some e \<Rightarrow> Inl e
                | None \<Rightarrow> loadItemsV1 maxAlloc its (poolDiffs @ [d]) (heights @ [height]) height))"

definition loadAllPoolDiffsV1 ::
  "nat \<Rightarrow> db_item list \<Rightarrow> load_error + PoolDiff list \<times> nat list" where
  "loadAllPoolDiffsV1 maxAlloc its = loadItemsV1 maxAlloc its [] [] 0"

fun loadItemsV0 ::
  "(byte list \<Rightarrow> string + PoolDiff) \<Rightarrow> db_item list \<Rightarrow> PoolDiff list \<Rightarrow> nat list \<Rightarrow> nat
     \<Rightarrow> load_error + PoolDiff list \<times> nat list" where
  "loadItemsV0 gobDecode [] poolDiffs heights lastheight = lengthCheck poolDiffs heights lastheight"
| "loadItemsV0 gobDecode (it # its) poolDiffs heights lastheight =
     (if length (item_key it) < 8 then Inl PanicShortKey
      else
        let height = be_decode (take 8 (item_key it))
        in case gobDecode (item_value it) of
             Inl e \<Rightarrow> Inl (DecodeError e)
           | Inr d \<Rightarrow>
               (case heightCheck lastheight height of
                  Some e \<Rightarrow> Inl e
                | None \<Rightarrow> loadItemsV0 gobDecode its (poolDiffs @ [d]) (heights @ [height]) height))"

definition loadAllPoolDiffsV0 ::
  "(byte list \<Rightarrow> string + PoolDiff) \<Rightarrow> db_item list \<Rightarrow> load_error + PoolDiff list \<times> nat list" where
  "loadAllPoolDiffsV0 gobDecode its = loadItemsV0 gobDecode its [] [] 0"

definition LoadAllPoolDiffs ::
  "nat \<Rightarrow> (byte list \<Rightarrow> string + PoolDiff) \<Rightarrow> db_item list \<Rightarrow> nat
     \<Rightarrow> load_error + PoolDiff list \<times> nat list" where
  "LoadAllPoolDiffs maxAlloc gobDecode its ver =
     (if ver = 0 then loadAllPoolDiffsV0 gobDecode its
      else if ver = 1 then loadAllPoolDiffsV1 maxAlloc its
      else Inl (BadVersion ver))"

section \<open>What was stored is what is loaded\<close>

text \<open>The item that \<open>storeDiff\<close> leaves for a height, and the diffs that fit in memory.\<close>

definition diff_item :: "nat \<Rightarrow> PoolDiff \<Rightarrow> db_item" where
  "diff_item h d = \<lparr>item_key = uint64Bytes h, item_value = encodeDiff d, item_meta = 0\<rparr>"

definition storable :: "nat \<Rightarrow> PoolDiff \<Rightarrow> bool" where
  "storable maxAlloc d \<longleftrightarrow> list_all wf_hash (In d) \<and> list_all wf_hash (Out d)
     \<and> length (In d) < 2 ^ 57 \<and> length (Out d) < 2 ^ 57
     \<and> length (In d) * HashSize \<le> maxAlloc \<and> length (Out d) * HashSize \<le> maxAlloc"

lemma length_uint64Bytes [simp]: "length (uint64Bytes v) = 8"
  by (simp add: uint64Bytes_def)

lemma be_decode_uint64Bytes: "v < 2 ^ 64 \<Longrightarrow> be_decode (uint64Bytes v) = v"
  by (simp add: uint64Bytes_def be_decode_encode)

lemma length_concat_hashes: "list_all wf_hash hs \<Longrightarrow> length (concat hs) = HashSize * length hs"
  by (induction hs) (auto simp: wf_hash_def)

lemma readHashes_concat:
  "list_all wf_hash hs \<Longrightarrow> readHashes (length hs) (concat hs @ r) = Inr (hs, r)"
proof (induction hs)
  case (Cons h hs)
  then have "length h = HashSize" "h \<noteq> []" by (auto simp: wf_hash_def HashSize_def)
  then have "reader_Read HashSize (h @ concat hs @ r) = Inr (h, concat hs @ r)"
    by (simp add: reader_Read_def)
  with Cons \<open>length h = HashSize\<close> show ?case by simp
qed simp

lemma decodeDiff_encodeDiff:
  assumes "storable maxAlloc d"
  shows "decodeDiff maxAlloc (encodeDiff d) = Inr d"
proof -
  let ?i = "length (In d)" and ?o = "length (Out d)"
  let ?rest = "concat (In d) @ uint64Bytes ?o @ concat (Out d)"
  have i: "?i < 2 ^ 57" and o: "?o < 2 ^ 57" and wi: "list_all wf_hash (In d)"
    and wo: "list_all wf_hash (Out d)"
    and alloc: "\<not> maxAlloc < ?i * HashSize" "\<not> maxAlloc < ?o * HashSize"
    using assms by (auto simp: storable_def)
  have v: "encodeDiff d = uint64Bytes ?i @ ?rest"
    by (simp add: encodeDiff_def)
  have 1: "reader_Read 8 (encodeDiff d) = Inr (uint64Bytes ?i, ?rest)"
    unfolding v by (auto simp: reader_Read_def dest: arg_cong [where f = length])
  have iv: "be_decode (uint64Bytes ?i) = ?i" "be_decode (uint64Bytes ?o) = ?o"
    using i o by (auto intro!: be_decode_uint64Bytes)
  have off: "wrap64 (8 + wrap64 (int ?i) * int HashSize) = 8 + 32 * int ?i"
  proof -
    have b: "int ?i < 144115188075855872" using i by simp
    then have "wrap64 (int ?i) = int ?i" by (intro wrap64_id) simp_all
    moreover have "wrap64 (8 + int ?i * 32) = 8 + int ?i * 32" using b by (intro wrap64_id) simp_all
    ultimately show ?thesis by (simp add: HashSize_def)
  qed
  have li: "length (concat (In d)) = 32 * ?i"
    using length_concat_hashes [OF wi] by (simp add: HashSize_def)
  have "drop (8 + 32 * ?i) (encodeDiff d) = uint64Bytes ?o @ concat (Out d)"
    unfolding v by (simp add: li)
  moreover have "nat (8 + 32 * int ?i) = 8 + 32 * ?i" by linarith
  moreover have "int (length (encodeDiff d)) > 8 + 32 * int ?i"
    unfolding v by (simp add: li)
  ultimately have 2: "reader_ReadAt 8 (encodeDiff d) (8 + 32 * int ?i) = Inr (uint64Bytes ?o)"
    by (simp add: reader_ReadAt_def Let_def)
  have 3: "readHashes ?i ?rest = Inr (In d, uint64Bytes ?o @ concat (Out d))"
    using wi by (rule readHashes_concat)
  have 4: "readHashes ?o (concat (Out d)) = Inr (Out d, [])"
    using readHashes_concat [OF wo, of "[]"] by simp
  show ?thesis
    unfolding decodeDiff_def 1 using alloc by (simp add: iv off 2 3 4 Let_def)
qed

lemma loadItemsV1_diff_items:
  assumes "list_all (storable maxAlloc) ds" and "length acc + length ds < 2 ^ 64"
  shows "loadItemsV1 maxAlloc (map2 diff_item [Suc (length acc)..<Suc (length acc + length ds)] ds @ its)
            acc [1..<Suc (length acc)] (length acc)
         = loadItemsV1 maxAlloc its (acc @ ds) [1..<Suc (length (acc @ ds))] (length (acc @ ds))"
  using assms
proof (induction ds arbitrary: acc)
  case Nil
  then show ?case by simp
next
  case (Cons d ds)
  let ?h = "Suc (length acc)"
  have h: "be_decode (item_key (diff_item ?h d)) = ?h"
    using Cons.prems by (simp add: diff_item_def be_decode_uint64Bytes)
  have d: "decodeDiff maxAlloc (item_value (diff_item ?h d)) = Inr d"
    using Cons.prems by (simp add: diff_item_def decodeDiff_encodeDiff)
  have "[?h..<Suc (length acc + length (d # ds))] = ?h # [Suc ?h..<Suc (?h + length ds)]"
    by (simp add: upt_conv_Cons del: upt_Suc)
  moreover have "[1..<?h] @ [?h] = [1..<Suc (length (acc @ [d]))]"
    by simp
  moreover have "heightCheck (length acc) ?h = None"
    using Cons.prems by (simp add: heightCheck_def)
  moreover have "item_meta (diff_item ?h d) \<noteq> 1" "length (item_key (diff_item ?h d)) = 8"
    by (simp_all add: diff_item_def)
  ultimately show ?case
    using Cons.IH [of "acc @ [d]"] Cons.prems by (simp add: h d Let_def del: upt_Suc)
qed

lemma loadItemsV1_skip:
  "list_all (\<lambda>it. item_meta it = 1) its \<Longrightarrow>
     loadItemsV1 maxAlloc its ds hs h = lengthCheck ds hs h"
  by (induction its) auto

lemma load_diff_items:
  assumes "list_all (storable maxAlloc) ds" and "length ds < 2 ^ 64" and "item_meta ver = 1"
  shows "LoadAllPoolDiffs maxAlloc gobDecode (map2 diff_item [1..<Suc (length ds)] ds @ [ver]) currentVersion = Inr (ds, [1..<Suc (length ds)])"
  using assms loadItemsV1_diff_items [of maxAlloc ds "[]" "[ver]"]
  by (simp add: LoadAllPoolDiffs_def currentVersion_def loadAllPoolDiffsV1_def lengthCheck_def del: upt_Suc)

text \<open>C29. Stored diffs load unchanged: a database of the current version that holds, in key order, the items that
  \<open>storeDiff\<close> writes for the heights 1 to \<open>n\<close> and then the version entry gives back the same
  diffs and these heights. The \<open>TicketPool\<close> that \<open>NewTicketPool\<close> makes of them has the tip \<open>n\<close>, and, if the diffs fit
  each other, its pool at every height up to \<open>n\<close> is what the stored diffs give there. The diffs are \<open>storable\<close>: their hashes have
  32 bytes, the encoded numbers of incoming and outgoing hashes do not overflow the offsets, and the allocations fit in
  \<open>maxAlloc\<close>; there are fewer than 2^64 of them.\<close>

theorem load_stored_diffs:
  assumes "list_all (storable maxAlloc) ds" and "length ds < 2 ^ 64" and "item_meta ver = 1"
  shows "LoadAllPoolDiffs maxAlloc gobDecode
     (map2 (\<lambda>h d. \<lparr>item_key = uint64Bytes h, item_value = encodeDiff d, item_meta = 0\<rparr>)
        [1..<Suc (length ds)] ds @ [ver]) currentVersion
     = Inr (ds, [1..<Suc (length ds)])
    \<and> tip (NewTicketPool ds kv) = int (length ds)
    \<and> (valid_log diff_app diff_ok ds {} \<longrightarrow>
         (\<forall>h \<le> length ds. snd (Pool (int h) (NewTicketPool ds kv)) = Inr (replay diff_app ds h {})))"
proof -
  have "snd (Pool (int h) (NewTicketPool ds kv)) = Inr (replay diff_app ds h {})" if "valid_diffs ds" "h \<le> length ds" for h
    using Pool_result [OF NewTicketPool_inv [OF that(1)], of "int h" kv] that(2) by (simp add: NewTicketPool_def)
  then show ?thesis
    using load_diff_items [OF assms, of gobDecode] by (simp add: diff_item_def [abs_def] NewTicketPool_def del: upt_Suc)
qed

theorem load_stored_diffs_witness:
  "LoadAllPoolDiffs 1024 (\<lambda>b. Inl [])
     (map2 (\<lambda>h d. \<lparr>item_key = uint64Bytes h, item_value = encodeDiff d, item_meta = 0\<rparr>)
        [1..<Suc 1] [\<lparr>In = [zeroHash], Out = []\<rparr>] @ [\<lparr>item_key = [], item_value = [], item_meta = 1\<rparr>])
     currentVersion
   = Inr ([\<lparr>In = [zeroHash], Out = []\<rparr>], [1..<Suc 1])
   \<and> snd (Pool 1 (NewTicketPool [\<lparr>In = [zeroHash], Out = []\<rparr>] ())) = Inr {zeroHash}"
proof -
  let ?ds = "[\<lparr>In = [zeroHash], Out = []\<rparr>]"
  have ok: "list_all (storable 1024) ?ds" "length ?ds < 2 ^ 64" "item_meta \<lparr>item_key = [], item_value = [], item_meta = 1\<rparr> = 1"
    by (simp_all add: storable_def HashSize_def)
  have "valid_log diff_app diff_ok ?ds {}" by (simp add: diff_ok_def)
  then have "snd (Pool (int 1) (NewTicketPool ?ds ())) = Inr (replay diff_app ?ds 1 {})"
    using load_stored_diffs [OF ok, of "\<lambda>b. Inl []" "()"] by auto
  then show ?thesis
    using load_stored_diffs [OF ok, of "\<lambda>b. Inl []" "()"] by (simp add: replay_def diff_app_def)
qed

lemma loadItemsV1_length:
  "loadItemsV1 maxAlloc its acc hs h = Inr (ds, hs') \<Longrightarrow> length acc \<le> length ds"
proof (induction its arbitrary: acc hs h)
  case Nil
  then show ?case by (auto simp: lengthCheck_def split: if_splits)
next
  case (Cons it its)
  show ?case
    using Cons.prems
    by (auto simp: Let_def split: if_splits sum.splits option.splits dest!: Cons.IH)
qed

lemma loadItemsV1_heights:
  "loadItemsV1 maxAlloc its acc [1..<Suc (length acc)] (length acc) = Inr (ds, hs)
    \<Longrightarrow> length ds < 2 ^ 64 \<Longrightarrow> hs = [1..<Suc (length ds)]"
proof (induction its arbitrary: acc)
  case Nil
  then show ?case by (auto simp: lengthCheck_def split: if_splits)
next
  case (Cons it its)
  show ?case
  proof (cases "item_meta it = 1")
    case True
    with Cons show ?thesis by simp
  next
    case False
    let ?h = "be_decode (take 8 (item_key it))"
    from False obtain d where hc: "heightCheck (length acc) ?h = None"
      and rec: "loadItemsV1 maxAlloc its (acc @ [d]) ([1..<Suc (length acc)] @ [?h]) ?h = Inr (ds, hs)"
      using Cons.prems(1)
      by (auto simp: Let_def split: if_splits sum.splits option.splits simp del: upt_Suc)
    have "length acc + 1 < 2 ^ 64"
      using loadItemsV1_length [OF rec] Cons.prems(2) by simp
    then have h: "?h = length (acc @ [d])"
      using hc by (simp add: heightCheck_def split: if_splits)
    have "[1..<Suc (length acc)] @ [?h] = [1..<Suc (length (acc @ [d]))]"
      unfolding h by simp
    then show ?thesis
      using Cons.IH [of "acc @ [d]"] Cons.prems(2) rec unfolding h by simp
  qed
qed

text \<open>No gap is accepted: whatever items the database yields, diffs that load without an
  error or a panic come with the heights 1 to \<open>n\<close>, one for each diff.\<close>

theorem load_heights_contiguous:
  assumes "loadAllPoolDiffsV1 maxAlloc its = Inr (ds, hs)" and "length ds < 2 ^ 64"
  shows "hs = [1..<Suc (length ds)]"
  using assms loadItemsV1_heights [of maxAlloc its "[]"] by (simp add: loadAllPoolDiffsV1_def)

theorem load_heights_contiguous_witness:
  "loadAllPoolDiffsV1 64 [diff_item 1 \<lparr>In = [], Out = []\<rparr>] = Inr ([\<lparr>In = [], Out = []\<rparr>], [1])
   \<and> [1] = [1..<Suc (length [\<lparr>In = [], Out = []\<rparr>])]"
proof -
  have "loadAllPoolDiffsV1 64 [diff_item 1 \<lparr>In = [], Out = []\<rparr>] = Inr ([\<lparr>In = [], Out = []\<rparr>], [1])"
    using loadItemsV1_diff_items [of 64 "[\<lparr>In = [], Out = []\<rparr>]" "[]" "[]"]
    by (simp add: loadAllPoolDiffsV1_def storable_def lengthCheck_def)
  then show ?thesis using load_heights_contiguous by fastforce
qed

end
