(* ===== verification/GoHeap.thy ===== *)
theory GoHeap
  imports Prelude
begin

text \<open>
  Go's \<open>container/heap\<close>: the sift operations of the standard library, over any queue
  that offers the three operations of \<open>heap.Interface\<close>. The locale states what the library
  asks of its client: \<open>Swap\<close> exchanges two elements, \<open>Less\<close> compares them by a strict weak
  order. The heap property after \<open>Init\<close>, \<open>Push\<close>, \<open>Fix\<close> and \<open>Remove\<close> is proved there once.
\<close>

section \<open>The operations\<close>

function heap_up :: "('q \<Rightarrow> nat \<Rightarrow> nat \<Rightarrow> bool) \<Rightarrow> ('q \<Rightarrow> nat \<Rightarrow> nat \<Rightarrow> 'q) \<Rightarrow> 'q \<Rightarrow> nat \<Rightarrow> 'q" where
  "heap_up ls swap q j =
     (let i = (j - 1) div 2
      in if i = j \<or> \<not> ls q j i then q else heap_up ls swap (swap q i j) i)"
  by pat_completeness auto
termination
  by (relation "measure (\<lambda>(ls, swap, q, j). j)") auto

text \<open>\<open>down\<close> also returns where the element came to rest; the library returns whether it moved.\<close>

function heap_down ::
  "('q \<Rightarrow> nat \<Rightarrow> nat \<Rightarrow> bool) \<Rightarrow> ('q \<Rightarrow> nat \<Rightarrow> nat \<Rightarrow> 'q) \<Rightarrow> 'q \<Rightarrow> nat \<Rightarrow> nat \<Rightarrow> 'q \<times> nat" where
  "heap_down ls swap q i n =
     (let j1 = 2 * i + 1
      in if j1 \<ge> n then (q, i)
         else
           let j = (if j1 + 1 < n \<and> ls q (j1 + 1) j1 then j1 + 1 else j1)
           in if \<not> ls q j i then (q, i) else heap_down ls swap (swap q i j) j n)"
  by pat_completeness auto
termination
  by (relation "measure (\<lambda>(ls, swap, q, i, n). n - i)") (auto split: if_splits)

declare heap_up.simps [simp del] heap_down.simps [simp del]

primrec heap_init_from ::
  "('q \<Rightarrow> nat \<Rightarrow> nat \<Rightarrow> bool) \<Rightarrow> ('q \<Rightarrow> nat \<Rightarrow> nat \<Rightarrow> 'q) \<Rightarrow> nat \<Rightarrow> nat \<Rightarrow> 'q \<Rightarrow> 'q" where
  "heap_init_from ls swap n 0 q = q"
| "heap_init_from ls swap n (Suc i) q =
     heap_init_from ls swap n i (fst (heap_down ls swap q i n))"

definition heap_Init :: "('q \<Rightarrow> nat) \<Rightarrow> ('q \<Rightarrow> nat \<Rightarrow> nat \<Rightarrow> bool) \<Rightarrow> ('q \<Rightarrow> nat \<Rightarrow> nat \<Rightarrow> 'q) \<Rightarrow> 'q \<Rightarrow> 'q" where
  "heap_Init len ls swap q = heap_init_from ls swap (len q) (len q div 2) q"

definition heap_fix_at ::
  "('q \<Rightarrow> nat \<Rightarrow> nat \<Rightarrow> bool) \<Rightarrow> ('q \<Rightarrow> nat \<Rightarrow> nat \<Rightarrow> 'q) \<Rightarrow> nat \<Rightarrow> nat \<Rightarrow> 'q \<Rightarrow> 'q" where
  "heap_fix_at ls swap n i q =
     (case heap_down ls swap q i n of
        (q', i') \<Rightarrow> if i' > i then q' else heap_up ls swap q' i)"

definition heap_Fix ::
  "('q \<Rightarrow> nat) \<Rightarrow> ('q \<Rightarrow> nat \<Rightarrow> nat \<Rightarrow> bool) \<Rightarrow> ('q \<Rightarrow> nat \<Rightarrow> nat \<Rightarrow> 'q) \<Rightarrow> nat \<Rightarrow> 'q \<Rightarrow> 'q" where
  "heap_Fix len ls swap i q = heap_fix_at ls swap (len q) i q"

text \<open>\<open>heap_Push\<close> and \<open>heap_Remove\<close> take the client's \<open>Push\<close> and \<open>Pop\<close> on the last position.\<close>

definition heap_Push ::
  "('q \<Rightarrow> nat) \<Rightarrow> ('q \<Rightarrow> nat \<Rightarrow> nat \<Rightarrow> bool) \<Rightarrow> ('q \<Rightarrow> nat \<Rightarrow> nat \<Rightarrow> 'q) \<Rightarrow> ('q \<Rightarrow> 'q) \<Rightarrow> 'q \<Rightarrow> 'q" where
  "heap_Push len ls swap push q = heap_up ls swap (push q) (len (push q) - 1)"

definition heap_Remove ::
  "('q \<Rightarrow> nat) \<Rightarrow> ('q \<Rightarrow> nat \<Rightarrow> nat \<Rightarrow> bool) \<Rightarrow> ('q \<Rightarrow> nat \<Rightarrow> nat \<Rightarrow> 'q) \<Rightarrow> ('q \<Rightarrow> 'q) \<Rightarrow> nat \<Rightarrow> 'q \<Rightarrow> 'q" where
  "heap_Remove len ls swap pop i q =
     (let n = len q - 1
      in pop (if n \<noteq> i then heap_fix_at ls swap n i (swap q i n) else q))"

section \<open>The heap property\<close>

abbreviation parent :: "nat \<Rightarrow> nat" where
  "parent k \<equiv> (k - 1) div 2"

definition is_heap :: "('a \<Rightarrow> 'a \<Rightarrow> bool) \<Rightarrow> 'a list \<Rightarrow> bool" where
  "is_heap lt xs \<longleftrightarrow> (\<forall>k<length xs. 0 < k \<longrightarrow> \<not> lt (xs ! k) (xs ! parent k))"

text \<open>
  The first \<open>n\<close> elements form a heap from position \<open>m\<close> on, except around position \<open>i\<close>, whose
  parent is not above its children either.
\<close>

definition heap_hole :: "('a \<Rightarrow> 'a \<Rightarrow> bool) \<Rightarrow> 'a list \<Rightarrow> nat \<Rightarrow> nat \<Rightarrow> nat \<Rightarrow> bool" where
  "heap_hole lt xs n m i \<longleftrightarrow>
     (\<forall>k<n. 0 < k \<longrightarrow> m \<le> parent k \<longrightarrow> k \<noteq> i \<longrightarrow> parent k \<noteq> i \<longrightarrow> \<not> lt (xs ! k) (xs ! parent k))
     \<and> (0 < i \<longrightarrow> m \<le> parent i \<longrightarrow>
          (\<forall>k<n. 0 < k \<longrightarrow> parent k = i \<longrightarrow> \<not> lt (xs ! k) (xs ! parent i)))"

definition list_swap :: "'a list \<Rightarrow> nat \<Rightarrow> nat \<Rightarrow> 'a list" where
  "list_swap xs i j = xs[i := xs ! j, j := xs ! i]"

lemma length_list_swap [simp]: "length (list_swap xs i j) = length xs"
  by (simp add: list_swap_def)

lemma nth_list_swap:
  "i < length xs \<Longrightarrow> j < length xs \<Longrightarrow> k < length xs \<Longrightarrow>
     list_swap xs i j ! k = (if k = i then xs ! j else if k = j then xs ! i else xs ! k)"
  by (auto simp: list_swap_def nth_list_update)

lemma mset_list_swap [simp]:
  "i < length xs \<Longrightarrow> j < length xs \<Longrightarrow> mset (list_swap xs i j) = mset xs"
  by (simp add: list_swap_def mset_swap)

lemma parent_less: "0 < (k::nat) \<Longrightarrow> parent k < k"
  by auto

lemma parent_cases: "0 < (k::nat) \<Longrightarrow> parent k = i \<longleftrightarrow> k = 2 * i + 1 \<or> k = 2 * i + 2"
  by auto

locale strict_weak_order =
  fixes lt :: "'a \<Rightarrow> 'a \<Rightarrow> bool"
  assumes asym: "lt x y \<Longrightarrow> \<not> lt y x"
    and neg_trans: "\<not> lt x y \<Longrightarrow> \<not> lt y z \<Longrightarrow> \<not> lt x z"
begin

lemma irrefl: "\<not> lt x x"
  using asym by blast

lemma le_lt_trans: "\<not> lt y x \<Longrightarrow> lt y z \<Longrightarrow> lt x z"
  using asym neg_trans by blast

lemma heap_top:
  assumes "is_heap lt xs" and "k < length xs"
  shows "\<not> lt (xs ! k) (xs ! 0)"
  using assms(2)
proof (induction k rule: less_induct)
  case (less k)
  show ?case
  proof (cases "k = 0")
    case False
    then have "\<not> lt (xs ! parent k) (xs ! 0)"
      using less by (intro less.IH) auto
    moreover have "\<not> lt (xs ! k) (xs ! parent k)"
      using False less.prems assms(1) by (simp add: is_heap_def)
    ultimately show ?thesis using neg_trans by blast
  qed (simp add: irrefl)
qed

lemma hole_swap_down:
  assumes hole: "heap_hole lt xs n m i" and "m \<le> i" and "n \<le> length xs"
    and j: "j < n" "0 < j" "parent j = i"
    and min: "\<And>k. k < n \<Longrightarrow> 0 < k \<Longrightarrow> parent k = i \<Longrightarrow> \<not> lt (xs ! k) (xs ! j)"
    and lss: "lt (xs ! j) (xs ! i)"
  shows "heap_hole lt (list_swap xs i j) n m j"
proof -
  have ij: "i < j" using j by auto
  have nth: "list_swap xs i j ! k = (if k = i then xs ! j else if k = j then xs ! i else xs ! k)"
    if "k < n" for k
    using that ij j assms(3) by (intro nth_list_swap) auto
  have up: "\<not> lt (xs ! j) (xs ! parent i)" if "0 < i" "m \<le> parent i"
    using hole that j by (auto simp: heap_hole_def)
  have old: "\<not> lt (xs ! k) (xs ! parent k)"
    if "k < n" "0 < k" "m \<le> parent k" "k \<noteq> i" "parent k \<noteq> i" for k
    using hole that by (auto simp: heap_hole_def)
  show ?thesis
    unfolding heap_hole_def
  proof (intro conjI allI impI)
    fix k assume k: "k < n" "0 < k" "m \<le> parent k" "k \<noteq> j" "parent k \<noteq> j"
    have pk: "parent k < n" using k by auto
    show "\<not> lt (list_swap xs i j ! k) (list_swap xs i j ! parent k)"
      using nth [OF k(1)] nth [OF pk] k ij old [of k] min [of k] up by auto
  next
    fix k assume k: "0 < j" "m \<le> parent j" "k < n" "0 < k" "parent k = j"
    have kj: "j < k" using k by auto
    have "list_swap xs i j ! parent j = xs ! j" using nth [of i] ij j by simp
    moreover have "list_swap xs i j ! k = xs ! k" using nth [OF k(3)] kj ij by simp
    moreover have "\<not> lt (xs ! k) (xs ! parent k)" using old [of k] k kj ij assms(2) by simp
    ultimately show "\<not> lt (list_swap xs i j ! k) (list_swap xs i j ! parent j)" using k by simp
  qed
qed

lemma hole_swap_up:
  assumes hole: "heap_hole lt xs n 0 j" and "n \<le> length xs" and j: "j < n" "0 < j"
    and below: "\<And>k. k < n \<Longrightarrow> 0 < k \<Longrightarrow> parent k = j \<Longrightarrow> \<not> lt (xs ! k) (xs ! j)"
    and lss: "lt (xs ! j) (xs ! parent j)"
  shows "heap_hole lt (list_swap xs (parent j) j) n 0 (parent j)"
    and "\<And>k. k < n \<Longrightarrow> 0 < k \<Longrightarrow> parent k = parent j \<Longrightarrow>
      \<not> lt (list_swap xs (parent j) j ! k) (list_swap xs (parent j) j ! parent j)"
proof -
  let ?i = "parent j" and ?ys = "list_swap xs (parent j) j"
  have ij: "?i < j" using j by auto
  have nth: "?ys ! k = (if k = ?i then xs ! j else if k = j then xs ! ?i else xs ! k)"
    if "k < n" for k
    using that ij j assms(2) by (intro nth_list_swap) auto
  have old: "\<not> lt (xs ! k) (xs ! parent k)" if "k < n" "0 < k" "k \<noteq> j" "parent k \<noteq> j" for k
    using hole that by (auto simp: heap_hole_def)
  have gp: "\<not> lt (xs ! k) (xs ! ?i)" if "k < n" "0 < k" "parent k = j" for k
    using hole that j by (auto simp: heap_hole_def)
  show below_i: "\<not> lt (?ys ! k) (?ys ! ?i)" if "k < n" "0 < k" "parent k = ?i" for k
  proof (cases "k = j")
    case True
    then show ?thesis using nth [of k] nth [of ?i] that ij j lss asym by auto
  next
    case False
    have ki: "k \<noteq> ?i" using that by auto
    have "\<not> lt (xs ! k) (xs ! ?i)" using old [of k] that False ij by auto
    then have "\<not> lt (xs ! k) (xs ! j)" using lss asym neg_trans by blast
    then show ?thesis using nth [of k] nth [of ?i] that ij j False ki by auto
  qed
  show "heap_hole lt ?ys n 0 ?i"
    unfolding heap_hole_def
  proof (intro conjI allI impI)
    fix k assume k: "k < n" "0 < k" "k \<noteq> ?i" "parent k \<noteq> ?i"
    have pk: "parent k < n" using k by auto
    show "\<not> lt (?ys ! k) (?ys ! parent k)"
      using nth [OF k(1)] nth [OF pk] k ij old [of k] gp [of k] irrefl by auto
  next
    fix k assume k: "0 < ?i" "k < n" "0 < k" "parent k = ?i"
    have pi: "parent ?i < ?i" using k(1) by (rule parent_less)
    have pn: "parent ?i < n" using pi ij j by linarith
    have i_ok: "\<not> lt (xs ! ?i) (xs ! parent ?i)" using pi ij j k(1) by (intro old) linarith+
    have "\<not> lt (?ys ! k) (xs ! parent ?i)"
    proof (cases "k = j")
      case True
      then show ?thesis using nth [OF k(2)] i_ok ij by auto
    next
      case False
      have "\<not> lt (xs ! k) (xs ! ?i)" using old [of k] k False ij by auto
      then have "\<not> lt (xs ! k) (xs ! parent ?i)" using i_ok neg_trans by blast
      moreover have "k \<noteq> ?i" using parent_less [OF k(3)] k(4) by auto
      ultimately show ?thesis using nth [OF k(2)] False by auto
    qed
    then show "\<not> lt (?ys ! k) (?ys ! parent ?i)" using nth [OF pn] pi ij by auto
  qed
qed

end

section \<open>The contract of heap.Interface\<close>

definition heap_upto :: "('a \<Rightarrow> 'a \<Rightarrow> bool) \<Rightarrow> 'a list \<Rightarrow> nat \<Rightarrow> nat \<Rightarrow> bool" where
  "heap_upto lt xs n m \<longleftrightarrow>
     (\<forall>k<n. 0 < k \<longrightarrow> m \<le> parent k \<longrightarrow> \<not> lt (xs ! k) (xs ! parent k))"

lemma is_heap_upto: "is_heap lt xs \<longleftrightarrow> heap_upto lt xs (length xs) 0"
  by (simp add: is_heap_def heap_upto_def)

lemma hole_closed:
  assumes "heap_hole lt xs n m i"
    and "\<And>k. k < n \<Longrightarrow> 0 < k \<Longrightarrow> parent k = i \<Longrightarrow> \<not> lt (xs ! k) (xs ! i)"
    and "0 < i \<Longrightarrow> m \<le> parent i \<Longrightarrow> \<not> lt (xs ! i) (xs ! parent i)"
  shows "heap_upto lt xs n m"
  using assms unfolding heap_hole_def heap_upto_def by metis

text \<open>
  The part of the contract that needs no order: \<open>Swap\<close> exchanges two elements. It is enough
  for the elements to stay the same, whatever \<open>Less\<close> answers.
\<close>

locale heap_swap =
  fixes elems :: "'q \<Rightarrow> 'a list"
    and good :: "'q \<Rightarrow> bool"
    and sw :: "'q \<Rightarrow> nat \<Rightarrow> nat \<Rightarrow> 'q"
  assumes elems_sw: "good q \<Longrightarrow> i < length (elems q) \<Longrightarrow> j < length (elems q) \<Longrightarrow>
      elems (sw q i j) = list_swap (elems q) i j"
    and good_sw: "good q \<Longrightarrow> i < length (elems q) \<Longrightarrow> j < length (elems q) \<Longrightarrow> good (sw q i j)"
begin

text \<open>What every sift keeps: the invariant, the elements, and everything from \<open>n\<close> on.\<close>

definition keeps :: "'q \<Rightarrow> 'q \<Rightarrow> nat \<Rightarrow> bool" where
  "keeps q q' n \<longleftrightarrow> good q' \<and> mset (elems q') = mset (elems q)
     \<and> (\<forall>k. n \<le> k \<longrightarrow> k < length (elems q) \<longrightarrow> elems q' ! k = elems q ! k)"

lemma keeps_refl: "good q \<Longrightarrow> keeps q q n"
  by (simp add: keeps_def)

lemma keeps_length: "keeps q q' n \<Longrightarrow> length (elems q') = length (elems q)"
  by (auto simp: keeps_def dest: mset_eq_length)

lemma keeps_good: "keeps q q' n \<Longrightarrow> good q'"
  by (simp add: keeps_def)

lemma keeps_trans: "keeps q q1 n \<Longrightarrow> keeps q1 q2 n \<Longrightarrow> keeps q q2 n"
  using keeps_length by (auto simp: keeps_def)

lemma keeps_sw:
  assumes "good q" and "i < n" and "j < n" and "n \<le> length (elems q)"
  shows "keeps q (sw q i j) n"
  using assms good_sw [of q i j] elems_sw [of q i j]
  by (auto simp: keeps_def nth_list_swap)

lemma heap_up_keeps:
  "good q \<Longrightarrow> n \<le> length (elems q) \<Longrightarrow> j < n \<Longrightarrow> keeps q (heap_up ls sw q j) n"
proof (induction j arbitrary: q rule: less_induct)
  case (less j)
  show ?case
  proof (cases "parent j = j \<or> \<not> ls q j (parent j)")
    case True
    then show ?thesis using less.prems by (simp add: heap_up.simps [of ls sw q j] keeps_refl)
  next
    case False
    have j: "parent j < j" using False by (cases j) auto
    have k: "keeps q (sw q (parent j) j) n" using less.prems j by (intro keeps_sw) auto
    have "keeps (sw q (parent j) j) (heap_up ls sw (sw q (parent j) j) (parent j)) n"
      using j less.prems keeps_length [OF k] keeps_good [OF k] by (intro less.IH) auto
    moreover have "heap_up ls sw q j = heap_up ls sw (sw q (parent j) j) (parent j)"
      using False by (simp add: heap_up.simps [of ls sw q j] Let_def)
    ultimately show ?thesis using keeps_trans [OF k] by metis
  qed
qed

lemma heap_down_keeps:
  "good q \<Longrightarrow> n \<le> length (elems q) \<Longrightarrow> i < n \<Longrightarrow>
     keeps q (fst (heap_down ls sw q i n)) n \<and> i \<le> snd (heap_down ls sw q i n)"
proof (induction "n - i" arbitrary: q i rule: less_induct)
  case less
  show ?case
  proof (cases "2 * i + 1 \<ge> n")
    case True
    then show ?thesis using less.prems by (simp add: heap_down.simps [of ls sw q i n] keeps_refl)
  next
    case False
    define j where "j = (if 2 * i + 1 + 1 < n \<and> ls q (2 * i + 1 + 1) (2 * i + 1) then 2 * i + 1 + 1 else 2 * i + 1)"
    have j: "j < n" "i < j" using False by (auto simp: j_def)
    have rec: "heap_down ls sw q i n = (if \<not> ls q j i then (q, i) else heap_down ls sw (sw q i j) j n)"
      using False by (simp add: heap_down.simps [of ls sw q i n] j_def Let_def)
    have k: "keeps q (sw q i j) n" using less.prems j by (intro keeps_sw) auto
    have "keeps (sw q i j) (fst (heap_down ls sw (sw q i j) j n)) n
        \<and> j \<le> snd (heap_down ls sw (sw q i j) j n)"
      using less.prems j keeps_length [OF k] keeps_good [OF k] by (intro less.hyps) auto
    then show ?thesis using rec j keeps_trans [OF k] less.prems by (auto simp: keeps_refl)
  qed
qed

lemma heap_fix_at_keeps:
  assumes "good q" and "n \<le> length (elems q)" and "i < n"
  shows "keeps q (heap_fix_at ls sw n i q) n"
proof -
  have k: "keeps q (fst (heap_down ls sw q i n)) n" using heap_down_keeps [OF assms] by blast
  have "keeps (fst (heap_down ls sw q i n)) (heap_up ls sw (fst (heap_down ls sw q i n)) i) n"
    using assms keeps_length [OF k] keeps_good [OF k] by (intro heap_up_keeps) auto
  then show ?thesis
    using k keeps_trans [OF k] by (auto simp: heap_fix_at_def split: prod.split)
qed

lemma heap_init_from_keeps:
  "good q \<Longrightarrow> n \<le> length (elems q) \<Longrightarrow> i \<le> n \<Longrightarrow> keeps q (heap_init_from ls sw n i q) n"
proof (induction i arbitrary: q)
  case 0
  then show ?case by (simp add: keeps_refl)
next
  case (Suc i)
  have k: "keeps q (fst (heap_down ls sw q i n)) n" using heap_down_keeps Suc.prems by simp
  then show ?case
    using Suc keeps_trans [OF k] keeps_length [OF k] keeps_good [OF k] by simp
qed

lemma heap_Init_keeps:
  "good q \<Longrightarrow> len q = length (elems q) \<Longrightarrow> keeps q (heap_Init len ls sw q) (length (elems q))"
  by (simp add: heap_Init_def heap_init_from_keeps)

lemma heap_Fix_keeps:
  "good q \<Longrightarrow> len q = length (elems q) \<Longrightarrow> i < length (elems q) \<Longrightarrow>
     keeps q (heap_Fix len ls sw i q) (length (elems q))"
  by (simp add: heap_Fix_def heap_fix_at_keeps)

lemma heap_Push_keeps:
  "good (push q) \<Longrightarrow> len (push q) = length (elems (push q)) \<Longrightarrow> elems (push q) \<noteq> [] \<Longrightarrow>
     keeps (push q) (heap_Push len ls sw push q) (length (elems (push q)))"
  by (simp add: heap_Push_def heap_up_keeps)

lemma heap_Remove_elems:
  assumes "good q" and "len q = length (elems q)" and "i < length (elems q)"
    and pop: "\<And>p. good p \<Longrightarrow> elems p \<noteq> [] \<Longrightarrow> elems (pop p) = butlast (elems p) \<and> good (pop p)"
  shows "good (heap_Remove len ls sw pop i q)
    \<and> add_mset (elems q ! i) (mset (elems (heap_Remove len ls sw pop i q))) = mset (elems q)"
proof -
  let ?n = "length (elems q) - 1"
  define p where "p = (if ?n \<noteq> i then heap_fix_at ls sw ?n i (sw q i ?n) else q)"
  have r: "heap_Remove len ls sw pop i q = pop p"
    using assms(2) by (simp add: heap_Remove_def p_def Let_def)
  have lm: "add_mset (last ys) (mset (butlast ys)) = mset ys" if "ys \<noteq> []" for ys :: "'a list"
    using that by (metis append_butlast_last_id mset.simps(2) mset_append union_mset_add_mset_right
        add.right_neutral mset.simps(1))
  have "good p \<and> mset (elems p) = mset (elems q) \<and> elems p ! ?n = elems q ! i
      \<and> length (elems p) = length (elems q)"
  proof (cases "?n = i")
    case False
    have e: "elems (sw q i ?n) = list_swap (elems q) i ?n" "good (sw q i ?n)"
      using elems_sw good_sw assms by auto
    have k: "keeps (sw q i ?n) (heap_fix_at ls sw ?n i (sw q i ?n)) ?n"
      using e False assms(3) by (intro heap_fix_at_keeps) auto
    have "elems (heap_fix_at ls sw ?n i (sw q i ?n)) ! ?n = elems (sw q i ?n) ! ?n"
      using k e False assms(3) by (simp add: keeps_def)
    also have "\<dots> = elems q ! i" using e False assms(3) by (simp add: nth_list_swap)
    finally show ?thesis
      using k e False assms(3) keeps_length [OF k] by (simp add: keeps_def p_def)
  qed (use assms in \<open>simp add: p_def\<close>)
  moreover have "elems p \<noteq> []" using calculation assms(3) by auto
  ultimately have "good (pop p) \<and> elems (pop p) = butlast (elems p)
      \<and> last (elems p) = elems q ! i \<and> mset (elems p) = mset (elems q)"
    using pop [of p] by (auto simp: last_conv_nth)
  then show ?thesis
    using lm [OF \<open>elems p \<noteq> []\<close>] by (simp add: r)
qed

end

locale heap_interface = strict_weak_order lt + heap_swap elems good sw
  for lt :: "'a \<Rightarrow> 'a \<Rightarrow> bool" and elems :: "'q \<Rightarrow> 'a list" and good :: "'q \<Rightarrow> bool"
    and sw :: "'q \<Rightarrow> nat \<Rightarrow> nat \<Rightarrow> 'q" +
  fixes ls :: "'q \<Rightarrow> nat \<Rightarrow> nat \<Rightarrow> bool"
  assumes ls_iff: "good q \<Longrightarrow> i < length (elems q) \<Longrightarrow> j < length (elems q) \<Longrightarrow>
      ls q i j \<longleftrightarrow> lt (elems q ! i) (elems q ! j)"
begin

lemma heap_up_spec:
  assumes "good q" and "n \<le> length (elems q)" and "j < n" and "heap_hole lt (elems q) n 0 j"
    and "\<And>k. k < n \<Longrightarrow> 0 < k \<Longrightarrow> parent k = j \<Longrightarrow> \<not> lt (elems q ! k) (elems q ! j)"
  shows "keeps q (heap_up ls sw q j) n \<and> heap_upto lt (elems (heap_up ls sw q j)) n 0"
  using assms
proof (induction j arbitrary: q rule: less_induct)
  case (less j)
  let ?i = "parent j"
  have ij: "?i < length (elems q)" "j < length (elems q)" using less.prems by auto
  show ?case
  proof (cases "?i = j \<or> \<not> ls q j ?i")
    case True
    then have "0 < j \<Longrightarrow> \<not> lt (elems q ! j) (elems q ! ?i)"
      using ls_iff [OF less.prems(1) ij(2,1)] by auto
    then have "heap_upto lt (elems q) n 0"
      using less.prems by (intro hole_closed) auto
    with True show ?thesis
      using less.prems(1) by (simp add: heap_up.simps [of ls sw q j] keeps_refl)
  next
    case False
    let ?q = "sw q ?i j"
    have j: "0 < j" "?i < j" using False by (cases j; auto)+
    have lss: "lt (elems q ! j) (elems q ! ?i)"
      using False ls_iff [OF less.prems(1) ij(2,1)] by simp
    have e: "elems ?q = list_swap (elems q) ?i j" using elems_sw less.prems(1) ij by blast
    note hole = hole_swap_up [OF less.prems(4,2,3) j(1) less.prems(5) lss, folded e]
    have k: "keeps q ?q n" using less.prems j by (intro keeps_sw) auto
    have "keeps ?q (heap_up ls sw ?q ?i) n \<and> heap_upto lt (elems (heap_up ls sw ?q ?i)) n 0"
      using j less.prems(1-3) k keeps_length [OF k] hole
      by (intro less.IH) (simp_all add: keeps_def)
    moreover have "heap_up ls sw q j = heap_up ls sw ?q ?i"
      using False by (simp add: heap_up.simps [of ls sw q j] Let_def)
    ultimately show ?thesis using keeps_trans [OF k] by metis
  qed
qed

text \<open>
  After \<open>heap_down\<close> the hole is at the returned position, whose children are not below it;
  if the element moved, its new parent is not above it either.
\<close>

definition down_post :: "'q \<Rightarrow> nat \<Rightarrow> nat \<Rightarrow> nat \<Rightarrow> 'q \<Rightarrow> nat \<Rightarrow> bool" where
  "down_post q i n m q' i' \<longleftrightarrow> keeps q q' n \<and> i \<le> i' \<and> i' < n
     \<and> heap_hole lt (elems q') n m i'
     \<and> (\<forall>k<n. 0 < k \<longrightarrow> parent k = i' \<longrightarrow> \<not> lt (elems q' ! k) (elems q' ! i'))
     \<and> (i < i' \<longrightarrow> \<not> lt (elems q' ! i') (elems q' ! parent i')) \<and> (i' = i \<longrightarrow> q' = q)"

lemma heap_down_stop:
  assumes "good q" and "i < n" and "heap_hole lt (elems q) n m i"
    and "\<And>k. k < n \<Longrightarrow> 0 < k \<Longrightarrow> parent k = i \<Longrightarrow> \<not> lt (elems q ! k) (elems q ! i)"
  shows "down_post q i n m q i"
  using assms by (simp add: down_post_def keeps_refl)

lemma heap_down_min_child:
  assumes "good q" and "n \<le> length (elems q)" and "2 * i + 1 < n"
  defines "j \<equiv> if 2 * i + 1 + 1 < n \<and> ls q (2 * i + 1 + 1) (2 * i + 1) then 2 * i + 1 + 1 else 2 * i + 1"
  shows "j < n \<and> 0 < j \<and> i < j \<and> parent j = i
    \<and> (\<forall>k<n. 0 < k \<longrightarrow> parent k = i \<longrightarrow> \<not> lt (elems q ! k) (elems q ! j))"
proof -
  have l: "ls q a b \<longleftrightarrow> lt (elems q ! a) (elems q ! b)" if "a < n" "b < n" for a b
    using ls_iff [OF assms(1)] that assms(2) by simp
  have "\<not> lt (elems q ! k) (elems q ! j)" if "k < n" "0 < k" "parent k = i" for k
  proof -
    have "k = 2 * i + 1 \<or> k = 2 * i + 1 + 1" using that by arith
    then consider "k = 2 * i + 1" | "k = 2 * i + 1 + 1" by blast
    then show ?thesis
      using that l irrefl asym assms(3) by cases (auto simp: j_def)
  qed
  then show ?thesis using assms(3) by (auto simp: j_def)
qed

lemma down_post_step:
  assumes "down_post q1 j n m q' i'" and "keeps q q1 n" and "i < j"
    and "\<not> lt (elems q1 ! j) (elems q1 ! parent j)"
  shows "down_post q i n m q' i'"
proof -
  have "keeps q q' n" using assms(1,2) keeps_trans by (simp add: down_post_def)
  moreover have "\<not> lt (elems q' ! i') (elems q' ! parent i')"
    using assms(1,4) by (cases "i' = j") (simp_all add: down_post_def)
  ultimately show ?thesis using assms(1,3) by (simp add: down_post_def)
qed

lemma heap_down_spec:
  assumes "good q" and "n \<le> length (elems q)" and "i < n" and "m \<le> i"
    and "heap_hole lt (elems q) n m i"
  shows "down_post q i n m (fst (heap_down ls sw q i n)) (snd (heap_down ls sw q i n))"
  using assms
proof (induction "n - i" arbitrary: q i rule: less_induct)
  case less
  show ?case
  proof (cases "2 * i + 1 \<ge> n")
    case True
    then have "heap_down ls sw q i n = (q, i)" by (simp add: heap_down.simps [of ls sw q i n])
    then show ?thesis
      using less.prems True by (auto intro!: heap_down_stop)
  next
    case False
    define j where "j = (if 2 * i + 1 + 1 < n \<and> ls q (2 * i + 1 + 1) (2 * i + 1) then 2 * i + 1 + 1 else 2 * i + 1)"
    have j: "j < n" "0 < j" "i < j" "parent j = i"
      and min: "\<And>k. k < n \<Longrightarrow> 0 < k \<Longrightarrow> parent k = i \<Longrightarrow> \<not> lt (elems q ! k) (elems q ! j)"
      using heap_down_min_child [OF less.prems(1,2), of i] False unfolding j_def by auto
    have rec: "heap_down ls sw q i n = (if \<not> ls q j i then (q, i) else heap_down ls sw (sw q i j) j n)"
      using False by (simp add: heap_down.simps [of ls sw q i n] j_def Let_def)
    have l: "ls q j i \<longleftrightarrow> lt (elems q ! j) (elems q ! i)"
      using ls_iff [OF less.prems(1)] j less.prems by simp
    show ?thesis
    proof (cases "ls q j i")
      case False
      then have "\<And>k. k < n \<Longrightarrow> 0 < k \<Longrightarrow> parent k = i \<Longrightarrow> \<not> lt (elems q ! k) (elems q ! i)"
        using min l neg_trans by blast
      then show ?thesis using False rec less.prems by (auto intro!: heap_down_stop)
    next
      case True
      let ?q = "sw q i j"
      have e: "elems ?q = list_swap (elems q) i j" using elems_sw less.prems j by simp
      have k: "keeps q ?q n" using less.prems j by (intro keeps_sw) auto
      have "heap_hole lt (elems ?q) n m j"
        unfolding e using hole_swap_down [OF less.prems(5,4,2) j(1,2,4) min] True l by blast
      then have IH: "down_post ?q j n m (fst (heap_down ls sw ?q j n)) (snd (heap_down ls sw ?q j n))"
        using less.prems j k keeps_length [OF k] by (intro less.hyps) (auto simp: keeps_def)
      have "\<not> lt (elems ?q ! j) (elems ?q ! parent j)"
        using True l asym j less.prems by (simp add: e nth_list_swap)
      then have "down_post q i n m (fst (heap_down ls sw ?q j n)) (snd (heap_down ls sw ?q j n))"
        by (rule down_post_step [OF IH k j(3)])
      then show ?thesis using True rec by simp
    qed
  qed
qed

lemma heap_fix_at_spec:
  assumes "good q" and "n \<le> length (elems q)" and "i < n" and "heap_hole lt (elems q) n 0 i"
  shows "keeps q (heap_fix_at ls sw n i q) n \<and> heap_upto lt (elems (heap_fix_at ls sw n i q)) n 0"
proof -
  obtain q' i' where d: "heap_down ls sw q i n = (q', i')" by (cases "heap_down ls sw q i n")
  have post: "down_post q i n 0 q' i'"
    using heap_down_spec [OF assms(1,2,3) _ assms(4)] d by simp
  show ?thesis
  proof (cases "i < i'")
    case True
    then have "heap_upto lt (elems q') n 0"
      using post by (intro hole_closed [of _ _ _ _ i']) (auto simp: down_post_def)
    with True show ?thesis using post d by (simp add: heap_fix_at_def down_post_def)
  next
    case False
    then have "i' = i" "q' = q" using post by (auto simp: down_post_def)
    then have "keeps q (heap_up ls sw q i) n \<and> heap_upto lt (elems (heap_up ls sw q i)) n 0"
      using post assms by (intro heap_up_spec) (auto simp: down_post_def)
    then show ?thesis using d \<open>i' = i\<close> \<open>q' = q\<close> by (simp add: heap_fix_at_def)
  qed
qed

lemma heap_init_from_spec:
  assumes "good q" and "n \<le> length (elems q)" and "i \<le> n div 2" and "heap_upto lt (elems q) n i"
  shows "keeps q (heap_init_from ls sw n i q) n \<and> heap_upto lt (elems (heap_init_from ls sw n i q)) n 0"
  using assms
proof (induction i arbitrary: q)
  case 0
  then show ?case by (simp add: keeps_refl)
next
  case (Suc i)
  obtain q' i' where d: "heap_down ls sw q i n = (q', i')" by (cases "heap_down ls sw q i n")
  have "heap_hole lt (elems q) n i i"
    using Suc.prems(4) by (auto simp: heap_hole_def heap_upto_def)
  then have post: "down_post q i n i q' i'"
    using heap_down_spec [of q n i i] Suc.prems d by simp
  have "heap_upto lt (elems q') n i"
    using post by (intro hole_closed [of _ _ _ _ i']) (auto simp: down_post_def)
  moreover have k: "keeps q q' n" using post by (simp add: down_post_def)
  ultimately have "keeps q' (heap_init_from ls sw n i q') n
      \<and> heap_upto lt (elems (heap_init_from ls sw n i q')) n 0"
    using Suc.prems keeps_length [OF k] by (intro Suc.IH) (auto simp: keeps_def)
  then show ?case using d keeps_trans [OF k] by simp
qed

lemma heap_Init_spec:
  assumes "good q" and "len q = length (elems q)"
  shows "good (heap_Init len ls sw q) \<and> mset (elems (heap_Init len ls sw q)) = mset (elems q)
    \<and> is_heap lt (elems (heap_Init len ls sw q))"
proof -
  have "heap_upto lt (elems q) (length (elems q)) (length (elems q) div 2)"
    by (auto simp: heap_upto_def)
  then have k: "keeps q (heap_Init len ls sw q) (length (elems q))"
    and h: "heap_upto lt (elems (heap_Init len ls sw q)) (length (elems q)) 0"
    using heap_init_from_spec [of q "length (elems q)" "length (elems q) div 2"] assms
    by (simp_all add: heap_Init_def)
  show ?thesis using k h keeps_length [OF k] by (simp add: is_heap_upto keeps_def)
qed

lemma heap_Fix_spec:
  assumes "good q" and "len q = length (elems q)" and "i < length (elems q)"
    and "heap_hole lt (elems q) (length (elems q)) 0 i"
  shows "good (heap_Fix len ls sw i q) \<and> mset (elems (heap_Fix len ls sw i q)) = mset (elems q)
    \<and> is_heap lt (elems (heap_Fix len ls sw i q))"
proof -
  have k: "keeps q (heap_Fix len ls sw i q) (length (elems q))"
    and h: "heap_upto lt (elems (heap_Fix len ls sw i q)) (length (elems q)) 0"
    using heap_fix_at_spec [OF assms(1) _ assms(3,4)] assms(2) by (simp_all add: heap_Fix_def)
  show ?thesis using k h keeps_length [OF k] by (simp add: is_heap_upto keeps_def)
qed

lemma heap_Push_spec:
  assumes "good (push q)" and "len (push q) = length (elems (push q))"
    and "elems (push q) = elems q @ [x]" and "is_heap lt (elems q)"
  shows "good (heap_Push len ls sw push q)
    \<and> mset (elems (heap_Push len ls sw push q)) = add_mset x (mset (elems q))
    \<and> is_heap lt (elems (heap_Push len ls sw push q))"
proof -
  let ?n = "length (elems (push q))"
  have "heap_hole lt (elems (push q)) ?n 0 (?n - 1)"
    using assms(3,4) by (auto simp: heap_hole_def is_heap_def nth_append)
  then have k: "keeps (push q) (heap_Push len ls sw push q) ?n"
    and h: "heap_upto lt (elems (heap_Push len ls sw push q)) ?n 0"
    using assms heap_up_spec [of "push q" ?n "?n - 1"] by (auto simp: heap_Push_def)
  show ?thesis
    using k h keeps_length [OF k] assms(3) by (simp add: is_heap_upto keeps_def)
qed

lemma hole_after_swap:
  assumes "is_heap lt xs" and "i < length xs - 1"
  shows "heap_hole lt (list_swap xs i (length xs - 1)) (length xs - 1) 0 i"
proof -
  let ?n = "length xs - 1"
  have nth: "list_swap xs i ?n ! k = (if k = i then xs ! ?n else xs ! k)" if "k < ?n" for k
    using that assms(2) by (simp add: nth_list_swap)
  have le: "\<not> lt (xs ! k) (xs ! parent k)" if "k < ?n" "0 < k" for k
    using assms(1) that by (simp add: is_heap_def)
  show ?thesis
    unfolding heap_hole_def
  proof (intro conjI allI impI)
    fix k assume k: "k < ?n" "0 < k" "k \<noteq> i" "parent k \<noteq> i"
    have "parent k < ?n" using parent_less [OF k(2)] k(1) by linarith
    then show "\<not> lt (list_swap xs i ?n ! k) (list_swap xs i ?n ! parent k)"
      using nth k le by simp
  next
    fix k assume k: "0 < i" "k < ?n" "0 < k" "parent k = i"
    have "\<not> lt (xs ! k) (xs ! i)" "\<not> lt (xs ! i) (xs ! parent i)"
      using le [OF k(2,3)] le [of i] k assms(2) by auto
    then have "\<not> lt (xs ! k) (xs ! parent i)" using neg_trans by blast
    moreover have "parent i < i" "k \<noteq> i"
      using parent_less [OF k(1)] parent_less [OF k(3)] k(4) by auto
    ultimately show "\<not> lt (list_swap xs i ?n ! k) (list_swap xs i ?n ! parent i)"
      using nth [OF k(2)] nth [of "parent i"] assms(2) by simp
  qed
qed

lemma heap_Remove_heap:
  assumes "good q" and "len q = length (elems q)" and "i < length (elems q)"
    and "is_heap lt (elems q)"
    and pop: "\<And>p. good p \<Longrightarrow> elems p \<noteq> [] \<Longrightarrow> elems (pop p) = butlast (elems p) \<and> good (pop p)"
  shows "is_heap lt (elems (heap_Remove len ls sw pop i q))"
proof -
  let ?n = "length (elems q) - 1"
  define p where "p = (if ?n \<noteq> i then heap_fix_at ls sw ?n i (sw q i ?n) else q)"
  have r: "heap_Remove len ls sw pop i q = pop p"
    using assms(2) by (simp add: heap_Remove_def p_def Let_def)
  have "good p \<and> length (elems p) = length (elems q) \<and> heap_upto lt (elems p) ?n 0"
  proof (cases "?n = i")
    case True
    then show ?thesis using assms by (auto simp: p_def is_heap_def heap_upto_def)
  next
    case False
    then have i: "i < ?n" using assms(3) by simp
    have e: "elems (sw q i ?n) = list_swap (elems q) i ?n" "good (sw q i ?n)"
      using elems_sw good_sw assms by auto
    have "keeps (sw q i ?n) p ?n \<and> heap_upto lt (elems p) ?n 0"
      using heap_fix_at_spec [of "sw q i ?n" ?n i] hole_after_swap [OF assms(4) i] e i False
      by (simp add: p_def)
    then show ?thesis using keeps_length [of "sw q i ?n" p ?n] e by (simp add: keeps_def)
  qed
  moreover have "elems p \<noteq> []" using calculation assms(3) by auto
  ultimately have "heap_upto lt (elems (pop p)) (length (elems (pop p))) 0"
    using pop [of p] by (auto simp: heap_upto_def nth_butlast)
  then show ?thesis by (simp add: is_heap_upto r)
qed

end

end
