(* ===== verification/BlockQueue.thy ===== *)
theory BlockQueue
  imports GoHeap
begin

text \<open>
  The expiry queue of the API cache (\<open>api/types/apicache.go\<close>): \<open>CachedBlock\<close>,
  the comparators, and \<open>BlockPriorityQueue\<close> with every operation. Of a block summary and a
  stake info only the fields the cache reads are fields here. Heights are \<open>uint32\<close> values, kept
  as naturals; times are Unix nanoseconds and each call of \<open>time.Now\<close> is an argument. A nil
  pointer is \<open>None\<close>; an operation that would dereference it returns \<open>None\<close> for the panic.
\<close>

section \<open>Data\<close>

record BlockDataBasic =
  Height :: nat
  Size :: nat
  Hash :: string

record StakeInfoExtended =
  Feeinfo_Height :: nat
  si_Hash :: string

record CachedBlock =
  height :: nat
  hash :: string
  summary :: "BlockDataBasic option"
  stakeInfo :: "StakeInfoExtended option"
  accesses :: int
  accessTime :: int
  heapIdx :: int

record BlockPriorityQueue =
  bh :: "CachedBlock list"
  capacity :: nat
  needsReheap :: bool
  minHeight :: int
  maxHeight :: int
  lessFn :: "CachedBlock \<Rightarrow> CachedBlock \<Rightarrow> bool"
  lastAccess :: int

definition MaxUint32 :: int where
  "MaxUint32 = 2 ^ 32 - 1"

section \<open>Cached blocks\<close>

definition checkBlockHeightHash ::
  "BlockDataBasic option \<Rightarrow> StakeInfoExtended option \<Rightarrow> (nat \<times> string \<times> bool) option" where
  "checkBlockHeightHash s si =
     (case s of
        None \<Rightarrow>
          (case si of None \<Rightarrow> None | Some i \<Rightarrow> Some (Feeinfo_Height i, si_Hash i, False))
      | Some b \<Rightarrow>
          (case si of
             None \<Rightarrow> Some (Height b, Hash b, False)
           | Some i \<Rightarrow>
               if Height b \<noteq> Feeinfo_Height i then Some (Height b, Hash b, True)
               else if Hash b \<noteq> si_Hash i then Some (Height b, Hash b, True)
               else Some (Height b, Hash b, False)))"

definition newCachedBlock ::
  "BlockDataBasic option \<Rightarrow> StakeInfoExtended option \<Rightarrow> CachedBlock option" where
  "newCachedBlock s si =
     (if s = None \<and> si = None then None
      else case checkBlockHeightHash s si of
             None \<Rightarrow> None
           | Some (h, hs, mismatch) \<Rightarrow>
               if mismatch then None
               else Some \<lparr>height = h, hash = hs, summary = s, stakeInfo = si,
                          accesses = 0, accessTime = 0, heapIdx = -1\<rparr>)"

definition Access :: "int \<Rightarrow> CachedBlock \<Rightarrow> CachedBlock" where
  "Access now b = b\<lparr>accesses := accesses b + 1, accessTime := now\<rparr>"

section \<open>Comparators\<close>

definition LessByHeight :: "CachedBlock \<Rightarrow> CachedBlock \<Rightarrow> bool" where
  "LessByHeight bi bj \<longleftrightarrow> height bi < height bj"

definition LessByAccessCount :: "CachedBlock \<Rightarrow> CachedBlock \<Rightarrow> bool" where
  "LessByAccessCount bi bj \<longleftrightarrow> accesses bi < accesses bj"

definition LessByAccessTime :: "CachedBlock \<Rightarrow> CachedBlock \<Rightarrow> bool" where
  "LessByAccessTime bi bj \<longleftrightarrow> accessTime bi < accessTime bj"

definition LessByAccessCountThenHeight :: "CachedBlock \<Rightarrow> CachedBlock \<Rightarrow> bool" where
  "LessByAccessCountThenHeight bi bj \<longleftrightarrow>
     (if accesses bi = accesses bj then LessByHeight bi bj else LessByAccessCount bi bj)"

definition MakeLessByAccessTimeThenCount :: "int \<Rightarrow> CachedBlock \<Rightarrow> CachedBlock \<Rightarrow> bool" where
  "MakeLessByAccessTimeThenCount millisecondsBinned bi bj \<longleftrightarrow>
     (let millisecondThreshold = millisecondsBinned * 1000000;
          epochDiff = go_div (accessTime bi - accessTime bj) millisecondThreshold
      in if epochDiff = 0 then LessByAccessCount bi bj else LessByAccessTime bi bj)"

section \<open>Heights\<close>

definition updateMinMax :: "nat \<Rightarrow> BlockPriorityQueue \<Rightarrow> BlockPriorityQueue" where
  "updateMinMax h pq =
     (let pq1 = (if int h > maxHeight pq then pq\<lparr>maxHeight := int h\<rparr> else pq)
      in if int h < minHeight pq1 then pq1\<lparr>minHeight := int h\<rparr> else pq1)"

definition RescanMinMax :: "BlockPriorityQueue \<Rightarrow> BlockPriorityQueue" where
  "RescanMinMax pq = foldl (\<lambda>p b. updateMinMax (height b) p) pq (bh pq)"

definition RescanMinMaxForAdd :: "nat \<Rightarrow> BlockPriorityQueue \<Rightarrow> BlockPriorityQueue" where
  "RescanMinMaxForAdd h pq = updateMinMax h pq"

definition RescanMinMaxForRemove :: "nat \<Rightarrow> BlockPriorityQueue \<Rightarrow> BlockPriorityQueue" where
  "RescanMinMaxForRemove h pq =
     (if int h = minHeight pq \<or> int h = maxHeight pq then RescanMinMax pq else pq)"

definition RescanMinMaxForUpdate :: "nat \<Rightarrow> nat \<Rightarrow> BlockPriorityQueue \<Rightarrow> BlockPriorityQueue" where
  "RescanMinMaxForUpdate heightAdd heightRemove pq =
     updateMinMax heightAdd
       (if (int heightRemove = minHeight pq \<and> heightAdd \<ge> heightRemove)
           \<or> (int heightRemove = maxHeight pq \<and> heightAdd \<le> heightRemove)
        then RescanMinMax pq else pq)"

section \<open>The queue\<close>

definition NewBlockPriorityQueue :: "nat \<Rightarrow> BlockPriorityQueue" where
  "NewBlockPriorityQueue cap =
     \<lparr>bh = [], capacity = cap, needsReheap = False, minHeight = MaxUint32, maxHeight = -1,
      lessFn = MakeLessByAccessTimeThenCount 1, lastAccess = 0\<rparr>"

definition pq_Len :: "BlockPriorityQueue \<Rightarrow> nat" where
  "pq_Len pq = length (bh pq)"

definition pq_Less :: "BlockPriorityQueue \<Rightarrow> nat \<Rightarrow> nat \<Rightarrow> bool" where
  "pq_Less pq i j = lessFn pq (bh pq ! i) (bh pq ! j)"

definition pq_Swap :: "BlockPriorityQueue \<Rightarrow> nat \<Rightarrow> nat \<Rightarrow> BlockPriorityQueue" where
  "pq_Swap pq i j =
     (let s = (bh pq)[i := bh pq ! j, j := bh pq ! i];
          s1 = s[i := (s ! i)\<lparr>heapIdx := int i\<rparr>]
      in pq\<lparr>bh := s1[j := (s1 ! j)\<lparr>heapIdx := int j\<rparr>]\<rparr>)"

definition SetLessFn ::
  "(CachedBlock \<Rightarrow> CachedBlock \<Rightarrow> bool) \<Rightarrow> BlockPriorityQueue \<Rightarrow> BlockPriorityQueue" where
  "SetLessFn f pq = pq\<lparr>lessFn := f\<rparr>"

text \<open>\<open>Push\<close> of the block that \<open>newCachedBlock\<close> made.\<close>

definition pq_Push :: "int \<Rightarrow> CachedBlock \<Rightarrow> BlockPriorityQueue \<Rightarrow> BlockPriorityQueue" where
  "pq_Push now b pq =
     (let b1 = (Access now b)\<lparr>heapIdx := int (length (bh pq))\<rparr>;
          pq1 = updateMinMax (height b1) pq
      in pq1\<lparr>bh := bh pq1 @ [b1], lastAccess := accessTime b1\<rparr>)"

definition pq_Pop :: "BlockPriorityQueue \<Rightarrow> BlockPriorityQueue" where
  "pq_Pop pq = pq\<lparr>bh := butlast (bh pq)\<rparr>"

definition Reheap :: "BlockPriorityQueue \<Rightarrow> BlockPriorityQueue" where
  "Reheap pq = heap_Init pq_Len pq_Less pq_Swap (pq\<lparr>needsReheap := False\<rparr>)"

definition doesNeedReheap :: "int \<Rightarrow> BlockPriorityQueue \<Rightarrow> bool" where
  "doesNeedReheap now pq \<longleftrightarrow> needsReheap pq \<and> now - lastAccess pq > 7 * 1000000000"

definition WatchPriorityQueue_tick :: "int \<Rightarrow> BlockPriorityQueue \<Rightarrow> BlockPriorityQueue" where
  "WatchPriorityQueue_tick now pq = (if doesNeedReheap now pq then Reheap pq else pq)"

definition ResetHeap :: "int \<Rightarrow> CachedBlock list \<Rightarrow> BlockPriorityQueue \<Rightarrow> BlockPriorityQueue" where
  "ResetHeap now blocks pq =
     (let pq1 = pq\<lparr>maxHeight := -1, minHeight := MaxUint32\<rparr>;
          pq2 = foldl (\<lambda>p b. updateMinMax (height b) p) pq1 blocks;
          blocks' = map2 (\<lambda>i b. b\<lparr>heapIdx := int i, accesses := 1, accessTime := now\<rparr>)
                      [0..<length blocks] blocks
      in heap_Init pq_Len pq_Less pq_Swap (pq2\<lparr>bh := blocks', needsReheap := False\<rparr>))"

text \<open>\<open>UpdateBlock\<close> on the block at position \<open>i\<close>; \<open>None\<close> is the nil dereference.\<close>

definition UpdateBlock ::
  "int \<Rightarrow> nat \<Rightarrow> BlockDataBasic option \<Rightarrow> StakeInfoExtended option \<Rightarrow> BlockPriorityQueue
     \<Rightarrow> BlockPriorityQueue option" where
  "UpdateBlock now i s si pq =
     (case checkBlockHeightHash s si of
        None \<Rightarrow> None
      | Some (heightAdded, hs, mismatch) \<Rightarrow>
          if mismatch then Some pq
          else
            let b = bh pq ! i;
                heightRemoved = height b;
                b1 = Access now (b\<lparr>height := heightAdded, hash := hs, summary := s,
                                   stakeInfo := si, accesses := 0\<rparr>);
                pq1 = pq\<lparr>bh := (bh pq)[i := b1]\<rparr>;
                pq2 = heap_Fix pq_Len pq_Less pq_Swap (nat (heapIdx b1)) pq1;
                pq3 = RescanMinMaxForUpdate heightAdded heightRemoved pq2
            in Some (pq3\<lparr>lastAccess := now\<rparr>))"

text \<open>
  \<open>Insert\<close>: the queue and (added, removed hash, removed height), \<open>None\<close> for a panic. The times
  are those of the successive calls of \<open>time.Now\<close>; \<open>newHash\<close> is \<open>chainhash.NewHashFromStr\<close>.
\<close>

definition pq_Insert ::
  "(string \<Rightarrow> Prelude.hash option) \<Rightarrow> int \<Rightarrow> int \<Rightarrow> int \<Rightarrow> BlockDataBasic option
     \<Rightarrow> StakeInfoExtended option \<Rightarrow> BlockPriorityQueue
     \<Rightarrow> (BlockPriorityQueue \<times> bool \<times> Prelude.hash option \<times> int) option" where
  "pq_Insert newHash t1 t2 t3 s si pq =
     (if capacity pq = 0 then Some (pq, False, None, -1)
      else if s = None \<and> si = None then Some (pq, False, None, -1)
      else if capacity pq \<le> pq_Len pq then
        (case newCachedBlock s si of
           None \<Rightarrow> None
         | Some b \<Rightarrow>
             let cachedBlock = (Access t1 b)\<lparr>heapIdx := 0\<rparr>
             in if lessFn pq (bh pq ! 0) cachedBlock then
                  let removedBlockHash = newHash (hash (bh pq ! 0));
                      removedBlockHeight = height (bh pq ! 0)
                  in case UpdateBlock t2 0 s si pq of
                       None \<Rightarrow> None
                     | Some pq1 \<Rightarrow>
                         Some (if removedBlockHash \<noteq> None then pq1\<lparr>lastAccess := t3\<rparr> else pq1,
                               True, removedBlockHash, int removedBlockHeight)
                else Some (pq, False, None, -1))
      else
        (case checkBlockHeightHash s si of
           None \<Rightarrow> None
         | Some (h, _, mismatch) \<Rightarrow>
             if mismatch then Some (pq, False, None, -1)
             else
               (case newCachedBlock s si of
                  None \<Rightarrow> None
                | Some b \<Rightarrow>
                    let pq1 = heap_Push pq_Len pq_Less pq_Swap (pq_Push t1 b) pq;
                        pq2 = RescanMinMaxForAdd h pq1
                    in Some (pq2\<lparr>lastAccess := t2\<rparr>, True, None, -1))))"

definition RemoveIndex :: "nat \<Rightarrow> BlockPriorityQueue \<Rightarrow> BlockPriorityQueue" where
  "RemoveIndex idx pq =
     (let removedHeight = height (bh pq ! idx)
      in RescanMinMaxForRemove removedHeight
           (heap_Remove pq_Len pq_Less pq_Swap pq_Pop idx pq))"

definition RemoveBlock :: "CachedBlock option \<Rightarrow> BlockPriorityQueue \<Rightarrow> BlockPriorityQueue" where
  "RemoveBlock b pq =
     (case b of
        None \<Rightarrow> pq
      | Some b \<Rightarrow>
          if heapIdx b > 0 \<and> heapIdx b < int (pq_Len pq) then
            if hash (bh pq ! nat (heapIdx b)) = hash b then RemoveIndex (nat (heapIdx b)) pq
            else pq
          else pq)"

section \<open>The queue as a heap.Interface\<close>

text \<open>Elements up to their index; the indices and the other fields are kept by every sift.\<close>

definition strip :: "CachedBlock \<Rightarrow> CachedBlock" where
  "strip b = b\<lparr>heapIdx := 0\<rparr>"

definition pq_elems :: "BlockPriorityQueue \<Rightarrow> CachedBlock list" where
  "pq_elems pq = map strip (bh pq)"

definition idx_ok :: "BlockPriorityQueue \<Rightarrow> bool" where
  "idx_ok pq \<longleftrightarrow> (\<forall>i<length (bh pq). heapIdx (bh pq ! i) = int i)"

definition pq_rest :: "BlockPriorityQueue \<Rightarrow> BlockPriorityQueue" where
  "pq_rest pq = pq\<lparr>bh := []\<rparr>"

lemma strip_simps [simp]:
  "height (strip b) = height b" "hash (strip b) = hash b" "accesses (strip b) = accesses b"
  "accessTime (strip b) = accessTime b" "strip (b\<lparr>heapIdx := i\<rparr>) = strip b" "strip (strip b) = strip b"
  by (simp_all add: strip_def)

lemma length_pq_elems [simp]: "length (pq_elems pq) = length (bh pq)"
  by (simp add: pq_elems_def)

lemma pq_elems_nth [simp]: "i < length (bh pq) \<Longrightarrow> pq_elems pq ! i = strip (bh pq ! i)"
  by (simp add: pq_elems_def)

lemma pq_Swap_bh:
  assumes "i < length (bh pq)" and "j < length (bh pq)" and "k < length (bh pq)"
  shows "bh (pq_Swap pq i j) ! k =
    (if k = i then (bh pq ! j)\<lparr>heapIdx := int i\<rparr>
     else if k = j then (bh pq ! i)\<lparr>heapIdx := int j\<rparr> else bh pq ! k)"
  using assms by (auto simp: pq_Swap_def Let_def nth_list_update)

lemma pq_Swap_length [simp]: "length (bh (pq_Swap pq i j)) = length (bh pq)"
  by (simp add: pq_Swap_def Let_def)

lemma pq_Swap_rest [simp]: "pq_rest (pq_Swap pq i j) = pq_rest pq"
  by (simp add: pq_Swap_def pq_rest_def Let_def)

lemma pq_rest_fields:
  assumes "pq_rest pq = pq_rest pq'"
  shows "capacity pq = capacity pq'" "lessFn pq = lessFn pq'" "minHeight pq = minHeight pq'"
    "maxHeight pq = maxHeight pq'" "needsReheap pq = needsReheap pq'" "lastAccess pq = lastAccess pq'"
  using assms by (cases pq; cases pq'; simp add: pq_rest_def)+

lemma pq_Swap_elems:
  assumes "i < length (bh pq)" and "j < length (bh pq)"
  shows "pq_elems (pq_Swap pq i j) = list_swap (pq_elems pq) i j"
  using assms by (intro nth_equalityI) (auto simp: pq_elems_def nth_list_swap pq_Swap_bh)

lemma pq_Swap_idx:
  assumes "idx_ok pq" and "i < length (bh pq)" and "j < length (bh pq)"
  shows "idx_ok (pq_Swap pq i j)"
  using assms by (auto simp: idx_ok_def pq_Swap_bh)

interpretation pqs: heap_swap pq_elems "\<lambda>pq. idx_ok pq \<and> pq_rest pq = F" pq_Swap for F
  by unfold_locales (auto simp: pq_Swap_elems pq_Swap_idx)

locale block_order = strict_weak_order lt for lt :: "CachedBlock \<Rightarrow> CachedBlock \<Rightarrow> bool" +
  assumes ignores_idx: "lt (strip a) (strip b) \<longleftrightarrow> lt a b"

sublocale block_order \<subseteq> pqh: heap_interface lt pq_elems "\<lambda>pq. idx_ok pq \<and> lessFn pq = lt" pq_Swap pq_Less
proof unfold_locales
  fix q i j
  assume "idx_ok q \<and> lessFn q = lt" and "i < length (pq_elems q)" and "j < length (pq_elems q)"
  then show "idx_ok (pq_Swap q i j) \<and> lessFn (pq_Swap q i j) = lt"
    using pq_Swap_idx [of q i j] pq_rest_fields(2) [OF pq_Swap_rest [of q i j]] by simp
qed (auto simp: pq_Swap_elems pq_Less_def pq_elems_nth ignores_idx)

interpretation by_height: block_order LessByHeight
  by unfold_locales (auto simp: LessByHeight_def)

interpretation by_count: block_order LessByAccessCount
  by unfold_locales (auto simp: LessByAccessCount_def)

interpretation by_time: block_order LessByAccessTime
  by unfold_locales (auto simp: LessByAccessTime_def)

interpretation by_count_height: block_order LessByAccessCountThenHeight
  by unfold_locales
    (auto simp: LessByAccessCountThenHeight_def LessByHeight_def LessByAccessCount_def split: if_splits)

section \<open>Frames\<close>

lemma updateMinMax_frame [simp]:
  "bh (updateMinMax h pq) = bh pq" "capacity (updateMinMax h pq) = capacity pq"
  "lessFn (updateMinMax h pq) = lessFn pq" "needsReheap (updateMinMax h pq) = needsReheap pq"
  by (simp_all add: updateMinMax_def Let_def)

lemma foldl_updateMinMax_frame [simp]:
  "bh (foldl (\<lambda>p b. updateMinMax (height b) p) pq bs) = bh pq"
  "capacity (foldl (\<lambda>p b. updateMinMax (height b) p) pq bs) = capacity pq"
  "lessFn (foldl (\<lambda>p b. updateMinMax (height b) p) pq bs) = lessFn pq"
  by (induction bs arbitrary: pq) simp_all

lemma RescanMinMax_frame [simp]:
  "bh (RescanMinMax pq) = bh pq" "capacity (RescanMinMax pq) = capacity pq"
  "lessFn (RescanMinMax pq) = lessFn pq"
  by (simp_all add: RescanMinMax_def)

lemma Rescan_frame [simp]:
  "bh (RescanMinMaxForAdd h pq) = bh pq" "capacity (RescanMinMaxForAdd h pq) = capacity pq"
  "lessFn (RescanMinMaxForAdd h pq) = lessFn pq"
  "bh (RescanMinMaxForRemove h pq) = bh pq" "capacity (RescanMinMaxForRemove h pq) = capacity pq"
  "lessFn (RescanMinMaxForRemove h pq) = lessFn pq"
  "bh (RescanMinMaxForUpdate a r pq) = bh pq" "capacity (RescanMinMaxForUpdate a r pq) = capacity pq"
  "lessFn (RescanMinMaxForUpdate a r pq) = lessFn pq"
  by (simp_all add: RescanMinMaxForAdd_def RescanMinMaxForRemove_def RescanMinMaxForUpdate_def)

lemma idx_ok_cong: "bh pq = bh pq' \<Longrightarrow> idx_ok pq = idx_ok pq'"
  by (simp add: idx_ok_def)

lemma pq_elems_cong: "bh pq = bh pq' \<Longrightarrow> pq_elems pq = pq_elems pq'"
  by (simp add: pq_elems_def)

definition pq_inv :: "BlockPriorityQueue \<Rightarrow> bool" where
  "pq_inv pq \<longleftrightarrow> idx_ok pq \<and> length (bh pq) \<le> capacity pq"

text \<open>What a queue operation leaves: the invariant, the settings and the elements \<open>M\<close>.\<close>

definition pq_becomes :: "BlockPriorityQueue \<Rightarrow> CachedBlock multiset \<Rightarrow> BlockPriorityQueue \<Rightarrow> bool" where
  "pq_becomes pq M pq' \<longleftrightarrow> idx_ok pq' \<and> mset (pq_elems pq') = M
     \<and> capacity pq' = capacity pq \<and> lessFn pq' = lessFn pq"

lemma heap_op_becomes:
  assumes "pqs.keeps F pq pq' n" and "pq_rest pq = F"
  shows "pq_becomes pq (mset (pq_elems pq)) pq'"
  using assms pq_rest_fields(1,2) [of pq' pq] by (simp add: pqs.keeps_def pq_becomes_def)

lemma pq_Push_facts:
  assumes "idx_ok pq"
  shows "idx_ok (pq_Push t b pq)" "pq_elems (pq_Push t b pq) = pq_elems pq @ [strip (Access t b)]"
    "capacity (pq_Push t b pq) = capacity pq" "lessFn (pq_Push t b pq) = lessFn pq"
    "pq_Len (pq_Push t b pq) = length (pq_elems (pq_Push t b pq))"
  using assms by (auto simp: pq_Push_def Let_def idx_ok_def pq_elems_def pq_Len_def nth_append)

lemma heap_Push_becomes:
  assumes "idx_ok pq"
  shows "pq_becomes pq (add_mset (strip (Access t b)) (mset (pq_elems pq)))
    (heap_Push pq_Len pq_Less pq_Swap (pq_Push t b) pq)"
proof -
  let ?p = "pq_Push t b pq"
  have "pqs.keeps (pq_rest ?p) ?p (heap_Push pq_Len pq_Less pq_Swap (pq_Push t b) pq)
      (length (pq_elems ?p))"
    using pq_Push_facts [OF assms, of t b] by (intro pqs.heap_Push_keeps) auto
  from heap_op_becomes [OF this refl] show ?thesis
    using pq_Push_facts [OF assms, of t b] by (simp add: pq_becomes_def)
qed

lemma heap_Init_becomes:
  assumes "idx_ok pq"
  shows "pq_becomes pq (mset (pq_elems pq)) (heap_Init pq_Len pq_Less pq_Swap pq)"
proof -
  have "pqs.keeps (pq_rest pq) pq (heap_Init pq_Len pq_Less pq_Swap pq) (length (pq_elems pq))"
    using assms by (intro pqs.heap_Init_keeps) (auto simp: pq_Len_def)
  from heap_op_becomes [OF this refl] show ?thesis .
qed

lemma heap_Fix_becomes:
  assumes "idx_ok pq" and "i < length (bh pq)"
  shows "pq_becomes pq (mset (pq_elems pq)) (heap_Fix pq_Len pq_Less pq_Swap i pq)"
proof -
  have "pqs.keeps (pq_rest pq) pq (heap_Fix pq_Len pq_Less pq_Swap i pq) (length (pq_elems pq))"
    using assms by (intro pqs.heap_Fix_keeps) (auto simp: pq_Len_def)
  from heap_op_becomes [OF this refl] show ?thesis .
qed

lemma newCachedBlock_nonnil: "newCachedBlock s si = Some b \<Longrightarrow> \<not> (s = None \<and> si = None)"
  by (rule notI) (simp add: newCachedBlock_def)

lemma newCachedBlock_Some:
  assumes "newCachedBlock s si = Some b"
  shows "checkBlockHeightHash s si = Some (height b, hash b, False)"
    and "b = \<lparr>height = height b, hash = hash b, summary = s, stakeInfo = si,
               accesses = 0, accessTime = 0, heapIdx = -1\<rparr>"
  using assms by (auto simp: newCachedBlock_def split: if_splits option.splits)

text \<open>The top block replaced in place, before the heap is fixed.\<close>

definition replaced_top :: "int \<Rightarrow> CachedBlock \<Rightarrow> BlockPriorityQueue \<Rightarrow> BlockPriorityQueue" where
  "replaced_top t b pq = pq\<lparr>bh := (bh pq)[0 := (Access t b)\<lparr>heapIdx := heapIdx (bh pq ! 0)\<rparr>]\<rparr>"

lemma replaced_top_facts:
  assumes "idx_ok pq" and "bh pq \<noteq> []"
  shows "idx_ok (replaced_top t b pq)"
    and "pq_elems (replaced_top t b pq) = (pq_elems pq)[0 := strip (Access t b)]"
    and "capacity (replaced_top t b pq) = capacity pq" and "lessFn (replaced_top t b pq) = lessFn pq"
    and "length (bh (replaced_top t b pq)) = length (bh pq)"
  using assms by (auto simp: replaced_top_def idx_ok_def pq_elems_def map_update nth_list_update)

lemma UpdateBlock_top:
  assumes "idx_ok pq" and "bh pq \<noteq> []" and "newCachedBlock s si = Some b"
  shows "UpdateBlock t 0 s si pq =
    Some ((RescanMinMaxForUpdate (height b) (height (bh pq ! 0))
       (heap_Fix pq_Len pq_Less pq_Swap 0 (replaced_top t b pq)))\<lparr>lastAccess := t\<rparr>)"
proof -
  have i: "heapIdx (bh pq ! 0) = 0" using assms(1,2) by (simp add: idx_ok_def)
  have "Access t ((bh pq ! 0)\<lparr>height := height b, hash := hash b, summary := s, stakeInfo := si,
          accesses := 0\<rparr>) = (Access t b)\<lparr>heapIdx := heapIdx (bh pq ! 0)\<rparr>"
    by (subst (2) newCachedBlock_Some(2) [OF assms(3)], cases "bh pq ! 0") (simp add: Access_def)
  moreover have "heapIdx ((Access t b)\<lparr>heapIdx := heapIdx (bh pq ! 0)\<rparr>) = 0" using i by simp
  ultimately show ?thesis
    using newCachedBlock_Some(1) [OF assms(3)]
    by (simp add: UpdateBlock_def Let_def replaced_top_def)
qed

lemma fixed_top_becomes:
  assumes "idx_ok pq" and "bh pq \<noteq> []"
  shows "pq_becomes pq (add_mset (strip (Access t b)) (mset (pq_elems pq) - {#strip (bh pq ! 0)#}))
    (heap_Fix pq_Len pq_Less pq_Swap 0 (replaced_top t b pq))"
proof -
  note r = replaced_top_facts [OF assms, of t b]
  have "mset ((pq_elems pq)[0 := strip (Access t b)])
      = add_mset (strip (Access t b)) (mset (pq_elems pq) - {#strip (bh pq ! 0)#})"
    using assms(2) by (simp add: mset_update)
  then show ?thesis
    using heap_Fix_becomes [OF r(1), of 0] r assms(2) by (simp add: pq_becomes_def)
qed

text \<open>Every outcome of \<open>pq_Insert\<close> for a well-formed block, whatever the comparator.\<close>

lemma pq_Insert_outcomes:
  assumes "pq_inv pq" and "newCachedBlock s si = Some b" and "0 < capacity pq"
  shows "if length (bh pq) < capacity pq then
      (\<exists>pq'. pq_Insert newHash t1 t2 t3 s si pq = Some (pq', True, None, -1)
         \<and> pq_becomes pq (add_mset (strip (Access t1 b)) (mset (pq_elems pq))) pq')
    else if lessFn pq (bh pq ! 0) ((Access t1 b)\<lparr>heapIdx := 0\<rparr>) then
      (\<exists>pq'. pq_Insert newHash t1 t2 t3 s si pq
           = Some (pq', True, newHash (hash (bh pq ! 0)), int (height (bh pq ! 0)))
         \<and> pq_becomes pq (add_mset (strip (Access t2 b))
              (mset (pq_elems pq) - {#strip (bh pq ! 0)#})) pq')
    else pq_Insert newHash t1 t2 t3 s si pq = Some (pq, False, None, -1)"
proof (cases "length (bh pq) < capacity pq")
  case True
  have nn: "\<not> (s = None \<and> si = None)" by (rule newCachedBlock_nonnil [OF assms(2)])
  let ?p = "heap_Push pq_Len pq_Less pq_Swap (pq_Push t1 b) pq"
  have "pq_Insert newHash t1 t2 t3 s si pq
      = Some ((RescanMinMaxForAdd (height b) ?p)\<lparr>lastAccess := t2\<rparr>, True, None, -1)"
    using True nn assms(2,3) newCachedBlock_Some(1) [OF assms(2)]
    by (simp add: pq_Insert_def pq_Len_def Let_def)
  then show ?thesis
    using True heap_Push_becomes [of pq t1 b] assms(1)
    by (simp add: pq_becomes_def pq_inv_def idx_ok_def pq_elems_def)
next
  case False
  then have ne: "bh pq \<noteq> []" and full: "capacity pq \<le> pq_Len pq"
    using assms(3) by (auto simp: pq_Len_def)
  have idx: "idx_ok pq" using assms(1) by (simp add: pq_inv_def)
  have nn: "\<not> (s = None \<and> si = None)" by (rule newCachedBlock_nonnil [OF assms(2)])
  show ?thesis
  proof (cases "lessFn pq (bh pq ! 0) ((Access t1 b)\<lparr>heapIdx := 0\<rparr>)")
    case True
    let ?p = "(RescanMinMaxForUpdate (height b) (height (bh pq ! 0))
       (heap_Fix pq_Len pq_Less pq_Swap 0 (replaced_top t2 b pq)))\<lparr>lastAccess := t2\<rparr>"
    let ?p' = "if newHash (hash (bh pq ! 0)) \<noteq> None then ?p\<lparr>lastAccess := t3\<rparr> else ?p"
    have "pq_Insert newHash t1 t2 t3 s si pq
        = Some (?p', True, newHash (hash (bh pq ! 0)), int (height (bh pq ! 0)))"
      using True full nn assms(2,3) UpdateBlock_top [OF idx ne assms(2), of t2]
      by (simp add: pq_Insert_def Let_def)
    moreover have "pq_becomes pq (add_mset (strip (Access t2 b))
        (mset (pq_elems pq) - {#strip (bh pq ! 0)#})) ?p'"
      using fixed_top_becomes [OF idx ne, of t2 b]
      by (simp add: pq_becomes_def idx_ok_def pq_elems_def)
    ultimately show ?thesis using True False by auto
  next
    case no: False
    then show ?thesis using full nn assms(2,3) False by (simp add: pq_Insert_def Let_def)
  qed
qed

lemma pq_becomes_inv:
  assumes "pq_becomes pq M pq'" and "size M \<le> capacity pq"
  shows "pq_inv pq'"
proof -
  have "size (mset (pq_elems pq')) = size M" using assms(1) by (simp only: pq_becomes_def)
  then show ?thesis using assms by (simp add: pq_becomes_def pq_inv_def)
qed

lemma pq_Insert_inv:
  assumes "pq_inv pq" and "newCachedBlock s si = Some b"
    and "pq_Insert newHash t1 t2 t3 s si pq = Some (pq', added, removed, rh)"
  shows "pq_inv pq'"
proof (cases "0 < capacity pq")
  case True
  have size: "size (mset (pq_elems pq)) = length (bh pq)" by simp
  show ?thesis
  proof (cases "length (bh pq) < capacity pq")
    case c: True
    then show ?thesis
      using pq_Insert_outcomes [OF assms(1,2) True, of newHash t1 t2 t3] assms(3)
      by (auto elim!: pq_becomes_inv)
  next
    case c: False
    then have "bh pq \<noteq> []" and le: "length (bh pq) = capacity pq"
      using True assms(1) by (auto simp: pq_inv_def)
    then have "strip (bh pq ! 0) \<in># mset (pq_elems pq)" by (cases "bh pq") (simp_all add: pq_elems_def)
    then have "size (add_mset x (mset (pq_elems pq) - {#strip (bh pq ! 0)#})) = capacity pq" for x
      using size le True by (simp add: size_Diff_singleton)
    then show ?thesis
      using pq_Insert_outcomes [OF assms(1,2) True, of newHash t1 t2 t3] assms(1,3) c
      by (auto elim!: pq_becomes_inv split: if_splits)
  qed
next
  case False
  then show ?thesis using assms by (simp add: pq_Insert_def)
qed

lemma pq_heap_Remove:
  fixes i pq
  defines "p \<equiv> heap_Remove pq_Len pq_Less pq_Swap pq_Pop i pq"
  assumes "idx_ok pq" and "i < length (bh pq)"
  shows "idx_ok p" and "pq_rest p = pq_rest pq"
    and "add_mset (strip (bh pq ! i)) (mset (pq_elems p)) = mset (pq_elems pq)"
proof -
  have pop: "pq_elems (pq_Pop p) = butlast (pq_elems p) \<and> idx_ok (pq_Pop p) \<and> pq_rest (pq_Pop p) = pq_rest pq"
    if "idx_ok p \<and> pq_rest p = pq_rest pq" "pq_elems p \<noteq> []" for p
    using that by (auto simp: pq_Pop_def pq_elems_def map_butlast idx_ok_def nth_butlast pq_rest_def)
  have "(idx_ok p \<and> pq_rest p = pq_rest pq)
      \<and> add_mset (pq_elems pq ! i) (mset (pq_elems p)) = mset (pq_elems pq)"
    using assms(2,3) pop unfolding p_def by (intro pqs.heap_Remove_elems) (auto simp: pq_Len_def)
  then show "idx_ok p" "pq_rest p = pq_rest pq"
    "add_mset (strip (bh pq ! i)) (mset (pq_elems p)) = mset (pq_elems pq)"
    using assms(3) by simp_all
qed

lemma RemoveIndex_becomes:
  assumes "idx_ok pq" and "i < length (bh pq)"
  shows "pq_becomes pq (mset (pq_elems pq) - {#strip (bh pq ! i)#}) (RemoveIndex i pq)"
proof -
  let ?p = "heap_Remove pq_Len pq_Less pq_Swap pq_Pop i pq"
  note p = pq_heap_Remove [OF assms]
  have "pq_becomes pq (mset (pq_elems pq) - {#strip (bh pq ! i)#}) ?p"
    unfolding p(3) [symmetric] using p(1) pq_rest_fields(1,2) [OF p(2)] by (simp add: pq_becomes_def)
  then show ?thesis
    by (simp add: RemoveIndex_def Let_def pq_becomes_def idx_ok_def pq_elems_def)
qed

lemma Reheap_becomes: "idx_ok pq \<Longrightarrow> pq_becomes pq (mset (pq_elems pq)) (Reheap pq)"
  using heap_Init_becomes [of "pq\<lparr>needsReheap := False\<rparr>"]
  by (simp add: Reheap_def pq_becomes_def idx_ok_def pq_elems_def)

context block_order
begin

lemma is_heap_pq_cong: "bh pq = bh pq' \<Longrightarrow> is_heap lt (pq_elems pq) = is_heap lt (pq_elems pq')"
  by (simp add: pq_elems_def)

lemma Reheap_heap:
  assumes "idx_ok pq" and "lessFn pq = lt"
  shows "is_heap lt (pq_elems (Reheap pq))"
  using assms pqh.heap_Init_spec [of "pq\<lparr>needsReheap := False\<rparr>" pq_Len]
  by (simp add: Reheap_def idx_ok_def pq_Len_def)

lemma Insert_heap:
  assumes "pq_inv pq" and "lessFn pq = lt" and "is_heap lt (pq_elems pq)"
    and "newCachedBlock s si = Some b"
    and "pq_Insert newHash t1 t2 t3 s si pq = Some (pq', added, removed, rh)"
  shows "is_heap lt (pq_elems pq')"
proof -
  have idx: "idx_ok pq" using assms(1) by (simp add: pq_inv_def)
  have nn: "\<not> (s = None \<and> si = None)" by (rule newCachedBlock_nonnil [OF assms(4)])
  let ?push = "heap_Push pq_Len pq_Less pq_Swap (pq_Push t1 b) pq"
  let ?fix = "heap_Fix pq_Len pq_Less pq_Swap 0 (replaced_top t2 b pq)"
  have push: "is_heap lt (pq_elems ?push)"
    using pqh.heap_Push_spec [of "pq_Push t1 b" pq pq_Len "strip (Access t1 b)"]
      pq_Push_facts [OF idx, of t1 b] assms(2,3) by simp
  have fix0: "is_heap lt (pq_elems ?fix)" if ne: "bh pq \<noteq> []"
  proof -
    note r = replaced_top_facts [OF idx ne, of t2 b]
    have "heap_hole lt (pq_elems (replaced_top t2 b pq)) (length (bh pq)) 0 0"
      using assms(3) ne unfolding r(2) by (auto simp: heap_hole_def is_heap_def nth_list_update)
    then show ?thesis
      using pqh.heap_Fix_spec [of "replaced_top t2 b pq" pq_Len 0] r ne assms(2)
      by (simp add: pq_Len_def)
  qed
  have cases: "bh pq' = bh pq \<or> bh pq' = bh ?push \<or> (bh pq \<noteq> [] \<and> bh pq' = bh ?fix)"
  proof (cases "capacity pq = 0 \<or> length (bh pq) < capacity pq")
    case True
    then show ?thesis
      using assms(4,5) nn newCachedBlock_Some(1) [OF assms(4)]
      by (auto simp: pq_Insert_def pq_Len_def Let_def)
  next
    case False
    then have ne: "bh pq \<noteq> []" by auto
    show ?thesis
      using False assms(4,5) nn UpdateBlock_top [OF idx ne assms(4), of t2] ne
      by (auto simp: pq_Insert_def pq_Len_def Let_def split: if_splits)
  qed
  then show ?thesis using push fix0 assms(3) is_heap_pq_cong by blast
qed

lemma top_is_minimal:
  assumes "is_heap lt (pq_elems pq)" and "b \<in> set (bh pq)"
  shows "\<not> lt b (bh pq ! 0)"
proof -
  obtain k where "k < length (bh pq)" "b = bh pq ! k" using assms(2) by (auto simp: in_set_conv_nth)
  then show ?thesis
    using heap_top [OF assms(1), of k] ignores_idx by (cases "bh pq") auto
qed

end

section \<open>The default comparator and the height bounds\<close>

text \<open>The default comparator is cyclic: with one-millisecond bins there are three blocks each
  of lower priority than the next around a circle, so no order of the queue is consistent with it.\<close>

theorem default_comparator_cyclic:
  "\<exists>a b c. lessFn (NewBlockPriorityQueue cap) a b \<and> lessFn (NewBlockPriorityQueue cap) b c
     \<and> lessFn (NewBlockPriorityQueue cap) c a"
proof -
  define blk where "blk n t = \<lparr>height = 1, hash = '''', summary = None, stakeInfo = None,
    accesses = n, accessTime = t, heapIdx = 0\<rparr>" for n t :: int
  have "MakeLessByAccessTimeThenCount 1 (blk 1 1200000) (blk 2 600000)"
    "MakeLessByAccessTimeThenCount 1 (blk 2 600000) (blk 3 0)"
    "MakeLessByAccessTimeThenCount 1 (blk 3 0) (blk 1 1200000)"
    by (simp_all add: blk_def MakeLessByAccessTimeThenCount_def LessByAccessCount_def
        LessByAccessTime_def go_div_def)
  then show ?thesis unfolding NewBlockPriorityQueue_def by auto
qed

definition bounds_cover :: "BlockPriorityQueue \<Rightarrow> bool" where
  "bounds_cover pq \<longleftrightarrow> (\<forall>b\<in>set (bh pq). minHeight pq \<le> int (height b) \<and> int (height b) \<le> maxHeight pq)"

lemma updateMinMax_covered:
  "minHeight pq \<le> int h \<Longrightarrow> int h \<le> maxHeight pq \<Longrightarrow> updateMinMax h pq = pq"
  by (simp add: updateMinMax_def)

lemma foldl_updateMinMax_covered:
  "\<forall>b\<in>set bs. minHeight pq \<le> int (height b) \<and> int (height b) \<le> maxHeight pq
     \<Longrightarrow> foldl (\<lambda>p b. updateMinMax (height b) p) pq bs = pq"
  by (induction bs) (simp_all add: updateMinMax_covered)

lemma RescanMinMax_covered: "bounds_cover pq \<Longrightarrow> RescanMinMax pq = pq"
  by (simp add: RescanMinMax_def bounds_cover_def foldl_updateMinMax_covered)

text \<open>The height bounds never shrink: when the recorded bounds cover the queued heights,
  removing any block, the highest or the lowest too, leaves them as they were.\<close>

theorem RemoveIndex_stale_bounds:
  assumes "idx_ok pq" and "i < length (bh pq)" and "bounds_cover pq"
  shows "minHeight (RemoveIndex i pq) = minHeight pq \<and> maxHeight (RemoveIndex i pq) = maxHeight pq"
proof -
  let ?p = "heap_Remove pq_Len pq_Less pq_Swap pq_Pop i pq"
  note p = pq_heap_Remove [OF assms(1,2)]
  note f = pq_rest_fields(3,4) [OF p(2)]
  have "minHeight pq \<le> int (height b) \<and> int (height b) \<le> maxHeight pq" if "b \<in> set (bh ?p)" for b
  proof -
    have "strip b \<in># mset (pq_elems ?p)" using that by (simp add: pq_elems_def)
    then have "strip b \<in># mset (pq_elems pq)" using p(3) by (metis union_iff add_mset_add_single)
    then show ?thesis using assms(3) by (auto simp: bounds_cover_def pq_elems_def dest!: arg_cong [of _ _ height])
  qed
  then have "bounds_cover ?p" using f by (simp add: bounds_cover_def)
  then have "RescanMinMax ?p = ?p" by (rule RescanMinMax_covered)
  then show ?thesis using f by (simp add: RemoveIndex_def RescanMinMaxForRemove_def Let_def)
qed

text \<open>A queue with the blocks of heights 5 and 9, from which the block of height 9 is removed.\<close>

definition example_block :: "nat \<Rightarrow> int \<Rightarrow> CachedBlock" where
  "example_block h i = \<lparr>height = h, hash = '''', summary = None, stakeInfo = None,
     accesses = 1, accessTime = 0, heapIdx = i\<rparr>"

definition example_pq :: BlockPriorityQueue where
  "example_pq = (NewBlockPriorityQueue 4)\<lparr>bh := [example_block 5 0, example_block 9 1],
     minHeight := 5, maxHeight := 9\<rparr>"

theorem RemoveIndex_stale_bounds_witness:
  "map height (bh (RemoveIndex 1 example_pq)) = [5] \<and> maxHeight (RemoveIndex 1 example_pq) = 9"
proof -
  have "bh example_pq = [example_block 5 0, example_block 9 1]" "idx_ok example_pq"
    "bounds_cover example_pq" "maxHeight example_pq = 9"
    by (auto simp: example_pq_def idx_ok_def bounds_cover_def example_block_def less_Suc_eq)
  moreover have "map height (bh (RemoveIndex 1 example_pq)) = [5]" by code_simp
  ultimately show ?thesis using RemoveIndex_stale_bounds [of example_pq 1] by simp
qed

end
