(* ===== verification/ApiCache.thy ===== *)
theory ApiCache
  imports BlockQueue
begin

text \<open>
  The block cache of the API (\<open>api/types/apicache.go\<close>, \<open>APICache\<close>): the map of cached blocks,
  the main-chain heights, the expiry queue and the counters. The blocks in the map and the
  blocks in the queue are different objects in the code (each is made by its own call of
  \<open>newCachedBlock\<close>), so they are separate values here. \<open>newHash\<close> is
  \<open>chainhash.NewHashFromStr\<close> and \<open>hashStr\<close> is \<open>chainhash.Hash.String\<close>, both third-party
  code. A panic is \<open>None\<close>.
\<close>

record APICache =
  isEnabled :: "bool option"
  cacheCapacity :: nat
  blockCache :: "Prelude.hash \<rightharpoonup> CachedBlock"
  MainchainBlocks :: "int \<rightharpoonup> Prelude.hash"
  expireQueue :: BlockPriorityQueue
  hits :: nat
  misses :: nat

type_synonym parse_hash = "string \<Rightarrow> Prelude.hash option"

definition NewAPICache :: "nat \<Rightarrow> APICache" where
  "NewAPICache cap =
     \<lparr>isEnabled = None, cacheCapacity = cap, blockCache = Map.empty, MainchainBlocks = Map.empty,
      expireQueue = NewBlockPriorityQueue cap, hits = 0, misses = 0\<rparr>"

definition Enable :: "APICache \<Rightarrow> APICache" where
  "Enable c = c\<lparr>isEnabled := Some True\<rparr>"

definition Disable :: "APICache \<Rightarrow> APICache" where
  "Disable c = c\<lparr>isEnabled := Some False\<rparr>"

definition IsEnabled :: "APICache \<Rightarrow> bool" where
  "IsEnabled c = (case isEnabled c of None \<Rightarrow> False | Some e \<Rightarrow> e)"

definition SetCacheLessFn :: "(CachedBlock \<Rightarrow> CachedBlock \<Rightarrow> bool) \<Rightarrow> APICache \<Rightarrow> APICache" where
  "SetCacheLessFn f c = c\<lparr>expireQueue := SetLessFn f (expireQueue c)\<rparr>"

definition UtilizationBlocks :: "APICache \<Rightarrow> nat" where
  "UtilizationBlocks c = card (dom (blockCache c))"

text \<open>The common end of the two store operations, after the queue has answered.\<close>

definition storeInserted ::
  "parse_hash \<Rightarrow> int \<Rightarrow> int \<Rightarrow> int \<Rightarrow> BlockDataBasic option \<Rightarrow> StakeInfoExtended option
     \<Rightarrow> nat \<Rightarrow> Prelude.hash \<Rightarrow> CachedBlock \<Rightarrow> APICache \<Rightarrow> APICache option" where
  "storeInserted newHash t1 t2 t3 s si h hs cachedBlock c =
     (case pq_Insert newHash t1 t2 t3 s si (expireQueue c) of
        None \<Rightarrow> None
      | Some (q, wasAdded, removedBlock, removedHeight) \<Rightarrow>
          let c1 = c\<lparr>expireQueue := q\<rparr>;
              c2 = (case removedBlock of
                      None \<Rightarrow> c1
                    | Some r \<Rightarrow>
                        c1\<lparr>blockCache := (blockCache c1)(r := None),
                           MainchainBlocks := (MainchainBlocks c1)(removedHeight := None)\<rparr>)
          in Some (if wasAdded
                   then c2\<lparr>blockCache := (blockCache c2)(hs \<mapsto> cachedBlock),
                           MainchainBlocks := (MainchainBlocks c2)(int h \<mapsto> hs)\<rparr>
                   else c2))"

definition StoreBlockSummary ::
  "parse_hash \<Rightarrow> int \<Rightarrow> int \<Rightarrow> int \<Rightarrow> int \<Rightarrow> BlockDataBasic \<Rightarrow> APICache \<Rightarrow> APICache option" where
  "StoreBlockSummary newHash t0 t1 t2 t3 s c =
     (if \<not> IsEnabled c then Some c
      else case newHash (Hash s) of
             None \<Rightarrow> None
           | Some hs \<Rightarrow>
               (case blockCache c hs of
                  Some b \<Rightarrow>
                    if summary b \<noteq> None then Some c
                    else Some (c\<lparr>blockCache := (blockCache c)(hs \<mapsto> b\<lparr>summary := Some s\<rparr>)\<rparr>)
                | None \<Rightarrow>
                    (case newCachedBlock (Some s) None of
                       None \<Rightarrow> None
                     | Some b \<Rightarrow>
                         storeInserted newHash t1 t2 t3 (Some s) None (Height s) hs (Access t0 b) c)))"

definition StoreStakeInfo ::
  "parse_hash \<Rightarrow> int \<Rightarrow> int \<Rightarrow> int \<Rightarrow> int \<Rightarrow> StakeInfoExtended \<Rightarrow> APICache \<Rightarrow> APICache option" where
  "StoreStakeInfo newHash t0 t1 t2 t3 si c =
     (if \<not> IsEnabled c then Some c
      else case newHash (si_Hash si) of
             None \<Rightarrow> None
           | Some hs \<Rightarrow>
               (case blockCache c hs of
                  Some b \<Rightarrow>
                    if stakeInfo b = None
                    then Some (c\<lparr>blockCache := (blockCache c)(hs \<mapsto> b\<lparr>stakeInfo := Some si\<rparr>)\<rparr>)
                    else Some c
                | None \<Rightarrow>
                    (case newCachedBlock None (Some si) of
                       None \<Rightarrow> None
                     | Some b \<Rightarrow>
                         storeInserted newHash t1 t2 t3 None (Some si) (Feeinfo_Height si) hs
                           (Access t0 b) c)))"

section \<open>Lookups\<close>

definition getCachedBlockByHash ::
  "int \<Rightarrow> int \<Rightarrow> Prelude.hash \<Rightarrow> APICache \<Rightarrow> APICache \<times> CachedBlock option" where
  "getCachedBlockByHash t1 t2 hs c =
     (case blockCache c hs of
        Some b \<Rightarrow>
          let b1 = Access t1 b
          in (c\<lparr>blockCache := (blockCache c)(hs \<mapsto> b1),
                expireQueue := (expireQueue c)\<lparr>needsReheap := True, lastAccess := t2\<rparr>,
                hits := hits c + 1\<rparr>, Some b1)
      | None \<Rightarrow> (c\<lparr>misses := misses c + 1\<rparr>, None))"

definition GetCachedBlockByHeight ::
  "int \<Rightarrow> int \<Rightarrow> int \<Rightarrow> APICache \<Rightarrow> APICache \<times> CachedBlock option" where
  "GetCachedBlockByHeight t1 t2 h c =
     (case MainchainBlocks c h of
        None \<Rightarrow> (c, None)
      | Some hs \<Rightarrow> getCachedBlockByHash t1 t2 hs c)"

definition GetCachedBlockByHashStr ::
  "parse_hash \<Rightarrow> int \<Rightarrow> int \<Rightarrow> string \<Rightarrow> APICache \<Rightarrow> APICache \<times> CachedBlock option" where
  "GetCachedBlockByHashStr newHash t1 t2 s c =
     (case newHash s of
        None \<Rightarrow> (c, None)
      | Some hs \<Rightarrow> getCachedBlockByHash t1 t2 hs c)"

definition GetCachedBlockByHash ::
  "parse_hash \<Rightarrow> (Prelude.hash \<Rightarrow> string) \<Rightarrow> int \<Rightarrow> int \<Rightarrow> Prelude.hash \<Rightarrow> APICache
     \<Rightarrow> APICache \<times> CachedBlock option" where
  "GetCachedBlockByHash newHash hashStr t1 t2 hs c =
     (case newHash (hashStr hs) of
        None \<Rightarrow> (c, None)
      | Some _ \<Rightarrow> getCachedBlockByHash t1 t2 hs c)"

definition GetBlockHash :: "(Prelude.hash \<Rightarrow> string) \<Rightarrow> int \<Rightarrow> APICache \<Rightarrow> string" where
  "GetBlockHash hashStr h c =
     (if \<not> IsEnabled c then ''''
      else case MainchainBlocks c h of None \<Rightarrow> '''' | Some hs \<Rightarrow> hashStr hs)"

definition GetBlockSummary ::
  "int \<Rightarrow> int \<Rightarrow> int \<Rightarrow> APICache \<Rightarrow> APICache \<times> BlockDataBasic option" where
  "GetBlockSummary t1 t2 h c =
     (if \<not> IsEnabled c then (c, None)
      else case GetCachedBlockByHeight t1 t2 h c of
             (c1, Some b) \<Rightarrow> (c1, summary b)
           | (c1, None) \<Rightarrow> (c1, None))"

definition GetStakeInfo ::
  "int \<Rightarrow> int \<Rightarrow> int \<Rightarrow> APICache \<Rightarrow> APICache \<times> StakeInfoExtended option" where
  "GetStakeInfo t1 t2 h c =
     (if \<not> IsEnabled c then (c, None)
      else case GetCachedBlockByHeight t1 t2 h c of
             (c1, Some b) \<Rightarrow> (c1, stakeInfo b)
           | (c1, None) \<Rightarrow> (c1, None))"

definition GetBlockSummaryByHash ::
  "parse_hash \<Rightarrow> int \<Rightarrow> int \<Rightarrow> string \<Rightarrow> APICache \<Rightarrow> APICache \<times> BlockDataBasic option" where
  "GetBlockSummaryByHash newHash t1 t2 s c =
     (if \<not> IsEnabled c then (c, None)
      else case GetCachedBlockByHashStr newHash t1 t2 s c of
             (c1, Some b) \<Rightarrow> (c1, summary b)
           | (c1, None) \<Rightarrow> (c1, None))"

definition GetStakeInfoByHash ::
  "parse_hash \<Rightarrow> int \<Rightarrow> int \<Rightarrow> string \<Rightarrow> APICache \<Rightarrow> APICache \<times> StakeInfoExtended option" where
  "GetStakeInfoByHash newHash t1 t2 s c =
     (if \<not> IsEnabled c then (c, None)
      else case GetCachedBlockByHashStr newHash t1 t2 s c of
             (c1, Some b) \<Rightarrow> (c1, stakeInfo b)
           | (c1, None) \<Rightarrow> (c1, None))"

text \<open>The size is a \<open>uint32\<close> converted to \<open>int32\<close>.\<close>

definition GetBlockSize :: "int \<Rightarrow> int \<Rightarrow> int \<Rightarrow> APICache \<Rightarrow> APICache \<times> int" where
  "GetBlockSize t1 t2 h c =
     (if \<not> IsEnabled c then (c, -1)
      else case GetCachedBlockByHeight t1 t2 h c of
             (c1, Some b) \<Rightarrow>
               (case summary b of
                  Some s \<Rightarrow> (c1, (int (Size s) + 2 ^ 31) mod 2 ^ 32 - 2 ^ 31)
                | None \<Rightarrow> (c1, -1))
           | (c1, None) \<Rightarrow> (c1, -1))"

section \<open>Removal\<close>

definition removeCachedBlock :: "parse_hash \<Rightarrow> CachedBlock option \<Rightarrow> APICache \<Rightarrow> APICache option" where
  "removeCachedBlock newHash cb c =
     (case cb of
        None \<Rightarrow> Some c
      | Some b \<Rightarrow>
          let c1 = c\<lparr>expireQueue := RemoveBlock (Some b) (expireQueue c)\<rparr>
          in (case newHash (hash b) of
                None \<Rightarrow> None
              | Some _ \<Rightarrow>
                  Some (c1\<lparr>MainchainBlocks := (MainchainBlocks c1)(int (height b) := None)\<rparr>)))"

definition RemoveCachedBlockByHeight ::
  "parse_hash \<Rightarrow> int \<Rightarrow> int \<Rightarrow> int \<Rightarrow> APICache \<Rightarrow> APICache option" where
  "RemoveCachedBlockByHeight newHash t1 t2 h c =
     (case MainchainBlocks c h of
        None \<Rightarrow> Some c
      | Some hs \<Rightarrow>
          (case getCachedBlockByHash t1 t2 hs c of
             (c1, cb) \<Rightarrow> removeCachedBlock newHash cb c1))"

definition RemoveCachedBlock :: "parse_hash \<Rightarrow> CachedBlock option \<Rightarrow> APICache \<Rightarrow> APICache option" where
  "RemoveCachedBlock newHash cb c = removeCachedBlock newHash cb c"

text \<open>
  What can happen to a cache. Blocks given to \<open>RemoveCachedBlock\<close> come from a lookup, and those
  have the index \<open>newCachedBlock\<close> gave them. \<open>tick\<close> is one round of \<open>WatchPriorityQueue\<close>.
\<close>

inductive api_op :: "parse_hash \<Rightarrow> APICache \<Rightarrow> APICache \<Rightarrow> bool" for newHash where
  enable: "api_op newHash c (Enable c)"
| disable: "api_op newHash c (Disable c)"
| storeSummary: "StoreBlockSummary newHash t0 t1 t2 t3 s c = Some c' \<Longrightarrow> api_op newHash c c'"
| storeStake: "StoreStakeInfo newHash t0 t1 t2 t3 si c = Some c' \<Longrightarrow> api_op newHash c c'"
| lookup: "getCachedBlockByHash t1 t2 hs c = (c', r) \<Longrightarrow> api_op newHash c c'"
| remove: "heapIdx b = -1 \<Longrightarrow> RemoveCachedBlock newHash (Some b) c = Some c' \<Longrightarrow> api_op newHash c c'"
| removeHeight: "RemoveCachedBlockByHeight newHash t1 t2 h c = Some c' \<Longrightarrow> api_op newHash c c'"
| tick: "api_op newHash c (c\<lparr>expireQueue := WatchPriorityQueue_tick now (expireQueue c)\<rparr>)"

inductive api_reachable :: "parse_hash \<Rightarrow> nat \<Rightarrow> APICache \<Rightarrow> bool" for newHash cap where
  new: "api_reachable newHash cap (NewAPICache cap)"
| op: "api_reachable newHash cap c \<Longrightarrow> api_op newHash c c' \<Longrightarrow> api_reachable newHash cap c'"
| setLess: "api_reachable newHash cap c \<Longrightarrow> api_reachable newHash cap (SetCacheLessFn f c)"

section \<open>The map and the queue agree\<close>

definition queue_keys :: "parse_hash \<Rightarrow> BlockPriorityQueue \<Rightarrow> Prelude.hash option multiset" where
  "queue_keys newHash pq = image_mset (\<lambda>b. newHash (hash b)) (mset (pq_elems pq))"

text \<open>Every main-chain height leads to a block of the queue with that height and hash.\<close>

definition main_ok ::
  "parse_hash \<Rightarrow> CachedBlock multiset \<Rightarrow> (int \<rightharpoonup> Prelude.hash) \<Rightarrow> bool" where
  "main_ok newHash M mc \<longleftrightarrow>
     (\<forall>h hs. mc h = Some hs \<longrightarrow> (\<exists>b\<in>#M. newHash (hash b) = Some hs \<and> int (height b) = h))"

definition api_inv :: "parse_hash \<Rightarrow> APICache \<Rightarrow> bool" where
  "api_inv newHash c \<longleftrightarrow> pq_inv (expireQueue c) \<and> capacity (expireQueue c) = cacheCapacity c
     \<and> finite (dom (blockCache c))
     \<and> queue_keys newHash (expireQueue c) = mset_set (Some ` dom (blockCache c))
     \<and> (\<forall>hs b. blockCache c hs = Some b \<longrightarrow> heapIdx b = -1 \<and> newHash (hash b) = Some hs)
     \<and> main_ok newHash (mset (pq_elems (expireQueue c))) (MainchainBlocks c)"

lemma main_ok_insert:
  "main_ok newHash M mc \<Longrightarrow> newHash (hash b) = Some hs
     \<Longrightarrow> main_ok newHash (add_mset b M) (mc(int (height b) \<mapsto> hs))"
  by (auto simp: main_ok_def)

lemma main_ok_remove:
  assumes "main_ok newHash M mc"
  shows "main_ok newHash (M - {#b#}) (mc(int (height b) := None))"
  unfolding main_ok_def
proof (intro allI impI)
  fix h hs
  assume h: "(mc(int (height b) := None)) h = Some hs"
  then obtain b' where b': "b' \<in># M" "newHash (hash b') = Some hs" "int (height b') = h"
    using assms by (auto simp: main_ok_def split: if_splits)
  have "b' \<noteq> b" using h b'(3) by auto
  then have "b' \<in># M - {#b#}" using b'(1) by (simp add: in_diff_count)
  then show "\<exists>b\<in>#M - {#b#}. newHash (hash b) = Some hs \<and> int (height b) = h" using b' by blast
qed

lemma main_ok_forget: "main_ok newHash M mc \<Longrightarrow> main_ok newHash M (mc(h := None))"
  by (auto simp: main_ok_def)

lemma Access_frame [simp]:
  "height (Access t b) = height b" "hash (Access t b) = hash b" "heapIdx (Access t b) = heapIdx b"
  "summary (Access t b) = summary b" "stakeInfo (Access t b) = stakeInfo b"
  "accesses (Access t b) = accesses b + 1"
  by (simp_all add: Access_def)

lemma queue_keys_becomes:
  "pq_becomes pq M pq' \<Longrightarrow> queue_keys newHash pq' = image_mset (\<lambda>b. newHash (hash b)) M"
  by (simp add: pq_becomes_def queue_keys_def)

lemma api_inv_card:
  assumes "api_inv newHash c"
  shows "card (dom (blockCache c)) = length (bh (expireQueue c))"
proof -
  have "size (queue_keys newHash (expireQueue c)) = length (bh (expireQueue c))"
    by (simp add: queue_keys_def)
  moreover have "size (mset_set (Some ` dom (blockCache c))) = card (dom (blockCache c))"
    by (simp add: card_image)
  ultimately show ?thesis using assms by (simp add: api_inv_def)
qed

lemma mset_set_insert_Some: "finite A \<Longrightarrow> h \<notin> A \<Longrightarrow> mset_set (Some ` insert h A) = add_mset (Some h) (mset_set (Some ` A))"
  by (simp add: image_iff)

lemma mset_set_remove_Some: "finite A \<Longrightarrow> h \<in> A \<Longrightarrow> mset_set (Some ` (A - {h})) = mset_set (Some ` A) - {#Some h#}"
proof -
  assume a: "finite A" "h \<in> A"
  have "Some ` (A - {h}) = Some ` A - {Some h}" by auto
  then show ?thesis using a by (simp add: mset_set_Diff)
qed

lemma storeInserted_inv:
  assumes "api_inv newHash c" and "newCachedBlock s si = Some b" and "newHash (hash b) = Some hs"
    and "blockCache c hs = None" and "heapIdx cb = -1 \<and> hash cb = hash b"
    and "storeInserted newHash t1 t2 t3 s si (height b) hs cb c = Some c'"
  shows "api_inv newHash c'"
proof -
  let ?q = "expireQueue c" and ?D = "dom (blockCache c)"
  have qi: "pq_inv ?q" and fin: "finite ?D" and keys: "queue_keys newHash ?q = mset_set (Some ` ?D)"
    and cap: "capacity ?q = cacheCapacity c"
    and main: "main_ok newHash (mset (pq_elems ?q)) (MainchainBlocks c)"
    and ent: "\<And>hs b. blockCache c hs = Some b \<Longrightarrow> heapIdx b = -1 \<and> newHash (hash b) = Some hs"
    using assms(1) by (auto simp: api_inv_def)
  have acc: "newHash (hash (strip (Access t b))) = Some hs" "height (strip (Access t b)) = height b" for t
    using assms(3) by (simp_all add: Access_def)
  obtain q added removed rh where ins: "pq_Insert newHash t1 t2 t3 s si ?q = Some (q, added, removed, rh)"
    using assms(6) by (auto simp: storeInserted_def split: option.splits prod.splits)
  have qi': "pq_inv q" using pq_Insert_inv [OF qi assms(2) ins] .
  have new: "hs \<notin> ?D" using assms(4) by auto
  note res = assms(6) [unfolded storeInserted_def ins, simplified]
  consider (zero) "capacity ?q = 0" | (room) "0 < capacity ?q" "length (bh ?q) < capacity ?q"
    | (full) "0 < capacity ?q" "\<not> length (bh ?q) < capacity ?q" by blast
  then show ?thesis
  proof cases
    case zero
    then have "q = ?q" "\<not> added" "removed = None" using ins by (auto simp: pq_Insert_def)
    then show ?thesis using res assms(1) by simp
  next
    case room
    then have bec: "pq_becomes ?q (add_mset (strip (Access t1 b)) (mset (pq_elems ?q))) q"
      and r: "added" "removed = None"
      using pq_Insert_outcomes [OF qi assms(2) room(1), of newHash t1 t2 t3] ins by auto
    have "queue_keys newHash q = mset_set (Some ` insert hs ?D)"
      using queue_keys_becomes [OF bec, of newHash] assms(3) keys fin new
      by (simp add: queue_keys_def Access_def image_iff)
    moreover have "main_ok newHash (mset (pq_elems q)) ((MainchainBlocks c)(int (height b) \<mapsto> hs))"
      using main_ok_insert [OF main acc(1) [of t1]] bec by (simp add: pq_becomes_def acc)
    ultimately show ?thesis
      using res r qi' bec cap fin ent assms(3,5)
      by (auto simp: api_inv_def pq_becomes_def split: if_splits)
  next
    case full
    let ?top = "bh ?q ! 0"
    have ne: "bh ?q \<noteq> []" using full by auto
    show ?thesis
    proof (cases "lessFn ?q ?top ((Access t1 b)\<lparr>heapIdx := 0\<rparr>)")
      case True
      then have bec: "pq_becomes ?q (add_mset (strip (Access t2 b)) (mset (pq_elems ?q) - {#strip ?top#})) q"
        and r: "added" "removed = newHash (hash ?top)"
        using pq_Insert_outcomes [OF qi assms(2) full(1), of newHash t1 t2 t3] ins full(2) by auto
      have top: "strip ?top \<in># mset (pq_elems ?q)" using ne by (cases "bh ?q") (simp_all add: pq_elems_def)
      then have "newHash (hash ?top) \<in># queue_keys newHash ?q"
        using imageI [OF top, of "\<lambda>b. newHash (hash b)"] by (simp add: queue_keys_def)
      then obtain r0 where r0: "newHash (hash ?top) = Some r0" "r0 \<in> ?D" using keys fin by auto
      have "queue_keys newHash q = mset_set (Some ` insert hs (?D - {r0}))"
        using queue_keys_becomes [OF bec, of newHash] assms(3) keys fin new top r0
          mset_set_insert_Some [of "?D - {r0}" hs] mset_set_remove_Some [of ?D r0]
        by (simp add: queue_keys_def Access_def image_mset_Diff)
      moreover have "rh = int (height (strip ?top))"
        using pq_Insert_outcomes [OF qi assms(2) full(1), of newHash t1 t2 t3] ins full(2) True by auto
      then have "main_ok newHash (mset (pq_elems q))
          ((MainchainBlocks c)(rh := None, int (height b) \<mapsto> hs))"
        using main_ok_insert [OF main_ok_remove [OF main] acc(1) [of t2], of "strip ?top"] bec
        by (simp add: pq_becomes_def acc)
      ultimately show ?thesis
        using res r r0 qi' bec cap fin ent assms(3,5) new
        by (auto simp: api_inv_def pq_becomes_def insert_Diff_if split: if_splits)
    next
      case False
      then have "q = ?q" "\<not> added" "removed = None"
        using pq_Insert_outcomes [OF qi assms(2) full(1), of newHash t1 t2 t3] ins full(2) by auto
      then show ?thesis using res assms(1) by simp
    qed
  qed
qed

lemma newCachedBlock_summary:
  "newCachedBlock (Some s) None =
     Some \<lparr>height = Height s, hash = Hash s, summary = Some s, stakeInfo = None,
           accesses = 0, accessTime = 0, heapIdx = -1\<rparr>"
  by (simp add: newCachedBlock_def checkBlockHeightHash_def)

lemma newCachedBlock_stakeInfo:
  "newCachedBlock None (Some si) =
     Some \<lparr>height = Feeinfo_Height si, hash = si_Hash si, summary = None, stakeInfo = Some si,
           accesses = 0, accessTime = 0, heapIdx = -1\<rparr>"
  by (simp add: newCachedBlock_def checkBlockHeightHash_def)

text \<open>
  Every operation either keeps the queue's blocks and the cached keys, or is a store that goes
  through \<open>storeInserted\<close>.
\<close>

lemma api_inv_entry:
  "api_inv newHash c \<Longrightarrow> blockCache c hs = Some b \<Longrightarrow> heapIdx b = -1 \<and> newHash (hash b) = Some hs"
  by (simp add: api_inv_def)

lemma api_inv_idx: "api_inv newHash c \<Longrightarrow> idx_ok (expireQueue c)"
  by (simp add: api_inv_def pq_inv_def)

text \<open>The invariant does not read the counters, the flag or the queue's other fields.\<close>

lemma api_inv_cong:
  assumes "api_inv newHash c" and "blockCache c' = blockCache c" and "MainchainBlocks c' = MainchainBlocks c"
    and "cacheCapacity c' = cacheCapacity c" and "bh (expireQueue c') = bh (expireQueue c)"
    and "capacity (expireQueue c') = capacity (expireQueue c)"
  shows "api_inv newHash c'"
  using assms by (simp add: api_inv_def pq_inv_def idx_ok_def queue_keys_def pq_elems_def)

lemma api_inv_update:
  assumes "api_inv newHash c" and "blockCache c hs = Some b"
    and "heapIdx b' = -1" and "hash b' = hash b"
  shows "api_inv newHash (c\<lparr>blockCache := (blockCache c)(hs \<mapsto> b')\<rparr>)"
  using assms by (auto simp: api_inv_def insert_absorb domI split: if_splits)

lemma StoreBlockSummary_cases:
  assumes "StoreBlockSummary newHash t0 t1 t2 t3 s c = Some c'"
  obtains (same) "c' = c"
  | (summary) hs b where "blockCache c hs = Some b"
      "c' = c\<lparr>blockCache := (blockCache c)(hs \<mapsto> b\<lparr>summary := Some s\<rparr>)\<rparr>"
  | (insert) hs b where "newCachedBlock (Some s) None = Some b" "newHash (hash b) = Some hs"
      "blockCache c hs = None"
      "storeInserted newHash t1 t2 t3 (Some s) None (height b) hs (Access t0 b) c = Some c'"
proof (cases "IsEnabled c")
  case True
  then obtain hs where hs: "newHash (Hash s) = Some hs"
    using assms by (cases "newHash (Hash s)") (simp_all add: StoreBlockSummary_def)
  show ?thesis
  proof (cases "blockCache c hs")
    case None
    obtain b where b: "newCachedBlock (Some s) None = Some b" "hash b = Hash s" "height b = Height s"
      by (simp add: newCachedBlock_summary)
    with None hs True assms show ?thesis
      by (intro insert [OF b(1)]) (simp_all add: StoreBlockSummary_def)
  next
    case (Some b)
    with hs True assms show ?thesis
      by (cases "summary b = None") (auto simp: StoreBlockSummary_def intro: same summary)
  qed
next
  case False
  with assms show ?thesis by (intro same) (simp add: StoreBlockSummary_def)
qed

lemma StoreStakeInfo_cases:
  assumes "StoreStakeInfo newHash t0 t1 t2 t3 si c = Some c'"
  obtains (same) "c' = c"
  | (stake) hs b where "blockCache c hs = Some b"
      "c' = c\<lparr>blockCache := (blockCache c)(hs \<mapsto> b\<lparr>stakeInfo := Some si\<rparr>)\<rparr>"
  | (insert) hs b where "newCachedBlock None (Some si) = Some b" "newHash (hash b) = Some hs"
      "blockCache c hs = None"
      "storeInserted newHash t1 t2 t3 None (Some si) (height b) hs (Access t0 b) c = Some c'"
proof (cases "IsEnabled c")
  case True
  then obtain hs where hs: "newHash (si_Hash si) = Some hs"
    using assms by (cases "newHash (si_Hash si)") (simp_all add: StoreStakeInfo_def)
  show ?thesis
  proof (cases "blockCache c hs")
    case None
    obtain b where b: "newCachedBlock None (Some si) = Some b" "hash b = si_Hash si" "height b = Feeinfo_Height si"
      by (simp add: newCachedBlock_stakeInfo)
    with None hs True assms show ?thesis
      by (intro insert [OF b(1)]) (simp_all add: StoreStakeInfo_def)
  next
    case (Some b)
    with hs True assms show ?thesis
      by (cases "stakeInfo b = None") (auto simp: StoreStakeInfo_def intro: same stake)
  qed
next
  case False
  with assms show ?thesis by (intro same) (simp add: StoreStakeInfo_def)
qed

lemma newCachedBlock_idx: "newCachedBlock s si = Some b \<Longrightarrow> heapIdx b = -1 \<and> accesses b = 0"
  by (drule newCachedBlock_Some(2)) (metis CachedBlock.select_convs(5,7))

lemma StoreBlockSummary_inv:
  assumes "api_inv newHash c" and "StoreBlockSummary newHash t0 t1 t2 t3 s c = Some c'"
  shows "api_inv newHash c'"
  using assms(2)
proof (cases rule: StoreBlockSummary_cases)
  case (summary hs b)
  then show ?thesis using api_inv_update [OF assms(1), of hs b] api_inv_entry [OF assms(1)] by simp
next
  case (insert hs b)
  then show ?thesis
    using storeInserted_inv [OF assms(1) insert(1-3) _ insert(4)] newCachedBlock_idx by simp
qed (simp add: assms(1))

lemma StoreStakeInfo_inv:
  assumes "api_inv newHash c" and "StoreStakeInfo newHash t0 t1 t2 t3 si c = Some c'"
  shows "api_inv newHash c'"
  using assms(2)
proof (cases rule: StoreStakeInfo_cases)
  case (stake hs b)
  then show ?thesis using api_inv_update [OF assms(1), of hs b] api_inv_entry [OF assms(1)] by simp
next
  case (insert hs b)
  then show ?thesis
    using storeInserted_inv [OF assms(1) insert(1-3) _ insert(4)] newCachedBlock_idx by simp
qed (simp add: assms(1))

text \<open>The invariant only reads the queue's blocks and capacity.\<close>

lemma api_inv_queue:
  assumes "api_inv newHash c" and "pq_becomes (expireQueue c) (mset (pq_elems (expireQueue c))) q"
  shows "api_inv newHash (c\<lparr>expireQueue := q\<rparr>)"
proof -
  have "length (bh q) = length (bh (expireQueue c))"
    using assms(2) mset_eq_length [of "pq_elems q" "pq_elems (expireQueue c)"]
    by (simp add: pq_becomes_def)
  then show ?thesis
    using assms queue_keys_becomes [OF assms(2), of newHash]
    by (auto simp: api_inv_def pq_becomes_def pq_inv_def queue_keys_def)
qed

lemma getCachedBlockByHash_inv:
  assumes "api_inv newHash c" and "getCachedBlockByHash t1 t2 hs c = (c', r)"
  shows "api_inv newHash c'"
proof (cases "blockCache c hs")
  case (Some b)
  let ?c = "c\<lparr>blockCache := (blockCache c)(hs \<mapsto> Access t1 b)\<rparr>"
  have "api_inv newHash ?c"
    using api_inv_update [OF assms(1) Some, of "Access t1 b"] api_inv_entry [OF assms(1) Some] by simp
  then show ?thesis
    by (rule api_inv_cong) (use assms(2) Some in \<open>auto simp: getCachedBlockByHash_def Let_def\<close>)
next
  case None
  show ?thesis
    by (rule api_inv_cong [OF assms(1)]) (use assms(2) None in \<open>auto simp: getCachedBlockByHash_def\<close>)
qed

lemma RemoveBlock_unindexed [simp]: "heapIdx b = -1 \<Longrightarrow> RemoveBlock (Some b) pq = pq"
  by (simp add: RemoveBlock_def)

lemma RemoveCachedBlock_outcome:
  assumes "heapIdx b = -1" and "RemoveCachedBlock newHash (Some b) c = Some c'"
  shows "c' = c\<lparr>MainchainBlocks := (MainchainBlocks c)(int (height b) := None)\<rparr>"
  using assms by (auto simp: RemoveCachedBlock_def removeCachedBlock_def split: option.splits)

lemma RemoveCachedBlock_inv:
  assumes "api_inv newHash c" and "heapIdx b = -1" and "RemoveCachedBlock newHash (Some b) c = Some c'"
  shows "api_inv newHash c'"
  using RemoveCachedBlock_outcome [OF assms(2,3)] assms(1) by (simp add: api_inv_def main_ok_forget)

lemma api_inv_keys:
  assumes "api_inv newHash c"
  shows "Some ` dom (blockCache c) = (\<lambda>b. newHash (hash b)) ` set (bh (expireQueue c))"
proof -
  have "set_mset (queue_keys newHash (expireQueue c)) = Some ` dom (blockCache c)"
    using assms by (simp add: api_inv_def)
  then show ?thesis by (simp add: queue_keys_def pq_elems_def image_image)
qed

lemma api_inv_main:
  assumes "api_inv newHash c" and "MainchainBlocks c h = Some hs"
  shows "\<exists>b. blockCache c hs = Some b"
proof -
  have "main_ok newHash (mset (pq_elems (expireQueue c))) (MainchainBlocks c)"
    using assms(1) by (simp add: api_inv_def)
  then obtain q where "q \<in># mset (pq_elems (expireQueue c))" "newHash (hash q) = Some hs"
    unfolding main_ok_def using assms(2) by blast
  then have "Some hs \<in> (\<lambda>b. newHash (hash b)) ` set (bh (expireQueue c))"
    by (auto simp: pq_elems_def) (metis image_eqI strip_simps(2))
  then have "Some hs \<in> Some ` dom (blockCache c)" unfolding api_inv_keys [OF assms(1)] .
  then show ?thesis by auto
qed

lemma RemoveCachedBlockByHeight_outcome:
  assumes "api_inv newHash c" and "MainchainBlocks c h = Some hs"
  obtains c1 b where "getCachedBlockByHash t1 t2 hs c = (c1, Some b)" "blockCache c1 hs = Some b"
    "RemoveCachedBlockByHeight newHash t1 t2 h c = RemoveCachedBlock newHash (Some b) c1"
    "heapIdx b = -1" "newHash (hash b) = Some hs"
proof -
  obtain b where b: "blockCache c hs = Some b" using api_inv_main [OF assms] by blast
  obtain c1 where g: "getCachedBlockByHash t1 t2 hs c = (c1, Some (Access t1 b))"
    and "blockCache c1 hs = Some (Access t1 b)"
    using b by (simp add: getCachedBlockByHash_def Let_def)
  moreover have "RemoveCachedBlockByHeight newHash t1 t2 h c = RemoveCachedBlock newHash (Some (Access t1 b)) c1"
    by (simp add: RemoveCachedBlockByHeight_def RemoveCachedBlock_def assms(2) g)
  ultimately show ?thesis using that api_inv_entry [OF assms(1) b] by simp
qed

lemma RemoveCachedBlockByHeight_inv:
  assumes "api_inv newHash c" and "RemoveCachedBlockByHeight newHash t1 t2 h c = Some c'"
  shows "api_inv newHash c'"
proof (cases "MainchainBlocks c h")
  case None
  then show ?thesis using assms by (simp add: RemoveCachedBlockByHeight_def)
next
  case (Some hs)
  obtain c1 b where o: "getCachedBlockByHash t1 t2 hs c = (c1, Some b)" "blockCache c1 hs = Some b"
    "RemoveCachedBlockByHeight newHash t1 t2 h c = RemoveCachedBlock newHash (Some b) c1"
    "heapIdx b = -1" "newHash (hash b) = Some hs"
    by (rule RemoveCachedBlockByHeight_outcome [OF assms(1) Some])
  show ?thesis
    using RemoveCachedBlock_inv [OF getCachedBlockByHash_inv [OF assms(1) o(1)] o(4), of c'] o(3) assms(2)
    by simp
qed

lemma tick_becomes: "idx_ok pq \<Longrightarrow> pq_becomes pq (mset (pq_elems pq)) (WatchPriorityQueue_tick now pq)"
  using Reheap_becomes [of pq] by (simp add: WatchPriorityQueue_tick_def pq_becomes_def)

lemma storeInserted_capacity:
  "storeInserted newHash t1 t2 t3 s si h hs cb c = Some c' \<Longrightarrow> cacheCapacity c' = cacheCapacity c"
  by (auto simp: storeInserted_def Let_def split: option.splits prod.splits)

lemma api_op_inv:
  assumes "api_op newHash c c'" and "api_inv newHash c"
  shows "api_inv newHash c'"
  using assms(1)
proof (cases rule: api_op.cases)
  case enable
  show ?thesis by (rule api_inv_cong [OF assms(2)]) (simp_all add: enable Enable_def)
next
  case disable
  show ?thesis by (rule api_inv_cong [OF assms(2)]) (simp_all add: disable Disable_def)
next
  case (tick now)
  show ?thesis
    using api_inv_queue [OF assms(2) tick_becomes [OF api_inv_idx [OF assms(2)]]] tick by simp
qed (use assms(2) in \<open>blast intro: StoreBlockSummary_inv StoreStakeInfo_inv getCachedBlockByHash_inv
       RemoveCachedBlock_inv RemoveCachedBlockByHeight_inv\<close>)+

lemma api_reachable_inv: "api_reachable newHash cap c \<Longrightarrow> api_inv newHash c"
proof (induction rule: api_reachable.induct)
  case new
  show ?case
    by (simp add: api_inv_def NewAPICache_def NewBlockPriorityQueue_def pq_inv_def idx_ok_def
        queue_keys_def pq_elems_def main_ok_def)
next
  case (op c c')
  then show ?case using api_op_inv by blast
next
  case (setLess c f)
  then show ?case by (elim api_inv_cong) (simp_all add: SetCacheLessFn_def SetLessFn_def)
qed

section \<open>What the operations do to the queue\<close>

definition queue_op :: "parse_hash \<Rightarrow> BlockPriorityQueue \<Rightarrow> BlockPriorityQueue \<Rightarrow> bool" where
  "queue_op newHash q q' \<longleftrightarrow>
     (bh q' = bh q \<and> capacity q' = capacity q \<and> lessFn q' = lessFn q) \<or> q' = Reheap q
     \<or> (\<exists>s si b t1 t2 t3 added removed rh. newCachedBlock s si = Some b
          \<and> pq_Insert newHash t1 t2 t3 s si q = Some (q', added, removed, rh))"

lemma queue_op_same [intro]:
  "bh q' = bh q \<Longrightarrow> capacity q' = capacity q \<Longrightarrow> lessFn q' = lessFn q \<Longrightarrow> queue_op newHash q q'"
  by (simp add: queue_op_def)

lemma storeInserted_queue_op:
  assumes "newCachedBlock s si = Some b"
    and "storeInserted newHash t1 t2 t3 s si h hs cb c = Some c'"
  shows "queue_op newHash (expireQueue c) (expireQueue c')"
proof -
  obtain q added removed rh
    where ins: "pq_Insert newHash t1 t2 t3 s si (expireQueue c) = Some (q, added, removed, rh)"
    using assms(2) by (auto simp: storeInserted_def split: option.splits prod.splits)
  have "expireQueue c' = q"
    using assms(2) by (auto simp: storeInserted_def ins Let_def split: option.splits)
  then show ?thesis using ins assms(1) unfolding queue_op_def by blast
qed

lemma getCachedBlockByHash_queue:
  assumes "getCachedBlockByHash t1 t2 hs c = (c', r)"
  shows "bh (expireQueue c') = bh (expireQueue c)" "capacity (expireQueue c') = capacity (expireQueue c)"
    "lessFn (expireQueue c') = lessFn (expireQueue c)"
  using assms by (auto simp: getCachedBlockByHash_def Let_def split: option.splits)

lemma RemoveCachedBlockByHeight_queue:
  assumes "api_inv newHash c" and "RemoveCachedBlockByHeight newHash t1 t2 h c = Some c'"
  shows "queue_op newHash (expireQueue c) (expireQueue c')"
proof (cases "MainchainBlocks c h")
  case None
  then show ?thesis using assms by (intro queue_op_same) (auto simp: RemoveCachedBlockByHeight_def)
next
  case (Some hs)
  obtain c1 b where o: "getCachedBlockByHash t1 t2 hs c = (c1, Some b)" "blockCache c1 hs = Some b"
    "RemoveCachedBlockByHeight newHash t1 t2 h c = RemoveCachedBlock newHash (Some b) c1"
    "heapIdx b = -1" "newHash (hash b) = Some hs"
    by (rule RemoveCachedBlockByHeight_outcome [OF assms(1) Some])
  have "expireQueue c' = expireQueue c1"
    using RemoveCachedBlock_outcome [OF o(4), of newHash c1 c'] o(3) assms(2) by simp
  then show ?thesis using getCachedBlockByHash_queue [OF o(1)] by auto
qed

lemma api_op_queue:
  assumes "api_op newHash c c'" and "api_inv newHash c"
  shows "queue_op newHash (expireQueue c) (expireQueue c')"
  using assms(1)
proof (cases rule: api_op.cases)
  case (storeSummary t0 t1 t2 t3 s)
  then show ?thesis
    by (cases rule: StoreBlockSummary_cases) (auto intro: storeInserted_queue_op)
next
  case (storeStake t0 t1 t2 t3 si)
  then show ?thesis
    by (cases rule: StoreStakeInfo_cases) (auto intro: storeInserted_queue_op)
next
  case (lookup t1 t2 hs r)
  then show ?thesis using getCachedBlockByHash_queue by blast
next
  case (remove b)
  then show ?thesis using RemoveCachedBlock_outcome by force
next
  case (removeHeight t1 t2 h)
  then show ?thesis using RemoveCachedBlockByHeight_queue [OF assms(2)] by blast
next
  case (tick now)
  then show ?thesis by (auto simp: WatchPriorityQueue_tick_def queue_op_def)
qed (auto simp: Enable_def Disable_def)

lemma pq_Insert_summary:
  assumes "pq_inv q" and "newCachedBlock s si = Some b0"
    and "pq_Insert newHash t1 t2 t3 s si q = Some (q', added, removed, rh)"
  obtains M t where "pq_becomes q M q'" "M = mset (pq_elems q) \<or> M \<subseteq># add_mset (strip (Access t b0)) (mset (pq_elems q))"
proof -
  have idx: "idx_ok q" using assms(1) by (simp add: pq_inv_def)
  consider (same) "q' = q" | (added) "pq_becomes q (add_mset (strip (Access t1 b0)) (mset (pq_elems q))) q'"
    | (replaced) "pq_becomes q (add_mset (strip (Access t2 b0)) (mset (pq_elems q) - {#strip (bh q ! 0)#})) q'"
  proof (cases "0 < capacity q")
    case True
    show ?thesis
      using pq_Insert_outcomes [OF assms(1,2) True, of newHash t1 t2 t3] assms(3) same added replaced
      by (auto split: if_splits)
  next
    case False
    then show ?thesis using same assms(3) by (simp add: pq_Insert_def)
  qed
  then show ?thesis
  proof cases
    case same
    then show ?thesis using that [of "mset (pq_elems q)"] idx by (simp add: pq_becomes_def)
  next
    case added
    then show ?thesis using that by blast
  next
    case replaced
    then show ?thesis using that by (metis diff_subset_eq_self mset_subset_eq_add_mset_cancel)
  qed
qed

lemma queue_op_elems:
  assumes "queue_op newHash q q'" and "pq_inv q" and "b \<in># mset (pq_elems q')"
  shows "b \<in># mset (pq_elems q) \<or> accesses b = 1"
  using assms(1) unfolding queue_op_def
proof (elim disjE exE conjE)
  assume "bh q' = bh q" then show ?thesis using assms(3) by (simp add: pq_elems_def)
next
  assume "q' = Reheap q"
  moreover have "idx_ok q" using assms(2) by (simp add: pq_inv_def)
  ultimately show ?thesis using Reheap_becomes [of q] assms(3) by (simp add: pq_becomes_def)
next
  fix s si b0 t1 t2 t3 added removed rh
  assume n: "newCachedBlock s si = Some b0" and i: "pq_Insert newHash t1 t2 t3 s si q = Some (q', added, removed, rh)"
  obtain M t where M: "pq_becomes q M q'"
      "M = mset (pq_elems q) \<or> M \<subseteq># add_mset (strip (Access t b0)) (mset (pq_elems q))"
    by (rule pq_Insert_summary [OF assms(2) n i])
  have "b \<in># M" using M(1) assms(3) by (simp only: pq_becomes_def)
  then have "b \<in># mset (pq_elems q) \<or> b = strip (Access t b0)" using M(2) by (auto dest: mset_subset_eqD)
  then show ?thesis using newCachedBlock_idx [OF n] by auto
qed

lemma queue_counts:
  assumes "api_reachable newHash cap c"
  shows "\<forall>b\<in>set (bh (expireQueue c)). accesses b = 1"
  using assms
proof (induction rule: api_reachable.induct)
  case (op c c')
  have inv: "api_inv newHash c" using op.hyps api_reachable_inv by blast
  then have pq: "pq_inv (expireQueue c)" by (simp add: api_inv_def)
  show ?case
  proof
    fix b
    assume "b \<in> set (bh (expireQueue c'))"
    then have "strip b \<in># mset (pq_elems (expireQueue c'))" by (simp add: pq_elems_def)
    then have "strip b \<in># mset (pq_elems (expireQueue c)) \<or> accesses (strip b) = 1"
      using queue_op_elems [OF api_op_queue [OF op.hyps(2) inv] pq] by blast
    moreover have "accesses x = 1" if "x \<in># mset (pq_elems (expireQueue c))" for x
      using that op.IH by (auto simp: pq_elems_def)
    ultimately show "accesses b = 1" using strip_simps(3) [of b] by metis
  qed
qed (simp_all add: NewAPICache_def NewBlockPriorityQueue_def SetCacheLessFn_def SetLessFn_def)

context block_order
begin

lemma queue_op_heap:
  assumes "queue_op newHash q q'" and "pq_inv q" and "lessFn q = lt" and "is_heap lt (pq_elems q)"
  shows "is_heap lt (pq_elems q') \<and> lessFn q' = lt"
  using assms(1) unfolding queue_op_def
proof (elim disjE exE conjE)
  assume "bh q' = bh q" "lessFn q' = lessFn q"
  then show ?thesis using assms(3,4) is_heap_pq_cong [of q' q] by simp
next
  assume "q' = Reheap q"
  then show ?thesis
    using Reheap_heap [of q] Reheap_becomes [of q] assms(2,3) by (simp add: pq_becomes_def pq_inv_def)
next
  fix s si b0 t1 t2 t3 added removed rh
  assume n: "newCachedBlock s si = Some b0" and i: "pq_Insert newHash t1 t2 t3 s si q = Some (q', added, removed, rh)"
  obtain M t where "pq_becomes q M q'" by (rule pq_Insert_summary [OF assms(2) n i])
  then have "lessFn q' = lt" using assms(3) by (simp add: pq_becomes_def)
  then show ?thesis using Insert_heap [OF assms(2-4) n i] by simp
qed

lemma run_heap:
  assumes "(api_op newHash)\<^sup>*\<^sup>* (SetCacheLessFn lt (NewAPICache cap)) c"
  shows "api_reachable newHash cap c \<and> is_heap lt (pq_elems (expireQueue c)) \<and> lessFn (expireQueue c) = lt"
  using assms
proof (induction rule: rtranclp_induct)
  case base
  show ?case
    using api_reachable.setLess [OF api_reachable.new]
    by (simp add: SetCacheLessFn_def SetLessFn_def NewAPICache_def NewBlockPriorityQueue_def pq_elems_def is_heap_def)
next
  case (step c c')
  then have "api_inv newHash c" using api_reachable_inv by blast
  moreover from this have "pq_inv (expireQueue c)" by (simp add: api_inv_def)
  ultimately show ?case
    using step queue_op_heap [OF api_op_queue] api_reachable.op by blast
qed

end

section \<open>Properties\<close>

text \<open>The hash parser of the examples: any string of 32 characters is a hash.\<close>

definition example_parse :: parse_hash where
  "example_parse s = (if length s = HashSize then Some (map of_char s) else None)"

definition example_summary :: "nat \<Rightarrow> char \<Rightarrow> BlockDataBasic" where
  "example_summary h ch = \<lparr>Height = h, Size = 400, Hash = replicate HashSize ch\<rparr>"

lemma api_reachable_capacity:
  "api_reachable newHash cap c \<Longrightarrow> capacity (expireQueue c) = cap"
proof (induction rule: api_reachable.induct)
  case (op c c')
  have inv: "api_inv newHash c" using op.hyps api_reachable_inv by blast
  then have pq: "pq_inv (expireQueue c)" by (simp add: api_inv_def)
  have "queue_op newHash (expireQueue c) (expireQueue c')" using api_op_queue [OF op.hyps(2) inv] .
  then have "capacity (expireQueue c') = capacity (expireQueue c)"
    unfolding queue_op_def using pq Reheap_becomes [of "expireQueue c"]
    by (auto simp: pq_inv_def pq_becomes_def elim!: pq_Insert_summary [OF pq])
  then show ?case using op.IH by simp
qed (simp_all add: NewAPICache_def NewBlockPriorityQueue_def SetCacheLessFn_def SetLessFn_def)

text \<open>C18. Capacity and agreement. Whatever is stored, looked up, removed or re-ordered, the cache
  holds at most as many blocks as its capacity, the expiry queue holds exactly the hashes of the
  block map, once each, and every main-chain height leads to a block that is in the map.\<close>

theorem api_cache_agreement:
  assumes "api_reachable newHash cap c"
  shows "UtilizationBlocks c \<le> cap \<and> length (bh (expireQueue c)) = UtilizationBlocks c
    \<and> Some ` dom (blockCache c) = (\<lambda>b. newHash (hash b)) ` set (bh (expireQueue c))
    \<and> (\<forall>h hs. MainchainBlocks c h = Some hs \<longrightarrow> (\<exists>b. blockCache c hs = Some b))"
proof -
  have inv: "api_inv newHash c" using api_reachable_inv [OF assms] .
  then have "pq_inv (expireQueue c)" by (simp add: api_inv_def)
  then show ?thesis
    using api_inv_card [OF inv] api_inv_keys [OF inv] api_inv_main [OF inv]
      api_reachable_capacity [OF assms]
    by (auto simp: UtilizationBlocks_def pq_inv_def)
qed

definition example_cache :: APICache where
  "example_cache = the (StoreBlockSummary example_parse 10 11 12 13 (example_summary 5 CHR ''a'')
     (Enable (NewAPICache 2)))"

lemma example_store:
  "StoreBlockSummary example_parse 10 11 12 13 (example_summary 5 CHR ''a'') (Enable (NewAPICache 2))
     = Some example_cache"
proof -
  have "case StoreBlockSummary example_parse 10 11 12 13 (example_summary 5 CHR ''a'')
      (Enable (NewAPICache 2)) of None \<Rightarrow> False | Some _ \<Rightarrow> True"
    by code_simp
  then show ?thesis by (auto simp: example_cache_def split: option.splits)
qed

lemma example_reachable: "api_reachable example_parse 2 example_cache"
  by (rule api_reachable.op [OF api_reachable.op [OF api_reachable.new api_op.enable]
        api_op.storeSummary [OF example_store]])

lemma example_queue: "length (bh (expireQueue example_cache)) = 1"
  by code_simp

theorem api_cache_agreement_witness:
  "api_reachable example_parse 2 example_cache \<and> UtilizationBlocks example_cache = 1
   \<and> Some ` dom (blockCache example_cache)
       = (\<lambda>b. example_parse (hash b)) ` set (bh (expireQueue example_cache))"
  using api_cache_agreement [OF example_reachable] example_reachable example_queue by simp

text \<open>A store of a block that is not cached: what the queue answers decides.\<close>

definition has_room :: "int \<Rightarrow> BlockDataBasic \<Rightarrow> BlockPriorityQueue \<Rightarrow> bool" where
  "has_room t1 s q \<longleftrightarrow> 0 < capacity q
     \<and> (length (bh q) < capacity q
        \<or> (case newCachedBlock (Some s) None of
             None \<Rightarrow> False | Some b \<Rightarrow> lessFn q (bh q ! 0) ((Access t1 b)\<lparr>heapIdx := 0\<rparr>)))"

lemma StoreBlockSummary_refused:
  assumes "api_inv newHash c" and "IsEnabled c" and "newHash (Hash s) = Some hs"
    and "blockCache c hs = None" and "\<not> has_room t1 s (expireQueue c)"
  shows "StoreBlockSummary newHash t0 t1 t2 t3 s c = Some c"
proof -
  obtain b where b: "newCachedBlock (Some s) None = Some b" by (simp add: newCachedBlock_summary)
  have pq: "pq_inv (expireQueue c)" using assms(1) by (simp add: api_inv_def)
  have "pq_Insert newHash t1 t2 t3 (Some s) None (expireQueue c) = Some (expireQueue c, False, None, -1)"
    using assms(5) b pq_Insert_outcomes [OF pq b, of newHash t1 t2 t3]
    by (cases "capacity (expireQueue c) = 0") (auto simp: has_room_def pq_Insert_def)
  then show ?thesis using assms(2-4) b by (simp add: StoreBlockSummary_def storeInserted_def)
qed

lemma StoreBlockSummary_stored:
  assumes "api_inv newHash c" and "IsEnabled c" and "newHash (Hash s) = Some hs"
    and "blockCache c hs = None" and "has_room t1 s (expireQueue c)"
  obtains c' b where "StoreBlockSummary newHash t0 t1 t2 t3 s c = Some c'"
    "blockCache c' hs = Some b" "summary b = Some s" "MainchainBlocks c' (int (Height s)) = Some hs"
    "isEnabled c' = isEnabled c"
    "\<And>k. k \<noteq> hs \<Longrightarrow> blockCache c' k =
       (if capacity (expireQueue c) \<le> length (bh (expireQueue c))
           \<and> newHash (hash (bh (expireQueue c) ! 0)) = Some k then None else blockCache c k)"
proof -
  let ?q = "expireQueue c"
  obtain b where b: "newCachedBlock (Some s) None = Some b" "summary b = Some s"
    by (simp add: newCachedBlock_summary)
  have pq: "pq_inv ?q" using assms(1) by (simp add: api_inv_def)
  have cap: "0 < capacity ?q" using assms(5) by (simp add: has_room_def)
  have st: "StoreBlockSummary newHash t0 t1 t2 t3 s c
      = storeInserted newHash t1 t2 t3 (Some s) None (Height s) hs (Access t0 b) c"
    using assms(2-4) b by (simp add: StoreBlockSummary_def)
  show ?thesis
  proof (cases "length (bh ?q) < capacity ?q")
    case True
    then obtain q where "pq_Insert newHash t1 t2 t3 (Some s) None ?q = Some (q, True, None, -1)"
      using pq_Insert_outcomes [OF pq b(1) cap, of newHash t1 t2 t3] by auto
    then show ?thesis
      using that [of _ "Access t0 b"] True st b(2) by (simp add: storeInserted_def Let_def)
  next
    case False
    then obtain q where "pq_Insert newHash t1 t2 t3 (Some s) None ?q
        = Some (q, True, newHash (hash (bh ?q ! 0)), int (height (bh ?q ! 0)))"
      using pq_Insert_outcomes [OF pq b(1) cap, of newHash t1 t2 t3] assms(5) b(1)
      by (auto simp: has_room_def)
    then show ?thesis
      using that [of _ "Access t0 b"] False st b(2)
      by (cases "newHash (hash (bh ?q ! 0))") (simp_all add: storeInserted_def Let_def)
  qed
qed

text \<open>A stored summary can be read back, and a store never panics. In an enabled cache a new
  block is stored whenever the cache has room, or its priority is above the lowest in the queue;
  the summary is then returned by height and by hash. Otherwise the cache is unchanged.\<close>

theorem StoreBlockSummary_GetBlockSummary:
  assumes "api_reachable newHash cap c" and "IsEnabled c" and "newHash (Hash s) = Some hs"
    and "blockCache c hs = None"
  shows "if has_room t1 s (expireQueue c)
    then \<exists>c'. StoreBlockSummary newHash t0 t1 t2 t3 s c = Some c'
         \<and> snd (GetBlockSummary u1 u2 (int (Height s)) c') = Some s
         \<and> snd (GetBlockSummaryByHash newHash u1 u2 (Hash s) c') = Some s
    else StoreBlockSummary newHash t0 t1 t2 t3 s c = Some c"
proof (cases "has_room t1 s (expireQueue c)")
  case False
  then show ?thesis
    using StoreBlockSummary_refused [OF api_reachable_inv [OF assms(1)] assms(2-4)] by simp
next
  case True
  obtain c' b where c': "StoreBlockSummary newHash t0 t1 t2 t3 s c = Some c'"
    "blockCache c' hs = Some b" "summary b = Some s" "MainchainBlocks c' (int (Height s)) = Some hs"
    "isEnabled c' = isEnabled c"
    by (rule StoreBlockSummary_stored [OF api_reachable_inv [OF assms(1)] assms(2-4) True])
  moreover have "IsEnabled c'" using assms(2) c'(5) by (simp add: IsEnabled_def)
  ultimately show ?thesis
    using True assms(3)
    by (simp add: GetBlockSummary_def GetBlockSummaryByHash_def GetCachedBlockByHeight_def
        GetCachedBlockByHashStr_def getCachedBlockByHash_def Let_def)
qed

theorem StoreBlockSummary_GetBlockSummary_witness:
  "\<exists>c'. StoreBlockSummary example_parse 20 21 22 23 (example_summary 6 CHR ''b'') example_cache = Some c'
     \<and> snd (GetBlockSummary 30 31 6 c') = Some (example_summary 6 CHR ''b'')"
proof -
  have "IsEnabled example_cache" "has_room 21 (example_summary 6 CHR ''b'') (expireQueue example_cache)"
    "example_parse (Hash (example_summary 6 CHR ''b'')) = Some (replicate HashSize (of_char CHR ''b''))"
    "blockCache example_cache (replicate HashSize (of_char CHR ''b'')) = None"
    by code_simp+
  then show ?thesis
    using StoreBlockSummary_GetBlockSummary [OF example_reachable,
        of "example_summary 6 CHR ''b''" _ 21 20 22 23 30 31]
    by (auto simp: example_summary_def)
qed

context block_order
begin

lemma evicts_minimal:
  assumes "(api_op newHash)\<^sup>*\<^sup>* (SetCacheLessFn lt (NewAPICache cap)) c" and "IsEnabled c"
    and "newHash (Hash s) = Some hs" and "blockCache c hs = None" and "has_room t1 s (expireQueue c)"
  shows "\<exists>c'. StoreBlockSummary newHash t0 t1 t2 t3 s c = Some c'
    \<and> is_heap lt (pq_elems (expireQueue c'))
    \<and> (\<forall>k. k \<in> dom (blockCache c) - dom (blockCache c') \<longrightarrow>
         (\<exists>b\<in>set (bh (expireQueue c)). newHash (hash b) = Some k
            \<and> (\<forall>b'\<in>set (bh (expireQueue c)). \<not> lt b' b)))"
proof -
  let ?q = "expireQueue c"
  have run: "api_reachable newHash cap c" "is_heap lt (pq_elems ?q)" "lessFn ?q = lt"
    using run_heap [OF assms(1)] by blast+
  have inv: "api_inv newHash c" using api_reachable_inv [OF run(1)] .
  have pq: "pq_inv ?q" using inv by (simp add: api_inv_def)
  obtain c' b where c': "StoreBlockSummary newHash t0 t1 t2 t3 s c = Some c'" "blockCache c' hs = Some b"
    and keys: "\<And>k. k \<noteq> hs \<Longrightarrow> blockCache c' k =
       (if capacity ?q \<le> length (bh ?q) \<and> newHash (hash (bh ?q ! 0)) = Some k then None
        else blockCache c k)"
    by (rule StoreBlockSummary_stored [OF inv assms(2-5)]) blast
  have "is_heap lt (pq_elems (expireQueue c'))"
    using queue_op_heap [OF api_op_queue [OF api_op.storeSummary [OF c'(1)] inv] pq run(3,2)] by blast
  moreover have "\<exists>b\<in>set (bh ?q). newHash (hash b) = Some k \<and> (\<forall>b'\<in>set (bh ?q). \<not> lt b' b)"
    if k: "k \<in> dom (blockCache c) - dom (blockCache c')" for k
  proof -
    have "k \<noteq> hs" using k c'(2) by auto
    then have top: "newHash (hash (bh ?q ! 0)) = Some k" and "capacity ?q \<le> length (bh ?q)"
      using keys k by (auto split: if_splits)
    moreover have "bh ?q \<noteq> []" using calculation assms(5) by (auto simp: has_room_def)
    ultimately show ?thesis using top_is_minimal [OF run(2)] by (intro bexI [of _ "bh ?q ! 0"]) auto
  qed
  ultimately show ?thesis using c'(1) by blast
qed

end

text \<open>C30. Eviction policy. With any of the four plain comparators set on a new cache, after any
  operations, storing a block that the queue accepts keeps the expiry queue a heap, and a block
  that loses its place is one with no block of lower priority in the queue.\<close>

theorem eviction_policy:
  assumes "lt \<in> {LessByHeight, LessByAccessCount, LessByAccessTime, LessByAccessCountThenHeight}"
    and "(api_op newHash)\<^sup>*\<^sup>* (SetCacheLessFn lt (NewAPICache cap)) c" and "IsEnabled c"
    and "newHash (Hash s) = Some hs" and "blockCache c hs = None" and "has_room t1 s (expireQueue c)"
  shows "\<exists>c'. StoreBlockSummary newHash t0 t1 t2 t3 s c = Some c'
    \<and> is_heap lt (pq_elems (expireQueue c'))
    \<and> (\<forall>k. k \<in> dom (blockCache c) - dom (blockCache c') \<longrightarrow>
         (\<exists>b\<in>set (bh (expireQueue c)). newHash (hash b) = Some k
            \<and> (\<forall>b'\<in>set (bh (expireQueue c)). \<not> lt b' b)))"
proof -
  consider "lt = LessByHeight" | "lt = LessByAccessCount" | "lt = LessByAccessTime"
    | "lt = LessByAccessCountThenHeight" using assms(1) by blast
  then show ?thesis
    by cases (use assms(2-6) in \<open>simp_all only: by_height.evicts_minimal by_count.evicts_minimal
      by_time.evicts_minimal by_count_height.evicts_minimal\<close>)
qed

text \<open>A full cache of one block, ordered by height.\<close>

definition example_full :: APICache where
  "example_full = the (StoreBlockSummary example_parse 10 11 12 13 (example_summary 5 CHR ''a'')
     (Enable (SetCacheLessFn LessByHeight (NewAPICache 1))))"

lemma example_full_run:
  "(api_op example_parse)\<^sup>*\<^sup>* (SetCacheLessFn LessByHeight (NewAPICache 1)) example_full"
proof -
  let ?c = "Enable (SetCacheLessFn LessByHeight (NewAPICache 1))"
  have "case StoreBlockSummary example_parse 10 11 12 13 (example_summary 5 CHR ''a'') ?c
      of None \<Rightarrow> False | Some _ \<Rightarrow> True"
    by code_simp
  then have "StoreBlockSummary example_parse 10 11 12 13 (example_summary 5 CHR ''a'') ?c = Some example_full"
    by (auto simp: example_full_def split: option.splits)
  then have "api_op example_parse ?c example_full" by (rule api_op.storeSummary)
  moreover have "api_op example_parse (SetCacheLessFn LessByHeight (NewAPICache 1)) ?c"
    by (rule api_op.enable)
  ultimately show ?thesis by (meson rtranclp.rtrancl_into_rtrancl rtranclp.rtrancl_refl)
qed

theorem eviction_policy_witness:
  "\<exists>c'. StoreBlockSummary example_parse 20 21 22 23 (example_summary 6 CHR ''b'') example_full = Some c'
     \<and> is_heap LessByHeight (pq_elems (expireQueue c'))"
proof -
  have "IsEnabled example_full" "has_room 21 (example_summary 6 CHR ''b'') (expireQueue example_full)"
    "example_parse (Hash (example_summary 6 CHR ''b'')) = Some (replicate HashSize (of_char CHR ''b''))"
    "blockCache example_full (replicate HashSize (of_char CHR ''b'')) = None"
    by code_simp+
  then show ?thesis
    using eviction_policy [OF _ example_full_run, of "example_summary 6 CHR ''b''" _ 21 20 22 23] by blast
qed

lemma api_reachable_ops:
  "api_reachable newHash cap c \<Longrightarrow> (api_op newHash)\<^sup>*\<^sup>* c c' \<Longrightarrow> api_reachable newHash cap c'"
  by (rotate_tac, induction rule: rtranclp_induct) (auto intro: api_reachable.op)

text \<open>Lookups do not reach the queue. The block map and the queue hold different objects, so
  in every reachable cache every queued block has the access count one; with the comparator by
  access count a full cache therefore refuses every new block, however often the others are used.\<close>

theorem queue_ignores_lookups:
  assumes "api_reachable newHash cap c"
  shows "(\<forall>b\<in>set (bh (expireQueue c)). accesses b = 1)
    \<and> (lessFn (expireQueue c) = LessByAccessCount \<and> UtilizationBlocks c = cap \<and> IsEnabled c
         \<and> newHash (Hash s) = Some hs \<and> blockCache c hs = None
       \<longrightarrow> StoreBlockSummary newHash t0 t1 t2 t3 s c = Some c)"
proof (intro conjI impI)
  show counts: "\<forall>b\<in>set (bh (expireQueue c)). accesses b = 1" using queue_counts [OF assms] .
  assume h: "lessFn (expireQueue c) = LessByAccessCount \<and> UtilizationBlocks c = cap \<and> IsEnabled c
    \<and> newHash (Hash s) = Some hs \<and> blockCache c hs = None"
  have inv: "api_inv newHash c" using api_reachable_inv [OF assms] .
  have len: "length (bh (expireQueue c)) = capacity (expireQueue c)"
    using api_inv_card [OF inv] api_reachable_capacity [OF assms] h by (simp add: UtilizationBlocks_def)
  have "\<not> has_room t1 s (expireQueue c)"
    using counts h len
    by (cases "bh (expireQueue c)") (auto simp: has_room_def newCachedBlock_summary LessByAccessCount_def)
  then show "StoreBlockSummary newHash t0 t1 t2 t3 s c = Some c"
    using StoreBlockSummary_refused [OF inv] h by blast
qed

theorem queue_ignores_lookups_witness:
  "StoreBlockSummary example_parse 20 21 22 23 (example_summary 6 CHR ''b'')
       (SetCacheLessFn LessByAccessCount example_full)
     = Some (SetCacheLessFn LessByAccessCount example_full)"
proof -
  let ?c = "SetCacheLessFn LessByAccessCount example_full"
  have r: "api_reachable example_parse 1 ?c"
    by (rule api_reachable.setLess, rule api_reachable_ops [OF _ example_full_run])
      (rule api_reachable.setLess, rule api_reachable.new)
  have "length (bh (expireQueue ?c)) = 1" by code_simp
  then have "UtilizationBlocks ?c = 1"
    using api_inv_card [OF api_reachable_inv [OF r]] by (simp add: UtilizationBlocks_def)
  moreover have "lessFn (expireQueue ?c) = LessByAccessCount"
    by (simp add: SetCacheLessFn_def SetLessFn_def Let_def)
  moreover have "IsEnabled ?c" "blockCache ?c (replicate HashSize (of_char CHR ''b'')) = None"
    "example_parse (Hash (example_summary 6 CHR ''b'')) = Some (replicate HashSize (of_char CHR ''b''))"
    by code_simp+
  ultimately show ?thesis using queue_ignores_lookups [OF r] by blast
qed

text \<open>Removal does not remove. \<open>RemoveCachedBlockByHeight\<close> of a main-chain height keeps the
  block in the map, and so retrievable by its hash, and leaves the expiry queue and the
  utilization as they were.\<close>

theorem RemoveCachedBlockByHeight_keeps_block:
  assumes "api_reachable newHash cap c" and "MainchainBlocks c h = Some hs"
  shows "\<exists>c' b. RemoveCachedBlockByHeight newHash t1 t2 h c = Some c' \<and> blockCache c' hs = Some b
    \<and> snd (getCachedBlockByHash u1 u2 hs c') \<noteq> None
    \<and> bh (expireQueue c') = bh (expireQueue c) \<and> UtilizationBlocks c' = UtilizationBlocks c"
proof -
  have inv: "api_inv newHash c" using api_reachable_inv [OF assms(1)] .
  obtain c1 b where o: "getCachedBlockByHash t1 t2 hs c = (c1, Some b)" "blockCache c1 hs = Some b"
    "RemoveCachedBlockByHeight newHash t1 t2 h c = RemoveCachedBlock newHash (Some b) c1"
    "heapIdx b = -1" "newHash (hash b) = Some hs"
    by (rule RemoveCachedBlockByHeight_outcome [OF inv assms(2)])
  let ?c = "c1\<lparr>MainchainBlocks := (MainchainBlocks c1)(int (height b) := None)\<rparr>"
  have r: "RemoveCachedBlockByHeight newHash t1 t2 h c = Some ?c"
    using o(3-5) by (simp add: RemoveCachedBlock_def removeCachedBlock_def)
  have "api_inv newHash ?c" using RemoveCachedBlockByHeight_inv [OF inv r] .
  then have "UtilizationBlocks ?c = UtilizationBlocks c"
    using api_inv_card [OF inv] api_inv_card [of newHash ?c] getCachedBlockByHash_queue(1) [OF o(1)]
    by (simp add: UtilizationBlocks_def)
  then show ?thesis
    using r o(2) getCachedBlockByHash_queue(1) [OF o(1)]
    by (intro exI [of _ ?c] exI [of _ b]) (simp add: getCachedBlockByHash_def Let_def)
qed

theorem RemoveCachedBlockByHeight_keeps_block_witness:
  "\<exists>c' b. RemoveCachedBlockByHeight example_parse 60 61 5 example_cache = Some c'
     \<and> blockCache c' (replicate HashSize (of_char CHR ''a'')) = Some b"
proof -
  have "MainchainBlocks example_cache 5 = Some (replicate HashSize (of_char CHR ''a''))" by code_simp
  then show ?thesis
    using RemoveCachedBlockByHeight_keeps_block [OF example_reachable] by blast
qed

end
