(* ===== verification/AddressRows.thy ===== *)
theory AddressRows
  imports GoBig
begin

text \<open>
  Address table rows (\<open>db/dbtypes/types.go\<close>): the three row types, the transaction views, the
  conversions between the row types, the page functions of the views and the merging of the rows
  of one transaction. A Go slice that may be nil is an optional list. \<open>uint64\<close> amounts are
  64-bit words, an instant is its number of nanoseconds since the epoch, SKA amounts are integers
  inside the merged rows and decimal strings outside.
\<close>

section \<open>Slices, times and amounts\<close>

type_synonym 'a slice = "'a list option"

definition slice_list :: "'a slice \<Rightarrow> 'a list" where
  "slice_list s = (case s of None \<Rightarrow> [] | Some xs \<Rightarrow> xs)"

lemma slice_list_simps [simp]: "slice_list None = []" "slice_list (Some xs) = xs"
  by (simp_all add: slice_list_def)

type_synonym TimeDef = int

definition UNIX :: "TimeDef \<Rightarrow> int" where
  "UNIX t = t div 1000000000"

definition NewTimeDefFromUNIX :: "int \<Rightarrow> TimeDef" where
  "NewTimeDefFromUNIX s = s * 1000000000"

lemma UNIX_NewTimeDefFromUNIX [simp]: "UNIX (NewTimeDefFromUNIX s) = s"
  by (simp add: UNIX_def NewTimeDefFromUNIX_def)

definition IsZero :: "hash option \<Rightarrow> bool" where
  "IsZero ch = (case ch of None \<Rightarrow> True | Some h \<Rightarrow> h = zeroHash)"

definition BigAddSKA :: "int \<Rightarrow> string \<Rightarrow> int" where
  "BigAddSKA acc s =
     (if s = '''' \<or> s = ''0'' then acc
      else case parse_dec s of Some v \<Rightarrow> acc + v | None \<Rightarrow> acc)"

section \<open>Views\<close>

datatype AddrTxnViewType =
    AddrTxnAll | AddrTxnCredit | AddrTxnDebit | AddrMergedTxnDebit | AddrMergedTxnCredit
  | AddrMergedTxn | AddrUnspentTxn | AddrTxnUnknown

datatype row_error =
    InvalidOffsetOrN int int
  | UnrecognizedView AddrTxnViewType
  | NonMergedView
  | MergedRowInInput

definition AddrTxnViewType_String :: "AddrTxnViewType \<Rightarrow> string" where
  "AddrTxnViewType_String a =
     (case a of
        AddrTxnAll \<Rightarrow> ''all'' | AddrTxnCredit \<Rightarrow> ''credit'' | AddrTxnDebit \<Rightarrow> ''debit''
      | AddrMergedTxnDebit \<Rightarrow> ''merged_debit'' | AddrMergedTxnCredit \<Rightarrow> ''merged_credit''
      | AddrMergedTxn \<Rightarrow> ''merged'' | AddrUnspentTxn \<Rightarrow> ''unspent'' | AddrTxnUnknown \<Rightarrow> ''unknown'')"

definition view_IsMerged :: "AddrTxnViewType \<Rightarrow> row_error + bool" where
  "view_IsMerged a =
     (if a \<in> {AddrTxnAll, AddrTxnCredit, AddrTxnDebit, AddrUnspentTxn} then Inr False
      else if a \<in> {AddrMergedTxn, AddrMergedTxnCredit, AddrMergedTxnDebit} then Inr True
      else Inl (UnrecognizedView a))"

text \<open>\<open>strings.ToLower\<close> on ASCII.\<close>

definition ToLower :: "string \<Rightarrow> string" where
  "ToLower = map (\<lambda>c. let n = of_char c :: nat in if 65 \<le> n \<and> n \<le> 90 then char_of (n + 32) else c)"

definition AddrTxnViewTypeFromStr :: "string \<Rightarrow> AddrTxnViewType" where
  "AddrTxnViewTypeFromStr txnType =
     (let t = ToLower txnType
      in if t = ''all'' then AddrTxnAll
         else if t = ''credit'' \<or> t = ''credits'' then AddrTxnCredit
         else if t = ''debit'' \<or> t = ''debits'' then AddrTxnDebit
         else if t = ''merged_debit'' \<or> t = ''merged debit'' then AddrMergedTxnDebit
         else if t = ''merged_credit'' \<or> t = ''merged credit'' then AddrMergedTxnCredit
         else if t = ''merged'' then AddrMergedTxn
         else if t = ''unspent'' then AddrUnspentTxn
         else AddrTxnUnknown)"

section \<open>Rows\<close>

record AddressRow =
  Address :: string
  ValidMainChain :: bool
  MatchingTxHash :: "hash option"
  IsFunding :: bool
  TxBlockTime :: TimeDef
  TxHash :: hash
  TxVinVoutIndex :: nat
  Value :: "64 word"
  VinVoutDbID :: "64 word"
  MergedCount :: "64 word"
  TxType :: int
  AtomsCredit :: "64 word"
  AtomsDebit :: "64 word"
  CoinType :: byte
  SKAValue :: string

record AddressRowCompact =
  arc_Address :: string
  arc_TxBlockTime :: int
  arc_TxHash :: hash
  arc_MatchingTxHash :: "hash option"
  arc_TxVinVoutIndex :: nat
  arc_TxType :: int
  arc_ValidMainChain :: bool
  arc_IsFunding :: bool
  arc_Value :: "64 word"
  arc_CoinType :: byte
  arc_SKAValue :: string

record AddressRowMerged =
  arm_Address :: string
  arm_TxBlockTime :: int
  arm_TxHash :: hash
  arm_AtomsCredit :: "64 word"
  arm_AtomsDebit :: "64 word"
  arm_SKAAtomsCredit :: "int option"
  arm_SKAAtomsDebit :: "int option"
  arm_MergedCount :: "32 word"
  arm_TxType :: int
  arm_ValidMainChain :: bool
  arm_CoinType :: byte

definition row_IsMerged :: "AddressRow \<Rightarrow> bool" where
  "row_IsMerged ar \<longleftrightarrow> MergedCount ar > 0"

definition arm_add :: "byte \<Rightarrow> bool \<Rightarrow> 64 word \<Rightarrow> string \<Rightarrow> AddressRowMerged \<Rightarrow> AddressRowMerged" where
  "arm_add coinType isFunding val skaValue arm =
     (let arm = arm\<lparr>arm_CoinType := coinType\<rparr>
      in if coinType = 0 then
           if isFunding then arm\<lparr>arm_AtomsCredit := arm_AtomsCredit arm + val\<rparr>
           else arm\<lparr>arm_AtomsDebit := arm_AtomsDebit arm + val\<rparr>
         else if isFunding then
           arm\<lparr>arm_SKAAtomsCredit :=
             Some (BigAddSKA (case arm_SKAAtomsCredit arm of None \<Rightarrow> 0 | Some c \<Rightarrow> c) skaValue)\<rparr>
         else
           arm\<lparr>arm_SKAAtomsDebit :=
             Some (BigAddSKA (case arm_SKAAtomsDebit arm of None \<Rightarrow> 0 | Some c \<Rightarrow> c) skaValue)\<rparr>)"

definition skaNet :: "AddressRowMerged \<Rightarrow> int" where
  "skaNet arm = (case arm_SKAAtomsCredit arm of None \<Rightarrow> 0 | Some c \<Rightarrow> c)
     - (case arm_SKAAtomsDebit arm of None \<Rightarrow> 0 | Some d \<Rightarrow> d)"

definition arm_IsFunding :: "AddressRowMerged \<Rightarrow> bool" where
  "arm_IsFunding arm \<longleftrightarrow>
     (if arm_CoinType arm \<noteq> 0 then skaNet arm > 0 else arm_AtomsCredit arm > arm_AtomsDebit arm)"

definition arm_Value :: "AddressRowMerged \<Rightarrow> 64 word" where
  "arm_Value arm =
     (if arm_AtomsCredit arm > arm_AtomsDebit arm then arm_AtomsCredit arm - arm_AtomsDebit arm
      else arm_AtomsDebit arm - arm_AtomsCredit arm)"

definition SKAValueStr :: "AddressRowMerged \<Rightarrow> string" where
  "SKAValueStr arm = (if arm_CoinType arm = 0 then '''' else show_int \<bar>skaNet arm\<bar>)"

section \<open>Pages of the plain views\<close>

text \<open>
  The loop that every page function has: rows for which \<open>drop_row\<close> holds are passed over,
  then \<open>offset\<close> rows are skipped, then rows are appended until there are \<open>N\<close>.
\<close>

fun page_loop :: "('r \<Rightarrow> bool) \<Rightarrow> int \<Rightarrow> int \<Rightarrow> 'r list \<Rightarrow> int \<Rightarrow> 'r list \<Rightarrow> 'r list" where
  "page_loop drop_row N offset [] skipped out = out"
| "page_loop drop_row N offset (row # rows) skipped out =
     (if drop_row row then page_loop drop_row N offset rows skipped out
      else if skipped < offset then page_loop drop_row N offset rows (skipped + 1) out
      else let out' = out @ [row]
           in if int (length out') = N then out'
              else page_loop drop_row N offset rows skipped out')"

definition SliceAddressRowsAll :: "AddressRow slice \<Rightarrow> int \<Rightarrow> int \<Rightarrow> AddressRow slice" where
  "SliceAddressRowsAll rows N offset =
     (case rows of
        None \<Rightarrow> None
      | Some rs \<Rightarrow>
          if offset \<ge> int (length rs) then Some []
          else
            let e = (if offset + N > int (length rs) then int (length rs) else offset + N)
            in if offset < e then Some (take (nat (e - offset)) (drop (nat offset) rs)) else Some [])"

fun CountCreditDebitRows :: "AddressRow list \<Rightarrow> int \<times> int" where
  "CountCreditDebitRows [] = (0, 0)"
| "CountCreditDebitRows (r # rs) =
     (let (numCredit, numDebit) = CountCreditDebitRows rs
      in if IsFunding r then (numCredit + 1, numDebit) else (numCredit, numDebit + 1))"

fun CountUnspentCreditRows :: "AddressRow list \<Rightarrow> int \<times> int" where
  "CountUnspentCreditRows [] = (0, 0)"
| "CountUnspentCreditRows (r # rs) =
     (let (numCredit, numDebit) = CountUnspentCreditRows rs
      in if IsFunding r \<and> MatchingTxHash r = None then (numCredit + 1, numDebit)
         else (numCredit, numDebit))"

definition SliceAddressCreditRows :: "AddressRow slice \<Rightarrow> int \<Rightarrow> int \<Rightarrow> AddressRow slice" where
  "SliceAddressCreditRows rows N offset =
     (case rows of
        None \<Rightarrow> None
      | Some rs \<Rightarrow>
          if offset \<ge> int (length rs) then Some []
          else
            let numCreditRows = fst (CountCreditDebitRows rs);
                N = (if numCreditRows < N then numCreditRows else N)
            in if offset \<ge> numCreditRows then None
               else Some (page_loop (\<lambda>row. \<not> IsFunding row) N offset rs 0 []))"

definition SliceAddressUnspentCreditRows :: "AddressRow slice \<Rightarrow> int \<Rightarrow> int \<Rightarrow> AddressRow slice" where
  "SliceAddressUnspentCreditRows rows N offset =
     (case rows of
        None \<Rightarrow> None
      | Some rs \<Rightarrow>
          if offset \<ge> int (length rs) then Some []
          else
            let numCreditRows = fst (CountUnspentCreditRows rs);
                N = (if numCreditRows < N then numCreditRows else N)
            in if offset \<ge> numCreditRows then None
               else Some (page_loop (\<lambda>row. \<not> IsFunding row) N offset rs 0 []))"

definition SliceAddressDebitRows :: "AddressRow slice \<Rightarrow> int \<Rightarrow> int \<Rightarrow> AddressRow slice" where
  "SliceAddressDebitRows rows N offset =
     (case rows of
        None \<Rightarrow> None
      | Some rs \<Rightarrow>
          if offset \<ge> int (length rs) then Some []
          else
            let numDebitRows = snd (CountCreditDebitRows rs);
                N = (if numDebitRows < N then numDebitRows else N)
            in if offset \<ge> numDebitRows then None
               else Some (page_loop IsFunding N offset rs 0 []))"

section \<open>Merging\<close>

definition wrongDirection :: "AddrTxnViewType \<Rightarrow> (bool \<Rightarrow> bool) option" where
  "wrongDirection txnView =
     (case txnView of
        AddrMergedTxn \<Rightarrow> Some (\<lambda>_. False)
      | AddrMergedTxnCredit \<Rightarrow> Some (\<lambda>funding. \<not> funding)
      | AddrMergedTxnDebit \<Rightarrow> Some (\<lambda>funding. funding)
      | _ \<Rightarrow> None)"

fun CountMergedRows_loop ::
  "(bool \<Rightarrow> bool) \<Rightarrow> AddressRow list \<Rightarrow> hash set \<Rightarrow> int \<Rightarrow> row_error + int" where
  "CountMergedRows_loop wrong [] merged numMerged = Inr numMerged"
| "CountMergedRows_loop wrong (r # rs) merged numMerged =
     (if MergedCount r \<noteq> 0 then Inl MergedRowInInput
      else if wrong (IsFunding r) then CountMergedRows_loop wrong rs merged numMerged
      else if TxHash r \<notin> merged
      then CountMergedRows_loop wrong rs (insert (TxHash r) merged) (numMerged + 1)
      else CountMergedRows_loop wrong rs merged numMerged)"

definition CountMergedRows :: "AddressRow list \<Rightarrow> AddrTxnViewType \<Rightarrow> row_error + int" where
  "CountMergedRows rows txnView =
     (case wrongDirection txnView of
        None \<Rightarrow> Inl NonMergedView
      | Some wrong \<Rightarrow> CountMergedRows_loop wrong rows {} 0)"

fun CountMergedRowsCompact_loop ::
  "(bool \<Rightarrow> bool) \<Rightarrow> AddressRowCompact list \<Rightarrow> hash set \<Rightarrow> int \<Rightarrow> int" where
  "CountMergedRowsCompact_loop wrong [] merged numMerged = numMerged"
| "CountMergedRowsCompact_loop wrong (r # rs) merged numMerged =
     (if wrong (arc_IsFunding r) then CountMergedRowsCompact_loop wrong rs merged numMerged
      else if arc_TxHash r \<notin> merged
      then CountMergedRowsCompact_loop wrong rs (insert (arc_TxHash r) merged) (numMerged + 1)
      else CountMergedRowsCompact_loop wrong rs merged numMerged)"

definition CountMergedRowsCompact :: "AddressRowCompact list \<Rightarrow> AddrTxnViewType \<Rightarrow> row_error + int" where
  "CountMergedRowsCompact rows txnView =
     (case wrongDirection txnView of
        None \<Rightarrow> Inl NonMergedView
      | Some wrong \<Rightarrow> Inr (CountMergedRowsCompact_loop wrong rows {} 0))"

text \<open>
  A new merged row is the row that the first constituent starts; the hash map of the code holds
  pointers to the elements of the result, here their positions.
\<close>

definition start_merged :: "AddressRow \<Rightarrow> AddressRowMerged" where
  "start_merged r = arm_add (CoinType r) (IsFunding r) (Value r) (SKAValue r)
     \<lparr>arm_Address = Address r, arm_TxBlockTime = UNIX (TxBlockTime r), arm_TxHash = TxHash r,
      arm_AtomsCredit = 0, arm_AtomsDebit = 0, arm_SKAAtomsCredit = None, arm_SKAAtomsDebit = None,
      arm_MergedCount = 1, arm_TxType = TxType r, arm_ValidMainChain = ValidMainChain r,
      arm_CoinType = 0\<rparr>"

definition update_merged :: "AddressRow \<Rightarrow> AddressRowMerged \<Rightarrow> AddressRowMerged" where
  "update_merged r row = arm_add (CoinType r) (IsFunding r) (Value r) (SKAValue r)
     (row\<lparr>arm_MergedCount := arm_MergedCount row + 1\<rparr>)"

fun MergeRows_loop ::
  "AddressRow list \<Rightarrow> (hash \<rightharpoonup> nat) \<Rightarrow> AddressRowMerged list \<Rightarrow> row_error + AddressRowMerged list" where
  "MergeRows_loop [] hashMap mergedRows = Inr mergedRows"
| "MergeRows_loop (r # rs) hashMap mergedRows =
     (if MergedCount r \<noteq> 0 then Inl MergedRowInInput
      else case hashMap (TxHash r) of
             None \<Rightarrow>
               MergeRows_loop rs (hashMap(TxHash r \<mapsto> length mergedRows))
                 (mergedRows @ [start_merged r])
           | Some i \<Rightarrow>
               MergeRows_loop rs hashMap (mergedRows[i := update_merged r (mergedRows ! i)]))"

definition MergeRows :: "AddressRow list \<Rightarrow> row_error + AddressRowMerged list" where
  "MergeRows rows = MergeRows_loop rows Map.empty []"

fun MergeRowsRange_loop ::
  "(bool \<Rightarrow> bool) \<Rightarrow> int \<Rightarrow> int \<Rightarrow> AddressRow list \<Rightarrow> int \<Rightarrow> hash set \<Rightarrow> (hash \<rightharpoonup> nat)
     \<Rightarrow> AddressRowMerged list \<Rightarrow> row_error + AddressRowMerged list" where
  "MergeRowsRange_loop wrong N offset [] skipped seen hashMap mergedRows = Inr mergedRows"
| "MergeRowsRange_loop wrong N offset (r # rs) skipped seen hashMap mergedRows =
     (if wrong (IsFunding r) then MergeRowsRange_loop wrong N offset rs skipped seen hashMap mergedRows
      else if MergedCount r \<noteq> 0 then Inl MergedRowInInput
      else case hashMap (TxHash r) of
             None \<Rightarrow>
               if int (length mergedRows) = N
               then MergeRowsRange_loop wrong N offset rs skipped seen hashMap mergedRows
               else if skipped < offset then
                 if TxHash r \<notin> seen
                 then MergeRowsRange_loop wrong N offset rs (skipped + 1) (insert (TxHash r) seen)
                        hashMap mergedRows
                 else MergeRowsRange_loop wrong N offset rs skipped seen hashMap mergedRows
               else MergeRowsRange_loop wrong N offset rs skipped seen
                      (hashMap(TxHash r \<mapsto> length mergedRows)) (mergedRows @ [start_merged r])
           | Some i \<Rightarrow>
               MergeRowsRange_loop wrong N offset rs skipped seen hashMap
                 (mergedRows[i := update_merged r (mergedRows ! i)]))"

definition MergeRowsRange ::
  "AddressRow list \<Rightarrow> int \<Rightarrow> int \<Rightarrow> AddrTxnViewType \<Rightarrow> row_error + AddressRowMerged list" where
  "MergeRowsRange rows N offset txnView =
     (if offset < 0 \<or> N < 0 then Inl (InvalidOffsetOrN offset N)
      else case wrongDirection txnView of
             None \<Rightarrow> Inl (UnrecognizedView txnView)
           | Some wrong \<Rightarrow>
               if N = 0 \<or> rows = [] then Inr []
               else MergeRowsRange_loop wrong N offset rows 0 {} Map.empty [])"

definition start_merged_compact :: "AddressRowCompact \<Rightarrow> AddressRowMerged" where
  "start_merged_compact r = arm_add (arc_CoinType r) (arc_IsFunding r) (arc_Value r) (arc_SKAValue r)
     \<lparr>arm_Address = arc_Address r, arm_TxBlockTime = arc_TxBlockTime r, arm_TxHash = arc_TxHash r,
      arm_AtomsCredit = 0, arm_AtomsDebit = 0, arm_SKAAtomsCredit = None, arm_SKAAtomsDebit = None,
      arm_MergedCount = 1, arm_TxType = arc_TxType r, arm_ValidMainChain = arc_ValidMainChain r,
      arm_CoinType = 0\<rparr>"

definition update_merged_compact :: "AddressRowCompact \<Rightarrow> AddressRowMerged \<Rightarrow> AddressRowMerged" where
  "update_merged_compact r row = arm_add (arc_CoinType r) (arc_IsFunding r) (arc_Value r) (arc_SKAValue r)
     (row\<lparr>arm_MergedCount := arm_MergedCount row + 1\<rparr>)"

fun MergeRowsCompact_loop ::
  "AddressRowCompact list \<Rightarrow> (hash \<rightharpoonup> nat) \<Rightarrow> AddressRowMerged list \<Rightarrow> AddressRowMerged list" where
  "MergeRowsCompact_loop [] hashMap mergedRows = mergedRows"
| "MergeRowsCompact_loop (r # rs) hashMap mergedRows =
     (case hashMap (arc_TxHash r) of
        None \<Rightarrow>
          MergeRowsCompact_loop rs (hashMap(arc_TxHash r \<mapsto> length mergedRows))
            (mergedRows @ [start_merged_compact r])
      | Some i \<Rightarrow>
          MergeRowsCompact_loop rs hashMap
            (mergedRows[i := update_merged_compact r (mergedRows ! i)]))"

definition MergeRowsCompact :: "AddressRowCompact list \<Rightarrow> AddressRowMerged list" where
  "MergeRowsCompact rows = MergeRowsCompact_loop rows Map.empty []"

fun MergeRowsCompactRange_loop ::
  "(bool \<Rightarrow> bool) \<Rightarrow> int \<Rightarrow> int \<Rightarrow> AddressRowCompact list \<Rightarrow> int \<Rightarrow> hash set \<Rightarrow> (hash \<rightharpoonup> nat)
     \<Rightarrow> AddressRowMerged list \<Rightarrow> AddressRowMerged list" where
  "MergeRowsCompactRange_loop wrong N offset [] skipped seen hashMap mergedRows = mergedRows"
| "MergeRowsCompactRange_loop wrong N offset (r # rs) skipped seen hashMap mergedRows =
     (if wrong (arc_IsFunding r)
      then MergeRowsCompactRange_loop wrong N offset rs skipped seen hashMap mergedRows
      else case hashMap (arc_TxHash r) of
             None \<Rightarrow>
               if int (length mergedRows) = N
               then MergeRowsCompactRange_loop wrong N offset rs skipped seen hashMap mergedRows
               else if skipped < offset then
                 if arc_TxHash r \<notin> seen
                 then MergeRowsCompactRange_loop wrong N offset rs (skipped + 1)
                        (insert (arc_TxHash r) seen) hashMap mergedRows
                 else MergeRowsCompactRange_loop wrong N offset rs skipped seen hashMap mergedRows
               else MergeRowsCompactRange_loop wrong N offset rs skipped seen
                      (hashMap(arc_TxHash r \<mapsto> length mergedRows))
                      (mergedRows @ [start_merged_compact r])
           | Some i \<Rightarrow>
               MergeRowsCompactRange_loop wrong N offset rs skipped seen hashMap
                 (mergedRows[i := update_merged_compact r (mergedRows ! i)]))"

definition MergeRowsCompactRange ::
  "AddressRowCompact list \<Rightarrow> int \<Rightarrow> int \<Rightarrow> AddrTxnViewType \<Rightarrow> AddressRowMerged slice" where
  "MergeRowsCompactRange rows N offset txnView =
     (if offset < 0 \<or> N < 0 then None
      else case wrongDirection txnView of
             None \<Rightarrow> None
           | Some wrong \<Rightarrow>
               if N = 0 \<or> rows = [] then Some []
               else Some (MergeRowsCompactRange_loop wrong N offset rows 0 {} Map.empty []))"

section \<open>Conversions\<close>

definition compact_row :: "AddressRow \<Rightarrow> AddressRowCompact" where
  "compact_row r =
     \<lparr>arc_Address = Address r, arc_TxBlockTime = UNIX (TxBlockTime r), arc_TxHash = TxHash r,
      arc_MatchingTxHash = MatchingTxHash r, arc_TxVinVoutIndex = TxVinVoutIndex r,
      arc_TxType = TxType r, arc_ValidMainChain = ValidMainChain r, arc_IsFunding = IsFunding r,
      arc_Value = Value r, arc_CoinType = CoinType r, arc_SKAValue = SKAValue r\<rparr>"

definition CompactRows :: "AddressRow list \<Rightarrow> AddressRowCompact list" where
  "CompactRows rows = map compact_row rows"

definition uncompact_row :: "AddressRowCompact \<Rightarrow> AddressRow" where
  "uncompact_row r =
     \<lparr>Address = arc_Address r, ValidMainChain = arc_ValidMainChain r,
      MatchingTxHash = arc_MatchingTxHash r, IsFunding = arc_IsFunding r,
      TxBlockTime = NewTimeDefFromUNIX (arc_TxBlockTime r), TxHash = arc_TxHash r,
      TxVinVoutIndex = arc_TxVinVoutIndex r, Value = arc_Value r, VinVoutDbID = 0,
      MergedCount = 0, TxType = arc_TxType r, AtomsCredit = 0, AtomsDebit = 0,
      CoinType = arc_CoinType r, SKAValue = arc_SKAValue r\<rparr>"

definition UncompactRows :: "AddressRowCompact slice \<Rightarrow> AddressRow slice" where
  "UncompactRows compact = map_option (map uncompact_row) compact"

definition uncompact_merged_row :: "AddressRowMerged \<Rightarrow> AddressRow" where
  "uncompact_merged_row r =
     \<lparr>Address = arm_Address r, ValidMainChain = arm_ValidMainChain r,
      MatchingTxHash = None, IsFunding = arm_IsFunding r,
      TxBlockTime = NewTimeDefFromUNIX (arm_TxBlockTime r), TxHash = arm_TxHash r,
      TxVinVoutIndex = 0, Value = arm_Value r, VinVoutDbID = 0,
      MergedCount = scast (arm_MergedCount r), TxType = arm_TxType r, AtomsCredit = 0, AtomsDebit = 0,
      CoinType = arm_CoinType r, SKAValue = SKAValueStr r\<rparr>"

definition UncompactMergedRows :: "AddressRowMerged slice \<Rightarrow> AddressRow slice" where
  "UncompactMergedRows merged = map_option (map uncompact_merged_row) merged"

definition SliceAddressRows ::
  "AddressRow slice \<Rightarrow> int \<Rightarrow> int \<Rightarrow> AddrTxnViewType \<Rightarrow> row_error + AddressRow slice" where
  "SliceAddressRows rows N offset txnView =
     (if offset < 0 \<or> N < 0 then Inl (InvalidOffsetOrN offset N)
      else if N = 0 \<or> slice_list rows = [] \<or> offset \<ge> int (length (slice_list rows)) then Inr (Some [])
      else case txnView of
             AddrTxnAll \<Rightarrow> Inr (SliceAddressRowsAll rows N offset)
           | AddrTxnCredit \<Rightarrow> Inr (SliceAddressCreditRows rows N offset)
           | AddrTxnDebit \<Rightarrow> Inr (SliceAddressDebitRows rows N offset)
           | AddrUnspentTxn \<Rightarrow> Inr (SliceAddressUnspentCreditRows rows N offset)
           | AddrTxnUnknown \<Rightarrow> Inl (UnrecognizedView txnView)
           | _ \<Rightarrow>
               (case MergeRowsRange (slice_list rows) N offset txnView of
                  Inl e \<Rightarrow> Inl e
                | Inr mergedRows \<Rightarrow> Inr (UncompactMergedRows (Some mergedRows))))"

end
