(* ===== verification/RowPages.thy ===== *)
theory RowPages
  imports AddressRows
begin

text \<open>
  What the page functions of the plain views return. \<open>paged_view\<close> is the contract of a view:
  page \<open>offset, N\<close> is a segment of the rows that belong to the view. Its lemmas say that walking
  through the pages yields every row of the view once and in order. The views of
  \<open>SliceAddressRows\<close> are interpreted here, those of the address cache in \<open>AddressItems\<close>.
\<close>

section \<open>The contract of a paged view\<close>

locale paged_view =
  fixes keep :: "'r \<Rightarrow> bool" and page :: "'r list \<Rightarrow> int \<Rightarrow> int \<Rightarrow> 'r list"
  assumes page_eq:
    "0 < N \<Longrightarrow> 0 \<le> offset
       \<Longrightarrow> page rows N offset = take (nat N) (drop (nat offset) (filter keep rows))"
begin

lemma page_prefix:
  assumes "0 < n"
  shows "concat (map (\<lambda>k. page rows (int n) (int (k * n))) [0..<m]) = take (m * n) (filter keep rows)"
proof (induction m)
  case (Suc m)
  have "page rows (int n) (int (m * n)) = take n (drop (m * n) (filter keep rows))"
    by (subst page_eq) (use assms in \<open>simp_all del: of_nat_mult\<close>)
  moreover have "Suc m * n = m * n + n" by simp
  ultimately show ?case using Suc by (simp only: take_add) simp
qed simp

lemma pages_complete:
  assumes "0 < n" and "length (filter keep rows) \<le> m * n"
  shows "concat (map (\<lambda>k. page rows (int n) (int (k * n))) [0..<m]) = filter keep rows"
  using page_prefix [OF assms(1), of rows m] assms(2) by simp

lemma page_length:
  assumes "0 < N" and "0 \<le> offset"
  shows "int (length (page rows N offset)) \<le> N" and "set (page rows N offset) \<subseteq> {r \<in> set rows. keep r}"
  using assms by (auto simp: page_eq dest!: in_set_takeD in_set_dropD)

end

section \<open>The loop\<close>

lemma page_loop_eq:
  assumes "skipped \<le> offset" and "int (length out) < N"
  shows "page_loop drop_row N offset rows skipped out =
    out @ take (nat N - length out) (drop (nat (offset - skipped)) (filter (\<lambda>r. \<not> drop_row r) rows))"
  using assms
proof (induction rows arbitrary: skipped out)
  case (Cons r rows)
  show ?case
  proof (cases "drop_row r")
    case True
    then show ?thesis using Cons by simp
  next
    case keep: False
    show ?thesis
    proof (cases "skipped < offset")
      case True
      then have "nat (offset - skipped) = Suc (nat (offset - (skipped + 1)))" by linarith
      then show ?thesis using Cons keep True by simp
    next
      case False
      then have eq: "nat (offset - skipped) = 0" by simp
      have "nat N - length out = Suc (nat N - length (out @ [r]))" using Cons.prems(2) by simp
      then show ?thesis
        using Cons.IH [of skipped "out @ [r]"] Cons.prems keep False eq
        by (auto simp: Let_def)
    qed
  qed
qed simp

text \<open>Clipping \<open>N\<close> to the number of matching rows changes nothing.\<close>

lemma clipped_page:
  assumes "0 < N" and "0 \<le> offset" and "cnt = int (length (filter (\<lambda>r. \<not> drop_row r) rows))"
    and "offset < cnt"
  shows "page_loop drop_row (if cnt < N then cnt else N) offset rows 0 [] =
    take (nat N) (drop (nat offset) (filter (\<lambda>r. \<not> drop_row r) rows))"
proof -
  have "0 < (if cnt < N then cnt else N)" using assms(1,2,4) by simp
  then show ?thesis
    using assms(2,3) page_loop_eq [of 0 offset "[]" "if cnt < N then cnt else N" drop_row rows] by simp
qed

lemma beyond_page:
  assumes "cnt = int (length (filter P rows))" and "cnt \<le> offset"
  shows "drop (nat offset) (filter P rows) = []"
  using assms by simp

lemma CountCreditDebitRows_eq:
  "CountCreditDebitRows rows =
     (int (length (filter IsFunding rows)), int (length (filter (\<lambda>r. \<not> IsFunding r) rows)))"
  by (induction rows) auto

lemma CountUnspentCreditRows_eq:
  "CountUnspentCreditRows rows =
     (int (length (filter (\<lambda>r. IsFunding r \<and> MatchingTxHash r = None) rows)), 0)"
  by (induction rows) auto

lemma filter_length_le: "int (length rows) \<le> offset \<Longrightarrow> length (filter P rows) \<le> nat offset"
  using length_filter_le [of P rows] by linarith

interpretation all_rows: paged_view "\<lambda>_. True" "\<lambda>rows N offset. slice_list (SliceAddressRowsAll (Some rows) N offset)"
  by unfold_locales (auto simp: SliceAddressRowsAll_def Let_def)

interpretation credit_rows: paged_view IsFunding
  "\<lambda>rows N offset. slice_list (SliceAddressCreditRows (Some rows) N offset)"
proof
  fix N offset :: int and rows
  assume "0 < N" "0 \<le> offset"
  then show "slice_list (SliceAddressCreditRows (Some rows) N offset)
      = take (nat N) (drop (nat offset) (filter IsFunding rows))"
    using clipped_page [of N offset _ "\<lambda>r. \<not> IsFunding r" rows] beyond_page [of _ IsFunding rows offset]
    by (simp add: SliceAddressCreditRows_def CountCreditDebitRows_eq Let_def filter_length_le)
qed

interpretation debit_rows: paged_view "\<lambda>r. \<not> IsFunding r"
  "\<lambda>rows N offset. slice_list (SliceAddressDebitRows (Some rows) N offset)"
proof
  fix N offset :: int and rows
  assume "0 < N" "0 \<le> offset"
  then show "slice_list (SliceAddressDebitRows (Some rows) N offset)
      = take (nat N) (drop (nat offset) (filter (\<lambda>r. \<not> IsFunding r) rows))"
    using clipped_page [of N offset _ IsFunding rows] beyond_page [of _ "\<lambda>r. \<not> IsFunding r" rows offset]
    by (simp add: SliceAddressDebitRows_def CountCreditDebitRows_eq Let_def filter_length_le)
qed

section \<open>Properties\<close>

definition in_view :: "AddrTxnViewType \<Rightarrow> AddressRow \<Rightarrow> bool" where
  "in_view v r \<longleftrightarrow> (case v of AddrTxnCredit \<Rightarrow> IsFunding r | AddrTxnDebit \<Rightarrow> \<not> IsFunding r | _ \<Rightarrow> True)"

lemma in_view_simps [simp]:
  "in_view AddrTxnAll = (\<lambda>_. True)" "in_view AddrTxnCredit = IsFunding"
  "in_view AddrTxnDebit = (\<lambda>r. \<not> IsFunding r)"
  by (auto simp: in_view_def fun_eq_iff)

text \<open>The pages of the all, credit and debit views: for a positive size and an offset that is not
  negative, the slice returned is the segment of that size, from that offset, of the rows that
  belong to the view, in their order.\<close>

theorem SliceAddressRows_page:
  assumes "v \<in> {AddrTxnAll, AddrTxnCredit, AddrTxnDebit}" and "0 < N" and "0 \<le> offset"
  shows "\<exists>page. SliceAddressRows (Some rows) N offset v = Inr page
    \<and> slice_list page = take (nat N) (drop (nat offset) (filter (in_view v) rows))"
proof -
  consider "v = AddrTxnAll" | "v = AddrTxnCredit" | "v = AddrTxnDebit" using assms(1) by blast
  then show ?thesis
    by cases (use assms all_rows.page_eq credit_rows.page_eq debit_rows.page_eq in
      \<open>auto simp: SliceAddressRows_def filter_length_le\<close>)
qed

definition example_row :: "byte \<Rightarrow> bool \<Rightarrow> hash option \<Rightarrow> AddressRow" where
  "example_row h funding matching =
     \<lparr>Address = ''Ms'', ValidMainChain = True, MatchingTxHash = matching, IsFunding = funding,
      TxBlockTime = 0, TxHash = replicate HashSize h, TxVinVoutIndex = 0, Value = 5,
      VinVoutDbID = 0, MergedCount = 0, TxType = 0, AtomsCredit = 0, AtomsDebit = 0,
      CoinType = 0, SKAValue = ''''\<rparr>"

theorem SliceAddressRows_page_witness:
  "\<exists>page. SliceAddressRows (Some [example_row 1 True None, example_row 2 False None,
        example_row 3 True None]) 5 1 AddrTxnCredit = Inr page
     \<and> slice_list page = [example_row 3 True None]"
  using SliceAddressRows_page [of AddrTxnCredit 5 1
      "[example_row 1 True None, example_row 2 False None, example_row 3 True None]"]
  by (simp add: example_row_def)

text \<open>The unspent view does not filter: the page of \<open>AddrUnspentTxn\<close> is cut from all credit
  rows, spent ones included, at the number of unspent ones. For a spent credit followed by an
  unspent one it returns the spent row and not the unspent one.\<close>

theorem SliceAddressRows_unspent_returns_spent:
  fixes h :: hash
  defines "rows \<equiv> [example_row 1 True (Some h), example_row 2 True None]"
  shows "SliceAddressRows (Some rows) 10 0 AddrUnspentTxn = Inr (Some [example_row 1 True (Some h)])
    \<and> filter (\<lambda>r. IsFunding r \<and> MatchingTxHash r = None) rows = [example_row 2 True None]"
  by (simp add: rows_def SliceAddressRows_def SliceAddressUnspentCreditRows_def example_row_def Let_def)

end
