(* ===== verification/RowMerge.thy ===== *)
theory RowMerge
  imports RowPages
begin

text \<open>
  Merging the rows of one transaction. \<open>merge_ref\<close> is the reference: one merged row per
  transaction hash, in the order of first appearance, folded from all rows with that hash. The
  loops of \<open>MergeRows\<close>, \<open>MergeRowsCompact\<close> and their range versions are related to it, the merged
  amounts to sums over the constituent rows, and the two kinds of input row to each other.
\<close>

section \<open>The reference\<close>

function merge_ref :: "AddressRowCompact list \<Rightarrow> AddressRowMerged list" where
  "merge_ref [] = []"
| "merge_ref (r # rs) =
     foldl (\<lambda>m x. update_merged_compact x m) (start_merged_compact r)
       (filter (\<lambda>x. arc_TxHash x = arc_TxHash r) rs)
     # merge_ref (filter (\<lambda>x. arc_TxHash x \<noteq> arc_TxHash r) rs)"
  by pat_completeness auto
termination
  by (relation "measure length") (auto simp: le_imp_less_Suc)

text \<open>What is folded into an existing merged row from the rows to come.\<close>

definition absorb :: "AddressRowCompact list \<Rightarrow> AddressRowMerged \<Rightarrow> AddressRowMerged" where
  "absorb rows m = foldl (\<lambda>m x. update_merged_compact x m) m (filter (\<lambda>x. arc_TxHash x = arm_TxHash m) rows)"

lemma arm_add_frame [simp]:
  "arm_TxHash (arm_add c f v s m) = arm_TxHash m" "arm_MergedCount (arm_add c f v s m) = arm_MergedCount m"
  by (simp_all add: arm_add_def Let_def)

lemma merged_hash [simp]:
  "arm_TxHash (start_merged_compact r) = arc_TxHash r"
  "arm_TxHash (update_merged_compact r m) = arm_TxHash m"
  by (simp_all add: start_merged_compact_def update_merged_compact_def)

lemma absorb_simps [simp]:
  "absorb [] m = m"
  "arc_TxHash r = arm_TxHash m \<Longrightarrow> absorb (r # rows) m = absorb rows (update_merged_compact r m)"
  "arc_TxHash r \<noteq> arm_TxHash m \<Longrightarrow> absorb (r # rows) m = absorb rows m"
  by (simp_all add: absorb_def)

lemma merge_ref_Cons:
  "merge_ref (r # rs) = absorb rs (start_merged_compact r) # merge_ref (filter (\<lambda>x. arc_TxHash x \<noteq> arc_TxHash r) rs)"
  by (simp add: absorb_def)

lemma absorb_hash [simp]: "arm_TxHash (absorb rows m) = arm_TxHash m"
  unfolding absorb_def by (induction rows rule: rev_induct) auto

lemma absorb_filter:
  "(\<And>r. r \<in> set rows \<Longrightarrow> arc_TxHash r = arm_TxHash m \<Longrightarrow> P r) \<Longrightarrow> absorb (filter P rows) m = absorb rows m"
  unfolding absorb_def by (auto intro!: arg_cong [where f = "foldl _ m"] filter_cong)

section \<open>The loops\<close>

definition hm_ok :: "(hash \<rightharpoonup> nat) \<Rightarrow> AddressRowMerged list \<Rightarrow> bool" where
  "hm_ok hm ms \<longleftrightarrow> (\<forall>h i. hm h = Some i \<longleftrightarrow> i < length ms \<and> arm_TxHash (ms ! i) = h)"

lemma hm_ok_empty [simp]: "hm_ok Map.empty []"
  by (simp add: hm_ok_def)

lemma hm_ok_None: "hm_ok hm ms \<Longrightarrow> hm h = None \<longleftrightarrow> (\<forall>m\<in>set ms. arm_TxHash m \<noteq> h)"
proof -
  assume ok: "hm_ok hm ms"
  show ?thesis
  proof (cases "hm h")
    case None
    have "arm_TxHash m \<noteq> h" if mem: "m \<in> set ms" for m
    proof
      assume "arm_TxHash m = h"
      moreover obtain i where "i < length ms" "m = ms ! i" using mem by (auto simp: in_set_conv_nth)
      ultimately have "hm h = Some i" using ok by (simp add: hm_ok_def)
      then show False using None by simp
    qed
    then show ?thesis using None by simp
  next
    case (Some i)
    then have "ms ! i \<in> set ms" "arm_TxHash (ms ! i) = h" using ok by (simp_all add: hm_ok_def)
    then show ?thesis using Some by auto
  qed
qed

lemma hm_ok_add:
  assumes "hm_ok hm ms" and "hm (arc_TxHash r) = None"
  shows "hm_ok (hm(arc_TxHash r \<mapsto> length ms)) (ms @ [start_merged_compact r])"
  using assms hm_ok_None [OF assms(1), of "arc_TxHash r"]
  by (auto simp: hm_ok_def nth_append less_Suc_eq)

lemma hm_ok_update:
  assumes "hm_ok hm ms" and "hm (arc_TxHash r) = Some i"
  shows "hm_ok hm (ms[i := update_merged_compact r (ms ! i)])"
  using assms by (auto simp: hm_ok_def nth_list_update)

lemma map_absorb_None:
  assumes "hm_ok hm ms" and "hm (arc_TxHash r) = None"
  shows "map (absorb (r # rows)) ms = map (absorb rows) ms"
  using hm_ok_None [OF assms(1), of "arc_TxHash r"] assms(2) by (intro map_cong) auto

lemma map_absorb_Some:
  assumes "hm_ok hm ms" and "hm (arc_TxHash r) = Some i"
  shows "map (absorb (r # rows)) ms = map (absorb rows) (ms[i := update_merged_compact r (ms ! i)])"
proof (rule nth_equalityI)
  fix j
  assume j: "j < length (map (absorb (r # rows)) ms)"
  have i: "i < length ms" "arm_TxHash (ms ! i) = arc_TxHash r" using assms by (simp_all add: hm_ok_def)
  have "j \<noteq> i \<Longrightarrow> arc_TxHash r \<noteq> arm_TxHash (ms ! j)"
    using assms j by (auto simp: hm_ok_def) (metis option.inject)
  then show "map (absorb (r # rows)) ms ! j = map (absorb rows) (ms[i := update_merged_compact r (ms ! i)]) ! j"
    using i j by (cases "j = i") (simp_all add: nth_list_update)
qed simp

definition fresh :: "(hash \<rightharpoonup> nat) \<Rightarrow> AddressRowCompact list \<Rightarrow> AddressRowCompact list" where
  "fresh hm rows = filter (\<lambda>x. hm (arc_TxHash x) = None) rows"

lemma fresh_simps [simp]:
  "fresh hm [] = []" "fresh Map.empty rows = rows"
  "fresh hm (r # rows) = (if hm (arc_TxHash r) = None then r # fresh hm rows else fresh hm rows)"
  by (simp_all add: fresh_def)

lemma merge_ref_fresh:
  assumes "hm (arc_TxHash r) = None"
  shows "merge_ref (r # fresh hm rows)
    = absorb rows (start_merged_compact r) # merge_ref (fresh (hm(arc_TxHash r \<mapsto> i)) rows)"
proof -
  have "filter (\<lambda>x. arc_TxHash x \<noteq> arc_TxHash r) (fresh hm rows) = fresh (hm(arc_TxHash r \<mapsto> i)) rows"
    by (auto simp: fresh_def intro: filter_cong)
  moreover have "absorb (fresh hm rows) (start_merged_compact r) = absorb rows (start_merged_compact r)"
    unfolding fresh_def using assms by (intro absorb_filter) simp
  ultimately show ?thesis by (simp only: merge_ref_Cons)
qed

lemma MergeRowsCompact_loop_eq:
  assumes "hm_ok hm ms"
  shows "MergeRowsCompact_loop rows hm ms = map (absorb rows) ms @ merge_ref (fresh hm rows)"
  using assms
proof (induction rows arbitrary: hm ms)
  case Nil
  then show ?case by (simp add: map_idI)
next
  case (Cons r rows)
  show ?case
  proof (cases "hm (arc_TxHash r)")
    case None
    have "MergeRowsCompact_loop (r # rows) hm ms
        = map (absorb rows) (ms @ [start_merged_compact r]) @ merge_ref (fresh (hm(arc_TxHash r \<mapsto> length ms)) rows)"
      using Cons.IH [OF hm_ok_add [OF Cons.prems None]] None by (simp add: fun_upd_def)
    then show ?thesis
      unfolding map_absorb_None [OF Cons.prems None] fresh_simps(3)
      using merge_ref_fresh [of hm r rows "length ms"] None by (simp del: merge_ref.simps)
  next
    case (Some i)
    then show ?thesis
      using Cons.IH [OF hm_ok_update [OF Cons.prems Some]] map_absorb_Some [OF Cons.prems Some]
      by simp
  qed
qed

lemma MergeRowsCompact_eq: "MergeRowsCompact rows = merge_ref rows"
  using MergeRowsCompact_loop_eq [OF hm_ok_empty] by (simp add: MergeRowsCompact_def)

text \<open>The range loop: rows of the wrong direction are as if absent.\<close>

lemma range_loop_filter:
  "MergeRowsCompactRange_loop wrong N offset rows skipped seen hm ms =
   MergeRowsCompactRange_loop (\<lambda>_. False) N offset (filter (\<lambda>r. \<not> wrong (arc_IsFunding r)) rows) skipped seen hm ms"
  by (induction rows arbitrary: skipped seen hm ms) (auto split: option.splits)

lemma range_loop_take:
  assumes "hm_ok hm ms" and "length ms \<le> N" and "offset \<le> skipped"
  shows "MergeRowsCompactRange_loop (\<lambda>_. False) (int N) offset rows skipped seen hm ms =
    map (absorb rows) ms @ take (N - length ms) (merge_ref (fresh hm rows))"
  using assms
proof (induction rows arbitrary: hm ms)
  case Nil
  then show ?case by (simp add: map_idI)
next
  case (Cons r rows)
  show ?case
  proof (cases "hm (arc_TxHash r)")
    case None
    show ?thesis
    proof (cases "length ms = N")
      case True
      then show ?thesis
        using Cons.IH [OF Cons.prems] None Cons.prems(3) map_absorb_None [OF Cons.prems(1) None] by simp
    next
      case False
      then have "N - length ms = Suc (N - Suc (length ms))" using Cons.prems(2) by simp
      moreover have "MergeRowsCompactRange_loop (\<lambda>_. False) (int N) offset (r # rows) skipped seen hm ms
          = map (absorb rows) (ms @ [start_merged_compact r])
            @ take (N - Suc (length ms)) (merge_ref (fresh (hm(arc_TxHash r \<mapsto> length ms)) rows))"
        using Cons.IH [OF hm_ok_add [OF Cons.prems(1) None]] Cons.prems None False by (simp add: fun_upd_def)
      ultimately show ?thesis
        unfolding map_absorb_None [OF Cons.prems(1) None] fresh_simps(3)
        using merge_ref_fresh [of hm r rows "length ms"] None by (simp del: merge_ref.simps)
    qed
  next
    case (Some i)
    then show ?thesis
      using Cons.IH [OF hm_ok_update [OF Cons.prems(1) Some]] Cons.prems map_absorb_Some [OF Cons.prems(1) Some]
      by simp
  qed
qed

text \<open>The rows left once \<open>k\<close> transaction hashes have been counted as skipped.\<close>

fun skip_rows :: "nat \<Rightarrow> hash set \<Rightarrow> AddressRowCompact list \<Rightarrow> AddressRowCompact list" where
  "skip_rows 0 seen rows = rows"
| "skip_rows (Suc k) seen [] = []"
| "skip_rows (Suc k) seen (r # rows) =
     (if arc_TxHash r \<in> seen then skip_rows (Suc k) seen rows
      else skip_rows k (insert (arc_TxHash r) seen) rows)"

lemma range_loop_skip:
  assumes "0 < N" and "skipped \<le> offset"
  shows "MergeRowsCompactRange_loop (\<lambda>_. False) (int N) offset rows skipped seen Map.empty [] =
    take N (merge_ref (skip_rows (nat (offset - skipped)) seen rows))"
  using assms(2)
proof (induction rows arbitrary: skipped seen)
  case Nil
  then show ?case by (cases "nat (offset - skipped)") simp_all
next
  case (Cons r rows)
  show ?case
  proof (cases "skipped = offset")
    case True
    then show ?thesis
      using range_loop_take [OF hm_ok_empty, of N offset skipped "r # rows" seen] by simp
  next
    case False
    then have "nat (offset - skipped) = Suc (nat (offset - (skipped + 1)))" using Cons.prems by linarith
    then show ?thesis using Cons.IH [of "skipped + 1"] Cons.IH [of skipped] Cons.prems False assms(1) by simp
  qed
qed

lemma MergeRowsCompactRange_eq:
  assumes "wrongDirection v = Some wrong" and "0 < N" and "0 \<le> offset"
  shows "MergeRowsCompactRange rows N offset v = Some (take (nat N)
    (merge_ref (skip_rows (nat offset) {} (filter (\<lambda>r. \<not> wrong (arc_IsFunding r)) rows))))"
proof (cases "rows = []")
  case True
  then show ?thesis using assms by (cases "nat offset") (simp_all add: MergeRowsCompactRange_def)
next
  case False
  then show ?thesis
    using assms range_loop_filter [of wrong N offset rows] range_loop_skip [of "nat N" 0 offset _ "{}"]
    by (simp add: MergeRowsCompactRange_def)
qed

section \<open>Hashes and counts of the merged rows\<close>

lemma merge_ref_hashes:
  "distinct (map arm_TxHash (merge_ref rows)) \<and> arm_TxHash ` set (merge_ref rows) = arc_TxHash ` set rows"
proof (induction rows rule: merge_ref.induct)
  case (2 r rs)
  have "arm_TxHash ` set (merge_ref (r # rs))
      = insert (arc_TxHash r) (arc_TxHash ` {x \<in> set rs. arc_TxHash x \<noteq> arc_TxHash r})"
    using 2 by (simp add: merge_ref_Cons del: merge_ref.simps)
  moreover have "\<dots> = arc_TxHash ` set (r # rs)" by auto
  moreover have "arc_TxHash r \<notin> arm_TxHash ` set (merge_ref (filter (\<lambda>x. arc_TxHash x \<noteq> arc_TxHash r) rs))"
    using 2 by auto
  ultimately show ?case using 2 by (simp add: merge_ref_Cons del: merge_ref.simps)
qed simp

lemma length_merge_ref: "length (merge_ref rows) = card (arc_TxHash ` set rows)"
proof -
  have "length (merge_ref rows) = card (set (map arm_TxHash (merge_ref rows)))"
    using merge_ref_hashes [of rows] distinct_card [of "map arm_TxHash (merge_ref rows)"] by simp
  then show ?thesis using merge_ref_hashes [of rows] by simp
qed

lemma CountMergedRowsCompact_loop_eq:
  "finite merged \<Longrightarrow> CountMergedRowsCompact_loop wrong rows merged n
     = n + int (card (arc_TxHash ` set (filter (\<lambda>r. \<not> wrong (arc_IsFunding r)) rows) - merged))"
proof (induction rows arbitrary: merged n)
  case (Cons r rows)
  let ?S = "arc_TxHash ` set (filter (\<lambda>r. \<not> wrong (arc_IsFunding r)) rows)"
  have "card (insert h ?S - merged) = Suc (card (?S - insert h merged))" if "h \<notin> merged" for h
  proof -
    have "insert h ?S - merged = insert h (?S - insert h merged)" using that by auto
    then show ?thesis by (simp add: card_insert_if)
  qed
  moreover have "insert h ?S - merged = ?S - merged" if "h \<in> merged" for h using that by auto
  ultimately show ?case using Cons by auto
qed simp

section \<open>Amounts\<close>

definition var_sum :: "bool \<Rightarrow> AddressRowCompact list \<Rightarrow> 64 word" where
  "var_sum funding rows =
     sum_list (map arc_Value (filter (\<lambda>r. arc_CoinType r = 0 \<and> arc_IsFunding r = funding) rows))"

definition ska_sum :: "bool \<Rightarrow> AddressRowCompact list \<Rightarrow> int" where
  "ska_sum funding rows =
     sum_list (map (\<lambda>r. BigAddSKA 0 (arc_SKAValue r))
       (filter (\<lambda>r. arc_CoinType r \<noteq> 0 \<and> arc_IsFunding r = funding) rows))"

lemma BigAddSKA_acc: "BigAddSKA acc s = acc + BigAddSKA 0 s"
  by (simp add: BigAddSKA_def split: option.splits)

lemma sums_append [simp]:
  "var_sum f (xs @ ys) = var_sum f xs + var_sum f ys" "ska_sum f (xs @ ys) = ska_sum f xs + ska_sum f ys"
  by (simp_all add: var_sum_def ska_sum_def)

definition arm_totals :: "AddressRowCompact list \<Rightarrow> AddressRowMerged \<Rightarrow> bool" where
  "arm_totals rows m \<longleftrightarrow> arm_AtomsCredit m = var_sum True rows \<and> arm_AtomsDebit m = var_sum False rows
     \<and> (case arm_SKAAtomsCredit m of None \<Rightarrow> 0 | Some c \<Rightarrow> c) = ska_sum True rows
     \<and> (case arm_SKAAtomsDebit m of None \<Rightarrow> 0 | Some c \<Rightarrow> c) = ska_sum False rows
     \<and> arm_MergedCount m = of_nat (length rows)"

lemma arm_totals_start: "arm_totals [r] (start_merged_compact r)"
  by (cases "arc_CoinType r = 0"; cases "arc_IsFunding r")
    (simp_all add: arm_totals_def start_merged_compact_def arm_add_def var_sum_def ska_sum_def)

lemma arm_totals_update:
  assumes "arm_totals rows m"
  shows "arm_totals (rows @ [r]) (update_merged_compact r m)"
  using assms
  by (cases "arc_CoinType r = 0"; cases "arc_IsFunding r")
    (simp_all add: arm_totals_def update_merged_compact_def arm_add_def var_sum_def ska_sum_def
      BigAddSKA_acc [of "case _ of None \<Rightarrow> 0 | Some c \<Rightarrow> c"])

lemma arm_totals_foldl:
  "arm_totals pre m \<Longrightarrow> arm_totals (pre @ rows) (foldl (\<lambda>m x. update_merged_compact x m) m rows)"
proof (induction rows arbitrary: pre m)
  case (Cons r rows)
  then show ?case using Cons.IH [OF arm_totals_update [OF Cons.prems, of r]] by simp
qed simp

lemma merge_ref_totals:
  "m \<in> set (merge_ref rows) \<Longrightarrow> arm_totals (filter (\<lambda>r. arc_TxHash r = arm_TxHash m) rows) m"
proof (induction rows rule: merge_ref.induct)
  case (2 r rs)
  show ?case
  proof (cases "m \<in> set (merge_ref (filter (\<lambda>x. arc_TxHash x \<noteq> arc_TxHash r) rs))")
    case True
    then have "arm_TxHash m \<noteq> arc_TxHash r" using merge_ref_hashes [of "filter (\<lambda>x. arc_TxHash x \<noteq> arc_TxHash r) rs"] imageI [OF True, of arm_TxHash] by auto
    then have "filter (\<lambda>x. arc_TxHash x = arm_TxHash m) (r # rs)
        = filter (\<lambda>x. arc_TxHash x = arm_TxHash m) (filter (\<lambda>x. arc_TxHash x \<noteq> arc_TxHash r) rs)"
      by (auto intro: filter_cong)
    then show ?thesis using 2(1) [OF True] by simp
  next
    case False
    then have m: "m = absorb rs (start_merged_compact r)" using 2(2) by (simp add: absorb_def)
    then have "arm_totals ([r] @ filter (\<lambda>x. arc_TxHash x = arc_TxHash r) rs) m"
      unfolding absorb_def merged_hash by (simp only: arm_totals_foldl [OF arm_totals_start])
    then show ?thesis using m by simp
  qed
qed simp

section \<open>Clean cuts\<close>

text \<open>No transaction that the offset skips has a row after the cut.\<close>

definition clean_cut :: "nat \<Rightarrow> AddressRowCompact list \<Rightarrow> bool" where
  "clean_cut k rows \<longleftrightarrow>
     (let rest = skip_rows k {} rows
      in arc_TxHash ` set (take (length rows - length rest) rows) \<inter> arc_TxHash ` set rest = {})"

lemma skip_rows_split:
  assumes "finite seen"
  shows "\<exists>pre. rows = pre @ skip_rows k seen rows
    \<and> (card (arc_TxHash ` set pre - seen) = k \<or> skip_rows k seen rows = [] \<and> card (arc_TxHash ` set pre - seen) \<le> k)"
  using assms
proof (induction k seen rows rule: skip_rows.induct)
  case (3 k seen r rows)
  show ?case
  proof (cases "arc_TxHash r \<in> seen")
    case True
    then obtain pre where pre: "rows = pre @ skip_rows (Suc k) seen rows"
      "card (arc_TxHash ` set pre - seen) = Suc k \<or> skip_rows (Suc k) seen rows = [] \<and> card (arc_TxHash ` set pre - seen) \<le> Suc k"
      using 3 by blast
    moreover have "arc_TxHash ` set (r # pre) - seen = arc_TxHash ` set pre - seen" using True by auto
    ultimately show ?thesis using True by (intro exI [of _ "r # pre"]) simp
  next
    case False
    then obtain pre where pre: "rows = pre @ skip_rows k (insert (arc_TxHash r) seen) rows"
      "card (arc_TxHash ` set pre - insert (arc_TxHash r) seen) = k
       \<or> skip_rows k (insert (arc_TxHash r) seen) rows = [] \<and> card (arc_TxHash ` set pre - insert (arc_TxHash r) seen) \<le> k"
      using 3 by blast
    moreover have "arc_TxHash ` set (r # pre) - seen = insert (arc_TxHash r) (arc_TxHash ` set pre - insert (arc_TxHash r) seen)"
      using False by auto
    ultimately show ?thesis using False by (intro exI [of _ "r # pre"]) (simp add: card_insert_if)
  qed
qed auto

lemma merge_ref_append:
  "arc_TxHash ` set xs \<inter> arc_TxHash ` set ys = {} \<Longrightarrow> merge_ref (xs @ ys) = merge_ref xs @ merge_ref ys"
proof (induction xs rule: merge_ref.induct)
  case (2 r xs)
  have ys: "filter (\<lambda>x. arc_TxHash x = arc_TxHash r) ys = []" "filter (\<lambda>x. arc_TxHash x \<noteq> arc_TxHash r) ys = ys"
    using 2(2) by (auto simp: filter_empty_conv filter_id_conv image_iff)
  have "arc_TxHash ` set (filter (\<lambda>x. arc_TxHash x \<noteq> arc_TxHash r) xs) \<inter> arc_TxHash ` set ys = {}"
    using 2(2) by auto
  then show ?case using 2(1) ys by simp
qed simp

lemma merge_ref_clean_cut:
  assumes "clean_cut k rows"
  shows "merge_ref (skip_rows k {} rows) = drop k (merge_ref rows)"
proof -
  let ?rest = "skip_rows k {} rows"
  obtain pre where pre: "rows = pre @ ?rest"
    "card (arc_TxHash ` set pre) = k \<or> ?rest = [] \<and> card (arc_TxHash ` set pre) \<le> k"
    using skip_rows_split [of "{}" rows k] by auto
  have len: "length rows - length ?rest = length pre" by (subst pre(1)) simp
  have "take (length rows - length ?rest) rows = pre" unfolding len by (subst pre(1)) simp
  then have "arc_TxHash ` set pre \<inter> arc_TxHash ` set ?rest = {}"
    using assms by (simp add: clean_cut_def Let_def)
  then have "merge_ref rows = merge_ref pre @ merge_ref ?rest"
    using merge_ref_append [of pre ?rest] pre(1) by simp
  then show ?thesis using pre(2) length_merge_ref [of pre] by auto
qed

section \<open>The two kinds of input row\<close>

lemma compact_merged [simp]:
  "start_merged_compact (compact_row r) = start_merged r"
  "update_merged_compact (compact_row r) = update_merged r"
  "arc_TxHash (compact_row r) = TxHash r" "arc_IsFunding (compact_row r) = IsFunding r"
  by (simp_all add: start_merged_compact_def update_merged_compact_def start_merged_def
      update_merged_def compact_row_def fun_eq_iff)

lemma CompactRows_simps [simp]:
  "CompactRows [] = []" "CompactRows (r # rows) = compact_row r # CompactRows rows"
  by (simp_all add: CompactRows_def)

lemma MergeRows_loop_eq:
  "MergeRows_loop rows hm ms =
     (if \<exists>r\<in>set rows. MergedCount r \<noteq> 0 then Inl MergedRowInInput
      else Inr (MergeRowsCompact_loop (CompactRows rows) hm ms))"
  by (induction rows arbitrary: hm ms) (auto split: option.splits)

lemma MergeRowsRange_loop_eq:
  "\<forall>r\<in>set rows. MergedCount r = 0 \<Longrightarrow>
   MergeRowsRange_loop wrong N offset rows skipped seen hm ms =
     Inr (MergeRowsCompactRange_loop wrong N offset (CompactRows rows) skipped seen hm ms)"
  by (induction rows arbitrary: skipped seen hm ms) (auto split: option.splits)

section \<open>Properties\<close>

text \<open>Merging plain rows is merging their compact forms. \<open>MergeRows\<close> fails exactly when a row of
  the input is already merged; otherwise it and \<open>MergeRowsRange\<close> return what the compact versions
  return on the compacted rows.\<close>

theorem MergeRows_compact:
  "MergeRows rows =
     (if \<exists>r\<in>set rows. MergedCount r \<noteq> 0 then Inl MergedRowInInput
      else Inr (MergeRowsCompact (CompactRows rows)))
   \<and> ((\<forall>r\<in>set rows. MergedCount r = 0) \<and> 0 \<le> N \<and> 0 \<le> offset \<and> wrongDirection v \<noteq> None \<longrightarrow>
        MergeRowsRange rows N offset v
          = Inr (slice_list (MergeRowsCompactRange (CompactRows rows) N offset v)))"
  by (auto simp: MergeRows_def MergeRows_loop_eq MergeRowsCompact_def MergeRowsRange_def
      MergeRowsCompactRange_def MergeRowsRange_loop_eq CompactRows_def)

theorem MergeRows_compact_witness:
  "MergeRowsRange [example_row 1 True None, example_row 1 False None] 5 0 AddrMergedTxn
     = Inr (slice_list (MergeRowsCompactRange
         (CompactRows [example_row 1 True None, example_row 1 False None]) 5 0 AddrMergedTxn))"
  using MergeRows_compact [of "[example_row 1 True None, example_row 1 False None]" 5 0 AddrMergedTxn]
  by (simp add: example_row_def wrongDirection_def)

text \<open>C28. Merged amounts. Merging yields one row per transaction hash of the input, and in each the
  VAR credit and debit are the 64-bit sums of the credits and debits of the rows with that hash,
  the net SKA amount is the exact sum, and the count is the number of those rows.\<close>

theorem MergeRowsCompact_totals:
  "distinct (map arm_TxHash (MergeRowsCompact rows))
   \<and> arm_TxHash ` set (MergeRowsCompact rows) = arc_TxHash ` set rows
   \<and> (\<forall>m. m \<in> set (MergeRowsCompact rows) \<longrightarrow>
      (let group = filter (\<lambda>r. arc_TxHash r = arm_TxHash m) rows
      in arm_AtomsCredit m = var_sum True group \<and> arm_AtomsDebit m = var_sum False group
         \<and> skaNet m = ska_sum True group - ska_sum False group
         \<and> arm_MergedCount m = of_nat (length group)))"
  using merge_ref_hashes [of rows] merge_ref_totals [of _ rows]
  by (auto simp: MergeRowsCompact_eq Let_def arm_totals_def skaNet_def)

theorem MergeRowsCompact_totals_witness:
  "\<exists>m\<in>set (MergeRowsCompact (CompactRows [example_row 1 True None, example_row 1 True None])).
     arm_AtomsCredit m = 10 \<and> arm_MergedCount m = 2"
proof -
  let ?rows = "CompactRows [example_row 1 True None, example_row 1 True None]"
  have "replicate HashSize 1 \<in> arm_TxHash ` set (MergeRowsCompact ?rows)"
    using MergeRowsCompact_totals [of ?rows] by (simp add: compact_row_def example_row_def)
  then obtain m where m: "m \<in> set (MergeRowsCompact ?rows)" "arm_TxHash m = replicate HashSize 1" by auto
  then have "arm_AtomsCredit m = var_sum True ?rows \<and> arm_MergedCount m = of_nat (length ?rows)"
    using MergeRowsCompact_totals [of ?rows] by (simp add: Let_def compact_row_def example_row_def)
  then show ?thesis using m by (auto simp: var_sum_def compact_row_def example_row_def)
qed

text \<open>The count is right: \<open>CountMergedRowsCompact\<close> returns the number of rows that merging the
  rows of the view's direction yields, and an error for a view that is not merged.\<close>

theorem CountMergedRowsCompact_correct:
  "CountMergedRowsCompact rows v =
     (case wrongDirection v of
        None \<Rightarrow> Inl NonMergedView
      | Some wrong \<Rightarrow>
          Inr (int (length (MergeRowsCompact (filter (\<lambda>r. \<not> wrong (arc_IsFunding r)) rows)))))"
  by (simp add: CountMergedRowsCompact_def CountMergedRowsCompact_loop_eq MergeRowsCompact_eq
      length_merge_ref split: option.split)

text \<open>A page of merged rows. When no skipped transaction has a row after the cut, the page is the
  segment of the merged rows that \<open>N\<close> and \<open>offset\<close> name; for offset zero this always holds.\<close>

theorem MergeRowsCompactRange_page:
  assumes "wrongDirection v = Some wrong" and "0 < N" and "0 \<le> offset"
    and "clean_cut (nat offset) (filter (\<lambda>r. \<not> wrong (arc_IsFunding r)) rows)"
  shows "MergeRowsCompactRange rows N offset v
    = Some (take (nat N) (drop (nat offset)
        (MergeRowsCompact (filter (\<lambda>r. \<not> wrong (arc_IsFunding r)) rows))))"
  using MergeRowsCompactRange_eq [OF assms(1-3)] merge_ref_clean_cut [OF assms(4)]
  by (simp add: MergeRowsCompact_eq)

theorem MergeRowsCompactRange_page_witness:
  "MergeRowsCompactRange (CompactRows [example_row 1 True None, example_row 2 True None, example_row 2 False None])
       5 1 AddrMergedTxn
     = Some (take 5 (drop 1 (MergeRowsCompact
         (CompactRows [example_row 1 True None, example_row 2 True None, example_row 2 False None]))))"
proof -
  let ?rows = "CompactRows [example_row 1 True None, example_row 2 True None, example_row 2 False None]"
  have "wrongDirection AddrMergedTxn = Some (\<lambda>_. False)" by (simp add: wrongDirection_def)
  moreover have "clean_cut (nat 1) (filter (\<lambda>r. \<not> False) ?rows)" by code_simp
  ultimately show ?thesis
    using MergeRowsCompactRange_page [of AddrMergedTxn "\<lambda>_. False" 5 1 ?rows] by simp
qed

text \<open>A skipped transaction comes back. When the last skipped transaction has a second row, that
  row starts a merged row of its own: for two rows of one transaction and offset one, the page
  holds that transaction again, with the second row's amount only, although there is nothing
  after the first merged row.\<close>

theorem MergeRowsCompactRange_repeats_skipped:
  "MergeRowsCompactRange [r, r] 10 1 AddrMergedTxn = Some [start_merged_compact r]
   \<and> drop 1 (MergeRowsCompact [r, r]) = []"
  by (simp add: MergeRowsCompactRange_def wrongDirection_def MergeRowsCompact_eq)

text \<open>Compact rows survive the round trip through plain rows unchanged, and a plain row keeps
  everything but the fields its compact form has no room for and the fraction of the second.\<close>

theorem CompactRows_UncompactRows:
  "CompactRows (slice_list (UncompactRows (Some rows))) = rows
   \<and> slice_list (UncompactRows (Some (CompactRows rows')))
       = map (\<lambda>r. r\<lparr>TxBlockTime := NewTimeDefFromUNIX (UNIX (TxBlockTime r)), VinVoutDbID := 0,
                     MergedCount := 0, AtomsCredit := 0, AtomsDebit := 0\<rparr>) rows'"
  by (auto simp: CompactRows_def UncompactRows_def compact_row_def uncompact_row_def intro!: map_idI)

text \<open>The name of a view decodes to that view.\<close>

theorem AddrTxnViewTypeFromStr_String:
  "AddrTxnViewTypeFromStr (AddrTxnViewType_String v) = v"
  by (cases v) (simp_all add: AddrTxnViewTypeFromStr_def AddrTxnViewType_String_def ToLower_def Let_def)

end
