(* ===== verification/AddressItems.thy ===== *)
theory AddressItems
  imports RowMerge
begin

text \<open>
  The address cache (\<open>db/cache/addresscache.go\<close>): the page functions on compact and merged rows,
  the cached item of an address, and the store with its capacities, purging and hit counters. The
  Go map from addresses to items is an association list with distinct keys. Go leaves the order of
  a \<open>range\<close> over a map open, so \<open>iter\<close>, which orders the keys, is an argument of every operation
  that purges. An item taken from the map and then purged is written after it has left the map, as
  in the code, so such a write is lost. Charts data are only stored and returned here: \<open>'cd\<close>.
\<close>

section \<open>Page functions\<close>

fun CountCreditDebitRowsCompact :: "AddressRowCompact list \<Rightarrow> int \<times> int" where
  "CountCreditDebitRowsCompact [] = (0, 0)"
| "CountCreditDebitRowsCompact (r # rs) =
     (let (numCredit, numDebit) = CountCreditDebitRowsCompact rs
      in if arc_IsFunding r then (numCredit + 1, numDebit) else (numCredit, numDebit + 1))"

fun CountUnspentCreditRowsCompact :: "AddressRowCompact list \<Rightarrow> int" where
  "CountUnspentCreditRowsCompact [] = 0"
| "CountUnspentCreditRowsCompact (r # rs) =
     (let numCredit = CountUnspentCreditRowsCompact rs
      in if arc_IsFunding r \<and> IsZero (arc_MatchingTxHash r) then numCredit + 1 else numCredit)"

fun CountCreditDebitRowsMerged :: "AddressRowMerged list \<Rightarrow> int \<times> int" where
  "CountCreditDebitRowsMerged [] = (0, 0)"
| "CountCreditDebitRowsMerged (r # rs) =
     (let (numCredit, numDebit) = CountCreditDebitRowsMerged rs
      in if arm_IsFunding r then (numCredit + 1, numDebit) else (numCredit, numDebit + 1))"

definition addressRows :: "AddressRowCompact slice \<Rightarrow> int \<Rightarrow> int \<Rightarrow> AddressRowCompact slice" where
  "addressRows rows N offset =
     (case rows of
        None \<Rightarrow> None
      | Some rs \<Rightarrow>
          if offset \<ge> int (length rs) then Some []
          else
            let e = (if offset + N > int (length rs) then int (length rs) else offset + N)
            in if offset < e then Some (take (nat (e - offset)) (drop (nat offset) rs)) else Some [])"

definition creditAddressRows :: "AddressRowCompact slice \<Rightarrow> int \<Rightarrow> int \<Rightarrow> AddressRowCompact slice" where
  "creditAddressRows rows N offset =
     (case rows of
        None \<Rightarrow> None
      | Some rs \<Rightarrow>
          if offset \<ge> int (length rs) then Some []
          else
            let numCreditRows = fst (CountCreditDebitRowsCompact rs);
                N = (if numCreditRows < N then numCreditRows else N)
            in if offset \<ge> numCreditRows then None
               else Some (page_loop (\<lambda>row. \<not> arc_IsFunding row) N offset rs 0 []))"

definition creditAddressRowsMerged :: "AddressRowMerged slice \<Rightarrow> int \<Rightarrow> int \<Rightarrow> AddressRowMerged slice" where
  "creditAddressRowsMerged rows N offset =
     (case rows of
        None \<Rightarrow> None
      | Some rs \<Rightarrow>
          if offset \<ge> int (length rs) then Some []
          else
            let numCreditRows = fst (CountCreditDebitRowsMerged rs);
                N = (if numCreditRows < N then numCreditRows else N)
            in if offset \<ge> numCreditRows then None
               else Some (page_loop (\<lambda>row. \<not> arm_IsFunding row) N offset rs 0 []))"

definition debitAddressRows :: "AddressRowCompact slice \<Rightarrow> int \<Rightarrow> int \<Rightarrow> AddressRowCompact slice" where
  "debitAddressRows rows N offset =
     (case rows of
        None \<Rightarrow> None
      | Some rs \<Rightarrow>
          if offset \<ge> int (length rs) then Some []
          else
            let numDebitRows = snd (CountCreditDebitRowsCompact rs);
                N = (if numDebitRows < N then numDebitRows else N)
            in Some (page_loop arc_IsFunding N offset rs 0 []))"

definition debitAddressRowsMerged :: "AddressRowMerged slice \<Rightarrow> int \<Rightarrow> int \<Rightarrow> AddressRowMerged slice" where
  "debitAddressRowsMerged rows N offset =
     (case rows of
        None \<Rightarrow> None
      | Some rs \<Rightarrow>
          if offset \<ge> int (length rs) then Some []
          else
            let numDebitRows = snd (CountCreditDebitRowsMerged rs);
                N = (if numDebitRows < N then numDebitRows else N)
            in Some (page_loop arm_IsFunding N offset rs 0 []))"

definition unspentCreditAddressRows :: "AddressRowCompact slice \<Rightarrow> int \<Rightarrow> int \<Rightarrow> AddressRowCompact slice" where
  "unspentCreditAddressRows rows N offset =
     (case rows of
        None \<Rightarrow> None
      | Some rs \<Rightarrow>
          if offset \<ge> int (length rs) then Some []
          else
            let numUnspentCreditRows = CountUnspentCreditRowsCompact rs;
                N = (if numUnspentCreditRows < N then numUnspentCreditRows else N)
            in if offset \<ge> numUnspentCreditRows then None
               else Some (page_loop (\<lambda>row. \<not> arc_IsFunding row \<or> \<not> IsZero (arc_MatchingTxHash row))
                            N offset rs 0 []))"

text \<open>\<open>interface{}\<close> values that hold rows.\<close>

datatype any_rows = CompactSlice "AddressRowCompact slice" | MergedSlice "AddressRowMerged slice" | NilRows

definition CreditAddressRows :: "any_rows \<Rightarrow> int \<Rightarrow> int \<Rightarrow> any_rows" where
  "CreditAddressRows rows N offset =
     (case rows of
        CompactSlice r \<Rightarrow> CompactSlice (creditAddressRows r N offset)
      | MergedSlice r \<Rightarrow> MergedSlice (creditAddressRowsMerged r N offset)
      | NilRows \<Rightarrow> NilRows)"

definition DebitAddressRows :: "any_rows \<Rightarrow> int \<Rightarrow> int \<Rightarrow> any_rows" where
  "DebitAddressRows rows N offset =
     (case rows of
        CompactSlice r \<Rightarrow> CompactSlice (debitAddressRows r N offset)
      | MergedSlice r \<Rightarrow> MergedSlice (debitAddressRowsMerged r N offset)
      | NilRows \<Rightarrow> NilRows)"

definition AllCreditAddressRows :: "AddressRow list \<Rightarrow> AddressRow list" where
  "AllCreditAddressRows rows =
     (if fst (CountCreditDebitRows rows) = 0 then [] else filter IsFunding rows)"

definition AllDebitAddressRows :: "AddressRow list \<Rightarrow> AddressRow list" where
  "AllDebitAddressRows rows =
     (if snd (CountCreditDebitRows rows) = 0 then [] else filter (\<lambda>r. \<not> IsFunding r) rows)"

section \<open>Items\<close>

record CoinBalance =
  cb_CoinType :: byte
  NumSpent :: int
  NumUnspent :: int
  TotalSpent :: int
  TotalUnspent :: int
  TotalSpentSKA :: string
  TotalUnspentSKA :: string
  TotalReceived :: int
  TotalReceivedSKA :: string

record AddressBalance =
  ab_Address :: string
  Coins :: "byte \<rightharpoonup> CoinBalance"
  TotalOutputs :: int
  TotalInputs :: int

record AddressTxnOutput =
  ato_Address :: string
  PkScript :: "byte list"
  ato_TxHash :: hash
  Vout :: nat
  ato_Height :: int
  BlockTime :: int
  Atoms :: int

record BlockID =
  bid_Hash :: hash
  bid_Height :: int

definition NumIntervals :: nat where
  "NumIntervals = 5"

record 'cd TxHistory =
  TypeByInterval :: "nat \<Rightarrow> byte \<rightharpoonup> 'cd"
  AmtFlowByInterval :: "nat \<Rightarrow> byte \<rightharpoonup> 'cd"

definition NewTxHistory :: "'cd TxHistory" where
  "NewTxHistory = \<lparr>TypeByInterval = \<lambda>_. Map.empty, AmtFlowByInterval = \<lambda>_. Map.empty\<rparr>"

definition TxHistory_Clear :: "'cd TxHistory \<Rightarrow> 'cd TxHistory" where
  "TxHistory_Clear th = th\<lparr>TypeByInterval := \<lambda>i. if i < NumIntervals then Map.empty else TypeByInterval th i,
     AmtFlowByInterval := \<lambda>i. if i < NumIntervals then Map.empty else AmtFlowByInterval th i\<rparr>"

record 'cd AddressCacheItem =
  balance :: "AddressBalance option"
  item_rows :: "AddressRowCompact slice"
  utxos :: "AddressTxnOutput slice"
  history :: "'cd TxHistory"
  item_height :: int
  item_hash :: hash

datatype HistoryChart = TxsType | AmountFlow | OtherChart

definition NewItem :: "BlockID \<Rightarrow> 'cd AddressCacheItem" where
  "NewItem b = \<lparr>balance = None, item_rows = None, utxos = None, history = NewTxHistory,
     item_height = bid_Height b, item_hash = bid_Hash b\<rparr>"

definition item_blockID :: "'cd AddressCacheItem \<Rightarrow> BlockID" where
  "item_blockID d = \<lparr>bid_Hash = item_hash d, bid_Height = item_height d\<rparr>"

definition item_Balance :: "'cd AddressCacheItem \<Rightarrow> AddressBalance option \<times> BlockID option" where
  "item_Balance d = (if balance d = None then (None, None) else (balance d, Some (item_blockID d)))"

definition item_UTXOs :: "'cd AddressCacheItem \<Rightarrow> AddressTxnOutput slice \<times> BlockID option" where
  "item_UTXOs d = (if utxos d = None then (None, None) else (utxos d, Some (item_blockID d)))"

definition item_HistoryChart ::
  "HistoryChart \<Rightarrow> nat \<Rightarrow> byte \<Rightarrow> 'cd AddressCacheItem \<Rightarrow> 'cd option \<times> BlockID option" where
  "item_HistoryChart addrChart chartGrouping coinType d =
     (if chartGrouping \<ge> NumIntervals then (None, None)
      else
        let cd = (case addrChart of
                    TxsType \<Rightarrow> TypeByInterval (history d) chartGrouping coinType
                  | AmountFlow \<Rightarrow> AmtFlowByInterval (history d) chartGrouping coinType
                  | OtherChart \<Rightarrow> None)
        in case cd of None \<Rightarrow> (None, None) | Some c \<Rightarrow> (Some c, Some (item_blockID d)))"

definition item_Rows :: "'cd AddressCacheItem \<Rightarrow> AddressRowCompact slice \<times> BlockID option" where
  "item_Rows d = (if item_rows d = None then (None, None) else (item_rows d, Some (item_blockID d)))"

definition item_NumRows :: "'cd AddressCacheItem \<Rightarrow> int \<times> BlockID option" where
  "item_NumRows d =
     (case item_rows d of
        None \<Rightarrow> (-1, None) | Some rs \<Rightarrow> (int (length rs), Some (item_blockID d)))"

datatype cache_error =
    InvalidOffsetN int int | UninitializedItem | InvalidView AddrTxnViewType | WrongRowType

definition item_Transactions ::
  "int \<Rightarrow> int \<Rightarrow> AddrTxnViewType \<Rightarrow> 'cd AddressCacheItem option
     \<Rightarrow> cache_error + any_rows \<times> BlockID option" where
  "item_Transactions N offset txnView item =
     (if offset < 0 \<or> N < 0 then Inl (InvalidOffsetN offset N)
      else case item of None \<Rightarrow> Inl UninitializedItem | Some d \<Rightarrow>
        (case view_IsMerged txnView of Inl _ \<Rightarrow> Inl (InvalidView txnView) | Inr merged \<Rightarrow>
          (case item_rows d of
             None \<Rightarrow> Inr (if merged then MergedSlice None else CompactSlice None, None)
           | Some rs \<Rightarrow>
               let filteredRows = filter arc_ValidMainChain rs;
                   blockID = Some (item_blockID d);
                   numRows = int (length filteredRows)
               in if N = 0 \<or> numRows = 0 \<or> offset \<ge> numRows
                  then Inr (if merged then MergedSlice (Some []) else CompactSlice (Some []), blockID)
                  else
                    (case txnView of
                       AddrTxnAll \<Rightarrow> Inr (CompactSlice (addressRows (Some filteredRows) N offset), blockID)
                     | AddrTxnCredit \<Rightarrow> Inr (CompactSlice (creditAddressRows (Some filteredRows) N offset), blockID)
                     | AddrTxnDebit \<Rightarrow> Inr (CompactSlice (debitAddressRows (Some filteredRows) N offset), blockID)
                     | AddrUnspentTxn \<Rightarrow>
                         Inr (CompactSlice (unspentCreditAddressRows (Some filteredRows) N offset), blockID)
                     | AddrTxnUnknown \<Rightarrow> Inl (InvalidView txnView)
                     | _ \<Rightarrow> Inr (MergedSlice (MergeRowsCompactRange filteredRows N offset txnView), blockID)))))"

definition setBlock :: "BlockID \<Rightarrow> 'cd AddressCacheItem \<Rightarrow> 'cd AddressCacheItem" where
  "setBlock b d =
     (if bid_Hash b = item_hash d then d
      else d\<lparr>item_hash := bid_Hash b, item_height := bid_Height b, utxos := None,
             history := TxHistory_Clear (history d), balance := None, item_rows := None\<rparr>)"

definition SetRows :: "BlockID \<Rightarrow> AddressRowCompact slice \<Rightarrow> 'cd AddressCacheItem \<Rightarrow> 'cd AddressCacheItem" where
  "SetRows b rs d = (setBlock b d)\<lparr>item_rows := rs\<rparr>"

definition SetUTXOs :: "BlockID \<Rightarrow> AddressTxnOutput slice \<Rightarrow> 'cd AddressCacheItem \<Rightarrow> 'cd AddressCacheItem" where
  "SetUTXOs b us d = (setBlock b d)\<lparr>utxos := us\<rparr>"

definition SetBalance :: "BlockID \<Rightarrow> AddressBalance option \<Rightarrow> 'cd AddressCacheItem \<Rightarrow> 'cd AddressCacheItem" where
  "SetBalance b bal d = (setBlock b d)\<lparr>balance := bal\<rparr>"

section \<open>The views of a cached item\<close>

lemma CountCreditDebitRowsCompact_eq:
  "CountCreditDebitRowsCompact rows =
     (int (length (filter arc_IsFunding rows)), int (length (filter (\<lambda>r. \<not> arc_IsFunding r) rows)))"
  by (induction rows) auto

lemma CountUnspentCreditRowsCompact_eq:
  "CountUnspentCreditRowsCompact rows =
     int (length (filter (\<lambda>r. arc_IsFunding r \<and> IsZero (arc_MatchingTxHash r)) rows))"
  by (induction rows) auto

lemma CountCreditDebitRowsMerged_eq:
  "CountCreditDebitRowsMerged rows =
     (int (length (filter arm_IsFunding rows)), int (length (filter (\<lambda>r. \<not> arm_IsFunding r) rows)))"
  by (induction rows) auto

text \<open>The debit functions have no early return; the loop then runs to the end of the rows.\<close>

lemma page_loop_unbounded:
  assumes "N \<le> int (length out)" and "skipped \<le> offset"
  shows "page_loop drop_row N offset rows skipped out =
    out @ drop (nat (offset - skipped)) (filter (\<lambda>r. \<not> drop_row r) rows)"
  using assms
proof (induction rows arbitrary: skipped out)
  case (Cons r rows)
  show ?case
  proof (cases "skipped < offset \<and> \<not> drop_row r")
    case True
    then have "nat (offset - skipped) = Suc (nat (offset - (skipped + 1)))" by linarith
    then show ?thesis using Cons True by simp
  next
    case False
    then show ?thesis using Cons by (auto simp: Let_def)
  qed
qed simp

lemma debit_page:
  assumes "0 < N" and "0 \<le> offset" and "cnt = int (length (filter (\<lambda>r. \<not> drop_row r) rows))"
  shows "page_loop drop_row (if cnt < N then cnt else N) offset rows 0 [] =
    take (nat N) (drop (nat offset) (filter (\<lambda>r. \<not> drop_row r) rows))"
proof (cases "cnt = 0")
  case True
  then show ?thesis using assms page_loop_unbounded [of 0 "[]" 0 offset drop_row rows] by simp
next
  case False
  then have "0 < (if cnt < N then cnt else N)" using assms by simp
  then show ?thesis
    using assms(2,3) page_loop_eq [of 0 offset "[]" "if cnt < N then cnt else N" drop_row rows] by simp
qed

interpretation compact_all: paged_view "\<lambda>_. True" "\<lambda>rows N offset. slice_list (addressRows (Some rows) N offset)"
  by unfold_locales (auto simp: addressRows_def Let_def)

interpretation compact_credit: paged_view arc_IsFunding
  "\<lambda>rows N offset. slice_list (creditAddressRows (Some rows) N offset)"
proof
  fix N offset :: int and rows
  assume "0 < N" "0 \<le> offset"
  then show "slice_list (creditAddressRows (Some rows) N offset)
      = take (nat N) (drop (nat offset) (filter arc_IsFunding rows))"
    using clipped_page [of N offset _ "\<lambda>r. \<not> arc_IsFunding r" rows]
    by (simp add: creditAddressRows_def CountCreditDebitRowsCompact_eq Let_def filter_length_le)
qed

interpretation compact_debit: paged_view "\<lambda>r. \<not> arc_IsFunding r"
  "\<lambda>rows N offset. slice_list (debitAddressRows (Some rows) N offset)"
proof
  fix N offset :: int and rows
  assume "0 < N" "0 \<le> offset"
  then show "slice_list (debitAddressRows (Some rows) N offset)
      = take (nat N) (drop (nat offset) (filter (\<lambda>r. \<not> arc_IsFunding r) rows))"
    using debit_page [of N offset _ arc_IsFunding rows]
    by (simp add: debitAddressRows_def CountCreditDebitRowsCompact_eq Let_def filter_length_le)
qed

interpretation compact_unspent: paged_view "\<lambda>r. arc_IsFunding r \<and> IsZero (arc_MatchingTxHash r)"
  "\<lambda>rows N offset. slice_list (unspentCreditAddressRows (Some rows) N offset)"
proof
  fix N offset :: int and rows
  assume "0 < N" "0 \<le> offset"
  then show "slice_list (unspentCreditAddressRows (Some rows) N offset)
      = take (nat N) (drop (nat offset) (filter (\<lambda>r. arc_IsFunding r \<and> IsZero (arc_MatchingTxHash r)) rows))"
    using clipped_page [of N offset _ "\<lambda>r. \<not> arc_IsFunding r \<or> \<not> IsZero (arc_MatchingTxHash r)" rows]
    by (simp add: unspentCreditAddressRows_def CountUnspentCreditRowsCompact_eq Let_def filter_length_le)
qed

interpretation merged_credit: paged_view arm_IsFunding
  "\<lambda>rows N offset. slice_list (creditAddressRowsMerged (Some rows) N offset)"
proof
  fix N offset :: int and rows
  assume "0 < N" "0 \<le> offset"
  then show "slice_list (creditAddressRowsMerged (Some rows) N offset)
      = take (nat N) (drop (nat offset) (filter arm_IsFunding rows))"
    using clipped_page [of N offset _ "\<lambda>r. \<not> arm_IsFunding r" rows]
    by (simp add: creditAddressRowsMerged_def CountCreditDebitRowsMerged_eq Let_def filter_length_le)
qed

interpretation merged_debit: paged_view "\<lambda>r. \<not> arm_IsFunding r"
  "\<lambda>rows N offset. slice_list (debitAddressRowsMerged (Some rows) N offset)"
proof
  fix N offset :: int and rows
  assume "0 < N" "0 \<le> offset"
  then show "slice_list (debitAddressRowsMerged (Some rows) N offset)
      = take (nat N) (drop (nat offset) (filter (\<lambda>r. \<not> arm_IsFunding r) rows))"
    using debit_page [of N offset _ arm_IsFunding rows]
    by (simp add: debitAddressRowsMerged_def CountCreditDebitRowsMerged_eq Let_def filter_length_le)
qed

definition arc_in_view :: "AddrTxnViewType \<Rightarrow> AddressRowCompact \<Rightarrow> bool" where
  "arc_in_view v r \<longleftrightarrow> arc_ValidMainChain r
     \<and> (case v of
          AddrTxnCredit \<Rightarrow> arc_IsFunding r
        | AddrTxnDebit \<Rightarrow> \<not> arc_IsFunding r
        | AddrUnspentTxn \<Rightarrow> arc_IsFunding r \<and> IsZero (arc_MatchingTxHash r)
        | _ \<Rightarrow> True)"

text \<open>The rows of a page of a plain view, as a function of the page.\<close>

definition item_page :: "AddrTxnViewType \<Rightarrow> 'cd AddressCacheItem \<Rightarrow> int \<Rightarrow> int \<Rightarrow> AddressRowCompact list" where
  "item_page v d N offset =
     (case item_Transactions N offset v (Some d) of
        Inr (CompactSlice s, _) \<Rightarrow> slice_list s
      | _ \<Rightarrow> [])"

lemma filter_arc_in_view:
  "filter (arc_in_view v) rows =
     filter (\<lambda>r. case v of AddrTxnCredit \<Rightarrow> arc_IsFunding r | AddrTxnDebit \<Rightarrow> \<not> arc_IsFunding r
                 | AddrUnspentTxn \<Rightarrow> arc_IsFunding r \<and> IsZero (arc_MatchingTxHash r) | _ \<Rightarrow> True)
       (filter arc_ValidMainChain rows)"
  by (auto simp: arc_in_view_def intro: filter_cong)

lemma item_page_eq:
  assumes "v \<in> {AddrTxnAll, AddrTxnCredit, AddrTxnDebit, AddrUnspentTxn}" and "0 < N" and "0 \<le> offset"
    and "item_rows d = Some rows"
  shows "item_page v d N offset = take (nat N) (drop (nat offset) (filter (arc_in_view v) rows))"
proof -
  consider "v = AddrTxnAll" | "v = AddrTxnCredit" | "v = AddrTxnDebit" | "v = AddrUnspentTxn"
    using assms(1) by blast
  then show ?thesis
    unfolding filter_arc_in_view item_page_def item_Transactions_def
    by cases
      (use assms(2-4) compact_all.page_eq [of N offset "filter arc_ValidMainChain rows"]
        compact_credit.page_eq [of N offset "filter arc_ValidMainChain rows"]
        compact_debit.page_eq [of N offset "filter arc_ValidMainChain rows"]
        compact_unspent.page_eq [of N offset "filter arc_ValidMainChain rows"]
        filter_length_le [of "filter arc_ValidMainChain rows" offset]
       in \<open>auto simp: view_IsMerged_def Let_def simp del: filter_filter\<close>)
qed

lemma item_paged_view:
  assumes "v \<in> {AddrTxnAll, AddrTxnCredit, AddrTxnDebit, AddrUnspentTxn}"
  shows "paged_view (arc_in_view v) (\<lambda>rows. item_page v (d\<lparr>item_rows := Some rows\<rparr>))"
  by unfold_locales (simp add: item_page_eq [OF assms])

text \<open>C31. Paging through a cached address. For each plain view, walking a cached item page by page
  returns every valid main-chain row of the view exactly once and in order, whatever the page
  size.\<close>

theorem Transactions_pages_complete:
  assumes "v \<in> {AddrTxnAll, AddrTxnCredit, AddrTxnDebit, AddrUnspentTxn}" and "item_rows d = Some rows"
    and "0 < n" and "length rows \<le> m * n"
  shows "concat (map (\<lambda>k. item_page v d (int n) (int (k * n))) [0..<m]) = filter (arc_in_view v) rows"
proof -
  have "length (filter (arc_in_view v) rows) \<le> m * n"
    using length_filter_le [of "arc_in_view v" rows] assms(4) by linarith
  moreover have "d\<lparr>item_rows := Some rows\<rparr> = d" using assms(2) by simp
  ultimately show ?thesis
    using paged_view.pages_complete [OF item_paged_view [OF assms(1)] assms(3), of rows m d] by simp
qed

definition example_item :: "unit AddressCacheItem" where
  "example_item = (NewItem \<lparr>bid_Hash = zeroHash, bid_Height = 7\<rparr>)\<lparr>item_rows :=
     Some (CompactRows [example_row 1 True None, example_row 2 False None, example_row 3 True (Some zeroHash)])\<rparr>"

theorem Transactions_pages_complete_witness:
  "concat (map (\<lambda>k. item_page AddrUnspentTxn example_item 1 (int k)) [0..<3])
     = CompactRows [example_row 1 True None, example_row 3 True (Some zeroHash)]"
proof -
  let ?rows = "CompactRows [example_row 1 True None, example_row 2 False None, example_row 3 True (Some zeroHash)]"
  have "filter (arc_in_view AddrUnspentTxn) ?rows = CompactRows [example_row 1 True None, example_row 3 True (Some zeroHash)]"
    by (simp add: arc_in_view_def compact_row_def example_row_def IsZero_def)
  then show ?thesis
    using Transactions_pages_complete [of AddrUnspentTxn example_item ?rows 1 3]
    by (simp add: example_item_def)
qed

end
