(* ===== verification/AddressStore.thy ===== *)
theory AddressStore
  imports AddressItems
begin

text \<open>
  The store of \<open>db/cache/addresscache.go\<close>: \<open>AddressCache\<close> with its purging, its counters and all
  its operations, and the try-lock \<open>CacheLock\<close>. The loops of \<open>purgeRowsToFit\<close> are written with
  fuel, one more than the number of cached addresses; running out of fuel is \<open>None\<close>, and
  \<open>purgeRowsToFit_total\<close> shows that it does not happen when \<open>iter\<close> returns the keys of the map.
\<close>

section \<open>State\<close>

record cacheCounts =
  cc_hits :: nat
  cc_misses :: nat

record cacheMetrics =
  rowMetrics :: cacheCounts
  utxoMetrics :: cacheCounts
  balanceMetrics :: cacheCounts
  historyMetrics :: cacheCounts

definition count_hit :: "cacheCounts \<Rightarrow> cacheCounts" where
  "count_hit c = c\<lparr>cc_hits := cc_hits c + 1\<rparr>"

definition count_miss :: "cacheCounts \<Rightarrow> cacheCounts" where
  "count_miss c = c\<lparr>cc_misses := cc_misses c + 1\<rparr>"

type_synonym 'cd item_map = "(string \<times> 'cd AddressCacheItem) list"

record 'cd AddressCache =
  cache_a :: "'cd item_map"
  cap :: int
  capAddr :: int
  maxUTXOsPerAddr :: int
  metrics :: cacheMetrics

definition approxTxnOutSize :: int where
  "approxTxnOutSize = 180"

definition NewAddressCache :: "int \<Rightarrow> int \<Rightarrow> int \<Rightarrow> 'cd AddressCache" where
  "NewAddressCache rowCapacity addressCapacity utxoCapacityBytes =
     (let z = \<lparr>cc_hits = 0, cc_misses = 0\<rparr>
      in \<lparr>cache_a = [], cap = rowCapacity, capAddr = addressCapacity,
          maxUTXOsPerAddr =
            (if addressCapacity > 0 then go_div (go_div utxoCapacityBytes approxTxnOutSize) addressCapacity
             else 0),
          metrics = \<lparr>rowMetrics = z, utxoMetrics = z, balanceMetrics = z, historyMetrics = z\<rparr>\<rparr>)"

definition rowHit :: "'cd AddressCache \<Rightarrow> 'cd AddressCache" where
  "rowHit c = c\<lparr>metrics := (metrics c)\<lparr>rowMetrics := count_hit (rowMetrics (metrics c))\<rparr>\<rparr>"

definition rowMiss :: "'cd AddressCache \<Rightarrow> 'cd AddressCache" where
  "rowMiss c = c\<lparr>metrics := (metrics c)\<lparr>rowMetrics := count_miss (rowMetrics (metrics c))\<rparr>\<rparr>"

definition utxoHit :: "'cd AddressCache \<Rightarrow> 'cd AddressCache" where
  "utxoHit c = c\<lparr>metrics := (metrics c)\<lparr>utxoMetrics := count_hit (utxoMetrics (metrics c))\<rparr>\<rparr>"

definition utxoMiss :: "'cd AddressCache \<Rightarrow> 'cd AddressCache" where
  "utxoMiss c = c\<lparr>metrics := (metrics c)\<lparr>utxoMetrics := count_miss (utxoMetrics (metrics c))\<rparr>\<rparr>"

definition balanceHit :: "'cd AddressCache \<Rightarrow> 'cd AddressCache" where
  "balanceHit c = c\<lparr>metrics := (metrics c)\<lparr>balanceMetrics := count_hit (balanceMetrics (metrics c))\<rparr>\<rparr>"

definition balanceMiss :: "'cd AddressCache \<Rightarrow> 'cd AddressCache" where
  "balanceMiss c = c\<lparr>metrics := (metrics c)\<lparr>balanceMetrics := count_miss (balanceMetrics (metrics c))\<rparr>\<rparr>"

definition historyHit :: "'cd AddressCache \<Rightarrow> 'cd AddressCache" where
  "historyHit c = c\<lparr>metrics := (metrics c)\<lparr>historyMetrics := count_hit (historyMetrics (metrics c))\<rparr>\<rparr>"

definition historyMiss :: "'cd AddressCache \<Rightarrow> 'cd AddressCache" where
  "historyMiss c = c\<lparr>metrics := (metrics c)\<lparr>historyMetrics := count_miss (historyMetrics (metrics c))\<rparr>\<rparr>"

lemmas metric_defs = rowHit_def rowMiss_def utxoHit_def utxoMiss_def balanceHit_def balanceMiss_def
  historyHit_def historyMiss_def

section \<open>Lookups\<close>

definition addressCacheItem :: "string \<Rightarrow> 'cd AddressCache \<Rightarrow> 'cd AddressCacheItem option" where
  "addressCacheItem addr c = map_of (cache_a c) addr"

definition cache_Balance ::
  "string \<Rightarrow> 'cd AddressCache \<Rightarrow> 'cd AddressCache \<times> AddressBalance option \<times> BlockID option" where
  "cache_Balance addr c =
     (case addressCacheItem addr c of
        None \<Rightarrow> (balanceMiss c, None, None)
      | Some aci \<Rightarrow> (balanceHit c, item_Balance aci))"

definition cache_UTXOs ::
  "string \<Rightarrow> 'cd AddressCache \<Rightarrow> 'cd AddressCache \<times> AddressTxnOutput slice \<times> BlockID option" where
  "cache_UTXOs addr c =
     (case addressCacheItem addr c of
        None \<Rightarrow> (utxoMiss c, None, None)
      | Some aci \<Rightarrow> (utxoHit c, item_UTXOs aci))"

definition cache_HistoryChart ::
  "string \<Rightarrow> HistoryChart \<Rightarrow> nat \<Rightarrow> byte \<Rightarrow> 'cd AddressCache
     \<Rightarrow> 'cd AddressCache \<times> 'cd option \<times> BlockID option" where
  "cache_HistoryChart addr addrChart chartGrouping coinType c =
     (case addressCacheItem addr c of
        None \<Rightarrow> (historyMiss c, None, None)
      | Some aci \<Rightarrow>
          (case item_HistoryChart addrChart chartGrouping coinType aci of
             (Some cd, Some blockID) \<Rightarrow> (historyHit c, Some cd, Some blockID)
           | _ \<Rightarrow> (historyMiss c, None, None)))"

definition CoinTypeAll :: byte where
  "CoinTypeAll = 255"

text \<open>An append loop that appends nothing leaves the nil slice it started with.\<close>

definition appended :: "'r list \<Rightarrow> 'r slice" where
  "appended rs = (if rs = [] then None else Some rs)"

definition cache_Rows ::
  "string \<Rightarrow> byte \<Rightarrow> 'cd AddressCache \<Rightarrow> 'cd AddressCache \<times> AddressRowCompact slice \<times> BlockID option" where
  "cache_Rows addr coinType c =
     (case addressCacheItem addr c of
        None \<Rightarrow> (rowMiss c, None, None)
      | Some aci \<Rightarrow>
          (case fst (item_Rows aci) of
             None \<Rightarrow> (rowMiss c, None, None)
           | Some rows \<Rightarrow>
               if coinType = CoinTypeAll then (rowHit c, Some rows, Some (item_blockID aci))
               else (rowHit c, appended (filter (\<lambda>r. arc_CoinType r = coinType) rows),
                     Some (item_blockID aci))))"

definition cache_NumRows :: "string \<Rightarrow> 'cd AddressCache \<Rightarrow> int \<times> BlockID option" where
  "cache_NumRows addr c =
     (case addressCacheItem addr c of None \<Rightarrow> (-1, None) | Some aci \<Rightarrow> item_NumRows aci)"

definition TransactionsMerged ::
  "string \<Rightarrow> int \<Rightarrow> int \<Rightarrow> AddrTxnViewType \<Rightarrow> 'cd AddressCache
     \<Rightarrow> 'cd AddressCache \<times> (cache_error + AddressRowMerged slice \<times> BlockID option)" where
  "TransactionsMerged addr N offset txnType c =
     (case addressCacheItem addr c of
        None \<Rightarrow> (rowMiss c, Inr (None, None))
      | Some aci \<Rightarrow>
          (rowHit c,
           (case item_Transactions N offset txnType (Some aci) of
              Inl e \<Rightarrow> Inl e
            | Inr (MergedSlice r, blockID) \<Rightarrow> Inr (r, blockID)
            | Inr _ \<Rightarrow> Inl WrongRowType)))"

definition TransactionsCompact ::
  "string \<Rightarrow> int \<Rightarrow> int \<Rightarrow> AddrTxnViewType \<Rightarrow> 'cd AddressCache
     \<Rightarrow> 'cd AddressCache \<times> (cache_error + AddressRowCompact slice \<times> BlockID option)" where
  "TransactionsCompact addr N offset txnType c =
     (case addressCacheItem addr c of
        None \<Rightarrow> (rowMiss c, Inr (None, None))
      | Some aci \<Rightarrow>
          (rowHit c,
           (case item_Transactions N offset txnType (Some aci) of
              Inl e \<Rightarrow> Inl e
            | Inr (CompactSlice r, blockID) \<Rightarrow> Inr (r, blockID)
            | Inr _ \<Rightarrow> Inl WrongRowType)))"

definition cache_Transactions ::
  "string \<Rightarrow> int \<Rightarrow> int \<Rightarrow> AddrTxnViewType \<Rightarrow> 'cd AddressCache
     \<Rightarrow> 'cd AddressCache \<times> (cache_error + AddressRow slice \<times> BlockID option)" where
  "cache_Transactions addr N offset txnType c =
     (case view_IsMerged txnType of
        Inl _ \<Rightarrow> (c, Inl (InvalidView txnType))
      | Inr True \<Rightarrow>
          (case TransactionsMerged addr N offset txnType c of
             (c1, Inl e) \<Rightarrow> (c1, Inl e)
           | (c1, Inr (r, blockID)) \<Rightarrow> (c1, Inr (UncompactMergedRows r, blockID)))
      | Inr False \<Rightarrow>
          (case TransactionsCompact addr N offset txnType c of
             (c1, Inl e) \<Rightarrow> (c1, Inl e)
           | (c1, Inr (r, blockID)) \<Rightarrow> (c1, Inr (UncompactRows r, blockID))))"

section \<open>Purging\<close>

definition nrows :: "'cd AddressCacheItem \<Rightarrow> int" where
  "nrows d = int (length (slice_list (item_rows d)))"

definition cache_length :: "'cd item_map \<Rightarrow> int \<times> int \<times> int" where
  "cache_length m = (int (length m), sum_list (map (nrows \<circ> snd) m),
     sum_list (map (\<lambda>x. int (length (slice_list (utxos (snd x))))) m))"

definition del :: "string \<Rightarrow> 'cd item_map \<Rightarrow> 'cd item_map" where
  "del k m = filter (\<lambda>x. fst x \<noteq> k) m"

definition put :: "string \<Rightarrow> 'cd AddressCacheItem \<Rightarrow> 'cd item_map \<Rightarrow> 'cd item_map" where
  "put k d m = (k, d) # del k m"

text \<open>A write through a pointer to the item of \<open>k\<close>, seen in the map only while the item is there.\<close>

definition write_item :: "string \<Rightarrow> ('cd AddressCacheItem \<Rightarrow> 'cd AddressCacheItem) \<Rightarrow> 'cd item_map \<Rightarrow> 'cd item_map" where
  "write_item k f m = map (\<lambda>x. if fst x = k then (fst x, f (snd x)) else x) m"

type_synonym key_order = "string list \<Rightarrow> string list"

fun purge_addrs :: "key_order \<Rightarrow> int \<Rightarrow> nat \<Rightarrow> 'cd item_map \<Rightarrow> 'cd item_map option" where
  "purge_addrs iter ca 0 m = None"
| "purge_addrs iter ca (Suc n) m =
     (if int (length m) \<ge> ca then
        (case iter (map fst m) of
           [] \<Rightarrow> purge_addrs iter ca n m
         | k # _ \<Rightarrow> purge_addrs iter ca n (del k m))
      else Some m)"

fun purge_rows :: "key_order \<Rightarrow> int \<Rightarrow> int \<Rightarrow> nat \<Rightarrow> 'cd item_map \<Rightarrow> 'cd item_map option" where
  "purge_rows iter cp numRows 0 m = None"
| "purge_rows iter cp numRows (Suc n) m =
     (let cacheSize = fst (snd (cache_length m))
      in if cacheSize > 0 \<and> cacheSize + numRows > cp then
           (case filter (\<lambda>k. case map_of m k of None \<Rightarrow> False | Some d \<Rightarrow> nrows d \<noteq> 0) (iter (map fst m)) of
              [] \<Rightarrow> purge_rows iter cp numRows n m
            | k # _ \<Rightarrow> purge_rows iter cp numRows n (del k m))
         else Some m)"

definition purgeRowsToFit ::
  "key_order \<Rightarrow> int \<Rightarrow> 'cd AddressCache \<Rightarrow> ('cd AddressCache \<times> bool) option" where
  "purgeRowsToFit iter numRows c =
     (if cap c < 1 \<or> capAddr c < 1 then Some (c, False)
      else
        case purge_addrs iter (capAddr c) (Suc (length (cache_a c))) (cache_a c) of
          None \<Rightarrow> None
        | Some m1 \<Rightarrow>
            (case purge_rows iter (cap c) numRows (Suc (length m1)) m1 of
               None \<Rightarrow> None
             | Some m2 \<Rightarrow>
                 let (addrsCached, cacheSize, _) = cache_length m2
                 in Some (c\<lparr>cache_a := m2\<rparr>, cacheSize + numRows \<le> cap c \<and> addrsCached < capAddr c)))"

section \<open>Stores\<close>

definition addCacheItem ::
  "key_order \<Rightarrow> string \<Rightarrow> 'cd AddressCacheItem \<Rightarrow> 'cd AddressCache \<Rightarrow> ('cd AddressCache \<times> bool) option" where
  "addCacheItem iter addr aci c =
     (if cap c < 1 \<or> capAddr c < 1 then Some (c, False)
      else
        let alreadyStored = (case map_of (cache_a c) addr of None \<Rightarrow> 0 | Some aci0 \<Rightarrow> nrows aci0)
        in case purgeRowsToFit iter (nrows aci - alreadyStored) c of
             None \<Rightarrow> None
           | Some (c1, haveSpace) \<Rightarrow>
               Some (if haveSpace then (c1\<lparr>cache_a := put addr aci (cache_a c1)\<rparr>, True) else (c1, False)))"

definition setCacheItemRows ::
  "key_order \<Rightarrow> string \<Rightarrow> AddressRowCompact list \<Rightarrow> BlockID option \<Rightarrow> 'cd AddressCache
     \<Rightarrow> ('cd AddressCache \<times> bool) option" where
  "setCacheItemRows iter addr rows blk c =
     (case blk of None \<Rightarrow> Some (c, False) | Some block \<Rightarrow>
       if cap c < 1 \<or> capAddr c < 1 then Some (c, False)
       else
         case map_of (cache_a c) addr of
           None \<Rightarrow> addCacheItem iter addr ((NewItem block)\<lparr>item_rows := Some rows\<rparr>) c
         | Some aci \<Rightarrow>
             if item_hash aci \<noteq> bid_Hash block
             then addCacheItem iter addr ((NewItem block)\<lparr>item_rows := Some rows\<rparr>) c
             else if item_rows aci \<noteq> None \<and> nrows aci = int (length rows) then Some (c, True)
             else
               (case purgeRowsToFit iter (int (length rows) - nrows aci) c of
                  None \<Rightarrow> None
                | Some (c1, haveSpace) \<Rightarrow>
                    Some (if haveSpace
                          then (c1\<lparr>cache_a := write_item addr (\<lambda>d. d\<lparr>item_rows := Some rows\<rparr>) (cache_a c1)\<rparr>, True)
                          else (c1, False))))"

definition StoreRowsCompact ::
  "key_order \<Rightarrow> string \<Rightarrow> AddressRowCompact slice \<Rightarrow> BlockID option \<Rightarrow> 'cd AddressCache
     \<Rightarrow> ('cd AddressCache \<times> bool) option" where
  "StoreRowsCompact iter addr rows blk c =
     (if blk = None \<or> cap c < 1 \<or> capAddr c < 1 then Some (c, False)
      else setCacheItemRows iter addr (slice_list rows) blk c)"

definition StoreRows ::
  "key_order \<Rightarrow> string \<Rightarrow> AddressRow slice \<Rightarrow> BlockID option \<Rightarrow> 'cd AddressCache
     \<Rightarrow> ('cd AddressCache \<times> bool) option" where
  "StoreRows iter addr rows blk c =
     (if blk = None \<or> cap c < 1 \<or> capAddr c < 1 then Some (c, False)
      else StoreRowsCompact iter addr (Some (case rows of None \<Rightarrow> [] | Some rs \<Rightarrow> CompactRows rs)) blk c)"

definition set_chart ::
  "HistoryChart \<Rightarrow> nat \<Rightarrow> byte \<Rightarrow> 'cd \<Rightarrow> 'cd AddressCacheItem \<Rightarrow> 'cd AddressCacheItem" where
  "set_chart addrChart chartGrouping coinType cd d =
     (case addrChart of
        TxsType \<Rightarrow>
          d\<lparr>history := (history d)\<lparr>TypeByInterval :=
            (TypeByInterval (history d))(chartGrouping :=
              (TypeByInterval (history d) chartGrouping)(coinType \<mapsto> cd))\<rparr>\<rparr>
      | AmountFlow \<Rightarrow>
          d\<lparr>history := (history d)\<lparr>AmtFlowByInterval :=
            (AmtFlowByInterval (history d))(chartGrouping :=
              (AmtFlowByInterval (history d) chartGrouping)(coinType \<mapsto> cd))\<rparr>\<rparr>
      | OtherChart \<Rightarrow> d)"

text \<open>\<open>emptyChart\<close> is the zero \<open>ChartsData\<close> that replaces a nil argument.\<close>

definition StoreHistoryChart ::
  "key_order \<Rightarrow> 'cd \<Rightarrow> string \<Rightarrow> HistoryChart \<Rightarrow> nat \<Rightarrow> byte \<Rightarrow> 'cd option \<Rightarrow> BlockID option
     \<Rightarrow> 'cd AddressCache \<Rightarrow> ('cd AddressCache \<times> bool) option" where
  "StoreHistoryChart iter emptyChart addr addrChart chartGrouping coinType cd blk c =
     (case blk of None \<Rightarrow> Some (c, False) | Some block \<Rightarrow>
       if cap c < 1 \<or> capAddr c < 1 then Some (c, False)
       else if chartGrouping \<ge> NumIntervals then Some (c, False)
       else
         let cd = (case cd of None \<Rightarrow> emptyChart | Some x \<Rightarrow> x)
         in case (case map_of (cache_a c) addr of
                    Some _ \<Rightarrow> Some (c, True)
                  | None \<Rightarrow> addCacheItem iter addr (NewItem block) c) of
              None \<Rightarrow> None
            | Some (c1, False) \<Rightarrow> Some (c1, False)
            | Some (c1, True) \<Rightarrow>
                Some (c1\<lparr>cache_a := write_item addr (set_chart addrChart chartGrouping coinType cd) (cache_a c1)\<rparr>,
                      addrChart \<noteq> OtherChart))"

definition StoreBalance ::
  "key_order \<Rightarrow> string \<Rightarrow> AddressBalance option \<Rightarrow> BlockID option \<Rightarrow> 'cd AddressCache
     \<Rightarrow> ('cd AddressCache \<times> bool) option" where
  "StoreBalance iter addr bal blk c =
     (case blk of None \<Rightarrow> Some (c, False) | Some block \<Rightarrow>
       if cap c < 1 \<or> capAddr c < 1 then Some (c, False)
       else
         let bal = (case bal of
                      None \<Rightarrow> \<lparr>ab_Address = addr, Coins = Map.empty, TotalOutputs = 0, TotalInputs = 0\<rparr>
                    | Some b \<Rightarrow> b)
         in case map_of (cache_a c) addr of
              None \<Rightarrow> addCacheItem iter addr ((NewItem block)\<lparr>balance := Some bal\<rparr>) c
            | Some aci \<Rightarrow>
                if item_hash aci \<noteq> bid_Hash block
                then addCacheItem iter addr ((NewItem block)\<lparr>balance := Some bal\<rparr>) c
                else Some (c\<lparr>cache_a := write_item addr (\<lambda>d. d\<lparr>balance := Some bal\<rparr>) (cache_a c)\<rparr>, True))"

definition StoreUTXOs ::
  "key_order \<Rightarrow> string \<Rightarrow> AddressTxnOutput slice \<Rightarrow> BlockID option \<Rightarrow> 'cd AddressCache
     \<Rightarrow> ('cd AddressCache \<times> bool) option" where
  "StoreUTXOs iter addr us blk c =
     (case blk of None \<Rightarrow> Some (c, False) | Some block \<Rightarrow>
       if cap c < 1 \<or> capAddr c < 1 then Some (c, False)
       else if int (length (slice_list us)) > maxUTXOsPerAddr c then Some (c, False)
       else
         case map_of (cache_a c) addr of
           None \<Rightarrow> addCacheItem iter addr ((NewItem block)\<lparr>utxos := Some (slice_list us)\<rparr>) c
         | Some _ \<Rightarrow> Some (c\<lparr>cache_a := write_item addr (\<lambda>d. d\<lparr>utxos := Some (slice_list us)\<rparr>) (cache_a c)\<rparr>, True))"

section \<open>Clearing\<close>

definition ClearAll :: "'cd AddressCache \<Rightarrow> 'cd AddressCache \<times> nat" where
  "ClearAll c = (c\<lparr>cache_a := []\<rparr>, length (cache_a c))"

fun clear_keys :: "string list \<Rightarrow> 'cd item_map \<Rightarrow> nat \<Rightarrow> 'cd item_map \<times> nat" where
  "clear_keys [] m n = (m, n)"
| "clear_keys (k # ks) m n =
     (if map_of m k = None then clear_keys ks m n else clear_keys ks (del k m) (n + 1))"

definition Clear :: "string slice \<Rightarrow> 'cd AddressCache \<Rightarrow> 'cd AddressCache \<times> nat" where
  "Clear addrs c =
     (case addrs of
        None \<Rightarrow> ClearAll c
      | Some [] \<Rightarrow> (c, 0)
      | Some ks \<Rightarrow> (let (m, n) = clear_keys ks (cache_a c) 0 in (c\<lparr>cache_a := m\<rparr>, n)))"

definition ClearUTXOs :: "string \<Rightarrow> 'cd AddressCache \<Rightarrow> 'cd AddressCache" where
  "ClearUTXOs addr c = c\<lparr>cache_a := write_item addr (\<lambda>d. d\<lparr>utxos := None\<rparr>) (cache_a c)\<rparr>"

definition ClearRows :: "string \<Rightarrow> 'cd AddressCache \<Rightarrow> 'cd AddressCache" where
  "ClearRows addr c = c\<lparr>cache_a := write_item addr (\<lambda>d. d\<lparr>item_rows := None\<rparr>) (cache_a c)\<rparr>"

definition cache_Length :: "'cd AddressCache \<Rightarrow> int \<times> int \<times> int" where
  "cache_Length c = cache_length (cache_a c)"

definition NumAddresses :: "'cd AddressCache \<Rightarrow> int" where
  "NumAddresses c = int (length (cache_a c))"

section \<open>Purging returns, and what it leaves\<close>

definition valid_order :: "key_order \<Rightarrow> bool" where
  "valid_order iter \<longleftrightarrow> (\<forall>ks. mset (iter ks) = mset ks)"

lemma valid_order_set: "valid_order iter \<Longrightarrow> set (iter ks) = set ks"
  by (metis set_mset_mset valid_order_def)

definition keys_ok :: "'cd item_map \<Rightarrow> bool" where
  "keys_ok m \<longleftrightarrow> distinct (map fst m)"

text \<open>\<open>m'\<close> has some of the entries of \<open>m\<close>, in the same order.\<close>

definition part_of :: "'cd item_map \<Rightarrow> 'cd item_map \<Rightarrow> bool" where
  "part_of m' m \<longleftrightarrow> (\<exists>P. m' = filter P m)"

lemma part_of_refl [simp]: "part_of m m"
  unfolding part_of_def by (rule exI [of _ "\<lambda>_. True"]) simp

lemma part_of_del [simp]: "part_of (del k m) m"
  unfolding part_of_def del_def by blast

lemma part_of_trans: "part_of m1 m2 \<Longrightarrow> part_of m2 m3 \<Longrightarrow> part_of m1 m3"
  unfolding part_of_def by auto

lemma part_of_keys: "part_of m' m \<Longrightarrow> keys_ok m \<Longrightarrow> keys_ok m'"
  by (auto simp: part_of_def keys_ok_def distinct_map_filter)

lemma part_of_set: "part_of m' m \<Longrightarrow> set m' \<subseteq> set m"
  by (auto simp: part_of_def)

lemma part_of_length: "part_of m' m \<Longrightarrow> length m' \<le> length m"
  by (auto simp: part_of_def)

lemma length_del: "k \<in> fst ` set m \<Longrightarrow> length (del k m) < length m"
  unfolding del_def by (force intro: length_filter_less)

lemma purge_addrs_total:
  assumes "valid_order iter" and "1 \<le> ca" and "length m < n"
  shows "\<exists>m'. purge_addrs iter ca n m = Some m' \<and> part_of m' m \<and> int (length m') < ca"
  using assms(3)
proof (induction n arbitrary: m)
  case (Suc n)
  show ?case
  proof (cases "int (length m) \<ge> ca")
    case True
    then have "m \<noteq> []" using assms(2) by auto
    then have ne: "iter (map fst m) \<noteq> []" using valid_order_set [OF assms(1), of "map fst m"] by auto
    then obtain k ks where k: "iter (map fst m) = k # ks" by (cases "iter (map fst m)") auto
    then have "k \<in> fst ` set m" using valid_order_set [OF assms(1), of "map fst m"] by auto
    then have "length (del k m) < n" using length_del [of k m] Suc.prems by linarith
    from Suc.IH [OF this] show ?thesis
      using True k part_of_trans [OF _ part_of_del, of _ k m] by auto
  next
    case False
    then show ?thesis by simp
  qed
qed simp

lemma sum_rows_pos:
  assumes "0 < fst (snd (cache_length m))"
  shows "\<exists>x\<in>set m. nrows (snd x) \<noteq> 0"
proof (rule ccontr)
  assume "\<not> ?thesis"
  then have "map (nrows \<circ> snd) m = map (\<lambda>_. 0) m" by simp
  then show False using assms by (simp add: cache_length_def del: map_eq_conv)
qed

lemma map_of_keys_ok: "keys_ok m \<Longrightarrow> x \<in> set m \<Longrightarrow> map_of m (fst x) = Some (snd x)"
  by (cases x) (simp add: keys_ok_def map_of_eq_Some_iff)

lemma purge_rows_total:
  assumes "valid_order iter" and "length m < n" and "keys_ok m"
  shows "\<exists>m'. purge_rows iter cp numRows n m = Some m' \<and> part_of m' m
    \<and> (fst (snd (cache_length m')) > 0 \<longrightarrow> fst (snd (cache_length m')) + numRows \<le> cp)"
  using assms(2,3)
proof (induction n arbitrary: m)
  case (Suc n)
  let ?sz = "fst (snd (cache_length m))"
  show ?case
  proof (cases "?sz > 0 \<and> ?sz + numRows > cp")
    case True
    let ?P = "\<lambda>k. case map_of m k of None \<Rightarrow> False | Some d \<Rightarrow> nrows d \<noteq> 0"
    obtain x where x: "x \<in> set m" "nrows (snd x) \<noteq> 0" using sum_rows_pos True by blast
    then have "fst x \<in> set (filter ?P (iter (map fst m)))"
      using valid_order_set [OF assms(1), of "map fst m"] map_of_keys_ok [OF Suc.prems(2) x(1)] by simp
    then obtain k ks where k: "filter ?P (iter (map fst m)) = k # ks"
      by (cases "filter ?P (iter (map fst m))") auto
    then have "k \<in> set (filter ?P (iter (map fst m)))" by simp
    then have "k \<in> set (iter (map fst m))" by simp
    then have "k \<in> fst ` set m" using valid_order_set [OF assms(1), of "map fst m"] by auto
    then have "length (del k m) < n" using length_del [of k m] Suc.prems by linarith
    from Suc.IH [OF this part_of_keys [OF part_of_del Suc.prems(2)]] show ?thesis
      using True k part_of_trans [OF _ part_of_del, of _ k m] by (auto simp: Let_def)
  next
    case False
    then show ?thesis by (auto simp: Let_def)
  qed
qed simp

lemma cache_length_nonneg: "0 \<le> fst (snd (cache_length m))"
  by (auto simp: cache_length_def nrows_def intro!: sum_list_nonneg)

lemma purgeRowsToFit_total:
  assumes "valid_order iter" and "keys_ok (cache_a c)" and "1 \<le> cap c" and "1 \<le> capAddr c"
  obtains m haveSpace where "purgeRowsToFit iter numRows c = Some (c\<lparr>cache_a := m\<rparr>, haveSpace)"
    "part_of m (cache_a c)" "int (length m) < capAddr c"
    "haveSpace \<longleftrightarrow> fst (snd (cache_length m)) + numRows \<le> cap c" "numRows \<le> cap c \<longrightarrow> haveSpace"
proof -
  obtain m1 where m1: "purge_addrs iter (capAddr c) (Suc (length (cache_a c))) (cache_a c) = Some m1"
    "part_of m1 (cache_a c)" "int (length m1) < capAddr c"
    using purge_addrs_total [OF assms(1,4), of "cache_a c" "Suc (length (cache_a c))"] by auto
  obtain m2 where m2: "purge_rows iter (cap c) numRows (Suc (length m1)) m1 = Some m2" "part_of m2 m1"
    "fst (snd (cache_length m2)) > 0 \<longrightarrow> fst (snd (cache_length m2)) + numRows \<le> cap c"
    using purge_rows_total [OF assms(1) _ part_of_keys [OF m1(2) assms(2)]] by blast
  have len: "int (length m2) < capAddr c" using part_of_length [OF m2(2)] m1(3) by linarith
  show ?thesis
  proof (rule that)
    show "purgeRowsToFit iter numRows c
        = Some (c\<lparr>cache_a := m2\<rparr>, fst (snd (cache_length m2)) + numRows \<le> cap c)"
      using assms(3,4) m1(1) m2(1) len by (simp add: purgeRowsToFit_def cache_length_def)
    show "part_of m2 (cache_a c)" using m1(2) m2(2) part_of_trans by blast
  qed (use len m2(3) cache_length_nonneg [of m2] in auto)
qed

lemma addCacheItem_total:
  assumes "valid_order iter" and "keys_ok (cache_a c)" and "1 \<le> cap c" and "1 \<le> capAddr c"
  obtains m haveSpace where
    "addCacheItem iter addr aci c = Some (c\<lparr>cache_a := if haveSpace then put addr aci m else m\<rparr>, haveSpace)"
    "part_of m (cache_a c)" "int (length m) < capAddr c"
    "haveSpace \<longrightarrow> fst (snd (cache_length m))
       + (nrows aci - (case map_of (cache_a c) addr of None \<Rightarrow> 0 | Some d \<Rightarrow> nrows d)) \<le> cap c"
    "nrows aci - (case map_of (cache_a c) addr of None \<Rightarrow> 0 | Some d \<Rightarrow> nrows d) \<le> cap c \<longrightarrow> haveSpace"
proof -
  let ?n = "nrows aci - (case map_of (cache_a c) addr of None \<Rightarrow> 0 | Some d \<Rightarrow> nrows d)"
  obtain m haveSpace where p: "purgeRowsToFit iter ?n c = Some (c\<lparr>cache_a := m\<rparr>, haveSpace)"
    "part_of m (cache_a c)" "int (length m) < capAddr c"
    "haveSpace \<longleftrightarrow> fst (snd (cache_length m)) + ?n \<le> cap c" "?n \<le> cap c \<longrightarrow> haveSpace"
    by (rule purgeRowsToFit_total [OF assms, of ?n])
  show ?thesis
    by (rule that [OF _ p(2,3), of haveSpace]) (use assms(3,4) p in \<open>simp_all add: addCacheItem_def Let_def\<close>)
qed

section \<open>The invariant\<close>

definition ac_inv :: "'cd AddressCache \<Rightarrow> bool" where
  "ac_inv c \<longleftrightarrow> keys_ok (cache_a c) \<and> int (length (cache_a c)) \<le> max 0 (capAddr c)
     \<and> (\<forall>x\<in>set (cache_a c). utxos (snd x) = None
          \<or> int (length (slice_list (utxos (snd x)))) \<le> maxUTXOsPerAddr c)"

lemma keys_ok_put: "keys_ok m \<Longrightarrow> keys_ok (put k d m)"
  by (auto simp: put_def keys_ok_def del_def distinct_map_filter)

lemma length_put: "length (put k d m) \<le> Suc (length m)"
  by (simp add: put_def del_def)

lemma set_put: "x \<in> set (put k d m) \<Longrightarrow> x = (k, d) \<or> x \<in> set m"
  by (auto simp: put_def del_def)

lemma write_item_keys [simp]: "map fst (write_item k f m) = map fst m"
  by (auto simp: write_item_def)

lemma write_item_length [simp]: "length (write_item k f m) = length m"
  by (simp add: write_item_def)

lemma set_write_item: "x \<in> set (write_item k f m) \<Longrightarrow> x \<in> set m \<or> (\<exists>d. (k, d) \<in> set m \<and> x = (k, f d))"
  by (auto simp: write_item_def split: if_splits)

lemma map_of_put [simp]: "map_of (put k d m) k = Some d"
  by (simp add: put_def)

lemma map_of_write_item: "map_of (write_item k f m) k = map_option f (map_of m k)"
  by (induction m) (auto simp: write_item_def)

lemma ac_inv_part:
  assumes "ac_inv c" and "part_of m (cache_a c)"
  shows "ac_inv (c\<lparr>cache_a := m\<rparr>)"
  using assms part_of_keys [OF assms(2)] part_of_set [OF assms(2)] part_of_length [OF assms(2)]
  by (auto simp: ac_inv_def)

lemma ac_inv_put:
  assumes "ac_inv c" and "part_of m (cache_a c)" and "int (length m) < capAddr c"
    and "utxos d = None \<or> int (length (slice_list (utxos d))) \<le> maxUTXOsPerAddr c"
  shows "ac_inv (c\<lparr>cache_a := put k d m\<rparr>)"
  using ac_inv_part [OF assms(1,2)] assms(3,4) length_put [of k d m] keys_ok_put [of m k d]
  by (auto simp: ac_inv_def dest!: set_put)

lemma ac_inv_write:
  assumes "ac_inv c"
    and "\<And>d. utxos (f d) = utxos d \<or> utxos (f d) = None \<or> int (length (slice_list (utxos (f d)))) \<le> maxUTXOsPerAddr c"
  shows "ac_inv (c\<lparr>cache_a := write_item k f (cache_a c)\<rparr>)"
  using assms unfolding ac_inv_def keys_ok_def
  by (auto dest!: set_write_item) (metis snd_conv)

text \<open>The contract every store keeps: it returns, and keeps the settings and the invariant.\<close>

definition settings :: "'cd AddressCache \<Rightarrow> int \<times> int \<times> int" where
  "settings c = (cap c, capAddr c, maxUTXOsPerAddr c)"

definition stores_ok :: "'cd AddressCache \<Rightarrow> ('cd AddressCache \<times> bool) option \<Rightarrow> bool" where
  "stores_ok c r \<longleftrightarrow> (\<exists>c' ok. r = Some (c', ok) \<and> ac_inv c' \<and> settings c' = settings c)"

lemma stores_ok_same [intro]: "ac_inv c \<Longrightarrow> stores_ok c (Some (c, ok))"
  by (auto simp: stores_ok_def)

lemma settings_a [simp]: "settings (c\<lparr>cache_a := m\<rparr>) = settings c"
  by (simp add: settings_def)

lemma stores_ok_write:
  assumes "ac_inv c"
    and "\<And>d. utxos (f d) = utxos d \<or> utxos (f d) = None \<or> int (length (slice_list (utxos (f d)))) \<le> maxUTXOsPerAddr c"
  shows "stores_ok c (Some (c\<lparr>cache_a := write_item k f (cache_a c)\<rparr>, ok))"
  using ac_inv_write [OF assms] by (auto simp: stores_ok_def)

lemma addCacheItem_ok:
  assumes "valid_order iter" and "ac_inv c"
    and "utxos d = None \<or> int (length (slice_list (utxos d))) \<le> maxUTXOsPerAddr c"
  shows "stores_ok c (addCacheItem iter addr d c)"
proof (cases "cap c < 1 \<or> capAddr c < 1")
  case True
  then show ?thesis using assms(2) by (auto simp: addCacheItem_def)
next
  case False
  have "keys_ok (cache_a c)" using assms(2) by (simp add: ac_inv_def)
  then obtain m haveSpace where m:
    "addCacheItem iter addr d c = Some (c\<lparr>cache_a := if haveSpace then put addr d m else m\<rparr>, haveSpace)"
    "part_of m (cache_a c)" "int (length m) < capAddr c"
    using addCacheItem_total [OF assms(1), of c addr d] False by (metis linorder_not_less)
  then show ?thesis
    using ac_inv_put [OF assms(2) m(2,3) assms(3)] ac_inv_part [OF assms(2) m(2)]
    by (auto simp: stores_ok_def)
qed

lemma NewItem_utxos [simp]: "utxos (NewItem b) = None" "nrows (NewItem b) = 0" "item_hash (NewItem b) = bid_Hash b"
  by (simp_all add: NewItem_def nrows_def)

lemma purge_write_ok:
  assumes "valid_order iter" and "ac_inv c" and "1 \<le> cap c" and "1 \<le> capAddr c"
    and "purgeRowsToFit iter n c = Some (c1, haveSpace)"
  shows "ac_inv c1 \<and> settings c1 = settings c
    \<and> ac_inv (c1\<lparr>cache_a := write_item k (\<lambda>d. d\<lparr>item_rows := rs\<rparr>) (cache_a c1)\<rparr>)"
proof -
  have "keys_ok (cache_a c)" using assms(2) by (simp add: ac_inv_def)
  then obtain m where m: "c1 = c\<lparr>cache_a := m\<rparr>" "part_of m (cache_a c)"
    using purgeRowsToFit_total [OF assms(1) _ assms(3,4), of n] assms(5) by (metis option.inject prod.inject)
  have "ac_inv c1" using ac_inv_part [OF assms(2) m(2)] m(1) by simp
  then show ?thesis using ac_inv_write [of c1 "\<lambda>d. d\<lparr>item_rows := rs\<rparr>" k] m(1) by simp
qed

lemma purgeRowsToFit_returns:
  assumes "valid_order iter" and "ac_inv c" and "1 \<le> cap c" and "1 \<le> capAddr c"
  obtains c1 haveSpace where "purgeRowsToFit iter n c = Some (c1, haveSpace)"
proof -
  have "keys_ok (cache_a c)" using assms(2) by (simp add: ac_inv_def)
  then show ?thesis using purgeRowsToFit_total [OF assms(1) _ assms(3,4), of n] that by metis
qed

lemma setCacheItemRows_ok:
  assumes "valid_order iter" and "ac_inv c"
  shows "stores_ok c (setCacheItemRows iter addr rows blk c)"
proof (cases "blk = None \<or> cap c < 1 \<or> capAddr c < 1")
  case True
  then show ?thesis using assms(2) by (auto simp: setCacheItemRows_def split: option.split)
next
  case False
  then obtain block where b: "blk = Some block" and caps: "1 \<le> cap c" "1 \<le> capAddr c" by auto
  have add: "stores_ok c (addCacheItem iter addr ((NewItem block)\<lparr>item_rows := Some rows\<rparr>) c)"
    by (rule addCacheItem_ok [OF assms]) simp
  show ?thesis
  proof (cases "map_of (cache_a c) addr")
    case None
    then show ?thesis using add b caps by (simp add: setCacheItemRows_def)
  next
    case (Some aci)
    let ?n = "int (length rows) - nrows aci"
    obtain c1 haveSpace where p: "purgeRowsToFit iter ?n c = Some (c1, haveSpace)"
      by (rule purgeRowsToFit_returns [OF assms caps])
    show ?thesis
      using purge_write_ok [OF assms caps p, of addr "Some rows"] add b caps Some p assms(2)
      by (auto simp: setCacheItemRows_def stores_ok_def)
  qed
qed

lemma StoreRowsCompact_ok:
  assumes "valid_order iter" and "ac_inv c"
  shows "stores_ok c (StoreRowsCompact iter addr rows blk c)"
  using setCacheItemRows_ok [OF assms] assms(2) by (auto simp: StoreRowsCompact_def)

lemma StoreRows_ok:
  assumes "valid_order iter" and "ac_inv c"
  shows "stores_ok c (StoreRows iter addr rows blk c)"
  using StoreRowsCompact_ok [OF assms] assms(2) by (auto simp: StoreRows_def)

lemma StoreBalance_ok:
  assumes "valid_order iter" and "ac_inv c"
  shows "stores_ok c (StoreBalance iter addr bal blk c)"
proof (cases blk)
  case None
  then show ?thesis using assms(2) by (auto simp: StoreBalance_def)
next
  case (Some block)
  have "stores_ok c (addCacheItem iter addr ((NewItem block)\<lparr>balance := Some b\<rparr>) c)" for b
    by (rule addCacheItem_ok [OF assms]) simp
  moreover have "stores_ok c (Some (c\<lparr>cache_a := write_item addr (\<lambda>d. d\<lparr>balance := Some b\<rparr>) (cache_a c)\<rparr>, True))" for b
    by (rule stores_ok_write [OF assms(2)]) simp
  ultimately show ?thesis
    using Some assms(2) by (auto simp: StoreBalance_def Let_def split: option.split)
qed

lemma StoreUTXOs_ok:
  assumes "valid_order iter" and "ac_inv c"
  shows "stores_ok c (StoreUTXOs iter addr us blk c)"
proof (cases "blk = None \<or> int (length (slice_list us)) > maxUTXOsPerAddr c")
  case True
  then show ?thesis using assms(2) by (auto simp: StoreUTXOs_def split: option.split)
next
  case False
  then obtain block where b: "blk = Some block" and le: "int (length (slice_list us)) \<le> maxUTXOsPerAddr c"
    by auto
  have "stores_ok c (addCacheItem iter addr ((NewItem block)\<lparr>utxos := Some (slice_list us)\<rparr>) c)"
    by (rule addCacheItem_ok [OF assms]) (simp add: le)
  moreover have "stores_ok c (Some (c\<lparr>cache_a := write_item addr (\<lambda>d. d\<lparr>utxos := Some (slice_list us)\<rparr>) (cache_a c)\<rparr>, True))"
    by (rule stores_ok_write [OF assms(2)]) (simp add: le)
  ultimately show ?thesis
    using b le assms(2) by (auto simp: StoreUTXOs_def split: option.split)
qed

lemma set_chart_utxos [simp]: "utxos (set_chart ch g ct cd d) = utxos d"
  by (simp add: set_chart_def split: HistoryChart.split)

lemma StoreHistoryChart_ok:
  assumes "valid_order iter" and "ac_inv c"
  shows "stores_ok c (StoreHistoryChart iter e addr ch g ct cd blk c)"
proof (cases blk)
  case None
  then show ?thesis using assms(2) by (auto simp: StoreHistoryChart_def)
next
  case (Some block)
  have w: "stores_ok c1 (Some (c1\<lparr>cache_a := write_item addr (set_chart ch g ct x) (cache_a c1)\<rparr>, ok))"
    if "ac_inv c1" for c1 :: "'a AddressCache" and x ok
    by (rule stores_ok_write [OF that]) simp
  have "stores_ok c (addCacheItem iter addr (NewItem block) c)"
    by (rule addCacheItem_ok [OF assms]) simp
  then obtain c1 ok where c1: "addCacheItem iter addr (NewItem block) c = Some (c1, ok)" "ac_inv c1"
    "settings c1 = settings c"
    by (auto simp: stores_ok_def)
  show ?thesis
    using Some assms(2) c1 w [OF c1(2)] w [OF assms(2)]
    by (cases ok) (auto simp: StoreHistoryChart_def Let_def stores_ok_def split: option.splits)
qed

section \<open>Runs of the cache\<close>

inductive ac_step :: "'cd AddressCache \<Rightarrow> 'cd AddressCache \<Rightarrow> bool" where
  balance: "ac_step c (fst (cache_Balance addr c))"
| utxos: "ac_step c (fst (cache_UTXOs addr c))"
| chart: "ac_step c (fst (cache_HistoryChart addr ch g ct c))"
| rows: "ac_step c (fst (cache_Rows addr ct c))"
| txns: "ac_step c (fst (cache_Transactions addr N offset v c))"
| storeRows: "valid_order iter \<Longrightarrow> StoreRows iter addr rs blk c = Some (c', ok) \<Longrightarrow> ac_step c c'"
| storeCompact: "valid_order iter \<Longrightarrow> StoreRowsCompact iter addr crs blk c = Some (c', ok) \<Longrightarrow> ac_step c c'"
| storeBalance: "valid_order iter \<Longrightarrow> StoreBalance iter addr bal blk c = Some (c', ok) \<Longrightarrow> ac_step c c'"
| storeUTXOs: "valid_order iter \<Longrightarrow> StoreUTXOs iter addr us blk c = Some (c', ok) \<Longrightarrow> ac_step c c'"
| storeChart: "valid_order iter \<Longrightarrow> StoreHistoryChart iter e addr ch g ct cd blk c = Some (c', ok) \<Longrightarrow> ac_step c c'"
| clear: "ac_step c (fst (Clear addrs c))"
| clearUTXOs: "ac_step c (ClearUTXOs addr c)"
| clearRows: "ac_step c (ClearRows addr c)"

lemma lookups_frame:
  "cache_a (fst (cache_Balance addr c)) = cache_a c \<and> settings (fst (cache_Balance addr c)) = settings c"
  "cache_a (fst (cache_UTXOs addr c)) = cache_a c \<and> settings (fst (cache_UTXOs addr c)) = settings c"
  "cache_a (fst (cache_HistoryChart addr ch g ct c)) = cache_a c \<and> settings (fst (cache_HistoryChart addr ch g ct c)) = settings c"
  "cache_a (fst (cache_Rows addr ct c)) = cache_a c \<and> settings (fst (cache_Rows addr ct c)) = settings c"
  "cache_a (fst (cache_Transactions addr N offset v c)) = cache_a c \<and> settings (fst (cache_Transactions addr N offset v c)) = settings c"
  by (auto simp: cache_Balance_def cache_UTXOs_def cache_HistoryChart_def cache_Rows_def cache_Transactions_def
      TransactionsMerged_def TransactionsCompact_def metric_defs settings_def
      split: option.split prod.split sum.split bool.split any_rows.split)

lemma ac_inv_frame:
  assumes "ac_inv c" and "cache_a c' = cache_a c \<and> settings c' = settings c"
  shows "ac_inv c' \<and> settings c' = settings c"
  using assms by (simp add: ac_inv_def settings_def)

lemma clear_keys_part: "part_of (fst (clear_keys ks m n)) m"
proof (induction ks arbitrary: m n)
  case (Cons k ks)
  then show ?case using part_of_trans [OF _ part_of_del, of _ k m] by auto
qed simp

lemma Clear_part: "\<exists>m. fst (Clear addrs c) = c\<lparr>cache_a := m\<rparr> \<and> part_of m (cache_a c)"
proof (cases addrs)
  case None
  have "part_of [] (cache_a c)" unfolding part_of_def by (rule exI [of _ "\<lambda>_. False"]) simp
  then show ?thesis using None by (auto simp: Clear_def ClearAll_def)
next
  case (Some ks)
  show ?thesis
  proof (cases ks)
    case Nil
    then show ?thesis using Some by (intro exI [of _ "cache_a c"]) (simp add: Clear_def)
  next
    case (Cons k ks')
    then have "fst (Clear addrs c) = c\<lparr>cache_a := fst (clear_keys ks (cache_a c) 0)\<rparr>"
      using Some by (simp add: Clear_def split: prod.split)
    then show ?thesis using clear_keys_part by blast
  qed
qed

lemma stores_ok_result: "stores_ok c (Some (c', ok)) \<Longrightarrow> ac_inv c' \<and> settings c' = settings c"
  by (simp add: stores_ok_def)

lemma ac_step_inv:
  assumes "ac_step c c'" and "ac_inv c"
  shows "ac_inv c' \<and> settings c' = settings c"
  using assms(1)
proof (cases rule: ac_step.cases)
  case balance
  show ?thesis unfolding balance using ac_inv_frame [OF assms(2) lookups_frame(1)] .
next
  case utxos
  show ?thesis unfolding utxos using ac_inv_frame [OF assms(2) lookups_frame(2)] .
next
  case chart
  show ?thesis unfolding chart using ac_inv_frame [OF assms(2) lookups_frame(3)] .
next
  case rows
  show ?thesis unfolding rows using ac_inv_frame [OF assms(2) lookups_frame(4)] .
next
  case txns
  show ?thesis unfolding txns using ac_inv_frame [OF assms(2) lookups_frame(5)] .
next
  case (storeRows iter addr rs blk ok)
  then show ?thesis using StoreRows_ok [OF _ assms(2)] stores_ok_result by metis
next
  case (storeCompact iter addr crs blk ok)
  then show ?thesis using StoreRowsCompact_ok [OF _ assms(2)] stores_ok_result by metis
next
  case (storeBalance iter addr bal blk ok)
  then show ?thesis using StoreBalance_ok [OF _ assms(2)] stores_ok_result by metis
next
  case (storeUTXOs iter addr us blk ok)
  then show ?thesis using StoreUTXOs_ok [OF _ assms(2)] stores_ok_result by metis
next
  case (storeChart iter e addr ch g ct cd blk ok)
  then show ?thesis using StoreHistoryChart_ok [OF _ assms(2)] stores_ok_result by metis
next
  case (clear addrs)
  then show ?thesis using Clear_part [of addrs c] ac_inv_part [OF assms(2)] by auto
next
  case (clearUTXOs addr)
  then show ?thesis using ac_inv_write [OF assms(2), of "\<lambda>d. d\<lparr>utxos := None\<rparr>" addr] by (simp add: ClearUTXOs_def)
next
  case (clearRows addr)
  then show ?thesis using ac_inv_write [OF assms(2), of "\<lambda>d. d\<lparr>item_rows := None\<rparr>" addr] by (simp add: ClearRows_def)
qed

inductive ac_reachable :: "int \<Rightarrow> int \<Rightarrow> int \<Rightarrow> 'cd AddressCache \<Rightarrow> bool" for rowCap addrCap utxoBytes where
  new: "ac_reachable rowCap addrCap utxoBytes (NewAddressCache rowCap addrCap utxoBytes)"
| step: "ac_reachable rowCap addrCap utxoBytes c \<Longrightarrow> ac_step c c' \<Longrightarrow> ac_reachable rowCap addrCap utxoBytes c'"

lemma ac_reachable_inv:
  "ac_reachable r ad u c \<Longrightarrow> ac_inv c
     \<and> settings c = (r, ad, if ad > 0 then go_div (go_div u approxTxnOutSize) ad else 0)"
proof (induction rule: ac_reachable.induct)
  case new
  show ?case by (simp add: ac_inv_def NewAddressCache_def keys_ok_def Let_def settings_def)
next
  case (step c c')
  then show ?case using ac_step_inv by metis
qed

section \<open>Properties\<close>

text \<open>C19. Address and UTXO limits. In every reachable cache each address is stored once, the number of
  addresses is at most the address capacity, and no address holds more UTXOs than the share the
  constructor computed.\<close>

theorem address_cache_limits:
  assumes "ac_reachable rowCap addrCap utxoBytes c" and "0 < addrCap"
  shows "distinct (map fst (cache_a c)) \<and> NumAddresses c \<le> addrCap
    \<and> (\<forall>addr d us. map_of (cache_a c) addr = Some d \<and> utxos d = Some us
         \<longrightarrow> int (length us) \<le> go_div (go_div utxoBytes 180) addrCap)"
proof -
  have inv: "ac_inv c" and s: "capAddr c = addrCap" "maxUTXOsPerAddr c = go_div (go_div utxoBytes 180) addrCap"
    using ac_reachable_inv [OF assms(1)] assms(2) by (simp_all add: settings_def approxTxnOutSize_def)
  have "int (length us) \<le> maxUTXOsPerAddr c"
    if "map_of (cache_a c) addr = Some d" "utxos d = Some us" for addr d us
    using map_of_SomeD [OF that(1)] that(2) inv by (fastforce simp: ac_inv_def)
  then show ?thesis using inv s assms(2) by (simp add: ac_inv_def keys_ok_def NumAddresses_def) blast
qed

definition example_block_id :: BlockID where
  "example_block_id = \<lparr>bid_Hash = zeroHash, bid_Height = 7\<rparr>"

definition example_store :: "unit AddressCache" where
  "example_store = fst (the (StoreUTXOs (\<lambda>ks. ks) ''Ms'' (Some []) (Some example_block_id) (NewAddressCache 10 2 3600)))"

lemma valid_order_id: "valid_order (\<lambda>ks. ks)"
  by (simp add: valid_order_def)

lemma example_store_reachable: "ac_reachable 10 2 3600 example_store"
proof -
  have "ac_inv (NewAddressCache 10 2 3600 :: unit AddressCache)"
    using ac_reachable_inv [OF ac_reachable.new] by blast
  then obtain c ok where c: "StoreUTXOs (\<lambda>ks. ks) ''Ms'' (Some []) (Some example_block_id)
      (NewAddressCache 10 2 3600 :: unit AddressCache) = Some (c, ok)"
    using StoreUTXOs_ok [OF valid_order_id] by (metis stores_ok_def)
  then show ?thesis
    using ac_reachable.step [OF ac_reachable.new ac_step.storeUTXOs [OF valid_order_id c]]
    by (simp add: example_store_def)
qed

theorem address_cache_limits_witness:
  "NumAddresses example_store = 1 \<and> NumAddresses example_store \<le> 2"
proof -
  have "NumAddresses example_store = 1" by code_simp
  then show ?thesis using address_cache_limits [OF example_store_reachable] by simp
qed

text \<open>C20. Every store returns. Purging to make room always ends, whatever order the map is walked in,
  so each store operation on a reachable cache gives an answer and another reachable cache.\<close>

theorem address_cache_stores_return:
  assumes "ac_reachable rowCap addrCap utxoBytes c" and "valid_order iter"
  shows "(\<exists>c' ok. StoreRowsCompact iter addr rows blk c = Some (c', ok) \<and> ac_reachable rowCap addrCap utxoBytes c')
    \<and> (\<exists>c' ok. StoreBalance iter addr bal blk c = Some (c', ok) \<and> ac_reachable rowCap addrCap utxoBytes c')
    \<and> (\<exists>c' ok. StoreUTXOs iter addr us blk c = Some (c', ok) \<and> ac_reachable rowCap addrCap utxoBytes c')
    \<and> (\<exists>c' ok. StoreHistoryChart iter e addr ch g ct cd blk c = Some (c', ok)
         \<and> ac_reachable rowCap addrCap utxoBytes c')"
proof -
  have inv: "ac_inv c" using ac_reachable_inv [OF assms(1)] by blast
  note step = ac_reachable.step [OF assms(1)]
  show ?thesis
    using StoreRowsCompact_ok [OF assms(2) inv, of addr rows blk] StoreBalance_ok [OF assms(2) inv, of addr bal blk]
      StoreUTXOs_ok [OF assms(2) inv, of addr us blk] StoreHistoryChart_ok [OF assms(2) inv, of e addr ch g ct cd blk]
      step [OF ac_step.storeCompact [OF assms(2)], of addr rows blk] step [OF ac_step.storeBalance [OF assms(2)], of addr bal blk]
      step [OF ac_step.storeUTXOs [OF assms(2)], of addr us blk]
      step [OF ac_step.storeChart [OF assms(2)], of e addr ch g ct cd blk]
    unfolding stores_ok_def by blast
qed

theorem address_cache_stores_return_witness:
  "\<exists>c' ok. StoreRowsCompact (\<lambda>ks. rev ks) ''Ms'' (Some []) (Some example_block_id) example_store = Some (c', ok)"
proof -
  have "valid_order (\<lambda>ks. rev ks)" by (simp add: valid_order_def)
  from address_cache_stores_return [OF example_store_reachable this, of "''Ms''" "Some []" "Some example_block_id"]
  show ?thesis by blast
qed

text \<open>Storing the rows of a new address. When the address is not cached, the store succeeds exactly
  when the rows fit the row capacity; then the rows and the block are returned by a lookup, and the
  cache as a whole respects the row capacity.\<close>

theorem StoreRowsCompact_new_address:
  assumes "ac_reachable rowCap addrCap utxoBytes c" and "valid_order iter" and "1 \<le> rowCap" and "1 \<le> addrCap"
    and "map_of (cache_a c) addr = None"
  shows "\<exists>c' ok. StoreRowsCompact iter addr (Some rows) (Some b) c = Some (c', ok)
    \<and> (ok \<longleftrightarrow> int (length rows) \<le> rowCap)
    \<and> (ok \<longrightarrow> snd (cache_Rows addr CoinTypeAll c') = (Some rows, Some b)
         \<and> fst (snd (cache_Length c')) \<le> rowCap)"
proof -
  have inv: "ac_inv c" and caps: "cap c = rowCap" "capAddr c = addrCap"
    using ac_reachable_inv [OF assms(1)] by (simp_all add: settings_def)
  have keys: "keys_ok (cache_a c)" using inv by (simp add: ac_inv_def)
  let ?d = "(NewItem b)\<lparr>item_rows := Some rows\<rparr>"
  have nr: "nrows ?d = int (length rows)" by (simp add: nrows_def)
  have caps1: "1 \<le> cap c" "1 \<le> capAddr c" using caps assms(3,4) by simp_all
  obtain m haveSpace where m:
    "addCacheItem iter addr ?d c = Some (c\<lparr>cache_a := if haveSpace then put addr ?d m else m\<rparr>, haveSpace)"
    "part_of m (cache_a c)" "haveSpace \<longrightarrow> fst (snd (cache_length m)) + int (length rows) \<le> cap c"
    "int (length rows) \<le> cap c \<longrightarrow> haveSpace"
    by (rule addCacheItem_total [OF assms(2) keys caps1, of addr ?d]) (simp add: assms(5) nr)
  have st: "StoreRowsCompact iter addr (Some rows) (Some b) c = addCacheItem iter addr ?d c"
    using assms(3-5) caps by (simp add: StoreRowsCompact_def setCacheItemRows_def)
  have "addr \<notin> fst ` set m" using part_of_set [OF m(2)] assms(5) by (auto simp: map_of_eq_None_iff)
  then have "del addr m = m" by (auto simp: del_def filter_id_conv)
  then have "fst (snd (cache_length (put addr ?d m))) = fst (snd (cache_length m)) + int (length rows)"
    by (simp add: put_def cache_length_def nr)
  moreover have "snd (cache_Rows addr CoinTypeAll (c\<lparr>cache_a := put addr ?d m\<rparr>)) = (Some rows, Some b)"
    by (simp add: cache_Rows_def addressCacheItem_def item_Rows_def item_blockID_def NewItem_def)
  moreover have "haveSpace \<longleftrightarrow> int (length rows) \<le> rowCap"
    using m(3,4) caps(1) cache_length_nonneg [of m] by auto
  ultimately show ?thesis using st m(1,3) caps(1) by (auto simp: cache_Length_def)
qed

theorem StoreRowsCompact_new_address_witness:
  "\<exists>c' ok. StoreRowsCompact (\<lambda>ks. ks) ''Mt'' (Some (CompactRows [example_row 1 True None])) (Some example_block_id)
       example_store = Some (c', ok)
     \<and> snd (cache_Rows ''Mt'' CoinTypeAll c') = (Some (CompactRows [example_row 1 True None]), Some example_block_id)"
proof -
  have "map_of (cache_a example_store) ''Mt'' = None" by code_simp
  then show ?thesis
    using StoreRowsCompact_new_address [OF example_store_reachable valid_order_id, of "''Mt''"
        "CompactRows [example_row 1 True None]" example_block_id] by auto
qed

text \<open>A cache with one address: storing more rows for it at another block purges it first and then
  counts the rows it had as free.\<close>

lemma single_item_grows:
  assumes "ac_inv c" and "valid_order iter" and "1 \<le> cap c" and "1 \<le> capAddr c"
    and "cache_a c = [(addr, d)]" and "item_hash d \<noteq> bid_Hash b"
    and "int (length rows) = nrows d + cap c"
  shows "\<exists>c'. StoreRowsCompact iter addr (Some rows) (Some b) c = Some (c', True)
    \<and> cache_a c' = [(addr, (NewItem b)\<lparr>item_rows := Some rows\<rparr>)]"
proof -
  let ?d = "(NewItem b)\<lparr>item_rows := Some rows\<rparr>"
  have keys: "keys_ok (cache_a c)" using assms(1) by (simp add: ac_inv_def)
  have n: "nrows ?d - (case map_of (cache_a c) addr of None \<Rightarrow> 0 | Some d \<Rightarrow> nrows d) = cap c"
    using assms(5,7) by (simp add: nrows_def)
  obtain m haveSpace where m:
    "addCacheItem iter addr ?d c = Some (c\<lparr>cache_a := if haveSpace then put addr ?d m else m\<rparr>, haveSpace)"
    "part_of m (cache_a c)" "haveSpace"
    by (rule addCacheItem_total [OF assms(2) keys assms(3,4), of addr ?d]) (simp add: n)
  have "del addr m = []" using part_of_set [OF m(2)] assms(5) by (auto simp: del_def filter_empty_conv)
  then have "put addr ?d m = [(addr, ?d)]" by (simp add: put_def)
  then show ?thesis
    using m assms(3-6) by (simp add: StoreRowsCompact_def setCacheItemRows_def)
qed

lemma rows_grow:
  assumes "1 \<le> rowCap" and "1 \<le> addrCap"
  shows "\<exists>(c :: 'cd AddressCache) d. ac_reachable rowCap addrCap utxoBytes c \<and> cache_a c = [(addr, d)]
    \<and> nrows d = int (Suc k) * rowCap"
proof (induction k)
  case 0
  let ?c = "NewAddressCache rowCap addrCap utxoBytes :: 'cd AddressCache"
  let ?rows = "replicate (nat rowCap) (undefined :: AddressRowCompact)"
  have r: "ac_reachable rowCap addrCap utxoBytes ?c" by (rule ac_reachable.new)
  obtain c' where c': "StoreRowsCompact (\<lambda>ks. ks) addr (Some ?rows) (Some example_block_id) ?c = Some (c', True)"
    "cache_a c' = [(addr, (NewItem example_block_id)\<lparr>item_rows := Some ?rows\<rparr>)]"
    using assms
    by (simp add: StoreRowsCompact_def setCacheItemRows_def addCacheItem_def purgeRowsToFit_def
        NewAddressCache_def Let_def cache_length_def put_def del_def nrows_def)
  then show ?case
    using ac_reachable.step [OF r ac_step.storeCompact [OF valid_order_id c'(1)]] assms
    by (intro exI [of _ c']) (simp add: nrows_def)
next
  case (Suc k)
  then obtain c :: "'cd AddressCache" and d where c: "ac_reachable rowCap addrCap utxoBytes c"
    "cache_a c = [(addr, d)]" "nrows d = int (Suc k) * rowCap"
    by blast
  have inv: "ac_inv c" and caps: "cap c = rowCap" "capAddr c = addrCap"
    using ac_reachable_inv [OF c(1)] by (simp_all add: settings_def)
  let ?b = "\<lparr>bid_Hash = 0 # item_hash d, bid_Height = 0\<rparr>"
  let ?rows = "replicate (nat (nrows d + rowCap)) (undefined :: AddressRowCompact)"
  have len: "int (length ?rows) = nrows d + cap c" using assms(1) caps(1) by (simp add: nrows_def)
  obtain c' where c': "StoreRowsCompact (\<lambda>ks. ks) addr (Some ?rows) (Some ?b) c = Some (c', True)"
    "cache_a c' = [(addr, (NewItem ?b)\<lparr>item_rows := Some ?rows\<rparr>)]"
    using single_item_grows [OF inv valid_order_id _ _ c(2) _ len, of ?b] assms caps by auto
  have "nrows ((NewItem ?b :: 'cd AddressCacheItem)\<lparr>item_rows := Some ?rows\<rparr>) = int (Suc (Suc k)) * rowCap"
  proof -
    have "nrows ((NewItem ?b :: 'cd AddressCacheItem)\<lparr>item_rows := Some ?rows\<rparr>) = int (length ?rows)"
      by (simp add: nrows_def)
    also have "\<dots> = nrows d + cap c" by (rule len)
    also have "\<dots> = int (Suc (Suc k)) * rowCap" using c(3) caps(1) by (simp add: algebra_simps)
    finally show ?thesis .
  qed
  then show ?case
    using ac_reachable.step [OF c(1) ac_step.storeCompact [OF valid_order_id c'(1)]] c'(2) by blast
qed

text \<open>The row capacity is not a limit. For any row and address capacity, and any multiple of the
  row capacity, there is a run after which the cache holds that many rows: an address whose rows
  are replaced at each block may grow by the whole capacity each time.\<close>

theorem row_capacity_exceeded:
  assumes "1 \<le> rowCap" and "1 \<le> addrCap"
  shows "\<exists>c :: 'cd AddressCache. ac_reachable rowCap addrCap utxoBytes c
    \<and> fst (snd (cache_Length c)) = int (Suc k) * rowCap"
proof -
  obtain c :: "'cd AddressCache" and d where "ac_reachable rowCap addrCap utxoBytes c"
    "cache_a c = [(''Ms'', d)]" "nrows d = int (Suc k) * rowCap"
    using rows_grow [OF assms] by blast
  then show ?thesis by (intro exI [of _ c]) (simp add: cache_Length_def cache_length_def)
qed

theorem row_capacity_exceeded_witness:
  "\<exists>c :: unit AddressCache. ac_reachable 10 2 3600 c \<and> fst (snd (cache_Length c)) = 30"
  using row_capacity_exceeded [of 10 2 3600 2] by simp

text \<open>A store that reports success and stores nothing. In a cache with room for one address, the
  rows of an address whose balance is already cached at the same block are written to the item that
  purging has just removed: the store returns true and the address is not cached any more.\<close>

theorem StoreRowsCompact_lost:
  assumes "valid_order iter" and "1 \<le> rowCap" and "rows \<noteq> []" and "int (length rows) \<le> rowCap"
  shows "\<exists>(c1 :: 'cd AddressCache) c2.
    StoreBalance iter addr bal (Some b) (NewAddressCache rowCap 1 utxoBytes) = Some (c1, True)
    \<and> StoreRowsCompact iter addr (Some rows) (Some b) c1 = Some (c2, True)
    \<and> cache_NumRows addr c2 = (-1, None)"
proof -
  let ?c = "NewAddressCache rowCap 1 utxoBytes :: 'cd AddressCache"
  have r: "ac_reachable rowCap 1 utxoBytes ?c" by (rule ac_reachable.new)
  obtain c1 d where c1: "StoreBalance iter addr bal (Some b) ?c = Some (c1, True)"
    "cache_a c1 = [(addr, d)]" "item_hash d = bid_Hash b" "item_rows d = None" "cap c1 = rowCap" "capAddr c1 = 1"
    using assms(2)
    by (auto simp: StoreBalance_def addCacheItem_def purgeRowsToFit_def NewAddressCache_def Let_def
        cache_length_def put_def del_def nrows_def NewItem_def)
  have inv: "ac_inv c1"
    using ac_reachable_inv [OF ac_reachable.step [OF r ac_step.storeBalance [OF assms(1) c1(1)]]] by blast
  then have keys: "keys_ok (cache_a c1)" by (simp add: ac_inv_def)
  have nd: "nrows d = 0" using c1(4) by (simp add: nrows_def)
  have caps: "1 \<le> cap c1" "1 \<le> capAddr c1" using c1(5,6) assms(2) by simp_all
  obtain m haveSpace where p: "purgeRowsToFit iter (int (length rows) - nrows d) c1 = Some (c1\<lparr>cache_a := m\<rparr>, haveSpace)"
    "part_of m (cache_a c1)" "int (length m) < capAddr c1"
    "int (length rows) - nrows d \<le> cap c1 \<longrightarrow> haveSpace"
    by (rule purgeRowsToFit_total [OF assms(1) keys caps, of "int (length rows) - nrows d"])
  have "m = []" using p(3) c1(6) by simp
  moreover have "haveSpace" using p(4) nd assms(4) c1(5) by simp
  ultimately have "StoreRowsCompact iter addr (Some rows) (Some b) c1 = Some (c1\<lparr>cache_a := []\<rparr>, True)"
    using p(1) c1 caps by (simp add: StoreRowsCompact_def setCacheItemRows_def write_item_def)
  then show ?thesis
    using c1(1) by (auto simp: cache_NumRows_def addressCacheItem_def)
qed

theorem StoreRowsCompact_lost_witness:
  "\<exists>(c1 :: unit AddressCache) c2.
    StoreBalance (\<lambda>ks. ks) ''Ms'' None (Some example_block_id) (NewAddressCache 10 1 3600) = Some (c1, True)
    \<and> StoreRowsCompact (\<lambda>ks. ks) ''Ms'' (Some (CompactRows [example_row 1 True None])) (Some example_block_id) c1
        = Some (c2, True)
    \<and> cache_NumRows ''Ms'' c2 = (-1, None)"
  by (rule StoreRowsCompact_lost [OF valid_order_id]) simp_all

text \<open>A stored balance is current. When a balance is stored, a lookup returns it with that block's
  hash, and rows that were cached for another block are not served any more.\<close>

theorem StoreBalance_current:
  assumes "ac_reachable rowCap addrCap utxoBytes c" and "valid_order iter"
    and "StoreBalance iter addr (Some bal) (Some b) c = Some (c', True)"
  shows "\<exists>bid. snd (cache_Balance addr c') = (Some bal, Some bid) \<and> bid_Hash bid = bid_Hash b
    \<and> ((\<exists>d. map_of (cache_a c) addr = Some d \<and> item_hash d \<noteq> bid_Hash b)
         \<longrightarrow> cache_NumRows addr c' = (-1, None))"
proof -
  let ?d = "(NewItem b)\<lparr>balance := Some bal\<rparr>"
  have inv: "ac_inv c" using ac_reachable_inv [OF assms(1)] by blast
  then have keys: "keys_ok (cache_a c)" by (simp add: ac_inv_def)
  have caps: "1 \<le> cap c" "1 \<le> capAddr c"
    using assms(3) by (auto simp: StoreBalance_def split: if_splits)
  have new: "\<exists>m. c' = c\<lparr>cache_a := put addr ?d m\<rparr>" if "addCacheItem iter addr ?d c = Some (c', True)"
    by (rule addCacheItem_total [OF assms(2) keys caps, of addr ?d]) (use that in auto)
  show ?thesis
  proof (cases "\<exists>d. map_of (cache_a c) addr = Some d \<and> item_hash d = bid_Hash b")
    case True
    then show ?thesis
      using assms(3) caps
      by (auto simp: StoreBalance_def Let_def cache_Balance_def addressCacheItem_def item_Balance_def
          item_blockID_def map_of_write_item balanceHit_def)
  next
    case False
    then have "addCacheItem iter addr ?d c = Some (c', True)"
      using assms(3) caps by (auto simp: StoreBalance_def Let_def split: option.splits)
    then obtain m where "c' = c\<lparr>cache_a := put addr ?d m\<rparr>" using new by blast
    then show ?thesis
      by (simp add: cache_Balance_def addressCacheItem_def item_Balance_def item_blockID_def
          cache_NumRows_def item_NumRows_def NewItem_def)
  qed
qed

theorem StoreBalance_current_witness:
  "\<exists>c' bid. StoreBalance (\<lambda>ks. ks) ''Ms'' (Some \<lparr>ab_Address = ''Ms'', Coins = Map.empty, TotalOutputs = 3, TotalInputs = 1\<rparr>)
       (Some example_block_id) example_store = Some (c', True)
     \<and> snd (cache_Balance ''Ms'' c')
         = (Some \<lparr>ab_Address = ''Ms'', Coins = Map.empty, TotalOutputs = 3, TotalInputs = 1\<rparr>, Some bid)"
proof -
  let ?bal = "\<lparr>ab_Address = ''Ms'', Coins = Map.empty, TotalOutputs = 3, TotalInputs = 1\<rparr>"
  let ?r = "StoreBalance (\<lambda>ks. ks) ''Ms'' (Some ?bal) (Some example_block_id) example_store"
  have "(case ?r of Some (_, ok) \<Rightarrow> ok | None \<Rightarrow> False)" by code_simp
  then obtain c' where "?r = Some (c', True)" by (auto split: option.splits)
  then show ?thesis
    using StoreBalance_current [OF example_store_reachable valid_order_id] by blast
qed

end
