(* ===== verification/Locks.thy ===== *)
theory Locks
  imports Prelude
begin

text \<open>
  The two try-locks: \<open>Mutex\<close> of \<open>trylock/trylock.go\<close> and \<open>CacheLock\<close> of
  \<open>db/cache/addresscache.go\<close>. A channel is a number; a lock state records which numbers are used
  and which channels are closed. \<open>lock_step\<close> is any number of callers that interleave their calls;
  \<open>lock_table\<close> is the contract both locks meet, and gives mutual exclusion and wake-up.
\<close>

section \<open>trylock.Mutex\<close>

record Mutex =
  mu_c :: "nat option"
  mu_used :: nat
  mu_closed :: "nat set"

definition NewMutex :: Mutex where
  "NewMutex = \<lparr>mu_c = None, mu_used = 0, mu_closed = {}\<rparr>"

text \<open>\<open>tryLock\<close>: (busy, channel to wait for).\<close>

definition tryLock :: "Mutex \<Rightarrow> Mutex \<times> bool \<times> nat option" where
  "tryLock m =
     (case mu_c m of
        None \<Rightarrow> (m\<lparr>mu_c := Some (mu_used m), mu_used := mu_used m + 1\<rparr>, False, None)
      | Some ch \<Rightarrow> (m, True, Some ch))"

definition Mutex_TryLock :: "Mutex \<Rightarrow> Mutex \<times> bool" where
  "Mutex_TryLock m = (let (m2, busy, _) = tryLock m in (m2, \<not> busy))"

text \<open>\<open>Unlock\<close>; closing the nil channel of a lock that is not held panics.\<close>

definition Unlock :: "Mutex \<Rightarrow> Mutex option" where
  "Unlock m =
     (case mu_c m of
        None \<Rightarrow> None
      | Some ch \<Rightarrow> Some (m\<lparr>mu_closed := insert ch (mu_closed m), mu_c := None\<rparr>))"

section \<open>cache.CacheLock\<close>

record CacheLock =
  cl_addrs :: "string \<rightharpoonup> nat"
  cl_used :: nat
  cl_closed :: "nat set"

definition NewCacheLock :: CacheLock where
  "NewCacheLock = \<lparr>cl_addrs = Map.empty, cl_used = 0, cl_closed = {}\<rparr>"

definition cl_done :: "string \<Rightarrow> CacheLock \<Rightarrow> CacheLock" where
  "cl_done addr cl = cl\<lparr>cl_addrs := (cl_addrs cl)(addr := None)\<rparr>"

text \<open>\<open>hold\<close> returns the channel its closure will close after \<open>cl_done\<close>.\<close>

definition hold :: "string \<Rightarrow> CacheLock \<Rightarrow> CacheLock \<times> nat" where
  "hold addr cl =
     (cl\<lparr>cl_addrs := (cl_addrs cl)(addr \<mapsto> cl_used cl), cl_used := cl_used cl + 1\<rparr>, cl_used cl)"

text \<open>\<open>TryLock\<close>: (busy, channel): the channel to wait for, or the one the returned closure closes.\<close>

definition CacheLock_TryLock :: "string \<Rightarrow> CacheLock \<Rightarrow> CacheLock \<times> bool \<times> nat" where
  "CacheLock_TryLock addr cl =
     (case cl_addrs cl addr of
        Some wait \<Rightarrow> (cl, True, wait)
      | None \<Rightarrow> (let (cl', d) = hold addr cl in (cl', False, d)))"

definition cl_close :: "nat \<Rightarrow> CacheLock \<Rightarrow> CacheLock" where
  "cl_close ch cl = cl\<lparr>cl_closed := insert ch (cl_closed cl)\<rparr>"

section \<open>Callers\<close>

text \<open>
  A caller is idle, waits for a channel, holds a key, or has released a key and not yet closed its
  channel. \<open>tryl\<close> gives (busy, channel); \<open>rel\<close> gives the channel that is still to be closed.
\<close>

datatype 'k caller = Idle | Waiting 'k nat | Holding 'k nat | Closing nat

inductive lock_step ::
  "('k \<Rightarrow> 's \<Rightarrow> 's \<times> bool \<times> nat) \<Rightarrow> ('k \<Rightarrow> nat \<Rightarrow> 's \<Rightarrow> ('s \<times> nat option) option) \<Rightarrow> (nat \<Rightarrow> 's \<Rightarrow> 's)
     \<Rightarrow> ('s \<Rightarrow> nat set) \<Rightarrow> 's \<times> (nat \<Rightarrow> 'k caller) \<Rightarrow> 's \<times> (nat \<Rightarrow> 'k caller) \<Rightarrow> bool"
  for tryl rel cls closed where
  acquire: "pc i = Idle \<Longrightarrow> tryl k s = (s', False, ch)
     \<Longrightarrow> lock_step tryl rel cls closed (s, pc) (s', pc(i := Holding k ch))"
| busy: "pc i = Idle \<Longrightarrow> tryl k s = (s', True, ch)
     \<Longrightarrow> lock_step tryl rel cls closed (s, pc) (s', pc(i := Waiting k ch))"
| wake: "pc i = Waiting k ch \<Longrightarrow> ch \<in> closed s
     \<Longrightarrow> lock_step tryl rel cls closed (s, pc) (s, pc(i := Idle))"
| give_up: "pc i = Waiting k ch \<Longrightarrow> lock_step tryl rel cls closed (s, pc) (s, pc(i := Idle))"
| release: "pc i = Holding k ch \<Longrightarrow> rel k ch s = Some (s', None)
     \<Longrightarrow> lock_step tryl rel cls closed (s, pc) (s', pc(i := Idle))"
| release_open: "pc i = Holding k ch \<Longrightarrow> rel k ch s = Some (s', Some ch')
     \<Longrightarrow> lock_step tryl rel cls closed (s, pc) (s', pc(i := Closing ch'))"
| close: "pc i = Closing ch \<Longrightarrow> lock_step tryl rel cls closed (s, pc) (cls ch s, pc(i := Idle))"

definition mutex_try :: "unit \<Rightarrow> Mutex \<Rightarrow> Mutex \<times> bool \<times> nat" where
  "mutex_try u m = (case tryLock m of (m2, busy, wait) \<Rightarrow>
     (m2, busy, case wait of Some ch \<Rightarrow> ch | None \<Rightarrow> the (mu_c m2)))"

definition mutex_rel :: "unit \<Rightarrow> nat \<Rightarrow> Mutex \<Rightarrow> (Mutex \<times> nat option) option" where
  "mutex_rel u ch m = map_option (\<lambda>m2. (m2, None)) (Unlock m)"

definition cachelock_rel :: "string \<Rightarrow> nat \<Rightarrow> CacheLock \<Rightarrow> (CacheLock \<times> nat option) option" where
  "cachelock_rel addr ch cl = Some (cl_done addr cl, Some ch)"

definition mutex_run :: "Mutex \<times> (nat \<Rightarrow> unit caller) \<Rightarrow> bool" where
  "mutex_run = (lock_step mutex_try mutex_rel (\<lambda>_ s. s) mu_closed)\<^sup>*\<^sup>* (NewMutex, \<lambda>_. Idle)"

definition cachelock_run :: "CacheLock \<times> (nat \<Rightarrow> string caller) \<Rightarrow> bool" where
  "cachelock_run = (lock_step CacheLock_TryLock cachelock_rel cl_close cl_closed)\<^sup>*\<^sup>* (NewCacheLock, \<lambda>_. Idle)"

section \<open>The contract\<close>

locale lock_table =
  fixes owner :: "'s \<Rightarrow> 'k \<Rightarrow> nat option"
    and tryl :: "'k \<Rightarrow> 's \<Rightarrow> 's \<times> bool \<times> nat"
    and rel :: "'k \<Rightarrow> nat \<Rightarrow> 's \<Rightarrow> ('s \<times> nat option) option"
    and cls :: "nat \<Rightarrow> 's \<Rightarrow> 's"
    and closed :: "'s \<Rightarrow> nat set"
  assumes try_free: "owner s k = None \<Longrightarrow>
      \<exists>s' ch. tryl k s = (s', False, ch) \<and> owner s' = (owner s)(k \<mapsto> ch) \<and> closed s \<subseteq> closed s'"
    and try_busy: "owner s k = Some ch \<Longrightarrow> tryl k s = (s, True, ch)"
    and rel_held: "owner s k = Some ch \<Longrightarrow>
      \<exists>s' p. rel k ch s = Some (s', p) \<and> owner s' = (owner s)(k := None) \<and> closed s \<subseteq> closed s'
        \<and> (case p of None \<Rightarrow> ch \<in> closed s' | Some ch' \<Rightarrow> ch' = ch)"
    and close_owner: "owner (cls ch s) = owner s"
    and close_closed: "(\<exists>s0 k p s1. rel k ch s0 = Some (s1, p) \<and> p \<noteq> None) \<Longrightarrow> closed (cls ch s) = insert ch (closed s)"
begin

definition hold_ok :: "'s \<Rightarrow> (nat \<Rightarrow> 'k caller) \<Rightarrow> bool" where
  "hold_ok s pc \<longleftrightarrow> (\<forall>i k ch. pc i = Holding k ch \<longrightarrow> owner s k = Some ch)"

definition exclusive :: "(nat \<Rightarrow> 'k caller) \<Rightarrow> bool" where
  "exclusive pc \<longleftrightarrow> (\<forall>i j k ch ch'. pc i = Holding k ch \<longrightarrow> pc j = Holding k ch' \<longrightarrow> i = j)"

definition owned_ok :: "'s \<Rightarrow> (nat \<Rightarrow> 'k caller) \<Rightarrow> bool" where
  "owned_ok s pc \<longleftrightarrow> (\<forall>k ch. owner s k = Some ch \<longrightarrow> (\<exists>i. pc i = Holding k ch))"

definition can_close :: "nat \<Rightarrow> bool" where
  "can_close ch \<longleftrightarrow> (\<exists>s0 k p s1. rel k ch s0 = Some (s1, p) \<and> p \<noteq> None)"

definition closing_ok :: "(nat \<Rightarrow> 'k caller) \<Rightarrow> bool" where
  "closing_ok pc \<longleftrightarrow> (\<forall>i ch. pc i = Closing ch \<longrightarrow> can_close ch)"

definition wait_ok :: "'s \<Rightarrow> (nat \<Rightarrow> 'k caller) \<Rightarrow> bool" where
  "wait_ok s pc \<longleftrightarrow> (\<forall>i k ch. pc i = Waiting k ch \<longrightarrow>
     ch \<in> closed s \<or> owner s k = Some ch \<or> (\<exists>j. pc j = Closing ch))"

definition lock_inv :: "'s \<times> (nat \<Rightarrow> 'k caller) \<Rightarrow> bool" where
  "lock_inv st \<longleftrightarrow> (case st of (s, pc) \<Rightarrow>
     hold_ok s pc \<and> exclusive pc \<and> owned_ok s pc \<and> closing_ok pc \<and> wait_ok s pc)"

lemma wait_ok_step:
  assumes "wait_ok s pc" and "closed s \<subseteq> closed s'"
    and "\<And>k ch. owner s k = Some ch \<Longrightarrow> owner s' k = Some ch \<or> ch \<in> closed s' \<or> x = Closing ch"
    and "\<And>ch. pc i = Closing ch \<Longrightarrow> ch \<in> closed s'"
    and "\<And>k ch. x = Waiting k ch \<Longrightarrow> owner s' k = Some ch"
  shows "wait_ok s' (pc(i := x))"
  unfolding wait_ok_def
proof (intro allI impI)
  fix n k ch
  assume n: "(pc(i := x)) n = Waiting k ch"
  show "ch \<in> closed s' \<or> owner s' k = Some ch \<or> (\<exists>j. (pc(i := x)) j = Closing ch)"
  proof (cases "n = i")
    case True
    then show ?thesis using n assms(5) by simp
  next
    case False
    then have "pc n = Waiting k ch" using n by simp
    then consider "ch \<in> closed s" | "owner s k = Some ch" | j where "pc j = Closing ch"
      using assms(1) unfolding wait_ok_def by blast
    then show ?thesis
    proof cases
      case 1
      then show ?thesis using assms(2) by blast
    next
      case 2
      then show ?thesis using assms(3) [of k ch] by (metis fun_upd_same)
    next
      case (3 j)
      then show ?thesis using assms(4) [of ch] by (metis fun_upd_other)
    qed
  qed
qed

text \<open>A caller that holds nothing changes to a state in which it holds nothing.\<close>

lemma idle_change:
  assumes "hold_ok s pc" and "exclusive pc" and "owned_ok s pc" and "closing_ok pc"
    and "\<And>k ch. pc i \<noteq> Holding k ch" and "\<And>k ch. x \<noteq> Holding k ch" and "\<And>ch. x = Closing ch \<Longrightarrow> can_close ch"
  shows "hold_ok s (pc(i := x)) \<and> exclusive (pc(i := x)) \<and> owned_ok s (pc(i := x)) \<and> closing_ok (pc(i := x))"
proof -
  have "owned_ok s (pc(i := x))"
    using assms(3,5) unfolding owned_ok_def by (metis fun_upd_apply)
  then show ?thesis using assms by (auto simp: hold_ok_def exclusive_def closing_ok_def)
qed

lemma released:
  assumes "hold_ok s pc" and "exclusive pc" and "owned_ok s pc" and "closing_ok pc"
    and "pc i = Holding k ch" and "owner s' = (owner s)(k := None)"
    and "\<And>k ch. x \<noteq> Holding k ch" and "\<And>ch. x = Closing ch \<Longrightarrow> can_close ch"
  shows "hold_ok s' (pc(i := x)) \<and> exclusive (pc(i := x)) \<and> owned_ok s' (pc(i := x)) \<and> closing_ok (pc(i := x))"
proof (intro conjI)
  show "hold_ok s' (pc(i := x))"
    using assms(1,2,5,6,7) unfolding hold_ok_def exclusive_def by (auto split: if_splits)
  show "owned_ok s' (pc(i := x))"
    using assms(3,5,6) unfolding owned_ok_def by (metis caller.inject(2) fun_upd_apply option.distinct(1))
  show "exclusive (pc(i := x))" using assms(2,7) by (auto simp: exclusive_def)
  show "closing_ok (pc(i := x))" using assms(4,8) by (auto simp: closing_ok_def)
qed

lemma lock_step_inv:
  assumes "lock_step tryl rel cls closed st st'" and "lock_inv st"
  shows "lock_inv st'"
  using assms(1)
proof (cases rule: lock_step.cases)
  case (acquire pc i k s s' ch)
  have none: "owner s k = None"
  proof (cases "owner s k")
    case (Some c)
    then show ?thesis using try_busy [OF Some] acquire(4) by simp
  qed simp
  have o: "owner s' = (owner s)(k \<mapsto> ch)" "closed s \<subseteq> closed s'"
    using try_free [OF none] acquire(4) by auto
  have inv: "hold_ok s pc" "exclusive pc" "owned_ok s pc" "closing_ok pc" "wait_ok s pc"
    using assms(2) acquire(1) by (simp_all add: lock_inv_def)
  have "hold_ok s' (pc(i := Holding k ch))" using inv(1) none o(1) by (auto simp: hold_ok_def)
  moreover have "exclusive (pc(i := Holding k ch))"
    using inv(1,2) none by (auto simp: exclusive_def hold_ok_def)
  moreover have "owned_ok s' (pc(i := Holding k ch))"
    using inv(3) acquire(3) o(1) by (auto simp: owned_ok_def split: if_splits) (metis caller.distinct(3))
  moreover have "closing_ok (pc(i := Holding k ch))" using inv(4) by (auto simp: closing_ok_def)
  moreover have "wait_ok s' (pc(i := Holding k ch))"
    by (rule wait_ok_step [OF inv(5) o(2)]) (use none o(1) acquire(3) in \<open>auto split: if_splits\<close>)
  ultimately show ?thesis using acquire(2) by (simp add: lock_inv_def)
next
  case (busy pc i k s s' ch)
  have some: "owner s k = Some ch \<and> s' = s"
  proof (cases "owner s k")
    case None
    then show ?thesis using try_free [OF None] busy(4) by auto
  next
    case (Some c)
    then show ?thesis using try_busy [OF Some] busy(4) by simp
  qed
  have inv: "hold_ok s pc" "exclusive pc" "owned_ok s pc" "closing_ok pc" "wait_ok s pc"
    using assms(2) busy(1) by (simp_all add: lock_inv_def)
  have "wait_ok s (pc(i := Waiting k ch))"
    by (rule wait_ok_step [OF inv(5)]) (use some busy(3) in auto)
  then show ?thesis
    using inv idle_change [OF inv(1-4), of i "Waiting k ch"] some busy(2,3) by (simp add: lock_inv_def)
next
  case (wake pc i k ch s)
  have inv: "hold_ok s pc" "exclusive pc" "owned_ok s pc" "closing_ok pc" "wait_ok s pc"
    using assms(2) wake(1) by (simp_all add: lock_inv_def)
  have "wait_ok s (pc(i := Idle))" by (rule wait_ok_step [OF inv(5)]) (use wake(3) in auto)
  then show ?thesis
    using inv idle_change [OF inv(1-4), of i Idle] wake by (simp add: lock_inv_def)
next
  case (give_up pc i k ch s)
  have inv: "hold_ok s pc" "exclusive pc" "owned_ok s pc" "closing_ok pc" "wait_ok s pc"
    using assms(2) give_up(1) by (simp_all add: lock_inv_def)
  have "wait_ok s (pc(i := Idle))" by (rule wait_ok_step [OF inv(5)]) (use give_up(3) in auto)
  then show ?thesis
    using inv idle_change [OF inv(1-4), of i Idle] give_up by (simp add: lock_inv_def)
next
  case (release pc i k ch s s')
  have inv: "hold_ok s pc" "exclusive pc" "owned_ok s pc" "closing_ok pc" "wait_ok s pc"
    using assms(2) release(1) by (simp_all add: lock_inv_def)
  have own: "owner s k = Some ch" using inv(1) release(3) by (auto simp: hold_ok_def)
  have o: "owner s' = (owner s)(k := None)" "closed s \<subseteq> closed s'" "ch \<in> closed s'"
    using rel_held [OF own] release(4) by auto
  have "wait_ok s' (pc(i := Idle))"
    by (rule wait_ok_step [OF inv(5) o(2)]) (use own o release(3) in auto)
  then show ?thesis
    using released [OF inv(1-4) release(3) o(1), of Idle] release(2) by (simp add: lock_inv_def)
next
  case (release_open pc i k ch s s' ch')
  have inv: "hold_ok s pc" "exclusive pc" "owned_ok s pc" "closing_ok pc" "wait_ok s pc"
    using assms(2) release_open(1) by (simp_all add: lock_inv_def)
  have own: "owner s k = Some ch" using inv(1) release_open(3) by (auto simp: hold_ok_def)
  have o: "owner s' = (owner s)(k := None)" "closed s \<subseteq> closed s'" "ch' = ch"
    using rel_held [OF own] release_open(4) by auto
  have "can_close ch'" unfolding can_close_def using release_open(4) o(3) by blast
  moreover have "wait_ok s' (pc(i := Closing ch'))"
    by (rule wait_ok_step [OF inv(5) o(2)]) (use own o release_open(3) in auto)
  ultimately show ?thesis
    using released [OF inv(1-4) release_open(3) o(1), of "Closing ch'"] release_open(2)
    by (simp add: lock_inv_def)
next
  case (close pc i ch s)
  have inv: "hold_ok s pc" "exclusive pc" "owned_ok s pc" "closing_ok pc" "wait_ok s pc"
    using assms(2) close(1) by (simp_all add: lock_inv_def)
  have "can_close ch" using inv(4) close(3) by (simp add: closing_ok_def)
  then have cl: "closed (cls ch s) = insert ch (closed s)"
    using close_closed unfolding can_close_def by blast
  have "wait_ok (cls ch s) (pc(i := Idle))"
    by (rule wait_ok_step [OF inv(5)]) (use cl close_owner close(3) in auto)
  moreover have "hold_ok (cls ch s) = hold_ok s" "owned_ok (cls ch s) = owned_ok s"
    by (simp_all add: hold_ok_def owned_ok_def close_owner fun_eq_iff)
  ultimately show ?thesis
    using inv idle_change [OF inv(1-4), of i Idle] close by (simp add: lock_inv_def)
qed

lemma run_inv:
  assumes "(lock_step tryl rel cls closed)\<^sup>*\<^sup>* (s0, \<lambda>_. Idle) st" and "\<And>k. owner s0 k = None"
  shows "lock_inv st"
  using assms(1)
proof (induction rule: rtranclp_induct)
  case base
  show ?case using assms(2) by (simp add: lock_inv_def hold_ok_def exclusive_def owned_ok_def closing_ok_def wait_ok_def)
next
  case (step y z)
  then show ?case using lock_step_inv by blast
qed

lemma mutual_exclusion:
  assumes "(lock_step tryl rel cls closed)\<^sup>*\<^sup>* (s0, \<lambda>_. Idle) (s, pc)" and "\<And>k. owner s0 k = None"
    and "pc i = Holding k ch" and "pc j = Holding k ch'"
  shows "i = j"
  using run_inv [OF assms(1,2)] assms(3,4) unfolding lock_inv_def exclusive_def by auto

lemma no_lost_wakeup:
  assumes "(lock_step tryl rel cls closed)\<^sup>*\<^sup>* (s0, \<lambda>_. Idle) (s, pc)" and "\<And>k. owner s0 k = None"
    and "pc i = Waiting k ch"
  shows "ch \<in> closed s \<or> (\<exists>j. pc j = Holding k ch) \<or> (\<exists>j. pc j = Closing ch)"
  using run_inv [OF assms(1,2)] assms(3) unfolding lock_inv_def wait_ok_def owned_ok_def prod.case by blast

end

interpretation mutex_table: lock_table "\<lambda>m (_ :: unit). mu_c m" mutex_try mutex_rel "\<lambda>_ s. s" mu_closed
  by unfold_locales
    (auto simp: mutex_try_def tryLock_def mutex_rel_def Unlock_def fun_eq_iff)

interpretation cachelock_table: lock_table cl_addrs CacheLock_TryLock cachelock_rel cl_close cl_closed
  by unfold_locales
    (auto simp: CacheLock_TryLock_def hold_def cachelock_rel_def cl_done_def cl_close_def)

section \<open>Properties\<close>

text \<open>\<open>trylock.Mutex\<close>: however the callers interleave, at most one holds the lock, and a caller
  that waits for a channel has an owner whose unlock will close it, or finds it closed.\<close>

theorem Mutex_exclusive:
  assumes "mutex_run (s, pc)"
  shows "(pc i = Holding () ch \<and> pc j = Holding () ch' \<longrightarrow> i = j)
    \<and> (pc i = Waiting () ch \<longrightarrow> ch \<in> mu_closed s \<or> (\<exists>j. pc j = Holding () ch))"
proof -
  have run: "(lock_step mutex_try mutex_rel (\<lambda>_ s. s) mu_closed)\<^sup>*\<^sup>* (NewMutex, \<lambda>_. Idle) (s, pc)"
    using assms by (simp add: mutex_run_def)
  have free: "mu_c NewMutex = None" by (simp add: NewMutex_def)
  have "mutex_table.lock_inv (s, pc)" using mutex_table.run_inv [OF run] free by simp
  then have "pc j \<noteq> Closing ch" for j
    by (auto simp: mutex_table.lock_inv_def mutex_table.closing_ok_def mutex_table.can_close_def mutex_rel_def)
  then show ?thesis
    using mutex_table.mutual_exclusion [OF run free, of i "()" ch j ch']
      mutex_table.no_lost_wakeup [OF run free, of i "()" ch] by auto
qed

lemma mutex_run_acquire:
  "mutex_run (fst (mutex_try () NewMutex), (\<lambda>_. Idle)(0 := Holding () 0))"
  unfolding mutex_run_def
  by (rule r_into_rtranclp, rule lock_step.acquire) (simp_all add: mutex_try_def tryLock_def NewMutex_def)

theorem Mutex_exclusive_witness:
  "\<exists>s pc. mutex_run (s, pc) \<and> pc 0 = Holding () 0 \<and> (\<forall>j ch. pc j = Holding () ch \<longrightarrow> (0 :: nat) = j)"
proof -
  let ?pc = "(\<lambda>_. Idle)(0 := Holding () 0) :: nat \<Rightarrow> unit caller"
  have "?pc 0 = Holding () 0" by simp
  then have "\<forall>j ch. ?pc j = Holding () ch \<longrightarrow> 0 = j"
    using Mutex_exclusive [OF mutex_run_acquire, of 0 0] by blast
  then show ?thesis using mutex_run_acquire by (metis fun_upd_same)
qed

text \<open>C33. \<open>CacheLock\<close>: for each address at most one caller holds the lock, and a caller that waits
  finds its channel closed, or the holder of the address or a caller about to close the channel
  is still there.\<close>

theorem CacheLock_exclusive:
  assumes "cachelock_run (s, pc)"
  shows "(pc i = Holding addr ch \<and> pc j = Holding addr ch' \<longrightarrow> i = j)
    \<and> (pc i = Waiting addr ch \<longrightarrow>
         ch \<in> cl_closed s \<or> (\<exists>j. pc j = Holding addr ch) \<or> (\<exists>j. pc j = Closing ch))"
proof -
  have run: "(lock_step CacheLock_TryLock cachelock_rel cl_close cl_closed)\<^sup>*\<^sup>* (NewCacheLock, \<lambda>_. Idle) (s, pc)"
    using assms by (simp add: cachelock_run_def)
  have free: "\<And>k. cl_addrs NewCacheLock k = None" by (simp add: NewCacheLock_def)
  show ?thesis
    using cachelock_table.mutual_exclusion [OF run free, of i addr ch j ch']
      cachelock_table.no_lost_wakeup [OF run free, of i addr ch] by blast
qed

lemma cachelock_run_acquire:
  "cachelock_run (fst (CacheLock_TryLock ''Ms'' NewCacheLock), (\<lambda>_. Idle)(0 := Holding ''Ms'' 0))"
  unfolding cachelock_run_def
  by (rule r_into_rtranclp, rule lock_step.acquire) (simp_all add: CacheLock_TryLock_def hold_def NewCacheLock_def)

theorem CacheLock_exclusive_witness:
  "\<exists>s pc. cachelock_run (s, pc) \<and> pc 0 = Holding ''Ms'' 0 \<and> (\<forall>j ch. pc j = Holding ''Ms'' ch \<longrightarrow> (0 :: nat) = j)"
proof -
  let ?pc = "(\<lambda>_. Idle)(0 := Holding ''Ms'' 0) :: nat \<Rightarrow> string caller"
  have "?pc 0 = Holding ''Ms'' 0" by simp
  then have "\<forall>j ch. ?pc j = Holding ''Ms'' ch \<longrightarrow> 0 = j"
    using CacheLock_exclusive [OF cachelock_run_acquire, of 0 "''Ms''" 0] by blast
  then show ?thesis using cachelock_run_acquire by (metis fun_upd_same)
qed

end
