(* ===== verification/TxSizes.thy ===== *)
theory TxSizes
  imports Prelude
begin

text \<open>
  Transaction sizes, relay fees and mix detection (\<open>txhelpers/txsizes.go\<close>, \<open>txhelpers/cspp.go\<close>).
  Amounts and sizes are Go \<open>int64\<close>s; the product in the fee wraps. The transaction types are those
  of \<open>monetarium-node/wire\<close> with the fields the helpers read; the length of a compact integer
  (\<open>wire.VarIntSerializeSize\<close>) and of an output (\<open>TxOut.SerializeSize\<close>) are parameters.
\<close>

section \<open>Transactions\<close>

record TxIn =
  PrevHash :: hash
  PrevIndex :: nat
  ValueIn :: int
  SKAValueIn :: "int option"

record TxOut =
  txo_Value :: int
  txo_CoinType :: byte
  txo_SKAValue :: "int option"
  txo_PkScript :: "byte list"

record MsgTx =
  txIn :: "TxIn list"
  txOut :: "TxOut list"

section \<open>Fees\<close>

definition DefaultRelayFeePerKb :: int where
  "DefaultRelayFeePerKb = 10000"

definition maxVARAmount :: int where
  "maxVARAmount = 21000000 * 100000000"

definition FeeForSerializeSize :: "int \<Rightarrow> int \<Rightarrow> int" where
  "FeeForSerializeSize relayFeePerKb txSerializeSize =
     (let fee = go_div (wrap64 (relayFeePerKb * txSerializeSize)) 1000;
          fee = (if fee = 0 \<and> relayFeePerKb > 0 then relayFeePerKb else fee)
      in if fee < 0 \<or> fee > maxVARAmount then maxVARAmount else fee)"

section \<open>Sizes\<close>

type_synonym varint_size = "nat \<Rightarrow> int"

definition redeemP2PKHSigScriptSize :: int where
  "redeemP2PKHSigScriptSize = 1 + 73 + 1 + 33"

definition p2pkhPkScriptSize :: int where
  "p2pkhPkScriptSize = 1 + 1 + 1 + 20 + 1 + 1"

definition ticketCommitmentScriptSize :: int where
  "ticketCommitmentScriptSize = 1 + 1 + 20 + 8 + 2"

text \<open>The conversion of a script size to \<open>uint64\<close>.\<close>

definition u64 :: "int \<Rightarrow> nat" where
  "u64 x = nat (x mod 2 ^ 64)"

definition EstimateInputSize :: "varint_size \<Rightarrow> int \<Rightarrow> int" where
  "EstimateInputSize vs scriptSize = 32 + 4 + 1 + 8 + 4 + 4 + vs (u64 scriptSize) + scriptSize + 4"

definition EstimateOutputSize :: "varint_size \<Rightarrow> int \<Rightarrow> int" where
  "EstimateOutputSize vs scriptSize = 8 + 2 + vs (u64 scriptSize) + scriptSize"

definition EstimateSerializeSize ::
  "varint_size \<Rightarrow> (TxOut \<Rightarrow> int) \<Rightarrow> int list \<Rightarrow> TxOut list \<Rightarrow> int \<Rightarrow> int" where
  "EstimateSerializeSize vs serializeSize inputScriptSizes txOuts changeScriptSize =
     (let txInsSize = foldl (\<lambda>n size. n + EstimateInputSize vs size) 0 inputScriptSizes;
          txOutsSize = foldl (\<lambda>n out. n + serializeSize out) 0 txOuts;
          inputCount = length inputScriptSizes;
          changeSize = (if changeScriptSize > 0 then EstimateOutputSize vs changeScriptSize else 0);
          outputCount = (if changeScriptSize > 0 then length txOuts + 1 else length txOuts)
      in 12 + 2 * vs inputCount + vs outputCount + txInsSize + txOutsSize + changeSize)"

definition EstimateSerializeSizeFromScriptSizes ::
  "varint_size \<Rightarrow> int list \<Rightarrow> int list \<Rightarrow> int \<Rightarrow> int" where
  "EstimateSerializeSizeFromScriptSizes vs inputScriptSizes outputScriptSizes changeScriptSize =
     (let txInsSize = foldl (\<lambda>n size. n + EstimateInputSize vs size) 0 inputScriptSizes;
          txOutsSize = foldl (\<lambda>n size. n + EstimateOutputSize vs size) 0 outputScriptSizes;
          inputCount = length inputScriptSizes;
          changeSize = (if changeScriptSize > 0 then EstimateOutputSize vs changeScriptSize else 0);
          outputCount = (if changeScriptSize > 0 then length outputScriptSizes + 1
                         else length outputScriptSizes)
      in 12 + 2 * vs inputCount + vs outputCount + txInsSize + txOutsSize + changeSize)"

definition calcSoloTicketTxSize :: "varint_size \<Rightarrow> int" where
  "calcSoloTicketTxSize vs =
     EstimateSerializeSizeFromScriptSizes vs [redeemP2PKHSigScriptSize]
       [p2pkhPkScriptSize + 1, ticketCommitmentScriptSize, p2pkhPkScriptSize + 1] 0"

section \<open>Mix detection\<close>

definition splitPoints :: "int list" where
  "splitPoints = [2 ^ 36, 2 ^ 34, 2 ^ 32, 2 ^ 30, 2 ^ 28, 2 ^ 26, 2 ^ 24, 2 ^ 22, 2 ^ 20, 2 ^ 18]"

text \<open>\<open>mixedOuts\<close> is a map from denominations to counts (\<open>uint32\<close>), kept as a list of its entries.\<close>

fun count_in :: "int \<Rightarrow> (int \<times> nat) list \<Rightarrow> (int \<times> nat) list" where
  "count_in v [] = [(v, 1)]"
| "count_in v ((w, n) # m) = (if w = v then (w, n + 1) # m else (w, n) # count_in v m)"

definition mixedOuts :: "TxOut list \<Rightarrow> (int \<times> nat) list" where
  "mixedOuts outs =
     foldl (\<lambda>m out. if txo_Value out \<in> set splitPoints then count_in (txo_Value out) m else m) [] outs"

definition best_mix :: "(int \<times> nat) list \<Rightarrow> int \<times> nat" where
  "best_mix entries =
     foldl (\<lambda>(mixDenom, mixCount) (val, cnt).
       if cnt < 3 then (mixDenom, mixCount)
       else if val > mixDenom then (val, cnt) else (mixDenom, mixCount)) (0, 0) entries"

text \<open>\<open>iter\<close> is the order in which the map is walked; lengths stay below \<open>2 ^ 32\<close>.\<close>

definition IsMixTx :: "((int \<times> nat) list \<Rightarrow> (int \<times> nat) list) \<Rightarrow> MsgTx \<Rightarrow> bool \<times> int \<times> nat" where
  "IsMixTx iter tx =
     (if length (txOut tx) < 3 \<or> length (txIn tx) < 3 then (False, 0, 0)
      else
        let (mixDenom, mixCount) = best_mix (iter (mixedOuts (txOut tx)))
        in (mixCount \<ge> length (txOut tx) div 2, mixDenom, mixCount))"

definition IsMixedSplitTx :: "varint_size \<Rightarrow> MsgTx \<Rightarrow> int \<Rightarrow> int \<Rightarrow> bool \<times> int \<times> nat" where
  "IsMixedSplitTx vs tx relayFeeRate ticketPrice =
     (if length (txOut tx) < 6 \<or> length (txIn tx) < 3 then (False, 0, 0)
      else
        let soloTicketTxSize = calcSoloTicketTxSize vs;
            ticketTxFee = (if relayFeeRate \<noteq> DefaultRelayFeePerKb
                           then FeeForSerializeSize relayFeeRate soloTicketTxSize
                           else FeeForSerializeSize DefaultRelayFeePerKb soloTicketTxSize);
            ticketOutAmt = wrap64 (ticketPrice + ticketTxFee);
            numTickets = length (filter (\<lambda>out. txo_Value out = ticketOutAmt) (txOut tx));
            numOtherOut = length (filter (\<lambda>out. txo_Value out \<noteq> ticketOutAmt) (txOut tx))
        in if numTickets < 3 \<or> numOtherOut < 3 then (False, 0, 0)
           else (True, ticketOutAmt, numTickets))"

section \<open>Lemmas\<close>

lemma FeeForSerializeSize_range: "0 \<le> FeeForSerializeSize r n \<and> FeeForSerializeSize r n \<le> maxVARAmount"
  by (simp add: FeeForSerializeSize_def Let_def maxVARAmount_def)

lemma foldl_sum: "foldl (\<lambda>n x. n + f x) (a :: int) xs = a + sum_list (map f xs)"
  by (induction xs arbitrary: a) simp_all

text \<open>The map of counts: its keys are distinct and each entry is the number of outputs.\<close>

lemma count_in_keys: "fst ` set (count_in v m) = insert v (fst ` set m)"
  by (induction v m rule: count_in.induct) auto

lemma count_in_distinct: "distinct (map fst m) \<Longrightarrow> distinct (map fst (count_in v m))"
proof (induction v m rule: count_in.induct)
  case (2 v w n m)
  have "w \<notin> fst ` set (count_in v m)" if "w \<noteq> v" using that 2(2) count_in_keys [of v m] by auto
  then show ?case using 2 by auto
qed simp

lemma map_of_count_in:
  "map_of (count_in v m) = (map_of m)(v \<mapsto> (case map_of m v of None \<Rightarrow> 1 | Some n \<Rightarrow> n + 1))"
  by (induction v m rule: count_in.induct) (auto simp: fun_eq_iff)

lemma mixedOuts_spec:
  "distinct (map fst (mixedOuts outs))
   \<and> (\<forall>v. map_of (mixedOuts outs) v =
        (let n = length (filter (\<lambda>out. txo_Value out = v) outs)
         in if v \<in> set splitPoints \<and> 0 < n then Some n else None))"
proof (induction outs rule: rev_induct)
  case (snoc o' outs)
  let ?m = "mixedOuts outs"
  have step: "mixedOuts (outs @ [o']) =
      (if txo_Value o' \<in> set splitPoints then count_in (txo_Value o') ?m else ?m)"
    by (simp add: mixedOuts_def)
  show ?case
    unfolding step using snoc count_in_distinct [of ?m "txo_Value o'"]
    by (auto simp: map_of_count_in Let_def)
qed (simp add: mixedOuts_def)

text \<open>What \<open>best_mix\<close> computes: the largest denomination with a count of three or more.\<close>

definition best_of :: "(int \<rightharpoonup> nat) \<Rightarrow> int \<times> nat \<Rightarrow> bool" where
  "best_of m r \<longleftrightarrow>
     (if \<exists>v n. m v = Some n \<and> 3 \<le> n \<and> 0 < v
      then m (fst r) = Some (snd r) \<and> 3 \<le> snd r \<and> 0 < fst r
        \<and> (\<forall>v n. m v = Some n \<and> 3 \<le> n \<longrightarrow> v \<le> fst r)
      else r = (0, 0))"

lemma best_of_unique: "best_of m r \<Longrightarrow> best_of m r' \<Longrightarrow> r = r'"
  unfolding best_of_def by (auto split: if_splits intro!: prod_eqI) (metis antisym option.inject)+

lemma best_mix_spec:
  assumes "distinct (map fst entries)"
  shows "best_of (map_of entries) (best_mix entries)"
  using assms
proof (induction entries rule: rev_induct)
  case Nil
  show ?case by (simp add: best_of_def best_mix_def)
next
  case (snoc e entries)
  obtain v n where e: "e = (v, n)" by (cases e)
  obtain d c where b: "best_mix entries = (d, c)" by (cases "best_mix entries")
  have new: "v \<notin> fst ` set entries" "distinct (map fst entries)" using snoc.prems e by auto
  have IH: "best_of (map_of entries) (d, c)" using snoc.IH [OF new(2)] b by simp
  have vnone: "map_of entries v = None" using new(1) by (simp add: map_of_eq_None_iff)
  have m: "map_of (entries @ [e]) = (map_of entries)(v \<mapsto> n)"
    using e vnone by (auto simp: fun_eq_iff map_add_def split: option.split)
  have step: "best_mix (entries @ [e]) = (if n < 3 then (d, c) else if v > d then (v, n) else (d, c))"
    using b e by (simp add: best_mix_def)
  show ?case
  proof (cases "3 \<le> n \<and> v > d")
    case True
    show ?thesis
      using IH True vnone unfolding m step best_of_def by (auto split: if_splits) force+
  next
    case False
    then show ?thesis
      using IH vnone unfolding m step best_of_def by (auto split: if_splits)
  qed
qed

lemma best_mix_perm:
  assumes "mset xs = mset ys" and "distinct (map fst xs)"
  shows "best_mix xs = best_mix ys"
proof -
  have d: "distinct (map fst ys)" using assms by (metis mset_map mset_eq_imp_distinct_iff)
  have "map_of xs = map_of ys" using assms d by (metis map_of_inject_set mset_eq_setD)
  then show ?thesis
    using best_of_unique best_mix_spec [OF assms(2)] best_mix_spec [OF d] by simp
qed

section \<open>Properties\<close>

text \<open>The relay fee. Whatever the rate and the size, the fee lies between zero and the supply of
  21 million coins; for a positive rate and a product that fits 64 bits it is the rate times the
  size in kilobytes, rounded down, or the rate itself where that would be zero, capped by the
  supply.\<close>

theorem FeeForSerializeSize_correct:
  "0 \<le> FeeForSerializeSize rate sz \<and> FeeForSerializeSize rate sz \<le> maxVARAmount
   \<and> (0 < rate \<and> 0 \<le> sz \<and> rate * sz < 2 ^ 63 \<longrightarrow>
        FeeForSerializeSize rate sz
          = min maxVARAmount (if rate * sz < 1000 then rate else rate * sz div 1000))"
proof (intro conjI impI)
  assume h: "0 < rate \<and> 0 \<le> sz \<and> rate * sz < 2 ^ 63"
  define p where "p = rate * sz"
  have p: "0 \<le> p" "p < 2 ^ 63" using h by (simp_all add: p_def)
  have "wrap64 p = p" using p by (intro wrap64_id) linarith+
  then have fee: "go_div (wrap64 p) 1000 = p div 1000" using p(1) by simp
  have "FeeForSerializeSize rate sz = min maxVARAmount (if p < 1000 then rate else p div 1000)"
  proof (cases "p < 1000")
    case True
    then have "p div 1000 = 0" using p(1) by simp
    then show ?thesis
      unfolding FeeForSerializeSize_def p_def [symmetric] fee using True h
      by (simp add: Let_def maxVARAmount_def min_def)
  next
    case False
    then have "0 < p div 1000" by (simp add: pos_imp_zdiv_pos_iff)
    then show ?thesis
      unfolding FeeForSerializeSize_def p_def [symmetric] fee using False h
      by (simp add: Let_def maxVARAmount_def min_def)
  qed
  then show "FeeForSerializeSize rate sz
      = min maxVARAmount (if rate * sz < 1000 then rate else rate * sz div 1000)"
    by (simp add: p_def)
qed (simp_all add: FeeForSerializeSize_range)

theorem FeeForSerializeSize_correct_witness: "FeeForSerializeSize 10000 298 = 2980"
  using FeeForSerializeSize_correct [of 10000 298] by (simp add: maxVARAmount_def)

text \<open>Two size estimates agree: for outputs whose serialized size is the estimate for their script
  size, the estimate from the outputs is the estimate from the script sizes, change included.\<close>

theorem EstimateSerializeSize_agree:
  assumes "\<And>out. out \<in> set outs \<Longrightarrow> serializeSize out = EstimateOutputSize vs (int (length (txo_PkScript out)))"
  shows "EstimateSerializeSize vs serializeSize ins outs change
    = EstimateSerializeSizeFromScriptSizes vs ins (map (\<lambda>out. int (length (txo_PkScript out))) outs) change"
proof -
  have eq: "map serializeSize outs = map (EstimateOutputSize vs) (map (\<lambda>out. int (length (txo_PkScript out))) outs)"
    using assms by simp
  show ?thesis
    unfolding EstimateSerializeSize_def EstimateSerializeSizeFromScriptSizes_def foldl_sum eq
    by (simp only: length_map)
qed

text \<open>The length of a compact integer as the wire format documents it.\<close>

definition example_varint :: varint_size where
  "example_varint n = (if n < 253 then 1 else if n \<le> 65535 then 3 else if n \<le> 4294967295 then 5 else 9)"

definition example_out :: "int \<Rightarrow> TxOut" where
  "example_out v = \<lparr>txo_Value = v, txo_CoinType = 0, txo_SKAValue = None, txo_PkScript = replicate 25 0\<rparr>"

theorem EstimateSerializeSize_agree_witness:
  "EstimateSerializeSize example_varint (\<lambda>out. 11 + int (length (txo_PkScript out))) [108] [example_out 5, example_out 6] 0
     = EstimateSerializeSizeFromScriptSizes example_varint [108] [25, 25] 0"
proof -
  let ?outs = "[example_out 5, example_out 6]"
  have "11 + int (length (txo_PkScript out)) = EstimateOutputSize example_varint (int (length (txo_PkScript out)))"
    if "out \<in> set ?outs" for out
    using that by (auto simp: example_out_def EstimateOutputSize_def example_varint_def u64_def)
  from EstimateSerializeSize_agree [of ?outs "\<lambda>out. 11 + int (length (txo_PkScript out))" example_varint "[108]" 0, OF this]
  show ?thesis by (simp add: example_out_def)
qed

text \<open>Mix detection does not depend on the order in which Go walks the map of counts, and reports
  the largest mix denomination that at least three outputs have, with their number.\<close>

theorem IsMixTx_correct:
  assumes "3 \<le> length (txOut tx)" and "3 \<le> length (txIn tx)" and "\<And>m. mset (iter m) = mset m"
  shows "\<exists>denom n. IsMixTx iter tx = (n \<ge> length (txOut tx) div 2, denom, n)
    \<and> best_of (\<lambda>v. let n = length (filter (\<lambda>out. txo_Value out = v) (txOut tx))
                    in if v \<in> set splitPoints \<and> 0 < n then Some n else None) (denom, n)"
proof -
  let ?m = "mixedOuts (txOut tx)"
  have spec: "distinct (map fst ?m)"
    "map_of ?m = (\<lambda>v. let n = length (filter (\<lambda>out. txo_Value out = v) (txOut tx))
                    in if v \<in> set splitPoints \<and> 0 < n then Some n else None)"
    using mixedOuts_spec [of "txOut tx"] by (auto simp: fun_eq_iff)
  have "best_mix (iter ?m) = best_mix ?m" using best_mix_perm [of ?m "iter ?m"] spec(1) assms(3) by simp
  then show ?thesis
    using assms(1,2) best_mix_spec [OF spec(1)] unfolding spec(2)
    by (cases "best_mix ?m") (auto simp: IsMixTx_def)
qed

definition example_mix :: MsgTx where
  "example_mix = \<lparr>txIn = replicate 3 \<lparr>PrevHash = zeroHash, PrevIndex = 0, ValueIn = 0, SKAValueIn = None\<rparr>,
     txOut = map example_out [2 ^ 20, 2 ^ 20, 7, 2 ^ 20]\<rparr>"

theorem IsMixTx_correct_witness:
  "IsMixTx rev example_mix = (True, 2 ^ 20, 3)
   \<and> (\<exists>denom n. IsMixTx rev example_mix = (n \<ge> 2, denom, n))"
proof -
  have "IsMixTx rev example_mix = (True, 2 ^ 20, 3)" by code_simp
  then show ?thesis using IsMixTx_correct [of example_mix rev] by (auto simp: example_mix_def)
qed

end
