(* ===== verification/SSFee.thy ===== *)
theory SSFee
  imports TxSizes GoBig "HOL-Library.AList"
begin

text \<open>
  Reward distribution (\<open>txhelpers/ssfee.go\<close>) and the block filters of \<open>txhelpers/staketree.go\<close>.
  The stake transaction type, the SSFee marker of a script, the test for an SKA coin type and the
  transaction hash come from the node's packages and are parameters. Amounts are unbounded
  integers, as in the code (\<open>big.Int\<close>).
\<close>

section \<open>SSFee totals\<close>

datatype SSFeeMarker = SSFeeMarkerNone | SSFeeMarkerStaker | SSFeeMarkerMiner

record SSFeeSplit =
  PoW :: "int option"
  PoS :: "int option"

definition MaxPrevOutIndex :: nat where
  "MaxPrevOutIndex = 4294967295"

definition tx_coin :: "(byte \<Rightarrow> bool) \<Rightarrow> MsgTx \<Rightarrow> byte option" where
  "tx_coin isSKA tx =
     map_option txo_CoinType
       (find (\<lambda>out. isSKA (txo_CoinType out) \<and> txo_SKAValue out \<noteq> None) (txOut tx))"

definition ska_net_ins :: "TxIn list \<Rightarrow> int" where
  "ska_net_ins ins =
     foldl (\<lambda>net vin.
       case SKAValueIn vin of
         None \<Rightarrow> net
       | Some v \<Rightarrow>
           if PrevIndex vin = MaxPrevOutIndex \<and> PrevHash vin = zeroHash then net else net - v) 0 ins"

definition ssfee_net :: "bool \<Rightarrow> MsgTx \<Rightarrow> int" where
  "ssfee_net ska tx =
     (if ska then
        foldl (\<lambda>net out. case txo_SKAValue out of None \<Rightarrow> net | Some v \<Rightarrow> net + v)
          (ska_net_ins (txIn tx)) (txOut tx)
      else
        foldl (\<lambda>net out. net + txo_Value out)
          (foldl (\<lambda>net vin. net - ValueIn vin) 0 (txIn tx)) (txOut tx))"

definition tx_marker :: "(byte list \<Rightarrow> SSFeeMarker) \<Rightarrow> MsgTx \<Rightarrow> SSFeeMarker" where
  "tx_marker hasMarker tx =
     (case find (\<lambda>out. hasMarker (txo_PkScript out) \<noteq> SSFeeMarkerNone) (txOut tx) of
        None \<Rightarrow> SSFeeMarkerNone | Some out \<Rightarrow> hasMarker (txo_PkScript out))"

definition add_to :: "int option \<Rightarrow> int \<Rightarrow> int option" where
  "add_to acc v = Some ((case acc of None \<Rightarrow> 0 | Some x \<Rightarrow> x) + v)"

text \<open>The Go map from coin types is an association list whose keys are distinct;
  \<open>AList.update\<close> is the assignment.\<close>

definition ssfee_coin :: "(byte \<Rightarrow> bool) \<Rightarrow> MsgTx \<Rightarrow> byte" where
  "ssfee_coin isSKA tx = (case tx_coin isSKA tx of None \<Rightarrow> 0 | Some c \<Rightarrow> c)"

definition add_marked :: "SSFeeMarker \<Rightarrow> int \<Rightarrow> SSFeeSplit \<Rightarrow> SSFeeSplit" where
  "add_marked marker net split =
     (case marker of
        SSFeeMarkerStaker \<Rightarrow> split\<lparr>PoS := add_to (PoS split) net\<rparr>
      | SSFeeMarkerMiner \<Rightarrow> split\<lparr>PoW := add_to (PoW split) net\<rparr>
      | SSFeeMarkerNone \<Rightarrow> split)"

definition ssfee_step ::
  "(MsgTx \<Rightarrow> bool) \<Rightarrow> (byte \<Rightarrow> bool) \<Rightarrow> (byte list \<Rightarrow> SSFeeMarker)
     \<Rightarrow> (byte \<times> SSFeeSplit) list \<Rightarrow> MsgTx \<Rightarrow> (byte \<times> SSFeeSplit) list" where
  "ssfee_step isSSFee isSKA hasMarker totals tx =
     (if \<not> isSSFee tx then totals
      else if txOut tx = [] then totals
      else
        let ct = ssfee_coin isSKA tx;
            net = ssfee_net (tx_coin isSKA tx \<noteq> None) tx;
            split = (case map_of totals ct of None \<Rightarrow> \<lparr>PoW = None, PoS = None\<rparr> | Some s \<Rightarrow> s)
        in AList.update ct (add_marked (tx_marker hasMarker tx) net split) totals)"

text \<open>The result is nil, \<open>None\<close>, when there are no totals.\<close>

definition blockSSFeeTotalsInternal ::
  "(MsgTx \<Rightarrow> bool) \<Rightarrow> (byte \<Rightarrow> bool) \<Rightarrow> (byte list \<Rightarrow> SSFeeMarker) \<Rightarrow> MsgTx list
     \<Rightarrow> (byte \<times> SSFeeSplit) list option" where
  "blockSSFeeTotalsInternal isSSFee isSKA hasMarker sTxs =
     (let totals = foldl (ssfee_step isSSFee isSKA hasMarker) [] sTxs
      in if totals = [] then None else Some totals)"

section \<open>Formatting\<close>

definition ssfeeVarScale :: int where
  "ssfeeVarScale = 10 ^ 8"

definition ssfeeDp :: int where
  "ssfeeDp = 10 ^ 18"

definition FormatSKAAtoms :: "int option \<Rightarrow> string" where
  "FormatSKAAtoms skaAtoms =
     (case skaAtoms of None \<Rightarrow> ''0'' | Some n \<Rightarrow> if n \<le> 0 then ''0'' else show_int n)"

text \<open>\<open>%0wd\<close> of a number that is not negative.\<close>

definition pad_zeros :: "nat \<Rightarrow> int \<Rightarrow> string" where
  "pad_zeros w n = replicate (w - length (show_int n)) (CHR ''0'') @ show_int n"

definition FormatSKAPerVAR :: "int option \<Rightarrow> int \<Rightarrow> string" where
  "FormatSKAPerVAR skaAtoms varAtoms =
     (case skaAtoms of
        None \<Rightarrow> ''0.000000000000000000''
      | Some ska \<Rightarrow>
          if varAtoms \<le> 0 \<or> ska \<le> 0 then ''0.000000000000000000''
          else
            let resultScaled = (ska * ssfeeVarScale) div varAtoms;
                intPart = resultScaled div ssfeeDp;
                fracPart = resultScaled mod ssfeeDp
            in show_int intPart @ ''.'' @ pad_zeros 18 (wrap64 fracPart))"

definition SSFeeCoinTypes :: "(byte \<times> SSFeeSplit) list list \<Rightarrow> byte set" where
  "SSFeeCoinTypes summaries =
     foldl (\<lambda>out s. foldl (\<lambda>out ct. insert ct out) out (map fst s)) {} summaries"

section \<open>Blocks\<close>

text \<open>A block is its stake transactions; \<open>txHash\<close> is the hash of a transaction.\<close>

type_synonym Block = "MsgTx list"

definition TicketsInBlock :: "(MsgTx \<Rightarrow> bool) \<Rightarrow> (MsgTx \<Rightarrow> hash) \<Rightarrow> Block \<Rightarrow> hash list \<times> MsgTx list" where
  "TicketsInBlock isSStx txHash bl =
     foldl (\<lambda>(tickets, txs) stx. if isSStx stx then (tickets @ [txHash stx], txs @ [stx]) else (tickets, txs))
       ([], []) bl"

definition TicketTxnsInBlock :: "(MsgTx \<Rightarrow> bool) \<Rightarrow> (MsgTx \<Rightarrow> hash) \<Rightarrow> Block \<Rightarrow> hash list \<times> MsgTx list" where
  "TicketTxnsInBlock isSStx txHash bl =
     foldl (\<lambda>(tickets, txs) stx. if isSStx stx then (tickets @ [txHash stx], txs @ [stx]) else (tickets, txs))
       ([], []) bl"

text \<open>A vote spends its ticket with its second input and a revocation with its first; a missing input
  is the index panic.\<close>

fun TicketsSpentInBlock :: "(MsgTx \<Rightarrow> bool) \<Rightarrow> Block \<Rightarrow> hash list option" where
  "TicketsSpentInBlock isSSGen [] = Some []"
| "TicketsSpentInBlock isSSGen (stx # bl) =
     (if isSSGen stx then
        if length (txIn stx) < 2 then None
        else map_option (\<lambda>r. PrevHash (txIn stx ! 1) # r) (TicketsSpentInBlock isSSGen bl)
      else TicketsSpentInBlock isSSGen bl)"

definition VotesInBlock :: "(MsgTx \<Rightarrow> bool) \<Rightarrow> (MsgTx \<Rightarrow> hash) \<Rightarrow> Block \<Rightarrow> hash list" where
  "VotesInBlock isSSGen txHash bl =
     foldl (\<lambda>votes stx. if isSSGen stx then votes @ [txHash stx] else votes) [] bl"

fun RevokedTicketsInBlock :: "(MsgTx \<Rightarrow> bool) \<Rightarrow> Block \<Rightarrow> hash list option" where
  "RevokedTicketsInBlock isSSRtx [] = Some []"
| "RevokedTicketsInBlock isSSRtx (stx # bl) =
     (if isSSRtx stx then
        if txIn stx = [] then None
        else map_option (\<lambda>r. PrevHash (txIn stx ! 0) # r) (RevokedTicketsInBlock isSSRtx bl)
      else RevokedTicketsInBlock isSSRtx bl)"

section \<open>What the totals are\<close>

definition opt0 :: "int option \<Rightarrow> int" where
  "opt0 v = (case v of None \<Rightarrow> 0 | Some x \<Rightarrow> x)"

definition is_coinbase_in :: "TxIn \<Rightarrow> bool" where
  "is_coinbase_in vin \<longleftrightarrow> PrevIndex vin = MaxPrevOutIndex \<and> PrevHash vin = zeroHash"

text \<open>The fee a transaction distributes: outputs less inputs, where an SKA coinbase input is free.\<close>

definition distributed :: "bool \<Rightarrow> MsgTx \<Rightarrow> int" where
  "distributed ska tx =
     (if ska
      then (\<Sum>out\<leftarrow>txOut tx. opt0 (txo_SKAValue out))
             - (\<Sum>vin\<leftarrow>filter (\<lambda>vin. \<not> is_coinbase_in vin) (txIn tx). opt0 (SKAValueIn vin))
      else (\<Sum>out\<leftarrow>txOut tx. txo_Value out) - (\<Sum>vin\<leftarrow>txIn tx. ValueIn vin))"

lemma foldl_plus: "foldl (\<lambda>n x. n + f x) (a :: int) xs = a + (\<Sum>x\<leftarrow>xs. f x)"
  by (induction xs arbitrary: a) auto

lemma foldl_minus: "foldl (\<lambda>n x. n - f x) (a :: int) xs = a - (\<Sum>x\<leftarrow>xs. f x)"
  by (induction xs arbitrary: a) auto

lemma foldl_ska_outs:
  "foldl (\<lambda>net out. case g out of None \<Rightarrow> net | Some v \<Rightarrow> net + v) a xs = a + (\<Sum>x\<leftarrow>xs. opt0 (g x))"
  by (induction xs arbitrary: a) (auto simp: opt0_def split: option.split)

lemma ska_net_ins_sum:
  "ska_net_ins ins = - (\<Sum>vin\<leftarrow>filter (\<lambda>vin. \<not> is_coinbase_in vin) ins. opt0 (SKAValueIn vin))"
proof -
  have "foldl (\<lambda>net vin. case SKAValueIn vin of None \<Rightarrow> net
         | Some v \<Rightarrow> if PrevIndex vin = MaxPrevOutIndex \<and> PrevHash vin = zeroHash then net else net - v) a ins
      = a - (\<Sum>vin\<leftarrow>filter (\<lambda>vin. \<not> is_coinbase_in vin) ins. opt0 (SKAValueIn vin))" for a
    by (induction ins arbitrary: a) (auto simp: opt0_def is_coinbase_in_def split: option.split)
  then show ?thesis by (simp add: ska_net_ins_def)
qed

lemma ssfee_net_distributed: "ssfee_net ska tx = distributed ska tx"
  by (simp add: ssfee_net_def distributed_def foldl_ska_outs ska_net_ins_sum foldl_plus foldl_minus)

text \<open>The transactions that pay fees of one coin, and the total of one side of them.\<close>

definition coin_txs :: "(MsgTx \<Rightarrow> bool) \<Rightarrow> (byte \<Rightarrow> bool) \<Rightarrow> byte \<Rightarrow> MsgTx list \<Rightarrow> MsgTx list" where
  "coin_txs isSSFee isSKA ct txs =
     filter (\<lambda>tx. isSSFee tx \<and> txOut tx \<noteq> [] \<and> ssfee_coin isSKA tx = ct) txs"

definition side_total :: "(byte \<Rightarrow> bool) \<Rightarrow> (byte list \<Rightarrow> SSFeeMarker) \<Rightarrow> SSFeeMarker \<Rightarrow> MsgTx list \<Rightarrow> int option" where
  "side_total isSKA hasMarker side txs =
     (let marked = filter (\<lambda>tx. tx_marker hasMarker tx = side) txs
      in if marked = [] then None else Some (\<Sum>tx\<leftarrow>marked. distributed (tx_coin isSKA tx \<noteq> None) tx))"

definition coin_split ::
  "(MsgTx \<Rightarrow> bool) \<Rightarrow> (byte \<Rightarrow> bool) \<Rightarrow> (byte list \<Rightarrow> SSFeeMarker) \<Rightarrow> MsgTx list \<Rightarrow> (byte \<rightharpoonup> SSFeeSplit)" where
  "coin_split isSSFee isSKA hasMarker txs ct =
     (let l = coin_txs isSSFee isSKA ct txs
      in if l = [] then None
         else Some \<lparr>PoW = side_total isSKA hasMarker SSFeeMarkerMiner l,
                    PoS = side_total isSKA hasMarker SSFeeMarkerStaker l\<rparr>)"

lemma side_total_Nil [simp]: "side_total isSKA hasMarker side [] = None"
  by (simp add: side_total_def)

lemma side_total_snoc:
  "side_total isSKA hasMarker side (l @ [tx]) =
     (if tx_marker hasMarker tx = side
      then add_to (side_total isSKA hasMarker side l) (distributed (tx_coin isSKA tx \<noteq> None) tx)
      else side_total isSKA hasMarker side l)"
  by (simp add: side_total_def add_to_def Let_def)

lemma coin_txs_snoc:
  "coin_txs isSSFee isSKA ct (txs @ [tx]) =
     coin_txs isSSFee isSKA ct txs @
       (if isSSFee tx \<and> txOut tx \<noteq> [] \<and> ssfee_coin isSKA tx = ct then [tx] else [])"
  by (simp add: coin_txs_def)

lemma add_marked_side:
  "add_marked (tx_marker hasMarker tx) (distributed (tx_coin isSKA tx \<noteq> None) tx)
       \<lparr>PoW = side_total isSKA hasMarker SSFeeMarkerMiner l, PoS = side_total isSKA hasMarker SSFeeMarkerStaker l\<rparr>
     = \<lparr>PoW = side_total isSKA hasMarker SSFeeMarkerMiner (l @ [tx]),
        PoS = side_total isSKA hasMarker SSFeeMarkerStaker (l @ [tx])\<rparr>"
  by (cases "tx_marker hasMarker tx") (simp_all add: add_marked_def side_total_snoc)

lemma ssfee_step_fee:
  "isSSFee tx \<and> txOut tx \<noteq> [] \<Longrightarrow>
     map_of (ssfee_step isSSFee isSKA hasMarker t tx) =
       (map_of t)(ssfee_coin isSKA tx \<mapsto>
          add_marked (tx_marker hasMarker tx) (distributed (tx_coin isSKA tx \<noteq> None) tx)
            (case map_of t (ssfee_coin isSKA tx) of None \<Rightarrow> \<lparr>PoW = None, PoS = None\<rparr> | Some s \<Rightarrow> s))"
  by (simp add: ssfee_step_def Let_def AList.update_conv' ssfee_net_distributed)

lemma ssfee_totals_fold:
  "map_of (foldl (ssfee_step isSSFee isSKA hasMarker) [] txs) = coin_split isSSFee isSKA hasMarker txs"
proof (induction txs rule: rev_induct)
  case Nil
  show ?case by (rule ext) (simp add: coin_split_def coin_txs_def)
next
  case (snoc tx txs)
  let ?t = "foldl (ssfee_step isSSFee isSKA hasMarker) [] txs"
  let ?l = "coin_txs isSSFee isSKA (ssfee_coin isSKA tx) txs"
  have old: "(case map_of ?t (ssfee_coin isSKA tx) of None \<Rightarrow> \<lparr>PoW = None, PoS = None\<rparr> | Some s \<Rightarrow> s)
      = \<lparr>PoW = side_total isSKA hasMarker SSFeeMarkerMiner ?l, PoS = side_total isSKA hasMarker SSFeeMarkerStaker ?l\<rparr>"
    by (simp add: snoc.IH coin_split_def Let_def)
  show ?case
  proof (cases "isSSFee tx \<and> txOut tx \<noteq> []")
    case True
    have "map_of (ssfee_step isSSFee isSKA hasMarker ?t tx) =
        (coin_split isSSFee isSKA hasMarker txs)(ssfee_coin isSKA tx \<mapsto>
           \<lparr>PoW = side_total isSKA hasMarker SSFeeMarkerMiner (?l @ [tx]),
            PoS = side_total isSKA hasMarker SSFeeMarkerStaker (?l @ [tx])\<rparr>)"
      unfolding ssfee_step_fee [of isSSFee tx, OF True] unfolding old add_marked_side
      unfolding snoc.IH ..
    also have "\<dots> = coin_split isSSFee isSKA hasMarker (txs @ [tx])"
      using True by (intro ext) (auto simp: coin_split_def coin_txs_snoc Let_def)
    finally show ?thesis by simp
  next
    case False
    then have "ssfee_step isSSFee isSKA hasMarker ?t tx = ?t"
      unfolding ssfee_step_def by auto
    moreover have "coin_split isSSFee isSKA hasMarker (txs @ [tx]) = coin_split isSSFee isSKA hasMarker txs"
      using False by (intro ext) (auto simp: coin_split_def coin_txs_snoc)
    ultimately show ?thesis using snoc.IH by simp
  qed
qed

text \<open>C32. The reward totals of a block are right for every coin: there is an entry exactly for the coins
  that some SSFee transaction with outputs pays, its PoS and PoW sides are the sums, over the
  transactions of that coin whose first marker is SF and MF, of outputs less inputs (SKA coinbase
  inputs not counted), a side with no such transaction is nil, and the whole result is nil exactly
  when the block has no SSFee transaction with outputs.\<close>

theorem ssfee_totals_correct:
  "(case blockSSFeeTotalsInternal isSSFee isSKA hasMarker txs of None \<Rightarrow> Map.empty | Some t \<Rightarrow> map_of t) ct
     = coin_split isSSFee isSKA hasMarker txs ct
   \<and> (blockSSFeeTotalsInternal isSSFee isSKA hasMarker txs = None
        \<longleftrightarrow> filter (\<lambda>tx. isSSFee tx \<and> txOut tx \<noteq> []) txs = [])"
proof -
  let ?t = "foldl (ssfee_step isSSFee isSKA hasMarker) [] txs"
  have "?t = [] \<longleftrightarrow> (\<forall>ct. coin_split isSSFee isSKA hasMarker txs ct = None)"
    unfolding ssfee_totals_fold [of isSSFee isSKA hasMarker txs, symmetric]
    by (simp add: fun_eq_iff [symmetric] flip: empty_eq_map_of_iff)
  also have "\<dots> \<longleftrightarrow> filter (\<lambda>tx. isSSFee tx \<and> txOut tx \<noteq> []) txs = []"
    by (auto simp: coin_split_def coin_txs_def Let_def filter_empty_conv)
  finally have "?t = [] \<longleftrightarrow> filter (\<lambda>tx. isSSFee tx \<and> txOut tx \<noteq> []) txs = []" .
  then show ?thesis
    using ssfee_totals_fold [of isSSFee isSKA hasMarker txs]
    by (auto simp: blockSSFeeTotalsInternal_def Let_def fun_eq_iff)
qed

section \<open>What the ratio string is\<close>

lemma parse_digits_zeros: "parse_digits 0 (replicate k (CHR ''0'') @ s) = parse_digits 0 s"
  by (induction k) (auto simp: char_digit_def)

lemma parse_digits_shift:
  "parse_digits acc s = map_option (\<lambda>n. acc * 10 ^ length s + n) (parse_digits 0 s)"
proof (induction s arbitrary: acc)
  case (Cons ch s)
  show ?case
  proof (cases "char_digit ch")
    case (Some d)
    then show ?thesis
      using Cons.IH [of "10 * acc + d"] Cons.IH [of d]
      by (simp add: option.map_comp comp_def algebra_simps)
  qed simp
qed simp

lemma length_show_nat: "n < 10 ^ k \<Longrightarrow> 0 < k \<Longrightarrow> length (show_nat n) \<le> k"
proof (induction n arbitrary: k rule: show_nat.induct)
  case (1 n)
  show ?case
  proof (cases "n < 10")
    case True
    then show ?thesis using 1 by (subst show_nat.simps) simp
  next
    case False
    then obtain k' where k': "k = Suc k'" "0 < k'"
      using "1.prems" by (cases k; cases "k - 1") auto
    then have "n div 10 < 10 ^ k'"
      using "1.prems"(1) by (simp add: less_mult_imp_div_less mult.commute)
    then have "length (show_nat (n div 10)) \<le> k'" using 1 False k' by blast
    then show ?thesis using False k' by (subst show_nat.simps) simp
  qed
qed

lemma pad_zeros_value:
  assumes "0 \<le> n" "n < 10 ^ w" "0 < w"
  shows "length (pad_zeros w n) = w" "parse_digits 0 (pad_zeros w n) = Some (nat n)"
proof -
  have s: "show_int n = show_nat (nat n)" using assms(1) by (simp add: show_int_def)
  have "nat n < 10 ^ w" using assms(1,2) by (simp add: nat_less_iff)
  then show "length (pad_zeros w n) = w"
    using length_show_nat [of "nat n" w] assms(3) by (simp add: pad_zeros_def s)
  show "parse_digits 0 (pad_zeros w n) = Some (nat n)"
    by (simp add: pad_zeros_def s parse_digits_zeros parse_digits_show_nat)
qed

lemma parse_dec_digits: "s \<noteq> [] \<Longrightarrow> parse_digits 0 s = Some n \<Longrightarrow> parse_dec s = Some (int n)"
  by (cases s) (auto simp: parse_dec_def parse_nat_def char_digit_def split: option.splits)

text \<open>The SKA per VAR ratio is printed with exactly eighteen decimals, and read back without its point it
  is the floor of \<open>ska * 10^8 / var\<close>, the ratio in units of \<open>10^(-18)\<close>: nothing is lost in the
  narrowing of the fractional part to 64 bits.\<close>

theorem FormatSKAPerVAR_value:
  assumes "0 < ska" "0 < var"
  shows "\<exists>ip fp. FormatSKAPerVAR (Some ska) var = ip @ ''.'' @ fp \<and> length fp = 18
           \<and> parse_dec ip = Some (ska * 10 ^ 8 div var div 10 ^ 18)
           \<and> parse_dec (ip @ fp) = Some (ska * 10 ^ 8 div var)"
proof -
  define n where "n = ska * 10 ^ 8 div var"
  have n: "0 \<le> n" using assms by (simp add: n_def pos_imp_zdiv_nonneg_iff)
  have q: "0 \<le> n div 10 ^ 18" using n by (simp add: pos_imp_zdiv_nonneg_iff)
  have f: "0 \<le> n mod 10 ^ 18" "n mod 10 ^ 18 < 10 ^ 18" by simp_all
  have w: "wrap64 (n mod 10 ^ 18) = n mod 10 ^ 18"
    by (rule wrap64_id) (use f in \<open>simp_all add: less_trans\<close>)
  define ip fp where "ip = show_int (n div 10 ^ 18)" and "fp = pad_zeros 18 (n mod 10 ^ 18)"
  have "FormatSKAPerVAR (Some ska) var = ip @ ''.'' @ fp"
    using assms w by (simp add: FormatSKAPerVAR_def ssfeeVarScale_def ssfeeDp_def n_def ip_def fp_def Let_def)
  moreover have fp: "length fp = 18" "parse_digits 0 fp = Some (nat (n mod 10 ^ 18))"
    using pad_zeros_value [OF f] by (simp_all add: fp_def)
  moreover have ip: "parse_digits 0 ip = Some (nat (n div 10 ^ 18))"
    using q by (simp add: ip_def show_int_def parse_digits_show_nat)
  moreover have "nat (n div 10 ^ 18) * 10 ^ 18 + nat (n mod 10 ^ 18) = nat n"
  proof -
    have "int (nat (n div 10 ^ 18) * 10 ^ 18 + nat (n mod 10 ^ 18)) = n"
      using q f by simp
    then show ?thesis by linarith
  qed
  then have "parse_digits 0 (ip @ fp) = Some (nat n)"
    using parse_digits_shift [of "nat (n div 10 ^ 18)" fp] by (simp add: parse_digits_append ip fp)
  then have "parse_dec (ip @ fp) = Some n"
    using parse_dec_digits [of "ip @ fp"] n by (simp add: ip_def)
  moreover have "parse_dec ip = Some (n div 10 ^ 18)" by (simp add: ip_def)
  ultimately show ?thesis unfolding n_def [symmetric] by blast
qed

theorem FormatSKAPerVAR_value_witness:
  "(0 :: int) < 12345678901234567890123 \<and> (0 :: int) < 300000000 \<and>
   (\<exists>ip fp. FormatSKAPerVAR (Some 12345678901234567890123) 300000000 = ip @ ''.'' @ fp \<and> length fp = 18
      \<and> parse_dec ip = Some (12345678901234567890123 * 10 ^ 8 div 300000000 div 10 ^ 18)
      \<and> parse_dec (ip @ fp) = Some (12345678901234567890123 * 10 ^ 8 div 300000000))"
  using FormatSKAPerVAR_value [of 12345678901234567890123 300000000] by simp

section \<open>The block filters\<close>

lemma TicketsInBlock_eq:
  "TicketsInBlock isSStx txHash bl = (map txHash (filter isSStx bl), filter isSStx bl)"
proof -
  have "foldl (\<lambda>(tickets, txs) stx. if isSStx stx then (tickets @ [txHash stx], txs @ [stx]) else (tickets, txs)) (a, b) bl
      = (a @ map txHash (filter isSStx bl), b @ filter isSStx bl)" for a b
    by (induction bl arbitrary: a b) auto
  then show ?thesis by (simp add: TicketsInBlock_def)
qed

lemma TicketTxnsInBlock_eq: "TicketTxnsInBlock isSStx txHash bl = TicketsInBlock isSStx txHash bl"
  by (simp add: TicketTxnsInBlock_def TicketsInBlock_def)

lemma VotesInBlock_eq: "VotesInBlock isSSGen txHash bl = map txHash (filter isSSGen bl)"
proof -
  have "foldl (\<lambda>votes stx. if isSSGen stx then votes @ [txHash stx] else votes) a bl
      = a @ map txHash (filter isSSGen bl)" for a
    by (induction bl arbitrary: a) auto
  then show ?thesis by (simp add: VotesInBlock_def)
qed

lemma TicketsSpentInBlock_eq:
  "(\<And>tx. tx \<in> set bl \<Longrightarrow> isSSGen tx \<Longrightarrow> 2 \<le> length (txIn tx)) \<Longrightarrow>
     TicketsSpentInBlock isSSGen bl = Some (map (\<lambda>tx. PrevHash (txIn tx ! 1)) (filter isSSGen bl))"
  by (induction bl) (auto simp: not_less [symmetric])

lemma RevokedTicketsInBlock_eq:
  "(\<And>tx. tx \<in> set bl \<Longrightarrow> isSSRtx tx \<Longrightarrow> txIn tx \<noteq> []) \<Longrightarrow>
     RevokedTicketsInBlock isSSRtx bl = Some (map (\<lambda>tx. PrevHash (txIn tx ! 0)) (filter isSSRtx bl))"
  by (induction bl) auto

lemma SSFeeCoinTypes_eq: "SSFeeCoinTypes summaries = (\<Union>s\<in>set summaries. fst ` set s)"
proof -
  have "foldl (\<lambda>out s. foldl (\<lambda>out ct. insert ct out) out (map fst s)) A summaries
      = A \<union> (\<Union>s\<in>set summaries. fst ` set s)" for A
    by (induction summaries arbitrary: A) (auto simp: foldl_insert_set)
  then show ?thesis by (simp add: SSFeeCoinTypes_def)
qed

end
