(* ===== verification/ChartData.thy ===== *)
theory ChartData
  imports Prelude "HOL-Library.Monad_Syntax"
begin

text \<open>
  The data behind the charts (\<open>db/cache/charts.go\<close>): block, window and day series, their
  validation and daily aggregation in \<open>Lengthen\<close>, reorganizations, the cache file, and the update
  through registered updaters. Series of \<open>uint64\<close> are lists of 64-bit words; \<open>'f\<close> is
  \<open>float64\<close>, whose values this file only moves. An index out of range is \<open>None\<close>.
\<close>

section \<open>Series\<close>

type_synonym u64 = "64 word"
type_synonym ChartUints = "u64 list"
type_synonym ChartBigInts = "int list"
type_synonym 'f ChartFloats = "'f list"

definition aDay :: u64 where
  "aDay = 86400"

text \<open>\<open>snip\<close> of the three series types; \<open>Snip\<close> of a set never passes a negative length.\<close>

definition snip :: "int \<Rightarrow> 'a list \<Rightarrow> 'a list" where
  "snip mx data =
     (let mx = (if int (length data) < mx then int (length data) else mx) in take (nat mx) data)"

text \<open>\<open>data[s:e]\<close>; an end past the length is refused here, and shown never to occur.\<close>

definition segment :: "nat \<Rightarrow> nat \<Rightarrow> 'a list \<Rightarrow> 'a list option" where
  "segment s e data = (if s \<le> e \<and> e \<le> length data then Some (take (e - s) (drop s data)) else None)"

definition uints_Sum :: "nat \<Rightarrow> nat \<Rightarrow> ChartUints \<Rightarrow> u64 option" where
  "uints_Sum s e data =
     (if e \<le> s then Some 0
      else map_option (\<lambda>xs. foldl (\<lambda>sum v. sum + v) 0 xs) (segment s e data))"

definition uints_Avg :: "nat \<Rightarrow> nat \<Rightarrow> ChartUints \<Rightarrow> u64 option" where
  "uints_Avg s e data =
     (if e \<le> s then Some 0
      else map_option (\<lambda>xs. foldl (\<lambda>sum v. sum + v) 0 xs div of_nat (e - s)) (segment s e data))"

definition nth_opt :: "'a list \<Rightarrow> nat \<Rightarrow> 'a option" where
  "nth_opt xs i = (if i < length xs then Some (xs ! i) else None)"

section \<open>Sets of series\<close>

record zoomSet =
  z_cacheID :: u64
  z_Height :: ChartUints
  z_Time :: ChartUints
  z_PoolSize :: ChartUints
  z_PoolValue :: ChartUints
  z_BlockSize :: ChartUints
  z_TxCount :: ChartUints
  z_NewAtoms :: ChartUints
  z_Chainwork :: ChartBigInts
  z_Fees :: ChartUints
  z_TotalMixed :: ChartUints
  z_AnonymitySet :: ChartUints

definition zoom_Snip :: "int \<Rightarrow> zoomSet \<Rightarrow> zoomSet" where
  "zoom_Snip len zs =
     (let len = (if len < 0 then 0 else len)
      in zs\<lparr>z_Height := snip len (z_Height zs),
             z_Time := snip len (z_Time zs),
             z_PoolSize := snip len (z_PoolSize zs),
             z_PoolValue := snip len (z_PoolValue zs),
             z_BlockSize := snip len (z_BlockSize zs),
             z_TxCount := snip len (z_TxCount zs),
             z_NewAtoms := snip len (z_NewAtoms zs),
             z_Chainwork := snip len (z_Chainwork zs),
             z_Fees := snip len (z_Fees zs),
             z_TotalMixed := snip len (z_TotalMixed zs),
             z_AnonymitySet := snip len (z_AnonymitySet zs)\<rparr>)"

definition newBlockSet :: zoomSet where
  "newBlockSet =
     \<lparr>z_cacheID = 0, z_Height = [], z_Time = [], z_PoolSize = [], z_PoolValue = [], z_BlockSize = [],
      z_TxCount = [], z_NewAtoms = [], z_Chainwork = [], z_Fees = [], z_TotalMixed = [],
      z_AnonymitySet = []\<rparr>"

definition newDaySet :: zoomSet where
  "newDaySet = newBlockSet\<lparr>z_Height := []\<rparr>"

record 'f windowSet =
  w_cacheID :: u64
  w_Time :: ChartUints
  w_Height :: ChartUints
  w_PowDiff :: "'f ChartFloats"
  w_TicketPrice :: ChartUints
  w_StakeCount :: ChartUints
  w_MissedVotes :: ChartUints
  w_StakeCountVersion :: "32 word"

definition window_Snip :: "int \<Rightarrow> 'f windowSet \<Rightarrow> 'f windowSet" where
  "window_Snip len ws =
     (let len = (if len < 0 then 0 else len)
      in ws\<lparr>w_Time := snip len (w_Time ws),
             w_Height := snip len (w_Height ws),
             w_PowDiff := snip len (w_PowDiff ws),
             w_TicketPrice := snip len (w_TicketPrice ws),
             w_StakeCount := snip len (w_StakeCount ws),
             w_MissedVotes := snip len (w_MissedVotes ws)\<rparr>)"

definition newWindowSet :: "'f windowSet" where
  "newWindowSet =
     \<lparr>w_cacheID = 0, w_Time = [], w_Height = [], w_PowDiff = [], w_TicketPrice = [], w_StakeCount = [],
      w_MissedVotes = [], w_StakeCountVersion = 0\<rparr>"

record 'f ChartTip =
  tip_Height :: u64
  tip_Time :: u64
  tip_TicketPrice :: u64
  tip_Difficulty :: 'f
  tip_PoolValue :: u64
  tip_CoinSupply :: u64

record MinerRange =
  FirstSeen :: u64
  LastUsed :: u64

record SKASupplyChartData =
  sup_Heights :: "int list"
  sup_Timestamps :: "int list"
  sup_Values :: "string list"

record SKAFeeChartData =
  fee_Heights :: "int list"
  fee_Timestamps :: "int list"
  fee_Fees :: "string list"

text \<open>The JSON document of a chart is a value of type \<open>'d\<close>.\<close>

record 'd cachedChart =
  cc_cacheID :: u64
  cc_data :: 'd

record ('f, 'd) ChartData =
  DiffInterval :: int
  StartPOS :: int
  Blocks :: zoomSet
  Windows :: "'f windowSet"
  Days :: zoomSet
  chart_cache :: "string \<rightharpoonup> 'd cachedChart"
  SKASupply :: "(byte \<rightharpoonup> SKASupplyChartData)"
  SKAFees :: "(byte \<rightharpoonup> SKAFeeChartData)"
  MinerRanges :: "MinerRange list"
  Tip :: "'f ChartTip"

definition NewChartData :: "int \<Rightarrow> int \<Rightarrow> 'f \<Rightarrow> ('f, 'd) ChartData" where
  "NewChartData stakeDiffWindowSize stakeValidationHeight zero =
     \<lparr>DiffInterval = stakeDiffWindowSize, StartPOS = stakeValidationHeight,
      Blocks = newBlockSet, Windows = newWindowSet, Days = newDaySet, chart_cache = Map.empty,
      SKASupply = Map.empty, SKAFees = Map.empty, MinerRanges = [],
      Tip = \<lparr>tip_Height = 0, tip_Time = 0, tip_TicketPrice = 0, tip_Difficulty = zero,
             tip_PoolValue = 0, tip_CoinSupply = 0\<rparr>\<rparr>"

section \<open>Validation\<close>

datatype chart_error =
    LengthMismatch
  | ZeroWindows
  | DayBinMismatch
  | FetchFailed
  | StateChanged
  | AppendFailed
  | NoCacheFile
  | CacheVersion string

definition ValidateLengths :: "nat list \<Rightarrow> nat \<times> chart_error option" where
  "ValidateLengths lens =
     (case lens of
        [] \<Rightarrow> (0, None)
      | firstLen # rest \<Rightarrow>
          let (shortest, longest) =
            foldl (\<lambda>(shortest, longest) dLen.
              if dLen \<noteq> firstLen then
                if dLen < shortest then (dLen, longest)
                else if dLen > longest then (shortest, dLen)
                else (shortest, longest)
              else (shortest, longest)) (firstLen, firstLen) rest
          in if shortest \<noteq> longest then (shortest, Some LengthMismatch) else (firstLen, None))"

definition zoom_lens :: "zoomSet \<Rightarrow> nat list" where
  "zoom_lens s =
     [length (z_Height s), length (z_Time s), length (z_PoolSize s), length (z_PoolValue s),
      length (z_BlockSize s), length (z_TxCount s), length (z_NewAtoms s), length (z_Chainwork s),
      length (z_Fees s), length (z_TotalMixed s), length (z_AnonymitySet s)]"

definition window_lens :: "'f windowSet \<Rightarrow> nat list" where
  "window_lens s =
     [length (w_Time s), length (w_PowDiff s), length (w_TicketPrice s), length (w_StakeCount s),
      length (w_MissedVotes s), length (w_Height s)]"

definition midnight :: "u64 \<Rightarrow> u64" where
  "midnight t = (if t > 0 then t - t mod aDay else 0)"

section \<open>Lengthen\<close>

fun first_after :: "u64 \<Rightarrow> nat \<Rightarrow> ChartUints \<Rightarrow> nat" where
  "first_after start i [] = 0"
| "first_after start i (t # ts) = (if t > start then i else first_after start (i + 1) ts)"

text \<open>The loop over \<open>blocks.Time[offset:]\<close>: the index ranges of the new days and their midnights.\<close>

fun day_loop ::
  "u64 \<Rightarrow> nat \<Rightarrow> ChartUints \<Rightarrow> nat \<Rightarrow> nat \<Rightarrow> u64 \<Rightarrow> u64 \<Rightarrow> (nat \<times> nat) list \<times> ChartUints" where
  "day_loop lastMid offset [] i startIdx start nxt = ([], [])"
| "day_loop lastMid offset (t # ts) i startIdx start nxt =
     (if t \<ge> nxt then
        let (intervals, times) =
          (if t > lastMid then ([], []) else day_loop lastMid offset ts (i + 1) i nxt (nxt + aDay))
        in ((startIdx + offset, i + offset) # intervals, start # times)
      else day_loop lastMid offset ts (i + 1) startIdx start nxt)"

definition add_day :: "zoomSet \<Rightarrow> nat \<times> nat \<Rightarrow> zoomSet \<Rightarrow> zoomSet option" where
  "add_day blocks interval days =
     (let s = fst interval; e = snd interval in do {
        poolSize \<leftarrow> uints_Avg s e (z_PoolSize blocks);
        poolValue \<leftarrow> uints_Avg s e (z_PoolValue blocks);
        blockSize \<leftarrow> uints_Sum s e (z_BlockSize blocks);
        txCount \<leftarrow> uints_Sum s e (z_TxCount blocks);
        newAtoms \<leftarrow> uints_Sum s e (z_NewAtoms blocks);
        chainwork \<leftarrow> nth_opt (z_Chainwork blocks) e;
        fees \<leftarrow> uints_Sum s e (z_Fees blocks);
        totalMixed \<leftarrow> uints_Sum s e (z_TotalMixed blocks);
        anonymitySet \<leftarrow> uints_Avg s e (z_AnonymitySet blocks);
        Some (days\<lparr>z_Height := z_Height days @ [of_nat e - 1],
                    z_PoolSize := z_PoolSize days @ [poolSize],
                    z_PoolValue := z_PoolValue days @ [poolValue],
                    z_BlockSize := z_BlockSize days @ [blockSize],
                    z_TxCount := z_TxCount days @ [txCount],
                    z_NewAtoms := z_NewAtoms days @ [newAtoms],
                    z_Chainwork := z_Chainwork days @ [chainwork],
                    z_Fees := z_Fees days @ [fees],
                    z_TotalMixed := z_TotalMixed days @ [totalMixed],
                    z_AnonymitySet := z_AnonymitySet days @ [anonymitySet]\<rparr>)
      })"

fun add_days :: "zoomSet \<Rightarrow> (nat \<times> nat) list \<Rightarrow> zoomSet \<Rightarrow> zoomSet option" where
  "add_days blocks [] days = Some days"
| "add_days blocks (iv # ivs) days =
     (case add_day blocks iv days of None \<Rightarrow> None | Some d \<Rightarrow> add_days blocks ivs d)"

text \<open>The days that a non-empty run of blocks adds.\<close>

definition day_start :: "zoomSet \<Rightarrow> zoomSet \<Rightarrow> u64" where
  "day_start blocks days =
     (if z_Time days \<noteq> [] then List.last (z_Time days) + aDay else midnight (hd (z_Time blocks)))"

definition new_days :: "zoomSet \<Rightarrow> zoomSet \<Rightarrow> (nat \<times> nat) list \<times> ChartUints" where
  "new_days blocks days =
     (let lastMid = midnight (List.last (z_Time blocks));
          start = day_start blocks days;
          offset = first_after start 0 (z_Time blocks)
      in if lastMid > start + aDay
         then day_loop lastMid offset (drop offset (z_Time blocks)) 0 0 start (start + aDay)
         else ([], []))"

definition lengthen_days :: "zoomSet \<Rightarrow> zoomSet \<Rightarrow> ((nat \<times> nat) list \<times> zoomSet) option" where
  "lengthen_days blocks days =
     (let (intervals, times) = new_days blocks days
      in map_option (\<lambda>d. (intervals, d))
           (add_days blocks intervals (days\<lparr>z_Time := z_Time days @ times\<rparr>)))"

definition set_cacheIDs :: "(nat \<times> nat) list \<Rightarrow> ('f, 'd) ChartData \<Rightarrow> ('f, 'd) ChartData" where
  "set_cacheIDs intervals c =
     c\<lparr>Days := (if intervals \<noteq> [] then (Days c)\<lparr>z_cacheID := z_cacheID (Days c) + 1\<rparr> else Days c),
       Blocks := (Blocks c)\<lparr>z_cacheID := List.last (z_Time (Blocks c))\<rparr>,
       Windows := (Windows c)\<lparr>w_cacheID :=
         or (push_bit 32 (List.last (w_Time (Windows c)))) (ucast (w_StakeCountVersion (Windows c)))\<rparr>\<rparr>"

definition Lengthen :: "('f, 'd) ChartData \<Rightarrow> (('f, 'd) ChartData \<times> chart_error option) option" where
  "Lengthen c =
     (let (shortest, err) = ValidateLengths (zoom_lens (Blocks c));
          c1 = (if err \<noteq> None then c\<lparr>Blocks := zoom_Snip (int shortest) (Blocks c)\<rparr> else c)
      in if shortest = 0 then Some (c1, None)
         else
           let (shortest, err) = ValidateLengths (window_lens (Windows c1));
               c2 = (if err \<noteq> None then c1\<lparr>Windows := window_Snip (int shortest) (Windows c1)\<rparr> else c1)
           in if shortest = 0 then Some (c2, Some ZeroWindows)
              else
                case lengthen_days (Blocks c2) (Days c2) of
                  None \<Rightarrow> None
                | Some (intervals, d) \<Rightarrow>
                    let c3 = c2\<lparr>Days := d\<rparr>
                    in if snd (ValidateLengths (zoom_lens (Days c3))) \<noteq> None
                       then Some (c3, Some DayBinMismatch)
                       else Some (set_cacheIDs intervals c3, None))"

section \<open>Reorganizations\<close>

fun keep_windows :: "int \<Rightarrow> nat \<Rightarrow> ChartUints \<Rightarrow> nat \<Rightarrow> nat" where
  "keep_windows ancestor i [] n = n"
| "keep_windows ancestor i (h # hs) n =
     (if sint h > ancestor then i else keep_windows ancestor (i + 1) hs n)"

definition ReorgHandler :: "int \<Rightarrow> nat \<Rightarrow> ('f, 'd) ChartData \<Rightarrow> ('f, 'd) ChartData" where
  "ReorgHandler newChainHeight newChainLen c =
     (let commonAncestorHeight = newChainHeight - int newChainLen;
          newHeight = commonAncestorHeight + 1;
          daysLen = int (length (z_Time (Days c))) - 2;
          daysLen = (if daysLen < 1 then 1 else daysLen);
          keepWindows = keep_windows commonAncestorHeight 0 (w_Height (Windows c)) (length (w_Height (Windows c)));
          c1 = c\<lparr>Blocks := zoom_Snip newHeight (Blocks c), Days := zoom_Snip daysLen (Days c)\<rparr>
      in if keepWindows < length (w_Height (Windows c))
         then c1\<lparr>Windows := window_Snip (int keepWindows) (Windows c1)\<rparr>
         else c1)"

section \<open>The cache file\<close>

record 'f ChartGobject =
  g_Height :: ChartUints
  g_Time :: ChartUints
  g_PoolSize :: ChartUints
  g_PoolValue :: ChartUints
  g_BlockSize :: ChartUints
  g_TxCount :: ChartUints
  g_NewAtoms :: ChartUints
  g_Chainwork :: ChartBigInts
  g_Fees :: ChartUints
  g_WindowTime :: ChartUints
  g_WindowHeight :: ChartUints
  g_PowDiff :: "'f ChartFloats"
  g_TicketPrice :: ChartUints
  g_StakeCount :: ChartUints
  g_MissedVotes :: ChartUints
  g_TotalMixed :: ChartUints
  g_AnonymitySet :: ChartUints
  g_MinerRanges :: "MinerRange list"

record 'f versionedCacheData =
  Version :: string
  Data :: "'f ChartGobject"

definition cacheVersion :: string where
  "cacheVersion = ''6.5.0''"

definition gobject :: "('f, 'd) ChartData \<Rightarrow> 'f ChartGobject" where
  "gobject c =
     \<lparr>g_Height = z_Height (Blocks c), g_Time = z_Time (Blocks c), g_PoolSize = z_PoolSize (Blocks c),
      g_PoolValue = z_PoolValue (Blocks c), g_BlockSize = z_BlockSize (Blocks c),
      g_TxCount = z_TxCount (Blocks c), g_NewAtoms = z_NewAtoms (Blocks c),
      g_Chainwork = z_Chainwork (Blocks c), g_Fees = z_Fees (Blocks c),
      g_WindowTime = w_Time (Windows c), g_WindowHeight = w_Height (Windows c),
      g_PowDiff = w_PowDiff (Windows c), g_TicketPrice = w_TicketPrice (Windows c),
      g_StakeCount = w_StakeCount (Windows c), g_MissedVotes = w_MissedVotes (Windows c),
      g_TotalMixed = z_TotalMixed (Blocks c), g_AnonymitySet = z_AnonymitySet (Blocks c),
      g_MinerRanges = MinerRanges c\<rparr>"

text \<open>What \<open>gob\<close> writes is what it reads back; a file is the value it holds, or \<open>None\<close> when it cannot be
  opened or decoded.\<close>

definition writeCacheFile :: "('f, 'd) ChartData \<Rightarrow> 'f versionedCacheData option" where
  "writeCacheFile c = Some \<lparr>Version = cacheVersion, Data = gobject c\<rparr>"

definition load_gobject :: "'f ChartGobject \<Rightarrow> ('f, 'd) ChartData \<Rightarrow> ('f, 'd) ChartData" where
  "load_gobject g c =
     c\<lparr>Blocks := (Blocks c)\<lparr>z_Height := g_Height g, z_Time := g_Time g, z_PoolSize := g_PoolSize g,
         z_PoolValue := g_PoolValue g, z_BlockSize := g_BlockSize g, z_TxCount := g_TxCount g,
         z_NewAtoms := g_NewAtoms g, z_Chainwork := g_Chainwork g, z_Fees := g_Fees g,
         z_TotalMixed := g_TotalMixed g, z_AnonymitySet := g_AnonymitySet g\<rparr>,
       Windows := (Windows c)\<lparr>w_Time := g_WindowTime g, w_Height := g_WindowHeight g,
         w_PowDiff := g_PowDiff g, w_TicketPrice := g_TicketPrice g, w_StakeCount := g_StakeCount g,
         w_MissedVotes := g_MissedVotes g\<rparr>,
       MinerRanges := g_MinerRanges g\<rparr>"

definition clear_sets :: "('f, 'd) ChartData \<Rightarrow> ('f, 'd) ChartData" where
  "clear_sets c = c\<lparr>Blocks := zoom_Snip 0 (Blocks c), Windows := window_Snip 0 (Windows c),
                    Days := zoom_Snip 0 (Days c)\<rparr>"

definition readCacheFile ::
  "'f versionedCacheData option \<Rightarrow> ('f, 'd) ChartData \<Rightarrow> (('f, 'd) ChartData \<times> chart_error option) option" where
  "readCacheFile file c =
     (case file of
        None \<Rightarrow> Some (c, Some NoCacheFile)
      | Some data \<Rightarrow>
          if Version data \<noteq> cacheVersion then Some (c, Some (CacheVersion (Version data)))
          else
            case Lengthen (load_gobject (Data data) c) of
              None \<Rightarrow> None
            | Some (c1, err) \<Rightarrow> Some (if err \<noteq> None then clear_sets c1 else c1, None))"

section \<open>Updates\<close>

definition stateID :: "('f, 'd) ChartData \<Rightarrow> u64" where
  "stateID c = (if z_Time (Blocks c) \<noteq> [] then List.last (z_Time (Blocks c)) else 0)"

definition validState :: "u64 \<Rightarrow> ('f, 'd) ChartData \<Rightarrow> bool" where
  "validState sid c \<longleftrightarrow> stateID c = sid"

text \<open>
  An updater is its fetcher, which returns rows or fails, and its appender, which changes the data
  and may fail; both run SQL and are parameters. \<open>env\<close> is what other goroutines do to the data while
  the fetcher runs without the lock.
\<close>

record ('f, 'd, 'r) ChartUpdater =
  Fetcher :: "('f, 'd) ChartData \<Rightarrow> 'r option"
  env :: "('f, 'd) ChartData \<Rightarrow> ('f, 'd) ChartData"
  Appender :: "'r \<Rightarrow> ('f, 'd) ChartData \<Rightarrow> ('f, 'd) ChartData \<times> bool"

definition run_updater ::
  "('f, 'd, 'r) ChartUpdater \<Rightarrow> ('f, 'd) ChartData \<Rightarrow> ('f, 'd) ChartData \<times> chart_error option" where
  "run_updater u c =
     (let sid = stateID c; c1 = env u c
      in case Fetcher u c of
           None \<Rightarrow> (c1, Some FetchFailed)
         | Some rows \<Rightarrow>
             if \<not> validState sid c1 then (c1, Some StateChanged)
             else let (c2, ok) = Appender u rows c1
                  in (c2, if ok then None else Some AppendFailed))"

fun run_updaters ::
  "('f, 'd, 'r) ChartUpdater list \<Rightarrow> ('f, 'd) ChartData \<Rightarrow> ('f, 'd) ChartData \<times> chart_error option" where
  "run_updaters [] c = (c, None)"
| "run_updaters (u # us) c =
     (case run_updater u c of
        (c1, Some e) \<Rightarrow> (c1, Some e)
      | (c1, None) \<Rightarrow> run_updaters us c1)"

definition Update ::
  "('f, 'd, 'r) ChartUpdater list \<Rightarrow> ('f, 'd) ChartData \<Rightarrow> (('f, 'd) ChartData \<times> chart_error option) option" where
  "Update us c =
     (case run_updaters us c of
        (c1, Some e) \<Rightarrow> Some (c1, Some e)
      | (c1, None) \<Rightarrow> Lengthen c1)"

definition Load ::
  "'f versionedCacheData option \<Rightarrow> ('f, 'd, 'r) ChartUpdater list \<Rightarrow> ('f, 'd) ChartData
     \<Rightarrow> (('f, 'd) ChartData \<times> chart_error option) option" where
  "Load file us c = (case readCacheFile file c of None \<Rightarrow> None | Some (c1, _) \<Rightarrow> Update us c1)"

section \<open>Readers\<close>

definition chart_Height :: "('f, 'd) ChartData \<Rightarrow> int" where
  "chart_Height c = int (length (z_Time (Blocks c))) - 1"

definition FeesTip :: "('f, 'd) ChartData \<Rightarrow> int" where
  "FeesTip c = int (length (z_Fees (Blocks c))) - 1"

definition TotalMixedTip :: "('f, 'd) ChartData \<Rightarrow> int" where
  "TotalMixedTip c = int (length (z_TotalMixed (Blocks c))) - 1"

definition AnonymitySetTip :: "('f, 'd) ChartData \<Rightarrow> int" where
  "AnonymitySetTip c = int (length (z_AnonymitySet (Blocks c))) - 1"

definition AnonymitySet :: "('f, 'd) ChartData \<Rightarrow> u64" where
  "AnonymitySet c =
     (if z_AnonymitySet (Blocks c) = [] then 0 else List.last (z_AnonymitySet (Blocks c)))"

definition NewAtomsTip :: "('f, 'd) ChartData \<Rightarrow> int" where
  "NewAtomsTip c = int (length (z_NewAtoms (Blocks c))) - 1"

definition PoolSizeTip :: "('f, 'd) ChartData \<Rightarrow> int" where
  "PoolSizeTip c = int (length (z_PoolSize (Blocks c))) - 1"

definition SKASupplyExists :: "byte \<Rightarrow> ('f, 'd) ChartData \<Rightarrow> bool" where
  "SKASupplyExists coinType c =
     (case SKASupply c coinType of None \<Rightarrow> False | Some d \<Rightarrow> sup_Timestamps d \<noteq> [])"

definition SKASupplyHeight :: "byte \<Rightarrow> ('f, 'd) ChartData \<Rightarrow> int \<times> bool" where
  "SKASupplyHeight coinType c =
     (case SKASupply c coinType of
        None \<Rightarrow> (0, False)
      | Some d \<Rightarrow> if sup_Heights d = [] then (0, False) else (List.last (sup_Heights d), True))"

definition SKAFeesExists :: "byte \<Rightarrow> ('f, 'd) ChartData \<Rightarrow> bool" where
  "SKAFeesExists coinType c =
     (case SKAFees c coinType of None \<Rightarrow> False | Some d \<Rightarrow> fee_Fees d \<noteq> [])"

definition SKAFeesHeight :: "byte \<Rightarrow> ('f, 'd) ChartData \<Rightarrow> int \<times> bool" where
  "SKAFeesHeight coinType c =
     (case SKAFees c coinType of
        None \<Rightarrow> (0, False)
      | Some d \<Rightarrow> if fee_Heights d = [] then (0, False) else (List.last (fee_Heights d), True))"

definition SetMinerRanges :: "MinerRange list \<Rightarrow> ('f, 'd) ChartData \<Rightarrow> ('f, 'd) ChartData" where
  "SetMinerRanges ranges c = c\<lparr>MinerRanges := ranges\<rparr>"

end
