(* ===== verification/ChartDays.thy ===== *)
theory ChartDays
  imports ChartData
begin

text \<open>
  What \<open>Lengthen\<close> does to the series of \<open>ChartData\<close>: it never panics and leaves series of equal
  length, the day bins are contiguous ranges of blocks whose totals are conserved, and for block times
  that are sorted, leave no day empty and avoid exact midnights, a bin holds the blocks of its day.
  Also the round trip through the cache file and the effect of a reorganization.
\<close>

section \<open>Lengths\<close>

definition zoom_ok :: "nat \<Rightarrow> zoomSet \<Rightarrow> bool" where
  "zoom_ok n s \<longleftrightarrow> list_all (\<lambda>l. l = n) (zoom_lens s)"

definition window_ok :: "nat \<Rightarrow> 'f windowSet \<Rightarrow> bool" where
  "window_ok n s \<longleftrightarrow> list_all (\<lambda>l. l = n) (window_lens s)"

definition days_ok :: "('f, 'd) ChartData \<Rightarrow> bool" where
  "days_ok c \<longleftrightarrow> zoom_ok (length (z_Time (Days c))) (Days c)"

lemma length_snip [simp]: "length (snip n xs) = min (nat n) (length xs)"
  by (auto simp: snip_def)

lemma snip_take [simp]: "snip (int n) xs = take n xs"
  by (auto simp: snip_def)

lemma validate_fold:
  fixes f0 :: nat
  shows "foldl (\<lambda>(shortest, longest) dLen.
     if dLen \<noteq> f0 then
       if dLen < shortest then (dLen, longest)
       else if dLen > longest then (shortest, dLen) else (shortest, longest)
     else (shortest, longest)) (s, l) xs = (s', l') \<Longrightarrow> s \<le> f0 \<Longrightarrow> f0 \<le> l
   \<Longrightarrow> s' = Min (set (s # xs)) \<and> l' = Max (set (l # xs))"
proof (induction xs arbitrary: s l)
  case Nil
  then show ?case by simp
next
  case (Cons x xs)
  have "s' = Min (set (min s x # xs)) \<and> l' = Max (set (max l x # xs))"
    by (rule Cons.IH) (use Cons.prems in \<open>auto simp: min_def max_def split: if_splits\<close>)
  then show ?case by (cases "xs = []") (auto simp: min.assoc max.assoc)
qed

lemma ValidateLengths_spec:
  assumes "ValidateLengths (f # rest) = (n, e)"
  shows "n = Min (set (f # rest))" "e = None \<longleftrightarrow> list_all (\<lambda>l. l = n) (f # rest)" "e = None \<or> e = Some LengthMismatch"
proof -
  obtain s l where sl: "foldl (\<lambda>(shortest, longest) dLen.
     if dLen \<noteq> f then
       if dLen < shortest then (dLen, longest)
       else if dLen > longest then (shortest, dLen) else (shortest, longest)
     else (shortest, longest)) (f, f) rest = (s, l)"
    by fastforce
  have m: "s = Min (set (f # rest))" "l = Max (set (f # rest))" using validate_fold [OF sl] by simp_all
  have b: "s \<le> x \<and> x \<le> l" if "x \<in> set (f # rest)" for x
    unfolding m using that by (meson List.finite_set Max_ge Min_le)
  have r: "(n, e) = (if s \<noteq> l then (s, Some LengthMismatch) else (f, None))"
    using assms sl by (simp add: ValidateLengths_def)
  show "n = Min (set (f # rest))"
    unfolding m(1) [symmetric] using r b [of f] by (auto split: if_splits)
  show "e = None \<or> e = Some LengthMismatch" using r by (auto split: if_splits)
  have "s = l \<longleftrightarrow> list_all (\<lambda>x. x = n) (f # rest)"
  proof
    assume "s = l"
    then have "x = n" if "x \<in> set (f # rest)" for x using r b [OF that] b [of f] by simp
    then show "list_all (\<lambda>x. x = n) (f # rest)" unfolding list_all_iff by blast
  next
    assume "list_all (\<lambda>x. x = n) (f # rest)"
    then have eq: "set (f # rest) = {n}" by (auto simp: list_all_iff)
    show "s = l" unfolding m eq by simp
  qed
  then show "e = None \<longleftrightarrow> list_all (\<lambda>l. l = n) (f # rest)" using r by (auto split: if_splits)
qed

lemma zoom_lens_Cons: "\<exists>f rest. zoom_lens s = f # rest"
  by (simp add: zoom_lens_def)

lemma window_lens_Cons: "\<exists>f rest. window_lens s = f # rest"
  by (simp add: window_lens_def)

lemmas Min_le_lens = Min_le [OF List.finite_set]

lemma zoom_Snip_ok: "\<forall>l\<in>set (zoom_lens s). n \<le> l \<Longrightarrow> zoom_ok n (zoom_Snip (int n) s)"
  by (simp add: zoom_ok_def zoom_lens_def zoom_Snip_def min_def)

lemma window_Snip_ok: "\<forall>l\<in>set (window_lens s). n \<le> l \<Longrightarrow> window_ok n (window_Snip (int n) s)"
  by (simp add: window_ok_def window_lens_def window_Snip_def min_def)

text \<open>The validated block set, and window set, of \<open>Lengthen\<close>.\<close>

lemma validated_blocks:
  assumes "ValidateLengths (zoom_lens s) = (n, e)"
  shows "zoom_ok n (if e \<noteq> None then zoom_Snip (int n) s else s)" "n = Min (set (zoom_lens s))"
proof -
  obtain f rest where l: "zoom_lens s = f # rest" using zoom_lens_Cons by blast
  note v = ValidateLengths_spec [OF assms [unfolded l]]
  show n: "n = Min (set (zoom_lens s))" using v(1) l by simp
  show "zoom_ok n (if e \<noteq> None then zoom_Snip (int n) s else s)"
  proof (cases "e = None")
    case True
    then show ?thesis using v(2) l by (simp add: zoom_ok_def)
  next
    case False
    have "\<forall>x\<in>set (zoom_lens s). n \<le> x" unfolding n by (simp add: Min_le_lens)
    then show ?thesis using False by (simp add: zoom_Snip_ok)
  qed
qed

lemma validated_windows:
  assumes "ValidateLengths (window_lens s) = (n, e)"
  shows "window_ok n (if e \<noteq> None then window_Snip (int n) s else s)" "n = Min (set (window_lens s))"
proof -
  obtain f rest where l: "window_lens s = f # rest" using window_lens_Cons by blast
  note v = ValidateLengths_spec [OF assms [unfolded l]]
  show n: "n = Min (set (window_lens s))" using v(1) l by simp
  show "window_ok n (if e \<noteq> None then window_Snip (int n) s else s)"
  proof (cases "e = None")
    case True
    then show ?thesis using v(2) l by (simp add: window_ok_def)
  next
    case False
    have "\<forall>x\<in>set (window_lens s). n \<le> x" unfolding n by (simp add: Min_le_lens)
    then show ?thesis using False by (simp add: window_Snip_ok)
  qed
qed

lemma ValidateLengths_same: "zoom_ok n s \<Longrightarrow> snd (ValidateLengths (zoom_lens s)) = None"
proof -
  assume ok: "zoom_ok n s"
  obtain k e where v: "ValidateLengths (zoom_lens s) = (k, e)" by fastforce
  obtain f rest where l: "zoom_lens s = f # rest" using zoom_lens_Cons by blast
  have set: "set (f # rest) = {n}" using ok l by (auto simp: zoom_ok_def list_all_iff)
  have "k = n" using ValidateLengths_spec(1) [OF v [unfolded l]] unfolding set by simp
  then show ?thesis using ValidateLengths_spec(2) [OF v [unfolded l]] ok v l by (simp add: zoom_ok_def)
qed

section \<open>Intervals\<close>

fun chained :: "nat \<Rightarrow> (nat \<times> nat) list \<Rightarrow> nat \<Rightarrow> bool" where
  "chained a [] b \<longleftrightarrow> a = b"
| "chained a (iv # ivs) b \<longleftrightarrow> fst iv = a \<and> a \<le> snd iv \<and> chained (snd iv) ivs b"

lemma chained_le: "chained a ivs b \<Longrightarrow> a \<le> b"
  by (induction ivs arbitrary: a) fastforce+

lemma day_loop_chained:
  "day_loop lastMid offset ts i s start nxt = (ivs, mids) \<Longrightarrow> s \<le> i \<Longrightarrow>
     length mids = length ivs \<and> (\<forall>iv\<in>set ivs. snd iv < offset + i + length ts)
       \<and> (\<exists>b. chained (s + offset) ivs b)"
proof (induction ts arbitrary: i s start nxt ivs mids)
  case Nil
  then show ?case by simp
next
  case (Cons t ts)
  show ?case
  proof (cases "t \<ge> nxt")
    case False
    then have "length mids = length ivs \<and> (\<forall>iv\<in>set ivs. snd iv < offset + (i + 1) + length ts)
       \<and> (\<exists>b. chained (s + offset) ivs b)"
      using Cons.IH [of "i + 1" s start nxt] Cons.prems by simp
    then show ?thesis by simp
  next
    case True
    show ?thesis
    proof (cases "t > lastMid")
      case stop: True
      then show ?thesis using Cons.prems True by auto
    next
      case go: False
      obtain ivs' mids' where r: "day_loop lastMid offset ts (i + 1) i nxt (nxt + aDay) = (ivs', mids')"
        by fastforce
      have e: "ivs = (s + offset, i + offset) # ivs'" "mids = start # mids'"
        using Cons.prems(1) True go r by simp_all
      show ?thesis using Cons.IH [OF r] Cons.prems(2) unfolding e by auto
    qed
  qed
qed

lemma first_after_less: "first_after start i ts \<le> i + length ts"
proof (induction ts arbitrary: i)
  case (Cons t ts)
  then show ?case using Cons.IH [of "i + 1"] by simp
qed simp

lemma new_days_chained:
  assumes "new_days blocks days = (ivs, mids)" and "z_Time blocks \<noteq> []"
  shows "length mids = length ivs" "\<forall>iv\<in>set ivs. snd iv < length (z_Time blocks)"
    "\<exists>b. chained (first_after (day_start blocks days) 0 (z_Time blocks)) ivs b"
proof -
  let ?o = "first_after (day_start blocks days) 0 (z_Time blocks)"
  have o: "?o \<le> length (z_Time blocks)" using first_after_less [of _ 0] by simp
  have "length mids = length ivs \<and> (\<forall>iv\<in>set ivs. snd iv < length (z_Time blocks))
      \<and> (\<exists>b. chained ?o ivs b)"
  proof (cases "midnight (List.last (z_Time blocks)) > day_start blocks days + aDay")
    case True
    then have l: "day_loop (midnight (List.last (z_Time blocks))) ?o (drop ?o (z_Time blocks)) 0 0
        (day_start blocks days) (day_start blocks days + aDay) = (ivs, mids)"
      using assms(1) by (simp add: new_days_def Let_def)
    show ?thesis using day_loop_chained [OF l] o by simp
  next
    case False
    then show ?thesis using assms(1) by (auto simp: new_days_def Let_def)
  qed
  then show "length mids = length ivs" "\<forall>iv\<in>set ivs. snd iv < length (z_Time blocks)"
    "\<exists>b. chained ?o ivs b" by simp_all
qed

section \<open>Adding the days\<close>

lemma segment_Some: "s \<le> e \<Longrightarrow> e \<le> length xs \<Longrightarrow> segment s e xs = Some (take (e - s) (drop s xs))"
  by (simp add: segment_def)

lemma foldl_sum_list: "foldl (\<lambda>sum v. sum + v) (a :: u64) xs = a + sum_list xs"
  by (induction xs arbitrary: a) (auto simp: add.assoc)

lemma uints_Sum_eq:
  "e \<le> length xs \<Longrightarrow> s \<le> e \<Longrightarrow> uints_Sum s e xs = Some (sum_list (take (e - s) (drop s xs)))"
  by (cases "e = s") (auto simp: uints_Sum_def segment_Some foldl_sum_list)

lemma uints_Avg_eq:
  "e \<le> length xs \<Longrightarrow> s \<le> e \<Longrightarrow> uints_Avg s e xs = Some (if s = e then 0 else sum_list (take (e - s) (drop s xs)) div of_nat (e - s))"
  by (cases "e = s") (auto simp: uints_Avg_def segment_Some foldl_sum_list)

text \<open>A range of blocks, and the totals of a list of ranges.\<close>

definition range_sum :: "ChartUints \<Rightarrow> nat \<times> nat \<Rightarrow> u64" where
  "range_sum xs iv = sum_list (take (snd iv - fst iv) (drop (fst iv) xs))"

definition range_avg :: "ChartUints \<Rightarrow> nat \<times> nat \<Rightarrow> u64" where
  "range_avg xs iv = (if fst iv = snd iv then 0 else range_sum xs iv div of_nat (snd iv - fst iv))"

definition with_days :: "zoomSet \<Rightarrow> (nat \<times> nat) list \<Rightarrow> zoomSet \<Rightarrow> zoomSet" where
  "with_days blocks ivs days =
     days\<lparr>z_Height := z_Height days @ map (\<lambda>iv. of_nat (snd iv) - 1) ivs,
          z_PoolSize := z_PoolSize days @ map (range_avg (z_PoolSize blocks)) ivs,
          z_PoolValue := z_PoolValue days @ map (range_avg (z_PoolValue blocks)) ivs,
          z_BlockSize := z_BlockSize days @ map (range_sum (z_BlockSize blocks)) ivs,
          z_TxCount := z_TxCount days @ map (range_sum (z_TxCount blocks)) ivs,
          z_NewAtoms := z_NewAtoms days @ map (range_sum (z_NewAtoms blocks)) ivs,
          z_Chainwork := z_Chainwork days @ map (\<lambda>iv. z_Chainwork blocks ! snd iv) ivs,
          z_Fees := z_Fees days @ map (range_sum (z_Fees blocks)) ivs,
          z_TotalMixed := z_TotalMixed days @ map (range_sum (z_TotalMixed blocks)) ivs,
          z_AnonymitySet := z_AnonymitySet days @ map (range_avg (z_AnonymitySet blocks)) ivs\<rparr>"

lemma with_days_Nil: "with_days blocks [] days = days"
  by (simp add: with_days_def)

lemma with_days_Cons: "with_days blocks ivs (with_days blocks [iv] days) = with_days blocks (iv # ivs) days"
  by (rule zoomSet.equality) (simp_all add: with_days_def)

lemma uints_range:
  assumes "fst iv \<le> snd iv" "snd iv < n" "length xs = n"
  shows "uints_Sum (fst iv) (snd iv) xs = Some (range_sum xs iv)"
    "uints_Avg (fst iv) (snd iv) xs = Some (range_avg xs iv)"
  using assms by (simp_all add: uints_Sum_eq uints_Avg_eq range_sum_def range_avg_def)

lemma zoom_okD:
  assumes "zoom_ok n s"
  shows "length (z_Height s) = n" "length (z_Time s) = n" "length (z_PoolSize s) = n" "length (z_PoolValue s) = n"
    "length (z_BlockSize s) = n" "length (z_TxCount s) = n" "length (z_NewAtoms s) = n"
    "length (z_Chainwork s) = n" "length (z_Fees s) = n" "length (z_TotalMixed s) = n"
    "length (z_AnonymitySet s) = n"
  using assms by (simp_all add: zoom_ok_def zoom_lens_def)

lemma add_day_eq:
  assumes ok: "zoom_ok n blocks" and iv: "fst iv \<le> snd iv" "snd iv < n"
  shows "add_day blocks iv days = Some (with_days blocks [iv] days)"
proof -
  note len = zoom_okD [OF ok]
  have "nth_opt (z_Chainwork blocks) (snd iv) = Some (z_Chainwork blocks ! snd iv)"
    using len iv by (simp add: nth_opt_def)
  then show ?thesis
    by (simp only: add_day_def Let_def uints_range [OF iv len(3)] uints_range [OF iv len(4)]
        uints_range [OF iv len(5)] uints_range [OF iv len(6)] uints_range [OF iv len(7)]
        uints_range [OF iv len(9)] uints_range [OF iv len(10)] uints_range [OF iv len(11)]
        bind.bind_lunit with_days_def list.map)
qed

lemma add_days_eq:
  assumes ok: "zoom_ok n blocks" and "\<forall>iv\<in>set ivs. fst iv \<le> snd iv \<and> snd iv < n"
  shows "add_days blocks ivs days = Some (with_days blocks ivs days)"
  using assms(2)
proof (induction ivs arbitrary: days)
  case Nil
  then show ?case by (simp add: with_days_Nil)
next
  case (Cons iv ivs)
  then show ?case by (simp add: add_day_eq [OF ok] with_days_Cons)
qed

lemma chained_ordered: "chained a ivs b \<Longrightarrow> \<forall>iv\<in>set ivs. fst iv \<le> snd iv"
  by (induction ivs arbitrary: a) auto

lemma chained_bound: "chained a ivs b \<Longrightarrow> \<forall>iv\<in>set ivs. snd iv < n \<Longrightarrow> ivs \<noteq> [] \<Longrightarrow> b < n"
proof (induction ivs arbitrary: a)
  case (Cons iv ivs)
  then show ?case by (cases ivs) auto
qed simp

lemma chained_last: "chained a ivs b \<Longrightarrow> ivs \<noteq> [] \<Longrightarrow> snd (List.last ivs) = b"
proof (induction ivs arbitrary: a)
  case (Cons iv ivs)
  then show ?case by (cases ivs) auto
qed simp

lemma range_sum_append:
  "a \<le> b \<Longrightarrow> b \<le> c \<Longrightarrow> range_sum xs (a, b) + range_sum xs (b, c) = range_sum xs (a, c)"
proof -
  assume "a \<le> b" "b \<le> c"
  then have "take (c - a) (drop a xs) = take (b - a) (drop a xs) @ take (c - b) (drop b xs)"
    using take_add [of "b - a" "c - b" "drop a xs"] by (simp add: add.commute)
  then show ?thesis by (simp add: range_sum_def)
qed

lemma chained_sum: "chained a ivs b \<Longrightarrow> sum_list (map (range_sum xs) ivs) = range_sum xs (a, b)"
proof (induction ivs arbitrary: a)
  case Nil
  then show ?case by (simp add: range_sum_def)
next
  case (Cons iv ivs)
  then have "chained (snd iv) ivs b" "a \<le> snd iv" "iv = (a, snd iv)" by (auto simp: prod_eq_iff)
  then show ?case
    using Cons.IH [of "snd iv"] range_sum_append [of a "snd iv" b xs] chained_le [of "snd iv" ivs b]
    by (metis list.simps(9) sum_list.Cons)
qed

section \<open>The outcome of Lengthen\<close>

lemma zoom_ok_iff: "zoom_ok n s \<longleftrightarrow> (\<forall>l\<in>set (zoom_lens s). l = n)"
  by (simp add: zoom_ok_def list_all_iff)

lemma lengthen_days_eq:
  assumes ok: "zoom_ok n blocks" and n: "0 < n" and new: "new_days blocks days = (ivs, mids)"
  shows "lengthen_days blocks days = Some (ivs, with_days blocks ivs (days\<lparr>z_Time := z_Time days @ mids\<rparr>))"
proof -
  have t: "length (z_Time blocks) = n" using zoom_okD(2) [OF ok] .
  then have "z_Time blocks \<noteq> []" using n by auto
  note ch = new_days_chained [OF new this]
  then have "\<forall>iv\<in>set ivs. fst iv \<le> snd iv \<and> snd iv < n" using chained_ordered t by blast
  then show ?thesis using new by (simp add: lengthen_days_def add_days_eq [OF ok])
qed

lemma with_days_ok:
  assumes "zoom_ok m days" and "length mids = length ivs"
  shows "zoom_ok (m + length ivs) (with_days blocks ivs (days\<lparr>z_Time := z_Time days @ mids\<rparr>))"
  using zoom_okD [OF assms(1)] assms(2) by (simp add: zoom_ok_def zoom_lens_def with_days_def)

lemma zoom_lens_cacheID [simp]: "zoom_lens (s\<lparr>z_cacheID := i\<rparr>) = zoom_lens s"
  by (simp add: zoom_lens_def)

lemma window_lens_cacheID [simp]: "window_lens (s\<lparr>w_cacheID := i\<rparr>) = window_lens s"
  by (simp add: window_lens_def)

lemma zoom_ok_cacheID [simp]: "zoom_ok n (s\<lparr>z_cacheID := i\<rparr>) = zoom_ok n s"
  by (simp add: zoom_ok_def)

lemma window_ok_cacheID [simp]: "window_ok n (s\<lparr>w_cacheID := i\<rparr>) = window_ok n s"
  by (simp add: window_ok_def)

lemma zoom_Snip_id: "zoom_ok n s \<Longrightarrow> zoom_Snip (int n) s = s"
  using zoom_okD [of n s] by (intro zoomSet.equality) (simp_all add: zoom_Snip_def)

lemma window_okD:
  assumes "window_ok n s"
  shows "length (w_Time s) = n" "length (w_PowDiff s) = n" "length (w_TicketPrice s) = n"
    "length (w_StakeCount s) = n" "length (w_MissedVotes s) = n" "length (w_Height s) = n"
  using assms by (simp_all add: window_ok_def window_lens_def)

lemma window_Snip_id: "window_ok n s \<Longrightarrow> window_Snip (int n) s = s"
  using window_okD [of n s] by (intro windowSet.equality) (simp_all add: window_Snip_def)

definition blocks_len :: "('f, 'd) ChartData \<Rightarrow> nat" where
  "blocks_len c = Min (set (zoom_lens (Blocks c)))"

definition windows_len :: "('f, 'd) ChartData \<Rightarrow> nat" where
  "windows_len c = Min (set (window_lens (Windows c)))"

text \<open>The block and window sets cut to their shortest series.\<close>

definition cut_blocks :: "('f, 'd) ChartData \<Rightarrow> zoomSet" where
  "cut_blocks c = zoom_Snip (int (blocks_len c)) (Blocks c)"

definition cut_windows :: "('f, 'd) ChartData \<Rightarrow> 'f windowSet" where
  "cut_windows c = window_Snip (int (windows_len c)) (Windows c)"

lemma cut_ok: "zoom_ok (blocks_len c) (cut_blocks c)" "window_ok (windows_len c) (cut_windows c)"
  by (simp_all add: cut_blocks_def cut_windows_def blocks_len_def windows_len_def zoom_Snip_ok
      window_Snip_ok Min_le_lens)

lemma Lengthen_eq:
  fixes c :: "('f, 'd) ChartData"
  shows "Lengthen c =
     (if blocks_len c = 0 then Some (c\<lparr>Blocks := cut_blocks c\<rparr>, None)
      else
        let c2 = c\<lparr>Blocks := cut_blocks c, Windows := cut_windows c\<rparr>
        in if windows_len c = 0 then Some (c2, Some ZeroWindows)
           else
             case lengthen_days (cut_blocks c) (Days c) of
               None \<Rightarrow> None
             | Some (intervals, d) \<Rightarrow>
                 if snd (ValidateLengths (zoom_lens d)) \<noteq> None then Some (c2\<lparr>Days := d\<rparr>, Some DayBinMismatch)
                 else Some (set_cacheIDs intervals (c2\<lparr>Days := d\<rparr>), None))"
proof -
  obtain n e where v: "ValidateLengths (zoom_lens (Blocks c)) = (n, e)" by fastforce
  obtain m f where w: "ValidateLengths (window_lens (Windows c)) = (m, f)" by fastforce
  note b = validated_blocks [OF v] and x = validated_windows [OF w]
  have n: "n = blocks_len c" "m = windows_len c" using b(2) x(2) by (simp_all add: blocks_len_def windows_len_def)
  have cb: "(if e \<noteq> None then c\<lparr>Blocks := zoom_Snip (int n) (Blocks c)\<rparr> else c) = c\<lparr>Blocks := cut_blocks c\<rparr>"
    using b(1) zoom_Snip_id [of n "Blocks c"] by (auto simp: cut_blocks_def n [symmetric] split: if_splits)
  let ?c = "c\<lparr>Blocks := cut_blocks c\<rparr>"
  have w1: "ValidateLengths (window_lens (Windows ?c)) = (m, f)" using w by simp
  have cw: "(if f \<noteq> None then ?c\<lparr>Windows := window_Snip (int m) (Windows ?c)\<rparr> else ?c)
      = ?c\<lparr>Windows := cut_windows c\<rparr>"
    using x(1) window_Snip_id [of m "Windows c"]
    by (auto simp: cut_windows_def n [symmetric] split: if_splits)
  show ?thesis
    unfolding Lengthen_def v Let_def prod.case cb unfolding w1 prod.case unfolding cw
    by (simp add: n split: option.split prod.split)
qed

text \<open>What a successful run with blocks yields.\<close>

lemma Lengthen_success:
  assumes "days_ok c" and "0 < blocks_len c" and "0 < windows_len c"
    and "new_days (cut_blocks c) (Days c) = (ivs, mids)"
  shows "Lengthen c = Some (set_cacheIDs ivs (c\<lparr>Blocks := cut_blocks c, Windows := cut_windows c,
           Days := with_days (cut_blocks c) ivs ((Days c)\<lparr>z_Time := z_Time (Days c) @ mids\<rparr>)\<rparr>), None)"
    and "zoom_ok (length (z_Time (Days c)) + length ivs)
           (with_days (cut_blocks c) ivs ((Days c)\<lparr>z_Time := z_Time (Days c) @ mids\<rparr>))"
proof -
  note ok = cut_ok(1) [of c]
  have "z_Time (cut_blocks c) \<noteq> []" using zoom_okD(2) [OF ok] assms(2) by auto
  then have "length mids = length ivs" using new_days_chained(1) [OF assms(4)] by blast
  then show d: "zoom_ok (length (z_Time (Days c)) + length ivs)
      (with_days (cut_blocks c) ivs ((Days c)\<lparr>z_Time := z_Time (Days c) @ mids\<rparr>))"
    using with_days_ok assms(1) unfolding days_ok_def by blast
  show "Lengthen c = Some (set_cacheIDs ivs (c\<lparr>Blocks := cut_blocks c, Windows := cut_windows c,
           Days := with_days (cut_blocks c) ivs ((Days c)\<lparr>z_Time := z_Time (Days c) @ mids\<rparr>)\<rparr>), None)"
    using assms(2,3) ValidateLengths_same [OF d]
    by (simp add: Lengthen_eq lengthen_days_eq [OF ok assms(2,4)])
qed

lemma set_cacheIDs_fields [simp]:
  "Blocks (set_cacheIDs ivs c) = (Blocks c)\<lparr>z_cacheID := List.last (z_Time (Blocks c))\<rparr>"
  "z_Time (Days (set_cacheIDs ivs c)) = z_Time (Days c)"
  "zoom_ok n (Days (set_cacheIDs ivs c)) = zoom_ok n (Days c)"
  "window_ok n (Windows (set_cacheIDs ivs c)) = window_ok n (Windows c)"
  by (simp_all add: set_cacheIDs_def)

lemma Lengthen_outcome:
  assumes "days_ok c"
  shows "\<exists>c' e. Lengthen c = Some (c', e) \<and> days_ok c' \<and> zoom_ok (blocks_len c) (Blocks c')
    \<and> z_Time (Blocks c') = take (blocks_len c) (z_Time (Blocks c))
    \<and> (if 0 < blocks_len c \<and> windows_len c = 0 then e = Some ZeroWindows else e = None)
    \<and> (0 < blocks_len c \<longrightarrow> window_ok (windows_len c) (Windows c'))"
proof -
  have t: "z_Time (cut_blocks c) = take (blocks_len c) (z_Time (Blocks c))"
    by (simp add: cut_blocks_def zoom_Snip_def)
  show ?thesis
  proof (cases "0 < blocks_len c \<and> 0 < windows_len c")
    case True
    obtain ivs mids where new: "new_days (cut_blocks c) (Days c) = (ivs, mids)" by fastforce
    note s = Lengthen_success [OF assms _ _ new]
    show ?thesis
      using True s zoom_okD(2) [OF s(2)] cut_ok [of c] by (simp add: days_ok_def t)
  next
    case False
    then show ?thesis using assms cut_ok [of c] by (auto simp: Lengthen_eq days_ok_def t)
  qed
qed

text \<open>C35. \<open>Lengthen\<close> is total and leaves consistent data: when the day series have equal lengths, it never
  indexes a series out of range; afterwards all block series are cut to the shortest, and, if there are
  blocks, so are all window series; the day series have equal lengths again. It fails only for a window
  series that is empty while there are blocks, and never for the day series it built.\<close>

theorem Lengthen_consistent:
  assumes "days_ok c"
  shows "\<exists>c' e. Lengthen c = Some (c', e) \<and> days_ok c' \<and> zoom_ok (blocks_len c) (Blocks c')
    \<and> z_Time (Blocks c') = take (blocks_len c) (z_Time (Blocks c))
    \<and> (if 0 < blocks_len c \<and> windows_len c = 0 then e = Some ZeroWindows else e = None)
    \<and> (0 < blocks_len c \<longrightarrow> window_ok (windows_len c) (Windows c'))"
  by (rule Lengthen_outcome [OF assms])

text \<open>Day totals are conserved: the sizes, transaction counts, new coins, fees and mixed amounts that a
  successful \<open>Lengthen\<close> adds to the day series sum up, modulo \<open>2^64\<close>, to the totals of one contiguous
  range of blocks, from the first block after the first new midnight to the last block of the last new day.\<close>

theorem Lengthen_conserves:
  assumes "days_ok c" and "0 < blocks_len c" and "Lengthen c = Some (c', None)"
  shows "\<exists>a b. a = first_after (day_start (cut_blocks c) (Days c)) 0 (z_Time (Blocks c')) \<and> a \<le> b
    \<and> (if length (z_Time (Days c')) = length (z_Time (Days c)) then b = a
       else b < blocks_len c \<and> List.last (z_Height (Days c')) = of_nat b - 1)
    \<and> (\<forall>f \<in> {z_BlockSize, z_TxCount, z_NewAtoms, z_Fees, z_TotalMixed}.
         sum_list (drop (length (z_Time (Days c))) (f (Days c'))) = range_sum (f (Blocks c')) (a, b))"
proof -
  obtain ivs mids where new: "new_days (cut_blocks c) (Days c) = (ivs, mids)" by fastforce
  have w: "0 < windows_len c"
    using assms(2,3) by (auto simp: Lengthen_eq Let_def split: if_splits)
  note s = Lengthen_success [OF assms(1,2) w new]
  have "z_Time (cut_blocks c) \<noteq> []" using zoom_okD(2) [OF cut_ok(1) [of c]] assms(2) by auto
  then have len_ivs: "length mids = length ivs" "\<forall>iv\<in>set ivs. snd iv < blocks_len c"
    using new_days_chained(1,2) [OF new] zoom_okD(2) [OF cut_ok(1) [of c]] by simp_all
  obtain b where b: "chained (first_after (day_start (cut_blocks c) (Days c)) 0 (z_Time (cut_blocks c))) ivs b"
    using new_days_chained(3) [OF new] \<open>z_Time (cut_blocks c) \<noteq> []\<close> by blast
  note len = zoom_okD [OF assms(1) [unfolded days_ok_def]]
  have c': "c' = set_cacheIDs ivs (c\<lparr>Blocks := cut_blocks c, Windows := cut_windows c,
           Days := with_days (cut_blocks c) ivs ((Days c)\<lparr>z_Time := z_Time (Days c) @ mids\<rparr>)\<rparr>)"
    using assms(3) s(1) by simp
  let ?a = "first_after (day_start (cut_blocks c) (Days c)) 0 (z_Time (cut_blocks c))"
  have 1: "if ivs = [] then b = ?a else b < blocks_len c \<and> snd (List.last ivs) = b"
    using b chained_last [OF b] chained_bound [OF b len_ivs(2)] by auto
  have 2: "z_Time (Blocks c') = z_Time (cut_blocks c)" by (simp add: c')
  have 3: "if length (z_Time (Days c')) = length (z_Time (Days c)) then b = ?a
      else b < blocks_len c \<and> List.last (z_Height (Days c')) = of_nat b - 1"
    using 1 len_ivs(1) by (auto simp: c' set_cacheIDs_def with_days_def last_map split: if_splits)
  have 4: "sum_list (drop (length (z_Time (Days c))) (f (Days c'))) = range_sum (f (Blocks c')) (?a, b)"
    if "f \<in> {z_BlockSize, z_TxCount, z_NewAtoms, z_Fees, z_TotalMixed}" for f
    using that len by (auto simp: c' set_cacheIDs_def with_days_def chained_sum [OF b, symmetric])
  show ?thesis
    unfolding 2 by (intro exI [of _ ?a] exI [of _ b] conjI ballI refl chained_le [OF b] 3 4)
qed

section \<open>The blocks of a day\<close>

definition in_day :: "ChartUints \<Rightarrow> nat \<Rightarrow> nat set" where
  "in_day T d = {j. j < length T \<and> d \<le> unat (T ! j) \<and> unat (T ! j) < d + 86400}"

text \<open>Sorted block times that leave no day empty and avoid exact midnights.\<close>

definition day_times :: "ChartUints \<Rightarrow> bool" where
  "day_times T \<longleftrightarrow> sorted (map unat T) \<and> list_all (\<lambda>t. unat t < 2 ^ 63 \<and> unat t mod 86400 \<noteq> 0) T
     \<and> list_all (\<lambda>j. unat (T ! Suc j) div 86400 \<le> unat (T ! j) div 86400 + 1) [0..<length T - 1]"

lemma day_times_sorted: "day_times T \<Longrightarrow> i \<le> j \<Longrightarrow> j < length T \<Longrightarrow> unat (T ! i) \<le> unat (T ! j)"
  using sorted_nth_mono [of "map unat T" i j] by (simp add: day_times_def)

lemma day_times_bound: "day_times T \<Longrightarrow> j < length T \<Longrightarrow> unat (T ! j) < 2 ^ 63 \<and> unat (T ! j) mod 86400 \<noteq> 0"
  by (simp add: day_times_def list_all_length)

lemma day_times_gap:
  "day_times T \<Longrightarrow> Suc j < length T \<Longrightarrow> unat (T ! Suc j) div 86400 \<le> unat (T ! j) div 86400 + 1"
  by (simp add: day_times_def list_all_iff)

lemma unat_aDay: "unat aDay = 86400"
  by (simp add: aDay_def)

lemma unat_add_day: "unat x + 86400 < 2 ^ 64 \<Longrightarrow> unat (x + aDay) = unat x + 86400"
  using unat_aDay by (subst unat_add_lem [THEN iffD1]) auto

lemma next_day:
  fixes x y d :: nat
  assumes "d mod 86400 = 0" and "x < d" and "y div 86400 \<le> x div 86400 + 1"
  shows "y < d + 86400"
proof -
  obtain q where q: "d = 86400 * q" using assms(1) by auto
  have "x div 86400 < q" using assms(2) unfolding q by (simp add: less_mult_imp_div_less)
  then have "y div 86400 < q + 1" using assms(3) by simp
  then have "y < 86400 * (q + 1)" by (simp add: div_less_iff_less_mult)
  then show ?thesis unfolding q by simp
qed

lemma in_day_interval:
  assumes T: "day_times T" and p: "p < length T"
    and low: "\<And>j. j < length T \<Longrightarrow> d \<le> unat (T ! j) \<longleftrightarrow> a \<le> j"
    and mid: "\<And>j. a \<le> j \<Longrightarrow> j < p \<Longrightarrow> unat (T ! j) < d + 86400" and "d + 86400 \<le> unat (T ! p)"
  shows "in_day T d = {a..<p}"
proof -
  have "j < p" if "j < length T" "unat (T ! j) < d + 86400" for j
    using day_times_sorted [OF T, of p j] that assms(5) by (cases "p \<le> j") auto
  moreover have "d \<le> unat (T ! j)" if "a \<le> j" "j < p" for j using that low [of j] p by auto
  ultimately show ?thesis using mid low p by (auto simp: in_day_def)
qed

lemma day_loop_bins:
  assumes T: "day_times T"
  shows "day_loop lastMid off ts i s start nxt = (ivs, mids) \<Longrightarrow> ts = drop (off + i) T \<Longrightarrow> s \<le> i \<Longrightarrow>
    unat start mod 86400 = 0 \<Longrightarrow> unat nxt = unat start + 86400 \<Longrightarrow>
    (\<And>j. j < length T \<Longrightarrow> unat start \<le> unat (T ! j) \<longleftrightarrow> s + off \<le> j) \<Longrightarrow>
    (\<And>j. s + off \<le> j \<Longrightarrow> j < i + off \<Longrightarrow> unat (T ! j) < unat start + 86400) \<Longrightarrow>
    (i = s \<Longrightarrow> off + i < length T \<Longrightarrow> unat (T ! (off + i)) < unat start + 86400) \<Longrightarrow>
    k < length ivs \<Longrightarrow>
    unat (mids ! k) = unat start + k * 86400 \<and> in_day T (unat (mids ! k)) = {fst (ivs ! k)..<snd (ivs ! k)}"
proof (induction ts arbitrary: i s start nxt ivs mids k)
  case Nil
  from Nil.prems(1,9) show ?case by simp
next
  case (Cons t ts)
  have p: "off + i < length T" using Cons.prems(2) by (metis drop_all list.distinct(1) not_less)
  have t: "t = T ! (off + i)" "ts = drop (off + (i + 1)) T"
    using Cons.prems(2) by (simp_all add: Cons_nth_drop_Suc [OF p, symmetric])
  show ?case
  proof (cases "t \<ge> nxt")
    case False
    then have "unat (T ! (off + i)) < unat start + 86400"
      using Cons.prems(5) t(1) by (simp add: word_le_nat_alt)
    then have mid: "unat (T ! j) < unat start + 86400" if "s + off \<le> j" "j < i + 1 + off" for j
      using Cons.prems(7) [OF that(1)] that by (cases "j = off + i") simp_all
    have run: "day_loop lastMid off ts (i + 1) s start nxt = (ivs, mids)" using Cons.prems(1) False by simp
    show ?thesis
      by (rule Cons.IH [OF run t(2) _ Cons.prems(4,5,6) mid _ Cons.prems(9)]) (use Cons.prems(3) in simp_all)
  next
    case True
    then have ge: "unat start + 86400 \<le> unat (T ! (off + i))"
      using Cons.prems(5) t(1) by (simp add: word_le_nat_alt)
    have si: "s < i"
    proof (rule ccontr)
      assume "\<not> s < i"
      then show False using Cons.prems(8) [OF _ p] Cons.prems(3) ge by simp
    qed
    have day: "in_day T (unat start) = {s + off..<i + off}"
      by (rule in_day_interval [OF T _ Cons.prems(6,7)]) (use p ge in \<open>simp_all add: add.commute [of i off]\<close>)
    obtain ivs' mids' where r: "(if t > lastMid then ([], []) else day_loop lastMid off ts (i + 1) i nxt (nxt + aDay))
        = (ivs', mids')" by fastforce
    have e: "ivs = (s + off, i + off) # ivs'" "mids = start # mids'" using Cons.prems(1) True r by simp_all
    show ?thesis
    proof (cases k)
      case 0
      then show ?thesis using day by (simp add: e)
    next
      case (Suc k')
      then have go: "day_loop lastMid off ts (i + 1) i nxt (nxt + aDay) = (ivs', mids')" "k' < length ivs'"
        using r Cons.prems(9) by (auto simp: e split: if_splits)
      have b: "unat (T ! (off + i)) < 2 ^ 63" using day_times_bound [OF T p] by simp
      have nn: "unat (nxt + aDay) = unat nxt + 86400"
        by (rule unat_add_day) (use ge b Cons.prems(5) in simp)
      have low: "unat nxt \<le> unat (T ! j) \<longleftrightarrow> i + off \<le> j" if j: "j < length T" for j
      proof (cases "i + off \<le> j")
        case True
        then have "unat (T ! (off + i)) \<le> unat (T ! j)" using day_times_sorted [OF T _ j] by simp
        then show ?thesis using True ge unfolding Cons.prems(5) by simp
      next
        case False
        have "unat (T ! j) < unat start + 86400"
        proof (cases "s + off \<le> j")
          case True
          then show ?thesis using Cons.prems(7) [of j] False by simp
        next
          case below: False
          then show ?thesis using Cons.prems(6) [OF j] by simp
        qed
        then show ?thesis using False unfolding Cons.prems(5) by simp
      qed
      have "unat (T ! (off + i - 1)) < unat start + 86400" using Cons.prems(7) [of "off + i - 1"] si by simp
      moreover have "unat (T ! (off + i)) div 86400 \<le> unat (T ! (off + i - 1)) div 86400 + 1"
        using day_times_gap [OF T, of "off + i - 1"] p si by simp
      ultimately have cur: "unat (T ! (off + i)) < unat start + 86400 + 86400"
        using next_day [of "unat start + 86400"] Cons.prems(4) by simp
      have ih: "unat (mids' ! k') = unat nxt + k' * 86400 \<and> in_day T (unat (mids' ! k')) = {fst (ivs' ! k')..<snd (ivs' ! k')}"
      proof (rule Cons.IH [OF go(1) t(2) _ _ nn low _ _ go(2)])
        fix j assume "i + off \<le> j" "j < i + 1 + off"
        then have "j = off + i" by simp
        then show "unat (T ! j) < unat nxt + 86400" using cur unfolding Cons.prems(5) by simp
      qed (use Cons.prems(4) in \<open>simp_all add: Cons.prems(5)\<close>)
      have eqs: "mids ! k = mids' ! k'" "ivs ! k = ivs' ! k'" "unat start + k * 86400 = unat nxt + k' * 86400"
        by (simp_all add: e Suc Cons.prems(5))
      show ?thesis unfolding eqs by (rule ih)
    qed
  qed
qed

lemma range_sum_nth: "b \<le> length xs \<Longrightarrow> range_sum xs (a, b) = (\<Sum>j\<in>{a..<b}. xs ! j)"
proof (cases "a \<le> b")
  case True
  assume b: "b \<le> length xs"
  have "range_sum xs (a, b) = (\<Sum>i = 0..<b - a. xs ! (i + a))"
    using b True by (simp add: range_sum_def sum_list_sum_nth add.commute)
  also have "\<dots> = (\<Sum>j\<in>{a..<b}. xs ! j)"
    using True sum.shift_bounds_nat_ivl [of "\<lambda>j. xs ! j" 0 a "b - a"] by simp
  finally show ?thesis .
qed (simp add: range_sum_def)

lemma first_after_spec:
  assumes "\<exists>j<length T. T ! j > start"
  shows "first_after start i T \<ge> i \<and> first_after start i T < i + length T
     \<and> T ! (first_after start i T - i) > start \<and> (\<forall>j<first_after start i T - i. T ! j \<le> start)"
  using assms
proof (induction T arbitrary: i)
  case (Cons t ts)
  show ?case
  proof (cases "t > start")
    case False
    then have "\<exists>j<length ts. ts ! j > start" using Cons.prems by (metis Suc_less_eq length_Cons nth_Cons' not0_implies_Suc nth_Cons_Suc)
    note ih = Cons.IH [OF this, of "i + 1"]
    let ?f = "first_after start (i + 1) ts"
    have "?f - i = Suc (?f - (i + 1))" using ih by (simp add: Suc_diff_Suc)
    then show ?thesis using ih False by (auto simp: less_Suc_eq_0_disj)
  qed simp
qed simp

text \<open>The same on integers, which evaluates.\<close>

lemma day_times_int:
  "day_times T \<longleftrightarrow> sorted (map uint T) \<and> list_all (\<lambda>t. uint t < 2 ^ 63 \<and> uint t mod 86400 \<noteq> 0) T
     \<and> list_all (\<lambda>j. uint (T ! Suc j) div 86400 \<le> uint (T ! j) div 86400 + 1) [0..<length T - 1]"
proof -
  have m: "unat t mod 86400 = 0 \<longleftrightarrow> uint t mod 86400 = 0" for t :: u64
    using zmod_int [of "unat t" 86400] by (simp flip: of_nat_eq_0_iff [where 'a = int])
  have l: "unat t < 2 ^ 63 \<longleftrightarrow> uint t < 2 ^ 63" for t :: u64
    using nat_less_iff [of "uint t" "2 ^ 63"] by (simp flip: unat_eq_nat_uint)
  have d: "unat u div 86400 \<le> unat t div 86400 + 1 \<longleftrightarrow> uint u div 86400 \<le> uint t div 86400 + 1" for t u :: u64
    using of_nat_le_iff [of "unat u div 86400" "unat t div 86400 + 1", where 'a = int] by (simp add: zdiv_int add.commute)
  have "sorted (map unat T) \<longleftrightarrow> sorted (map uint T)"
    by (simp add: sorted_map word_le_nat_alt [symmetric] word_le_def [symmetric])
  then show ?thesis by (simp only: day_times_def m l d)
qed

definition aligned :: "zoomSet \<Rightarrow> ChartUints \<Rightarrow> bool" where
  "aligned days T \<longleftrightarrow> z_Time days = [] \<or>
     (let l = unat (List.last (z_Time days))
      in l mod 86400 = 0 \<and> l < 2 ^ 63 \<and> unat (hd T) < l + 2 * 86400)"

lemma midnight_unat: "unat (midnight t) = unat t - unat t mod 86400"
proof (cases "t = 0")
  case False
  have "t mod aDay \<le> t" by (simp add: word_le_nat_alt unat_mod)
  then show ?thesis using False
    by (simp add: midnight_def word_neq_0_conv [symmetric] unat_sub unat_mod unat_aDay)
qed (simp add: midnight_def)

lemma day_start_aligned:
  assumes "day_times (z_Time blocks)" and "z_Time blocks \<noteq> []" and "aligned days (z_Time blocks)"
  shows "unat (day_start blocks days) mod 86400 = 0" "unat (day_start blocks days) + 86400 < 2 ^ 64"
    "unat (hd (z_Time blocks)) < unat (day_start blocks days) + 86400"
proof -
  have h: "unat (hd (z_Time blocks)) < 2 ^ 63"
    using day_times_bound [OF assms(1), of 0] assms(2) by (simp add: hd_conv_nth)
  have "unat (day_start blocks days) mod 86400 = 0 \<and> unat (day_start blocks days) + 86400 < 2 ^ 64
    \<and> unat (hd (z_Time blocks)) < unat (day_start blocks days) + 86400"
  proof (cases "z_Time days = []")
    case True
    define x where "x = unat (hd (z_Time blocks))"
    have "x - x mod 86400 \<le> x" "x mod 86400 < 86400" "x mod 86400 \<le> x" by simp_all
    then have "x - x mod 86400 + 86400 < 2 ^ 64 \<and> x < x - x mod 86400 + 86400"
      using h unfolding x_def [symmetric] by (intro conjI; simp)
    moreover have "(x - x mod 86400) mod 86400 = 0" by (simp add: minus_mod_eq_mult_div)
    ultimately show ?thesis
      using True unfolding x_def by (simp only: day_start_def midnight_unat if_False simp_thms)
  next
    case False
    let ?l = "List.last (z_Time days)"
    have l: "unat ?l mod 86400 = 0" "unat ?l < 2 ^ 63" "unat (hd (z_Time blocks)) < unat ?l + 2 * 86400"
      using assms(3) False by (simp_all add: aligned_def Let_def)
    have "unat (day_start blocks days) = unat ?l + 86400"
      using False l(2) by (simp add: day_start_def unat_add_day)
    then show ?thesis using l by (simp add: mod_add_right_eq [symmetric])
  qed
  then show "unat (day_start blocks days) mod 86400 = 0" "unat (day_start blocks days) + 86400 < 2 ^ 64"
    "unat (hd (z_Time blocks)) < unat (day_start blocks days) + 86400" by simp_all
qed

lemma new_days_bins:
  assumes T: "day_times (z_Time blocks)" and ne: "z_Time blocks \<noteq> []" and al: "aligned days (z_Time blocks)"
    and new: "new_days blocks days = (ivs, mids)" and k: "k < length ivs"
  shows "in_day (z_Time blocks) (unat (mids ! k)) = {fst (ivs ! k)..<snd (ivs ! k)}"
proof -
  let ?T = "z_Time blocks" and ?s = "day_start blocks days"
  let ?o = "first_after ?s 0 ?T"
  note st = day_start_aligned [OF T ne al]
  have n: "unat (?s + aDay) = unat ?s + 86400" using st(2) by (rule unat_add_day)
  have run: "?s + aDay < midnight (List.last ?T)"
    "day_loop (midnight (List.last ?T)) ?o (drop ?o ?T) 0 0 ?s (?s + aDay) = (ivs, mids)"
    using new k by (auto simp: new_days_def Let_def split: if_splits)
  have "unat ?s < unat (List.last ?T)"
    using run(1) n by (simp add: word_less_nat_alt midnight_unat)
  then have ex: "\<exists>j<length ?T. ?T ! j > ?s"
    using ne by (intro exI [of _ "length ?T - 1"]) (simp add: last_conv_nth word_less_nat_alt)
  note fa = first_after_spec [OF ex, of 0, simplified]
  have lt: "unat (?T ! j) < unat ?s" if "j < ?o" for j
  proof -
    have "unat (?T ! j) \<le> unat ?s" "unat (?T ! j) mod 86400 \<noteq> 0"
      using fa that day_times_bound [OF T, of j] by (auto simp: word_le_nat_alt)
    then show ?thesis using st(1) by (metis le_neq_implies_less)
  qed
  have low: "unat ?s \<le> unat (?T ! j) \<longleftrightarrow> 0 + ?o \<le> j" if "j < length ?T" for j
    using lt [of j] day_times_sorted [OF T _ that, of ?o] fa
    by (cases "?o \<le> j") (auto simp: word_less_nat_alt)
  have cur: "unat (?T ! (?o + 0)) < unat ?s + 86400"
  proof (cases ?o)
    case 0
    then show ?thesis using st(3) ne by (simp add: hd_conv_nth)
  next
    case (Suc p)
    then have "unat (?T ! p) < unat ?s" "unat (?T ! Suc p) div 86400 \<le> unat (?T ! p) div 86400 + 1"
      using lt [of p] day_times_gap [OF T, of p] fa by auto
    then show ?thesis using next_day [OF st(1)] Suc by simp
  qed
  show ?thesis
    by (rule day_loop_bins [OF T run(2) _ _ st(1) n low _ cur k, THEN conjunct2]) simp_all
qed

text \<open>Day bins are right: for block times that are sorted, leave no day empty and avoid exact
  midnights, after a successful \<open>Lengthen\<close> each new entry of the day series is for a day whose blocks
  form one range, and its size, transaction count, new coins, fees and mixed amount are the sums over
  exactly the blocks of that day.\<close>

theorem Lengthen_day_bins:
  assumes "days_ok c" and "0 < blocks_len c" and "Lengthen c = Some (c', None)"
    and "day_times (z_Time (Blocks c'))" and "aligned (Days c) (z_Time (Blocks c'))"
    and "length (z_Time (Days c)) \<le> k" and "k < length (z_Time (Days c'))"
  shows "\<exists>a b. in_day (z_Time (Blocks c')) (unat (z_Time (Days c') ! k)) = {a..<b}
      \<and> z_Height (Days c') ! k = of_nat b - 1
      \<and> (\<forall>f \<in> {z_BlockSize, z_TxCount, z_NewAtoms, z_Fees, z_TotalMixed}.
           f (Days c') ! k
             = (\<Sum>j\<in>in_day (z_Time (Blocks c')) (unat (z_Time (Days c') ! k)). f (Blocks c') ! j))"
proof -
  obtain ivs mids where new: "new_days (cut_blocks c) (Days c) = (ivs, mids)" by fastforce
  have w: "0 < windows_len c"
    using assms(2,3) by (auto simp: Lengthen_eq Let_def split: if_splits)
  note s = Lengthen_success [OF assms(1,2) w new]
  note cl = zoom_okD [OF cut_ok(1) [of c]] and dl = zoom_okD [OF assms(1) [unfolded days_ok_def]]
  have ne: "z_Time (cut_blocks c) \<noteq> []" using cl(2) assms(2) by auto
  note ch = new_days_chained [OF new ne]
  have c': "c' = set_cacheIDs ivs (c\<lparr>Blocks := cut_blocks c, Windows := cut_windows c,
           Days := with_days (cut_blocks c) ivs ((Days c)\<lparr>z_Time := z_Time (Days c) @ mids\<rparr>)\<rparr>)"
    using assms(3) s(1) by simp
  have bt: "z_Time (Blocks c') = z_Time (cut_blocks c)" by (simp add: c')
  let ?i = "k - length (z_Time (Days c))"
  have dt: "z_Time (Days c') = z_Time (Days c) @ mids" by (simp add: c' with_days_def)
  have i: "?i < length ivs" using assms(6,7) ch(1) by (simp add: dt)
  have tk: "z_Time (Days c') ! k = mids ! ?i" using assms(6) by (simp add: dt nth_append)
  have bin: "in_day (z_Time (Blocks c')) (unat (z_Time (Days c') ! k)) = {fst (ivs ! ?i)..<snd (ivs ! ?i)}"
    using new_days_bins [OF _ ne _ new i] assms(4,5) unfolding tk bt by simp
  have e: "snd (ivs ! ?i) < blocks_len c" using ch(2) i cl(2) by simp
  have "z_Height (Days c') ! k = of_nat (snd (ivs ! ?i)) - 1"
    using assms(6) dl(1) i by (auto simp: c' set_cacheIDs_def with_days_def nth_append)
  moreover have "f (Days c') ! k
      = (\<Sum>j\<in>in_day (z_Time (Blocks c')) (unat (z_Time (Days c') ! k)). f (Blocks c') ! j)"
    if f: "f \<in> {z_BlockSize, z_TxCount, z_NewAtoms, z_Fees, z_TotalMixed}" for f
  proof -
    have "f (Days c') ! k = range_sum (f (Blocks c')) (ivs ! ?i)" "length (f (Blocks c')) = blocks_len c"
      using f assms(6) dl cl i by (auto simp: c' set_cacheIDs_def with_days_def nth_append)
    then show ?thesis
      using range_sum_nth [of "snd (ivs ! ?i)" "f (Blocks c')" "fst (ivs ! ?i)"] e unfolding bin by simp
  qed
  ultimately show ?thesis using bin by blast
qed

section \<open>Examples\<close>

definition example_blocks :: "ChartUints \<Rightarrow> zoomSet" where
  "example_blocks T =
     (let n = map of_nat [1..<length T + 1]
      in \<lparr>z_cacheID = 0, z_Height = map of_nat [0..<length T], z_Time = T, z_PoolSize = n,
          z_PoolValue = n, z_BlockSize = n, z_TxCount = n, z_NewAtoms = n, z_Chainwork = map uint T,
          z_Fees = n, z_TotalMixed = n, z_AnonymitySet = n\<rparr>)"

definition example_chart :: "ChartUints \<Rightarrow> (unit, unit) ChartData" where
  "example_chart T = (NewChartData 144 4096 ())\<lparr>Blocks := example_blocks T,
     Windows := \<lparr>w_cacheID = 0, w_Time = [100], w_Height = [0], w_PowDiff = [()], w_TicketPrice = [1],
                 w_StakeCount = [0], w_MissedVotes = [0], w_StakeCountVersion = 0\<rparr>\<rparr>"

definition example_days :: ChartUints where
  "example_days = [100, 86500, 86600, 172900, 259300]"

definition example_after :: "(unit, unit) ChartData" where
  "example_after = fst (the (Lengthen (example_chart example_days)))"

lemma example_chart_ok: "days_ok (example_chart example_days)" "0 < blocks_len (example_chart example_days)"
  by code_simp+

lemma example_Lengthen: "Lengthen (example_chart example_days) = Some (example_after, None)"
proof -
  have "case Lengthen (example_chart example_days) of Some (_, None) \<Rightarrow> True | _ \<Rightarrow> False" by code_simp
  then show ?thesis by (auto simp: example_after_def split: option.splits prod.splits)
qed

theorem Lengthen_consistent_witness:
  "\<exists>c'. Lengthen (example_chart example_days) = Some (c', None) \<and> zoom_ok 5 (Blocks c') \<and> days_ok c'"
proof -
  have "blocks_len (example_chart example_days) = 5" "windows_len (example_chart example_days) = 1" by code_simp+
  then show ?thesis using Lengthen_consistent [OF example_chart_ok(1)] by auto
qed

theorem Lengthen_conserves_witness:
  "\<exists>a b. a \<le> b \<and> sum_list (z_TxCount (Days example_after)) = range_sum (z_TxCount (Blocks example_after)) (a, b)"
proof -
  have "length (z_Time (Days (example_chart example_days))) = 0" by code_simp
  then show ?thesis
    using Lengthen_conserves [OF example_chart_ok example_Lengthen] by auto
qed

theorem Lengthen_day_bins_witness:
  "z_TxCount (Days example_after) ! 1
     = (\<Sum>j\<in>in_day (z_Time (Blocks example_after)) (unat (z_Time (Days example_after) ! 1)).
          z_TxCount (Blocks example_after) ! j)"
proof -
  have "day_times (z_Time (Blocks example_after))" unfolding day_times_int by code_simp
  moreover have "aligned (Days (example_chart example_days)) (z_Time (Blocks example_after))"
    "length (z_Time (Days (example_chart example_days))) \<le> 1" "1 < length (z_Time (Days example_after))"
    by code_simp+
  ultimately show ?thesis
    using Lengthen_day_bins [OF example_chart_ok example_Lengthen, of 1] by auto
qed

text \<open>A block at midnight can get lost: when the last block of a run is the first of its day, at
  exactly midnight, the next run starts after it and no day bin counts it. Here the third block, with
  three transactions, is counted when all blocks are processed at once and lost when \<open>Lengthen\<close> also
  ran after it.\<close>

theorem Lengthen_midnight_block_lost:
  "map_option (\<lambda>r. z_TxCount (Days (fst r)))
      (Lengthen (example_chart [100, 86450, 172800, 172860, 259205, 345601])) = Some [1, 2, 3 + 4, 5]
   \<and> Option.bind (Lengthen (example_chart [100, 86450, 172800]))
       (\<lambda>r. map_option (\<lambda>r. z_TxCount (Days (fst r)))
          (Lengthen ((fst r)\<lparr>Blocks := example_blocks [100, 86450, 172800, 172860, 259205, 345601]\<rparr>)))
     = Some [1, 2, 4, 5]"
  by code_simp

section \<open>The cache file\<close>

text \<open>C36. What is written to the cache file is restored: for chart data whose block series and whose
  window series have equal positive lengths, reading the file into new chart data succeeds, and all
  block and window series and the miner ranges are those that were written. A file with another
  version is refused and changes nothing.\<close>

theorem readCacheFile_writeCacheFile:
  assumes "zoom_ok n (Blocks c)" and "0 < n" and "window_ok m (Windows c)" and "0 < m"
  shows "(\<exists>c'. readCacheFile (writeCacheFile c) (NewChartData w v z :: ('f, 'd) ChartData) = Some (c', None)
           \<and> gobject c' = gobject c \<and> days_ok c')
    \<and> (Version data \<noteq> cacheVersion \<longrightarrow>
         readCacheFile (Some data) c0 = Some (c0, Some (CacheVersion (Version data))))"
proof -
  let ?l = "load_gobject (gobject c) (NewChartData w v z :: ('f, 'd) ChartData)"
  have z: "zoom_lens (Blocks ?l) = zoom_lens (Blocks c)" "window_lens (Windows ?l) = window_lens (Windows c)"
    by (simp_all add: load_gobject_def gobject_def zoom_lens_def window_lens_def)
  then have lens: "blocks_len ?l = n" "windows_len ?l = m"
    using zoom_okD [OF assms(1)] window_okD [OF assms(3)]
    by (simp_all add: blocks_len_def windows_len_def zoom_lens_def window_lens_def)
  have cut: "cut_blocks ?l = Blocks ?l" "cut_windows ?l = Windows ?l"
    using assms(1,3) z lens zoom_Snip_id [of n "Blocks ?l"] window_Snip_id [of m "Windows ?l"]
    by (simp_all add: cut_blocks_def cut_windows_def zoom_ok_def window_ok_def)
  have "days_ok ?l"
    by (simp add: days_ok_def load_gobject_def NewChartData_def newDaySet_def newBlockSet_def zoom_ok_def zoom_lens_def)
  moreover obtain ivs mids where "new_days (cut_blocks ?l) (Days ?l) = (ivs, mids)" by fastforce
  ultimately obtain d where d: "Lengthen ?l = Some (set_cacheIDs ivs (?l\<lparr>Days := d\<rparr>), None)"
      "zoom_ok (length (z_Time (Days ?l)) + length ivs) d"
    using Lengthen_success [of ?l] assms(2,4) lens cut by auto
  let ?c = "set_cacheIDs ivs (?l\<lparr>Days := d\<rparr>)"
  have "gobject ?c = gobject c"
    by (simp add: gobject_def load_gobject_def set_cacheIDs_def)
  moreover have "days_ok ?c"
    using d(2) zoom_okD(2) [OF d(2)] by (simp add: days_ok_def)
  moreover have "readCacheFile (writeCacheFile c) (NewChartData w v z :: ('f, 'd) ChartData) = Some (?c, None)"
    using d(1) by (simp add: readCacheFile_def writeCacheFile_def)
  ultimately show ?thesis by (auto simp: readCacheFile_def)
qed

theorem readCacheFile_writeCacheFile_witness:
  "\<exists>c' :: (unit, unit) ChartData.
     readCacheFile (writeCacheFile (example_chart example_days)) (NewChartData 144 4096 ()) = Some (c', None)
       \<and> gobject c' = gobject (example_chart example_days)"
proof -
  have "zoom_ok 5 (Blocks (example_chart example_days))" "window_ok 1 (Windows (example_chart example_days))"
    by code_simp+
  then show ?thesis
    using readCacheFile_writeCacheFile [of 5 "example_chart example_days" 1 144 4096 "()", where 'd = unit] by auto
qed

section \<open>Reorganizations\<close>

lemma keep_windows_eq:
  "keep_windows a i hs n =
     (if list_all (\<lambda>h. sint h \<le> a) hs then n else i + length (takeWhile (\<lambda>h. sint h \<le> a) hs))"
  by (induction hs arbitrary: i) auto

lemma takeWhile_all: "list_all P xs \<longleftrightarrow> length (takeWhile P xs) = length xs"
  by (induction xs) auto

lemma ReorgHandler_eq:
  "ReorgHandler h n c =
     c\<lparr>Blocks := zoom_Snip (h - int n + 1) (Blocks c),
       Days := zoom_Snip (max 1 (int (length (z_Time (Days c))) - 2)) (Days c),
       Windows := (let k = length (takeWhile (\<lambda>w. sint w \<le> h - int n) (w_Height (Windows c)))
                   in if k < length (w_Height (Windows c)) then window_Snip (int k) (Windows c) else Windows c)\<rparr>"
proof -
  let ?k = "length (takeWhile (\<lambda>w. sint w \<le> h - int n) (w_Height (Windows c)))"
  have "?k \<le> length (w_Height (Windows c))" by (rule length_takeWhile_le)
  then have k: "keep_windows (h - int n) 0 (w_Height (Windows c)) (length (w_Height (Windows c))) = ?k"
    by (auto simp: keep_windows_eq takeWhile_all)
  show ?thesis by (auto simp: ReorgHandler_def Let_def k max_def)
qed

lemma zoom_Snip_lens:
  assumes "zoom_ok n s"
  shows "zoom_ok (min (nat l) n) (zoom_Snip l s)"
  using zoom_okD [OF assms] by (simp add: zoom_ok_def zoom_lens_def zoom_Snip_def)

lemma window_Snip_lens:
  assumes "window_ok n s"
  shows "window_ok (min (nat l) n) (window_Snip l s)"
  using window_okD [OF assms] by (simp add: window_ok_def window_lens_def window_Snip_def)

text \<open>A reorganization cuts the data at the common ancestor: the block series keep the heights up to
  the ancestor, the window series keep exactly the windows before the first that starts above it,
  series of equal length stay so, at least one day is kept of those there were, and \<open>Lengthen\<close> can run
  on the result.\<close>

theorem ReorgHandler_cuts:
  assumes "zoom_ok n (Blocks c)" and "window_ok m (Windows c)" and "days_ok c"
    and "c' = ReorgHandler newChainHeight newChainLen c" and "a = newChainHeight - int newChainLen"
  shows "z_Time (Blocks c') = take (nat (a + 1)) (z_Time (Blocks c)) \<and> zoom_ok (min (nat (a + 1)) n) (Blocks c')
    \<and> w_Height (Windows c') = takeWhile (\<lambda>w. sint w \<le> a) (w_Height (Windows c))
    \<and> window_ok (length (w_Height (Windows c'))) (Windows c')
    \<and> z_Time (Days c') = take (max 1 (length (z_Time (Days c)) - 2)) (z_Time (Days c))
    \<and> days_ok c' \<and> Lengthen c' \<noteq> None"
proof -
  let ?k = "length (takeWhile (\<lambda>w. sint w \<le> a) (w_Height (Windows c)))"
  have take_k: "take ?k (w_Height (Windows c)) = takeWhile (\<lambda>w. sint w \<le> a) (w_Height (Windows c))"
    by (rule takeWhile_eq_take [symmetric])
  have le: "?k \<le> length (w_Height (Windows c))" by (rule length_takeWhile_le)
  have b: "Blocks c' = zoom_Snip (a + 1) (Blocks c)"
    and d: "Days c' = zoom_Snip (max 1 (int (length (z_Time (Days c))) - 2)) (Days c)"
    and w: "Windows c' = (if ?k < length (w_Height (Windows c)) then window_Snip (int ?k) (Windows c) else Windows c)"
    by (simp_all add: assms(4,5) ReorgHandler_eq Let_def)
  have snip_nat: "z_Time (zoom_Snip l s) = take (nat l) (z_Time s)" for l s
    by (auto simp: zoom_Snip_def snip_def)
  have wh: "w_Height (Windows c') = takeWhile (\<lambda>w. sint w \<le> a) (w_Height (Windows c))"
    using le take_k by (auto simp: w window_Snip_def)
  have "window_ok ?k (Windows c')"
    using window_Snip_lens [OF assms(2), of "int ?k"] assms(2) window_okD(6) [OF assms(2)] le
    by (cases "?k < length (w_Height (Windows c))") (simp_all add: w)
  moreover have days: "days_ok c'"
    unfolding days_ok_def d snip_nat length_take min.commute [of "length (z_Time (Days c))"]
    by (rule zoom_Snip_lens [OF assms(3) [unfolded days_ok_def]])
  moreover have "nat (max 1 (int (length (z_Time (Days c))) - 2)) = max 1 (length (z_Time (Days c)) - 2)" by simp
  moreover have "Lengthen c' \<noteq> None" using Lengthen_outcome [OF days] by auto
  ultimately show ?thesis
    using zoom_Snip_lens [OF assms(1)] by (simp add: b d wh snip_nat)
qed

theorem ReorgHandler_cuts_witness:
  "z_Time (Blocks (ReorgHandler 4 3 (example_chart example_days))) = [100, 86500]"
proof -
  have "zoom_ok 5 (Blocks (example_chart example_days))" "window_ok 1 (Windows (example_chart example_days))"
    "take 2 (z_Time (Blocks (example_chart example_days))) = [100, 86500]"
    by code_simp+
  then show ?thesis using ReorgHandler_cuts [OF _ _ example_chart_ok(1) refl refl, of 5 1 4 3] by simp
qed

end
