(* ===== verification/ChartSeries.thy ===== *)
theory ChartSeries
  imports ChartDays
begin

text \<open>
  Series derived for the charts (\<open>db/cache/charts.go\<close>): running totals, block intervals and their
  daily averages, the correction of the genesis time, and the number of active miners at each
  height, computed by a sweep over sorted events and compared here with a direct count.
\<close>

section \<open>Totals and intervals\<close>

fun accumulate_from :: "u64 \<Rightarrow> ChartUints \<Rightarrow> ChartUints" where
  "accumulate_from acc [] = []"
| "accumulate_from acc (v # data) = (acc + v) # accumulate_from (acc + v) data"

definition accumulate :: "ChartUints \<Rightarrow> ChartUints" where
  "accumulate data = accumulate_from 0 data"

definition genesisGapThreshold :: u64 where
  "genesisGapThreshold = 3600"

text \<open>The slice after the call, and whether it was corrected.\<close>

definition NormalizeGenesisBlockTime :: "ChartUints \<Rightarrow> ChartUints \<times> bool" where
  "NormalizeGenesisBlockTime times0 =
     (if length times0 < 2 then (times0, False)
      else if times0 ! 1 - times0 ! 0 \<le> genesisGapThreshold then (times0, False)
      else (times0[0 := times0 ! 1 - 1], True))"

fun diffs_from :: "u64 \<Rightarrow> ChartUints \<Rightarrow> ChartUints" where
  "diffs_from prev [] = []"
| "diffs_from prev (v # vs) =
     (let dif = v - prev; dif = (if sint dif < 0 then 0 else dif) in dif # diffs_from v vs)"

definition blockTimes :: "ChartUints \<Rightarrow> ChartUints \<times> ChartUints" where
  "blockTimes blocks =
     (case blocks of
        [] \<Rightarrow> ([], [])
      | [b] \<Rightarrow> ([], [])
      | b # rest \<Rightarrow> (rest, diffs_from b rest))"

text \<open>The loop of \<open>avgBlockTimes\<close> over the blocks from index \<open>i\<close>; \<open>None\<close> is an index out of range.\<close>

fun avg_loop ::
  "ChartUints \<Rightarrow> ChartUints \<Rightarrow> ChartUints \<Rightarrow> nat \<Rightarrow> nat \<Rightarrow> u64 \<Rightarrow> u64 \<Rightarrow> nat
     \<Rightarrow> ChartUints \<Rightarrow> ChartUints \<Rightarrow> (ChartUints \<times> ChartUints) option" where
  "avg_loop ticks blocks [] i nextIdx workingOn nxt lastIdx ts avgs = Some (ts, avgs)"
| "avg_loop ticks blocks (t # rest) i nextIdx workingOn nxt lastIdx ts avgs =
     (if t > nxt then do {
        seg \<leftarrow> segment lastIdx i blocks;
        let pts = snd (blockTimes seg);
        avg \<leftarrow> uints_Avg 0 (length pts) pts;
        let avgs' = avgs @ [avg];
        let ts' = ts @ [workingOn];
        if nextIdx + 1 > length ticks - 1 then Some (ts', avgs')
        else do {
          n \<leftarrow> nth_opt ticks (nextIdx + 1);
          avg_loop ticks blocks rest (i + 1) (nextIdx + 1) n n i ts' avgs'
        }
      } else avg_loop ticks blocks rest (i + 1) nextIdx workingOn nxt lastIdx ts avgs)"

definition avgBlockTimes :: "ChartUints \<Rightarrow> ChartUints \<Rightarrow> (ChartUints \<times> ChartUints) option" where
  "avgBlockTimes ticks blocks =
     (if length ticks < 2 then Some ([], [])
      else avg_loop ticks blocks blocks 0 1 (ticks ! 0) (ticks ! 1) 0 [] [])"

section \<open>Active miners\<close>

datatype intervalType = AllInterval | YearInterval | WeekInterval | DayInterval

definition lookback :: "intervalType \<Rightarrow> u64" where
  "lookback interval =
     (case interval of
        AllInterval \<Rightarrow> 0
      | YearInterval \<Rightarrow> 365 * 24 * 60 * 60
      | WeekInterval \<Rightarrow> 7 * 24 * 60 * 60
      | DayInterval \<Rightarrow> 24 * 60 * 60)"

text \<open>\<open>sort.Search\<close> on \<open>[i, j)\<close>.\<close>

function search :: "(nat \<Rightarrow> bool) \<Rightarrow> nat \<Rightarrow> nat \<Rightarrow> nat" where
  "search f i j =
     (if i < j then
        let h = (i + j) div 2 in if \<not> f h then search f (h + 1) j else search f i h
      else i)"
  by pat_completeness auto
termination by (relation "measure (\<lambda>(f, i, j). j - i)") auto

declare search.simps [simp del]

text \<open>The events of one miner: height and change; \<open>None\<close> is an index out of range.\<close>

definition miner_events :: "nat \<Rightarrow> intervalType \<Rightarrow> ChartUints \<Rightarrow> MinerRange \<Rightarrow> (int \<times> int) list option" where
  "miner_events numBlocks interval T m =
     (if sint (FirstSeen m) \<ge> int numBlocks then Some []
      else if interval = AllInterval then Some [(sint (FirstSeen m), 1)]
      else
        let used = sint (LastUsed m);
            used = (if used \<ge> int numBlocks then int numBlocks - 1 else used)
        in if used < 0 \<or> used \<ge> int (length T) then None
           else
             let tExit = T ! nat used + lookback interval;
                 exitHeight = search (\<lambda>i. T ! i > tExit) 0 (length T)
             in Some ((sint (FirstSeen m), 1) #
                      (if exitHeight < numBlocks then [(int exitHeight, -1)] else [])))"

fun all_events :: "nat \<Rightarrow> intervalType \<Rightarrow> ChartUints \<Rightarrow> MinerRange list \<Rightarrow> (int \<times> int) list option" where
  "all_events n interval T [] = Some []"
| "all_events n interval T (m # ms) =
     (case miner_events n interval T m of
        None \<Rightarrow> None
      | Some evs \<Rightarrow> map_option (\<lambda>r. evs @ r) (all_events n interval T ms))"

fun sweep_at :: "int \<Rightarrow> (int \<times> int) list \<Rightarrow> u64 \<Rightarrow> u64 \<times> (int \<times> int) list" where
  "sweep_at h [] current = (current, [])"
| "sweep_at h (e # es) current =
     (if fst e = h
      then sweep_at h es (if snd e > 0 then current + of_int (snd e) else current - of_int (- snd e))
      else (current, e # es))"

fun sweep :: "nat \<Rightarrow> int \<Rightarrow> (int \<times> int) list \<Rightarrow> u64 \<Rightarrow> ChartUints" where
  "sweep 0 h es current = []"
| "sweep (Suc n) h es current =
     (let (current', es') = sweep_at h es current in current' # sweep n (h + 1) es' current')"

text \<open>\<open>sort.Slice\<close> leaves the order of equal heights open; \<open>sweep_sorted\<close> below shows that the counts do
  not depend on it.\<close>

definition activeMinersCounts :: "nat \<Rightarrow> intervalType \<Rightarrow> ('f, 'd) ChartData \<Rightarrow> ChartUints option" where
  "activeMinersCounts numBlocks interval c =
     (if numBlocks = 0 \<or> MinerRanges c = [] then Some (replicate numBlocks 0)
      else
        map_option (\<lambda>events. sweep numBlocks 0 (sort_key fst events) 0)
          (all_events numBlocks interval (z_Time (Blocks c)) (MinerRanges c)))"

section \<open>Lemmas\<close>

lemma accumulate_from_nth:
  "i < length data \<Longrightarrow> accumulate_from acc data ! i = acc + sum_list (take (Suc i) data)"
  by (induction data arbitrary: acc i) (auto simp: nth_Cons add.assoc split: nat.split)

lemma length_accumulate [simp]: "length (accumulate data) = length data"
proof -
  have "length (accumulate_from acc data) = length data" for acc by (induction data arbitrary: acc) auto
  then show ?thesis by (simp add: accumulate_def)
qed

lemma accumulate_nth: "i < length data \<Longrightarrow> accumulate data ! i = sum_list (take (Suc i) data)"
  by (simp add: accumulate_def accumulate_from_nth)

lemma length_diffs_from [simp]: "length (diffs_from p vs) = length vs"
  by (induction vs arbitrary: p) (simp_all add: Let_def)

lemma blockTimes_lengths: "length (fst (blockTimes b)) = length (snd (blockTimes b))"
  by (auto simp: blockTimes_def Let_def split: list.split)

lemma NormalizeGenesisBlockTime_again:
  "NormalizeGenesisBlockTime (fst (NormalizeGenesisBlockTime ts)) = (fst (NormalizeGenesisBlockTime ts), False)"
  by (cases ts; cases "tl ts") (auto simp: NormalizeGenesisBlockTime_def genesisGapThreshold_def word_le_nat_alt)

lemma avg_loop_total:
  "i + length rest = length blocks \<Longrightarrow> rest = drop i blocks \<Longrightarrow> lastIdx \<le> i \<Longrightarrow> length ts = length avgs \<Longrightarrow>
     \<exists>ts' avgs'. avg_loop ticks blocks rest i nextIdx w nxt lastIdx ts avgs = Some (ts', avgs')
       \<and> length ts' = length avgs'"
proof (induction rest arbitrary: i nextIdx w nxt lastIdx ts avgs)
  case (Cons t rest)
  have seg: "segment lastIdx i blocks = Some (take (i - lastIdx) (drop lastIdx blocks))"
    using Cons.prems by (simp add: segment_def)
  let ?p = "snd (blockTimes (take (i - lastIdx) (drop lastIdx blocks)))"
  have avg: "\<exists>a. uints_Avg 0 (length ?p) ?p = Some a" by (simp add: uints_Avg_eq)
  have rest: "rest = drop (i + 1) blocks" using Cons.prems(2) by (metis Suc_eq_plus1 drop_Suc list.sel(3) tl_drop)
  have ih: "\<exists>ts' avgs'. avg_loop ticks blocks rest (i + 1) k w nxt l ts avgs = Some (ts', avgs')
       \<and> length ts' = length avgs'" if "l \<le> i + 1" "length ts = length avgs" for k w nxt l ts avgs
    by (rule Cons.IH) (use Cons.prems that rest in auto)
  show ?case
    using avg ih [of lastIdx ts avgs] ih [of i "ts @ [w]"] Cons.prems(3,4)
    by (auto simp: seg nth_opt_def Let_def)
qed simp

lemma avgBlockTimes_total:
  "\<exists>ts avgs. avgBlockTimes ticks blocks = Some (ts, avgs) \<and> length ts = length avgs"
  using avg_loop_total [of 0 blocks blocks 0 "[]" "[]"] by (auto simp: avgBlockTimes_def)

lemma avg_loop_labels:
  defines "labels \<equiv> (\<lambda>ticks :: ChartUints. hd ticks # drop 2 ticks)"
  assumes "avg_loop ticks blocks rest i nextIdx workingOn nxt lastIdx ts avgs = Some (ts', avgs')"
    and "0 < nextIdx" and "nextIdx < length ticks" and "length avgs = length ts"
    and "ts = take (nextIdx - 1) (labels ticks)" and "workingOn = labels ticks ! (nextIdx - 1)"
  shows "\<exists>k. ts' = take k (labels ticks) \<and> length avgs' = length ts'"
  using assms(2-)
proof (induction rest arbitrary: i nextIdx workingOn nxt lastIdx ts avgs)
  case Nil
  then show ?case by auto
next
  case (Cons t rest)
  have len: "length (labels ticks) = length ticks - 1" using Cons.prems(2,3) by (simp add: labels_def)
  have grown: "ts @ [workingOn] = take nextIdx (labels ticks)"
    using Cons.prems(2-) take_Suc_conv_app_nth [of "nextIdx - 1" "labels ticks"] len by simp
  show ?case
  proof (cases "t > nxt \<and> nextIdx + 1 \<le> length ticks - 1")
    case True
    then have lt: "Suc nextIdx < length ticks" by linarith
    have grown': "Suc (length ts) = nextIdx" using arg_cong [OF grown, of length] len Cons.prems(3) by simp
    from lt have "2 \<le> length ticks" using Cons.prems(2) by linarith
    then have tick: "ticks ! (nextIdx + 1) = labels ticks ! nextIdx"
      using Cons.prems(2) by (cases nextIdx) (simp_all add: labels_def)
    from True Cons.prems(1) obtain avg where
      "avg_loop ticks blocks rest (i + 1) (nextIdx + 1) (ticks ! (nextIdx + 1)) (ticks ! (nextIdx + 1)) i
        (ts @ [workingOn]) (avgs @ [avg]) = Some (ts', avgs')"
      by (auto simp: nth_opt_def Let_def split: bind_splits if_splits)
    then show ?thesis
      by (rule Cons.IH) (use lt grown' len Cons.prems(4) grown tick in simp_all)
  next
    case stays: False
    show ?thesis
    proof (cases "t > nxt")
      case True
      then have "\<exists>avg. ts' = ts @ [workingOn] \<and> avgs' = avgs @ [avg]"
        using stays Cons.prems(1) by (auto simp: Let_def split: bind_splits if_splits)
      then show ?thesis using Cons.prems(4) grown by (metis length_append_singleton)
    next
      case False
      then have "avg_loop ticks blocks rest (i + 1) nextIdx workingOn nxt lastIdx ts avgs = Some (ts', avgs')"
        using Cons.prems(1) by simp
      then show ?thesis by (rule Cons.IH) (rule Cons.prems)+
    qed
  qed
qed

text \<open>\<open>avgBlockTimes\<close> never indexes out of range, returns one average for every label, and takes its
  labels in order from the first tick and the ticks after the second: an average over the blocks
  between two ticks is labelled with the first of them for the first interval only, and with the
  second of them for all others. The second tick is never a label.\<close>

theorem avgBlockTimes_labels:
  "\<exists>ts avgs k. avgBlockTimes ticks blocks = Some (ts, avgs) \<and> length avgs = length ts
     \<and> ts = take k (hd ticks # drop 2 ticks)"
proof (cases "length ticks < 2")
  case True
  then show ?thesis by (simp add: avgBlockTimes_def exI [of _ 0])
next
  case False
  obtain ts avgs where r: "avgBlockTimes ticks blocks = Some (ts, avgs)" using avgBlockTimes_total by blast
  then have "avg_loop ticks blocks blocks 0 1 (ticks ! 0) (ticks ! 1) 0 [] [] = Some (ts, avgs)"
    using False by (simp add: avgBlockTimes_def)
  from avg_loop_labels [OF this] False have "\<exists>k. ts = take k (hd ticks # drop 2 ticks) \<and> length avgs = length ts"
    by (cases ticks) auto
  with r show ?thesis by blast
qed

section \<open>The sweep counts\<close>

definition delta_sum :: "(int \<Rightarrow> bool) \<Rightarrow> (int \<times> int) list \<Rightarrow> int" where
  "delta_sum P es = (\<Sum>e\<leftarrow>filter (\<lambda>e. P (fst e)) es. snd e)"

lemma delta_sum_append [simp]: "delta_sum P (xs @ ys) = delta_sum P xs + delta_sum P ys"
  by (simp add: delta_sum_def)

lemma delta_sum_mset: "mset xs = mset ys \<Longrightarrow> delta_sum P xs = delta_sum P ys"
proof -
  have "delta_sum P zs = sum_mset (image_mset snd (filter_mset (\<lambda>e. P (fst e)) (mset zs)))" for zs
    by (simp add: delta_sum_def sum_mset_sum_list flip: mset_filter mset_map)
  then show "mset xs = mset ys \<Longrightarrow> ?thesis" by simp
qed

lemma sweep_at_spec:
  assumes "sorted (map fst es)" and "\<forall>e\<in>set es. h \<le> fst e" and "sweep_at h es cur = (cur', es')"
  shows "cur' = cur + of_int (delta_sum (\<lambda>x. x \<le> h) es)" "sorted (map fst es')"
    "\<forall>e\<in>set es'. h + 1 \<le> fst e" "delta_sum (\<lambda>x. x \<le> k) es' = delta_sum (\<lambda>x. h < x \<and> x \<le> k) es"
proof -
  have "cur' = cur + of_int (delta_sum (\<lambda>x. x \<le> h) es) \<and> sorted (map fst es')
    \<and> (\<forall>e\<in>set es'. h + 1 \<le> fst e) \<and> delta_sum (\<lambda>x. x \<le> k) es' = delta_sum (\<lambda>x. h < x \<and> x \<le> k) es"
    using assms
  proof (induction es arbitrary: cur)
    case Nil
    then show ?case by (simp add: delta_sum_def)
  next
    case (Cons e es)
    show ?case
    proof (cases "fst e = h")
      case True
      have "(if snd e > 0 then cur + of_int (snd e) else cur - of_int (- snd e)) = cur + of_int (snd e)" by simp
      then show ?thesis
        using Cons.IH [of "cur + of_int (snd e)"] Cons.prems True by (auto simp: delta_sum_def)
    next
      case False
      then have gt: "\<forall>x\<in>set (e # es). h < fst x" using Cons.prems(1,2) by fastforce
      then have "filter (\<lambda>x. fst x \<le> h) (e # es) = []" "filter (\<lambda>x. h < fst x \<and> fst x \<le> k) (e # es) = filter (\<lambda>x. fst x \<le> k) (e # es)"
        by (fastforce simp: filter_empty_conv, intro filter_cong, auto)
      moreover have "cur' = cur" "es' = e # es" using Cons.prems(3) False by simp_all
      ultimately show ?thesis using Cons.prems(1) gt by (simp add: delta_sum_def add1_zle_eq)
    qed
  qed
  then show "cur' = cur + of_int (delta_sum (\<lambda>x. x \<le> h) es)" "sorted (map fst es')"
    "\<forall>e\<in>set es'. h + 1 \<le> fst e" "delta_sum (\<lambda>x. x \<le> k) es' = delta_sum (\<lambda>x. h < x \<and> x \<le> k) es" by simp_all
qed

lemma delta_sum_split:
  "h \<le> k \<Longrightarrow> delta_sum (\<lambda>x. x \<le> h) es + delta_sum (\<lambda>x. h < x \<and> x \<le> k) es = delta_sum (\<lambda>x. x \<le> k) es"
  by (induction es) (auto simp: delta_sum_def)

text \<open>For any sorted order of the events the sweep gives, at each height, the sum of the changes so far.\<close>

lemma sweep_sorted:
  assumes "sorted (map fst es)" and "\<forall>e\<in>set es. h \<le> fst e" and "j < n"
  shows "sweep n h es cur ! j = cur + of_int (delta_sum (\<lambda>x. x \<le> h + int j) es)"
  using assms
proof (induction n arbitrary: h es cur j)
  case (Suc n)
  obtain cur' es' where at: "sweep_at h es cur = (cur', es')" by fastforce
  note spec = sweep_at_spec [OF Suc.prems(1,2) at]
  show ?case
  proof (cases j)
    case 0
    then show ?thesis using at spec(1) by simp
  next
    case (Suc i)
    have "sweep n (h + 1) es' cur' ! i = cur' + of_int (delta_sum (\<lambda>x. x \<le> h + 1 + int i) es')"
      by (rule Suc.IH [OF spec(2,3)]) (use Suc Suc.prems(3) in simp)
    also have "\<dots> = cur + of_int (delta_sum (\<lambda>x. x \<le> h + int j) es)"
      using delta_sum_split [of h "h + int j" es] spec(4) [of "h + int j"]
      by (simp add: spec(1) Suc algebra_simps flip: of_int_add)
    finally show ?thesis using at Suc by simp
  qed
qed simp

lemma length_sweep [simp]: "length (sweep n h es cur) = n"
  by (induction n arbitrary: h es cur) (auto split: prod.split)

lemma search_mono:
  assumes mono: "\<And>a b. a \<le> b \<Longrightarrow> b < n \<Longrightarrow> f a \<Longrightarrow> f b"
    and "i \<le> j" "j \<le> n" "\<And>a. a < i \<Longrightarrow> \<not> f a" "\<And>a. j \<le> a \<Longrightarrow> a < n \<Longrightarrow> f a" "a < n"
  shows "search f i j \<le> a \<longleftrightarrow> f a"
  using assms(2-)
proof (induction "j - i" arbitrary: i j rule: less_induct)
  case less
  show ?case
  proof (cases "i < j")
    case False
    then have "search f i j = i" "i = j" using less.prems(1) by (simp_all add: search.simps)
    then show ?thesis using less.prems(3) [of a] less.prems(4) [of a] less.prems(5) by (cases "a < i") auto
  next
    case True
    let ?h = "(i + j) div 2"
    have h: "i \<le> ?h" "?h < j" using True by simp_all
    show ?thesis
    proof (cases "f ?h")
      case no: False
      have "\<not> f b" if "b < ?h + 1" for b
        using mono [of b ?h] no that h less.prems(2) by auto
      then have "search f (?h + 1) j \<le> a \<longleftrightarrow> f a"
        using less.hyps [of j "?h + 1"] less.prems h by (simp add: diff_less_mono2)
      then show ?thesis using True no by (subst search.simps) (simp add: Let_def)
    next
      case yes: True
      have "f b" if "?h \<le> b" "b < n" for b using mono [OF that yes] .
      then have "search f i ?h \<le> a \<longleftrightarrow> f a"
        using less.hyps [of ?h i] less.prems h by (simp add: diff_less_mono)
      then show ?thesis using True yes by (subst search.simps) (simp add: Let_def)
    qed
  qed
qed

text \<open>A miner is active at a height from the first block it mined on, until its last block is older than
  the interval.\<close>

definition active_at :: "intervalType \<Rightarrow> ChartUints \<Rightarrow> nat \<Rightarrow> MinerRange \<Rightarrow> bool" where
  "active_at interval T h m \<longleftrightarrow> unat (FirstSeen m) \<le> h
     \<and> (interval = AllInterval
        \<or> unat (T ! h) \<le> unat (T ! min (unat (LastUsed m)) (length T - 1)) + unat (lookback interval))"

definition range_wf :: "MinerRange \<Rightarrow> bool" where
  "range_wf m \<longleftrightarrow> unat (FirstSeen m) \<le> unat (LastUsed m) \<and> unat (LastUsed m) < 2 ^ 63"

definition times_wf :: "ChartUints \<Rightarrow> bool" where
  "times_wf T \<longleftrightarrow> sorted (map unat T) \<and> list_all (\<lambda>t. unat t < 2 ^ 63) T"

lemma sint_small: "unat (x :: u64) < 2 ^ 63 \<Longrightarrow> sint x = int (unat x)"
proof -
  assume "unat x < 2 ^ 63"
  then have "uint x < 2 ^ 63" using nat_less_iff [of "uint x" "2 ^ 63"] by (simp flip: unat_eq_nat_uint)
  moreover have "- (2 ^ 63) \<le> uint x" using uint_ge_0 [of x] by (rule order_trans [rotated]) simp
  ultimately have "signed_take_bit 63 (uint x) = uint x" by (rule signed_take_bit_int_eq_self [rotated])
  then show ?thesis by (simp add: sint_uint)
qed

lemma times_wf_nth: "times_wf T \<Longrightarrow> i \<le> j \<Longrightarrow> j < length T \<Longrightarrow> unat (T ! i) \<le> unat (T ! j)"
  using sorted_nth_mono [of "map unat T" i j] by (simp add: times_wf_def)

lemma times_wf_bound: "times_wf T \<Longrightarrow> i < length T \<Longrightarrow> unat (T ! i) < 2 ^ 63"
  by (simp add: times_wf_def list_all_length)

lemma lookback_bound: "unat (lookback interval) < 2 ^ 62"
  by (cases interval) (simp_all add: lookback_def)

lemma exit_height:
  assumes T: "times_wf T" and u: "u < length T" and h: "h < length T"
  shows "search (\<lambda>i. T ! i > T ! u + lookback interval) 0 (length T) \<le> h
     \<longleftrightarrow> unat (T ! h) > unat (T ! u) + unat (lookback interval)"
proof -
  have "unat (T ! u) + unat (lookback interval) < 2 ^ 64"
    using times_wf_bound [OF T u] lookback_bound [of interval] by simp
  then have sum: "unat (T ! u + lookback interval) = unat (T ! u) + unat (lookback interval)"
    by (subst unat_add_lem [THEN iffD1]) simp_all
  have mono: "T ! b > T ! u + lookback interval" if "a \<le> b" "b < length T" "T ! a > T ! u + lookback interval" for a b
    using times_wf_nth [OF T that(1,2)] that(3) by (simp add: word_less_nat_alt)
  have "search (\<lambda>i. T ! i > T ! u + lookback interval) 0 (length T) \<le> h \<longleftrightarrow> T ! h > T ! u + lookback interval"
    by (rule search_mono [OF mono]) (use h in auto)
  then show ?thesis by (simp add: word_less_nat_alt sum)
qed

lemma miner_events_spec:
  assumes m: "range_wf m" and T: "times_wf T" and h: "h < length T"
  shows "\<exists>evs. miner_events (length T) interval T m = Some evs \<and> (\<forall>e\<in>set evs. 0 \<le> fst e)
    \<and> delta_sum (\<lambda>x. x \<le> int h) evs = (if active_at interval T h m then 1 else 0)"
proof -
  define F L where FL: "F = unat (FirstSeen m)" "L = unat (LastUsed m)"
  have f: "sint (FirstSeen m) = int F" "sint (LastUsed m) = int L"
    using m sint_small [of "FirstSeen m"] sint_small [of "LastUsed m"] by (simp_all add: range_wf_def FL)
  have wf: "F \<le> L" using m by (simp add: range_wf_def FL)
  show ?thesis
  proof (cases "length T \<le> F")
    case True
    then show ?thesis using h by (simp add: miner_events_def f FL [symmetric] active_at_def delta_sum_def)
  next
    case first: False
    show ?thesis
    proof (cases "interval = AllInterval")
      case True
      then show ?thesis using first by (simp add: miner_events_def f FL [symmetric] active_at_def delta_sum_def)
    next
      case some: False
      let ?u = "min (L) (length T - 1)"
      let ?x = "search (\<lambda>i. T ! i > T ! ?u + lookback interval) 0 (length T)"
      have u: "?u < length T" using h by auto
      have used: "nat (if int (L) \<ge> int (length T) then int (length T) - 1 else int (L)) = ?u"
        by auto
      have ev: "miner_events (length T) interval T m = Some ((sint (FirstSeen m), 1) #
          (if ?x < length T then [(int ?x, -1)] else []))"
        using first some u h used by (auto simp: miner_events_def f Let_def)
      note ex = exit_height [OF T u h, of interval]
      have "F \<le> h" if "?x \<le> h"
      proof -
        have "?u \<le> h"
        proof (rule ccontr)
          assume "\<not> ?u \<le> h"
          then have "unat (T ! h) \<le> unat (T ! ?u)" by (intro times_wf_nth [OF T _ u] less_imp_le) linarith
          then show False using ex that by simp
        qed
        then show ?thesis using wf first h by (auto simp: min_def split: if_splits)
      qed
      then have "delta_sum (\<lambda>x. x \<le> int h) ((sint (FirstSeen m), 1) # (if ?x < length T then [(int ?x, -1)] else []))
          = (if active_at interval T h m then 1 else 0)"
        using ex some h by (auto simp: delta_sum_def FL [symmetric] active_at_def f FL [symmetric])
      then show ?thesis using ev f(1) by auto
    qed
  qed
qed

lemma all_events_spec:
  assumes "list_all range_wf ms" and T: "times_wf T" and h: "h < length T"
  shows "\<exists>evs. all_events (length T) interval T ms = Some evs \<and> (\<forall>e\<in>set evs. 0 \<le> fst e)
    \<and> delta_sum (\<lambda>x. x \<le> int h) evs = int (length (filter (active_at interval T h) ms))"
  using assms(1)
proof (induction ms)
  case (Cons m ms)
  then show ?case
    using miner_events_spec [OF _ T h, of m interval] by auto
qed (simp add: delta_sum_def)

text \<open>C37. The active miner count is right: with sorted block times, at every height the sweep yields the
  number of miners whose first block is at or below that height and whose last block, in the recorded
  range, is not older than the chosen interval; it never indexes out of range.\<close>

theorem activeMinersCounts_correct:
  assumes "times_wf (z_Time (Blocks c))" and "list_all range_wf (MinerRanges c)"
  shows "\<exists>counts. activeMinersCounts (length (z_Time (Blocks c))) interval c = Some counts
    \<and> length counts = length (z_Time (Blocks c))
    \<and> (\<forall>h < length counts.
         counts ! h = of_nat (length (filter (active_at interval (z_Time (Blocks c)) h) (MinerRanges c))))"
proof (cases "length (z_Time (Blocks c)) = 0 \<or> MinerRanges c = []")
  case True
  then show ?thesis by (auto simp: activeMinersCounts_def)
next
  case False
  let ?T = "z_Time (Blocks c)" and ?ms = "MinerRanges c"
  obtain evs where evs: "all_events (length ?T) interval ?T ?ms = Some evs" "\<forall>e\<in>set evs. 0 \<le> fst e"
    using all_events_spec [OF assms(2,1), of 0 interval] False by auto
  have "sweep (length ?T) 0 (sort_key fst evs) 0 ! h = of_nat (length (filter (active_at interval ?T h) ?ms))"
    if h: "h < length ?T" for h
  proof -
    have "delta_sum (\<lambda>x. x \<le> int h) evs = int (length (filter (active_at interval ?T h) ?ms))"
      using all_events_spec [OF assms(2,1) h, of interval] evs(1) by auto
    then show ?thesis
      using sweep_sorted [of "sort_key fst evs" 0 h "length ?T" 0] evs(2) h
        delta_sum_mset [of "sort_key fst evs" evs "\<lambda>x. x \<le> int h"] by simp
  qed
  then show ?thesis using False evs(1) by (auto simp: activeMinersCounts_def)
qed

theorem activeMinersCounts_correct_witness:
  "\<exists>counts. activeMinersCounts 3 DayInterval
      ((example_chart [100, 86500, 200000])\<lparr>MinerRanges := [\<lparr>FirstSeen = 0, LastUsed = 0\<rparr>, \<lparr>FirstSeen = 0, LastUsed = 1\<rparr>]\<rparr>)
        = Some counts \<and> counts ! 1 = 2"
proof -
  let ?c = "(example_chart [100, 86500, 200000])\<lparr>MinerRanges := [\<lparr>FirstSeen = 0, LastUsed = 0\<rparr>, \<lparr>FirstSeen = 0, LastUsed = 1\<rparr>]\<rparr>"
  have T: "z_Time (Blocks (example_chart [100, 86500, 200000])) = [100, 86500, 200000]" by (simp add: example_chart_def example_blocks_def Let_def)
  have "times_wf (z_Time (Blocks ?c))" "list_all range_wf (MinerRanges ?c)"
    by (simp_all add: T times_wf_def range_wf_def)
  from activeMinersCounts_correct [OF this, of DayInterval] obtain counts
    where "activeMinersCounts 3 DayInterval ?c = Some counts" "length counts = 3"
      "\<forall>h<length counts. counts ! h = of_nat (length (filter (active_at DayInterval [100, 86500, 200000] h) (MinerRanges ?c)))"
    by (auto simp: T numeral_3_eq_3)
  then show ?thesis by (auto simp: active_at_def lookback_def)
qed

end
