(* ===== verification/ChartSKA.thy ===== *)
theory ChartSKA
  imports ChartData GoBig "HOL-Library.AList"
begin

text \<open>
  Daily aggregation of the SKA supply and fee series (\<open>db/cache/charts.go\<close>). Amounts are decimal
  strings, so that 18 decimals survive; a Go map is an association list with distinct keys.
  The result \<open>None\<close> stands for the three nil slices of an empty series.
\<close>

section \<open>The code\<close>

text \<open>The points that count: in range of all three slices, with an amount that parses.\<close>

fun skaPoints :: "nat \<Rightarrow> int list \<Rightarrow> int list \<Rightarrow> string list \<Rightarrow> (int \<times> int \<times> int) list" where
  "skaPoints i [] heights values = []"
| "skaPoints i (t # ts) heights values =
     (if i < length values \<and> i < length heights then
        (case parse_dec (values ! i) of
           Some v \<Rightarrow> (t, heights ! i, v) # skaPoints (i + 1) ts heights values
         | None \<Rightarrow> skaPoints (i + 1) ts heights values)
      else skaPoints (i + 1) ts heights values)"

definition supply_step :: "(int \<times> int \<times> int) list \<Rightarrow> int \<times> int \<times> int \<Rightarrow> (int \<times> int \<times> int) list" where
  "supply_step dailyMap p = (case p of (t, h, v) \<Rightarrow> AList.update (go_div t 86400) (h, v) dailyMap)"

definition aggregateSKASupply ::
  "int list \<Rightarrow> int list \<Rightarrow> string list \<Rightarrow> (int list \<times> int list \<times> string list) option" where
  "aggregateSKASupply timestamps heights values =
     (if timestamps = [] then None
      else
        let dailyMap = foldl supply_step [] (skaPoints 0 timestamps heights values);
            dayKeys = sort (map fst dailyMap);
            data = map (\<lambda>day. the (map_of dailyMap day)) dayKeys
        in Some (map (\<lambda>day. day * 86400) dayKeys, map fst data, map (\<lambda>d. show_int (snd d)) data))"

definition fees_step ::
  "(int \<times> int \<times> int \<times> int) list \<Rightarrow> int \<times> int \<times> int \<Rightarrow> (int \<times> int \<times> int \<times> int) list" where
  "fees_step dailyMap p =
     (case p of (t, h, v) \<Rightarrow>
        let dayKey = go_div t 86400
        in case map_of dailyMap dayKey of
             Some (ts, h0, tot) \<Rightarrow> AList.update dayKey (ts, h0, tot + v) dailyMap
           | None \<Rightarrow> AList.update dayKey (t - go_mod t 86400, h, v) dailyMap)"

definition aggregateSKAFees ::
  "int list \<Rightarrow> int list \<Rightarrow> string list \<Rightarrow> (int list \<times> int list \<times> string list) option" where
  "aggregateSKAFees timestamps heights values =
     (if timestamps = [] then None
      else
        let dailyMap = foldl fees_step [] (skaPoints 0 timestamps heights values);
            dayKeys = sort (map fst dailyMap);
            data = map (\<lambda>day. the (map_of dailyMap day)) dayKeys
        in Some (map fst data, map (\<lambda>d. fst (snd d)) data, map (\<lambda>d. show_int (snd (snd d))) data))"

text \<open>Conversions for display.\<close>

definition ChartUintsFromInt64 :: "int list \<Rightarrow> ChartUints" where
  "ChartUintsFromInt64 data = map of_int data"

definition ChartUintsFromStrings :: "string list \<Rightarrow> ChartUints" where
  "ChartUintsFromStrings data =
     map (\<lambda>s. case parse_nat s of Some n \<Rightarrow> if n < 2 ^ 64 then of_nat n else 0 | None \<Rightarrow> 0) data"

section \<open>What is computed\<close>

definition day_of :: "int \<times> int \<times> int \<Rightarrow> int" where
  "day_of p = go_div (fst p) 86400"

definition of_day :: "int \<Rightarrow> (int \<times> int \<times> int) list \<Rightarrow> (int \<times> int \<times> int) list" where
  "of_day d ps = filter (\<lambda>p. day_of p = d) ps"

definition days_of :: "(int \<times> int \<times> int) list \<Rightarrow> int list" where
  "days_of ps = sorted_list_of_set (day_of ` set ps)"

lemma sort_keys:
  assumes "distinct (map fst m)" and "dom (map_of m) = day_of ` set ps"
  shows "sort (map fst m) = days_of ps"
  using assms sorted_list_of_set_sort_remdups [of "map fst m"]
  by (simp add: days_of_def dom_map_of_conv_image_fst distinct_remdups_id)

lemma set_days_of [simp]: "set (days_of ps) = day_of ` set ps"
  by (simp add: days_of_def)

lemma of_day_snoc: "of_day d (ps @ [p]) = of_day d ps @ (if day_of p = d then [p] else [])"
  by (simp add: of_day_def)

lemma of_day_empty: "of_day d ps = [] \<longleftrightarrow> d \<notin> day_of ` set ps"
  by (auto simp: of_day_def filter_empty_conv)

lemma supply_fold:
  "distinct (map fst (foldl supply_step [] ps)) \<and> map_of (foldl supply_step [] ps) d
     = (if of_day d ps = [] then None else Some (snd (last (of_day d ps))))"
proof (induction ps rule: rev_induct)
  case Nil
  then show ?case by (simp add: of_day_def)
next
  case (snoc p ps)
  then show ?case
    by (cases p) (auto simp: supply_step_def AList.update_conv' AList.distinct_update of_day_snoc day_of_def)
qed

lemma fees_step_eq:
  "map_of m (go_div t 86400) = None \<Longrightarrow>
     fees_step m (t, h, v) = AList.update (go_div t 86400) (go_div t 86400 * 86400, h, v) m"
  "map_of m (go_div t 86400) = Some (ts, h0, tot) \<Longrightarrow>
     fees_step m (t, h, v) = AList.update (go_div t 86400) (ts, h0, tot + v) m"
  by (simp_all add: fees_step_def go_mod_def Let_def mult.commute)

lemma fees_fold:
  "distinct (map fst (foldl fees_step [] ps)) \<and> (\<forall>d. map_of (foldl fees_step [] ps) d
     = (if of_day d ps = [] then None
        else Some (d * 86400, fst (snd (hd (of_day d ps))), (\<Sum>p\<leftarrow>of_day d ps. snd (snd p)))))"
proof (induction ps rule: rev_induct)
  case Nil
  then show ?case by (simp add: of_day_def)
next
  case (snoc p ps)
  obtain t h v where p: "p = (t, h, v)" by (cases p)
  let ?d = "go_div t 86400"
  have dp: "day_of p = ?d" by (simp add: p day_of_def)
  let ?m = "foldl fees_step [] ps"
  note dist = snoc.IH [THEN conjunct1] and map = snoc.IH [THEN conjunct2, rule_format]
  show ?case
  proof (cases "of_day ?d ps = []")
    case True
    then have "foldl fees_step [] (ps @ [p]) = AList.update ?d (?d * 86400, h, v) ?m"
      using fees_step_eq(1) [of ?m t] map [of ?d] by (simp add: p)
    then show ?thesis
      using dist map True dp by (auto simp: AList.update_conv' AList.distinct_update of_day_snoc p)
  next
    case False
    then have "foldl fees_step [] (ps @ [p])
        = AList.update ?d (?d * 86400, fst (snd (hd (of_day ?d ps))), (\<Sum>p\<leftarrow>of_day ?d ps. snd (snd p)) + v) ?m"
      using fees_step_eq(2) [of ?m t] map [of ?d] by (simp add: p)
    then show ?thesis
      using dist map False dp by (auto simp: AList.update_conv' AList.distinct_update of_day_snoc p)
  qed
qed

lemma dom_of_day: "\<forall>d. map_of m d = (if of_day d ps = [] then None else Some (f d)) \<Longrightarrow> dom (map_of m) = day_of ` set ps"
  by (auto simp: dom_def of_day_empty)

text \<open>Daily SKA fees: the bins are the days that have a fee, in increasing order and at the start of the
  day, and the amount of a bin is the exact decimal sum of the fees of that day, at the height of its
  first.\<close>

theorem aggregateSKAFees_correct:
  "aggregateSKAFees ts hs vs =
     (if ts = [] then None
      else let ps = skaPoints 0 ts hs vs
           in Some (map (\<lambda>d. d * 86400) (days_of ps), map (\<lambda>d. fst (snd (hd (of_day d ps)))) (days_of ps),
                    map (\<lambda>d. show_int (\<Sum>p\<leftarrow>of_day d ps. snd (snd p))) (days_of ps)))"
proof -
  let ?ps = "skaPoints 0 ts hs vs"
  note f = fees_fold [of ?ps]
  have s: "sort (map fst (foldl fees_step [] ?ps)) = days_of ?ps"
    by (rule sort_keys [OF f [THEN conjunct1] dom_of_day [OF f [THEN conjunct2]]])
  have "the (map_of (foldl fees_step [] ?ps) d)
      = (d * 86400, fst (snd (hd (of_day d ?ps))), (\<Sum>p\<leftarrow>of_day d ?ps. snd (snd p)))"
    if "d \<in> set (days_of ?ps)" for d
    using f that of_day_empty [of d ?ps] by simp
  then show ?thesis by (simp add: aggregateSKAFees_def s Let_def)
qed

text \<open>Daily SKA supply: the bins are the days that have a point, in increasing order and at the start of
  the day, and a bin carries the height and the amount of the last point of its day.\<close>

theorem aggregateSKASupply_correct:
  "aggregateSKASupply ts hs vs =
     (if ts = [] then None
      else let ps = skaPoints 0 ts hs vs
           in Some (map (\<lambda>d. d * 86400) (days_of ps), map (\<lambda>d. fst (snd (last (of_day d ps)))) (days_of ps),
                    map (\<lambda>d. show_int (snd (snd (last (of_day d ps))))) (days_of ps)))"
proof -
  let ?ps = "skaPoints 0 ts hs vs"
  have f: "distinct (map fst (foldl supply_step [] ?ps))"
    "\<forall>d. map_of (foldl supply_step [] ?ps) d = (if of_day d ?ps = [] then None else Some (snd (last (of_day d ?ps))))"
    using supply_fold [of ?ps] by auto
  have s: "sort (map fst (foldl supply_step [] ?ps)) = days_of ?ps"
    by (rule sort_keys [OF f(1) dom_of_day [OF f(2)]])
  have "the (map_of (foldl supply_step [] ?ps) d) = snd (last (of_day d ?ps))"
    if "d \<in> set (days_of ?ps)" for d
    using f(2) that of_day_empty [of d ?ps] by simp
  then show ?thesis by (simp add: aggregateSKASupply_def s Let_def)
qed

end
