(* ===== verification/ChartMakers.thy ===== *)
theory ChartMakers
  imports ChartSeries ChartSKA
begin

text \<open>
  The chart makers and the cache of finished charts (\<open>db/cache/charts.go\<close>). A chart response is the
  list of its keys with their values; its JSON text, which is all that \<open>json.Marshal\<close> adds, is
  identified with it. The operations on \<open>float64\<close> that \<open>math/big\<close> and \<open>json.Marshal\<close> perform are
  collected in \<open>float_ops\<close>. A maker yields \<open>None\<close> where the code would panic.
\<close>

section \<open>Requests\<close>

datatype binLevel = DayBin | BlockBin | WindowBin
datatype axisType = HeightAxis | TimeAxis

definition bin_str :: "binLevel \<Rightarrow> string" where
  "bin_str b = (case b of DayBin \<Rightarrow> ''day'' | BlockBin \<Rightarrow> ''block'' | WindowBin \<Rightarrow> ''window'')"

definition axis_str :: "axisType \<Rightarrow> string" where
  "axis_str a = (case a of HeightAxis \<Rightarrow> ''height'' | TimeAxis \<Rightarrow> ''time'')"

definition interval_str :: "intervalType \<Rightarrow> string" where
  "interval_str i =
     (case i of AllInterval \<Rightarrow> ''all'' | YearInterval \<Rightarrow> ''year'' | WeekInterval \<Rightarrow> ''week'' | DayInterval \<Rightarrow> ''day'')"

definition DefaultInterval :: intervalType where
  "DefaultInterval = WeekInterval"

definition DefaultBinLevel :: binLevel where
  "DefaultBinLevel = DayBin"

definition isWindowBin :: "string \<Rightarrow> bool" where
  "isWindowBin chart \<longleftrightarrow> chart \<in> {''pow-difficulty'', ''ticket-price'', ''missed-votes''}"

definition ParseBin :: "string \<Rightarrow> binLevel" where
  "ParseBin bin =
     (if bin = bin_str BlockBin then BlockBin else if bin = bin_str WindowBin then WindowBin
      else DefaultBinLevel)"

definition ParseAxis :: "string \<Rightarrow> axisType" where
  "ParseAxis aType = (if aType = axis_str HeightAxis then HeightAxis else TimeAxis)"

definition ParseInterval :: "string \<Rightarrow> intervalType" where
  "ParseInterval s =
     (if s = interval_str AllInterval then AllInterval
      else if s = interval_str YearInterval then YearInterval
      else if s = interval_str WeekInterval then WeekInterval
      else if s = interval_str DayInterval then DayInterval
      else DefaultInterval)"

definition IsSKASupplyChart :: "string \<Rightarrow> bool" where
  "IsSKASupplyChart chartID \<longleftrightarrow>
     length chartID > length ''coin-supply/'' \<and> take (length ''coin-supply/'') chartID = ''coin-supply/''"

definition IsSKAFeeChart :: "string \<Rightarrow> bool" where
  "IsSKAFeeChart chartID \<longleftrightarrow>
     length chartID > length ''fees/'' \<and> take (length ''fees/'') chartID = ''fees/''"

text \<open>\<open>fmt.Sscanf(s, "%d", &coinType)\<close> into a \<open>uint8\<close>, for ASCII text: blanks are skipped, at least one digit
  is needed, what follows the digits is ignored and a value above 255 is an error.\<close>

definition scan_uint8 :: "string \<Rightarrow> byte option" where
  "scan_uint8 s =
     (let s = dropWhile (\<lambda>ch. ch \<in> {CHR '' '', CHR 0x09, CHR 0x0B, CHR 0x0C, CHR 0x0D}) s;
          digits = takeWhile (\<lambda>ch. char_digit ch \<noteq> None) s
      in case parse_nat digits of
           None \<Rightarrow> None
         | Some n \<Rightarrow> if n < 256 then Some (of_nat n) else None)"

definition SkaCoinType :: "string \<Rightarrow> byte" where
  "SkaCoinType chartID =
     (if \<not> IsSKASupplyChart chartID then 0
      else case scan_uint8 (drop (length ''coin-supply/'') chartID) of None \<Rightarrow> 0 | Some n \<Rightarrow> n)"

definition FeeCoinType :: "string \<Rightarrow> byte" where
  "FeeCoinType chartID =
     (if \<not> IsSKAFeeChart chartID then 0
      else case scan_uint8 (drop (length ''fees/'') chartID) of None \<Rightarrow> 0 | Some n \<Rightarrow> n)"

section \<open>Responses\<close>

datatype 'f series = Uints ChartUints | Floats "'f ChartFloats"

datatype 'f rvalue =
    RStr string
  | RInt int
  | RSeries "'f series"
  | RInts "int list option"
  | RStrs "string list option"

type_synonym 'f chartResponse = "(string \<times> 'f rvalue) list"

datatype maker_error =
    UnknownChartErr
  | InvalidBinErr
  | NoSets
  | NotEnoughBlocks
  | NotEnoughDays
  | FewDayHeights
  | JsonUnsupported
  | InvalidSKASupplyChart
  | NoSKASupply byte
  | InvalidSKAFeeChart
  | NoSKAFees byte

record 'f float_ops =
  f_pos :: "'f \<Rightarrow> bool"
  f_finite :: "'f \<Rightarrow> bool"
  f_of_int :: "int \<Rightarrow> 'f"
  f_quo :: "int \<Rightarrow> u64 \<Rightarrow> 'f option"

type_synonym 'f charts = "('f, 'f chartResponse) ChartData"
type_synonym 'f made = "(maker_error + 'f chartResponse) option"

fun ser_Length :: "'f series \<Rightarrow> nat" where
  "ser_Length (Uints xs) = length xs"
| "ser_Length (Floats xs) = length xs"

fun ser_Truncate :: "nat \<Rightarrow> 'f series \<Rightarrow> 'f series" where
  "ser_Truncate l (Uints xs) = Uints (take l xs)"
| "ser_Truncate l (Floats xs) = Floats (take l xs)"

fun ser_finite :: "'f float_ops \<Rightarrow> 'f series \<Rightarrow> bool" where
  "ser_finite ops (Uints xs) = True"
| "ser_finite ops (Floats xs) = list_all (f_finite ops) xs"

definition binAxisSeed :: "binLevel \<Rightarrow> axisType \<Rightarrow> 'f chartResponse" where
  "binAxisSeed bin axis = [(''bin'', RStr (bin_str bin)), (''axis'', RStr (axis_str axis))]"

definition smallest :: "(string \<times> 'f series) list \<Rightarrow> int" where
  "smallest sets =
     foldl (\<lambda>smaller (k, set). let l = int (ser_Length set)
       in if smaller = -1 then l else if l < smaller then l else smaller) (-1) sets"

definition encode :: "'f float_ops \<Rightarrow> (string \<times> 'f series) list \<Rightarrow> 'f chartResponse \<Rightarrow> maker_error + 'f chartResponse" where
  "encode ops sets seed =
     (if sets = [] then Inl NoSets
      else
        let cut = map (\<lambda>(k, set). (k, ser_Truncate (nat (smallest sets)) set)) sets
        in if list_all (\<lambda>(k, set). ser_finite ops set) cut
           then Inr (foldl (\<lambda>s (k, set). AList.update k (RSeries set) s) seed cut)
           else Inl JsonUnsupported)"

section \<open>Charts of one series\<close>

text \<open>The shape most makers share: one series, with the time or the height axis.\<close>

definition binned_chart ::
  "'f float_ops \<Rightarrow> string \<Rightarrow> 'f series \<Rightarrow> 'f series \<Rightarrow> 'f charts \<Rightarrow> binLevel \<Rightarrow> axisType \<Rightarrow> 'f made" where
  "binned_chart ops key blockData dayData c bin axis =
     Some (let seed = binAxisSeed bin axis
           in case bin of
                BlockBin \<Rightarrow>
                  (case axis of
                     HeightAxis \<Rightarrow> encode ops [(key, blockData)] seed
                   | TimeAxis \<Rightarrow> encode ops [(''t'', Uints (z_Time (Blocks c))), (key, blockData)] seed)
              | DayBin \<Rightarrow>
                  (case axis of
                     HeightAxis \<Rightarrow> encode ops [(''h'', Uints (z_Height (Days c))), (key, dayData)] seed
                   | TimeAxis \<Rightarrow> encode ops [(''t'', Uints (z_Time (Days c))), (key, dayData)] seed)
              | WindowBin \<Rightarrow> Inl InvalidBinErr)"

definition blockSizeChart :: "'f float_ops \<Rightarrow> 'f charts \<Rightarrow> binLevel \<Rightarrow> axisType \<Rightarrow> intervalType \<Rightarrow> 'f made" where
  "blockSizeChart ops c bin axis interval =
     binned_chart ops ''size'' (Uints (z_BlockSize (Blocks c))) (Uints (z_BlockSize (Days c))) c bin axis"

definition blockchainSizeChart :: "'f float_ops \<Rightarrow> 'f charts \<Rightarrow> binLevel \<Rightarrow> axisType \<Rightarrow> intervalType \<Rightarrow> 'f made" where
  "blockchainSizeChart ops c bin axis interval =
     binned_chart ops ''size'' (Uints (accumulate (z_BlockSize (Blocks c))))
       (Uints (accumulate (z_BlockSize (Days c)))) c bin axis"

definition bigIntsToFloats :: "'f float_ops \<Rightarrow> ChartBigInts \<Rightarrow> 'f ChartFloats" where
  "bigIntsToFloats ops data = map (f_of_int ops) data"

definition chainWorkChart :: "'f float_ops \<Rightarrow> 'f charts \<Rightarrow> binLevel \<Rightarrow> axisType \<Rightarrow> intervalType \<Rightarrow> 'f made" where
  "chainWorkChart ops c bin axis interval =
     binned_chart ops ''work'' (Floats (bigIntsToFloats ops (z_Chainwork (Blocks c))))
       (Floats (bigIntsToFloats ops (z_Chainwork (Days c)))) c bin axis"

definition txCountChart :: "'f float_ops \<Rightarrow> 'f charts \<Rightarrow> binLevel \<Rightarrow> axisType \<Rightarrow> intervalType \<Rightarrow> 'f made" where
  "txCountChart ops c bin axis interval =
     binned_chart ops ''count'' (Uints (z_TxCount (Blocks c))) (Uints (z_TxCount (Days c))) c bin axis"

definition feesChart :: "'f float_ops \<Rightarrow> 'f charts \<Rightarrow> binLevel \<Rightarrow> axisType \<Rightarrow> intervalType \<Rightarrow> 'f made" where
  "feesChart ops c bin axis interval =
     binned_chart ops ''fees'' (Uints (z_Fees (Blocks c))) (Uints (z_Fees (Days c))) c bin axis"

definition ticketPoolSizeChart :: "'f float_ops \<Rightarrow> 'f charts \<Rightarrow> binLevel \<Rightarrow> axisType \<Rightarrow> intervalType \<Rightarrow> 'f made" where
  "ticketPoolSizeChart ops c bin axis interval =
     binned_chart ops ''count'' (Uints (z_PoolSize (Blocks c))) (Uints (z_PoolSize (Days c))) c bin axis"

definition poolValueChart :: "'f float_ops \<Rightarrow> 'f charts \<Rightarrow> binLevel \<Rightarrow> axisType \<Rightarrow> intervalType \<Rightarrow> 'f made" where
  "poolValueChart ops c bin axis interval =
     binned_chart ops ''poolval'' (Uints (z_PoolValue (Blocks c))) (Uints (z_PoolValue (Days c))) c bin axis"

definition anonymitySetChart :: "'f float_ops \<Rightarrow> 'f charts \<Rightarrow> binLevel \<Rightarrow> axisType \<Rightarrow> intervalType \<Rightarrow> 'f made" where
  "anonymitySetChart ops c bin axis interval =
     (if bin = BlockBin \<and> axis = HeightAxis
      then Some (encode ops [(''h'', Uints (z_Height (Blocks c))), (''anonymitySet'', Uints (z_TotalMixed (Blocks c)))]
                   (binAxisSeed bin axis))
      else binned_chart ops ''anonymitySet'' (Uints (z_TotalMixed (Blocks c))) (Uints (z_TotalMixed (Days c))) c bin axis)"

section \<open>Charts of several series\<close>

definition coinSupplyChart :: "'f float_ops \<Rightarrow> 'f charts \<Rightarrow> binLevel \<Rightarrow> axisType \<Rightarrow> intervalType \<Rightarrow> 'f made" where
  "coinSupplyChart ops c bin axis interval =
     Some (let seed = binAxisSeed bin axis;
               series = (\<lambda>s. [(''supply'', Uints (accumulate (z_NewAtoms s))),
                              (''anonymitySet'', Uints (z_AnonymitySet s))])
           in case bin of
                BlockBin \<Rightarrow>
                  (case axis of
                     HeightAxis \<Rightarrow> encode ops (series (Blocks c)) seed
                   | TimeAxis \<Rightarrow> encode ops ((''t'', Uints (z_Time (Blocks c))) # series (Blocks c)) seed)
              | DayBin \<Rightarrow>
                  (case axis of
                     HeightAxis \<Rightarrow> encode ops ((''h'', Uints (z_Height (Days c))) # series (Days c)) seed
                   | TimeAxis \<Rightarrow>
                       encode ops ((''t'', Uints (z_Time (Days c))) # series (Days c)
                                   @ [(''h'', Uints (z_Height (Days c)))]) seed)
              | WindowBin \<Rightarrow> Inl InvalidBinErr)"

definition durationBTWChart :: "'f float_ops \<Rightarrow> 'f charts \<Rightarrow> binLevel \<Rightarrow> axisType \<Rightarrow> intervalType \<Rightarrow> 'f made" where
  "durationBTWChart ops c bin axis interval =
     (let seed = binAxisSeed bin axis
      in case bin of
           BlockBin \<Rightarrow>
             (let (times, diffs) = blockTimes (z_Time (Blocks c))
              in Some (case axis of
                         HeightAxis \<Rightarrow> encode ops [(''duration'', Uints diffs)] seed
                       | TimeAxis \<Rightarrow> encode ops [(''t'', Uints times), (''duration'', Uints diffs)] seed))
         | DayBin \<Rightarrow>
             (case axis of
                HeightAxis \<Rightarrow>
                  if length (z_Height (Days c)) < 2 then Some (Inl FewDayHeights)
                  else map_option (\<lambda>(times, diffs).
                         encode ops [(''h'', Uints (take (length (z_Height (Days c)) - 1) (z_Height (Days c)))),
                                     (''duration'', Uints diffs)] seed)
                         (avgBlockTimes (z_Time (Days c)) (z_Time (Blocks c)))
              | TimeAxis \<Rightarrow>
                  map_option (\<lambda>(times, diffs). encode ops [(''t'', Uints times), (''duration'', Uints diffs)] seed)
                    (avgBlockTimes (z_Time (Days c)) (z_Time (Blocks c))))
         | WindowBin \<Rightarrow> Some (Inl InvalidBinErr))"

section \<open>Hash rates\<close>

definition HashrateAvgLength :: nat where
  "HashrateAvgLength = 120"

text \<open>The loop of \<open>hashrate\<close>; \<open>rotator\<close> is the array of the last works.\<close>

fun hashrate_loop ::
  "'f float_ops \<Rightarrow> ChartUints \<Rightarrow> ChartBigInts \<Rightarrow> nat \<Rightarrow> int list \<Rightarrow> (ChartUints \<times> 'f ChartFloats) option" where
  "hashrate_loop ops time [] i rotator = Some ([], [])"
| "hashrate_loop ops time (work # works) i rotator =
     (let idx = i mod HashrateAvgLength; rotator = rotator[idx := work]
      in if i \<ge> HashrateAvgLength then do {
           let lastWork = rotator ! ((idx + 1) mod HashrateAvgLength);
           lastTime \<leftarrow> nth_opt time (i - HashrateAvgLength);
           thisTime \<leftarrow> nth_opt time i;
           f \<leftarrow> f_quo ops (work - lastWork) (thisTime - lastTime);
           (ts, ys) \<leftarrow> hashrate_loop ops time works (i + 1) rotator;
           Some (thisTime # ts, f # ys)
         } else hashrate_loop ops time works (i + 1) rotator)"

definition hashrate :: "'f float_ops \<Rightarrow> ChartUints \<Rightarrow> ChartBigInts \<Rightarrow> (ChartUints \<times> 'f ChartFloats) option" where
  "hashrate ops time chainwork =
     (if length chainwork \<le> HashrateAvgLength then Some ([], [])
      else hashrate_loop ops time chainwork 0 (replicate HashrateAvgLength 0))"

fun daily_loop ::
  "'f float_ops \<Rightarrow> ChartUints \<Rightarrow> ChartBigInts \<Rightarrow> nat \<Rightarrow> ChartUints \<Rightarrow> (ChartUints \<times> 'f ChartFloats) option" where
  "daily_loop ops time chainwork i [] = Some ([], [])"
| "daily_loop ops time chainwork i (t # rest) = do {
     let tDiff = (if sint (t - time ! i) \<le> 0 then aDay else t - time ! i);
     w1 \<leftarrow> nth_opt chainwork (i + 1);
     w0 \<leftarrow> nth_opt chainwork i;
     f \<leftarrow> f_quo ops (w1 - w0) tDiff;
     (ts, fs) \<leftarrow> daily_loop ops time chainwork (i + 1) rest;
     Some (t # ts, f # fs)
   }"

definition dailyHashrate :: "'f float_ops \<Rightarrow> ChartUints \<Rightarrow> ChartBigInts \<Rightarrow> (ChartUints \<times> 'f ChartFloats) option" where
  "dailyHashrate ops time chainwork =
     (if time = [] \<or> chainwork = [] then Some ([], []) else daily_loop ops time chainwork 0 (tl time))"

definition hashRateChart :: "'f float_ops \<Rightarrow> 'f charts \<Rightarrow> binLevel \<Rightarrow> axisType \<Rightarrow> intervalType \<Rightarrow> 'f made" where
  "hashRateChart ops c bin axis interval =
     (let seed = binAxisSeed bin axis; numBlocks = length (z_Time (Blocks c))
      in case bin of
           BlockBin \<Rightarrow>
             if numBlocks < 2 then Some (Inl NotEnoughBlocks)
             else do {
               let seed = seed @ [(''offset'', RInt (int HashrateAvgLength))];
               (times, rates) \<leftarrow> hashrate ops (z_Time (Blocks c)) (z_Chainwork (Blocks c));
               activeFull \<leftarrow> activeMinersCounts numBlocks interval c;
               let active = (if numBlocks > HashrateAvgLength then drop HashrateAvgLength activeFull else activeFull);
               Some (case axis of
                 HeightAxis \<Rightarrow> encode ops [(''rate'', Floats rates), (''active_miners'', Uints active)] seed
               | TimeAxis \<Rightarrow> encode ops [(''t'', Uints times), (''rate'', Floats rates), (''active_miners'', Uints active)] seed)
             }
         | DayBin \<Rightarrow>
             if length (z_Time (Days c)) < 2 then Some (Inl NotEnoughDays)
             else do {
               let seed = seed @ [(''offset'', RInt 1)];
               (times, rates) \<leftarrow> dailyHashrate ops (z_Time (Days c)) (z_Chainwork (Days c));
               activeFull \<leftarrow> activeMinersCounts numBlocks interval c;
               if z_Height (Days c) = [] then None
               else do {
                 let heights = tl (z_Height (Days c));
                 dailyActive \<leftarrow> those (map (\<lambda>h. if sint h < int (length activeFull) then nth_opt activeFull (unat h)
                                               else Some 0) heights);
                 Some (case axis of
                   HeightAxis \<Rightarrow> encode ops [(''h'', Uints heights), (''rate'', Floats rates), (''active_miners'', Uints dailyActive)] seed
                 | TimeAxis \<Rightarrow> encode ops [(''t'', Uints times), (''rate'', Floats rates), (''active_miners'', Uints dailyActive)] seed)
               }
             }
         | WindowBin \<Rightarrow> Some (Inl InvalidBinErr))"

section \<open>Window charts\<close>

definition int32 :: "u64 \<Rightarrow> int" where
  "int32 x = sint (ucast x :: 32 word)"

definition filterGenesisWindow ::
  "'f windowSet \<Rightarrow> ChartUints \<times> ChartUints \<times> 'f ChartFloats \<times> ChartUints \<times> ChartUints" where
  "filterGenesisWindow w =
     (if w_StakeCount w \<noteq> [] \<and> w_StakeCount w ! 0 = 0
         \<and> w_Time w \<noteq> [] \<and> w_Height w \<noteq> [] \<and> w_PowDiff w \<noteq> [] \<and> w_TicketPrice w \<noteq> []
      then (tl (w_Time w), tl (w_Height w), tl (w_PowDiff w), tl (w_TicketPrice w), tl (w_StakeCount w))
      else (w_Time w, w_Height w, w_PowDiff w, w_TicketPrice w, w_StakeCount w))"

text \<open>Where the tip lies against the last stored window: in it, after it, or before it; \<open>None\<close> is the
  division by zero.\<close>

datatype tip_place = SameWindow | LaterWindow | EarlierWindow

definition place_tip :: "u64 \<Rightarrow> ChartUints \<Rightarrow> int \<Rightarrow> tip_place option" where
  "place_tip tipHeight heightData diffInterval =
     (if tipHeight > 0 \<and> heightData \<noteq> [] then
        if diffInterval = 0 then None
        else
          let tipWindow = go_div (int32 tipHeight) diffInterval;
              lastWindow = go_div (int32 (last heightData)) diffInterval
          in Some (if tipWindow > lastWindow then LaterWindow
                   else if tipWindow < lastWindow then EarlierWindow else SameWindow)
      else Some SameWindow)"

definition window_start :: "u64 \<Rightarrow> int \<Rightarrow> u64" where
  "window_start tipHeight diffInterval = of_int (go_div (int32 tipHeight) diffInterval * diffInterval)"

text \<open>The loop over the block heights from the last to the first.\<close>

fun find_block_time :: "u64 \<Rightarrow> ChartUints \<Rightarrow> ChartUints \<Rightarrow> nat \<Rightarrow> u64" where
  "find_block_time start heights times0 0 = 0"
| "find_block_time start heights times0 (Suc i) =
     (if heights ! i = start \<and> i < length times0 then times0 ! i else find_block_time start heights times0 i)"

definition live_time :: "u64 \<Rightarrow> ChartUints \<Rightarrow> u64 \<Rightarrow> zoomSet \<Rightarrow> u64" where
  "live_time start timeData tipTime blocks =
     (let t = find_block_time start (z_Height blocks) (z_Time blocks) (length (z_Height blocks));
          n = length timeData;
          t = (if t = 0 \<and> n \<ge> 2 then timeData ! (n - 1) + (timeData ! (n - 1) - timeData ! (n - 2)) else t)
      in if t = 0 \<and> tipTime > 0 then tipTime else t)"

definition powDifficultyChart :: "'f float_ops \<Rightarrow> 'f charts \<Rightarrow> binLevel \<Rightarrow> axisType \<Rightarrow> intervalType \<Rightarrow> 'f made" where
  "powDifficultyChart ops c bin axis interval =
     (let seed = [(''window'', RInt (DiffInterval c))];
          tip = Tip c;
          (timeData, heightData, diffData, _, _) = filterGenesisWindow (Windows c);
          finish = (\<lambda>(timeData, heightData, diffData).
            case axis of
              HeightAxis \<Rightarrow>
                encode ops ((''diff'', Floats diffData) #
                  (if heightData \<noteq> [] then [(''h'', Uints heightData)] else [])) seed
            | TimeAxis \<Rightarrow> encode ops [(''t'', Uints timeData), (''diff'', Floats diffData)] seed)
      in map_option finish
           (if f_pos ops (tip_Difficulty tip) \<and> diffData \<noteq> [] then
              map_option (\<lambda>place. case place of
                  SameWindow \<Rightarrow> (timeData, heightData, butlast diffData @ [tip_Difficulty tip])
                | LaterWindow \<Rightarrow>
                    let start = window_start (tip_Height tip) (DiffInterval c)
                    in (timeData @ [live_time start timeData (tip_Time tip) (Blocks c)], heightData @ [start],
                        diffData @ [tip_Difficulty tip])
                | EarlierWindow \<Rightarrow> (timeData, heightData, diffData))
                (place_tip (tip_Height tip) heightData (DiffInterval c))
            else Some (timeData, heightData, diffData)))"

definition ticketPriceChart :: "'f float_ops \<Rightarrow> 'f charts \<Rightarrow> binLevel \<Rightarrow> axisType \<Rightarrow> intervalType \<Rightarrow> 'f made" where
  "ticketPriceChart ops c bin axis interval =
     (let seed = [(''window'', RInt (DiffInterval c))];
          tip = Tip c;
          (timeData, heightData, _, priceData, countData) = filterGenesisWindow (Windows c);
          finish = (\<lambda>(timeData, heightData, priceData, countData).
            case axis of
              HeightAxis \<Rightarrow>
                encode ops ([(''price'', Uints priceData), (''count'', Uints countData)] @
                  (if heightData \<noteq> [] then [(''h'', Uints heightData)] else [])) seed
            | TimeAxis \<Rightarrow>
                encode ops [(''t'', Uints timeData), (''price'', Uints priceData), (''count'', Uints countData)] seed)
      in map_option finish
           (if tip_TicketPrice tip > 0 \<and> priceData \<noteq> [] then
              (case place_tip (tip_Height tip) heightData (DiffInterval c) of
                 None \<Rightarrow> None
               | Some SameWindow \<Rightarrow>
                   Some (timeData, heightData, butlast priceData @ [tip_TicketPrice tip], countData)
               | Some LaterWindow \<Rightarrow>
                   if countData = [] then None
                   else
                     let start = window_start (tip_Height tip) (DiffInterval c)
                     in Some (timeData @ [live_time start timeData (tip_Time tip) (Blocks c)], heightData @ [start],
                              priceData @ [tip_TicketPrice tip], countData @ [last countData])
               | Some EarlierWindow \<Rightarrow> Some (timeData, heightData, priceData, countData))
            else Some (timeData, heightData, priceData, countData)))"

definition missedVotesChart :: "'f float_ops \<Rightarrow> 'f charts \<Rightarrow> binLevel \<Rightarrow> axisType \<Rightarrow> intervalType \<Rightarrow> 'f made" where
  "missedVotesChart ops c bin axis interval =
     (if DiffInterval c = 0 then None
      else
        let prestake = go_div (StartPOS c) (DiffInterval c);
            prestake = (if prestake \<ge> int (length (w_MissedVotes (Windows c)))
                           \<or> prestake \<ge> int (length (w_Time (Windows c))) then 0 else prestake);
            seed = [(''window'', RInt (DiffInterval c)), (''offset'', RInt prestake)]
        in if prestake < 0 then None
           else
             Some (case axis of
               HeightAxis \<Rightarrow> encode ops [(''missed'', Uints (drop (nat prestake) (w_MissedVotes (Windows c))))] seed
             | TimeAxis \<Rightarrow>
                 encode ops [(''t'', Uints (drop (nat prestake) (w_Time (Windows c)))),
                             (''missed'', Uints (drop (nat prestake) (w_MissedVotes (Windows c))))] seed))"

definition staked_series :: "'f ChartTip \<Rightarrow> zoomSet \<Rightarrow> (string \<times> 'f series) list" where
  "staked_series tip s =
     (let circulation = accumulate (z_NewAtoms s);
          poolVal = z_PoolValue s;
          override = tip_CoinSupply tip > 0 \<and> circulation \<noteq> [] \<and> poolVal \<noteq> []
      in [(''circulation'', Uints (if override then butlast circulation @ [tip_CoinSupply tip] else circulation)),
          (''poolval'', Uints (if override then butlast poolVal @ [tip_PoolValue tip] else poolVal))])"

definition stakedCoinsChart :: "'f float_ops \<Rightarrow> 'f charts \<Rightarrow> binLevel \<Rightarrow> axisType \<Rightarrow> intervalType \<Rightarrow> 'f made" where
  "stakedCoinsChart ops c bin axis interval =
     Some (let seed = binAxisSeed bin axis
           in case bin of
                BlockBin \<Rightarrow>
                  (case axis of
                     HeightAxis \<Rightarrow> encode ops (staked_series (Tip c) (Blocks c)) seed
                   | TimeAxis \<Rightarrow> encode ops ((''t'', Uints (z_Time (Blocks c))) # staked_series (Tip c) (Blocks c)) seed)
              | DayBin \<Rightarrow>
                  (case axis of
                     HeightAxis \<Rightarrow> encode ops ((''h'', Uints (z_Height (Days c))) # staked_series (Tip c) (Days c)) seed
                   | TimeAxis \<Rightarrow> encode ops ((''t'', Uints (z_Time (Days c))) # staked_series (Tip c) (Days c)) seed)
              | WindowBin \<Rightarrow> Inl InvalidBinErr)"

section \<open>SKA charts\<close>

definition ska_response ::
  "binLevel \<Rightarrow> axisType \<Rightarrow> string \<Rightarrow> int list option \<Rightarrow> int list option \<Rightarrow> string list option \<Rightarrow> 'f chartResponse" where
  "ska_response bin axis key hs ts vs =
     [(''bin'', RStr (bin_str bin)), (''axis'', RStr (axis_str axis)), (''h'', RInts hs)]
       @ (case axis of HeightAxis \<Rightarrow> [] | TimeAxis \<Rightarrow> [(''t'', RInts ts)]) @ [(key, RStrs vs)]"

definition skaSupplyChart :: "'f float_ops \<Rightarrow> string \<Rightarrow> binLevel \<Rightarrow> axisType \<Rightarrow> 'f charts \<Rightarrow> 'f made" where
  "skaSupplyChart ops chartID bin axis c =
     (let coinType = SkaCoinType chartID
      in if \<not> IsSKASupplyChart chartID then Some (Inl InvalidSKASupplyChart)
         else if coinType = 0 then coinSupplyChart ops c bin axis DefaultInterval
         else
           Some (case SKASupply c coinType of
             None \<Rightarrow> Inl (NoSKASupply coinType)
           | Some d \<Rightarrow>
               if sup_Timestamps d = [] then Inl (NoSKASupply coinType)
               else
                 case bin of
                   BlockBin \<Rightarrow>
                     Inr (ska_response bin axis ''supply'' (Some (sup_Heights d)) (Some (sup_Timestamps d)) (Some (sup_Values d)))
                 | DayBin \<Rightarrow>
                     (let r = aggregateSKASupply (sup_Timestamps d) (sup_Heights d) (sup_Values d)
                      in Inr (ska_response bin axis ''supply'' (map_option (fst \<circ> snd) r) (map_option fst r)
                                (map_option (snd \<circ> snd) r)))
                 | WindowBin \<Rightarrow> Inl InvalidBinErr))"

definition skaFeeChart :: "string \<Rightarrow> binLevel \<Rightarrow> axisType \<Rightarrow> 'f charts \<Rightarrow> 'f made" where
  "skaFeeChart chartID bin axis c =
     (let coinType = FeeCoinType chartID
      in Some (if \<not> IsSKAFeeChart chartID \<or> coinType = 0 then Inl InvalidSKAFeeChart
         else
           case SKAFees c coinType of
             None \<Rightarrow> Inl (NoSKAFees coinType)
           | Some d \<Rightarrow>
               if fee_Fees d = [] then Inl (NoSKAFees coinType)
               else
                 case bin of
                   BlockBin \<Rightarrow>
                     Inr (ska_response bin axis ''fees'' (Some (fee_Heights d)) (Some (fee_Timestamps d)) (Some (fee_Fees d)))
                 | DayBin \<Rightarrow>
                     (let r = aggregateSKAFees (fee_Timestamps d) (fee_Heights d) (fee_Fees d)
                      in Inr (ska_response bin axis ''fees'' (map_option (fst \<circ> snd) r) (map_option fst r)
                                (map_option (snd \<circ> snd) r)))
                 | WindowBin \<Rightarrow> Inl InvalidBinErr))"

section \<open>The cache\<close>

type_synonym 'f maker = "'f float_ops \<Rightarrow> 'f charts \<Rightarrow> binLevel \<Rightarrow> axisType \<Rightarrow> intervalType \<Rightarrow> 'f made"

definition chartMakers :: "(string \<times> 'f maker) list" where
  "chartMakers =
     [(''block-size'', blockSizeChart), (''blockchain-size'', blockchainSizeChart), (''chainwork'', chainWorkChart),
      (''coin-supply'', coinSupplyChart), (''duration-btw-blocks'', durationBTWChart), (''hashrate'', hashRateChart),
      (''pow-difficulty'', powDifficultyChart), (''ticket-price'', ticketPriceChart), (''tx-count'', txCountChart),
      (''fees'', feesChart), (''privacy-participation'', anonymitySetChart),
      (''ticket-pool-size'', ticketPoolSizeChart), (''ticket-pool-value'', poolValueChart),
      (''missed-votes'', missedVotesChart), (''stake-participation'', stakedCoinsChart)]"

definition cacheKey :: "string \<Rightarrow> binLevel \<Rightarrow> axisType \<Rightarrow> intervalType \<Rightarrow> string" where
  "cacheKey chartID bin axis interval =
     chartID @ ''-'' @ bin_str bin @ ''-'' @ axis_str axis @ ''-'' @ interval_str interval"

definition cacheID :: "binLevel \<Rightarrow> ('f, 'd) ChartData \<Rightarrow> u64" where
  "cacheID bin c =
     (case bin of
        BlockBin \<Rightarrow> z_cacheID (Blocks c) | DayBin \<Rightarrow> z_cacheID (Days c) | WindowBin \<Rightarrow> w_cacheID (Windows c))"

definition getCache ::
  "string \<Rightarrow> binLevel \<Rightarrow> axisType \<Rightarrow> intervalType \<Rightarrow> ('f, 'd) ChartData \<Rightarrow> 'd cachedChart option \<times> u64" where
  "getCache chartID bin axis interval c = (chart_cache c (cacheKey chartID bin axis interval), cacheID bin c)"

definition cacheChart ::
  "string \<Rightarrow> binLevel \<Rightarrow> axisType \<Rightarrow> intervalType \<Rightarrow> 'd \<Rightarrow> ('f, 'd) ChartData \<Rightarrow> ('f, 'd) ChartData" where
  "cacheChart chartID bin axis interval data c =
     c\<lparr>chart_cache := (chart_cache c)(cacheKey chartID bin axis interval \<mapsto>
         \<lparr>cc_cacheID = cacheID bin c, cc_data = data\<rparr>)\<rparr>"

definition Chart ::
  "'f float_ops \<Rightarrow> string \<Rightarrow> string \<Rightarrow> string \<Rightarrow> string \<Rightarrow> 'f charts
     \<Rightarrow> ('f charts \<times> (maker_error + 'f chartResponse)) option" where
  "Chart ops chartID binString axisString intervalString c =
     (let binString = (if isWindowBin chartID then bin_str WindowBin else binString);
          bin = ParseBin binString;
          axis = ParseAxis axisString;
          interval = ParseInterval intervalString;
          interval = (if chartID \<noteq> ''hashrate'' then DefaultInterval else interval);
          (cached, cid) = getCache chartID bin axis interval c
      in if (case cached of None \<Rightarrow> False | Some cc \<Rightarrow> cc_cacheID cc = cid)
         then Some (c, Inr (cc_data (the cached)))
         else
           case map_of chartMakers chartID of
             None \<Rightarrow>
               map_option (Pair c)
                 (if IsSKASupplyChart chartID then skaSupplyChart ops chartID bin axis c
                  else if IsSKAFeeChart chartID then skaFeeChart chartID bin axis c
                  else Some (Inl UnknownChartErr))
           | Some maker \<Rightarrow>
               (case maker ops c bin axis interval of
                  None \<Rightarrow> None
                | Some (Inl err) \<Rightarrow> Some (c, Inl err)
                | Some (Inr data) \<Rightarrow> Some (cacheChart chartID bin axis interval data c, Inr data)))"

definition tip_keys :: "string list" where
  "tip_keys =
     [cacheKey chartID WindowBin axis DefaultInterval.
        chartID \<leftarrow> [''ticket-price'', ''pow-difficulty''], axis \<leftarrow> [TimeAxis, HeightAxis]]
     @ [cacheKey ''stake-participation'' bin axis DefaultInterval.
        bin \<leftarrow> [BlockBin, DayBin], axis \<leftarrow> [TimeAxis, HeightAxis]]"

definition invalidateTipCharts :: "('f, 'd) ChartData \<Rightarrow> ('f, 'd) ChartData" where
  "invalidateTipCharts c = c\<lparr>chart_cache := foldl (\<lambda>m k. m(k := None)) (chart_cache c) tip_keys\<rparr>"

definition SetTip :: "'f ChartTip \<Rightarrow> ('f, 'd) ChartData \<Rightarrow> ('f, 'd) ChartData" where
  "SetTip tip c = invalidateTipCharts (c\<lparr>Tip := tip\<rparr>)"

end
