(* ===== verification/ChartCache.thy ===== *)
theory ChartCache
  imports ChartMakers
begin

text \<open>
  The cache of charts under concurrent requests, updates and tips: the critical sections of \<open>Chart\<close> as
  the steps of a relation, and what a request is answered in every interleaving. The hash rate series and
  the lengths of the series in a response are characterized as well.
\<close>

section \<open>Keys\<close>

lemma split_last_dash:
  assumes "x @ CHR ''-'' # s = y @ CHR ''-'' # t" and "CHR ''-'' \<notin> set s" and "CHR ''-'' \<notin> set t"
  shows "x = y \<and> s = t"
proof -
  have tw: "takeWhile (\<lambda>ch. ch \<noteq> CHR ''-'') (rev (u @ CHR ''-'' # v)) = rev v" if "CHR ''-'' \<notin> set v" for u v
    using that by (auto simp: takeWhile_append)
  have "rev s = rev t" using tw [OF assms(2), of x] tw [OF assms(3), of y] unfolding assms(1) by simp
  then show ?thesis using assms(1) by simp
qed

lemma str_no_dash: "CHR ''-'' \<notin> set (bin_str b)" "CHR ''-'' \<notin> set (axis_str a)" "CHR ''-'' \<notin> set (interval_str i)"
  by (simp add: bin_str_def split: binLevel.split, simp add: axis_str_def split: axisType.split,
      simp add: interval_str_def split: intervalType.split)

lemma str_inject [simp]: "bin_str b = bin_str b' \<longleftrightarrow> b = b'" "axis_str a = axis_str a' \<longleftrightarrow> a = a'"
  "interval_str i = interval_str i' \<longleftrightarrow> i = i'"
  by (simp add: bin_str_def split: binLevel.split, simp add: axis_str_def split: axisType.split,
      simp add: interval_str_def split: intervalType.split)

lemma cacheKey_inject [simp]:
  "cacheKey cid bin axis interval = cacheKey cid' bin' axis' interval'
     \<longleftrightarrow> cid = cid' \<and> bin = bin' \<and> axis = axis' \<and> interval = interval'"
proof
  assume "cacheKey cid bin axis interval = cacheKey cid' bin' axis' interval'"
  then have k: "(cid @ ''-'' @ bin_str bin @ ''-'' @ axis_str axis) @ CHR ''-'' # interval_str interval
      = (cid' @ ''-'' @ bin_str bin' @ ''-'' @ axis_str axis') @ CHR ''-'' # interval_str interval'"
    by (simp add: cacheKey_def)
  from split_last_dash [OF k str_no_dash(3) str_no_dash(3)]
  have 1: "interval = interval'" "(cid @ ''-'' @ bin_str bin) @ CHR ''-'' # axis_str axis
      = (cid' @ ''-'' @ bin_str bin') @ CHR ''-'' # axis_str axis'" by simp_all
  from split_last_dash [OF 1(2) str_no_dash(2) str_no_dash(2)]
  have 2: "axis = axis'" "cid @ CHR ''-'' # bin_str bin = cid' @ CHR ''-'' # bin_str bin'" by simp_all
  from split_last_dash [OF 2(2) str_no_dash(1) str_no_dash(1)] 1(1) 2(1)
  show "cid = cid' \<and> bin = bin' \<and> axis = axis' \<and> interval = interval'" by simp
qed simp

section \<open>What the makers read\<close>

lemmas maker_defs = blockSizeChart_def blockchainSizeChart_def chainWorkChart_def txCountChart_def feesChart_def
  ticketPoolSizeChart_def poolValueChart_def anonymitySetChart_def coinSupplyChart_def durationBTWChart_def
  hashRateChart_def powDifficultyChart_def ticketPriceChart_def missedVotesChart_def stakedCoinsChart_def

lemma data_frame:
  "Blocks (c\<lparr>chart_cache := m\<rparr>) = Blocks c" "Days (c\<lparr>chart_cache := m\<rparr>) = Days c"
  "Windows (c\<lparr>chart_cache := m\<rparr>) = Windows c" "MinerRanges (c\<lparr>chart_cache := m\<rparr>) = MinerRanges c"
  "DiffInterval (c\<lparr>chart_cache := m\<rparr>) = DiffInterval c" "StartPOS (c\<lparr>chart_cache := m\<rparr>) = StartPOS c"
  "SKASupply (c\<lparr>chart_cache := m\<rparr>) = SKASupply c" "SKAFees (c\<lparr>chart_cache := m\<rparr>) = SKAFees c"
  "Tip (c\<lparr>chart_cache := m\<rparr>) = Tip c"
  by simp_all

lemma tip_frame:
  "Blocks (c\<lparr>Tip := t\<rparr>) = Blocks c" "Days (c\<lparr>Tip := t\<rparr>) = Days c"
  "Windows (c\<lparr>Tip := t\<rparr>) = Windows c" "MinerRanges (c\<lparr>Tip := t\<rparr>) = MinerRanges c"
  "DiffInterval (c\<lparr>Tip := t\<rparr>) = DiffInterval c" "StartPOS (c\<lparr>Tip := t\<rparr>) = StartPOS c"
  "SKASupply (c\<lparr>Tip := t\<rparr>) = SKASupply c" "SKAFees (c\<lparr>Tip := t\<rparr>) = SKAFees c"
  by simp_all

lemmas reader_defs = maker_defs binned_chart_def activeMinersCounts_def

lemma maker_frame_cache:
  "blockSizeChart ops (c\<lparr>chart_cache := m\<rparr>) bin axis i = blockSizeChart ops c bin axis i"
  "blockchainSizeChart ops (c\<lparr>chart_cache := m\<rparr>) bin axis i = blockchainSizeChart ops c bin axis i"
  "chainWorkChart ops (c\<lparr>chart_cache := m\<rparr>) bin axis i = chainWorkChart ops c bin axis i"
  "txCountChart ops (c\<lparr>chart_cache := m\<rparr>) bin axis i = txCountChart ops c bin axis i"
  "feesChart ops (c\<lparr>chart_cache := m\<rparr>) bin axis i = feesChart ops c bin axis i"
  "ticketPoolSizeChart ops (c\<lparr>chart_cache := m\<rparr>) bin axis i = ticketPoolSizeChart ops c bin axis i"
  "poolValueChart ops (c\<lparr>chart_cache := m\<rparr>) bin axis i = poolValueChart ops c bin axis i"
  "anonymitySetChart ops (c\<lparr>chart_cache := m\<rparr>) bin axis i = anonymitySetChart ops c bin axis i"
  "coinSupplyChart ops (c\<lparr>chart_cache := m\<rparr>) bin axis i = coinSupplyChart ops c bin axis i"
  "durationBTWChart ops (c\<lparr>chart_cache := m\<rparr>) bin axis i = durationBTWChart ops c bin axis i"
  "hashRateChart ops (c\<lparr>chart_cache := m\<rparr>) bin axis i = hashRateChart ops c bin axis i"
  "powDifficultyChart ops (c\<lparr>chart_cache := m\<rparr>) bin axis i = powDifficultyChart ops c bin axis i"
  "ticketPriceChart ops (c\<lparr>chart_cache := m\<rparr>) bin axis i = ticketPriceChart ops c bin axis i"
  "missedVotesChart ops (c\<lparr>chart_cache := m\<rparr>) bin axis i = missedVotesChart ops c bin axis i"
  "stakedCoinsChart ops (c\<lparr>chart_cache := m\<rparr>) bin axis i = stakedCoinsChart ops c bin axis i"
  unfolding reader_defs data_frame by (rule refl)+

lemma maker_frame_tip:
  "blockSizeChart ops (c\<lparr>Tip := t\<rparr>) bin axis i = blockSizeChart ops c bin axis i"
  "blockchainSizeChart ops (c\<lparr>Tip := t\<rparr>) bin axis i = blockchainSizeChart ops c bin axis i"
  "chainWorkChart ops (c\<lparr>Tip := t\<rparr>) bin axis i = chainWorkChart ops c bin axis i"
  "txCountChart ops (c\<lparr>Tip := t\<rparr>) bin axis i = txCountChart ops c bin axis i"
  "feesChart ops (c\<lparr>Tip := t\<rparr>) bin axis i = feesChart ops c bin axis i"
  "ticketPoolSizeChart ops (c\<lparr>Tip := t\<rparr>) bin axis i = ticketPoolSizeChart ops c bin axis i"
  "poolValueChart ops (c\<lparr>Tip := t\<rparr>) bin axis i = poolValueChart ops c bin axis i"
  "anonymitySetChart ops (c\<lparr>Tip := t\<rparr>) bin axis i = anonymitySetChart ops c bin axis i"
  "coinSupplyChart ops (c\<lparr>Tip := t\<rparr>) bin axis i = coinSupplyChart ops c bin axis i"
  "durationBTWChart ops (c\<lparr>Tip := t\<rparr>) bin axis i = durationBTWChart ops c bin axis i"
  "hashRateChart ops (c\<lparr>Tip := t\<rparr>) bin axis i = hashRateChart ops c bin axis i"
  "missedVotesChart ops (c\<lparr>Tip := t\<rparr>) bin axis i = missedVotesChart ops c bin axis i"
  unfolding reader_defs tip_frame by (rule refl)+

lemma maker_reads_cache:
  "(cid, mk) \<in> set chartMakers \<Longrightarrow> mk ops (c\<lparr>chart_cache := m\<rparr>) bin axis i = mk ops c bin axis i"
  unfolding chartMakers_def list.set insert_iff empty_iff prod.inject
  by (elim disjE conjE FalseE) (simp_all only: maker_frame_cache)

lemma maker_reads_tip:
  "(cid, mk) \<in> set chartMakers \<Longrightarrow> cid \<notin> {''pow-difficulty'', ''ticket-price'', ''stake-participation''}
     \<Longrightarrow> mk ops (c\<lparr>Tip := t\<rparr>) bin axis i = mk ops c bin axis i"
  unfolding chartMakers_def list.set insert_iff empty_iff prod.inject
  by (elim disjE conjE FalseE) (simp_all only: maker_frame_tip simp_thms)

section \<open>Requests\<close>

text \<open>The answer to a request without the cache.\<close>

definition fresh :: "'f float_ops \<Rightarrow> string \<Rightarrow> binLevel \<Rightarrow> axisType \<Rightarrow> intervalType \<Rightarrow> 'f charts \<Rightarrow> 'f made" where
  "fresh ops chartID bin axis interval c =
     (case map_of chartMakers chartID of
        None \<Rightarrow>
          if IsSKASupplyChart chartID then skaSupplyChart ops chartID bin axis c
          else if IsSKAFeeChart chartID then skaFeeChart chartID bin axis c
          else Some (Inl UnknownChartErr)
      | Some maker \<Rightarrow> maker ops c bin axis interval)"

definition request_bin :: "string \<Rightarrow> string \<Rightarrow> binLevel" where
  "request_bin chartID binString = (if isWindowBin chartID then WindowBin else ParseBin binString)"

definition request_interval :: "string \<Rightarrow> string \<Rightarrow> intervalType" where
  "request_interval chartID s = (if chartID = ''hashrate'' then ParseInterval s else DefaultInterval)"

definition valid_request :: "string \<Rightarrow> binLevel \<Rightarrow> intervalType \<Rightarrow> bool" where
  "valid_request chartID bin interval \<longleftrightarrow> map_of (chartMakers :: (string \<times> unit maker) list) chartID \<noteq> None
     \<and> (isWindowBin chartID \<longrightarrow> bin = WindowBin) \<and> (chartID \<noteq> ''hashrate'' \<longrightarrow> interval = DefaultInterval)"

lemma made_for: "map_of (chartMakers :: (string \<times> 'f maker) list) cid = None
    \<longleftrightarrow> map_of (chartMakers :: (string \<times> unit maker) list) cid = None"
  by (simp add: map_of_eq_None_iff chartMakers_def)

lemma request_valid:
  "map_of (chartMakers :: (string \<times> 'f maker) list) cid \<noteq> None
     \<Longrightarrow> valid_request cid (request_bin cid b) (request_interval cid i)"
  using made_for [of cid, where 'f = 'f] by (auto simp: valid_request_def request_bin_def request_interval_def)

text \<open>The state after a response that was not in the cache.\<close>

definition after_chart ::
  "string \<Rightarrow> binLevel \<Rightarrow> axisType \<Rightarrow> intervalType \<Rightarrow> 'f charts \<Rightarrow> maker_error + 'f chartResponse \<Rightarrow> 'f charts" where
  "after_chart cid bin axis interval c r =
     (case r of
        Inl e \<Rightarrow> c
      | Inr data \<Rightarrow>
          if map_of (chartMakers :: (string \<times> 'f maker) list) cid = None then c
          else cacheChart cid bin axis interval data c)"

definition cache_hit :: "string \<Rightarrow> binLevel \<Rightarrow> axisType \<Rightarrow> intervalType \<Rightarrow> 'f charts \<Rightarrow> 'f chartResponse option" where
  "cache_hit cid bin axis interval c =
     (case chart_cache c (cacheKey cid bin axis interval) of
        None \<Rightarrow> None
      | Some cc \<Rightarrow> if cc_cacheID cc = cacheID bin c then Some (cc_data cc) else None)"

lemma after_chart_unmade:
  "map_of (chartMakers :: (string \<times> 'f maker) list) cid = None
     \<Longrightarrow> after_chart cid bin axis interval (c :: 'f charts) r = c"
  by (simp add: after_chart_def split: sum.split)

lemma Chart_eq:
  fixes c :: "'f charts" and cid b a i :: string
  defines "bin \<equiv> request_bin cid b" and "axis \<equiv> ParseAxis a" and "interval \<equiv> request_interval cid i"
  shows "Chart ops cid b a i c =
     (case cache_hit cid bin axis interval c of
        Some data \<Rightarrow> Some (c, Inr data)
      | None \<Rightarrow> map_option (\<lambda>r. (after_chart cid bin axis interval c r, r)) (fresh ops cid bin axis interval c))"
proof -
  have b: "ParseBin (if isWindowBin cid then bin_str WindowBin else b) = bin"
    by (simp add: bin_def ParseBin_def request_bin_def)
  have i: "(if cid \<noteq> ''hashrate'' then DefaultInterval else ParseInterval i) = interval"
    by (simp add: interval_def request_interval_def)
  have made: "(case m of None \<Rightarrow> None | Some (Inl err) \<Rightarrow> Some (c, Inl err)
        | Some (Inr data) \<Rightarrow> Some (cacheChart cid bin axis interval data c, Inr data))
      = map_option (\<lambda>r. (after_chart cid bin axis interval c r, r)) m"
    if "map_of (chartMakers :: (string \<times> 'f maker) list) cid = Some mk" for m mk
    using that by (simp add: after_chart_def split: option.split sum.split)
  show ?thesis
    unfolding Chart_def Let_def b i axis_def [symmetric] getCache_def prod.case fresh_def
    by (cases "chart_cache c (cacheKey cid bin axis interval)";
        cases "map_of (chartMakers :: (string \<times> 'f maker) list) cid")
      (simp_all add: cache_hit_def made after_chart_unmade option.map_comp comp_def split: option.split)
qed

lemma fresh_cache [simp]: "fresh ops cid bin axis interval (c\<lparr>chart_cache := m\<rparr>) = fresh ops cid bin axis interval c"
proof -
  have ska: "skaSupplyChart ops cid bin axis (c\<lparr>chart_cache := m\<rparr>) = skaSupplyChart ops cid bin axis c"
    "skaFeeChart cid bin axis (c\<lparr>chart_cache := m\<rparr>) = skaFeeChart cid bin axis c"
    unfolding skaSupplyChart_def skaFeeChart_def maker_frame_cache data_frame by (rule refl)+
  show ?thesis
    by (auto simp: fresh_def ska maker_reads_cache dest!: map_of_SomeD split: option.split)
qed

lemma cacheID_frame [simp]: "cacheID bin (c\<lparr>chart_cache := m\<rparr>) = cacheID bin c" "cacheID bin (c\<lparr>Tip := t\<rparr>) = cacheID bin c"
  by (simp_all add: cacheID_def split: binLevel.split)

lemma delete_keys: "foldl (\<lambda>m k. m(k := None)) m ks k = (if k \<in> set ks then None else m k)"
  by (induction ks arbitrary: m) auto

lemma fresh_tip:
  assumes "cid \<notin> {''pow-difficulty'', ''ticket-price'', ''stake-participation''}"
  shows "fresh ops cid bin axis interval (c\<lparr>Tip := t\<rparr>) = fresh ops cid bin axis interval c"
proof -
  have ska: "skaSupplyChart ops cid bin axis (c\<lparr>Tip := t\<rparr>) = skaSupplyChart ops cid bin axis c"
    "skaFeeChart cid bin axis (c\<lparr>Tip := t\<rparr>) = skaFeeChart cid bin axis c"
    unfolding skaSupplyChart_def skaFeeChart_def maker_frame_tip tip_frame by (rule refl)+
  show ?thesis
    using assms by (auto simp: fresh_def ska maker_reads_tip dest!: map_of_SomeD split: option.split)
qed

text \<open>Every key a tip chart can be cached under is deleted by \<open>invalidateTipCharts\<close>: a chart of these is
  cached only for a bin that its maker serves.\<close>

lemma tip_keys_cover:
  assumes "cid \<in> {''pow-difficulty'', ''ticket-price'', ''stake-participation''}" and "valid_request cid bin interval"
    and "cid = ''stake-participation'' \<longrightarrow> bin \<noteq> WindowBin"
  shows "cacheKey cid bin axis interval \<in> set tip_keys"
proof -
  have "interval = DefaultInterval" using assms(1,2) by (auto simp: valid_request_def)
  moreover have "bin = WindowBin" if "cid \<noteq> ''stake-participation''"
    using assms(1,2) that by (auto simp: valid_request_def isWindowBin_def)
  ultimately show ?thesis
    using assms(1,3) by (cases axis; cases bin) (auto simp: tip_keys_def)
qed

section \<open>Requests, updates and tips\<close>

text \<open>
  \<open>Chart\<close> runs without a lock of its own: it looks the chart up under \<open>cacheMtx\<close>, makes it under
  \<open>mtx\<close>, and caches it under \<open>cacheMtx\<close> again, so that other requests, the updaters, \<open>Lengthen\<close>,
  \<open>ReorgHandler\<close> and \<open>SetTip\<close> can run in between. The steps below are these critical sections.
  \<open>SetTip\<close> is one step: it holds \<open>tipMtx\<close>, under which the makers read the tip, until the tip charts are
  deleted.

  The moments are the history of the charts: the data after each step, the oldest first. The edition of
  a bin is what the chart data promise to change with the data of that bin: the time of the last block,
  the count of updates that added a day, and the time of the last window together with the version of its
  stake count, as \<open>Lengthen\<close> last saw them.
\<close>

record 'f moment =
  data_at :: "'f charts"
  edition :: "binLevel \<Rightarrow> u64"

type_synonym chart_key = "string \<times> binLevel \<times> axisType \<times> intervalType"

record 'f pending =
  p_key :: chart_key
  arrived :: nat
  p_made :: "(nat \<times> 'f chartResponse) option"

record 'f serving =
  moments :: "'f moment list"
  requests :: "nat \<rightharpoonup> 'f pending"

definition present :: "'f serving \<Rightarrow> 'f moment" where
  "present s = List.last (moments s)"

abbreviation now :: "'f serving \<Rightarrow> 'f charts" where
  "now s \<equiv> data_at (present s)"

definition next_moment :: "'f moment \<Rightarrow> 'f serving \<Rightarrow> 'f serving" where
  "next_moment m s = s\<lparr>moments := moments s @ [m]\<rparr>"

definition answers :: "'f float_ops \<Rightarrow> chart_key \<Rightarrow> 'f charts \<Rightarrow> 'f made" where
  "answers ops k c = (case k of (cid, bin, axis, interval) \<Rightarrow> fresh ops cid bin axis interval c)"

definition key_bin :: "chart_key \<Rightarrow> binLevel" where
  "key_bin k = fst (snd k)"

definition key_str :: "chart_key \<Rightarrow> string" where
  "key_str k = (case k of (cid, bin, axis, interval) \<Rightarrow> cacheKey cid bin axis interval)"

definition request_key :: "string \<Rightarrow> string \<Rightarrow> string \<Rightarrow> string \<Rightarrow> chart_key" where
  "request_key chartID b a i = (chartID, request_bin chartID b, ParseAxis a, request_interval chartID i)"

definition hit :: "chart_key \<Rightarrow> 'f charts \<Rightarrow> 'f chartResponse option" where
  "hit k c = (case k of (cid, bin, axis, interval) \<Rightarrow> cache_hit cid bin axis interval c)"

definition store :: "chart_key \<Rightarrow> 'f chartResponse \<Rightarrow> 'f charts \<Rightarrow> 'f charts" where
  "store k data c = (case k of (cid, bin, axis, interval) \<Rightarrow> cacheChart cid bin axis interval data c)"

definition has_maker :: "chart_key \<Rightarrow> bool" where
  "has_maker k \<longleftrightarrow> map_of (chartMakers :: (string \<times> unit maker) list) (fst k) \<noteq> None"

text \<open>What a writer under \<open>mtx\<close> leaves alone: the cache, the identifiers and the tip.\<close>

definition data_change :: "'f charts \<Rightarrow> 'f charts \<Rightarrow> bool" where
  "data_change c c' \<longleftrightarrow> chart_cache c' = chart_cache c \<and> Tip c' = Tip c \<and> z_cacheID (Blocks c') = z_cacheID (Blocks c)
     \<and> z_cacheID (Days c') = z_cacheID (Days c) \<and> w_cacheID (Windows c') = w_cacheID (Windows c)"

definition same_data :: "'f charts \<Rightarrow> 'f charts \<Rightarrow> bool" where
  "same_data c c' \<longleftrightarrow> c\<lparr>chart_cache := Map.empty\<rparr> = c'\<lparr>chart_cache := Map.empty\<rparr>"

definition next_edition :: "(binLevel \<Rightarrow> u64) \<Rightarrow> 'f charts \<Rightarrow> 'f charts \<Rightarrow> chart_error option \<Rightarrow> binLevel \<Rightarrow> u64" where
  "next_edition ed c c' err bin =
     (if err \<noteq> None \<or> z_Time (Blocks c') = [] then ed bin
      else case bin of
        BlockBin \<Rightarrow> List.last (z_Time (Blocks c'))
      | DayBin \<Rightarrow> (if length (z_Time (Days c)) < length (z_Time (Days c')) then ed DayBin + 1 else ed DayBin)
      | WindowBin \<Rightarrow> or (push_bit 32 (List.last (w_Time (Windows c')))) (ucast (w_StakeCountVersion (Windows c'))))"

text \<open>One critical section; the label is the answer that ends a request. In a calm run nothing changes the
  data or the tip between the making of a chart and its caching.\<close>

inductive serve_step ::
  "bool \<Rightarrow> 'f float_ops \<Rightarrow> 'f serving \<Rightarrow> (chart_key \<times> nat \<times> (maker_error + 'f chartResponse)) option \<Rightarrow> 'f serving \<Rightarrow> bool"
  for calm ops where
  serve_hit: "hit k (now s) = Some data \<Longrightarrow> k = request_key cid b a i
     \<Longrightarrow> serve_step calm ops s (Some (k, length (moments s) - 1, Inr data)) s"
| serve_miss: "hit k (now s) = None \<Longrightarrow> k = request_key cid b a i \<Longrightarrow> requests s n = None
     \<Longrightarrow> p = \<lparr>p_key = k, arrived = length (moments s) - 1, p_made = None\<rparr>
     \<Longrightarrow> serve_step calm ops s None (s\<lparr>requests := (requests s)(n \<mapsto> p)\<rparr>)"
| serve_make: "requests s n = Some p \<Longrightarrow> p_made p = None \<Longrightarrow> has_maker (p_key p)
     \<Longrightarrow> answers ops (p_key p) (now s) = Some (Inr data)
     \<Longrightarrow> serve_step calm ops s None
           (s\<lparr>requests := (requests s)(n \<mapsto> p\<lparr>p_made := Some (length (moments s) - 1, data)\<rparr>)\<rparr>)"
| serve_plain: "requests s n = Some p \<Longrightarrow> p_made p = None \<Longrightarrow> answers ops (p_key p) (now s) = Some r
     \<Longrightarrow> \<not> has_maker (p_key p) \<or> (\<exists>e. r = Inl e)
     \<Longrightarrow> serve_step calm ops s (Some (p_key p, arrived p, r)) (s\<lparr>requests := (requests s)(n := None)\<rparr>)"
| serve_panic: "requests s n = Some p \<Longrightarrow> p_made p = None \<Longrightarrow> answers ops (p_key p) (now s) = None
     \<Longrightarrow> serve_step calm ops s None (s\<lparr>requests := (requests s)(n := None)\<rparr>)"
| serve_store: "requests s n = Some p \<Longrightarrow> p_made p = Some (i, data)
     \<Longrightarrow> (calm \<Longrightarrow> same_data (data_at (moments s ! i)) (now s))
     \<Longrightarrow> serve_step calm ops s (Some (p_key p, arrived p, Inr data))
           (next_moment \<lparr>data_at = store (p_key p) data (now s), edition = edition (present s)\<rparr>
             (s\<lparr>requests := (requests s)(n := None)\<rparr>))"
| serve_tip: "serve_step calm ops s None
     (next_moment \<lparr>data_at = SetTip t (now s), edition = edition (present s)\<rparr> s)"
| serve_change: "data_change (now s) c'
     \<Longrightarrow> serve_step calm ops s None (next_moment \<lparr>data_at = c', edition = edition (present s)\<rparr> s)"
| serve_lengthen: "Lengthen (now s) = Some (c', err)
     \<Longrightarrow> serve_step calm ops s None
           (next_moment \<lparr>data_at = c', edition = next_edition (edition (present s)) (now s) c' err\<rparr> s)"

inductive_cases serve_stepE: "serve_step calm ops s l s'"

definition start :: "'f charts \<Rightarrow> 'f serving" where
  "start c = \<lparr>moments = [\<lparr>data_at = c, edition = (\<lambda>bin. cacheID bin c)\<rparr>], requests = Map.empty\<rparr>"

inductive served :: "bool \<Rightarrow> 'f float_ops \<Rightarrow> 'f serving \<Rightarrow> 'f serving \<Rightarrow> bool" for calm ops s0 where
  served_start: "served calm ops s0 s0"
| served_step: "served calm ops s0 s \<Longrightarrow> serve_step calm ops s l s' \<Longrightarrow> served calm ops s0 s'"

text \<open>The writers under \<open>mtx\<close>: reorganizations, the miner ranges, the loading of the cache file.\<close>

lemma writers_change_data:
  "data_change c (ReorgHandler h n c)" "data_change c (SetMinerRanges rs c)"
  "data_change c (load_gobject g c)" "data_change c (clear_sets c)"
  by (simp_all add: data_change_def ReorgHandler_def SetMinerRanges_def load_gobject_def clear_sets_def Let_def
      zoom_Snip_def window_Snip_def)

section \<open>What a request is answered\<close>

definition tip_charts :: "string set" where
  "tip_charts = {''pow-difficulty'', ''ticket-price'', ''stake-participation''}"

definition cacheable :: "chart_key \<Rightarrow> bool" where
  "cacheable k \<longleftrightarrow> (case k of (cid, bin, axis, interval) \<Rightarrow>
     valid_request cid bin interval \<and> (cid = ''stake-participation'' \<longrightarrow> bin \<noteq> WindowBin))"

text \<open>The document for a key was made at moment \<open>i\<close> and cached at moment \<open>j\<close>.\<close>

definition made_cached ::
  "bool \<Rightarrow> 'f float_ops \<Rightarrow> chart_key \<Rightarrow> 'f chartResponse \<Rightarrow> nat \<Rightarrow> nat \<Rightarrow> 'f moment list \<Rightarrow> bool" where
  "made_cached calm ops k data i j ms \<longleftrightarrow> i \<le> j \<and> j < length ms
     \<and> answers ops k (data_at (ms ! i)) = Some (Inr data)
     \<and> (calm \<longrightarrow> answers ops k (data_at (ms ! j)) = Some (Inr data))"

definition pending_ok :: "'f float_ops \<Rightarrow> 'f moment list \<Rightarrow> 'f pending \<Rightarrow> bool" where
  "pending_ok ops ms p \<longleftrightarrow> arrived p < length ms \<and> (\<exists>cid b a i. p_key p = request_key cid b a i)
     \<and> (\<forall>i data. p_made p = Some (i, data) \<longrightarrow> has_maker (p_key p) \<and> arrived p \<le> i \<and> i < length ms
          \<and> answers ops (p_key p) (data_at (ms ! i)) = Some (Inr data))"

definition cached_ok :: "bool \<Rightarrow> 'f float_ops \<Rightarrow> 'f moment list \<Rightarrow> 'f charts \<Rightarrow> bool" where
  "cached_ok calm ops ms c \<longleftrightarrow> (\<forall>k cc. chart_cache c (key_str k) = Some cc \<longrightarrow> cacheable k
     \<and> (\<exists>i j. made_cached calm ops k (cc_data cc) i j ms \<and> cc_cacheID cc = edition (ms ! j) (key_bin k)
          \<and> (fst k \<in> tip_charts \<longrightarrow> Tip (data_at (ms ! j)) = Tip c)))"

definition serving_inv :: "bool \<Rightarrow> 'f float_ops \<Rightarrow> 'f serving \<Rightarrow> bool" where
  "serving_inv calm ops s \<longleftrightarrow> moments s \<noteq> [] \<and> (\<forall>bin. cacheID bin (now s) = edition (present s) bin)
     \<and> (\<forall>n p. requests s n = Some p \<longrightarrow> pending_ok ops (moments s) p)
     \<and> cached_ok calm ops (moments s) (now s)"

lemma key_str_inject [simp]: "key_str k = key_str k' \<longleftrightarrow> k = k'"
  by (cases k; cases k') (simp add: key_str_def)

lemma answers_cache [simp]: "answers ops k (c\<lparr>chart_cache := m\<rparr>) = answers ops k c"
  by (cases k) (simp add: answers_def)

lemma same_data_answers: "same_data c c' \<Longrightarrow> answers ops k c = answers ops k c'"
  unfolding same_data_def by (metis answers_cache)

lemma store_fields [simp]:
  "chart_cache (store k data c) = (chart_cache c)(key_str k \<mapsto> \<lparr>cc_cacheID = cacheID (key_bin k) c, cc_data = data\<rparr>)"
  "Tip (store k data c) = Tip c" "cacheID bin (store k data c) = cacheID bin c"
  "answers ops k' (store k data c) = answers ops k' c"
  by (cases k, simp add: store_def cacheChart_def key_str_def key_bin_def)+

lemma hit_cached:
  assumes "hit k c = Some data"
  obtains cc where "chart_cache c (key_str k) = Some cc" "cc_cacheID cc = cacheID (key_bin k) c" "cc_data cc = data"
  using assms by (cases k) (auto simp: hit_def cache_hit_def key_str_def key_bin_def split: option.splits if_splits)

lemma nth_moment [simp]: "i < length ms \<Longrightarrow> (ms @ [m]) ! i = ms ! i"
  by (simp add: nth_append)

lemma made_cached_later: "made_cached calm ops k data i j ms \<Longrightarrow> made_cached calm ops k data i j (ms @ [m])"
  by (auto simp: made_cached_def)

lemma pending_ok_later: "pending_ok ops ms p \<Longrightarrow> pending_ok ops (ms @ [m]) p"
  by (auto simp: pending_ok_def)

lemma cached_ok_later:
  assumes "cached_ok calm ops ms c" and "\<And>k. chart_cache c' (key_str k) \<noteq> None \<Longrightarrow> chart_cache c' (key_str k) = chart_cache c (key_str k)"
    and "\<And>k. chart_cache c' (key_str k) \<noteq> None \<Longrightarrow> fst k \<in> tip_charts \<Longrightarrow> cacheable k \<Longrightarrow> Tip c' = Tip c"
  shows "cached_ok calm ops (ms @ [m]) c'"
  unfolding cached_ok_def
proof (intro allI impI)
  fix k cc
  assume cc: "chart_cache c' (key_str k) = Some cc"
  with assms(2) have old: "chart_cache c (key_str k) = Some cc" by simp
  from assms(1) [unfolded cached_ok_def, rule_format, OF old]
  obtain i j where ok: "cacheable k" "made_cached calm ops k (cc_data cc) i j ms"
    "cc_cacheID cc = edition (ms ! j) (key_bin k)" "fst k \<in> tip_charts \<longrightarrow> Tip (data_at (ms ! j)) = Tip c" by blast
  have j: "j < length ms" using ok(2) by (simp add: made_cached_def)
  have t: "fst k \<in> tip_charts \<longrightarrow> Tip (data_at (ms ! j)) = Tip c'"
    using ok(4) assms(3) [of k] ok(1) cc by auto
  show "cacheable k \<and> (\<exists>i j. made_cached calm ops k (cc_data cc) i j (ms @ [m])
      \<and> cc_cacheID cc = edition ((ms @ [m]) ! j) (key_bin k)
      \<and> (fst k \<in> tip_charts \<longrightarrow> Tip (data_at ((ms @ [m]) ! j)) = Tip c'))"
    using ok(1) made_cached_later [OF ok(2)] ok(3) t j by (intro conjI exI [of _ i] exI [of _ j]) simp_all
qed

lemma cached_ok_store:
  assumes "cached_ok calm ops ms c" and "made_cached calm ops k data i (length ms) (ms @ [m])" and "cacheable k"
    and "edition m (key_bin k) = cacheID (key_bin k) c" and "Tip (data_at m) = Tip c"
  shows "cached_ok calm ops (ms @ [m]) (store k data c)"
proof -
  let ?c = "c\<lparr>chart_cache := (chart_cache c)(key_str k := None)\<rparr>"
  have other: "cached_ok calm ops (ms @ [m]) ?c" by (rule cached_ok_later [OF assms(1)]) (auto split: if_splits)
  show ?thesis
    unfolding cached_ok_def
  proof (intro allI impI)
    fix k' cc
    assume cc: "chart_cache (store k data c) (key_str k') = Some cc"
    show "cacheable k' \<and> (\<exists>i j. made_cached calm ops k' (cc_data cc) i j (ms @ [m])
        \<and> cc_cacheID cc = edition ((ms @ [m]) ! j) (key_bin k')
        \<and> (fst k' \<in> tip_charts \<longrightarrow> Tip (data_at ((ms @ [m]) ! j)) = Tip (store k data c)))"
    proof (cases "k' = k")
      case True
      then show ?thesis using cc assms(2-5) by (intro conjI exI [of _ i] exI [of _ "length ms"]) auto
    next
      case False
      then have "chart_cache ?c (key_str k') = Some cc" using cc by simp
      from other [unfolded cached_ok_def, rule_format, OF this] show ?thesis by simp
    qed
  qed
qed

lemma request_cacheable:
  assumes "has_maker k" and "k = request_key cid b a i" and "answers ops k c = Some (Inr data)"
  shows "cacheable k"
proof -
  have "bin \<noteq> WindowBin" if "cid = ''stake-participation''" "fresh ops cid bin axis interval c = Some (Inr data)" for bin axis interval
    using that by (auto simp: fresh_def chartMakers_def stakedCoinsChart_def)
  then show ?thesis
    using assms request_valid [where 'f = unit, of cid b i]
    by (auto simp: cacheable_def request_key_def has_maker_def answers_def)
qed

text \<open>Every key a tip chart can be cached under is deleted with the tip.\<close>

lemma SetTip_cache:
  "chart_cache (SetTip t c) k = (if k \<in> set tip_keys then None else chart_cache c k)" "Tip (SetTip t c) = t"
  "cacheID bin (SetTip t c) = cacheID bin c"
  by (simp_all add: SetTip_def invalidateTipCharts_def delete_keys)

lemma tip_chart_deleted: "cacheable k \<Longrightarrow> fst k \<in> tip_charts \<Longrightarrow> key_str k \<in> set tip_keys"
  using tip_keys_cover by (cases k) (auto simp: cacheable_def tip_charts_def key_str_def)

lemma Lengthen_ids:
  assumes "Lengthen c = Some (c', err)"
  shows "chart_cache c' = chart_cache c" "Tip c' = Tip c"
    "cacheID bin c' = next_edition (\<lambda>bin. cacheID bin c) c c' err bin"
proof -
  have snip [simp]: "z_cacheID (cut_blocks c) = z_cacheID (Blocks c)" "w_cacheID (cut_windows c) = w_cacheID (Windows c)"
    by (simp_all add: cut_blocks_def cut_windows_def zoom_Snip_def window_Snip_def)
  note b = zoom_okD(2) [OF cut_ok(1) [of c]]
  obtain ivs mids where new: "new_days (cut_blocks c) (Days c) = (ivs, mids)" by fastforce
  have mids: "length mids = length ivs" if "0 < blocks_len c" using new_days_chained(1) [OF new] b that by fastforce
  consider "blocks_len c = 0" | "0 < blocks_len c" "windows_len c = 0" | "0 < blocks_len c" "0 < windows_len c" by linarith
  then have "chart_cache c' = chart_cache c \<and> Tip c' = Tip c
      \<and> cacheID bin c' = next_edition (\<lambda>bin. cacheID bin c) c c' err bin"
  proof cases
    case 3
    then have t: "z_Time (cut_blocks c) \<noteq> []" using b by auto
    define d where "d = with_days (cut_blocks c) ivs ((Days c)\<lparr>z_Time := z_Time (Days c) @ mids\<rparr>)"
    have d: "z_Time d = z_Time (Days c) @ mids" "z_cacheID d = z_cacheID (Days c)" by (simp_all add: d_def with_days_def)
    have n: "blocks_len c \<noteq> 0" "windows_len c \<noteq> 0" "mids \<noteq> [] \<longleftrightarrow> ivs \<noteq> []" using 3 mids by auto
    note l = assms [unfolded Lengthen_eq lengthen_days_eq [OF cut_ok(1) 3(1) new] d_def [symmetric] Let_def
        if_not_P [OF n(1)] if_not_P [OF n(2)] option.case prod.case]
    show ?thesis
    proof (cases "snd (ValidateLengths (zoom_lens d)) \<noteq> None")
      case True
      then show ?thesis using l d by (cases bin) (auto simp: next_edition_def cacheID_def)
    next
      case False
      then show ?thesis using l d t n(3) by (cases bin) (auto simp: next_edition_def cacheID_def set_cacheIDs_def)
    qed
  qed (use assms b in \<open>auto simp: Lengthen_eq next_edition_def cacheID_def split: binLevel.split if_splits\<close>)
  then show "chart_cache c' = chart_cache c" "Tip c' = Tip c"
    "cacheID bin c' = next_edition (\<lambda>bin. cacheID bin c) c c' err bin" by simp_all
qed

lemma next_moment_fields [simp]:
  "present (next_moment m s) = m" "moments (next_moment m s) = moments s @ [m]" "requests (next_moment m s) = requests s"
  "present (s\<lparr>requests := r\<rparr>) = present s"
  by (simp_all add: next_moment_def present_def)

lemma serving_invD:
  assumes "serving_inv calm ops s"
  shows "moments s \<noteq> []" "cacheID bin (now s) = edition (present s) bin"
    "requests s n = Some p \<Longrightarrow> pending_ok ops (moments s) p" "cached_ok calm ops (moments s) (now s)"
    "moments s ! (length (moments s) - 1) = present s"
  using assms unfolding serving_inv_def by (simp_all add: present_def, simp add: last_conv_nth)

lemma serving_requests:
  assumes "serving_inv calm ops s" and "\<And>n p. r n = Some p \<Longrightarrow> requests s n = Some p \<or> pending_ok ops (moments s) p"
  shows "serving_inv calm ops (s\<lparr>requests := r\<rparr>)"
  using assms(1) unfolding serving_inv_def by (auto dest!: assms(2))

lemma serving_next:
  assumes "serving_inv calm ops s" and "\<And>bin. cacheID bin (data_at m) = edition m bin"
    and "cached_ok calm ops (moments s @ [m]) (data_at m)"
  shows "serving_inv calm ops (next_moment m s)"
  using assms unfolding serving_inv_def by (auto intro!: pending_ok_later)

lemma cacheID_data_change: "data_change c c' \<Longrightarrow> cacheID bin c' = cacheID bin c"
  by (simp add: data_change_def cacheID_def split: binLevel.split)

lemma next_edition_cong: "(\<And>bin. ed bin = ed' bin) \<Longrightarrow> next_edition ed c c' err bin = next_edition ed' c c' err bin"
  by (simp add: next_edition_def split: binLevel.split)

lemma pending_removed: "serving_inv calm ops s \<Longrightarrow> serving_inv calm ops (s\<lparr>requests := (requests s)(n := None)\<rparr>)"
  by (rule serving_requests) (auto split: if_splits)

lemma serving_step_inv:
  assumes "serve_step calm ops s l s'" and inv: "serving_inv calm ops s"
  shows "serving_inv calm ops s'"
  using assms(1)
proof cases
  case (serve_miss k cid b a i n p)
  have "pending_ok ops (moments s) p"
    unfolding pending_ok_def serve_miss using serving_invD(1) [OF inv] by auto
  then show ?thesis unfolding serve_miss(2) by (intro serving_requests [OF inv]) (auto split: if_splits)
next
  case (serve_make n p data)
  have "pending_ok ops (moments s) (p\<lparr>p_made := Some (length (moments s) - 1, data)\<rparr>)"
    using serving_invD(3) [OF inv serve_make(3)] serving_invD(1,5) [OF inv] serve_make
    by (auto simp: pending_ok_def)
  then show ?thesis unfolding serve_make(2) by (intro serving_requests [OF inv]) (auto split: if_splits)
next
  case (serve_store n p i data)
  let ?m = "\<lparr>data_at = store (p_key p) data (now s), edition = edition (present s)\<rparr>"
  let ?s = "s\<lparr>requests := (requests s)(n := None)\<rparr>"
  have p: "has_maker (p_key p)" "i < length (moments s)" "answers ops (p_key p) (data_at (moments s ! i)) = Some (Inr data)"
    "\<exists>cid b a i. p_key p = request_key cid b a i"
    using serving_invD(3) [OF inv serve_store(3)] serve_store(4) by (auto simp: pending_ok_def)
  have calm: "answers ops (p_key p) (now s) = Some (Inr data)" if calm
    using same_data_answers [OF serve_store(5) [OF that]] p(3) by metis
  have made: "made_cached calm ops (p_key p) data i (length (moments s)) (moments s @ [?m])"
    using p(2,3) calm by (simp add: made_cached_def)
  have "cacheable (p_key p)" using p request_cacheable by blast
  then have c: "cached_ok calm ops (moments s @ [?m]) (store (p_key p) data (now s))"
    using cached_ok_store [OF serving_invD(4) [OF inv] made] serving_invD(2) [OF inv] by simp
  show ?thesis
    unfolding serve_store(2) using c serving_invD(2) [OF inv]
    by (intro serving_next [OF pending_removed [OF inv]]) simp_all
next
  case (serve_tip t)
  have "cached_ok calm ops (moments s @ [\<lparr>data_at = SetTip t (now s), edition = edition (present s)\<rparr>]) (SetTip t (now s))"
    by (rule cached_ok_later [OF serving_invD(4) [OF inv]])
      (auto simp: SetTip_cache dest: tip_chart_deleted split: if_splits)
  then show ?thesis
    unfolding serve_tip(2) using serving_invD(2) [OF inv] by (intro serving_next [OF inv]) (simp_all add: SetTip_cache)
next
  case (serve_change c')
  have "cached_ok calm ops (moments s @ [\<lparr>data_at = c', edition = edition (present s)\<rparr>]) c'"
    using serve_change(3) by (intro cached_ok_later [OF serving_invD(4) [OF inv]]) (simp_all add: data_change_def)
  then show ?thesis
    unfolding serve_change(2) using serving_invD(2) [OF inv] cacheID_data_change [OF serve_change(3)]
    by (intro serving_next [OF inv]) simp_all
next
  case (serve_lengthen c' err)
  note l = Lengthen_ids [OF serve_lengthen(3)]
  have "cached_ok calm ops (moments s @ [\<lparr>data_at = c', edition = next_edition (edition (present s)) (now s) c' err\<rparr>]) c'"
    using l(1,2) by (intro cached_ok_later [OF serving_invD(4) [OF inv]]) simp_all
  moreover have "cacheID bin c' = next_edition (edition (present s)) (now s) c' err bin" for bin
    unfolding l(3) by (rule next_edition_cong) (rule serving_invD(2) [OF inv])
  ultimately show ?thesis unfolding serve_lengthen(2) by (intro serving_next [OF inv]) simp_all
qed (use inv pending_removed in auto)

lemma served_inv: "served calm ops s0 s \<Longrightarrow> serving_inv calm ops s0 \<Longrightarrow> serving_inv calm ops s"
  by (induction rule: served.induct) (auto intro: serving_step_inv)

lemma start_inv: "chart_cache c = Map.empty \<Longrightarrow> serving_inv calm ops (start c)"
  by (simp add: serving_inv_def start_def present_def cached_ok_def)


text \<open>A request that nothing interrupts is a call of \<open>Chart\<close>.\<close>

lemma has_maker_iff: "has_maker (request_key cid b a i) \<longleftrightarrow> map_of (chartMakers :: (string \<times> 'f maker) list) cid \<noteq> None"
  using made_for [of cid, where 'f = 'f] by (simp add: has_maker_def request_key_def)

lemma Chart_key_eq:
  fixes c :: "'f charts"
  shows "Chart ops cid b a i c =
     (case hit (request_key cid b a i) c of
        Some data \<Rightarrow> Some (c, Inr data)
      | None \<Rightarrow> map_option (\<lambda>r. (case r of
            Inl e \<Rightarrow> c
          | Inr data \<Rightarrow> if has_maker (request_key cid b a i) then store (request_key cid b a i) data c else c, r))
          (answers ops (request_key cid b a i) c))"
proof -
  have k: "hit (request_key cid b a i) c = cache_hit cid (request_bin cid b) (ParseAxis a) (request_interval cid i) c"
    "answers ops (request_key cid b a i) c = fresh ops cid (request_bin cid b) (ParseAxis a) (request_interval cid i) c"
    "store (request_key cid b a i) data c = cacheChart cid (request_bin cid b) (ParseAxis a) (request_interval cid i) data c" for data
    by (simp_all add: hit_def answers_def store_def request_key_def)
  have after: "after_chart cid (request_bin cid b) (ParseAxis a) (request_interval cid i) c r = (case r of
      Inl e \<Rightarrow> c | Inr data \<Rightarrow> if has_maker (request_key cid b a i) then store (request_key cid b a i) data c else c)" for r
    unfolding after_chart_def has_maker_iff [where 'f = 'f] k by (cases r) simp_all
  show ?thesis unfolding Chart_eq k(1,2) after ..
qed

lemma Chart_uninterrupted:
  fixes s :: "'f serving"
  assumes "Chart ops cid b a i (now s) = Some (c', r)" and "requests s n = None" and "moments s \<noteq> []"
  shows "\<exists>s1 s2. served calm ops s s1
    \<and> serve_step calm ops s1 (Some (request_key cid b a i, length (moments s) - 1, r)) s2
    \<and> now s2 = c' \<and> requests s2 = requests s"
proof -
  let ?k = "request_key cid b a i"
  define p :: "'f pending" where "p = \<lparr>p_key = ?k, arrived = length (moments s) - 1, p_made = None\<rparr>"
  define s1 where "s1 = s\<lparr>requests := (requests s)(n \<mapsto> p)\<rparr>"
  have s1: "now s1 = now s" "moments s1 = moments s" "requests s1 n = Some p" "p_key p = ?k" "arrived p = length (moments s) - 1"
    "p_made p = None" "(requests s1)(n := None) = requests s"
    using assms(2) by (auto simp: s1_def p_def)
  have last: "data_at (moments s ! (length (moments s) - 1)) = now s" using assms(3) by (simp add: present_def last_conv_nth)
  show ?thesis
  proof (cases "hit ?k (now s)")
    case (Some data)
    then have "serve_step calm ops s (Some (?k, length (moments s) - 1, r)) s" "now s = c'"
      using assms(1) serve_hit [OF Some refl, of calm ops] by (auto simp: Chart_key_eq)
    then show ?thesis using served_start by blast
  next
    case None
    have miss: "served calm ops s s1"
      unfolding s1_def by (rule served_step [OF served_start serve_miss [OF None refl assms(2) p_def]])
    have a: "answers ops ?k (now s) = Some r" using assms(1) None by (auto simp: Chart_key_eq)
    show ?thesis
    proof (cases "has_maker ?k \<and> (\<exists>data. r = Inr data)")
      case False
      then have "\<not> has_maker (p_key p) \<or> (\<exists>e. r = Inl e)" using s1(4) by (cases r) auto
      from serve_plain [OF s1(3,6) _ this, of ops calm] a s1
      have "serve_step calm ops s1 (Some (?k, length (moments s) - 1, r)) (s1\<lparr>requests := requests s\<rparr>)" by simp
      moreover have "c' = now s" using assms(1) None False a by (auto simp: Chart_key_eq split: sum.splits if_splits)
      ultimately show ?thesis using miss s1(1) by (intro exI [of _ s1] exI [of _ "s1\<lparr>requests := requests s\<rparr>"]) simp
    next
      case True
      then obtain data where r: "r = Inr data" "has_maker ?k" by blast
      define q where "q = p\<lparr>p_made := Some (length (moments s) - 1, data)\<rparr>"
      define s2 where "s2 = s1\<lparr>requests := (requests s1)(n \<mapsto> q)\<rparr>"
      have "served calm ops s s2"
        using served_step [OF miss serve_make [OF s1(3,6)]] r a s1 by (simp add: s2_def q_def)
      moreover have "requests s2 n = Some q" "p_made q = Some (length (moments s) - 1, data)" by (simp_all add: s2_def q_def)
      note st = serve_store [OF this, of calm ops]
      have "serve_step calm ops s2 (Some (?k, length (moments s) - 1, Inr data))
          (next_moment \<lparr>data_at = store ?k data (now s), edition = edition (present s)\<rparr> (s2\<lparr>requests := requests s\<rparr>))"
        using st s1 last by (simp add: s2_def q_def same_data_def s1_def fun_upd_upd)
      moreover have "c' = store ?k data (now s)" using assms(1) None a r by (auto simp: Chart_key_eq)
      ultimately show ?thesis
        using r(1) by (intro exI [of _ s2] exI [of _ "next_moment \<lparr>data_at = store ?k data (now s),
            edition = edition (present s)\<rparr> (s2\<lparr>requests := requests s\<rparr>)"]) simp
    qed
  qed
qed

text \<open>The race that the calm runs exclude: a tip that is set while a request holds a chart it made is not
  seen by this chart, which is cached after the tip charts were deleted and served until the next tip or
  edition.\<close>

theorem stale_tip_chart_served:
  fixes c :: "'f charts"
  assumes "chart_cache c = Map.empty" and "has_maker k" and "k = request_key cid b a i"
    and "answers ops k c = Some (Inr data)"
  shows "\<exists>s. served False ops (start c) s \<and> Tip (now s) = t \<and> hit k (now s) = Some data"
proof -
  define p :: "'f pending" where "p = \<lparr>p_key = k, arrived = length (moments (start c)) - 1, p_made = None\<rparr>"
  define q where "q = p\<lparr>p_made := Some (0 :: nat, data)\<rparr>"
  define s1 where "s1 = (start c)\<lparr>requests := [0 \<mapsto> p]\<rparr>"
  define s2 where "s2 = s1\<lparr>requests := [0 \<mapsto> q]\<rparr>"
  define s3 where "s3 = next_moment \<lparr>data_at = SetTip t c, edition = edition (present s2)\<rparr> s2"
  define s4 where "s4 = next_moment \<lparr>data_at = store k data (SetTip t c), edition = edition (present s3)\<rparr>
    (s3\<lparr>requests := (requests s3)(0 := None)\<rparr>)"
  have now: "now (start c) = c" "now s1 = c" "now s2 = c" "now s3 = SetTip t c" "moments s1 = moments (start c)"
    "requests (start c) = Map.empty" "length (moments (start c)) = 1" "requests s3 = [0 \<mapsto> q]"
    by (simp_all add: s1_def s2_def s3_def start_def present_def next_moment_def)
  have "hit k c = None" using assms(1) by (cases k) (simp add: hit_def cache_hit_def)
  then have 1: "served False ops (start c) s1"
    using served_step [OF served_start serve_miss [where s = "start c", OF _ assms(3) _ p_def, of 0 False ops]] now
    by (simp add: s1_def)
  have "serve_step False ops s1 None s2"
    using serve_make [of s1 0 p ops data False] assms(2,4) now by (simp add: s2_def q_def p_def s1_def)
  from served_step [OF 1 this] have 2: "served False ops (start c) s2" .
  from served_step [OF this serve_tip [of False ops s2 t]] have 3: "served False ops (start c) s3"
    by (simp add: s3_def now)
  have "serve_step False ops s3 (Some (k, arrived q, Inr data)) s4"
    using serve_store [of s3 0 q 0 data False ops] now(4,8) by (simp add: s4_def q_def p_def)
  from served_step [OF 3 this] have "served False ops (start c) s4" .
  moreover have "Tip (now s4) = t" "hit k (now s4) = Some data"
    by (simp_all add: s4_def SetTip_cache, cases k, simp add: hit_def cache_hit_def store_def cacheChart_def)
  ultimately show ?thesis by blast
qed

definition unit_ops :: "unit float_ops" where
  "unit_ops = \<lparr>f_pos = (\<lambda>_. True), f_finite = (\<lambda>_. True), f_of_int = (\<lambda>_. ()), f_quo = (\<lambda>_ _. Some ())\<rparr>"

definition size_chart :: "unit chartResponse" where
  "size_chart = [(''bin'', RStr ''block''), (''axis'', RStr ''time''), (''t'', RSeries (Uints [])), (''size'', RSeries (Uints []))]"

lemma new_charts_size:
  "map_option snd (Chart unit_ops ''block-size'' ''block'' ''time'' ''all'' (NewChartData 144 4096 ())) = Some (Inr size_chart)"
  by code_simp


section \<open>The hash rate series\<close>

text \<open>The rate of block \<open>i\<close> as the loop computes it.\<close>

definition rate_at :: "'f float_ops \<Rightarrow> ChartUints \<Rightarrow> ChartBigInts \<Rightarrow> nat \<Rightarrow> 'f option" where
  "rate_at ops time chainwork i =
     f_quo ops (chainwork ! i - chainwork ! (i - (HashrateAvgLength - 1))) (time ! i - time ! (i - HashrateAvgLength))"

lemma next_slot: "i \<ge> HashrateAvgLength
    \<Longrightarrow> (i mod HashrateAvgLength + 1) mod HashrateAvgLength = (i - (HashrateAvgLength - 1)) mod HashrateAvgLength"
proof -
  assume "i \<ge> HashrateAvgLength"
  then have "i + 1 = (i - (HashrateAvgLength - 1)) + HashrateAvgLength" by (simp add: HashrateAvgLength_def)
  then have "(i + 1) mod HashrateAvgLength = (i - (HashrateAvgLength - 1)) mod HashrateAvgLength"
    by (simp only: mod_add_self2)
  then show ?thesis by (simp only: mod_add_left_eq)
qed

lemma hashrate_loop_eq:
  assumes "works = drop i chainwork" and "length chainwork \<le> length time" and "length rotator = HashrateAvgLength"
    and "\<And>j. j < i \<Longrightarrow> i \<le> j + HashrateAvgLength \<Longrightarrow> rotator ! (j mod HashrateAvgLength) = chainwork ! j"
  shows "hashrate_loop ops time works i rotator =
    map_option (\<lambda>ys. (map ((!) time) [max i HashrateAvgLength..<length chainwork], ys))
      (those (map (rate_at ops time chainwork) [max i HashrateAvgLength..<length chainwork]))"
  using assms
proof (induction works arbitrary: i rotator)
  case Nil
  then show ?case by simp
next
  case (Cons work works)
  let ?h = HashrateAvgLength
  let ?rot = "rotator[i mod ?h := work]"
  have i: "i < length chainwork" using Cons.prems(1) by (metis drop_eq_Nil2 leI list.distinct(1))
  then have work: "work = chainwork ! i" "works = drop (i + 1) chainwork"
    using Cons.prems(1) unfolding Cons_nth_drop_Suc [OF i, symmetric] by simp_all
  have h: "i mod ?h < ?h" "0 < ?h" by (simp_all add: HashrateAvgLength_def)
  have slots: "?rot ! (j mod ?h) = chainwork ! j" if j: "j < i + 1" "i + 1 \<le> j + ?h" for j
  proof (cases "j = i")
    case True
    then show ?thesis using h Cons.prems(3) work by simp
  next
    case False
    then have "j mod ?h \<noteq> i mod ?h"
      using j mod_eq_dvd_iff_nat [of j i ?h] nat_dvd_not_less [of "i - j" ?h] by fastforce
    then show ?thesis using j False Cons.prems(4) [of j] by simp
  qed
  note IH = Cons.IH [OF work(2) Cons.prems(2) _ slots, simplified Cons.prems(3) length_list_update, simplified]
  show ?case
  proof (cases "i \<ge> ?h")
    case True
    have "?rot ! ((i mod ?h + 1) mod ?h) = chainwork ! (i - (?h - 1))"
      unfolding next_slot [OF True] using slots [of "i - (?h - 1)"] True by (simp add: HashrateAvgLength_def)
    moreover have "[max i ?h..<length chainwork] = i # [i + 1..<length chainwork]" "max (i + 1) ?h = i + 1" "max (Suc i) ?h = Suc i"
      using True i by (simp_all add: upt_conv_Cons max_def)
    moreover have "i - ?h < length time" "i < length time" using i Cons.prems(2) by simp_all
    ultimately show ?thesis
      using True IH work(1)
      by (cases "those (map (rate_at ops time chainwork) [Suc i..<length chainwork])")
        (simp_all add: Let_def nth_opt_def rate_at_def [of ops time chainwork i] split: option.split)
  next
    case False
    then show ?thesis using IH by (simp add: Let_def max_def)
  qed
qed

text \<open>The hash rate of a block is the work of the last \<open>HashrateAvgLength - 1\<close> blocks divided by the time of
  the last \<open>HashrateAvgLength\<close> blocks: the slot that the rotator reads next is overwritten one block after
  the time it is paired with. There is one rate for every block from \<open>HashrateAvgLength\<close> on, and the loop
  panics only where one of these quotients does.\<close>

theorem hashrate_formula:
  assumes "length chainwork \<le> length time"
  shows "hashrate ops time chainwork =
    map_option (\<lambda>ys. (map ((!) time) [HashrateAvgLength..<length chainwork], ys))
      (those (map (\<lambda>i. f_quo ops (chainwork ! i - chainwork ! (i - (HashrateAvgLength - 1)))
                                 (time ! i - time ! (i - HashrateAvgLength)))
                [HashrateAvgLength..<length chainwork]))"
proof (cases "length chainwork \<le> HashrateAvgLength")
  case True
  then show ?thesis by (simp add: hashrate_def)
next
  case False
  then show ?thesis
    using hashrate_loop_eq [of chainwork 0 chainwork time "replicate HashrateAvgLength 0" ops] assms
    by (simp add: hashrate_def rate_at_def [abs_def])
qed

theorem hashrate_formula_witness:
  "length (map int [0..<122]) \<le> length (map word_of_nat [0..<122] :: ChartUints)
     \<and> hashrate \<lparr>f_pos = \<lambda>_. True, f_finite = \<lambda>_. True, f_of_int = id, f_quo = \<lambda>w t. Some (w * 1000 + uint t)\<rparr>
         (map word_of_nat [0..<122]) (map int [0..<122]) = Some ([120, 121], [119120, 119120])"
proof -
  have idx: "[HashrateAvgLength..<length (map int [0..<122])] = [120, 121]"
    by (simp add: HashrateAvgLength_def upt_rec)
  show ?thesis
    unfolding hashrate_formula [of "map int [0..<122]" "map word_of_nat [0..<122]", simplified] idx
    by (simp add: HashrateAvgLength_def)
qed

end
