(* ===== verification/PoolInfo.thy ===== *)
theory PoolInfo
  imports Prelude
begin

text \<open>
  The cache of ticket pool infos of \<open>stakedb/stakedb.go\<close>: a map from block hashes to infos and a slice
  of the hashes in the order in which they were set, the oldest first. The element type is left open.
  A panic on an empty slice is \<open>None\<close>.
\<close>

section \<open>The cache\<close>

record 'i PoolInfoCache =
  poolInfoMap :: "hash \<rightharpoonup> 'i"
  expireQueue :: "hash list"
  maxSize :: int

definition NewPoolInfoCache :: "int \<Rightarrow> 'i PoolInfoCache option" where
  "NewPoolInfoCache size0 =
     (if size0 < 2 then None else Some \<lparr>poolInfoMap = Map.empty, expireQueue = [], maxSize = size0\<rparr>)"

definition PoolInfo_Get :: "hash \<Rightarrow> 'i PoolInfoCache \<Rightarrow> 'i option" where
  "PoolInfo_Get h c = poolInfoMap c h"

definition PoolInfo_Set :: "hash \<Rightarrow> 'i \<Rightarrow> 'i PoolInfoCache \<Rightarrow> 'i PoolInfoCache option" where
  "PoolInfo_Set h p c =
     (let c1 = c\<lparr>poolInfoMap := (poolInfoMap c)(h \<mapsto> p)\<rparr>
      in if int (length (expireQueue c1)) + 1 \<ge> maxSize c1 then
           (case expireQueue c1 of
              [] \<Rightarrow> None
            | expireHash # rest \<Rightarrow>
                Some (c1\<lparr>expireQueue := rest @ [h], poolInfoMap := (poolInfoMap c1)(expireHash := None)\<rparr>))
         else Some (c1\<lparr>expireQueue := expireQueue c1 @ [h]\<rparr>))"

text \<open>The loop of \<open>SetCapacity\<close>, over the queue that is left; the test on its length is the loop condition,
  and with a capacity below one the loop would index an empty slice.\<close>

fun expire_loop :: "int \<Rightarrow> hash list \<Rightarrow> (hash \<rightharpoonup> 'i) \<Rightarrow> (hash list \<times> (hash \<rightharpoonup> 'i)) option" where
  "expire_loop cap [] m = (if 0 \<ge> cap then None else Some ([], m))"
| "expire_loop cap (h # q) m =
     (if int (length (h # q)) \<ge> cap then expire_loop cap q (m(h := None)) else Some (h # q, m))"

text \<open>The flag is the error return.\<close>

definition SetCapacity :: "int \<Rightarrow> 'i PoolInfoCache \<Rightarrow> ('i PoolInfoCache \<times> bool) option" where
  "SetCapacity size0 c =
     (if size0 < 2 then Some (c, True)
      else map_option (\<lambda>(q, m). (c\<lparr>maxSize := size0, expireQueue := q, poolInfoMap := m\<rparr>, False))
             (expire_loop size0 (expireQueue c) (poolInfoMap c)))"

section \<open>Capacity\<close>

definition pool_info_ok :: "'i PoolInfoCache \<Rightarrow> bool" where
  "pool_info_ok c \<longleftrightarrow> 2 \<le> maxSize c \<and> int (length (expireQueue c)) < maxSize c
     \<and> dom (poolInfoMap c) \<subseteq> set (expireQueue c)"

lemma pool_info_ok_size:
  assumes "pool_info_ok c"
  shows "finite (dom (poolInfoMap c))" "int (card (dom (poolInfoMap c))) < maxSize c"
proof -
  have sub: "dom (poolInfoMap c) \<subseteq> set (expireQueue c)" using assms by (simp add: pool_info_ok_def)
  then show "finite (dom (poolInfoMap c))" using finite_subset by blast
  have "card (dom (poolInfoMap c)) \<le> length (expireQueue c)"
    using card_mono [OF _ sub] card_length [of "expireQueue c"] by simp
  then show "int (card (dom (poolInfoMap c))) < maxSize c" using assms by (simp add: pool_info_ok_def)
qed

lemma NewPoolInfoCache_ok: "NewPoolInfoCache n = Some c \<Longrightarrow> pool_info_ok c"
  by (auto simp: NewPoolInfoCache_def pool_info_ok_def split: if_splits)

lemma PoolInfo_Set_ok:
  assumes "pool_info_ok c"
  shows "\<exists>c'. PoolInfo_Set h p c = Some c' \<and> pool_info_ok c'"
  using assms
  by (cases "expireQueue c") (auto simp: PoolInfo_Set_def pool_info_ok_def Let_def split: if_splits)

lemma expire_loop_ok:
  assumes "2 \<le> cap" and "dom m \<subseteq> set q"
  shows "\<exists>q' m'. expire_loop cap q m = Some (q', m') \<and> int (length q') < cap \<and> dom m' \<subseteq> set q'
    \<and> (\<exists>n. q' = drop n q) \<and> m' \<subseteq>\<^sub>m m"
  using assms(2)
proof (induction q arbitrary: m)
  case Nil
  then show ?case using assms(1) by simp
next
  case (Cons h q)
  show ?case
  proof (cases "int (length (h # q)) \<ge> cap")
    case True
    have "dom (m(h := None)) \<subseteq> set q" using Cons.prems by auto
    from Cons.IH [OF this] obtain q' m' n where ih: "expire_loop cap q (m(h := None)) = Some (q', m')"
      "int (length q') < cap" "dom m' \<subseteq> set q'" "q' = drop n q" "m' \<subseteq>\<^sub>m m(h := None)" by blast
    moreover have "m' \<subseteq>\<^sub>m m" by (rule map_le_trans [OF ih(5) upd_None_map_le])
    moreover have "q' = drop (Suc n) (h # q)" using ih(4) by simp
    ultimately show ?thesis using True by (metis expire_loop.simps(2))
  next
    case False
    then show ?thesis using Cons.prems by (auto intro: exI [of _ 0])
  qed
qed

lemma SetCapacity_ok:
  assumes "pool_info_ok c"
  shows "\<exists>c' e. SetCapacity n c = Some (c', e) \<and> pool_info_ok c'"
  using assms expire_loop_ok [of n "poolInfoMap c" "expireQueue c"]
  by (cases "n < 2") (auto simp: SetCapacity_def pool_info_ok_def)

section \<open>Reading back\<close>

text \<open>The info that was just set is returned unless its hash was set before and is the next to expire.\<close>

lemma PoolInfo_Set_Get:
  assumes "pool_info_ok c" and "PoolInfo_Set h p c = Some c'"
  shows "PoolInfo_Get h c' =
    (if int (length (expireQueue c)) + 1 \<ge> maxSize c \<and> hd (expireQueue c) = h then None else Some p)"
proof -
  have "expireQueue c \<noteq> []" if "int (length (expireQueue c)) + 1 \<ge> maxSize c"
    using that assms(1) by (auto simp: pool_info_ok_def)
  then show ?thesis
    using assms(2) by (cases "expireQueue c") (auto simp: PoolInfo_Set_def PoolInfo_Get_def Let_def split: if_splits)
qed

end
