(* ===== verification/StakeDB.thy ===== *)
theory StakeDB
  imports TicketPool SSFee PoolInfo "HOL-Library.Monad_Syntax"
begin

text \<open>
  The stake database of \<open>stakedb/stakedb.go\<close>: it follows the node's stake state block by block, keeps
  the value of the live tickets and records every change of the ticket pool in the diff log of
  \<open>TicketPool\<close>. The node's packages are parameters, collected in the record \<open>stake_env\<close>: \<open>stake.Node\<close>
  is a type \<open>'n\<close> with its methods, the ffldb database a type \<open>'s\<close> with its reads and writes. The answers of
  the RPC client are a \<open>node_client\<close>, given to each call. Operations return the state beside an error;
  \<open>None\<close> is a panic. A database is modelled from the point where \<open>Open\<close> has set its best node.
\<close>

section \<open>The node and its client\<close>

record dcr_block =
  blk_Height :: int
  blk_Hash :: hash
  blk_HeaderBytes :: "byte list option"
  blk_STransactions :: Block

record block_header =
  hdr_Height :: int
  hdr_PrevBlock :: hash
  hdr_BlockHash :: hash

record node_client =
  GetBlockHash :: "int \<Rightarrow> hash option"
  GetBlock :: "hash \<Rightarrow> dcr_block option"
  GetBlockHeader :: "hash \<Rightarrow> block_header option"
  GetRawTransaction :: "hash \<Rightarrow> MsgTx option"

text \<open>The undo data of a node is a function of the node, so the write of a disconnected node takes the
  child node itself.\<close>

record ('n, 's, 'd, 'f) stake_env =
  TicketMaturity :: int
  isSStx :: "MsgTx \<Rightarrow> bool"
  isSSGen :: "MsgTx \<Rightarrow> bool"
  isSSRtx :: "MsgTx \<Rightarrow> bool"
  txHash :: "MsgTx \<Rightarrow> hash"
  node_Height :: "'n \<Rightarrow> int"
  node_Winners :: "'n \<Rightarrow> hash list"
  node_ExpiredByBlock :: "'n \<Rightarrow> hash list"
  node_LiveTickets :: "'n \<Rightarrow> hash list"
  node_PoolSize :: "'n \<Rightarrow> int"
  CalcHash256PRNGIV :: "byte list \<Rightarrow> hash"
  ConnectNode :: "'n \<Rightarrow> hash \<Rightarrow> hash list \<Rightarrow> hash list \<Rightarrow> hash list \<Rightarrow> string + 'n option"
  DisconnectNode :: "'n \<Rightarrow> hash \<Rightarrow> 's \<Rightarrow> string + 'n option"
  WriteConnectedBestNode :: "'n \<Rightarrow> hash \<Rightarrow> 's \<Rightarrow> string + 's"
  WriteDisconnectedBestNode :: "'n \<Rightarrow> hash \<Rightarrow> 'n \<Rightarrow> 's \<Rightarrow> string + 's"
  chainstate :: "'s \<Rightarrow> byte list option"
  dbSet :: "'d kv_set"
  ToCoin :: "int \<Rightarrow> 'f"
  coin_zero :: 'f
  coin_div :: "'f \<Rightarrow> int \<Rightarrow> 'f"
  hash_String :: "hash \<Rightarrow> string"

section \<open>State\<close>

record 'f TicketPoolInfo =
  tpi_Height :: int
  tpi_Size :: int
  tpi_Value :: 'f
  tpi_ValAvg :: 'f
  tpi_Winners :: "string list"

text \<open>
  A waiter's channel is a number with the values sent to it and not yet received; its capacity is one.
  \<open>signals\<close> are the started goroutines \<open>signalWaiters\<close> that have not run yet.
\<close>

record ('n, 's, 'd, 'f) StakeDatabase =
  BestNode :: 'n
  stakeDB :: 's
  sd_blockCache :: "int \<rightharpoonup> dcr_block"
  liveTicketCache :: "hash \<rightharpoonup> int"
  poolValue :: int
  sd_poolInfo :: "'f TicketPoolInfo PoolInfoCache"
  PoolDB :: "'d TicketPool"
  heightWaiters :: "int \<Rightarrow> nat list"
  waitChans :: "nat \<Rightarrow> hash option list"
  nextChan :: nat
  signals :: "(int \<times> hash) list"

datatype sd_error =
    RpcError
  | MissingChainState
  | CannotConnect int int
  | HeaderError
  | NodeError string
  | NilNode
  | WriteError string
  | PoolError tp_error
  | HeightMismatch int int
  | NoSideChain
  | ConnectFailed hash
  | OutOfFuel

type_synonym ('n, 's, 'd, 'f) sd_result = "(('n, 's, 'd, 'f) StakeDatabase \<times> sd_error option) option"

definition Height :: "('n, 's, 'd, 'f) stake_env \<Rightarrow> ('n, 's, 'd, 'f) StakeDatabase \<Rightarrow> int" where
  "Height env db = node_Height env (BestNode db)"

section \<open>Blocks\<close>

definition BlockCached :: "int \<Rightarrow> ('n, 's, 'd, 'f) StakeDatabase \<Rightarrow> dcr_block option" where
  "BlockCached ind db = sd_blockCache db ind"

definition getBlockByHeight :: "node_client \<Rightarrow> int \<Rightarrow> dcr_block option" where
  "getBlockByHeight rpc height =
     (case GetBlockHash rpc height of None \<Rightarrow> None | Some blockhash \<Rightarrow> GetBlock rpc blockhash)"

text \<open>The block, nil when the client fails, and whether it was cached.\<close>

definition sd_block :: "node_client \<Rightarrow> int \<Rightarrow> ('n, 's, 'd, 'f) StakeDatabase \<Rightarrow> dcr_block option \<times> bool" where
  "sd_block rpc ind db =
     (case BlockCached ind db of
        Some b \<Rightarrow> (Some b, True)
      | None \<Rightarrow> (getBlockByHeight rpc ind, False))"

definition ForgetBlock :: "int \<Rightarrow> ('n, 's, 'd, 'f) StakeDatabase \<Rightarrow> ('n, 's, 'd, 'f) StakeDatabase" where
  "ForgetBlock ind db = db\<lparr>sd_blockCache := (sd_blockCache db)(ind := None)\<rparr>"

text \<open>The best block as the stake database has it: 32 bytes of hash and a little-endian height.\<close>

definition dbState :: "('n, 's, 'd, 'f) stake_env \<Rightarrow> 's \<Rightarrow> (sd_error + nat \<times> hash) option" where
  "dbState env s =
     (case chainstate env s of
        None \<Rightarrow> Some (Inl MissingChainState)
      | Some v \<Rightarrow>
          if length v < HashSize + 4 then None
          else Some (Inr (be_decode (rev (take 4 (drop HashSize v))), take HashSize v)))"

definition DBTipBlockHeader ::
  "('n, 's, 'd, 'f) stake_env \<Rightarrow> node_client \<Rightarrow> 's \<Rightarrow> (sd_error + block_header) option" where
  "DBTipBlockHeader env rpc s =
     map_option (\<lambda>r. case r of
         Inl e \<Rightarrow> Inl e
       | Inr (h, tipHash) \<Rightarrow> (case GetBlockHeader rpc tipHash of None \<Rightarrow> Inl RpcError | Some hdr \<Rightarrow> Inr hdr))
       (dbState env s)"

definition dbPrevBlock :: "('n, 's, 'd, 'f) stake_env \<Rightarrow> node_client \<Rightarrow> 's \<Rightarrow> (sd_error + dcr_block) option" where
  "dbPrevBlock env rpc s =
     map_option (\<lambda>r. case r of
         Inl e \<Rightarrow> Inl e
       | Inr parentHeader \<Rightarrow>
           (case GetBlock rpc (hdr_PrevBlock parentHeader) of None \<Rightarrow> Inl RpcError | Some b \<Rightarrow> Inr b))
       (DBTipBlockHeader env rpc s)"

section \<open>The live ticket cache\<close>

text \<open>Adding tickets: a ticket that is already there is skipped, and so is one whose transaction the client does
  not return when no values are given.\<close>

fun add_tickets ::
  "node_client \<Rightarrow> int list option \<Rightarrow> nat \<Rightarrow> hash list \<Rightarrow> (hash \<rightharpoonup> int) \<times> int \<Rightarrow> ((hash \<rightharpoonup> int) \<times> int) option" where
  "add_tickets rpc inVals i [] cv = Some cv"
| "add_tickets rpc inVals i (h # hs) cv =
     (case cv of (c, v) \<Rightarrow>
        if c h \<noteq> None then add_tickets rpc inVals (i + 1) hs (c, v)
        else
          case inVals of
            None \<Rightarrow>
              (case GetRawTransaction rpc h of
                 None \<Rightarrow> add_tickets rpc inVals (i + 1) hs (c, v)
               | Some tx \<Rightarrow>
                   if txOut tx = [] then None
                   else let val = txo_Value (txOut tx ! 0)
                        in add_tickets rpc inVals (i + 1) hs (c(h \<mapsto> val), wrap64 (v + val)))
          | Some vals \<Rightarrow>
              if i < length vals
              then add_tickets rpc inVals (i + 1) hs (c(h \<mapsto> vals ! i), wrap64 (v + vals ! i))
              else None)"

fun remove_tickets :: "hash list \<Rightarrow> (hash \<rightharpoonup> int) \<times> int \<Rightarrow> (hash \<rightharpoonup> int) \<times> int" where
  "remove_tickets [] cv = cv"
| "remove_tickets (h # hs) cv =
     (case cv of (c, v) \<Rightarrow>
        (case c h of
           None \<Rightarrow> remove_tickets hs (c, v)
         | Some valOut \<Rightarrow> remove_tickets hs (c(h := None), wrap64 (v - valOut))))"

definition sd_applyDiff ::
  "node_client \<Rightarrow> PoolDiff \<Rightarrow> int list option \<Rightarrow> ('n, 's, 'd, 'f) StakeDatabase
     \<Rightarrow> ('n, 's, 'd, 'f) StakeDatabase option" where
  "sd_applyDiff rpc poolDiff inVals db =
     map_option (\<lambda>cv. let (c, v) = remove_tickets (Out poolDiff) cv
                      in db\<lparr>liveTicketCache := c, poolValue := v\<rparr>)
       (add_tickets rpc inVals 0 (In poolDiff) (liveTicketCache db, poolValue db))"

definition undoDiff ::
  "node_client \<Rightarrow> PoolDiff \<Rightarrow> ('n, 's, 'd, 'f) StakeDatabase \<Rightarrow> ('n, 's, 'd, 'f) StakeDatabase option" where
  "undoDiff rpc poolDiff db = sd_applyDiff rpc \<lparr>In = Out poolDiff, Out = In poolDiff\<rparr> None db"

fun undo_all ::
  "node_client \<Rightarrow> PoolDiff list \<Rightarrow> ('n, 's, 'd, 'f) StakeDatabase \<Rightarrow> ('n, 's, 'd, 'f) StakeDatabase option" where
  "undo_all rpc [] db = Some db"
| "undo_all rpc (d # ds) db = (case undoDiff rpc d db of None \<Rightarrow> None | Some db1 \<Rightarrow> undo_all rpc ds db1)"

text \<open>The receive loop of \<open>PopulateLiveTicketCache\<close>; the flag is the error of the last failed request.\<close>

fun populate ::
  "('n, 's, 'd, 'f) stake_env \<Rightarrow> node_client \<Rightarrow> hash list \<Rightarrow> (hash \<rightharpoonup> int) \<times> int \<Rightarrow> bool
     \<Rightarrow> (((hash \<rightharpoonup> int) \<times> int) \<times> bool) option" where
  "populate env rpc [] cv failed = Some (cv, failed)"
| "populate env rpc (ticket # ts) cv failed =
     (case GetRawTransaction rpc ticket of
        None \<Rightarrow> populate env rpc ts cv True
      | Some tx \<Rightarrow>
          if txHash env tx \<noteq> ticket \<or> txOut tx = [] then None
          else
            let val = txo_Value (txOut tx ! 0)
            in populate env rpc ts ((fst cv)(ticket \<mapsto> val), wrap64 (snd cv + val)) failed)"

definition PopulateLiveTicketCache ::
  "('n, 's, 'd, 'f) stake_env \<Rightarrow> node_client \<Rightarrow> ('n, 's, 'd, 'f) StakeDatabase \<Rightarrow> ('n, 's, 'd, 'f) sd_result" where
  "PopulateLiveTicketCache env rpc db =
     map_option (\<lambda>((c, v), failed).
         (db\<lparr>liveTicketCache := c, poolValue := v\<rparr>, if failed then Some RpcError else None))
       (populate env rpc (node_LiveTickets env (BestNode db)) (Map.empty, 0) False)"

section \<open>Pool infos\<close>

definition makePoolInfo ::
  "('n, 's, 'd, 'f) stake_env \<Rightarrow> int \<Rightarrow> int \<Rightarrow> hash list \<Rightarrow> int \<Rightarrow> 'f TicketPoolInfo" where
  "makePoolInfo env pValue poolSize winningTickets height =
     (let poolCoin = ToCoin env pValue;
          valAvg = (if poolSize > 0 then coin_div env poolCoin poolSize else coin_zero env)
      in \<lparr>tpi_Height = height, tpi_Size = poolSize mod 2 ^ 32, tpi_Value = poolCoin, tpi_ValAvg = valAvg,
          tpi_Winners = map (hash_String env) winningTickets\<rparr>)"

definition PoolInfoBest ::
  "('n, 's, 'd, 'f) stake_env \<Rightarrow> ('n, 's, 'd, 'f) StakeDatabase \<Rightarrow> 'f TicketPoolInfo" where
  "PoolInfoBest env db =
     makePoolInfo env (poolValue db) (node_PoolSize env (BestNode db)) (node_Winners env (BestNode db))
       (node_Height env (BestNode db))"

definition sd_PoolInfo :: "hash \<Rightarrow> ('n, 's, 'd, 'f) StakeDatabase \<Rightarrow> 'f TicketPoolInfo option" where
  "sd_PoolInfo h db = PoolInfo_Get h (sd_poolInfo db)"

definition sd_PoolSize :: "('n, 's, 'd, 'f) stake_env \<Rightarrow> ('n, 's, 'd, 'f) StakeDatabase \<Rightarrow> int" where
  "sd_PoolSize env db = node_PoolSize env (BestNode db)"

definition SetPoolInfo ::
  "hash \<Rightarrow> 'f TicketPoolInfo \<Rightarrow> ('n, 's, 'd, 'f) StakeDatabase \<Rightarrow> ('n, 's, 'd, 'f) StakeDatabase option" where
  "SetPoolInfo blockHash tpi db =
     map_option (\<lambda>pic. db\<lparr>sd_poolInfo := pic\<rparr>) (PoolInfo_Set blockHash tpi (sd_poolInfo db))"

definition SetPoolCacheCapacity ::
  "int \<Rightarrow> ('n, 's, 'd, 'f) StakeDatabase \<Rightarrow> (('n, 's, 'd, 'f) StakeDatabase \<times> bool) option" where
  "SetPoolCacheCapacity c db =
     map_option (\<lambda>(pic, err). (db\<lparr>sd_poolInfo := pic\<rparr>, err)) (SetCapacity c (sd_poolInfo db))"

definition PoolAtHeight ::
  "int \<Rightarrow> ('n, 's, 'd, 'f) StakeDatabase \<Rightarrow> ('n, 's, 'd, 'f) StakeDatabase \<times> (tp_error + hash set)" where
  "PoolAtHeight height db = (let (tp, r) = Pool height (PoolDB db) in (db\<lparr>PoolDB := tp\<rparr>, r))"

definition PoolAtHash ::
  "node_client \<Rightarrow> hash \<Rightarrow> ('n, 's, 'd, 'f) StakeDatabase
     \<Rightarrow> ('n, 's, 'd, 'f) StakeDatabase \<times> (sd_error + hash set)" where
  "PoolAtHash rpc h db =
     (case GetBlockHeader rpc h of
        None \<Rightarrow> (db, Inl RpcError)
      | Some header \<Rightarrow>
          (case Pool (hdr_Height header) (PoolDB db) of
             (tp, Inl e) \<Rightarrow> (db\<lparr>PoolDB := tp\<rparr>, Inl (PoolError e))
           | (tp, Inr p) \<Rightarrow> (db\<lparr>PoolDB := tp\<rparr>, Inr p)))"

section \<open>Connecting a block\<close>

definition connectBlock ::
  "('n, 's, 'd, 'f) stake_env \<Rightarrow> dcr_block \<Rightarrow> hash list \<Rightarrow> hash list \<Rightarrow> hash list
     \<Rightarrow> ('n, 's, 'd, 'f) StakeDatabase \<Rightarrow> ('n, 's, 'd, 'f) StakeDatabase \<times> sd_error option" where
  "connectBlock env blk spent revoked maturing db =
     (case blk_HeaderBytes blk of
        None \<Rightarrow> (db, Some HeaderError)
      | Some hB \<Rightarrow>
          (case ConnectNode env (BestNode db) (CalcHash256PRNGIV env hB) spent revoked maturing of
             Inl e \<Rightarrow> (db, Some (NodeError e))
           | Inr None \<Rightarrow> (db, Some NilNode)
           | Inr (Some bestNode) \<Rightarrow>
               let db1 = db\<lparr>BestNode := bestNode\<rparr>
               in case WriteConnectedBestNode env bestNode (blk_Hash blk) (stakeDB db1) of
                    Inl e \<Rightarrow> (db1, Some (WriteError e))
                  | Inr s \<Rightarrow> (db1\<lparr>stakeDB := s\<rparr>, None)))"

text \<open>The tickets that mature with a block, with their values; a nil block and a ticket without outputs panic.\<close>

definition maturing_tickets ::
  "('n, 's, 'd, 'f) stake_env \<Rightarrow> node_client \<Rightarrow> int \<Rightarrow> ('n, 's, 'd, 'f) StakeDatabase
     \<Rightarrow> (('n, 's, 'd, 'f) StakeDatabase \<times> hash list \<times> int list option) option" where
  "maturing_tickets env rpc maturingHeight db =
     (if maturingHeight \<ge> 0 then
        case sd_block rpc maturingHeight db of
          (None, wasCached) \<Rightarrow> None
        | (Some maturingBlock, wasCached) \<Rightarrow>
            let db1 = (if wasCached then ForgetBlock maturingHeight db else db);
                (tickets, msgTxs) = TicketsInBlock (isSStx env) (txHash env) (blk_STransactions maturingBlock)
            in if list_all (\<lambda>tx. txOut tx \<noteq> []) msgTxs
               then Some (db1, tickets, Some (map (\<lambda>tx. txo_Value (txOut tx ! 0)) msgTxs))
               else None
      else Some (db, [], None))"

text \<open>What follows a successful \<open>connectBlock\<close>.\<close>

definition finishConnect ::
  "('n, 's, 'd, 'f) stake_env \<Rightarrow> node_client \<Rightarrow> dcr_block \<Rightarrow> int \<Rightarrow> PoolDiff \<Rightarrow> int list option
     \<Rightarrow> ('n, 's, 'd, 'f) StakeDatabase \<Rightarrow> ('n, 's, 'd, 'f) sd_result" where
  "finishConnect env rpc blk bestNodeHeight poolDiff vals db = do {
     db1 \<leftarrow> sd_applyDiff rpc poolDiff vals db;
     let pib = makePoolInfo env (poolValue db1) (node_PoolSize env (BestNode db1)) (node_Winners env (BestNode db1))
                 (blk_Height blk mod 2 ^ 32);
     db2 \<leftarrow> SetPoolInfo (blk_Hash blk) pib db1;
     let (tp, err) = Append (dbSet env) poolDiff (bestNodeHeight + 1) (PoolDB db2);
     Some (db2\<lparr>PoolDB := tp, signals := signals db2 @ [(blk_Height blk, blk_Hash blk)]\<rparr>, map_option PoolError err)
   }"

definition ConnectBlock ::
  "('n, 's, 'd, 'f) stake_env \<Rightarrow> node_client \<Rightarrow> dcr_block \<Rightarrow> ('n, 's, 'd, 'f) StakeDatabase
     \<Rightarrow> ('n, 's, 'd, 'f) sd_result" where
  "ConnectBlock env rpc blk db = do {
     let height = blk_Height blk;
     (db1, maturingTickets, vals) \<leftarrow> maturing_tickets env rpc (height - TicketMaturity env) db;
     let db2 = db1\<lparr>sd_blockCache := (sd_blockCache db1)(height \<mapsto> blk)\<rparr>;
     revokedTickets \<leftarrow> RevokedTicketsInBlock (isSSRtx env) (blk_STransactions blk);
     votedTickets \<leftarrow> TicketsSpentInBlock (isSSGen env) (blk_STransactions blk);
     let bestNodeHeight = node_Height env (BestNode db2);
     if height \<le> bestNodeHeight then Some (db2, Some (CannotConnect height bestNodeHeight))
     else
       let winners = node_Winners env (BestNode db2)
       in case connectBlock env blk votedTickets revokedTickets maturingTickets db2 of
            (db3, Some err) \<Rightarrow> Some (db3, Some err)
          | (db3, None) \<Rightarrow>
              finishConnect env rpc blk bestNodeHeight
                \<lparr>In = maturingTickets, Out = winners @ node_ExpiredByBlock env (BestNode db3)\<rparr> vals db3
   }"

definition ConnectBlockHash ::
  "('n, 's, 'd, 'f) stake_env \<Rightarrow> node_client \<Rightarrow> hash \<Rightarrow> ('n, 's, 'd, 'f) StakeDatabase
     \<Rightarrow> (('n, 's, 'd, 'f) StakeDatabase \<times> dcr_block option \<times> sd_error option) option" where
  "ConnectBlockHash env rpc h db =
     (case GetBlock rpc h of
        None \<Rightarrow> Some (db, None, Some RpcError)
      | Some blk \<Rightarrow> map_option (\<lambda>(db1, err). (db1, Some blk, err)) (ConnectBlock env rpc blk db))"

section \<open>Disconnecting blocks\<close>

text \<open>The trim loop: it ends because the code panics when the tip does not fall.\<close>

function trim_loop :: "int \<Rightarrow> int \<Rightarrow> 'd TicketPool \<Rightarrow> ('d TicketPool \<times> PoolDiff list) option" where
  "trim_loop parentHeight poolDBTip tp =
     (if poolDBTip > parentHeight then
        (case Trim tp of
           (tp1, Inl e) \<Rightarrow> None
         | (tp1, Inr (newTip, undo)) \<Rightarrow>
             if newTip \<ge> poolDBTip then None
             else map_option (\<lambda>(tp2, undos). (tp2, undo # undos)) (trim_loop parentHeight newTip tp1))
      else Some (tp, []))"
  by pat_completeness auto
termination by (relation "measure (\<lambda>(p, t, tp). nat (t - p))") auto

declare trim_loop.simps [simp del]

definition disconnectBlock ::
  "('n, 's, 'd, 'f) stake_env \<Rightarrow> node_client \<Rightarrow> bool \<Rightarrow> ('n, 's, 'd, 'f) StakeDatabase \<Rightarrow> ('n, 's, 'd, 'f) sd_result" where
  "disconnectBlock env rpc neglectCache db = do {
     let childHeight = node_Height env (BestNode db);
     prev \<leftarrow> dbPrevBlock env rpc (stakeDB db);
     case prev of
       Inl err \<Rightarrow> Some (db, Some err)
     | Inr parentBlock \<Rightarrow>
         if blk_Height parentBlock \<noteq> childHeight - 1 then None
         else do {
           (tp, undoDiffs) \<leftarrow> trim_loop (blk_Height parentBlock) (tip (PoolDB db)) (PoolDB db);
           let db1 = db\<lparr>PoolDB := tp\<rparr>;
           db2 \<leftarrow> (if neglectCache then Some db1 else undo_all rpc undoDiffs db1);
           Some (case blk_HeaderBytes parentBlock of
               None \<Rightarrow> (db2, Some HeaderError)
             | Some hB \<Rightarrow>
                 (case DisconnectNode env (BestNode db2) (CalcHash256PRNGIV env hB) (stakeDB db2) of
                    Inl e \<Rightarrow> (db2, Some (NodeError e))
                  | Inr None \<Rightarrow> (db2, Some NilNode)
                  | Inr (Some parentStakeNode) \<Rightarrow>
                      let db3 = db2\<lparr>BestNode := parentStakeNode\<rparr>
                      in case WriteDisconnectedBestNode env parentStakeNode (blk_Hash parentBlock) (BestNode db2) (stakeDB db3) of
                           Inl e \<Rightarrow> (db3, Some (WriteError e))
                         | Inr s \<Rightarrow> (db3\<lparr>stakeDB := s\<rparr>, None)))
         }
   }"

fun disconnect_loop ::
  "('n, 's, 'd, 'f) stake_env \<Rightarrow> node_client \<Rightarrow> nat \<Rightarrow> ('n, 's, 'd, 'f) StakeDatabase \<Rightarrow> ('n, 's, 'd, 'f) sd_result" where
  "disconnect_loop env rpc 0 db = Some (db, None)"
| "disconnect_loop env rpc (Suc n) db =
     (case disconnectBlock env rpc False db of
        None \<Rightarrow> None
      | Some (db1, Some err) \<Rightarrow> Some (db1, Some err)
      | Some (db1, None) \<Rightarrow> disconnect_loop env rpc n db1)"

definition DisconnectBlocks ::
  "('n, 's, 'd, 'f) stake_env \<Rightarrow> node_client \<Rightarrow> int \<Rightarrow> ('n, 's, 'd, 'f) StakeDatabase \<Rightarrow> ('n, 's, 'd, 'f) sd_result" where
  "DisconnectBlocks env rpc n db = disconnect_loop env rpc (nat n) db"

text \<open>The loop of \<open>Rewind\<close>, with fuel for its turns.\<close>

fun rewind_loop ::
  "('n, 's, 'd, 'f) stake_env \<Rightarrow> node_client \<Rightarrow> int \<Rightarrow> bool \<Rightarrow> nat \<Rightarrow> ('n, 's, 'd, 'f) StakeDatabase
     \<Rightarrow> ('n, 's, 'd, 'f) sd_result" where
  "rewind_loop env rpc to0 neglectCache 0 db =
     (if to0 < Height env db then Some (db, Some OutOfFuel) else Some (db, None))"
| "rewind_loop env rpc to0 neglectCache (Suc fuel) db =
     (if to0 < Height env db then
        (case disconnectBlock env rpc neglectCache db of
           None \<Rightarrow> None
         | Some (db1, Some err) \<Rightarrow> Some (db1, Some err)
         | Some (db1, None) \<Rightarrow>
             if tip (PoolDB db1) \<noteq> Height env db1
             then Some (db1, Some (HeightMismatch (Height env db1) (tip (PoolDB db1))))
             else rewind_loop env rpc to0 neglectCache fuel db1)
      else Some (db, None))"

definition Rewind ::
  "('n, 's, 'd, 'f) stake_env \<Rightarrow> node_client \<Rightarrow> int \<Rightarrow> bool \<Rightarrow> ('n, 's, 'd, 'f) StakeDatabase
     \<Rightarrow> ('n, 's, 'd, 'f) sd_result" where
  "Rewind env rpc to0 neglectCache db =
     rewind_loop env rpc to0 neglectCache (nat (Height env db - to0)) db"

end
