(* ===== verification/StakeCache.thy ===== *)
theory StakeCache
  imports StakeDB
begin

text \<open>
  The live ticket cache of the stake database: its value is always the sum of the cached tickets, and
  the set of cached tickets changes as the ticket pool does.
\<close>

section \<open>The value of the cached tickets\<close>

definition ticket_sum :: "(hash \<rightharpoonup> int) \<Rightarrow> int" where
  "ticket_sum c = (\<Sum>h\<in>dom c. the (c h))"

lemma ticket_sum_empty [simp]: "ticket_sum Map.empty = 0"
  by (simp add: ticket_sum_def)

lemma ticket_sum_add: "finite (dom c) \<Longrightarrow> c h = None \<Longrightarrow> ticket_sum (c(h \<mapsto> v)) = ticket_sum c + v"
proof -
  assume c: "finite (dom c)" "c h = None"
  then have "h \<notin> dom c" by auto
  moreover have "(\<Sum>x\<in>dom c. the ((c(h \<mapsto> v)) x)) = ticket_sum c"
    unfolding ticket_sum_def by (rule sum.cong) (use c in auto)
  ultimately show ?thesis using c by (simp add: ticket_sum_def)
qed

lemma ticket_sum_remove: "finite (dom c) \<Longrightarrow> c h = Some v \<Longrightarrow> ticket_sum (c(h := None)) = ticket_sum c - v"
  using ticket_sum_add [of "c(h := None)" h v] map_upd_triv [of c h v] by simp

definition cv_ok :: "(hash \<rightharpoonup> int) \<times> int \<Rightarrow> bool" where
  "cv_ok cv \<longleftrightarrow> finite (dom (fst cv)) \<and> snd cv = wrap64 (ticket_sum (fst cv))"

lemma cv_ok_add: "cv_ok (c, v) \<Longrightarrow> c h = None \<Longrightarrow> cv_ok (c(h \<mapsto> x), wrap64 (v + x))"
  by (simp add: cv_ok_def ticket_sum_add)

lemma cv_ok_remove: "cv_ok (c, v) \<Longrightarrow> c h = Some x \<Longrightarrow> cv_ok (c(h := None), wrap64 (v - x))"
  by (simp add: cv_ok_def ticket_sum_remove)

lemma add_tickets_ok: "add_tickets rpc vals i hs cv = Some cv' \<Longrightarrow> cv_ok cv \<Longrightarrow> cv_ok cv'"
proof (induction hs arbitrary: i cv)
  case Nil
  then show ?case by simp
next
  case (Cons h hs)
  obtain c v where cv: "cv = (c, v)" by fastforce
  show ?case
    using Cons.prems Cons.IH cv_ok_add [of c v h]
    by (auto simp: cv Let_def split: if_splits option.splits)
qed

lemma remove_tickets_ok: "cv_ok cv \<Longrightarrow> cv_ok (remove_tickets hs cv)"
proof (induction hs arbitrary: cv)
  case Nil
  then show ?case by simp
next
  case (Cons h hs)
  obtain c v where cv: "cv = (c, v)" by fastforce
  show ?case
    using Cons cv_ok_remove [of c v h] by (auto simp: cv split: option.split)
qed

lemma populate_ok:
  assumes "populate env rpc ts cv failed = Some (cv', failed')" and "cv_ok cv" and "distinct ts"
    and "set ts \<inter> dom (fst cv) = {}"
  shows "cv_ok cv'"
  using assms
proof (induction ts arbitrary: cv failed)
  case Nil
  then show ?case by simp
next
  case (Cons t ts)
  obtain c v where cv: "cv = (c, v)" by fastforce
  have new: "c t = None" using Cons.prems(4) by (auto simp: cv)
  show ?case
  proof (cases "GetRawTransaction rpc t")
    case None
    then show ?thesis using Cons by (auto simp: cv)
  next
    case (Some tx)
    let ?val = "txo_Value (txOut tx ! 0)"
    have "populate env rpc ts (c(t \<mapsto> ?val), wrap64 (v + ?val)) failed = Some (cv', failed')"
      using Cons.prems(1) Some by (simp add: cv Let_def split: if_splits)
    then show ?thesis
      by (rule Cons.IH) (use Cons.prems(2-4) cv_ok_add [of c v t ?val] new in \<open>auto simp: cv split: if_splits\<close>)
  qed
qed

section \<open>The set of cached tickets\<close>

lemma add_tickets_dom_vals:
  assumes "length vals = i + length hs"
  shows "\<exists>c' v'. add_tickets rpc (Some vals) i hs (c, v) = Some (c', v') \<and> dom c' = dom c \<union> set hs"
  using assms
proof (induction hs arbitrary: i c v)
  case Nil
  then show ?case by simp
next
  case (Cons h hs)
  then have i: "i < length vals" and len: "length vals = (i + 1) + length hs" by simp_all
  show ?case
  proof (cases "c h")
    case None
    obtain c' v' where "add_tickets rpc (Some vals) (i + 1) hs (c(h \<mapsto> vals ! i), wrap64 (v + vals ! i)) = Some (c', v')"
      "dom c' = dom (c(h \<mapsto> vals ! i)) \<union> set hs" using Cons.IH [OF len] by blast
    then show ?thesis using None i by simp
  next
    case (Some y)
    obtain c' v' where "add_tickets rpc (Some vals) (i + 1) hs (c, v) = Some (c', v')" "dom c' = dom c \<union> set hs"
      using Cons.IH [OF len] by blast
    then show ?thesis using Some by (simp add: insert_absorb domI)
  qed
qed

lemma remove_tickets_eq: "fst (remove_tickets hs cv) = (\<lambda>h. if h \<in> set hs then None else fst cv h)"
proof (induction hs arbitrary: cv)
  case Nil
  then show ?case by simp
next
  case (Cons h hs)
  obtain c v where cv: "cv = (c, v)" by fastforce
  show ?case by (cases "c h") (auto simp: cv Cons.IH)
qed

lemma remove_tickets_dom: "dom (fst (remove_tickets hs cv)) = dom (fst cv) - set hs"
  by (auto simp: remove_tickets_eq split: if_splits)

text \<open>The client knows the transactions of a set of tickets.\<close>

definition rpc_knows :: "node_client \<Rightarrow> hash set \<Rightarrow> bool" where
  "rpc_knows rpc T \<longleftrightarrow> (\<forall>h\<in>T. \<exists>tx. GetRawTransaction rpc h = Some tx \<and> txOut tx \<noteq> [])"

definition rpc_value :: "node_client \<Rightarrow> hash \<Rightarrow> int" where
  "rpc_value rpc h = (case GetRawTransaction rpc h of None \<Rightarrow> 0 | Some tx \<Rightarrow> txo_Value (txOut tx ! 0))"

definition filled :: "node_client \<Rightarrow> hash list \<Rightarrow> (hash \<rightharpoonup> int) \<Rightarrow> (hash \<rightharpoonup> int)" where
  "filled rpc hs c = (\<lambda>h. if h \<in> set hs \<and> c h = None then Some (rpc_value rpc h) else c h)"

lemma dom_filled: "dom (filled rpc hs c) = dom c \<union> set hs"
  by (auto simp: filled_def dom_def)

lemma filled_Cons:
  "c h = None \<Longrightarrow> filled rpc hs (c(h \<mapsto> rpc_value rpc h)) = filled rpc (h # hs) c"
  "c h \<noteq> None \<Longrightarrow> filled rpc hs c = filled rpc (h # hs) c"
  by (intro ext, simp add: filled_def) (intro ext, auto simp: filled_def)

lemma add_tickets_rpc:
  assumes "rpc_knows rpc (set hs)"
  shows "\<exists>v'. add_tickets rpc None i hs (c, v) = Some (filled rpc hs c, v')"
  using assms
proof (induction hs arbitrary: i c v)
  case Nil
  then show ?case by (simp add: filled_def)
next
  case (Cons h hs)
  from Cons.prems obtain tx where tx: "GetRawTransaction rpc h = Some tx" "txOut tx \<noteq> []"
    and knows: "rpc_knows rpc (set hs)" by (auto simp: rpc_knows_def)
  show ?case
  proof (cases "c h")
    case None
    have "txo_Value (txOut tx ! 0) = rpc_value rpc h" using tx by (simp add: rpc_value_def)
    then have "add_tickets rpc None i (h # hs) (c, v)
      = add_tickets rpc None (i + 1) hs (c(h \<mapsto> rpc_value rpc h), wrap64 (v + rpc_value rpc h))"
      using None tx by (simp add: Let_def)
    then show ?thesis using filled_Cons(1) [of c h rpc hs] None by (metis Cons.IH [OF knows])
  next
    case (Some y)
    then show ?thesis using Cons.IH [OF knows, of "i + 1" c v] filled_Cons(2) [of c h rpc hs] by simp
  qed
qed

end
