(* ===== verification/StakeSync.thy ===== *)
theory StakeSync
  imports StakeCache
begin

text \<open>
  The stake database and the ticket pool stay together: after every successful operation the tip of
  the diff log is the height of the best node and the live ticket cache holds only tickets of the pool at the
  tip, all of them as long as the client knows the transactions of the tickets; the pool value is the sum of the cache.
\<close>

section \<open>What an operation leaves\<close>

definition value_ok :: "('n, 's, 'd, 'f) StakeDatabase \<Rightarrow> bool" where
  "value_ok db \<longleftrightarrow> cv_ok (liveTicketCache db, poolValue db)"

lemma sd_applyDiff_cases:
  assumes "sd_applyDiff rpc d vals db = Some db'"
  obtains cv where "add_tickets rpc vals 0 (In d) (liveTicketCache db, poolValue db) = Some cv"
    and "db' = db\<lparr>liveTicketCache := fst (remove_tickets (Out d) cv), poolValue := snd (remove_tickets (Out d) cv)\<rparr>"
  using assms by (auto simp: sd_applyDiff_def Let_def case_prod_beta)

lemma sd_applyDiff_ok:
  assumes "sd_applyDiff rpc d vals db = Some db'" and "value_ok db"
  shows "value_ok db'"
proof -
  obtain cv where cv: "add_tickets rpc vals 0 (In d) (liveTicketCache db, poolValue db) = Some cv"
    "db' = db\<lparr>liveTicketCache := fst (remove_tickets (Out d) cv), poolValue := snd (remove_tickets (Out d) cv)\<rparr>"
    using assms(1) by (rule sd_applyDiff_cases)
  have "cv_ok (remove_tickets (Out d) cv)"
    using add_tickets_ok [OF cv(1)] assms(2) remove_tickets_ok by (simp add: value_ok_def)
  then show ?thesis by (simp add: value_ok_def cv(2))
qed

lemma sd_applyDiff_frame:
  assumes "sd_applyDiff rpc d vals db = Some db'"
  shows "BestNode db' = BestNode db" "stakeDB db' = stakeDB db" "PoolDB db' = PoolDB db"
    "sd_blockCache db' = sd_blockCache db" "sd_poolInfo db' = sd_poolInfo db"
    "heightWaiters db' = heightWaiters db" "waitChans db' = waitChans db" "nextChan db' = nextChan db"
    "signals db' = signals db"
  using assms by (auto elim!: sd_applyDiff_cases)

lemma undoDiff_ok: "undoDiff rpc d db = Some db' \<Longrightarrow> value_ok db \<Longrightarrow> value_ok db'"
  unfolding undoDiff_def by (rule sd_applyDiff_ok)

lemma undo_all_ok: "undo_all rpc ds db = Some db' \<Longrightarrow> value_ok db \<Longrightarrow> value_ok db'"
  by (induction ds arbitrary: db) (auto split: option.splits dest: undoDiff_ok)

lemma undo_all_frame:
  assumes "undo_all rpc ds db = Some db'"
  shows "BestNode db' = BestNode db \<and> stakeDB db' = stakeDB db \<and> PoolDB db' = PoolDB db"
  using assms
  by (induction ds arbitrary: db) (auto simp: undoDiff_def split: option.splits dest: sd_applyDiff_frame)

lemma value_ok_frame [simp]:
  "value_ok (db\<lparr>BestNode := n\<rparr>) = value_ok db" "value_ok (db\<lparr>stakeDB := s\<rparr>) = value_ok db"
  "value_ok (db\<lparr>PoolDB := tp\<rparr>) = value_ok db" "value_ok (db\<lparr>sd_poolInfo := i\<rparr>) = value_ok db"
  "value_ok (db\<lparr>sd_blockCache := b\<rparr>) = value_ok db" "value_ok (db\<lparr>signals := g\<rparr>) = value_ok db"
  by (simp_all add: value_ok_def)

lemma connectBlock_frame:
  assumes "connectBlock env blk sp rv mt db = (db', err)"
  shows "liveTicketCache db' = liveTicketCache db" "poolValue db' = poolValue db" "PoolDB db' = PoolDB db"
    "sd_poolInfo db' = sd_poolInfo db" "sd_blockCache db' = sd_blockCache db" "signals db' = signals db"
    "heightWaiters db' = heightWaiters db" "waitChans db' = waitChans db" "nextChan db' = nextChan db"
  using assms by (auto simp: connectBlock_def Let_def split: option.splits sum.splits)

lemma connectBlock_success:
  "connectBlock env blk sp rv mt db = (db', None)
     \<Longrightarrow> \<exists>iv. ConnectNode env (BestNode db) iv sp rv mt = Inr (Some (BestNode db'))"
  by (auto simp: connectBlock_def Let_def split: option.splits sum.splits)

text \<open>One value for every ticket, or no tickets at all.\<close>

definition vals_fit :: "int list option \<Rightarrow> hash list \<Rightarrow> bool" where
  "vals_fit vals ts \<longleftrightarrow> (case vals of None \<Rightarrow> ts = [] | Some vs \<Rightarrow> length vs = length ts)"

lemma maturing_tickets_frame:
  assumes "maturing_tickets env rpc mh db = Some (db', tickets, vals)"
  shows "\<exists>b. db' = db\<lparr>sd_blockCache := b\<rparr>"
    and "vals_fit vals tickets"
proof -
  show "\<exists>b. db' = db\<lparr>sd_blockCache := b\<rparr>"
  proof -
    have "db' = db \<or> db' = ForgetBlock mh db"
      using assms by (auto simp: maturing_tickets_def Let_def split: if_splits prod.splits option.splits)
    then show ?thesis
      using exI [of "\<lambda>b. db' = db\<lparr>sd_blockCache := b\<rparr>" "sd_blockCache db"] by (auto simp: ForgetBlock_def)
  qed
  show "vals_fit vals tickets"
    using assms
    by (auto simp: vals_fit_def maturing_tickets_def Let_def TicketsInBlock_eq split: if_splits prod.splits option.splits)
qed

section \<open>Connecting\<close>

lemma finishConnect_cases:
  assumes "finishConnect env rpc blk best d vals db = Some (db', err)"
  obtains db1 pic where "sd_applyDiff rpc d vals db = Some db1"
    and "db' = db1\<lparr>sd_poolInfo := pic, PoolDB := fst (Append (dbSet env) d (best + 1) (PoolDB db1)),
                   signals := signals db1 @ [(blk_Height blk, blk_Hash blk)]\<rparr>"
    and "err = map_option PoolError (snd (Append (dbSet env) d (best + 1) (PoolDB db1)))"
  using assms
  by (auto simp: finishConnect_def SetPoolInfo_def case_prod_beta Let_def split: bind_splits)

text \<open>Every way \<open>ConnectBlock\<close> can return.\<close>

lemma ConnectBlock_cases:
  assumes "ConnectBlock env rpc blk db = Some (db', err)"
  obtains (rejected) b where "db' = db\<lparr>sd_blockCache := b\<rparr>" "err = Some (CannotConnect (blk_Height blk) (Height env db))"
      "blk_Height blk \<le> Height env db" "b (blk_Height blk) = Some blk"
  | (failed) b e sp rv mt where "connectBlock env blk sp rv mt (db\<lparr>sd_blockCache := b\<rparr>) = (db', Some e)" "err = Some e"
  | (connected) b sp rv d vals db3 where "connectBlock env blk sp rv (In d) (db\<lparr>sd_blockCache := b\<rparr>) = (db3, None)"
      "finishConnect env rpc blk (Height env db) d vals db3 = Some (db', err)"
      "Out d = node_Winners env (BestNode db) @ node_ExpiredByBlock env (BestNode db3)"
      "vals_fit vals (In d)"
      "Height env db < blk_Height blk"
proof -
  from assms obtain db1 tickets vals where mat: "maturing_tickets env rpc (blk_Height blk - TicketMaturity env) db
      = Some (db1, tickets, vals)"
    by (auto simp: ConnectBlock_def Let_def split: bind_splits)
  from maturing_tickets_frame(1) [OF mat] obtain b where db1: "db1 = db\<lparr>sd_blockCache := b\<rparr>" by blast
  note vals = maturing_tickets_frame(2) [OF mat]
  let ?db2 = "db\<lparr>sd_blockCache := b(blk_Height blk \<mapsto> blk)\<rparr>"
  from assms mat obtain rv sp where tickets: "RevokedTicketsInBlock (isSSRtx env) (blk_STransactions blk) = Some rv"
    "TicketsSpentInBlock (isSSGen env) (blk_STransactions blk) = Some sp"
    by (auto simp: ConnectBlock_def Let_def split: bind_splits)
  note run = assms [unfolded ConnectBlock_def Let_def mat db1 tickets, simplified]
  show thesis
  proof (cases "blk_Height blk \<le> Height env db")
    case True
    then have "db' = ?db2" "err = Some (CannotConnect (blk_Height blk) (Height env db))"
      using run by (simp_all add: Height_def)
    with True show ?thesis by (intro rejected [of "b(blk_Height blk \<mapsto> blk)"]) simp_all
  next
    case False
    obtain db3 e where c: "connectBlock env blk sp rv tickets ?db2 = (db3, e)" by fastforce
    show ?thesis
    proof (cases e)
      case None
      let ?d = "\<lparr>In = tickets, Out = node_Winners env (BestNode db) @ node_ExpiredByBlock env (BestNode db3)\<rparr>"
      have "finishConnect env rpc blk (Height env db) ?d vals db3 = Some (db', err)"
        using run False c None by (simp add: Height_def)
      then show ?thesis by (intro connected [of sp rv ?d _ db3 vals]) (use False c None vals in simp_all)
    next
      case (Some x)
      then have "db' = db3" "err = Some x" using run False c by (simp_all add: Height_def)
      with c Some show ?thesis by (intro failed) simp_all
    qed
  qed
qed

lemma ConnectBlock_value_ok:
  assumes "ConnectBlock env rpc blk db = Some (db', err)" and "value_ok db"
  shows "value_ok db'"
  using assms(1)
proof (cases rule: ConnectBlock_cases)
  case (rejected b)
  then show ?thesis using assms(2) by simp
next
  case (failed b e sp rv mt)
  then show ?thesis using assms(2) connectBlock_frame(1,2) [OF failed(1)] by (simp add: value_ok_def)
next
  case (connected b sp rv d vals db3)
  have "value_ok db3" using assms(2) connectBlock_frame(1,2) [OF connected(1)] by (simp add: value_ok_def)
  with connected(2) show ?thesis
    by (elim finishConnect_cases) (auto simp: value_ok_def dest!: sd_applyDiff_ok)
qed

lemma Append_success:
  assumes "Append st d h tp = (tp', None)"
  shows "h = tip tp + 1" "diffs tp' = diffs tp @ [d]" "tip tp' = tip tp + 1" "cursor tp' = cursor tp" "pool tp' = pool tp"
  using assms
  by (cases rule: Append_locked_cases [of st d h tp]; auto simp: Append_def append_diff_def split: if_splits)+

text \<open>A connected block in full.\<close>

lemma ConnectBlock_success:
  assumes "ConnectBlock env rpc blk db = Some (db', None)"
  obtains d iv sp rv vals cv where "ConnectNode env (BestNode db) iv sp rv (In d) = Inr (Some (BestNode db'))"
    and "Out d = node_Winners env (BestNode db) @ node_ExpiredByBlock env (BestNode db')"
    and "Append (dbSet env) d (Height env db + 1) (PoolDB db) = (PoolDB db', None)"
    and "add_tickets rpc vals 0 (In d) (liveTicketCache db, poolValue db) = Some cv"
    and "liveTicketCache db' = fst (remove_tickets (Out d) cv)" and "poolValue db' = snd (remove_tickets (Out d) cv)"
    and "vals_fit vals (In d)"
    and "Height env db < blk_Height blk"
  using assms
proof (cases rule: ConnectBlock_cases)
  case (connected b sp rv d vals db3)
  note fr = connectBlock_frame [OF connected(1), simplified]
  obtain iv where node: "ConnectNode env (BestNode db) iv sp rv (In d) = Inr (Some (BestNode db3))"
    using connectBlock_success [OF connected(1)] by auto
  from connected(2) obtain db1 pic where f: "sd_applyDiff rpc d vals db3 = Some db1"
    "db' = db1\<lparr>sd_poolInfo := pic, PoolDB := fst (Append (dbSet env) d (Height env db + 1) (PoolDB db1)),
                   signals := signals db1 @ [(blk_Height blk, blk_Hash blk)]\<rparr>"
    "None = map_option PoolError (snd (Append (dbSet env) d (Height env db + 1) (PoolDB db1)))"
    by (rule finishConnect_cases)
  obtain cv where cv: "add_tickets rpc vals 0 (In d) (liveTicketCache db3, poolValue db3) = Some cv"
    "db1 = db3\<lparr>liveTicketCache := fst (remove_tickets (Out d) cv), poolValue := snd (remove_tickets (Out d) cv)\<rparr>"
    using f(1) by (rule sd_applyDiff_cases)
  have pool: "PoolDB db1 = PoolDB db" using cv(2) fr(3) by simp
  have node': "BestNode db' = BestNode db3" using f(2) cv(2) by simp
  have pool': "PoolDB db' = fst (Append (dbSet env) d (Height env db + 1) (PoolDB db))" using f(2) pool by simp
  have app: "Append (dbSet env) d (Height env db + 1) (PoolDB db) = (PoolDB db', None)"
    unfolding pool' using f(3) pool by (simp add: prod_eq_iff)
  show thesis
    by (rule that [of iv sp rv d vals cv])
      (use node node' connected(3,4,5) app cv f(2) fr(1,2) in simp_all)
qed auto

section \<open>Together with the ticket pool\<close>

text \<open>What the node's stake package documents: connecting raises the height of a node by one, disconnecting
  lowers it by one.\<close>

definition node_laws :: "('n, 's, 'd, 'f) stake_env \<Rightarrow> bool" where
  "node_laws env \<longleftrightarrow>
     (\<forall>n iv sp rv mt n'. ConnectNode env n iv sp rv mt = Inr (Some n') \<longrightarrow> node_Height env n' = node_Height env n + 1)
     \<and> (\<forall>n iv s n'. DisconnectNode env n iv s = Inr (Some n') \<longrightarrow> node_Height env n' = node_Height env n - 1)"

definition in_sync :: "('n, 's, 'd, 'f) stake_env \<Rightarrow> ('n, 's, 'd, 'f) StakeDatabase \<Rightarrow> bool" where
  "in_sync env db \<longleftrightarrow> tp_inv (PoolDB db) \<and> tip (PoolDB db) = Height env db"

abbreviation tip_pool :: "'d TicketPool \<Rightarrow> hash set" where
  "tip_pool tp \<equiv> pool_at (diffs tp) (length (diffs tp))"

definition agrees :: "('n, 's, 'd, 'f) StakeDatabase \<Rightarrow> bool" where
  "agrees db \<longleftrightarrow> dom (liveTicketCache db) = tip_pool (PoolDB db)"

lemma applied_dom:
  assumes "add_tickets rpc vals 0 (In d) (c, v) = Some cv" and "vals_fit vals (In d)"
  shows "dom (fst (remove_tickets (Out d) cv)) = diff_app d (dom c)"
proof (cases vals)
  case None
  then show ?thesis using assms by (auto simp: vals_fit_def remove_tickets_dom diff_app_def)
next
  case (Some vs)
  then obtain c' v' where "add_tickets rpc vals 0 (In d) (c, v) = Some (c', v')" "dom c' = dom c \<union> set (In d)"
    using add_tickets_dom_vals [of vs 0 "In d" rpc c v] assms(2) by (auto simp: vals_fit_def)
  then show ?thesis using assms(1) by (simp add: remove_tickets_dom diff_app_def)
qed

lemma ConnectBlock_pools:
  assumes "ConnectBlock env rpc blk db = Some (db', None)"
  shows "\<exists>d. tip_pool (PoolDB db') = diff_app d (tip_pool (PoolDB db))
    \<and> dom (liveTicketCache db') = diff_app d (dom (liveTicketCache db))"
proof -
  from assms(1) obtain d vals cv where "Append (dbSet env) d (Height env db + 1) (PoolDB db) = (PoolDB db', None)"
    and cv: "add_tickets rpc vals 0 (In d) (liveTicketCache db, poolValue db) = Some cv"
    "liveTicketCache db' = fst (remove_tickets (Out d) cv)" and vals: "vals_fit vals (In d)"
    by (rule ConnectBlock_success) blast
  then have "diffs (PoolDB db') = diffs (PoolDB db) @ [d]" by (intro Append_success(2))
  then have "tip_pool (PoolDB db') = diff_app d (tip_pool (PoolDB db))"
    by (simp add: replay_Suc replay_append)
  then show ?thesis using applied_dom [OF cv(1) vals] cv(2) by auto
qed

lemma ConnectBlock_agrees:
  assumes "ConnectBlock env rpc blk db = Some (db', None)" and "agrees db"
  shows "agrees db'"
  using ConnectBlock_pools [OF assms(1)] assms(2) by (auto simp: agrees_def)

text \<open>Without the hypothesis that the client knows the tickets of a diff, the cache stays within the pool.\<close>

definition within :: "('n, 's, 'd, 'f) StakeDatabase \<Rightarrow> bool" where
  "within db \<longleftrightarrow> dom (liveTicketCache db) \<subseteq> tip_pool (PoolDB db)"

lemma ConnectBlock_within:
  assumes "ConnectBlock env rpc blk db = Some (db', None)" and "within db"
  shows "within db'"
proof -
  obtain d where d: "tip_pool (PoolDB db') = diff_app d (tip_pool (PoolDB db))"
    "dom (liveTicketCache db') = diff_app d (dom (liveTicketCache db))" using ConnectBlock_pools [OF assms(1)] by blast
  show ?thesis using assms(2) unfolding within_def d diff_app_def by blast
qed

lemma ConnectBlock_in_sync:
  assumes "ConnectBlock env rpc blk db = Some (db', None)" and "node_laws env" and "tp_inv (PoolDB db)"
    and "diff_ok (last (diffs (PoolDB db'))) (tip_pool (PoolDB db))"
  shows "in_sync env db'" and "Height env db' = Height env db + 1" and "tip (PoolDB db) = Height env db"
proof -
  from assms(1) obtain d iv sp rv where node: "ConnectNode env (BestNode db) iv sp rv (In d) = Inr (Some (BestNode db'))"
    and app: "Append (dbSet env) d (Height env db + 1) (PoolDB db) = (PoolDB db', None)"
    by (rule ConnectBlock_success) blast
  note st = Append_success [OF app]
  show h: "Height env db' = Height env db + 1" using assms(2) node unfolding node_laws_def Height_def by blast
  show t: "tip (PoolDB db) = Height env db" using st(1) by simp
  have "tp_inv (fst (Append (dbSet env) d (Height env db + 1) (PoolDB db)))"
    using assms(3,4) st(2) by (intro Append_inv) simp_all
  then show "in_sync env db'" using app st(3) h t by (simp add: in_sync_def)
qed

section \<open>Disconnecting\<close>

lemma trim_loop_result:
  assumes "tp_inv tp" and "0 \<le> p"
  shows "\<exists>tp'. trim_loop p (tip tp) tp = Some (tp', rev (drop (nat p) (diffs tp))) \<and> tp_inv tp'
    \<and> diffs tp' = take (nat p) (diffs tp) \<and> tip tp' = min p (tip tp)"
  using assms
proof (induction "nat (tip tp - p)" arbitrary: tp rule: less_induct)
  case less
  have len: "tip tp = int (length (diffs tp))" using less.prems(1) by (simp add: tp_inv_def)
  show ?case
  proof (cases "tip tp > p")
    case False
    then have "trim_loop p (tip tp) tp = Some (tp, [])" by (subst trim_loop.simps) simp
    with False show ?thesis using less.prems len by (intro exI [of _ tp]) simp
  next
    case True
    then have pos: "0 < tip tp" using less.prems(2) by simp
    let ?tp1 = "fst (Trim tp)"
    have trim: "Trim tp = (?tp1, Inr (tip tp - 1, last (diffs tp)))" and tp1: "tip ?tp1 = tip tp - 1" "diffs ?tp1 = butlast (diffs tp)"
      using Trim_result [OF less.prems(1) pos] by simp_all
    have inv: "tp_inv ?tp1" using less.prems(1) by (rule Trim_inv)
    obtain tp' where ih: "trim_loop p (tip ?tp1) ?tp1 = Some (tp', rev (drop (nat p) (diffs ?tp1)))" "tp_inv tp'"
      "diffs tp' = take (nat p) (diffs ?tp1)" "tip tp' = min p (tip ?tp1)"
      using less.hyps [OF _ inv less.prems(2)] tp1(1) True by auto
    have "nat p < length (diffs tp)" using True len less.prems(2) by linarith
    then have "drop (nat p) (diffs tp) = drop (nat p) (butlast (diffs tp)) @ [last (diffs tp)]"
      "take (nat p) (butlast (diffs tp)) = take (nat p) (diffs tp)"
      using append_butlast_last_id [of "drop (nat p) (diffs tp)"] by (simp_all add: take_butlast butlast_drop)
    moreover have "trim_loop p (tip tp) tp = map_option (\<lambda>(tp2, undos). (tp2, last (diffs tp) # undos)) (trim_loop p (tip ?tp1) ?tp1)"
      unfolding tp1(1) using True by (subst trim_loop.simps, subst trim) simp
    ultimately show ?thesis using ih tp1 True by auto
  qed
qed

lemma undoDiff_cache:
  assumes "undoDiff rpc d db = Some db'" and "rpc_knows rpc (set (Out d))"
  shows "liveTicketCache db' = (\<lambda>h. if h \<in> set (In d) then None else filled rpc (Out d) (liveTicketCache db) h)"
proof -
  obtain cv where cv: "add_tickets rpc None 0 (Out d) (liveTicketCache db, poolValue db) = Some cv"
    "db' = db\<lparr>liveTicketCache := fst (remove_tickets (In d) cv), poolValue := snd (remove_tickets (In d) cv)\<rparr>"
    using assms(1) unfolding undoDiff_def by (elim sd_applyDiff_cases) simp
  then have "fst cv = filled rpc (Out d) (liveTicketCache db)" using add_tickets_rpc [OF assms(2), of 0 "liveTicketCache db" "poolValue db"] by auto
  then have "fst (remove_tickets (In d) cv) = (\<lambda>h. if h \<in> set (In d) then None else filled rpc (Out d) (liveTicketCache db) h)"
    unfolding remove_tickets_eq by (simp only:)
  then show ?thesis using cv(2) by simp
qed

lemma undoDiff_dom:
  assumes "undoDiff rpc d db = Some db'" and "rpc_knows rpc (set (Out d))"
  shows "dom (liveTicketCache db') = diff_unapp d (dom (liveTicketCache db))"
  unfolding undoDiff_cache [OF assms] diff_unapp_def dom_filled [of rpc "Out d", symmetric] by (auto split: if_splits)

lemma undo_all_dom:
  assumes "undo_all rpc ds db = Some db'" and "\<And>d. d \<in> set ds \<Longrightarrow> rpc_knows rpc (set (Out d))"
  shows "dom (liveTicketCache db') = fold diff_unapp ds (dom (liveTicketCache db))"
  using assms
proof (induction ds arbitrary: db)
  case Nil
  then show ?case by simp
next
  case (Cons d ds)
  from Cons.prems(1) obtain db1 where d: "undoDiff rpc d db = Some db1" "undo_all rpc ds db1 = Some db'"
    by (auto split: option.splits)
  then show ?case using Cons.IH [OF d(2)] Cons.prems(2) undoDiff_dom [OF d(1)] by simp
qed

lemma add_tickets_outside:
  "add_tickets rpc vals i hs cv = Some cv' \<Longrightarrow> h \<notin> set hs \<Longrightarrow> fst cv' h = fst cv h"
proof (induction hs arbitrary: i cv)
  case Nil
  then show ?case by simp
next
  case (Cons x hs)
  obtain c v where cv: "cv = (c, v)" by fastforce
  show ?case
    using Cons.prems Cons.IH by (fastforce simp: cv Let_def split: if_splits option.splits)
qed

lemma undoDiff_within:
  assumes "undoDiff rpc d db = Some db'"
  shows "dom (liveTicketCache db') \<subseteq> diff_unapp d (dom (liveTicketCache db))"
proof -
  obtain cv where cv: "add_tickets rpc None 0 (Out d) (liveTicketCache db, poolValue db) = Some cv"
    "db' = db\<lparr>liveTicketCache := fst (remove_tickets (In d) cv), poolValue := snd (remove_tickets (In d) cv)\<rparr>"
    using assms(1) unfolding undoDiff_def by (elim sd_applyDiff_cases) simp
  have "dom (fst cv) \<subseteq> dom (liveTicketCache db) \<union> set (Out d)"
    using add_tickets_outside [OF cv(1)] by (fastforce simp: domIff)
  then show ?thesis unfolding cv(2) diff_unapp_def by (auto simp: remove_tickets_dom)
qed

lemma fold_diff_unapp_mono: "P \<subseteq> Q \<Longrightarrow> fold diff_unapp ds P \<subseteq> fold diff_unapp ds Q"
proof (induction ds arbitrary: P Q)
  case (Cons d ds)
  from Cons.prems have "diff_unapp d P \<subseteq> diff_unapp d Q" by (auto simp: diff_unapp_def)
  then show ?case using Cons.IH by simp
qed simp

lemma undo_all_within:
  "undo_all rpc ds db = Some db' \<Longrightarrow> dom (liveTicketCache db') \<subseteq> fold diff_unapp ds (dom (liveTicketCache db))"
proof (induction ds arbitrary: db)
  case (Cons d ds)
  from Cons.prems obtain db1 where d: "undoDiff rpc d db = Some db1" "undo_all rpc ds db1 = Some db'"
    by (auto split: option.splits)
  from Cons.IH [OF d(2)] fold_diff_unapp_mono [OF undoDiff_within [OF d(1)], of ds] show ?case by simp
qed simp

lemma trim_loop_negative:
  assumes "tp_inv tp" and "p < 0"
  shows "trim_loop p (tip tp) tp = None"
  using assms
proof (induction "nat (tip tp)" arbitrary: tp rule: less_induct)
  case less
  have nonneg: "0 \<le> tip tp" using less.prems(1) by (simp add: tp_inv_def)
  show ?case
  proof (cases "tip tp = 0")
    case True
    then have "Trim tp = (tp, Inr (0, \<lparr>In = [], Out = []\<rparr>))" by (simp add: Trim_def)
    then show ?thesis using True less.prems(2) by (subst trim_loop.simps) simp
  next
    case False
    with nonneg have pos: "0 < tip tp" by simp
    let ?tp1 = "fst (Trim tp)"
    have trim: "Trim tp = (?tp1, Inr (tip tp - 1, last (diffs tp)))" and tp1: "tip ?tp1 = tip tp - 1"
      using Trim_result [OF less.prems(1) pos] by simp_all
    have "trim_loop p (tip tp - 1) ?tp1 = None"
      using less.hyps [of ?tp1] Trim_inv [OF less.prems(1)] tp1 pos less.prems(2) by simp
    then show ?thesis using pos less.prems(2) by (subst trim_loop.simps, subst trim) simp
  qed
qed

lemma disconnectBlock_cases:
  assumes "disconnectBlock env rpc neg db = Some (db', err)"
  obtains (early) e where "db' = db" "err = Some e"
  | (trimmed) tp undos db2 where "trim_loop (Height env db - 1) (tip (PoolDB db)) (PoolDB db) = Some (tp, undos)"
      "if neg then db2 = db\<lparr>PoolDB := tp\<rparr> else undo_all rpc undos (db\<lparr>PoolDB := tp\<rparr>) = Some db2"
      "liveTicketCache db' = liveTicketCache db2" "poolValue db' = poolValue db2" "PoolDB db' = PoolDB db2"
      "err = None \<Longrightarrow> \<exists>iv. DisconnectNode env (BestNode db) iv (stakeDB db) = Inr (Some (BestNode db'))"
proof -
  from assms obtain prev where prev: "dbPrevBlock env rpc (stakeDB db) = Some prev"
    by (auto simp: disconnectBlock_def Let_def split: bind_splits)
  show thesis
  proof (cases prev)
    case (Inl e)
    then show ?thesis using assms prev early by (auto simp: disconnectBlock_def Let_def)
  next
    case (Inr parent)
    note run = assms [unfolded disconnectBlock_def Let_def prev Inr, simplified]
    have h: "blk_Height parent = Height env db - 1" using run by (auto simp: Height_def split: if_splits)
    from run obtain tp undos where tr: "trim_loop (Height env db - 1) (tip (PoolDB db)) (PoolDB db) = Some (tp, undos)"
      using h by (auto simp: Height_def split: bind_splits if_splits)
    from run tr obtain db2 where db2: "(if neg then Some (db\<lparr>PoolDB := tp\<rparr>) else undo_all rpc undos (db\<lparr>PoolDB := tp\<rparr>)) = Some db2"
      using h by (auto simp: Height_def split: bind_splits if_splits)
    have frame: "BestNode db2 = BestNode db" "stakeDB db2 = stakeDB db"
      using db2 undo_all_frame [of rpc undos "db\<lparr>PoolDB := tp\<rparr>" db2] by (auto split: if_splits)
    have fin: "(case blk_HeaderBytes parent of
               None \<Rightarrow> (db2, Some HeaderError)
             | Some hB \<Rightarrow>
                 (case DisconnectNode env (BestNode db2) (CalcHash256PRNGIV env hB) (stakeDB db2) of
                    Inl e \<Rightarrow> (db2, Some (NodeError e))
                  | Inr None \<Rightarrow> (db2, Some NilNode)
                  | Inr (Some n) \<Rightarrow>
                      (case WriteDisconnectedBestNode env n (blk_Hash parent) (BestNode db2) (stakeDB db2) of
                           Inl e \<Rightarrow> (db2\<lparr>BestNode := n\<rparr>, Some (WriteError e))
                         | Inr s \<Rightarrow> (db2\<lparr>BestNode := n, stakeDB := s\<rparr>, None)))) = (db', err)"
      using run tr db2 h by (simp add: Height_def cong: option.case_cong sum.case_cong)
    then have "liveTicketCache db' = liveTicketCache db2" "poolValue db' = poolValue db2" "PoolDB db' = PoolDB db2"
      by (auto split: option.splits sum.splits)
    moreover have "err = None \<Longrightarrow> \<exists>iv. DisconnectNode env (BestNode db) iv (stakeDB db) = Inr (Some (BestNode db'))"
      using fin frame by (auto split: option.splits sum.splits)
    ultimately show ?thesis using trimmed [OF tr, of db2] db2 by (simp split: if_splits)
  qed
qed

lemma disconnectBlock_value_ok:
  assumes "disconnectBlock env rpc neg db = Some (db', err)" and "value_ok db"
  shows "value_ok db'"
  using assms(1)
proof (cases rule: disconnectBlock_cases)
  case (early e)
  then show ?thesis using assms(2) by simp
next
  case (trimmed tp undos db2)
  have "value_ok db2"
    using trimmed(2) assms(2) undo_all_ok [of rpc undos "db\<lparr>PoolDB := tp\<rparr>" db2] by (auto split: if_splits)
  then show ?thesis using trimmed(3,4) by (simp add: value_ok_def)
qed

text \<open>A disconnected block: the diffs above the parent are gone and, unless the cache is neglected, undone.\<close>

lemma disconnectBlock_success:
  fixes db :: "('n, 's, 'd, 'f) StakeDatabase"
  assumes "disconnectBlock env rpc neg db = Some (db', None)" and "node_laws env" and "tp_inv (PoolDB db)"
  shows "0 < Height env db" and "Height env db' = Height env db - 1" and "tp_inv (PoolDB db')"
    and "tip (PoolDB db') = min (Height env db - 1) (tip (PoolDB db))"
    and "diffs (PoolDB db') = take (nat (Height env db - 1)) (diffs (PoolDB db))"
    and "\<not> neg \<Longrightarrow> \<exists>(db1 :: ('n, 's, 'd, 'f) StakeDatabase) db2. undo_all rpc (rev (drop (nat (Height env db - 1)) (diffs (PoolDB db)))) db1 = Some db2
      \<and> liveTicketCache db1 = liveTicketCache db \<and> poolValue db1 = poolValue db
      \<and> liveTicketCache db' = liveTicketCache db2 \<and> poolValue db' = poolValue db2"
    and "neg \<Longrightarrow> liveTicketCache db' = liveTicketCache db \<and> poolValue db' = poolValue db"
proof -
  from assms(1) obtain tp undos db2 where
    tr: "trim_loop (Height env db - 1) (tip (PoolDB db)) (PoolDB db) = Some (tp, undos)"
    and db2: "if neg then db2 = db\<lparr>PoolDB := tp\<rparr> else undo_all rpc undos (db\<lparr>PoolDB := tp\<rparr>) = Some db2"
    and db': "liveTicketCache db' = liveTicketCache db2" "poolValue db' = poolValue db2" "PoolDB db' = PoolDB db2"
    and node: "\<exists>iv. DisconnectNode env (BestNode db) iv (stakeDB db) = Inr (Some (BestNode db'))"
    by (cases rule: disconnectBlock_cases) auto
  show pos: "0 < Height env db"
    using tr trim_loop_negative [OF assms(3), of "Height env db - 1"] by (cases "0 < Height env db") auto
  show "Height env db' = Height env db - 1" using node assms(2) unfolding node_laws_def Height_def by blast
  obtain tp' where t: "trim_loop (Height env db - 1) (tip (PoolDB db)) (PoolDB db)
      = Some (tp', rev (drop (nat (Height env db - 1)) (diffs (PoolDB db))))" "tp_inv tp'"
    "diffs tp' = take (nat (Height env db - 1)) (diffs (PoolDB db))" "tip tp' = min (Height env db - 1) (tip (PoolDB db))"
    using trim_loop_result [OF assms(3), of "Height env db - 1"] pos by auto
  have pool: "PoolDB db' = tp'"
    using db2 db'(3) tr t(1) undo_all_frame [of rpc undos "db\<lparr>PoolDB := tp\<rparr>" db2] by (auto split: if_splits)
  show "tp_inv (PoolDB db')" "tip (PoolDB db') = min (Height env db - 1) (tip (PoolDB db))"
    "diffs (PoolDB db') = take (nat (Height env db - 1)) (diffs (PoolDB db))"
    using pool t by simp_all
  show "\<exists>(db1 :: ('n, 's, 'd, 'f) StakeDatabase) db2. undo_all rpc (rev (drop (nat (Height env db - 1)) (diffs (PoolDB db)))) db1 = Some db2
      \<and> liveTicketCache db1 = liveTicketCache db \<and> poolValue db1 = poolValue db
      \<and> liveTicketCache db' = liveTicketCache db2 \<and> poolValue db' = poolValue db2" if "\<not> neg"
    using db2 that tr t(1) db'(1,2) by (intro exI [of _ "db\<lparr>PoolDB := tp\<rparr>"] exI [of _ db2]) simp
  show "liveTicketCache db' = liveTicketCache db \<and> poolValue db' = poolValue db" if "neg"
    using db2 that db'(1,2) by simp
qed

lemma disconnectBlock_pools:
  fixes db :: "('n, 's, 'd, 'f) StakeDatabase"
  assumes "disconnectBlock env rpc False db = Some (db', None)" and "node_laws env" and "tp_inv (PoolDB db)"
  defines "ds \<equiv> rev (drop (nat (Height env db - 1)) (diffs (PoolDB db)))"
  shows "\<exists>(db1 :: ('n, 's, 'd, 'f) StakeDatabase) db2. undo_all rpc ds db1 = Some db2
    \<and> liveTicketCache db1 = liveTicketCache db \<and> liveTicketCache db' = liveTicketCache db2
    \<and> tip_pool (PoolDB db') = fold diff_unapp ds (tip_pool (PoolDB db))"
proof -
  let ?ds = "diffs (PoolDB db)" and ?n = "nat (Height env db - 1)"
  note st = disconnectBlock_success [OF assms(1-3)]
  have "fold diff_unapp ds (tip_pool (PoolDB db)) = pool_at ?ds (min ?n (length ?ds))"
  proof (cases "?n \<le> length ?ds")
    case True
    have "valid_diffs ?ds" using assms(3) by (simp add: tp_inv_def)
    from tpl.replay_between [OF this True] True show ?thesis by (simp add: ds_def)
  next
    case False
    then show ?thesis by (simp add: ds_def)
  qed
  then have "tip_pool (PoolDB db') = fold diff_unapp ds (tip_pool (PoolDB db))"
    by (simp add: st(5) replay_def min.commute)
  then show ?thesis using st(6) unfolding ds_def by auto
qed

lemma disconnectBlock_agrees:
  fixes db :: "('n, 's, 'd, 'f) StakeDatabase"
  assumes "disconnectBlock env rpc False db = Some (db', None)" and "node_laws env" and "tp_inv (PoolDB db)"
    and "agrees db" and "\<And>d. d \<in> set (diffs (PoolDB db)) \<Longrightarrow> rpc_knows rpc (set (Out d))"
  shows "agrees db'"
proof -
  let ?ds = "rev (drop (nat (Height env db - 1)) (diffs (PoolDB db)))"
  from disconnectBlock_pools [OF assms(1-3)] obtain db1 db2 :: "('n, 's, 'd, 'f) StakeDatabase" where
    u: "undo_all rpc ?ds db1 = Some db2" "liveTicketCache db1 = liveTicketCache db" "liveTicketCache db' = liveTicketCache db2"
      "tip_pool (PoolDB db') = fold diff_unapp ?ds (tip_pool (PoolDB db))" by blast
  then have "dom (liveTicketCache db') = fold diff_unapp ?ds (tip_pool (PoolDB db))"
    using undo_all_dom [OF u(1)] assms(4,5) u(2,3) in_set_dropD by (fastforce simp: agrees_def)
  then show ?thesis by (simp add: agrees_def u(4))
qed

lemma disconnectBlock_within:
  fixes db :: "('n, 's, 'd, 'f) StakeDatabase"
  assumes "disconnectBlock env rpc False db = Some (db', None)" and "node_laws env" and "tp_inv (PoolDB db)" and "within db"
  shows "within db'"
proof -
  let ?ds = "rev (drop (nat (Height env db - 1)) (diffs (PoolDB db)))"
  from disconnectBlock_pools [OF assms(1-3)] obtain db1 db2 :: "('n, 's, 'd, 'f) StakeDatabase" where
    u: "undo_all rpc ?ds db1 = Some db2" "liveTicketCache db1 = liveTicketCache db" "liveTicketCache db' = liveTicketCache db2"
      "tip_pool (PoolDB db') = fold diff_unapp ?ds (tip_pool (PoolDB db))" by blast
  have "dom (liveTicketCache db') \<subseteq> fold diff_unapp ?ds (dom (liveTicketCache db))"
    using undo_all_within [OF u(1)] unfolding u(2,3) .
  also have "\<dots> \<subseteq> fold diff_unapp ?ds (tip_pool (PoolDB db))"
    using assms(4) unfolding within_def by (rule fold_diff_unapp_mono)
  finally show ?thesis unfolding within_def u(4) .
qed

end
