(* ===== verification/StakeRuns.thy ===== *)
theory StakeRuns
  imports StakeSync
begin

text \<open>
  Runs of the stake database: the value of the live tickets through all calls, errors included; the
  agreement of the best node, the diff log and the live ticket cache through successful calls; and
  that disconnecting a block undoes connecting it.
\<close>

section \<open>The pool value\<close>

lemma disconnect_loop_ok: "disconnect_loop env rpc n db = Some (db', err) \<Longrightarrow> value_ok db \<Longrightarrow> value_ok db'"
  by (induction n arbitrary: db) (auto split: option.splits dest: disconnectBlock_value_ok)

lemma rewind_loop_ok: "rewind_loop env rpc to0 neg n db = Some (db', err) \<Longrightarrow> value_ok db \<Longrightarrow> value_ok db'"
  by (induction n arbitrary: db) (auto split: option.splits if_splits dest: disconnectBlock_value_ok)

lemma PopulateLiveTicketCache_ok:
  assumes "PopulateLiveTicketCache env rpc db = Some (db', err)" and "distinct (node_LiveTickets env (BestNode db))"
  shows "value_ok db'"
proof -
  have start: "cv_ok (Map.empty, 0)" by (simp add: cv_ok_def)
  from assms(1) obtain c v failed where
    p: "populate env rpc (node_LiveTickets env (BestNode db)) (Map.empty, 0) False = Some ((c, v), failed)"
    and db': "db' = db\<lparr>liveTicketCache := c, poolValue := v\<rparr>"
    by (auto simp: PopulateLiveTicketCache_def)
  have "cv_ok (c, v)" by (rule populate_ok [OF p start assms(2)]) simp
  then show ?thesis by (simp add: value_ok_def db')
qed

text \<open>Every exported call that changes the database, with any result but a panic.\<close>

inductive sd_call :: "('n, 's, 'd, 'f) stake_env \<Rightarrow> ('n, 's, 'd, 'f) StakeDatabase
    \<Rightarrow> ('n, 's, 'd, 'f) StakeDatabase \<Rightarrow> bool" for env where
  call_connect: "ConnectBlock env rpc blk db = Some (db', err) \<Longrightarrow> sd_call env db db'"
| call_connect_hash: "ConnectBlockHash env rpc h db = Some (db', blk, err) \<Longrightarrow> sd_call env db db'"
| call_disconnect: "disconnectBlock env rpc neg db = Some (db', err) \<Longrightarrow> sd_call env db db'"
| call_disconnects: "DisconnectBlocks env rpc n db = Some (db', err) \<Longrightarrow> sd_call env db db'"
| call_rewind: "Rewind env rpc to0 neg db = Some (db', err) \<Longrightarrow> sd_call env db db'"
| call_populate: "PopulateLiveTicketCache env rpc db = Some (db', err)
    \<Longrightarrow> distinct (node_LiveTickets env (BestNode db)) \<Longrightarrow> sd_call env db db'"
| call_set_info: "SetPoolInfo h tpi db = Some db' \<Longrightarrow> sd_call env db db'"
| call_set_capacity: "SetPoolCacheCapacity n db = Some (db', e) \<Longrightarrow> sd_call env db db'"
| call_pool_height: "sd_call env db (fst (PoolAtHeight h db))"
| call_pool_hash: "sd_call env db (fst (PoolAtHash rpc x db))"

lemma sd_call_value_ok: "sd_call env db db' \<Longrightarrow> value_ok db \<Longrightarrow> value_ok db'"
proof (induction rule: sd_call.induct)
  case (call_connect_hash rpc h db db' blk err)
  then show ?case by (auto simp: ConnectBlockHash_def split: option.splits dest: ConnectBlock_value_ok)
next
  case (call_disconnects rpc n db db' err)
  then show ?case unfolding DisconnectBlocks_def by (rule disconnect_loop_ok)
next
  case (call_rewind rpc to0 neg db db' err)
  then show ?case unfolding Rewind_def by (rule rewind_loop_ok)
qed (auto simp: SetPoolInfo_def SetPoolCacheCapacity_def PoolAtHeight_def PoolAtHash_def
      split: prod.splits option.splits sum.splits
      dest: ConnectBlock_value_ok disconnectBlock_value_ok PopulateLiveTicketCache_ok)

text \<open>C4. The pool value that the explorer reports is the sum of the values of the cached live tickets, as a
  64-bit integer, after any sequence of calls: connecting and disconnecting blocks, rewinding,
  repopulating, queries, also when calls fail half way, when the client does not know a ticket, or when a
  ticket is added twice or removed without being there.\<close>

theorem pool_value_sum:
  assumes "(sd_call env)\<^sup>*\<^sup>* db db'" and "liveTicketCache db = Map.empty" and "poolValue db = 0"
  shows "finite (dom (liveTicketCache db')) \<and> poolValue db' = wrap64 (\<Sum>h\<in>dom (liveTicketCache db'). the (liveTicketCache db' h))"
proof -
  have "value_ok db'"
    using assms(1)
  proof (induction rule: rtranclp_induct)
    case base
    then show ?case by (simp add: value_ok_def cv_ok_def assms(2,3))
  next
    case (step y z)
    then show ?case by (blast intro: sd_call_value_ok)
  qed
  then show ?thesis by (simp add: value_ok_def cv_ok_def ticket_sum_def)
qed

section \<open>Node, log and cache\<close>

definition consistent :: "('n, 's, 'd, 'f) stake_env \<Rightarrow> ('n, 's, 'd, 'f) StakeDatabase \<Rightarrow> bool" where
  "consistent env db \<longleftrightarrow> in_sync env db \<and> agrees db \<and> value_ok db"

text \<open>Successful calls. A connected block changes the pool by tickets that fit it: its maturing tickets are not
  live yet, its winners and expired tickets are live or maturing. A disconnected block brings back the tickets that had
  left the pool; the client may fail to return some of them, in which case \<open>applyDiff\<close> only logs the
  failure and skips the ticket, unless \<open>known\<close>: then it returns all of them.\<close>

inductive sd_step :: "bool \<Rightarrow> ('n, 's, 'd, 'f) stake_env \<Rightarrow> ('n, 's, 'd, 'f) StakeDatabase
    \<Rightarrow> ('n, 's, 'd, 'f) StakeDatabase \<Rightarrow> bool" for known env where
  step_connect: "ConnectBlock env rpc blk db = Some (db', None)
    \<Longrightarrow> diff_ok (last (diffs (PoolDB db'))) (tip_pool (PoolDB db)) \<Longrightarrow> sd_step known env db db'"
| step_disconnect: "disconnectBlock env rpc False db = Some (db', None)
    \<Longrightarrow> (\<And>d. known \<Longrightarrow> d \<in> set (diffs (PoolDB db)) \<Longrightarrow> rpc_knows rpc (set (Out d))) \<Longrightarrow> sd_step known env db db'"
| step_query: "sd_step known env db (fst (PoolAtHeight h db))"
| step_query_hash: "sd_step known env db (fst (PoolAtHash rpc x db))"

definition nearly :: "bool \<Rightarrow> ('n, 's, 'd, 'f) stake_env \<Rightarrow> ('n, 's, 'd, 'f) StakeDatabase \<Rightarrow> bool" where
  "nearly known env db \<longleftrightarrow> in_sync env db \<and> within db \<and> (known \<longrightarrow> agrees db) \<and> value_ok db"

lemma nearly_consistent: "nearly True env db \<longleftrightarrow> consistent env db" "consistent env db \<Longrightarrow> nearly known env db"
  by (auto simp: nearly_def consistent_def agrees_def within_def)

lemma Pool_frame: "tp_inv tp \<Longrightarrow> tip (fst (Pool h tp)) = tip tp \<and> diffs (fst (Pool h tp)) = diffs tp"
  by (simp add: Pool_result)

lemma query_nearly: "nearly known env db \<Longrightarrow> nearly known env (db\<lparr>PoolDB := fst (Pool h (PoolDB db))\<rparr>)"
  using Pool_frame [of "PoolDB db" h] Pool_inv [of "PoolDB db" h]
  by (simp add: nearly_def in_sync_def agrees_def within_def value_ok_def Height_def)

lemma sd_step_nearly:
  assumes "sd_step known env db db'" and "node_laws env" and "nearly known env db"
  shows "nearly known env db'"
proof -
  have inv: "tp_inv (PoolDB db)" "tip (PoolDB db) = Height env db" "within db" "known \<Longrightarrow> agrees db" "value_ok db"
    using assms(3) by (simp_all add: nearly_def in_sync_def)
  from assms(1) show ?thesis
  proof cases
    case (step_connect rpc blk)
    then show ?thesis
      using inv ConnectBlock_in_sync(1) [OF step_connect(1) assms(2)] ConnectBlock_agrees [OF step_connect(1)]
        ConnectBlock_within [OF step_connect(1)] ConnectBlock_value_ok [OF step_connect(1)] by (simp add: nearly_def)
  next
    case (step_disconnect rpc)
    note st = disconnectBlock_success [OF step_disconnect(1) assms(2) inv(1)]
    have "in_sync env db'" using st(2,3,4) inv(2) by (simp add: in_sync_def)
    moreover have "agrees db'" if known
      by (rule disconnectBlock_agrees [OF step_disconnect(1) assms(2) inv(1,4)]) (rule that, rule step_disconnect(2) [OF that])
    moreover note disconnectBlock_within [OF step_disconnect(1) assms(2) inv(1,3)]
      disconnectBlock_value_ok [OF step_disconnect(1) inv(5)]
    ultimately show ?thesis by (simp add: nearly_def)
  next
    case (step_query h)
    then show ?thesis using query_nearly [OF assms(3), of h] by (simp add: PoolAtHeight_def case_prod_beta)
  next
    case (step_query_hash rpc x)
    then show ?thesis
      using query_nearly [OF assms(3)] assms(3)
      by (auto simp: PoolAtHash_def case_prod_beta split: option.split sum.split)
  qed
qed

lemma sd_step_consistent:
  assumes "sd_step True env db db'" and "node_laws env" and "consistent env db"
  shows "consistent env db'"
  using sd_step_nearly [OF assms(1,2)] assms(3) by (simp add: nearly_consistent)

lemma sd_steps_nearly:
  "(sd_step known env)\<^sup>*\<^sup>* db db' \<Longrightarrow> node_laws env \<Longrightarrow> nearly known env db \<Longrightarrow> nearly known env db'"
  by (induction rule: rtranclp_induct) (auto intro: sd_step_nearly)

lemma run_consistent:
  assumes "node_laws env" and "consistent env db" and "(sd_step known env)\<^sup>*\<^sup>* db db'"
  shows "tip (PoolDB db') = Height env db'"
    and "\<exists>P. snd (PoolAtHeight (Height env db') db') = Inr P \<and> dom (liveTicketCache db') \<subseteq> P
      \<and> (known \<longrightarrow> dom (liveTicketCache db') = P)"
    and "poolValue db' = wrap64 (\<Sum>h\<in>dom (liveTicketCache db'). the (liveTicketCache db' h))"
proof -
  have c: "in_sync env db'" "within db'" "known \<longrightarrow> agrees db'" "value_ok db'"
    using sd_steps_nearly [OF assms(3,1) nearly_consistent(2) [OF assms(2)]] by (simp_all add: nearly_def)
  show t: "tip (PoolDB db') = Height env db'" using c(1) by (simp add: in_sync_def)
  have inv: "tp_inv (PoolDB db')" using c(1) by (simp add: in_sync_def)
  then have "0 \<le> tip (PoolDB db')" "nat (tip (PoolDB db')) = length (diffs (PoolDB db'))" by (simp_all add: tp_inv_def)
  then show "\<exists>P. snd (PoolAtHeight (Height env db') db') = Inr P \<and> dom (liveTicketCache db') \<subseteq> P
      \<and> (known \<longrightarrow> dom (liveTicketCache db') = P)"
    using c(2,3) by (simp add: PoolAtHeight_def Pool_result [OF inv] agrees_def within_def flip: t)
  show "poolValue db' = wrap64 (\<Sum>h\<in>dom (liveTicketCache db'). the (liveTicketCache db' h))"
    using c(4) by (simp add: value_ok_def cv_ok_def ticket_sum_def)
qed

text \<open>C3. The three copies of the stake state through any run of successful calls that connect and disconnect
  blocks and query the pool: the tip of the diff log is the height of the best node, the tickets in the
  live ticket cache belong to the ticket pool that the log gives at that height, and the pool value is the
  sum of their values. The cache is exactly that pool if, in every disconnection, the client returns the
  transactions of the tickets that come back (\<open>known\<close>); one that it fails to return is only logged by the code and
  stays out of the cache. Assumed are a start in which the three agree, that the node's heights move by one
  (\<open>node_laws\<close>), and that each connected block's diff fits the pool (\<open>diff_ok\<close>: its maturing tickets are new,
  the winners and expired tickets are live or maturing, none is listed twice).\<close>

theorem stake_db_consistent:
  assumes "node_laws env" and "consistent env db" and "(sd_step known env)\<^sup>*\<^sup>* db db'"
  shows "tip (PoolDB db') = Height env db'
    \<and> (\<exists>P. snd (PoolAtHeight (Height env db') db') = Inr P \<and> dom (liveTicketCache db') \<subseteq> P
         \<and> (known \<longrightarrow> dom (liveTicketCache db') = P))
    \<and> poolValue db' = wrap64 (\<Sum>h\<in>dom (liveTicketCache db'). the (liveTicketCache db' h))"
  using run_consistent [OF assms] by simp

section \<open>Connect and disconnect\<close>

lemma value_ok_unique: "value_ok db \<Longrightarrow> value_ok db' \<Longrightarrow> liveTicketCache db = liveTicketCache db' \<Longrightarrow> poolValue db = poolValue db'"
  by (simp add: value_ok_def cv_ok_def)

text \<open>The cache after a block was connected and its diff undone.\<close>

lemma undo_restores:
  assumes "diff_ok d (dom c)" and "add_tickets rpc vals 0 (In d) (c, v) = Some cv"
    and "\<And>h. h \<in> dom c \<Longrightarrow> rpc_value rpc' h = the (c h)"
  shows "(\<lambda>h. if h \<in> set (In d) then None else filled rpc' (Out d) (fst (remove_tickets (Out d) cv)) h) = c"
proof
  fix h
  have new: "c h = None" if "h \<in> set (In d)" using that assms(1) by (auto simp: diff_ok_def)
  have old: "\<exists>x. c h = Some x" if "h \<in> set (Out d)" "h \<notin> set (In d)" using that assms(1) by (auto simp: diff_ok_def)
  have "fst cv h = c h" if "h \<notin> set (In d)" using add_tickets_outside [OF assms(2) that] by simp
  then show "(if h \<in> set (In d) then None else filled rpc' (Out d) (fst (remove_tickets (Out d) cv)) h) = c h"
    using new old assms(3) [of h] by (auto simp: filled_def remove_tickets_eq domIff)
qed

lemma undone_connect:
  fixes db :: "('n, 's, 'd, 'f) StakeDatabase"
  assumes "node_laws env" and "consistent env db"
    and "ConnectBlock env rpc blk db = Some (db1, None)"
    and "diff_ok (last (diffs (PoolDB db1))) (tip_pool (PoolDB db))"
    and "disconnectBlock env rpc' False db1 = Some (db2, None)"
    and "rpc_knows rpc' (set (Out (last (diffs (PoolDB db1)))))"
    and "\<And>h. h \<in> dom (liveTicketCache db) \<Longrightarrow> rpc_value rpc' h = the (liveTicketCache db h)"
  shows "liveTicketCache db2 = liveTicketCache db" and "poolValue db2 = poolValue db"
    and "diffs (PoolDB db2) = diffs (PoolDB db)" and "tip (PoolDB db2) = tip (PoolDB db)"
    and "Height env db2 = Height env db"
proof -
  let ?d = "last (diffs (PoolDB db1))"
  have inv: "tp_inv (PoolDB db)" "agrees db" "value_ok db" using assms(2) by (simp_all add: consistent_def in_sync_def)
  from assms(3) obtain d vals cv where app: "Append (dbSet env) d (Height env db + 1) (PoolDB db) = (PoolDB db1, None)"
    and cv: "add_tickets rpc vals 0 (In d) (liveTicketCache db, poolValue db) = Some cv"
    "liveTicketCache db1 = fst (remove_tickets (Out d) cv)"
    by (rule ConnectBlock_success) blast
  note ap = Append_success [OF app]
  have d: "?d = d" using ap(2) by simp
  note sync = ConnectBlock_in_sync [OF assms(3,1) inv(1) assms(4)]
  have inv1: "tp_inv (PoolDB db1)" and len: "nat (Height env db1 - 1) = length (diffs (PoolDB db))"
    using sync inv(1) by (simp_all add: in_sync_def tp_inv_def)
  note dis = disconnectBlock_success [OF assms(5,1) inv1]
  from dis(6) obtain a b :: "('n, 's, 'd, 'f) StakeDatabase" where u: "undoDiff rpc' d a = Some b"
    "liveTicketCache a = liveTicketCache db1" "liveTicketCache db2 = liveTicketCache b"
    by (auto simp: len ap(2) split: option.splits)
  have "liveTicketCache db2 = (\<lambda>h. if h \<in> set (In d) then None else filled rpc' (Out d) (fst (remove_tickets (Out d) cv)) h)"
    using undoDiff_cache [OF u(1)] assms(6) unfolding d u(2,3) cv(2) by (simp only:)
  moreover have "diff_ok d (dom (liveTicketCache db))" using assms(4) d inv(2) by (simp add: agrees_def)
  ultimately show c: "liveTicketCache db2 = liveTicketCache db"
    using undo_restores [OF _ cv(1) assms(7)] by simp
  have "value_ok db2"
    by (rule disconnectBlock_value_ok [OF assms(5)], rule ConnectBlock_value_ok [OF assms(3) inv(3)])
  then show "poolValue db2 = poolValue db" using inv(3) c by (rule value_ok_unique)
  show "diffs (PoolDB db2) = diffs (PoolDB db)" using dis(5) len ap(2) by simp
  show "Height env db2 = Height env db" using dis(2) sync(2) by simp
  show "tip (PoolDB db2) = tip (PoolDB db)" using dis(4) sync ap(3) by simp
qed

text \<open>C5. Disconnecting a block restores what connecting it changed: the live ticket cache, the pool value, the
  diff log and the height are those of before, provided the client returns the tickets that left the
  pool with the values they had.\<close>

theorem disconnect_undoes_connect:
  fixes db :: "('n, 's, 'd, 'f) StakeDatabase"
  assumes "node_laws env" and "consistent env db"
    and "ConnectBlock env rpc blk db = Some (db1, None)"
    and "diff_ok (last (diffs (PoolDB db1))) (tip_pool (PoolDB db))"
    and "disconnectBlock env rpc' False db1 = Some (db2, None)"
    and "rpc_knows rpc' (set (Out (last (diffs (PoolDB db1)))))"
    and "\<And>h. h \<in> dom (liveTicketCache db) \<Longrightarrow> rpc_value rpc' h = the (liveTicketCache db h)"
  shows "liveTicketCache db2 = liveTicketCache db \<and> poolValue db2 = poolValue db
    \<and> diffs (PoolDB db2) = diffs (PoolDB db) \<and> tip (PoolDB db2) = tip (PoolDB db)
    \<and> Height env db2 = Height env db"
  using undone_connect [OF assms(1-6)] assms(7) by simp

text \<open>A block that is refused because of its height is left in the block cache, under that height: the tickets that
  mature there are later read from it.\<close>

lemma rejected_block_cached:
  assumes "ConnectBlock env rpc blk db = Some (db', Some (CannotConnect h b))"
  shows "BlockCached (blk_Height blk) db' = Some blk"
  using assms
proof (cases rule: ConnectBlock_cases)
  case (rejected b')
  then show ?thesis by (simp add: BlockCached_def)
next
  case (failed b' e sp rv mt)
  then show ?thesis by (auto simp: connectBlock_def Let_def split: option.splits sum.splits)
next
  case (connected b' sp rv d vals db3)
  then show ?thesis by (elim finishConnect_cases) (auto simp: map_option_case split: option.splits)
qed

section \<open>A concrete node\<close>

text \<open>A node that is its height, whose only ticket matures with block 1 and wins at height 1.\<close>

definition ex_hash :: "int \<Rightarrow> hash" where
  "ex_hash n = replicate HashSize (word_of_int n)"

definition ex_ticket :: MsgTx where
  "ex_ticket = \<lparr>txIn = [], txOut = [\<lparr>txo_Value = 7, txo_CoinType = 0, txo_SKAValue = None, txo_PkScript = []\<rparr>]\<rparr>"

definition ex_block :: "int \<Rightarrow> dcr_block" where
  "ex_block n = \<lparr>blk_Height = n, blk_Hash = ex_hash n, blk_HeaderBytes = Some [],
     blk_STransactions = (if n = 0 then [ex_ticket] else [])\<rparr>"

definition ex_rpc :: node_client where
  "ex_rpc = \<lparr>GetBlockHash = (\<lambda>n. Some (ex_hash n)), GetBlock = (\<lambda>h. Some (ex_block (uint (hd h)))),
     GetBlockHeader = (\<lambda>h. Some \<lparr>hdr_Height = uint (hd h), hdr_PrevBlock = ex_hash (uint (hd h) - 1), hdr_BlockHash = h\<rparr>),
     GetRawTransaction = (\<lambda>h. Some ex_ticket)\<rparr>"

definition ex_env :: "(int, int, unit, unit) stake_env" where
  "ex_env = \<lparr>TicketMaturity = 1, isSStx = (\<lambda>tx. txIn tx = []), isSSGen = (\<lambda>_. False), isSSRtx = (\<lambda>_. False),
     txHash = (\<lambda>_. ex_hash 99), node_Height = (\<lambda>n. n), node_Winners = (\<lambda>n. if n = 1 then [ex_hash 99] else []),
     node_ExpiredByBlock = (\<lambda>_. []), node_LiveTickets = (\<lambda>n. if n = 1 then [ex_hash 99] else []),
     node_PoolSize = (\<lambda>n. if n = 1 then 1 else 0), CalcHash256PRNGIV = (\<lambda>_. []),
     ConnectNode = (\<lambda>n _ _ _ _. Inr (Some (n + 1))), DisconnectNode = (\<lambda>n _ _. Inr (Some (n - 1))),
     WriteConnectedBestNode = (\<lambda>n _ _. Inr n), WriteDisconnectedBestNode = (\<lambda>n _ _ _. Inr n),
     chainstate = (\<lambda>s. Some (ex_hash s @ [word_of_int s, 0, 0, 0])), dbSet = (\<lambda>db _ _. Inr db),
     ToCoin = (\<lambda>_. ()), coin_zero = (), coin_div = (\<lambda>_ _. ()), hash_String = (\<lambda>_. [])\<rparr>"

definition ex_db0 :: "(int, int, unit, unit) StakeDatabase" where
  "ex_db0 = \<lparr>BestNode = 0, stakeDB = 0, sd_blockCache = Map.empty, liveTicketCache = Map.empty, poolValue = 0,
     sd_poolInfo = \<lparr>poolInfoMap = Map.empty, expireQueue = [], maxSize = 513\<rparr>, PoolDB = NewTicketPool [] (),
     heightWaiters = (\<lambda>_. []), waitChans = (\<lambda>_. []), nextChan = 0, signals = []\<rparr>"

definition ex_db1 :: "(int, int, unit, unit) StakeDatabase" where
  "ex_db1 = fst (the (ConnectBlock ex_env ex_rpc (ex_block 1) ex_db0))"

definition ex_db2 :: "(int, int, unit, unit) StakeDatabase" where
  "ex_db2 = fst (the (ConnectBlock ex_env ex_rpc (ex_block 2) ex_db1))"

definition ex_db3 :: "(int, int, unit, unit) StakeDatabase" where
  "ex_db3 = fst (the (disconnectBlock ex_env ex_rpc False ex_db2))"

lemmas ex_defs = ex_env_def ex_rpc_def ex_block_def ex_ticket_def

lemmas connect_defs = ConnectBlock_def maturing_tickets_def sd_block_def BlockCached_def getBlockByHeight_def ForgetBlock_def
  TicketsInBlock_def connectBlock_def finishConnect_def sd_applyDiff_def SetPoolInfo_def PoolInfo_Set_def makePoolInfo_def
  Append_def Append_locked_def append_diff_def storeDiff_def NewTicketPool_def

lemma ex_hash_simps [simp]: "hd (ex_hash n) = word_of_int n" "length (ex_hash n) = HashSize" "ex_hash m = ex_hash n \<longleftrightarrow> (word_of_int m :: byte) = word_of_int n"
  by (simp_all add: ex_hash_def HashSize_def)

lemma ex_connect1:
  "ConnectBlock ex_env ex_rpc (ex_block 1) ex_db0 = Some (ex_db1, None)"
  "diffs (PoolDB ex_db1) = [\<lparr>In = [ex_hash 99], Out = []\<rparr>]" "tip (PoolDB ex_db1) = 1" "BestNode ex_db1 = 1" "stakeDB ex_db1 = 1"
  "liveTicketCache ex_db1 = [ex_hash 99 \<mapsto> 7]" "poolValue ex_db1 = 7" "sd_blockCache ex_db1 = [1 \<mapsto> ex_block 1]"
  "expireQueue (sd_poolInfo ex_db1) = [ex_hash 1]" "maxSize (sd_poolInfo ex_db1) = 513"
  by (simp_all add: ex_db1_def ex_db0_def ex_defs connect_defs Let_def wrap64_def)

lemma ex_connect2:
  "ConnectBlock ex_env ex_rpc (ex_block 2) ex_db1 = Some (ex_db2, None)"
  "diffs (PoolDB ex_db2) = [\<lparr>In = [ex_hash 99], Out = []\<rparr>, \<lparr>In = [], Out = [ex_hash 99]\<rparr>]"
  "tip (PoolDB ex_db2) = 2" "BestNode ex_db2 = 2" "stakeDB ex_db2 = 2"
  "liveTicketCache ex_db2 = Map.empty" "poolValue ex_db2 = 0"
  by (simp_all add: ex_db2_def ex_connect1 ex_defs connect_defs Let_def wrap64_def)

lemma ex_laws: "node_laws ex_env"
  by (simp add: node_laws_def ex_env_def)

lemma ex_consistent0: "consistent ex_env ex_db0"
  by (simp add: consistent_def in_sync_def tp_inv_def agrees_def value_ok_def cv_ok_def Height_def ex_db0_def ex_env_def
      NewTicketPool_def wrap64_def)

lemma ex_fits1: "diff_ok (last (diffs (PoolDB ex_db1))) (tip_pool (PoolDB ex_db0))"
  by (simp add: ex_connect1 ex_db0_def NewTicketPool_def diff_ok_def)

lemma ex_fits2: "diff_ok (last (diffs (PoolDB ex_db2))) (tip_pool (PoolDB ex_db1))"
  by (simp add: ex_connect1 ex_connect2 replay_def diff_ok_def diff_app_def)

lemma ex_steps: "sd_step True ex_env ex_db0 ex_db1" "sd_step True ex_env ex_db1 ex_db2"
  by (rule step_connect [OF ex_connect1(1) ex_fits1], rule step_connect [OF ex_connect2(1) ex_fits2])

lemma ex_consistent1: "consistent ex_env ex_db1"
  by (rule sd_step_consistent [OF ex_steps(1) ex_laws ex_consistent0])

lemma ex_disconnect: "disconnectBlock ex_env ex_rpc False ex_db2 = Some (ex_db3, None)"
proof -
  have inv: "tp_inv (PoolDB ex_db2)"
    using sd_step_consistent [OF ex_steps(2) ex_laws ex_consistent1] by (simp add: consistent_def in_sync_def)
  obtain tp where tp: "trim_loop 1 2 (PoolDB ex_db2) = Some (tp, [\<lparr>In = [], Out = [ex_hash 99]\<rparr>])"
    using trim_loop_result [OF inv, of 1] by (auto simp: ex_connect2)
  have prev: "dbPrevBlock ex_env ex_rpc 2 = Some (Inr (ex_block 1))"
    by (simp add: dbPrevBlock_def DBTipBlockHeader_def dbState_def ex_env_def ex_rpc_def)
  have node: "node_Height ex_env n = n" "DisconnectNode ex_env n iv st = Inr (Some (n - 1))"
    "WriteDisconnectedBestNode ex_env n h ch st = Inr n" "GetRawTransaction ex_rpc h = Some ex_ticket" for n h iv st ch
    by (simp_all add: ex_env_def ex_rpc_def)
  show ?thesis
    unfolding ex_db3_def
    by (simp add: disconnectBlock_def ex_connect2 prev tp node ex_ticket_def ex_block_def undoDiff_def sd_applyDiff_def Let_def)
qed

theorem pool_value_sum_witness:
  "(sd_call ex_env)\<^sup>*\<^sup>* ex_db0 ex_db1 \<and> liveTicketCache ex_db0 = Map.empty \<and> poolValue ex_db0 = 0
     \<and> poolValue ex_db1 = wrap64 (\<Sum>h\<in>dom (liveTicketCache ex_db1). the (liveTicketCache ex_db1 h))"
proof -
  have run: "(sd_call ex_env)\<^sup>*\<^sup>* ex_db0 ex_db1" by (rule r_into_rtranclp, rule call_connect [OF ex_connect1(1)])
  have start: "liveTicketCache ex_db0 = Map.empty" "poolValue ex_db0 = 0" by (simp_all add: ex_db0_def)
  show ?thesis using pool_value_sum [OF run start] run start by simp
qed

theorem stake_db_consistent_witness:
  "tip (PoolDB ex_db3) = Height ex_env ex_db3
     \<and> snd (PoolAtHeight (Height ex_env ex_db3) ex_db3) = Inr (dom (liveTicketCache ex_db3))"
proof -
  have "sd_step True ex_env ex_db2 ex_db3"
    by (rule step_disconnect [OF ex_disconnect]) (simp add: rpc_knows_def ex_rpc_def ex_ticket_def)
  then have run: "(sd_step True ex_env)\<^sup>*\<^sup>* ex_db0 ex_db3"
    using ex_steps by (meson rtranclp.rtrancl_into_rtrancl rtranclp.rtrancl_refl)
  show ?thesis using stake_db_consistent [OF ex_laws ex_consistent0 run] by auto
qed

theorem disconnect_undoes_connect_witness:
  "liveTicketCache ex_db3 = [ex_hash 99 \<mapsto> 7] \<and> poolValue ex_db3 = 7 \<and> Height ex_env ex_db3 = 1"
proof -
  have knows: "rpc_knows ex_rpc (set (Out (last (diffs (PoolDB ex_db2)))))"
    by (simp add: rpc_knows_def ex_rpc_def ex_ticket_def)
  have vals: "rpc_value ex_rpc h = the (liveTicketCache ex_db1 h)" if "h \<in> dom (liveTicketCache ex_db1)" for h
    using that by (simp add: ex_connect1 rpc_value_def ex_rpc_def ex_ticket_def)
  note r = disconnect_undoes_connect [OF ex_laws ex_consistent1 ex_connect2(1) ex_fits2 ex_disconnect knows vals]
  show ?thesis using r by (simp add: ex_connect1 Height_def ex_env_def)
qed

end
