(* ===== verification/StakeRecover.thy ===== *)
theory StakeRecover
  imports StakeRuns
begin

text \<open>
  Opening the stake database, bringing it and the ticket pool to one height (\<open>NewStakeDatabase\<close>,
  \<open>LoadAndRecover\<close>), and switching to a side chain (\<open>stakedb/chainmonitor.go\<close>). The ffldb files are
  the record \<open>ffldb\<close>: what opening and creating them returns, and the node's functions that load the
  best node from them.
\<close>

section \<open>Opening\<close>

fun contains_str :: "string \<Rightarrow> string \<Rightarrow> bool" where
  "contains_str sub [] = (sub = [])"
| "contains_str sub (c # cs) = (take (length sub) (c # cs) = sub \<or> contains_str sub cs)"

record ('n, 's) ffldb =
  ffl_Open :: "string + 's"
  ffl_Create :: "string + 's"
  LoadBestNode :: "'s \<Rightarrow> nat \<Rightarrow> hash \<Rightarrow> dcr_block \<Rightarrow> string + 'n"
  InitDatabaseState :: "'s \<Rightarrow> string + 'n \<times> 's"

datatype open_error = AlreadyOpened | CreateFailed string | InitFailed string

text \<open>The best node as the database has it, \<open>Inl\<close> when any of the reads fails.\<close>

definition load_best ::
  "('n, 's, 'd, 'f) stake_env \<Rightarrow> ('n, 's) ffldb \<Rightarrow> node_client \<Rightarrow> 's \<Rightarrow> (unit + 'n) option" where
  "load_best env ffl rpc s =
     map_option (\<lambda>r. case r of
         Inl e \<Rightarrow> Inl ()
       | Inr (stakeDBHeight, stakeDBHash) \<Rightarrow>
           (case GetBlock rpc stakeDBHash of
              None \<Rightarrow> Inl ()
            | Some blk \<Rightarrow>
                (case LoadBestNode ffl s stakeDBHeight stakeDBHash blk of Inl e \<Rightarrow> Inl () | Inr n \<Rightarrow> Inr n)))
       (dbState env s)"

definition sd_Open ::
  "('n, 's, 'd, 'f) stake_env \<Rightarrow> ('n, 's) ffldb \<Rightarrow> node_client \<Rightarrow> (open_error + 'n \<times> 's) option" where
  "sd_Open env ffl rpc =
     (let opened =
        (case ffl_Open ffl of
           Inr s \<Rightarrow> Inr s
         | Inl err \<Rightarrow>
             if contains_str ''resource temporarily unavailable'' err
                \<or> contains_str ''is being used by another process'' err
             then Inl AlreadyOpened
             else case ffl_Create ffl of Inl e \<Rightarrow> Inl (CreateFailed e) | Inr s \<Rightarrow> Inr s)
      in case opened of
           Inl e \<Rightarrow> Some (Inl e)
         | Inr s \<Rightarrow>
             map_option (\<lambda>r. case r of
                 Inr n \<Rightarrow> Inr (n, s)
               | Inl _ \<Rightarrow> (case InitDatabaseState ffl s of Inl e \<Rightarrow> Inl (InitFailed e) | Inr ns \<Rightarrow> Inr ns))
               (load_best env ffl rpc s))"

section \<open>Recovery\<close>

text \<open>Rolling the stake database back to the tip of the ticket pool; the fuel is the number of turns.\<close>

fun roll_back ::
  "('n, 's, 'd, 'f) stake_env \<Rightarrow> node_client \<Rightarrow> nat \<Rightarrow> ('n, 's, 'd, 'f) StakeDatabase \<Rightarrow> ('n, 's, 'd, 'f) sd_result" where
  "roll_back env rpc 0 db =
     (if Height env db > tip (PoolDB db) then Some (db, Some OutOfFuel) else Some (db, None))"
| "roll_back env rpc (Suc fuel) db =
     (if Height env db > tip (PoolDB db) then
        (case disconnectBlock env rpc True db of
           None \<Rightarrow> None
         | Some (db1, Some err) \<Rightarrow> Some (db1, Some err)
         | Some (db1, None) \<Rightarrow> roll_back env rpc fuel db1)
      else Some (db, None))"

text \<open>Trimming the ticket pool to a height.\<close>

fun trim_back :: "int \<Rightarrow> nat \<Rightarrow> 'd TicketPool \<Rightarrow> ('d TicketPool \<times> bool) option" where
  "trim_back h 0 tp = Some (tp, tip tp > h)"
| "trim_back h (Suc fuel) tp =
     (if tip tp > h then
        (case Trim tp of (tp1, Inl e) \<Rightarrow> None | (tp1, Inr _) \<Rightarrow> trim_back h fuel tp1)
      else Some (tp, False))"

definition match_heights ::
  "('n, 's, 'd, 'f) stake_env \<Rightarrow> node_client \<Rightarrow> ('n, 's, 'd, 'f) StakeDatabase \<Rightarrow> ('n, 's, 'd, 'f) sd_result" where
  "match_heights env rpc db =
     (case roll_back env rpc (nat (Height env db - tip (PoolDB db))) db of
        None \<Rightarrow> None
      | Some (db1, Some err) \<Rightarrow> Some (db1, Some err)
      | Some (db1, None) \<Rightarrow>
          (case trim_back (Height env db1) (nat (tip (PoolDB db1) - Height env db1)) (PoolDB db1) of
             None \<Rightarrow> None
           | Some (tp, stuck) \<Rightarrow>
               let db2 = db1\<lparr>PoolDB := tp\<rparr>
               in if stuck then Some (db2, Some OutOfFuel)
                  else if tip tp \<noteq> Height env db2
                  then Some (db2, Some (HeightMismatch (Height env db2) (tip tp)))
                  else Some (db2, None)))"

text \<open>The height that \<open>NewStakeDatabase\<close> returns beside the database.\<close>

definition NewStakeDatabase ::
  "('n, 's, 'd, 'f) stake_env \<Rightarrow> node_client \<Rightarrow> ('n, 's, 'd, 'f) StakeDatabase
     \<Rightarrow> (('n, 's, 'd, 'f) StakeDatabase option \<times> int \<times> sd_error option) option" where
  "NewStakeDatabase env rpc db =
     (case match_heights env rpc db of
        None \<Rightarrow> None
      | Some (db1, Some (HeightMismatch a b)) \<Rightarrow> Some (None, if b > a then a else -1, Some (HeightMismatch a b))
      | Some (db1, Some err) \<Rightarrow> Some (None, tip (PoolDB db1), Some err)
      | Some (db1, None) \<Rightarrow>
          (case AdvanceToTip (PoolDB db1) of
             (tp, height, Some e) \<Rightarrow> Some (None, height, Some (PoolError e))
           | (tp, height, None) \<Rightarrow>
               map_option (\<lambda>(db2, err). (Some db2, height, err))
                 (PopulateLiveTicketCache env rpc (db1\<lparr>PoolDB := tp\<rparr>))))"

text \<open>\<open>LoadAndRecover\<close>: its rewind to the given height is the loop of \<open>Rewind\<close>.\<close>

definition LoadAndRecover ::
  "('n, 's, 'd, 'f) stake_env \<Rightarrow> node_client \<Rightarrow> int \<Rightarrow> ('n, 's, 'd, 'f) StakeDatabase \<Rightarrow> ('n, 's, 'd, 'f) sd_result" where
  "LoadAndRecover env rpc toHeight db =
     (let toHeight = (if toHeight < 0 then 0 else toHeight);
          toHeight = (if toHeight > Height env db then Height env db else toHeight);
          toHeight = (if toHeight > tip (PoolDB db) then tip (PoolDB db) else toHeight)
      in case match_heights env rpc db of
           None \<Rightarrow> None
         | Some (db1, Some err) \<Rightarrow> Some (db1, Some err)
         | Some (db1, None) \<Rightarrow>
             (case Rewind env rpc toHeight True db1 of
                None \<Rightarrow> None
              | Some (db2, Some err) \<Rightarrow> Some (db2, Some err)
              | Some (db2, None) \<Rightarrow>
                  (case AdvanceToTip (PoolDB db2) of
                     (tp, stopHeight, None) \<Rightarrow> PopulateLiveTicketCache env rpc (db2\<lparr>PoolDB := tp\<rparr>)
                   | (tp, stopHeight, Some e) \<Rightarrow>
                       (case Rewind env rpc (stopHeight - 1) True (db2\<lparr>PoolDB := tp\<rparr>) of
                          None \<Rightarrow> None
                        | Some (db3, Some err) \<Rightarrow> Some (db3, Some err)
                        | Some (db3, None) \<Rightarrow> PopulateLiveTicketCache env rpc db3))))"

section \<open>The loops end\<close>

text \<open>The errors that only the model has, and the one that recovery must exclude.\<close>

definition loop_error :: "sd_error \<Rightarrow> bool" where
  "loop_error e \<longleftrightarrow> (case e of OutOfFuel \<Rightarrow> True | HeightMismatch a b \<Rightarrow> True | _ \<Rightarrow> False)"

lemma DBTipBlockHeader_error: "DBTipBlockHeader env rpc st = Some (Inl e) \<Longrightarrow> e = MissingChainState \<or> e = RpcError"
  by (cases "dbState env st"; cases "the (dbState env st)")
    (auto simp: DBTipBlockHeader_def dbState_def split: option.splits if_splits)

lemma dbPrevBlock_error:
  assumes "dbPrevBlock env rpc st = Some (Inl e)"
  shows "\<not> loop_error e"
proof -
  obtain r where r: "DBTipBlockHeader env rpc st = Some r" using assms by (auto simp: dbPrevBlock_def)
  have "e = MissingChainState \<or> e = RpcError"
  proof (cases r)
    case (Inl x)
    then show ?thesis using assms r DBTipBlockHeader_error [of env rpc st x] by (simp add: dbPrevBlock_def)
  next
    case (Inr h)
    then show ?thesis using assms r by (simp add: dbPrevBlock_def split: option.splits)
  qed
  then show ?thesis by (auto simp: loop_error_def)
qed

lemma disconnectBlock_error: "disconnectBlock env rpc neg db = Some (db', Some e) \<Longrightarrow> \<not> loop_error e"
  by (auto simp: disconnectBlock_def Let_def loop_error_def split: bind_splits sum.splits option.splits if_splits
      dest!: dbPrevBlock_error)

text \<open>
  The heights do not depend on what the diffs say, only on how many there are: a log that was not written
  correctly is trimmed like any other. Trimming keeps the shape of the pool, and it keeps a pool that was
  loaded from the diff database, and not advanced yet, in that state.
\<close>

definition tp_shape :: "'d TicketPool \<Rightarrow> bool" where
  "tp_shape tp \<longleftrightarrow> tip tp = int (length (diffs tp)) \<and> 0 \<le> cursor tp \<and> cursor tp \<le> tip tp"

definition loaded :: "PoolDiff list \<Rightarrow> 'd \<Rightarrow> 'd TicketPool \<Rightarrow> bool" where
  "loaded ds kv tp \<longleftrightarrow> (\<exists>n. tp = NewTicketPool (take n ds) kv)"

lemma retreat_shape:
  assumes "0 < cursor tp" and "cursor tp \<le> int (length (diffs tp))" and "retreat tp = (tp', e)"
  shows "tip tp' = tip tp \<and> diffs tp' = diffs tp \<and> e \<noteq> Some PanicIndex \<and> cursor tp' = cursor tp - 1"
  using assms by (auto simp: retreat_def applyDiff_eq Let_def split: if_splits)

lemma retreat_loop_shape:
  "0 \<le> h \<Longrightarrow> 0 \<le> cursor tp \<Longrightarrow> cursor tp \<le> int (length (diffs tp)) \<Longrightarrow> retreat_loop h tp = (tp', e)
     \<Longrightarrow> tip tp' = tip tp \<and> diffs tp' = diffs tp \<and> e \<noteq> Some PanicIndex \<and> 0 \<le> cursor tp'
       \<and> cursor tp' \<le> cursor tp \<and> (h < cursor tp \<longrightarrow> cursor tp' < cursor tp)"
proof (induction h tp arbitrary: tp' e rule: retreat_loop.induct)
  case (1 h tp)
  show ?case
  proof (cases "h < cursor tp")
    case False
    then show ?thesis using "1.prems" by (simp add: retreat_loop.simps [of h tp])
  next
    case True
    obtain tp1 e1 where r: "retreat tp = (tp1, e1)" by fastforce
    have pos: "0 < cursor tp" using True "1.prems"(1) by simp
    note sh = retreat_shape [OF pos "1.prems"(3) r]
    show ?thesis
    proof (cases e1)
      case None
      then have "retreat_loop h tp1 = (tp', e)" using "1.prems"(4) True r by (simp add: retreat_loop.simps [of h tp])
      from "1.IH" [OF True r [unfolded None, symmetric] refl "1.prems"(1) _ _ this] sh pos "1.prems"(3) show ?thesis by auto
    next
      case (Some x)
      then show ?thesis using "1.prems"(4) True r sh pos by (simp add: retreat_loop.simps [of h tp])
    qed
  qed
qed

lemma Trim_shape:
  assumes "tp_shape tp" and "0 < tip tp"
  shows "\<exists>tp'. Trim tp = (tp', Inr (tip tp - 1, List.last (diffs tp))) \<and> tp_shape tp' \<and> tip tp' = tip tp - 1"
proof -
  let ?tp1 = "tp\<lparr>tip := tip tp - 1\<rparr>"
  have sh: "tip tp = int (length (diffs tp))" "0 \<le> cursor tp" "cursor tp \<le> tip tp" "diffs tp \<noteq> []"
    using assms by (auto simp: tp_shape_def)
  have m: "0 \<le> maxCursor ?tp1" "maxCursor ?tp1 \<le> tip tp - 1" using assms(2) by (auto simp: maxCursor_def)
  obtain tp2 e where r: "(if cursor ?tp1 > maxCursor ?tp1 then retreatTo (maxCursor ?tp1) ?tp1 else (?tp1, None)) = (tp2, e)"
    by fastforce
  have tp2: "tip tp2 = tip tp - 1 \<and> diffs tp2 = diffs tp \<and> e \<noteq> Some PanicIndex \<and> 0 \<le> cursor tp2 \<and> cursor tp2 \<le> tip tp - 1"
  proof (cases "cursor tp > maxCursor ?tp1")
    case True
    then have "retreat_loop (maxCursor ?tp1) ?tp1 = (tp2, e)" using r m by (simp add: retreatTo_def)
    from retreat_loop_shape [OF m(1) _ _ this] True sh show ?thesis by auto
  next
    case False
    then show ?thesis using r sh m by auto
  qed
  have g: "\<not> (tip tp = 0 \<or> diffs tp = [])" using sh(4) assms(2) by simp
  have "Trim tp = (tp2\<lparr>diffs := butlast (diffs tp2)\<rparr>, Inr (tip tp2, List.last (diffs tp2)))"
    unfolding Trim_def if_not_P [OF g] Let_def r prod.case using tp2 by simp
  then show ?thesis using sh tp2 by (auto simp: tp_shape_def)
qed

lemma Trim_loaded: "loaded ds kv tp \<Longrightarrow> loaded ds kv (fst (Trim tp))"
proof -
  assume "loaded ds kv tp"
  then obtain n where tp: "tp = NewTicketPool (take n ds) kv" by (auto simp: loaded_def)
  show ?thesis
  proof (cases "take n ds = []")
    case True
    then show ?thesis using tp by (auto simp: loaded_def Trim_def NewTicketPool_def)
  next
    case False
    define xs where "xs = take n ds"
    have tip: "tip tp = int (length xs)" "diffs tp = xs" "cursor tp = 0" "0 < length xs"
      using False by (simp_all add: tp xs_def NewTicketPool_def)
    have c: "\<not> cursor (tp\<lparr>tip := tip tp - 1\<rparr>) > maxCursor (tp\<lparr>tip := tip tp - 1\<rparr>)"
      using tip by (cases xs) (simp_all add: maxCursor_def)
    have g: "\<not> (tip tp = 0 \<or> diffs tp = [])" using tip by simp
    have "fst (Trim tp) = (tp\<lparr>tip := tip tp - 1\<rparr>)\<lparr>diffs := butlast xs\<rparr>"
      unfolding Trim_def if_not_P [OF g] Let_def if_not_P [OF c] prod.case using tip(2) by simp
    also have "\<dots> = NewTicketPool (butlast xs) kv"
      using tip(4) unfolding tp xs_def [symmetric] by (cases xs) (simp_all add: NewTicketPool_def)
    finally show ?thesis unfolding loaded_def xs_def butlast_conv_take take_take by blast
  qed
qed

locale pool_kept =
  fixes J :: "'d TicketPool \<Rightarrow> bool"
  assumes kept_shape: "J tp \<Longrightarrow> tp_shape tp"
    and kept_Trim: "J tp \<Longrightarrow> J (fst (Trim tp))"
begin

lemma Trim_kept:
  assumes "J tp" and "0 < tip tp"
  obtains tp' where "Trim tp = (tp', Inr (tip tp - 1, List.last (diffs tp)))" "J tp'" "tip tp' = tip tp - 1"
  using Trim_shape [OF kept_shape [OF assms(1)] assms(2)] kept_Trim [OF assms(1)] by fastforce

lemma trim_loop_kept:
  "J tp \<Longrightarrow> trim_loop p (tip tp) tp = Some (tp', undos) \<Longrightarrow> J tp' \<and> tip tp' = min p (tip tp) \<and> (p < tip tp \<longrightarrow> 0 \<le> p)"
proof (induction "nat (tip tp - p)" arbitrary: tp undos rule: less_induct)
  case less
  show ?case
  proof (cases "tip tp > p")
    case False
    then show ?thesis using less.prems by (simp add: trim_loop.simps [of p "tip tp" tp])
  next
    case True
    have nonneg: "0 \<le> tip tp" using kept_shape [OF less.prems(1)] by (simp add: tp_shape_def)
    have "0 < tip tp"
    proof (rule ccontr)
      assume "\<not> 0 < tip tp"
      then have "Trim tp = (tp, Inr (tip tp, \<lparr>In = [], Out = []\<rparr>))" using nonneg by (simp add: Trim_def)
      then show False using less.prems(2) True by (simp add: trim_loop.simps [of p "tip tp" tp])
    qed
    from Trim_kept [OF less.prems(1) this] obtain tp1
      where t: "Trim tp = (tp1, Inr (tip tp - 1, List.last (diffs tp)))" "J tp1" "tip tp1 = tip tp - 1" .
    obtain us where "trim_loop p (tip tp1) tp1 = Some (tp', us)"
      using less.prems(2) True t(3) by (auto simp: trim_loop.simps [of p "tip tp" tp] t(1))
    from less.hyps [OF _ t(2) this] True t(3) \<open>0 < tip tp\<close> show ?thesis by auto
  qed
qed

lemma disconnectBlock_kept:
  assumes "disconnectBlock env rpc neg db = Some (db', None)" and "node_laws env" and "J (PoolDB db)"
  shows "J (PoolDB db')" "Height env db' = Height env db - 1" "tip (PoolDB db') = min (Height env db - 1) (tip (PoolDB db))"
proof -
  from assms(1) obtain tp undos db2 where
    tr: "trim_loop (Height env db - 1) (tip (PoolDB db)) (PoolDB db) = Some (tp, undos)"
    and db2: "if neg then db2 = db\<lparr>PoolDB := tp\<rparr> else undo_all rpc undos (db\<lparr>PoolDB := tp\<rparr>) = Some db2"
    and db': "PoolDB db' = PoolDB db2"
    and node: "\<exists>iv. DisconnectNode env (BestNode db) iv (stakeDB db) = Inr (Some (BestNode db'))"
    by (cases rule: disconnectBlock_cases) auto
  have "PoolDB db' = tp" using db2 db' undo_all_frame [of rpc undos "db\<lparr>PoolDB := tp\<rparr>" db2] by (auto split: if_splits)
  then show "J (PoolDB db')" "tip (PoolDB db') = min (Height env db - 1) (tip (PoolDB db))"
    using trim_loop_kept [OF assms(3) tr] by simp_all
  show "Height env db' = Height env db - 1" using node assms(2) unfolding node_laws_def Height_def by blast
qed

lemma roll_back_kept:
  assumes "node_laws env" and "J (PoolDB db)" and "Height env db \<le> tip (PoolDB db) + int fuel"
    and "roll_back env rpc fuel db = Some (db', err)"
  shows "case err of Some e \<Rightarrow> \<not> loop_error e
    | None \<Rightarrow> J (PoolDB db') \<and> tip (PoolDB db') = tip (PoolDB db) \<and> Height env db' = min (Height env db) (tip (PoolDB db))"
  using assms(2-)
proof (induction fuel arbitrary: db)
  case 0
  then show ?case by (auto split: if_splits)
next
  case (Suc fuel)
  show ?case
  proof (cases "Height env db > tip (PoolDB db)")
    case False
    then show ?thesis using Suc.prems by auto
  next
    case True
    then obtain db1 e where d: "disconnectBlock env rpc True db = Some (db1, e)"
      using Suc.prems(3) by (auto split: option.splits)
    show ?thesis
    proof (cases e)
      case None
      note st = disconnectBlock_kept [OF d [unfolded None] assms(1) Suc.prems(1)]
      have "roll_back env rpc fuel db1 = Some (db', err)" using Suc.prems(3) True d None by simp
      moreover have "tip (PoolDB db1) = tip (PoolDB db)" using st(3) True by simp
      ultimately show ?thesis using Suc.IH [of db1] st(1,2) Suc.prems(2) True by (auto split: option.splits)
    next
      case (Some x)
      then show ?thesis using Suc.prems(3) True d disconnectBlock_error [of env rpc _ db db1 x] by auto
    qed
  qed
qed

lemma trim_back_kept:
  assumes "J tp" and "0 \<le> h" and "tip tp \<le> h + int fuel"
  shows "\<exists>tp'. trim_back h fuel tp = Some (tp', False) \<and> J tp' \<and> tip tp' = min h (tip tp)"
  using assms
proof (induction fuel arbitrary: tp)
  case 0
  then show ?case by simp
next
  case (Suc fuel)
  show ?case
  proof (cases "tip tp > h")
    case False
    then show ?thesis using Suc.prems by simp
  next
    case True
    then have "0 < tip tp" using Suc.prems(2) by simp
    from Trim_kept [OF Suc.prems(1) this] obtain tp1
      where t: "Trim tp = (tp1, Inr (tip tp - 1, List.last (diffs tp)))" "J tp1" "tip tp1 = tip tp - 1" .
    then show ?thesis using Suc.IH [OF t(2) Suc.prems(2)] True Suc.prems(3) by auto
  qed
qed

lemma match_heights_kept:
  assumes "node_laws env" and "J (PoolDB db)" and "0 \<le> Height env db" and "match_heights env rpc db = Some (db', err)"
  shows "case err of Some e \<Rightarrow> \<not> loop_error e
    | None \<Rightarrow> J (PoolDB db') \<and> tip (PoolDB db') = Height env db' \<and> Height env db' = min (Height env db) (tip (PoolDB db))"
proof -
  from assms(4) obtain db1 e where r: "roll_back env rpc (nat (Height env db - tip (PoolDB db))) db = Some (db1, e)"
    by (auto simp: match_heights_def split: option.splits)
  have roll: "case e of Some e \<Rightarrow> \<not> loop_error e
    | None \<Rightarrow> J (PoolDB db1) \<and> tip (PoolDB db1) = tip (PoolDB db) \<and> Height env db1 = min (Height env db) (tip (PoolDB db))"
    by (rule roll_back_kept [OF assms(1,2) _ r]) simp
  show ?thesis
  proof (cases e)
    case (Some x)
    then show ?thesis using assms(4) r roll by (auto simp: match_heights_def)
  next
    case None
    have h0: "0 \<le> Height env db1" using roll None kept_shape [OF assms(2)] assms(3) by (simp add: tp_shape_def)
    obtain tp where tp: "trim_back (Height env db1) (nat (tip (PoolDB db1) - Height env db1)) (PoolDB db1) = Some (tp, False)"
      "J tp" "tip tp = min (Height env db1) (tip (PoolDB db1))"
      using trim_back_kept [OF _ h0, of "PoolDB db1" "nat (tip (PoolDB db1) - Height env db1)"] roll None by auto
    then show ?thesis
      using assms(4) r roll None by (auto simp: match_heights_def Let_def Height_def split: if_splits)
  qed
qed

lemma rewind_loop_kept:
  assumes "node_laws env" and "J (PoolDB db)" and "tip (PoolDB db) = Height env db" and "Height env db \<le> to0 + int fuel"
    and "rewind_loop env rpc to0 neg fuel db = Some (db', err)"
  shows "case err of Some e \<Rightarrow> \<not> loop_error e
    | None \<Rightarrow> J (PoolDB db') \<and> tip (PoolDB db') = Height env db' \<and> Height env db' = min (Height env db) to0"
  using assms(2-)
proof (induction fuel arbitrary: db)
  case 0
  then show ?case by (auto split: if_splits)
next
  case (Suc fuel)
  show ?case
  proof (cases "to0 < Height env db")
    case False
    then show ?thesis using Suc.prems by auto
  next
    case True
    then obtain db1 e where d: "disconnectBlock env rpc neg db = Some (db1, e)"
      using Suc.prems(4) by (auto split: option.splits)
    show ?thesis
    proof (cases e)
      case None
      note st = disconnectBlock_kept [OF d [unfolded None] assms(1) Suc.prems(1)]
      have tip1: "tip (PoolDB db1) = Height env db1" using st(2,3) Suc.prems(2) by simp
      then have "rewind_loop env rpc to0 neg fuel db1 = Some (db', err)" using Suc.prems(4) True d None by simp
      from Suc.IH [OF st(1) tip1 _ this] st(2) Suc.prems(3) True show ?thesis by (auto split: option.splits)
    next
      case (Some x)
      then show ?thesis using Suc.prems(4) True d disconnectBlock_error [of env rpc _ db db1 x] by auto
    qed
  qed
qed

lemma Rewind_kept:
  assumes "node_laws env" and "J (PoolDB db)" and "tip (PoolDB db) = Height env db" and "Rewind env rpc to0 neg db = Some (db', err)"
  shows "case err of Some e \<Rightarrow> \<not> loop_error e
    | None \<Rightarrow> J (PoolDB db') \<and> tip (PoolDB db') = Height env db' \<and> Height env db' = min (Height env db) to0"
  by (rule rewind_loop_kept [OF assms(1-3) _ assms(4) [unfolded Rewind_def]]) simp

end

interpretation shape: pool_kept tp_shape
proof
  show "tp_shape (fst (Trim tp))" if "tp_shape tp" for tp :: "'d TicketPool"
  proof (cases "0 < tip tp")
    case True
    then show ?thesis using Trim_shape [OF that] by fastforce
  next
    case False
    then have "Trim tp = (tp, Inr (tip tp, \<lparr>In = [], Out = []\<rparr>))" using that by (simp add: Trim_def tp_shape_def)
    then show ?thesis using that by simp
  qed
qed

interpretation ld: pool_kept "loaded ds kv" for ds :: "PoolDiff list" and kv :: 'd
proof
  show "tp_shape tp" if "loaded ds kv tp" for tp using that by (auto simp: loaded_def tp_shape_def NewTicketPool_def)
qed (rule Trim_loaded)

lemma loaded_tip: "loaded ds kv tp \<Longrightarrow> tp = NewTicketPool (take (nat (tip tp)) ds) kv"
proof -
  assume "loaded ds kv tp"
  then obtain n where tp: "tp = NewTicketPool (take n ds) kv" by (auto simp: loaded_def)
  then have "nat (tip tp) = min (length ds) n" by (simp add: NewTicketPool_def)
  moreover have "take (min (length ds) n) ds = take n ds" by (simp add: min_def)
  ultimately show ?thesis using tp by simp
qed

lemma populate_failed: "populate env rpc ts cv True = Some (cv', b) \<Longrightarrow> b"
  by (induction ts arbitrary: cv) (auto simp: Let_def split: option.splits if_splits)

lemma populate_dom:
  "populate env rpc ts cv failed = Some (cv', False) \<Longrightarrow> dom (fst cv') = dom (fst cv) \<union> set ts"
proof (induction ts arbitrary: cv failed)
  case Nil
  then show ?case by simp
next
  case (Cons t ts)
  obtain tx where "GetRawTransaction rpc t = Some tx"
    using Cons.prems populate_failed [of env rpc ts cv cv' False] by (cases "GetRawTransaction rpc t") auto
  then have "populate env rpc ts ((fst cv)(t \<mapsto> txo_Value (txOut tx ! 0)), wrap64 (snd cv + txo_Value (txOut tx ! 0))) failed
      = Some (cv', False)"
    using Cons.prems by (simp add: Let_def split: if_splits)
  from Cons.IH [OF this, unfolded fst_conv dom_fun_upd] show ?case by simp
qed

lemma Populate_result:
  assumes "PopulateLiveTicketCache env rpc db = Some (db', err)"
  shows "BestNode db' = BestNode db" "PoolDB db' = PoolDB db" "err = None \<or> err = Some RpcError"
    "err = None \<Longrightarrow> dom (liveTicketCache db') = set (node_LiveTickets env (BestNode db))"
proof -
  obtain cv failed where p: "populate env rpc (node_LiveTickets env (BestNode db)) (Map.empty, 0) False = Some (cv, failed)"
    "db' = db\<lparr>liveTicketCache := fst cv, poolValue := snd cv\<rparr>" "err = (if failed then Some RpcError else None)"
    using assms by (auto simp: PopulateLiveTicketCache_def)
  then show "BestNode db' = BestNode db" "PoolDB db' = PoolDB db" "err = None \<or> err = Some RpcError" by simp_all
  show "dom (liveTicketCache db') = set (node_LiveTickets env (BestNode db))" if "err = None"
    using populate_dom [of env rpc "node_LiveTickets env (BestNode db)" "(Map.empty, 0)" False cv] p that
    by (simp split: if_splits)
qed

lemma advance_loop_shape:
  "0 \<le> cursor tp \<Longrightarrow> advance_loop h tp = (tp', e) \<Longrightarrow> h \<le> tip tp
     \<Longrightarrow> tip tp' = tip tp \<and> diffs tp' = diffs tp \<and> 0 \<le> cursor tp' \<and> (cursor tp \<le> tip tp \<longrightarrow> cursor tp' \<le> tip tp)"
proof (induction h tp arbitrary: tp' e rule: advance_loop.induct)
  case (1 h tp)
  show ?case
  proof (cases "cursor tp < h")
    case False
    then show ?thesis using "1.prems" by (simp add: advance_loop.simps [of h tp])
  next
    case True
    obtain tp1 e1 where a: "advance tp = (tp1, e1)" by fastforce
    have sh: "tip tp1 = tip tp" "diffs tp1 = diffs tp" "0 \<le> cursor tp1" "cursor tp1 \<le> tip tp"
      using a True "1.prems"(1,3) by (auto simp: advance_def applyDiff_eq Let_def split: if_splits)
    show ?thesis
    proof (cases e1)
      case None
      then have "advance_loop h tp1 = (tp', e)" using "1.prems"(2) True a by (simp add: advance_loop.simps [of h tp])
      from "1.IH" [OF True a [unfolded None, symmetric] refl sh(3) this] sh "1.prems"(3) show ?thesis by simp
    next
      case (Some x)
      then show ?thesis using "1.prems"(2) True a sh by (simp add: advance_loop.simps [of h tp])
    qed
  qed
qed

lemma AdvanceToTip_shape:
  assumes "tp_shape tp" and "AdvanceToTip tp = (tp', stop, e)"
  shows "tp_shape tp'" "tip tp' = tip tp" "stop \<le> tip tp"
  using assms advance_loop_shape [of tp "tip tp"]
  by (auto simp: AdvanceToTip_def advanceTo_def tp_shape_def split: prod.splits)

text \<open>C6. \<open>LoadAndRecover\<close>, on a ticket pool loaded from any log of diffs, well-formed or not, unless it panics:
  no loop runs on for ever, the heights of the stake database and of the ticket pool never end up different, and
  when no error is reported both are at the same height and the live ticket cache holds the node's tickets
  at that height. The height is the requested one, lowered to the smaller of the heights they were found
  at, if the pool can be advanced that far through its diffs, and then the pool is advanced to it;
  otherwise it is one below the height at which the advance stopped. A log whose diffs up to that height
  fit each other can be advanced, so that the requested height is reached. Assumed are that the best
  node's height is not negative and that connecting and disconnecting move it by one.\<close>

theorem LoadAndRecover_correct:
  fixes db :: "('n, 's, 'd, 'f) StakeDatabase"
  assumes "node_laws env" and "PoolDB db = NewTicketPool ds kv" and "0 \<le> Height env db"
    and "LoadAndRecover env rpc toHeight db = Some (db', err)"
  defines "t \<equiv> min (max 0 toHeight) (min (Height env db) (int (length ds)))"
  shows "case err of
      Some e \<Rightarrow> e \<noteq> OutOfFuel \<and> (\<forall>a b. e \<noteq> HeightMismatch a b)
    | None \<Rightarrow> tip (PoolDB db') = Height env db'
        \<and> dom (liveTicketCache db') = set (node_LiveTickets env (BestNode db'))
        \<and> (case AdvanceToTip (NewTicketPool (take (nat t) ds) kv) of
             (tp, stop, None) \<Rightarrow> Height env db' = t \<and> PoolDB db' = tp
           | (tp, stop, Some e) \<Rightarrow> Height env db' = stop - 1 \<and> stop \<le> t)
        \<and> (valid_log diff_app diff_ok (take (nat t) ds) {} \<longrightarrow> Height env db' = t
             \<and> cursor (PoolDB db') = t \<and> pool (PoolDB db') = replay diff_app ds (nat t) {})"
proof -
  have noloop: "e \<noteq> OutOfFuel \<and> (\<forall>a b. e \<noteq> HeightMismatch a b)" if "\<not> loop_error e" for e
    using that by (auto simp: loop_error_def)
  have l: "loaded ds kv (PoolDB db)" "tip (PoolDB db) = int (length ds)"
    unfolding assms(2) loaded_def by (rule exI [of _ "length ds"]) (simp_all add: NewTicketPool_def)
  have t0: "0 \<le> t" "nat t \<le> length ds" using assms(3) by (auto simp: t_def)
  have tt: "(let toHeight = (if toHeight < 0 then 0 else toHeight);
          toHeight = (if toHeight > Height env db then Height env db else toHeight)
      in if toHeight > tip (PoolDB db) then tip (PoolDB db) else toHeight) = t"
    unfolding t_def Let_def l(2) by (simp add: min_def max_def)
  let ?tp = "NewTicketPool (take (nat t) ds) kv"
  obtain db1 e1 where m: "match_heights env rpc db = Some (db1, e1)"
    using assms(4) by (auto simp: LoadAndRecover_def Let_def split: option.splits)
  note mh = ld.match_heights_kept [OF assms(1) l(1) assms(3) m]
  show ?thesis
  proof (cases e1)
    case (Some e)
    then show ?thesis using assms(4) m mh noloop by (auto simp: LoadAndRecover_def Let_def)
  next
    case None
    then have k1: "loaded ds kv (PoolDB db1)" "tip (PoolDB db1) = Height env db1"
      and h1: "Height env db1 = min (Height env db) (int (length ds))" using mh l(2) by simp_all
    obtain db2 e2 where r: "Rewind env rpc t True db1 = Some (db2, e2)"
      using assms(4) m None tt by (auto simp: LoadAndRecover_def Let_def split: option.splits)
    note rw = ld.Rewind_kept [OF assms(1) k1 r]
    show ?thesis
    proof (cases e2)
      case (Some e)
      then show ?thesis
        using assms(4) m None tt r rw noloop by (auto simp: LoadAndRecover_def Let_def)
    next
      case none2: None
      have h2: "Height env db2 = t" "tip (PoolDB db2) = t" and k2: "loaded ds kv (PoolDB db2)"
        using rw none2 h1 by (auto simp: t_def)
      have tp2: "PoolDB db2 = ?tp" using loaded_tip [OF k2] unfolding h2(2) .
      obtain tp stop e3 where a: "AdvanceToTip ?tp = (tp, stop, e3)" by (metis prod_cases3)
      have sh2: "tp_shape ?tp" using ld.kept_shape [OF k2] unfolding tp2 .
      note sh = AdvanceToTip_shape [OF sh2 a]
      have tip2: "tip ?tp = t" using h2(2) unfolding tp2 .
      have valid: "e3 = None \<and> cursor tp = t \<and> pool tp = replay diff_app ds (nat t) {}" if "valid_diffs (take (nat t) ds)"
        using AdvanceToTip_result [OF NewTicketPool_inv [OF that], of kv] a t0 tip2
        by (auto simp: NewTicketPool_def replay_def min_def)
      let ?db3 = "db2\<lparr>PoolDB := tp\<rparr>"
      have H: "Height env ?db3 = t" using h2(1) by (simp add: Height_def)
      show ?thesis
      proof (cases e3)
        case none3: None
        then have p: "PopulateLiveTicketCache env rpc ?db3 = Some (db', err)"
          using assms(4) m None tt r none2 a tp2 by (auto simp: LoadAndRecover_def Let_def)
        note pop = Populate_result [OF p]
        have "Height env db' = t" "PoolDB db' = tp" using pop(1,2) H by (simp_all add: Height_def)
        then show ?thesis using pop(1,3,4) sh(2) tip2 a none3 valid by (auto split: option.split)
      next
        case (Some x)
        have "\<not> valid_diffs (take (nat t) ds)" using valid Some by auto
        obtain db4 e4 where r4: "Rewind env rpc (stop - 1) True ?db3 = Some (db4, e4)"
          using assms(4) m None tt r none2 a tp2 Some by (auto simp: LoadAndRecover_def Let_def split: option.splits)
        have "tip (PoolDB ?db3) = Height env ?db3" "tp_shape (PoolDB ?db3)" using sh tip2 H by simp_all
        note rw4 = shape.Rewind_kept [OF assms(1) this(2,1) r4, unfolded H]
        show ?thesis
        proof (cases e4)
          case (Some e)
          then show ?thesis
            using assms(4) m None tt r none2 a tp2 \<open>e3 = Some x\<close> r4 rw4 noloop by (auto simp: LoadAndRecover_def Let_def)
        next
          case none4: None
          then have p: "PopulateLiveTicketCache env rpc db4 = Some (db', err)"
            using assms(4) m None tt r none2 a tp2 Some r4 by (auto simp: LoadAndRecover_def Let_def)
          note pop = Populate_result [OF p]
          have "Height env db' = min t (stop - 1)" "tip (PoolDB db') = Height env db'"
            using pop(1,2) rw4 none4 by (simp_all add: Height_def)
          then show ?thesis using pop(1,3,4) sh(3) tip2 a Some \<open>\<not> valid_diffs (take (nat t) ds)\<close> by (auto split: option.split)
        qed
      qed
    qed
  qed
qed

definition ex_recovered :: "(int, int, unit, unit) StakeDatabase" where
  "ex_recovered = fst (the (LoadAndRecover ex_env ex_rpc 1 ex_db2))"

lemma ex_node:
  "node_Height ex_env n = n" "DisconnectNode ex_env n iv st = Inr (Some (n - 1))"
  "WriteDisconnectedBestNode ex_env n h ch st = Inr n" "GetRawTransaction ex_rpc h = Some ex_ticket"
  "txHash ex_env tx = ex_hash 99" "node_LiveTickets ex_env n = (if n = 1 then [ex_hash 99] else [])"
  by (simp_all add: ex_env_def ex_rpc_def)

lemma ex_prev: "dbPrevBlock ex_env ex_rpc 2 = Some (Inr (ex_block 1))"
  by (simp add: dbPrevBlock_def DBTipBlockHeader_def dbState_def ex_env_def ex_rpc_def)

lemma ex_pool2: "tp_inv (PoolDB ex_db2)"
  using sd_step_consistent [OF ex_steps(2) ex_laws ex_consistent1] by (simp add: consistent_def in_sync_def)

lemma ex_recover: "LoadAndRecover ex_env ex_rpc 1 ex_db2 = Some (ex_recovered, None)"
proof -
  obtain tp where tp: "trim_loop 1 2 (PoolDB ex_db2) = Some (tp, [\<lparr>In = [], Out = [ex_hash 99]\<rparr>])" "tip tp = 1" "tp_inv tp"
    using trim_loop_result [OF ex_pool2, of 1] by (auto simp: ex_connect2)
  have heights: "Height ex_env ex_db2 = 2" "tip (PoolDB ex_db2) = 2" by (simp_all add: Height_def ex_connect2 ex_node)
  have match: "match_heights ex_env ex_rpc ex_db2 = Some (ex_db2, None)"
    by (simp add: match_heights_def heights)
  have dis: "disconnectBlock ex_env ex_rpc True ex_db2 = Some (ex_db2\<lparr>PoolDB := tp, BestNode := 1, stakeDB := 1\<rparr>, None)"
    by (simp add: disconnectBlock_def ex_connect2 ex_prev tp ex_node ex_block_def Let_def)
  have rew: "Rewind ex_env ex_rpc 1 True ex_db2 = Some (ex_db2\<lparr>PoolDB := tp, BestNode := 1, stakeDB := 1\<rparr>, None)"
  proof -
    have "nat (Height ex_env ex_db2 - 1) = Suc 0" using heights by simp
    moreover have "Height ex_env (ex_db2\<lparr>PoolDB := tp, BestNode := 1, stakeDB := 1\<rparr>) = 1" by (simp add: Height_def ex_node)
    ultimately show ?thesis by (simp add: Rewind_def heights dis tp(2))
  qed
  show ?thesis
    unfolding ex_recovered_def
    by (simp add: LoadAndRecover_def heights match rew AdvanceToTip_result [OF tp(3)] tp(2) PopulateLiveTicketCache_def ex_node
        ex_ticket_def Let_def)
qed

definition ex_log :: "PoolDiff list" where
  "ex_log = [\<lparr>In = [ex_hash 99], Out = []\<rparr>, \<lparr>In = [], Out = [ex_hash 99]\<rparr>]"

lemma ex_loaded1: "PoolDB ex_db1 = NewTicketPool [\<lparr>In = [ex_hash 99], Out = []\<rparr>] ()"
  by (simp add: ex_db1_def ex_db0_def ex_defs connect_defs Let_def wrap64_def)

lemma ex_loaded2: "PoolDB ex_db2 = NewTicketPool ex_log ()"
  unfolding ex_log_def by (simp add: ex_db2_def ex_connect1 ex_loaded1 ex_defs connect_defs Let_def wrap64_def)

lemma ex_valid: "valid_diffs (take 1 ex_log)"
  by (simp add: ex_log_def diff_ok_def)

theorem LoadAndRecover_correct_witness:
  "Height ex_env ex_recovered = 1 \<and> tip (PoolDB ex_recovered) = 1 \<and> dom (liveTicketCache ex_recovered) = {ex_hash 99}"
proof -
  have heights: "Height ex_env ex_db2 = 2" "tip (PoolDB ex_db2) = 2" by (simp_all add: Height_def ex_connect2 ex_node)
  have "Height ex_env ex_recovered = 1 \<and> tip (PoolDB ex_recovered) = Height ex_env ex_recovered
     \<and> dom (liveTicketCache ex_recovered) = set (node_LiveTickets ex_env (BestNode ex_recovered))"
    using LoadAndRecover_correct [OF ex_laws ex_loaded2 _ ex_recover] heights ex_valid by (simp add: ex_log_def)
  then show ?thesis by (simp add: Height_def ex_node)
qed

section \<open>Switching to a side chain\<close>

record ReorgData =
  rd_CommonAncestor :: hash
  rd_OldChainHead :: hash
  rd_OldChainHeight :: int
  rd_OldChain :: "hash list"
  rd_NewChainHead :: hash
  rd_NewChainHeight :: int
  rd_NewChain :: "hash list"

fun connect_chain ::
  "('n, 's, 'd, 'f) stake_env \<Rightarrow> node_client \<Rightarrow> hash list \<Rightarrow> int \<Rightarrow> hash option \<Rightarrow> ('n, 's, 'd, 'f) StakeDatabase
     \<Rightarrow> (('n, 's, 'd, 'f) StakeDatabase \<times> (int \<times> hash option \<times> sd_error option)) option" where
  "connect_chain env rpc [] tipHeight tipHash db =
     (if Height env db \<noteq> tipHeight then None else Some (db, Height env db, tipHash, None))"
| "connect_chain env rpc (h # hs) tipHeight tipHash db =
     (case ConnectBlockHash env rpc h db of
        None \<Rightarrow> None
      | Some (db1, blk, Some err) \<Rightarrow>
          (case DBTipBlockHeader env rpc (stakeDB db1) of
             Some (Inr hdr) \<Rightarrow> Some (db1, Height env db1, Some (hdr_BlockHash hdr), Some (ConnectFailed h))
           | _ \<Rightarrow> None)
      | Some (db1, Some blk, None) \<Rightarrow> connect_chain env rpc hs (blk_Height blk) (Some (blk_Hash blk)) db1
      | Some (db1, None, None) \<Rightarrow> None)"

definition switchToSideChain ::
  "('n, 's, 'd, 'f) stake_env \<Rightarrow> node_client \<Rightarrow> ReorgData \<Rightarrow> ('n, 's, 'd, 'f) StakeDatabase
     \<Rightarrow> (('n, 's, 'd, 'f) StakeDatabase \<times> (int \<times> hash option \<times> sd_error option)) option" where
  "switchToSideChain env rpc reorg db =
     (if rd_NewChain reorg = [] then Some (db, 0, None, Some NoSideChain)
      else
        let commonAncestorHeight = rd_NewChainHeight reorg - int (length (rd_NewChain reorg))
        in case DisconnectBlocks env rpc (Height env db - commonAncestorHeight) db of
             None \<Rightarrow> None
           | Some (db1, Some err) \<Rightarrow> Some (db1, 0, None, Some err)
           | Some (db1, None) \<Rightarrow>
               if Height env db1 \<noteq> commonAncestorHeight then None
               else connect_chain env rpc (rd_NewChain reorg) 0 None db1)"

text \<open>The handler reads the tip hash through its pointer, which is nil on some error returns.\<close>

definition ChainMonitor_ReorgHandler ::
  "('n, 's, 'd, 'f) stake_env \<Rightarrow> node_client \<Rightarrow> ReorgData \<Rightarrow> ('n, 's, 'd, 'f) StakeDatabase
     \<Rightarrow> ('n, 's, 'd, 'f) sd_result" where
  "ChainMonitor_ReorgHandler env rpc reorg db =
     (case switchToSideChain env rpc reorg db of
        None \<Rightarrow> None
      | Some (db1, tipHeight, tipHash, err) \<Rightarrow> (case tipHash of None \<Rightarrow> None | Some _ \<Rightarrow> Some (db1, err)))"

section \<open>What a reorganization leaves\<close>

lemma ConnectBlock_tip:
  assumes "ConnectBlock env rpc blk db = Some (db', None)" and "node_laws env"
  shows "tip (PoolDB db') = Height env db'" "Height env db' = Height env db + 1"
    "\<exists>d. diffs (PoolDB db') = diffs (PoolDB db) @ [d]"
proof -
  from assms(1) obtain d iv sp rv where node: "ConnectNode env (BestNode db) iv sp rv (In d) = Inr (Some (BestNode db'))"
    and app: "Append (dbSet env) d (Height env db + 1) (PoolDB db) = (PoolDB db', None)"
    by (rule ConnectBlock_success) blast
  show h: "Height env db' = Height env db + 1" using assms(2) node unfolding node_laws_def Height_def by blast
  show "tip (PoolDB db') = Height env db'" "\<exists>d. diffs (PoolDB db') = diffs (PoolDB db) @ [d]"
    using Append_success [OF app] h by simp_all
qed

lemma connect_chain_result:
  assumes "connect_chain env rpc hs th tipHash db = Some (db', h', hash', None)" and "node_laws env"
    and "tip (PoolDB db) = Height env db"
  shows "tip (PoolDB db') = Height env db' \<and> Height env db' = Height env db + int (length hs) \<and> h' = Height env db'
    \<and> (\<exists>new. length new = length hs \<and> diffs (PoolDB db') = diffs (PoolDB db) @ new)"
  using assms(1,3)
proof (induction hs arbitrary: th tipHash db)
  case Nil
  then show ?case by (auto split: if_splits)
next
  case (Cons h hs)
  from Cons.prems(1) obtain db1 blk where c: "ConnectBlockHash env rpc h db = Some (db1, Some blk, None)"
    "connect_chain env rpc hs (blk_Height blk) (Some (blk_Hash blk)) db1 = Some (db', h', hash', None)"
    by (auto split: option.splits sum.splits)
  then have b: "ConnectBlock env rpc blk db = Some (db1, None)"
    by (auto simp: ConnectBlockHash_def split: option.splits)
  note st = ConnectBlock_tip [OF b assms(2)]
  from st(3) obtain d where d: "diffs (PoolDB db1) = diffs (PoolDB db) @ [d]" ..
  from Cons.IH [OF c(2) st(1)] obtain new where "length new = length hs" "diffs (PoolDB db') = diffs (PoolDB db1) @ new"
    "tip (PoolDB db') = Height env db'" "Height env db' = Height env db1 + int (length hs)" "h' = Height env db'" by blast
  then show ?case using st(2) d by (intro conjI exI [of _ "d # new"]) simp_all
qed

lemma disconnect_loop_result:
  assumes "disconnect_loop env rpc n db = Some (db', None)" and "node_laws env" and "in_sync env db"
  shows "in_sync env db' \<and> Height env db' = Height env db - int n
    \<and> diffs (PoolDB db') = take (length (diffs (PoolDB db)) - n) (diffs (PoolDB db))"
  using assms(1,3)
proof (induction n arbitrary: db)
  case 0
  then show ?case by simp
next
  case (Suc n)
  from Suc.prems(1) obtain db1 where d: "disconnectBlock env rpc False db = Some (db1, None)"
    "disconnect_loop env rpc n db1 = Some (db', None)" by (auto split: option.splits)
  have inv: "tp_inv (PoolDB db)" "tip (PoolDB db) = Height env db" using Suc.prems(2) by (simp_all add: in_sync_def)
  note st = disconnectBlock_success [OF d(1) assms(2) inv(1)]
  have sync: "in_sync env db1" using st(2,3,4) inv(2) by (simp add: in_sync_def)
  have "nat (Height env db - 1) = length (diffs (PoolDB db)) - 1" using inv by (simp add: tp_inv_def)
  then have "diffs (PoolDB db1) = take (length (diffs (PoolDB db)) - 1) (diffs (PoolDB db))" using st(5) by simp
  with Suc.IH [OF d(2) sync] st(2) show ?case by (simp add: min_def)
qed

lemma ReorgHandler_result:
  assumes "node_laws env" and "in_sync env db" and "ChainMonitor_ReorgHandler env rpc reorg db = Some (db', None)"
  shows "Height env db' = rd_NewChainHeight reorg \<and> tip (PoolDB db') = rd_NewChainHeight reorg
    \<and> (\<exists>new. length new = length (rd_NewChain reorg)
        \<and> diffs (PoolDB db') = take (nat (rd_NewChainHeight reorg) - length (rd_NewChain reorg)) (diffs (PoolDB db)) @ new)"
proof -
  let ?a = "rd_NewChainHeight reorg - int (length (rd_NewChain reorg))"
  obtain db1 h hash0 where d: "DisconnectBlocks env rpc (Height env db - ?a) db = Some (db1, None)"
    and a: "Height env db1 = ?a" and c: "connect_chain env rpc (rd_NewChain reorg) 0 None db1 = Some (db', h, hash0, None)"
    using assms(3)
    by (auto simp: ChainMonitor_ReorgHandler_def switchToSideChain_def Let_def split: option.splits if_splits)
  note dis = disconnect_loop_result [OF d [unfolded DisconnectBlocks_def] assms(1,2)]
  then have sync1: "tip (PoolDB db1) = Height env db1" by (simp add: in_sync_def)
  note con = connect_chain_result [OF c assms(1) sync1]
  have len: "int (length (diffs (PoolDB db))) = Height env db" "0 \<le> ?a"
    using assms(2) dis a by (auto simp: in_sync_def tp_inv_def)
  then have "length (diffs (PoolDB db)) - nat (Height env db - ?a) = nat (rd_NewChainHeight reorg) - length (rd_NewChain reorg)"
    using dis a by linarith
  then show ?thesis using con a dis by auto
qed

text \<open>A reorganization that the handler reports as done has replaced the right part of the chain: the stake
  database and the ticket pool are at the height of the new chain, the diffs up to the common
  ancestor are kept, and one diff follows for each block of the new chain.\<close>

theorem ReorgHandler_switches:
  assumes "node_laws env" and "in_sync env db" and "ChainMonitor_ReorgHandler env rpc reorg db = Some (db', None)"
  shows "Height env db' = rd_NewChainHeight reorg \<and> tip (PoolDB db') = rd_NewChainHeight reorg
    \<and> (\<exists>new. length new = length (rd_NewChain reorg)
        \<and> diffs (PoolDB db') = take (nat (rd_NewChainHeight reorg) - length (rd_NewChain reorg)) (diffs (PoolDB db)) @ new)"
  using assms by (rule ReorgHandler_result)

definition ex_reorg :: ReorgData where
  "ex_reorg = \<lparr>rd_CommonAncestor = ex_hash 1, rd_OldChainHead = ex_hash 2, rd_OldChainHeight = 2, rd_OldChain = [ex_hash 2],
     rd_NewChainHead = ex_hash 2, rd_NewChainHeight = 2, rd_NewChain = [ex_hash 2]\<rparr>"

definition ex_switched :: "(int, int, unit, unit) StakeDatabase" where
  "ex_switched = fst (the (ChainMonitor_ReorgHandler ex_env ex_rpc ex_reorg ex_db2))"

lemma ex_db3_fields:
  "BestNode ex_db3 = 1" "tip (PoolDB ex_db3) = 1" "liveTicketCache ex_db3 = [ex_hash 99 \<mapsto> 7]" "poolValue ex_db3 = 7"
  "Height ex_env ex_db3 = 1" "sd_blockCache ex_db3 = sd_blockCache ex_db2" "sd_poolInfo ex_db3 = sd_poolInfo ex_db2"
proof -
  obtain tp where tp: "trim_loop 1 2 (PoolDB ex_db2) = Some (tp, [\<lparr>In = [], Out = [ex_hash 99]\<rparr>])" "tip tp = 1"
    using trim_loop_result [OF ex_pool2, of 1] by (auto simp: ex_connect2)
  show "BestNode ex_db3 = 1" "tip (PoolDB ex_db3) = 1" "liveTicketCache ex_db3 = [ex_hash 99 \<mapsto> 7]" "poolValue ex_db3 = 7"
    "Height ex_env ex_db3 = 1" "sd_blockCache ex_db3 = sd_blockCache ex_db2" "sd_poolInfo ex_db3 = sd_poolInfo ex_db2"
    by (simp_all add: ex_db3_def disconnectBlock_def ex_connect2 ex_prev tp ex_node ex_ticket_def ex_block_def undoDiff_def
        sd_applyDiff_def Let_def Height_def wrap64_def)
qed

lemma ex_db2_fields: "sd_blockCache ex_db2 = [2 \<mapsto> ex_block 2]" "length (expireQueue (sd_poolInfo ex_db2)) = 2" "maxSize (sd_poolInfo ex_db2) = 513"
  by (simp_all add: ex_db2_def ex_connect1 ex_defs connect_defs Let_def wrap64_def)

lemma ex_reorg_run: "ChainMonitor_ReorgHandler ex_env ex_rpc ex_reorg ex_db2 = Some (ex_switched, None)"
proof -
  have "DisconnectBlocks ex_env ex_rpc 1 ex_db2 = Some (ex_db3, None)"
    by (simp add: DisconnectBlocks_def ex_disconnect)
  moreover have "\<exists>db. ConnectBlockHash ex_env ex_rpc (ex_hash 2) ex_db3 = Some (db, Some (ex_block 2), None) \<and> Height ex_env db = 2"
    by (simp add: ConnectBlockHash_def ex_db3_fields ex_db2_fields ex_defs connect_defs Let_def Height_def)
  ultimately show ?thesis
    by (auto simp: ex_switched_def ChainMonitor_ReorgHandler_def switchToSideChain_def ex_reorg_def ex_db3_fields
        ex_block_def Height_def ex_connect2 ex_node)
qed

theorem ReorgHandler_switches_witness: "Height ex_env ex_switched = 2 \<and> tip (PoolDB ex_switched) = 2"
proof -
  have "in_sync ex_env ex_db2" using ex_pool2 by (simp add: in_sync_def Height_def ex_connect2 ex_node)
  from ReorgHandler_switches [OF ex_laws this ex_reorg_run] show ?thesis by (simp add: ex_reorg_def)
qed

text \<open>When the switch fails before a block is connected, the handler dereferences a nil hash: an error that should be
  logged and returned ends the program.\<close>

lemma ReorgHandler_panics:
  assumes "DisconnectBlocks env rpc (Height env db - (rd_NewChainHeight reorg - int (length (rd_NewChain reorg)))) db = Some (db1, Some e)"
  shows "ChainMonitor_ReorgHandler env rpc reorg db = None"
  using assms by (simp add: ChainMonitor_ReorgHandler_def switchToSideChain_def Let_def)

end
