(* ===== verification/StakeWait.thy ===== *)
theory StakeWait
  imports StakeRuns
begin

text \<open>
  Waiting for a height (\<open>WaitForHeight\<close> and \<open>signalWaiters\<close> of \<open>stakedb/stakedb.go\<close>). The code reads the
  height of the database in one critical section and registers the waiter in another, so the two are
  two steps here, and other calls may run between them. A signal is a goroutine of its own.
\<close>

section \<open>The code\<close>

fun send_all :: "hash \<Rightarrow> nat list \<Rightarrow> (nat \<Rightarrow> hash option list) \<Rightarrow> (nat \<Rightarrow> hash option list) option" where
  "send_all h [] chans = Some chans"
| "send_all h (c # cs) chans = (if chans c \<noteq> [] then None else send_all h cs (chans(c := [Some h])))"

definition signalWaiters ::
  "int \<Rightarrow> hash \<Rightarrow> ('n, 's, 'd, 'f) StakeDatabase \<Rightarrow> ('n, 's, 'd, 'f) StakeDatabase option" where
  "signalWaiters height blockhash db =
     map_option (\<lambda>chans. db\<lparr>waitChans := chans, heightWaiters := (heightWaiters db)(height := [])\<rparr>)
       (send_all blockhash (heightWaiters db height) (waitChans db))"

text \<open>The second part of the call, after the height \<open>dbHeight\<close> was read: the new channel and its registration.\<close>

definition WaitForHeight ::
  "node_client \<Rightarrow> int \<Rightarrow> int \<Rightarrow> ('n, 's, 'd, 'f) StakeDatabase \<Rightarrow> (('n, 's, 'd, 'f) StakeDatabase \<times> nat) option" where
  "WaitForHeight rpc height dbHeight db =
     (let c = nextChan db;
          db1 = db\<lparr>nextChan := c + 1, waitChans := (waitChans db)(c := [])\<rparr>;
          registered = db1\<lparr>heightWaiters := (heightWaiters db1)(height := heightWaiters db1 height @ [c])\<rparr>
      in if dbHeight > height then Some (db1\<lparr>waitChans := (waitChans db1)(c := [None])\<rparr>, c)
         else if dbHeight = height then
           (case sd_block rpc height db of
              (None, _) \<Rightarrow> None
            | (Some blk, _) \<Rightarrow> Some (registered\<lparr>signals := signals registered @ [(height, blk_Hash blk)]\<rparr>, c))
         else Some (registered, c))"

section \<open>Interleavings\<close>

text \<open>The second component are the heights that callers have read and not yet used.\<close>

inductive wait_step :: "('n, 's, 'd, 'f) stake_env \<Rightarrow> ('n, 's, 'd, 'f) StakeDatabase \<times> (int \<times> int) list
    \<Rightarrow> ('n, 's, 'd, 'f) StakeDatabase \<times> (int \<times> int) list \<Rightarrow> bool" for env where
  wait_read: "wait_step env (db, rs) (db, rs @ [(height, Height env db)])"
| wait_register: "WaitForHeight rpc height dbHeight db = Some (db', c)
    \<Longrightarrow> wait_step env (db, xs @ (height, dbHeight) # ys) (db', xs @ ys)"
| wait_call: "sd_call env db db' \<Longrightarrow> wait_step env (db, rs) (db', rs)"
| wait_signal: "signals db = xs @ (h, x) # ys \<Longrightarrow> signalWaiters h x (db\<lparr>signals := xs @ ys\<rparr>) = Some db'
    \<Longrightarrow> wait_step env (db, rs) (db', rs)"
| wait_receive: "waitChans db c = v # vs \<Longrightarrow> wait_step env (db, rs) (db\<lparr>waitChans := (waitChans db)(c := vs)\<rparr>, rs)"

text \<open>Every registered channel is registered once and is empty.\<close>

definition waiters_ok :: "('n, 's, 'd, 'f) StakeDatabase \<Rightarrow> bool" where
  "waiters_ok db \<longleftrightarrow> (\<forall>h. distinct (heightWaiters db h) \<and> (\<forall>c\<in>set (heightWaiters db h). c < nextChan db \<and> waitChans db c = []))
     \<and> (\<forall>h h'. h \<noteq> h' \<longrightarrow> set (heightWaiters db h) \<inter> set (heightWaiters db h') = {})"

lemma send_all_result:
  assumes "distinct cs" and "\<And>c. c \<in> set cs \<Longrightarrow> chans c = []"
  shows "send_all h cs chans = Some (\<lambda>c. if c \<in> set cs then [Some h] else chans c)"
  using assms
proof (induction cs arbitrary: chans)
  case Nil
  then show ?case by simp
next
  case (Cons c cs)
  have "send_all h cs (chans(c := [Some h])) = Some (\<lambda>x. if x \<in> set cs then [Some h] else (chans(c := [Some h])) x)"
    by (rule Cons.IH) (use Cons.prems in auto)
  moreover have "(\<lambda>x. if x \<in> set cs then [Some h] else (chans(c := [Some h])) x)
      = (\<lambda>x. if x \<in> set (c # cs) then [Some h] else chans x)" by auto
  ultimately show ?case using Cons.prems by simp
qed

lemma signalWaiters_result:
  assumes "waiters_ok db"
  shows "signalWaiters h x db = Some (db\<lparr>waitChans := (\<lambda>c. if c \<in> set (heightWaiters db h) then [Some x] else waitChans db c),
    heightWaiters := (heightWaiters db)(h := [])\<rparr>)"
  using assms send_all_result [of "heightWaiters db h" "waitChans db" x] by (simp add: signalWaiters_def waiters_ok_def)

section \<open>Calls do not touch the waiters\<close>

lemma disconnectBlock_waiters:
  assumes "disconnectBlock env rpc neg db = Some (db', err)"
  shows "heightWaiters db' = heightWaiters db \<and> waitChans db' = waitChans db \<and> nextChan db' = nextChan db"
proof -
  have undo: "heightWaiters b = heightWaiters a \<and> waitChans b = waitChans a \<and> nextChan b = nextChan a"
    if "undo_all rpc ds a = Some b" for ds and a b :: "('a, 'b, 'c, 'd) StakeDatabase"
    using that by (induction ds arbitrary: a) (auto simp: undoDiff_def split: option.splits dest: sd_applyDiff_frame)
  show ?thesis
    using assms
    by (auto simp: disconnectBlock_def Let_def split: bind_splits sum.splits option.splits if_splits dest!: undo)
qed

lemma ConnectBlock_waiters:
  assumes "ConnectBlock env rpc blk db = Some (db', err)"
  shows "heightWaiters db' = heightWaiters db \<and> waitChans db' = waitChans db \<and> nextChan db' = nextChan db"
  using assms
proof (cases rule: ConnectBlock_cases)
  case (rejected b)
  then show ?thesis by simp
next
  case (failed b e sp rv mt)
  then show ?thesis using connectBlock_frame(7-9) [OF failed(1)] by simp
next
  case (connected b sp rv d vals db3)
  from connected(2) show ?thesis
    using connectBlock_frame(7-9) [OF connected(1)] by (elim finishConnect_cases) (simp add: sd_applyDiff_frame)
qed

lemma disconnect_loop_waiters:
  "disconnect_loop env rpc n db = Some (db', err)
     \<Longrightarrow> heightWaiters db' = heightWaiters db \<and> waitChans db' = waitChans db \<and> nextChan db' = nextChan db"
  by (induction n arbitrary: db) (auto split: option.splits dest!: disconnectBlock_waiters)

lemma rewind_loop_waiters:
  "rewind_loop env rpc to0 neg n db = Some (db', err)
     \<Longrightarrow> heightWaiters db' = heightWaiters db \<and> waitChans db' = waitChans db \<and> nextChan db' = nextChan db"
  by (induction n arbitrary: db) (auto split: option.splits if_splits dest!: disconnectBlock_waiters)

lemma sd_call_waiters:
  "sd_call env db db' \<Longrightarrow> heightWaiters db' = heightWaiters db \<and> waitChans db' = waitChans db \<and> nextChan db' = nextChan db"
proof (induction rule: sd_call.induct)
  case (call_connect_hash rpc h db db' blk err)
  then show ?case by (auto simp: ConnectBlockHash_def split: option.splits dest: ConnectBlock_waiters)
next
  case (call_disconnects rpc n db db' err)
  then show ?case unfolding DisconnectBlocks_def by (rule disconnect_loop_waiters)
next
  case (call_rewind rpc to0 neg db db' err)
  then show ?case unfolding Rewind_def by (rule rewind_loop_waiters)
qed (auto simp: SetPoolInfo_def SetPoolCacheCapacity_def PoolAtHeight_def PoolAtHash_def PopulateLiveTicketCache_def
      split: prod.splits option.splits sum.splits
      dest: ConnectBlock_waiters disconnectBlock_waiters)

lemma waiters_ok_frame:
  "heightWaiters db' = heightWaiters db \<and> waitChans db' = waitChans db \<and> nextChan db' = nextChan db
     \<Longrightarrow> waiters_ok db' = waiters_ok db"
  by (simp add: waiters_ok_def)

lemma WaitForHeight_ok:
  assumes "WaitForHeight rpc height dbHeight db = Some (db', c)" and "waiters_ok db"
  shows "waiters_ok db'"
proof -
  have fresh: "nextChan db \<notin> set (heightWaiters db h)" for h using assms(2) by (auto simp: waiters_ok_def)
  have w: "distinct (heightWaiters db h)" "c \<in> set (heightWaiters db h) \<Longrightarrow> c < nextChan db \<and> waitChans db c = []"
    "h \<noteq> h' \<Longrightarrow> set (heightWaiters db h) \<inter> set (heightWaiters db h') = {}" for h h' c
    using assms(2) by (simp_all add: waiters_ok_def)
  let ?new = "(heightWaiters db)(height := heightWaiters db height @ [nextChan db])"
  have chans: "waitChans db' c = waitChans db c" if "c \<noteq> nextChan db" for c
    using assms(1) that by (auto simp: WaitForHeight_def Let_def split: if_splits prod.splits option.splits)
  have nxt: "nextChan db' = nextChan db + 1"
    using assms(1) by (auto simp: WaitForHeight_def Let_def split: if_splits prod.splits option.splits)
  have old: "c < nextChan db' \<and> waitChans db' c = []" if "c \<in> set (heightWaiters db h)" for c h
    using w(2) [OF that] chans [of c] nxt by simp
  have "heightWaiters db' = heightWaiters db \<or> (heightWaiters db' = ?new \<and> waitChans db' (nextChan db) = [])"
    using assms(1) by (auto simp: WaitForHeight_def Let_def split: if_splits prod.splits option.splits)
  then show ?thesis
  proof (elim disjE conjE)
    assume "heightWaiters db' = heightWaiters db"
    then show ?thesis using w(1,3) old by (simp add: waiters_ok_def)
  next
    assume new: "heightWaiters db' = ?new" "waitChans db' (nextChan db) = []"
    have "set (?new h) \<inter> set (?new h') = {}" if "h \<noteq> h'" for h h'
      using w(3) [OF that] fresh that by auto
    moreover have "distinct (?new h)" for h using w(1) fresh by auto
    moreover have "c < nextChan db' \<and> waitChans db' c = []" if "c \<in> set (?new h)" for c h
      using that old [of c h] new(2) nxt by (auto split: if_splits)
    ultimately show ?thesis unfolding waiters_ok_def new(1) by blast
  qed
qed

lemma wait_step_ok: "wait_step env st st' \<Longrightarrow> waiters_ok (fst st) \<Longrightarrow> waiters_ok (fst st')"
proof (induction rule: wait_step.induct)
  case (wait_register rpc height dbHeight db db' c xs ys)
  then show ?case using WaitForHeight_ok by simp
next
  case (wait_call db db' rs)
  then show ?case using waiters_ok_frame [OF sd_call_waiters [OF wait_call(1)]] by simp
next
  case (wait_signal db xs h x ys db' rs)
  have ok: "waiters_ok (db\<lparr>signals := xs @ ys\<rparr>)" using wait_signal(3) by (simp add: waiters_ok_def)
  have db': "db' = db\<lparr>signals := xs @ ys, waitChans := (\<lambda>c. if c \<in> set (heightWaiters db h) then [Some x] else waitChans db c),
      heightWaiters := (heightWaiters db)(h := [])\<rparr>"
    using signalWaiters_result [OF ok, of h x] wait_signal(2) by (simp cong: if_cong)
  have "waitChans db' c = []" if "c \<in> set (heightWaiters db k)" "k \<noteq> h" for c k
    using that wait_signal(3) unfolding waiters_ok_def db' by fastforce
  then show ?case using wait_signal(3) unfolding waiters_ok_def db' by auto
next
  case (wait_receive db c v vs rs)
  then show ?case by (fastforce simp: waiters_ok_def)
qed simp

text \<open>C17. A signal for a height reaches every waiter: in every interleaving of calls, registrations, receivers and
  signals, a started signal runs without the panic of a full channel, leaves the hash of the block in the
  channel of each client that is registered for the height, and no one registered for it.\<close>

theorem signals_reach_waiters:
  assumes "(wait_step env)\<^sup>*\<^sup>* (db, []) (db', rs)" and "\<forall>h. heightWaiters db h = []" and "(h, x) \<in> set (signals db')"
  shows "\<exists>db''. signalWaiters h x db' = Some db'' \<and> heightWaiters db'' h = []
    \<and> (\<forall>c\<in>set (heightWaiters db' h). waitChans db'' c = [Some x])
    \<and> (\<forall>c. c \<notin> set (heightWaiters db' h) \<longrightarrow> waitChans db'' c = waitChans db' c)"
proof -
  have "waiters_ok (fst (db', rs))"
    using assms(1)
  proof (induction rule: rtranclp_induct)
    case base
    then show ?case using assms(2) by (simp add: waiters_ok_def)
  next
    case (step y z)
    then show ?case by (blast intro: wait_step_ok)
  qed
  then show ?thesis using signalWaiters_result [of db' h x] by simp
qed

theorem signals_reach_waiters_witness:
  "\<exists>db''. signalWaiters 1 (ex_hash 1) ex_db1 = Some db'' \<and> heightWaiters db'' 1 = []"
proof -
  have run: "(wait_step ex_env)\<^sup>*\<^sup>* (ex_db0, []) (ex_db1, [])"
    by (rule r_into_rtranclp, rule wait_call, rule call_connect [OF ex_connect1(1)])
  have start: "\<forall>h. heightWaiters ex_db0 h = []" by (simp add: ex_db0_def)
  have sig: "(1, ex_hash 1) \<in> set (signals ex_db1)"
    by (simp add: ex_db1_def ex_db0_def ex_defs connect_defs Let_def wrap64_def)
  show ?thesis using signals_reach_waiters [OF run start sig] by blast
qed

text \<open>A lost wake-up: a caller reads height 0, block 1 is connected and signalled, and only then is the caller
  registered. It waits for a block that is already there, and no signal is under way.\<close>

lemma lost_wakeup:
  "\<exists>db. (wait_step ex_env)\<^sup>*\<^sup>* (ex_db0, []) (db, []) \<and> Height ex_env db = 1 \<and> heightWaiters db 1 = [0]
     \<and> waitChans db 0 = [] \<and> signals db = []"
proof -
  have f: "signals ex_db1 = [(1, ex_hash 1)]" "heightWaiters ex_db1 = (\<lambda>_. [])" "waitChans ex_db1 = (\<lambda>_. [])" "nextChan ex_db1 = 0"
    by (simp_all add: ex_db1_def ex_db0_def ex_defs connect_defs Let_def wrap64_def)
  let ?a = "ex_db1\<lparr>signals := [], waitChans := (\<lambda>_. []), heightWaiters := (\<lambda>_. [])(1 := [])\<rparr>"
  let ?b = "?a\<lparr>nextChan := 1, waitChans := (\<lambda>_. [])(0 := []), heightWaiters := (\<lambda>_. [])(1 := [0])\<rparr>"
  have 1: "wait_step ex_env (ex_db0, []) (ex_db0, [(1, 0)])"
    using wait_read [of ex_env ex_db0 "[]" 1] by (simp add: Height_def ex_env_def ex_db0_def)
  have 2: "wait_step ex_env (ex_db0, [(1, 0)]) (ex_db1, [(1, 0)])"
    by (rule wait_call, rule call_connect [OF ex_connect1(1)])
  have 3: "wait_step ex_env (ex_db1, [(1, 0)]) (?a, [(1, 0)])"
    by (rule wait_signal [where xs = "[]" and h = 1 and x = "ex_hash 1" and ys = "[]"]) (simp_all add: f signalWaiters_def)
  have "wait_step ex_env (?a, [] @ (1, 0) # []) (?b, [] @ [])"
    by (rule wait_register [where rpc = ex_rpc and c = 0]) (simp add: WaitForHeight_def f)
  then have 4: "wait_step ex_env (?a, [(1, 0)]) (?b, [])" by (simp only: append_Nil)
  have "(wait_step ex_env)\<^sup>*\<^sup>* (ex_db0, []) (?b, [])"
    by (rule converse_rtranclp_into_rtranclp, rule 1, rule converse_rtranclp_into_rtranclp, rule 2,
        rule converse_rtranclp_into_rtranclp, rule 3, rule r_into_rtranclp, rule 4)
  moreover have "Height ex_env ?b = 1" by (simp add: Height_def ex_connect1 ex_env_def)
  ultimately show ?thesis by (intro exI [of _ ?b]) (simp add: f)
qed

end
