(* ===== verification/ChainWalk.thy ===== *)
theory ChainWalk
  imports StakeDB
begin

text \<open>
  The walks over the block tree of \<open>rpcutils/rpcclient.go\<close>: the common ancestor of two chains, the
  blocks of a side chain, and the number of orphaned blocks at the tip of a database. The interface
  \<open>BlockFetcher\<close> of the node is a record of functions that return \<open>None\<close> when the call fails;
  \<open>chainhash.NewHashFromStr\<close> is the parameter \<open>newHash\<close>. A nil client is \<open>None\<close>.
\<close>

section \<open>The interface of the node\<close>

record 'b wire_block =
  wb_Header :: block_header
  wb_Body :: 'b

record header_verbose =
  hv_Hash :: string
  hv_Confirmations :: int
  hv_PreviousHash :: string
  hv_NextHash :: string
  hv_ChainWork :: string

record 'b BlockFetcher =
  bf_GetBestBlock :: "(hash \<times> int) option"
  bf_GetBlock :: "hash \<Rightarrow> 'b wire_block option"
  bf_GetBlockHash :: "int \<Rightarrow> hash option"
  bf_GetBlockHeaderVerbose :: "hash \<Rightarrow> header_verbose option"

datatype rpc_error =
    NilClient
  | GetBlockFailed hash
  | GetBlockHashFailed int
  | ErrAncestorMaxChainLength
  | ErrAncestorAtGenesis
  | HeaderFailed string
  | NotSideChain
  | DbHashFailed int
  | NodeHashFailed int
  | NoCommonAncestor

section \<open>Block and header by height or hash\<close>

definition GetBlockHeaderVerbose_at :: "'b BlockFetcher \<Rightarrow> int \<Rightarrow> header_verbose option" where
  "GetBlockHeaderVerbose_at client idx =
     (case bf_GetBlockHash client idx of None \<Rightarrow> None | Some h \<Rightarrow> bf_GetBlockHeaderVerbose client h)"

definition GetBlockHeaderVerboseByString ::
  "(string \<Rightarrow> hash option) \<Rightarrow> 'b BlockFetcher \<Rightarrow> string \<Rightarrow> header_verbose option" where
  "GetBlockHeaderVerboseByString newHash client s =
     (case newHash s of None \<Rightarrow> None | Some h \<Rightarrow> bf_GetBlockHeaderVerbose client h)"

definition rpc_GetBlock :: "int \<Rightarrow> 'b BlockFetcher \<Rightarrow> 'b wire_block option \<times> hash option \<times> rpc_error option" where
  "rpc_GetBlock ind client =
     (case bf_GetBlockHash client ind of
        None \<Rightarrow> (None, None, Some (GetBlockHashFailed ind))
      | Some blockhash \<Rightarrow>
          (case bf_GetBlock client blockhash of
             None \<Rightarrow> (None, Some blockhash, Some (GetBlockFailed blockhash))
           | Some b \<Rightarrow> (Some b, Some blockhash, None)))"

definition GetBlockByHash :: "hash \<Rightarrow> 'b BlockFetcher \<Rightarrow> rpc_error + 'b wire_block" where
  "GetBlockByHash blockhash client =
     (case bf_GetBlock client blockhash of None \<Rightarrow> Inl (GetBlockFailed blockhash) | Some b \<Rightarrow> Inr b)"

definition GetChainWork :: "'b BlockFetcher \<Rightarrow> hash \<Rightarrow> string option" where
  "GetChainWork client h = map_option hv_ChainWork (bf_GetBlockHeaderVerbose client h)"

section \<open>Side chains\<close>

record chain_tip =
  tip_Height :: int
  tip_Hash :: string
  tip_BranchLen :: int
  tip_Status :: string

fun sideChainTips :: "chain_tip list \<Rightarrow> chain_tip list" where
  "sideChainTips [] = []"
| "sideChainTips (t # ts) =
     (if tip_Status t = ''valid-headers'' \<or> tip_Status t = ''valid-fork'' then t # sideChainTips ts else sideChainTips ts)"

definition SideChains :: "chain_tip list option \<Rightarrow> chain_tip list option" where
  "SideChains tips = map_option sideChainTips tips"

text \<open>The loop swaps the elements \<open>i\<close> and \<open>N - 1 - i\<close> for \<open>i\<close> up to \<open>N/2 - 1\<close>; with Go's division the
  bound is negative for a slice of at most one element.\<close>

fun reverse_loop :: "nat \<Rightarrow> nat \<Rightarrow> 'a list \<Rightarrow> 'a list" where
  "reverse_loop 0 i s = s"
| "reverse_loop (Suc k) i s =
     (let j = length s - 1 - i in reverse_loop k (Suc i) (s[i := s ! j, j := s ! i]))"

definition reverseStringSlice :: "'a list \<Rightarrow> 'a list" where
  "reverseStringSlice s = reverse_loop (length s div 2) 0 s"

text \<open>The walk has no bound of its own: \<open>None\<close> is a walk that does not return.\<close>

partial_function (option) side_walk ::
  "(string \<Rightarrow> hash option) \<Rightarrow> 'b BlockFetcher \<Rightarrow> string \<Rightarrow> string \<Rightarrow> string list \<Rightarrow> (rpc_error + string list) option" where
  "side_walk newHash client tipHash h sideChain =
     (case GetBlockHeaderVerboseByString newHash client h of
        None \<Rightarrow> Some (Inl (HeaderFailed h))
      | Some header \<Rightarrow>
          if hv_Confirmations header \<noteq> -1 then
            (if h = tipHash then Some (Inl NotSideChain) else Some (Inr sideChain))
          else side_walk newHash client tipHash (hv_PreviousHash header) (sideChain @ [h]))"

definition SideChainFull ::
  "(string \<Rightarrow> hash option) \<Rightarrow> 'b BlockFetcher \<Rightarrow> string \<Rightarrow> (rpc_error + string list) option" where
  "SideChainFull newHash client tipHash =
     (case side_walk newHash client tipHash tipHash [] of
        None \<Rightarrow> None
      | Some (Inl e) \<Rightarrow> Some (Inl e)
      | Some (Inr sideChain) \<Rightarrow> Some (Inr (reverseStringSlice sideChain)))"

section \<open>The common ancestor\<close>

definition maxAncestorChainLength :: nat where
  "maxAncestorChainLength = 8192"

type_synonym ancestor_result = "hash option \<times> hash list \<times> hash list \<times> rpc_error option"

text \<open>The panic of the source stands after two exclusive comparisons and is not reached, so equal heights
  are the last case.\<close>

function ancestor_loop ::
  "'b BlockFetcher \<Rightarrow> nat \<Rightarrow> hash \<Rightarrow> hash list \<Rightarrow> hash \<Rightarrow> hash list \<Rightarrow> ancestor_result" where
  "ancestor_loop client len hashA chainA hashB chainB =
     (if len \<ge> maxAncestorChainLength then (None, [], [], Some ErrAncestorMaxChainLength)
      else case bf_GetBlock client hashA of
        None \<Rightarrow> (None, [], [], Some (GetBlockFailed hashA))
      | Some blockA \<Rightarrow>
         (case bf_GetBlock client hashB of
            None \<Rightarrow> (None, [], [], Some (GetBlockFailed hashB))
          | Some blockB \<Rightarrow>
              let heightA = hdr_Height (wb_Header blockA); heightB = hdr_Height (wb_Header blockB);
                  prevA = hdr_PrevBlock (wb_Header blockA); prevB = hdr_PrevBlock (wb_Header blockB)
              in if heightA > heightB then ancestor_loop client (Suc len) prevA (hashA # chainA) hashB chainB
                 else if heightB > heightA then ancestor_loop client (Suc len) hashA chainA prevB (hashB # chainB)
                 else if prevA = zeroHash then (None, hashA # chainA, hashB # chainB, Some ErrAncestorAtGenesis)
                 else if prevA = prevB then (Some prevA, hashA # chainA, hashB # chainB, None)
                 else ancestor_loop client (Suc len) prevA (hashA # chainA) prevB (hashB # chainB)))"
  by pat_completeness auto
termination
  by (relation "measure (\<lambda>(client, len, _). maxAncestorChainLength - len)") auto

declare ancestor_loop.simps [simp del]

definition CommonAncestor :: "'b BlockFetcher option \<Rightarrow> hash \<Rightarrow> hash \<Rightarrow> ancestor_result" where
  "CommonAncestor client hashA hashB =
     (case client of None \<Rightarrow> (None, [], [], Some NilClient) | Some c \<Rightarrow> ancestor_loop c 0 hashA [] hashB [])"

section \<open>Orphaned blocks\<close>

text \<open>\<open>cancelled h\<close> is whether the context is done when the loop is at height \<open>h\<close>; \<open>hashFunc\<close> reads the
  database, \<open>hashString\<close> is \<open>Hash.String\<close>.\<close>

function orphan_loop ::
  "(int \<Rightarrow> bool) \<Rightarrow> (hash \<Rightarrow> string) \<Rightarrow> (int \<Rightarrow> hash option) \<Rightarrow> (int \<Rightarrow> string option) \<Rightarrow> int \<Rightarrow> int
     \<Rightarrow> int \<times> rpc_error option" where
  "orphan_loop cancelled hashString nodeHash hashFunc tipHeight commonHeight =
     (if cancelled commonHeight then (0, None)
      else case hashFunc commonHeight of
        None \<Rightarrow> (-1, Some (DbHashFailed commonHeight))
      | Some dbHash \<Rightarrow>
         (case nodeHash commonHeight of
            None \<Rightarrow> (-1, Some (NodeHashFailed commonHeight))
          | Some dcrdHash \<Rightarrow>
              if hashString dcrdHash = dbHash then (tipHeight - commonHeight, None)
              else if commonHeight - 1 < 0 then (-1, Some NoCommonAncestor)
              else orphan_loop cancelled hashString nodeHash hashFunc tipHeight (commonHeight - 1)))"
  by pat_completeness auto
termination
  by (relation "measure (\<lambda>(_, _, _, _, _, h). nat h)") auto

declare orphan_loop.simps [simp del]

definition OrphanedTipLength ::
  "(int \<Rightarrow> bool) \<Rightarrow> (hash \<Rightarrow> string) \<Rightarrow> (int \<Rightarrow> hash option) \<Rightarrow> int \<Rightarrow> (int \<Rightarrow> string option) \<Rightarrow> int \<times> rpc_error option" where
  "OrphanedTipLength cancelled hashString nodeHash tipHeight hashFunc =
     orphan_loop cancelled hashString nodeHash hashFunc tipHeight tipHeight"

section \<open>Reversal\<close>

lemma length_reverse_loop [simp]: "length (reverse_loop k i s) = length s"
  by (induction k i s rule: reverse_loop.induct) (simp_all add: Let_def)

lemma nth_reverse_loop:
  "i + k = length s div 2 \<Longrightarrow> p < length s
   \<Longrightarrow> reverse_loop k i s ! p = (if i \<le> p \<and> p < length s - i then s ! (length s - 1 - p) else s ! p)"
proof (induction k i s rule: reverse_loop.induct)
  case (1 i s)
  show ?case
  proof (cases "i \<le> p \<and> p < length s - i")
    case True
    then have "length s - 1 - p = p" using 1 by linarith
    then show ?thesis by simp
  qed auto
next
  case (2 k i s)
  let ?j = "length s - 1 - i"
  have i: "i < ?j" using 2(2) by linarith
  have "p = i \<or> p = ?j \<or> (p \<noteq> i \<and> p \<noteq> ?j)" by blast
  then show ?case
    using 2(1) [OF refl] 2(2,3) i by (auto simp: Let_def nth_list_update)
qed

lemma reverseStringSlice_rev [simp]: "reverseStringSlice s = rev s"
  by (rule nth_equalityI) (simp_all add: reverseStringSlice_def nth_reverse_loop rev_nth)

lemma sideChainTips_filter:
  "sideChainTips ts = filter (\<lambda>t. tip_Status t \<in> {''valid-headers'', ''valid-fork''}) ts"
  by (induction ts) auto

section \<open>Chains of blocks\<close>

text \<open>\<open>linked c a xs\<close>: the blocks \<open>xs\<close>, lowest first, follow one another and the first one follows \<open>a\<close>.\<close>

fun linked :: "'b BlockFetcher \<Rightarrow> hash \<Rightarrow> hash list \<Rightarrow> bool" where
  "linked c a [] \<longleftrightarrow> True"
| "linked c a (x # xs) \<longleftrightarrow>
     (case bf_GetBlock c x of None \<Rightarrow> False | Some b \<Rightarrow> hdr_PrevBlock (wb_Header b) = a) \<and> linked c x xs"

text \<open>What the node keeps: no block has the zero hash, and the parent of a block that is not the genesis
  block is known and one lower.\<close>

definition block_tree :: "'b BlockFetcher \<Rightarrow> bool" where
  "block_tree c \<longleftrightarrow> bf_GetBlock c zeroHash = None
     \<and> (\<forall>h b. bf_GetBlock c h = Some b \<longrightarrow> hdr_PrevBlock (wb_Header b) \<noteq> zeroHash
          \<longrightarrow> (\<exists>p. bf_GetBlock c (hdr_PrevBlock (wb_Header b)) = Some p
                \<and> hdr_Height (wb_Header b) = hdr_Height (wb_Header p) + 1))"

definition height_of :: "'b BlockFetcher \<Rightarrow> hash \<Rightarrow> int" where
  "height_of c h = (case bf_GetBlock c h of None \<Rightarrow> 0 | Some b \<Rightarrow> hdr_Height (wb_Header b))"

lemma block_tree_parent:
  assumes "block_tree c" and "bf_GetBlock c h = Some b" and "hdr_PrevBlock (wb_Header b) \<noteq> zeroHash"
  shows "hdr_Height (wb_Header b) = height_of c (hdr_PrevBlock (wb_Header b)) + 1"
proof -
  obtain p where "bf_GetBlock c (hdr_PrevBlock (wb_Header b)) = Some p" "hdr_Height (wb_Header b) = hdr_Height (wb_Header p) + 1"
    using assms unfolding block_tree_def by blast
  then show ?thesis by (simp add: height_of_def)
qed

lemma linked_append: "linked c a (xs @ ys) \<longleftrightarrow> linked c a xs \<and> linked c (if xs = [] then a else last xs) ys"
  by (induction xs arbitrary: a) auto

lemma linked_nonzero: "block_tree c \<Longrightarrow> linked c a xs \<Longrightarrow> x \<in> set xs \<Longrightarrow> x \<noteq> zeroHash"
  by (induction xs arbitrary: a) (auto simp: block_tree_def split: option.splits)

lemma linked_height:
  "block_tree c \<Longrightarrow> linked c a xs \<Longrightarrow> a \<noteq> zeroHash \<Longrightarrow> i < length xs \<Longrightarrow> height_of c (xs ! i) = height_of c a + 1 + int i"
proof (induction xs arbitrary: a i)
  case (Cons x xs)
  obtain b where b: "bf_GetBlock c x = Some b" "hdr_PrevBlock (wb_Header b) = a"
    using Cons.prems(2) by (auto split: option.splits)
  have hx: "height_of c x = height_of c a + 1"
    using block_tree_parent [OF Cons.prems(1) b(1)] b(2) Cons.prems(3) b(1) by (simp add: height_of_def)
  have x: "x \<noteq> zeroHash" "linked c x xs" using Cons.prems(1,2) linked_nonzero [of c a "x # xs"] by simp_all
  show ?case
  proof (cases i)
    case 0
    then show ?thesis using hx by simp
  next
    case (Suc j)
    then show ?thesis using Cons.IH [OF Cons.prems(1) x(2,1), of j] Cons.prems(4) hx by simp
  qed
qed simp

lemma linked_last:
  assumes "block_tree c" and "linked c a (xs @ [x])" and "a \<noteq> zeroHash"
  obtains b where "bf_GetBlock c x = Some b" "hdr_PrevBlock (wb_Header b) = (if xs = [] then a else last xs)"
    "hdr_Height (wb_Header b) = height_of c a + 1 + int (length xs)" "hdr_PrevBlock (wb_Header b) \<noteq> zeroHash"
proof -
  obtain b where b: "bf_GetBlock c x = Some b" "hdr_PrevBlock (wb_Header b) = (if xs = [] then a else last xs)"
    using assms(2) by (auto simp: linked_append split: option.splits)
  moreover have "hdr_Height (wb_Header b) = height_of c a + 1 + int (length xs)"
    using linked_height [OF assms, of "length xs"] b(1) by (simp add: height_of_def)
  moreover have "(if xs = [] then a else last xs) \<noteq> zeroHash"
    using assms linked_nonzero [OF assms(1,2)] by simp
  ultimately show thesis using that by simp
qed

lemma ancestor_loop_finds:
  assumes "block_tree c" and "a \<noteq> zeroHash"
  shows "linked c a (A @ [x]) \<Longrightarrow> linked c a (B @ [y]) \<Longrightarrow> set (A @ [x]) \<inter> set (B @ [y]) = {}
    \<Longrightarrow> len + max (length A) (length B) < maxAncestorChainLength
    \<Longrightarrow> ancestor_loop c len x CA y CB = (Some a, A @ x # CA, B @ y # CB, None)"
proof (induction "length A + length B" arbitrary: A B x y len CA CB rule: less_induct)
  case less
  obtain bx where bx: "bf_GetBlock c x = Some bx" "hdr_PrevBlock (wb_Header bx) = (if A = [] then a else last A)"
    "hdr_Height (wb_Header bx) = height_of c a + 1 + int (length A)" "hdr_PrevBlock (wb_Header bx) \<noteq> zeroHash"
    using linked_last [OF assms(1) less.prems(1) assms(2)] by metis
  obtain bz where bz: "bf_GetBlock c y = Some bz" "hdr_PrevBlock (wb_Header bz) = (if B = [] then a else last B)"
    "hdr_Height (wb_Header bz) = height_of c a + 1 + int (length B)" "hdr_PrevBlock (wb_Header bz) \<noteq> zeroHash"
    using linked_last [OF assms(1) less.prems(2) assms(2)] by metis
  have len: "\<not> maxAncestorChainLength \<le> len" using less.prems(4) by simp
  note step = ancestor_loop.simps [of c len x CA y CB]
  consider "length A > length B" | "length B > length A" | "A = []" "B = []" | "length A = length B" "A \<noteq> []" "B \<noteq> []"
    by (metis length_0_conv linorder_neqE_nat)
  then show ?case
  proof cases
    case 1
    then obtain A' x' where A: "A = A' @ [x']" by (cases A rule: rev_cases) auto
    show ?thesis
      using less.hyps [of A' B x' y "Suc len" "x # CA" CB] less.prems A 1 bx bz len
      by (simp add: step linked_append)
  next
    case 2
    then obtain B' y' where B: "B = B' @ [y']" by (cases B rule: rev_cases) auto
    show ?thesis
      using less.hyps [of A B' x y' "Suc len" CA "y # CB"] less.prems B 2 bx bz len
      by (simp add: step linked_append)
  next
    case 3
    then show ?thesis using bx bz len by (simp add: step)
  next
    case 4
    then obtain A' x' B' y' where AB: "A = A' @ [x']" "B = B' @ [y']"
      by (metis rev_exhaust)
    have "x' \<noteq> y'" using less.prems(3) AB by auto
    then show ?thesis
      using less.hyps [of A' B' x' y' "Suc len" "x # CA" "y # CB"] less.prems AB 4(1) bx bz len
      by (simp add: step linked_append)
  qed
qed

text \<open>One turn of the loop that ends without an error.\<close>

lemma ancestor_loop_cases:
  assumes "ancestor_loop c len x CA y CB = (Some a, RA, RB, None)"
  obtains (up_A) bx bz where "bf_GetBlock c x = Some bx" "bf_GetBlock c y = Some bz"
      "hdr_Height (wb_Header bz) < hdr_Height (wb_Header bx)" "len < maxAncestorChainLength"
      "ancestor_loop c (Suc len) (hdr_PrevBlock (wb_Header bx)) (x # CA) y CB = (Some a, RA, RB, None)"
    | (up_B) bx bz where "bf_GetBlock c x = Some bx" "bf_GetBlock c y = Some bz"
      "hdr_Height (wb_Header bx) < hdr_Height (wb_Header bz)" "len < maxAncestorChainLength"
      "ancestor_loop c (Suc len) x CA (hdr_PrevBlock (wb_Header bz)) (y # CB) = (Some a, RA, RB, None)"
    | (fork) bx bz where "bf_GetBlock c x = Some bx" "bf_GetBlock c y = Some bz"
      "hdr_PrevBlock (wb_Header bx) = a" "hdr_PrevBlock (wb_Header bz) = a" "a \<noteq> zeroHash" "RA = x # CA" "RB = y # CB"
    | (up_both) bx bz where "bf_GetBlock c x = Some bx" "bf_GetBlock c y = Some bz"
      "hdr_Height (wb_Header bx) = hdr_Height (wb_Header bz)" "hdr_PrevBlock (wb_Header bx) \<noteq> hdr_PrevBlock (wb_Header bz)"
      "len < maxAncestorChainLength"
      "ancestor_loop c (Suc len) (hdr_PrevBlock (wb_Header bx)) (x # CA) (hdr_PrevBlock (wb_Header bz)) (y # CB) = (Some a, RA, RB, None)"
proof -
  note step = assms [unfolded ancestor_loop.simps [of c len x CA y CB]]
  have len: "len < maxAncestorChainLength" using step by (simp split: if_splits)
  obtain bx where bx: "bf_GetBlock c x = Some bx" using step len by (auto split: option.splits)
  obtain bz where bz: "bf_GetBlock c y = Some bz" using step len bx by (auto split: option.splits)
  show thesis
    using step len bx bz up_A [OF bx bz] up_B [OF bx bz] fork [OF bx bz] up_both [OF bx bz]
    by (auto simp: Let_def split: if_splits)
qed

lemma linked_tip_height:
  assumes "block_tree c" and "linked c a (A @ [x])" and "a \<noteq> zeroHash" and "bf_GetBlock c x = Some b"
  shows "hdr_Height (wb_Header b) = height_of c a + 1 + int (length A)"
  using linked_height [OF assms(1-3), of "length A"] assms(4) by (simp add: height_of_def)

lemma linked_extend:
  assumes "block_tree c" and "linked c a (A @ [hdr_PrevBlock (wb_Header b)])" and "a \<noteq> zeroHash" and "bf_GetBlock c x = Some b"
  shows "linked c a ((A @ [hdr_PrevBlock (wb_Header b)]) @ [x])"
    and "hdr_Height (wb_Header b) = height_of c a + 1 + int (length A) + 1"
proof -
  show l: "linked c a ((A @ [hdr_PrevBlock (wb_Header b)]) @ [x])"
    using assms(2,4) by (simp add: linked_append)
  show "hdr_Height (wb_Header b) = height_of c a + 1 + int (length A) + 1"
    using linked_tip_height [OF assms(1) l assms(3,4)] by simp
qed

lemma hd_snoc_snoc: "hd ((A @ [p]) @ [x]) = hd (A @ [p])"
  by (cases A) simp_all

lemma ancestor_loop_sound:
  assumes tree: "block_tree c"
  shows "ancestor_loop c len x CA y CB = (Some a, RA, RB, None) \<Longrightarrow>
    \<exists>A B. RA = A @ x # CA \<and> RB = B @ y # CB \<and> a \<noteq> zeroHash \<and> linked c a (A @ [x]) \<and> linked c a (B @ [y])
      \<and> (hd (A @ [x]) = hd (B @ [y]) \<longrightarrow> A = [] \<or> B = [])"
proof (induction "maxAncestorChainLength - len" arbitrary: len x CA y CB rule: less_induct)
  case less
  from less.prems show ?case
  proof (cases rule: ancestor_loop_cases)
    case (up_A bx bz)
    let ?p = "hdr_PrevBlock (wb_Header bx)"
    obtain A B where AB: "RA = A @ ?p # x # CA" "RB = B @ y # CB" "a \<noteq> zeroHash" "linked c a (A @ [?p])" "linked c a (B @ [y])"
      "hd (A @ [?p]) = hd (B @ [y]) \<longrightarrow> A = [] \<or> B = []"
      using less.hyps [OF diff_less_mono2 [OF lessI up_A(4)] up_A(5)] by blast
    note ext = linked_extend [OF tree AB(4,3) up_A(1)] and hy = linked_tip_height [OF tree AB(5,3) up_A(2)]
    have "A = [] \<Longrightarrow> B = []" using ext(2) hy up_A(3) by simp
    then have "hd ((A @ [?p]) @ [x]) = hd (B @ [y]) \<longrightarrow> B = []" using AB(6) unfolding hd_snoc_snoc by blast
    moreover have "RA = (A @ [?p]) @ x # CA" using AB(1) by simp
    ultimately show ?thesis using AB(2,3,5) ext(1) by blast
  next
    case (up_B bx bz)
    let ?q = "hdr_PrevBlock (wb_Header bz)"
    obtain A B where AB: "RA = A @ x # CA" "RB = B @ ?q # y # CB" "a \<noteq> zeroHash" "linked c a (A @ [x])" "linked c a (B @ [?q])"
      "hd (A @ [x]) = hd (B @ [?q]) \<longrightarrow> A = [] \<or> B = []"
      using less.hyps [OF diff_less_mono2 [OF lessI up_B(4)] up_B(5)] by blast
    note ext = linked_extend [OF tree AB(5,3) up_B(2)] and hx = linked_tip_height [OF tree AB(4,3) up_B(1)]
    have "B = [] \<Longrightarrow> A = []" using ext(2) hx up_B(3) by simp
    then have "hd (A @ [x]) = hd ((B @ [?q]) @ [y]) \<longrightarrow> A = []" using AB(6) unfolding hd_snoc_snoc by blast
    moreover have "RB = (B @ [?q]) @ y # CB" using AB(2) by simp
    ultimately show ?thesis using AB(1,3,4) ext(1) by blast
  next
    case (fork bx bz)
    then show ?thesis by (intro exI [of _ "[]"]) simp
  next
    case (up_both bx bz)
    let ?p = "hdr_PrevBlock (wb_Header bx)" and ?q = "hdr_PrevBlock (wb_Header bz)"
    obtain A B where AB: "RA = A @ ?p # x # CA" "RB = B @ ?q # y # CB" "a \<noteq> zeroHash" "linked c a (A @ [?p])" "linked c a (B @ [?q])"
      "hd (A @ [?p]) = hd (B @ [?q]) \<longrightarrow> A = [] \<or> B = []"
      using less.hyps [OF diff_less_mono2 [OF lessI up_both(5)] up_both(6)] by blast
    note extA = linked_extend [OF tree AB(4,3) up_both(1)] and extB = linked_extend [OF tree AB(5,3) up_both(2)]
    have "length A = length B" using extA(2) extB(2) up_both(3) by simp
    then have "hd (A @ [?p]) \<noteq> hd (B @ [?q])" using AB(6) up_both(4) by auto
    then have "hd ((A @ [?p]) @ [x]) \<noteq> hd ((B @ [?q]) @ [y])" by (simp only: hd_snoc_snoc not_False_eq_True)
    moreover have "RA = (A @ [?p]) @ x # CA" "RB = (B @ [?q]) @ y # CB" using AB(1,2) by simp_all
    ultimately show ?thesis using AB(3) extA(1) extB(1) by blast
  qed
qed

lemma linked_prev:
  "linked c a xs \<Longrightarrow> Suc i < length xs \<Longrightarrow>
    \<exists>b. bf_GetBlock c (xs ! Suc i) = Some b \<and> hdr_PrevBlock (wb_Header b) = xs ! i"
proof (induction xs arbitrary: a i)
  case (Cons x xs)
  show ?case
  proof (cases i)
    case 0
    then obtain y ys where "xs = y # ys" using Cons.prems(2) by (cases xs) auto
    then show ?thesis using 0 Cons.prems(1) by (auto split: option.splits)
  next
    case (Suc j)
    then show ?thesis using Cons.IH [of x j] Cons.prems by simp
  qed
qed simp

text \<open>Two chains that start at the same ancestor and share a block share their first block.\<close>

lemma linked_share_first:
  assumes "block_tree c" and "a \<noteq> zeroHash" and "linked c a A" and "linked c a B" and "z \<in> set A \<inter> set B"
  shows "hd A = hd B"
proof -
  obtain i where i: "i < length A" "A ! i = z" using assms(5) by (auto simp: in_set_conv_nth)
  obtain j where j: "j < length B" "B ! j = z" using assms(5) by (auto simp: in_set_conv_nth)
  have "i = j"
    using linked_height [OF assms(1,3,2) i(1)] linked_height [OF assms(1,4,2) j(1)] i(2) j(2) by simp
  moreover have "k < length A \<Longrightarrow> k < length B \<Longrightarrow> A ! k = B ! k \<Longrightarrow> A ! 0 = B ! 0" for k
  proof (induction k)
    case (Suc k)
    then show ?case using linked_prev [OF assms(3), of k] linked_prev [OF assms(4), of k] by auto
  qed simp
  ultimately have "A ! 0 = B ! 0" using i j by auto
  then show ?thesis using i j by (metis hd_conv_nth length_0_conv less_nat_zero_code)
qed

section \<open>What the walks return\<close>

lemma CommonAncestor_fork:
  assumes "block_tree c" and "a \<noteq> zeroHash" and "A \<noteq> []" and "B \<noteq> []" and "linked c a A" and "linked c a B"
    and "set A \<inter> set B = {}" and "max (length A) (length B) \<le> maxAncestorChainLength"
  shows "CommonAncestor (Some c) (last A) (last B) = (Some a, A, B, None)"
proof -
  obtain A' x where A: "A = A' @ [x]" using assms(3) by (cases A rule: rev_cases) auto
  obtain B' y where B: "B = B' @ [y]" using assms(4) by (cases B rule: rev_cases) auto
  show ?thesis
    using ancestor_loop_finds [OF assms(1,2), of A' x B' y 0 "[]" "[]"] assms(5-8)
    by (simp add: A B CommonAncestor_def less_eq_Suc_le)
qed

text \<open>C23. \<open>CommonAncestor\<close> finds the fork of two branches: when two chains without a common block start at the same
  block \<open>a\<close> of the node's tree, and neither is longer than the bound of 8192 blocks, the call for their
  tips returns \<open>a\<close> and exactly the two chains, lowest block first.\<close>

theorem CommonAncestor_finds_fork:
  assumes "block_tree c" and "a \<noteq> zeroHash" and "A \<noteq> []" and "B \<noteq> []" and "linked c a A" and "linked c a B"
    and "set A \<inter> set B = {}" and "max (length A) (length B) \<le> maxAncestorChainLength"
  shows "CommonAncestor (Some c) (last A) (last B) = (Some a, A, B, None)"
  using assms by (rule CommonAncestor_fork)

text \<open>A common ancestor that is returned is one: both chains lead from it to the given tips, and they have no block
  in common, unless one of the tips lies on the other chain; then it is their first and only common block.\<close>

theorem CommonAncestor_sound:
  assumes "block_tree c" and "CommonAncestor (Some c) hashA hashB = (Some a, A, B, None)"
  shows "A \<noteq> [] \<and> B \<noteq> [] \<and> last A = hashA \<and> last B = hashB \<and> linked c a A \<and> linked c a B
    \<and> (set A \<inter> set B = {} \<or> hd A = hd B \<and> (A = [hashA] \<or> B = [hashB]))"
proof -
  obtain A' B' where AB: "A = A' @ [hashA]" "B = B' @ [hashB]" "a \<noteq> zeroHash" "linked c a A" "linked c a B"
    "hd A = hd B \<longrightarrow> A' = [] \<or> B' = []"
    using ancestor_loop_sound [OF assms(1), of 0 hashA "[]" hashB "[]" a A B] assms(2) by (auto simp: CommonAncestor_def)
  have "set A \<inter> set B = {} \<or> hd A = hd B"
    using linked_share_first [OF assms(1) AB(3-5)] by blast
  then show ?thesis using AB by auto
qed

text \<open>A tree of five blocks: 1 is the genesis block, 2 follows it, and the branches 3 and 4, 5 leave from 2.\<close>

definition fork_hash :: "byte \<Rightarrow> hash" where
  "fork_hash n = n # replicate 31 0"

definition fork_show :: "hash \<Rightarrow> string" where
  "fork_show h = map (\<lambda>b. char_of (unat b)) h"

definition fork_parse :: "string \<Rightarrow> hash option" where
  "fork_parse s = Some (map (\<lambda>ch. word_of_nat (of_char ch)) s)"

lemma fork_parse_show [simp]: "fork_parse (fork_show h) = Some h"
proof -
  have "word_of_nat (unat (b :: byte) mod 256) = b" for b
    using unsigned_less [of b, where ?'a = nat] by simp
  then show ?thesis by (simp add: fork_parse_def fork_show_def comp_def)
qed

lemma fork_show_inject [simp]: "fork_show g = fork_show h \<longleftrightarrow> g = h"
  by (metis fork_parse_show option.inject)

definition fork_block :: "byte \<Rightarrow> hash \<Rightarrow> int \<Rightarrow> unit wire_block" where
  "fork_block n prev h = \<lparr>wb_Header = \<lparr>hdr_Height = h, hdr_PrevBlock = prev, hdr_BlockHash = fork_hash n\<rparr>, wb_Body = ()\<rparr>"

definition fork_client :: "unit BlockFetcher" where
  "fork_client = \<lparr>bf_GetBestBlock = Some (fork_hash 5, 3),
     bf_GetBlock = [fork_hash 1 \<mapsto> fork_block 1 zeroHash 0, fork_hash 2 \<mapsto> fork_block 2 (fork_hash 1) 1,
       fork_hash 3 \<mapsto> fork_block 3 (fork_hash 2) 2, fork_hash 4 \<mapsto> fork_block 4 (fork_hash 2) 2,
       fork_hash 5 \<mapsto> fork_block 5 (fork_hash 4) 3],
     bf_GetBlockHash = Map.empty,
     bf_GetBlockHeaderVerbose = (\<lambda>h. Some \<lparr>hv_Hash = fork_show h,
       hv_Confirmations = (if h \<in> {fork_hash 4, fork_hash 5} then -1 else 1),
       hv_PreviousHash = fork_show (fork_hash (if h = fork_hash 5 then 4 else 2)), 
       hv_NextHash = (if h = fork_hash 4 then fork_show (fork_hash 5) else []), hv_ChainWork = []\<rparr>)\<rparr>"

lemma fork_hash_eq [simp]: "fork_hash m = fork_hash n \<longleftrightarrow> m = n"
  by (simp add: fork_hash_def)

lemma fork_hash_zero [simp]: "fork_hash n = zeroHash \<longleftrightarrow> n = 0" "zeroHash = fork_hash n \<longleftrightarrow> n = 0"
  by (auto simp: fork_hash_def zeroHash_def numeral_eq_Suc)

lemma fork_tree: "block_tree fork_client"
  by (auto simp: block_tree_def fork_client_def fork_block_def)

theorem CommonAncestor_finds_fork_witness:
  "CommonAncestor (Some fork_client) (fork_hash 3) (fork_hash 5) = (Some (fork_hash 2), [fork_hash 3], [fork_hash 4, fork_hash 5], None)"
  using CommonAncestor_finds_fork [OF fork_tree, of "fork_hash 2" "[fork_hash 3]" "[fork_hash 4, fork_hash 5]"]
  by (simp add: fork_client_def fork_block_def maxAncestorChainLength_def)

lemma fork_shared_tip:
  "CommonAncestor (Some fork_client) (fork_hash 4) (fork_hash 5) = (Some (fork_hash 2), [fork_hash 4], [fork_hash 4, fork_hash 5], None)"
  by (simp add: CommonAncestor_def ancestor_loop.simps fork_client_def fork_block_def Let_def maxAncestorChainLength_def)

theorem CommonAncestor_sound_witness: "linked fork_client (fork_hash 2) [fork_hash 4, fork_hash 5]"
  using CommonAncestor_sound [OF fork_tree fork_shared_tip] by blast

text \<open>The doc comment of the length bound speaks of a chain; the counter counts turns of the loop, so a chain of
  exactly 8192 blocks is still found, and a longer one is an error.\<close>

lemma CommonAncestor_too_long:
  "ancestor_loop c maxAncestorChainLength x CA y CB = (None, [], [], Some ErrAncestorMaxChainLength)"
  by (simp add: ancestor_loop.simps)

text \<open>A side chain as the verbose headers show it: its blocks have \<open>Confirmations = -1\<close> and lead down to a
  block of the main chain.\<close>

fun side_linked :: "(string \<Rightarrow> hash option) \<Rightarrow> 'b BlockFetcher \<Rightarrow> string \<Rightarrow> string list \<Rightarrow> bool" where
  "side_linked newHash c a [] \<longleftrightarrow> True"
| "side_linked newHash c a (x # xs) \<longleftrightarrow>
     (case GetBlockHeaderVerboseByString newHash c x of
        None \<Rightarrow> False | Some h \<Rightarrow> hv_Confirmations h = -1 \<and> hv_PreviousHash h = a) \<and> side_linked newHash c x xs"

lemma side_linked_append:
  "side_linked newHash c a (xs @ ys) \<longleftrightarrow>
     side_linked newHash c a xs \<and> side_linked newHash c (if xs = [] then a else last xs) ys"
  by (induction xs arbitrary: a) auto

lemma side_walk_chain:
  assumes "GetBlockHeaderVerboseByString newHash c a = Some h" and "hv_Confirmations h \<noteq> -1" and "a \<noteq> tipHash"
  shows "side_linked newHash c a xs \<Longrightarrow>
    side_walk newHash c tipHash (if xs = [] then a else last xs) acc = Some (Inr (acc @ rev xs))"
proof (induction xs arbitrary: acc rule: rev_induct)
  case Nil
  then show ?case using assms by (simp add: side_walk.simps [of _ _ _ a])
next
  case (snoc x xs)
  then obtain hx where "GetBlockHeaderVerboseByString newHash c x = Some hx" "hv_Confirmations hx = -1"
    "hv_PreviousHash hx = (if xs = [] then a else last xs)"
    by (auto simp: side_linked_append split: option.splits)
  then show ?case
    using snoc.IH [of "acc @ [x]"] snoc.prems by (simp add: side_walk.simps [of _ _ _ x] side_linked_append)
qed

text \<open>\<open>SideChainFull\<close> returns for the tip of every side chain, with the blocks of that chain and no others, lowest
  first: the block they follow is the first one that the node has on its main chain.\<close>

theorem SideChainFull_chain:
  assumes "xs \<noteq> []" and "side_linked newHash c a xs" and "a \<noteq> last xs"
    and "GetBlockHeaderVerboseByString newHash c a = Some h" and "hv_Confirmations h \<noteq> -1"
  shows "SideChainFull newHash c (last xs) = Some (Inr xs)"
  using side_walk_chain [OF assms(4,5,3,2), of "[]"] assms(1) by (simp add: SideChainFull_def)

theorem SideChainFull_chain_witness:
  "SideChainFull fork_parse fork_client (fork_show (fork_hash 5)) = Some (Inr [fork_show (fork_hash 4), fork_show (fork_hash 5)])"
  using SideChainFull_chain [of "[fork_show (fork_hash 4), fork_show (fork_hash 5)]" fork_parse fork_client "fork_show (fork_hash 2)"]
  by (simp add: GetBlockHeaderVerboseByString_def fork_client_def)

section \<open>The length of an orphaned tip\<close>

lemma orphan_loop_finds:
  assumes "\<And>h. \<not> cancelled h" and "\<forall>h. 0 \<le> h \<and> h \<le> k \<longrightarrow> hashFunc h \<noteq> None \<and> nodeHash h \<noteq> None" and "0 \<le> m" and "m \<le> k"
    and "map_option hashString (nodeHash m) = hashFunc m"
    and "\<forall>h. m < h \<and> h \<le> k \<longrightarrow> map_option hashString (nodeHash h) \<noteq> hashFunc h"
  shows "orphan_loop cancelled hashString nodeHash hashFunc t k = (t - m, None)"
  using assms(2,4,6)
proof (induction "nat (k - m)" arbitrary: k)
  case 0
  then have "k = m" by simp
  moreover obtain d n where "hashFunc m = Some d" "nodeHash m = Some n" using 0(2) assms(3) \<open>k = m\<close> by auto
  ultimately show ?case using assms(1,5) by (simp add: orphan_loop.simps)
next
  case (Suc j)
  obtain d n where dn: "hashFunc k = Some d" "nodeHash k = Some n" using Suc.prems assms(3) by fastforce
  have "m < k" using Suc.hyps(2) by simp
  then have "hashString n \<noteq> d" using Suc.prems(3) dn by force
  then show ?case
    using Suc.hyps(1) [of "k - 1"] Suc.hyps(2) Suc.prems assms(1,3) dn \<open>m < k\<close>
    by (subst orphan_loop.simps) simp
qed

lemma orphan_loop_none:
  assumes "\<And>h. \<not> cancelled h" and "\<forall>h. 0 \<le> h \<and> h \<le> k \<longrightarrow> hashFunc h \<noteq> None \<and> nodeHash h \<noteq> None" and "0 \<le> k"
    and "\<forall>h. 0 \<le> h \<and> h \<le> k \<longrightarrow> map_option hashString (nodeHash h) \<noteq> hashFunc h"
  shows "orphan_loop cancelled hashString nodeHash hashFunc t k = (-1, Some NoCommonAncestor)"
  using assms(2-4)
proof (induction "nat k" arbitrary: k)
  case 0
  then have "k = 0" by simp
  then obtain d n where "hashFunc 0 = Some d" "nodeHash 0 = Some n" using 0(2) by auto
  then show ?case using assms(1) 0(4) \<open>k = 0\<close> by (subst orphan_loop.simps) auto
next
  case (Suc j)
  obtain d n where dn: "hashFunc k = Some d" "nodeHash k = Some n" using Suc.prems by fastforce
  then have "hashString n \<noteq> d" using Suc.prems(2,3) by force
  then show ?case
    using Suc.hyps(1) [of "k - 1"] Suc.hyps(2) Suc.prems assms(1) dn by (subst orphan_loop.simps) simp
qed

text \<open>\<open>OrphanedTipLength\<close> scans down from the tip of the database and returns the number of blocks above
  the highest height at which database and node agree, or the error when they agree nowhere; it always comes to an
  end.\<close>

theorem OrphanedTipLength_correct:
  assumes "\<And>h. \<not> cancelled h" and "0 \<le> tipHeight"
    and "\<And>h. 0 \<le> h \<Longrightarrow> h \<le> tipHeight \<Longrightarrow> hashFunc h \<noteq> None \<and> nodeHash h \<noteq> None"
  shows "OrphanedTipLength cancelled hashString nodeHash tipHeight hashFunc =
    (let agree = {h. 0 \<le> h \<and> h \<le> tipHeight \<and> map_option hashString (nodeHash h) = hashFunc h}
     in if agree = {} then (-1, Some NoCommonAncestor) else (tipHeight - Max agree, None))"
proof -
  let ?agree = "{h. 0 \<le> h \<and> h \<le> tipHeight \<and> map_option hashString (nodeHash h) = hashFunc h}"
  have fin: "finite ?agree" by (rule finite_subset [of _ "{0..tipHeight}"]) auto
  show ?thesis
  proof (cases "?agree = {}")
    case True
    then show ?thesis
      using orphan_loop_none [of cancelled tipHeight hashFunc nodeHash hashString tipHeight] assms
      by (simp add: OrphanedTipLength_def Let_def)
  next
    case False
    let ?m = "Max ?agree"
    have m: "?m \<in> ?agree" using fin False by (rule Max_in)
    have above: "\<forall>h. ?m < h \<and> h \<le> tipHeight \<longrightarrow> map_option hashString (nodeHash h) \<noteq> hashFunc h"
    proof (intro allI impI notI)
      fix h assume h: "?m < h \<and> h \<le> tipHeight" "map_option hashString (nodeHash h) = hashFunc h"
      then have "h \<in> ?agree" using m by simp
      then show False using Max_ge [OF fin, of h] h by simp
    qed
    have "orphan_loop cancelled hashString nodeHash hashFunc tipHeight tipHeight = (tipHeight - ?m, None)"
    proof (rule orphan_loop_finds)
      show "\<forall>h. 0 \<le> h \<and> h \<le> tipHeight \<longrightarrow> hashFunc h \<noteq> None \<and> nodeHash h \<noteq> None" using assms(3) by blast
      show "0 \<le> ?m" "?m \<le> tipHeight" "map_option hashString (nodeHash ?m) = hashFunc ?m" using m by blast+
    qed (rule assms(1), rule above)
    then show ?thesis using False by (simp add: OrphanedTipLength_def Let_def)
  qed
qed

theorem OrphanedTipLength_correct_witness:
  "OrphanedTipLength (\<lambda>h. False) fork_show (\<lambda>h. Some (fork_hash (word_of_int h))) 2
     (\<lambda>h. Some (fork_show (fork_hash (if h = 2 then 9 else word_of_int h)))) = (1, None)"
proof -
  have "{h. 0 \<le> h \<and> h \<le> 2 \<and> map_option fork_show (Some (fork_hash (word_of_int h)))
      = Some (fork_show (fork_hash (if h = 2 then 9 else word_of_int h)))} = {0, 1 :: int}"
    by auto
  then show ?thesis
    using OrphanedTipLength_correct [of "\<lambda>h. False" 2 "\<lambda>h. Some (fork_show (fork_hash (if h = 2 then 9 else word_of_int h)))"
        "\<lambda>h. Some (fork_hash (word_of_int h))" fork_show]
    by simp
qed

text \<open>When the context is cancelled the call reports no orphaned block and no error, as if the tip were on the main chain.\<close>

lemma OrphanedTipLength_cancelled:
  "cancelled tipHeight \<Longrightarrow> OrphanedTipLength cancelled hashString nodeHash tipHeight hashFunc = (0, None)"
  by (simp add: OrphanedTipLength_def orphan_loop.simps)

end
