(* ===== verification/Prefetch.thy ===== *)
theory Prefetch
  imports ChainWalk
begin

text \<open>
  The block prefetcher of \<open>rpcutils/prefetcher.go\<close>. A request for a block also orders the next one: with
  the mutex still locked a goroutine sends the next block's hash on \<open>retargetChan\<close> (capacity 10) and
  unlocks; the fetcher goroutine receives the hash, locks the mutex and stores the block. The step
  relation \<open>prefetch_step\<close> interleaves the callers, these goroutines and the fetcher at the points where
  they lock, send and receive, and the node, whose answers change: blocks come and go, and the confirmations
  and the successor in a header change as the chain grows. The state keeps the history of the node.
\<close>

section \<open>State\<close>

record 'b blockData =
  bd_height :: int
  bd_hash :: hash
  bd_msgBlock :: "'b wire_block option"
  bd_headerResult :: "header_verbose option"

definition new_blockData :: "'b blockData" where
  "new_blockData = \<lparr>bd_height = 0, bd_hash = zeroHash, bd_msgBlock = None, bd_headerResult = None\<rparr>"

text \<open>\<open>lockedFor\<close> is the argument of the goroutine that holds the mutex until it has sent its order, and
  \<open>received\<close> the hash that the fetcher has taken from the channel and not yet processed.\<close>

record 'b BlockPrefetchClient =
  retargetChan :: "hash list"
  chanClosed :: bool
  bp_current :: "'b blockData"
  bp_next :: "'b blockData"
  bp_hits :: "64 word"
  bp_misses :: "64 word"
  lockedFor :: "string option"
  received :: "hash option"

definition retargetCap :: nat where
  "retargetCap = 10"

definition NewBlockPrefetchClient :: "'b BlockPrefetchClient" where
  "NewBlockPrefetchClient = \<lparr>retargetChan = [], chanClosed = False, bp_current = new_blockData, bp_next = new_blockData,
     bp_hits = 0, bp_misses = 0, lockedFor = None, received = None\<rparr>"

section \<open>Operations\<close>

definition Stop :: "'b BlockPrefetchClient \<Rightarrow> 'b BlockPrefetchClient" where
  "Stop p = p\<lparr>chanClosed := True\<rparr>"

definition haveBlockHeight :: "int \<Rightarrow> 'b BlockPrefetchClient \<Rightarrow> bool" where
  "haveBlockHeight height p \<longleftrightarrow> bd_height (bp_next p) = height \<or> bd_height (bp_current p) = height"

definition haveBlockHash :: "hash \<Rightarrow> 'b BlockPrefetchClient \<Rightarrow> bool" where
  "haveBlockHash h p \<longleftrightarrow> bd_hash (bp_next p) = h \<or> bd_hash (bp_current p) = h"

definition storeNext :: "'b wire_block \<Rightarrow> header_verbose \<Rightarrow> 'b BlockPrefetchClient \<Rightarrow> 'b BlockPrefetchClient" where
  "storeNext msgBlock headerResult p =
     p\<lparr>bp_current := bp_next p,
       bp_next := \<lparr>bd_height = hdr_Height (wb_Header msgBlock), bd_hash = hdr_BlockHash (wb_Header msgBlock),
                   bd_msgBlock = Some msgBlock, bd_headerResult = Some headerResult\<rparr>\<rparr>"

text \<open>The two calls of the node happen at two moments: \<open>f\<close> is the node at the first and \<open>g\<close> at the second.\<close>

definition retrieveBlockAndHeaderResult ::
  "'b BlockFetcher \<Rightarrow> 'b BlockFetcher \<Rightarrow> hash \<Rightarrow> ('b wire_block \<times> header_verbose) option" where
  "retrieveBlockAndHeaderResult f g h =
     (case bf_GetBlock f h of
        None \<Rightarrow> None
      | Some msgBlock \<Rightarrow>
          (case bf_GetBlockHeaderVerbose g h of None \<Rightarrow> None | Some headerResult \<Rightarrow> Some (msgBlock, headerResult)))"

definition RetrieveAndStoreNext :: "'b BlockFetcher \<Rightarrow> 'b BlockFetcher \<Rightarrow> hash \<Rightarrow> 'b BlockPrefetchClient \<Rightarrow> 'b BlockPrefetchClient" where
  "RetrieveAndStoreNext f g nextHash p =
     (if haveBlockHash nextHash p then p
      else case retrieveBlockAndHeaderResult f g nextHash of
        None \<Rightarrow> p
      | Some (msgBlock, headerResult) \<Rightarrow> storeNext msgBlock headerResult p)"

text \<open>What \<open>retarget\<close> sends, if anything.\<close>

definition retarget :: "(string \<Rightarrow> hash option) \<Rightarrow> string \<Rightarrow> 'b BlockPrefetchClient \<Rightarrow> hash option" where
  "retarget newHash h p =
     (if h = [] then None
      else if (case bd_headerResult (bp_next p) of None \<Rightarrow> False | Some r \<Rightarrow> h = hv_Hash r) then None
      else if (case bd_headerResult (bp_current p) of None \<Rightarrow> False | Some r \<Rightarrow> h = hv_Hash r) then None
      else newHash h)"

text \<open>The goroutine that retargets and unlocks: its send blocks while the channel is full and panics when the
  channel is closed.\<close>

datatype 'a send = Sent 'a | Blocked | ClosedPanic

definition retargetAndUnlock :: "(string \<Rightarrow> hash option) \<Rightarrow> string \<Rightarrow> 'b BlockPrefetchClient \<Rightarrow> 'b BlockPrefetchClient send" where
  "retargetAndUnlock newHash nextHash p =
     (case retarget newHash nextHash p of
        None \<Rightarrow> Sent (p\<lparr>lockedFor := None\<rparr>)
      | Some h \<Rightarrow>
          if chanClosed p then ClosedPanic
          else if length (retargetChan p) \<ge> retargetCap then Blocked
          else Sent (p\<lparr>retargetChan := retargetChan p @ [h], lockedFor := None\<rparr>))"

text \<open>The result of a request: the two pointers, or an error of the node. \<open>None\<close> is a nil dereference.\<close>

datatype 'b request = GotData "'b wire_block option" "header_verbose option" | NodeFailed

definition GetBlockData :: "'b BlockFetcher \<Rightarrow> 'b BlockFetcher \<Rightarrow> hash \<Rightarrow> 'b BlockPrefetchClient \<Rightarrow> ('b BlockPrefetchClient \<times> 'b request) option" where
  "GetBlockData f g h p =
     (if bd_hash (bp_current p) = h then
        Some (p\<lparr>bp_hits := bp_hits p + 1\<rparr>, GotData (bd_msgBlock (bp_current p)) (bd_headerResult (bp_current p)))
      else if bd_hash (bp_next p) = h then
        (case bd_headerResult (bp_next p) of
           None \<Rightarrow> None
         | Some r \<Rightarrow> Some (p\<lparr>bp_hits := bp_hits p + 1, lockedFor := Some (hv_NextHash r)\<rparr>, GotData (bd_msgBlock (bp_next p)) (Some r)))
      else
        let p = p\<lparr>bp_misses := bp_misses p + 1\<rparr>
        in case retrieveBlockAndHeaderResult f g h of
             None \<Rightarrow> Some (p, NodeFailed)
           | Some (msgBlock, headerResult) \<Rightarrow>
               Some (p\<lparr>lockedFor := Some (hv_NextHash headerResult)\<rparr>, GotData (Some msgBlock) (Some headerResult)))"

section \<open>Interleaving\<close>

text \<open>What the node promises at every moment: a hash determines the block (\<open>blk\<close>), the node serves that block or
  none, and it has no block with the zero hash. Nothing is promised of the headers.\<close>

definition serves :: "(hash \<Rightarrow> 'b wire_block) \<Rightarrow> 'b BlockFetcher \<Rightarrow> bool" where
  "serves blk f \<longleftrightarrow> bf_GetBlock f zeroHash = None
     \<and> (\<forall>h b. bf_GetBlock f h = Some b \<longrightarrow> b = blk h \<and> hdr_BlockHash (wb_Header b) = h)"

text \<open>A state is the history of the node, the present one first, and the client. A request and the fetcher hold the
  mutex while they call the node twice; the node may change between the two calls (\<open>gs\<close>).\<close>

inductive prefetch_step ::
  "(string \<Rightarrow> hash option) \<Rightarrow> (hash \<Rightarrow> 'b wire_block) \<Rightarrow> 'b BlockFetcher list \<times> 'b BlockPrefetchClient
     \<Rightarrow> 'b BlockFetcher list \<times> 'b BlockPrefetchClient \<Rightarrow> bool"
  for newHash blk where
  node: "serves blk g \<Longrightarrow> prefetch_step newHash blk (fs, p) (g # fs, p)"
| request: "lockedFor p = None \<Longrightarrow> list_all (serves blk) gs \<Longrightarrow> GetBlockData f (hd (gs @ [f])) h p = Some (p', r)
    \<Longrightarrow> prefetch_step newHash blk (f # fs, p) (gs @ f # fs, p')"
| order: "lockedFor p = Some s \<Longrightarrow> retargetAndUnlock newHash s p = Sent p' \<Longrightarrow> prefetch_step newHash blk (fs, p) (fs, p')"
| receive: "received p = None \<Longrightarrow> retargetChan p = h # hs
    \<Longrightarrow> prefetch_step newHash blk (fs, p) (fs, p\<lparr>retargetChan := hs, received := Some h\<rparr>)"
| fetch: "received p = Some h \<Longrightarrow> lockedFor p = None \<Longrightarrow> list_all (serves blk) gs
    \<Longrightarrow> prefetch_step newHash blk (f # fs, p) (gs @ f # fs, (RetrieveAndStoreNext f (hd (gs @ [f])) h p)\<lparr>received := None\<rparr>)"
| stop: "lockedFor p = None \<Longrightarrow> prefetch_step newHash blk (fs, p) (fs, Stop p)"

section \<open>What a request returns\<close>

text \<open>An entry is empty or holds the block of its hash, which the node has served, with a header that the node has
  given for it.\<close>

definition blockData_ok :: "(hash \<Rightarrow> 'b wire_block) \<Rightarrow> 'b BlockFetcher list \<Rightarrow> 'b blockData \<Rightarrow> bool" where
  "blockData_ok blk fs d \<longleftrightarrow> d = new_blockData
     \<or> bd_hash d \<noteq> zeroHash \<and> bd_msgBlock d = Some (blk (bd_hash d)) \<and> bd_height d = hdr_Height (wb_Header (blk (bd_hash d)))
       \<and> (\<exists>f\<in>set fs. bf_GetBlock f (bd_hash d) = bd_msgBlock d)
       \<and> (\<exists>r. bd_headerResult d = Some r) \<and> (\<exists>f\<in>set fs. bf_GetBlockHeaderVerbose f (bd_hash d) = bd_headerResult d)"

definition prefetch_ok :: "(hash \<Rightarrow> 'b wire_block) \<Rightarrow> 'b BlockFetcher list \<times> 'b BlockPrefetchClient \<Rightarrow> bool" where
  "prefetch_ok blk s \<longleftrightarrow> list_all (serves blk) (fst s) \<and> blockData_ok blk (fst s) (bp_current (snd s))
     \<and> blockData_ok blk (fst s) (bp_next (snd s)) \<and> length (retargetChan (snd s)) \<le> retargetCap"

lemma prefetch_ok_new: "serves blk f \<Longrightarrow> prefetch_ok blk ([f], NewBlockPrefetchClient)"
  by (simp add: prefetch_ok_def NewBlockPrefetchClient_def blockData_ok_def)

lemma blockData_ok_later: "blockData_ok blk fs d \<Longrightarrow> blockData_ok blk (gs @ fs) d"
  unfolding blockData_ok_def by auto

lemma prefetch_ok_later: "prefetch_ok blk (fs, p) \<Longrightarrow> list_all (serves blk) gs \<Longrightarrow> prefetch_ok blk (gs @ fs, p)"
  by (simp add: prefetch_ok_def blockData_ok_later)

lemma retrieve_served:
  assumes "serves blk f" and "retrieveBlockAndHeaderResult f g h = Some (b, r)"
  shows "bf_GetBlock f h = Some b" "bf_GetBlockHeaderVerbose g h = Some r" "b = blk h" "hdr_BlockHash (wb_Header b) = h" "h \<noteq> zeroHash"
  using assms by (auto simp: retrieveBlockAndHeaderResult_def serves_def split: option.splits)

lemma hd_between: "hd (gs @ [f]) \<in> set (gs @ f # fs)"
  by (cases gs) simp_all

lemma RetrieveAndStoreNext_ok:
  assumes ok: "prefetch_ok blk (gs @ f # fs, p)"
  shows "prefetch_ok blk (gs @ f # fs, (RetrieveAndStoreNext f (hd (gs @ [f])) h p)\<lparr>received := None\<rparr>)"
proof (cases "haveBlockHash h p \<or> retrieveBlockAndHeaderResult f (hd (gs @ [f])) h = None")
  case True
  then show ?thesis using ok by (auto simp: RetrieveAndStoreNext_def prefetch_ok_def)
next
  case False
  then obtain b r where br: "retrieveBlockAndHeaderResult f (hd (gs @ [f])) h = Some (b, r)" by auto
  have "serves blk f" using ok by (simp add: prefetch_ok_def)
  note h = retrieve_served [OF this br]
  have "\<exists>k\<in>set (gs @ f # fs). bf_GetBlockHeaderVerbose k h = Some r" by (rule bexI [OF _ hd_between]) (rule h(2))
  moreover have "\<exists>k\<in>set (gs @ f # fs). bf_GetBlock k h = Some b" using h(1) by simp
  ultimately have "blockData_ok blk (gs @ f # fs)
      \<lparr>bd_height = hdr_Height (wb_Header b), bd_hash = hdr_BlockHash (wb_Header b), bd_msgBlock = Some b, bd_headerResult = Some r\<rparr>"
    using h(3,4,5) by (simp add: blockData_ok_def)
  then show ?thesis using False br ok by (simp add: RetrieveAndStoreNext_def storeNext_def prefetch_ok_def)
qed

lemma GetBlockData_frame:
  assumes "GetBlockData f g h p = Some (p', r)"
  shows "bp_current p' = bp_current p" "bp_next p' = bp_next p" "retargetChan p' = retargetChan p"
    "chanClosed p' = chanClosed p" "received p' = received p"
  using assms by (auto simp: GetBlockData_def Let_def split: if_splits option.splits)

lemma prefetch_step_ok: "prefetch_step newHash blk s s' \<Longrightarrow> prefetch_ok blk s \<Longrightarrow> prefetch_ok blk s'"
proof (induction rule: prefetch_step.induct)
  case (node g fs p)
  then show ?case using prefetch_ok_later [of blk fs p "[g]"] by simp
next
  case (request p gs f h p' r fs)
  then show ?case
    using prefetch_ok_later [of blk "f # fs" p gs] GetBlockData_frame [OF request(3)] by (simp add: prefetch_ok_def)
next
  case (order p s p' fs)
  then show ?case by (auto simp: retargetAndUnlock_def prefetch_ok_def split: option.splits if_splits)
next
  case (fetch p h gs f fs)
  then show ?case using RetrieveAndStoreNext_ok prefetch_ok_later by blast
qed (auto simp: prefetch_ok_def Stop_def)

lemma prefetch_reachable_ok:
  "(prefetch_step newHash blk)\<^sup>*\<^sup>* s s' \<Longrightarrow> prefetch_ok blk s \<Longrightarrow> prefetch_ok blk s'"
  by (induction rule: rtranclp_induct) (auto intro: prefetch_step_ok)

lemma GetBlockData_hit:
  assumes "prefetch_ok blk (fs, p)" and "h \<noteq> zeroHash" and "haveBlockHash h p"
  shows "\<exists>p' v. GetBlockData f g h p = Some (p', GotData (Some (blk h)) (Some v)) \<and> bp_hits p' = bp_hits p + 1
    \<and> bp_misses p' = bp_misses p \<and> (\<exists>k\<in>set fs. bf_GetBlock k h = Some (blk h)) \<and> (\<exists>k\<in>set fs. bf_GetBlockHeaderVerbose k h = Some v)"
proof (cases "bd_hash (bp_current p) = h")
  case True
  then have "bp_current p \<noteq> new_blockData" using assms(2) by (auto simp: new_blockData_def)
  then show ?thesis using assms(1) True by (auto simp: prefetch_ok_def blockData_ok_def GetBlockData_def)
next
  case False
  then have "bd_hash (bp_next p) = h" using assms(3) by (simp add: haveBlockHash_def)
  moreover from this have "bp_next p \<noteq> new_blockData" using assms(2) by (auto simp: new_blockData_def)
  ultimately show ?thesis using assms(1) False by (auto simp: prefetch_ok_def blockData_ok_def GetBlockData_def)
qed

lemma GetBlockData_miss:
  assumes "\<not> haveBlockHash h p"
  shows "\<exists>p'. GetBlockData f g h p = Some (p', case retrieveBlockAndHeaderResult f g h of
      None \<Rightarrow> NodeFailed | Some (b, v) \<Rightarrow> GotData (Some b) (Some v)) \<and> bp_hits p' = bp_hits p \<and> bp_misses p' = bp_misses p + 1"
  using assms by (auto simp: haveBlockHash_def GetBlockData_def Let_def split: option.splits)

text \<open>C24. Blocks of the prefetcher are right and headers may be old. The node's answers may change at any moment, also between
  its two calls, as long as a hash determines the block and no block has the zero hash (\<open>serves\<close>). Take any
  interleaving of requests, retargeting goroutines and the fetcher, and a request for a hash other than the zero hash that gets the
  mutex (it may wait for ever, see \<open>prefetch_deadlock\<close>). It never dereferences the header of an empty entry. If the hash is
  in neither entry it counts a miss and answers what the node answers now. Otherwise it counts a hit and returns
  the block of exactly that hash, one the node has served, with a header that the node gave for that hash at an earlier moment; if the node
  has never changed its header for the hash, that is the header it would give now.\<close>

theorem prefetch_answers:
  assumes "serves blk f0" and "(prefetch_step newHash blk)\<^sup>*\<^sup>* ([f0], NewBlockPrefetchClient) (f # fs, p)"
    and "lockedFor p = None" and "h \<noteq> zeroHash"
  shows "\<exists>p' r. GetBlockData f g h p = Some (p', r)
    \<and> (\<not> haveBlockHash h p \<longrightarrow> bp_misses p' = bp_misses p + 1 \<and> bp_hits p' = bp_hits p
         \<and> r = (case retrieveBlockAndHeaderResult f g h of None \<Rightarrow> NodeFailed | Some (b, v) \<Rightarrow> GotData (Some b) (Some v)))
    \<and> (haveBlockHash h p \<longrightarrow> bp_hits p' = bp_hits p + 1 \<and> bp_misses p' = bp_misses p
         \<and> (\<exists>k\<in>set (f # fs). bf_GetBlock k h = Some (blk h))
         \<and> (\<exists>v. r = GotData (Some (blk h)) (Some v) \<and> (\<exists>k\<in>set (f # fs). bf_GetBlockHeaderVerbose k h = Some v)
              \<and> ((\<forall>k\<in>set (f # fs). bf_GetBlockHeaderVerbose k h = bf_GetBlockHeaderVerbose f h) \<longrightarrow> bf_GetBlockHeaderVerbose f h = Some v)))"
proof (cases "haveBlockHash h p")
  case True
  have "prefetch_ok blk (f # fs, p)" using prefetch_reachable_ok [OF assms(2) prefetch_ok_new [OF assms(1)]] .
  from GetBlockData_hit [OF this assms(4) True, of f g] show ?thesis using True by fastforce
next
  case False
  then show ?thesis using GetBlockData_miss [OF False, of f g] by auto
qed

section \<open>An example\<close>

definition fork_blk :: "hash \<Rightarrow> unit wire_block" where
  "fork_blk h = the (bf_GetBlock fork_client h)"

lemma fork_serves: "serves fork_blk fork_client"
  by (auto simp: serves_def fork_blk_def fork_client_def fork_block_def)

text \<open>A request for block 4 of the example orders block 5; the fetcher stores it.\<close>

definition order_5 :: "unit BlockPrefetchClient \<Rightarrow> unit BlockPrefetchClient" where
  "order_5 p = p\<lparr>bp_misses := bp_misses p + 1, lockedFor := Some (fork_show (fork_hash 5))\<rparr>"

lemma fork_show_Nil [simp]: "fork_show (fork_hash n) \<noteq> []"
  by (simp add: fork_show_def fork_hash_def)

lemma fork_retrieve:
  "retrieveBlockAndHeaderResult fork_client fork_client (fork_hash 4)
     = Some (fork_block 4 (fork_hash 2) 2, the (bf_GetBlockHeaderVerbose fork_client (fork_hash 4)))"
  "retrieveBlockAndHeaderResult fork_client fork_client (fork_hash 5)
     = Some (fork_block 5 (fork_hash 4) 3, the (bf_GetBlockHeaderVerbose fork_client (fork_hash 5)))"
  "hv_NextHash (the (bf_GetBlockHeaderVerbose fork_client (fork_hash 4))) = fork_show (fork_hash 5)"
  by (simp_all add: retrieveBlockAndHeaderResult_def fork_client_def fork_block_def)

text \<open>As long as the fetcher does not get the mutex, each request for block 4 is a miss and orders block 5 once more.\<close>

abbreviation fork_steps :: "unit BlockPrefetchClient \<Rightarrow> unit BlockPrefetchClient \<Rightarrow> bool" where
  "fork_steps p p' \<equiv> (prefetch_step fork_parse fork_blk)\<^sup>*\<^sup>* ([fork_client], p) ([fork_client], p')"

definition empty_entries :: "unit BlockPrefetchClient \<Rightarrow> bool" where
  "empty_entries p \<longleftrightarrow> bp_current p = new_blockData \<and> bp_next p = new_blockData \<and> \<not> chanClosed p"

lemma request_4:
  assumes "empty_entries p" and "lockedFor p = None"
  shows "prefetch_step fork_parse fork_blk ([fork_client], p) ([fork_client], order_5 p)"
proof -
  have "\<exists>r. GetBlockData fork_client fork_client (fork_hash 4) p = Some (order_5 p, r)"
    using assms(1) fork_retrieve by (simp add: GetBlockData_def empty_entries_def order_5_def new_blockData_def)
  then obtain r where "GetBlockData fork_client (hd ([] @ [fork_client])) (fork_hash 4) p = Some (order_5 p, r)" by auto
  from prefetch_step.request [OF assms(2) _ this, where fs = "[]"] show ?thesis by simp
qed

lemma retarget_5: "empty_entries p \<Longrightarrow> retarget fork_parse (fork_show (fork_hash 5)) p = Some (fork_hash 5)"
  by (simp add: retarget_def empty_entries_def new_blockData_def)

definition ordered :: "unit BlockPrefetchClient \<Rightarrow> unit BlockPrefetchClient" where
  "ordered p = p\<lparr>bp_misses := bp_misses p + 1, retargetChan := retargetChan p @ [fork_hash 5], lockedFor := None\<rparr>"

lemma ordered_steps:
  assumes "empty_entries p" and "lockedFor p = None" and "length (retargetChan p) < retargetCap"
  shows "fork_steps p (ordered p)" and "empty_entries (ordered p)" and "lockedFor (ordered p) = None"
    and "length (retargetChan (ordered p)) = Suc (length (retargetChan p))" and "received (ordered p) = received p"
proof -
  have "prefetch_step fork_parse fork_blk ([fork_client], order_5 p) ([fork_client], ordered p)"
  proof (rule prefetch_step.order)
    show "lockedFor (order_5 p) = Some (fork_show (fork_hash 5))" by (simp add: order_5_def)
    have "empty_entries (order_5 p)" using assms(1) by (simp add: empty_entries_def order_5_def)
    then show "retargetAndUnlock fork_parse (fork_show (fork_hash 5)) (order_5 p) = Sent (ordered p)"
      using assms(1,3) retarget_5 [of "order_5 p"] by (simp add: retargetAndUnlock_def order_5_def ordered_def empty_entries_def)
  qed
  then show "fork_steps p (ordered p)" using request_4 [OF assms(1,2)] by (meson converse_rtranclp_into_rtranclp r_into_rtranclp)
  show "empty_entries (ordered p)" "lockedFor (ordered p) = None" "length (retargetChan (ordered p)) = Suc (length (retargetChan p))"
    "received (ordered p) = received p"
    using assms(1) by (simp_all add: empty_entries_def ordered_def)
qed

definition after_order :: "unit BlockPrefetchClient" where
  "after_order = (ordered NewBlockPrefetchClient)\<lparr>retargetChan := [], received := Some (fork_hash 5)\<rparr>"

lemma after_order_steps:
  "fork_steps NewBlockPrefetchClient after_order" "empty_entries after_order" "lockedFor after_order = None"
proof -
  have new: "empty_entries (NewBlockPrefetchClient :: unit BlockPrefetchClient)" "lockedFor (NewBlockPrefetchClient :: unit BlockPrefetchClient) = None"
    by (simp_all add: empty_entries_def NewBlockPrefetchClient_def)
  note first = ordered_steps [OF new]
  have "prefetch_step fork_parse fork_blk ([fork_client], ordered NewBlockPrefetchClient) ([fork_client], after_order)"
    unfolding after_order_def by (rule prefetch_step.receive) (simp_all add: ordered_def NewBlockPrefetchClient_def)
  then show "fork_steps NewBlockPrefetchClient after_order"
    using first(1) by (simp add: NewBlockPrefetchClient_def retargetCap_def)
  show "empty_entries after_order" "lockedFor after_order = None"
    by (simp_all add: after_order_def ordered_def empty_entries_def NewBlockPrefetchClient_def)
qed

definition have_5 :: "unit BlockPrefetchClient" where
  "have_5 = (RetrieveAndStoreNext fork_client fork_client (fork_hash 5) after_order)\<lparr>received := None\<rparr>"

lemma have_5_entries:
  "bd_hash (bp_current have_5) = zeroHash" "bp_next have_5 = \<lparr>bd_height = 3, bd_hash = fork_hash 5,
     bd_msgBlock = Some (fork_block 5 (fork_hash 4) 3), bd_headerResult = bf_GetBlockHeaderVerbose fork_client (fork_hash 5)\<rparr>"
  "lockedFor have_5 = None"
proof -
  have lock: "lockedFor after_order = None" and "empty_entries after_order" using after_order_steps by simp_all
  then have e: "bp_current after_order = new_blockData" "bp_next after_order = new_blockData" by (simp_all add: empty_entries_def)
  have "\<not> haveBlockHash (fork_hash 5) after_order" using e by (simp add: haveBlockHash_def new_blockData_def)
  then have eq: "have_5 = (storeNext (fork_block 5 (fork_hash 4) 3) (the (bf_GetBlockHeaderVerbose fork_client (fork_hash 5))) after_order)\<lparr>received := None\<rparr>"
    by (simp add: have_5_def RetrieveAndStoreNext_def fork_retrieve(2))
  have "Some (the (bf_GetBlockHeaderVerbose fork_client (fork_hash 5))) = bf_GetBlockHeaderVerbose fork_client (fork_hash 5)"
    by (simp add: fork_client_def)
  then show "bd_hash (bp_current have_5) = zeroHash" "bp_next have_5 = \<lparr>bd_height = 3, bd_hash = fork_hash 5,
     bd_msgBlock = Some (fork_block 5 (fork_hash 4) 3), bd_headerResult = bf_GetBlockHeaderVerbose fork_client (fork_hash 5)\<rparr>"
    "lockedFor have_5 = None"
    by (simp_all add: eq e lock storeNext_def fork_block_def new_blockData_def)
qed

lemma have_5_steps: "fork_steps NewBlockPrefetchClient have_5"
proof -
  have "received after_order = Some (fork_hash 5)" by (simp add: after_order_def)
  from prefetch_step.fetch [OF this after_order_steps(3), where gs = "[]" and f = fork_client and fs = "[]"]
  have "prefetch_step fork_parse fork_blk ([fork_client], after_order) ([fork_client], have_5)" by (simp add: have_5_def)
  then show ?thesis using after_order_steps(1) by (rule rtranclp.rtrancl_into_rtrancl [rotated])
qed

text \<open>Then block 6 is added to the chain, and the node's header of block 5 names it; the hit still returns the header of
  before, without a successor and with the confirmations of that time.\<close>

definition longer_client :: "unit BlockFetcher" where
  "longer_client = fork_client\<lparr>bf_GetBlockHeaderVerbose := \<lambda>h. if h = fork_hash 5 then
     Some \<lparr>hv_Hash = fork_show h, hv_Confirmations = 2, hv_PreviousHash = fork_show (fork_hash 4),
       hv_NextHash = fork_show (fork_hash 6), hv_ChainWork = []\<rparr> else bf_GetBlockHeaderVerbose fork_client h\<rparr>"

lemma longer_steps:
  "(prefetch_step fork_parse fork_blk)\<^sup>*\<^sup>* ([fork_client], NewBlockPrefetchClient) ([longer_client, fork_client], have_5)"
proof -
  have "serves fork_blk longer_client" using fork_serves by (simp add: serves_def longer_client_def)
  from prefetch_step.node [OF this] show ?thesis using have_5_steps by (rule rtranclp.rtrancl_into_rtrancl [rotated])
qed

theorem prefetch_answers_witness:
  "\<exists>p' v. GetBlockData longer_client longer_client (fork_hash 5) have_5 = Some (p', GotData (Some (fork_blk (fork_hash 5))) (Some v))
     \<and> bp_hits p' = bp_hits have_5 + 1 \<and> haveBlockHash (fork_hash 5) have_5"
proof -
  have "haveBlockHash (fork_hash 5) have_5" by (simp add: haveBlockHash_def have_5_entries(2))
  with prefetch_answers [OF fork_serves longer_steps have_5_entries(3), of "fork_hash 5" longer_client] show ?thesis by auto
qed

lemma stale_header_served:
  "\<exists>p' v w. GetBlockData longer_client longer_client (fork_hash 5) have_5 = Some (p', GotData (Some (fork_blk (fork_hash 5))) (Some v))
     \<and> bf_GetBlockHeaderVerbose longer_client (fork_hash 5) = Some w \<and> hv_NextHash v = [] \<and> hv_NextHash w = fork_show (fork_hash 6)
     \<and> hv_Confirmations v \<noteq> hv_Confirmations w"
  by (simp add: GetBlockData_def have_5_entries(1,2) longer_client_def fork_client_def fork_blk_def fork_block_def)

section \<open>When the prefetcher stands still\<close>

text \<open>The goroutine that holds the mutex can always go on, unless the channel is full; the fetcher makes room as
  long as it is not waiting for the mutex itself.\<close>

lemma prefetch_progress:
  assumes "lockedFor p = Some s" and "\<not> chanClosed p"
    and "retarget newHash s p = None \<or> length (retargetChan p) < retargetCap \<or> received p = None"
  shows "\<exists>p'. prefetch_step newHash blk (fs, p) (fs, p') \<and> p' \<noteq> p"
proof (cases "retarget newHash s p = None \<or> length (retargetChan p) < retargetCap")
  case True
  then obtain p' where "retargetAndUnlock newHash s p = Sent p'" "lockedFor p' = None"
    using assms(2) by (cases "retarget newHash s p") (auto simp: retargetAndUnlock_def)
  then show ?thesis using prefetch_step.order [OF assms(1)] assms(1) by force
next
  case False
  then obtain h hs where "retargetChan p = h # hs" by (cases "retargetChan p") (auto simp: retargetCap_def)
  moreover have "received p = None" using assms(3) False by blast
  ultimately have "prefetch_step newHash blk (fs, p) (fs, p\<lparr>retargetChan := hs, received := Some h\<rparr>)" by (intro prefetch_step.receive)
  moreover have "p\<lparr>retargetChan := hs, received := Some h\<rparr> \<noteq> p"
    using \<open>received p = None\<close> by (metis BlockPrefetchClient.select_convs(8) BlockPrefetchClient.surjective BlockPrefetchClient.update_convs(1,8) option.distinct(1))
  ultimately show ?thesis by blast
qed

text \<open>Twelve requests that lock the mutex before the fetcher does leave it locked for ever: ten orders fill the
  channel, one is in the hands of the fetcher, and the twelfth goroutine waits for room while it holds the mutex
  that the fetcher waits for. Whatever the node does, no step changes the client any more.\<close>

lemma prefetch_deadlock:
  "\<exists>p. fork_steps NewBlockPrefetchClient p \<and> lockedFor p \<noteq> None
     \<and> (\<forall>fs fs' p'. prefetch_step fork_parse fork_blk (fs, p) (fs', p') \<longrightarrow> p' = p)"
proof -
  have fill: "\<exists>p. fork_steps NewBlockPrefetchClient p \<and> empty_entries p \<and> lockedFor p = None
      \<and> length (retargetChan p) = k \<and> received p = Some (fork_hash 5)" if "k \<le> retargetCap" for k
    using that
  proof (induction k)
    case 0
    have "retargetChan after_order = []" "received after_order = Some (fork_hash 5)" by (simp_all add: after_order_def)
    then show ?case using after_order_steps by auto
  next
    case (Suc k)
    then obtain p where p: "fork_steps NewBlockPrefetchClient p" "empty_entries p" "lockedFor p = None"
      "length (retargetChan p) = k" "received p = Some (fork_hash 5)" by auto
    note o = ordered_steps [OF p(2,3)]
    show ?case using p o Suc.prems by (intro exI [of _ "ordered p"]) (auto intro: rtranclp_trans)
  qed
  obtain p where p: "fork_steps NewBlockPrefetchClient p" "empty_entries p" "lockedFor p = None"
    "length (retargetChan p) = retargetCap" "received p = Some (fork_hash 5)"
    using fill [of retargetCap] by auto
  have "empty_entries (order_5 p)" using p(2) by (simp add: empty_entries_def order_5_def)
  then have blocked: "retargetAndUnlock fork_parse (fork_show (fork_hash 5)) (order_5 p) = Blocked"
    using p(4) retarget_5 [of "order_5 p"] by (simp add: retargetAndUnlock_def order_5_def empty_entries_def)
  have "p' = order_5 p" if "prefetch_step fork_parse fork_blk (fs, order_5 p) (fs', p')" for fs fs' p'
    using that
  proof (cases rule: prefetch_step.cases)
    case (order s)
    then show ?thesis using blocked by (simp add: order_5_def)
  qed (use p(5) in \<open>auto simp: order_5_def\<close>)
  moreover have "fork_steps NewBlockPrefetchClient (order_5 p)"
    using request_4 [OF p(2,3)] p(1) by (rule rtranclp.rtrancl_into_rtrancl [rotated])
  ultimately show ?thesis by (intro exI [of _ "order_5 p"]) (auto simp: order_5_def)
qed

text \<open>Before the first block is stored, the zero hash is a hit: the call reports success with nil pointers.\<close>

lemma zero_hash_hit:
  "map_option snd (GetBlockData f g zeroHash (NewBlockPrefetchClient :: 'b BlockPrefetchClient)) = Some (GotData None None)"
  by (simp add: GetBlockData_def NewBlockPrefetchClient_def new_blockData_def)

end
