(* ===== verification/Notifier.thy ===== *)
theory Notifier
  imports ChainWalk StakeRecover
begin

text \<open>
  The notification queue of \<open>cmd/dcrdata/internal/notification/notifier.go\<close>: block, reorganization and
  transaction notifications of the node enter one queue, and \<open>superQueue\<close> hands them to the registered
  handlers. Handlers of a group run in parallel, groups one after another, and a group is waited for until
  a deadline. A handler is a function on the program's state \<open>'w\<close> that is \<open>None\<close> when it panics; the error
  it may return is only logged. The step relation \<open>notifier_step\<close> interleaves the queue, the goroutines of
  the handlers and the arrival of notifications.
\<close>

section \<open>The notifier\<close>

record BranchTips =
  bt_OldChainHead :: hash
  bt_OldChainHeight :: int
  bt_NewChainHead :: hash
  bt_NewChainHeight :: int

type_synonym 'w handler = "'w \<Rightarrow> 'w option"

datatype 't message = NewBlock block_header | Reorg BranchTips | NewTx 't

record ('w, 't) Notifier =
  n_tx :: "('t \<Rightarrow> 'w handler) list list"
  n_block :: "(block_header \<Rightarrow> 'w handler) list list"
  n_reorg :: "(ReorgData \<Rightarrow> 'w handler) list list"

type_synonym previous = "hash \<times> int"

definition anyQCap :: nat where
  "anyQCap = 1024"

definition NewNotifier :: "('w, 't) Notifier" where
  "NewNotifier = \<lparr>n_tx = [], n_block = [], n_reorg = []\<rparr>"

definition RegisterTxHandlerGroup :: "('t \<Rightarrow> 'w handler) list \<Rightarrow> ('w, 't) Notifier \<Rightarrow> ('w, 't) Notifier" where
  "RegisterTxHandlerGroup handlers n = n\<lparr>n_tx := n_tx n @ [handlers]\<rparr>"

definition RegisterBlockHandlerGroup :: "(block_header \<Rightarrow> 'w handler) list \<Rightarrow> ('w, 't) Notifier \<Rightarrow> ('w, 't) Notifier" where
  "RegisterBlockHandlerGroup handlers n = n\<lparr>n_block := n_block n @ [handlers]\<rparr>"

definition RegisterBlockHandlerLiteGroup ::
  "(hash \<Rightarrow> string) \<Rightarrow> (int \<Rightarrow> string \<Rightarrow> 'w handler) list \<Rightarrow> ('w, 't) Notifier \<Rightarrow> ('w, 't) Notifier" where
  "RegisterBlockHandlerLiteGroup hashString handlers n =
     RegisterBlockHandlerGroup (map (\<lambda>h bh. h (hdr_Height bh) (hashString (hdr_BlockHash bh))) handlers) n"

definition RegisterReorgHandlerGroup :: "(ReorgData \<Rightarrow> 'w handler) list \<Rightarrow> ('w, 't) Notifier \<Rightarrow> ('w, 't) Notifier" where
  "RegisterReorgHandlerGroup handlers n = n\<lparr>n_reorg := n_reorg n @ [handlers]\<rparr>"

text \<open>What the node's notifications put on the queue; a header that cannot be read is dropped, and a disconnected
  block is only logged.\<close>

definition onBlockConnected :: "('h \<Rightarrow> block_header option) \<Rightarrow> 'h \<Rightarrow> 't message list" where
  "onBlockConnected fromBytes bs = (case fromBytes bs of None \<Rightarrow> [] | Some bh \<Rightarrow> [NewBlock bh])"

definition onBlockDisconnected :: "'h \<Rightarrow> 't message list" where
  "onBlockDisconnected bs = []"

definition onReorganization :: "hash \<Rightarrow> int \<Rightarrow> hash \<Rightarrow> int \<Rightarrow> 't message list" where
  "onReorganization oldHash oldHeight newHash newHeight =
     [Reorg \<lparr>bt_OldChainHead = oldHash, bt_OldChainHeight = oldHeight, bt_NewChainHead = newHash, bt_NewChainHeight = newHeight\<rparr>]"

definition onTxAcceptedVerbose :: "('t \<Rightarrow> int \<Rightarrow> 't) \<Rightarrow> int \<Rightarrow> 't \<Rightarrow> 't message list" where
  "onTxAcceptedVerbose setTime now tx = [NewTx (setTime tx now)]"

section \<open>Jobs\<close>

text \<open>The work on one message: what is left to do when all its groups are done, and the groups.\<close>

datatype job = BlockJob block_header | ReorgJob BranchTips | TxJob

definition processBlock :: "('w, 't) Notifier \<Rightarrow> block_header \<Rightarrow> previous \<Rightarrow> (job \<times> 'w handler list list) option" where
  "processBlock n bh prev =
     (if hdr_PrevBlock bh \<noteq> fst prev then None
      else Some (BlockJob bh, map (map (\<lambda>h. h bh)) (n_block n)))"

definition processTx :: "('w, 't) Notifier \<Rightarrow> 't \<Rightarrow> job \<times> 'w handler list list" where
  "processTx n tx = (TxJob, map (map (\<lambda>h. h tx)) (n_tx n))"

definition reorg_data :: "BranchTips \<Rightarrow> hash \<Rightarrow> hash list \<Rightarrow> hash list \<Rightarrow> ReorgData" where
  "reorg_data d ancestor newChain oldChain =
     \<lparr>rd_CommonAncestor = ancestor, rd_OldChainHead = bt_OldChainHead d, rd_OldChainHeight = bt_OldChainHeight d,
      rd_OldChain = oldChain, rd_NewChainHead = bt_NewChainHead d, rd_NewChainHeight = bt_NewChainHeight d, rd_NewChain = newChain\<rparr>"

definition signalReorg ::
  "'b BlockFetcher option \<Rightarrow> ('w, 't) Notifier \<Rightarrow> BranchTips \<Rightarrow> (job \<times> 'w handler list list) option" where
  "signalReorg node n d =
     (case CommonAncestor node (bt_NewChainHead d) (bt_OldChainHead d) of
        (ancestor, newChain, oldChain, Some err) \<Rightarrow> None
      | (ancestor, newChain, oldChain, None) \<Rightarrow>
          Some (ReorgJob d, map (map (\<lambda>h. h (reorg_data d (the ancestor) newChain oldChain))) (n_reorg n)))"

text \<open>\<open>SetPreviousBlock\<close> after the groups; the height of a reorganization is converted to \<open>uint32\<close>.\<close>

definition SetPreviousBlock :: "job \<Rightarrow> previous \<Rightarrow> previous" where
  "SetPreviousBlock j prev =
     (case j of
        BlockJob bh \<Rightarrow> (hdr_BlockHash bh, hdr_Height bh)
      | ReorgJob d \<Rightarrow> (bt_NewChainHead d, bt_NewChainHeight d mod 2 ^ 32)
      | TxJob \<Rightarrow> prev)"

definition superQueue ::
  "'b BlockFetcher option \<Rightarrow> ('w, 't) Notifier \<Rightarrow> 't message \<Rightarrow> previous \<Rightarrow> (job \<times> 'w handler list list) option" where
  "superQueue node n m prev =
     (case m of
        NewBlock bh \<Rightarrow> processBlock n bh prev
      | Reorg d \<Rightarrow> signalReorg node n d
      | NewTx tx \<Rightarrow> Some (processTx n tx))"

section \<open>Interleaving\<close>

text \<open>\<open>working\<close> is the job with the groups that have not been started and whether the queue waits for the started
  one; \<open>running\<close> are the goroutines of that group and \<open>stray\<close> those of groups that missed their deadline.\<close>

record ('w, 't) notifier_state =
  anyQ :: "'t message list"
  prevBlock :: previous
  world :: 'w
  working :: "(job \<times> 'w handler list list \<times> bool) option"
  running :: "'w handler list"
  stray :: "'w handler list"

datatype 't event = Arrive "'t message" | Take | Start | Finish | FinishStray | GroupDone | Timeout | Complete

inductive notifier_step ::
  "'b BlockFetcher option \<Rightarrow> ('w, 't) Notifier \<Rightarrow> ('w, 't) notifier_state \<Rightarrow> 't event \<Rightarrow> ('w, 't) notifier_state \<Rightarrow> bool"
  for node n where
  arrive: "length (anyQ s) < anyQCap \<Longrightarrow> notifier_step node n s (Arrive m) (s\<lparr>anyQ := anyQ s @ [m]\<rparr>)"
| take: "working s = None \<Longrightarrow> anyQ s = m # q
    \<Longrightarrow> notifier_step node n s Take
          (s\<lparr>anyQ := q, working := map_option (\<lambda>(j, gs). (j, gs, False)) (superQueue node n m (prevBlock s))\<rparr>)"
| start: "working s = Some (j, g # gs, False)
    \<Longrightarrow> notifier_step node n s Start (s\<lparr>working := Some (j, gs, True), running := g\<rparr>)"
| finish: "running s = xs @ h # ys \<Longrightarrow> h (world s) = Some w
    \<Longrightarrow> notifier_step node n s Finish (s\<lparr>running := xs @ ys, world := w\<rparr>)"
| finish_stray: "stray s = xs @ h # ys \<Longrightarrow> h (world s) = Some w
    \<Longrightarrow> notifier_step node n s FinishStray (s\<lparr>stray := xs @ ys, world := w\<rparr>)"
| group_done: "working s = Some (j, gs, True) \<Longrightarrow> running s = []
    \<Longrightarrow> notifier_step node n s GroupDone (s\<lparr>working := Some (j, gs, False)\<rparr>)"
| timeout: "working s = Some (j, gs, True)
    \<Longrightarrow> notifier_step node n s Timeout
          (s\<lparr>working := (if j = TxJob then None else Some (j, gs, False)), running := [], stray := stray s @ running s\<rparr>)"
| complete: "working s = Some (j, [], False)
    \<Longrightarrow> notifier_step node n s Complete (s\<lparr>working := None, prevBlock := SetPreviousBlock j (prevBlock s)\<rparr>)"

inductive notifier_run ::
  "'b BlockFetcher option \<Rightarrow> ('w, 't) Notifier \<Rightarrow> ('w, 't) notifier_state \<Rightarrow> 't event list \<Rightarrow> ('w, 't) notifier_state \<Rightarrow> bool"
  for node n where
  run_nil: "notifier_run node n s [] s"
| run_step: "notifier_step node n s e s' \<Longrightarrow> notifier_run node n s' es s'' \<Longrightarrow> notifier_run node n s (e # es) s''"

fun arrivals :: "'t event list \<Rightarrow> 't message list" where
  "arrivals [] = []"
| "arrivals (Arrive m # es) = m # arrivals es"
| "arrivals (e # es) = arrivals es"

section \<open>One message after the other\<close>

text \<open>The sequential meaning of the groups: the handlers of a group finish in some order, then the next group runs.\<close>

inductive seq_exec :: "'w handler list list \<Rightarrow> 'w \<Rightarrow> 'w \<Rightarrow> bool" where
  seq_done: "seq_exec [] w w"
| seq_next: "seq_exec gs w w' \<Longrightarrow> seq_exec ([] # gs) w w'"
| seq_one: "h w = Some w1 \<Longrightarrow> seq_exec ((xs @ ys) # gs) w1 w' \<Longrightarrow> seq_exec ((xs @ h # ys) # gs) w w'"

inductive seq_run ::
  "'b BlockFetcher option \<Rightarrow> ('w, 't) Notifier \<Rightarrow> 't message list \<Rightarrow> previous \<times> 'w \<Rightarrow> previous \<times> 'w \<Rightarrow> bool"
  for node n where
  seq_nil: "seq_run node n [] pw pw"
| seq_dropped: "superQueue node n m p = None \<Longrightarrow> seq_run node n ms (p, w) pw' \<Longrightarrow> seq_run node n (m # ms) (p, w) pw'"
| seq_job: "superQueue node n m p = Some (j, gs) \<Longrightarrow> seq_exec gs w w1
    \<Longrightarrow> seq_run node n ms (SetPreviousBlock j p, w1) pw' \<Longrightarrow> seq_run node n (m # ms) (p, w) pw'"

inductive_cases seq_exec_NilE: "seq_exec [] w w'"
inductive_cases seq_run_NilE: "seq_run node n [] pw pw'"
inductive_cases seq_run_ConsE: "seq_run node n (m # ms) (p, w) pw'"

definition seq_from ::
  "'b BlockFetcher option \<Rightarrow> ('w, 't) Notifier \<Rightarrow> ('w, 't) notifier_state \<Rightarrow> 't message list \<Rightarrow> previous \<times> 'w \<Rightarrow> bool" where
  "seq_from node n s ms pw' \<longleftrightarrow>
     (case working s of
        None \<Rightarrow> seq_run node n ms (prevBlock s, world s) pw'
      | Some (j, gs, b) \<Rightarrow>
          \<exists>w1. seq_exec (running s # gs) (world s) w1 \<and> seq_run node n ms (SetPreviousBlock j (prevBlock s), w1) pw')"

definition settled :: "('w, 't) notifier_state \<Rightarrow> bool" where
  "settled s \<longleftrightarrow> stray s = [] \<and> (case working s of Some (j, gs, True) \<Rightarrow> True | _ \<Rightarrow> running s = [])"

lemma seq_exec_skip: "seq_exec ([] # gs) w w' \<longleftrightarrow> seq_exec gs w w'"
proof
  assume "seq_exec ([] # gs) w w'"
  then show "seq_exec gs w w'" by (cases rule: seq_exec.cases) auto
qed (rule seq_next)

lemma settled_step:
  "notifier_step node n s e s' \<Longrightarrow> e \<noteq> Timeout \<Longrightarrow> settled s \<Longrightarrow> settled s'"
  by (induction rule: notifier_step.induct) (auto simp: settled_def split: option.splits bool.splits)

lemma seq_from_step:
  assumes "notifier_step node n s e s'" and "e \<noteq> Timeout" and "settled s" and "seq_from node n s' ms pw'"
  shows "\<exists>ms'. anyQ s @ arrivals [e] @ q = ms' @ anyQ s' @ q \<and> seq_from node n s (ms' @ ms) pw'"
  using assms
proof (induction rule: notifier_step.induct)
  case (take s m q')
  then show ?case
    by (intro exI [of _ "[m]"])
      (auto simp: seq_from_def settled_def seq_exec_skip split: option.splits intro: seq_dropped seq_job)
next
  case (start s j g gs)
  then show ?case by (auto simp: seq_from_def settled_def seq_exec_skip intro!: exI [of _ "[]"])
next
  case (finish s xs h ys w)
  then show ?case
    by (intro exI [of _ "[]"]) (auto simp: seq_from_def settled_def split: option.splits intro: seq_one)
qed (auto simp: seq_from_def settled_def seq_exec_skip intro!: exI [of _ "[]"] elim: seq_exec_NilE intro: seq_done split: option.splits)

lemma arrivals_Cons: "arrivals (e # es) = arrivals [e] @ arrivals es"
  by (cases e) simp_all

lemma notifier_run_seq:
  "notifier_run node n s evs s' \<Longrightarrow> Timeout \<notin> set evs \<Longrightarrow> settled s \<Longrightarrow> working s' = None
   \<Longrightarrow> \<exists>ms. anyQ s @ arrivals evs = ms @ anyQ s' \<and> seq_from node n s ms (prevBlock s', world s')"
proof (induction rule: notifier_run.induct)
  case (run_nil s)
  then show ?case by (intro exI [of _ "[]"]) (simp add: seq_from_def seq_nil)
next
  case (run_step s e s1 es s2)
  have e: "e \<noteq> Timeout" using run_step.prems(1) by auto
  obtain ms where ms: "anyQ s1 @ arrivals es = ms @ anyQ s2" "seq_from node n s1 ms (prevBlock s2, world s2)"
    using run_step.IH [OF _ settled_step [OF run_step.hyps(1) e run_step.prems(2)] run_step.prems(3)] run_step.prems(1)
    by (metis list.set_intros(2))
  obtain ms' where ms': "anyQ s @ arrivals [e] @ arrivals es = ms' @ anyQ s1 @ arrivals es"
    "seq_from node n s (ms' @ ms) (prevBlock s2, world s2)"
    using seq_from_step [OF run_step.hyps(1) e run_step.prems(2) ms(2)] by blast
  have "anyQ s @ arrivals (e # es) = (ms' @ ms) @ anyQ s2" using ms(1) ms'(1) by (simp only: arrivals_Cons [of e es] append_assoc)
  then show ?case using ms'(2) by blast
qed

text \<open>C15. The queue is sequential: in a run in which every group of handlers meets its deadline, however the
  goroutines and the arrivals interleave, the messages are handled in the order of their arrival, each one
  completely before the next, its groups in the order of registration, and nothing is lost or handled twice.\<close>

theorem notifier_sequential:
  assumes "notifier_run node n s evs s'" and "Timeout \<notin> set evs" and "settled s" and "working s = None" and "working s' = None"
  shows "\<exists>ms. anyQ s @ arrivals evs = ms @ anyQ s' \<and> seq_run node n ms (prevBlock s, world s) (prevBlock s', world s')"
  using notifier_run_seq [OF assms(1-3,5)] assms(4) by (simp add: seq_from_def)

text \<open>A message without handlers that connects to the previous block.\<close>

definition idle_state :: "previous \<Rightarrow> 'w \<Rightarrow> ('w, 't) notifier_state" where
  "idle_state prev w = \<lparr>anyQ = [], prevBlock = prev, world = w, working = None, running = [], stray = []\<rparr>"

definition count_notifier :: "(nat, unit) Notifier" where
  "count_notifier = RegisterBlockHandlerGroup [\<lambda>bh k. Some (k + 1), \<lambda>bh k. Some (k + 1)] NewNotifier"

definition header_1 :: block_header where
  "header_1 = \<lparr>hdr_Height = 1, hdr_PrevBlock = zeroHash, hdr_BlockHash = fork_hash 1\<rparr>"

lemma count_run:
  "notifier_run (None :: unit BlockFetcher option) count_notifier (idle_state (zeroHash, 0) 0)
     [Arrive (NewBlock header_1), Take, Start, Finish, Finish, GroupDone, Complete] (idle_state (fork_hash 1, 1) 2)"
proof -
  let ?g = "[\<lambda>k. Some (k + 1), \<lambda>k. Some (k + 1)] :: nat handler list"
  let ?s = "idle_state (zeroHash, 0) 0 :: (nat, unit) notifier_state"
  let ?step = "notifier_step (None :: unit BlockFetcher option) count_notifier"
  note arrive = notifier_step.arrive [where node = "None :: unit BlockFetcher option" and n = count_notifier]
    and taken = notifier_step.take [where node = "None :: unit BlockFetcher option" and n = count_notifier]
    and start = notifier_step.start [where node = "None :: unit BlockFetcher option" and n = count_notifier]
    and finish = notifier_step.finish [where node = "None :: unit BlockFetcher option" and n = count_notifier]
    and group_done = notifier_step.group_done [where node = "None :: unit BlockFetcher option" and n = count_notifier]
    and complete = notifier_step.complete [where node = "None :: unit BlockFetcher option" and n = count_notifier]
  have take: "superQueue (None :: unit BlockFetcher option) count_notifier (NewBlock header_1) (zeroHash, 0) = Some (BlockJob header_1, [?g])"
    by (simp add: superQueue_def processBlock_def header_1_def count_notifier_def RegisterBlockHandlerGroup_def NewNotifier_def)
  have "?step ?s (Arrive (NewBlock header_1)) (?s\<lparr>anyQ := [NewBlock header_1]\<rparr>)"
    using arrive [of ?s] by (simp add: idle_state_def anyQCap_def)
  moreover have "?step (?s\<lparr>anyQ := [NewBlock header_1]\<rparr>) Take (?s\<lparr>working := Some (BlockJob header_1, [?g], False)\<rparr>)"
    using taken [of "?s\<lparr>anyQ := [NewBlock header_1]\<rparr>" "NewBlock header_1" "[]"] take by (simp add: idle_state_def)
  moreover have "?step (?s\<lparr>working := Some (BlockJob header_1, [?g], False)\<rparr>) Start (?s\<lparr>working := Some (BlockJob header_1, [], True), running := ?g\<rparr>)"
    using start [of "?s\<lparr>working := Some (BlockJob header_1, [?g], False)\<rparr>" "BlockJob header_1" ?g "[]"] by (simp add: idle_state_def)
  moreover have "?step (?s\<lparr>working := Some (BlockJob header_1, [], True), running := ?g\<rparr>) Finish
      (?s\<lparr>world := 1, working := Some (BlockJob header_1, [], True), running := [\<lambda>k. Some (k + 1)]\<rparr>)"
    using finish [of "?s\<lparr>working := Some (BlockJob header_1, [], True), running := ?g\<rparr>" "[]" "\<lambda>k. Some (k + 1)" "[\<lambda>k. Some (k + 1)]"] by (simp add: idle_state_def)
  moreover have "?step (?s\<lparr>world := 1, working := Some (BlockJob header_1, [], True), running := [\<lambda>k. Some (k + 1)]\<rparr>) Finish
      (?s\<lparr>world := 2, working := Some (BlockJob header_1, [], True), running := []\<rparr>)"
    using finish [of "?s\<lparr>world := 1, working := Some (BlockJob header_1, [], True), running := [\<lambda>k. Some (k + 1)]\<rparr>" "[]" "\<lambda>k. Some (k + 1)" "[]"]
    by (simp add: idle_state_def numeral_2_eq_2)
  moreover have "?step (?s\<lparr>world := 2, working := Some (BlockJob header_1, [], True), running := []\<rparr>) GroupDone
      (?s\<lparr>world := 2, working := Some (BlockJob header_1, [], False), running := []\<rparr>)"
    using group_done [of "?s\<lparr>world := 2, working := Some (BlockJob header_1, [], True), running := []\<rparr>" "BlockJob header_1" "[]"] by (simp add: idle_state_def)
  moreover have "?step (?s\<lparr>world := 2, working := Some (BlockJob header_1, [], False), running := []\<rparr>) Complete (idle_state (fork_hash 1, 1) 2)"
    using complete [of "?s\<lparr>world := 2, working := Some (BlockJob header_1, [], False), running := []\<rparr>" "BlockJob header_1"]
    by (simp add: idle_state_def SetPreviousBlock_def header_1_def)
  ultimately show ?thesis by (intro run_step) (assumption+, rule run_nil)
qed

theorem notifier_sequential_witness:
  "seq_run (None :: unit BlockFetcher option) count_notifier [NewBlock header_1] ((zeroHash, 0), 0) ((fork_hash 1, 1), 2)"
  using notifier_sequential [OF count_run] by (simp add: idle_state_def settled_def)

section \<open>A reorganization reaches the stake database\<close>

definition ChainMonitor_ConnectBlock ::
  "('n, 's, 'd, 'f) stake_env \<Rightarrow> node_client \<Rightarrow> block_header \<Rightarrow> ('n, 's, 'd, 'f) StakeDatabase \<Rightarrow> ('n, 's, 'd, 'f) sd_result" where
  "ChainMonitor_ConnectBlock env rpc header db =
     map_option (\<lambda>(db', blk, err). (db', err)) (ConnectBlockHash env rpc (hdr_BlockHash header) db)"

text \<open>A handler that keeps the logged errors beside the stake database.\<close>

definition logged ::
  "('a \<Rightarrow> ('n, 's, 'd, 'f) StakeDatabase \<Rightarrow> ('n, 's, 'd, 'f) sd_result) \<Rightarrow> 'a \<Rightarrow> (('n, 's, 'd, 'f) StakeDatabase \<times> sd_error list) handler" where
  "logged h x = (\<lambda>(db, log). map_option (\<lambda>(db', err). (db', log @ (case err of None \<Rightarrow> [] | Some e \<Rightarrow> [e]))) (h x db))"

definition stake_notifier ::
  "('n, 's, 'd, 'f) stake_env \<Rightarrow> node_client \<Rightarrow> (('n, 's, 'd, 'f) StakeDatabase \<times> sd_error list, 't) Notifier" where
  "stake_notifier env rpc =
     RegisterReorgHandlerGroup [logged (ChainMonitor_ReorgHandler env rpc)]
       (RegisterBlockHandlerGroup [logged (ChainMonitor_ConnectBlock env rpc)] NewNotifier)"

lemma seq_exec_single: "seq_exec [[h]] w w' \<longleftrightarrow> h w = Some w'"
proof
  assume "seq_exec [[h]] w w'"
  then show "h w = Some w'"
    by (cases rule: seq_exec.cases) (auto simp: Cons_eq_append_conv seq_exec_skip elim: seq_exec_NilE)
next
  assume "h w = Some w'"
  then show "seq_exec [[h]] w w'"
    using seq_one [of h w w' "[]" "[]" "[]" w'] by (simp add: seq_exec_skip seq_done)
qed

lemma seq_run_one:
  assumes "superQueue node n m p = Some (j, gs)"
  shows "seq_run node n [m] (p, w) pw' \<longleftrightarrow> (\<exists>w1. seq_exec gs w w1 \<and> pw' = (SetPreviousBlock j p, w1))"
proof
  assume "seq_run node n [m] (p, w) pw'"
  then show "\<exists>w1. seq_exec gs w w1 \<and> pw' = (SetPreviousBlock j p, w1)"
    by (rule seq_run_ConsE) (use assms in \<open>auto elim: seq_run_NilE\<close>)
qed (use assms in \<open>auto intro: seq_job seq_nil\<close>)

lemma stake_notifier_groups:
  "n_block (stake_notifier env rpc) = [[logged (ChainMonitor_ConnectBlock env rpc)]]"
  "n_reorg (stake_notifier env rpc) = [[logged (ChainMonitor_ReorgHandler env rpc)]]"
  by (simp_all add: stake_notifier_def RegisterReorgHandlerGroup_def RegisterBlockHandlerGroup_def NewNotifier_def)

text \<open>C7. From the node's announcement to the stake database: when the node reports a reorganization between two branches
  of its tree and the handlers log no error, the stake database and its ticket pool end at the height of
  the new tip, the diffs up to the common ancestor are the old ones, one diff follows for every block of
  the new branch, and the notifier goes on from the new tip.\<close>

theorem reorg_reaches_stake_db:
  fixes env :: "('n, 's, 'd, 'f) stake_env" and n :: "(('n, 's, 'd, 'f) StakeDatabase \<times> sd_error list, 't) Notifier"
  assumes "block_tree c" and "a \<noteq> zeroHash" and "A \<noteq> []" and "B \<noteq> []" and "linked c a A" and "linked c a B"
    and "set A \<inter> set B = {}" and "max (length A) (length B) \<le> maxAncestorChainLength"
    and "bt_NewChainHead d = last A" and "bt_OldChainHead d = last B" and "bt_NewChainHeight d = height_of c (last A)"
    and "node_laws env" and "in_sync env db"
    and "n = stake_notifier env rpc" and "seq_run (Some c) n [Reorg d] (prev, (db, [])) (prev', (db', []))"
  shows "prev' = (last A, height_of c (last A) mod 2 ^ 32) \<and> Height env db' = height_of c (last A)
    \<and> tip (PoolDB db') = height_of c (last A)
    \<and> (\<exists>new. length new = length A \<and> diffs (PoolDB db') = take (nat (height_of c a)) (diffs (PoolDB db)) @ new)"
proof -
  let ?r = "reorg_data d a A B"
  have sig: "superQueue (Some c) n (Reorg d) prev
      = Some (ReorgJob d, [[logged (ChainMonitor_ReorgHandler env rpc) ?r]])"
    using CommonAncestor_fork [OF assms(1-8)] assms(9,10,14) by (simp add: superQueue_def signalReorg_def stake_notifier_groups)
  have run: "logged (ChainMonitor_ReorgHandler env rpc) ?r (db, []) = Some (db', [])" and prev: "prev' = SetPreviousBlock (ReorgJob d) prev"
    using assms(15) sig by (auto simp: seq_run_one seq_exec_single)
  have "ChainMonitor_ReorgHandler env rpc ?r db = Some (db', None)"
    using run by (auto simp: logged_def split: option.splits)
  note sw = ReorgHandler_result [OF assms(12,13) this]
  have "height_of c (last A) = height_of c a + int (length A)"
    using linked_height [OF assms(1,5,2), of "length A - 1"] assms(3) by (simp add: last_conv_nth of_nat_diff Suc_le_eq)
  then have "nat (height_of c (last A)) - length A = nat (height_of c a)" by linarith
  then show ?thesis using sw prev assms(9,11) by (simp add: reorg_data_def SetPreviousBlock_def)
qed

lemma ex_db2_in_sync: "in_sync ex_env ex_db2"
  using ex_pool2 by (simp add: in_sync_def Height_def ex_connect2 ex_node)

text \<open>The node of \<open>StakeRuns\<close> with a second branch at height 2.\<close>

definition ex_tree :: "unit BlockFetcher" where
  "ex_tree = \<lparr>bf_GetBestBlock = None,
     bf_GetBlock = [ex_hash 1 \<mapsto> fork_block 1 zeroHash 1, ex_hash 2 \<mapsto> fork_block 2 (ex_hash 1) 2, ex_hash 3 \<mapsto> fork_block 3 (ex_hash 1) 2],
     bf_GetBlockHash = Map.empty, bf_GetBlockHeaderVerbose = Map.empty\<rparr>"

definition ex_tips :: BranchTips where
  "ex_tips = \<lparr>bt_OldChainHead = ex_hash 3, bt_OldChainHeight = 2, bt_NewChainHead = ex_hash 2, bt_NewChainHeight = 2\<rparr>"

lemma ex_hash_eq: "ex_hash m = ex_hash n \<longleftrightarrow> word_of_int m = (word_of_int n :: byte)" "zeroHash = ex_hash n \<longleftrightarrow> word_of_int n = (0 :: byte)"
  by (auto simp: ex_hash_def HashSize_def zeroHash_def)

lemma ex_tree_facts:
  "block_tree ex_tree" "linked ex_tree (ex_hash 1) [ex_hash 2]" "linked ex_tree (ex_hash 1) [ex_hash 3]" "height_of ex_tree (ex_hash 2) = 2"
  by (auto simp: block_tree_def ex_tree_def fork_block_def ex_hash_eq height_of_def)

theorem reorg_reaches_stake_db_witness: "Height ex_env ex_switched = 2 \<and> tip (PoolDB ex_switched) = 2"
proof -
  let ?n = "stake_notifier ex_env ex_rpc :: (_, unit) Notifier"
  let ?r = "reorg_data ex_tips (ex_hash 1) [ex_hash 2] [ex_hash 3]"
  have ne: "ex_hash 1 \<noteq> zeroHash" "ex_hash 2 \<noteq> ex_hash 3" using ex_hash_eq(2) [of 1] by (auto simp: ex_hash_eq(1))
  have "CommonAncestor (Some ex_tree) (ex_hash 2) (ex_hash 3) = (Some (ex_hash 1), [ex_hash 2], [ex_hash 3], None)"
    using CommonAncestor_fork [OF ex_tree_facts(1) ne(1), of "[ex_hash 2]" "[ex_hash 3]"] ex_tree_facts(2,3) ne(2)
    by (simp add: maxAncestorChainLength_def)
  then have sig: "superQueue (Some ex_tree) ?n (Reorg ex_tips) (zeroHash, 0) = Some (ReorgJob ex_tips, [[logged (ChainMonitor_ReorgHandler ex_env ex_rpc) ?r]])"
    by (simp add: superQueue_def signalReorg_def stake_notifier_groups ex_tips_def)
  have "ChainMonitor_ReorgHandler ex_env ex_rpc ?r ex_db2 = ChainMonitor_ReorgHandler ex_env ex_rpc ex_reorg ex_db2"
    unfolding ChainMonitor_ReorgHandler_def switchToSideChain_def reorg_data_def ex_tips_def ex_reorg_def BranchTips.simps ReorgData.simps ..
  then have "seq_run (Some ex_tree) ?n [Reorg ex_tips] ((zeroHash, 0), (ex_db2, [])) (SetPreviousBlock (ReorgJob ex_tips) (zeroHash, 0), (ex_switched, []))"
    using ex_reorg_run by (simp add: seq_run_one [OF sig] seq_exec_single logged_def)
  then show ?thesis
    using reorg_reaches_stake_db [OF ex_tree_facts(1) ne(1), of "[ex_hash 2]" "[ex_hash 3]" ex_tips ex_env ex_db2 ?n ex_rpc "(zeroHash, 0)"]
      ex_tree_facts(2-4) ne(2) ex_laws ex_db2_in_sync
    by (simp add: maxAncestorChainLength_def ex_tips_def)
qed

section \<open>A failed search for the ancestor stops the notifier\<close>

text \<open>When the common ancestor cannot be determined, \<open>signalReorg\<close> returns before it advances the previous block. The
  blocks that the node builds on the new tip no longer connect, and all of them are dropped.\<close>

lemma failed_ancestor_drops_blocks:
  assumes "CommonAncestor node (bt_NewChainHead d) (bt_OldChainHead d) = (x, cA, cB, Some err)"
    and "\<And>bh. bh \<in> set bhs \<Longrightarrow> hdr_PrevBlock bh \<noteq> fst prev"
  shows "seq_run node n (Reorg d # map NewBlock bhs) (prev, w) (prev, w)"
proof -
  have "seq_run node n (map NewBlock bhs) (prev, w) (prev, w)"
    using assms(2) by (induction bhs) (auto intro: seq_nil seq_dropped simp: superQueue_def processBlock_def)
  moreover have "superQueue node n (Reorg d) prev = None" using assms(1) by (simp add: superQueue_def signalReorg_def)
  ultimately show ?thesis by (simp add: seq_dropped)
qed

end
