(* ===== verification/Hub.thy ===== *)
theory Hub
  imports Prelude
begin

text \<open>
  The websocket hub of \<open>pubsub/websocket.go\<close> with the messages of \<open>pubsub/types\<close> and the per-client loops of
  \<open>pubsub/pubsubhub.go\<close>. A client is identified by its spoke, a channel of capacity 64 that the hub sends on and
  closes; \<open>queue\<close> is its content. The order in which Go walks the client map is the argument \<open>ord\<close>, the choice
  that \<open>select\<close> makes when a client is gone and its channel has room is the argument \<open>choice\<close>. \<open>None\<close> is a panic.
\<close>

section \<open>Messages\<close>

datatype HubSignal = SigSubscribe | SigUnsubscribe | SigDecodeTx | SigGetMempoolTxs | SigSendTx | SigVersion
  | SigNewBlock | SigMempoolUpdate | SigPingAndUserCount | SigNewTx | SigNewTxs | SigAddressTx | SigSyncStatus
  | SigByeNow | SigUnknown | SigInvalid int

record AddressMessage =
  am_Address :: string
  am_TxHash :: string

text \<open>The dynamic type of \<open>Msg\<close>; pointers may be nil.\<close>

datatype 'tx hub_payload = NoMsg | AddressMsg "AddressMessage option" | TxMsg "'tx option" | TxsMsg "'tx list" | OtherMsg

record 'tx HubMessage =
  Signal :: HubSignal
  Msg :: "'tx hub_payload"

fun eventID :: "HubSignal \<Rightarrow> string option" where
  "eventID SigSubscribe = Some ''subscribe''"
| "eventID SigUnsubscribe = Some ''unsubscribe''"
| "eventID SigDecodeTx = Some ''decodetx''"
| "eventID SigGetMempoolTxs = Some ''getmempooltxs''"
| "eventID SigSendTx = Some ''sendtx''"
| "eventID SigVersion = Some ''getversion''"
| "eventID SigNewBlock = Some ''newblock''"
| "eventID SigMempoolUpdate = Some ''mempool''"
| "eventID SigPingAndUserCount = Some ''ping''"
| "eventID SigNewTx = Some ''newtx''"
| "eventID SigNewTxs = Some ''newtxs''"
| "eventID SigAddressTx = Some ''address''"
| "eventID SigSyncStatus = Some ''blockchainSync''"
| "eventID SigByeNow = Some ''bye''"
| "eventID SigUnknown = Some ''unknown''"
| "eventID (SigInvalid i) = None"

definition Subscriptions :: "string \<rightharpoonup> HubSignal" where
  "Subscriptions = [''newblock'' \<mapsto> SigNewBlock, ''mempool'' \<mapsto> SigMempoolUpdate, ''ping'' \<mapsto> SigPingAndUserCount,
     ''newtxs'' \<mapsto> SigNewTxs, ''address'' \<mapsto> SigAddressTx, ''blockchainSync'' \<mapsto> SigSyncStatus]"

definition Signal_String :: "HubSignal \<Rightarrow> string" where
  "Signal_String s = (case eventID s of None \<Rightarrow> ''invalid'' | Some str \<Rightarrow> str)"

definition Signal_IsValid :: "HubSignal \<Rightarrow> bool" where
  "Signal_IsValid s \<longleftrightarrow> eventID s \<noteq> None"

definition Message_IsValid :: "'tx HubMessage \<Rightarrow> bool" where
  "Message_IsValid m \<longleftrightarrow> eventID (Signal m) \<noteq> None
     \<and> (case Signal m of
          SigAddressTx \<Rightarrow> (case Msg m of AddressMsg _ \<Rightarrow> True | _ \<Rightarrow> False)
        | SigNewTx \<Rightarrow> (case Msg m of TxMsg _ \<Rightarrow> True | _ \<Rightarrow> False)
        | SigNewTxs \<Rightarrow> (case Msg m of TxsMsg _ \<Rightarrow> True | _ \<Rightarrow> False)
        | _ \<Rightarrow> True)"

text \<open>\<open>checkDecode\<close> is whether \<open>base58.CheckDecode\<close> accepts the string. The event is cut at its first colon.\<close>

definition ValidateSubscription :: "(string \<Rightarrow> bool) \<Rightarrow> string \<Rightarrow> (HubSignal \<times> 'tx hub_payload) option" where
  "ValidateSubscription checkDecode event =
     (let sig = takeWhile (\<lambda>ch. ch \<noteq> CHR '':'') event; msgStr = tl (dropWhile (\<lambda>ch. ch \<noteq> CHR '':'') event)
      in case Subscriptions sig of
           None \<Rightarrow> None
         | Some sub \<Rightarrow>
             if sub = SigAddressTx then
               (if checkDecode msgStr then Some (sub, AddressMsg (Some \<lparr>am_Address = msgStr, am_TxHash = []\<rparr>)) else None)
             else if msgStr \<noteq> [] then None
             else Some (sub, NoMsg))"

section \<open>Clients\<close>

definition NewTxBufferSize :: nat where
  "NewTxBufferSize = 5"

definition spokeCap :: nat where
  "spokeCap = 64"

definition tickerCap :: nat where
  "tickerCap = 6"

record 'tx client =
  cl_id :: nat
  subs :: "HubSignal set"
  addrs :: "string set"
  killed :: bool
  newTxs :: "'tx list"

definition newClient :: "nat \<Rightarrow> 'tx client" where
  "newClient i = \<lparr>cl_id = i, subs = {}, addrs = {}, killed = False, newTxs = []\<rparr>"

definition isSubscribed :: "'tx client \<Rightarrow> 'tx HubMessage \<Rightarrow> bool option" where
  "isSubscribed c m =
     (if Signal m \<notin> subs c then Some False
      else if Signal m = SigAddressTx then
        (case Msg m of
           AddressMsg None \<Rightarrow> None
         | AddressMsg (Some am) \<Rightarrow> Some (am_Address am \<in> addrs c)
         | _ \<Rightarrow> Some False)
      else Some True)"

text \<open>\<open>Inl\<close> is the returned error, \<open>Inr\<close> the client and the flag; \<open>None\<close> a nil address message.\<close>

definition subscribe :: "'tx HubMessage \<Rightarrow> 'tx client \<Rightarrow> (string + 'tx client \<times> bool) option" where
  "subscribe m c =
     (if Signal m = SigAddressTx then
        (case Msg m of
           AddressMsg None \<Rightarrow> None
         | AddressMsg (Some am) \<Rightarrow> Some (Inr (c\<lparr>addrs := insert (am_Address am) (addrs c), subs := insert SigAddressTx (subs c)\<rparr>, True))
         | _ \<Rightarrow> Some (Inl ''msg.Msg not a string (SigAddressTx)''))
      else if Signal m \<in> {SigPingAndUserCount, SigByeNow, SigDecodeTx, SigSendTx, SigSubscribe, SigUnsubscribe} then Some (Inr (c, False))
      else Some (Inr (c\<lparr>subs := insert (Signal m) (subs c)\<rparr>, True)))"

definition unsubscribe :: "'tx HubMessage \<Rightarrow> 'tx client \<Rightarrow> (string + 'tx client) option" where
  "unsubscribe m c =
     (if Signal m = SigAddressTx then
        (case Msg m of
           AddressMsg None \<Rightarrow> None
         | AddressMsg (Some am) \<Rightarrow>
             let a = addrs c - {am_Address am}
             in Some (Inr (c\<lparr>addrs := a, subs := (if a = {} then subs c - {SigAddressTx} else subs c)\<rparr>))
         | _ \<Rightarrow> Some (Inl ''msg.Msg not an AddressMessage (SigAddressTx)''))
      else Some (Inr (c\<lparr>subs := subs c - {Signal m}\<rparr>)))"

definition unsubscribeAll :: "'tx client \<Rightarrow> 'tx client" where
  "unsubscribeAll c = c\<lparr>subs := {}, addrs := {}\<rparr>"

definition client_addTxToBuffer :: "'tx \<Rightarrow> 'tx client \<Rightarrow> 'tx client \<times> bool" where
  "client_addTxToBuffer tx c =
     (let t = newTxs c @ [tx] in (c\<lparr>newTxs := t\<rparr>, length t \<ge> NewTxBufferSize))"

section \<open>The hub\<close>

text \<open>The map of clients holds pointers: \<open>clients\<close> are its keys and \<open>objs\<close> the objects, which the loops of a client
  use after the hub has dropped it.\<close>

record 'tx WebsocketHub =
  clients :: "nat set"
  objs :: "nat \<Rightarrow> 'tx client"
  queue :: "nat \<Rightarrow> 'tx HubMessage list"
  closed :: "nat set"
  numClients :: nat
  tickerQ :: nat
  timeToSendTxBuffer :: bool
  idCounter :: nat
  quit :: bool

definition NewWebsocketHub :: "'tx WebsocketHub" where
  "NewWebsocketHub = \<lparr>clients = {}, objs = newClient, queue = (\<lambda>_. []), closed = {}, numClients = 0, tickerQ = 0,
     timeToSendTxBuffer = False, idCounter = 0, quit = False\<rparr>"

text \<open>A new spoke is a fresh channel: its number is the number of the client.\<close>

definition NewClientHubSpoke :: "'tx WebsocketHub \<Rightarrow> 'tx WebsocketHub" where
  "NewClientHubSpoke h =
     (let i = Suc (idCounter h) in h\<lparr>idCounter := i, objs := (objs h)(i := newClient i), queue := (queue h)(i := [])\<rparr>)"

definition registerClient :: "nat \<Rightarrow> 'tx WebsocketHub \<Rightarrow> 'tx WebsocketHub" where
  "registerClient c h = (let cs = insert c (clients h) in h\<lparr>clients := cs, numClients := card cs\<rparr>)"

definition unregisterClient :: "nat \<Rightarrow> 'tx WebsocketHub \<Rightarrow> 'tx WebsocketHub option" where
  "unregisterClient c h =
     (if c \<notin> clients h then Some h
      else if c \<in> closed h then None
      else let cs = clients h - {c}
           in Some (h\<lparr>clients := cs, numClients := card cs, closed := insert c (closed h)\<rparr>))"

definition unregisterAllClients :: "'tx WebsocketHub \<Rightarrow> 'tx WebsocketHub option" where
  "unregisterAllClients h =
     (if clients h \<inter> closed h \<noteq> {} then None
      else Some (h\<lparr>clients := {}, closed := closed h \<union> clients h, numClients := 0\<rparr>))"

definition sendMsg :: "(nat \<Rightarrow> bool) \<Rightarrow> nat \<Rightarrow> 'tx HubMessage \<Rightarrow> 'tx WebsocketHub \<Rightarrow> 'tx WebsocketHub option" where
  "sendMsg choice c m h =
     (if c \<in> closed h then None
      else if killed (objs h c) \<and> (choice c \<or> length (queue h c) \<ge> spokeCap) then unregisterClient c h
      else if length (queue h c) < spokeCap then Some (h\<lparr>queue := (queue h)(c := queue h c @ [m])\<rparr>)
      else unregisterClient c h)"

text \<open>The loops over the client map: \<open>wanted\<close> is the check that a client is subscribed.\<close>

fun send_each ::
  "('tx client \<Rightarrow> bool option) \<Rightarrow> (nat \<Rightarrow> bool) \<Rightarrow> 'tx HubMessage \<Rightarrow> nat list \<Rightarrow> 'tx WebsocketHub \<Rightarrow> 'tx WebsocketHub option" where
  "send_each wanted choice m [] h = Some h"
| "send_each wanted choice m (c # cs) h =
     (if c \<notin> clients h then send_each wanted choice m cs h
      else case wanted (objs h c) of
        None \<Rightarrow> None
      | Some False \<Rightarrow> send_each wanted choice m cs h
      | Some True \<Rightarrow> (case sendMsg choice c m h of None \<Rightarrow> None | Some h1 \<Rightarrow> send_each wanted choice m cs h1))"

definition sendToAll :: "(nat \<Rightarrow> bool) \<Rightarrow> 'tx HubMessage \<Rightarrow> nat list \<Rightarrow> 'tx WebsocketHub \<Rightarrow> 'tx WebsocketHub option" where
  "sendToAll choice m ord h = send_each (\<lambda>cl. Some True) choice m ord h"

definition signalSubscribed :: "(nat \<Rightarrow> bool) \<Rightarrow> 'tx HubMessage \<Rightarrow> nat list \<Rightarrow> 'tx WebsocketHub \<Rightarrow> 'tx WebsocketHub option" where
  "signalSubscribed choice m ord h = send_each (\<lambda>cl. isSubscribed cl m) choice m ord h"

text \<open>The loop assigns the flag of each client in turn.\<close>

fun addTxToBuffer :: "'tx \<Rightarrow> nat list \<Rightarrow> bool \<Rightarrow> 'tx WebsocketHub \<Rightarrow> 'tx WebsocketHub \<times> bool" where
  "addTxToBuffer tx [] ready h = (h, ready)"
| "addTxToBuffer tx (c # cs) ready h =
     (if c \<notin> clients h then addTxToBuffer tx cs ready h
      else case client_addTxToBuffer tx (objs h c) of
        (cl, r) \<Rightarrow> addTxToBuffer tx cs r (h\<lparr>objs := (objs h)(c := cl)\<rparr>))"

text \<open>One message on \<open>HubRelay\<close>. The result \<open>Inl ()\<close> is a send on the full ticker channel, which waits. The two
  \<open>break\<close> statements before the switch leave the event; the one in the case of a new transaction leaves the switch only.\<close>

definition relay_signal ::
  "(nat \<Rightarrow> bool) \<Rightarrow> 'tx HubMessage \<Rightarrow> nat list \<Rightarrow> 'tx WebsocketHub \<Rightarrow> 'tx WebsocketHub option" where
  "relay_signal choice m ord h =
     map_option (\<lambda>h1. if Signal m = SigNewTxs then h1\<lparr>timeToSendTxBuffer := False\<rparr> else h1) (signalSubscribed choice m ord h)"

definition maybeSendTxns :: "'tx \<Rightarrow> nat list \<Rightarrow> 'tx WebsocketHub \<Rightarrow> unit + 'tx WebsocketHub \<times> bool" where
  "maybeSendTxns tx ord h =
     (case addTxToBuffer tx ord False h of
        (h1, someReadyToSend) \<Rightarrow>
          if someReadyToSend then
            (if tickerQ h1 \<ge> tickerCap then Inl () else Inr (h1\<lparr>tickerQ := Suc (tickerQ h1)\<rparr>, True))
          else Inr (h1, False))"

definition relay ::
  "(nat \<Rightarrow> bool) \<Rightarrow> nat list \<Rightarrow> 'tx HubMessage \<Rightarrow> 'tx WebsocketHub \<Rightarrow> (unit + 'tx WebsocketHub) option" where
  "relay choice ord m h =
     (if clients h = {} then Some (Inr h)
      else if \<not> Message_IsValid m then Some (Inr h)
      else case Signal m of
        SigPingAndUserCount \<Rightarrow> map_option Inr (sendToAll choice m ord h)
      | SigByeNow \<Rightarrow> map_option Inr (sendToAll choice m ord h)
      | SigNewBlock \<Rightarrow> map_option Inr (relay_signal choice m ord h)
      | SigMempoolUpdate \<Rightarrow> map_option Inr (relay_signal choice m ord h)
      | SigSyncStatus \<Rightarrow> map_option Inr (relay_signal choice m ord h)
      | SigAddressTx \<Rightarrow>
          (case Msg m of AddressMsg (Some am) \<Rightarrow> map_option Inr (relay_signal choice m ord h) | _ \<Rightarrow> Some (Inr h))
      | SigNewTx \<Rightarrow>
          (case Msg m of
             TxMsg (Some tx) \<Rightarrow>
               (case maybeSendTxns tx ord h of
                  Inl u \<Rightarrow> Some (Inl ())
                | Inr (h1, someReadyToSend) \<Rightarrow>
                    map_option Inr
                      (if someReadyToSend \<or> timeToSendTxBuffer h1
                       then relay_signal choice \<lparr>Signal = SigNewTxs, Msg = TxsMsg []\<rparr> ord h1
                       else relay_signal choice m ord h1))
           | _ \<Rightarrow> Some (Inr h))
      | _ \<Rightarrow> Some (Inr h))"

section \<open>The loops of a client\<close>

text \<open>What \<open>sendLoop\<close> does with a message it receives: the client, the new transactions it sends and whether anything
  is sent. \<open>None\<close> is a panic in \<open>isSubscribed\<close>.\<close>

definition sendLoop :: "'tx HubMessage \<Rightarrow> 'tx client \<Rightarrow> ('tx client \<times> (HubSignal \<times> 'tx list) option) option" where
  "sendLoop sig c =
     (if \<not> Message_IsValid sig then Some (c, None)
      else case (if Signal sig \<in> {SigByeNow, SigPingAndUserCount} then Some True else isSubscribed c sig) of
        None \<Rightarrow> None
      | Some False \<Rightarrow> Some (c, None)
      | Some True \<Rightarrow>
          Some (if Signal sig \<in> {SigAddressTx, SigNewBlock, SigMempoolUpdate, SigPingAndUserCount, SigByeNow} then (c, Some (Signal sig, []))
                else if Signal sig = SigNewTxs then
                  (if newTxs c = [] then (c, None) else (c\<lparr>newTxs := []\<rparr>, Some (SigNewTxs, newTxs c)))
                else (c, None)))"

section \<open>Interleaving\<close>

text \<open>The events of the run loop, the two tickers, and the goroutines of the clients. \<open>order_of h ord\<close>: \<open>ord\<close> is an
  order in which Go may walk the client map.\<close>

definition order_of :: "'tx WebsocketHub \<Rightarrow> nat list \<Rightarrow> bool" where
  "order_of h ord \<longleftrightarrow> distinct ord \<and> set ord = clients h"

inductive hub_step :: "'tx WebsocketHub \<Rightarrow> 'tx WebsocketHub \<Rightarrow> bool" where
  new_spoke: "hub_step h (NewClientHubSpoke h)"
| register: "\<not> quit h \<Longrightarrow> c \<le> idCounter h \<Longrightarrow> 0 < c \<Longrightarrow> c \<notin> closed h \<Longrightarrow> hub_step h (registerClient c h)"
| unregister: "\<not> quit h \<Longrightarrow> unregisterClient c h = Some h' \<Longrightarrow> hub_step h h'"
| relayed: "\<not> quit h \<Longrightarrow> order_of h ord \<Longrightarrow> relay choice ord m h = Some (Inr h') \<Longrightarrow> hub_step h h'"
| stop: "\<not> quit h \<Longrightarrow> tickerQ h < tickerCap \<Longrightarrow> unregisterAllClients h = Some h' \<Longrightarrow> hub_step h (h'\<lparr>quit := True\<rparr>)"
| tick: "hub_step h (h\<lparr>timeToSendTxBuffer := True\<rparr>)"
| ticker: "tickerQ h = Suc k \<Longrightarrow> hub_step h (h\<lparr>tickerQ := k\<rparr>)"
| send_loop: "\<not> killed (objs h c) \<Longrightarrow> queue h c = m # ms \<Longrightarrow> sendLoop m (objs h c) = Some (cl, out)
    \<Longrightarrow> hub_step h (h\<lparr>queue := (queue h)(c := ms), objs := (objs h)(c := cl)\<rparr>)"
| receive_subscribe: "\<not> killed (objs h c) \<Longrightarrow> ValidateSubscription checkDecode event = Some (sig, payload)
    \<Longrightarrow> subscribe \<lparr>Signal = sig, Msg = payload\<rparr> (objs h c) = Some (Inr (cl, ok))
    \<Longrightarrow> hub_step h (h\<lparr>objs := (objs h)(c := cl)\<rparr>)"
| receive_unsubscribe: "\<not> killed (objs h c) \<Longrightarrow> ValidateSubscription checkDecode event = Some (sig, payload)
    \<Longrightarrow> unsubscribe \<lparr>Signal = sig, Msg = payload\<rparr> (objs h c) = Some (Inr cl)
    \<Longrightarrow> hub_step h (h\<lparr>objs := (objs h)(c := cl)\<rparr>)"
| gone: "hub_step h (h\<lparr>objs := (objs h)(c := (objs h c)\<lparr>killed := True\<rparr>)\<rparr>)"

section \<open>Invariant\<close>

definition message_ok :: "'tx HubMessage \<Rightarrow> bool" where
  "message_ok m \<longleftrightarrow> (Signal m = SigAddressTx \<longrightarrow> Msg m \<noteq> AddressMsg None)"

definition client_ok :: "'tx client \<Rightarrow> bool" where
  "client_ok c \<longleftrightarrow> (SigAddressTx \<in> subs c \<longleftrightarrow> addrs c \<noteq> {})"

definition hub_ok :: "'tx WebsocketHub \<Rightarrow> bool" where
  "hub_ok h \<longleftrightarrow> finite (clients h) \<and> numClients h = card (clients h) \<and> clients h \<inter> closed h = {}
     \<and> (\<forall>c \<in> clients h \<union> closed h. c \<le> idCounter h)
     \<and> (\<forall>c. length (queue h c) \<le> spokeCap \<and> list_all message_ok (queue h c)) \<and> (\<forall>c. client_ok (objs h c))
     \<and> tickerQ h \<le> tickerCap"

lemma isSubscribed_ok: "message_ok m \<Longrightarrow> isSubscribed c m \<noteq> None"
  by (auto simp: isSubscribed_def message_ok_def split: hub_payload.splits option.splits)

text \<open>Which clients a loop drops, and what it leaves of the hub; the result does not depend on the order of the walk.\<close>

definition dropped :: "('tx client \<Rightarrow> bool option) \<Rightarrow> (nat \<Rightarrow> bool) \<Rightarrow> 'tx WebsocketHub \<Rightarrow> nat set" where
  "dropped wanted choice h = {c \<in> clients h. wanted (objs h c) = Some True
     \<and> (length (queue h c) \<ge> spokeCap \<or> killed (objs h c) \<and> choice c)}"

definition reached :: "('tx client \<Rightarrow> bool option) \<Rightarrow> (nat \<Rightarrow> bool) \<Rightarrow> 'tx WebsocketHub \<Rightarrow> nat set" where
  "reached wanted choice h = {c \<in> clients h. wanted (objs h c) = Some True} - dropped wanted choice h"

definition after_send ::
  "('tx client \<Rightarrow> bool option) \<Rightarrow> (nat \<Rightarrow> bool) \<Rightarrow> 'tx HubMessage \<Rightarrow> nat set \<Rightarrow> 'tx WebsocketHub \<Rightarrow> 'tx WebsocketHub" where
  "after_send wanted choice m C h =
     h\<lparr>queue := (\<lambda>c. if c \<in> reached wanted choice h \<inter> C then queue h c @ [m] else queue h c),
       clients := clients h - dropped wanted choice h \<inter> C, closed := closed h \<union> (dropped wanted choice h \<inter> C),
       numClients := card (clients h - dropped wanted choice h \<inter> C)\<rparr>"

lemma send_each_result:
  assumes "\<And>cl. wanted cl \<noteq> None"
  shows "distinct cs \<Longrightarrow> clients h \<inter> closed h = {} \<Longrightarrow> numClients h = card (clients h)
    \<Longrightarrow> send_each wanted choice m cs h = Some (after_send wanted choice m (set cs) h)"
proof (induction cs arbitrary: h)
  case Nil
  then show ?case by (cases h) (simp add: after_send_def)
next
  case (Cons c cs)
  have c: "c \<notin> set cs" "distinct cs" using Cons.prems(1) by auto
  obtain b where b: "wanted (objs h c) = Some b" using assms [of "objs h c"] by auto
  consider "c \<notin> clients h \<or> \<not> b" | "c \<in> dropped wanted choice h" | "c \<in> reached wanted choice h"
    using b by (auto simp: reached_def dropped_def)
  then show ?case
  proof cases
    case 1
    then have "c \<notin> dropped wanted choice h" "c \<notin> reached wanted choice h" using b by (auto simp: dropped_def reached_def)
    then have "after_send wanted choice m (set (c # cs)) h = after_send wanted choice m (set cs) h"
      by (auto simp: after_send_def fun_eq_iff Int_insert_right)
    then show ?thesis using Cons.IH [OF c(2) Cons.prems(2,3)] 1 b by auto
  next
    case 2
    let ?h = "h\<lparr>clients := clients h - {c}, numClients := card (clients h - {c}), closed := insert c (closed h)\<rparr>"
    have in_c: "c \<in> clients h" "c \<notin> closed h" "b" using 2 b Cons.prems(2) by (auto simp: dropped_def)
    have send: "sendMsg choice c m h = Some ?h"
      using 2 in_c by (auto simp: sendMsg_def unregisterClient_def dropped_def)
    have sets: "dropped wanted choice ?h = dropped wanted choice h - {c}" "reached wanted choice ?h = reached wanted choice h"
      using 2 by (auto simp: dropped_def reached_def)
    have "after_send wanted choice m (set cs) ?h = after_send wanted choice m (set (c # cs)) h"
    proof -
      have "clients h - {c} - (dropped wanted choice h - {c}) \<inter> set cs = clients h - dropped wanted choice h \<inter> set (c # cs)"
        "insert c (closed h) \<union> (dropped wanted choice h - {c}) \<inter> set cs = closed h \<union> (dropped wanted choice h \<inter> set (c # cs))"
        using 2 by auto
      moreover have "c \<notin> reached wanted choice h" using 2 by (simp add: reached_def)
      ultimately show ?thesis by (simp add: after_send_def sets fun_eq_iff)
    qed
    moreover have "send_each wanted choice m cs ?h = Some (after_send wanted choice m (set cs) ?h)"
      by (rule Cons.IH) (use c Cons.prems(2) in auto)
    ultimately show ?thesis using in_c b send by simp
  next
    case 3
    let ?h = "h\<lparr>queue := (queue h)(c := queue h c @ [m])\<rparr>"
    have in_c: "c \<in> clients h" "c \<notin> closed h" "b" using 3 b Cons.prems(2) by (auto simp: reached_def)
    have send: "sendMsg choice c m h = Some ?h"
      using 3 in_c by (auto simp: sendMsg_def dropped_def reached_def)
    have sets: "dropped wanted choice ?h \<inter> set cs = dropped wanted choice h \<inter> set (c # cs)"
      "reached wanted choice ?h \<inter> set cs = reached wanted choice h \<inter> set cs"
      using 3 c(1) by (auto simp: dropped_def reached_def)
    have "after_send wanted choice m (set cs) ?h = after_send wanted choice m (set (c # cs)) h"
    proof -
      have "(if d \<in> reached wanted choice h \<inter> set cs then queue ?h d @ [m] else queue ?h d)
          = (if d \<in> reached wanted choice h \<inter> set (c # cs) then queue h d @ [m] else queue h d)" for d
        using 3 c(1) by auto
      then show ?thesis by (simp add: after_send_def sets)
    qed
    moreover have "send_each wanted choice m cs ?h = Some (after_send wanted choice m (set cs) ?h)"
      by (rule Cons.IH) (use c Cons.prems(2,3) in auto)
    ultimately show ?thesis using in_c b send by simp
  qed
qed

lemma after_send_ok:
  assumes "hub_ok h" and "message_ok m"
  shows "hub_ok (after_send wanted choice m C h)"
proof -
  have "length (queue h c) < spokeCap" if "c \<in> reached wanted choice h" for c
    using that by (auto simp: reached_def dropped_def)
  then show ?thesis
    using assms by (auto simp: hub_ok_def after_send_def dropped_def Suc_le_eq)
qed

lemma sendToAll_result:
  "hub_ok h \<Longrightarrow> order_of h ord \<Longrightarrow> sendToAll choice m ord h = Some (after_send (\<lambda>cl. Some True) choice m (clients h) h)"
  by (simp add: sendToAll_def order_of_def hub_ok_def send_each_result)

lemma signalSubscribed_result:
  "hub_ok h \<Longrightarrow> order_of h ord \<Longrightarrow> message_ok m
   \<Longrightarrow> signalSubscribed choice m ord h = Some (after_send (\<lambda>cl. isSubscribed cl m) choice m (clients h) h)"
  by (simp add: signalSubscribed_def order_of_def hub_ok_def send_each_result isSubscribed_ok)

lemma relay_signal_result:
  "hub_ok h \<Longrightarrow> order_of h ord \<Longrightarrow> message_ok m
   \<Longrightarrow> \<exists>h'. relay_signal choice m ord h = Some h' \<and> hub_ok h'"
  using after_send_ok [of h m "\<lambda>cl. isSubscribed cl m" choice "clients h"]
  by (simp add: relay_signal_def signalSubscribed_result hub_ok_def)

lemma addTxToBuffer_result:
  "distinct cs \<Longrightarrow> fst (addTxToBuffer tx cs r h)
     = h\<lparr>objs := (\<lambda>c. if c \<in> clients h \<inter> set cs then (objs h c)\<lparr>newTxs := newTxs (objs h c) @ [tx]\<rparr> else objs h c)\<rparr>"
proof (induction cs arbitrary: r h)
  case Nil
  then show ?case by simp
next
  case (Cons c cs)
  have "addTxToBuffer tx (c # cs) r h =
      (if c \<notin> clients h then addTxToBuffer tx cs r h
       else addTxToBuffer tx cs (length (newTxs (objs h c) @ [tx]) \<ge> NewTxBufferSize)
              (h\<lparr>objs := (objs h)(c := (objs h c)\<lparr>newTxs := newTxs (objs h c) @ [tx]\<rparr>)\<rparr>))"
    by (simp add: client_addTxToBuffer_def Let_def)
  moreover have "(\<lambda>d. if d \<in> clients h \<inter> set cs then (objs h d)\<lparr>newTxs := newTxs (objs h d) @ [tx]\<rparr> else objs h d)
      = (\<lambda>d. if d \<in> clients h \<inter> set (c # cs) then (objs h d)\<lparr>newTxs := newTxs (objs h d) @ [tx]\<rparr> else objs h d)" if "c \<notin> clients h"
    using that by (auto simp: fun_eq_iff)
  ultimately show ?case using Cons by (auto simp: fun_eq_iff)
qed

lemma addTxToBuffer_ok: "hub_ok h \<Longrightarrow> distinct cs \<Longrightarrow> hub_ok (fst (addTxToBuffer tx cs r h))"
  by (auto simp: addTxToBuffer_result hub_ok_def client_ok_def)

lemma maybeSendTxns_result:
  assumes "hub_ok h" and "order_of h ord" and "maybeSendTxns tx ord h = Inr (h1, ready)"
  shows "hub_ok h1" "order_of h1 ord" "closed h1 = closed h"
    "objs h1 = (\<lambda>c. if c \<in> clients h then (objs h c)\<lparr>newTxs := newTxs (objs h c) @ [tx]\<rparr> else objs h c)"
proof -
  obtain h0 r where h0: "addTxToBuffer tx ord False h = (h0, r)" by (cases "addTxToBuffer tx ord False h")
  have res: "h0 = h\<lparr>objs := (\<lambda>c. if c \<in> clients h then (objs h c)\<lparr>newTxs := newTxs (objs h c) @ [tx]\<rparr> else objs h c)\<rparr>"
    using addTxToBuffer_result [of ord tx False h] assms(2) h0 by (simp add: order_of_def)
  have "hub_ok h0" using addTxToBuffer_ok [of h ord tx False] assms(1,2) h0 by (simp add: order_of_def)
  then show "hub_ok h1" "order_of h1 ord" "closed h1 = closed h"
    "objs h1 = (\<lambda>c. if c \<in> clients h then (objs h c)\<lparr>newTxs := newTxs (objs h c) @ [tx]\<rparr> else objs h c)"
    using assms(2,3) h0 res by (auto simp: maybeSendTxns_def hub_ok_def order_of_def split: if_splits)
qed

lemma relay_result:
  assumes ok: "hub_ok h" and ord: "order_of h ord"
  shows "relay choice ord m h \<noteq> None \<and> (\<forall>h'. relay choice ord m h = Some (Inr h') \<longrightarrow> hub_ok h')"
proof -
  have all: "hub_ok (after_send (\<lambda>cl. Some True) choice m (clients h) h)" if "Signal m \<noteq> SigAddressTx"
    using after_send_ok [OF ok, of m] that by (simp add: message_ok_def)
  have sig: "\<exists>h'. relay_signal choice m ord h = Some h' \<and> hub_ok h'" if "message_ok m"
    using relay_signal_result [OF ok ord that] .
  have tx: "\<exists>h'. relay_signal choice m1 ord h1 = Some h' \<and> hub_ok h'"
    if "maybeSendTxns tx ord h = Inr (h1, ready)" "Signal m1 \<noteq> SigAddressTx" for tx h1 ready m1
    using relay_signal_result [of h1 ord m1] maybeSendTxns_result [OF ok ord that(1)] that(2) by (simp add: message_ok_def)
  show ?thesis
  proof (cases "Signal m")
    case SigNewTx
    show ?thesis
    proof (cases "Msg m")
      case (TxMsg t)
      show ?thesis
      proof (cases t)
        case (Some x)
        show ?thesis
        proof (cases "maybeSendTxns x ord h")
          case (Inr p)
          obtain h1 ready where p: "p = (h1, ready)" by (cases p)
          show ?thesis
            using tx [of x h1 ready m] tx [of x h1 ready "\<lparr>Signal = SigNewTxs, Msg = TxsMsg []\<rparr>"] Inr p SigNewTx TxMsg Some ok
            by (auto simp: relay_def)
        qed (use SigNewTx TxMsg Some ok in \<open>auto simp: relay_def\<close>)
      qed (use SigNewTx TxMsg ok in \<open>auto simp: relay_def\<close>)
    qed (use SigNewTx ok in \<open>auto simp: relay_def\<close>)
  next
    case SigAddressTx
    then show ?thesis
      using ok sig by (auto simp: relay_def message_ok_def split: hub_payload.splits option.splits)
  qed (use ok ord all sig in \<open>auto simp: relay_def sendToAll_result message_ok_def\<close>)
qed

lemma subscribe_ok: "subscribe m c = Some (Inr (c', b)) \<Longrightarrow> client_ok c \<Longrightarrow> client_ok c'"
  by (auto simp: subscribe_def client_ok_def split: if_splits hub_payload.splits option.splits)

lemma unsubscribe_ok: "unsubscribe m c = Some (Inr c') \<Longrightarrow> client_ok c \<Longrightarrow> client_ok c'"
  by (auto simp: unsubscribe_def client_ok_def Let_def split: if_splits hub_payload.splits option.splits)

lemma unsubscribeAll_ok: "client_ok (unsubscribeAll c)"
  by (simp add: unsubscribeAll_def client_ok_def)

lemma sendLoop_ok: "sendLoop m c = Some (c', out) \<Longrightarrow> subs c' = subs c \<and> addrs c' = addrs c \<and> killed c' = killed c"
  by (auto simp: sendLoop_def split: if_splits option.splits bool.splits)

lemma sendLoop_total: "message_ok m \<Longrightarrow> sendLoop m c \<noteq> None"
  using isSubscribed_ok [of m c] by (auto simp: sendLoop_def split: option.splits bool.splits)

lemma unregisterClient_ok:
  assumes "hub_ok h"
  shows "unregisterClient c h \<noteq> None" and "unregisterClient c h = Some h' \<Longrightarrow> hub_ok h'"
  using assms by (auto simp: unregisterClient_def hub_ok_def Let_def split: if_splits)

lemma hub_step_ok: "hub_step h h' \<Longrightarrow> hub_ok h \<Longrightarrow> hub_ok h'"
proof (induction rule: hub_step.induct)
  case (new_spoke h)
  then show ?case by (auto simp: hub_ok_def NewClientHubSpoke_def newClient_def client_ok_def Let_def intro: le_SucI)
next
  case (register h c)
  then show ?case by (auto simp: hub_ok_def registerClient_def Let_def)
next
  case (unregister h c h')
  then show ?case by (auto intro: unregisterClient_ok(2))
next
  case (relayed h ord choice m h')
  then show ?case using relay_result [of h ord choice m] by simp
next
  case (send_loop h c m ms cl out)
  then have "length ms < spokeCap" "list_all message_ok ms"
    unfolding hub_ok_def by (metis Suc_le_lessD length_Cons, metis list.pred_inject(2))
  moreover have "client_ok cl" using send_loop sendLoop_ok [of m "objs h c" cl out] by (simp add: hub_ok_def client_ok_def)
  ultimately show ?case using send_loop.prems by (simp add: hub_ok_def less_imp_le)
next
  case (receive_subscribe h c checkDecode event sig payload cl ok)
  then show ?case using subscribe_ok by (fastforce simp: hub_ok_def)
next
  case (receive_unsubscribe h c checkDecode event sig payload cl)
  then show ?case using unsubscribe_ok by (fastforce simp: hub_ok_def)
qed (auto simp: hub_ok_def unregisterAllClients_def client_ok_def split: if_splits)

lemma hub_reachable_ok: "hub_step\<^sup>*\<^sup>* NewWebsocketHub h \<Longrightarrow> hub_ok h"
proof (induction rule: rtranclp_induct)
  case base
  then show ?case by (simp add: hub_ok_def NewWebsocketHub_def newClient_def client_ok_def)
qed (rule hub_step_ok)

text \<open>C21. Whatever the clients, the tickers and the senders do, and in whatever order, the hub stays sound: the number of
  clients is exact, no registered spoke is closed and none is closed twice, so neither a send nor a close
  panics, no queue exceeds its capacity, a client is subscribed to address messages exactly when it watches an address, and no
  message that is waiting in a queue makes the send loop dereference a nil message.\<close>

theorem hub_invariant:
  assumes "hub_step\<^sup>*\<^sup>* NewWebsocketHub h"
  shows "numClients h = card (clients h) \<and> clients h \<inter> closed h = {}
    \<and> (\<forall>c. length (queue h c) \<le> spokeCap) \<and> (\<forall>c. SigAddressTx \<in> subs (objs h c) \<longleftrightarrow> addrs (objs h c) \<noteq> {})
    \<and> (\<forall>choice ord m. order_of h ord \<longrightarrow> relay choice ord m h \<noteq> None)
    \<and> (\<forall>c. unregisterClient c h \<noteq> None) \<and> unregisterAllClients h \<noteq> None
    \<and> (\<forall>c m. m \<in> set (queue h c) \<longrightarrow> sendLoop m (objs h c) \<noteq> None)"
proof -
  note ok = hub_reachable_ok [OF assms]
  have "sendLoop m (objs h c) \<noteq> None" if "m \<in> set (queue h c)" for c m
    using ok that by (intro sendLoop_total) (auto simp: hub_ok_def list_all_iff)
  then show ?thesis
    using ok relay_result [OF ok] unregisterClient_ok(1) [OF ok]
    by (simp add: hub_ok_def client_ok_def unregisterAllClients_def)
qed

definition one_client :: "nat WebsocketHub" where
  "one_client = registerClient 1 (NewClientHubSpoke NewWebsocketHub)"

lemma one_client_run: "hub_step\<^sup>*\<^sup>* NewWebsocketHub one_client"
proof -
  have "hub_step NewWebsocketHub (NewClientHubSpoke NewWebsocketHub)" by (rule hub_step.new_spoke)
  moreover have "hub_step (NewClientHubSpoke NewWebsocketHub) one_client"
    unfolding one_client_def by (rule hub_step.register) (simp_all add: NewClientHubSpoke_def NewWebsocketHub_def Let_def)
  ultimately show ?thesis by (meson rtranclp.rtrancl_into_rtrancl rtranclp.rtrancl_refl)
qed

theorem hub_invariant_witness: "numClients one_client = 1"
  using hub_invariant [OF one_client_run]
  by (simp add: one_client_def registerClient_def NewClientHubSpoke_def NewWebsocketHub_def Let_def)

section \<open>Delivery\<close>

definition broadcastable :: "'tx HubMessage \<Rightarrow> bool" where
  "broadcastable m \<longleftrightarrow> Signal m \<in> {SigNewBlock, SigMempoolUpdate, SigSyncStatus}
     \<or> Signal m = SigAddressTx \<and> (\<exists>am. Msg m = AddressMsg (Some am))"

text \<open>C22. A relayed block, mempool, synchronization or address message reaches exactly the right clients: each client that is
  subscribed to it and has room gets it once, at the end of its queue; one that has no room, or is found to be
  gone, is dropped and its spoke closed; nobody else is touched, and the order of the walk over the map does not matter.\<close>

theorem relay_delivers:
  assumes "hub_step\<^sup>*\<^sup>* NewWebsocketHub h" and "order_of h ord" and "broadcastable m"
  shows "\<exists>h'. relay choice ord m h = Some (Inr h') \<and> objs h' = objs h
    \<and> (\<forall>c. let subscribed = c \<in> clients h \<and> isSubscribed (objs h c) m = Some True;
              dropped = length (queue h c) \<ge> spokeCap \<or> killed (objs h c) \<and> choice c
          in queue h' c = (if subscribed \<and> \<not> dropped then queue h c @ [m] else queue h c)
             \<and> (c \<in> clients h' \<longleftrightarrow> c \<in> clients h \<and> \<not> (subscribed \<and> dropped))
             \<and> (c \<in> closed h' \<longleftrightarrow> c \<in> closed h \<or> subscribed \<and> dropped))"
proof -
  note ok = hub_reachable_ok [OF assms(1)]
  let ?h = "after_send (\<lambda>cl. isSubscribed cl m) choice m (clients h) h"
  have m: "message_ok m" using assms(3) by (auto simp: broadcastable_def message_ok_def)
  have "relay_signal choice m ord h = Some ?h"
    using signalSubscribed_result [OF ok assms(2) m] assms(3) by (auto simp: relay_signal_def broadcastable_def)
  then have "relay choice ord m h = Some (Inr (if clients h = {} then h else ?h))"
    using assms(3) by (auto simp: relay_def broadcastable_def Message_IsValid_def)
  then show ?thesis
    by (cases "clients h = {}") (auto simp: after_send_def reached_def dropped_def Let_def)
qed

definition sub_client :: "nat WebsocketHub" where
  "sub_client = one_client\<lparr>objs := (objs one_client)(1 := (objs one_client 1)\<lparr>subs := {SigNewBlock}\<rparr>)\<rparr>"

lemma sub_client_run: "hub_step\<^sup>*\<^sup>* NewWebsocketHub sub_client"
proof -
  have "hub_step one_client sub_client" unfolding sub_client_def
  proof (rule hub_step.receive_subscribe)
    show "ValidateSubscription (\<lambda>_. False) ''newblock'' = Some (SigNewBlock, NoMsg)"
      by (simp add: ValidateSubscription_def Subscriptions_def Let_def)
  qed (simp_all add: one_client_def registerClient_def NewClientHubSpoke_def NewWebsocketHub_def newClient_def subscribe_def Let_def)
  then show ?thesis using one_client_run by simp
qed

theorem relay_delivers_witness:
  "\<exists>h'. relay (\<lambda>_. False) [1] \<lparr>Signal = SigNewBlock, Msg = NoMsg\<rparr> sub_client = Some (Inr h')
     \<and> queue h' 1 = [\<lparr>Signal = SigNewBlock, Msg = NoMsg\<rparr>]"
  using relay_delivers [OF sub_client_run, of "[1]" "\<lparr>Signal = SigNewBlock, Msg = NoMsg\<rparr>" "\<lambda>_. False"]
  by (auto simp: order_of_def broadcastable_def sub_client_def one_client_def registerClient_def NewClientHubSpoke_def
      NewWebsocketHub_def newClient_def isSubscribed_def spokeCap_def Let_def)

section \<open>New transactions\<close>

lemma relay_signal_objs: "hub_ok h \<Longrightarrow> order_of h ord \<Longrightarrow> message_ok m \<Longrightarrow> relay_signal choice m ord h = Some h' \<Longrightarrow> objs h' = objs h"
  by (auto simp: relay_signal_def signalSubscribed_result after_send_def split: if_splits)

text \<open>A relayed transaction is added once to the buffer of every registered client.\<close>

lemma relay_new_tx:
  assumes "hub_ok h" and "order_of h ord" and "Signal m = SigNewTx" and "Msg m = TxMsg (Some tx)" and "relay choice ord m h = Some (Inr h')"
  shows "objs h' = (\<lambda>c. if c \<in> clients h then (objs h c)\<lparr>newTxs := newTxs (objs h c) @ [tx]\<rparr> else objs h c)"
proof (cases "clients h = {}")
  case True
  then show ?thesis using assms(5) by (auto simp: relay_def)
next
  case False
  then obtain h1 ready where h1: "maybeSendTxns tx ord h = Inr (h1, ready)"
    using assms(3-5) by (cases "maybeSendTxns tx ord h") (auto simp: relay_def Message_IsValid_def)
  note r = maybeSendTxns_result [OF assms(1,2) h1]
  have sent: "relay_signal choice m1 ord h1 = Some h' \<Longrightarrow> Signal m1 \<noteq> SigAddressTx \<Longrightarrow> objs h' = objs h1" for m1
    by (rule relay_signal_objs [OF r(1,2)]) (simp_all add: message_ok_def)
  have "objs h' = objs h1"
    using assms(3-5) False h1 sent [of m] sent [of "\<lparr>Signal = SigNewTxs, Msg = TxsMsg []\<rparr>"]
    by (auto simp: relay_def Message_IsValid_def split: if_splits)
  then show ?thesis using r(4) by simp
qed

text \<open>A client that is subscribed sends its whole buffer, in order, and starts a new one; one that is not keeps it, so the
  buffer of a client without that subscription grows by every relayed transaction until it is dropped.\<close>

lemma sendLoop_flushes:
  assumes "SigNewTxs \<in> subs c" and "newTxs c \<noteq> []"
  shows "sendLoop \<lparr>Signal = SigNewTxs, Msg = TxsMsg txs\<rparr> c = Some (c\<lparr>newTxs := []\<rparr>, Some (SigNewTxs, newTxs c))"
  using assms by (simp add: sendLoop_def Message_IsValid_def isSubscribed_def)

lemma unsubscribed_keeps_buffer:
  assumes "SigNewTxs \<notin> subs c" and "sendLoop m c = Some (c', out)"
  shows "c' = c"
  using assms by (auto simp: sendLoop_def isSubscribed_def split: if_splits option.splits bool.splits)

text \<open>\<open>addTxToBuffer\<close> reports only the last client of the walk: a full buffer of another client is not noticed.\<close>

definition two_clients :: "nat WebsocketHub" where
  "two_clients = NewWebsocketHub\<lparr>clients := {1, 2},
     objs := (objs NewWebsocketHub)(1 := (newClient 1)\<lparr>newTxs := [1, 2, 3, 4]\<rparr>)\<rparr>"

lemma addTxToBuffer_last_client:
  "snd (addTxToBuffer 5 [1, 2] False two_clients) = False" "snd (addTxToBuffer 5 [2, 1] False two_clients) = True"
  "newTxs (objs (fst (addTxToBuffer 5 [1, 2] False two_clients)) 1) = [1, 2, 3, 4, 5]"
  by (simp_all add: two_clients_def NewWebsocketHub_def newClient_def client_addTxToBuffer_def NewTxBufferSize_def)

end
