(* ===== verification/MempoolStats.thy ===== *)
theory MempoolStats
  imports GoBig
begin

text \<open>
  The per-coin statistics of the mempool. \<open>mempool/collector.go\<close> computes them for the whole mempool in
  \<open>ParseTxns\<close>, with integers that become strings at the end; \<open>mempool/monitor.go\<close> adds one transaction at a
  time to the strings. Amounts in coins are floating point: \<open>atoms\<close> is the conversion
  \<open>int64(tx.TotalOut * 1e8)\<close>, a parameter. A map \<open>map[uint8]string\<close> is the list of its entries in the
  order in which Go walks it.
\<close>

section \<open>Data\<close>

record MempoolCoinStats =
  TxCount :: nat
  Size :: "32 word"
  Amount :: string
  RegularCount :: nat
  RegularAmount :: string
  TicketCount :: nat
  TicketAmount :: string
  VoteCount :: nat
  VoteAmount :: string
  RevokeCount :: nat
  RevokeAmount :: string

definition zero_stats :: MempoolCoinStats where
  "zero_stats = \<lparr>TxCount = 0, Size = 0, Amount = [], RegularCount = 0, RegularAmount = [], TicketCount = 0, TicketAmount = [],
     VoteCount = 0, VoteAmount = [], RevokeCount = 0, RevokeAmount = []\<rparr>"

record BlockValidation =
  bv_Hash :: string
  bv_Height :: int
  bv_Validity :: bool

record VoteInfo =
  vi_Validation :: BlockValidation
  vi_TicketSpent :: string
  vi_MempoolTicketIndex :: nat
  vi_ForLastBlock :: bool

text \<open>The values of \<open>stake.TxType\<close> that the sources name; any other number is \<open>TxTypeOther\<close>.\<close>

datatype TxType = TxTypeRegular | TxTypeSStx | TxTypeSSGen | TxTypeSSRtx | TxTypeTAdd | TxTypeTSpend | TxTypeTreasuryBase | TxTypeSSFee
  | TxTypeOther int

fun TxTypeToString :: "TxType \<Rightarrow> string" where
  "TxTypeToString TxTypeSSGen = ''Vote''"
| "TxTypeToString TxTypeSStx = ''Ticket''"
| "TxTypeToString TxTypeSSRtx = ''Revocation''"
| "TxTypeToString TxTypeSSFee = ''Stake Fee''"
| "TxTypeToString (TxTypeOther n) =
     (if n = 101 \<or> n = 102 then ''Miner Reward''
      else if n = 103 \<or> n = 104 then ''Stake Fee''
      else if n = 105 then ''Ticket''
      else ''Regular'')"
| "TxTypeToString _ = ''Regular''"

record MempoolInput =
  mi_TxId :: string
  mi_Index :: nat
  mi_Outdex :: nat
  mi_CoinType :: byte
  mi_SKAValue :: string

record 'f MempoolTx =
  mt_TxID :: string
  mt_Fees :: 'f
  mt_VinCount :: nat
  mt_VoutCount :: nat
  mt_Vin :: "MempoolInput list"
  mt_Time :: int
  mt_Size :: "32 word"
  mt_TotalOut :: 'f
  mt_Type :: string
  mt_TypeID :: TxType
  mt_VoteInfo :: "VoteInfo option"
  mt_SKATotals :: "(byte \<times> string) list"
  mt_TicketStage :: string

section \<open>One transaction at a time\<close>

definition ParseInt64 :: "string \<Rightarrow> int option" where
  "ParseInt64 s = (case parse_dec s of None \<Rightarrow> None | Some i \<Rightarrow> if - (2 ^ 63) \<le> i \<and> i < 2 ^ 63 then Some i else None)"

definition addAtomStrings :: "string \<Rightarrow> string \<Rightarrow> bool \<Rightarrow> string" where
  "addAtomStrings a b isBig =
     (if a = [] then b
      else if isBig then
        (case parse_dec a of
           None \<Rightarrow> a
         | Some av \<Rightarrow> (case parse_dec b of None \<Rightarrow> a | Some bv \<Rightarrow> show_int (av + bv)))
      else
        (case ParseInt64 a of
           None \<Rightarrow> ''0''
         | Some ai \<Rightarrow> (case ParseInt64 b of None \<Rightarrow> show_int ai | Some bi \<Rightarrow> show_int (wrap64 (ai + bi)))))"

definition zero_if_empty :: "string \<Rightarrow> string" where
  "zero_if_empty s = (if s = [] then ''0'' else s)"

definition normalizeCoinStatsAmounts :: "MempoolCoinStats \<Rightarrow> MempoolCoinStats" where
  "normalizeCoinStatsAmounts s =
     s\<lparr>Amount := zero_if_empty (Amount s), RegularAmount := zero_if_empty (RegularAmount s), TicketAmount := zero_if_empty (TicketAmount s),
       VoteAmount := zero_if_empty (VoteAmount s), RevokeAmount := zero_if_empty (RevokeAmount s)\<rparr>"

definition add_contribution :: "string \<Rightarrow> 32 word \<Rightarrow> string \<Rightarrow> bool \<Rightarrow> MempoolCoinStats \<Rightarrow> MempoolCoinStats" where
  "add_contribution ty sz amt isBig s0 =
     (let s = s0\<lparr>TxCount := TxCount s0 + 1, Size := Size s0 + sz, Amount := addAtomStrings (Amount s0) amt isBig\<rparr>
      in normalizeCoinStatsAmounts
           (if ty = ''Regular'' then s\<lparr>RegularCount := RegularCount s + 1, RegularAmount := addAtomStrings (RegularAmount s) amt isBig\<rparr>
            else if ty = ''Ticket'' then s\<lparr>TicketCount := TicketCount s + 1, TicketAmount := addAtomStrings (TicketAmount s) amt isBig\<rparr>
            else if ty = ''Vote'' then s\<lparr>VoteCount := VoteCount s + 1, VoteAmount := addAtomStrings (VoteAmount s) amt isBig\<rparr>
            else if ty = ''Revocation'' then s\<lparr>RevokeCount := RevokeCount s + 1, RevokeAmount := addAtomStrings (RevokeAmount s) amt isBig\<rparr>
            else s))"

type_synonym coin_stats = "byte \<rightharpoonup> MempoolCoinStats"

definition stats_at :: "coin_stats \<Rightarrow> byte \<Rightarrow> MempoolCoinStats" where
  "stats_at stats ct = (case stats ct of None \<Rightarrow> zero_stats | Some s \<Rightarrow> s)"

fun add_ska_totals :: "'f MempoolTx \<Rightarrow> (byte \<times> string) list \<Rightarrow> coin_stats \<Rightarrow> coin_stats" where
  "add_ska_totals tx [] stats = stats"
| "add_ska_totals tx ((ct, amtStr) # rest) stats =
     add_ska_totals tx rest (stats(ct \<mapsto> add_contribution (mt_Type tx) (mt_Size tx) amtStr True (stats_at stats ct)))"

definition addTxToCoinStats :: "('f \<Rightarrow> int) \<Rightarrow> coin_stats \<Rightarrow> 'f MempoolTx \<Rightarrow> coin_stats" where
  "addTxToCoinStats atoms stats tx =
     (if mt_SKATotals tx = [] then
        stats(0 \<mapsto> add_contribution (mt_Type tx) (mt_Size tx) (show_int (atoms (mt_TotalOut tx))) False (stats_at stats 0))
      else add_ska_totals tx (mt_SKATotals tx) stats)"

section \<open>The whole mempool\<close>

record coinAccum =
  txCount :: nat
  ca_size :: "32 word"
  varAmt :: int
  skaAmt :: "byte \<rightharpoonup> int"
  regCount :: nat
  tixCount :: nat
  voteCount :: nat
  revCount :: nat
  varRegAmt :: int
  varTixAmt :: int
  varVoteAmt :: int
  varRevAmt :: int
  skaRegAmt :: "byte \<rightharpoonup> int"
  skaTixAmt :: "byte \<rightharpoonup> int"
  skaVoteAmt :: "byte \<rightharpoonup> int"
  skaRevAmt :: "byte \<rightharpoonup> int"

definition zero_accum :: coinAccum where
  "zero_accum = \<lparr>txCount = 0, ca_size = 0, varAmt = 0, skaAmt = Map.empty, regCount = 0, tixCount = 0, voteCount = 0, revCount = 0,
     varRegAmt = 0, varTixAmt = 0, varVoteAmt = 0, varRevAmt = 0, skaRegAmt = Map.empty, skaTixAmt = Map.empty,
     skaVoteAmt = Map.empty, skaRevAmt = Map.empty\<rparr>"

definition getAccum :: "(byte \<rightharpoonup> coinAccum) \<Rightarrow> byte \<Rightarrow> coinAccum" where
  "getAccum accum ct = (case accum ct of None \<Rightarrow> zero_accum | Some a \<Rightarrow> a)"

definition addSkaPerType :: "byte \<Rightarrow> int \<Rightarrow> (byte \<rightharpoonup> int) \<Rightarrow> (byte \<rightharpoonup> int)" where
  "addSkaPerType ct v m = m(ct \<mapsto> (case m ct of None \<Rightarrow> 0 | Some x \<Rightarrow> x) + v)"

definition accum_var :: "string \<Rightarrow> 32 word \<Rightarrow> int \<Rightarrow> coinAccum \<Rightarrow> coinAccum" where
  "accum_var ty sz atoms a0 =
     (let a = a0\<lparr>txCount := txCount a0 + 1, ca_size := ca_size a0 + sz, varAmt := wrap64 (varAmt a0 + atoms)\<rparr>
      in if ty = ''Regular'' then a\<lparr>regCount := regCount a + 1, varRegAmt := wrap64 (varRegAmt a + atoms)\<rparr>
         else if ty = ''Ticket'' then a\<lparr>tixCount := tixCount a + 1, varTixAmt := wrap64 (varTixAmt a + atoms)\<rparr>
         else if ty = ''Vote'' then a\<lparr>voteCount := voteCount a + 1, varVoteAmt := wrap64 (varVoteAmt a + atoms)\<rparr>
         else if ty = ''Revocation'' then a\<lparr>revCount := revCount a + 1, varRevAmt := wrap64 (varRevAmt a + atoms)\<rparr>
         else a)"

definition accum_ska :: "string \<Rightarrow> 32 word \<Rightarrow> byte \<Rightarrow> int \<Rightarrow> coinAccum \<Rightarrow> coinAccum" where
  "accum_ska ty sz ct v a0 =
     (let a = a0\<lparr>txCount := txCount a0 + 1, ca_size := ca_size a0 + sz, skaAmt := addSkaPerType ct v (skaAmt a0)\<rparr>
      in if ty = ''Regular'' then a\<lparr>regCount := regCount a + 1, skaRegAmt := addSkaPerType ct v (skaRegAmt a)\<rparr>
         else if ty = ''Ticket'' then a\<lparr>tixCount := tixCount a + 1, skaTixAmt := addSkaPerType ct v (skaTixAmt a)\<rparr>
         else if ty = ''Vote'' then a\<lparr>voteCount := voteCount a + 1, skaVoteAmt := addSkaPerType ct v (skaVoteAmt a)\<rparr>
         else if ty = ''Revocation'' then a\<lparr>revCount := revCount a + 1, skaRevAmt := addSkaPerType ct v (skaRevAmt a)\<rparr>
         else a)"

text \<open>A string that is not a number leaves the entry that \<open>getAccum\<close> has made.\<close>

fun accum_totals :: "'f MempoolTx \<Rightarrow> (byte \<times> string) list \<Rightarrow> (byte \<rightharpoonup> coinAccum) \<Rightarrow> (byte \<rightharpoonup> coinAccum)" where
  "accum_totals tx [] accum = accum"
| "accum_totals tx ((ct, amtStr) # rest) accum =
     accum_totals tx rest
       (case parse_dec amtStr of
          None \<Rightarrow> accum(ct \<mapsto> getAccum accum ct)
        | Some v \<Rightarrow> accum(ct \<mapsto> accum_ska (mt_Type tx) (mt_Size tx) ct v (getAccum accum ct)))"

definition accum_tx :: "('f \<Rightarrow> int) \<Rightarrow> (byte \<rightharpoonup> coinAccum) \<Rightarrow> 'f MempoolTx \<Rightarrow> (byte \<rightharpoonup> coinAccum)" where
  "accum_tx atoms accum tx =
     (if mt_SKATotals tx = [] then accum(0 \<mapsto> accum_var (mt_Type tx) (mt_Size tx) (atoms (mt_TotalOut tx)) (getAccum accum 0))
      else accum_totals tx (mt_SKATotals tx) accum)"

definition skaPerTypeStr :: "(byte \<rightharpoonup> int) \<Rightarrow> byte \<Rightarrow> string" where
  "skaPerTypeStr m ct = (case m ct of None \<Rightarrow> ''0'' | Some v \<Rightarrow> show_int v)"

definition accum_stats :: "byte \<Rightarrow> coinAccum \<Rightarrow> MempoolCoinStats" where
  "accum_stats ct a =
     \<lparr>TxCount = txCount a, Size = ca_size a,
      Amount = (if ct = 0 then show_int (varAmt a) else skaPerTypeStr (skaAmt a) ct),
      RegularCount = regCount a, RegularAmount = (if ct = 0 then show_int (varRegAmt a) else skaPerTypeStr (skaRegAmt a) ct),
      TicketCount = tixCount a, TicketAmount = (if ct = 0 then show_int (varTixAmt a) else skaPerTypeStr (skaTixAmt a) ct),
      VoteCount = voteCount a, VoteAmount = (if ct = 0 then show_int (varVoteAmt a) else skaPerTypeStr (skaVoteAmt a) ct),
      RevokeCount = revCount a, RevokeAmount = (if ct = 0 then show_int (varRevAmt a) else skaPerTypeStr (skaRevAmt a) ct)\<rparr>"

definition coinStats :: "('f \<Rightarrow> int) \<Rightarrow> 'f MempoolTx list \<Rightarrow> coin_stats" where
  "coinStats atoms txs = (\<lambda>ct. map_option (accum_stats ct) (foldl (accum_tx atoms) Map.empty txs ct))"

section \<open>The two computations agree\<close>

lemma show_int_0 [simp]: "show_int 0 = ''0''"
  by code_simp

lemma ParseInt64_show [simp]: "- (2 ^ 63) \<le> i \<Longrightarrow> i < 2 ^ 63 \<Longrightarrow> ParseInt64 (show_int i) = Some i"
  by (simp add: ParseInt64_def)

lemma addAtomStrings_big [simp]: "addAtomStrings (show_int x) (show_int y) True = show_int (x + y)"
  by (simp add: addAtomStrings_def)

lemma addAtomStrings_small [simp]:
  "- (2 ^ 63) \<le> x \<Longrightarrow> x < 2 ^ 63 \<Longrightarrow> - (2 ^ 63) \<le> y \<Longrightarrow> y < 2 ^ 63 \<Longrightarrow>
   addAtomStrings (show_int x) (show_int y) False = show_int (wrap64 (x + y))"
  by (simp add: addAtomStrings_def)

lemma addAtomStrings_first [simp]: "addAtomStrings [] b isBig = b"
  by (simp add: addAtomStrings_def)

lemma zero_if_empty_show [simp]: "zero_if_empty (show_int i) = show_int i" "zero_if_empty [] = ''0''" "zero_if_empty ''0'' = ''0''"
  by (simp_all add: zero_if_empty_def)

definition int64 :: "int \<Rightarrow> bool" where
  "int64 i \<longleftrightarrow> - (2 ^ 63) \<le> i \<and> i < 2 ^ 63"

lemma int64_simps [simp]: "int64 0" "int64 (wrap64 x)" "int64 x \<Longrightarrow> wrap64 x = x"
  using wrap64_bounds [of x] by (simp_all add: int64_def)

lemma add_small [simp]: "int64 x \<Longrightarrow> int64 y \<Longrightarrow> addAtomStrings (show_int x) (show_int y) False = show_int (wrap64 (x + y))"
  by (simp add: int64_def)

definition accum_ok :: "coinAccum \<Rightarrow> bool" where
  "accum_ok a \<longleftrightarrow> int64 (varAmt a) \<and> int64 (varRegAmt a) \<and> int64 (varTixAmt a) \<and> int64 (varVoteAmt a) \<and> int64 (varRevAmt a)"

lemma accum_var_ok: "accum_ok a \<Longrightarrow> accum_ok (accum_var ty sz x a)"
  by (simp add: accum_ok_def accum_var_def Let_def)

lemma accum_var_stats:
  assumes "accum_ok a" and "int64 x"
  shows "add_contribution ty sz (show_int x) False (accum_stats 0 a) = accum_stats 0 (accum_var ty sz x a)"
  using assms
  by (simp add: add_contribution_def accum_stats_def accum_var_def accum_ok_def normalizeCoinStatsAmounts_def Let_def)

lemma accum_var_first:
  assumes "int64 x"
  shows "add_contribution ty sz (show_int x) False zero_stats = accum_stats 0 (accum_var ty sz x zero_accum)"
  using assms
  by (simp add: add_contribution_def accum_stats_def accum_var_def zero_stats_def zero_accum_def normalizeCoinStatsAmounts_def Let_def)

lemma skaPerTypeStr_add [simp]:
  "skaPerTypeStr (addSkaPerType ct v m) ct = addAtomStrings (skaPerTypeStr m ct) (show_int v) True"
  "zero_if_empty (skaPerTypeStr m ct) = skaPerTypeStr m ct"
  "zero_if_empty (addAtomStrings (skaPerTypeStr m ct) (show_int v) True) = addAtomStrings (skaPerTypeStr m ct) (show_int v) True"
proof -
  obtain x where x: "skaPerTypeStr m ct = show_int x" "(case m ct of None \<Rightarrow> 0 | Some y \<Rightarrow> y) = x"
    by (cases "m ct") (auto simp: skaPerTypeStr_def simp flip: show_int_0)
  then show "skaPerTypeStr (addSkaPerType ct v m) ct = addAtomStrings (skaPerTypeStr m ct) (show_int v) True"
    by (simp add: skaPerTypeStr_def addSkaPerType_def)
  show "zero_if_empty (skaPerTypeStr m ct) = skaPerTypeStr m ct"
    "zero_if_empty (addAtomStrings (skaPerTypeStr m ct) (show_int v) True) = addAtomStrings (skaPerTypeStr m ct) (show_int v) True"
    using x by simp_all
qed

lemma accum_ska_stats:
  assumes "ct \<noteq> 0"
  shows "add_contribution ty sz (show_int v) True (accum_stats ct a) = accum_stats ct (accum_ska ty sz ct v a)"
  using assms by (simp add: add_contribution_def accum_stats_def accum_ska_def normalizeCoinStatsAmounts_def Let_def)

lemma skaPerTypeStr_first [simp]:
  "skaPerTypeStr Map.empty ct = ''0''" "addAtomStrings ''0'' (show_int v) True = show_int v"
  using addAtomStrings_big [of 0 v] by (simp_all add: skaPerTypeStr_def)

lemma accum_ska_first:
  assumes "ct \<noteq> 0"
  shows "add_contribution ty sz (show_int v) True zero_stats = accum_stats ct (accum_ska ty sz ct v zero_accum)"
  using assms
  by (simp add: add_contribution_def accum_stats_def accum_ska_def zero_stats_def zero_accum_def normalizeCoinStatsAmounts_def Let_def)

text \<open>The amounts of a transaction as the node writes them: a canonical decimal number for each SKA coin, none for VAR.\<close>

definition tx_amounts_ok :: "('f \<Rightarrow> int) \<Rightarrow> 'f MempoolTx \<Rightarrow> bool" where
  "tx_amounts_ok atoms tx \<longleftrightarrow> int64 (atoms (mt_TotalOut tx))
     \<and> (\<forall>(ct, s) \<in> set (mt_SKATotals tx). ct \<noteq> 0 \<and> (\<exists>v. s = show_int v))"

definition to_stats :: "(byte \<rightharpoonup> coinAccum) \<Rightarrow> coin_stats" where
  "to_stats accum = (\<lambda>ct. map_option (accum_stats ct) (accum ct))"

lemma to_stats_upd: "to_stats (accum(ct \<mapsto> a)) = (to_stats accum)(ct \<mapsto> accum_stats ct a)"
  by (simp add: to_stats_def fun_eq_iff)

definition var_ok :: "(byte \<rightharpoonup> coinAccum) \<Rightarrow> bool" where
  "var_ok accum \<longleftrightarrow> (case accum 0 of None \<Rightarrow> True | Some a \<Rightarrow> accum_ok a)"

lemma ska_step:
  assumes "ct \<noteq> 0"
  shows "add_contribution ty sz (show_int v) True (stats_at (to_stats accum) ct) = accum_stats ct (accum_ska ty sz ct v (getAccum accum ct))"
  using assms by (simp add: stats_at_def to_stats_def getAccum_def accum_ska_stats accum_ska_first split: option.split)

lemma add_ska_totals_accum:
  "\<forall>(ct, s) \<in> set ts. ct \<noteq> 0 \<and> (\<exists>v. s = show_int v)
   \<Longrightarrow> add_ska_totals tx ts (to_stats accum) = to_stats (accum_totals tx ts accum) \<and> accum_totals tx ts accum 0 = accum 0"
proof (induction ts arbitrary: accum)
  case (Cons p ts)
  obtain ct v where p: "p = (ct, show_int v)" "ct \<noteq> 0" using Cons.prems by (cases p) auto
  let ?accum = "accum(ct \<mapsto> accum_ska (mt_Type tx) (mt_Size tx) ct v (getAccum accum ct))"
  have "\<forall>(ct, s) \<in> set ts. ct \<noteq> 0 \<and> (\<exists>v. s = show_int v)" using Cons.prems by simp
  note IH = Cons.IH [OF this, of ?accum]
  have "add_ska_totals tx (p # ts) (to_stats accum) = add_ska_totals tx ts (to_stats ?accum)"
    using p by (simp only: add_ska_totals.simps ska_step to_stats_upd not_False_eq_True)
  moreover have "accum_totals tx (p # ts) accum = accum_totals tx ts ?accum" using p by simp
  moreover have "?accum 0 = accum 0" using p(2) by simp
  ultimately show ?case using IH by (simp only:)
qed simp

lemma addTx_accum:
  assumes "tx_amounts_ok atoms tx" and "var_ok accum"
  shows "addTxToCoinStats atoms (to_stats accum) tx = to_stats (accum_tx atoms accum tx)"
    and "var_ok (accum_tx atoms accum tx)"
proof -
  have ok: "accum_ok (getAccum accum 0)"
    using assms(2) by (auto simp: getAccum_def var_ok_def accum_ok_def zero_accum_def split: option.splits)
  have "add_contribution (mt_Type tx) (mt_Size tx) (show_int (atoms (mt_TotalOut tx))) False (stats_at (to_stats accum) 0)
      = accum_stats 0 (accum_var (mt_Type tx) (mt_Size tx) (atoms (mt_TotalOut tx)) (getAccum accum 0))"
    using assms by (auto simp: stats_at_def to_stats_def getAccum_def accum_var_stats accum_var_first tx_amounts_ok_def var_ok_def split: option.splits)
  then show "addTxToCoinStats atoms (to_stats accum) tx = to_stats (accum_tx atoms accum tx)"
    using assms(1) add_ska_totals_accum [of "mt_SKATotals tx" tx accum]
    by (simp add: addTxToCoinStats_def accum_tx_def to_stats_upd tx_amounts_ok_def)
  show "var_ok (accum_tx atoms accum tx)"
    using assms add_ska_totals_accum [of "mt_SKATotals tx" tx accum] accum_var_ok [OF ok]
    by (auto simp: accum_tx_def tx_amounts_ok_def var_ok_def)
qed

lemma coinStats_append:
  assumes "\<forall>tx \<in> set txs. tx_amounts_ok atoms tx" and "var_ok accum"
  shows "foldl (addTxToCoinStats atoms) (to_stats accum) txs = to_stats (foldl (accum_tx atoms) accum txs)
    \<and> var_ok (foldl (accum_tx atoms) accum txs)"
  using assms
proof (induction txs arbitrary: accum)
  case (Cons tx txs)
  have tx: "tx_amounts_ok atoms tx" "\<forall>tx \<in> set txs. tx_amounts_ok atoms tx" using Cons.prems(1) by simp_all
  note st = addTx_accum [OF tx(1) Cons.prems(2)]
  show ?case using Cons.IH [OF tx(2) st(2)] st(1) by (simp only: foldl.simps)
qed simp

text \<open>The order of the transactions does not matter for the accumulators.\<close>

lemma accum_var_fields [simp]:
  "txCount (accum_var ty sz x a) = Suc (txCount a)" "ca_size (accum_var ty sz x a) = ca_size a + sz"
  "varAmt (accum_var ty sz x a) = wrap64 (varAmt a + x)" "skaAmt (accum_var ty sz x a) = skaAmt a"
  "regCount (accum_var ty sz x a) = (if ty = ''Regular'' then Suc (regCount a) else regCount a)"
  "tixCount (accum_var ty sz x a) = (if ty = ''Ticket'' then Suc (tixCount a) else tixCount a)"
  "voteCount (accum_var ty sz x a) = (if ty = ''Vote'' then Suc (voteCount a) else voteCount a)"
  "revCount (accum_var ty sz x a) = (if ty = ''Revocation'' then Suc (revCount a) else revCount a)"
  "varRegAmt (accum_var ty sz x a) = (if ty = ''Regular'' then wrap64 (varRegAmt a + x) else varRegAmt a)"
  "varTixAmt (accum_var ty sz x a) = (if ty = ''Ticket'' then wrap64 (varTixAmt a + x) else varTixAmt a)"
  "varVoteAmt (accum_var ty sz x a) = (if ty = ''Vote'' then wrap64 (varVoteAmt a + x) else varVoteAmt a)"
  "varRevAmt (accum_var ty sz x a) = (if ty = ''Revocation'' then wrap64 (varRevAmt a + x) else varRevAmt a)"
  "skaRegAmt (accum_var ty sz x a) = skaRegAmt a" "skaTixAmt (accum_var ty sz x a) = skaTixAmt a"
  "skaVoteAmt (accum_var ty sz x a) = skaVoteAmt a" "skaRevAmt (accum_var ty sz x a) = skaRevAmt a"
  "coinAccum.more (accum_var ty sz x a) = coinAccum.more a"
  by (simp_all add: accum_var_def Let_def)

lemma accum_ska_fields [simp]:
  "txCount (accum_ska ty sz ct v a) = Suc (txCount a)" "ca_size (accum_ska ty sz ct v a) = ca_size a + sz"
  "varAmt (accum_ska ty sz ct v a) = varAmt a" "skaAmt (accum_ska ty sz ct v a) = addSkaPerType ct v (skaAmt a)"
  "regCount (accum_ska ty sz ct v a) = (if ty = ''Regular'' then Suc (regCount a) else regCount a)"
  "tixCount (accum_ska ty sz ct v a) = (if ty = ''Ticket'' then Suc (tixCount a) else tixCount a)"
  "voteCount (accum_ska ty sz ct v a) = (if ty = ''Vote'' then Suc (voteCount a) else voteCount a)"
  "revCount (accum_ska ty sz ct v a) = (if ty = ''Revocation'' then Suc (revCount a) else revCount a)"
  "varRegAmt (accum_ska ty sz ct v a) = varRegAmt a" "varTixAmt (accum_ska ty sz ct v a) = varTixAmt a"
  "varVoteAmt (accum_ska ty sz ct v a) = varVoteAmt a" "varRevAmt (accum_ska ty sz ct v a) = varRevAmt a"
  "skaRegAmt (accum_ska ty sz ct v a) = (if ty = ''Regular'' then addSkaPerType ct v (skaRegAmt a) else skaRegAmt a)"
  "skaTixAmt (accum_ska ty sz ct v a) = (if ty = ''Ticket'' then addSkaPerType ct v (skaTixAmt a) else skaTixAmt a)"
  "skaVoteAmt (accum_ska ty sz ct v a) = (if ty = ''Vote'' then addSkaPerType ct v (skaVoteAmt a) else skaVoteAmt a)"
  "skaRevAmt (accum_ska ty sz ct v a) = (if ty = ''Revocation'' then addSkaPerType ct v (skaRevAmt a) else skaRevAmt a)"
  "coinAccum.more (accum_ska ty sz ct v a) = coinAccum.more a"
  by (simp_all add: accum_ska_def Let_def)

lemma accum_var_commute: "accum_var ty sz x (accum_var ty' sz' y a) = accum_var ty' sz' y (accum_var ty sz x a)"
proof -
  have swap: "wrap64 (b + y + x) = wrap64 (b + x + y)" for b by (metis add.assoc add.commute)
  show ?thesis by (intro coinAccum.equality) (simp_all add: swap)
qed

lemma addSkaPerType_commute: "addSkaPerType ct v (addSkaPerType ct w m) = addSkaPerType ct w (addSkaPerType ct v m)"
  by (simp add: addSkaPerType_def ac_simps)

lemma accum_ska_commute: "accum_ska ty sz ct v (accum_ska ty' sz' ct w a) = accum_ska ty' sz' ct w (accum_ska ty sz ct v a)"
  by (rule coinAccum.equality) (simp_all add: addSkaPerType_commute [of ct v w])

text \<open>A transaction is a list of contributions: the coin, the type, the size and the amount, which is missing when the
  string is not a number.\<close>

definition contributions :: "('f \<Rightarrow> int) \<Rightarrow> 'f MempoolTx \<Rightarrow> (byte \<times> string \<times> 32 word \<times> int option) list" where
  "contributions atoms tx =
     (if mt_SKATotals tx = [] then [(0, mt_Type tx, mt_Size tx, Some (atoms (mt_TotalOut tx)))]
      else map (\<lambda>(ct, s). (ct, mt_Type tx, mt_Size tx, parse_dec s)) (mt_SKATotals tx))"

fun contribution :: "byte \<times> string \<times> 32 word \<times> int option \<Rightarrow> coinAccum \<Rightarrow> coinAccum" where
  "contribution (ct, ty, sz, None) a = a"
| "contribution (ct, ty, sz, Some v) a = (if ct = 0 then accum_var ty sz v a else accum_ska ty sz ct v a)"

definition contribute :: "byte \<times> string \<times> 32 word \<times> int option \<Rightarrow> (byte \<rightharpoonup> coinAccum) \<Rightarrow> (byte \<rightharpoonup> coinAccum)" where
  "contribute c accum = accum(fst c \<mapsto> contribution c (getAccum accum (fst c)))"

lemma contribution_commute: "fst c = fst d \<Longrightarrow> contribution c (contribution d a) = contribution d (contribution c a)"
  by (cases c; cases d; cases "snd (snd (snd c))"; cases "snd (snd (snd d))")
    (auto intro: accum_var_commute accum_ska_commute)

lemma contribute_commute: "contribute c \<circ> contribute d = contribute d \<circ> contribute c"
proof (cases "fst c = fst d")
  case True
  then show ?thesis
    using contribution_commute [OF True] by (simp add: contribute_def fun_eq_iff getAccum_def)
next
  case False
  then have "contribute c (contribute d accum) = contribute d (contribute c accum)" for accum
    by (simp add: contribute_def getAccum_def fun_upd_twist)
  then show ?thesis by (simp add: fun_eq_iff)
qed

lemma accum_totals_contributions:
  "\<forall>(ct, s) \<in> set ts. ct \<noteq> 0 \<Longrightarrow>
   accum_totals tx ts accum = fold contribute (map (\<lambda>(ct, s). (ct, mt_Type tx, mt_Size tx, parse_dec s)) ts) accum"
  by (induction ts arbitrary: accum) (auto simp: contribute_def split: option.split)

lemma accum_tx_contributions:
  assumes "tx_amounts_ok atoms tx"
  shows "accum_tx atoms accum tx = fold contribute (contributions atoms tx) accum"
proof -
  have "\<forall>(ct, s) \<in> set (mt_SKATotals tx). ct \<noteq> 0" using assms by (auto simp: tx_amounts_ok_def)
  from accum_totals_contributions [OF this, of tx accum] show ?thesis
    by (simp add: accum_tx_def contributions_def contribute_def)
qed

lemma accum_contributions:
  "\<forall>tx \<in> set txs. tx_amounts_ok atoms tx \<Longrightarrow>
   foldl (accum_tx atoms) accum txs = fold contribute (concat (map (contributions atoms) txs)) accum"
  by (induction txs arbitrary: accum) (simp_all add: accum_tx_contributions)

lemma mset_concat_map: "mset xs = mset ys \<Longrightarrow> mset (concat (map f xs)) = mset (concat (map f ys))"
  by (simp add: mset_concat) (metis mset_map sum_mset_sum_list)

lemma coin_stats_adds:
  assumes "\<forall>tx \<in> set (old @ new). tx_amounts_ok atoms tx" and "mset txs = mset (old @ new)"
  shows "foldl (addTxToCoinStats atoms) (coinStats atoms old) new = coinStats atoms txs"
proof -
  have ok: "\<forall>tx \<in> set txs. tx_amounts_ok atoms tx" using assms by (metis mset_eq_setD)
  have old: "\<forall>tx \<in> set old. tx_amounts_ok atoms tx" "\<forall>tx \<in> set new. tx_amounts_ok atoms tx" using assms(1) by auto
  have "var_ok Map.empty" by (simp add: var_ok_def)
  from coinStats_append [OF old(1) this] have "var_ok (foldl (accum_tx atoms) Map.empty old)" ..
  from coinStats_append [OF old(2) this]
  have "foldl (addTxToCoinStats atoms) (coinStats atoms old) new = to_stats (foldl (accum_tx atoms) Map.empty (old @ new))"
    by (simp add: coinStats_def to_stats_def)
  also have "foldl (accum_tx atoms) Map.empty (old @ new) = foldl (accum_tx atoms) Map.empty txs"
  proof -
    have "fold contribute (concat (map (contributions atoms) (old @ new))) = fold contribute (concat (map (contributions atoms) txs))"
      by (rule fold_multiset_equiv) (rule contribute_commute, rule mset_concat_map [OF assms(2) [symmetric]])
    then show ?thesis using accum_contributions [OF assms(1)] accum_contributions [OF ok] by simp
  qed
  finally show ?thesis by (simp add: coinStats_def to_stats_def)
qed

text \<open>C27. The statistics that the monitor keeps up to date one transaction at a time are those that the collector would
  compute from scratch: after any transactions \<open>new\<close> were added to the statistics of a mempool \<open>old\<close>, they equal
  the statistics of the whole mempool, in whatever order the collector receives it, with counts, sizes and decimal
  amounts of every coin.\<close>

theorem coin_stats_incremental:
  assumes "\<forall>tx \<in> set (old @ new). tx_amounts_ok atoms tx" and "mset txs = mset (old @ new)"
  shows "foldl (addTxToCoinStats atoms) (coinStats atoms old) new = coinStats atoms txs"
  using assms by (rule coin_stats_adds)

definition regular_tx :: "nat \<Rightarrow> (byte \<times> string) list \<Rightarrow> nat MempoolTx" where
  "regular_tx out totals = \<lparr>mt_TxID = ''t'', mt_Fees = 0, mt_VinCount = 0, mt_VoutCount = 0, mt_Vin = [], mt_Time = 1, mt_Size = 250,
     mt_TotalOut = out, mt_Type = ''Regular'', mt_TypeID = TxTypeRegular, mt_VoteInfo = None, mt_SKATotals = totals, mt_TicketStage = []\<rparr>"

theorem coin_stats_incremental_witness:
  "foldl (addTxToCoinStats int) (coinStats int [regular_tx 7 []]) [regular_tx 5 [], regular_tx 0 [(1, ''12'')]]
     = coinStats int [regular_tx 0 [(1, ''12'')], regular_tx 5 [], regular_tx 7 []]"
proof -
  have s12: "''12'' = show_int 12" by code_simp
  have "\<forall>tx \<in> set ([regular_tx 7 []] @ [regular_tx 5 [], regular_tx 0 [(1, ''12'')]]). tx_amounts_ok int tx"
    using s12 by (auto simp: tx_amounts_ok_def regular_tx_def int64_def)
  then show ?thesis by (rule coin_stats_incremental) simp
qed

text \<open>The two computations differ on an amount that is not a number: the collector skips the transaction, the monitor
  counts it.\<close>

lemma bad_amount_differs:
  "map_option TxCount (coinStats int [regular_tx 0 [(1, ''x'')]] 1) = Some 0"
  "map_option TxCount (foldl (addTxToCoinStats int) (coinStats int []) [regular_tx 0 [(1, ''x'')]] 1) = Some 1"
proof -
  have "parse_dec ''x'' = None" by code_simp
  then show "map_option TxCount (coinStats int [regular_tx 0 [(1, ''x'')]] 1) = Some 0"
    by (simp add: coinStats_def accum_tx_def regular_tx_def getAccum_def accum_stats_def zero_accum_def)
  show "map_option TxCount (foldl (addTxToCoinStats int) (coinStats int []) [regular_tx 0 [(1, ''x'')]] 1) = Some 1"
    by (simp add: coinStats_def addTxToCoinStats_def regular_tx_def stats_at_def zero_stats_def add_contribution_def normalizeCoinStatsAmounts_def Let_def)
qed

end
