(* ===== verification/MempoolVotes.thy ===== *)
theory MempoolVotes
  imports MempoolStats
begin

text \<open>
  The votes of the mempool in \<open>explorer/types/explorertypes.go\<close>: the index of a ticket among the tickets that vote
  on a block, and the tally of the votes on a block. \<open>TicketIndex\<close>, a map from ticket hashes to indexes, is the
  list of its entries in the order in which they are made.
\<close>

section \<open>Ticket indexes\<close>

type_synonym TicketIndex = "(string \<times> nat) list"
type_synonym BlockValidatorIndex = "string \<rightharpoonup> TicketIndex"

definition ForBlock :: "BlockValidation \<Rightarrow> string \<Rightarrow> bool" where
  "ForBlock v blockHash \<longleftrightarrow> blockHash \<noteq> [] \<and> blockHash = bv_Hash v"

definition VotesOnBlock :: "VoteInfo \<Rightarrow> string \<Rightarrow> bool" where
  "VotesOnBlock vi blockHash \<longleftrightarrow> ForBlock (vi_Validation vi) blockHash"

definition SetTicketIndex :: "VoteInfo \<Rightarrow> BlockValidatorIndex \<Rightarrow> VoteInfo \<times> BlockValidatorIndex" where
  "SetTicketIndex vi inds =
     (let block = bv_Hash (vi_Validation vi); startInd = 1
      in case inds block of
           Some idxs \<Rightarrow>
             (case map_of idxs (vi_TicketSpent vi) of
                Some idx \<Rightarrow> (vi\<lparr>vi_MempoolTicketIndex := idx\<rparr>, inds)
              | None \<Rightarrow>
                  let idx = length idxs + startInd
                  in (vi\<lparr>vi_MempoolTicketIndex := idx\<rparr>, inds(block \<mapsto> idxs @ [(vi_TicketSpent vi, idx)])))
         | None \<Rightarrow> (vi\<lparr>vi_MempoolTicketIndex := startInd\<rparr>, inds(block \<mapsto> [(vi_TicketSpent vi, startInd)])))"

text \<open>The indexes of the tickets of a block are \<open>1, 2, \<dots>\<close>, one for each ticket.\<close>

definition index_ok :: "TicketIndex \<Rightarrow> bool" where
  "index_ok idxs \<longleftrightarrow> distinct (map fst idxs) \<and> map snd idxs = [1..<Suc (length idxs)]"

definition indexes_ok :: "BlockValidatorIndex \<Rightarrow> bool" where
  "indexes_ok inds \<longleftrightarrow> (\<forall>block idxs. inds block = Some idxs \<longrightarrow> index_ok idxs)"

definition ticket_index :: "BlockValidatorIndex \<Rightarrow> string \<Rightarrow> string \<Rightarrow> nat option" where
  "ticket_index inds block ticket = (case inds block of None \<Rightarrow> None | Some idxs \<Rightarrow> map_of idxs ticket)"

lemma index_ok_snoc:
  "index_ok idxs \<Longrightarrow> map_of idxs t = None \<Longrightarrow> index_ok (idxs @ [(t, Suc (length idxs))])"
  by (auto simp: index_ok_def map_of_eq_None_iff)

lemma SetTicketIndex_ok:
  assumes "indexes_ok inds"
  shows "indexes_ok (snd (SetTicketIndex vi inds))"
  using assms
  by (auto simp: SetTicketIndex_def indexes_ok_def Let_def index_ok_snoc split: option.splits) (simp add: index_ok_def)

lemma SetTicketIndex_reads:
  "ticket_index (snd (SetTicketIndex vi inds)) (bv_Hash (vi_Validation vi)) (vi_TicketSpent vi)
     = Some (vi_MempoolTicketIndex (fst (SetTicketIndex vi inds)))"
  by (auto simp: SetTicketIndex_def ticket_index_def Let_def map_add_def split: option.splits)

lemma SetTicketIndex_keeps:
  "ticket_index inds block ticket = Some i \<Longrightarrow> ticket_index (snd (SetTicketIndex vi inds)) block ticket = Some i"
  by (auto simp: SetTicketIndex_def ticket_index_def Let_def map_add_Some_iff split: option.splits)

lemma SetTicketIndex_fields [simp]:
  "vi_Validation (fst (SetTicketIndex vi inds)) = vi_Validation vi"
  "vi_TicketSpent (fst (SetTicketIndex vi inds)) = vi_TicketSpent vi"
  "vi_ForLastBlock (fst (SetTicketIndex vi inds)) = vi_ForLastBlock vi"
  by (simp_all add: SetTicketIndex_def Let_def split: option.splits)

lemma ticket_index_inj:
  assumes "indexes_ok inds" and "ticket_index inds block t = Some i" and "ticket_index inds block t' = Some i"
  shows "t = t'"
proof -
  obtain idxs where idxs: "inds block = Some idxs" using assms(2) by (auto simp: ticket_index_def split: option.splits)
  then have ok: "index_ok idxs" using assms(1) by (simp add: indexes_ok_def)
  have "(t, i) \<in> set idxs" "(t', i) \<in> set idxs" using assms(2,3) idxs by (simp_all add: ticket_index_def map_of_SomeD)
  moreover have "distinct (map snd idxs)" using ok by (simp add: index_ok_def)
  ultimately show "t = t'" by (metis eq_key_imp_eq_value map_of_SomeD distinct_map inj_onD prod.inject snd_conv)
qed

section \<open>Tallies\<close>

definition VoteReject :: int where "VoteReject = - 1"
definition VoteAffirm :: int where "VoteAffirm = 1"
definition VoteMissing :: int where "VoteMissing = 0"

record VoteTally =
  TicketsPerBlock :: nat
  Marks :: "bool list"

record VotingInfo =
  TicketsVoted :: "16 word"
  MaxVotesPerBlock :: "16 word"
  VotedTickets :: "string \<Rightarrow> bool"
  VoteTallys :: "string \<rightharpoonup> VoteTally"

definition NewVotingInfo :: "16 word \<Rightarrow> VotingInfo" where
  "NewVotingInfo votesPerBlock =
     \<lparr>TicketsVoted = 0, MaxVotesPerBlock = votesPerBlock, VotedTickets = (\<lambda>_. False), VoteTallys = Map.empty\<rparr>"

definition Mark :: "bool \<Rightarrow> VoteTally \<Rightarrow> VoteTally" where
  "Mark vote tally = tally\<lparr>Marks := Marks tally @ [vote]\<rparr>"

text \<open>\<open>make([]bool, 1, vi.MaxVotesPerBlock)\<close> panics when the capacity is zero: \<open>None\<close>.\<close>

definition Tally :: "VoteInfo \<Rightarrow> VotingInfo \<Rightarrow> VotingInfo option" where
  "Tally vinfo vi =
     (let v = vi_Validation vinfo
      in case VoteTallys vi (bv_Hash v) of
           Some tally \<Rightarrow> Some (vi\<lparr>VoteTallys := (VoteTallys vi)(bv_Hash v \<mapsto> Mark (bv_Validity v) tally)\<rparr>)
         | None \<Rightarrow>
             if MaxVotesPerBlock vi = 0 then None
             else Some (vi\<lparr>VoteTallys := (VoteTallys vi)(bv_Hash v \<mapsto>
                      \<lparr>TicketsPerBlock = unat (MaxVotesPerBlock vi), Marks = [bv_Validity v]\<rparr>)\<rparr>))"

fun status_loop :: "bool list \<Rightarrow> int list \<times> nat \<times> nat \<Rightarrow> int list \<times> nat \<times> nat" where
  "status_loop [] st = st"
| "status_loop (affirmed # marks) (votes, up, down) =
     status_loop marks
       (if affirmed then (votes @ [VoteAffirm], Suc up, down) else (votes @ [VoteReject], up, Suc down))"

definition Status :: "VoteTally \<Rightarrow> int list \<times> int" where
  "Status tally =
     (let (votes, up, down) = status_loop (Marks tally) ([], 0, 0);
          threshold = TicketsPerBlock tally div 2
      in (votes @ replicate (TicketsPerBlock tally - length votes) VoteMissing,
          if up > threshold then VoteAffirm else if down > threshold then VoteReject else 0))"

definition BlockStatus :: "string \<Rightarrow> VotingInfo \<Rightarrow> int list \<times> int" where
  "BlockStatus h vi =
     (case VoteTallys vi h of
        Some tally \<Rightarrow> Status tally
      | None \<Rightarrow> (replicate (unat (MaxVotesPerBlock vi)) VoteMissing, VoteMissing))"

definition Affirmations :: "VoteTally \<Rightarrow> nat" where
  "Affirmations tally = foldl (\<lambda>c affirmed. if affirmed then Suc c else c) 0 (Marks tally)"

definition VoteCount_tally :: "VoteTally \<Rightarrow> nat" where
  "VoteCount_tally tally = length (Marks tally)"

lemma status_loop_result:
  "status_loop marks (votes, up, down)
     = (votes @ map (\<lambda>b. if b then VoteAffirm else VoteReject) marks, up + count_list marks True, down + count_list marks False)"
  by (induction marks arbitrary: votes up down) auto

lemma Affirmations_count: "Affirmations tally = count_list (Marks tally) True"
proof -
  have "foldl (\<lambda>c affirmed. if affirmed then Suc c else c) c ms = c + count_list ms True" for c ms
    by (induction ms arbitrary: c) auto
  then show ?thesis by (simp add: Affirmations_def)
qed

lemma count_marks: "count_list ms True + count_list ms False = length ms"
  by (induction ms) auto

lemma Status_result:
  "Status tally =
     (map (\<lambda>b. if b then VoteAffirm else VoteReject) (Marks tally) @ replicate (TicketsPerBlock tally - length (Marks tally)) VoteMissing,
      if Affirmations tally > TicketsPerBlock tally div 2 then VoteAffirm
      else if VoteCount_tally tally - Affirmations tally > TicketsPerBlock tally div 2 then VoteReject else VoteMissing)"
proof -
  have "count_list (Marks tally) False = VoteCount_tally tally - Affirmations tally"
    using count_marks [of "Marks tally"] by (simp add: VoteCount_tally_def Affirmations_count)
  then show ?thesis by (simp add: Status_def status_loop_result Affirmations_count VoteMissing_def)
qed

text \<open>A consensus on a block is final: once \<open>Status\<close> reports that the votes affirm or reject the block, no
  further votes, up to the number of tickets called, change the report. Until then \<open>Status\<close> reports 0, and a
  full tally of an odd number of tickets always has a consensus.\<close>

theorem Status_final:
  assumes "length (Marks tally) + length later \<le> TicketsPerBlock tally"
  shows "(snd (Status tally) \<noteq> 0 \<longrightarrow> snd (Status (foldl (\<lambda>t v. Mark v t) tally later)) = snd (Status tally))
    \<and> (odd (TicketsPerBlock tally) \<and> length (Marks tally) + length later = TicketsPerBlock tally \<longrightarrow>
        snd (Status (foldl (\<lambda>t v. Mark v t) tally later)) \<noteq> 0)"
proof -
  have marks: "Marks (foldl (\<lambda>t v. Mark v t) tally later) = Marks tally @ later
      \<and> TicketsPerBlock (foldl (\<lambda>t v. Mark v t) tally later) = TicketsPerBlock tally"
    by (induction later arbitrary: tally) (simp_all add: Mark_def)
  note counts = count_marks [of "Marks tally"] count_marks [of later]
  have "snd (Status (foldl (\<lambda>t v. Mark v t) tally later)) = snd (Status tally)" if "snd (Status tally) \<noteq> 0"
    using that assms counts
    by (auto simp: Status_def status_loop_result marks VoteAffirm_def VoteReject_def Let_def split: if_splits)
  moreover have "snd (Status (foldl (\<lambda>t v. Mark v t) tally later)) \<noteq> 0"
    if "odd (TicketsPerBlock tally)" "length (Marks tally) + length later = TicketsPerBlock tally"
  proof -
    have "TicketsPerBlock tally = Suc (2 * (TicketsPerBlock tally div 2))" using that(1) by presburger
    then show ?thesis
      using that(2) counts by (auto simp: Status_def status_loop_result marks VoteAffirm_def VoteReject_def Let_def)
  qed
  ultimately show ?thesis by blast
qed

theorem Status_final_witness:
  "snd (Status (foldl (\<lambda>t v. Mark v t) \<lparr>TicketsPerBlock = 5, Marks = [True, False, True, True]\<rparr> [False])) = 1"
  using Status_final [of "\<lparr>TicketsPerBlock = 5, Marks = [True, False, True, True]\<rparr>" "[False]"]
  by (simp add: Status_def VoteAffirm_def VoteReject_def)

end
