(* ===== verification/MempoolAddr.thy ===== *)
theory MempoolAddr
  imports TxSizes GoBig
begin

text \<open>
  The address index of the mempool: the outpoints of \<open>txhelpers/txhelpers.go\<close> and the lookup of
  \<open>mempool/monitor.go\<close>. The node's functions are parameters, collected in \<open>addr_env\<close>: the hash and the kind of
  a transaction, the addresses of an output script, and the answer to a request for a raw transaction.
  The transactions that the requests return are decoded: \<open>rt_Tx\<close> is \<open>None\<close> when \<open>MsgTxFromHex\<close> fails. The requests are
  all sent before the first answer is read, which makes no difference here. \<open>None\<close> is an index out of range.
\<close>

section \<open>Data\<close>

record OutPoint =
  op_Hash :: hash
  op_Index :: nat
  op_Tree :: int

record PrevOut =
  po_TxSpending :: hash
  po_InputIndex :: nat
  po_PreviousOutpoint :: OutPoint
  po_CoinType :: byte
  po_SKAValue :: string

record CoinOutputInfo =
  coi_CoinType :: byte
  coi_SKAValue :: string

record TxWithBlockData =
  twb_Tx :: MsgTx
  twb_BlockHeight :: int
  twb_BlockHash :: string
  twb_MemPoolTime :: int
  twb_CoinInfo :: "nat \<rightharpoonup> CoinOutputInfo"

text \<open>The values of the map are pointers, which \<open>UnconfirmedTxnsForAddress\<close> may set to nil.\<close>

record AddressOutpoints =
  ao_Address :: string
  ao_Outpoints :: "OutPoint list"
  ao_PrevOuts :: "PrevOut list"
  ao_TxnsStore :: "hash \<rightharpoonup> TxWithBlockData option"

record raw_tx =
  rt_Txid :: string
  rt_Tx :: "MsgTx option"
  rt_BlockHeight :: int
  rt_BlockHash :: string

record addr_env =
  tx_hash :: "MsgTx \<Rightarrow> hash"
  IsStakeTx :: "MsgTx \<Rightarrow> bool"
  TxTreeRegular :: int
  TxTreeStake :: int
  ExtractAddrs :: "TxOut \<Rightarrow> string list"
  hash_str :: "hash \<Rightarrow> string"
  RawTransaction :: "hash \<Rightarrow> raw_tx option"

definition TxTree :: "addr_env \<Rightarrow> MsgTx \<Rightarrow> int" where
  "TxTree env tx = (if IsStakeTx env tx then TxTreeStake env else TxTreeRegular env)"

type_synonym addr_store = "string \<rightharpoonup> AddressOutpoints"
type_synonym txns_store = "hash \<rightharpoonup> TxWithBlockData"

definition Confirmed :: "nat \<Rightarrow> TxWithBlockData \<Rightarrow> bool" where
  "Confirmed maxHashStringSize t \<longleftrightarrow> twb_BlockHeight t > 0 \<and> length (twb_BlockHash t) \<le> maxHashStringSize"

definition NewAddressOutpoints :: "string \<Rightarrow> AddressOutpoints" where
  "NewAddressOutpoints address = \<lparr>ao_Address = address, ao_Outpoints = [], ao_PrevOuts = [], ao_TxnsStore = Map.empty\<rparr>"

definition ao_Update :: "addr_env \<Rightarrow> TxWithBlockData list \<Rightarrow> OutPoint list \<Rightarrow> PrevOut list \<Rightarrow> AddressOutpoints \<Rightarrow> AddressOutpoints" where
  "ao_Update env txns outpoints prevOuts a =
     a\<lparr>ao_Outpoints := ao_Outpoints a @ outpoints, ao_PrevOuts := ao_PrevOuts a @ prevOuts,
       ao_TxnsStore := foldl (\<lambda>m t. m(tx_hash env (twb_Tx t) \<mapsto> Some t)) (ao_TxnsStore a) txns\<rparr>"

definition ao_Merge :: "AddressOutpoints \<Rightarrow> AddressOutpoints \<Rightarrow> AddressOutpoints" where
  "ao_Merge ao a =
     a\<lparr>ao_Outpoints := ao_Outpoints a @ ao_Outpoints ao, ao_PrevOuts := ao_PrevOuts a @ ao_PrevOuts ao,
       ao_TxnsStore := ao_TxnsStore a ++ ao_TxnsStore ao\<rparr>"

section \<open>Outputs\<close>

fun out_addrs :: "OutPoint \<Rightarrow> string list \<Rightarrow> addr_store \<times> (string \<rightharpoonup> bool) \<Rightarrow> addr_store \<times> (string \<rightharpoonup> bool)" where
  "out_addrs op [] st = st"
| "out_addrs op (addr # rest) (store, addrs) =
     out_addrs op rest
       (case store addr of
          None \<Rightarrow> (store(addr \<mapsto> (NewAddressOutpoints addr)\<lparr>ao_Outpoints := [op]\<rparr>), addrs(addr \<mapsto> True))
        | Some a \<Rightarrow>
            (store(addr \<mapsto> a\<lparr>ao_Outpoints := ao_Outpoints a @ [op]\<rparr>), if addrs addr = None then addrs(addr \<mapsto> False) else addrs))"

fun outs_by_addr ::
  "addr_env \<Rightarrow> MsgTx \<Rightarrow> nat \<Rightarrow> TxOut list \<Rightarrow> nat \<Rightarrow> addr_store \<times> (string \<rightharpoonup> bool) \<Rightarrow> nat \<times> addr_store \<times> (string \<rightharpoonup> bool)" where
  "outs_by_addr env tx i [] newOuts st = (newOuts, st)"
| "outs_by_addr env tx i (out # outs) newOuts st =
     (let txOutAddrs = ExtractAddrs env out; op = \<lparr>op_Hash = tx_hash env tx, op_Index = i, op_Tree = TxTree env tx\<rparr>
      in if txOutAddrs = [] then outs_by_addr env tx (Suc i) outs newOuts st
         else outs_by_addr env tx (Suc i) outs (Suc newOuts) (out_addrs op txOutAddrs st))"

definition TxOutpointsByAddr :: "addr_env \<Rightarrow> MsgTx \<Rightarrow> addr_store \<Rightarrow> nat \<times> addr_store \<times> (string \<rightharpoonup> bool)" where
  "TxOutpointsByAddr env tx store = outs_by_addr env tx 0 (txOut tx) 0 (store, Map.empty)"

fun pays_loop :: "addr_env \<Rightarrow> MsgTx \<Rightarrow> string \<Rightarrow> nat \<Rightarrow> TxOut list \<Rightarrow> OutPoint list" where
  "pays_loop env tx addr i [] = []"
| "pays_loop env tx addr i (out # outs) =
     map (\<lambda>a. \<lparr>op_Hash = tx_hash env tx, op_Index = i, op_Tree = TxTree env tx\<rparr>) (filter (\<lambda>a. addr = a) (ExtractAddrs env out))
       @ pays_loop env tx addr (Suc i) outs"

definition TxPaysToAddress :: "addr_env \<Rightarrow> MsgTx \<Rightarrow> string \<Rightarrow> OutPoint list" where
  "TxPaysToAddress env tx addr = pays_loop env tx addr 0 (txOut tx)"

section \<open>Inputs\<close>

definition ska_string :: "TxOut \<Rightarrow> string" where
  "ska_string out = (case txo_SKAValue out of None \<Rightarrow> [] | Some v \<Rightarrow> show_int v)"

definition coin_info :: "TxOut list \<Rightarrow> (nat \<rightharpoonup> CoinOutputInfo)" where
  "coin_info outs = (\<lambda>i. if i < length outs then Some \<lparr>coi_CoinType = txo_CoinType (outs ! i), coi_SKAValue = ska_string (outs ! i)\<rparr> else None)"

fun prev_addrs :: "PrevOut \<Rightarrow> string list \<Rightarrow> addr_store \<times> (string \<rightharpoonup> bool) \<Rightarrow> addr_store \<times> (string \<rightharpoonup> bool)" where
  "prev_addrs po [] st = st"
| "prev_addrs po (addr # rest) (store, addrs) =
     prev_addrs po rest
       (case store addr of
          None \<Rightarrow> (store(addr \<mapsto> (NewAddressOutpoints addr)\<lparr>ao_PrevOuts := [po]\<rparr>), addrs(addr \<mapsto> True))
        | Some a \<Rightarrow>
            (store(addr \<mapsto> a\<lparr>ao_PrevOuts := ao_PrevOuts a @ [po]\<rparr>), if addrs addr = None then addrs(addr \<mapsto> False) else addrs))"

record prev_state =
  ps_store :: addr_store
  ps_txns :: txns_store
  ps_newPrevOuts :: nat
  ps_addrs :: "string \<rightharpoonup> bool"
  ps_valsIn :: "int list"

text \<open>The requests: the inputs that are not coinbase or stakebase, with their positions.\<close>

definition promises :: "MsgTx \<Rightarrow> (nat \<times> TxIn) list" where
  "promises tx = filter (\<lambda>(i, txin). PrevHash txin \<noteq> zeroHash) (enumerate 0 (txIn tx))"

definition spend_prev :: "addr_env \<Rightarrow> MsgTx \<Rightarrow> nat \<Rightarrow> TxIn \<Rightarrow> raw_tx \<Rightarrow> MsgTx \<Rightarrow> prev_state \<Rightarrow> prev_state option" where
  "spend_prev env tx inIdx txin raw prevTx s =
     (if PrevIndex txin \<ge> length (txOut prevTx) then None
      else
        let out = txOut prevTx ! PrevIndex txin;
            s1 = (if txo_CoinType out = 0 then s\<lparr>ps_valsIn := (ps_valsIn s)[inIdx := txo_Value out]\<rparr> else s);
            txAddrs = ExtractAddrs env out
        in if txAddrs = [] then Some s1
           else
             let po = \<lparr>po_TxSpending = tx_hash env tx, po_InputIndex = inIdx,
                       po_PreviousOutpoint = \<lparr>op_Hash = PrevHash txin, op_Index = PrevIndex txin, op_Tree = TxTree env prevTx\<rparr>,
                       po_CoinType = txo_CoinType out, po_SKAValue = ska_string out\<rparr>;
                 data = \<lparr>twb_Tx = prevTx, twb_BlockHeight = rt_BlockHeight raw, twb_BlockHash = rt_BlockHash raw, twb_MemPoolTime = 0,
                         twb_CoinInfo = coin_info (txOut prevTx)\<rparr>;
                 (store, addrs) = prev_addrs po txAddrs (ps_store s1, ps_addrs s1)
             in Some (s1\<lparr>ps_store := store, ps_addrs := addrs, ps_txns := (ps_txns s1)(PrevHash txin \<mapsto> data),
                         ps_newPrevOuts := Suc (ps_newPrevOuts s1)\<rparr>))"

fun prevs_loop :: "addr_env \<Rightarrow> MsgTx \<Rightarrow> (nat \<times> TxIn) list \<Rightarrow> prev_state \<Rightarrow> prev_state option" where
  "prevs_loop env tx [] s = Some s"
| "prevs_loop env tx ((inIdx, txin) # rest) s =
     (case RawTransaction env (PrevHash txin) of
        None \<Rightarrow> Some s
      | Some raw \<Rightarrow>
          if rt_Txid raw \<noteq> hash_str env (PrevHash txin) then prevs_loop env tx rest s
          else case rt_Tx raw of
            None \<Rightarrow> prevs_loop env tx rest s
          | Some prevTx \<Rightarrow>
              (case spend_prev env tx inIdx txin raw prevTx s of None \<Rightarrow> None | Some s1 \<Rightarrow> prevs_loop env tx rest s1))"

definition TxPrevOutsByAddr :: "addr_env \<Rightarrow> MsgTx \<Rightarrow> addr_store \<Rightarrow> txns_store \<Rightarrow> prev_state option" where
  "TxPrevOutsByAddr env tx store txns =
     prevs_loop env tx (promises tx)
       \<lparr>ps_store = store, ps_txns = txns, ps_newPrevOuts = 0, ps_addrs = Map.empty, ps_valsIn = replicate (length (txIn tx)) 0\<rparr>"

text \<open>The scan for one address; a failed request gives up with nil slices.\<close>

fun consumes_loop ::
  "addr_env \<Rightarrow> MsgTx \<Rightarrow> string \<Rightarrow> (nat \<times> TxIn) list \<Rightarrow> PrevOut list \<Rightarrow> TxWithBlockData list \<Rightarrow> (PrevOut list \<times> TxWithBlockData list) option" where
  "consumes_loop env tx addr [] prevOuts prevTxs = Some (prevOuts, prevTxs)"
| "consumes_loop env tx addr ((inIdx, txin) # rest) prevOuts prevTxs =
     (case RawTransaction env (PrevHash txin) of
        None \<Rightarrow> Some ([], [])
      | Some raw \<Rightarrow>
          if rt_Txid raw \<noteq> hash_str env (PrevHash txin) then Some ([], [])
          else case rt_Tx raw of
            None \<Rightarrow> consumes_loop env tx addr rest prevOuts prevTxs
          | Some prevTx \<Rightarrow>
              if PrevIndex txin \<ge> length (txOut prevTx) then None
              else
                let k = length (filter (\<lambda>a. addr = a) (ExtractAddrs env (txOut prevTx ! PrevIndex txin)));
                    po = \<lparr>po_TxSpending = tx_hash env tx, po_InputIndex = inIdx,
                          po_PreviousOutpoint = \<lparr>op_Hash = PrevHash txin, op_Index = PrevIndex txin, op_Tree = TxTree env prevTx\<rparr>,
                          po_CoinType = 0, po_SKAValue = []\<rparr>;
                    data = \<lparr>twb_Tx = prevTx, twb_BlockHeight = rt_BlockHeight raw, twb_BlockHash = rt_BlockHash raw, twb_MemPoolTime = 0,
                            twb_CoinInfo = Map.empty\<rparr>
                in consumes_loop env tx addr rest (prevOuts @ replicate k po) (prevTxs @ replicate k data))"

definition TxConsumesOutpointWithAddress ::
  "addr_env \<Rightarrow> MsgTx \<Rightarrow> string \<Rightarrow> (PrevOut list \<times> TxWithBlockData list) option" where
  "TxConsumesOutpointWithAddress env tx addr = consumes_loop env tx addr (promises tx) [] []"

definition TxInvolvesAddress ::
  "addr_env \<Rightarrow> MsgTx \<Rightarrow> string \<Rightarrow> (OutPoint list \<times> PrevOut list \<times> TxWithBlockData list) option" where
  "TxInvolvesAddress env tx addr =
     map_option (\<lambda>(prevOuts, prevTxs). (TxPaysToAddress env tx addr, prevOuts, prevTxs)) (TxConsumesOutpointWithAddress env tx addr)"

section \<open>The index is the scan\<close>

definition outpoints_of :: "addr_store \<Rightarrow> string \<Rightarrow> OutPoint list" where
  "outpoints_of store addr = (case store addr of None \<Rightarrow> [] | Some a \<Rightarrow> ao_Outpoints a)"

definition prevouts_of :: "addr_store \<Rightarrow> string \<Rightarrow> PrevOut list" where
  "prevouts_of store addr = (case store addr of None \<Rightarrow> [] | Some a \<Rightarrow> ao_PrevOuts a)"

lemma out_addrs_store:
  "outpoints_of (fst (out_addrs op as st)) addr = outpoints_of (fst st) addr @ map (\<lambda>a. op) (filter (\<lambda>a. addr = a) as)
   \<and> prevouts_of (fst (out_addrs op as st)) addr = prevouts_of (fst st) addr"
proof (induction op as st rule: out_addrs.induct)
  case (2 op a rest store addrs)
  then show ?case
    by (cases "store a") (auto simp: outpoints_of_def prevouts_of_def NewAddressOutpoints_def)
qed simp

lemma outs_by_addr_store:
  "outpoints_of (fst (snd (outs_by_addr env tx i outs k st))) addr = outpoints_of (fst st) addr @ pays_loop env tx addr i outs
   \<and> prevouts_of (fst (snd (outs_by_addr env tx i outs k st))) addr = prevouts_of (fst st) addr"
  by (induction env tx i outs k st rule: outs_by_addr.induct) (simp_all add: Let_def out_addrs_store)

lemma TxOutpointsByAddr_store:
  "outpoints_of (fst (snd (TxOutpointsByAddr env tx store))) addr = outpoints_of store addr @ TxPaysToAddress env tx addr"
  "prevouts_of (fst (snd (TxOutpointsByAddr env tx store))) addr = prevouts_of store addr"
  using outs_by_addr_store [of env tx 0 "txOut tx" 0 "(store, Map.empty)" addr]
  by (simp_all add: TxOutpointsByAddr_def TxPaysToAddress_def)

lemma prev_addrs_store:
  "prevouts_of (fst (prev_addrs po as st)) addr = prevouts_of (fst st) addr @ map (\<lambda>a. po) (filter (\<lambda>a. addr = a) as)
   \<and> outpoints_of (fst (prev_addrs po as st)) addr = outpoints_of (fst st) addr"
proof (induction po as st rule: prev_addrs.induct)
  case (2 po a rest store addrs)
  then show ?case
    by (cases "store a") (auto simp: outpoints_of_def prevouts_of_def NewAddressOutpoints_def)
qed simp

definition bare :: "PrevOut \<Rightarrow> PrevOut" where
  "bare po = po\<lparr>po_CoinType := 0, po_SKAValue := []\<rparr>"

text \<open>The node knows the transactions that the inputs spend.\<close>

definition known_input :: "addr_env \<Rightarrow> TxIn \<Rightarrow> bool" where
  "known_input env txin \<longleftrightarrow>
     (case RawTransaction env (PrevHash txin) of
        None \<Rightarrow> False
      | Some raw \<Rightarrow> rt_Txid raw = hash_str env (PrevHash txin)
          \<and> (case rt_Tx raw of None \<Rightarrow> False | Some prevTx \<Rightarrow> PrevIndex txin < length (txOut prevTx)))"

definition known_inputs :: "addr_env \<Rightarrow> MsgTx \<Rightarrow> bool" where
  "known_inputs env tx \<longleftrightarrow> list_all (\<lambda>p. known_input env (snd p)) (promises tx)"

definition spent_by :: "addr_env \<Rightarrow> MsgTx \<Rightarrow> string \<Rightarrow> nat \<times> TxIn \<Rightarrow> PrevOut list" where
  "spent_by env tx addr p =
     (let prevTx = the (rt_Tx (the (RawTransaction env (PrevHash (snd p)))))
      in map (\<lambda>a. \<lparr>po_TxSpending = tx_hash env tx, po_InputIndex = fst p,
                 po_PreviousOutpoint = \<lparr>op_Hash = PrevHash (snd p), op_Index = PrevIndex (snd p), op_Tree = TxTree env prevTx\<rparr>,
                 po_CoinType = 0, po_SKAValue = []\<rparr>)
           (filter (\<lambda>a. addr = a) (ExtractAddrs env (txOut prevTx ! PrevIndex (snd p)))))"

lemma spend_prev_result:
  assumes "known_input env txin" and "RawTransaction env (PrevHash txin) = Some raw" and "rt_Tx raw = Some prevTx"
  obtains s' where "spend_prev env tx i txin raw prevTx s = Some s'"
    and "map bare (prevouts_of (ps_store s') addr) = map bare (prevouts_of (ps_store s) addr) @ spent_by env tx addr (i, txin)"
    and "outpoints_of (ps_store s') addr = outpoints_of (ps_store s) addr"
proof -
  let ?out = "txOut prevTx ! PrevIndex txin"
  let ?po = "\<lparr>po_TxSpending = tx_hash env tx, po_InputIndex = i,
     po_PreviousOutpoint = \<lparr>op_Hash = PrevHash txin, op_Index = PrevIndex txin, op_Tree = TxTree env prevTx\<rparr>,
     po_CoinType = txo_CoinType ?out, po_SKAValue = ska_string ?out\<rparr>"
  have idx: "\<not> length (txOut prevTx) \<le> PrevIndex txin" using assms by (simp add: known_input_def)
  define s1 where "s1 = (if txo_CoinType ?out = 0 then s\<lparr>ps_valsIn := (ps_valsIn s)[i := txo_Value ?out]\<rparr> else s)"
  have s1: "ps_store s1 = ps_store s" by (simp add: s1_def)
  have spent: "spent_by env tx addr (i, txin) = map (\<lambda>a. bare ?po) (filter (\<lambda>a. addr = a) (ExtractAddrs env ?out))"
    using assms by (simp add: spent_by_def bare_def Let_def)
  show thesis
  proof (cases "ExtractAddrs env ?out = []")
    case True
    then have "spend_prev env tx i txin raw prevTx s = Some s1" using idx by (simp add: spend_prev_def s1_def Let_def)
    then show thesis by (rule that) (simp_all add: s1 spent True)
  next
    case False
    obtain store addrs where pa: "prev_addrs ?po (ExtractAddrs env ?out) (ps_store s1, ps_addrs s1) = (store, addrs)" by fastforce
    then have st: "prevouts_of store addr = prevouts_of (ps_store s) addr @ map (\<lambda>a. ?po) (filter (\<lambda>a. addr = a) (ExtractAddrs env ?out))"
      "outpoints_of store addr = outpoints_of (ps_store s) addr"
      using prev_addrs_store [of ?po "ExtractAddrs env ?out" "(ps_store s1, ps_addrs s1)" addr] s1 by simp_all
    have "\<exists>s'. spend_prev env tx i txin raw prevTx s = Some s' \<and> ps_store s' = store"
      using idx False pa by (simp add: spend_prev_def Let_def flip: s1_def)
    then obtain s' where "spend_prev env tx i txin raw prevTx s = Some s'" "ps_store s' = store" by blast
    then show thesis by (intro that [of s']) (simp_all add: st spent)
  qed
qed

lemma prevs_loop_store:
  "list_all (\<lambda>p. known_input env (snd p)) ps \<Longrightarrow>
   \<exists>s'. prevs_loop env tx ps s = Some s'
     \<and> map bare (prevouts_of (ps_store s') addr) = map bare (prevouts_of (ps_store s) addr) @ concat (map (spent_by env tx addr) ps)
     \<and> outpoints_of (ps_store s') addr = outpoints_of (ps_store s) addr"
proof (induction ps arbitrary: s)
  case (Cons p ps)
  obtain i txin where p: "p = (i, txin)" by (cases p)
  have known: "known_input env txin" "list_all (\<lambda>p. known_input env (snd p)) ps" using Cons.prems p by simp_all
  obtain raw prevTx where raw: "RawTransaction env (PrevHash txin) = Some raw" "rt_Txid raw = hash_str env (PrevHash txin)" "rt_Tx raw = Some prevTx"
    using known(1) by (auto simp: known_input_def split: option.splits)
  obtain s1 where s1: "spend_prev env tx i txin raw prevTx s = Some s1"
    "map bare (prevouts_of (ps_store s1) addr) = map bare (prevouts_of (ps_store s) addr) @ spent_by env tx addr (i, txin)"
    "outpoints_of (ps_store s1) addr = outpoints_of (ps_store s) addr"
    using spend_prev_result [OF known(1) raw(1,3)] by metis
  from Cons.IH [OF known(2), of s1] show ?case using s1 raw p by auto
qed simp

lemma consumes_loop_result:
  "list_all (\<lambda>p. known_input env (snd p)) ps \<Longrightarrow>
   map_option fst (consumes_loop env tx addr ps P T) = Some (P @ concat (map (spent_by env tx addr) ps))"
proof (induction ps arbitrary: P T)
  case (Cons p ps)
  obtain i txin where p: "p = (i, txin)" by (cases p)
  have known: "known_input env txin" "list_all (\<lambda>p. known_input env (snd p)) ps" using Cons.prems p by simp_all
  obtain raw prevTx where raw: "RawTransaction env (PrevHash txin) = Some raw" "rt_Txid raw = hash_str env (PrevHash txin)" "rt_Tx raw = Some prevTx"
    "\<not> length (txOut prevTx) \<le> PrevIndex txin"
    using known(1) by (auto simp: known_input_def split: option.splits)
  have "\<exists>T'. consumes_loop env tx addr (p # ps) P T = consumes_loop env tx addr ps (P @ spent_by env tx addr p) T'"
    using raw p by (auto simp: spent_by_def map_replicate_const Let_def)
  then obtain T' where "consumes_loop env tx addr (p # ps) P T = consumes_loop env tx addr ps (P @ spent_by env tx addr p) T'" ..
  then show ?case using Cons.IH [OF known(2), of "P @ spent_by env tx addr p" T'] by simp
qed simp

text \<open>Building the index as the collector and the monitor do: the outputs, then the inputs of each transaction.\<close>

fun index_txs :: "addr_env \<Rightarrow> MsgTx list \<Rightarrow> addr_store \<times> txns_store \<Rightarrow> (addr_store \<times> txns_store) option" where
  "index_txs env [] st = Some st"
| "index_txs env (tx # txs) (store, txns) =
     (case TxPrevOutsByAddr env tx (fst (snd (TxOutpointsByAddr env tx store))) txns of
        None \<Rightarrow> None
      | Some s \<Rightarrow> index_txs env txs (ps_store s, ps_txns s))"

lemma index_txs_store:
  assumes "\<forall>tx \<in> set txs. known_inputs env tx"
  shows "\<exists>store txns'. index_txs env txs (store0, txns) = Some (store, txns')
    \<and> outpoints_of store addr = outpoints_of store0 addr @ concat (map (\<lambda>tx. TxPaysToAddress env tx addr) txs)
    \<and> map bare (prevouts_of store addr) = map bare (prevouts_of store0 addr)
        @ concat (map (\<lambda>tx. fst (the (TxConsumesOutpointWithAddress env tx addr))) txs)"
  using assms
proof (induction txs arbitrary: store0 txns)
  case (Cons tx txs)
  have known: "list_all (\<lambda>p. known_input env (snd p)) (promises tx)" using Cons.prems by (simp add: known_inputs_def)
  let ?store = "fst (snd (TxOutpointsByAddr env tx store0))"
  obtain s where s: "TxPrevOutsByAddr env tx ?store txns = Some s"
    "map bare (prevouts_of (ps_store s) addr) = map bare (prevouts_of ?store addr) @ concat (map (spent_by env tx addr) (promises tx))"
    "outpoints_of (ps_store s) addr = outpoints_of ?store addr"
    using prevs_loop_store [OF known, of tx _ addr] by (force simp: TxPrevOutsByAddr_def)
  have "fst (the (TxConsumesOutpointWithAddress env tx addr)) = concat (map (spent_by env tx addr) (promises tx))"
    using consumes_loop_result [OF known, of tx addr "[]" "[]"] by (auto simp: TxConsumesOutpointWithAddress_def)
  then show ?case
    using Cons.IH [of "ps_store s" "ps_txns s"] Cons.prems s TxOutpointsByAddr_store [of env tx store0 addr] by auto
qed simp

text \<open>C26. The address index of the mempool is the same as scanning it: for every address the indexed outpoints are those
  that \<open>TxPaysToAddress\<close> finds in the transactions, in order, and the indexed spent outpoints are those that
  \<open>TxConsumesOutpointWithAddress\<close> finds, up to the coin fields that only the index fills in. The index is always
  completed when the node knows the spent transactions.\<close>

theorem address_index_is_scan:
  assumes "\<forall>tx \<in> set txs. known_inputs env tx"
  shows "\<exists>store txns. index_txs env txs (Map.empty, Map.empty) = Some (store, txns)
    \<and> (\<forall>addr. outpoints_of store addr = concat (map (\<lambda>tx. TxPaysToAddress env tx addr) txs)
        \<and> map bare (prevouts_of store addr) = concat (map (\<lambda>tx. fst (the (TxConsumesOutpointWithAddress env tx addr))) txs))"
proof -
  obtain store txns where run: "index_txs env txs (Map.empty, Map.empty) = Some (store, txns)"
    using index_txs_store [OF assms, of Map.empty Map.empty] by blast
  show ?thesis
    using index_txs_store [OF assms, of Map.empty Map.empty] run by (auto simp: outpoints_of_def prevouts_of_def)
qed

definition pay_out :: "byte list \<Rightarrow> int \<Rightarrow> TxOut" where
  "pay_out script v = \<lparr>txo_Value = v, txo_CoinType = 0, txo_SKAValue = None, txo_PkScript = script\<rparr>"

definition first_tx :: MsgTx where
  "first_tx = \<lparr>txIn = [\<lparr>PrevHash = zeroHash, PrevIndex = 0, ValueIn = 0, SKAValueIn = None\<rparr>], txOut = [pay_out [1] 7]\<rparr>"

definition second_tx :: MsgTx where
  "second_tx = \<lparr>txIn = [\<lparr>PrevHash = [9], PrevIndex = 0, ValueIn = 0, SKAValueIn = None\<rparr>], txOut = [pay_out [2] 6]\<rparr>"

text \<open>Two transactions: the second spends the first, whose hash is \<open>[9]\<close>; a script of one byte is one address.\<close>

definition two_tx_env :: addr_env where
  "two_tx_env = \<lparr>tx_hash = (\<lambda>tx. if tx = first_tx then [9] else [8]), IsStakeTx = (\<lambda>_. False), TxTreeRegular = 0, TxTreeStake = 1,
     ExtractAddrs = (\<lambda>out. if txo_PkScript out = [1] then [''a''] else [''b'']),
     hash_str = (\<lambda>h. if h = [9] then ''nine'' else ''eight''),
     RawTransaction = (\<lambda>h. if h = [9] then Some \<lparr>rt_Txid = ''nine'', rt_Tx = Some first_tx, rt_BlockHeight = 0, rt_BlockHash = []\<rparr> else None)\<rparr>"

lemma two_tx_facts: "first_tx \<noteq> second_tx" "[9] \<noteq> zeroHash"
  "promises first_tx = []" "promises second_tx = [(0, \<lparr>PrevHash = [9], PrevIndex = 0, ValueIn = 0, SKAValueIn = None\<rparr>)]"
proof -
  show ne: "[9] \<noteq> zeroHash" by (simp add: zeroHash_def numeral_eq_Suc)
  show "first_tx \<noteq> second_tx" by (simp add: first_tx_def second_tx_def pay_out_def)
  show "promises first_tx = []" "promises second_tx = [(0, \<lparr>PrevHash = [9], PrevIndex = 0, ValueIn = 0, SKAValueIn = None\<rparr>)]"
    using ne by (simp_all add: promises_def first_tx_def second_tx_def)
qed

lemma two_tx_known: "\<forall>tx \<in> set [first_tx, second_tx]. known_inputs two_tx_env tx"
proof -
  have "length (txOut first_tx) = 1" by (simp add: first_tx_def)
  then show ?thesis by (simp add: known_inputs_def two_tx_facts known_input_def two_tx_env_def)
qed

theorem address_index_is_scan_witness:
  "\<exists>store txns. index_txs two_tx_env [first_tx, second_tx] (Map.empty, Map.empty) = Some (store, txns)
     \<and> outpoints_of store ''a'' = [\<lparr>op_Hash = [9], op_Index = 0, op_Tree = 0\<rparr>]"
proof -
  have "TxPaysToAddress two_tx_env first_tx ''a'' = [\<lparr>op_Hash = [9], op_Index = 0, op_Tree = 0\<rparr>]"
    "TxPaysToAddress two_tx_env second_tx ''a'' = []"
    by (simp_all add: TxPaysToAddress_def two_tx_env_def TxTree_def first_tx_def second_tx_def pay_out_def)
  then show ?thesis using address_index_is_scan [OF two_tx_known] by auto
qed

text \<open>A transaction of the mempool that is already stored with its time loses it when a transaction that spends it is
  indexed: the entry is replaced by one whose \<open>MemPoolTime\<close> is zero.\<close>

lemma parent_time_lost:
  assumes "promises tx = [(i, txin)]" and "RawTransaction env (PrevHash txin) = Some raw"
    and "rt_Txid raw = hash_str env (PrevHash txin)" and "rt_Tx raw = Some prevTx"
    and "PrevIndex txin < length (txOut prevTx)" and "ExtractAddrs env (txOut prevTx ! PrevIndex txin) \<noteq> []"
  shows "\<exists>s. TxPrevOutsByAddr env tx store txns = Some s \<and> map_option twb_MemPoolTime (ps_txns s (PrevHash txin)) = Some 0"
  using assms by (simp add: TxPrevOutsByAddr_def spend_prev_def Let_def split: prod.split)

section \<open>The unconfirmed transactions of an address\<close>

record unconfirmed =
  uc_Txns :: "hash \<rightharpoonup> TxWithBlockData option"
  uc_seen :: "byte \<Rightarrow> hash set"

definition outpoint_coin :: "txns_store \<Rightarrow> OutPoint \<Rightarrow> byte" where
  "outpoint_coin txns op =
     (case txns (op_Hash op) of
        None \<Rightarrow> 0
      | Some d \<Rightarrow>
          (case twb_CoinInfo d (op_Index op) of
             Some info \<Rightarrow> coi_CoinType info
           | None \<Rightarrow> if op_Index op < length (txOut (twb_Tx d)) then txo_CoinType (txOut (twb_Tx d) ! op_Index op) else 0))"

definition see :: "byte \<Rightarrow> hash \<Rightarrow> unconfirmed \<Rightarrow> unconfirmed" where
  "see ct h u = u\<lparr>uc_seen := (uc_seen u)(ct := insert h (uc_seen u ct))\<rparr>"

definition see_outpoint :: "txns_store \<Rightarrow> unconfirmed \<Rightarrow> OutPoint \<Rightarrow> unconfirmed" where
  "see_outpoint txns u op =
     (if uc_Txns u (op_Hash op) = None then
        (case txns (op_Hash op) of
           None \<Rightarrow> u
         | Some d \<Rightarrow> see (outpoint_coin txns op) (op_Hash op) (u\<lparr>uc_Txns := (uc_Txns u)(op_Hash op \<mapsto> Some d)\<rparr>))
      else see (outpoint_coin txns op) (op_Hash op) u)"

definition locate :: "txns_store \<Rightarrow> hash \<Rightarrow> unconfirmed \<Rightarrow> unconfirmed" where
  "locate txns h u = (if uc_Txns u h = None then u\<lparr>uc_Txns := (uc_Txns u)(h \<mapsto> txns h)\<rparr> else u)"

definition see_prevout :: "txns_store \<Rightarrow> unconfirmed \<Rightarrow> PrevOut \<Rightarrow> unconfirmed" where
  "see_prevout txns u po =
     see (po_CoinType po) (po_TxSpending po)
       (locate txns (op_Hash (po_PreviousOutpoint po)) (locate txns (po_TxSpending po) u))"

text \<open>The outpoints with their transactions and the number of unconfirmed transactions by coin; a nil store is an error.\<close>

definition UnconfirmedTxnsForAddress ::
  "txns_store \<Rightarrow> string \<Rightarrow> addr_store option \<Rightarrow> (AddressOutpoints \<times> (byte \<rightharpoonup> nat)) option" where
  "UnconfirmedTxnsForAddress txns address store =
     (case store of
        None \<Rightarrow> None
      | Some st \<Rightarrow>
          (case st address of
             None \<Rightarrow> Some (NewAddressOutpoints address, Map.empty)
           | Some outs \<Rightarrow>
               let u = foldl (see_prevout txns)
                         (foldl (see_outpoint txns) \<lparr>uc_Txns = ao_TxnsStore outs, uc_seen = (\<lambda>_. {})\<rparr> (ao_Outpoints outs)) (ao_PrevOuts outs)
               in Some (outs\<lparr>ao_TxnsStore := uc_Txns u\<rparr>,
                        (\<lambda>ct. if uc_seen u ct = {} then None else Some (card (uc_seen u ct))))))"

lemma see_outpoints_seen:
  "\<forall>op \<in> set ops. txns (op_Hash op) \<noteq> None \<Longrightarrow>
   uc_seen (foldl (see_outpoint txns) u ops) ct = uc_seen u ct \<union> {op_Hash op |op. op \<in> set ops \<and> outpoint_coin txns op = ct}"
proof (induction ops arbitrary: u)
  case (Cons op ops)
  obtain d where d: "txns (op_Hash op) = Some d" using Cons.prems by auto
  have "uc_seen (see_outpoint txns u op) ct = uc_seen u ct \<union> (if outpoint_coin txns op = ct then {op_Hash op} else {})"
    using d by (simp add: see_outpoint_def see_def)
  then show ?case using Cons.IH [of "see_outpoint txns u op"] Cons.prems by auto
qed simp

lemma see_prevouts_seen:
  "uc_seen (foldl (see_prevout txns) u pos) ct = uc_seen u ct \<union> {po_TxSpending po |po. po \<in> set pos \<and> po_CoinType po = ct}"
proof (induction pos arbitrary: u)
  case (Cons po pos)
  have "uc_seen (see_prevout txns u po) ct = uc_seen u ct \<union> (if po_CoinType po = ct then {po_TxSpending po} else {})"
    by (simp add: see_prevout_def see_def locate_def)
  then show ?case using Cons.IH [of "see_prevout txns u po"] by auto
qed simp

text \<open>The count of a coin is the number of distinct transactions that pay the address in that coin or spend an output that did.\<close>

lemma unconfirmed_counts:
  assumes "st address = Some outs" and "\<forall>op \<in> set (ao_Outpoints outs). txns (op_Hash op) \<noteq> None"
    and "UnconfirmedTxnsForAddress txns address (Some st) = Some (outs', num)"
  shows "num ct = (let hs = {op_Hash op |op. op \<in> set (ao_Outpoints outs) \<and> outpoint_coin txns op = ct}
      \<union> {po_TxSpending po |po. po \<in> set (ao_PrevOuts outs) \<and> po_CoinType po = ct}
    in if hs = {} then None else Some (card hs))"
  using assms see_outpoints_seen [OF assms(2)] by (auto simp: UnconfirmedTxnsForAddress_def see_prevouts_seen Let_def)

end
