(* ===== verification/TxHelpers.thy ===== *)
theory TxHelpers
  imports MempoolAddr SSFee
begin

text \<open>
  More of \<open>txhelpers/txhelpers.go\<close>: fees and fee rates, totals, searches in blocks, medians, vote bits and choices, and
  address validation. Sums of \<open>int64\<close> wrap. The packages of the node are parameters: \<open>isSKA\<close> for coin types,
  \<open>txsize\<close> for \<open>MsgTx.SerializeSize\<close>, the records \<open>vote_env\<close> and \<open>address_env\<close> for the stake and address packages.
\<close>

section \<open>Fees\<close>

definition amt_in :: "MsgTx \<Rightarrow> int" where
  "amt_in tx = foldl (\<lambda>s i. wrap64 (s + ValueIn i)) 0 (txIn tx)"

definition amt_out :: "MsgTx \<Rightarrow> int" where
  "amt_out tx = foldl (\<lambda>s out. wrap64 (s + txo_Value out)) 0 (txOut tx)"

definition TxFee :: "MsgTx \<Rightarrow> int" where
  "TxFee tx = wrap64 (amt_in tx - amt_out tx)"

definition FeeRate :: "int \<Rightarrow> int \<Rightarrow> int \<Rightarrow> int" where
  "FeeRate amtIn amtOut sizeBytes =
     (if sizeBytes = 0 then - 1 else go_div (wrap64 (1000 * wrap64 (amtIn - amtOut))) sizeBytes)"

definition TxFeeRate :: "(MsgTx \<Rightarrow> int) \<Rightarrow> MsgTx \<Rightarrow> int \<times> int" where
  "TxFeeRate txsize tx = (wrap64 (amt_in tx - amt_out tx), FeeRate (amt_in tx) (amt_out tx) (txsize tx))"

definition TotalOutFromMsgTx :: "MsgTx \<Rightarrow> int" where
  "TotalOutFromMsgTx tx = foldl (\<lambda>s out. if txo_CoinType out = 0 then wrap64 (s + txo_Value out) else s) 0 (txOut tx)"

text \<open>A map from coin types is the list of its entries.\<close>

definition ska_totals :: "(byte \<Rightarrow> bool) \<Rightarrow> TxOut list \<Rightarrow> (byte \<times> int) list" where
  "ska_totals isSKA outs =
     foldl (\<lambda>totals out.
       case txo_SKAValue out of
         None \<Rightarrow> totals
       | Some v \<Rightarrow>
           if isSKA (txo_CoinType out)
           then AList.update (txo_CoinType out) ((case map_of totals (txo_CoinType out) of None \<Rightarrow> 0 | Some t \<Rightarrow> t) + v) totals
           else totals) [] outs"

definition SKATotalsFromMsgTx :: "(byte \<Rightarrow> bool) \<Rightarrow> MsgTx \<Rightarrow> (byte \<times> string) list" where
  "SKATotalsFromMsgTx isSKA tx = map (\<lambda>(k, v). (k, show_int v)) (ska_totals isSKA (txOut tx))"

definition skaCoinTypeOf :: "(byte \<Rightarrow> bool) \<Rightarrow> MsgTx \<Rightarrow> byte option" where
  "skaCoinTypeOf isSKA tx = map_option txo_CoinType (find (\<lambda>out. isSKA (txo_CoinType out)) (txOut tx))"

definition SKAFeeRateMapFromAtoms ::
  "(byte \<Rightarrow> bool) \<Rightarrow> (MsgTx \<Rightarrow> int) \<Rightarrow> string \<Rightarrow> MsgTx \<Rightarrow> (byte \<times> string) option" where
  "SKAFeeRateMapFromAtoms isSKA txsize feeAtoms tx =
     (if feeAtoms = [] then None
      else case skaCoinTypeOf isSKA tx of
        None \<Rightarrow> None
      | Some ct \<Rightarrow>
          if txsize tx \<le> 0 then None
          else case parse_dec feeAtoms of
            None \<Rightarrow> None
          | Some fee \<Rightarrow> Some (ct, show_int (go_div ((if fee < 0 then 0 else fee) * 1000) (txsize tx))))"

definition ska_ins :: "string list \<Rightarrow> int" where
  "ska_ins vin = foldl (\<lambda>t s. if s = [] then t else case parse_dec s of None \<Rightarrow> t | Some v \<Rightarrow> t + v) 0 vin"

definition ska_outs :: "byte \<Rightarrow> TxOut list \<Rightarrow> int" where
  "ska_outs ct outs =
     foldl (\<lambda>t out. if txo_CoinType out = ct then (case txo_SKAValue out of None \<Rightarrow> t | Some v \<Rightarrow> t + v) else t) 0 outs"

definition SKAFeeRateMapFromVerboseVin ::
  "(byte \<Rightarrow> bool) \<Rightarrow> (MsgTx \<Rightarrow> int) \<Rightarrow> string list \<Rightarrow> MsgTx \<Rightarrow> (byte \<times> string) option" where
  "SKAFeeRateMapFromVerboseVin isSKA txsize vin tx =
     (case skaCoinTypeOf isSKA tx of
        None \<Rightarrow> None
      | Some ct \<Rightarrow> SKAFeeRateMapFromAtoms isSKA txsize (show_int (ska_ins vin - ska_outs ct (txOut tx))) tx)"

lemma ska_outs_step:
  "ska_outs ct (outs @ [out]) =
     ska_outs ct outs + (if txo_CoinType out = ct then (case txo_SKAValue out of None \<Rightarrow> 0 | Some v \<Rightarrow> v) else 0)"
  by (simp add: ska_outs_def split: option.split)

lemma ska_totals_value:
  "map_of (ska_totals isSKA outs) ct =
     (if isSKA ct \<and> (\<exists>out \<in> set outs. txo_CoinType out = ct \<and> txo_SKAValue out \<noteq> None) then Some (ska_outs ct outs) else None)"
proof (induction outs rule: rev_induct)
  case Nil
  show ?case by (simp add: ska_totals_def)
next
  case (snoc out outs)
  show ?case
  proof (cases "txo_SKAValue out")
    case None
    then show ?thesis using snoc by (simp add: ska_totals_def ska_outs_step)
  next
    case (Some v)
    have no_out: "ska_outs ct outs = 0" if "\<forall>out \<in> set outs. txo_CoinType out = ct \<longrightarrow> txo_SKAValue out = None"
      using that by (induction outs rule: rev_induct) (auto simp: ska_outs_step, auto simp: ska_outs_def)
    have step: "ska_totals isSKA (outs @ [out]) =
        (if isSKA (txo_CoinType out)
         then AList.update (txo_CoinType out) ((case map_of (ska_totals isSKA outs) (txo_CoinType out) of None \<Rightarrow> 0 | Some t \<Rightarrow> t) + v)
                (ska_totals isSKA outs)
         else ska_totals isSKA outs)"
      using Some by (simp add: ska_totals_def)
    show ?thesis
      using snoc Some no_out by (auto simp: step ska_outs_step update_conv')
  qed
qed

text \<open>C40. The fee rate of a transaction in an SKA coin, computed from the amounts of the verbose inputs, is the floor of
  the fee in atoms per 1000 bytes: with \<open>n\<close> bytes the rate \<open>r\<close> satisfies \<open>r n \<le> 1000 fee < (r + 1) n\<close>, where the
  fee is the inputs less the total that \<open>SKATotalsFromMsgTx\<close> shows for the coin, or zero when that is negative.\<close>

theorem ska_fee_rate:
  assumes "skaCoinTypeOf isSKA tx = Some ct" and "0 < txsize tx"
    and "\<forall>out \<in> set (txOut tx). isSKA (txo_CoinType out) \<longrightarrow> txo_SKAValue out \<noteq> None"
  shows "\<exists>total r. map_of (SKATotalsFromMsgTx isSKA tx) ct = Some (show_int total)
    \<and> SKAFeeRateMapFromVerboseVin isSKA txsize vin tx = Some (ct, show_int r)
    \<and> (let fee = max 0 (ska_ins vin - total) in r * txsize tx \<le> 1000 * fee \<and> 1000 * fee < (r + 1) * txsize tx)"
proof -
  obtain out where out: "out \<in> set (txOut tx)" "isSKA (txo_CoinType out)" "txo_CoinType out = ct"
    using assms(1) by (auto simp: skaCoinTypeOf_def find_Some_iff in_set_conv_nth)
  have "map_of (SKATotalsFromMsgTx isSKA tx) ct = map_option show_int (map_of (ska_totals isSKA (txOut tx)) ct)"
    by (simp add: SKATotalsFromMsgTx_def map_of_map)
  also have "\<dots> = Some (show_int (ska_outs ct (txOut tx)))"
    using out assms(3) by (auto simp: ska_totals_value)
  finally have total: "map_of (SKATotalsFromMsgTx isSKA tx) ct = Some (show_int (ska_outs ct (txOut tx)))" .
  define fee where "fee = max 0 (ska_ins vin - ska_outs ct (txOut tx))"
  have div: "go_div (fee * 1000) (txsize tx) = (fee * 1000) div txsize tx"
    using assms(2) by (intro go_div_nonneg) (simp_all add: fee_def)
  have "SKAFeeRateMapFromVerboseVin isSKA txsize vin tx = Some (ct, show_int ((fee * 1000) div txsize tx))"
    using assms(1,2) by (simp add: SKAFeeRateMapFromVerboseVin_def SKAFeeRateMapFromAtoms_def fee_def max_def flip: div)
  moreover have "(fee * 1000) div txsize tx * txsize tx \<le> 1000 * fee \<and> 1000 * fee < ((fee * 1000) div txsize tx + 1) * txsize tx"
    using floor_bounds [OF assms(2), of "fee * 1000"] by (simp add: mult.commute)
  ultimately show ?thesis using total by (auto simp: fee_def Let_def)
qed

theorem ska_fee_rate_witness:
  "\<exists>r. SKAFeeRateMapFromVerboseVin (\<lambda>c. c \<noteq> 0) (\<lambda>_. 300) [''1000'', ''25'']
      \<lparr>txIn = [], txOut = [\<lparr>txo_Value = 0, txo_CoinType = 1, txo_SKAValue = Some 700, txo_PkScript = []\<rparr>]\<rparr> = Some (1, show_int r)
    \<and> r * 300 \<le> 325000 \<and> 325000 < (r + 1) * 300"
proof -
  let ?tx = "\<lparr>txIn = [], txOut = [\<lparr>txo_Value = 0, txo_CoinType = 1, txo_SKAValue = Some 700, txo_PkScript = []\<rparr>]\<rparr>"
  have ins: "ska_ins [''1000'', ''25''] = 1025" by code_simp
  have t: "map_of (SKATotalsFromMsgTx (\<lambda>c. c \<noteq> 0) ?tx) 1 = Some (show_int 700)"
    by (simp add: SKATotalsFromMsgTx_def ska_totals_def)
  show ?thesis
    using ska_fee_rate [of "\<lambda>c. c \<noteq> 0" ?tx 1 "\<lambda>_. 300" "[''1000'', ''25'']"] ins t by (auto simp: skaCoinTypeOf_def Let_def)
qed

section \<open>Searches\<close>

definition HashInSlice :: "hash \<Rightarrow> hash list \<Rightarrow> bool" where
  "HashInSlice h hs = list_ex (\<lambda>hash. h = hash) hs"

text \<open>A \<open>dcrutil.Tx\<close> is a transaction with its position and its tree.\<close>

record block_tx =
  bt_Tx :: MsgTx
  bt_Index :: int
  bt_Tree :: int

definition TxhashInSlice :: "addr_env \<Rightarrow> block_tx list \<Rightarrow> hash \<Rightarrow> block_tx option" where
  "TxhashInSlice env txs h = find (\<lambda>minedTx. h = tx_hash env (bt_Tx minedTx)) txs"

record full_block =
  fb_Transactions :: "block_tx list"
  fb_STransactions :: "block_tx list"

definition IncludesStakeTx :: "addr_env \<Rightarrow> hash \<Rightarrow> full_block \<Rightarrow> int \<times> int" where
  "IncludesStakeTx env h bl =
     (case TxhashInSlice env (fb_STransactions bl) h of Some tx \<Rightarrow> (bt_Index tx, bt_Tree tx) | None \<Rightarrow> (- 1, - 1))"

definition IncludesTx :: "addr_env \<Rightarrow> hash \<Rightarrow> full_block \<Rightarrow> int \<times> int" where
  "IncludesTx env h bl =
     (case TxhashInSlice env (fb_Transactions bl) h of Some tx \<Rightarrow> (bt_Index tx, bt_Tree tx) | None \<Rightarrow> (- 1, - 1))"

text \<open>The filter writes into the array it reads; the written part never passes the read position.\<close>

fun filter_in_place :: "nat \<Rightarrow> nat \<Rightarrow> nat \<Rightarrow> ('a \<Rightarrow> bool) \<Rightarrow> 'a list \<Rightarrow> nat \<times> 'a list" where
  "filter_in_place 0 r w doRemove arr = (w, arr)"
| "filter_in_place (Suc fuel) r w doRemove arr =
     (let h = arr ! r
      in if doRemove h then filter_in_place fuel (Suc r) w doRemove arr
         else filter_in_place fuel (Suc r) (Suc w) doRemove (arr[w := h]))"

definition FilterHashSlice :: "hash list \<Rightarrow> (hash \<Rightarrow> bool) \<Rightarrow> hash list" where
  "FilterHashSlice s doRemove = (let (w, arr) = filter_in_place (length s) 0 0 doRemove s in take w arr)"

definition add_for_addr :: "string \<Rightarrow> 'a \<Rightarrow> (string \<Rightarrow> 'a list) \<Rightarrow> (string \<Rightarrow> 'a list)" where
  "add_for_addr addr tx m = m(addr := m addr @ [tx])"

text \<open>The watched addresses are the keys of a map; a missing entry of the result is the empty list.\<close>

fun receives_txs :: "addr_env \<Rightarrow> (string \<Rightarrow> bool) \<Rightarrow> MsgTx list \<Rightarrow> (string \<Rightarrow> MsgTx list) \<Rightarrow> (string \<Rightarrow> MsgTx list)" where
  "receives_txs env addrs [] m = m"
| "receives_txs env addrs (tx # txs) m =
     receives_txs env addrs txs
       (foldl (\<lambda>m out. foldl (\<lambda>m a. if addrs a then add_for_addr a tx m else m) m (ExtractAddrs env out)) m (txOut tx))"

definition BlockReceivesToAddresses :: "addr_env \<Rightarrow> full_block \<Rightarrow> (string \<Rightarrow> bool) \<Rightarrow> (string \<Rightarrow> MsgTx list)" where
  "BlockReceivesToAddresses env bl addrs =
     receives_txs env addrs (map bt_Tx (fb_STransactions bl)) (receives_txs env addrs (map bt_Tx (fb_Transactions bl)) (\<lambda>_. []))"

fun consumed_ins ::
  "addr_env \<Rightarrow> (hash \<Rightarrow> MsgTx option) \<Rightarrow> (string \<Rightarrow> bool) \<Rightarrow> TxIn list \<Rightarrow> (string \<Rightarrow> MsgTx list) \<Rightarrow> (string \<Rightarrow> MsgTx list)" where
  "consumed_ins env getTx addrs [] m = m"
| "consumed_ins env getTx addrs (i # ins) m =
     (if PrevHash i = zeroHash then consumed_ins env getTx addrs ins m
      else case getTx (PrevHash i) of
        None \<Rightarrow> consumed_ins env getTx addrs ins m
      | Some prevTx \<Rightarrow> consumed_ins env getTx addrs ins (receives_txs env addrs [prevTx] m))"

definition BlockConsumesOutpointWithAddresses ::
  "addr_env \<Rightarrow> (hash \<Rightarrow> MsgTx option) \<Rightarrow> full_block \<Rightarrow> (string \<Rightarrow> bool) \<Rightarrow> (string \<Rightarrow> MsgTx list)" where
  "BlockConsumesOutpointWithAddresses env getTx bl addrs =
     foldl (\<lambda>m tx. consumed_ins env getTx addrs (txIn (bt_Tx tx)) m) (\<lambda>_. []) (fb_Transactions bl @ fb_STransactions bl)"

record OutPointInfo =
  opi_Addresses :: "string list"
  opi_CoinType :: byte
  opi_Value :: int
  opi_ValueSKA :: "int option"

datatype outpoint_error = NoRawTransaction | IndexBeyond | InvalidHash

definition OutPointAddressesAll :: "addr_env \<Rightarrow> (hash \<Rightarrow> MsgTx option) \<Rightarrow> OutPoint \<Rightarrow> outpoint_error + OutPointInfo" where
  "OutPointAddressesAll env getTx op =
     (case getTx (op_Hash op) of
        None \<Rightarrow> Inl NoRawTransaction
      | Some prevTx \<Rightarrow>
          if length (txOut prevTx) \<le> op_Index op then Inl IndexBeyond
          else let out = txOut prevTx ! op_Index op
               in Inr \<lparr>opi_Addresses = ExtractAddrs env out, opi_CoinType = txo_CoinType out, opi_Value = txo_Value out,
                       opi_ValueSKA = txo_SKAValue out\<rparr>)"

definition OutPointAddresses :: "addr_env \<Rightarrow> (hash \<Rightarrow> MsgTx option) \<Rightarrow> OutPoint \<Rightarrow> outpoint_error + (string list \<times> int)" where
  "OutPointAddresses env getTx op =
     (case OutPointAddressesAll env getTx op of Inl e \<Rightarrow> Inl e | Inr info \<Rightarrow> Inr (opi_Addresses info, opi_Value info))"

definition OutPointAddressesFromString ::
  "addr_env \<Rightarrow> (hash \<Rightarrow> MsgTx option) \<Rightarrow> (string \<Rightarrow> hash option) \<Rightarrow> string \<Rightarrow> nat \<Rightarrow> int \<Rightarrow> outpoint_error + (string list \<times> int)" where
  "OutPointAddressesFromString env getTx newHash txid index tree =
     (case newHash txid of
        None \<Rightarrow> Inl InvalidHash
      | Some h \<Rightarrow> OutPointAddresses env getTx \<lparr>op_Hash = h, op_Index = index, op_Tree = tree\<rparr>)"

lemma filter_in_place_result:
  assumes "w \<le> r" and "r + n = length arr"
  shows "let (w', arr') = filter_in_place n r w doRemove arr
         in take w' arr' = take w arr @ filter (\<lambda>h. \<not> doRemove h) (drop r arr)"
  using assms
proof (induction n arbitrary: r w arr)
  case (Suc n)
  have r: "r < length arr" using Suc.prems by simp
  then have drop: "drop r arr = arr ! r # drop (Suc r) arr" by (simp add: Cons_nth_drop_Suc)
  show ?case
  proof (cases "doRemove (arr ! r)")
    case True
    then show ?thesis using Suc.IH [of w "Suc r" arr] Suc.prems drop by (simp add: Let_def)
  next
    case False
    have "take (Suc w) (arr[w := arr ! r]) = take w arr @ [arr ! r]"
      using Suc.prems by (simp add: take_Suc_conv_app_nth)
    moreover have "drop (Suc r) (arr[w := arr ! r]) = drop (Suc r) arr" using Suc.prems by simp
    ultimately show ?thesis
      using Suc.IH [of "Suc w" "Suc r" "arr[w := arr ! r]"] Suc.prems drop False by (simp add: Let_def)
  qed
qed simp

text \<open>The filter that reuses the array of its argument is the filter of lists.\<close>

lemma FilterHashSlice_filter: "FilterHashSlice s doRemove = filter (\<lambda>h. \<not> doRemove h) s"
  using filter_in_place_result [of 0 0 "length s" s doRemove] by (simp add: FilterHashSlice_def Let_def split: prod.splits)

lemma receives_addrs:
  "foldl (\<lambda>m a. if addrs a then add_for_addr a tx m else m) m as addr
     = m addr @ (if addrs addr then replicate (count_list as addr) tx else [])"
  by (induction as arbitrary: m) (auto simp: add_for_addr_def replicate_append_same)

lemma pays_loop_count:
  "length (pays_loop env tx addr i outs) = sum_list (map (\<lambda>out. count_list (ExtractAddrs env out) addr) outs)"
proof -
  have "length (filter (\<lambda>a. addr = a) as) = count_list as addr" for as by (induction as) auto
  then show ?thesis by (induction outs arbitrary: i) simp_all
qed

lemma receives_outs:
  "foldl (\<lambda>m out. foldl (\<lambda>m a. if addrs a then add_for_addr a tx m else m) m (ExtractAddrs env out)) m outs addr
     = m addr @ (if addrs addr then replicate (sum_list (map (\<lambda>out. count_list (ExtractAddrs env out) addr) outs)) tx else [])"
  by (induction outs arbitrary: m) (simp_all add: receives_addrs replicate_add)

lemma receives_txs_result:
  "receives_txs env addrs txs m addr
     = m addr @ (if addrs addr then concat (map (\<lambda>tx. replicate (length (TxPaysToAddress env tx addr)) tx) txs) else [])"
  by (induction txs arbitrary: m) (simp_all add: receives_outs TxPaysToAddress_def pays_loop_count)

text \<open>The transactions of a block that pay to a watched address are those for which \<open>TxPaysToAddress\<close> finds outpoints,
  once for each outpoint, the regular before the stake transactions.\<close>

lemma BlockReceivesToAddresses_result:
  "BlockReceivesToAddresses env bl addrs addr
     = (if addrs addr
        then concat (map (\<lambda>tx. replicate (length (TxPaysToAddress env (bt_Tx tx) addr)) (bt_Tx tx)) (fb_Transactions bl @ fb_STransactions bl))
        else [])"
  by (simp add: BlockReceivesToAddresses_def receives_txs_result comp_def)

text \<open>A transaction is reported as consumed for an address that another of its outputs pays.\<close>

lemma consumes_other_output:
  assumes "txIn tx = [i]" and "PrevHash i \<noteq> zeroHash" and "getTx (PrevHash i) = Some prevTx" and "txOut prevTx = [o0, o1]"
    and "PrevIndex i = 0" and "ExtractAddrs env o0 = [''a'']" and "ExtractAddrs env o1 = [''b'']"
  shows "BlockConsumesOutpointWithAddresses env getTx \<lparr>fb_Transactions = [\<lparr>bt_Tx = tx, bt_Index = 0, bt_Tree = 0\<rparr>], fb_STransactions = []\<rparr>
    (\<lambda>a. a = ''b'') ''b'' = [prevTx]"
  using assms by (simp add: BlockConsumesOutpointWithAddresses_def add_for_addr_def)

section \<open>Medians\<close>

definition MedianAmount :: "int list \<Rightarrow> int" where
  "MedianAmount s =
     (if s = [] then 0
      else let s = sort s; middle = length s div 2
           in if length s mod 2 \<noteq> 0 then s ! middle else go_div (wrap64 (s ! middle + s ! (middle - 1))) 2)"

text \<open>For amounts whose sums do not overflow, at least half of the amounts are at most the median's upper neighbour and at
  least half are at least its lower one.\<close>

lemma MedianAmount_between:
  assumes "s \<noteq> []" and "\<forall>a \<in> set s. 0 \<le> a \<and> a < 2 ^ 62"
  shows "sort s ! ((length s - 1) div 2) \<le> MedianAmount s \<and> MedianAmount s \<le> sort s ! (length s div 2)"
proof (cases "odd (length s)")
  case True
  then have "(length s - 1) div 2 = length s div 2" by presburger
  then show ?thesis using assms(1) True by (simp add: MedianAmount_def Let_def odd_iff_mod_2_eq_one)
next
  case False
  let ?t = "sort s" and ?m = "length s div 2"
  have m: "?m < length s" "?m - 1 < length s" "(length s - 1) div 2 = ?m - 1"
    using assms(1) False by (cases s; simp; presburger)+
  have bounds: "0 \<le> ?t ! ?m \<and> ?t ! ?m < 2 ^ 62" "0 \<le> ?t ! (?m - 1) \<and> ?t ! (?m - 1) < 2 ^ 62"
    using m assms(2) nth_mem [of ?m ?t] nth_mem [of "?m - 1" ?t] by simp_all
  have le: "?t ! (?m - 1) \<le> ?t ! ?m" using m sorted_nth_mono [of ?t "?m - 1" ?m] by simp
  have "MedianAmount s = (?t ! ?m + ?t ! (?m - 1)) div 2"
    using assms(1) False bounds by (simp add: MedianAmount_def Let_def even_iff_mod_2_eq_zero)
  moreover have "a \<le> (b + a) div 2 \<and> (b + a) div 2 \<le> b" if "a \<le> b" for a b :: int using that by linarith
  ultimately show ?thesis using le unfolding m(3) by simp
qed

section \<open>Votes\<close>

definition le_decode :: "byte list \<Rightarrow> nat" where
  "le_decode bs = be_decode (rev bs)"

datatype vote_error = NotSSGen | VersionAbsent | NotVote

definition SSGenVoteBits :: "MsgTx \<Rightarrow> vote_error + nat" where
  "SSGenVoteBits tx =
     (if length (txOut tx) < 2 then Inl NotSSGen
      else let pkScript = txo_PkScript (txOut tx ! 1)
           in if length pkScript < 8 then Inl VersionAbsent else Inr (le_decode (take 2 (drop 2 pkScript))))"

definition VoteVersion :: "nat \<Rightarrow> byte list \<Rightarrow> nat" where
  "VoteVersion absentVersion pkScript = (if length pkScript < 8 then absentVersion else le_decode (take 4 (drop 4 pkScript)))"

record ('c) vote_agenda =
  va_Id :: string
  va_Description :: string
  va_Mask :: nat
  va_VoteIndex :: "nat \<Rightarrow> int"
  va_Choices :: "'c list"

record 'c vote_env =
  CheckSSGenVotes :: "MsgTx \<Rightarrow> (hash \<times> byte) list option"
  voteBitsOf :: "MsgTx \<Rightarrow> nat"
  SSGenBlockVotedOn :: "MsgTx \<Rightarrow> hash \<times> nat"
  isBlockValidBit :: "nat \<Rightarrow> bool"
  SSGenVersion :: "MsgTx \<Rightarrow> nat"
  Deployments :: "nat \<Rightarrow> 'c vote_agenda list"

record block_validation =
  val_Hash :: hash
  val_Height :: int
  val_Validity :: bool

definition SSGenVoteBlockValid :: "'c vote_env \<Rightarrow> MsgTx \<Rightarrow> vote_error + (block_validation \<times> (hash \<times> byte) list \<times> nat)" where
  "SSGenVoteBlockValid ve tx =
     (case CheckSSGenVotes ve tx of
        None \<Rightarrow> Inl NotVote
      | Some treasuryVotes \<Rightarrow>
          let bits = voteBitsOf ve tx; (blockHash, blockHeight) = SSGenBlockVotedOn ve tx
          in Inr (\<lparr>val_Hash = blockHash, val_Height = int blockHeight, val_Validity = isBlockValidBit ve bits\<rparr>, treasuryVotes, bits))"

definition VoteBitsInBlock :: "'c vote_env \<Rightarrow> (MsgTx \<Rightarrow> bool) \<Rightarrow> Block \<Rightarrow> (nat \<times> nat) list" where
  "VoteBitsInBlock ve isSSGen bl = map (\<lambda>stx. (SSGenVersion ve stx, voteBitsOf ve stx)) (filter isSSGen bl)"

record 'c VoteChoice =
  vc_ID :: string
  vc_Description :: string
  vc_Mask :: nat
  vc_VoteVersion :: nat
  vc_VoteIndex :: nat
  vc_ChoiceIdx :: int
  vc_Choice :: 'c

fun choices_loop :: "nat \<Rightarrow> nat \<Rightarrow> nat \<Rightarrow> 'c vote_agenda list \<Rightarrow> 'c VoteChoice list \<Rightarrow> 'c VoteChoice list" where
  "choices_loop version bits d [] acc = acc"
| "choices_loop version bits d (a # rest) acc =
     (let choiceIndex = va_VoteIndex a bits
      in if choiceIndex < 0 \<or> choiceIndex \<ge> int (length (va_Choices a)) then choices_loop version bits (Suc d) rest acc
         else choices_loop version bits (Suc d) rest
                (acc @ [\<lparr>vc_ID = va_Id a, vc_Description = va_Description a, vc_Mask = va_Mask a, vc_VoteVersion = version, vc_VoteIndex = d,
                         vc_ChoiceIdx = choiceIndex, vc_Choice = va_Choices a ! nat choiceIndex\<rparr>]))"

definition SSGenVoteChoices ::
  "'c vote_env \<Rightarrow> MsgTx \<Rightarrow> vote_error + (block_validation \<times> nat \<times> nat \<times> 'c VoteChoice list \<times> (hash \<times> byte) list)" where
  "SSGenVoteChoices ve tx =
     (case SSGenVoteBlockValid ve tx of
        Inl e \<Rightarrow> Inl e
      | Inr (validBlock, tspendVotes, bits) \<Rightarrow>
          let version = SSGenVersion ve tx
          in Inr (validBlock, version, bits, choices_loop version bits 0 (Deployments ve version) [], tspendVotes))"

definition refers_to :: "'c vote_agenda list \<Rightarrow> nat \<Rightarrow> 'c VoteChoice \<Rightarrow> bool" where
  "refers_to ds bits c \<longleftrightarrow> vc_VoteIndex c < length ds
     \<and> (let a = ds ! vc_VoteIndex c
        in vc_ID c = va_Id a \<and> vc_ChoiceIdx c = va_VoteIndex a bits \<and> 0 \<le> vc_ChoiceIdx c \<and> vc_ChoiceIdx c < int (length (va_Choices a))
           \<and> vc_Choice c = va_Choices a ! nat (vc_ChoiceIdx c))"

lemma choices_loop_refers:
  assumes "list_all (refers_to ds bits) acc" and "drop d ds = rest" and "d + length rest = length ds"
    and "sorted_wrt (<) (map vc_VoteIndex acc)" and "\<forall>c \<in> set acc. vc_VoteIndex c < d"
  shows "list_all (refers_to ds bits) (choices_loop version bits d rest acc)
    \<and> sorted_wrt (<) (map vc_VoteIndex (choices_loop version bits d rest acc))"
  using assms
proof (induction rest arbitrary: d acc)
  case (Cons a rest)
  have a: "ds ! d = a" "d < length ds" "drop (Suc d) ds = rest"
    using Cons.prems(2,3) nth_via_drop [of d ds] by (simp_all add: drop_Suc flip: tl_drop)
  show ?case
  proof (cases "va_VoteIndex a bits < 0 \<or> va_VoteIndex a bits \<ge> int (length (va_Choices a))")
    case True
    then show ?thesis using Cons.IH [of acc "Suc d"] Cons.prems a by (auto simp: less_Suc_eq)
  next
    case False
    let ?c = "\<lparr>vc_ID = va_Id a, vc_Description = va_Description a, vc_Mask = va_Mask a, vc_VoteVersion = version, vc_VoteIndex = d,
      vc_ChoiceIdx = va_VoteIndex a bits, vc_Choice = va_Choices a ! nat (va_VoteIndex a bits)\<rparr>"
    have "refers_to ds bits ?c" using False a by (simp add: refers_to_def)
    then show ?thesis
      using Cons.IH [of "acc @ [?c]" "Suc d"] Cons.prems a False
      by (auto simp: less_Suc_eq sorted_wrt_append Let_def)
  qed
qed simp

text \<open>The choices of a vote are those of deployments of its version, in the order of the deployments, each an entry of
  the agenda's list of choices: no index is out of range.\<close>

lemma SSGenVoteChoices_refer:
  assumes "SSGenVoteChoices ve tx = Inr (valid, version, bits, choices, tspends)"
  shows "list_all (refers_to (Deployments ve version) bits) choices \<and> sorted_wrt (<) (map vc_VoteIndex choices)"
proof -
  have "choices = choices_loop version bits 0 (Deployments ve version) []"
    using assms by (auto simp: SSGenVoteChoices_def Let_def split: sum.splits)
  then show ?thesis using choices_loop_refers [of "Deployments ve version" bits "[]" 0 "Deployments ve version" version] by simp
qed

section \<open>Addresses\<close>

datatype AddressType = AddressTypeP2PK | AddressTypeP2PKH | AddressTypeP2SH | AddressTypeOther | AddressTypeUnknown

fun AddressType_String :: "AddressType \<Rightarrow> string" where
  "AddressType_String AddressTypeP2PK = ''pubkey''"
| "AddressType_String AddressTypeP2PKH = ''pubkeyhash''"
| "AddressType_String AddressTypeOther = ''pubkeyhashalt''"
| "AddressType_String AddressTypeP2SH = ''scripthash''"
| "AddressType_String AddressTypeUnknown = ''unknown''"

datatype AddressError = AddressErrorNoError | AddressErrorZeroAddress | AddressErrorDecodeFailed

record 'a address_env =
  DecodeAddress :: "string \<Rightarrow> 'a option"
  CheckDecodeNetID :: "string \<Rightarrow> byte list"
  NewAddressPKH :: "byte list \<Rightarrow> string option"
  PubKeyAddrID :: "byte list"
  PubKeyHashAddrID :: "byte list"
  ScriptHashAddrID :: "byte list"
  PKHEdwardsAddrID :: "byte list"
  PKHSchnorrAddrID :: "byte list"

definition IsZeroHashP2PHKAddress :: "'a address_env \<Rightarrow> string \<Rightarrow> bool" where
  "IsZeroHashP2PHKAddress ae s = (case NewAddressPKH ae (replicate 20 0) of None \<Rightarrow> False | Some zeroAddress \<Rightarrow> s = zeroAddress)"

definition AddressValidation :: "'a address_env \<Rightarrow> string \<Rightarrow> 'a option \<times> AddressType \<times> AddressError" where
  "AddressValidation ae address =
     (case DecodeAddress ae address of
        None \<Rightarrow> (None, AddressTypeUnknown, AddressErrorDecodeFailed)
      | Some addr \<Rightarrow>
          let netID = CheckDecodeNetID ae address;
              addrType = (if netID = PubKeyAddrID ae then AddressTypeP2PK
                          else if netID = PubKeyHashAddrID ae then AddressTypeP2PKH
                          else if netID = ScriptHashAddrID ae then AddressTypeP2SH
                          else if netID = PKHEdwardsAddrID ae \<or> netID = PKHSchnorrAddrID ae then AddressTypeOther
                          else AddressTypeUnknown)
          in (Some addr, addrType, if IsZeroHashP2PHKAddress ae address then AddressErrorZeroAddress else AddressErrorNoError))"

text \<open>The address is missing exactly with the error that decoding failed.\<close>

lemma AddressValidation_address:
  "fst (AddressValidation ae s) = None \<longleftrightarrow> snd (snd (AddressValidation ae s)) = AddressErrorDecodeFailed"
  by (simp add: AddressValidation_def Let_def split: option.split)

end
