(* ===== verification/MempoolInv.thy ===== *)
theory MempoolInv
  imports MempoolVotes TxHelpers "HOL-Library.Product_Lexorder"
begin

text \<open>
  The inventory of the mempool: \<open>ParseTxns\<close> of \<open>mempool/collector.go\<close>, which builds it from the whole mempool, and the
  update of \<open>TxHandler\<close> in \<open>mempool/monitor.go\<close>, which adds one transaction. The floating-point type and its
  operations are a parameter, \<open>money\<close>: conversions between coins and atoms, addition, the product with \<open>1e8\<close>, and
  the text of a size. Pointers to \<open>VoteInfo\<close> are shared by all copies of a transaction, so that a
  transaction is put into the lists with the information it has in the end. \<open>sort.Sort\<close> leaves the order of
  equal elements open; the model takes the stable order. \<open>None\<close> is a nil dereference.
\<close>

section \<open>Data\<close>

record 'f money =
  toCoin :: "int \<Rightarrow> 'f"
  newAmount :: "'f \<Rightarrow> int"
  fadd :: "'f \<Rightarrow> 'f \<Rightarrow> 'f"
  atomsOf :: "'f \<Rightarrow> int"
  bytesStr :: "32 word \<Rightarrow> string"

record MempoolBlockID =
  bid_Hash :: string
  bid_Height :: int
  bid_Time :: int

record 'f LikelyMineable =
  lm_Total :: 'f
  lm_Size :: "32 word"
  lm_FormattedSize :: string
  lm_RegularTotal :: 'f
  lm_TicketTotal :: 'f
  lm_VoteTotal :: 'f
  lm_RevokeTotal :: 'f
  lm_TAddTotal :: 'f
  lm_Count :: nat

record 'f MempoolShort =
  LastBlockHeight :: int
  LastBlockHash :: string
  LastBlockTime :: int
  ms_Time :: int
  TotalOut :: 'f
  TotalSize :: "32 word"
  NumTickets :: nat
  NumVotes :: nat
  NumRegular :: nat
  NumRevokes :: nat
  NumTSpends :: nat
  NumTAdds :: nat
  NumAll :: nat
  ms_LikelyMineable :: "'f LikelyMineable"
  LatestTransactions :: "'f MempoolTx list"
  FormattedTotalSize :: string
  TicketIndexes :: BlockValidatorIndex
  ms_VotingInfo :: VotingInfo
  InvRegular :: "string set"
  InvStake :: "string set"
  CoinStats :: coin_stats

record 'f MempoolInfo =
  Short :: "'f MempoolShort"
  Transactions :: "'f MempoolTx list"
  Tickets :: "'f MempoolTx list"
  Votes :: "'f MempoolTx list"
  Revocations :: "'f MempoolTx list"
  TSpends :: "'f MempoolTx list"
  TAdds :: "'f MempoolTx list"
  Ident :: "64 word"

definition NumLatestMempoolTxns :: nat where
  "NumLatestMempoolTxns = 5"

section \<open>The whole mempool\<close>

record 'f parse_state =
  pt_txs :: "'f MempoolTx list"
  pt_tickets :: "'f MempoolTx list"
  pt_votes :: "'f MempoolTx list"
  pt_revs :: "'f MempoolTx list"
  pt_regular :: "'f MempoolTx list"
  pt_tadds :: "'f MempoolTx list"
  pt_tspends :: "'f MempoolTx list"
  pt_invRegular :: "string set"
  pt_invStake :: "string set"
  pt_votingInfo :: VotingInfo
  pt_latestTime :: int
  pt_totalOut :: int
  pt_regularTotal :: int
  pt_ticketTotal :: int
  pt_voteTotal :: int
  pt_revTotal :: int
  pt_taddTotal :: int
  pt_tspendTotal :: int
  pt_likelyTotal :: int
  pt_totalSize :: "32 word"
  pt_likelySize :: "32 word"
  pt_numLikely :: nat
  pt_inds :: BlockValidatorIndex

definition parse_init :: "16 word \<Rightarrow> 'f parse_state" where
  "parse_init ticketsPerBlock =
     \<lparr>pt_txs = [], pt_tickets = [], pt_votes = [], pt_revs = [], pt_regular = [], pt_tadds = [], pt_tspends = [],
      pt_invRegular = {}, pt_invStake = {}, pt_votingInfo = NewVotingInfo ticketsPerBlock, pt_latestTime = 0, pt_totalOut = 0,
      pt_regularTotal = 0, pt_ticketTotal = 0, pt_voteTotal = 0, pt_revTotal = 0, pt_taddTotal = 0, pt_tspendTotal = 0,
      pt_likelyTotal = 0, pt_totalSize = 0, pt_likelySize = 0, pt_numLikely = 0, pt_inds = Map.empty\<rparr>"

text \<open>The totals at the end of the loop body; \<open>tx\<close> is the transaction with its vote information set.\<close>

definition parse_totals :: "bool \<Rightarrow> int \<Rightarrow> 'f MempoolTx \<Rightarrow> 'f parse_state \<Rightarrow> 'f parse_state" where
  "parse_totals likely out tx s =
     (let s1 = (if likely
                then s\<lparr>pt_likelyTotal := wrap64 (pt_likelyTotal s + out), pt_likelySize := pt_likelySize s + mt_Size tx,
                       pt_numLikely := pt_numLikely s + 1\<rparr>
                else s)
      in s1\<lparr>pt_txs := pt_txs s1 @ [tx], pt_totalOut := wrap64 (pt_totalOut s1 + out), pt_totalSize := pt_totalSize s1 + mt_Size tx,
            pt_latestTime := (if pt_latestTime s1 < mt_Time tx then mt_Time tx else pt_latestTime s1)\<rparr>)"

definition skip_tx :: "'f MempoolTx \<Rightarrow> 'f parse_state \<Rightarrow> 'f parse_state" where
  "skip_tx tx s = s\<lparr>pt_txs := pt_txs s @ [tx]\<rparr>"

definition count_vote :: "VoteInfo \<Rightarrow> VotingInfo \<Rightarrow> VotingInfo option" where
  "count_vote v vi =
     Tally v (vi\<lparr>VotedTickets := (VotedTickets vi)(vi_TicketSpent v := True), TicketsVoted := TicketsVoted vi + 1\<rparr>)"

definition parse_vote :: "string \<Rightarrow> int \<Rightarrow> 'f MempoolTx \<Rightarrow> 'f parse_state \<Rightarrow> 'f parse_state option" where
  "parse_vote blockhash out tx s0 =
     (let s = s0\<lparr>pt_invStake := insert (mt_TxID tx) (pt_invStake s0)\<rparr>
      in case mt_VoteInfo tx of
           None \<Rightarrow> Some (skip_tx tx (s\<lparr>pt_votes := pt_votes s @ [tx]\<rparr>))
         | Some v0 \<Rightarrow>
             let (v1, inds) = SetTicketIndex v0 (pt_inds s);
                 v = v1\<lparr>vi_ForLastBlock := VotesOnBlock v1 blockhash\<rparr>;
                 tx1 = tx\<lparr>mt_VoteInfo := Some v\<rparr>;
                 s1 = s\<lparr>pt_votes := pt_votes s @ [tx1], pt_inds := inds\<rparr>
             in if vi_ForLastBlock v \<and> \<not> VotedTickets (pt_votingInfo s1) (vi_TicketSpent v) then
                  (case count_vote v (pt_votingInfo s1) of
                     None \<Rightarrow> None
                   | Some vi \<Rightarrow>
                       Some (parse_totals True out tx1 (s1\<lparr>pt_voteTotal := wrap64 (pt_voteTotal s1 + out), pt_votingInfo := vi\<rparr>)))
                else Some (parse_totals False out tx1 s1))"

fun parse_tx :: "'f money \<Rightarrow> string \<Rightarrow> 'f MempoolTx \<Rightarrow> 'f parse_state \<Rightarrow> 'f parse_state option" where
  "parse_tx m blockhash tx s =
     (let out = newAmount m (mt_TotalOut tx); h = mt_TxID tx; s1 = s\<lparr>pt_invStake := insert h (pt_invStake s)\<rparr>
      in case mt_TypeID tx of
           TxTypeSStx \<Rightarrow>
             if h \<in> pt_invStake s then Some (skip_tx tx s)
             else Some (parse_totals True out tx
                    (s1\<lparr>pt_ticketTotal := wrap64 (pt_ticketTotal s + out), pt_tickets := pt_tickets s @ [tx]\<rparr>))
         | TxTypeSSGen \<Rightarrow> if h \<in> pt_invStake s then Some (skip_tx tx s) else parse_vote blockhash out tx s
         | TxTypeSSRtx \<Rightarrow>
             if h \<in> pt_invStake s then Some (skip_tx tx s)
             else Some (parse_totals True out tx (s1\<lparr>pt_revTotal := wrap64 (pt_revTotal s + out), pt_revs := pt_revs s @ [tx]\<rparr>))
         | TxTypeTSpend \<Rightarrow>
             if h \<in> pt_invStake s then Some (skip_tx tx s)
             else Some (parse_totals True out tx
                    (s1\<lparr>pt_tspendTotal := wrap64 (pt_tspendTotal s + out), pt_tspends := pt_tspends s @ [tx]\<rparr>))
         | TxTypeTAdd \<Rightarrow>
             if h \<in> pt_invStake s then Some (skip_tx tx s)
             else Some (parse_totals True out tx (s1\<lparr>pt_taddTotal := wrap64 (pt_taddTotal s + out), pt_tadds := pt_tadds s @ [tx]\<rparr>))
         | TxTypeTreasuryBase \<Rightarrow>
             if h \<in> pt_invStake s then Some (skip_tx tx s) else Some (parse_totals True out tx s1)
         | _ \<Rightarrow>
             if h \<in> pt_invRegular s then Some (skip_tx tx s)
             else Some (parse_totals True out tx
                    (s\<lparr>pt_regularTotal := wrap64 (pt_regularTotal s + out), pt_invRegular := insert h (pt_invRegular s),
                       pt_regular := pt_regular s @ [tx]\<rparr>)))"

fun parse_loop :: "'f money \<Rightarrow> string \<Rightarrow> 'f MempoolTx list \<Rightarrow> 'f parse_state \<Rightarrow> 'f parse_state option" where
  "parse_loop m blockhash [] s = Some s"
| "parse_loop m blockhash (tx # txs) s =
     (case parse_tx m blockhash tx s of None \<Rightarrow> None | Some s1 \<Rightarrow> parse_loop m blockhash txs s1)"

definition by_time :: "'f MempoolTx list \<Rightarrow> 'f MempoolTx list" where
  "by_time txs = sort_key (\<lambda>tx. - mt_Time tx) txs"

definition by_height :: "'f MempoolTx list \<Rightarrow> 'f MempoolTx list option" where
  "by_height votes =
     (if length votes \<ge> 2 \<and> list_ex (\<lambda>tx. mt_VoteInfo tx = None) votes then None
      else Some (sort_key (\<lambda>tx. (- bv_Height (vi_Validation (the (mt_VoteInfo tx))), vi_MempoolTicketIndex (the (mt_VoteInfo tx)))) votes))"

definition parse_info :: "'f money \<Rightarrow> MempoolBlockID \<Rightarrow> 'f MempoolTx list \<Rightarrow> 'f parse_state \<Rightarrow> 'f MempoolInfo" where
  "parse_info m lastBlock votes s =
     \<lparr>Short =
        \<lparr>LastBlockHeight = bid_Height lastBlock, LastBlockHash = bid_Hash lastBlock, LastBlockTime = bid_Time lastBlock,
         ms_Time = pt_latestTime s, TotalOut = toCoin m (pt_totalOut s), TotalSize = pt_totalSize s,
         NumTickets = length (pt_tickets s), NumVotes = length votes, NumRegular = length (pt_regular s),
         NumRevokes = length (pt_revs s), NumTSpends = length (pt_tspends s), NumTAdds = length (pt_tadds s), NumAll = length (pt_txs s),
         ms_LikelyMineable =
           \<lparr>lm_Total = toCoin m (pt_likelyTotal s), lm_Size = pt_likelySize s, lm_FormattedSize = bytesStr m (pt_likelySize s),
            lm_RegularTotal = toCoin m (pt_regularTotal s), lm_TicketTotal = toCoin m (pt_ticketTotal s),
            lm_VoteTotal = toCoin m (pt_voteTotal s), lm_RevokeTotal = toCoin m (pt_revTotal s), lm_TAddTotal = toCoin m (pt_taddTotal s),
            lm_Count = pt_numLikely s\<rparr>,
         LatestTransactions = take NumLatestMempoolTxns (pt_txs s), FormattedTotalSize = bytesStr m (pt_totalSize s),
         TicketIndexes = pt_inds s, ms_VotingInfo = pt_votingInfo s, InvRegular = pt_invRegular s, InvStake = pt_invStake s,
         CoinStats = coinStats (atomsOf m) (pt_txs s)\<rparr>,
      Transactions = pt_regular s, Tickets = pt_tickets s, Votes = votes, Revocations = pt_revs s, TSpends = pt_tspends s,
      TAdds = pt_tadds s, Ident = 0\<rparr>"

definition ParseTxns :: "'f money \<Rightarrow> 16 word \<Rightarrow> MempoolBlockID \<Rightarrow> 'f MempoolTx list \<Rightarrow> 'f MempoolInfo option" where
  "ParseTxns m ticketsPerBlock lastBlock txs0 =
     (let txs = (if sorted_wrt (\<lambda>a b. mt_Time a \<ge> mt_Time b) txs0 then txs0 else by_time txs0)
      in case parse_loop m (bid_Hash lastBlock) txs (parse_init ticketsPerBlock) of
           None \<Rightarrow> None
         | Some s \<Rightarrow> map_option (\<lambda>votes. parse_info m lastBlock votes s) (by_height (pt_votes s)))"

section \<open>One transaction\<close>

datatype 'f added = AddPanics | FutureVote | Added "'f MempoolInfo" "'f MempoolTx"

definition likely_add :: "('f LikelyMineable \<Rightarrow> 'f LikelyMineable) \<Rightarrow> 'f MempoolInfo \<Rightarrow> 'f MempoolInfo" where
  "likely_add f mi = mi\<lparr>Short := (Short mi)\<lparr>ms_LikelyMineable := f (ms_LikelyMineable (Short mi))\<rparr>\<rparr>"

definition to_stake :: "string \<Rightarrow> 'f MempoolShort \<Rightarrow> 'f MempoolShort" where
  "to_stake h sh = sh\<lparr>InvStake := insert h (InvStake sh)\<rparr>"

text \<open>The vote: the ticket index is set, and the vote is counted when it is the first of its ticket on the last block.\<close>

definition add_vote :: "'f money \<Rightarrow> VoteInfo \<Rightarrow> 'f MempoolTx \<Rightarrow> 'f MempoolInfo \<Rightarrow> ('f MempoolInfo \<times> 'f MempoolTx \<times> bool) option" where
  "add_vote m v0 tx0 mi =
     (let sh = Short mi;
          (v, inds) = SetTicketIndex v0 (TicketIndexes sh);
          tx = tx0\<lparr>mt_VoteInfo := Some v\<rparr>;
          mi1 = mi\<lparr>Short := (to_stake (mt_TxID tx) sh)\<lparr>NumVotes := NumVotes sh + 1, TicketIndexes := inds\<rparr>, Votes := tx # Votes mi\<rparr>
      in if vi_ForLastBlock v \<and> \<not> VotedTickets (ms_VotingInfo sh) (vi_TicketSpent v) then
           (case count_vote v (ms_VotingInfo sh) of
              None \<Rightarrow> None
            | Some vi \<Rightarrow>
                Some (likely_add (\<lambda>l. l\<lparr>lm_VoteTotal := fadd m (lm_VoteTotal l) (mt_TotalOut tx)\<rparr>)
                       (mi1\<lparr>Short := (Short mi1)\<lparr>ms_VotingInfo := vi\<rparr>\<rparr>), tx, True))
         else Some (mi1, tx, False))"

definition add_kind ::
  "'f money \<Rightarrow> MempoolBlockID \<Rightarrow> 'f MempoolTx \<Rightarrow> 'f MempoolInfo \<Rightarrow> ('f MempoolInfo \<times> 'f MempoolTx \<times> bool) option option" where
  "add_kind m lastBlock tx mi =
     (let h = mt_TxID tx; sh = Short mi; amt = mt_TotalOut tx
      in case mt_TypeID tx of
           TxTypeRegular \<Rightarrow>
             Some (Some (likely_add (\<lambda>l. l\<lparr>lm_RegularTotal := fadd m (lm_RegularTotal l) amt\<rparr>)
               (mi\<lparr>Short := sh\<lparr>InvRegular := insert h (InvRegular sh), NumRegular := NumRegular sh + 1\<rparr>,
                    Transactions := tx # Transactions mi\<rparr>), tx, True))
         | TxTypeSStx \<Rightarrow>
             Some (Some (likely_add (\<lambda>l. l\<lparr>lm_TicketTotal := fadd m (lm_TicketTotal l) amt\<rparr>)
               (mi\<lparr>Short := (to_stake h sh)\<lparr>NumTickets := NumTickets sh + 1\<rparr>, Tickets := tx # Tickets mi\<rparr>), tx, True))
         | TxTypeSSGen \<Rightarrow>
             (case mt_VoteInfo tx of
                None \<Rightarrow> None
              | Some v \<Rightarrow>
                  if bv_Height (vi_Validation v) > bid_Height lastBlock then Some None
                  else map_option Some (add_vote m v tx mi))
         | TxTypeSSRtx \<Rightarrow>
             Some (Some (likely_add (\<lambda>l. l\<lparr>lm_RevokeTotal := fadd m (lm_RevokeTotal l) amt\<rparr>)
               (mi\<lparr>Short := (to_stake h sh)\<lparr>NumRevokes := NumRevokes sh + 1\<rparr>, Revocations := tx # Revocations mi\<rparr>), tx, True))
         | TxTypeTSpend \<Rightarrow> Some (Some (mi\<lparr>Short := to_stake h sh, TSpends := tx # TSpends mi\<rparr>, tx, False))
         | TxTypeTAdd \<Rightarrow>
             Some (Some (likely_add (\<lambda>l. l\<lparr>lm_TAddTotal := fadd m (lm_TAddTotal l) amt\<rparr>)
               (mi\<lparr>Short := to_stake h sh, TAdds := tx # TAdds mi\<rparr>), tx, True))
         | _ \<Rightarrow> Some (Some (mi, tx, True)))"

definition add_totals :: "'f money \<Rightarrow> bool \<Rightarrow> 'f MempoolTx \<Rightarrow> 'f MempoolInfo \<Rightarrow> 'f MempoolInfo" where
  "add_totals m likely tx mi =
     (let sh = Short mi; size = TotalSize sh + mt_Size tx; latest = LatestTransactions sh; n = length latest;
          l = ms_LikelyMineable sh; lsize = lm_Size l + mt_Size tx
      in mi\<lparr>Short := sh\<lparr>
           LatestTransactions := (if n \<ge> NumLatestMempoolTxns then tx # take (n - 1) latest else tx # latest),
           NumAll := NumAll sh + 1, TotalOut := fadd m (TotalOut sh) (mt_TotalOut tx), TotalSize := size,
           ms_LikelyMineable :=
             (if likely
              then l\<lparr>lm_Size := lsize, lm_FormattedSize := bytesStr m lsize, lm_Total := fadd m (lm_Total l) (mt_TotalOut tx),
                     lm_Count := lm_Count l + 1\<rparr>
              else l),
           FormattedTotalSize := bytesStr m size,
           CoinStats := addTxToCoinStats (atomsOf m) (CoinStats sh) tx\<rparr>\<rparr>)"

definition add_tx :: "'f money \<Rightarrow> MempoolBlockID \<Rightarrow> 'f MempoolTx \<Rightarrow> 'f MempoolInfo \<Rightarrow> 'f added" where
  "add_tx m lastBlock tx mi =
     (case add_kind m lastBlock tx mi of
        None \<Rightarrow> AddPanics
      | Some None \<Rightarrow> FutureVote
      | Some (Some (mi1, tx1, likely)) \<Rightarrow> Added (add_totals m likely tx1 mi1) tx1)"

end
