(* ===== verification/MempoolTrack.thy ===== *)
theory MempoolTrack
  imports MempoolInv
begin

text \<open>
  The inventory that \<open>TxHandler\<close> keeps by adding transactions describes the mempool as the one that \<open>ParseTxns\<close> builds.
  The specification \<open>describes\<close> states the inventory of a list of transactions, the newest first.
\<close>

section \<open>The specification\<close>

definition is_vote :: "'f MempoolTx \<Rightarrow> bool" where
  "is_vote tx \<longleftrightarrow> mt_TypeID tx = TxTypeSSGen"

definition of_kind :: "TxType \<Rightarrow> 'f MempoolTx list \<Rightarrow> 'f MempoolTx list" where
  "of_kind ty txs = filter (\<lambda>tx. mt_TypeID tx = ty) txs"

definition stake_ids :: "'f MempoolTx list \<Rightarrow> string set" where
  "stake_ids txs = mt_TxID ` set (filter (\<lambda>tx. mt_TypeID tx \<noteq> TxTypeRegular) txs)"

definition on_last :: "string \<Rightarrow> 'f MempoolTx \<Rightarrow> bool" where
  "on_last blockhash tx \<longleftrightarrow> is_vote tx \<and> VotesOnBlock (the (mt_VoteInfo tx)) blockhash"

definition last_votes :: "string \<Rightarrow> 'f MempoolTx list \<Rightarrow> VoteInfo list" where
  "last_votes blockhash txs = map (\<lambda>tx. the (mt_VoteInfo tx)) (filter (on_last blockhash) txs)"

definition is_likely :: "string \<Rightarrow> 'f MempoolTx \<Rightarrow> bool" where
  "is_likely blockhash tx \<longleftrightarrow> is_vote tx \<longrightarrow> on_last blockhash tx"

definition sizes :: "'f MempoolTx list \<Rightarrow> 32 word" where
  "sizes txs = sum_list (map mt_Size txs)"

definition tally_marks :: "VotingInfo \<Rightarrow> string \<Rightarrow> bool list" where
  "tally_marks vi b = (case VoteTallys vi b of None \<Rightarrow> [] | Some t \<Rightarrow> Marks t)"

definition voting_ok :: "16 word \<Rightarrow> string \<Rightarrow> VoteInfo list \<Rightarrow> VotingInfo \<Rightarrow> bool" where
  "voting_ok tpb b vs vi \<longleftrightarrow> MaxVotesPerBlock vi = tpb
     \<and> (\<forall>t. VotedTickets vi t \<longleftrightarrow> t \<in> vi_TicketSpent ` set vs)
     \<and> TicketsVoted vi = of_nat (length vs)
     \<and> mset (tally_marks vi b) = image_mset (\<lambda>v. bv_Validity (vi_Validation v)) (mset vs)"

definition lists_ok :: "'f MempoolTx list \<Rightarrow> 'f MempoolInfo \<Rightarrow> bool" where
  "lists_ok txs mi \<longleftrightarrow> Transactions mi = of_kind TxTypeRegular txs \<and> Tickets mi = of_kind TxTypeSStx txs
     \<and> Revocations mi = of_kind TxTypeSSRtx txs
     \<and> mset (map mt_TxID (Votes mi)) = mset (map mt_TxID (of_kind TxTypeSSGen txs))
     \<and> map mt_TxID (LatestTransactions (Short mi)) = map mt_TxID (take NumLatestMempoolTxns txs)
     \<and> InvRegular (Short mi) = mt_TxID ` set (of_kind TxTypeRegular txs)
     \<and> InvStake (Short mi) = stake_ids txs"

definition counts_ok :: "'f money \<Rightarrow> string \<Rightarrow> 'f MempoolTx list \<Rightarrow> 'f MempoolShort \<Rightarrow> bool" where
  "counts_ok m b txs sh \<longleftrightarrow> NumRegular sh = length (of_kind TxTypeRegular txs) \<and> NumTickets sh = length (of_kind TxTypeSStx txs)
     \<and> NumRevokes sh = length (of_kind TxTypeSSRtx txs) \<and> NumVotes sh = length (of_kind TxTypeSSGen txs) \<and> NumAll sh = length txs
     \<and> TotalSize sh = sizes txs \<and> FormattedTotalSize sh = bytesStr m (sizes txs)
     \<and> lm_Size (ms_LikelyMineable sh) = sizes (filter (is_likely b) txs)
     \<and> lm_Count (ms_LikelyMineable sh) = length (filter (is_likely b) txs)"

definition describes :: "'f money \<Rightarrow> 16 word \<Rightarrow> MempoolBlockID \<Rightarrow> 'f MempoolTx list \<Rightarrow> 'f MempoolInfo \<Rightarrow> bool" where
  "describes m tpb lb txs mi \<longleftrightarrow> lists_ok txs mi \<and> counts_ok m (bid_Hash lb) txs (Short mi)
     \<and> voting_ok tpb (bid_Hash lb) (last_votes (bid_Hash lb) txs) (ms_VotingInfo (Short mi))
     \<and> CoinStats (Short mi) = coinStats (atomsOf m) txs"

text \<open>The mempools considered: regular transactions, tickets, votes and revocations, each once, newest first; votes
  carry their information, for the last block or an earlier one; no ticket votes twice on the last block; amounts are
  numbers.\<close>

definition ok_tx :: "'f money \<Rightarrow> MempoolBlockID \<Rightarrow> 'f MempoolTx \<Rightarrow> bool" where
  "ok_tx m lb tx \<longleftrightarrow> mt_TypeID tx \<in> {TxTypeRegular, TxTypeSStx, TxTypeSSGen, TxTypeSSRtx}
     \<and> (mt_TypeID tx = TxTypeSSGen \<longrightarrow> (case mt_VoteInfo tx of
          None \<Rightarrow> False
        | Some v \<Rightarrow> bv_Height (vi_Validation v) \<le> bid_Height lb \<and> vi_ForLastBlock v = VotesOnBlock v (bid_Hash lb)))
     \<and> tx_amounts_ok (atomsOf m) tx"

definition ok_mempool :: "'f money \<Rightarrow> MempoolBlockID \<Rightarrow> 'f MempoolTx list \<Rightarrow> bool" where
  "ok_mempool m lb txs \<longleftrightarrow> list_all (ok_tx m lb) txs \<and> distinct (map mt_TxID txs)
     \<and> distinct (map vi_TicketSpent (last_votes (bid_Hash lb) txs))
     \<and> sorted_wrt (\<lambda>a b. mt_Time a \<ge> mt_Time b) txs"

section \<open>Voting information\<close>

lemma count_vote_ok:
  assumes "voting_ok tpb b vs vi" and "tpb \<noteq> 0" and "bv_Hash (vi_Validation v) = b"
  obtains vi' where "count_vote v vi = Some vi'" and "voting_ok tpb b (v # vs) vi'"
proof -
  have "\<exists>vi'. count_vote v vi = Some vi' \<and> voting_ok tpb b (v # vs) vi'"
    using assms by (cases "VoteTallys vi b") (auto simp: count_vote_def Tally_def voting_ok_def tally_marks_def Mark_def Let_def)
  then show thesis using that by blast
qed

lemma voting_ok_cong:
  assumes "mset (map (\<lambda>v. (vi_TicketSpent v, vi_Validation v)) vs) = mset (map (\<lambda>v. (vi_TicketSpent v, vi_Validation v)) ws)"
  shows "voting_ok tpb b vs vi \<longleftrightarrow> voting_ok tpb b ws vi"
proof -
  have "set (map (\<lambda>v. (vi_TicketSpent v, vi_Validation v)) vs) = set (map (\<lambda>v. (vi_TicketSpent v, vi_Validation v)) ws)"
    using assms by (rule mset_eq_setD)
  then have "fst ` set (map (\<lambda>v. (vi_TicketSpent v, vi_Validation v)) vs) = fst ` set (map (\<lambda>v. (vi_TicketSpent v, vi_Validation v)) ws)"
    by (rule arg_cong)
  then have s: "vi_TicketSpent ` set vs = vi_TicketSpent ` set ws" by (simp add: image_image)
  have l: "length vs = length ws" using mset_eq_length [OF assms] by simp
  have "image_mset (bv_Validity \<circ> snd) (mset (map (\<lambda>v. (vi_TicketSpent v, vi_Validation v)) vs))
      = image_mset (bv_Validity \<circ> snd) (mset (map (\<lambda>v. (vi_TicketSpent v, vi_Validation v)) ws))"
    using assms by (rule arg_cong)
  then have "image_mset (\<lambda>v. bv_Validity (vi_Validation v)) (mset vs) = image_mset (\<lambda>v. bv_Validity (vi_Validation v)) (mset ws)"
    by (simp add: multiset.map_comp comp_def)
  then show ?thesis by (simp add: voting_ok_def s l)
qed

lemma VotesOnBlock_fields:
  "vi_Validation v = vi_Validation w \<Longrightarrow> VotesOnBlock v b = VotesOnBlock w b"
  by (simp add: VotesOnBlock_def)

section \<open>Adding a transaction\<close>

lemma of_kind_simps [simp]:
  "of_kind ty [] = []"
  "of_kind ty (tx # txs) = (if mt_TypeID tx = ty then tx # of_kind ty txs else of_kind ty txs)"
  "of_kind ty (txs @ txs') = of_kind ty txs @ of_kind ty txs'"
  by (simp_all add: of_kind_def)

lemma stake_ids_simps [simp]:
  "stake_ids [] = {}"
  "stake_ids (tx # txs) = (if mt_TypeID tx = TxTypeRegular then stake_ids txs else insert (mt_TxID tx) (stake_ids txs))"
  "stake_ids (txs @ txs') = stake_ids txs \<union> stake_ids txs'"
  by (auto simp: stake_ids_def)

lemma sizes_simps [simp]: "sizes [] = 0" "sizes (tx # txs) = sizes txs + mt_Size tx" "sizes (txs @ txs') = sizes txs + sizes txs'"
  by (simp_all add: sizes_def)

lemma add_totals_fields [simp]:
  "Transactions (add_totals m l tx mi) = Transactions mi" "Tickets (add_totals m l tx mi) = Tickets mi"
  "Revocations (add_totals m l tx mi) = Revocations mi" "Votes (add_totals m l tx mi) = Votes mi"
  "InvRegular (Short (add_totals m l tx mi)) = InvRegular (Short mi)" "InvStake (Short (add_totals m l tx mi)) = InvStake (Short mi)"
  "NumRegular (Short (add_totals m l tx mi)) = NumRegular (Short mi)" "NumTickets (Short (add_totals m l tx mi)) = NumTickets (Short mi)"
  "NumRevokes (Short (add_totals m l tx mi)) = NumRevokes (Short mi)" "NumVotes (Short (add_totals m l tx mi)) = NumVotes (Short mi)"
  "NumAll (Short (add_totals m l tx mi)) = Suc (NumAll (Short mi))"
  "TotalSize (Short (add_totals m l tx mi)) = TotalSize (Short mi) + mt_Size tx"
  "FormattedTotalSize (Short (add_totals m l tx mi)) = bytesStr m (TotalSize (Short mi) + mt_Size tx)"
  "ms_VotingInfo (Short (add_totals m l tx mi)) = ms_VotingInfo (Short mi)"
  "CoinStats (Short (add_totals m l tx mi)) = addTxToCoinStats (atomsOf m) (CoinStats (Short mi)) tx"
  "lm_Size (ms_LikelyMineable (Short (add_totals m l tx mi))) = lm_Size (ms_LikelyMineable (Short mi)) + (if l then mt_Size tx else 0)"
  "lm_Count (ms_LikelyMineable (Short (add_totals m l tx mi))) = lm_Count (ms_LikelyMineable (Short mi)) + (if l then 1 else 0)"
  by (simp_all add: add_totals_def Let_def)

lemma latest_add:
  assumes "map mt_TxID (LatestTransactions (Short mi)) = map mt_TxID (take NumLatestMempoolTxns txs)" and "mt_TxID tx1 = mt_TxID tx"
  shows "map mt_TxID (LatestTransactions (Short (add_totals m l tx1 mi))) = map mt_TxID (take NumLatestMempoolTxns (tx # txs))"
proof -
  have len: "length (LatestTransactions (Short mi)) = min (length txs) 5"
    using assms(1) [THEN arg_cong [where f = length]] by (simp add: NumLatestMempoolTxns_def)
  show ?thesis
  proof (cases "length txs < 5")
    case True
    then show ?thesis using assms len by (simp add: add_totals_def Let_def NumLatestMempoolTxns_def)
  next
    case False
    then have "map mt_TxID (take 4 (LatestTransactions (Short mi))) = map mt_TxID (take 4 txs)"
      using assms(1) by (simp add: NumLatestMempoolTxns_def flip: take_map)
    then show ?thesis using assms(2) len False by (simp add: add_totals_def Let_def NumLatestMempoolTxns_def)
  qed
qed

lemma addTx_vote_info [simp]: "addTxToCoinStats atoms st (tx\<lparr>mt_VoteInfo := x\<rparr>) = addTxToCoinStats atoms st tx"
proof -
  have "add_ska_totals (tx\<lparr>mt_VoteInfo := x\<rparr>) ts st = add_ska_totals tx ts st" for ts
  proof (induction ts arbitrary: st)
    case (Cons p ts)
    then show ?case by (cases p) (simp add: fun_upd_def)
  qed simp
  then show ?thesis by (simp add: addTxToCoinStats_def)
qed

lemma ok_mempool_Cons:
  assumes "ok_mempool m lb (tx # txs)"
  shows "ok_tx m lb tx" "ok_mempool m lb txs" "mt_TxID tx \<notin> mt_TxID ` set txs"
    "on_last (bid_Hash lb) tx \<Longrightarrow> vi_TicketSpent (the (mt_VoteInfo tx)) \<notin> vi_TicketSpent ` set (last_votes (bid_Hash lb) txs)"
  using assms by (auto simp: ok_mempool_def last_votes_def split: if_splits)

lemma stats_add:
  assumes "ok_mempool m lb (tx # txs)"
  shows "addTxToCoinStats (atomsOf m) (coinStats (atomsOf m) txs) tx = coinStats (atomsOf m) (tx # txs)"
proof -
  have "list_all (ok_tx m lb) (tx # txs)" using assms by (simp add: ok_mempool_def)
  then have "\<forall>t \<in> set (txs @ [tx]). tx_amounts_ok (atomsOf m) t" by (auto simp: list_all_iff ok_tx_def)
  then show ?thesis using coin_stats_adds [of txs "[tx]" "atomsOf m" "tx # txs"] by simp
qed

lemma describes_add:
  assumes "describes m tpb lb txs mi" and "ok_mempool m lb (tx # txs)" and "mt_TypeID tx = ty"
    and "Transactions mi1 = (if ty = TxTypeRegular then tx # Transactions mi else Transactions mi)"
    and "Tickets mi1 = (if ty = TxTypeSStx then tx # Tickets mi else Tickets mi)"
    and "Revocations mi1 = (if ty = TxTypeSSRtx then tx # Revocations mi else Revocations mi)"
    and "map mt_TxID (Votes mi1) = (if ty = TxTypeSSGen then mt_TxID tx # map mt_TxID (Votes mi) else map mt_TxID (Votes mi))"
    and "InvRegular (Short mi1) = (if ty = TxTypeRegular then insert (mt_TxID tx) (InvRegular (Short mi)) else InvRegular (Short mi))"
    and "InvStake (Short mi1) = (if ty = TxTypeRegular then InvStake (Short mi) else insert (mt_TxID tx) (InvStake (Short mi)))"
    and "NumRegular (Short mi1) = NumRegular (Short mi) + (if ty = TxTypeRegular then 1 else 0)"
    and "NumTickets (Short mi1) = NumTickets (Short mi) + (if ty = TxTypeSStx then 1 else 0)"
    and "NumRevokes (Short mi1) = NumRevokes (Short mi) + (if ty = TxTypeSSRtx then 1 else 0)"
    and "NumVotes (Short mi1) = NumVotes (Short mi) + (if ty = TxTypeSSGen then 1 else 0)"
    and "NumAll (Short mi1) = NumAll (Short mi)" and "TotalSize (Short mi1) = TotalSize (Short mi)"
    and "LatestTransactions (Short mi1) = LatestTransactions (Short mi)" and "CoinStats (Short mi1) = CoinStats (Short mi)"
    and "lm_Size (ms_LikelyMineable (Short mi1)) = lm_Size (ms_LikelyMineable (Short mi))"
    and "lm_Count (ms_LikelyMineable (Short mi1)) = lm_Count (ms_LikelyMineable (Short mi))"
    and "likely = is_likely (bid_Hash lb) tx"
    and "voting_ok tpb (bid_Hash lb) (last_votes (bid_Hash lb) (tx # txs)) (ms_VotingInfo (Short mi1))"
  shows "describes m tpb lb (tx # txs) (add_totals m likely (tx\<lparr>mt_VoteInfo := x\<rparr>) mi1)"
proof -
  note old = assms(1) [unfolded describes_def]
  have lists: "lists_ok txs mi" and counts: "counts_ok m (bid_Hash lb) txs (Short mi)"
    and stats: "CoinStats (Short mi) = coinStats (atomsOf m) txs" using old by simp_all
  have "lists_ok (tx # txs) (add_totals m likely (tx\<lparr>mt_VoteInfo := x\<rparr>) mi1)"
    using lists assms(3-9,16) latest_add [of mi1 txs "tx\<lparr>mt_VoteInfo := x\<rparr>" tx m likely]
    by (auto simp: lists_ok_def)
  moreover have "counts_ok m (bid_Hash lb) (tx # txs) (Short (add_totals m likely (tx\<lparr>mt_VoteInfo := x\<rparr>) mi1))"
    using counts assms(3,10-15,18-20) by (simp add: counts_ok_def)
  moreover have "CoinStats (Short (add_totals m likely (tx\<lparr>mt_VoteInfo := x\<rparr>) mi1)) = coinStats (atomsOf m) (tx # txs)"
    using stats_add [OF assms(2)] stats assms(17) by simp
  ultimately show ?thesis using assms(21) by (simp add: describes_def)
qed

lemma likely_add_fields [simp]:
  "Transactions (likely_add f mi) = Transactions mi" "Tickets (likely_add f mi) = Tickets mi" "Revocations (likely_add f mi) = Revocations mi"
  "Votes (likely_add f mi) = Votes mi" "Short (likely_add f mi) = (Short mi)\<lparr>ms_LikelyMineable := f (ms_LikelyMineable (Short mi))\<rparr>"
  by (simp_all add: likely_add_def)

lemma last_votes_Cons:
  "last_votes b (tx # txs) = (if on_last b tx then the (mt_VoteInfo tx) # last_votes b txs else last_votes b txs)"
  by (simp add: last_votes_def)

lemma add_plain_describes:
  assumes "describes m tpb lb txs mi" and "ok_mempool m lb (tx # txs)" and "\<not> is_vote tx"
  shows "\<exists>mi' tx'. add_tx m lb tx mi = Added mi' tx' \<and> describes m tpb lb (tx # txs) mi'"
proof -
  have likely: "is_likely (bid_Hash lb) tx" "\<not> on_last (bid_Hash lb) tx" using assms(3) by (simp_all add: is_likely_def on_last_def)
  have voting: "voting_ok tpb (bid_Hash lb) (last_votes (bid_Hash lb) (tx # txs)) (ms_VotingInfo (Short mi))"
    using assms(1) likely by (simp add: describes_def last_votes_Cons)
  have kind: "mt_TypeID tx = TxTypeRegular \<or> mt_TypeID tx = TxTypeSStx \<or> mt_TypeID tx = TxTypeSSRtx"
    using ok_mempool_Cons(1) [OF assms(2)] assms(3) by (auto simp: ok_tx_def is_vote_def)
  then obtain mi1 where mi1: "add_kind m lb tx mi = Some (Some (mi1, tx, True))"
    "describes m tpb lb (tx # txs) (add_totals m True (tx\<lparr>mt_VoteInfo := mt_VoteInfo tx\<rparr>) mi1)"
  proof (elim disjE)
    assume ty: "mt_TypeID tx = TxTypeRegular"
    show thesis
      by (rule that, simp add: add_kind_def ty Let_def, rule describes_add [OF assms(1,2) ty])
        (use voting likely in \<open>simp_all add: to_stake_def\<close>)
  next
    assume ty: "mt_TypeID tx = TxTypeSStx"
    show thesis
      by (rule that, simp add: add_kind_def ty Let_def, rule describes_add [OF assms(1,2) ty])
        (use voting likely in \<open>simp_all add: to_stake_def\<close>)
  next
    assume ty: "mt_TypeID tx = TxTypeSSRtx"
    show thesis
      by (rule that, simp add: add_kind_def ty Let_def, rule describes_add [OF assms(1,2) ty])
        (use voting likely in \<open>simp_all add: to_stake_def\<close>)
  qed
  then show ?thesis by (simp add: add_tx_def)
qed

lemma add_vote_describes:
  assumes "describes m tpb lb txs mi" and "ok_mempool m lb (tx # txs)" and "is_vote tx" and "tpb \<noteq> 0"
  shows "\<exists>mi' tx'. add_tx m lb tx mi = Added mi' tx' \<and> describes m tpb lb (tx # txs) mi'"
proof -
  have ty: "mt_TypeID tx = TxTypeSSGen" using assms(3) by (simp add: is_vote_def)
  obtain v0 where v0: "mt_VoteInfo tx = Some v0" "\<not> bv_Height (vi_Validation v0) > bid_Height lb"
    "vi_ForLastBlock v0 = VotesOnBlock v0 (bid_Hash lb)"
    using ok_mempool_Cons(1) [OF assms(2)] ty by (auto simp: ok_tx_def split: option.splits)
  obtain v inds where set: "SetTicketIndex v0 (TicketIndexes (Short mi)) = (v, inds)" by fastforce
  then have v: "vi_Validation v = vi_Validation v0" "vi_TicketSpent v = vi_TicketSpent v0" "vi_ForLastBlock v = vi_ForLastBlock v0"
    using SetTicketIndex_fields [of v0 "TicketIndexes (Short mi)"] by simp_all
  have last: "on_last (bid_Hash lb) tx \<longleftrightarrow> vi_ForLastBlock v" using v0 v assms(3) by (simp add: on_last_def)
  have voting: "voting_ok tpb (bid_Hash lb) (last_votes (bid_Hash lb) txs) (ms_VotingInfo (Short mi))"
    using assms(1) by (simp add: describes_def)
  show ?thesis
  proof (cases "vi_ForLastBlock v")
    case True
    have "bv_Hash (vi_Validation v) = bid_Hash lb" using True v v0(3) by (simp add: VotesOnBlock_def ForBlock_def)
    from count_vote_ok [OF voting assms(4) this] obtain vi where vi: "count_vote v (ms_VotingInfo (Short mi)) = Some vi"
      "voting_ok tpb (bid_Hash lb) (v # last_votes (bid_Hash lb) txs) vi" .
    have "voting_ok tpb (bid_Hash lb) (last_votes (bid_Hash lb) (tx # txs)) vi"
      using vi(2) voting_ok_cong [of "v # last_votes (bid_Hash lb) txs" "v0 # last_votes (bid_Hash lb) txs"] True last v v0(1)
      by (simp add: last_votes_Cons)
    moreover have "\<not> VotedTickets (ms_VotingInfo (Short mi)) (vi_TicketSpent v)"
      using voting ok_mempool_Cons(4) [OF assms(2)] True last v v0(1) by (simp add: voting_ok_def)
    ultimately show ?thesis
      using ty v0 set True vi(1)
      by (simp add: add_tx_def add_kind_def add_vote_def Let_def)
        (rule describes_add [OF assms(1,2) ty]; use last in \<open>simp add: to_stake_def is_likely_def\<close>)
  next
    case False
    have "voting_ok tpb (bid_Hash lb) (last_votes (bid_Hash lb) (tx # txs)) (ms_VotingInfo (Short mi))"
      using voting False last by (simp add: last_votes_Cons)
    then show ?thesis
      using ty v0 set False
      by (simp add: add_tx_def add_kind_def add_vote_def Let_def)
        (rule describes_add [OF assms(1,2) ty]; use last assms(3) in \<open>simp add: to_stake_def is_likely_def\<close>)
  qed
qed

fun add_all :: "'f money \<Rightarrow> MempoolBlockID \<Rightarrow> 'f MempoolTx list \<Rightarrow> 'f MempoolInfo \<Rightarrow> 'f MempoolInfo option" where
  "add_all m lb [] mi = Some mi"
| "add_all m lb (tx # txs) mi = (case add_tx m lb tx mi of Added mi1 tx1 \<Rightarrow> add_all m lb txs mi1 | _ \<Rightarrow> None)"

lemma ok_mempool_append: "ok_mempool m lb (new @ old) \<Longrightarrow> ok_mempool m lb old"
  by (induction new) (auto dest: ok_mempool_Cons(2))

lemma add_all_append: "add_all m lb (xs @ ys) mi = (case add_all m lb xs mi of None \<Rightarrow> None | Some mi1 \<Rightarrow> add_all m lb ys mi1)"
  by (induction xs arbitrary: mi) (auto split: added.splits)

lemma add_all_describes:
  assumes "describes m tpb lb old mi" and "ok_mempool m lb (new @ old)" and "tpb \<noteq> 0"
  shows "\<exists>mi'. add_all m lb (rev new) mi = Some mi' \<and> describes m tpb lb (new @ old) mi'"
  using assms(2)
proof (induction new)
  case Nil
  then show ?case using assms(1) by simp
next
  case (Cons tx new)
  then have ok: "ok_mempool m lb (tx # (new @ old))" by simp
  obtain mi1 where mi1: "add_all m lb (rev new) mi = Some mi1" "describes m tpb lb (new @ old) mi1"
    using Cons.IH [OF ok_mempool_Cons(2) [OF ok]] by blast
  obtain mi2 tx2 where "add_tx m lb tx mi1 = Added mi2 tx2" "describes m tpb lb (tx # (new @ old)) mi2"
    using add_plain_describes [OF mi1(2) ok] add_vote_describes [OF mi1(2) ok _ assms(3)] by blast
  then show ?case using mi1(1) by (simp add: add_all_append)
qed

section \<open>Parsing the mempool\<close>

definition erase_vote :: "'f MempoolTx \<Rightarrow> 'f MempoolTx" where
  "erase_vote tx = tx\<lparr>mt_VoteInfo := None\<rparr>"

lemma erase_vote_simps [simp]: "erase_vote (tx\<lparr>mt_VoteInfo := x\<rparr>) = erase_vote tx" "mt_TxID (erase_vote tx) = mt_TxID tx"
  "mt_Type (erase_vote tx) = mt_Type tx" "mt_Size (erase_vote tx) = mt_Size tx" "mt_TotalOut (erase_vote tx) = mt_TotalOut tx"
  "mt_SKATotals (erase_vote tx) = mt_SKATotals tx"
  by (simp_all add: erase_vote_def)

definition parsed :: "16 word \<Rightarrow> string \<Rightarrow> 'f MempoolTx list \<Rightarrow> 'f parse_state \<Rightarrow> bool" where
  "parsed tpb b txs s \<longleftrightarrow> pt_regular s = of_kind TxTypeRegular txs \<and> pt_tickets s = of_kind TxTypeSStx txs \<and> pt_revs s = of_kind TxTypeSSRtx txs
     \<and> map mt_TxID (pt_votes s) = map mt_TxID (of_kind TxTypeSSGen txs) \<and> list_all (\<lambda>tx. mt_VoteInfo tx \<noteq> None) (pt_votes s)
     \<and> pt_invRegular s = mt_TxID ` set (of_kind TxTypeRegular txs) \<and> pt_invStake s = stake_ids txs
     \<and> map erase_vote (pt_txs s) = map erase_vote txs
     \<and> pt_totalSize s = sizes txs \<and> pt_likelySize s = sizes (filter (is_likely b) txs) \<and> pt_numLikely s = length (filter (is_likely b) txs)
     \<and> voting_ok tpb b (last_votes b txs) (pt_votingInfo s)"

lemma parse_totals_fields [simp]:
  "pt_regular (parse_totals l out tx s) = pt_regular s" "pt_tickets (parse_totals l out tx s) = pt_tickets s"
  "pt_revs (parse_totals l out tx s) = pt_revs s" "pt_votes (parse_totals l out tx s) = pt_votes s"
  "pt_invRegular (parse_totals l out tx s) = pt_invRegular s" "pt_invStake (parse_totals l out tx s) = pt_invStake s"
  "pt_votingInfo (parse_totals l out tx s) = pt_votingInfo s" "pt_txs (parse_totals l out tx s) = pt_txs s @ [tx]"
  "pt_totalSize (parse_totals l out tx s) = pt_totalSize s + mt_Size tx"
  "pt_likelySize (parse_totals l out tx s) = pt_likelySize s + (if l then mt_Size tx else 0)"
  "pt_numLikely (parse_totals l out tx s) = pt_numLikely s + (if l then 1 else 0)"
  by (simp_all add: parse_totals_def Let_def)

lemma parsed_fresh:
  assumes "parsed tpb b txs s" and "mt_TxID tx \<notin> mt_TxID ` set txs"
  shows "mt_TxID tx \<notin> pt_invStake s" "mt_TxID tx \<notin> pt_invRegular s"
  using assms by (auto simp: parsed_def of_kind_def stake_ids_def)

lemma last_votes_snoc:
  "last_votes b (txs @ [tx]) = (if on_last b tx then last_votes b txs @ [the (mt_VoteInfo tx)] else last_votes b txs)"
  by (simp add: last_votes_def)

lemma parse_plain:
  assumes "parsed tpb b txs s" and "mt_TxID tx \<notin> mt_TxID ` set txs"
    and "mt_TypeID tx \<in> {TxTypeRegular, TxTypeSStx, TxTypeSSRtx}"
  shows "\<exists>s'. parse_tx m b tx s = Some s' \<and> parsed tpb b (txs @ [tx]) s'"
proof -
  have likely: "is_likely b tx" "\<not> on_last b tx" using assms(3) by (auto simp: is_likely_def on_last_def is_vote_def)
  note fresh = parsed_fresh [OF assms(1,2)]
  consider "mt_TypeID tx = TxTypeRegular" | "mt_TypeID tx = TxTypeSStx" | "mt_TypeID tx = TxTypeSSRtx" using assms(3) by auto
  then show ?thesis
    by cases (use assms(1) fresh likely in \<open>simp_all add: parsed_def last_votes_snoc Let_def\<close>)
qed

lemma parse_a_vote:
  assumes "parsed tpb b txs s" and "mt_TxID tx \<notin> mt_TxID ` set txs" and ty: "mt_TypeID tx = TxTypeSSGen" and "tpb \<noteq> 0"
    and v0: "mt_VoteInfo tx = Some v0" and "on_last b tx \<Longrightarrow> vi_TicketSpent v0 \<notin> vi_TicketSpent ` set (last_votes b txs)"
  shows "\<exists>s'. parse_tx m b tx s = Some s' \<and> parsed tpb b (txs @ [tx]) s'"
proof -
  obtain v inds where set: "SetTicketIndex v0 (pt_inds s) = (v, inds)" by fastforce
  then have v: "vi_Validation v = vi_Validation v0" "vi_TicketSpent v = vi_TicketSpent v0"
    using SetTicketIndex_fields [of v0 "pt_inds s"] by simp_all
  let ?w = "v\<lparr>vi_ForLastBlock := VotesOnBlock v b\<rparr>"
  have last: "on_last b tx \<longleftrightarrow> VotesOnBlock v b" "is_vote tx" using v0 v(1) ty by (simp_all add: on_last_def is_vote_def VotesOnBlock_def)
  have voting: "voting_ok tpb b (last_votes b txs) (pt_votingInfo s)" using assms(1) by (simp add: parsed_def)
  note fresh = parsed_fresh [OF assms(1,2)]
  show ?thesis
  proof (cases "VotesOnBlock v b")
    case True
    then have "bv_Hash (vi_Validation ?w) = b" by (simp add: VotesOnBlock_def ForBlock_def)
    from count_vote_ok [OF voting assms(4) this] obtain vi where vi: "count_vote ?w (pt_votingInfo s) = Some vi"
      "voting_ok tpb b (?w # last_votes b txs) vi" .
    have "voting_ok tpb b (last_votes b (txs @ [tx])) vi"
      using vi(2) voting_ok_cong [of "?w # last_votes b txs" "last_votes b txs @ [v0]"] True last v v0 by (simp add: last_votes_snoc)
    moreover have "\<not> VotedTickets (pt_votingInfo s) (vi_TicketSpent v)" using voting assms(6) True last v by (simp add: voting_ok_def)
    ultimately show ?thesis
      using assms(1) ty v0 set fresh vi(1) True last
      by (simp add: parse_vote_def Let_def parsed_def is_likely_def)
  next
    case False
    have "voting_ok tpb b (last_votes b (txs @ [tx])) (pt_votingInfo s)" using voting False last by (simp add: last_votes_snoc)
    then show ?thesis
      using assms(1) ty v0 set fresh False last
      by (simp add: parse_vote_def Let_def parsed_def is_likely_def)
  qed
qed

lemma ok_mempool_middle:
  assumes "ok_mempool m lb (txs @ tx # rest)"
  shows "ok_tx m lb tx" "mt_TxID tx \<notin> mt_TxID ` set txs"
    "on_last (bid_Hash lb) tx \<Longrightarrow> vi_TicketSpent (the (mt_VoteInfo tx)) \<notin> vi_TicketSpent ` set (last_votes (bid_Hash lb) txs)"
  using assms by (auto simp: ok_mempool_def last_votes_def split: if_splits)

lemma parse_loop_parsed:
  assumes "parsed tpb (bid_Hash lb) txs s" and "ok_mempool m lb (txs @ rest)" and "tpb \<noteq> 0"
  shows "\<exists>s'. parse_loop m (bid_Hash lb) rest s = Some s' \<and> parsed tpb (bid_Hash lb) (txs @ rest) s'"
  using assms(1,2)
proof (induction rest arbitrary: txs s)
  case (Cons tx rest)
  note ok = ok_mempool_middle [OF Cons.prems(2)]
  have "\<exists>s'. parse_tx m (bid_Hash lb) tx s = Some s' \<and> parsed tpb (bid_Hash lb) (txs @ [tx]) s'"
  proof (cases "mt_TypeID tx = TxTypeSSGen")
    case True
    then obtain v0 where "mt_VoteInfo tx = Some v0" using ok(1) by (auto simp: ok_tx_def split: option.splits)
    then show ?thesis using parse_a_vote [OF Cons.prems(1) ok(2) True assms(3)] ok(3) by simp
  next
    case False
    then show ?thesis using parse_plain [OF Cons.prems(1) ok(2)] ok(1) by (auto simp: ok_tx_def)
  qed
  then obtain s1 where s1: "parse_tx m (bid_Hash lb) tx s = Some s1" "parsed tpb (bid_Hash lb) (txs @ [tx]) s1" by blast
  then show ?case using Cons.IH [of "txs @ [tx]" s1] Cons.prems(2) by (simp del: parse_tx.simps)
qed simp

lemma parsed_init: "parsed tpb b [] (parse_init tpb)"
  by (simp add: parsed_def parse_init_def voting_ok_def NewVotingInfo_def last_votes_def tally_marks_def)

lemma coinStats_erase: "coinStats atoms (map erase_vote txs) = coinStats atoms txs"
proof -
  have totals: "accum_totals (erase_vote tx) ts acc = accum_totals tx ts acc" for tx :: "'a MempoolTx" and ts acc
  proof (induction ts arbitrary: acc)
    case (Cons p ts)
    then show ?case by (cases p) (simp add: fun_upd_def split: option.split)
  qed simp
  have "accum_tx atoms acc (erase_vote tx) = accum_tx atoms acc tx" for acc tx
    using totals [of tx "mt_SKATotals tx" acc] by (simp add: accum_tx_def)
  then have "foldl (accum_tx atoms) acc (map erase_vote txs) = foldl (accum_tx atoms) acc txs" for acc
    by (induction txs arbitrary: acc) simp_all
  then show ?thesis by (simp add: coinStats_def)
qed

lemma parse_info_describes:
  assumes "parsed tpb (bid_Hash lb) txs s" and "mset votes = mset (pt_votes s)"
  shows "describes m tpb lb txs (parse_info m lb votes s)"
proof -
  note p = assms(1) [unfolded parsed_def]
  have er: "map erase_vote (pt_txs s) = map erase_vote txs" using p by blast
  have ids: "map mt_TxID (pt_txs s) = map mt_TxID txs"
    using er [THEN arg_cong [where f = "map mt_TxID"]] by (simp add: comp_def)
  have "map mt_TxID (take n (pt_txs s)) = map mt_TxID (take n txs)" for n using ids by (metis take_map)
  moreover have "mset (map mt_TxID votes) = mset (map mt_TxID (of_kind TxTypeSSGen txs))"
  proof -
    have "mset (map mt_TxID votes) = mset (map mt_TxID (pt_votes s))" using assms(2) by simp
    then show ?thesis using p by simp
  qed
  ultimately have "lists_ok txs (parse_info m lb votes s)" using p by (simp add: lists_ok_def parse_info_def)
  moreover have "counts_ok m (bid_Hash lb) txs (Short (parse_info m lb votes s))"
  proof -
    have "length votes = length (pt_votes s)" using assms(2) by (rule mset_eq_length)
    also have "\<dots> = length (map mt_TxID (pt_votes s))" by simp
    also have "\<dots> = length (of_kind TxTypeSSGen txs)" using p by simp
    finally have "length votes = length (of_kind TxTypeSSGen txs)" .
    moreover have "length (pt_txs s) = length txs" using ids [THEN arg_cong [where f = length]] by simp
    ultimately show ?thesis using p by (simp add: counts_ok_def parse_info_def)
  qed
  moreover have "coinStats (atomsOf m) (pt_txs s) = coinStats (atomsOf m) txs"
    using coinStats_erase [of "atomsOf m" "pt_txs s"] coinStats_erase [of "atomsOf m" txs] er by simp
  ultimately show ?thesis using p by (simp add: describes_def parse_info_def)
qed

lemma ParseTxns_describes:
  assumes "ok_mempool m lb txs" and "tpb \<noteq> 0"
  shows "\<exists>mi. ParseTxns m tpb lb txs = Some mi \<and> describes m tpb lb txs mi"
proof -
  obtain s where s: "parse_loop m (bid_Hash lb) txs (parse_init tpb) = Some s" "parsed tpb (bid_Hash lb) txs s"
    using parse_loop_parsed [of tpb lb "[]" "parse_init tpb" m txs] parsed_init [of tpb "bid_Hash lb"] assms by auto
  have "\<not> list_ex (\<lambda>tx. mt_VoteInfo tx = None) (pt_votes s)"
    using s(2) by (auto simp: parsed_def list_ex_iff list_all_iff)
  then obtain votes where votes: "by_height (pt_votes s) = Some votes" "mset votes = mset (pt_votes s)"
    by (simp add: by_height_def)
  have "sorted_wrt (\<lambda>a b. mt_Time a \<ge> mt_Time b) txs" using assms(1) by (simp add: ok_mempool_def)
  then have "ParseTxns m tpb lb txs = Some (parse_info m lb votes s)" using s(1) votes(1) by (simp add: ParseTxns_def)
  then show ?thesis using parse_info_describes [OF s(2) votes(2)] by simp
qed

text \<open>C16. The monitor's inventory follows a mempool of regular transactions, tickets, votes and revocations: whether the mempool is
  parsed as a whole or an older mempool is parsed and the later transactions are added as they arrive, the code returns an inventory,
  and it is the one that describes the mempool: the same lists by kind (of the votes, the same identifiers in some order), the same latest
  transactions, counts, sizes, likely mineable transactions, voted tickets and marks on the last block, and statistics of every coin. The
  mempools covered (\<open>ok_mempool\<close>) have no treasury spend and no stake fee transaction, each transaction once and the newest first; every vote has
  decoded vote information, for the last block or an earlier height; no ticket votes twice on the last block; amounts are 64-bit
  and SKA totals canonical decimals; and the votes per block are not zero. Outside them the two ways differ: \<open>tspend_differs\<close>, \<open>ssfee_differs\<close> and
  \<open>vote_without_info_panics\<close> show how.\<close>

theorem inventory_tracks_mempool:
  assumes "ok_mempool m lb (new @ old)" and "tpb \<noteq> 0"
  shows "\<exists>parsed_old added parsed_all. ParseTxns m tpb lb old = Some parsed_old \<and> add_all m lb (rev new) parsed_old = Some added
    \<and> ParseTxns m tpb lb (new @ old) = Some parsed_all
    \<and> describes m tpb lb (new @ old) added \<and> describes m tpb lb (new @ old) parsed_all"
proof -
  obtain i where i: "ParseTxns m tpb lb old = Some i" "describes m tpb lb old i"
    using ParseTxns_describes [OF ok_mempool_append [OF assms(1)] assms(2)] by blast
  show ?thesis using add_all_describes [OF i(2) assms] ParseTxns_describes [OF assms] i(1) by blast
qed

definition example_money :: "int money" where
  "example_money = \<lparr>toCoin = (\<lambda>x. x), newAmount = (\<lambda>x. x), fadd = (+), atomsOf = (\<lambda>x. x), bytesStr = (\<lambda>_. ''b'')\<rparr>"

definition example_tx :: "string \<Rightarrow> TxType \<Rightarrow> int \<Rightarrow> VoteInfo option \<Rightarrow> int MempoolTx" where
  "example_tx h ty t v = \<lparr>mt_TxID = h, mt_Fees = 0, mt_VinCount = 0, mt_VoutCount = 0, mt_Vin = [], mt_Time = t, mt_Size = 200,
     mt_TotalOut = 3, mt_Type = TxTypeToString ty, mt_TypeID = ty, mt_VoteInfo = v, mt_SKATotals = [], mt_TicketStage = []\<rparr>"

definition example_vote :: VoteInfo where
  "example_vote = \<lparr>vi_Validation = \<lparr>bv_Hash = ''top'', bv_Height = 9, bv_Validity = True\<rparr>, vi_TicketSpent = ''t'', vi_MempoolTicketIndex = 0,
     vi_ForLastBlock = True\<rparr>"

theorem inventory_tracks_mempool_witness:
  "\<exists>i j. ParseTxns example_money 5 \<lparr>bid_Hash = ''top'', bid_Height = 9, bid_Time = 1\<rparr> [example_tx ''x'' TxTypeRegular 2 None] = Some i
     \<and> add_all example_money \<lparr>bid_Hash = ''top'', bid_Height = 9, bid_Time = 1\<rparr> [example_tx ''v'' TxTypeSSGen 3 (Some example_vote)] i = Some j
     \<and> TicketsVoted (ms_VotingInfo (Short j)) = 1 \<and> TotalSize (Short j) = 400"
proof -
  let ?lb = "\<lparr>bid_Hash = ''top'', bid_Height = 9, bid_Time = 1\<rparr>" and ?x = "example_tx ''x'' TxTypeRegular 2 None"
    and ?v = "example_tx ''v'' TxTypeSSGen 3 (Some example_vote)"
  have last: "on_last ''top'' ?v" "\<not> on_last ''top'' ?x"
    by (simp_all add: on_last_def is_vote_def example_tx_def example_vote_def VotesOnBlock_def ForBlock_def)
  have "ok_mempool example_money ?lb ([?v] @ [?x])"
    using last
    by (simp add: ok_mempool_def last_votes_def ok_tx_def tx_amounts_ok_def int64_def example_money_def)
      (simp add: example_tx_def example_vote_def VotesOnBlock_def ForBlock_def)
  from inventory_tracks_mempool [OF this, of 5] show ?thesis
    using last by (auto simp: describes_def voting_ok_def counts_ok_def last_votes_def example_tx_def)
qed

section \<open>Where the two computations differ\<close>

text \<open>A vote whose choices cannot be decoded has no vote information: adding it dereferences nil, and two such votes make
  the sort of \<open>ParseTxns\<close> do so.\<close>

lemma vote_without_info_panics:
  "mt_TypeID tx = TxTypeSSGen \<Longrightarrow> mt_VoteInfo tx = None \<Longrightarrow> add_tx m lb tx mi = AddPanics"
  "length votes \<ge> 2 \<Longrightarrow> list_ex (\<lambda>tx. mt_VoteInfo tx = None) votes \<Longrightarrow> by_height votes = None"
  by (simp_all add: add_tx_def add_kind_def by_height_def Let_def)

text \<open>The number of treasury spends is only set by \<open>ParseTxns\<close>, which also counts a spend as likely mineable.\<close>

lemma tspend_differs:
  assumes "mt_TypeID tx = TxTypeTSpend"
  shows "\<exists>mi'. add_tx m lb tx mi = Added mi' tx \<and> NumTSpends (Short mi') = NumTSpends (Short mi)
      \<and> lm_Count (ms_LikelyMineable (Short mi')) = lm_Count (ms_LikelyMineable (Short mi))"
    "\<exists>mi'. ParseTxns m tpb lb [tx] = Some mi' \<and> NumTSpends (Short mi') = 1 \<and> lm_Count (ms_LikelyMineable (Short mi')) = 1"
  using assms
  by (simp_all add: add_tx_def add_kind_def to_stake_def add_totals_def ParseTxns_def parse_info_def by_height_def parse_totals_def parse_init_def Let_def)

text \<open>A stake fee transaction is in the regular list of \<open>ParseTxns\<close>, but in no list and in no inventory of the monitor, so
  that a second notification of it is counted again.\<close>

lemma ssfee_differs:
  assumes "mt_TypeID tx = TxTypeSSFee"
  shows "\<exists>mi'. add_tx m lb tx mi = Added mi' tx \<and> InvRegular (Short mi') = InvRegular (Short mi) \<and> InvStake (Short mi') = InvStake (Short mi)
      \<and> Transactions mi' = Transactions mi \<and> NumAll (Short mi') = Suc (NumAll (Short mi))"
    "\<exists>mi'. ParseTxns m tpb lb [tx] = Some mi' \<and> Transactions mi' = [tx] \<and> InvRegular (Short mi') = {mt_TxID tx}"
  using assms
  by (simp_all add: add_tx_def add_kind_def ParseTxns_def parse_info_def by_height_def parse_totals_def parse_init_def Let_def)

end
