(* ===== verification/MempoolMonitor.thy ===== *)
theory MempoolMonitor
  imports MempoolTrack
begin

text \<open>
  The mempool monitor (\<open>mempool/monitor.go\<close>), the collection of the mempool's transactions (\<open>mempool/collector.go\<close>) and the
  cache of the API (\<open>mempool/mempoolcache.go\<close>). The node and its packages are the parameter \<open>monitor_env\<close>. The
  handler returns the new state with the messages it sends: the addresses signalled and the new transaction.
  \<open>None\<close> is a panic.
\<close>

section \<open>Inputs and votes\<close>

record ('f, 'c) monitor_env =
  me_addr :: addr_env
  me_money :: "'f money"
  me_votes :: "'c vote_env"
  MsgTxFromHex :: "string \<Rightarrow> MsgTx option"
  DetermineTxType :: "MsgTx \<Rightarrow> TxType"
  NewHashFromStr :: "string \<Rightarrow> hash option"
  FetchTx :: "hash \<Rightarrow> MsgTx option"
  isSKACoin :: "byte \<Rightarrow> bool"
  serializeSize :: "MsgTx \<Rightarrow> int"

fun ticketStage :: "(string \<Rightarrow> hash option) \<Rightarrow> MempoolInput list \<Rightarrow> txns_store \<Rightarrow> string" where
  "ticketStage newHash [] txns = ''Ready''"
| "ticketStage newHash (i # vin) txns =
     (case newHash (mi_TxId i) of
        None \<Rightarrow> ticketStage newHash vin txns
      | Some h \<Rightarrow>
          (case txns h of
             None \<Rightarrow> ''Staging''
           | Some d \<Rightarrow> if twb_BlockHeight d = 0 then ''Staging'' else ticketStage newHash vin txns))"

definition set_input_coin :: "TxOut list \<Rightarrow> nat \<Rightarrow> MempoolInput \<Rightarrow> MempoolInput" where
  "set_input_coin outs idx i =
     (if idx < length outs
      then i\<lparr>mi_CoinType := txo_CoinType (outs ! idx),
             mi_SKAValue := (if txo_SKAValue (outs ! idx) = None then mi_SKAValue i else ska_string (outs ! idx))\<rparr>
      else i)"

definition mempool_input :: "('f, 'c) monitor_env \<Rightarrow> TxType \<Rightarrow> txns_store \<Rightarrow> nat \<times> TxIn \<Rightarrow> MempoolInput" where
  "mempool_input env ty txns p =
     (let (n, vin) = p;
          input = \<lparr>mi_TxId = hash_str (me_addr env) (PrevHash vin), mi_Index = n, mi_Outdex = PrevIndex vin, mi_CoinType = 0, mi_SKAValue = []\<rparr>
      in if ty = TxTypeRegular \<and> PrevHash vin \<noteq> zeroHash then
           (case txns (PrevHash vin) of
              Some d \<Rightarrow> set_input_coin (txOut (twb_Tx d)) (PrevIndex vin) input
            | None \<Rightarrow>
                (case FetchTx env (PrevHash vin) of
                   Some prevTx \<Rightarrow> set_input_coin (txOut prevTx) (PrevIndex vin) input
                 | None \<Rightarrow> input))
         else input)"

definition populateMempoolInputs :: "('f, 'c) monitor_env \<Rightarrow> MsgTx \<Rightarrow> TxType \<Rightarrow> txns_store \<Rightarrow> MempoolInput list" where
  "populateMempoolInputs env tx ty txns = map (mempool_input env ty txns) (enumerate 0 (txIn tx))"

text \<open>The vote information of a vote; no information when the choices cannot be decoded.\<close>

definition vote_info :: "('f, 'c) monitor_env \<Rightarrow> string \<Rightarrow> TxType \<Rightarrow> MsgTx \<Rightarrow> VoteInfo option option" where
  "vote_info env blockhash ty tx =
     (if ty \<noteq> TxTypeSSGen then Some None
      else case SSGenVoteChoices (me_votes env) tx of
        Inl e \<Rightarrow> Some None
      | Inr (validation, _) \<Rightarrow>
          if length (txIn tx) < 2 then None
          else let v = \<lparr>vi_Validation = \<lparr>bv_Hash = hash_str (me_addr env) (val_Hash validation), bv_Height = val_Height validation,
                          bv_Validity = val_Validity validation\<rparr>,
                        vi_TicketSpent = hash_str (me_addr env) (PrevHash (txIn tx ! 1)), vi_MempoolTicketIndex = 0, vi_ForLastBlock = False\<rparr>
               in Some (Some (v\<lparr>vi_ForLastBlock := VotesOnBlock v blockhash\<rparr>)))"

section \<open>A new transaction\<close>

record raw_result =
  rr_Hex :: string
  rr_Time :: int

record 'f MempoolMonitor =
  mon_inventory :: "'f MempoolInfo"
  mon_store :: addr_store
  mon_txns :: txns_store
  mon_lastBlock :: MempoolBlockID

datatype 'f handled =
    OldTx
  | BadHex
  | Duplicate
  | Held "'f MempoolMonitor" "string set"
  | Handled "'f MempoolMonitor" "string set" "'f MempoolTx"

definition txExists :: "TxType \<Rightarrow> string \<Rightarrow> 'f MempoolInfo \<Rightarrow> bool" where
  "txExists ty h mi \<longleftrightarrow> (if ty = TxTypeRegular then h \<in> InvRegular (Short mi) else h \<in> InvStake (Short mi))"

definition set_values :: "int list \<Rightarrow> MsgTx \<Rightarrow> MsgTx" where
  "set_values vals tx = tx\<lparr>txIn := map (\<lambda>(i, v). i\<lparr>ValueIn := v\<rparr>) (zip (txIn tx) vals)\<rparr>"

text \<open>The entry of the mempool for a decoded transaction. \<open>stx\<close> is the transaction with its input values set.\<close>

definition handler_tx ::
  "('f, 'c) monitor_env \<Rightarrow> raw_result \<Rightarrow> string \<Rightarrow> TxType \<Rightarrow> MsgTx \<Rightarrow> VoteInfo option \<Rightarrow> txns_store \<Rightarrow> 'f MempoolTx" where
  "handler_tx env raw h ty stx vote txns =
     (let vin = populateMempoolInputs env stx ty txns; (fee, _) = TxFeeRate (serializeSize env) stx
      in \<lparr>mt_TxID = h, mt_Fees = toCoin (me_money env) fee, mt_VinCount = length (txIn stx), mt_VoutCount = length (txOut stx), mt_Vin = vin,
          mt_Time = rr_Time raw, mt_Size = of_nat (length (rr_Hex raw) div 2),
          mt_TotalOut = toCoin (me_money env) (TotalOutFromMsgTx stx), mt_Type = TxTypeToString ty, mt_TypeID = ty, mt_VoteInfo = vote,
          mt_SKATotals = SKATotalsFromMsgTx (isSKACoin env) stx,
          mt_TicketStage = (if ty = TxTypeSStx then ticketStage (NewHashFromStr env) vin txns else [])\<rparr>)"

definition TxHandler :: "('f, 'c) monitor_env \<Rightarrow> raw_result \<Rightarrow> 'f MempoolMonitor \<Rightarrow> 'f handled option" where
  "TxHandler env raw mon =
     (if rr_Time raw < bid_Time (mon_lastBlock mon) then Some OldTx
      else case MsgTxFromHex env (rr_Hex raw) of
        None \<Rightarrow> Some BadHex
      | Some tx \<Rightarrow>
          let ty = DetermineTxType env tx; h = hash_str (me_addr env) (tx_hash (me_addr env) tx)
          in if txExists ty h (mon_inventory mon) then Some Duplicate
             else
               let (_, store1, addrsOut) = TxOutpointsByAddr (me_addr env) tx (mon_store mon)
               in case TxPrevOutsByAddr (me_addr env) tx store1 (mon_txns mon) of
                    None \<Rightarrow> None
                  | Some s \<Rightarrow>
                      let addrs = dom addrsOut \<union> dom (ps_addrs s);
                          stx = set_values (ps_valsIn s) tx;
                          txns = (ps_txns s)(tx_hash (me_addr env) tx \<mapsto>
                            \<lparr>twb_Tx = stx, twb_BlockHeight = 0, twb_BlockHash = [], twb_MemPoolTime = rr_Time raw, twb_CoinInfo = coin_info (txOut tx)\<rparr>);
                          mi = (mon_inventory mon)\<lparr>Ident := Ident (mon_inventory mon) + 1\<rparr>;
                          mon1 = mon\<lparr>mon_inventory := mi, mon_store := ps_store s, mon_txns := txns\<rparr>
                      in case vote_info env (bid_Hash (mon_lastBlock mon)) ty tx of
                           None \<Rightarrow> None
                         | Some vote \<Rightarrow>
                             (case add_tx (me_money env) (mon_lastBlock mon) (handler_tx env raw h ty stx vote txns) mi of
                                AddPanics \<Rightarrow> None
                              | FutureVote \<Rightarrow> Some (Held mon1 addrs)
                              | Added mi1 mtx \<Rightarrow> Some (Handled (mon1\<lparr>mon_inventory := mi1\<rparr>) addrs mtx)))"

section \<open>The whole mempool\<close>

record 'f mempool_entry =
  ent_Time :: int
  ent_Size :: "32 word"
  ent_Fee :: 'f

fun collect_txns ::
  "('f, 'c) monitor_env \<Rightarrow> string \<Rightarrow> (string \<times> 'f mempool_entry) list \<Rightarrow> 'f MempoolTx list \<times> addr_store \<times> txns_store \<Rightarrow>
   ('f MempoolTx list \<times> addr_store \<times> txns_store) option" where
  "collect_txns env blockhash [] st = Some st"
| "collect_txns env blockhash ((hashStr, e) # rest) (txs, store, txns) =
     (case NewHashFromStr env hashStr of
        None \<Rightarrow> collect_txns env blockhash rest (txs, store, txns)
      | Some h \<Rightarrow>
          (case FetchTx env h of
             None \<Rightarrow> collect_txns env blockhash rest (txs, store, txns)
           | Some tx \<Rightarrow>
               let ty = DetermineTxType env tx; (_, store1, _) = TxOutpointsByAddr (me_addr env) tx store
               in case TxPrevOutsByAddr (me_addr env) tx store1 txns of
                    None \<Rightarrow> None
                  | Some s \<Rightarrow>
                      let txns1 = (ps_txns s)(h \<mapsto>
                            \<lparr>twb_Tx = tx, twb_BlockHeight = 0, twb_BlockHash = [], twb_MemPoolTime = ent_Time e, twb_CoinInfo = Map.empty\<rparr>);
                          vin = populateMempoolInputs env tx ty txns1
                      in case vote_info env blockhash ty tx of
                           None \<Rightarrow> None
                         | Some vote \<Rightarrow>
                             collect_txns env blockhash rest
                               (txs @ [\<lparr>mt_TxID = hashStr, mt_Fees = ent_Fee e, mt_VinCount = length (txIn tx), mt_VoutCount = length (txOut tx),
                                        mt_Vin = vin, mt_Time = ent_Time e, mt_Size = ent_Size e,
                                        mt_TotalOut = toCoin (me_money env) (TotalOutFromMsgTx tx), mt_Type = TxTypeToString ty, mt_TypeID = ty,
                                        mt_VoteInfo = vote, mt_SKATotals = SKATotalsFromMsgTx (isSKACoin env) tx,
                                        mt_TicketStage = (if ty = TxTypeSStx then ticketStage (NewHashFromStr env) vin txns1 else [])\<rparr>],
                                ps_store s, txns1)))"

text \<open>The answers of the node: the mempool in the order in which Go walks the map, and the best block's hash.\<close>

definition mempoolTxns ::
  "('f, 'c) monitor_env \<Rightarrow> (string \<times> 'f mempool_entry) list option \<Rightarrow> string option \<Rightarrow>
   (string + ('f MempoolTx list \<times> addr_store \<times> txns_store)) option" where
  "mempoolTxns env mempool best =
     (case mempool of
        None \<Rightarrow> Some (Inl ''GetRawMempoolVerbose failed'')
      | Some entries \<Rightarrow>
          (case best of
             None \<Rightarrow> Some (Inl ''GetBestBlock failed'')
           | Some blockhash \<Rightarrow> map_option Inr (collect_txns env blockhash entries ([], Map.empty, Map.empty))))"

text \<open>\<open>Refresh\<close>, given what \<open>Collect\<close> returned.\<close>

definition Refresh ::
  "('f, 'c) monitor_env \<Rightarrow> 16 word \<Rightarrow> string + (MempoolBlockID \<times> 'f MempoolTx list \<times> addr_store \<times> txns_store) \<Rightarrow> 'f MempoolMonitor \<Rightarrow>
   (string + 'f MempoolMonitor) option" where
  "Refresh env tpb collected mon =
     (case collected of
        Inl e \<Rightarrow> Some (Inl e)
      | Inr (latestBlock, txs, addrOuts, txnsStore) \<Rightarrow>
          (case ParseTxns (me_money env) tpb latestBlock (by_time txs) of
             None \<Rightarrow> None
           | Some mi \<Rightarrow>
               Some (Inr \<lparr>mon_inventory = mi\<lparr>Ident := Ident (mon_inventory mon) + 1\<rparr>, mon_store = addrOuts, mon_txns = txnsStore,
                         mon_lastBlock = latestBlock\<rparr>)))"

section \<open>A transaction is announced once\<close>

lemma add_tx_inventory:
  assumes "add_tx m lb tx mi = Added mi' tx'" and "mt_TypeID tx \<in> {TxTypeRegular, TxTypeSStx, TxTypeSSGen, TxTypeSSRtx, TxTypeTSpend, TxTypeTAdd}"
  shows "InvRegular (Short mi') = (if mt_TypeID tx = TxTypeRegular then insert (mt_TxID tx) (InvRegular (Short mi)) else InvRegular (Short mi))"
    and "InvStake (Short mi') = (if mt_TypeID tx = TxTypeRegular then InvStake (Short mi) else insert (mt_TxID tx) (InvStake (Short mi)))"
    and "mt_TxID tx' = mt_TxID tx"
  using assms
  by (auto simp: add_tx_def add_kind_def add_vote_def to_stake_def Let_def split: option.splits prod.splits if_splits TxType.splits)

definition tree_id :: "'f MempoolTx \<Rightarrow> bool \<times> string" where
  "tree_id tx = (mt_TypeID tx = TxTypeRegular, mt_TxID tx)"

definition known_ids :: "'f MempoolInfo \<Rightarrow> (bool \<times> string) set" where
  "known_ids mi = Pair True ` InvRegular (Short mi) \<union> Pair False ` InvStake (Short mi)"

definition relayed_kind :: "TxType \<Rightarrow> bool" where
  "relayed_kind ty \<longleftrightarrow> ty \<in> {TxTypeRegular, TxTypeSStx, TxTypeSSGen, TxTypeSSRtx, TxTypeTSpend, TxTypeTAdd}"

lemma add_tx_type:
  "add_tx m lb tx mi = Added mi' tx' \<Longrightarrow> mt_TypeID tx' = mt_TypeID tx"
  by (auto simp: add_tx_def add_kind_def add_vote_def Let_def split: option.splits prod.splits if_splits TxType.splits)

definition announced :: "'f MempoolTx list \<Rightarrow> 'f MempoolTx list" where
  "announced txs = filter (\<lambda>tx. relayed_kind (mt_TypeID tx)) txs"

lemma add_tx_other:
  assumes "add_tx m lb tx mi = Added mi' tx'" and "\<not> relayed_kind (mt_TypeID tx)"
  shows "InvRegular (Short mi') = InvRegular (Short mi)" "InvStake (Short mi') = InvStake (Short mi)" "mt_TxID tx' = mt_TxID tx"
  using assms
  by (auto simp: relayed_kind_def add_tx_def add_kind_def add_vote_def to_stake_def Let_def
      split: option.splits prod.splits if_splits TxType.splits)

lemma add_tx_known:
  assumes "add_tx m lb tx mi = Added mi' tx'"
  shows "known_ids mi' = (if relayed_kind (mt_TypeID tx) then insert (tree_id tx) (known_ids mi) else known_ids mi)" and "tree_id tx' = tree_id tx"
proof -
  have "known_ids mi' = insert (tree_id tx) (known_ids mi) \<and> tree_id tx' = tree_id tx" if "relayed_kind (mt_TypeID tx)"
    using add_tx_inventory [OF assms(1)] add_tx_type [OF assms(1)] that
    by (auto simp: known_ids_def tree_id_def relayed_kind_def)
  moreover have "known_ids mi' = known_ids mi \<and> tree_id tx' = tree_id tx" if "\<not> relayed_kind (mt_TypeID tx)"
    using add_tx_other [OF assms(1) that] add_tx_type [OF assms(1)] by (simp add: known_ids_def tree_id_def)
  ultimately show "known_ids mi' = (if relayed_kind (mt_TypeID tx) then insert (tree_id tx) (known_ids mi) else known_ids mi)"
    "tree_id tx' = tree_id tx" by auto
qed

lemma txExists_known: "txExists ty h mi \<longleftrightarrow> (ty = TxTypeRegular, h) \<in> known_ids mi"
  by (auto simp: txExists_def known_ids_def)

lemma known_ids_ident [simp]: "known_ids (mi\<lparr>Ident := i\<rparr>) = known_ids mi"
  by (simp add: known_ids_def)

lemma handler_tx_tree_id: "tree_id (handler_tx env raw h ty stx vote txns) = (ty = TxTypeRegular, h)"
  by (simp add: tree_id_def handler_tx_def Let_def split: prod.split)

lemma handler_tx_type: "mt_TypeID (handler_tx env raw h ty stx vote txns) = ty"
  by (simp add: handler_tx_def Let_def split: prod.split)

lemma TxHandler_known:
  assumes "TxHandler env raw mon = Some (Handled mon' addrs mtx)"
  shows "tree_id mtx \<notin> known_ids (mon_inventory mon)"
    and "known_ids (mon_inventory mon') = (if relayed_kind (mt_TypeID mtx) then insert (tree_id mtx) (known_ids (mon_inventory mon)) else known_ids (mon_inventory mon))"
proof -
  obtain tx stx vote txns mi1 where
    ex: "\<not> txExists (DetermineTxType env tx) (hash_str (me_addr env) (tx_hash (me_addr env) tx)) (mon_inventory mon)" and
    add: "add_tx (me_money env) (mon_lastBlock mon)
      (handler_tx env raw (hash_str (me_addr env) (tx_hash (me_addr env) tx)) (DetermineTxType env tx) stx vote txns)
      ((mon_inventory mon)\<lparr>Ident := Ident (mon_inventory mon) + 1\<rparr>) = Added mi1 mtx" and mon': "mon_inventory mon' = mi1"
    using assms unfolding TxHandler_def Let_def by (auto split: if_splits option.splits prod.splits added.splits)
  note known = add_tx_known [OF add] and ty = add_tx_type [OF add]
  show "tree_id mtx \<notin> known_ids (mon_inventory mon)" using ex by (simp add: known(2) handler_tx_tree_id txExists_known)
  show "known_ids (mon_inventory mon') = (if relayed_kind (mt_TypeID mtx) then insert (tree_id mtx) (known_ids (mon_inventory mon)) else known_ids (mon_inventory mon))"
    using known mon' ty by simp
qed

lemma TxHandler_held:
  "TxHandler env raw mon = Some (Held mon' addrs) \<Longrightarrow> known_ids (mon_inventory mon') = known_ids (mon_inventory mon)"
  unfolding TxHandler_def Let_def by (auto split: if_splits option.splits prod.splits added.splits)

fun handle_run :: "('f, 'c) monitor_env \<Rightarrow> raw_result list \<Rightarrow> 'f MempoolMonitor \<Rightarrow> ('f MempoolTx list \<times> 'f MempoolMonitor) option" where
  "handle_run env [] mon = Some ([], mon)"
| "handle_run env (raw # raws) mon =
     (case TxHandler env raw mon of
        None \<Rightarrow> None
      | Some (Handled mon1 addrs tx) \<Rightarrow> map_option (\<lambda>(txs, mon2). (tx # txs, mon2)) (handle_run env raws mon1)
      | Some (Held mon1 addrs) \<Rightarrow> handle_run env raws mon1
      | Some _ \<Rightarrow> handle_run env raws mon)"

lemma handle_run_known:
  assumes "handle_run env raws mon = Some (txs, mon')"
  shows "distinct (map tree_id (announced txs)) \<and> set (map tree_id txs) \<inter> known_ids (mon_inventory mon) = {}
    \<and> known_ids (mon_inventory mon') = known_ids (mon_inventory mon) \<union> set (map tree_id (announced txs))"
  using assms
proof (induction raws arbitrary: mon txs)
  case (Cons raw raws)
  show ?case
  proof (cases "TxHandler env raw mon")
    case None
    then show ?thesis using Cons.prems by simp
  next
    case (Some r)
    show ?thesis
    proof (cases r)
      case (Held mon1 addrs)
      then show ?thesis using Cons.IH [of mon1 txs] Cons.prems Some TxHandler_held [of env raw mon mon1 addrs] by simp
    next
      case (Handled mon1 addrs tx)
      obtain ts where ts: "handle_run env raws mon1 = Some (ts, mon')" "txs = tx # ts" using Cons.prems Some Handled by auto
      have sub: "set (map tree_id (announced ts)) \<subseteq> set (map tree_id ts)" by (auto simp: announced_def)
      show ?thesis
        using Cons.IH [OF ts(1)] ts(2) TxHandler_known [OF Some [unfolded Handled]] sub by (auto simp: announced_def split: if_splits)
    qed (use Cons Some in simp_all)
  qed
qed (simp add: announced_def)

text \<open>C25. Between two refreshes of the mempool a transaction is announced at most once: whatever transactions the node
  notifies, however often and in whatever order, no announced transaction is in the inventory of the last refresh; and of the announced
  transactions that are regular, tickets, votes, revocations, treasury spends or treasury adds, no two of one tree have the same hash and all are in the
  inventory afterwards, unless the handler panics. A transaction of another kind, such as a stake fee transaction, has no place in the inventory and is
  not covered by this.\<close>

theorem TxHandler_announces_once:
  assumes "handle_run env raws mon = Some (txs, mon')"
  shows "set (map tree_id txs) \<inter> known_ids (mon_inventory mon) = {}
    \<and> distinct (map tree_id (filter (\<lambda>tx. relayed_kind (mt_TypeID tx)) txs))
    \<and> set (map tree_id (filter (\<lambda>tx. relayed_kind (mt_TypeID tx)) txs)) \<subseteq> known_ids (mon_inventory mon')"
  using handle_run_known [OF assms] by (simp add: announced_def)

definition once_env :: "(int, unit) monitor_env" where
  "once_env = \<lparr>me_addr = two_tx_env, me_money = example_money,
     me_votes = \<lparr>CheckSSGenVotes = (\<lambda>_. None), voteBitsOf = (\<lambda>_. 0), SSGenBlockVotedOn = (\<lambda>_. ([], 0)), isBlockValidBit = (\<lambda>_. True),
       SSGenVersion = (\<lambda>_. 0), Deployments = (\<lambda>_. [])\<rparr>,
     MsgTxFromHex = (\<lambda>_. Some first_tx), DetermineTxType = (\<lambda>_. TxTypeRegular), NewHashFromStr = (\<lambda>_. None), FetchTx = (\<lambda>_. None),
     isSKACoin = (\<lambda>c. c \<noteq> 0), serializeSize = (\<lambda>_. 100)\<rparr>"

definition once_mon :: "int MempoolMonitor" where
  "once_mon = \<lparr>mon_inventory = parse_info example_money \<lparr>bid_Hash = ''top'', bid_Height = 9, bid_Time = 1\<rparr> [] (parse_init 5),
     mon_store = Map.empty, mon_txns = Map.empty, mon_lastBlock = \<lparr>bid_Hash = ''top'', bid_Height = 9, bid_Time = 1\<rparr>\<rparr>"

theorem TxHandler_announces_once_witness:
  "\<exists>tx mon'. handle_run once_env [\<lparr>rr_Hex = ''00'', rr_Time = 5\<rparr>, \<lparr>rr_Hex = ''00'', rr_Time = 6\<rparr>] once_mon = Some ([tx], mon')
     \<and> set (map tree_id [tx]) \<subseteq> known_ids (mon_inventory mon')"
proof -
  let ?first = "\<lparr>rr_Hex = ''00'', rr_Time = 5\<rparr>" and ?second = "\<lparr>rr_Hex = ''00'', rr_Time = 6\<rparr>"
  have "\<exists>mon1 addrs tx. TxHandler once_env ?first once_mon = Some (Handled mon1 addrs tx) \<and> mon_lastBlock mon1 = mon_lastBlock once_mon"
    by (simp add: TxHandler_def once_env_def once_mon_def parse_info_def parse_init_def txExists_def TxPrevOutsByAddr_def two_tx_facts
        vote_info_def add_tx_def add_kind_def handler_tx_def Let_def split: prod.split)
  then obtain mon1 addrs tx where run: "TxHandler once_env ?first once_mon = Some (Handled mon1 addrs tx)"
    "mon_lastBlock mon1 = mon_lastBlock once_mon" by blast
  have id: "tree_id tx = (True, hash_str two_tx_env (tx_hash two_tx_env first_tx))"
    using run(1) unfolding TxHandler_def Let_def
    by (auto simp: once_env_def handler_tx_tree_id dest!: add_tx_known(2) split: if_splits option.splits prod.splits added.splits)
  then have kind: "relayed_kind (mt_TypeID tx)" by (simp add: tree_id_def relayed_kind_def)
  have "txExists TxTypeRegular (hash_str two_tx_env (tx_hash two_tx_env first_tx)) (mon_inventory mon1)"
    using TxHandler_known(2) [OF run(1)] id kind by (simp add: txExists_known)
  then have "TxHandler once_env ?second mon1 = Some Duplicate"
    using run(2) by (simp add: TxHandler_def once_env_def once_mon_def)
  then have "handle_run once_env [?first, ?second] once_mon = Some ([tx], mon1)" using run(1) by simp
  then show ?thesis using TxHandler_announces_once [of once_env "[?first, ?second]" once_mon] kind by auto
qed

section \<open>The cache of the API\<close>

record 'f DataCache =
  dc_height :: nat
  dc_hash :: string
  dc_timestamp :: int
  dc_txns :: "'f MempoolTx list"
  dc_numTickets :: nat
  dc_allFees :: "'f list"
  dc_allFeeRates :: "'f list"
  dc_lowestMineable :: 'f
  dc_stakeDiff :: int

record 'f StakeData =
  sd_LatestBlock :: MempoolBlockID
  sd_Time :: int
  sd_NumTickets :: nat
  sd_allFees :: "'f list"
  sd_allFeeRates :: "'f list"
  sd_lowestMineableFee :: 'f
  sd_StakeDiff :: 'f

text \<open>\<open>amountOf\<close> is \<open>dcrutil.NewAmount\<close>, which fails on a value that is not a number.\<close>

definition StoreMPData :: "('f \<Rightarrow> int option) \<Rightarrow> 'f StakeData option \<Rightarrow> 'f MempoolTx list \<Rightarrow> 'f DataCache \<Rightarrow> 'f DataCache" where
  "StoreMPData amountOf stakeData txsCopy c =
     (case stakeData of
        None \<Rightarrow> c
      | Some d \<Rightarrow>
          c\<lparr>dc_height := nat (bid_Height (sd_LatestBlock d) mod 2 ^ 32), dc_hash := bid_Hash (sd_LatestBlock d), dc_timestamp := sd_Time d,
            dc_txns := txsCopy, dc_numTickets := sd_NumTickets d, dc_allFees := sd_allFees d, dc_allFeeRates := sd_allFeeRates d,
            dc_lowestMineable := sd_lowestMineableFee d,
            dc_stakeDiff := (case amountOf (sd_StakeDiff d) of None \<Rightarrow> dc_stakeDiff c | Some s \<Rightarrow> s)\<rparr>)"

definition last_n :: "int \<Rightarrow> 'a list \<Rightarrow> 'a list" where
  "last_n N xs =
     (let n = int (length xs)
      in if N = 0 then []
         else if N < 0 \<or> N \<ge> n then xs
         else if N < n then drop (nat (n - N)) xs
         else [])"

definition GetFees :: "int \<Rightarrow> 'f DataCache \<Rightarrow> nat \<times> nat \<times> 'f list" where
  "GetFees N c = (dc_height c, length (dc_allFees c), last_n N (dc_allFees c))"

definition GetFeeRates :: "int \<Rightarrow> 'f DataCache \<Rightarrow> nat \<times> int \<times> nat \<times> 'f list" where
  "GetFeeRates N c = (dc_height c, dc_timestamp c, length (dc_allFeeRates c), last_n N (dc_allFeeRates c))"

fun spenders_in :: "string \<Rightarrow> string \<Rightarrow> nat \<Rightarrow> MempoolInput list \<Rightarrow> (string \<times> nat \<times> nat) list" where
  "spenders_in funding txid i [] = []"
| "spenders_in funding txid i (vin # vins) =
     (if mi_TxId vin = funding then (txid, i, mi_Outdex vin) # spenders_in funding txid (Suc i) vins
      else spenders_in funding txid (Suc i) vins)"

text \<open>The three slices that the code returns, as one list.\<close>

definition dc_Spenders :: "string \<Rightarrow> 'f DataCache \<Rightarrow> (string \<times> nat \<times> nat) list" where
  "dc_Spenders funding c = concat (map (\<lambda>tx. spenders_in funding (mt_TxID tx) 0 (mt_Vin tx)) (dc_txns c))"

lemma last_n_length: "0 \<le> N \<Longrightarrow> length (last_n N xs) = min (nat N) (length xs)"
  by (auto simp: last_n_def Let_def)

lemma last_n_suffix: "\<exists>ys. xs = ys @ last_n N xs"
proof -
  have "\<exists>k. last_n N xs = drop k xs"
  proof (cases "N = 0")
    case True
    then show ?thesis by (intro exI [of _ "length xs"]) (simp add: last_n_def)
  next
    case False
    then show ?thesis
      by (cases "N < 0 \<or> N \<ge> int (length xs)") (auto simp: last_n_def Let_def intro: exI [of _ 0])
  qed
  then obtain k where "last_n N xs = drop k xs" ..
  then have "xs = take k xs @ last_n N xs" by simp
  then show ?thesis ..
qed

text \<open>The fees are sorted ascending, so the request for \<open>N\<close> fees is answered with the \<open>N\<close> largest: every fee that is left
  out is at most every fee returned.\<close>

lemma GetFees_largest:
  assumes "sorted (dc_allFees c)" and "dc_allFees c = rest @ snd (snd (GetFees N c))" and "x \<in> set rest" and "y \<in> set (snd (snd (GetFees N c)))"
  shows "x \<le> y"
  using assms by (metis sorted_append)

lemma spenders_in_member:
  "(h, i, k) \<in> set (spenders_in funding txid j vins)
     \<longleftrightarrow> h = txid \<and> (\<exists>n < length vins. i = j + n \<and> mi_TxId (vins ! n) = funding \<and> mi_Outdex (vins ! n) = k)"
proof (induction vins arbitrary: j)
  case (Cons vin vins)
  show ?case by (auto simp: Cons.IH less_Suc_eq_0_disj)
qed simp

text \<open>The spenders of a transaction are all inputs of the cached mempool that refer to it.\<close>

lemma dc_Spenders_all:
  "(h, i, k) \<in> set (dc_Spenders funding c)
     \<longleftrightarrow> (\<exists>tx \<in> set (dc_txns c). mt_TxID tx = h \<and> i < length (mt_Vin tx) \<and> mi_TxId (mt_Vin tx ! i) = funding \<and> mi_Outdex (mt_Vin tx ! i) = k)"
  by (auto simp: dc_Spenders_def spenders_in_member)

end
