(* ===== verification/MempoolRead.thy ===== *)
theory MempoolRead
  imports MempoolMonitor
begin

text \<open>
  The readers of the mempool's inventory in \<open>explorer/types/explorertypes.go\<close>: the lookup of a transaction, the spenders of a
  transaction, and the trimmed form that the pages show. Amounts in coins are converted by the parameter \<open>money\<close>.
\<close>

section \<open>Lookups\<close>

definition getTxFromList :: "string \<Rightarrow> 'f MempoolTx list \<Rightarrow> 'f MempoolTx option" where
  "getTxFromList txid txns = find (\<lambda>tx. mt_TxID tx = txid) txns"

definition MempoolInfo_Tx :: "string \<Rightarrow> 'f MempoolInfo \<Rightarrow> 'f MempoolTx option" where
  "MempoolInfo_Tx txid mi =
     (if txid \<in> InvRegular (Short mi) then getTxFromList txid (Transactions mi)
      else if txid \<in> InvStake (Short mi) then
        (case getTxFromList txid (Tickets mi) of
           Some tx \<Rightarrow> Some tx
         | None \<Rightarrow>
             (case getTxFromList txid (Votes mi) of
                Some tx \<Rightarrow> Some tx
              | None \<Rightarrow>
                  (case getTxFromList txid (TAdds mi) of
                     Some tx \<Rightarrow> Some tx
                   | None \<Rightarrow>
                       (case getTxFromList txid (TSpends mi) of
                          Some tx \<Rightarrow> Some tx
                        | None \<Rightarrow> getTxFromList txid (Revocations mi)))))
      else None)"

record TxInID =
  tid_Hash :: string
  tid_Index :: nat

fun spenders_loop :: "string \<Rightarrow> string \<Rightarrow> nat \<Rightarrow> MempoolInput list \<Rightarrow> (nat \<rightharpoonup> TxInID) \<Rightarrow> (nat \<rightharpoonup> TxInID)" where
  "spenders_loop funding txid i [] m = m"
| "spenders_loop funding txid i (vin # vins) m =
     spenders_loop funding txid (Suc i) vins
       (if mi_TxId vin = funding then m(mi_Outdex vin \<mapsto> \<lparr>tid_Hash = txid, tid_Index = i\<rparr>) else m)"

definition search_spenders :: "string \<Rightarrow> 'f MempoolTx list \<Rightarrow> (nat \<rightharpoonup> TxInID) \<Rightarrow> (nat \<rightharpoonup> TxInID)" where
  "search_spenders funding txns m = foldl (\<lambda>m tx. spenders_loop funding (mt_TxID tx) 0 (mt_Vin tx) m) m txns"

definition MempoolInfo_Spenders :: "string \<Rightarrow> 'f MempoolInfo \<Rightarrow> (nat \<rightharpoonup> TxInID)" where
  "MempoolInfo_Spenders funding mi =
     search_spenders funding (TAdds mi) (search_spenders funding (TSpends mi) (search_spenders funding (Revocations mi)
       (search_spenders funding (Votes mi) (search_spenders funding (Tickets mi) (search_spenders funding (Transactions mi) Map.empty)))))"

lemma getTxFromList_Some: "getTxFromList txid txns = Some tx \<Longrightarrow> tx \<in> set txns \<and> mt_TxID tx = txid"
  by (auto simp: getTxFromList_def find_Some_iff)

lemma getTxFromList_None: "getTxFromList txid txns = None \<longleftrightarrow> txid \<notin> mt_TxID ` set txns"
  by (auto simp: getTxFromList_def find_None_iff)

text \<open>An inventory that describes a mempool finds exactly its transactions.\<close>

lemma MempoolInfo_Tx_finds:
  assumes "describes m tpb lb txs mi" and "ok_mempool m lb txs"
  shows "(MempoolInfo_Tx txid mi \<noteq> None \<longleftrightarrow> txid \<in> mt_TxID ` set txs)
    \<and> (\<forall>tx. MempoolInfo_Tx txid mi = Some tx \<longrightarrow> mt_TxID tx = txid)"
proof -
  have lists: "lists_ok txs mi" using assms(1) by (simp add: describes_def)
  then have votes: "mt_TxID ` set (Votes mi) = mt_TxID ` set (of_kind TxTypeSSGen txs)"
    by (metis image_set lists_ok_def mset_eq_setD)
  have kinds: "mt_TypeID tx \<in> {TxTypeRegular, TxTypeSStx, TxTypeSSGen, TxTypeSSRtx}" if "tx \<in> set txs" for tx
    using assms(2) that by (auto simp: ok_mempool_def list_all_iff ok_tx_def)
  have "MempoolInfo_Tx txid mi \<noteq> None \<longleftrightarrow> txid \<in> InvRegular (Short mi) \<or> txid \<in> InvStake (Short mi)"
  proof (cases "txid \<in> InvRegular (Short mi)")
    case True
    then show ?thesis using lists by (simp add: MempoolInfo_Tx_def getTxFromList_None lists_ok_def)
  next
    case False
    have "txid \<in> InvStake (Short mi) \<Longrightarrow> txid \<in> mt_TxID ` set (Tickets mi) \<or> txid \<in> mt_TxID ` set (Votes mi) \<or> txid \<in> mt_TxID ` set (Revocations mi)"
      using lists kinds unfolding votes by (fastforce simp: lists_ok_def of_kind_def stake_ids_def)
    then show ?thesis using False by (auto simp: MempoolInfo_Tx_def getTxFromList_None split: option.splits)
  qed
  moreover have "txid \<in> InvRegular (Short mi) \<or> txid \<in> InvStake (Short mi) \<longleftrightarrow> txid \<in> mt_TxID ` set txs"
    using lists by (auto simp: lists_ok_def of_kind_def stake_ids_def)
  moreover have "mt_TxID tx = txid" if "MempoolInfo_Tx txid mi = Some tx" for tx
    using that by (auto simp: MempoolInfo_Tx_def split: if_splits option.splits dest: getTxFromList_Some)
  ultimately show ?thesis by blast
qed

section \<open>The trimmed mempool\<close>

text \<open>The coin type appears twice: in the embedded \<open>TxBasic\<close>, and in a field of its own that hides it.\<close>

record 'f TrimmedTxInfo =
  tr_TxID :: string
  tr_Type :: string
  tr_FormattedSize :: string
  tr_Total :: 'f
  tr_Fee :: int
  tr_FeeRate :: int
  tr_VoteInfo :: "VoteInfo option"
  tr_Basic_CoinType :: byte
  tr_SKASent :: "(byte \<times> string) list"
  tr_Coinbase :: bool
  tr_Fees :: 'f
  tr_VoteValid :: bool
  tr_VinCount :: nat
  tr_VoutCount :: nat
  tr_CoinType :: byte

definition primaryCoinType :: "'f MempoolTx \<Rightarrow> byte" where
  "primaryCoinType tx = (case mt_SKATotals tx of [] \<Rightarrow> 0 | (ct, _) # _ \<Rightarrow> ct)"

definition TrimMempoolTx :: "'f money \<Rightarrow> 'f MempoolTx \<Rightarrow> 'f TrimmedTxInfo" where
  "TrimMempoolTx m tx =
     (let fee = newAmount m (mt_Fees tx); sz = sint (mt_Size tx)
      in \<lparr>tr_TxID = mt_TxID tx, tr_Type = mt_Type tx, tr_FormattedSize = bytesStr m (mt_Size tx), tr_Total = mt_TotalOut tx, tr_Fee = fee,
          tr_FeeRate = (if sz > 0 then go_div fee sz else 0), tr_VoteInfo = mt_VoteInfo tx, tr_Basic_CoinType = primaryCoinType tx,
          tr_SKASent = mt_SKATotals tx, tr_Coinbase = False, tr_Fees = mt_Fees tx,
          tr_VoteValid = (case mt_VoteInfo tx of None \<Rightarrow> False | Some v \<Rightarrow> bv_Validity (vi_Validation v)),
          tr_VinCount = mt_VinCount tx, tr_VoutCount = mt_VoutCount tx, tr_CoinType = 0\<rparr>)"

definition TrimMempoolTxs :: "'f money \<Rightarrow> 'f MempoolTx list \<Rightarrow> 'f TrimmedTxInfo list" where
  "TrimMempoolTxs m txs = map (TrimMempoolTx m) txs"

definition FilterRegularTx :: "'f TrimmedTxInfo list \<Rightarrow> 'f TrimmedTxInfo list" where
  "FilterRegularTx txs = filter (\<lambda>tx. \<not> tr_Coinbase tx) txs"

fun unique_votes :: "string set \<Rightarrow> 'f TrimmedTxInfo list \<Rightarrow> 'f TrimmedTxInfo list" where
  "unique_votes seen [] = []"
| "unique_votes seen (tx # txs) =
     (case tr_VoteInfo tx of
        None \<Rightarrow> unique_votes seen txs
      | Some v \<Rightarrow>
          if vi_ForLastBlock v \<and> tr_TxID tx \<notin> seen then tx # unique_votes (insert (tr_TxID tx) seen) txs
          else unique_votes seen txs)"

definition FilterUniqueLastBlockVotes :: "'f TrimmedTxInfo list \<Rightarrow> 'f TrimmedTxInfo list" where
  "FilterUniqueLastBlockVotes txs = unique_votes {} txs"

record 'f TrimmedMempoolInfo =
  tm_Transactions :: "'f TrimmedTxInfo list"
  tm_Tickets :: "'f TrimmedTxInfo list"
  tm_Votes :: "'f TrimmedTxInfo list"
  tm_Revocations :: "'f TrimmedTxInfo list"
  tm_TSpends :: "'f TrimmedTxInfo list"
  tm_TAdds :: "'f TrimmedTxInfo list"
  tm_Total :: 'f
  tm_Time :: int
  tm_CoinStats :: coin_stats
  tm_TotalSize :: "32 word"
  tm_Fees :: 'f

definition total_fee :: "'f TrimmedTxInfo list \<Rightarrow> int" where
  "total_fee txs = foldl (\<lambda>s tx. wrap64 (s + tr_Fee tx)) 0 txs"

text \<open>The fill bars, which are copied, and the block size are left out.\<close>

definition MempoolInfo_Trim :: "'f money \<Rightarrow> 'f MempoolInfo \<Rightarrow> 'f TrimmedMempoolInfo" where
  "MempoolInfo_Trim m mi =
     (let regular = FilterRegularTx (TrimMempoolTxs m (Transactions mi)); tickets = TrimMempoolTxs m (Tickets mi);
          votes = FilterUniqueLastBlockVotes (TrimMempoolTxs m (Votes mi)); revs = TrimMempoolTxs m (Revocations mi)
      in \<lparr>tm_Transactions = regular, tm_Tickets = tickets, tm_Votes = votes, tm_Revocations = revs,
          tm_TSpends = TrimMempoolTxs m (TSpends mi), tm_TAdds = TrimMempoolTxs m (TAdds mi),
          tm_Total = TotalOut (Short mi), tm_Time = LastBlockTime (Short mi), tm_CoinStats = CoinStats (Short mi),
          tm_TotalSize = TotalSize (Short mi),
          tm_Fees = toCoin m (wrap64 (total_fee regular + total_fee revs + total_fee tickets + total_fee votes))\<rparr>)"

lemma unique_votes_ids:
  "distinct (map tr_TxID (unique_votes seen txs)) \<and> set (map tr_TxID (unique_votes seen txs)) \<inter> seen = {}
   \<and> (\<forall>t \<in> set (unique_votes seen txs). \<exists>v. tr_VoteInfo t = Some v \<and> vi_ForLastBlock v)"
  by (induction seen txs rule: unique_votes.induct) (auto split: option.splits)

lemma unique_votes_complete:
  "t \<in> set txs \<Longrightarrow> tr_VoteInfo t = Some v \<Longrightarrow> vi_ForLastBlock v \<Longrightarrow> tr_TxID t \<in> seen \<union> tr_TxID ` set (unique_votes seen txs)"
  by (induction seen txs rule: unique_votes.induct) (auto split: option.splits)

text \<open>The votes that are shown are the votes on the last block, each once by its hash. Two votes of one ticket are both shown.\<close>

lemma FilterUniqueLastBlockVotes_ids:
  "distinct (map tr_TxID (FilterUniqueLastBlockVotes txs))"
  "tr_TxID ` set (FilterUniqueLastBlockVotes txs) = tr_TxID ` {t \<in> set txs. \<exists>v. tr_VoteInfo t = Some v \<and> vi_ForLastBlock v}"
proof -
  have sub: "set (unique_votes seen txs) \<subseteq> set txs" for seen
    by (induction seen txs rule: unique_votes.induct) (auto split: option.splits)
  show "distinct (map tr_TxID (FilterUniqueLastBlockVotes txs))"
    using unique_votes_ids [of "{}" txs] by (simp add: FilterUniqueLastBlockVotes_def)
  show "tr_TxID ` set (FilterUniqueLastBlockVotes txs) = tr_TxID ` {t \<in> set txs. \<exists>v. tr_VoteInfo t = Some v \<and> vi_ForLastBlock v}"
    using unique_votes_ids [of "{}" txs] unique_votes_complete [of _ txs _ "{}"] sub [of "{}"]
    by (fastforce simp: FilterUniqueLastBlockVotes_def)
qed

text \<open>Only the hidden coin type is set: the one that is read and encoded is that of \<open>VAR\<close> for every transaction.\<close>

lemma trimmed_coin_type:
  "mt_SKATotals tx = (ct, amt) # rest \<Longrightarrow> tr_Basic_CoinType (TrimMempoolTx m tx) = ct \<and> tr_CoinType (TrimMempoolTx m tx) = 0"
  by (simp add: TrimMempoolTx_def primaryCoinType_def Let_def)

end
