(* ===== verification/CoinRows.thy ===== *)
theory CoinRows
  imports MempoolStats
begin

text \<open>
  The tables by coin of \<open>explorer/types/explorertypes.go\<close>: symbols of coin types, amounts and counts by coin, the rows of a
  block, and the fill bars. A Go map from coin types is the list of its entries in the order in which it is walked.
  \<open>sort.Slice\<close> sorts numbers, so its result is determined. The operations on \<open>float64\<close> are the parameter \<open>fill_ops\<close>, the
  text of a size is the parameter \<open>bytes\<close>.
\<close>

section \<open>Symbols\<close>

definition CoinTypeSymbol :: "byte \<Rightarrow> string" where
  "CoinTypeSymbol ct = (if ct = 0 then ''VAR'' else ''SKA'' @ show_nat (unat ct))"

definition CoinTypeFromSymbol :: "string \<Rightarrow> byte \<times> bool" where
  "CoinTypeFromSymbol s =
     (if s = ''VAR'' then (0, True)
      else if length s > 3 \<and> take 3 s = ''SKA'' then
        (case ParseInt64 (drop 3 s) of
           None \<Rightarrow> (0, False)
         | Some n \<Rightarrow> if n \<ge> 1 \<and> n \<le> 255 then (of_int n, True) else (0, False))
      else (0, False))"

lemma show_nat_int: "show_nat n = show_int (int n)"
  by (simp add: show_int_def)

lemma ParseInt64_small: "0 \<le> i \<Longrightarrow> i < 256 \<Longrightarrow> ParseInt64 (show_int i) = Some i"
  by simp

lemma parse_dec_nil [simp]: "parse_dec [] = None"
  by (simp add: parse_dec_def)

text \<open>Symbols and coin types correspond: reading the symbol of a coin type gives it back, and the texts that are read as a
  coin type are \<open>VAR\<close> for 0 and \<open>SKA\<close> followed by a decimal number between 1 and 255 for that number.\<close>

theorem CoinTypeSymbol_roundtrip:
  "CoinTypeFromSymbol (CoinTypeSymbol c) = (c, True)
   \<and> (CoinTypeFromSymbol s = (ct, True) \<longleftrightarrow>
        s = ''VAR'' \<and> ct = 0 \<or> (\<exists>t n. s = ''SKA'' @ t \<and> parse_dec t = Some n \<and> 1 \<le> n \<and> n \<le> 255 \<and> ct = of_int n))"
proof
  show "CoinTypeFromSymbol (CoinTypeSymbol c) = (c, True)"
  proof (cases "c = 0")
    case True
    then show ?thesis by (simp add: CoinTypeSymbol_def CoinTypeFromSymbol_def)
  next
    case False
    then have pos: "0 < unat c" by (simp add: unat_gt_0)
    have lt: "unat c < 256" using unsigned_less [of c, where ?'a = nat] by simp
    obtain d t where "show_nat (unat c) = d # t" using show_nat_head by blast
    moreover have "ParseInt64 (show_nat (unat c)) = Some (int (unat c))"
      unfolding show_nat_int by (rule ParseInt64_small) (use lt in linarith)+
    moreover have "1 \<le> int (unat c) \<and> int (unat c) \<le> 255" using pos lt by linarith
    ultimately show ?thesis using False by (simp add: CoinTypeSymbol_def CoinTypeFromSymbol_def)
  qed
  show "CoinTypeFromSymbol s = (ct, True) \<longleftrightarrow>
      s = ''VAR'' \<and> ct = 0 \<or> (\<exists>t n. s = ''SKA'' @ t \<and> parse_dec t = Some n \<and> 1 \<le> n \<and> n \<le> 255 \<and> ct = of_int n)" (is "?L = ?R")
  proof
    assume L: ?L
    show ?R
    proof (cases "s = ''VAR''")
      case False
      with L obtain n where n: "take 3 s = ''SKA''" "ParseInt64 (drop 3 s) = Some n" "1 \<le> n" "n \<le> 255" "ct = of_int n"
        by (auto simp: CoinTypeFromSymbol_def split: if_splits option.splits)
      moreover have "parse_dec (drop 3 s) = Some n" using n(2) by (auto simp: ParseInt64_def split: option.splits if_splits)
      moreover have "s = ''SKA'' @ drop 3 s" using n(1) by (metis append_take_drop_id)
      ultimately show ?thesis by blast
    qed (use L in \<open>simp add: CoinTypeFromSymbol_def\<close>)
  next
    assume ?R
    then show ?L
    proof (elim disjE conjE exE)
      fix t n
      assume t: "s = ''SKA'' @ t" "parse_dec t = Some n" "1 \<le> n" "n \<le> 255" "ct = of_int n"
      then have "t \<noteq> []" by auto
      moreover have "ParseInt64 t = Some n" using t by (simp add: ParseInt64_def)
      ultimately show ?L using t by (simp add: CoinTypeFromSymbol_def)
    qed (simp add: CoinTypeFromSymbol_def)
  qed
qed

section \<open>Amounts and counts by coin\<close>

record CoinAmount =
  cam_CoinType :: byte
  cam_Symbol :: string
  cam_Amount :: string

definition shown :: "string \<Rightarrow> bool" where
  "shown amt \<longleftrightarrow> amt \<noteq> ''0'' \<and> amt \<noteq> []"

definition ska_amounts :: "(byte \<times> string) list \<Rightarrow> byte list \<Rightarrow> CoinAmount list" where
  "ska_amounts amounts skaTypes =
     concat (map (\<lambda>ct. case map_of amounts ct of
         None \<Rightarrow> []
       | Some amt \<Rightarrow> if shown amt then [\<lparr>cam_CoinType = ct, cam_Symbol = CoinTypeSymbol ct, cam_Amount = amt\<rparr>] else []) skaTypes)"

definition TotalSentByCoinFromMap :: "(byte \<times> string) list \<Rightarrow> byte list \<Rightarrow> CoinAmount list" where
  "TotalSentByCoinFromMap coinAmounts issuedSKA =
     (if coinAmounts = [] then []
      else (case map_of coinAmounts 0 of None \<Rightarrow> [] | Some amt \<Rightarrow> [\<lparr>cam_CoinType = 0, cam_Symbol = ''VAR'', cam_Amount = amt\<rparr>])
        @ ska_amounts coinAmounts (sort (if issuedSKA \<noteq> [] then issuedSKA else filter (\<lambda>ct. ct \<noteq> 0) (map fst coinAmounts))))"

definition FeesByCoinFromAmounts :: "(byte \<times> string) list \<Rightarrow> CoinAmount list" where
  "FeesByCoinFromAmounts feeAmounts =
     (if feeAmounts = [] then []
      else (case map_of feeAmounts 0 of
              None \<Rightarrow> []
            | Some amt \<Rightarrow> if shown amt then [\<lparr>cam_CoinType = 0, cam_Symbol = ''VAR'', cam_Amount = amt\<rparr>] else [])
        @ ska_amounts feeAmounts (sort (filter (\<lambda>ct. ct \<noteq> 0) (map fst feeAmounts))))"

record CoinRowData =
  cr_CoinType :: byte
  cr_Symbol :: string
  cr_TxCount :: int
  cr_Amount :: string
  cr_Size :: "32 word"

record CoinCount =
  cc_CoinType :: byte
  cc_Symbol :: string
  cc_Count :: int

definition var_regular :: "int \<Rightarrow> nat \<Rightarrow> nat \<Rightarrow> nat \<Rightarrow> int" where
  "var_regular n voters freshStake revocations =
     (let regular = n - int voters - int freshStake - int revocations in if regular < 0 then 0 else regular)"

definition RegularCoinCountsFromCoinRows :: "CoinRowData list \<Rightarrow> nat \<Rightarrow> nat \<Rightarrow> nat \<Rightarrow> CoinCount list" where
  "RegularCoinCountsFromCoinRows rows voters freshStake revocations =
     (let rowMap = foldl (\<lambda>m r. m(cr_CoinType r \<mapsto> r)) Map.empty rows;
          coinTypes = sort (remdups (map cr_CoinType rows))
      in concat (map (\<lambda>ct.
           let row = the (rowMap ct);
               regular = (if ct = 0 then var_regular (cr_TxCount row) voters freshStake revocations else cr_TxCount row)
           in if ct \<noteq> 0 \<and> regular = 0 then []
              else [\<lparr>cc_CoinType = ct, cc_Symbol = CoinTypeSymbol ct, cc_Count = regular\<rparr>]) coinTypes))"

record SKASubRow =
  sub_TokenType :: string
  sub_TxCount :: int
  sub_Amount :: string
  sub_Size :: string

record BlockBasic =
  bb_Voters :: nat
  bb_FreshStake :: nat
  bb_Revocations :: nat
  bb_CoinRows :: "CoinRowData list"
  bb_VARAmount :: string
  bb_VARTxCount :: int
  bb_VARSize :: string
  bb_SKAAmount :: string
  bb_SKAActiveSubRows :: nat
  bb_SKASubRows :: "SKASubRow list"

fun flatten_rows :: "(nat \<Rightarrow> string) \<Rightarrow> CoinRowData list \<Rightarrow> BlockBasic \<Rightarrow> BlockBasic" where
  "flatten_rows bytes [] b = b"
| "flatten_rows bytes (row # rows) b =
     flatten_rows bytes rows
       (if cr_CoinType row = 0 then
          b\<lparr>bb_VARAmount := cr_Amount row,
            bb_VARTxCount := var_regular (cr_TxCount row) (bb_Voters b) (bb_FreshStake b) (bb_Revocations b),
            bb_VARSize := bytes (unat (cr_Size row))\<rparr>
        else
          b\<lparr>bb_SKASubRows := bb_SKASubRows b @
              [\<lparr>sub_TokenType = cr_Symbol row, sub_TxCount = cr_TxCount row, sub_Amount = cr_Amount row, sub_Size = bytes (unat (cr_Size row))\<rparr>],
            bb_SKAActiveSubRows := (if cr_TxCount row > 0 then Suc (bb_SKAActiveSubRows b) else bb_SKAActiveSubRows b),
            bb_SKAAmount := (if bb_SKAAmount b = [] then cr_Amount row else bb_SKAAmount b)\<rparr>)"

definition FlattenCoinRows :: "(nat \<Rightarrow> string) \<Rightarrow> BlockBasic \<Rightarrow> BlockBasic" where
  "FlattenCoinRows bytes b =
     flatten_rows bytes (bb_CoinRows b)
       (b\<lparr>bb_VARAmount := [], bb_VARTxCount := 0, bb_VARSize := [], bb_SKAAmount := [], bb_SKAActiveSubRows := 0, bb_SKASubRows := []\<rparr>)"

text \<open>Sorted distinct coin types with shown amounts.\<close>

lemma ska_amounts_types:
  "map cam_CoinType (ska_amounts amounts cts) = filter (\<lambda>ct. case map_of amounts ct of None \<Rightarrow> False | Some amt \<Rightarrow> shown amt) cts"
  by (induction cts) (auto simp: ska_amounts_def split: option.splits)

lemma ska_amounts_member:
  "c \<in> set (ska_amounts amounts cts)
     \<longleftrightarrow> cam_CoinType c \<in> set cts \<and> map_of amounts (cam_CoinType c) = Some (cam_Amount c) \<and> shown (cam_Amount c)
         \<and> cam_Symbol c = CoinTypeSymbol (cam_CoinType c)"
  by (cases c) (auto simp: ska_amounts_def split: option.splits if_splits)

lemma sorted_keys:
  fixes amounts :: "(byte \<times> string) list"
  assumes "distinct (map fst amounts)"
  shows "sorted_wrt (<) (sort (filter (\<lambda>ct. ct \<noteq> 0) (map fst amounts)))" "\<forall>ct \<in> set (filter (\<lambda>ct. ct \<noteq> 0) (map fst amounts)). 0 < ct"
  using assms by (auto simp: strict_sorted_iff less_le)

lemma sorted_wrt_filter: "sorted_wrt R xs \<Longrightarrow> sorted_wrt R (filter Q xs)"
  by (induction xs) auto

text \<open>The fees of a block are listed by coin: each coin of the map whose amount is neither empty nor \<open>0\<close> appears once, with its
  symbol and amount, in strictly ascending order of the coin types, which puts \<open>VAR\<close> first; nothing else is listed.\<close>

theorem FeesByCoin_listed:
  assumes "distinct (map fst fees)"
  shows "sorted_wrt (<) (map cam_CoinType (FeesByCoinFromAmounts fees))
    \<and> (\<forall>c. c \<in> set (FeesByCoinFromAmounts fees) \<longleftrightarrow>
         (cam_CoinType c, cam_Amount c) \<in> set fees \<and> shown (cam_Amount c) \<and> cam_Symbol c = CoinTypeSymbol (cam_CoinType c))"
proof (cases "fees = []")
  case True
  then show ?thesis by (simp add: FeesByCoinFromAmounts_def)
next
  case False
  let ?ks = "sort (filter (\<lambda>ct. ct \<noteq> 0) (map fst fees))"
  have sorted: "sorted_wrt (<) (map cam_CoinType (ska_amounts fees ?ks))"
    unfolding ska_amounts_types by (rule sorted_wrt_filter) (rule sorted_keys(1) [OF assms])
  have pos: "\<forall>c \<in> set (ska_amounts fees ?ks). 0 < cam_CoinType c"
    using sorted_keys(2) [OF assms] by (auto simp: ska_amounts_member)
  have mem: "map_of fees k = Some v \<longleftrightarrow> (k, v) \<in> set fees" for k v using assms by simp
  have "sorted_wrt (<) (map cam_CoinType (FeesByCoinFromAmounts fees))"
    using False sorted pos by (auto simp: FeesByCoinFromAmounts_def split: option.split)
  moreover have "c \<in> set (FeesByCoinFromAmounts fees) \<longleftrightarrow>
      (cam_CoinType c, cam_Amount c) \<in> set fees \<and> shown (cam_Amount c) \<and> cam_Symbol c = CoinTypeSymbol (cam_CoinType c)" for c
  proof (cases "cam_CoinType c = 0")
    case True
    then show ?thesis
      using False mem [of 0 "cam_Amount c"]
      by (cases c) (auto simp: FeesByCoinFromAmounts_def ska_amounts_member CoinTypeSymbol_def split: option.split)
  next
    case ne: False
    then have "c \<in> set (FeesByCoinFromAmounts fees) \<longleftrightarrow> c \<in> set (ska_amounts fees ?ks)"
      using False by (auto simp: FeesByCoinFromAmounts_def split: option.split)
    then show ?thesis using ne mem [of "cam_CoinType c" "cam_Amount c"] by (auto simp: ska_amounts_member intro: rev_image_eqI)
  qed
  ultimately show ?thesis by blast
qed

theorem FeesByCoin_listed_witness:
  "FeesByCoinFromAmounts [(2, ''7''), (0, ''5''), (1, ''0'')] \<noteq> []
   \<and> sorted_wrt (<) (map cam_CoinType (FeesByCoinFromAmounts [(2, ''7''), (0, ''5''), (1, ''0'')]))"
  using FeesByCoin_listed [of "[(2, ''7''), (0, ''5''), (1, ''0'')]"] by (simp add: FeesByCoinFromAmounts_def shown_def)

text \<open>When coins are issued, the amounts of other coins are not listed by \<open>TotalSentByCoinFromMap\<close>.\<close>

lemma unissued_not_sent:
  "TotalSentByCoinFromMap [(2, ''7'')] [1] = []"
  by (simp add: TotalSentByCoinFromMap_def ska_amounts_def)

lemma flatten_rows_var:
  "0 \<notin> cr_CoinType ` set rows \<Longrightarrow> bb_VARTxCount (flatten_rows bytes rows b) = bb_VARTxCount b"
  by (induction bytes rows b rule: flatten_rows.induct) auto

lemma flatten_rows_var_count:
  assumes "distinct (map cr_CoinType rows)" and "r \<in> set rows" and "cr_CoinType r = 0"
  shows "bb_VARTxCount (flatten_rows bytes rows b) = var_regular (cr_TxCount r) (bb_Voters b) (bb_FreshStake b) (bb_Revocations b)"
  using assms
proof (induction rows arbitrary: b)
  case (Cons row rows)
  show ?case
  proof (cases "cr_CoinType row = 0")
    case True
    then have rest: "0 \<notin> cr_CoinType ` set rows" using Cons.prems(1) by simp
    then have "row = r" using Cons.prems(2,3) by force
    then show ?thesis using True rest by (simp add: flatten_rows_var)
  next
    case False
    then have "r \<in> set rows" using Cons.prems by auto
    then show ?thesis using Cons.IH Cons.prems(1,3) False by simp
  qed
qed simp

lemma row_map_lookup:
  "distinct (map cr_CoinType rows) \<Longrightarrow> r \<in> set rows \<Longrightarrow> foldl (\<lambda>m r. m(cr_CoinType r \<mapsto> r)) m0 rows (cr_CoinType r) = Some r"
proof (induction rows rule: rev_induct)
  case (snoc row rows)
  then show ?case by (cases "r = row") (auto, metis image_eqI)
qed simp

text \<open>The flattened row and the regular counts of a block show the same number of regular \<open>VAR\<close> transactions.\<close>

lemma flatten_agrees:
  assumes "distinct (map cr_CoinType (bb_CoinRows b))" and "r \<in> set (bb_CoinRows b)" and "cr_CoinType r = 0"
  shows "\<lparr>cc_CoinType = 0, cc_Symbol = ''VAR'', cc_Count = bb_VARTxCount (FlattenCoinRows bytes b)\<rparr>
    \<in> set (RegularCoinCountsFromCoinRows (bb_CoinRows b) (bb_Voters b) (bb_FreshStake b) (bb_Revocations b))"
proof -
  have "the (foldl (\<lambda>m r. m(cr_CoinType r \<mapsto> r)) Map.empty (bb_CoinRows b) 0) = r"
    using row_map_lookup [OF assms(1,2), of Map.empty] assms(3) by simp
  moreover have "0 \<in> cr_CoinType ` set (bb_CoinRows b)" using assms(2,3) by force
  ultimately show ?thesis
    using flatten_rows_var_count [OF assms]
    by (auto simp: RegularCoinCountsFromCoinRows_def FlattenCoinRows_def Let_def CoinTypeSymbol_def intro!: bexI [of _ 0])
qed

text \<open>Flattening again changes nothing: the fields are reset before the rows are read.\<close>

lemma flatten_rows_keeps:
  "bb_CoinRows (flatten_rows bytes rows b) = bb_CoinRows b" "bb_Voters (flatten_rows bytes rows b) = bb_Voters b"
  "bb_FreshStake (flatten_rows bytes rows b) = bb_FreshStake b" "bb_Revocations (flatten_rows bytes rows b) = bb_Revocations b"
  by (induction bytes rows b rule: flatten_rows.induct) auto

lemma FlattenCoinRows_idem: "FlattenCoinRows bytes (FlattenCoinRows bytes b) = FlattenCoinRows bytes b"
proof -
  let ?reset = "\<lambda>b. b\<lparr>bb_VARAmount := [], bb_VARTxCount := 0, bb_VARSize := [], bb_SKAAmount := [], bb_SKAActiveSubRows := 0, bb_SKASubRows := []\<rparr>"
  have reset: "?reset (flatten_rows bytes rows c) = ?reset c" for rows c
    by (rule BlockBasic.equality) (simp_all add: flatten_rows_keeps)
  show ?thesis by (simp add: FlattenCoinRows_def flatten_rows_keeps reset)
qed

section \<open>Fill bars\<close>

definition StatsFromCoinRows :: "CoinRowData list \<Rightarrow> 32 word \<Rightarrow> coin_stats" where
  "StatsFromCoinRows rows coinbaseSize =
     foldl (\<lambda>stats row.
       let sz = (if cr_CoinType row = 0 then (if sint (cr_Size row - coinbaseSize) < 0 then 0 else cr_Size row - coinbaseSize) else cr_Size row)
       in stats(cr_CoinType row \<mapsto> zero_stats\<lparr>Size := sz\<rparr>)) Map.empty rows"

record 'f fill_ops =
  fo_mul :: "'f \<Rightarrow> 'f \<Rightarrow> 'f"
  fo_div :: "'f \<Rightarrow> 'f \<Rightarrow> 'f"
  fo_add :: "'f \<Rightarrow> 'f \<Rightarrow> 'f"
  fo_sub :: "'f \<Rightarrow> 'f \<Rightarrow> 'f"
  fo_le :: "'f \<Rightarrow> 'f \<Rightarrow> bool"
  fo_less :: "'f \<Rightarrow> 'f \<Rightarrow> bool"
  fo_min :: "'f \<Rightarrow> 'f \<Rightarrow> 'f"
  fo_int :: "int \<Rightarrow> 'f"
  fo_tenth :: 'f
  fo_ninetenths :: 'f

record 'f CoinFillData =
  cf_Symbol :: string
  cf_GQFillRatio :: 'f
  cf_ExtraFillRatio :: 'f
  cf_OverflowFillRatio :: 'f
  cf_GQPositionRatio :: 'f
  cf_Status :: string
  cf_PctOfTC :: 'f
  cf_IsOverflow :: bool

definition fillStatus :: "'f fill_ops \<Rightarrow> 'f \<Rightarrow> 'f \<Rightarrow> 'f \<Rightarrow> 'f \<Rightarrow> string" where
  "fillStatus fo maxBlockSize totalUsed sz quota =
     (if fo_le fo sz quota then ''ok'' else if fo_le fo totalUsed maxBlockSize then ''borrowing'' else ''full'')"

definition extraOrOverflow :: "'f fill_ops \<Rightarrow> 'f \<Rightarrow> 'f \<Rightarrow> 'f \<Rightarrow> string \<Rightarrow> 'f \<times> 'f" where
  "extraOrOverflow fo maxBlockSize sz quota status =
     (let r = fo_min fo (fo_div fo (fo_sub fo sz quota) maxBlockSize) (fo_int fo 1)
      in if status = ''borrowing'' then (r, fo_int fo 0) else if status = ''full'' then (fo_int fo 0, r) else (fo_int fo 0, fo_int fo 0))"

definition withDisplay :: "'f fill_ops \<Rightarrow> 'f CoinFillData \<Rightarrow> 'f CoinFillData" where
  "withDisplay fo d =
     (let raw = fo_add fo (fo_add fo (fo_mul fo (cf_GQFillRatio d) (cf_GQPositionRatio d)) (cf_ExtraFillRatio d)) (cf_OverflowFillRatio d)
      in d\<lparr>cf_PctOfTC := fo_mul fo raw (fo_int fo 100), cf_IsOverflow := fo_less fo (fo_int fo 1) raw\<rparr>)"

definition coin_fill :: "'f fill_ops \<Rightarrow> 'f \<Rightarrow> 'f \<Rightarrow> string \<Rightarrow> 'f \<Rightarrow> 'f \<Rightarrow> 'f \<Rightarrow> 'f CoinFillData" where
  "coin_fill fo maxBlockSize totalUsed symb sz quota pos =
     (let status = fillStatus fo maxBlockSize totalUsed sz quota; (extra, overflow) = extraOrOverflow fo maxBlockSize sz quota status
      in withDisplay fo \<lparr>cf_Symbol = symb, cf_GQFillRatio = fo_min fo (fo_div fo sz quota) (fo_int fo 1), cf_ExtraFillRatio = extra,
           cf_OverflowFillRatio = overflow, cf_GQPositionRatio = pos, cf_Status = status, cf_PctOfTC = fo_int fo 0, cf_IsOverflow = False\<rparr>)"

text \<open>\<open>keys\<close> are the coin types of \<open>stats\<close> in the order in which they are walked. The sizes are whole numbers, whose sum
  does not depend on the order.\<close>

definition ComputeCoinFills :: "'f fill_ops \<Rightarrow> byte list \<Rightarrow> coin_stats \<Rightarrow> 'f \<Rightarrow> byte list \<Rightarrow> 'f CoinFillData list \<times> 'f \<times> nat" where
  "ComputeCoinFills fo keys stats maxBlockSize issuedSKA =
     (let sizeOf = (\<lambda>ct. fo_int fo (sint (Size (stats_at stats ct))));
          varQuota = fo_mul fo maxBlockSize (fo_tenth fo); skaPool = fo_mul fo maxBlockSize (fo_ninetenths fo);
          skaSet = remdups (filter (\<lambda>ct. ct \<noteq> 0) keys @ issuedSKA);
          totalSKASize = foldl (\<lambda>t ct. fo_add fo t (sizeOf ct)) (fo_int fo 0) skaSet;
          skaKeys = sort skaSet; numSKA = length skaKeys;
          varSize = (if stats 0 = None then fo_int fo 0 else sizeOf 0);
          totalUsed = fo_add fo varSize totalSKASize; totalFillRatio = fo_div fo totalUsed maxBlockSize;
          varFill = coin_fill fo maxBlockSize totalUsed ''VAR'' varSize varQuota (fo_tenth fo)
      in if numSKA = 0 then ([varFill], totalFillRatio, 0)
         else
           let perSKAQuota = fo_div fo skaPool (fo_int fo (int numSKA)); gqPos = fo_div fo (fo_ninetenths fo) (fo_int fo (int numSKA))
           in (varFill # map (\<lambda>ct. coin_fill fo maxBlockSize totalUsed (''SKA'' @ show_nat (unat ct)) (sizeOf ct) perSKAQuota gqPos) skaKeys,
               totalFillRatio, numSKA))"

lemma coin_fill_symbol [simp]: "cf_Symbol (coin_fill fo mx used symb sz quota pos) = symb"
  by (simp add: coin_fill_def withDisplay_def Let_def split: prod.split)

text \<open>The bars are those of \<open>VAR\<close> and of the SKA coins that are issued or in the statistics, each once, in ascending order.\<close>

lemma ComputeCoinFills_symbols:
  assumes "0 \<notin> set issuedSKA"
  shows "map cf_Symbol (fst (ComputeCoinFills fo keys stats mx issuedSKA))
    = map CoinTypeSymbol (0 # sorted_list_of_set ((set keys \<union> set issuedSKA) - {0}))"
proof -
  let ?s = "remdups (filter (\<lambda>ct. ct \<noteq> 0) keys @ issuedSKA)"
  have "sort ?s = sorted_list_of_set (set ?s)" by (simp only: sorted_list_of_set_sort_remdups remdups_remdups set_remdups)
  also have "set ?s = (set keys \<union> set issuedSKA) - {0}" using assms by auto
  finally have keys: "sort ?s = sorted_list_of_set ((set keys \<union> set issuedSKA) - {0})" .
  have "ct \<noteq> 0" if "ct \<in> set (sort ?s)" for ct using that assms by auto
  then have "map (\<lambda>ct. ''SKA'' @ show_nat (unat ct)) (sort ?s) = map CoinTypeSymbol (sort ?s)"
    by (auto simp: CoinTypeSymbol_def)
  then show ?thesis
    unfolding keys [symmetric]
    by (auto simp: ComputeCoinFills_def CoinTypeSymbol_def Let_def comp_def)
qed

end
