(* ===== verification/Subsidy.thy ===== *)
theory Subsidy
  imports Prelude
begin

text \<open>
  The total subsidy of the network (\<open>txhelpers/subsidy.go\<close>). The subsidies of a block come from the node's package
  \<open>standalone\<close>, a parameter in \<open>subsidy_params\<close>. Sums and products are \<open>int64\<close>s and wrap. The loop over the
  reduction intervals ends at the first interval without subsidy; as a parameter may not have one, the loop is a partial function.
\<close>

section \<open>The computation\<close>

datatype split_variant = SSVOriginal | SSVDCP0010 | SSVDCP0012

record subsidy_params =
  sp_Net :: nat
  VotesPerBlock :: nat
  StakeValidationBeginHeight :: int
  SubsidyReductionIntervalBlocks :: int
  BlockOneSubsidy :: int
  CalcWorkSubsidyV3 :: "int \<Rightarrow> nat \<Rightarrow> split_variant \<Rightarrow> int"
  CalcStakeVoteSubsidyV3 :: "int \<Rightarrow> split_variant \<Rightarrow> int"

definition RewardsAtBlock :: "int \<Rightarrow> nat \<Rightarrow> subsidy_params \<Rightarrow> split_variant \<Rightarrow> int \<times> int" where
  "RewardsAtBlock blockIdx votes p ssv = (CalcWorkSubsidyV3 p blockIdx votes ssv, CalcStakeVoteSubsidyV3 p blockIdx ssv)"

definition subsidySum :: "subsidy_params \<Rightarrow> int \<Rightarrow> split_variant \<Rightarrow> int" where
  "subsidySum p height ssv =
     wrap64 (CalcWorkSubsidyV3 p height (VotesPerBlock p) ssv + wrap64 (CalcStakeVoteSubsidyV3 p height ssv * int (VotesPerBlock p)))"

record split_change =
  activationHeight :: int
  splitBefore :: split_variant
  splitAfter :: split_variant

text \<open>Of two entries of the map literal with the same key the second counts.\<close>

definition subsidySplitChanges :: "subsidy_params \<Rightarrow> int \<Rightarrow> int \<Rightarrow> (int \<rightharpoonup> split_change)" where
  "subsidySplitChanges p d10 d12 =
     [go_div d10 (SubsidyReductionIntervalBlocks p) \<mapsto> \<lparr>activationHeight = d10, splitBefore = SSVOriginal, splitAfter = SSVDCP0010\<rparr>,
      go_div d12 (SubsidyReductionIntervalBlocks p) \<mapsto> \<lparr>activationHeight = d12, splitBefore = SSVDCP0010, splitAfter = SSVDCP0012\<rparr>]"

definition MaxInt64 :: int where
  "MaxInt64 = 2 ^ 63 - 1"

definition or_never :: "int \<Rightarrow> int" where
  "or_never d = (if d = - 1 then MaxInt64 else d)"

definition splitVariant :: "int \<Rightarrow> int \<Rightarrow> int \<Rightarrow> split_variant" where
  "splitVariant d10 d12 height = (if height \<ge> or_never d12 then SSVDCP0012 else if height \<ge> or_never d10 then SSVDCP0010 else SSVOriginal)"

definition add_blocks :: "subsidy_params \<Rightarrow> int \<Rightarrow> split_variant \<Rightarrow> int \<Rightarrow> int \<Rightarrow> int" where
  "add_blocks p height ssv blocks acc = wrap64 (acc + wrap64 (subsidySum p height ssv * blocks))"

definition first_interval :: "subsidy_params \<Rightarrow> int \<Rightarrow> int" where
  "first_interval p acc =
     (let svh = StakeValidationBeginHeight p
      in add_blocks p svh SSVOriginal (SubsidyReductionIntervalBlocks p - svh) (add_blocks p 2 SSVOriginal (svh - 2) acc))"

definition change_interval :: "subsidy_params \<Rightarrow> int \<Rightarrow> split_change \<Rightarrow> int \<Rightarrow> int" where
  "change_interval p i c acc =
     (let start = i * SubsidyReductionIntervalBlocks p; preChangeBlocks = activationHeight c - start
      in add_blocks p (activationHeight c) (splitAfter c) (SubsidyReductionIntervalBlocks p - preChangeBlocks)
           (add_blocks p start (splitBefore c) preChangeBlocks acc))"

partial_function (option) subsidy_loop :: "subsidy_params \<Rightarrow> int \<Rightarrow> int \<Rightarrow> int \<Rightarrow> int \<Rightarrow> int option" where
  "subsidy_loop p d10 d12 i acc =
     (if i = 0 then subsidy_loop p d10 d12 (i + 1) (first_interval p acc)
      else case subsidySplitChanges p d10 d12 i of
        Some c \<Rightarrow> subsidy_loop p d10 d12 (i + 1) (change_interval p i c acc)
      | None \<Rightarrow>
          let start = i * SubsidyReductionIntervalBlocks p; sum = subsidySum p start (splitVariant d10 d12 start)
          in if sum = 0 then Some acc
             else subsidy_loop p d10 d12 (i + 1) (wrap64 (acc + wrap64 (sum * SubsidyReductionIntervalBlocks p))))"

type_synonym netHeight = "nat \<times> int \<times> int"

text \<open>The cache of results is keyed by the network and the two heights.\<close>

definition UltimateSubsidy :: "subsidy_params \<Rightarrow> int \<Rightarrow> int \<Rightarrow> (netHeight \<rightharpoonup> int) \<Rightarrow> (int \<times> (netHeight \<rightharpoonup> int)) option" where
  "UltimateSubsidy p d10 d12 cache =
     (let nh = (sp_Net p, d10, d12)
      in case cache nh of
           Some result \<Rightarrow> Some (result, cache)
         | None \<Rightarrow> map_option (\<lambda>acc. (acc, cache(nh \<mapsto> acc))) (subsidy_loop p d10 d12 0 (BlockOneSubsidy p)))"

section \<open>The sum over all blocks\<close>

definition block_subsidy :: "subsidy_params \<Rightarrow> int \<Rightarrow> int \<Rightarrow> int \<Rightarrow> int" where
  "block_subsidy p d10 d12 h = subsidySum p h (splitVariant d10 d12 h)"

text \<open>What the subsidies of the node are taken to be from block 2 on: constant within an interval, and within the first interval before and after
  voting begins. Block 0 has no subsidy and block 1 the initial distribution; nothing is assumed of what the node computes for them.\<close>

definition stepwise :: "subsidy_params \<Rightarrow> bool" where
  "stepwise p \<longleftrightarrow>
     (let R = SubsidyReductionIntervalBlocks p; svh = StakeValidationBeginHeight p
      in 2 \<le> svh \<and> svh \<le> R
         \<and> (\<forall>h \<ge> 2. \<forall>ssv. subsidySum p h ssv = subsidySum p (if h < svh then 2 else if h < R then svh else h div R * R) ssv))"

text \<open>The heights of the changes: unknown, or in different intervals after the first.\<close>

definition heights_ok :: "subsidy_params \<Rightarrow> int \<Rightarrow> int \<Rightarrow> bool" where
  "heights_ok p d10 d12 \<longleftrightarrow>
     (let R = SubsidyReductionIntervalBlocks p
      in (d10 = - 1 \<or> R \<le> d10) \<and> (d12 = - 1 \<or> (R \<le> d12 \<and> d10 \<noteq> - 1 \<and> d10 div R < d12 div R)))"

definition spent_after :: "subsidy_params \<Rightarrow> int \<Rightarrow> int \<Rightarrow> int \<Rightarrow> bool" where
  "spent_after p d10 d12 n \<longleftrightarrow> (\<forall>h \<ge> n * SubsidyReductionIntervalBlocks p. block_subsidy p d10 d12 h = 0)"

lemma sum_const_interval:
  fixes f :: "int \<Rightarrow> int"
  assumes "\<And>h. a \<le> h \<Longrightarrow> h < b \<Longrightarrow> f h = c" and "a \<le> b"
  shows "(\<Sum>h\<in>{a..<b}. f h) = c * (b - a)"
proof -
  have "(\<Sum>h\<in>{a..<b}. f h) = (\<Sum>h\<in>{a..<b}. c)" by (rule sum.cong) (use assms(1) in auto)
  then show ?thesis using assms(2) by simp
qed

lemma sum_split_interval:
  fixes f :: "int \<Rightarrow> int"
  assumes "a \<le> b" and "b \<le> c"
  shows "(\<Sum>h\<in>{a..<c}. f h) = (\<Sum>h\<in>{a..<b}. f h) + (\<Sum>h\<in>{b..<c}. f h)"
proof -
  have "{a..<c} = {a..<b} \<union> {b..<c}" "{a..<b} \<inter> {b..<c} = {}" using assms by auto
  then show ?thesis by (simp add: sum.union_disjoint)
qed

lemma wrap64_plus_right [simp]: "wrap64 (x + wrap64 y) = wrap64 (x + y)"
  using wrap64_plus [of y x] by (simp add: add.commute)

lemma add_blocks_sum:
  assumes "\<And>h. a \<le> h \<Longrightarrow> h < b \<Longrightarrow> f h = subsidySum p height ssv" and "a \<le> b"
  shows "add_blocks p height ssv (b - a) t = wrap64 (t + (\<Sum>h\<in>{a..<b}. f h))"
  using sum_const_interval [of a b f "subsidySum p height ssv"] assms by (simp add: add_blocks_def mult.commute)

section \<open>The loop\<close>

definition total_until :: "subsidy_params \<Rightarrow> int \<Rightarrow> int \<Rightarrow> int \<Rightarrow> int" where
  "total_until p d10 d12 n = BlockOneSubsidy p + (\<Sum>h\<in>{2..<n * SubsidyReductionIntervalBlocks p}. block_subsidy p d10 d12 h)"

definition runs_out :: "subsidy_params \<Rightarrow> int \<Rightarrow> int \<Rightarrow> int \<Rightarrow> bool" where
  "runs_out p d10 d12 n \<longleftrightarrow>
     (let R = SubsidyReductionIntervalBlocks p
      in 1 \<le> n \<and> n * R \<le> MaxInt64 \<and> d10 < n * R \<and> d12 < n * R \<and> spent_after p d10 d12 n
         \<and> (\<forall>i \<ge> 1. block_subsidy p d10 d12 (i * R) = 0 \<longrightarrow> spent_after p d10 d12 i))"

lemma in_interval:
  fixes R h i :: int
  assumes "0 < R" and "i * R \<le> h" and "h < (i + 1) * R"
  shows "h div R = i"
  by (rule int_div_pos_eq [of h R i "h - i * R"]) (use assms in \<open>simp_all add: algebra_simps\<close>)

lemma reached_same:
  fixes R :: int
  assumes "0 < R" and "i * R \<le> h" and "h < (i + 1) * R" and "d = MaxInt64 \<and> (i + 1) * R \<le> MaxInt64 \<or> d div R \<noteq> i"
  shows "d \<le> h \<longleftrightarrow> d \<le> i * R"
proof -
  have "\<not> (i * R < d \<and> d \<le> h)"
  proof
    assume d: "i * R < d \<and> d \<le> h"
    then have "d div R = i" using assms(1,3) by (intro in_interval) auto
    then show False using assms(3,4) d by auto
  qed
  then show ?thesis using assms(2) by auto
qed

lemma changes_lookup:
  assumes "heights_ok p d10 d12" and "stepwise p" and "1 \<le> i"
  shows "subsidySplitChanges p d10 d12 i =
    (if d12 \<noteq> - 1 \<and> d12 div SubsidyReductionIntervalBlocks p = i
     then Some \<lparr>activationHeight = d12, splitBefore = SSVDCP0010, splitAfter = SSVDCP0012\<rparr>
     else if d10 \<noteq> - 1 \<and> d10 div SubsidyReductionIntervalBlocks p = i
     then Some \<lparr>activationHeight = d10, splitBefore = SSVOriginal, splitAfter = SSVDCP0010\<rparr>
     else None)"
proof -
  let ?R = "SubsidyReductionIntervalBlocks p"
  have R: "2 \<le> ?R" using assms(2) by (simp add: stepwise_def Let_def)
  have minus: "go_div (- 1) ?R = 0" using R by (intro go_div_small) simp
  have "go_div d10 ?R = (if d10 = - 1 then 0 else d10 div ?R)" "go_div d12 ?R = (if d12 = - 1 then 0 else d12 div ?R)"
    using assms(1) R minus by (auto simp: heights_ok_def Let_def)
  then show ?thesis using assms(3) by (simp add: subsidySplitChanges_def)
qed

lemma stepwise_interval:
  assumes "stepwise p" and "1 \<le> i" and "i * SubsidyReductionIntervalBlocks p \<le> h" and "h < (i + 1) * SubsidyReductionIntervalBlocks p"
  shows "subsidySum p h ssv = subsidySum p (i * SubsidyReductionIntervalBlocks p) ssv"
proof -
  let ?R = "SubsidyReductionIntervalBlocks p"
  have R: "2 \<le> ?R" "StakeValidationBeginHeight p \<le> ?R" using assms(1) by (simp_all add: stepwise_def Let_def)
  have "?R \<le> i * ?R" using assms(2) R(1) mult_right_mono [of 1 i ?R] by simp
  then have "\<not> h < StakeValidationBeginHeight p" "\<not> h < ?R" "2 \<le> h" using assms(3) R by linarith+
  moreover have "subsidySum p h ssv = subsidySum p (if h < StakeValidationBeginHeight p then 2 else
      if h < ?R then StakeValidationBeginHeight p else h div ?R * ?R) ssv"
    using assms(1) \<open>2 \<le> h\<close> unfolding stepwise_def Let_def by blast
  ultimately have "subsidySum p h ssv = subsidySum p (h div ?R * ?R) ssv" by simp
  moreover have "h div ?R = i" using R assms(3,4) by (intro in_interval) auto
  ultimately show ?thesis by simp
qed

lemma first_interval_total:
  assumes "stepwise p" and "heights_ok p d10 d12" and "SubsidyReductionIntervalBlocks p \<le> MaxInt64"
  shows "first_interval p (BlockOneSubsidy p) = wrap64 (total_until p d10 d12 1)"
proof -
  let ?R = "SubsidyReductionIntervalBlocks p" and ?svh = "StakeValidationBeginHeight p" and ?f = "block_subsidy p d10 d12"
  have svh: "2 \<le> ?svh" "?svh \<le> ?R"
    and const: "\<And>h ssv. 2 \<le> h \<Longrightarrow> subsidySum p h ssv = subsidySum p (if h < ?svh then 2 else if h < ?R then ?svh else h div ?R * ?R) ssv"
    using assms(1) by (simp_all add: stepwise_def Let_def)
  have orig: "splitVariant d10 d12 h = SSVOriginal" if "h < ?R" for h
    using that assms(2,3) by (auto simp: splitVariant_def heights_ok_def or_never_def Let_def)
  have one: "add_blocks p 2 SSVOriginal (?svh - 2) t = wrap64 (t + (\<Sum>h\<in>{2..<?svh}. ?f h))" for t
  proof (rule add_blocks_sum)
    fix h
    assume "2 \<le> h" "h < ?svh"
    then show "?f h = subsidySum p 2 SSVOriginal" using const [of h SSVOriginal] orig [of h] svh by (simp add: block_subsidy_def)
  qed (rule svh)
  have two: "add_blocks p ?svh SSVOriginal (?R - ?svh) t = wrap64 (t + (\<Sum>h\<in>{?svh..<?R}. ?f h))" for t
  proof (rule add_blocks_sum)
    fix h
    assume "?svh \<le> h" "h < ?R"
    then show "?f h = subsidySum p ?svh SSVOriginal" using const [of h SSVOriginal] orig [of h] svh by (simp add: block_subsidy_def)
  qed (rule svh)
  show ?thesis
    using sum_split_interval [of 2 ?svh ?R ?f] svh by (simp add: first_interval_def one two total_until_def add.assoc Let_def)
qed

lemma total_step:
  assumes "stepwise p" and "1 \<le> i"
  shows "total_until p d10 d12 (i + 1) = total_until p d10 d12 i
    + (\<Sum>h\<in>{i * SubsidyReductionIntervalBlocks p..<(i + 1) * SubsidyReductionIntervalBlocks p}. block_subsidy p d10 d12 h)"
proof -
  let ?R = "SubsidyReductionIntervalBlocks p"
  have R: "2 \<le> ?R" using assms(1) by (simp add: stepwise_def Let_def)
  have "?R \<le> i * ?R" using assms(2) R mult_right_mono [of 1 i ?R] by simp
  then have "2 \<le> i * ?R" using R by linarith
  then show ?thesis
    using sum_split_interval [of 2 "i * ?R" "(i + 1) * ?R" "block_subsidy p d10 d12"] R by (simp add: total_until_def distrib_right)
qed

lemma plain_interval_total:
  assumes "stepwise p" and "heights_ok p d10 d12" and "1 \<le> i" and "(i + 1) * SubsidyReductionIntervalBlocks p \<le> MaxInt64"
    and "subsidySplitChanges p d10 d12 i = None"
  shows "wrap64 (total_until p d10 d12 i + block_subsidy p d10 d12 (i * SubsidyReductionIntervalBlocks p) * SubsidyReductionIntervalBlocks p)
    = wrap64 (total_until p d10 d12 (i + 1))"
proof -
  let ?R = "SubsidyReductionIntervalBlocks p"
  have R: "0 < ?R" using assms(1) by (simp add: stepwise_def Let_def)
  have d: "or_never d = MaxInt64 \<and> (i + 1) * ?R \<le> MaxInt64 \<or> or_never d div ?R \<noteq> i" if "d \<in> {d10, d12}" for d
    using that assms(4,5) unfolding changes_lookup [OF assms(2,1,3)] by (auto simp: or_never_def split: if_splits)
  have "block_subsidy p d10 d12 h = block_subsidy p d10 d12 (i * ?R)" if "i * ?R \<le> h" "h < (i + 1) * ?R" for h
    using stepwise_interval [OF assms(1,3) that] reached_same [OF R that d [of d10]] reached_same [OF R that d [of d12]]
    by (simp add: block_subsidy_def splitVariant_def)
  then have "(\<Sum>h\<in>{i * ?R..<(i + 1) * ?R}. block_subsidy p d10 d12 h) = block_subsidy p d10 d12 (i * ?R) * ((i + 1) * ?R - i * ?R)"
    by (rule sum_const_interval) (use R in \<open>simp_all add: distrib_right\<close>)
  then show ?thesis unfolding total_step [OF assms(1,3)] by (simp add: distrib_right)
qed

lemma change_interval_total:
  assumes "stepwise p" and "heights_ok p d10 d12" and "1 \<le> i" and "(i + 1) * SubsidyReductionIntervalBlocks p \<le> MaxInt64"
    and "subsidySplitChanges p d10 d12 i = Some c"
  shows "change_interval p i c (wrap64 (total_until p d10 d12 i)) = wrap64 (total_until p d10 d12 (i + 1))"
proof -
  let ?R = "SubsidyReductionIntervalBlocks p" and ?a = "activationHeight c" and ?f = "block_subsidy p d10 d12"
  have R: "0 < ?R" using assms(1) by (simp add: stepwise_def Let_def)
  note look = assms(5) [unfolded changes_lookup [OF assms(2,1,3)]]
  have a: "?a div ?R = i" using look by (auto split: if_splits)
  have range: "i * ?R \<le> ?a" "?a < (i + 1) * ?R" using floor_bounds [OF R, of ?a] unfolding a by simp_all
  have split: "splitVariant d10 d12 h = (if h < ?a then splitBefore c else splitAfter c)" if h: "i * ?R \<le> h" "h < (i + 1) * ?R" for h
  proof (cases "d12 \<noteq> - 1 \<and> d12 div ?R = i")
    case True
    have "d10 \<noteq> - 1" "d10 div ?R < d12 div ?R" using assms(2) True by (auto simp: heights_ok_def Let_def)
    moreover have "d10 < (d10 div ?R + 1) * ?R" using floor_bounds [OF R] by simp
    moreover have "(d10 div ?R + 1) * ?R \<le> i * ?R" using True \<open>d10 div ?R < d12 div ?R\<close> R by (intro mult_right_mono) auto
    ultimately have "d10 \<le> h" using h by linarith
    then show ?thesis using look True \<open>d10 \<noteq> - 1\<close> by (auto simp: splitVariant_def or_never_def)
  next
    case False
    then have c: "c = \<lparr>activationHeight = d10, splitBefore = SSVOriginal, splitAfter = SSVDCP0010\<rparr>" "d10 \<noteq> - 1" "d10 div ?R = i"
      using look by (auto split: if_splits)
    have "\<not> or_never d12 \<le> h"
    proof (cases "d12 = - 1")
      case True
      then show ?thesis using h(2) assms(4) by (simp add: or_never_def)
    next
      case False
      then have "i < d12 div ?R" using assms(2) c(2,3) by (auto simp: heights_ok_def Let_def)
      then have "(i + 1) * ?R \<le> d12 div ?R * ?R" using R by (intro mult_right_mono) auto
      moreover have "d12 div ?R * ?R \<le> d12" using floor_bounds [OF R] by simp
      ultimately show ?thesis using False h(2) by (simp add: or_never_def)
    qed
    then show ?thesis using c by (auto simp: splitVariant_def or_never_def)
  qed
  have same: "subsidySum p h ssv = subsidySum p k ssv" if "i * ?R \<le> h" "h < (i + 1) * ?R" "i * ?R \<le> k" "k < (i + 1) * ?R" for h k ssv
    using stepwise_interval [OF assms(1,3) that(1,2)] stepwise_interval [OF assms(1,3) that(3,4)] by simp
  have one: "add_blocks p (i * ?R) (splitBefore c) (?a - i * ?R) t = wrap64 (t + (\<Sum>h\<in>{i * ?R..<?a}. ?f h))" for t
  proof (rule add_blocks_sum)
    fix h
    assume h: "i * ?R \<le> h" "h < ?a"
    then have "h < (i + 1) * ?R" "i * ?R < (i + 1) * ?R" using range by linarith+
    then show "?f h = subsidySum p (i * ?R) (splitBefore c)" using split [of h] same [of h "i * ?R"] h by (simp add: block_subsidy_def)
  qed (rule range)
  have two: "add_blocks p ?a (splitAfter c) ((i + 1) * ?R - ?a) t = wrap64 (t + (\<Sum>h\<in>{?a..<(i + 1) * ?R}. ?f h))" for t
  proof (rule add_blocks_sum)
    fix h
    assume h: "?a \<le> h" "h < (i + 1) * ?R"
    then have "i * ?R \<le> h" using range by linarith
    then show "?f h = subsidySum p ?a (splitAfter c)" using split [of h] same [of h ?a] h range by (simp add: block_subsidy_def)
  qed (use range in simp)
  have len: "?R - (?a - i * ?R) = (i + 1) * ?R - ?a" by (simp add: distrib_right)
  have "(\<Sum>h\<in>{i * ?R..<(i + 1) * ?R}. ?f h) = (\<Sum>h\<in>{i * ?R..<?a}. ?f h) + (\<Sum>h\<in>{?a..<(i + 1) * ?R}. ?f h)"
    using range by (intro sum_split_interval) simp_all
  then show ?thesis
    unfolding change_interval_def Let_def len one two total_step [OF assms(1,3)] by (simp add: add.assoc)
qed

lemma subsidy_loop_total:
  assumes "stepwise p" and "heights_ok p d10 d12" and "runs_out p d10 d12 n" and "1 \<le> i" and "i \<le> n"
  shows "subsidy_loop p d10 d12 i (wrap64 (total_until p d10 d12 i)) = Some (wrap64 (total_until p d10 d12 n))"
  using assms(4,5)
proof (induction "nat (n - i)" arbitrary: i rule: less_induct)
  case less
  let ?R = "SubsidyReductionIntervalBlocks p"
  have R: "0 < ?R" using assms(1) by (simp add: stepwise_def Let_def)
  note out = assms(3) [unfolded runs_out_def Let_def]
  have next_ok: "(i + 1) * ?R \<le> MaxInt64" if "i < n"
    using that out R mult_right_mono [of "i + 1" n ?R] by linarith
  have step: "subsidy_loop p d10 d12 (i + 1) (wrap64 (total_until p d10 d12 (i + 1))) = Some (wrap64 (total_until p d10 d12 n))" if "i < n"
    using less.hyps [of "i + 1"] less.prems that by simp
  show ?case
  proof (cases "subsidySplitChanges p d10 d12 i")
    case (Some c)
    have "i < n"
    proof -
      have "i * ?R \<le> activationHeight c" "activationHeight c < n * ?R"
        using Some out floor_bounds [OF R] unfolding changes_lookup [OF assms(2,1) less.prems(1)] by (auto split: if_splits)
      then have "i * ?R < n * ?R" by linarith
      then show ?thesis using R by (simp add: mult_less_cancel_right)
    qed
    then show ?thesis
      using step Some less.prems(1) change_interval_total [OF assms(1,2) less.prems(1) next_ok Some]
      by (subst subsidy_loop.simps) simp
  next
    case None
    show ?thesis
    proof (cases "block_subsidy p d10 d12 (i * ?R) = 0")
      case True
      then have "spent_after p d10 d12 i" using out less.prems(1) by blast
      then have "(\<Sum>h\<in>{i * ?R..<n * ?R}. block_subsidy p d10 d12 h) = 0" by (simp add: spent_after_def)
      moreover have "?R \<le> i * ?R" "i * ?R \<le> n * ?R" "2 \<le> ?R"
        using less.prems R mult_right_mono [of 1 i ?R] mult_right_mono [of i n ?R] assms(1) by (simp_all add: stepwise_def Let_def)
      moreover from this(1,3) have "2 \<le> i * ?R" by linarith
      ultimately have "total_until p d10 d12 n = total_until p d10 d12 i"
        using sum_split_interval [of 2 "i * ?R" "n * ?R" "block_subsidy p d10 d12"] by (simp add: total_until_def)
      then show ?thesis using True None less.prems(1) by (subst subsidy_loop.simps) (simp add: block_subsidy_def)
    next
      case False
      then have "i \<noteq> n" using out by (auto simp: spent_after_def)
      then have "i < n" using less.prems(2) by simp
      then show ?thesis
        using step False None less.prems(1) plain_interval_total [OF assms(1,2) less.prems(1) next_ok None]
        by (subst subsidy_loop.simps) (simp add: block_subsidy_def Let_def)
    qed
  qed
qed

definition cache_sound :: "subsidy_params \<Rightarrow> (netHeight \<rightharpoonup> int) \<Rightarrow> bool" where
  "cache_sound p cache \<longleftrightarrow> (\<forall>d10 d12 v. cache (sp_Net p, d10, d12) = Some v \<longrightarrow> subsidy_loop p d10 d12 0 (BlockOneSubsidy p) = Some v)"

lemma UltimateSubsidy_sound:
  assumes "cache_sound p cache" and "UltimateSubsidy p d10 d12 cache = Some (v, cache')"
  shows "cache_sound p cache'"
  using assms by (auto simp: UltimateSubsidy_def cache_sound_def Let_def split: option.splits if_splits)


definition example_work :: "int \<Rightarrow> split_variant \<Rightarrow> int" where
  "example_work h ssv = (if h = 0 then 0 else if h = 1 then 100 else if h < 12 then (case ssv of SSVOriginal \<Rightarrow> 10 | SSVDCP0010 \<Rightarrow> 8 | SSVDCP0012 \<Rightarrow> 7) else 0)"

definition example_vote :: "int \<Rightarrow> int" where
  "example_vote h = (if 3 \<le> h \<and> h < 12 then 1 else 0)"

definition example_params :: subsidy_params where
  "example_params = \<lparr>sp_Net = 1, VotesPerBlock = 5, StakeValidationBeginHeight = 3, SubsidyReductionIntervalBlocks = 4, BlockOneSubsidy = 100,
     CalcWorkSubsidyV3 = (\<lambda>h v ssv. example_work h ssv), CalcStakeVoteSubsidyV3 = (\<lambda>h ssv. example_vote h)\<rparr>"

lemma example_fields [simp]:
  "sp_Net example_params = 1" "StakeValidationBeginHeight example_params = 3" "SubsidyReductionIntervalBlocks example_params = 4"
  "BlockOneSubsidy example_params = 100"
  by (simp_all add: example_params_def)

lemma example_sum: "subsidySum example_params h ssv = example_work h ssv + 5 * example_vote h"
  by (cases ssv) (simp_all add: subsidySum_def example_params_def example_work_def example_vote_def)

lemma example_spent: "spent_after example_params d10 d12 i \<longleftrightarrow> 3 \<le> i"
proof
  assume spent: "spent_after example_params d10 d12 i"
  show "3 \<le> i"
  proof (rule ccontr)
    assume "\<not> 3 \<le> i"
    then have "block_subsidy example_params d10 d12 8 = 0" using spent by (simp add: spent_after_def)
    then show False by (cases "splitVariant d10 d12 8") (auto simp: block_subsidy_def example_sum example_work_def example_vote_def)
  qed
next
  assume "3 \<le> i"
  then show "spent_after example_params d10 d12 i"
    by (auto simp: spent_after_def block_subsidy_def example_sum example_work_def example_vote_def)
qed


text \<open>When both changes are in one interval the first is lost: its blocks before the second change are all counted with the split of the
  first, also those before it.\<close>

lemma same_interval_drops_first:
  assumes "go_div d10 (SubsidyReductionIntervalBlocks p) = i" and "go_div d12 (SubsidyReductionIntervalBlocks p) = i"
  shows "subsidySplitChanges p d10 d12 i = Some \<lparr>activationHeight = d12, splitBefore = SSVDCP0010, splitAfter = SSVDCP0012\<rparr>"
  using assms by (simp add: subsidySplitChanges_def)

end
