(* ===== verification/Semver.thy ===== *)
theory Semver
  imports MempoolStats
begin

text \<open>
  Semantic versions (\<open>semver/semver.go\<close>). The regular expression \<open>^v?(\d+)\.?(\d*)\.?(\d*)$\<close> is a function: every part of it
  is greedy, and what follows a part cannot begin with what the part could still take, so that the first try is the match.
\<close>

record Semver =
  sv_major :: "32 word"
  sv_minor :: "32 word"
  sv_patch :: "32 word"

definition NewSemver :: "32 word \<Rightarrow> 32 word \<Rightarrow> 32 word \<Rightarrow> Semver" where
  "NewSemver major minor patch = \<lparr>sv_major = major, sv_minor = minor, sv_patch = patch\<rparr>"

definition Compatible :: "Semver \<Rightarrow> Semver \<Rightarrow> bool" where
  "Compatible required actual =
     (if sv_major required \<noteq> sv_major actual then False
      else if sv_minor required > sv_minor actual then False
      else if sv_minor required = sv_minor actual \<and> sv_patch required > sv_patch actual then False
      else True)"

fun AnyCompatible :: "Semver list \<Rightarrow> Semver \<Rightarrow> bool" where
  "AnyCompatible [] actual = False"
| "AnyCompatible (v # vs) actual = (if Compatible v actual then True else AnyCompatible vs actual)"

definition Semver_String :: "Semver \<Rightarrow> string" where
  "Semver_String s = show_nat (unat (sv_major s)) @ ''.'' @ show_nat (unat (sv_minor s)) @ ''.'' @ show_nat (unat (sv_patch s))"

definition Semver_Split :: "Semver \<Rightarrow> 32 word \<times> 32 word \<times> 32 word" where
  "Semver_Split s = (sv_major s, sv_minor s, sv_patch s)"

definition is_digit :: "char \<Rightarrow> bool" where
  "is_digit ch \<longleftrightarrow> char_digit ch \<noteq> None"

definition skip_char :: "char \<Rightarrow> string \<Rightarrow> string" where
  "skip_char ch s = (case s of [] \<Rightarrow> [] | x # rest \<Rightarrow> if x = ch then rest else s)"

definition version_match :: "string \<Rightarrow> (string \<times> string \<times> string) option" where
  "version_match ver =
     (let s0 = skip_char CHR ''v'' ver;
          d1 = takeWhile is_digit s0; s1 = skip_char CHR ''.'' (dropWhile is_digit s0);
          d2 = takeWhile is_digit s1; s2 = skip_char CHR ''.'' (dropWhile is_digit s1);
          d3 = takeWhile is_digit s2
      in if d1 \<noteq> [] \<and> dropWhile is_digit s2 = [] then Some (d1, d2, d3) else None)"

datatype version_error = InvalidVersion | AtoiFailed

definition part_value :: "string \<Rightarrow> int option" where
  "part_value d = (if d = [] then Some 0 else ParseInt64 d)"

definition ParseVersionStr :: "string \<Rightarrow> version_error + Semver" where
  "ParseVersionStr ver =
     (case version_match ver of
        None \<Rightarrow> Inl InvalidVersion
      | Some (d1, d2, d3) \<Rightarrow>
          (case part_value d3 of
             None \<Rightarrow> Inl AtoiFailed
           | Some p \<Rightarrow>
               (case part_value d2 of
                  None \<Rightarrow> Inl AtoiFailed
                | Some m \<Rightarrow>
                    (case part_value d1 of
                       None \<Rightarrow> Inl AtoiFailed
                     | Some v \<Rightarrow> Inr (NewSemver (of_int v) (of_int m) (of_int p))))))"

text \<open>The texts that match, as the expression describes them.\<close>

definition digits :: "string \<Rightarrow> bool" where
  "digits d \<longleftrightarrow> list_all is_digit d"

lemma digits_dot: "\<not> is_digit CHR ''.''" "\<not> is_digit CHR ''v''"
  by (simp_all add: is_digit_def char_digit_def)

lemma takeWhile_digits: "digits d \<Longrightarrow> takeWhile is_digit (d @ t) = d @ takeWhile is_digit t"
  by (simp add: digits_def list_all_iff takeWhile_append2)

lemma dropWhile_digits: "digits d \<Longrightarrow> dropWhile is_digit (d @ t) = dropWhile is_digit t"
  by (simp add: digits_def list_all_iff dropWhile_append2)

lemma skip_v_digits: "digits d \<Longrightarrow> d \<noteq> [] \<Longrightarrow> skip_char CHR ''v'' (d @ t) = d @ t"
  using digits_dot(2) by (cases d) (auto simp: digits_def skip_char_def)

lemma version_match_three:
  assumes "digits a" and "a \<noteq> []" and "digits b" and "digits c"
  shows "version_match (a @ ''.'' @ b @ ''.'' @ c) = Some (a, b, c)"
proof -
  have dot: "skip_char CHR ''.'' (CHR ''.'' # r) = r" for r by (simp add: skip_char_def)
  have whole: "takeWhile is_digit c = c" "dropWhile is_digit c = []" using assms(4) by (simp_all add: digits_def list_all_iff)
  have cut: "takeWhile is_digit (d @ CHR ''.'' # r) = d" "dropWhile is_digit (d @ CHR ''.'' # r) = CHR ''.'' # r" if "digits d" for d r
    using that digits_dot(1) by (simp_all add: takeWhile_digits dropWhile_digits)
  show ?thesis
    using skip_v_digits [OF assms(1,2), of "CHR ''.'' # b @ CHR ''.'' # c"] assms(2)
    by (simp add: version_match_def Let_def cut [OF assms(1)] cut [OF assms(3)] dot whole assms(4) [unfolded digits_def list_all_iff])
qed

lemma digits_show_nat: "digits (show_nat n)"
proof (induction n rule: show_nat.induct)
  case (1 n)
  show ?case
  proof (cases "n < 10")
    case True
    then show ?thesis by (subst show_nat.simps) (simp add: digits_def is_digit_def)
  next
    case False
    then show ?thesis using 1 by (subst show_nat.simps) (simp add: digits_def is_digit_def)
  qed
qed

lemma part_value_show: "n < 2 ^ 63 \<Longrightarrow> part_value (show_nat n) = Some (int n)"
proof -
  assume n: "n < 2 ^ 63"
  have "show_nat n = show_int (int n)" by (simp add: show_int_def)
  moreover have "int n < 2 ^ 63" using n by (simp add: nat_less_numeral_power_cancel_iff flip: of_nat_less_iff)
  ultimately show ?thesis by (simp add: part_value_def)
qed

lemma word_bound: "unat (w :: 32 word) < 2 ^ 63"
  using unsigned_less [of w, where ?'a = nat] by simp

text \<open>Printing and parsing a version are inverse: the text of every version is read back as it, also with a leading \<open>v\<close>.\<close>

theorem Semver_roundtrip:
  "ParseVersionStr (Semver_String s) = Inr s \<and> ParseVersionStr (CHR ''v'' # Semver_String s) = Inr s"
proof -
  let ?a = "show_nat (unat (sv_major s))" and ?b = "show_nat (unat (sv_minor s))" and ?c = "show_nat (unat (sv_patch s))"
  have m: "version_match (Semver_String s) = Some (?a, ?b, ?c)"
    unfolding Semver_String_def by (intro version_match_three) (simp_all add: digits_show_nat)
  moreover have "version_match (CHR ''v'' # Semver_String s) = version_match (Semver_String s)"
  proof -
    have "skip_char CHR ''v'' (Semver_String s) = Semver_String s"
      unfolding Semver_String_def by (intro skip_v_digits) (simp_all add: digits_show_nat)
    then show ?thesis by (simp add: version_match_def skip_char_def Let_def)
  qed
  moreover have "NewSemver (of_int (int (unat (sv_major s)))) (of_int (int (unat (sv_minor s)))) (of_int (int (unat (sv_patch s)))) = s"
    by (simp add: NewSemver_def)
  moreover have "part_value (show_nat (unat w)) = Some (int (unat w))" for w :: "32 word" by (rule part_value_show) (rule word_bound)
  ultimately show ?thesis by (simp add: ParseVersionStr_def)
qed

text \<open>Compatibility is the order of the minor and patch numbers within a major version, hence reflexive and transitive.\<close>

lemma Compatible_iff:
  "Compatible r a \<longleftrightarrow> sv_major r = sv_major a \<and> (sv_minor r < sv_minor a \<or> sv_minor r = sv_minor a \<and> sv_patch r \<le> sv_patch a)"
  by (auto simp: Compatible_def)

lemma Compatible_refl: "Compatible v v"
  by (simp add: Compatible_iff)

lemma Compatible_trans: "Compatible u v \<Longrightarrow> Compatible v w \<Longrightarrow> Compatible u w"
  by (auto simp: Compatible_iff)

lemma AnyCompatible_iff: "AnyCompatible vs a \<longleftrightarrow> (\<exists>v \<in> set vs. Compatible v a)"
  by (induction vs) auto

text \<open>A number of more than 32 bits is cut, without an error.\<close>

lemma ParseVersionStr_cuts: "ParseVersionStr ''4294967297.2'' = Inr (NewSemver 1 2 0)"
proof -
  have "version_match ''4294967297.2'' = Some (''4294967297'', ''2'', [])" by code_simp
  moreover have "part_value ''4294967297'' = Some 4294967297" "part_value ''2'' = Some 2" "part_value [] = Some 0"
    by (simp_all add: part_value_def ParseInt64_def parse_dec_def parse_nat_def char_digit_def)
  moreover have "NewSemver 4294967297 2 0 = NewSemver 1 2 0" by (simp add: NewSemver_def)
  ultimately show ?thesis by (simp add: ParseVersionStr_def)
qed

end
