(* ===== verification/PgTables.thy ===== *)
theory PgTables
  imports Prelude
begin

text \<open>
  The tables of \<open>db/dcrpg\<close> that hold blocks and transactions, and the statements of \<open>db/dcrpg/internal\<close> that change the flags of
  their rows. A table is the list of its rows; a row is a record of the columns that a modelled statement reads or writes.
  \<open>UPDATE t SET f WHERE p\<close> is \<open>update_rows p f t\<close>, and a statement succeeds: a lost connection is not modelled.
  A hash and its string stand for each other.
\<close>

section \<open>Rows and tables\<close>

record pg_block =
  b_id :: nat
  b_hash :: hash
  b_height :: int
  b_valid :: bool
  b_main :: bool
  b_txDbIDs :: "nat list"
  b_stxDbIDs :: "nat list"
  b_prev :: hash

record pg_link =
  l_id :: nat
  l_prev :: hash
  l_this :: hash
  l_next :: "hash option"

record pg_tx =
  t_id :: nat
  t_block :: hash
  t_height :: int
  t_time :: int
  t_type :: int
  t_tree :: int
  t_hash :: hash
  t_index :: nat
  t_vins :: "nat list"
  t_vouts :: "nat list"
  t_valid :: bool
  t_main :: bool

record pg_vin =
  v_id :: nat
  v_tx :: hash
  v_index :: nat
  v_tree :: int
  v_valid :: bool
  v_main :: bool
  v_time :: int
  v_prevTx :: hash
  v_prevIndex :: nat
  v_prevTree :: int
  v_value :: int

record pg_vout =
  o_id :: nat
  o_tx :: hash
  o_index :: nat
  o_tree :: int
  o_value :: int
  o_coin :: byte
  o_type :: string
  o_addresses :: string
  o_mixed :: bool
  o_spend :: "nat option"

record pg_address =
  a_id :: nat
  a_address :: string
  a_tx :: hash
  a_main :: bool
  a_matching :: "hash option"
  a_value :: int
  a_coin :: byte
  a_time :: int
  a_funding :: bool
  a_index :: nat
  a_row :: nat
  a_type :: int

record pg_ticket =
  k_id :: nat
  k_tx :: hash
  k_block :: hash
  k_height :: int
  k_purchase :: nat
  k_spendType :: nat
  k_poolStatus :: nat
  k_main :: bool
  k_spendHeight :: "int option"
  k_spendTx :: "nat option"

record pg_vote =
  w_id :: nat
  w_tx :: hash
  w_block :: hash
  w_candidate :: hash
  w_ticket :: hash
  w_main :: bool

record pg_miss =
  s_id :: nat
  s_height :: int
  s_block :: hash
  s_ticket :: hash

record pg_miner =
  n_address :: string
  n_first :: int
  n_last :: int
  n_mined :: int

record pg_stat =
  x_block :: nat
  x_height :: int

text \<open>Row identifiers come from one sequence per table, which is advanced by every attempt to insert.\<close>

datatype pg_seq = SeqBlocks | SeqTransactions | SeqVins | SeqVouts | SeqAddresses | SeqTickets | SeqVotes | SeqMisses

record pg_tables =
  blocks :: "pg_block list"
  block_chain :: "pg_link list"
  transactions :: "pg_tx list"
  vins :: "pg_vin list"
  vouts :: "pg_vout list"
  addresses :: "pg_address list"
  tickets :: "pg_ticket list"
  votes :: "pg_vote list"
  misses :: "pg_miss list"
  miners :: "pg_miner list"
  stats :: "pg_stat list"
  swaps :: "int list"
  bestMeta :: "int \<times> hash"
  serial :: "pg_seq \<Rightarrow> nat"

section \<open>Updates\<close>

definition update_rows :: "('r \<Rightarrow> bool) \<Rightarrow> ('r \<Rightarrow> 'r) \<Rightarrow> 'r list \<Rightarrow> 'r list" where
  "update_rows p f t = map (\<lambda>r. if p r then f r else r) t"

lemma set_update_rows: "set (update_rows p f t) = {r \<in> set t. \<not> p r} \<union> f ` {r \<in> set t. p r}"
  by (auto simp: update_rows_def)

lemma update_rows_field [simp]:
  "(\<And>r. g (f r) = g r) \<Longrightarrow> map g (update_rows p f t) = map g t"
  by (simp add: update_rows_def)

lemma bex_update_rows:
  assumes "\<And>r. Q (f r) = Q r"
  shows "(\<exists>r \<in> set (update_rows p f t). Q r) \<longleftrightarrow> (\<exists>r \<in> set t. Q r)"
  by (induction t) (simp_all add: update_rows_def assms)

lemma bex_update: "(\<exists>r \<in> set (update_rows p f t). Q r) \<longleftrightarrow> (\<exists>r \<in> set t. if p r then Q (f r) else Q r)"
  by (induction t) (simp_all add: update_rows_def)

lemma ball_update: "(\<forall>r \<in> set (update_rows p f t). Q r) \<longleftrightarrow> (\<forall>r \<in> set t. if p r then Q (f r) else Q r)"
  by (induction t) (simp_all add: update_rows_def)

lemma update_rows_none: "(\<And>r. r \<in> set t \<Longrightarrow> \<not> p r) \<Longrightarrow> update_rows p f t = t"
  by (simp add: update_rows_def map_idI)

lemma update_rows_comp:
  "(\<And>r. p (f r) = p r) \<Longrightarrow> update_rows p g (update_rows p f t) = update_rows p (g \<circ> f) t"
  by (simp add: update_rows_def)

text \<open>The first row in the order of the table, as \<open>QueryRow\<close> returns it.\<close>

definition query_row :: "('r \<Rightarrow> bool) \<Rightarrow> 'r list \<Rightarrow> 'r option" where
  "query_row p t = find p t"

lemma query_row_Some: "query_row p t = Some r \<Longrightarrow> r \<in> set t \<and> p r"
  by (auto simp: query_row_def find_Some_iff)

lemma query_row_None: "query_row p t = None \<longleftrightarrow> (\<forall>r \<in> set t. \<not> p r)"
  by (auto simp: query_row_def find_None_iff)

lemma query_row_unique:
  assumes "r \<in> set t" and "p r" and "\<And>s. s \<in> set t \<Longrightarrow> p s \<Longrightarrow> s = r"
  shows "query_row p t = Some r"
proof (cases "query_row p t")
  case None
  then show ?thesis using assms(1,2) query_row_None [of p t] by blast
next
  case (Some s)
  then show ?thesis using query_row_Some [OF Some] assms(3) [of s] by simp
qed

section \<open>The blocks table\<close>

definition setMainchainByBlockHash :: "hash \<Rightarrow> bool \<Rightarrow> pg_tables \<Rightarrow> pg_tables \<times> hash option" where
  "setMainchainByBlockHash h isMainchain db =
     (db\<lparr>blocks := update_rows (\<lambda>b. b_hash b = h) (\<lambda>b. b\<lparr>b_main := isMainchain\<rparr>) (blocks db)\<rparr>,
      map_option b_prev (query_row (\<lambda>b. b_hash b = h) (blocks db)))"

definition retrieveBlockHeight :: "hash \<Rightarrow> pg_tables \<Rightarrow> int option" where
  "retrieveBlockHeight h db = map_option b_height (query_row (\<lambda>b. b_hash b = h) (blocks db))"

definition retrieveBlockFlags :: "hash \<Rightarrow> pg_tables \<Rightarrow> (bool \<times> bool) option" where
  "retrieveBlockFlags h db = map_option (\<lambda>b. (b_valid b, b_main b)) (query_row (\<lambda>b. b_hash b = h) (blocks db))"

text \<open>\<open>UpdateLastBlockValid\<close> addresses the row by its id; the number of rows must be one.\<close>

definition updateLastBlockValid :: "nat \<Rightarrow> bool \<Rightarrow> pg_tables \<Rightarrow> pg_tables \<times> bool" where
  "updateLastBlockValid blockDbID isValid db =
     (db\<lparr>blocks := update_rows (\<lambda>b. b_id b = blockDbID) (\<lambda>b. b\<lparr>b_valid := isValid\<rparr>) (blocks db)\<rparr>,
      length (filter (\<lambda>b. b_id b = blockDbID) (blocks db)) = 1)"

section \<open>Transactions, inputs and outputs\<close>

definition updateTransactionsMainchain :: "hash \<Rightarrow> bool \<Rightarrow> pg_tables \<Rightarrow> pg_tables \<times> nat list" where
  "updateTransactionsMainchain h isMainchain db =
     (db\<lparr>transactions := update_rows (\<lambda>t. t_block t = h) (\<lambda>t. t\<lparr>t_main := isMainchain\<rparr>) (transactions db)\<rparr>,
      map t_id (filter (\<lambda>t. t_block t = h) (transactions db)))"

definition updateTransactionsValid :: "hash \<Rightarrow> bool \<Rightarrow> pg_tables \<Rightarrow> pg_tables" where
  "updateTransactionsValid h isValid db =
     db\<lparr>transactions := update_rows (\<lambda>t. t_block t = h \<and> t_tree t = 0) (\<lambda>t. t\<lparr>t_valid := isValid\<rparr>) (transactions db)\<rparr>"

text \<open>The join of \<open>vouts\<close> with \<open>transactions\<close> on the row of the spending transaction.\<close>

definition clearVoutRegularSpendTxRowIDs :: "hash \<Rightarrow> pg_tables \<Rightarrow> pg_tables" where
  "clearVoutRegularSpendTxRowIDs h db =
     db\<lparr>vouts := update_rows (\<lambda>u. \<exists>t \<in> set (transactions db). t_tree t = 0 \<and> t_block t = h \<and> o_spend u = Some (t_id t))
                   (\<lambda>u. u\<lparr>o_spend := None\<rparr>) (vouts db)\<rparr>"

definition clearVoutAllSpendTxRowIDs :: "hash \<Rightarrow> pg_tables \<Rightarrow> pg_tables" where
  "clearVoutAllSpendTxRowIDs h db =
     db\<lparr>vouts := update_rows (\<lambda>u. \<exists>t \<in> set (transactions db). t_block t = h \<and> o_spend u = Some (t_id t))
                   (\<lambda>u. u\<lparr>o_spend := None\<rparr>) (vouts db)\<rparr>"

definition retrieveTxnsVinsVoutsByBlock :: "hash \<Rightarrow> bool \<Rightarrow> pg_tables \<Rightarrow> (nat list \<times> nat list \<times> bool) list" where
  "retrieveTxnsVinsVoutsByBlock h onlyRegular db =
     map (\<lambda>t. (t_vins t, t_vouts t, t_main t)) (filter (\<lambda>t. t_block t = h \<and> (onlyRegular \<longrightarrow> t_tree t = 0)) (transactions db))"

definition setVinsMainchainOneTxn :: "bool \<Rightarrow> nat list \<Rightarrow> pg_vin list \<Rightarrow> pg_vin list" where
  "setVinsMainchainOneTxn isMainchain = fold (\<lambda>vinDbID. update_rows (\<lambda>v. v_id v = vinDbID) (\<lambda>v. v\<lparr>v_main := isMainchain\<rparr>))"

definition setVinsMainchainForMany :: "(nat list \<times> nat list \<times> bool) list \<Rightarrow> pg_vin list \<Rightarrow> pg_vin list" where
  "setVinsMainchainForMany = fold (\<lambda>(vs, outs, m). setVinsMainchainOneTxn m vs)"

definition setVinsMainchainByBlock :: "hash \<Rightarrow> pg_tables \<Rightarrow> pg_tables \<times> (nat list \<times> nat list \<times> bool) list" where
  "setVinsMainchainByBlock h db =
     (let ids = retrieveTxnsVinsVoutsByBlock h False db
      in (db\<lparr>vins := setVinsMainchainForMany ids (vins db)\<rparr>, ids))"

section \<open>Addresses\<close>

text \<open>One statement updates every row of an input or output, but only the first address it returns is read.\<close>

definition setAddressMainchain :: "bool \<Rightarrow> bool \<Rightarrow> nat \<Rightarrow> pg_address list \<times> string set \<Rightarrow> pg_address list \<times> string set" where
  "setAddressMainchain funding flag row st =
     (case st of
        (t, addrs) \<Rightarrow>
          (update_rows (\<lambda>a. a_funding a = funding \<and> a_row a = row) (\<lambda>a. a\<lparr>a_main := flag\<rparr>) t,
           case query_row (\<lambda>a. a_funding a = funding \<and> a_row a = row) t of None \<Rightarrow> addrs | Some a \<Rightarrow> insert (a_address a) addrs))"

definition updateAddressesMainchainByIDs :: "nat list list \<Rightarrow> nat list list \<Rightarrow> bool \<Rightarrow> pg_tables \<Rightarrow> pg_tables \<times> string set" where
  "updateAddressesMainchainByIDs vinsBlk voutsBlk flag db =
     (case fold (setAddressMainchain True flag) (concat voutsBlk) (fold (setAddressMainchain False flag) (concat vinsBlk) (addresses db, {})) of
        (t, addrs) \<Rightarrow> (db\<lparr>addresses := t\<rparr>, addrs))"

definition updateLastAddressesValid :: "hash \<Rightarrow> bool \<Rightarrow> pg_tables \<Rightarrow> pg_tables \<times> string set" where
  "updateLastAddressesValid h isValid db =
     (let ids = retrieveTxnsVinsVoutsByBlock h True db
      in updateAddressesMainchainByIDs (map fst ids) (map (fst \<circ> snd) ids) isValid db)"

section \<open>Votes, tickets and miners\<close>

definition updateVotesMainchain :: "hash \<Rightarrow> bool \<Rightarrow> pg_tables \<Rightarrow> pg_tables" where
  "updateVotesMainchain h isMainchain db =
     db\<lparr>votes := update_rows (\<lambda>w. w_block w = h) (\<lambda>w. w\<lparr>w_main := isMainchain\<rparr>) (votes db)\<rparr>"

definition updateTicketsMainchain :: "hash \<Rightarrow> bool \<Rightarrow> pg_tables \<Rightarrow> pg_tables" where
  "updateTicketsMainchain h isMainchain db =
     db\<lparr>tickets := update_rows (\<lambda>k. k_block k = h) (\<lambda>k. k\<lparr>k_main := isMainchain\<rparr>) (tickets db)\<rparr>"

text \<open>The output of a coinbase that pays a miner: one address, of a payment script, with a value.\<close>

definition miner_output :: "pg_vout \<Rightarrow> bool" where
  "miner_output u \<longleftrightarrow>
     o_type u \<in> {''pubkeyhash'', ''scripthash'', ''pubkey'', ''pubkeyalt'', ''pubkeyhashalt''} \<and> o_value u > 0
     \<and> o_addresses u \<notin> {[], ''unknown''}
     \<and> \<not> (length (o_addresses u) \<ge> 2 \<and> hd (o_addresses u) = CHR ''{'' \<and> last (o_addresses u) = CHR ''}'')"

definition block_miners :: "int \<Rightarrow> hash \<Rightarrow> pg_tables \<Rightarrow> string list" where
  "block_miners height h db =
     [o_addresses u. u \<leftarrow> vouts db, t \<leftarrow> transactions db,
        o_tx u = t_hash t \<and> t_height t = height \<and> t_block t = h \<and> t_tree t = 0 \<and> t_index t = 0 \<and> miner_output u]"

definition RevertOrphanMinerUpdate :: "int \<Rightarrow> hash \<Rightarrow> pg_tables \<Rightarrow> pg_tables" where
  "RevertOrphanMinerUpdate height h db =
     db\<lparr>miners := update_rows (\<lambda>n. n_address n \<in> set (block_miners height h db))
                    (\<lambda>n. n\<lparr>n_mined := max 0 (n_mined n - 1),
                           n_last := (if n_last n = height \<and> n_mined n > 1 then height - 1 else n_last n)\<rparr>) (miners db)\<rparr>"

definition CleanupMinerZeros :: "pg_tables \<Rightarrow> pg_tables" where
  "CleanupMinerZeros db = db\<lparr>miners := filter (\<lambda>n. \<not> n_mined n \<le> 0) (miners db)\<rparr>"

definition upsertMiner :: "string \<Rightarrow> int \<Rightarrow> pg_tables \<Rightarrow> pg_tables" where
  "upsertMiner addr height db =
     db\<lparr>miners :=
          (if \<exists>n \<in> set (miners db). n_address n = addr
           then update_rows (\<lambda>n. n_address n = addr) (\<lambda>n. n\<lparr>n_last := height, n_mined := n_mined n + 1\<rparr>) (miners db)
           else miners db @ [\<lparr>n_address = addr, n_first = height, n_last = height, n_mined = 1\<rparr>])\<rparr>"

end
