(* ===== verification/PgReorg.thy ===== *)
theory PgReorg
  imports PgTables
begin

text \<open>
  The first half of a reorganization of the block tables: \<open>TipToSideChain\<close> of \<open>db/dcrpg/pgblockchain.go\<close> moves the blocks above the
  common ancestor to a side chain. It walks down from the best block and has no bound of its own; it is a partial function, and \<open>None\<close> is a
  run that does not end.
\<close>

section \<open>The walk\<close>

record ChainDB =
  tabs :: pg_tables
  bestHash :: hash
  bestHeight :: int
  lastBlock :: "hash \<rightharpoonup> nat"

text \<open>Steps 1 to 8 for one block: the previous hash, and the addresses whose cached data are stale. A hash without a row yields the zero
  hash, as an error is only logged.\<close>

definition orphan_tables :: "hash \<Rightarrow> pg_tables \<Rightarrow> pg_tables \<times> hash \<times> string set" where
  "orphan_tables h db =
     (let (db, prev) = setMainchainByBlockHash h False db;
          (db, txIDs) = updateTransactionsMainchain h False db;
          db = clearVoutAllSpendTxRowIDs h db;
          (db, ids) = setVinsMainchainByBlock h db;
          (db, addrs) = updateAddressesMainchainByIDs (map fst ids) (map (fst \<circ> snd) ids) False db;
          db = updateVotesMainchain h False db;
          db = updateTicketsMainchain h False db;
          db = (case retrieveBlockHeight h db of
                  None \<Rightarrow> db
                | Some orphanHeight \<Rightarrow> CleanupMinerZeros (RevertOrphanMinerUpdate orphanHeight h db))
      in (db, case prev of None \<Rightarrow> zeroHash | Some p \<Rightarrow> p, addrs))"

definition orphan_block :: "hash \<Rightarrow> ChainDB \<Rightarrow> ChainDB \<times> hash \<times> string set" where
  "orphan_block h c =
     (let (db, prev, addrs) = orphan_tables h (tabs c)
      in (c\<lparr>tabs := db, bestHeight := (case retrieveBlockHeight prev db of None \<Rightarrow> 0 | Some ht \<Rightarrow> ht), bestHash := prev\<rparr>, prev, addrs))"

partial_function (option) tip_loop ::
  "hash \<Rightarrow> hash \<Rightarrow> ChainDB \<Rightarrow> nat \<Rightarrow> string set \<Rightarrow> (ChainDB \<times> hash \<times> nat \<times> string set) option" where
  "tip_loop mainRoot tipHash c blocksMoved addrs =
     (if tipHash = mainRoot then Some (c, tipHash, blocksMoved, addrs)
      else case orphan_block tipHash c of
        (c1, prev, as) \<Rightarrow> tip_loop mainRoot prev c1 (Suc blocksMoved) (addrs \<union> as))"

text \<open>The result has the addresses for which \<open>AddressCache.Clear\<close> is called.\<close>

definition TipToSideChain :: "hash \<Rightarrow> ChainDB \<Rightarrow> (ChainDB \<times> hash \<times> nat \<times> string set) option" where
  "TipToSideChain mainRoot c = tip_loop mainRoot (bestHash c) c 0 {}"

section \<open>The tables after one step\<close>

definition vins_of :: "hash \<Rightarrow> pg_tables \<Rightarrow> nat set" where
  "vins_of h db = (\<Union>t \<in> {t \<in> set (transactions db). t_block t = h}. set (t_vins t))"

definition vouts_of :: "hash \<Rightarrow> pg_tables \<Rightarrow> nat set" where
  "vouts_of h db = (\<Union>t \<in> {t \<in> set (transactions db). t_block t = h}. set (t_vouts t))"

lemma setVinsMainchainOneTxn_update:
  "setVinsMainchainOneTxn m ids vs = update_rows (\<lambda>v. v_id v \<in> set ids) (\<lambda>v. v\<lparr>v_main := m\<rparr>) vs"
  by (induction ids arbitrary: vs) (auto simp: setVinsMainchainOneTxn_def update_rows_def map_idI)

lemma setVinsMainchainForMany_update:
  assumes "\<And>x. x \<in> set ids \<Longrightarrow> snd (snd x) = m"
  shows "setVinsMainchainForMany ids vs = update_rows (\<lambda>v. v_id v \<in> \<Union> ((set \<circ> fst) ` set ids)) (\<lambda>v. v\<lparr>v_main := m\<rparr>) vs"
  using assms
proof (induction ids arbitrary: vs)
  case Nil
  then show ?case by (simp add: setVinsMainchainForMany_def update_rows_def)
next
  case (Cons x ids)
  have x: "snd (snd x) = m" using Cons.prems [of x] by simp
  have "setVinsMainchainForMany (x # ids) vs = setVinsMainchainForMany ids (setVinsMainchainOneTxn m (fst x) vs)"
    using x by (cases x) (simp add: setVinsMainchainForMany_def)
  also have "\<dots> = update_rows (\<lambda>v. v_id v \<in> \<Union> ((set \<circ> fst) ` set ids)) (\<lambda>v. v\<lparr>v_main := m\<rparr>) (setVinsMainchainOneTxn m (fst x) vs)"
    using Cons.prems by (intro Cons.IH) simp
  finally show ?case by (auto simp: setVinsMainchainOneTxn_update update_rows_def)
qed

lemma fold_setAddressMainchain:
  "fst (fold (setAddressMainchain funding flag) rows (t, addrs))
     = update_rows (\<lambda>a. a_funding a = funding \<and> a_row a \<in> set rows) (\<lambda>a. a\<lparr>a_main := flag\<rparr>) t"
  by (induction rows arbitrary: t addrs) (auto simp: setAddressMainchain_def update_rows_def map_idI)

lemma update_addresses_twice:
  "update_rows (\<lambda>a. a_funding a = True \<and> a_row a \<in> S) (\<lambda>a. a\<lparr>a_main := flag\<rparr>)
     (update_rows (\<lambda>a. a_funding a = False \<and> a_row a \<in> R) (\<lambda>a. a\<lparr>a_main := flag\<rparr>) t)
   = update_rows (\<lambda>a. if a_funding a then a_row a \<in> S else a_row a \<in> R) (\<lambda>a. a\<lparr>a_main := flag\<rparr>) t"
  by (simp add: update_rows_def)

lemma updateAddressesMainchainByIDs_rows:
  "fst (updateAddressesMainchainByIDs vinsBlk voutsBlk flag db)
     = db\<lparr>addresses := update_rows
            (\<lambda>a. if a_funding a then a_row a \<in> set (concat voutsBlk) else a_row a \<in> set (concat vinsBlk))
            (\<lambda>a. a\<lparr>a_main := flag\<rparr>) (addresses db)\<rparr>"
proof -
  obtain t1 s1 where 1: "fold (setAddressMainchain False flag) (concat vinsBlk) (addresses db, {}) = (t1, s1)" by fastforce
  obtain t2 s2 where 2: "fold (setAddressMainchain True flag) (concat voutsBlk) (t1, s1) = (t2, s2)" by fastforce
  have "t1 = update_rows (\<lambda>a. a_funding a = False \<and> a_row a \<in> set (concat vinsBlk)) (\<lambda>a. a\<lparr>a_main := flag\<rparr>) (addresses db)"
    using fold_setAddressMainchain [of False flag "concat vinsBlk" "addresses db" "{}"] 1 by simp
  moreover have "t2 = update_rows (\<lambda>a. a_funding a = True \<and> a_row a \<in> set (concat voutsBlk)) (\<lambda>a. a\<lparr>a_main := flag\<rparr>) t1"
    using fold_setAddressMainchain [of True flag "concat voutsBlk" t1 s1] 2 by simp
  moreover have "fst (updateAddressesMainchainByIDs vinsBlk voutsBlk flag db) = db\<lparr>addresses := t2\<rparr>"
    using 1 2 by (simp add: updateAddressesMainchainByIDs_def)
  ultimately show ?thesis by (simp only: update_addresses_twice)
qed

lemma update_rows_empty: "(\<And>v. \<not> p v) \<Longrightarrow> update_rows p f t = t"
  by (simp add: update_rows_def)

text \<open>The flags are set for exactly the rows of the block.\<close>

definition orphaned :: "hash \<Rightarrow> pg_tables \<Rightarrow> pg_tables" where
  "orphaned h db =
     db\<lparr>blocks := update_rows (\<lambda>b. b_hash b = h) (\<lambda>b. b\<lparr>b_main := False\<rparr>) (blocks db),
        transactions := update_rows (\<lambda>t. t_block t = h) (\<lambda>t. t\<lparr>t_main := False\<rparr>) (transactions db),
        vins := update_rows (\<lambda>v. v_id v \<in> vins_of h db) (\<lambda>v. v\<lparr>v_main := False\<rparr>) (vins db),
        vouts := update_rows (\<lambda>u. \<exists>t \<in> set (transactions db). t_block t = h \<and> o_spend u = Some (t_id t)) (\<lambda>u. u\<lparr>o_spend := None\<rparr>) (vouts db),
        addresses := update_rows (\<lambda>a. if a_funding a then a_row a \<in> vouts_of h db else a_row a \<in> vins_of h db)
                       (\<lambda>a. a\<lparr>a_main := False\<rparr>) (addresses db),
        tickets := update_rows (\<lambda>k. k_block k = h) (\<lambda>k. k\<lparr>k_main := False\<rparr>) (tickets db),
        votes := update_rows (\<lambda>w. w_block w = h) (\<lambda>w. w\<lparr>w_main := False\<rparr>) (votes db)\<rparr>"

text \<open>The rows that steps 4 and 5 read: the transactions already have their new flag.\<close>

lemma filter_update_rows:
  "(\<And>r. p (f r) = p r) \<Longrightarrow> filter p (update_rows p f t) = map f (filter p t)"
  by (induction t) (simp_all add: update_rows_def)

lemma retrieved_rows:
  assumes "transactions db1 = update_rows (\<lambda>t. t_block t = h) (\<lambda>t. t\<lparr>t_main := False\<rparr>) (transactions db)"
  shows "retrieveTxnsVinsVoutsByBlock h False db1 = map (\<lambda>t. (t_vins t, t_vouts t, False)) (filter (\<lambda>t. t_block t = h) (transactions db))"
  using filter_update_rows [of "\<lambda>t. t_block t = h" "\<lambda>t. t\<lparr>t_main := False\<rparr>" "transactions db"]
  by (simp add: retrieveTxnsVinsVoutsByBlock_def assms comp_def)

lemma retrieved_ids:
  assumes "transactions db1 = update_rows (\<lambda>t. t_block t = h) (\<lambda>t. t\<lparr>t_main := False\<rparr>) (transactions db)"
  shows "x \<in> set (retrieveTxnsVinsVoutsByBlock h False db1) \<Longrightarrow> snd (snd x) = False"
    and "\<Union> ((set \<circ> fst) ` set (retrieveTxnsVinsVoutsByBlock h False db1)) = vins_of h db"
    and "set (concat (map fst (retrieveTxnsVinsVoutsByBlock h False db1))) = vins_of h db"
    and "set (concat (map (fst \<circ> snd) (retrieveTxnsVinsVoutsByBlock h False db1))) = vouts_of h db"
  unfolding retrieved_rows [OF assms] vins_of_def vouts_of_def by auto

lemma orphan_flags_vins:
  assumes "transactions db1 = update_rows (\<lambda>t. t_block t = h) (\<lambda>t. t\<lparr>t_main := False\<rparr>) (transactions db)"
  shows "setVinsMainchainForMany (retrieveTxnsVinsVoutsByBlock h False db1) vs
      = update_rows (\<lambda>v. v_id v \<in> vins_of h db) (\<lambda>v. v\<lparr>v_main := False\<rparr>) vs"
  unfolding retrieved_ids(2) [OF assms, symmetric]
  by (rule setVinsMainchainForMany_update) (rule retrieved_ids(1) [OF assms])

lemma orphan_addresses:
  assumes "transactions db1 = update_rows (\<lambda>t. t_block t = h) (\<lambda>t. t\<lparr>t_main := False\<rparr>) (transactions db)"
    and "ids = retrieveTxnsVinsVoutsByBlock h False db1"
  obtains addrs where "updateAddressesMainchainByIDs (map fst ids) (map (fst \<circ> snd) ids) False db2
      = (db2\<lparr>addresses := update_rows (\<lambda>a. if a_funding a then a_row a \<in> vouts_of h db else a_row a \<in> vins_of h db)
                            (\<lambda>a. a\<lparr>a_main := False\<rparr>) (addresses db2)\<rparr>, addrs)"
  using updateAddressesMainchainByIDs_rows [of "map fst ids" "map (fst \<circ> snd) ids" False db2] retrieved_ids(3,4) [OF assms(1)] assms(2)
  by (cases "updateAddressesMainchainByIDs (map fst ids) (map (fst \<circ> snd) ids) False db2") simp

lemma miners_step:
  "\<exists>ms. (case retrieveBlockHeight h db of None \<Rightarrow> db | Some ht \<Rightarrow> CleanupMinerZeros (RevertOrphanMinerUpdate ht h db)) = db\<lparr>miners := ms\<rparr>"
  by (cases "retrieveBlockHeight h db")
     (auto simp: CleanupMinerZeros_def RevertOrphanMinerUpdate_def intro: exI [of _ "miners db"])

lemma orphan_tables_result:
  "\<exists>ms addrs. orphan_tables h db
     = ((orphaned h db)\<lparr>miners := ms\<rparr>,
        case query_row (\<lambda>b. b_hash b = h) (blocks db) of None \<Rightarrow> zeroHash | Some b \<Rightarrow> b_prev b, addrs)"
proof -
  obtain db1 prev where 1: "setMainchainByBlockHash h False db = (db1, prev)" by fastforce
  obtain db2 txIDs where 2: "updateTransactionsMainchain h False db1 = (db2, txIDs)" by fastforce
  define db3 where "db3 = clearVoutAllSpendTxRowIDs h db2"
  define ids where "ids = retrieveTxnsVinsVoutsByBlock h False db3"
  define db4 where "db4 = db3\<lparr>vins := update_rows (\<lambda>v. v_id v \<in> vins_of h db) (\<lambda>v. v\<lparr>v_main := False\<rparr>) (vins db3)\<rparr>"
  define db5 where "db5 = db4\<lparr>addresses := update_rows (\<lambda>a. if a_funding a then a_row a \<in> vouts_of h db else a_row a \<in> vins_of h db)
                            (\<lambda>a. a\<lparr>a_main := False\<rparr>) (addresses db4)\<rparr>"
  define db7 where "db7 = updateTicketsMainchain h False (updateVotesMainchain h False db5)"
  have db1: "db1 = db\<lparr>blocks := update_rows (\<lambda>b. b_hash b = h) (\<lambda>b. b\<lparr>b_main := False\<rparr>) (blocks db)\<rparr>"
    and prev: "prev = map_option b_prev (query_row (\<lambda>b. b_hash b = h) (blocks db))"
    using 1 by (simp_all add: setMainchainByBlockHash_def)
  have db2: "db2 = db1\<lparr>transactions := update_rows (\<lambda>t. t_block t = h) (\<lambda>t. t\<lparr>t_main := False\<rparr>) (transactions db)\<rparr>"
    using 2 by (simp add: updateTransactionsMainchain_def db1)
  have tx: "transactions db3 = update_rows (\<lambda>t. t_block t = h) (\<lambda>t. t\<lparr>t_main := False\<rparr>) (transactions db)"
    by (simp add: db3_def db2 clearVoutAllSpendTxRowIDs_def)
  have vins: "setVinsMainchainByBlock h db3 = (db4, ids)"
    using orphan_flags_vins [OF tx] by (simp add: setVinsMainchainByBlock_def ids_def db4_def)
  obtain addrs where addrs: "updateAddressesMainchainByIDs (map fst ids) (map (fst \<circ> snd) ids) False db4 = (db5, addrs)"
    unfolding db5_def by (rule orphan_addresses [OF tx ids_def])
  obtain ms where ms: "(case retrieveBlockHeight h db7 of None \<Rightarrow> db7
      | Some ht \<Rightarrow> CleanupMinerZeros (RevertOrphanMinerUpdate ht h db7)) = db7\<lparr>miners := ms\<rparr>"
    using miners_step [where h = h and db = db7] by blast
  have "vouts db3 = vouts (orphaned h db)"
    by (simp add: db3_def db2 db1 clearVoutAllSpendTxRowIDs_def orphaned_def bex_update_rows)
  then have "db7\<lparr>miners := ms\<rparr> = (orphaned h db)\<lparr>miners := ms\<rparr>"
    by (intro pg_tables.equality)
       (simp_all add: db7_def db5_def db4_def tx orphaned_def updateVotesMainchain_def updateTicketsMainchain_def,
        simp_all add: db3_def db2 db1 clearVoutAllSpendTxRowIDs_def)
  then have "orphan_tables h db = ((orphaned h db)\<lparr>miners := ms\<rparr>, case prev of None \<Rightarrow> zeroHash | Some p \<Rightarrow> p, addrs)"
    using 1 2 vins addrs ms [unfolded db7_def] by (simp add: orphan_tables_def Let_def db3_def [symmetric] db7_def)
  then show ?thesis
    by (auto simp: prev split: option.split)
qed

section \<open>Sound flags\<close>

definition main_hashes :: "pg_tables \<Rightarrow> hash set" where
  "main_hashes db = b_hash ` {b \<in> set (blocks db). b_main b}"

text \<open>Transactions, votes and tickets have the flag of their block; an input that counts for the main chain belongs to a transaction that
  does, and an address row or a spent output that counts belongs to one that is valid too.\<close>

definition block_flags :: "pg_tables \<Rightarrow> bool" where
  "block_flags db \<longleftrightarrow>
     (\<forall>t \<in> set (transactions db). t_main t \<longleftrightarrow> t_block t \<in> main_hashes db)
     \<and> (\<forall>w \<in> set (votes db). w_main w \<longleftrightarrow> w_block w \<in> main_hashes db)
     \<and> (\<forall>k \<in> set (tickets db). k_main k \<longleftrightarrow> k_block k \<in> main_hashes db)"

definition row_flags :: "pg_tables \<Rightarrow> bool" where
  "row_flags db \<longleftrightarrow>
     (\<forall>v \<in> set (vins db). v_main v \<longrightarrow> (\<exists>t \<in> set (transactions db). t_main t \<and> v_id v \<in> set (t_vins t)))
     \<and> (\<forall>a \<in> set (addresses db). a_main a \<longrightarrow>
           (\<exists>t \<in> set (transactions db). t_main t \<and> t_valid t \<and> a_row a \<in> set (if a_funding a then t_vouts t else t_vins t)))
     \<and> (\<forall>u \<in> set (vouts db). \<forall>i. o_spend u = Some i \<longrightarrow> (\<exists>t \<in> set (transactions db). t_main t \<and> t_valid t \<and> t_id t = i))"

definition flags_sound :: "pg_tables \<Rightarrow> bool" where
  "flags_sound db \<longleftrightarrow> block_flags db \<and> row_flags db"

lemma orphaned_rows [simp]:
  "blocks (orphaned h db) = update_rows (\<lambda>b. b_hash b = h) (\<lambda>b. b\<lparr>b_main := False\<rparr>) (blocks db)"
  "transactions (orphaned h db) = update_rows (\<lambda>t. t_block t = h) (\<lambda>t. t\<lparr>t_main := False\<rparr>) (transactions db)"
  "vins (orphaned h db) = update_rows (\<lambda>v. v_id v \<in> vins_of h db) (\<lambda>v. v\<lparr>v_main := False\<rparr>) (vins db)"
  "votes (orphaned h db) = update_rows (\<lambda>w. w_block w = h) (\<lambda>w. w\<lparr>w_main := False\<rparr>) (votes db)"
  "tickets (orphaned h db) = update_rows (\<lambda>k. k_block k = h) (\<lambda>k. k\<lparr>k_main := False\<rparr>) (tickets db)"
  "vouts (orphaned h db) = update_rows (\<lambda>u. \<exists>t \<in> set (transactions db). t_block t = h \<and> o_spend u = Some (t_id t)) (\<lambda>u. u\<lparr>o_spend := None\<rparr>) (vouts db)"
  "addresses (orphaned h db) = update_rows (\<lambda>a. if a_funding a then a_row a \<in> vouts_of h db else a_row a \<in> vins_of h db)
     (\<lambda>a. a\<lparr>a_main := False\<rparr>) (addresses db)"
  by (simp_all add: orphaned_def)

lemma in_main_hashes: "x \<in> main_hashes db \<longleftrightarrow> (\<exists>b \<in> set (blocks db). b_main b \<and> b_hash b = x)"
  by (auto simp: main_hashes_def)

lemma main_hashes_orphaned: "main_hashes (orphaned h db) = main_hashes db - {h}"
proof (rule set_eqI)
  fix x
  show "x \<in> main_hashes (orphaned h db) \<longleftrightarrow> x \<in> main_hashes db - {h}"
    unfolding in_main_hashes orphaned_rows bex_update Diff_iff by auto
qed

lemma block_flags_orphaned: "block_flags db \<Longrightarrow> block_flags (orphaned h db)"
  unfolding block_flags_def main_hashes_orphaned orphaned_rows ball_update by simp

text \<open>A transaction of another block is a row as before.\<close>

lemma kept_tx: "t \<in> set (transactions db) \<Longrightarrow> t_block t \<noteq> h \<Longrightarrow> t \<in> set (transactions (orphaned h db))"
  by (simp add: set_update_rows)

lemma row_flags_orphaned:
  assumes "row_flags db"
  shows "row_flags (orphaned h db)"
proof -
  have vin: "\<exists>t \<in> set (transactions (orphaned h db)). t_main t \<and> v_id v \<in> set (t_vins t)"
    if "v \<in> set (vins (orphaned h db))" and main: "v_main v" for v
  proof -
    have v: "v \<in> set (vins db)" "v_id v \<notin> vins_of h db" using that by (auto simp: set_update_rows)
    then obtain t where t: "t \<in> set (transactions db)" "t_main t" "v_id v \<in> set (t_vins t)"
      using main assms unfolding row_flags_def by blast
    then have "t_block t \<noteq> h" using v(2) by (auto simp: vins_of_def)
    then show ?thesis using t kept_tx by blast
  qed
  have addr: "\<exists>t \<in> set (transactions (orphaned h db)). t_main t \<and> t_valid t \<and> a_row a \<in> set (if a_funding a then t_vouts t else t_vins t)"
    if "a \<in> set (addresses (orphaned h db))" and main: "a_main a" for a
  proof -
    have a: "a \<in> set (addresses db)" "if a_funding a then a_row a \<notin> vouts_of h db else a_row a \<notin> vins_of h db"
      using that by (auto simp: set_update_rows split: if_splits)
    then obtain t where t: "t \<in> set (transactions db)" "t_main t" "t_valid t" "a_row a \<in> set (if a_funding a then t_vouts t else t_vins t)"
      using main assms unfolding row_flags_def by blast
    then have "t_block t \<noteq> h" using a(2) by (auto simp: vins_of_def vouts_of_def split: if_splits)
    then show ?thesis using t kept_tx by blast
  qed
  have spend: "\<exists>t \<in> set (transactions (orphaned h db)). t_main t \<and> t_valid t \<and> t_id t = i"
    if "u \<in> set (vouts (orphaned h db))" and main: "o_spend u = Some i" for u i
  proof -
    have u: "u \<in> set (vouts db)" "\<not> (\<exists>t \<in> set (transactions db). t_block t = h \<and> o_spend u = Some (t_id t))"
      using that by (auto simp: set_update_rows)
    then obtain t where t: "t \<in> set (transactions db)" "t_main t" "t_valid t" "t_id t = i"
      using main assms unfolding row_flags_def by blast
    then have "t_block t \<noteq> h" using u(2) main by auto
    then show ?thesis using t kept_tx by blast
  qed
  show ?thesis unfolding row_flags_def using vin addr spend by blast
qed

lemma flags_sound_orphaned: "flags_sound db \<Longrightarrow> flags_sound (orphaned h db)"
  by (simp add: flags_sound_def block_flags_orphaned row_flags_orphaned del: orphaned_rows)

lemma flags_sound_miners [simp]: "flags_sound (db\<lparr>miners := ms\<rparr>) = flags_sound db"
  by (simp add: flags_sound_def block_flags_def row_flags_def main_hashes_def)

section \<open>The walk reaches the common ancestor\<close>

fun linked_down :: "pg_block list \<Rightarrow> hash list \<Rightarrow> bool" where
  "linked_down bs (h # h' # hs) \<longleftrightarrow> (\<exists>b \<in> set bs. b_hash b = h \<and> b_prev b = h') \<and> linked_down bs (h' # hs)"
| "linked_down bs hs \<longleftrightarrow> True"

text \<open>The main chain from the best block downwards is \<open>hs\<close>.\<close>

definition chain_at :: "ChainDB \<Rightarrow> hash list \<Rightarrow> bool" where
  "chain_at c hs \<longleftrightarrow>
     distinct (map b_hash (blocks (tabs c))) \<and> distinct hs \<and> hs \<noteq> [] \<and> linked_down (blocks (tabs c)) hs
     \<and> main_hashes (tabs c) = set hs \<and> bestHash c = hd hs \<and> retrieveBlockHeight (bestHash c) (tabs c) = Some (bestHeight c)"

text \<open>The rows of all other blocks are as before.\<close>

definition outside :: "hash set \<Rightarrow> ('r \<Rightarrow> hash) \<Rightarrow> 'r list \<Rightarrow> 'r list" where
  "outside S f t = filter (\<lambda>r. f r \<notin> S) t"

definition kept :: "hash set \<Rightarrow> pg_tables \<Rightarrow> pg_tables \<Rightarrow> bool" where
  "kept S db db' \<longleftrightarrow>
     outside S b_hash (blocks db') = outside S b_hash (blocks db) \<and> outside S t_block (transactions db') = outside S t_block (transactions db)
     \<and> outside S w_block (votes db') = outside S w_block (votes db) \<and> outside S k_block (tickets db') = outside S k_block (tickets db)"

lemma outside_update: "h \<in> S \<Longrightarrow> (\<And>r. f (g r) = f r) \<Longrightarrow> outside S f (update_rows (\<lambda>r. f r = h) g t) = outside S f t"
  by (induction t) (simp_all add: outside_def update_rows_def)

lemma outside_mono: "outside S f t' = outside S f t \<Longrightarrow> S \<subseteq> S' \<Longrightarrow> outside S' f t' = outside S' f t"
proof -
  assume a: "outside S f t' = outside S f t" and "S \<subseteq> S'"
  then have "outside S' f u = outside S' f (outside S f u)" for u
    unfolding outside_def filter_filter by (metis (no_types, lifting) subsetD)
  then show ?thesis using a by metis
qed

lemma kept_orphaned: "h \<in> S \<Longrightarrow> kept S db ((orphaned h db)\<lparr>miners := ms\<rparr>)"
  by (simp add: kept_def outside_update)

lemma kept_mono: "kept S db db' \<Longrightarrow> S \<subseteq> S' \<Longrightarrow> kept S' db db'"
  unfolding kept_def using outside_mono by metis

lemma kept_trans: "kept S db db1 \<Longrightarrow> kept S db1 db2 \<Longrightarrow> kept S db db2"
  by (simp add: kept_def)

lemma linked_down_orphaned: "linked_down (blocks (orphaned h db)) hs = linked_down (blocks db) hs"
proof (induction "blocks db" hs rule: linked_down.induct)
  case (1 h1 h2 hs)
  then show ?case by (simp add: bex_update_rows)
qed simp_all

lemma block_row:
  assumes "distinct (map b_hash bs)" and "b \<in> set bs"
  shows "query_row (\<lambda>r. b_hash r = b_hash b) bs = Some b"
proof (rule query_row_unique)
  show "s = b" if "s \<in> set bs" "b_hash s = b_hash b" for s
    using that assms by (meson eq_key_imp_eq_value inj_onD distinct_map)
qed (use assms(2) in auto)

text \<open>One step of the walk on a database whose main chain is \<open>h # h' # hs\<close>.\<close>

lemma orphan_block_step:
  assumes "chain_at c (h # h' # hs)" and "flags_sound (tabs c)"
  shows "\<exists>c1 addrs. orphan_block h c = (c1, h', addrs) \<and> chain_at c1 (h' # hs) \<and> flags_sound (tabs c1) \<and> kept {h} (tabs c) (tabs c1)"
proof -
  have d: "distinct (map b_hash (blocks (tabs c)))" "distinct (h # h' # hs)" "main_hashes (tabs c) = set (h # h' # hs)"
    and l: "linked_down (blocks (tabs c)) (h # h' # hs)" using assms(1) by (auto simp: chain_at_def)
  obtain b where b: "b \<in> set (blocks (tabs c))" "b_hash b = h" "b_prev b = h'" using l by auto
  have q: "query_row (\<lambda>r. b_hash r = h) (blocks (tabs c)) = Some b" using block_row [OF d(1) b(1)] b(2) by simp
  obtain ms addrs where o: "orphan_tables h (tabs c) = ((orphaned h (tabs c))\<lparr>miners := ms\<rparr>, h', addrs)"
    using orphan_tables_result [of h "tabs c"] q b(3) by auto
  let ?db = "(orphaned h (tabs c))\<lparr>miners := ms\<rparr>"
  define c1 where "c1 = c\<lparr>tabs := ?db, bestHeight := (case retrieveBlockHeight h' ?db of None \<Rightarrow> 0 | Some ht \<Rightarrow> ht), bestHash := h'\<rparr>"
  have step: "orphan_block h c = (c1, h', addrs)" by (simp add: orphan_block_def o c1_def)
  have "h' \<in> main_hashes (tabs c)" using d(3) by simp
  then obtain b' where "b' \<in> set (blocks (tabs c))" "b_hash b' = h'" unfolding in_main_hashes by blast
  then have "\<exists>b \<in> set (blocks ?db). b_hash b = h'" by (auto simp: bex_update_rows)
  then obtain ht where ht: "retrieveBlockHeight h' ?db = Some ht"
    unfolding retrieveBlockHeight_def using query_row_None [of "\<lambda>b. b_hash b = h'" "blocks ?db"] by fastforce
  have "distinct (map b_hash (blocks ?db))" using d(1) by simp
  moreover have "main_hashes ?db = set (h' # hs)"
    using main_hashes_orphaned [of h "tabs c"] d(2,3) by (auto simp: main_hashes_def)
  moreover have "linked_down (blocks ?db) (h' # hs)" using l linked_down_orphaned [of h "tabs c" "h' # hs"] by simp
  ultimately have "chain_at c1 (h' # hs)" using d(2) ht by (simp add: chain_at_def c1_def)
  moreover have "flags_sound (tabs c1)" using flags_sound_orphaned [OF assms(2), of h] by (simp add: c1_def)
  moreover have "kept {h} (tabs c) (tabs c1)" using kept_orphaned [of h "{h}" "tabs c" ms] by (simp add: c1_def)
  ultimately show ?thesis using step by blast
qed

lemma tip_loop_path:
  assumes "chain_at c (xs @ root # ys)" and "flags_sound (tabs c)"
  shows "\<exists>c' as. tip_loop root (bestHash c) c k addrs = Some (c', root, k + length xs, as) \<and> chain_at c' (root # ys)
      \<and> flags_sound (tabs c') \<and> kept (set xs) (tabs c) (tabs c')"
  using assms
proof (induction xs arbitrary: c k addrs)
  case Nil
  then have "bestHash c = root" by (simp add: chain_at_def)
  then show ?case using Nil by (simp add: tip_loop.simps kept_def)
next
  case (Cons x xs)
  obtain h' hs where hs: "xs @ root # ys = h' # hs" by (cases xs) auto
  then have at: "chain_at c (x # h' # hs)" using Cons.prems(1) by simp
  then obtain c1 as where c1: "orphan_block x c = (c1, h', as)" "chain_at c1 (xs @ root # ys)" "flags_sound (tabs c1)" "kept {x} (tabs c) (tabs c1)"
    using orphan_block_step [OF at Cons.prems(2)] hs by auto
  have "distinct (x # xs @ root # ys)" using Cons.prems(1) by (simp add: chain_at_def)
  then have ne: "x \<noteq> root" by auto
  have best: "bestHash c = x" "bestHash c1 = h'" using at c1(2) hs by (simp_all add: chain_at_def)
  obtain c' as' where c': "tip_loop root (bestHash c1) c1 (Suc k) (addrs \<union> as) = Some (c', root, Suc k + length xs, as')"
    "chain_at c' (root # ys)" "flags_sound (tabs c')" "kept (set xs) (tabs c1) (tabs c')"
    using Cons.IH [OF c1(2,3), of "Suc k" "addrs \<union> as"] by blast
  have "kept (set (x # xs)) (tabs c) (tabs c')"
    using kept_trans [OF kept_mono [OF c1(4)] kept_mono [OF c'(4)], of "set (x # xs)"] by auto
  moreover have "tip_loop root (bestHash c) c k addrs = Some (c', root, k + length (x # xs), as')"
    using c'(1) ne best c1(1) tip_loop.simps [of root x c k addrs] by simp
  ultimately show ?case using c'(2,3) by blast
qed

text \<open>C8. When the common ancestor is on the main chain, \<open>TipToSideChain\<close> returns after as many steps as there are blocks above it. The
  ancestor is the best block then, exactly it and the blocks below it are on the main chain, every transaction, vote and ticket has the flag of
  its block, no input counts for the main chain without a transaction that does, no address row or spending reference without a valid one, and the rows of the
  blocks that stay are as before.\<close>

theorem TipToSideChain_correct:
  assumes "chain_at c (orphans @ root # below)" and "flags_sound (tabs c)"
  shows "\<exists>c' addrs. TipToSideChain root c = Some (c', root, length orphans, addrs) \<and> chain_at c' (root # below)
      \<and> flags_sound (tabs c') \<and> kept (set orphans) (tabs c) (tabs c')"
  using tip_loop_path [OF assms, of 0 "{}"] by (simp add: TipToSideChain_def)

definition reorg_block :: "byte \<Rightarrow> bool \<Rightarrow> pg_block" where
  "reorg_block i valid = \<lparr>b_id = unat i, b_hash = [i], b_height = uint i, b_valid = valid, b_main = True, b_txDbIDs = [unat i], b_stxDbIDs = [],
     b_prev = [i - 1]\<rparr>"

definition reorg_tx :: "byte \<Rightarrow> pg_tx" where
  "reorg_tx i = \<lparr>t_id = unat i, t_block = [i], t_height = uint i, t_time = uint i, t_type = 0, t_tree = 0, t_hash = [i, 0], t_index = 0,
     t_vins = [unat i], t_vouts = [unat i], t_valid = True, t_main = True\<rparr>"

definition reorg_tables :: "pg_block list \<Rightarrow> pg_tables" where
  "reorg_tables bs = \<lparr>blocks = bs, block_chain = [], transactions = map reorg_tx [1, 2, 3], vins = [], vouts = [], addresses = [], tickets = [],
     votes = [], misses = [], miners = [], stats = [], swaps = [], bestMeta = (3, [3]), serial = (\<lambda>s. 10)\<rparr>"

definition reorg_db :: "pg_block list \<Rightarrow> ChainDB" where
  "reorg_db bs = \<lparr>tabs = reorg_tables bs, bestHash = [3], bestHeight = 3, lastBlock = Map.empty\<rparr>"

lemma reorg_block_fields [simp]:
  "b_hash (reorg_block i v) = [i]" "b_prev (reorg_block i v) = [i - 1]" "b_main (reorg_block i v) = True" "b_height (reorg_block i v) = uint i"
  "b_valid (reorg_block i v) = v" "b_id (reorg_block i v) = unat i"
  by (simp_all add: reorg_block_def)

lemma reorg_db_fields [simp]:
  "blocks (reorg_tables bs) = bs" "tabs (reorg_db bs) = reorg_tables bs" "bestHash (reorg_db bs) = [3]" "bestHeight (reorg_db bs) = 3"
  by (simp_all add: reorg_tables_def reorg_db_def)

lemma reorg_db_ok:
  "chain_at (reorg_db [reorg_block 1 True, reorg_block 2 v, reorg_block 3 True]) [[3], [2], [1]]"
  "flags_sound (reorg_tables [reorg_block 1 True, reorg_block 2 v, reorg_block 3 True])"
proof -
  let ?bs = "[reorg_block 1 True, reorg_block 2 v, reorg_block 3 True]"
  have m: "main_hashes (reorg_tables ?bs) = {[1], [2], [3]}"
    by (rule set_eqI, unfold in_main_hashes) (auto simp: reorg_tables_def reorg_block_def)
  show "chain_at (reorg_db ?bs) [[3], [2], [1]]"
    unfolding chain_at_def using m by (simp add: retrieveBlockHeight_def query_row_def insert_commute)
  show "flags_sound (reorg_tables ?bs)"
    unfolding flags_sound_def block_flags_def row_flags_def m by (simp add: reorg_tables_def reorg_tx_def)
qed

theorem TipToSideChain_correct_witness:
  "\<exists>c' addrs. TipToSideChain [2] (reorg_db [reorg_block 1 True, reorg_block 2 True, reorg_block 3 True]) = Some (c', [2], 1, addrs)
      \<and> chain_at c' [[2], [1]]"
  using TipToSideChain_correct [of "reorg_db [reorg_block 1 True, reorg_block 2 True, reorg_block 3 True]" "[[3]]" "[2]" "[[1]]"] reorg_db_ok [of True]
  by (auto simp: reorg_db_def)

section \<open>A root that is not an ancestor\<close>

text \<open>The walk ends only at the root: when it returns, the root is reached from the best block by previous hashes, where a hash without a row
  counts as one whose previous hash is zero. A root off the main chain makes it run for ever, below the first block with the zero hash.\<close>

definition prev_of :: "pg_tables \<Rightarrow> hash \<Rightarrow> hash" where
  "prev_of db h = (case query_row (\<lambda>b. b_hash b = h) (blocks db) of None \<Rightarrow> zeroHash | Some b \<Rightarrow> b_prev b)"

lemma query_row_update_field:
  assumes "\<And>r. q (f r) = q r" and "\<And>r. g (f r) = g r"
  shows "map_option g (query_row q (update_rows p f t)) = map_option g (query_row q t)"
  using assms by (induction t) (auto simp: query_row_def update_rows_def)

lemma prev_of_orphaned: "prev_of ((orphaned h db)\<lparr>miners := ms\<rparr>) x = prev_of db x"
proof -
  have "map_option b_prev (query_row (\<lambda>b. b_hash b = x) (blocks (orphaned h db))) = map_option b_prev (query_row (\<lambda>b. b_hash b = x) (blocks db))"
    by (simp add: query_row_update_field)
  then show ?thesis by (auto simp: prev_of_def split: option.splits)
qed

lemma tip_loop_reaches:
  assumes "tip_loop root h c k addrs = Some r"
  shows "\<exists>n. (prev_of (tabs c) ^^ n) h = root"
proof (rule tip_loop.raw_induct [OF _ assms, where P = "\<lambda>root h c k addrs r. \<exists>n. (prev_of (tabs c) ^^ n) h = root"])
  fix loop :: "hash \<Rightarrow> hash \<Rightarrow> ChainDB \<Rightarrow> nat \<Rightarrow> string set \<Rightarrow> (ChainDB \<times> hash \<times> nat \<times> string set) option" and root h c k addrs r
  assume IH: "\<And>root h c k addrs r. loop root h c k addrs = Some r \<Longrightarrow> \<exists>n. (prev_of (tabs c) ^^ n) h = root"
    and step: "(if h = root then Some (c, h, k, addrs)
      else case orphan_block h c of (c1, prev, as) \<Rightarrow> loop root prev c1 (Suc k) (addrs \<union> as)) = Some r"
  show "\<exists>n. (prev_of (tabs c) ^^ n) h = root"
  proof (cases "h = root")
    case True
    then show ?thesis by (intro exI [of _ 0]) simp
  next
    case False
    obtain ms as where o: "orphan_tables h (tabs c) = ((orphaned h (tabs c))\<lparr>miners := ms\<rparr>, prev_of (tabs c) h, as)"
      using orphan_tables_result [of h "tabs c"] by (auto simp: prev_of_def)
    then obtain c1 where c1: "orphan_block h c = (c1, prev_of (tabs c) h, as)" "tabs c1 = (orphaned h (tabs c))\<lparr>miners := ms\<rparr>"
      by (simp add: orphan_block_def)
    then have "loop root (prev_of (tabs c) h) c1 (Suc k) (addrs \<union> as) = Some r" using step False by simp
    then obtain n where "(prev_of (tabs c1) ^^ n) (prev_of (tabs c) h) = root" using IH by blast
    moreover have "prev_of (tabs c1) = prev_of (tabs c)" by (rule ext) (simp add: c1(2) prev_of_orphaned)
    ultimately show ?thesis by (intro exI [of _ "Suc n"]) (simp add: funpow_swap1)
  qed
qed

lemma TipToSideChain_never_ends:
  assumes "\<And>n. (prev_of (tabs c) ^^ n) (bestHash c) \<noteq> root"
  shows "TipToSideChain root c = None"
  using tip_loop_reaches [of root "bestHash c" c 0 "{}"] assms by (cases "TipToSideChain root c") (auto simp: TipToSideChain_def)

end
