(* ===== verification/PgLast.thy ===== *)
theory PgLast
  imports PgReorg
begin

text \<open>
  The rows of a block itself (\<open>insertBlock\<close>, \<open>insertBlockPrevNext\<close>) and what a new block does to the previous one
  (\<open>updateLastBlock\<close> of \<open>db/dcrpg/pgblockchain.go\<close>): it becomes the next block of its parent, and when its votes disapprove the parent, the
  regular transactions of the parent are invalidated. Checked inserts look for a conflicting row; unchecked ones, which are used before the
  unique indexes exist, only append.
\<close>

section \<open>Inserting a block\<close>

record block_row_data =
  br_Hash :: hash
  br_Height :: int
  br_PreviousHash :: hash
  br_TxDbIDs :: "nat list"
  br_STxDbIDs :: "nat list"

definition advance_seq :: "pg_seq \<Rightarrow> pg_tables \<Rightarrow> pg_tables" where
  "advance_seq q db = db\<lparr>serial := (serial db)(q := Suc (serial db q))\<rparr>"

definition insertBlock :: "block_row_data \<Rightarrow> bool \<Rightarrow> bool \<Rightarrow> bool \<Rightarrow> pg_tables \<Rightarrow> pg_tables \<times> nat" where
  "insertBlock d isValid isMainchain checked db0 =
     (let blkId = serial db0 SeqBlocks; db = advance_seq SeqBlocks db0
      in case (if checked then query_row (\<lambda>b. b_hash b = br_Hash d) (blocks db) else None) of
           Some b \<Rightarrow>
             (db\<lparr>blocks := update_rows (\<lambda>b. b_hash b = br_Hash d) (\<lambda>b. b\<lparr>b_valid := isValid, b_main := isMainchain\<rparr>) (blocks db)\<rparr>, b_id b)
         | None \<Rightarrow>
             (db\<lparr>blocks := blocks db @ [\<lparr>b_id = blkId, b_hash = br_Hash d, b_height = br_Height d, b_valid = isValid, b_main = isMainchain,
                   b_txDbIDs = br_TxDbIDs d, b_stxDbIDs = br_STxDbIDs d, b_prev = br_PreviousHash d\<rparr>]\<rparr>, blkId))"

text \<open>On a conflict of \<open>this_hash\<close> the row is left as it is.\<close>

definition insertBlockPrevNext :: "nat \<Rightarrow> hash \<Rightarrow> hash \<Rightarrow> pg_tables \<Rightarrow> pg_tables" where
  "insertBlockPrevNext blockDbID h prev db =
     (if \<exists>l \<in> set (block_chain db). l_this l = h then db
      else db\<lparr>block_chain := block_chain db @ [\<lparr>l_id = blockDbID, l_prev = prev, l_this = h, l_next = None\<rparr>]\<rparr>)"

definition blockChainDbID :: "hash \<Rightarrow> pg_tables \<Rightarrow> nat option" where
  "blockChainDbID h db = map_option l_id (query_row (\<lambda>l. l_this l = h) (block_chain db))"

definition updateBlockNext :: "nat \<Rightarrow> hash \<Rightarrow> pg_tables \<Rightarrow> pg_tables \<times> bool" where
  "updateBlockNext blockDbID next db =
     (db\<lparr>block_chain := update_rows (\<lambda>l. l_id l = blockDbID) (\<lambda>l. l\<lparr>l_next := Some next\<rparr>) (block_chain db)\<rparr>,
      length (filter (\<lambda>l. l_id l = blockDbID) (block_chain db)) = 1)"

section \<open>Disapproving a block\<close>

definition retrieveTxsByBlockHash :: "hash \<Rightarrow> pg_tables \<Rightarrow> (hash \<times> int \<times> int) list" where
  "retrieveTxsByBlockHash h db = map (\<lambda>t. (t_hash t, t_tree t, t_time t)) (filter (\<lambda>t. t_block t = h) (transactions db))"

text \<open>\<open>None\<close> is the error that no row is updated for a transaction; the earlier transactions stay updated.\<close>

fun vins_loop :: "bool \<Rightarrow> bool \<Rightarrow> (hash \<times> int \<times> int) list \<Rightarrow> pg_tables \<Rightarrow> pg_tables \<times> bool" where
  "vins_loop isValid isMainchain [] db = (db, True)"
| "vins_loop isValid isMainchain ((txHash, tree, time) # txs) db =
     (let p = (\<lambda>v. v_tx v = txHash \<and> v_time v = time);
          db1 = db\<lparr>vins := update_rows p (\<lambda>v. v\<lparr>v_valid := (isValid \<or> tree = 1), v_main := isMainchain\<rparr>) (vins db)\<rparr>
      in if list_ex p (vins db) then vins_loop isValid isMainchain txs db1 else (db1, False))"

definition updateLastVins :: "hash \<Rightarrow> bool \<Rightarrow> bool \<Rightarrow> pg_tables \<Rightarrow> pg_tables \<times> bool" where
  "updateLastVins h isValid isMainchain db = vins_loop isValid isMainchain (retrieveTxsByBlockHash h db) db"

datatype last_error = ErrNoRows | NotOneNextRow | NotOneBlockRow | NoVinRow

definition disapprove :: "hash \<Rightarrow> nat \<Rightarrow> bool \<Rightarrow> pg_tables \<Rightarrow> pg_tables \<times> string set \<times> last_error option" where
  "disapprove lastHash lastDbID isMainchain db0 =
     (let (db1, one) = updateLastBlockValid lastDbID False db0
      in if \<not> one then (db1, {}, Some NotOneBlockRow)
         else let db2 = clearVoutRegularSpendTxRowIDs lastHash db1;
                  (db3, ok) = updateLastVins lastHash False isMainchain db2
              in if \<not> ok then (db3, {}, Some NoVinRow)
                 else let db4 = updateTransactionsValid lastHash False db3;
                          (db5, addrs) = updateLastAddressesValid lastHash False db4
                      in (db5, addrs, None))"

text \<open>The header of the new block: its hash, the previous hash and the vote bits. The result has the addresses whose cache is cleared.\<close>

definition updateLastBlock ::
  "hash \<Rightarrow> hash \<Rightarrow> 16 word \<Rightarrow> bool \<Rightarrow> ChainDB \<Rightarrow> ChainDB \<times> string set \<times> last_error option" where
  "updateLastBlock blockHash lastHash voteBits isMainchain c =
     (if lastHash = zeroHash then (c, {}, None)
      else if \<not> isMainchain \<and> (case retrieveBlockFlags lastHash (tabs c) of None \<Rightarrow> True | Some (v, lastIsMainchain) \<Rightarrow> lastIsMainchain \<noteq> isMainchain)
      then (c, {}, None)
      else case (case lastBlock c lastHash of Some i \<Rightarrow> Some i | None \<Rightarrow> blockChainDbID lastHash (tabs c)) of
        None \<Rightarrow> (c, {}, Some ErrNoRows)
      | Some lastDbID \<Rightarrow>
          (let (db1, one) = updateBlockNext lastDbID blockHash (tabs c)
           in if \<not> one then (c\<lparr>tabs := db1\<rparr>, {}, Some NotOneNextRow)
              else if bit voteBits 0 then (c\<lparr>tabs := db1\<rparr>, {}, None)
              else let (db2, addrs, err) = disapprove lastHash lastDbID isMainchain db1 in (c\<lparr>tabs := db2\<rparr>, addrs, err)))"

section \<open>The tables after a disapproval\<close>

definition vin_update :: "bool \<Rightarrow> bool \<Rightarrow> hash \<times> int \<times> int \<Rightarrow> pg_vin \<Rightarrow> pg_vin" where
  "vin_update isValid isMainchain = (\<lambda>(h, tree, time) v.
     if v_tx v = h \<and> v_time v = time then v\<lparr>v_valid := (isValid \<or> tree = 1), v_main := isMainchain\<rparr> else v)"

definition has_vin :: "pg_vin list \<Rightarrow> hash \<times> int \<times> int \<Rightarrow> bool" where
  "has_vin vs = (\<lambda>(h, tree, time). \<exists>v \<in> set vs. v_tx v = h \<and> v_time v = time)"

lemma vin_update_keys [simp]:
  "v_id (vin_update f m x v) = v_id v" "v_tx (vin_update f m x v) = v_tx v" "v_time (vin_update f m x v) = v_time v"
  by (simp_all add: vin_update_def split: prod.split)

lemma fold_vin_update_keys [simp]:
  "v_id (fold (vin_update f m) xs v) = v_id v" "v_tx (fold (vin_update f m) xs v) = v_tx v" "v_time (fold (vin_update f m) xs v) = v_time v"
  by (induction xs arbitrary: v) simp_all

lemma has_vin_map: "has_vin (map (vin_update f m x) vs) = has_vin vs"
  by (auto simp: has_vin_def)

lemma vins_loop_rows:
  "\<forall>x \<in> set xs. has_vin (vins db) x \<Longrightarrow>
     vins_loop f m xs db = (db\<lparr>vins := map (fold (vin_update f m) xs) (vins db)\<rparr>, True)"
proof (induction xs arbitrary: db)
  case Nil
  then show ?case by simp
next
  case (Cons x xs)
  obtain h tree time where x: "x = (h, tree, time)" by (cases x)
  define db1 where "db1 = db\<lparr>vins := map (vin_update f m x) (vins db)\<rparr>"
  have "list_ex (\<lambda>v. v_tx v = h \<and> v_time v = time) (vins db)"
    using Cons.prems by (simp add: x has_vin_def list_ex_iff)
  then have "vins_loop f m (x # xs) db = vins_loop f m xs db1"
    by (simp add: x db1_def update_rows_def vin_update_def)
  also have "\<dots> = (db1\<lparr>vins := map (fold (vin_update f m) xs) (vins db1)\<rparr>, True)"
    using Cons.prems by (intro Cons.IH) (simp add: db1_def has_vin_map)
  finally show ?case by (simp add: db1_def comp_def)
qed

text \<open>An input that counts for the main chain did before, or belongs to a transaction of the block.\<close>

lemma fold_vin_update_main:
  "v_main (fold (vin_update f m) xs v) \<Longrightarrow> v_main v \<or> m \<and> (\<exists>x \<in> set xs. fst x = v_tx v \<and> snd (snd x) = v_time v)"
proof (induction xs arbitrary: v)
  case (Cons x xs)
  then have "v_main (vin_update f m x v) \<or> m \<and> (\<exists>y \<in> set xs. fst y = v_tx v \<and> snd (snd y) = v_time v)"
    using Cons.IH [of "vin_update f m x v"] by simp
  moreover have "v_main (vin_update f m x v) \<Longrightarrow> v_main v \<or> m \<and> fst x = v_tx v \<and> snd (snd x) = v_time v"
    by (cases x) (simp add: vin_update_def split: if_splits)
  ultimately show ?case by auto
qed simp

lemma fold_vin_update_hit:
  assumes "(h, tree, time) \<in> set xs" and "v_tx v = h" and "v_time v = time" and "distinct (map fst xs)"
  shows "fold (vin_update f m) xs v = v\<lparr>v_valid := (f \<or> tree = 1), v_main := m\<rparr>"
proof -
  have only: "fold (vin_update f m) ys w = w" if "v_tx w \<notin> fst ` set ys" for ys w
    using that by (induction ys arbitrary: w) (auto simp: vin_update_def split: prod.split)
  show ?thesis using assms
  proof (induction xs arbitrary: v)
    case (Cons x xs)
    show ?case
    proof (cases "x = (h, tree, time)")
      case True
      then show ?thesis using Cons.prems only [of "v\<lparr>v_valid := (f \<or> tree = 1), v_main := m\<rparr>" xs] by (simp add: vin_update_def)
    next
      case False
      then have "fst x \<noteq> h" using Cons.prems by (cases x) force
      then have "vin_update f m x v = v" using Cons.prems(2) by (auto simp: vin_update_def split: prod.split)
      then show ?thesis using Cons False by auto
    qed
  qed simp
qed

definition regular_vins :: "hash \<Rightarrow> pg_tables \<Rightarrow> nat set" where
  "regular_vins h db = (\<Union>t \<in> {t \<in> set (transactions db). t_block t = h \<and> t_tree t = 0}. set (t_vins t))"

definition regular_vouts :: "hash \<Rightarrow> pg_tables \<Rightarrow> nat set" where
  "regular_vouts h db = (\<Union>t \<in> {t \<in> set (transactions db). t_block t = h \<and> t_tree t = 0}. set (t_vouts t))"

definition disapproved :: "hash \<Rightarrow> nat \<Rightarrow> bool \<Rightarrow> pg_tables \<Rightarrow> pg_tables" where
  "disapproved h i m db =
     db\<lparr>blocks := update_rows (\<lambda>b. b_id b = i) (\<lambda>b. b\<lparr>b_valid := False\<rparr>) (blocks db),
        transactions := update_rows (\<lambda>t. t_block t = h \<and> t_tree t = 0) (\<lambda>t. t\<lparr>t_valid := False\<rparr>) (transactions db),
        vins := map (fold (vin_update False m) (retrieveTxsByBlockHash h db)) (vins db),
        vouts := update_rows (\<lambda>u. \<exists>t \<in> set (transactions db). t_tree t = 0 \<and> t_block t = h \<and> o_spend u = Some (t_id t))
                   (\<lambda>u. u\<lparr>o_spend := None\<rparr>) (vouts db),
        addresses := update_rows (\<lambda>a. if a_funding a then a_row a \<in> regular_vouts h db else a_row a \<in> regular_vins h db)
                       (\<lambda>a. a\<lparr>a_main := False\<rparr>) (addresses db)\<rparr>"

lemma disapproved_rows [simp]:
  "blocks (disapproved h i m db) = update_rows (\<lambda>b. b_id b = i) (\<lambda>b. b\<lparr>b_valid := False\<rparr>) (blocks db)"
  "transactions (disapproved h i m db) = update_rows (\<lambda>t. t_block t = h \<and> t_tree t = 0) (\<lambda>t. t\<lparr>t_valid := False\<rparr>) (transactions db)"
  "vins (disapproved h i m db) = map (fold (vin_update False m) (retrieveTxsByBlockHash h db)) (vins db)"
  "vouts (disapproved h i m db) = update_rows (\<lambda>u. \<exists>t \<in> set (transactions db). t_tree t = 0 \<and> t_block t = h \<and> o_spend u = Some (t_id t))
     (\<lambda>u. u\<lparr>o_spend := None\<rparr>) (vouts db)"
  "addresses (disapproved h i m db) = update_rows (\<lambda>a. if a_funding a then a_row a \<in> regular_vouts h db else a_row a \<in> regular_vins h db)
     (\<lambda>a. a\<lparr>a_main := False\<rparr>) (addresses db)"
  "votes (disapproved h i m db) = votes db" "tickets (disapproved h i m db) = tickets db" "block_chain (disapproved h i m db) = block_chain db"
  "serial (disapproved h i m db) = serial db"
  by (simp_all add: disapproved_def)

lemma retrieved_regular:
  fixes db :: pg_tables
  assumes "transactions db1 = update_rows (\<lambda>t. t_block t = h \<and> t_tree t = 0) (\<lambda>t. t\<lparr>t_valid := False\<rparr>) (transactions db)"
    and "ids = retrieveTxnsVinsVoutsByBlock h True db1"
  shows "set (concat (map fst ids)) = regular_vins h db" and "set (concat (map (fst \<circ> snd) ids)) = regular_vouts h db"
proof -
  have "ids = map (\<lambda>t. (t_vins t, t_vouts t, t_main t)) (filter (\<lambda>t. t_block t = h \<and> t_tree t = 0) (transactions db))"
    using filter_update_rows [of "\<lambda>t. t_block t = h \<and> t_tree t = 0" "\<lambda>t. t\<lparr>t_valid := False\<rparr>" "transactions db"]
    by (simp add: assms retrieveTxnsVinsVoutsByBlock_def comp_def)
  then show "set (concat (map fst ids)) = regular_vins h db" "set (concat (map (fst \<circ> snd) ids)) = regular_vouts h db"
    by (auto simp: regular_vins_def regular_vouts_def)
qed

lemma disapprove_result:
  assumes one: "length (filter (\<lambda>b. b_id b = i) (blocks db)) = 1" and vin: "\<forall>x \<in> set (retrieveTxsByBlockHash h db). has_vin (vins db) x"
  shows "\<exists>addrs. disapprove h i m db = (disapproved h i m db, addrs, None)"
proof -
  define db2 where "db2 = clearVoutRegularSpendTxRowIDs h (fst (updateLastBlockValid i False db))"
  define db3 where "db3 = db2\<lparr>vins := map (fold (vin_update False m) (retrieveTxsByBlockHash h db)) (vins db)\<rparr>"
  define db4 where "db4 = updateTransactionsValid h False db3"
  define ids where "ids = retrieveTxnsVinsVoutsByBlock h True db4"
  have db2: "retrieveTxsByBlockHash h db2 = retrieveTxsByBlockHash h db" "vins db2 = vins db" "transactions db2 = transactions db"
    by (simp_all add: db2_def clearVoutRegularSpendTxRowIDs_def updateLastBlockValid_def retrieveTxsByBlockHash_def)
  have v: "updateLastVins h False m db2 = (db3, True)"
    using vins_loop_rows [of "retrieveTxsByBlockHash h db" db2 False m] vin by (simp add: updateLastVins_def db2 db3_def)
  have tx: "transactions db4 = update_rows (\<lambda>t. t_block t = h \<and> t_tree t = 0) (\<lambda>t. t\<lparr>t_valid := False\<rparr>) (transactions db)"
    by (simp add: db4_def db3_def db2 updateTransactionsValid_def)
  obtain db5 addrs where a: "updateLastAddressesValid h False db4 = (db5, addrs)" by fastforce
  have "db5 = db4\<lparr>addresses := update_rows (\<lambda>a. if a_funding a then a_row a \<in> regular_vouts h db else a_row a \<in> regular_vins h db)
            (\<lambda>a. a\<lparr>a_main := False\<rparr>) (addresses db4)\<rparr>"
    using a updateAddressesMainchainByIDs_rows [of "map fst ids" "map (fst \<circ> snd) ids" False db4] retrieved_regular [OF tx ids_def]
    by (simp add: updateLastAddressesValid_def ids_def [symmetric])
  then have db5: "db5 = disapproved h i m db"
    by (simp add: db4_def db3_def db2_def updateTransactionsValid_def clearVoutRegularSpendTxRowIDs_def updateLastBlockValid_def disapproved_def)
  have "snd (updateLastBlockValid i False db)" using one by (simp add: updateLastBlockValid_def)
  then have "disapprove h i m db = (db5, addrs, None)"
    using v a by (simp add: disapprove_def Let_def case_prod_unfold db2_def db4_def)
  then show ?thesis using db5 by blast
qed

section \<open>Disapproval keeps the flags sound\<close>

text \<open>The inputs that the statement finds by hash and time are those of the transaction.\<close>

definition vins_found :: "hash \<Rightarrow> pg_tables \<Rightarrow> bool" where
  "vins_found h db \<longleftrightarrow>
     (\<forall>t \<in> set (transactions db). t_block t = h \<longrightarrow>
        (\<exists>v \<in> set (vins db). v_tx v = t_hash t \<and> v_time v = t_time t)
        \<and> (\<forall>v \<in> set (vins db). v_tx v = t_hash t \<and> v_time v = t_time t \<longrightarrow> v_id v \<in> set (t_vins t)))"

lemma main_hashes_disapproved [simp]: "main_hashes (disapproved h i m db) = main_hashes db"
  by (rule set_eqI, unfold in_main_hashes) (simp add: bex_update_rows)

lemma block_flags_disapproved: "block_flags db \<Longrightarrow> block_flags (disapproved h i m db)"
  by (simp add: block_flags_def ball_update)

text \<open>A transaction keeps its identity and main chain flag, and its validity when it is not a regular one of the block.\<close>

lemma disapproved_tx:
  assumes "t \<in> set (transactions db)"
  obtains t' where "t' \<in> set (transactions (disapproved h i m db))" "t_id t' = t_id t" "t_vins t' = t_vins t" "t_vouts t' = t_vouts t"
    "t_main t' = t_main t" "\<not> (t_block t = h \<and> t_tree t = 0) \<Longrightarrow> t_valid t' = t_valid t"
proof
  define t' where "t' = (if t_block t = h \<and> t_tree t = 0 then t\<lparr>t_valid := False\<rparr> else t)"
  show "t' \<in> set (transactions (disapproved h i m db))" using assms by (auto simp: t'_def update_rows_def)
  show "t_id t' = t_id t" "t_vins t' = t_vins t" "t_vouts t' = t_vouts t" "t_main t' = t_main t"
    "\<not> (t_block t = h \<and> t_tree t = 0) \<Longrightarrow> t_valid t' = t_valid t" by (auto simp: t'_def)
qed

lemma row_flags_disapproved:
  assumes "row_flags db" and found: "vins_found h db" and "m \<Longrightarrow> \<forall>t \<in> set (transactions db). t_block t = h \<longrightarrow> t_main t"
  shows "row_flags (disapproved h i m db)"
proof -
  let ?db = "disapproved h i m db"
  have vin: "\<exists>t \<in> set (transactions ?db). t_main t \<and> v_id v \<in> set (t_vins t)" if v: "v \<in> set (vins ?db)" and main: "v_main v" for v
  proof -
    obtain w where w: "w \<in> set (vins db)" "v = fold (vin_update False m) (retrieveTxsByBlockHash h db) w" using v by auto
    have "\<exists>t \<in> set (transactions db). t_main t \<and> v_id w \<in> set (t_vins t)"
    proof (cases "v_main w")
      case True
      then show ?thesis using assms(1) w(1) unfolding row_flags_def by blast
    next
      case False
      then obtain x where "m" "x \<in> set (retrieveTxsByBlockHash h db)" "fst x = v_tx w" "snd (snd x) = v_time w"
        using fold_vin_update_main [of False m "retrieveTxsByBlockHash h db" w] main w(2) by blast
      then show ?thesis using assms(3) found w(1) by (force simp: retrieveTxsByBlockHash_def vins_found_def)
    qed
    then obtain t where t: "t \<in> set (transactions db)" "t_main t" "v_id w \<in> set (t_vins t)" by blast
    obtain t' where "t' \<in> set (transactions ?db)" "t_main t' = t_main t" "t_vins t' = t_vins t" by (rule disapproved_tx [OF t(1)])
    then show ?thesis using t w(2) by (intro bexI [of _ t']) simp_all
  qed
  have addr: "\<exists>t \<in> set (transactions ?db). t_main t \<and> t_valid t \<and> a_row a \<in> set (if a_funding a then t_vouts t else t_vins t)"
    if "a \<in> set (addresses ?db)" and main: "a_main a" for a
  proof -
    have a: "a \<in> set (addresses db)" "if a_funding a then a_row a \<notin> regular_vouts h db else a_row a \<notin> regular_vins h db"
      using that by (auto simp: set_update_rows split: if_splits)
    then obtain t where t: "t \<in> set (transactions db)" "t_main t" "t_valid t" "a_row a \<in> set (if a_funding a then t_vouts t else t_vins t)"
      using main assms(1) unfolding row_flags_def by blast
    then have "\<not> (t_block t = h \<and> t_tree t = 0)" using a(2) by (auto simp: regular_vins_def regular_vouts_def split: if_splits)
    then obtain t' where "t' \<in> set (transactions ?db)" "t_main t' = t_main t" "t_vins t' = t_vins t" "t_vouts t' = t_vouts t" "t_valid t' = t_valid t"
      using disapproved_tx [OF t(1)] by metis
    then show ?thesis using t by (intro bexI [of _ t']) (simp_all split: if_splits)
  qed
  have spend: "\<exists>t \<in> set (transactions ?db). t_main t \<and> t_valid t \<and> t_id t = j"
    if "u \<in> set (vouts ?db)" and main: "o_spend u = Some j" for u j
  proof -
    have u: "u \<in> set (vouts db)" "\<not> (\<exists>t \<in> set (transactions db). t_tree t = 0 \<and> t_block t = h \<and> o_spend u = Some (t_id t))"
      using that by (auto simp: set_update_rows)
    then obtain t where t: "t \<in> set (transactions db)" "t_main t" "t_valid t" "t_id t = j"
      using main assms(1) unfolding row_flags_def by blast
    then have "\<not> (t_block t = h \<and> t_tree t = 0)" using u(2) main by auto
    then obtain t' where "t' \<in> set (transactions ?db)" "t_main t' = t_main t" "t_id t' = t_id t" "t_valid t' = t_valid t"
      using disapproved_tx [OF t(1)] by metis
    then show ?thesis using t by (intro bexI [of _ t']) simp_all
  qed
  show ?thesis unfolding row_flags_def using vin addr spend by blast
qed

lemma flags_sound_disapproved:
  assumes "flags_sound db" and "vins_found h db" and "h \<in> main_hashes db"
  shows "flags_sound (disapproved h i m db)"
proof -
  have "\<forall>t \<in> set (transactions db). t_block t = h \<longrightarrow> t_main t" using assms(1,3) by (auto simp: flags_sound_def block_flags_def)
  then show ?thesis
    using assms(1,2) by (simp add: flags_sound_def block_flags_disapproved row_flags_disapproved del: disapproved_rows)
qed

section \<open>The index of the blocks\<close>

text \<open>Blocks and links have the same identifiers and hashes, the identifiers and the hashes are unique, and the cache of identifiers
  (\<open>lastBlock\<close>) agrees with them.\<close>

definition block_keys :: "pg_tables \<Rightarrow> (nat \<times> hash) set" where
  "block_keys db = (\<lambda>b. (b_id b, b_hash b)) ` set (blocks db)"

definition index_ok :: "ChainDB \<Rightarrow> bool" where
  "index_ok c \<longleftrightarrow>
     distinct (map b_id (blocks (tabs c))) \<and> distinct (map b_hash (blocks (tabs c)))
     \<and> distinct (map l_id (block_chain (tabs c))) \<and> (\<lambda>l. (l_id l, l_this l)) ` set (block_chain (tabs c)) = block_keys (tabs c)
     \<and> (\<forall>h i. lastBlock c h = Some i \<longrightarrow> (i, h) \<in> block_keys (tabs c))
     \<and> (\<forall>b \<in> set (blocks (tabs c)). b_id b < serial (tabs c) SeqBlocks)"

lemma one_row:
  assumes "distinct (map f xs)" and "x \<in> set xs"
  shows "length (filter (\<lambda>y. f y = f x) xs) = 1"
proof -
  have "card (set (filter (\<lambda>y. f y = f x) xs)) = 1"
  proof -
    have "set (filter (\<lambda>y. f y = f x) xs) = {x}" using assms by (auto simp: distinct_map dest: inj_onD)
    then show ?thesis by simp
  qed
  moreover have "distinct (filter (\<lambda>y. f y = f x) xs)" using assms(1) by (simp add: distinct_map)
  ultimately show ?thesis using distinct_card by metis
qed

lemma blockChainDbID_found:
  assumes "index_ok c" and "b \<in> set (blocks (tabs c))"
  shows "(case lastBlock c (b_hash b) of Some i \<Rightarrow> Some i | None \<Rightarrow> blockChainDbID (b_hash b) (tabs c)) = Some (b_id b)"
proof -
  have same: "i = b_id b" if "(i, b_hash b) \<in> block_keys (tabs c)" for i
    using that assms by (auto simp: block_keys_def index_ok_def distinct_map dest: inj_onD)
  show ?thesis
  proof (cases "lastBlock c (b_hash b)")
    case None
    have "(b_id b, b_hash b) \<in> (\<lambda>l. (l_id l, l_this l)) ` set (block_chain (tabs c))"
      using assms by (auto simp: index_ok_def block_keys_def)
    then obtain l where l: "query_row (\<lambda>l. l_this l = b_hash b) (block_chain (tabs c)) = Some l"
      using query_row_None [of "\<lambda>l. l_this l = b_hash b" "block_chain (tabs c)"] by fastforce
    then have "(l_id l, b_hash b) \<in> block_keys (tabs c)"
      using query_row_Some [OF l] assms(1) by (force simp: index_ok_def)
    then show ?thesis using same None l by (simp add: blockChainDbID_def)
  next
    case (Some i)
    then show ?thesis using same [of i] assms(1) by (auto simp: index_ok_def)
  qed
qed

lemma update_rows_one:
  "distinct (map f t) \<Longrightarrow> r \<in> set t \<Longrightarrow> update_rows (\<lambda>s. f s = f r) g t = update_rows (\<lambda>s. s = r) g t"
  unfolding update_rows_def by (rule map_cong [OF refl]) (auto simp: distinct_map dest: inj_onD)

lemma index_ok_tables:
  assumes "index_ok c" and "map b_id (blocks db) = map b_id (blocks (tabs c))" and "map b_hash (blocks db) = map b_hash (blocks (tabs c))"
    and "map l_id (block_chain db) = map l_id (block_chain (tabs c))" and "map l_this (block_chain db) = map l_this (block_chain (tabs c))"
    and "serial db = serial (tabs c)"
  shows "index_ok (c\<lparr>tabs := db\<rparr>)"
proof -
  have keys: "(\<lambda>x. (f x, g x)) ` set xs = set (zip (map f xs) (map g xs))" for f :: "'a \<Rightarrow> nat" and g :: "'a \<Rightarrow> hash" and xs
    by (induction xs) simp_all
  have ids: "b_id ` set bs = set (map b_id bs)" for bs by simp
  have b: "block_keys db = block_keys (tabs c)" unfolding block_keys_def keys assms(2,3) ..
  have l: "(\<lambda>l. (l_id l, l_this l)) ` set (block_chain db) = (\<lambda>l. (l_id l, l_this l)) ` set (block_chain (tabs c))"
    unfolding keys assms(4,5) ..
  have s: "(\<forall>b \<in> set (blocks db). b_id b < n) \<longleftrightarrow> (\<forall>b \<in> set (blocks (tabs c)). b_id b < n)" for n
  proof -
    have "(\<forall>i \<in> set (map b_id (blocks db)). i < n) \<longleftrightarrow> (\<forall>i \<in> set (map b_id (blocks (tabs c))). i < n)" unfolding assms(2) ..
    then show ?thesis by simp
  qed
  show ?thesis using assms(1) unfolding index_ok_def by (simp add: b l s assms(2-4,6))
qed

section \<open>A new block and its parent\<close>

definition linked :: "nat \<Rightarrow> hash \<Rightarrow> pg_tables \<Rightarrow> pg_tables" where
  "linked i next db = db\<lparr>block_chain := update_rows (\<lambda>l. l_id l = i) (\<lambda>l. l\<lparr>l_next := Some next\<rparr>) (block_chain db)\<rparr>"

lemma linked_rows [simp]:
  "blocks (linked i n db) = blocks db" "transactions (linked i n db) = transactions db" "vins (linked i n db) = vins db"
  "vouts (linked i n db) = vouts db" "addresses (linked i n db) = addresses db" "votes (linked i n db) = votes db"
  "tickets (linked i n db) = tickets db" "serial (linked i n db) = serial db"
  "block_chain (linked i n db) = update_rows (\<lambda>l. l_id l = i) (\<lambda>l. l\<lparr>l_next := Some n\<rparr>) (block_chain db)"
  by (simp_all add: linked_def)

lemma linked_predicates [simp]:
  "flags_sound (linked i n db) = flags_sound db" "vins_found h (linked i n db) = vins_found h db"
  "main_hashes (linked i n db) = main_hashes db" "retrieveTxsByBlockHash h (linked i n db) = retrieveTxsByBlockHash h db"
  by (simp_all add: flags_sound_def block_flags_def row_flags_def vins_found_def main_hashes_def retrieveTxsByBlockHash_def)

lemma updateLastBlock_main:
  assumes "index_ok c" and b: "b \<in> set (blocks (tabs c))" and "b_hash b \<noteq> zeroHash" and "vins_found (b_hash b) (tabs c)"
  shows "\<exists>addrs. updateLastBlock next (b_hash b) voteBits True c
     = (c\<lparr>tabs := (if bit voteBits 0 then linked (b_id b) next (tabs c) else disapproved (b_hash b) (b_id b) True (linked (b_id b) next (tabs c)))\<rparr>,
        addrs, None)"
proof -
  have "(b_id b, b_hash b) \<in> (\<lambda>l. (l_id l, l_this l)) ` set (block_chain (tabs c))"
    using assms(1) b by (auto simp: index_ok_def block_keys_def)
  then obtain l where l: "l \<in> set (block_chain (tabs c))" "l_id l = b_id b" by auto
  have upd: "updateBlockNext (b_id b) next (tabs c) = (linked (b_id b) next (tabs c), True)"
    using one_row [OF _ l(1), of l_id] assms(1) l(2) by (simp add: updateBlockNext_def linked_def index_ok_def)
  have "length (filter (\<lambda>r. b_id r = b_id b) (blocks (tabs c))) = 1"
    using one_row [OF _ b, of b_id] assms(1) by (simp add: index_ok_def)
  moreover have "has_vin (vins (tabs c)) x" if "x \<in> set (retrieveTxsByBlockHash (b_hash b) (tabs c))" for x
    using that assms(4) by (auto simp: retrieveTxsByBlockHash_def vins_found_def has_vin_def)
  ultimately obtain addrs where "disapprove (b_hash b) (b_id b) True (linked (b_id b) next (tabs c))
      = (disapproved (b_hash b) (b_id b) True (linked (b_id b) next (tabs c)), addrs, None)"
    using disapprove_result [of "b_id b" "linked (b_id b) next (tabs c)" "b_hash b" True] by auto
  then show ?thesis
    using upd blockChainDbID_found [OF assms(1) b] assms(3) by (simp add: updateLastBlock_def)
qed

text \<open>A block that approves its parent does not validate it again: after a reorganization that replaces a disapproving block by an approving one, the parent and
  its regular transactions stay invalid.\<close>

lemma approval_keeps_disapproval:
  assumes "index_ok c" and "b \<in> set (blocks (tabs c))" and "b_hash b \<noteq> zeroHash" and "vins_found (b_hash b) (tabs c)" and "bit voteBits 0"
  shows "\<exists>c' addrs. updateLastBlock next (b_hash b) voteBits True c = (c', addrs, None)
     \<and> blocks (tabs c') = blocks (tabs c) \<and> transactions (tabs c') = transactions (tabs c) \<and> vins (tabs c') = vins (tabs c)"
  using updateLastBlock_main [OF assms(1-4), of "next" voteBits] assms(5) by auto

lemma retrieveBlockFlags_row:
  "distinct (map b_hash (blocks db)) \<Longrightarrow> b \<in> set (blocks db) \<Longrightarrow> retrieveBlockFlags (b_hash b) db = Some (b_valid b, b_main b)"
  by (simp add: retrieveBlockFlags_def block_row)

lemma fold_vin_update_miss:
  "\<forall>x \<in> set xs. \<not> (fst x = v_tx v \<and> snd (snd x) = v_time v) \<Longrightarrow> fold (vin_update f m) xs v = v"
  by (induction xs arbitrary: v) (auto simp: vin_update_def split: prod.split)

text \<open>C9. A block that is stored on the main chain is linked from its parent without an error, and the index of the blocks stays consistent. If its votes approve the parent,
  nothing else changes: every other table is as before. If they disapprove it, the parent is marked invalid, exactly its regular transactions are marked invalid, the
  inputs of its transactions are marked valid for the stake tree only and no other input changes; the outputs that its regular transactions spent become unspent, the address rows
  of the inputs and outputs of its regular transactions leave the main chain, and the other tables (tickets, votes, misses, miners, statistics, swaps and the best block) are
  as before. The flags stay sound: no address row counts and no output is spent because of a transaction that was invalidated. Assumed are a consistent index, sound
  flags, that the parent is a stored block of the main chain whose transactions have distinct hashes and stored inputs.\<close>

theorem updateLastBlock_correct:
  assumes "index_ok c" and "flags_sound (tabs c)" and "b \<in> set (blocks (tabs c))" and "b_main b" and "b_hash b \<noteq> zeroHash"
    and "vins_found (b_hash b) (tabs c)" and "distinct (map t_hash (filter (\<lambda>t. t_block t = b_hash b) (transactions (tabs c))))"
  shows "\<exists>c' addrs. updateLastBlock next (b_hash b) voteBits True c = (c', addrs, None)
     \<and> index_ok c' \<and> flags_sound (tabs c')
     \<and> (\<exists>l \<in> set (block_chain (tabs c')). l_this l = b_hash b \<and> l_next l = Some next)
     \<and> retrieveBlockFlags (b_hash b) (tabs c') = Some (b_valid b \<and> bit voteBits 0, True)
     \<and> transactions (tabs c') = update_rows (\<lambda>t. t_block t = b_hash b \<and> t_tree t = 0 \<and> \<not> bit voteBits 0) (\<lambda>t. t\<lparr>t_valid := False\<rparr>) (transactions (tabs c))
     \<and> (\<not> bit voteBits 0 \<longrightarrow> (\<forall>t \<in> set (transactions (tabs c)). \<forall>v \<in> set (vins (tabs c')).
          t_block t = b_hash b \<and> v_tx v = t_hash t \<and> v_time v = t_time t \<longrightarrow> v_main v \<and> v_valid v = (t_tree t = 1)))
     \<and> c' = c\<lparr>tabs := tabs c'\<rparr>
     \<and> block_chain (tabs c') = update_rows (\<lambda>l. l_id l = b_id b) (\<lambda>l. l\<lparr>l_next := Some next\<rparr>) (block_chain (tabs c))
     \<and> (bit voteBits 0 \<longrightarrow> tabs c' = (tabs c)\<lparr>block_chain := block_chain (tabs c')\<rparr>)
     \<and> (\<not> bit voteBits 0 \<longrightarrow> tabs c' = (tabs c)\<lparr>block_chain := block_chain (tabs c'),
          blocks := update_rows (\<lambda>r. b_id r = b_id b) (\<lambda>r. r\<lparr>b_valid := False\<rparr>) (blocks (tabs c)),
          transactions := transactions (tabs c'), vins := vins (tabs c'),
          vouts := update_rows (\<lambda>u. \<exists>t \<in> set (transactions (tabs c)). t_tree t = 0 \<and> t_block t = b_hash b \<and> o_spend u = Some (t_id t))
            (\<lambda>u. u\<lparr>o_spend := None\<rparr>) (vouts (tabs c)),
          addresses := update_rows (\<lambda>a. if a_funding a then a_row a \<in> regular_vouts (b_hash b) (tabs c) else a_row a \<in> regular_vins (b_hash b) (tabs c))
            (\<lambda>a. a\<lparr>a_main := False\<rparr>) (addresses (tabs c))\<rparr>
        \<and> (\<forall>v \<in> set (vins (tabs c)). v \<in> set (vins (tabs c'))
             \<or> (\<exists>t \<in> set (transactions (tabs c)). t_block t = b_hash b \<and> v_tx v = t_hash t \<and> v_time v = t_time t)))"
proof -
  define db where "db = linked (b_id b) next (tabs c)"
  define db' where "db' = (if bit voteBits 0 then db else disapproved (b_hash b) (b_id b) True db)"
  obtain addrs where result: "updateLastBlock next (b_hash b) voteBits True c = (c\<lparr>tabs := db'\<rparr>, addrs, None)"
    using updateLastBlock_main [OF assms(1,3,5,6), of "next" voteBits] unfolding db'_def db_def by blast
  have hs: "b_hash b \<in> main_hashes db" using assms(3,4) by (auto simp: db_def in_main_hashes)
  have distinct: "distinct (map b_hash (blocks db))" using assms(1) by (simp add: db_def index_ok_def)
  have "index_ok (c\<lparr>tabs := db'\<rparr>)" using assms(1) by (rule index_ok_tables) (simp_all add: db'_def db_def)
  moreover have "flags_sound db'"
    using assms(2,6) hs flags_sound_disapproved [of db "b_hash b" "b_id b" True] by (simp add: db'_def db_def)
  moreover have "\<exists>l \<in> set (block_chain db'). l_this l = b_hash b \<and> l_next l = Some next"
  proof -
    have "(b_id b, b_hash b) \<in> (\<lambda>l. (l_id l, l_this l)) ` set (block_chain (tabs c))"
      using assms(1,3) by (auto simp: index_ok_def block_keys_def)
    then obtain l where "l \<in> set (block_chain (tabs c))" "l_id l = b_id b" "l_this l = b_hash b" by auto
    then show ?thesis by (intro bexI [of _ "l\<lparr>l_next := Some next\<rparr>"]) (auto simp: db'_def db_def update_rows_def)
  qed
  moreover have "retrieveBlockFlags (b_hash b) db' = Some (b_valid b \<and> bit voteBits 0, True)"
  proof -
    define b' where "b' = (if bit voteBits 0 then b else b\<lparr>b_valid := False\<rparr>)"
    have "b' \<in> set (blocks db')" using assms(3) by (auto simp: b'_def db'_def db_def update_rows_def)
    then have "retrieveBlockFlags (b_hash b') db' = Some (b_valid b', b_main b')"
      using distinct by (intro retrieveBlockFlags_row) (simp_all add: db'_def)
    then show ?thesis using assms(4) by (simp add: b'_def split: if_splits)
  qed
  moreover have "transactions db' = update_rows (\<lambda>t. t_block t = b_hash b \<and> t_tree t = 0 \<and> \<not> bit voteBits 0) (\<lambda>t. t\<lparr>t_valid := False\<rparr>) (transactions (tabs c))"
    by (simp add: db'_def db_def update_rows_def)
  moreover have "v_main v \<and> v_valid v = (t_tree t = 1)"
    if n: "\<not> bit voteBits 0" and t: "t \<in> set (transactions (tabs c))" and v: "v \<in> set (vins db')"
      and k: "t_block t = b_hash b \<and> v_tx v = t_hash t \<and> v_time v = t_time t" for t v
  proof -
    obtain w where w: "w \<in> set (vins (tabs c))" "v = fold (vin_update False True) (retrieveTxsByBlockHash (b_hash b) (tabs c)) w"
      using v n by (auto simp: db'_def db_def)
    have "(t_hash t, t_tree t, t_time t) \<in> set (retrieveTxsByBlockHash (b_hash b) (tabs c))"
      using t k by (auto simp: retrieveTxsByBlockHash_def)
    then have "v = w\<lparr>v_valid := (False \<or> t_tree t = 1), v_main := True\<rparr>"
      unfolding w(2) by (rule fold_vin_update_hit) (use w(2) k assms(7) in \<open>simp_all add: retrieveTxsByBlockHash_def comp_def\<close>)
    then show ?thesis by simp
  qed
  moreover have "block_chain db' = update_rows (\<lambda>l. l_id l = b_id b) (\<lambda>l. l\<lparr>l_next := Some next\<rparr>) (block_chain (tabs c))"
    by (simp add: db'_def db_def)
  moreover have "db' = (tabs c)\<lparr>block_chain := block_chain db'\<rparr>" if "bit voteBits 0"
    using that by (simp add: db'_def db_def linked_def)
  moreover have "db' = (tabs c)\<lparr>block_chain := block_chain db',
          blocks := update_rows (\<lambda>r. b_id r = b_id b) (\<lambda>r. r\<lparr>b_valid := False\<rparr>) (blocks (tabs c)),
          transactions := transactions db', vins := vins db',
          vouts := update_rows (\<lambda>u. \<exists>t \<in> set (transactions (tabs c)). t_tree t = 0 \<and> t_block t = b_hash b \<and> o_spend u = Some (t_id t))
            (\<lambda>u. u\<lparr>o_spend := None\<rparr>) (vouts (tabs c)),
          addresses := update_rows (\<lambda>a. if a_funding a then a_row a \<in> regular_vouts (b_hash b) (tabs c) else a_row a \<in> regular_vins (b_hash b) (tabs c))
            (\<lambda>a. a\<lparr>a_main := False\<rparr>) (addresses (tabs c))\<rparr>" if "\<not> bit voteBits 0"
    using that by (simp add: db'_def db_def linked_def disapproved_def regular_vouts_def regular_vins_def)
  moreover have "v \<in> set (vins db') \<or> (\<exists>t \<in> set (transactions (tabs c)). t_block t = b_hash b \<and> v_tx v = t_hash t \<and> v_time v = t_time t)"
    if n: "\<not> bit voteBits 0" and v: "v \<in> set (vins (tabs c))" for v
  proof (cases "\<forall>x \<in> set (retrieveTxsByBlockHash (b_hash b) (tabs c)). \<not> (fst x = v_tx v \<and> snd (snd x) = v_time v)")
    case True
    from fold_vin_update_miss [OF this, of False True] v show ?thesis
      using n by (simp add: db'_def db_def) (metis image_eqI)
  next
    case False
    then show ?thesis by (auto simp: retrieveTxsByBlockHash_def)
  qed
  ultimately show ?thesis using result by (intro exI [of _ "c\<lparr>tabs := db'\<rparr>"] exI [of _ addrs]) simp
qed

definition last_vin :: pg_vin where
  "last_vin = \<lparr>v_id = 3, v_tx = [3, 0], v_index = 0, v_tree = 0, v_valid = True, v_main = True, v_time = 3, v_prevTx = [2, 0], v_prevIndex = 0,
     v_prevTree = 0, v_value = 5\<rparr>"

definition last_tables :: pg_tables where
  "last_tables = (reorg_tables [reorg_block 2 True, reorg_block 3 True])
     \<lparr>transactions := map reorg_tx [2, 3], vins := [last_vin],
      block_chain := [\<lparr>l_id = 2, l_prev = [1], l_this = [2], l_next = Some [3]\<rparr>, \<lparr>l_id = 3, l_prev = [2], l_this = [3], l_next = None\<rparr>]\<rparr>"

definition last_db :: ChainDB where
  "last_db = (reorg_db [])\<lparr>tabs := last_tables\<rparr>"

lemma last_db_fields [simp]:
  "blocks last_tables = [reorg_block 2 True, reorg_block 3 True]" "tabs last_db = last_tables" "lastBlock last_db = Map.empty"
  "vins last_tables = [last_vin]" "transactions last_tables = map reorg_tx [2, 3]"
  by (simp_all add: last_tables_def last_db_def reorg_db_def)

lemma last_db_ok:
  "index_ok last_db" "flags_sound last_tables" "vins_found [3] last_tables"
proof -
  have m: "main_hashes last_tables = {[2], [3]}"
    by (rule set_eqI, unfold in_main_hashes) auto
  show "flags_sound last_tables"
    unfolding flags_sound_def block_flags_def row_flags_def m by (simp add: last_tables_def reorg_tables_def reorg_tx_def last_vin_def)
  show "index_ok last_db"
    unfolding index_ok_def block_keys_def by (simp add: last_tables_def reorg_tables_def)
  show "vins_found [3] last_tables"
    by (simp add: vins_found_def reorg_tx_def last_vin_def)
qed

theorem updateLastBlock_correct_witness:
  "\<exists>c' addrs. updateLastBlock [4] [3] 0 True last_db = (c', addrs, None) \<and> index_ok c' \<and> flags_sound (tabs c')
     \<and> retrieveBlockFlags [3] (tabs c') = Some (False, True)"
proof -
  have z: "[3] \<noteq> zeroHash" by (rule notI, drule arg_cong [where f = length]) (simp add: zeroHash_def)
  show ?thesis
    using updateLastBlock_correct [of last_db "reorg_block 3 True" "[4]" 0] last_db_ok z
    by (auto simp: reorg_tx_def)
qed

end
