(* ===== verification/PgRewind.thy ===== *)
theory PgRewind
  imports PgLast
begin

text \<open>
  Removing the best blocks from the tables (\<open>db/dcrpg/rewind.go\<close> with its statements in \<open>db/dcrpg/internal/rewind.go\<close>), and the
  purge at start-up, which \<open>NewChainDB\<close> does when the best block of the \<open>meta\<close> table is not the one of the \<open>blocks\<close> table. The deletions
  of one block are one transaction of the database, so they are a function of the tables.
\<close>

section \<open>The deletions\<close>

definition block_tx_ids :: "hash \<Rightarrow> pg_tables \<Rightarrow> nat set" where
  "block_tx_ids h db = (\<Union>b \<in> {b \<in> set (blocks db). b_hash b = h}. set (b_txDbIDs b @ b_stxDbIDs b))"

definition delete_rows :: "('r \<Rightarrow> bool) \<Rightarrow> 'r list \<Rightarrow> 'r list \<times> nat" where
  "delete_rows p t = (filter (\<lambda>r. \<not> p r) t, length (filter p t))"

definition deleteVinsForBlockSubQry :: "hash \<Rightarrow> pg_tables \<Rightarrow> pg_tables \<times> nat" where
  "deleteVinsForBlockSubQry h db =
     (let (t, n) = delete_rows (\<lambda>v. \<exists>t \<in> set (transactions db). t_id t \<in> block_tx_ids h db \<and> v_id v \<in> set (t_vins t)) (vins db)
      in (db\<lparr>vins := t\<rparr>, n))"

definition deleteVoutsForBlockSubQry :: "hash \<Rightarrow> pg_tables \<Rightarrow> pg_tables \<times> nat" where
  "deleteVoutsForBlockSubQry h db =
     (let (t, n) = delete_rows (\<lambda>u. \<exists>t \<in> set (transactions db). t_id t \<in> block_tx_ids h db \<and> o_id u \<in> set (t_vouts t)) (vouts db)
      in (db\<lparr>vouts := t\<rparr>, n))"

definition deleteAddressesForBlockSubQry :: "hash \<Rightarrow> pg_tables \<Rightarrow> pg_tables \<times> nat" where
  "deleteAddressesForBlockSubQry h db =
     (let (t, n) = delete_rows (\<lambda>a. \<exists>t \<in> set (transactions db). t_id t \<in> block_tx_ids h db
                       \<and> (\<not> a_funding a \<and> a_row a \<in> set (t_vins t) \<or> a_funding a \<and> a_row a \<in> set (t_vouts t))) (addresses db)
      in (db\<lparr>addresses := t\<rparr>, n))"

definition deleteTransactionsForBlock :: "hash \<Rightarrow> pg_tables \<Rightarrow> pg_tables \<times> nat list" where
  "deleteTransactionsForBlock h db =
     (db\<lparr>transactions := filter (\<lambda>t. t_block t \<noteq> h) (transactions db)\<rparr>, map t_id (filter (\<lambda>t. t_block t = h) (transactions db)))"

definition resetSpendingForVoutsByTxRowID :: "nat list \<Rightarrow> pg_tables \<Rightarrow> pg_tables \<times> nat" where
  "resetSpendingForVoutsByTxRowID ids db =
     (let p = (\<lambda>u. \<exists>i \<in> set ids. o_spend u = Some i)
      in (db\<lparr>vouts := update_rows p (\<lambda>u. u\<lparr>o_spend := None\<rparr>) (vouts db)\<rparr>, length (filter p (vouts db))))"

definition deleteTicketsForBlock :: "hash \<Rightarrow> pg_tables \<Rightarrow> pg_tables \<times> nat" where
  "deleteTicketsForBlock h db =
     (let (t, n) = delete_rows (\<lambda>k. \<exists>b \<in> set (blocks db). b_hash b = h \<and> k_purchase k \<in> set (b_stxDbIDs b)) (tickets db)
      in (db\<lparr>tickets := t\<rparr>, n))"

definition deleteVotesForBlock :: "hash \<Rightarrow> pg_tables \<Rightarrow> pg_tables \<times> nat" where
  "deleteVotesForBlock h db = (let (t, n) = delete_rows (\<lambda>w. w_block w = h) (votes db) in (db\<lparr>votes := t\<rparr>, n))"

definition deleteMissesForBlock :: "hash \<Rightarrow> pg_tables \<Rightarrow> pg_tables \<times> nat" where
  "deleteMissesForBlock h db = (let (t, n) = delete_rows (\<lambda>s. s_block s = h) (misses db) in (db\<lparr>misses := t\<rparr>, n))"

definition deleteSwapsForBlockHeight :: "int \<Rightarrow> pg_tables \<Rightarrow> pg_tables \<times> nat" where
  "deleteSwapsForBlockHeight height db = (let (t, n) = delete_rows (\<lambda>s. s = height) (swaps db) in (db\<lparr>swaps := t\<rparr>, n))"

text \<open>The rows of \<open>stats\<close> reference their block with \<open>ON DELETE CASCADE\<close>.\<close>

definition deleteBlock :: "hash \<Rightarrow> pg_tables \<Rightarrow> pg_tables \<times> nat" where
  "deleteBlock h db =
     (let (t, n) = delete_rows (\<lambda>b. b_hash b = h) (blocks db)
      in (db\<lparr>blocks := t, stats := filter (\<lambda>x. \<not> (\<exists>b \<in> set (blocks db). b_hash b = h \<and> b_id b = x_block x)) (stats db)\<rparr>, n))"

definition updateBlockNextByHash :: "hash \<Rightarrow> hash \<Rightarrow> pg_tables \<Rightarrow> pg_tables \<times> bool" where
  "updateBlockNextByHash this next db =
     (db\<lparr>block_chain := update_rows (\<lambda>l. l_this l = this) (\<lambda>l. l\<lparr>l_next := Some next\<rparr>) (block_chain db)\<rparr>,
      length (filter (\<lambda>l. l_this l = this) (block_chain db)) = 1)"

definition updateBlockNextByNextHash :: "hash \<Rightarrow> hash \<Rightarrow> pg_tables \<Rightarrow> pg_tables \<times> bool" where
  "updateBlockNextByNextHash currentNext newNext db =
     (db\<lparr>block_chain := update_rows (\<lambda>l. l_next l = Some currentNext) (\<lambda>l. l\<lparr>l_next := Some newNext\<rparr>) (block_chain db)\<rparr>,
      length (filter (\<lambda>l. l_next l = Some currentNext) (block_chain db)) = 1)"

definition deleteBlockFromChain :: "hash \<Rightarrow> pg_tables \<Rightarrow> pg_tables \<times> bool" where
  "deleteBlockFromChain h db =
     (let db1 = db\<lparr>block_chain := filter (\<lambda>l. l_this l \<noteq> h) (block_chain db)\<rparr>
      in case query_row (\<lambda>l. l_this l = h) (block_chain db) of
           None \<Rightarrow> updateBlockNextByNextHash h zeroHash db1
         | Some l \<Rightarrow> updateBlockNextByHash (l_prev l) zeroHash db1)"

record DeletionSummary =
  d_Blocks :: nat
  d_Vins :: nat
  d_Vouts :: nat
  d_Addresses :: nat
  d_Transactions :: nat
  d_VoutSpendTxIDs :: nat
  d_Tickets :: nat
  d_Votes :: nat
  d_Misses :: nat
  d_Swaps :: nat

text \<open>A link that is not updated exactly once is only warned of, and the transaction is committed.\<close>

definition deleteBlockData :: "hash \<Rightarrow> int \<Rightarrow> pg_tables \<Rightarrow> pg_tables \<times> DeletionSummary" where
  "deleteBlockData h height db =
     (let (db, nVins) = deleteVinsForBlockSubQry h db;
          (db, nVouts) = deleteVoutsForBlockSubQry h db;
          (db, nAddresses) = deleteAddressesForBlockSubQry h db;
          (db, txIDsRemoved) = deleteTransactionsForBlock h db;
          (db, voutsReset) = resetSpendingForVoutsByTxRowID txIDsRemoved db;
          (db, nTickets) = deleteTicketsForBlock h db;
          (db, nVotes) = deleteVotesForBlock h db;
          (db, nMisses) = deleteMissesForBlock h db;
          (db, nSwaps) = deleteSwapsForBlockHeight height db;
          (db, nBlocks) = deleteBlock h db;
          (db, one) = deleteBlockFromChain h db
      in (db, \<lparr>d_Blocks = nBlocks, d_Vins = nVins, d_Vouts = nVouts, d_Addresses = nAddresses, d_Transactions = length txIDsRemoved,
               d_VoutSpendTxIDs = voutsReset, d_Tickets = nTickets, d_Votes = nVotes, d_Misses = nMisses, d_Swaps = nSwaps\<rparr>))"

section \<open>The best blocks\<close>

text \<open>\<open>ORDER BY height DESC LIMIT 1\<close> over the main chain; no row is the height \<open>-1\<close> with the zero hash.\<close>

definition retrieveBestBlockHeight :: "pg_tables \<Rightarrow> (int \<times> hash) option" where
  "retrieveBestBlockHeight db =
     (let bs = filter b_main (blocks db)
      in map_option (\<lambda>b. (b_height b, b_hash b)) (query_row (\<lambda>b. \<forall>r \<in> set bs. b_height r \<le> b_height b) bs))"

definition retrieveBestBlock :: "pg_tables \<Rightarrow> int \<times> hash" where
  "retrieveBestBlock db = (case retrieveBestBlockHeight db of None \<Rightarrow> (-1, zeroHash) | Some r \<Rightarrow> r)"

text \<open>The \<open>meta\<close> table has one row, which is inserted when the table is created (\<open>InitMetaRow\<close>); only its best block is modelled. So the update of that row
  changes exactly one row, and the error for another count (\<open>failed to update exactly 1 row in meta table\<close>) does not arise.\<close>

definition setDBBestBlock :: "hash \<Rightarrow> int \<Rightarrow> pg_tables \<Rightarrow> pg_tables" where
  "setDBBestBlock h height db = db\<lparr>bestMeta := (height, h)\<rparr>"

definition deleteBestBlock :: "pg_tables \<Rightarrow> pg_tables \<times> DeletionSummary \<times> int \<times> hash" where
  "deleteBestBlock db =
     (let (height, h) = retrieveBestBlock db;
          (db, res) = deleteBlockData h height db;
          (height, h) = retrieveBestBlock db
      in (setDBBestBlock h height db, res, height, h))"

fun delete_loop :: "nat \<Rightarrow> pg_tables \<Rightarrow> DeletionSummary list \<Rightarrow> int \<times> hash \<Rightarrow> pg_tables \<times> DeletionSummary list \<times> int \<times> hash" where
  "delete_loop 0 db res best = (db, res, best)"
| "delete_loop (Suc n) db res best =
     (let (db, resi, height, h) = deleteBestBlock db
      in if h = zeroHash then (db, res @ [resi], height, h) else delete_loop n db (res @ [resi]) (height, h))"

definition deleteBlocks :: "int \<Rightarrow> pg_tables \<Rightarrow> pg_tables \<times> DeletionSummary list \<times> int \<times> hash" where
  "deleteBlocks N db = (if N < 1 then (db, [], retrieveBestBlock db) else delete_loop (nat N) db [] (0, zeroHash))"

definition Reduce :: "DeletionSummary list \<Rightarrow> DeletionSummary" where
  "Reduce ds =
     \<lparr>d_Blocks = sum_list (map d_Blocks ds), d_Vins = sum_list (map d_Vins ds), d_Vouts = sum_list (map d_Vouts ds),
      d_Addresses = sum_list (map d_Addresses ds), d_Transactions = sum_list (map d_Transactions ds),
      d_VoutSpendTxIDs = sum_list (map d_VoutSpendTxIDs ds), d_Tickets = sum_list (map d_Tickets ds), d_Votes = sum_list (map d_Votes ds),
      d_Misses = sum_list (map d_Misses ds), d_Swaps = sum_list (map d_Swaps ds)\<rparr>"

section \<open>The purge at start-up\<close>

text \<open>The flag is the error that the hashes still differ. The loop has no bound of its own.\<close>

partial_function (option) purge_loop :: "hash \<Rightarrow> int \<Rightarrow> int \<times> hash \<Rightarrow> pg_tables \<Rightarrow> (pg_tables \<times> (int \<times> hash) \<times> bool) option" where
  "purge_loop dbHash dbHeightInit best db =
     (if dbHash \<noteq> snd best \<or> dbHeightInit < fst best
      then case deleteBestBlock db of
             (db1, res, height, h) \<Rightarrow>
               if height = -1 then Some (db1, (height, h), False)
               else if snd (bestMeta db1) \<noteq> h then Some (db1, (height, h), True)
               else purge_loop (snd (bestMeta db1)) dbHeightInit (height, h) db1
      else Some (db, best, False))"

definition startup_purge :: "pg_tables \<Rightarrow> (pg_tables \<times> (int \<times> hash) \<times> bool) option" where
  "startup_purge db =
     (let best = retrieveBestBlock db
      in if fst (bestMeta db) > fst best
         then case deleteBestBlock db of
                (db1, res, best1) \<Rightarrow> purge_loop (snd (bestMeta db1)) (fst (bestMeta db1)) best1 db1
         else purge_loop (snd (bestMeta db)) (fst (bestMeta db)) best db)"

section \<open>The tables after a deletion\<close>

definition tx_of :: "hash \<Rightarrow> pg_tables \<Rightarrow> pg_tx set" where
  "tx_of h db = {t \<in> set (transactions db). t_id t \<in> block_tx_ids h db}"

definition deleted :: "hash \<Rightarrow> int \<Rightarrow> pg_tables \<Rightarrow> pg_tables" where
  "deleted h height db =
     db\<lparr>blocks := filter (\<lambda>b. b_hash b \<noteq> h) (blocks db),
        transactions := filter (\<lambda>t. t_block t \<noteq> h) (transactions db),
        vins := filter (\<lambda>v. \<not> (\<exists>t \<in> tx_of h db. v_id v \<in> set (t_vins t))) (vins db),
        vouts := update_rows (\<lambda>u. \<exists>t \<in> set (transactions db). t_block t = h \<and> o_spend u = Some (t_id t)) (\<lambda>u. u\<lparr>o_spend := None\<rparr>)
                   (filter (\<lambda>u. \<not> (\<exists>t \<in> tx_of h db. o_id u \<in> set (t_vouts t))) (vouts db)),
        addresses := filter (\<lambda>a. \<not> (\<exists>t \<in> tx_of h db. a_row a \<in> set (if a_funding a then t_vouts t else t_vins t))) (addresses db),
        tickets := filter (\<lambda>k. \<not> (\<exists>b \<in> set (blocks db). b_hash b = h \<and> k_purchase k \<in> set (b_stxDbIDs b))) (tickets db),
        votes := filter (\<lambda>w. w_block w \<noteq> h) (votes db),
        misses := filter (\<lambda>s. s_block s \<noteq> h) (misses db),
        swaps := filter (\<lambda>s. s \<noteq> height) (swaps db),
        stats := filter (\<lambda>x. \<not> (\<exists>b \<in> set (blocks db). b_hash b = h \<and> b_id b = x_block x)) (stats db)\<rparr>"

lemma deleted_rows [simp]:
  "blocks (deleted h height db) = filter (\<lambda>b. b_hash b \<noteq> h) (blocks db)"
  "transactions (deleted h height db) = filter (\<lambda>t. t_block t \<noteq> h) (transactions db)"
  "vins (deleted h height db) = filter (\<lambda>v. \<not> (\<exists>t \<in> tx_of h db. v_id v \<in> set (t_vins t))) (vins db)"
  "vouts (deleted h height db) = update_rows (\<lambda>u. \<exists>t \<in> set (transactions db). t_block t = h \<and> o_spend u = Some (t_id t)) (\<lambda>u. u\<lparr>o_spend := None\<rparr>)
     (filter (\<lambda>u. \<not> (\<exists>t \<in> tx_of h db. o_id u \<in> set (t_vouts t))) (vouts db))"
  "addresses (deleted h height db) =
     filter (\<lambda>a. \<not> (\<exists>t \<in> tx_of h db. a_row a \<in> set (if a_funding a then t_vouts t else t_vins t))) (addresses db)"
  "tickets (deleted h height db) = filter (\<lambda>k. \<not> (\<exists>b \<in> set (blocks db). b_hash b = h \<and> k_purchase k \<in> set (b_stxDbIDs b))) (tickets db)"
  "votes (deleted h height db) = filter (\<lambda>w. w_block w \<noteq> h) (votes db)"
  "misses (deleted h height db) = filter (\<lambda>s. s_block s \<noteq> h) (misses db)"
  "stats (deleted h height db) = filter (\<lambda>x. \<not> (\<exists>b \<in> set (blocks db). b_hash b = h \<and> b_id b = x_block x)) (stats db)"
  "block_chain (deleted h height db) = block_chain db" "bestMeta (deleted h height db) = bestMeta db"
  by (simp_all add: deleted_def)

lemma deleteBlockFromChain_links:
  "\<exists>ls one. deleteBlockFromChain h db = (db\<lparr>block_chain := ls\<rparr>, one) \<and> (\<forall>l \<in> set ls. l_this l \<noteq> h)"
proof (cases "query_row (\<lambda>l. l_this l = h) (block_chain db)")
  case None
  then show ?thesis
    by (intro exI [of _ "update_rows (\<lambda>l. l_next l = Some h) (\<lambda>l. l\<lparr>l_next := Some zeroHash\<rparr>) (filter (\<lambda>l. l_this l \<noteq> h) (block_chain db))"])
       (simp add: deleteBlockFromChain_def updateBlockNextByNextHash_def ball_update)
next
  case (Some r)
  then show ?thesis
    by (intro exI [of _ "update_rows (\<lambda>l. l_this l = l_prev r) (\<lambda>l. l\<lparr>l_next := Some zeroHash\<rparr>) (filter (\<lambda>l. l_this l \<noteq> h) (block_chain db))"])
       (simp add: deleteBlockFromChain_def updateBlockNextByHash_def ball_update)
qed

lemma tx_of_update [simp]:
  "tx_of h (db\<lparr>vins := vs\<rparr>) = tx_of h db" "tx_of h (db\<lparr>vouts := os\<rparr>) = tx_of h db"
  by (simp_all add: tx_of_def block_tx_ids_def)

lemma bex_tx_of: "(\<exists>t \<in> set (transactions db). t_id t \<in> block_tx_ids h db \<and> P t) = (\<exists>t \<in> tx_of h db. P t)"
  by (auto simp: tx_of_def)

lemma delete_by_tx:
  "fst (deleteVinsForBlockSubQry h db) = db\<lparr>vins := filter (\<lambda>v. \<not> (\<exists>t \<in> tx_of h db. v_id v \<in> set (t_vins t))) (vins db)\<rparr>"
  "fst (deleteVoutsForBlockSubQry h db) = db\<lparr>vouts := filter (\<lambda>u. \<not> (\<exists>t \<in> tx_of h db. o_id u \<in> set (t_vouts t))) (vouts db)\<rparr>"
  "fst (deleteAddressesForBlockSubQry h db)
     = db\<lparr>addresses := filter (\<lambda>a. \<not> (\<exists>t \<in> tx_of h db. a_row a \<in> set (if a_funding a then t_vouts t else t_vins t))) (addresses db)\<rparr>"
proof -
  show "fst (deleteVinsForBlockSubQry h db) = db\<lparr>vins := filter (\<lambda>v. \<not> (\<exists>t \<in> tx_of h db. v_id v \<in> set (t_vins t))) (vins db)\<rparr>"
    unfolding deleteVinsForBlockSubQry_def bex_tx_of by (simp add: delete_rows_def)
  show "fst (deleteVoutsForBlockSubQry h db) = db\<lparr>vouts := filter (\<lambda>u. \<not> (\<exists>t \<in> tx_of h db. o_id u \<in> set (t_vouts t))) (vouts db)\<rparr>"
    unfolding deleteVoutsForBlockSubQry_def bex_tx_of by (simp add: delete_rows_def)
  have c: "(\<lambda>a. \<exists>t \<in> tx_of h db. \<not> a_funding a \<and> a_row a \<in> set (t_vins t) \<or> a_funding a \<and> a_row a \<in> set (t_vouts t))
      = (\<lambda>a. \<exists>t \<in> tx_of h db. a_row a \<in> set (if a_funding a then t_vouts t else t_vins t))"
    by (intro ext bex_cong refl) auto
  show "fst (deleteAddressesForBlockSubQry h db)
     = db\<lparr>addresses := filter (\<lambda>a. \<not> (\<exists>t \<in> tx_of h db. a_row a \<in> set (if a_funding a then t_vouts t else t_vins t))) (addresses db)\<rparr>"
    unfolding deleteAddressesForBlockSubQry_def bex_tx_of c by (simp add: delete_rows_def)
qed

text \<open>The deletions that follow, from the transactions to the swaps and the block.\<close>

lemma delete_by_block:
  "fst (deleteTicketsForBlock h db)
     = db\<lparr>tickets := filter (\<lambda>k. \<not> (\<exists>b \<in> set (blocks db). b_hash b = h \<and> k_purchase k \<in> set (b_stxDbIDs b))) (tickets db)\<rparr>"
  "fst (deleteVotesForBlock h db) = db\<lparr>votes := filter (\<lambda>w. w_block w \<noteq> h) (votes db)\<rparr>"
  "fst (deleteMissesForBlock h db) = db\<lparr>misses := filter (\<lambda>s. s_block s \<noteq> h) (misses db)\<rparr>"
  "fst (deleteSwapsForBlockHeight height db) = db\<lparr>swaps := filter (\<lambda>s. s \<noteq> height) (swaps db)\<rparr>"
  "fst (deleteBlock h db) = db\<lparr>blocks := filter (\<lambda>b. b_hash b \<noteq> h) (blocks db),
     stats := filter (\<lambda>x. \<not> (\<exists>b \<in> set (blocks db). b_hash b = h \<and> b_id b = x_block x)) (stats db)\<rparr>"
  by (simp_all add: deleteTicketsForBlock_def deleteVotesForBlock_def deleteMissesForBlock_def deleteSwapsForBlockHeight_def deleteBlock_def
        delete_rows_def)

lemma reset_spending:
  "fst (resetSpendingForVoutsByTxRowID (map t_id (filter (\<lambda>t. t_block t = h) ts)) db)
     = db\<lparr>vouts := update_rows (\<lambda>u. \<exists>t \<in> set ts. t_block t = h \<and> o_spend u = Some (t_id t)) (\<lambda>u. u\<lparr>o_spend := None\<rparr>) (vouts db)\<rparr>"
proof -
  have c: "(\<lambda>u. \<exists>i \<in> set (map t_id (filter (\<lambda>t. t_block t = h) ts)). o_spend u = Some i)
      = (\<lambda>u. \<exists>t \<in> set ts. t_block t = h \<and> o_spend u = Some (t_id t))"
    by (rule ext) auto
  show ?thesis unfolding resetSpendingForVoutsByTxRowID_def Let_def c by simp
qed

lemma deleteBlockData_result:
  "\<exists>ls res. deleteBlockData h height db = ((deleted h height db)\<lparr>block_chain := ls\<rparr>, res) \<and> (\<forall>l \<in> set ls. l_this l \<noteq> h)"
proof -
  obtain db1 n1 where 1: "deleteVinsForBlockSubQry h db = (db1, n1)" by fastforce
  obtain db2 n2 where 2: "deleteVoutsForBlockSubQry h db1 = (db2, n2)" by fastforce
  obtain db3 n3 where 3: "deleteAddressesForBlockSubQry h db2 = (db3, n3)" by fastforce
  obtain db4 ids where 4: "deleteTransactionsForBlock h db3 = (db4, ids)" by fastforce
  obtain db5 n5 where 5: "resetSpendingForVoutsByTxRowID ids db4 = (db5, n5)" by fastforce
  obtain db6 n6 where 6: "deleteTicketsForBlock h db5 = (db6, n6)" by fastforce
  obtain db7 n7 where 7: "deleteVotesForBlock h db6 = (db7, n7)" by fastforce
  obtain db8 n8 where 8: "deleteMissesForBlock h db7 = (db8, n8)" by fastforce
  obtain db9 n9 where 9: "deleteSwapsForBlockHeight height db8 = (db9, n9)" by fastforce
  obtain db10 n10 where 10: "deleteBlock h db9 = (db10, n10)" by fastforce
  obtain ls one where ls: "deleteBlockFromChain h db10 = (db10\<lparr>block_chain := ls\<rparr>, one)" "\<forall>l \<in> set ls. l_this l \<noteq> h"
    using deleteBlockFromChain_links by blast
  define tv where "tv = filter (\<lambda>v. \<not> (\<exists>t \<in> tx_of h db. v_id v \<in> set (t_vins t))) (vins db)"
  define to where "to = filter (\<lambda>u. \<not> (\<exists>t \<in> tx_of h db. o_id u \<in> set (t_vouts t))) (vouts db)"
  define ta where "ta = filter (\<lambda>a. \<not> (\<exists>t \<in> tx_of h db. a_row a \<in> set (if a_funding a then t_vouts t else t_vins t))) (addresses db)"
  have db1: "db1 = db\<lparr>vins := tv\<rparr>" using delete_by_tx(1) [of h db] 1 by (simp add: tv_def)
  have db2: "db2 = db1\<lparr>vouts := to\<rparr>" using delete_by_tx(2) [of h db1] 2 by (simp add: to_def db1)
  have db3: "db3 = db2\<lparr>addresses := ta\<rparr>" using delete_by_tx(3) [of h db2] 3 by (simp add: ta_def db1 db2)
  have db4: "db4 = db3\<lparr>transactions := filter (\<lambda>t. t_block t \<noteq> h) (transactions db)\<rparr>" "ids = map t_id (filter (\<lambda>t. t_block t = h) (transactions db))"
    using 4 by (simp_all add: deleteTransactionsForBlock_def db3 db2 db1)
  have "db5 = db4\<lparr>vouts := update_rows (\<lambda>u. \<exists>t \<in> set (transactions db). t_block t = h \<and> o_spend u = Some (t_id t)) (\<lambda>u. u\<lparr>o_spend := None\<rparr>) to\<rparr>"
    using 5 reset_spending [of h "transactions db" db4] by (simp add: db4 db3 db2)
  moreover have "db10 = fst (deleteBlock h (fst (deleteSwapsForBlockHeight height (fst (deleteMissesForBlock h (fst (deleteVotesForBlock h
      (fst (deleteTicketsForBlock h db5)))))))))"
    using 6 7 8 9 10 by simp
  ultimately have "db10 = deleted h height db"
    unfolding delete_by_block deleted_def tv_def [symmetric] to_def [symmetric] ta_def [symmetric] by (simp add: db4 db3 db2 db1)
  moreover have "\<exists>res. deleteBlockData h height db = (db10\<lparr>block_chain := ls\<rparr>, res)"
    using ls(1) 1 2 3 4 5 6 7 8 9 10 by (simp add: deleteBlockData_def)
  ultimately show ?thesis using ls(2) by blast
qed

section \<open>References\<close>

text \<open>The references that are kept: transactions and the lists of their identifiers in blocks fit each other, inputs, outputs and address
  rows belong to a transaction, the spending reference of an output names a transaction, the purchase of a ticket is listed by the ticket's block, and votes, misses and
  statistics name a block. Two references are not among them: the spending transaction of a ticket and the matching transaction of an address row, which a deletion does not reset.\<close>

definition tx_refs :: "pg_tables \<Rightarrow> bool" where
  "tx_refs db \<longleftrightarrow>
     (\<forall>t \<in> set (transactions db). \<exists>b \<in> set (blocks db). b_hash b = t_block t \<and> t_id t \<in> set (b_txDbIDs b @ b_stxDbIDs b))
     \<and> (\<forall>b \<in> set (blocks db). \<forall>i \<in> set (b_txDbIDs b @ b_stxDbIDs b). \<exists>t \<in> set (transactions db). t_id t = i \<and> t_block t = b_hash b)"

definition row_refs :: "pg_tables \<Rightarrow> bool" where
  "row_refs db \<longleftrightarrow>
     (\<forall>v \<in> set (vins db). \<exists>t \<in> set (transactions db). v_id v \<in> set (t_vins t))
     \<and> (\<forall>u \<in> set (vouts db). \<exists>t \<in> set (transactions db). o_id u \<in> set (t_vouts t))
     \<and> (\<forall>u \<in> set (vouts db). \<forall>i. o_spend u = Some i \<longrightarrow> (\<exists>t \<in> set (transactions db). t_id t = i))
     \<and> (\<forall>a \<in> set (addresses db). \<exists>t \<in> set (transactions db). a_row a \<in> set (if a_funding a then t_vouts t else t_vins t))"

definition block_refs :: "pg_tables \<Rightarrow> bool" where
  "block_refs db \<longleftrightarrow>
     (\<forall>k \<in> set (tickets db). \<exists>b \<in> set (blocks db). b_hash b = k_block k \<and> k_purchase k \<in> set (b_stxDbIDs b))
     \<and> (\<forall>w \<in> set (votes db). \<exists>b \<in> set (blocks db). b_hash b = w_block w)
     \<and> (\<forall>s \<in> set (misses db). \<exists>b \<in> set (blocks db). b_hash b = s_block s)
     \<and> (\<forall>x \<in> set (stats db). \<exists>b \<in> set (blocks db). b_id b = x_block x)"

definition refs_ok :: "pg_tables \<Rightarrow> bool" where
  "refs_ok db \<longleftrightarrow> tx_refs db \<and> row_refs db \<and> block_refs db"

lemma tx_of_block: "tx_refs db \<Longrightarrow> t \<in> set (transactions db) \<Longrightarrow> t_block t = h \<Longrightarrow> t \<in> tx_of h db"
  by (auto simp: tx_refs_def tx_of_def block_tx_ids_def)

lemma block_refs_deleted: "block_refs db \<Longrightarrow> block_refs (deleted h height db)"
  unfolding block_refs_def deleted_rows set_filter by fastforce

lemma tx_refs_deleted: "tx_refs db \<Longrightarrow> tx_refs (deleted h height db)"
  unfolding tx_refs_def deleted_rows set_filter by fastforce

text \<open>A row that is kept belongs to a transaction of another block.\<close>

lemma kept_owner:
  assumes "tx_refs db" and "t \<in> set (transactions db)" and "P t" and "\<not> (\<exists>t \<in> tx_of h db. P t)"
  shows "t \<in> set (transactions (deleted h height db))"
  using assms tx_of_block [of db t h] by auto

lemma row_refs_deleted:
  assumes "tx_refs db" and "row_refs db"
  shows "row_refs (deleted h height db)"
proof -
  let ?db = "deleted h height db"
  have "\<exists>t \<in> set (transactions ?db). v_id v \<in> set (t_vins t)" if "v \<in> set (vins ?db)" for v
    using that assms(2) kept_owner [OF assms(1), where P = "\<lambda>t. v_id v \<in> set (t_vins t)"]
    unfolding row_refs_def deleted_rows(3) set_filter by blast
  moreover have "\<exists>t \<in> set (transactions ?db). a_row a \<in> set (if a_funding a then t_vouts t else t_vins t)" if "a \<in> set (addresses ?db)" for a
    using that assms(2) kept_owner [OF assms(1), where P = "\<lambda>t. a_row a \<in> set (if a_funding a then t_vouts t else t_vins t)"]
    unfolding row_refs_def deleted_rows(5) set_filter by blast
  moreover have "(\<exists>t \<in> set (transactions ?db). o_id u \<in> set (t_vouts t)) \<and> (\<forall>i. o_spend u = Some i \<longrightarrow> (\<exists>t \<in> set (transactions ?db). t_id t = i))"
    if u: "u \<in> set (vouts ?db)" for u
  proof -
    obtain w where w: "w \<in> set (vouts db)" "\<not> (\<exists>t \<in> tx_of h db. o_id w \<in> set (t_vouts t))" "o_id u = o_id w"
      and s: "\<And>i. o_spend u = Some i \<Longrightarrow> o_spend w = Some i \<and> \<not> (\<exists>t \<in> set (transactions db). t_block t = h \<and> t_id t = i)"
      using u unfolding deleted_rows(4) set_update_rows by auto
    have "\<exists>t \<in> set (transactions ?db). o_id w \<in> set (t_vouts t)"
      using w(1,2) assms(2) kept_owner [OF assms(1), where P = "\<lambda>t. o_id w \<in> set (t_vouts t)"] unfolding row_refs_def by blast
    moreover have "\<exists>t \<in> set (transactions ?db). t_id t = i" if i: "o_spend u = Some i" for i
    proof -
      obtain t where "t \<in> set (transactions db)" "t_id t = i" using s [OF i] w(1) assms(2) unfolding row_refs_def by blast
      then show ?thesis using s [OF i] by auto
    qed
    ultimately show ?thesis using w(3) by simp
  qed
  ultimately show ?thesis unfolding row_refs_def by blast
qed

lemma refs_ok_deleted: "refs_ok db \<Longrightarrow> refs_ok (deleted h height db)"
  by (simp add: refs_ok_def block_refs_deleted tx_refs_deleted row_refs_deleted del: deleted_rows)

lemma links_irrelevant [simp]:
  "refs_ok (db\<lparr>block_chain := ls\<rparr>) = refs_ok db" "flags_sound (db\<lparr>block_chain := ls\<rparr>) = flags_sound db"
  "refs_ok (db\<lparr>bestMeta := bm\<rparr>) = refs_ok db" "flags_sound (db\<lparr>bestMeta := bm\<rparr>) = flags_sound db"
  by (simp_all add: refs_ok_def tx_refs_def row_refs_def block_refs_def flags_sound_def block_flags_def row_flags_def main_hashes_def)

section \<open>Flags after a deletion\<close>

lemma main_hashes_deleted: "main_hashes (deleted h height db) = main_hashes db - {h}"
  by (rule set_eqI, unfold in_main_hashes Diff_iff) auto

lemma block_flags_deleted:
  assumes "block_flags db" and "block_refs db"
  shows "block_flags (deleted h height db)"
proof -
  have "k_main k = (k_block k \<in> main_hashes db - {h})" if k: "k \<in> set (tickets (deleted h height db))" for k
  proof -
    have "k \<in> set (tickets db)" using k by simp
    moreover have "k_block k \<noteq> h" using k assms(2) unfolding block_refs_def deleted_rows(6) set_filter by blast
    ultimately show ?thesis using assms(1) by (simp add: block_flags_def)
  qed
  then show ?thesis using assms(1) unfolding block_flags_def main_hashes_deleted by simp
qed

lemma row_flags_deleted:
  assumes "row_flags db" and "tx_refs db"
  shows "row_flags (deleted h height db)"
proof -
  let ?db = "deleted h height db"
  have "\<exists>t \<in> set (transactions ?db). t_main t \<and> v_id v \<in> set (t_vins t)" if "v \<in> set (vins ?db)" "v_main v" for v
    using that assms(1) kept_owner [OF assms(2), where P = "\<lambda>t. v_id v \<in> set (t_vins t)"]
    unfolding row_flags_def deleted_rows(3) set_filter by blast
  moreover have "\<exists>t \<in> set (transactions ?db). t_main t \<and> t_valid t \<and> a_row a \<in> set (if a_funding a then t_vouts t else t_vins t)"
    if "a \<in> set (addresses ?db)" "a_main a" for a
    using that assms(1) kept_owner [OF assms(2), where P = "\<lambda>t. a_row a \<in> set (if a_funding a then t_vouts t else t_vins t)"]
    unfolding row_flags_def deleted_rows(5) set_filter by blast
  moreover have "\<exists>t \<in> set (transactions ?db). t_main t \<and> t_valid t \<and> t_id t = i" if u: "u \<in> set (vouts ?db)" and i: "o_spend u = Some i" for u i
  proof -
    have u: "u \<in> set (vouts db)" "\<not> (\<exists>t \<in> set (transactions db). t_block t = h \<and> o_spend u = Some (t_id t))"
      using u i unfolding deleted_rows(4) set_update_rows by auto
    then obtain t where "t \<in> set (transactions db)" "t_main t" "t_valid t" "t_id t = i"
      using i assms(1) unfolding row_flags_def by blast
    then show ?thesis using u(2) i by auto
  qed
  ultimately show ?thesis unfolding row_flags_def by blast
qed

lemma flags_sound_deleted: "flags_sound db \<Longrightarrow> refs_ok db \<Longrightarrow> flags_sound (deleted h height db)"
  by (simp add: flags_sound_def refs_ok_def block_flags_deleted row_flags_deleted del: deleted_rows)

text \<open>The tickets that the block's list of stake transactions identifies are those with the hash of the block.\<close>

lemma ticket_of_block:
  assumes "block_refs db" and "tx_refs db" and "distinct (map t_id (transactions db))" and k: "k \<in> set (tickets db)"
  shows "(\<exists>b \<in> set (blocks db). b_hash b = h \<and> k_purchase k \<in> set (b_stxDbIDs b)) \<longleftrightarrow> k_block k = h"
proof
  assume "k_block k = h"
  then show "\<exists>b \<in> set (blocks db). b_hash b = h \<and> k_purchase k \<in> set (b_stxDbIDs b)" using assms(1) k by (auto simp: block_refs_def)
next
  assume "\<exists>b \<in> set (blocks db). b_hash b = h \<and> k_purchase k \<in> set (b_stxDbIDs b)"
  then obtain t where t: "t \<in> set (transactions db)" "t_id t = k_purchase k" "t_block t = h" using assms(2) by (force simp: tx_refs_def)
  obtain b' where "b' \<in> set (blocks db)" "b_hash b' = k_block k" "k_purchase k \<in> set (b_stxDbIDs b')"
    using assms(1) k by (auto simp: block_refs_def)
  then obtain t' where t': "t' \<in> set (transactions db)" "t_id t' = k_purchase k" "t_block t' = k_block k"
    using assms(2) by (force simp: tx_refs_def)
  have "t = t'" using assms(3) t(1,2) t'(1,2) by (simp add: distinct_map inj_on_def)
  then show "k_block k = h" using t(3) t'(3) by simp
qed

lemma tx_of_only:
  assumes "tx_refs db" and "distinct (map t_id (transactions db))" and "t \<in> tx_of h db"
  shows "t \<in> set (transactions db) \<and> t_block t = h"
proof -
  obtain b where b: "b \<in> set (blocks db)" "b_hash b = h" "t_id t \<in> set (b_txDbIDs b @ b_stxDbIDs b)" and t: "t \<in> set (transactions db)"
    using assms(3) by (auto simp: tx_of_def block_tx_ids_def)
  obtain t' where "t' \<in> set (transactions db)" "t_id t' = t_id t" "t_block t' = h"
    using assms(1) [unfolded tx_refs_def, THEN conjunct2, rule_format, OF b(1,3)] b(2) by blast
  then have "t' = t" using assms(2) t by (simp add: distinct_map inj_on_def)
  then show ?thesis using t \<open>t_block t' = h\<close> by simp
qed

text \<open>C10. Deleting the data of a block keeps these references between the tables, if they held before (\<open>refs_ok\<close>): every transaction belongs to a block that lists it and
  conversely; every input, output and address row belongs to a transaction; a spent output names a transaction; every ticket, vote, miss and statistic has its
  block. Two references are not among them, because the code does not reset them: the spending transaction of a ticket and the matching transaction of an address row.
  A ticket loses the row of its spending transaction exactly when that is a transaction of the deleted block, an address row its matching transaction only then.
  No block, transaction, link, vote, miss or ticket of the block is left. The blocks, transactions, votes and tickets of the other blocks are unchanged, and an input or an
  address row is removed only if it belongs to a transaction of the block. The flags, assumed sound, stay sound; transaction identifiers are assumed distinct.\<close>

theorem deleteBlockData_refs:
  assumes "refs_ok db" and "flags_sound db" and "distinct (map t_id (transactions db))"
  shows "\<exists>db' res. deleteBlockData h height db = (db', res) \<and> refs_ok db' \<and> flags_sound db' \<and> kept {h} db db'
     \<and> (\<forall>b \<in> set (blocks db'). b_hash b \<noteq> h) \<and> (\<forall>t \<in> set (transactions db'). t_block t \<noteq> h) \<and> (\<forall>l \<in> set (block_chain db'). l_this l \<noteq> h)
     \<and> (\<forall>w \<in> set (votes db'). w_block w \<noteq> h) \<and> (\<forall>s \<in> set (misses db'). s_block s \<noteq> h) \<and> (\<forall>k \<in> set (tickets db'). k_block k \<noteq> h)
     \<and> (\<forall>v \<in> set (vins db). v \<in> set (vins db') \<or> (\<exists>t \<in> set (transactions db). t_block t = h \<and> v_id v \<in> set (t_vins t)))
     \<and> (\<forall>a \<in> set (addresses db). a \<in> set (addresses db')
          \<or> (\<exists>t \<in> set (transactions db). t_block t = h \<and> a_row a \<in> set (if a_funding a then t_vouts t else t_vins t)))
     \<and> (\<forall>k \<in> set (tickets db'). \<forall>t \<in> set (transactions db). k_spendTx k = Some (t_id t) \<longrightarrow>
          ((\<exists>t' \<in> set (transactions db'). k_spendTx k = Some (t_id t')) \<longleftrightarrow> t_block t \<noteq> h))
     \<and> (\<forall>a \<in> set (addresses db'). \<forall>t \<in> set (transactions db). a_matching a = Some (t_hash t) \<longrightarrow> t \<in> set (transactions db') \<or> t_block t = h)"
proof -
  obtain ls res where d: "deleteBlockData h height db = ((deleted h height db)\<lparr>block_chain := ls\<rparr>, res)" "\<forall>l \<in> set ls. l_this l \<noteq> h"
    using deleteBlockData_result by blast
  have refs: "block_refs db" "tx_refs db" using assms(1) by (simp_all add: refs_ok_def)
  have k: "tickets (deleted h height db) = outside {h} k_block (tickets db)"
    unfolding deleted_rows(6) outside_def using ticket_of_block [OF refs assms(3)] by (intro filter_cong) simp_all
  have "kept {h} db ((deleted h height db)\<lparr>block_chain := ls\<rparr>)"
    using k by (simp add: kept_def outside_def)
  moreover have "refs_ok (deleted h height db)" "flags_sound (deleted h height db)"
    using assms(1,2) by (simp_all add: refs_ok_deleted flags_sound_deleted del: deleted_rows)
  moreover have "\<forall>k \<in> set (tickets (deleted h height db)). k_block k \<noteq> h" unfolding k outside_def by simp
  moreover have "\<forall>v \<in> set (vins db). v \<in> set (vins (deleted h height db)) \<or> (\<exists>t \<in> set (transactions db). t_block t = h \<and> v_id v \<in> set (t_vins t))"
    unfolding deleted_rows(3) set_filter using tx_of_only [OF refs(2) assms(3), of _ h] by blast
  moreover have "\<forall>a \<in> set (addresses db). a \<in> set (addresses (deleted h height db))
      \<or> (\<exists>t \<in> set (transactions db). t_block t = h \<and> a_row a \<in> set (if a_funding a then t_vouts t else t_vins t))"
    unfolding deleted_rows(5) set_filter using tx_of_only [OF refs(2) assms(3), of _ h] by blast
  moreover have "(\<exists>t' \<in> set (transactions (deleted h height db)). x = Some (t_id t')) \<longleftrightarrow> t_block t \<noteq> h"
    if "t \<in> set (transactions db)" "x = Some (t_id t)" for t x
    using that assms(3) unfolding deleted_rows(2) set_filter by (auto simp: distinct_map inj_on_def)
  ultimately show ?thesis using d by (intro exI [of _ "(deleted h height db)\<lparr>block_chain := ls\<rparr>"] exI [of _ res]) simp
qed

lemma reorg_tables_refs: "refs_ok (reorg_tables [reorg_block 1 True, reorg_block 2 True, reorg_block 3 True])"
  by (simp add: refs_ok_def tx_refs_def row_refs_def block_refs_def) (simp add: reorg_tables_def reorg_tx_def reorg_block_def)

theorem deleteBlockData_refs_witness:
  "\<exists>db' res. deleteBlockData [3] 3 (reorg_tables [reorg_block 1 True, reorg_block 2 True, reorg_block 3 True]) = (db', res) \<and> refs_ok db'
     \<and> flags_sound db' \<and> (\<forall>b \<in> set (blocks db'). b_hash b \<noteq> [3])"
proof -
  have "distinct (map t_id (transactions (reorg_tables [reorg_block 1 True, reorg_block 2 True, reorg_block 3 True])))"
    by (simp add: reorg_tables_def reorg_tx_def)
  then show ?thesis
    using deleteBlockData_refs [OF reorg_tables_refs reorg_db_ok(2), of "[3]" 3] by blast
qed

section \<open>Deleting the best blocks\<close>

text \<open>The main chain from the best block downwards.\<close>

definition best_chain :: "pg_tables \<Rightarrow> pg_block list \<Rightarrow> bool" where
  "best_chain db bs \<longleftrightarrow>
     set bs = {b \<in> set (blocks db). b_main b} \<and> sorted_wrt (\<lambda>x y. b_height y < b_height x) bs
     \<and> distinct (map b_hash (blocks db)) \<and> (\<forall>b \<in> set (blocks db). b_hash b \<noteq> zeroHash \<and> 0 \<le> b_height b)"

definition top_of :: "pg_block list \<Rightarrow> int \<times> hash" where
  "top_of bs = (case bs of [] \<Rightarrow> (-1, zeroHash) | b # bs \<Rightarrow> (b_height b, b_hash b))"

lemma retrieveBestBlock_top:
  assumes "best_chain db bs"
  shows "retrieveBestBlock db = top_of bs"
proof (cases bs)
  case Nil
  then have "filter b_main (blocks db) = []" using assms by (auto simp: best_chain_def filter_empty_conv)
  then show ?thesis by (simp add: retrieveBestBlock_def retrieveBestBlockHeight_def query_row_def Nil top_of_def)
next
  case (Cons b bs')
  have set: "set (filter b_main (blocks db)) = set bs" using assms by (auto simp: best_chain_def)
  have top: "\<forall>r \<in> set bs'. b_height r < b_height b" using assms by (simp add: best_chain_def Cons)
  have "query_row (\<lambda>b. \<forall>r \<in> set (filter b_main (blocks db)). b_height r \<le> b_height b) (filter b_main (blocks db)) = Some b"
    by (rule query_row_unique) (use set top Cons in \<open>auto simp: not_le [symmetric]\<close>)
  then show ?thesis by (simp add: retrieveBestBlock_def retrieveBestBlockHeight_def Cons top_of_def)
qed

lemma best_chain_deleted:
  assumes "best_chain db bs"
  shows "best_chain ((deleted (snd (top_of bs)) height db)\<lparr>block_chain := ls\<rparr>) (tl bs)"
proof (cases bs)
  case Nil
  have "filter (\<lambda>b. b_hash b \<noteq> zeroHash) (blocks db) = blocks db" using assms by (simp add: best_chain_def)
  then show ?thesis using assms Nil by (simp add: best_chain_def top_of_def)
next
  case (Cons b bs')
  have b: "b \<in> set (blocks db)" "b_main b" using assms by (auto simp: best_chain_def Cons)
  have h: "r \<in> set bs' \<Longrightarrow> b_height r < b_height b" for r using assms by (simp add: best_chain_def Cons)
  have set: "set bs' = {r \<in> set (blocks db). b_main r \<and> b_hash r \<noteq> b_hash b}"
  proof (intro set_eqI iffI)
    fix r assume r: "r \<in> set bs'"
    have "r \<in> set (blocks db)" "b_main r" using r assms by (auto simp: best_chain_def Cons)
    moreover have "b_hash r \<noteq> b_hash b"
      using calculation(1) b(1) h [OF r] assms by (auto simp: best_chain_def distinct_map dest: inj_onD)
    ultimately show "r \<in> {r \<in> set (blocks db). b_main r \<and> b_hash r \<noteq> b_hash b}" by simp
  next
    fix r assume "r \<in> {r \<in> set (blocks db). b_main r \<and> b_hash r \<noteq> b_hash b}"
    then show "r \<in> set bs'" using assms by (auto simp: best_chain_def Cons)
  qed
  show ?thesis
    using assms set by (auto simp: best_chain_def Cons top_of_def distinct_map inj_on_def)
qed

definition rows_ok :: "pg_tables \<Rightarrow> bool" where
  "rows_ok db \<longleftrightarrow> refs_ok db \<and> flags_sound db"

lemma best_chain_meta [simp]: "best_chain (db\<lparr>bestMeta := bm\<rparr>) bs = best_chain db bs"
  by (simp add: best_chain_def)

lemma deleteBestBlock_step:
  assumes "best_chain db bs" and "rows_ok db"
  obtains db' res where "deleteBestBlock db = (db', res, top_of (tl bs))" "best_chain db' (tl bs)" "rows_ok db'" "bestMeta db' = top_of (tl bs)"
proof -
  obtain height h where top: "top_of bs = (height, h)" by fastforce
  obtain ls res where d: "deleteBlockData h height db = ((deleted h height db)\<lparr>block_chain := ls\<rparr>, res)"
    using deleteBlockData_result by blast
  let ?db = "(deleted h height db)\<lparr>block_chain := ls\<rparr>"
  have chain: "best_chain ?db (tl bs)" using best_chain_deleted [OF assms(1)] top by simp
  show ?thesis
  proof
    show "deleteBestBlock db = (?db\<lparr>bestMeta := top_of (tl bs)\<rparr>, res, top_of (tl bs))"
      using d top retrieveBestBlock_top [OF assms(1)] retrieveBestBlock_top [OF chain]
      by (simp add: deleteBestBlock_def setDBBestBlock_def case_prod_unfold Let_def)
    show "best_chain (?db\<lparr>bestMeta := top_of (tl bs)\<rparr>) (tl bs)" using chain by simp
    show "rows_ok (?db\<lparr>bestMeta := top_of (tl bs)\<rparr>)"
      using assms(2) by (simp add: rows_ok_def refs_ok_deleted flags_sound_deleted del: deleted_rows)
  qed simp
qed

lemma top_hash: "best_chain db bs \<Longrightarrow> snd (top_of bs) = zeroHash \<longleftrightarrow> bs = []"
  by (cases bs) (auto simp: top_of_def best_chain_def)

lemma top_height: "best_chain db bs \<Longrightarrow> fst (top_of bs) = -1 \<longleftrightarrow> bs = []"
  by (cases bs) (force simp: top_of_def best_chain_def)+

lemma delete_loop_result:
  assumes "best_chain db bs" and "rows_ok db" and "bs \<noteq> []" and "bestMeta db = top_of bs \<or> 0 < n"
  shows "\<exists>db' res'. delete_loop n db res (top_of bs) = (db', res @ res', top_of (drop n bs)) \<and> length res' = min n (length bs)
     \<and> best_chain db' (drop n bs) \<and> rows_ok db' \<and> bestMeta db' = top_of (drop n bs)"
  using assms
proof (induction n arbitrary: db bs res)
  case 0
  then show ?case by simp
next
  case (Suc n)
  obtain db1 r where d: "deleteBestBlock db = (db1, r, top_of (tl bs))" "best_chain db1 (tl bs)" "rows_ok db1" "bestMeta db1 = top_of (tl bs)"
    using deleteBestBlock_step [OF Suc.prems(1,2)] by metis
  have drop: "drop (Suc n) bs = drop n (tl bs)" by (cases bs) simp_all
  show ?case
  proof (cases "tl bs = []")
    case True
    then have z: "top_of (tl bs) = (-1, zeroHash)" by (simp add: top_of_def)
    have "length bs = 1" using True Suc.prems(3) by (cases bs) simp_all
    then show ?thesis using d z True drop by simp
  next
    case False
    obtain ht h where t: "top_of (tl bs) = (ht, h)" by fastforce
    have "h \<noteq> zeroHash" using top_hash [OF d(2)] False t by simp
    then have "delete_loop (Suc n) db res (top_of bs) = delete_loop n db1 (res @ [r]) (top_of (tl bs))" using d(1) t by simp
    then show ?thesis using Suc.IH [OF d(2,3) False, of "res @ [r]"] d(4) drop Suc.prems(3) by (cases bs) auto
  qed
qed

lemma delete_loop_best: "delete_loop (Suc n) db res best = delete_loop (Suc n) db res best'"
  by simp

text \<open>Purging the \<open>N\<close> best blocks removes exactly the \<open>N\<close> best blocks of the main chain (all of them when there are fewer), one deletion each,
  returns the height and hash of the new best block, which the \<open>meta\<close> table names too, and leaves no dangling reference and no unsound flag.\<close>

lemma deleteBlocks_result:
  assumes "best_chain db bs" and "refs_ok db" and "flags_sound db" and "bs \<noteq> []" and "1 \<le> N"
  shows "\<exists>db' res. deleteBlocks N db = (db', res, top_of (drop (nat N) bs)) \<and> length res = min (nat N) (length bs)
     \<and> best_chain db' (drop (nat N) bs) \<and> bestMeta db' = top_of (drop (nat N) bs) \<and> refs_ok db' \<and> flags_sound db'"
proof -
  obtain n where n: "nat N = Suc n" using assms(5) by (cases "nat N") auto
  have "rows_ok db" using assms(2,3) by (simp add: rows_ok_def)
  then obtain db' res' where "delete_loop (nat N) db [] (top_of bs) = (db', [] @ res', top_of (drop (nat N) bs))"
    "length res' = min (nat N) (length bs)" "best_chain db' (drop (nat N) bs)" "rows_ok db'" "bestMeta db' = top_of (drop (nat N) bs)"
    using delete_loop_result [OF assms(1) _ assms(4), of "nat N" "[]"] assms(5) by auto
  moreover have "delete_loop (nat N) db [] (0, zeroHash) = delete_loop (nat N) db [] (top_of bs)"
    unfolding n by (rule delete_loop_best)
  ultimately show ?thesis using assms(5) by (simp add: deleteBlocks_def rows_ok_def)
qed

lemma reorg_tables_chain:
  "best_chain (reorg_tables [reorg_block 1 True, reorg_block 2 True, reorg_block 3 True]) [reorg_block 3 True, reorg_block 2 True, reorg_block 1 True]"
proof -
  have "[i] \<noteq> zeroHash" for i by (rule notI, drule arg_cong [where f = length]) (simp add: zeroHash_def)
  then show ?thesis by (auto simp: best_chain_def)
qed

section \<open>The purge at start-up returns\<close>

text \<open>One step of the loop that deletes.\<close>

lemma purge_step:
  assumes "best_chain db bs" and "rows_ok db" and "h \<noteq> snd (top_of bs) \<or> init < fst (top_of bs)"
  obtains db' where "best_chain db' (tl bs)" "rows_ok db'" "bestMeta db' = top_of (tl bs)"
    "purge_loop h init (top_of bs) db
       = (if tl bs = [] then Some (db', top_of [], False) else purge_loop (snd (top_of (tl bs))) init (top_of (tl bs)) db')"
proof -
  obtain db' r where d: "deleteBestBlock db = (db', r, top_of (tl bs))" "best_chain db' (tl bs)" "rows_ok db'" "bestMeta db' = top_of (tl bs)"
    using deleteBestBlock_step [OF assms(1,2)] by metis
  obtain ht h1 where t: "top_of (tl bs) = (ht, h1)" by fastforce
  have "purge_loop h init (top_of bs) db
      = (if tl bs = [] then Some (db', top_of [], False) else purge_loop (snd (top_of (tl bs))) init (top_of (tl bs)) db')"
    using assms(3) d(1,4) t top_height [OF d(2)] by (subst purge_loop.simps) auto
  then show ?thesis using that d(2-4) by blast
qed

definition purged_to :: "int \<Rightarrow> pg_block list \<Rightarrow> pg_block list" where
  "purged_to init = dropWhile (\<lambda>b. init < b_height b)"

lemma purge_loop_equal:
  assumes "best_chain db bs" and "rows_ok db" and "bestMeta db = top_of bs"
  shows "\<exists>db'. purge_loop (snd (top_of bs)) init (top_of bs) db = Some (db', top_of (purged_to init bs), False)
     \<and> best_chain db' (purged_to init bs) \<and> rows_ok db' \<and> bestMeta db' = top_of (purged_to init bs)"
  using assms
proof (induction bs arbitrary: db)
  case Nil
  show ?case
  proof (cases "init < -1")
    case True
    then have c: "snd (top_of []) \<noteq> snd (top_of []) \<or> init < fst (top_of [])" by (simp add: top_of_def)
    obtain db' where "best_chain db' []" "rows_ok db'" "bestMeta db' = top_of []"
      "purge_loop (snd (top_of [])) init (top_of []) db = Some (db', top_of [], False)"
      by (rule purge_step [OF Nil(1,2) c]) simp
    then show ?thesis by (simp add: purged_to_def)
  next
    case False
    then show ?thesis using Nil by (simp add: purge_loop.simps [of _ init] top_of_def purged_to_def)
  qed
next
  case (Cons b bs)
  show ?case
  proof (cases "init < b_height b")
    case True
    then have c: "snd (top_of (b # bs)) \<noteq> snd (top_of (b # bs)) \<or> init < fst (top_of (b # bs))" by (simp add: top_of_def)
    obtain db' where d: "best_chain db' bs" "rows_ok db'" "bestMeta db' = top_of bs"
      "purge_loop (snd (top_of (b # bs))) init (top_of (b # bs)) db
         = (if bs = [] then Some (db', top_of [], False) else purge_loop (snd (top_of bs)) init (top_of bs) db')"
      by (rule purge_step [OF Cons.prems(1,2) c]) (simp only: list.sel(3))
    show ?thesis
    proof (cases "bs = []")
      case True
      then show ?thesis using d \<open>init < b_height b\<close> by (simp add: purged_to_def)
    next
      case False
      then show ?thesis using d(4) \<open>init < b_height b\<close> Cons.IH [OF d(1-3)] by (simp add: purged_to_def)
    qed
  next
    case False
    then show ?thesis using Cons.prems by (simp add: purge_loop.simps [of _ init] top_of_def purged_to_def)
  qed
qed

lemma purge_loop_any:
  assumes "best_chain db bs" and "rows_ok db" and "h \<noteq> snd (top_of bs) \<or> init < fst (top_of bs)"
  shows "\<exists>db'. purge_loop h init (top_of bs) db = Some (db', top_of (purged_to init (tl bs)), False)
     \<and> best_chain db' (purged_to init (tl bs)) \<and> rows_ok db' \<and> bestMeta db' = top_of (purged_to init (tl bs))"
proof -
  obtain db' where d: "best_chain db' (tl bs)" "rows_ok db'" "bestMeta db' = top_of (tl bs)"
    "purge_loop h init (top_of bs) db
       = (if tl bs = [] then Some (db', top_of [], False) else purge_loop (snd (top_of (tl bs))) init (top_of (tl bs)) db')"
    using purge_step [OF assms] by metis
  show ?thesis
  proof (cases "tl bs = []")
    case True
    then show ?thesis using d by (simp add: purged_to_def)
  next
    case False
    then show ?thesis using d(4) purge_loop_equal [OF d(1-3), of init] by simp
  qed
qed

lemma purged_to_nth:
  assumes "sorted_wrt (\<lambda>x y. b_height y < b_height x) bs" and "k < length bs"
  shows "purged_to (b_height (bs ! k)) bs = drop k bs"
  using assms
proof (induction bs arbitrary: k)
  case (Cons b bs)
  then show ?case by (cases k) (auto simp: purged_to_def)
qed simp

lemma purged_to_drop: "\<exists>n. purged_to init bs = drop n bs"
  unfolding purged_to_def by (rule exI) (rule dropWhile_eq_drop)

text \<open>What is left of the chain, by the entry of the \<open>meta\<close> table.\<close>

definition startup_chain :: "int \<times> hash \<Rightarrow> pg_block list \<Rightarrow> pg_block list" where
  "startup_chain m bs =
     (if m = top_of bs then bs else if fst m > fst (top_of bs) then tl bs else purged_to (fst m) (tl bs))"

lemma purged_to_top: "best_chain db bs \<Longrightarrow> purged_to (fst (top_of bs)) bs = bs"
  by (cases bs) (simp_all add: purged_to_def top_of_def)

lemma startup_purge_result:
  assumes "best_chain db bs" and "rows_ok db"
  shows "\<exists>db'. startup_purge db = Some (db', top_of (startup_chain (bestMeta db) bs), False)
     \<and> best_chain db' (startup_chain (bestMeta db) bs) \<and> rows_ok db' \<and> bestMeta db' = top_of (startup_chain (bestMeta db) bs)"
proof -
  note best = retrieveBestBlock_top [OF assms(1)]
  consider (ahead) "fst (bestMeta db) > fst (top_of bs)" | (same) "bestMeta db = top_of bs"
    | (behind) "\<not> fst (bestMeta db) > fst (top_of bs)" "bestMeta db \<noteq> top_of bs" by linarith
  then show ?thesis
  proof cases
    case ahead
    obtain db1 r where d: "deleteBestBlock db = (db1, r, top_of (tl bs))" "best_chain db1 (tl bs)" "rows_ok db1" "bestMeta db1 = top_of (tl bs)"
      using deleteBestBlock_step [OF assms] by metis
    have "startup_purge db = purge_loop (snd (top_of (tl bs))) (fst (top_of (tl bs))) (top_of (tl bs)) db1"
      using ahead d by (simp add: startup_purge_def best case_prod_unfold Let_def)
    moreover have "startup_chain (bestMeta db) bs = tl bs" using ahead by (auto simp: startup_chain_def)
    ultimately show ?thesis using purge_loop_equal [OF d(2-4), of "fst (top_of (tl bs))"] purged_to_top [OF d(2)] by simp
  next
    case same
    then have "startup_purge db = Some (db, top_of bs, False)"
      by (simp add: startup_purge_def best Let_def purge_loop.simps [of _ _ "top_of bs"])
    then show ?thesis using assms same by (simp add: startup_chain_def)
  next
    case behind
    then have "snd (bestMeta db) \<noteq> snd (top_of bs) \<or> fst (bestMeta db) < fst (top_of bs)"
      by (cases "bestMeta db", cases "top_of bs") auto
    then show ?thesis
      using purge_loop_any [OF assms, of "snd (bestMeta db)" "fst (bestMeta db)"] behind
      by (simp add: startup_purge_def best Let_def startup_chain_def)
  qed
qed

text \<open>C11. The purge at start-up returns, without an error, whatever block the one row of the \<open>meta\<close> table names. It removes best blocks only, and afterwards the
  \<open>meta\<close> table names the best block. When the block that the \<open>meta\<close> table named before is on the main chain, exactly the
  blocks above it are removed. If the references between the tables that \<open>refs_ok\<close> lists (transactions and blocks; inputs, outputs and address rows and their transactions; the
  spending transactions of outputs; the blocks of tickets, votes, misses and statistics; not the spending transactions of tickets and the matching transactions of address rows) and sound flags are there before,
  which is assumed, they are there after. Assumed is also that the \<open>meta\<close> table has its row, and that the main chain is the stored blocks of strictly falling heights.\<close>

theorem startup_purge_correct:
  assumes "best_chain db bs" and "refs_ok db" and "flags_sound db"
  shows "\<exists>db' n. startup_purge db = Some (db', top_of (drop n bs), False) \<and> best_chain db' (drop n bs) \<and> bestMeta db' = top_of (drop n bs)
     \<and> refs_ok db' \<and> flags_sound db' \<and> (\<forall>k < length bs. bestMeta db = top_of (drop k bs) \<longrightarrow> drop n bs = drop k bs)"
proof -
  have rows: "rows_ok db" using assms(2,3) by (simp add: rows_ok_def)
  obtain n where n: "startup_chain (bestMeta db) bs = drop n bs"
  proof -
    obtain m where "purged_to (fst (bestMeta db)) (tl bs) = drop m (tl bs)" using purged_to_drop by blast
    then have "startup_chain (bestMeta db) bs \<in> {drop 0 bs, drop 1 bs, drop (Suc m) bs}" by (simp add: startup_chain_def drop_Suc)
    then show ?thesis using that by blast
  qed
  have "startup_chain (bestMeta db) bs = drop k bs" if k: "k < length bs" and meta: "bestMeta db = top_of (drop k bs)" for k
  proof (cases k)
    case 0
    then show ?thesis using meta by (simp add: startup_chain_def)
  next
    case (Suc j)
    have sorted: "sorted_wrt (\<lambda>x y. b_height y < b_height x) bs" using assms(1) by (simp add: best_chain_def)
    have m: "fst (bestMeta db) = b_height (bs ! k)" using meta k by (simp add: top_of_def Cons_nth_drop_Suc [symmetric])
    have "b_height (bs ! k) < b_height (bs ! 0)" using sorted k Suc by (intro sorted_wrt_nth_less) auto
    moreover have top: "fst (top_of bs) = b_height (bs ! 0)" using k by (cases bs) (simp_all add: top_of_def)
    ultimately have "startup_chain (bestMeta db) bs = purged_to (b_height (tl bs ! j)) (tl bs)"
      using m k Suc by (auto simp: startup_chain_def nth_tl)
    also have "\<dots> = drop j (tl bs)" using sorted k Suc by (intro purged_to_nth) (cases bs, simp_all)
    finally show ?thesis using Suc by (simp add: drop_Suc)
  qed
  then have "\<forall>k < length bs. bestMeta db = top_of (drop k bs) \<longrightarrow> drop n bs = drop k bs" unfolding n by blast
  then show ?thesis using startup_purge_result [OF assms(1) rows] unfolding n rows_ok_def by blast
qed

theorem startup_purge_correct_witness:
  "\<exists>db'. startup_purge ((reorg_tables [reorg_block 1 True, reorg_block 2 True, reorg_block 3 True])\<lparr>bestMeta := (1, [1])\<rparr>) = Some (db', (1, [1]), False)
     \<and> bestMeta db' = (1, [1]) \<and> refs_ok db'"
proof -
  let ?bs = "[reorg_block 3 True, reorg_block 2 True, reorg_block 1 True]"
  let ?db = "(reorg_tables [reorg_block 1 True, reorg_block 2 True, reorg_block 3 True])\<lparr>bestMeta := (1, [1])\<rparr>"
  have ok: "best_chain ?db ?bs" "refs_ok ?db" "flags_sound ?db" using reorg_tables_chain reorg_tables_refs reorg_db_ok(2) [of True] by simp_all
  obtain db' n where p: "startup_purge ?db = Some (db', top_of (drop n ?bs), False)" "bestMeta db' = top_of (drop n ?bs)" "refs_ok db'"
    and k: "\<forall>k < length ?bs. bestMeta ?db = top_of (drop k ?bs) \<longrightarrow> drop n ?bs = drop k ?bs"
    using startup_purge_correct [OF ok] by blast
  have "top_of (drop 2 ?bs) = (1, [1])" by (simp add: top_of_def)
  moreover from this have "drop n ?bs = drop 2 ?bs" using k [THEN spec, of 2] by simp
  ultimately have "top_of (drop n ?bs) = (1, [1])" by metis
  then show ?thesis using p by metis
qed

section \<open>What a purge forgets\<close>

text \<open>A ticket that voted in the deleted block keeps the reference to its vote, whose row is gone.\<close>

lemma deleteBlockData_leaves_spent_ticket:
  assumes "refs_ok db" and "distinct (map t_id (transactions db))" and "k \<in> set (tickets db)" and "k_block k \<noteq> h"
    and "k_spendTx k = Some (t_id t)" and "t \<in> set (transactions db)" and "t_block t = h"
  shows "\<exists>db' res. deleteBlockData h height db = (db', res) \<and> k \<in> set (tickets db') \<and> (\<forall>t' \<in> set (transactions db'). k_spendTx k \<noteq> Some (t_id t'))"
proof -
  obtain ls res where d: "deleteBlockData h height db = ((deleted h height db)\<lparr>block_chain := ls\<rparr>, res)" using deleteBlockData_result by blast
  have "k \<in> set (tickets (deleted h height db))"
    using ticket_of_block [OF _ _ assms(2,3), of h] assms(1,3,4) unfolding deleted_rows(6) by (simp add: refs_ok_def)
  moreover have "t_id t' \<noteq> t_id t" if "t' \<in> set (transactions (deleted h height db))" for t'
  proof
    assume "t_id t' = t_id t"
    moreover have "t' \<in> set (transactions db)" "t_block t' \<noteq> h" using that by simp_all
    ultimately have "t' = t" using assms(2,6) by (simp add: distinct_map inj_on_def)
    then show False using \<open>t_block t' \<noteq> h\<close> assms(7) by simp
  qed
  then have "\<forall>t' \<in> set (transactions (deleted h height db)). k_spendTx k \<noteq> Some (t_id t')" using assms(5) by (metis option.inject)
  ultimately show ?thesis
    using d by (intro exI [of _ "(deleted h height db)\<lparr>block_chain := ls\<rparr>"] exI [of _ res]) (simp del: deleted_rows)
qed

end
