(* ===== verification/PgPurge.thy ===== *)
theory PgPurge
  imports PgRewind StakeRecover
begin

text \<open>
  \<open>PurgeBestBlocks\<close> of \<open>db/dcrpg/pgblockchain.go\<close>: the best blocks are removed from the tables, then the ticket pool database is rewound
  to the new best height. \<open>quit\<close> is the cancellation that the rewind looks at before it disconnects a block of a height.
\<close>

section \<open>Rewinding the stake database\<close>

text \<open>The result has the height that the loop recorded last, which an error leaves as it was before the block. One turn per block is
  enough fuel.\<close>

fun rewind_stake ::
  "('n, 's, 'd, 'f) stake_env \<Rightarrow> node_client \<Rightarrow> (int \<Rightarrow> bool) \<Rightarrow> int \<Rightarrow> nat \<Rightarrow> ('n, 's, 'd, 'f) StakeDatabase
     \<Rightarrow> (('n, 's, 'd, 'f) StakeDatabase \<times> int \<times> sd_error option) option" where
  "rewind_stake env rpc quit toHeight 0 db = Some (db, Height env db, if toHeight < Height env db then Some OutOfFuel else None)"
| "rewind_stake env rpc quit toHeight (Suc fuel) db =
     (if toHeight < Height env db then
        if quit (Height env db) then Some (db, Height env db, None)
        else (case disconnectBlock env rpc False db of
                None \<Rightarrow> None
              | Some (db1, Some err) \<Rightarrow> Some (db1, Height env db, Some err)
              | Some (db1, None) \<Rightarrow> rewind_stake env rpc quit toHeight fuel db1)
      else Some (db, Height env db, None))"

definition RewindStakeDB ::
  "('n, 's, 'd, 'f) stake_env \<Rightarrow> node_client \<Rightarrow> (int \<Rightarrow> bool) \<Rightarrow> int \<Rightarrow> ('n, 's, 'd, 'f) StakeDatabase
     \<Rightarrow> (('n, 's, 'd, 'f) StakeDatabase \<times> int \<times> sd_error option) option" where
  "RewindStakeDB env rpc quit toHeight db =
     (let to0 = (if toHeight < 0 then 0 else toHeight) in rewind_stake env rpc quit to0 (nat (Height env db - to0)) db)"

datatype purge_error = RewindFailed sd_error | RewindShort int int

definition PurgeBestBlocks ::
  "('n, 's, 'd, 'f) stake_env \<Rightarrow> node_client \<Rightarrow> (int \<Rightarrow> bool) \<Rightarrow> int \<Rightarrow> pg_tables \<Rightarrow> ('n, 's, 'd, 'f) StakeDatabase
     \<Rightarrow> (pg_tables \<times> ('n, 's, 'd, 'f) StakeDatabase \<times> int \<times> (purge_error + DeletionSummary)) option" where
  "PurgeBestBlocks env rpc quit N db sdb =
     (case deleteBlocks N db of
        (db1, res, height, h) \<Rightarrow>
          (case RewindStakeDB env rpc quit height sdb of
             None \<Rightarrow> None
           | Some (sdb1, stakeDBHeight, Some err) \<Rightarrow> Some (db1, sdb1, height, Inl (RewindFailed err))
           | Some (sdb1, stakeDBHeight, None) \<Rightarrow>
               Some (db1, sdb1, height,
                 if stakeDBHeight \<noteq> height then Inl (RewindShort height stakeDBHeight) else Inr (Reduce res))))"

section \<open>The rewind reaches the height\<close>

lemma rewind_stake_result:
  assumes "node_laws env" and "in_sync env db" and "0 \<le> to0" and "Height env db \<le> to0 + int fuel"
    and "rewind_stake env rpc quit to0 fuel db = Some (db', h, err)"
  shows "case err of Some e \<Rightarrow> \<not> loop_error e | None \<Rightarrow> in_sync env db' \<and> h = Height env db' \<and> min (Height env db) to0 \<le> h
    \<and> ((\<forall>i. \<not> quit i) \<longrightarrow> h = min (Height env db) to0)"
  using assms(2,4,5)
proof (induction fuel arbitrary: db)
  case 0
  then show ?case by auto
next
  case (Suc fuel)
  show ?case
  proof (cases "to0 < Height env db \<and> \<not> quit (Height env db)")
    case False
    then show ?thesis using Suc.prems by (auto split: if_splits)
  next
    case True
    then obtain db1 e where d: "disconnectBlock env rpc False db = Some (db1, e)"
      using Suc.prems(3) by (auto split: option.splits)
    show ?thesis
    proof (cases e)
      case None
      have inv: "tp_inv (PoolDB db)" "tip (PoolDB db) = Height env db" using Suc.prems(1) by (simp_all add: in_sync_def)
      note st = disconnectBlock_success [OF d [unfolded None] assms(1) inv(1)]
      have sync: "in_sync env db1" using st(2,3,4) inv(2) by (simp add: in_sync_def)
      have "rewind_stake env rpc quit to0 fuel db1 = Some (db', h, err)" using Suc.prems(3) True d None by simp
      from Suc.IH [OF sync _ this] st(2) Suc.prems(2) True show ?thesis by (auto split: option.splits)
    next
      case (Some x)
      then show ?thesis using Suc.prems(3) True d disconnectBlock_error [of env rpc False db db1 x] by auto
    qed
  qed
qed

lemma RewindStakeDB_result:
  assumes "node_laws env" and "in_sync env db" and "RewindStakeDB env rpc quit toHeight db = Some (db', h, err)"
  shows "case err of Some e \<Rightarrow> \<not> loop_error e | None \<Rightarrow> in_sync env db' \<and> h = Height env db' \<and> min (Height env db) (max 0 toHeight) \<le> h
    \<and> ((\<forall>i. \<not> quit i) \<longrightarrow> h = min (Height env db) (max 0 toHeight))"
proof -
  let ?to = "if toHeight < 0 then 0 else toHeight"
  have to: "?to = max 0 toHeight" and bound: "0 \<le> ?to" "Height env db \<le> ?to + int (nat (Height env db - ?to))" by simp_all
  have loop: "rewind_stake env rpc quit ?to (nat (Height env db - ?to)) db = Some (db', h, err)"
    using assms(3) by (simp add: RewindStakeDB_def Let_def)
  show ?thesis using rewind_stake_result [OF assms(1,2) bound loop] unfolding to .
qed



text \<open>A purge of the whole chain leaves the height \<open>-1\<close>, but the ticket pool database is never rewound below zero: the blocks are gone and an
  error is reported.\<close>

lemma PurgeBestBlocks_all_fails:
  assumes "best_chain db bs" and "refs_ok db" and "flags_sound db" and "bs \<noteq> []" and "int (length bs) \<le> N"
    and "node_laws env" and "in_sync env sdb"
    and "PurgeBestBlocks env rpc quit N db sdb = Some (db', sdb', height, r)"
  shows "height = -1 \<and> best_chain db' [] \<and> (\<exists>e. r = Inl e)"
proof -
  have N: "1 \<le> N" using assms(4,5) by (cases bs) auto
  have nil: "drop (nat N) bs = []" using assms(5) by simp
  obtain db1 res where d: "deleteBlocks N db = (db1, res, -1, zeroHash)" "best_chain db1 []"
    using deleteBlocks_result [OF assms(1-4) N] by (auto simp: nil top_of_def)
  have h0: "0 \<le> Height env sdb" using assms(7) by (simp add: in_sync_def tp_inv_def)
  obtain h err where rw: "RewindStakeDB env rpc quit (-1) sdb = Some (sdb', h, err)" and res: "db' = db1" "height = -1"
      "r = (case err of Some e \<Rightarrow> Inl (RewindFailed e) | None \<Rightarrow> if h \<noteq> -1 then Inl (RewindShort height h) else Inr (Reduce res))"
    using assms(8) d(1) by (auto simp: PurgeBestBlocks_def split: option.splits)
  have "\<exists>e. r = Inl e" using RewindStakeDB_result [OF assms(6,7) rw] res(3) h0 by (cases err) auto
  then show ?thesis using d(2) res(1,2) by simp
qed

end
