(* ===== verification/Extract.thy ===== *)
theory Extract
  imports MempoolStats SSFee
begin

text \<open>
  From a block of the node to the rows of the store: \<open>db/dbtypes/extraction.go\<close> and the totals by coin of \<open>db/dbtypes/conversion.go\<close>.
  What the node's packages decide of a transaction or a script is a parameter (\<open>extract_env\<close>): its stake type, whether it is a
  coinbase, the class and the addresses of an output script, the marker of a reward, which coin types are SKA, and the order
  in which a Go map is walked. Maps from coin types are association lists with distinct keys; amounts in VAR wrap at 64 bits, SKA amounts do
  not. The two walks of one map in a transaction take the same order. Columns that are only carried along (versions, lock times, scripts) are left out.
\<close>

section \<open>Blocks, transactions and scripts\<close>

record wire_in =
  wi_In :: TxIn
  wi_Tree :: int

record wire_tx =
  wt_Ins :: "wire_in list"
  wt_Outs :: "TxOut list"
  wt_Hash :: hash
  wt_Size :: int

definition msg_of :: "wire_tx \<Rightarrow> MsgTx" where
  "msg_of tx = \<lparr>txIn = map wi_In (wt_Ins tx), txOut = wt_Outs tx\<rparr>"

record msg_block =
  mb_Hash :: hash
  mb_PrevBlock :: hash
  mb_Height :: int
  mb_Time :: int
  mb_SBits :: int
  mb_VoteBits :: "16 word"
  mb_Transactions :: "wire_tx list"
  mb_STransactions :: "wire_tx list"

datatype ScriptType = STNonStandard | STPubKeyEcdsaSecp256k1 | STPubKeyHashEcdsaSecp256k1 | STScriptHash | STMultiSig | STNullData
  | STStakeSubmissionPubKeyHash | STStakeSubmissionScriptHash | STStakeGenPubKeyHash | STStakeGenScriptHash | STStakeRevocationPubKeyHash
  | STStakeRevocationScriptHash | STStakeChangePubKeyHash | STStakeChangeScriptHash | STPubKeyEd25519 | STPubKeySchnorrSecp256k1
  | STPubKeyHashEd25519 | STPubKeyHashSchnorrSecp256k1 | STOther

datatype ScriptClass = SCNonStandard | SCPubKey | SCPubKeyHash | SCScriptHash | SCMultiSig | SCNullData | SCStakeSubmission | SCStakeGen
  | SCStakeRevocation | SCStakeSubChange | SCStakeSubCommit | SCPubkeyAlt | SCPubkeyHashAlt | SCInvalid

fun NewScriptClass :: "ScriptType \<Rightarrow> ScriptClass" where
  "NewScriptClass STNonStandard = SCNonStandard"
| "NewScriptClass STPubKeyEcdsaSecp256k1 = SCPubKey"
| "NewScriptClass STPubKeyHashEcdsaSecp256k1 = SCPubKeyHash"
| "NewScriptClass STScriptHash = SCScriptHash"
| "NewScriptClass STMultiSig = SCMultiSig"
| "NewScriptClass STNullData = SCNullData"
| "NewScriptClass STStakeSubmissionPubKeyHash = SCStakeSubmission"
| "NewScriptClass STStakeSubmissionScriptHash = SCStakeSubmission"
| "NewScriptClass STStakeGenPubKeyHash = SCStakeGen"
| "NewScriptClass STStakeGenScriptHash = SCStakeGen"
| "NewScriptClass STStakeRevocationPubKeyHash = SCStakeRevocation"
| "NewScriptClass STStakeRevocationScriptHash = SCStakeRevocation"
| "NewScriptClass STStakeChangePubKeyHash = SCStakeSubChange"
| "NewScriptClass STStakeChangeScriptHash = SCStakeSubChange"
| "NewScriptClass STPubKeyEd25519 = SCPubkeyAlt"
| "NewScriptClass STPubKeySchnorrSecp256k1 = SCPubkeyAlt"
| "NewScriptClass STPubKeyHashEd25519 = SCPubkeyHashAlt"
| "NewScriptClass STPubKeyHashSchnorrSecp256k1 = SCPubkeyHashAlt"
| "NewScriptClass STOther = SCInvalid"

fun ScriptClass_String :: "ScriptClass \<Rightarrow> string" where
  "ScriptClass_String SCNonStandard = ''nonstandard''"
| "ScriptClass_String SCPubKey = ''pubkey''"
| "ScriptClass_String SCPubkeyAlt = ''pubkeyalt''"
| "ScriptClass_String SCPubKeyHash = ''pubkeyhash''"
| "ScriptClass_String SCPubkeyHashAlt = ''pubkeyhashalt''"
| "ScriptClass_String SCScriptHash = ''scripthash''"
| "ScriptClass_String SCMultiSig = ''multisig''"
| "ScriptClass_String SCNullData = ''nulldata''"
| "ScriptClass_String SCStakeSubmission = ''stakesubmission''"
| "ScriptClass_String SCStakeGen = ''stakegen''"
| "ScriptClass_String SCStakeRevocation = ''stakerevoke''"
| "ScriptClass_String SCStakeSubChange = ''sstxchange''"
| "ScriptClass_String SCStakeSubCommit = ''sstxcommitment''"
| "ScriptClass_String SCInvalid = ''invalid''"

definition script_classes :: "ScriptClass list" where
  "script_classes = [SCNonStandard, SCPubKey, SCPubKeyHash, SCScriptHash, SCMultiSig, SCNullData, SCStakeSubmission, SCStakeGen,
     SCStakeRevocation, SCStakeSubChange, SCStakeSubCommit, SCPubkeyAlt, SCPubkeyHashAlt]"

definition to_lower :: "string \<Rightarrow> string" where
  "to_lower s = map (\<lambda>ch. if 65 \<le> (of_char ch :: nat) \<and> (of_char ch :: nat) \<le> 90 then char_of ((of_char ch :: nat) + 32) else ch) s"

definition NewScriptClassFromString :: "string \<Rightarrow> ScriptClass" where
  "NewScriptClassFromString stdSC = (case find (\<lambda>c. ScriptClass_String c = to_lower stdSC) script_classes of None \<Rightarrow> SCInvalid | Some sc \<Rightarrow> sc)"

text \<open>Every class reads back from its name, the invalid class too.\<close>

lemma ScriptClass_roundtrip: "NewScriptClassFromString (ScriptClass_String c) = c"
  by (cases c) (simp_all add: NewScriptClassFromString_def script_classes_def to_lower_def)

record extract_env =
  StakeTxType :: "MsgTx \<Rightarrow> TxType"
  StandaloneCoinBase :: "MsgTx \<Rightarrow> bool \<Rightarrow> bool"
  ScriptAddrs :: "TxOut \<Rightarrow> ScriptType \<times> string list"
  SSFeeMarkerOf :: "byte list \<Rightarrow> SSFeeMarker"
  IsSKA :: "byte \<Rightarrow> bool"
  VarIntSize :: varint_size
  mix_iter :: "(int \<times> nat) list \<Rightarrow> (int \<times> nat) list"
  coin_iter :: "(byte \<times> int) list \<Rightarrow> (byte \<times> int) list"

definition IsCoinBaseTx :: "extract_env \<Rightarrow> MsgTx \<Rightarrow> bool" where
  "IsCoinBaseTx env tx = (StandaloneCoinBase env tx False \<or> StandaloneCoinBase env tx True)"

section \<open>Rows\<close>

record db_tx =
  dt_BlockHash :: hash
  dt_BlockHeight :: int
  dt_BlockTime :: int
  dt_TxType :: TxType
  dt_Tree :: int
  dt_TxID :: hash
  dt_BlockIndex :: nat
  dt_Size :: int
  dt_Spent :: int
  dt_Sent :: int
  dt_Fees :: int
  dt_SpentByCoin :: "(byte \<times> string) list"
  dt_SentByCoin :: "(byte \<times> string) list"
  dt_FeesByCoin :: "(byte \<times> string) list"
  dt_MixCount :: nat
  dt_MixDenom :: int
  dt_NumVin :: nat
  dt_NumVout :: nat
  dt_IsValid :: bool
  dt_IsMainchainBlock :: bool

record vin_prop =
  vp_PrevTxHash :: hash
  vp_PrevTxIndex :: nat
  vp_PrevTxTree :: int
  vp_ValueIn :: int
  vp_TxID :: hash
  vp_TxIndex :: nat
  vp_TxType :: TxType
  vp_TxTree :: int
  vp_Time :: int
  vp_IsValid :: bool
  vp_IsMainchain :: bool
  vp_CoinType :: byte
  vp_SKAValue :: string

record db_vout =
  vo_TxHash :: hash
  vo_TxIndex :: nat
  vo_TxTree :: int
  vo_TxType :: TxType
  vo_CoinType :: byte
  vo_Mixed :: bool
  vo_Value :: nat
  vo_SKAValue :: string
  vo_Class :: ScriptClass
  vo_Addresses :: "string list"

abbreviation TxTypeBlockRewardPoS :: TxType where "TxTypeBlockRewardPoS \<equiv> TxTypeOther 101"
abbreviation TxTypeBlockRewardPoW :: TxType where "TxTypeBlockRewardPoW \<equiv> TxTypeOther 102"
abbreviation TxTypeSSFeePoS :: TxType where "TxTypeSSFeePoS \<equiv> TxTypeOther 103"
abbreviation TxTypeSSFeePoW :: TxType where "TxTypeSSFeePoW \<equiv> TxTypeOther 104"
abbreviation TxTypeTicketPurchase :: TxType where "TxTypeTicketPurchase \<equiv> TxTypeOther 105"

section \<open>One transaction\<close>

definition bigIntMapAdd :: "byte \<Rightarrow> int \<Rightarrow> (byte \<times> int) list \<Rightarrow> (byte \<times> int) list" where
  "bigIntMapAdd k v m = AList.update k (case map_of m k of Some cur \<Rightarrow> cur + v | None \<Rightarrow> v) m"

definition bigIntMapToStrings :: "(byte \<times> int) list \<Rightarrow> (byte \<times> string) list" where
  "bigIntMapToStrings m = map (\<lambda>(k, v). (k, show_int v)) m"

text \<open>The type of the node, corrected by the scripts, and the type that is stored.\<close>

definition node_type :: "extract_env \<Rightarrow> wire_tx \<Rightarrow> TxType" where
  "node_type env tx =
     (let txType = StakeTxType env (msg_of tx)
      in if txType = TxTypeRegular
            \<and> (\<exists>txout \<in> set (wt_Outs tx). NewScriptClass (fst (ScriptAddrs env txout)) \<in> {SCStakeSubmission, SCStakeSubChange})
         then TxTypeSStx else txType)"

definition stored_type :: "extract_env \<Rightarrow> wire_tx \<Rightarrow> TxType" where
  "stored_type env tx =
     (case node_type env tx of
        TxTypeSSFee \<Rightarrow>
          (case tx_marker (SSFeeMarkerOf env) (msg_of tx) of
             SSFeeMarkerStaker \<Rightarrow> TxTypeSSFeePoS | SSFeeMarkerMiner \<Rightarrow> TxTypeSSFeePoW | SSFeeMarkerNone \<Rightarrow> TxTypeSSFee)
      | TxTypeSStx \<Rightarrow> TxTypeTicketPurchase
      | t \<Rightarrow> t)"

definition mix_info :: "extract_env \<Rightarrow> int \<Rightarrow> bool \<Rightarrow> wire_tx \<Rightarrow> int \<times> nat" where
  "mix_info env ticketPrice isStake tx =
     (if isStake then (0, 0)
      else case IsMixTx (mix_iter env) (msg_of tx) of
        (b, mixDenom, mixCount) \<Rightarrow>
          if mixCount = 0 then snd (IsMixedSplitTx (VarIntSize env) (msg_of tx) DefaultRelayFeePerKb ticketPrice) else (mixDenom, mixCount))"

definition spent_totals :: "wire_tx \<Rightarrow> int \<times> (byte \<times> int) list" where
  "spent_totals tx =
     foldl (\<lambda>(varSpent, skaSpent) txin.
        case SKAValueIn (wi_In txin) of
          Some v \<Rightarrow> (varSpent, bigIntMapAdd 0xff v skaSpent)
        | None \<Rightarrow> (wrap64 (varSpent + ValueIn (wi_In txin)), skaSpent)) (0, []) (wt_Ins tx)"

definition sent_totals :: "extract_env \<Rightarrow> wire_tx \<Rightarrow> int \<times> (byte \<times> int) list" where
  "sent_totals env tx =
     foldl (\<lambda>(varSent, skaSent) txout.
        if txo_CoinType txout = 0 then (wrap64 (varSent + txo_Value txout), skaSent)
        else case txo_SKAValue txout of
               Some v \<Rightarrow> if IsSKA env (txo_CoinType txout) then (varSent, bigIntMapAdd (txo_CoinType txout) v skaSent) else (varSent, skaSent)
             | None \<Rightarrow> (varSent, skaSent)) (0, []) (wt_Outs tx)"

definition first_coin :: "extract_env \<Rightarrow> (byte \<times> int) list \<Rightarrow> byte option" where
  "first_coin env skaSent = (case coin_iter env skaSent of [] \<Rightarrow> None | (ct, v) # r \<Rightarrow> Some ct)"

definition resolve_spent :: "extract_env \<Rightarrow> (byte \<times> int) list \<Rightarrow> (byte \<times> int) list \<Rightarrow> (byte \<times> int) list" where
  "resolve_spent env skaSent skaSpent =
     (case map_of skaSpent 0xff of
        None \<Rightarrow> skaSpent
      | Some placeholder \<Rightarrow>
          let rest = AList.delete 0xff skaSpent
          in case first_coin env skaSent of None \<Rightarrow> rest | Some ct \<Rightarrow> bigIntMapAdd ct placeholder rest)"

definition ska_fees :: "(byte \<times> int) list \<Rightarrow> (byte \<times> int) list \<Rightarrow> (byte \<times> int) list" where
  "ska_fees skaSpent skaSent =
     filter (\<lambda>(ct, fee). fee > 0)
       (map (\<lambda>(ct, spent). (ct, case map_of skaSent ct of Some sent \<Rightarrow> spent - sent | None \<Rightarrow> spent)) skaSpent)"

definition extract_vin :: "byte \<Rightarrow> db_tx \<Rightarrow> nat \<times> wire_in \<Rightarrow> vin_prop" where
  "extract_vin vinCoinType dbTx = (\<lambda>(idx, txin).
     \<lparr>vp_PrevTxHash = PrevHash (wi_In txin), vp_PrevTxIndex = PrevIndex (wi_In txin), vp_PrevTxTree = wi_Tree txin,
      vp_ValueIn = ValueIn (wi_In txin), vp_TxID = dt_TxID dbTx, vp_TxIndex = idx, vp_TxType = dt_TxType dbTx, vp_TxTree = dt_Tree dbTx,
      vp_Time = dt_BlockTime dbTx, vp_IsValid = dt_IsValid dbTx, vp_IsMainchain = dt_IsMainchainBlock dbTx, vp_CoinType = vinCoinType,
      vp_SKAValue = (case SKAValueIn (wi_In txin) of Some v \<Rightarrow> if vinCoinType \<noteq> 0 then show_int v else [] | None \<Rightarrow> [])\<rparr>)"

definition extract_vout :: "extract_env \<Rightarrow> wire_tx \<Rightarrow> db_tx \<Rightarrow> nat \<times> TxOut \<Rightarrow> db_vout" where
  "extract_vout env tx dbTx = (\<lambda>(io, txout).
     let ct = txo_CoinType txout
     in \<lparr>vo_TxHash = dt_TxID dbTx, vo_TxIndex = io, vo_TxTree = dt_Tree dbTx,
         vo_TxType = (if IsCoinBaseTx env (msg_of tx) then if io = 0 then TxTypeBlockRewardPoW else TxTypeBlockRewardPoS else dt_TxType dbTx),
         vo_CoinType = ct,
         vo_Mixed = (ct = 0 \<and> dt_MixDenom dbTx > 0 \<and> dt_MixDenom dbTx = txo_Value txout),
         vo_Value = (if ct = 0 then u64 (txo_Value txout) else 0),
         vo_SKAValue = (if ct \<noteq> 0 \<and> IsSKA env ct then case txo_SKAValue txout of Some v \<Rightarrow> show_int v | None \<Rightarrow> [] else []),
         vo_Class = NewScriptClass (fst (ScriptAddrs env txout)),
         vo_Addresses = snd (ScriptAddrs env txout)\<rparr>)"

text \<open>A stake transaction in the regular tree is skipped.\<close>

definition extract_tx ::
  "extract_env \<Rightarrow> msg_block \<Rightarrow> int \<Rightarrow> bool \<Rightarrow> bool \<Rightarrow> nat \<times> wire_tx \<Rightarrow> (db_tx \<times> db_vout list \<times> vin_prop list) option" where
  "extract_tx env blk tree isValid isMainchain = (\<lambda>(txIndex, tx).
     let isStake = node_type env tx \<noteq> TxTypeRegular
     in if isStake \<and> tree \<noteq> 1 then None
        else
          let (mixDenom, mixCount) = mix_info env (mb_SBits blk) isStake tx;
              (varSpent, skaSpent0) = spent_totals tx;
              (varSent, skaSent) = sent_totals env tx;
              skaSpent = resolve_spent env skaSent skaSpent0;
              dbTx = \<lparr>dt_BlockHash = mb_Hash blk, dt_BlockHeight = mb_Height blk, dt_BlockTime = mb_Time blk, dt_TxType = stored_type env tx,
                dt_Tree = tree, dt_TxID = wt_Hash tx, dt_BlockIndex = txIndex, dt_Size = wt_Size tx, dt_Spent = varSpent, dt_Sent = varSent,
                dt_Fees = wrap64 (varSpent - varSent), dt_SpentByCoin = bigIntMapToStrings skaSpent,
                dt_SentByCoin = bigIntMapToStrings skaSent, dt_FeesByCoin = bigIntMapToStrings (ska_fees skaSpent skaSent),
                dt_MixCount = mixCount, dt_MixDenom = mixDenom, dt_NumVin = length (wt_Ins tx), dt_NumVout = length (wt_Outs tx),
                dt_IsValid = (isValid \<or> tree = 1), dt_IsMainchainBlock = isMainchain\<rparr>;
              vinCoinType = (case first_coin env skaSent of None \<Rightarrow> 0 | Some ct \<Rightarrow> ct)
          in Some (dbTx, map (extract_vout env tx dbTx) (enumerate 0 (wt_Outs tx)), map (extract_vin vinCoinType dbTx) (enumerate 0 (wt_Ins tx))))"

definition tree_txs :: "msg_block \<Rightarrow> int \<Rightarrow> wire_tx list option" where
  "tree_txs blk tree = (if tree = 0 then Some (mb_Transactions blk) else if tree = 1 then Some (mb_STransactions blk) else None)"

text \<open>The slices of outputs and inputs have an entry for every transaction, the slice of transactions only for those that are not skipped.\<close>

definition processTransactions ::
  "extract_env \<Rightarrow> msg_block \<Rightarrow> int \<Rightarrow> bool \<Rightarrow> bool \<Rightarrow> db_tx list \<times> db_vout list list \<times> vin_prop list list" where
  "processTransactions env blk tree isValid isMainchain =
     (case tree_txs blk tree of
        None \<Rightarrow> ([], [], [])
      | Some txs \<Rightarrow>
          let rs = map (extract_tx env blk tree isValid isMainchain) (enumerate 0 txs)
          in (map fst (map the (filter (\<lambda>r. r \<noteq> None) rs)),
              map (\<lambda>r. case r of None \<Rightarrow> [] | Some (t, vos, vis) \<Rightarrow> vos) rs,
              map (\<lambda>r. case r of None \<Rightarrow> [] | Some (t, vos, vis) \<Rightarrow> vis) rs))"

definition ExtractBlockTransactions ::
  "extract_env \<Rightarrow> msg_block \<Rightarrow> int \<Rightarrow> bool \<Rightarrow> bool \<Rightarrow> db_tx list \<times> db_vout list list \<times> vin_prop list list" where
  "ExtractBlockTransactions env blk txTree isValid isMainchain = processTransactions env blk txTree isValid isMainchain"

section \<open>Totals of a block\<close>

definition blockCoinAmounts :: "extract_env \<Rightarrow> msg_block \<Rightarrow> (byte \<times> string) list option" where
  "blockCoinAmounts env blk =
     (let (varTotal, skaTotal) =
        foldl (\<lambda>(varTotal, skaTotal) out.
          if txo_CoinType out = 0 then (wrap64 (varTotal + txo_Value out), skaTotal)
          else case txo_SKAValue out of
                 Some v \<Rightarrow> if IsSKA env (txo_CoinType out) then (varTotal, bigIntMapAdd (txo_CoinType out) v skaTotal) else (varTotal, skaTotal)
               | None \<Rightarrow> (varTotal, skaTotal)) (0, []) (concat (map wt_Outs (mb_Transactions blk @ mb_STransactions blk)))
      in if varTotal = 0 \<and> skaTotal = [] then None
         else Some (foldl (\<lambda>m (k, v). AList.update k (show_int v) m) [(0, show_int varTotal)] skaTotal))"

record CoinTxStats =
  cts_TxCount :: nat
  cts_Size :: int

definition tx_stats_coin :: "extract_env \<Rightarrow> wire_tx \<Rightarrow> byte" where
  "tx_stats_coin env tx = (case find (\<lambda>out. IsSKA env (txo_CoinType out)) (wt_Outs tx) of None \<Rightarrow> 0 | Some out \<Rightarrow> txo_CoinType out)"

definition blockCoinTxStats :: "extract_env \<Rightarrow> msg_block \<Rightarrow> (byte \<times> CoinTxStats) list option" where
  "blockCoinTxStats env blk =
     (let stats = foldl (\<lambda>stats tx.
        let ct = tx_stats_coin env tx;
            s = (case map_of stats ct of None \<Rightarrow> \<lparr>cts_TxCount = 0, cts_Size = 0\<rparr> | Some s \<Rightarrow> s)
        in AList.update ct \<lparr>cts_TxCount = cts_TxCount s + 1, cts_Size = (cts_Size s + wt_Size tx) mod 2 ^ 32\<rparr> stats)
          [] (mb_Transactions blk @ mb_STransactions blk)
      in if stats = [] then None else Some stats)"

section \<open>What the amounts are\<close>

definition var_in :: "wire_tx \<Rightarrow> int" where
  "var_in tx = (\<Sum>i\<leftarrow>filter (\<lambda>i. SKAValueIn (wi_In i) = None) (wt_Ins tx). ValueIn (wi_In i))"

definition ska_in :: "wire_tx \<Rightarrow> int" where
  "ska_in tx = (\<Sum>i\<leftarrow>wt_Ins tx. opt0 (SKAValueIn (wi_In i)))"

definition var_out :: "wire_tx \<Rightarrow> int" where
  "var_out tx = (\<Sum>u\<leftarrow>filter (\<lambda>u. txo_CoinType u = 0) (wt_Outs tx). txo_Value u)"

definition ska_outs_of :: "extract_env \<Rightarrow> byte \<Rightarrow> TxOut list \<Rightarrow> int list" where
  "ska_outs_of env ct us = [opt0 (txo_SKAValue u). u \<leftarrow> us, txo_CoinType u = ct \<and> ct \<noteq> 0 \<and> IsSKA env ct \<and> txo_SKAValue u \<noteq> None]"

lemma map_of_bigIntMapAdd: "map_of (bigIntMapAdd k v m) = (map_of m)(k \<mapsto> opt0 (map_of m k) + v)"
  by (rule ext) (simp add: bigIntMapAdd_def update_conv opt0_def split: option.split)

lemma distinct_bigIntMapAdd: "distinct (map fst m) \<Longrightarrow> distinct (map fst (bigIntMapAdd k v m))"
  by (simp add: bigIntMapAdd_def distinct_update)

lemma wrap64_sum: "wrap64 (wrap64 a + b) = wrap64 (a + b)" "wrap64 (a + wrap64 b) = wrap64 (a + b)"
  by (simp_all add: wrap64_def mod_simps algebra_simps)

text \<open>The input totals: one placeholder for all SKA inputs.\<close>

lemma spent_fold:
  "foldl (\<lambda>(varSpent, skaSpent) txin.
      case SKAValueIn (wi_In txin) of
        Some v \<Rightarrow> (varSpent, bigIntMapAdd 0xff v skaSpent)
      | None \<Rightarrow> (wrap64 (varSpent + ValueIn (wi_In txin)), skaSpent)) (wrap64 a, m) ins
   = (wrap64 (a + (\<Sum>i\<leftarrow>filter (\<lambda>i. SKAValueIn (wi_In i) = None) ins. ValueIn (wi_In i))),
      foldl (\<lambda>m v. bigIntMapAdd 0xff v m) m (map (\<lambda>i. opt0 (SKAValueIn (wi_In i))) (filter (\<lambda>i. SKAValueIn (wi_In i) \<noteq> None) ins)))"
proof (induction ins arbitrary: a m)
  case (Cons i ins)
  show ?case
  proof (cases "SKAValueIn (wi_In i)")
    case None
    then show ?thesis using Cons [of "a + ValueIn (wi_In i)" m] by (simp add: wrap64_sum algebra_simps)
  next
    case (Some v)
    then show ?thesis using Cons [of a "bigIntMapAdd 0xff v m"] by (simp add: opt0_def)
  qed
qed simp

lemma add_all: "vs \<noteq> [] \<Longrightarrow> foldl (\<lambda>m v. bigIntMapAdd k v m) [] vs = [(k, sum_list vs)]"
proof (induction vs rule: rev_induct)
  case (snoc v vs)
  then show ?case by (cases "vs = []") (simp_all add: bigIntMapAdd_def)
qed simp

definition has_ska_in :: "wire_tx \<Rightarrow> bool" where
  "has_ska_in tx \<longleftrightarrow> (\<exists>i \<in> set (wt_Ins tx). SKAValueIn (wi_In i) \<noteq> None)"

lemma sum_opt0: "(\<Sum>i\<leftarrow>xs. opt0 (f i)) = (\<Sum>i\<leftarrow>filter (\<lambda>i. f i \<noteq> None) xs. opt0 (f i))"
  by (induction xs) (auto simp: opt0_def)

lemma spent_totals_result: "spent_totals tx = (wrap64 (var_in tx), if has_ska_in tx then [(0xff, ska_in tx)] else [])"
proof -
  let ?vs = "map (\<lambda>i. opt0 (SKAValueIn (wi_In i))) (filter (\<lambda>i. SKAValueIn (wi_In i) \<noteq> None) (wt_Ins tx))"
  have s: "spent_totals tx = (wrap64 (var_in tx), foldl (\<lambda>m v. bigIntMapAdd 0xff v m) [] ?vs)"
    using spent_fold [of 0 "[]" "wt_Ins tx"] by (simp add: spent_totals_def var_in_def wrap64_def)
  have "sum_list ?vs = ska_in tx" unfolding ska_in_def using sum_opt0 [of "\<lambda>i. SKAValueIn (wi_In i)" "wt_Ins tx"] by simp
  moreover have "?vs = [] \<longleftrightarrow> \<not> has_ska_in tx" by (auto simp: has_ska_in_def filter_empty_conv)
  ultimately show ?thesis using s add_all [of ?vs "0xff"] by (cases "has_ska_in tx") auto
qed

text \<open>The output totals by coin.\<close>

lemma sent_fold:
  "foldl (\<lambda>(varSent, skaSent) txout.
      if txo_CoinType txout = 0 then (wrap64 (varSent + txo_Value txout), skaSent)
      else case txo_SKAValue txout of
             Some v \<Rightarrow> if IsSKA env (txo_CoinType txout) then (varSent, bigIntMapAdd (txo_CoinType txout) v skaSent) else (varSent, skaSent)
           | None \<Rightarrow> (varSent, skaSent)) (wrap64 a, m) us
   = (wrap64 (a + (\<Sum>u\<leftarrow>filter (\<lambda>u. txo_CoinType u = 0) us. txo_Value u)),
      foldl (\<lambda>m u. bigIntMapAdd (txo_CoinType u) (opt0 (txo_SKAValue u)) m) m
        (filter (\<lambda>u. txo_CoinType u \<noteq> 0 \<and> IsSKA env (txo_CoinType u) \<and> txo_SKAValue u \<noteq> None) us))"
proof (induction us arbitrary: a m)
  case (Cons u us)
  show ?case
  proof (cases "txo_CoinType u = 0")
    case True
    then show ?thesis using Cons [of "a + txo_Value u" m] by (simp add: wrap64_sum algebra_simps)
  next
    case False
    then show ?thesis
      using Cons [of a m] Cons [of a "bigIntMapAdd (txo_CoinType u) (opt0 (txo_SKAValue u)) m"]
      by (cases "txo_SKAValue u") (simp_all add: opt0_def)
  qed
qed simp

definition ska_totals :: "extract_env \<Rightarrow> TxOut list \<Rightarrow> (byte \<times> int) list" where
  "ska_totals env us = foldl (\<lambda>m u. bigIntMapAdd (txo_CoinType u) (opt0 (txo_SKAValue u)) m) []
     (filter (\<lambda>u. txo_CoinType u \<noteq> 0 \<and> IsSKA env (txo_CoinType u) \<and> txo_SKAValue u \<noteq> None) us)"

lemma sent_totals_result: "sent_totals env tx = (wrap64 (var_out tx), ska_totals env (wt_Outs tx))"
  using sent_fold [of env 0 "[]" "wt_Outs tx"] by (simp add: sent_totals_def var_out_def ska_totals_def wrap64_def)

definition is_ska_out :: "extract_env \<Rightarrow> TxOut \<Rightarrow> bool" where
  "is_ska_out env u \<longleftrightarrow> txo_CoinType u \<noteq> 0 \<and> IsSKA env (txo_CoinType u) \<and> txo_SKAValue u \<noteq> None"

lemma ska_totals_snoc:
  "ska_totals env (us @ [u])
     = (if is_ska_out env u then bigIntMapAdd (txo_CoinType u) (opt0 (txo_SKAValue u)) (ska_totals env us) else ska_totals env us)"
  unfolding ska_totals_def is_ska_out_def by (cases "txo_SKAValue u") simp_all

lemma ska_outs_of_snoc:
  "ska_outs_of env ct (us @ [u]) = ska_outs_of env ct us @ (if is_ska_out env u \<and> txo_CoinType u = ct then [opt0 (txo_SKAValue u)] else [])"
  by (auto simp: ska_outs_of_def is_ska_out_def)

lemma ska_totals_of:
  "map_of (ska_totals env us) ct = (if ska_outs_of env ct us = [] then None else Some (sum_list (ska_outs_of env ct us)))"
proof (induction us rule: rev_induct)
  case Nil
  then show ?case by (simp add: ska_totals_def ska_outs_of_def)
next
  case (snoc u us)
  show ?case
  proof (cases "is_ska_out env u \<and> txo_CoinType u = ct")
    case True
    then have "map_of (ska_totals env (us @ [u])) ct = Some (opt0 (map_of (ska_totals env us) ct) + opt0 (txo_SKAValue u))"
      by (simp add: ska_totals_snoc map_of_bigIntMapAdd)
    then show ?thesis using True snoc.IH by (simp add: ska_outs_of_snoc opt0_def [of None] opt0_def [of "Some _"])
  next
    case False
    then have "map_of (ska_totals env (us @ [u])) ct = map_of (ska_totals env us) ct"
      by (auto simp: ska_totals_snoc map_of_bigIntMapAdd)
    then show ?thesis using False snoc.IH by (auto simp: ska_outs_of_snoc)
  qed
qed

lemma distinct_ska_totals: "distinct (map fst (ska_totals env us))"
proof (induction us rule: rev_induct)
  case (snoc u us)
  then show ?case by (simp add: ska_totals_snoc distinct_bigIntMapAdd)
qed (simp add: ska_totals_def)

section \<open>Extraction is correct\<close>

lemma extract_tx_Some:
  assumes "extract_tx env blk tree isValid isMainchain (i, tx) = Some (t, vos, vis)"
  shows "dt_TxID t = wt_Hash tx" "dt_BlockHash t = mb_Hash blk" "dt_Tree t = tree" "dt_BlockIndex t = i" "dt_BlockTime t = mb_Time blk"
    "dt_BlockHeight t = mb_Height blk" "dt_TxType t = stored_type env tx"
    "dt_IsValid t = (isValid \<or> tree = 1)" "dt_IsMainchainBlock t = isMainchain"
    "dt_Fees t = wrap64 (wrap64 (var_in tx) - wrap64 (var_out tx))"
    "dt_FeesByCoin t = bigIntMapToStrings (ska_fees (resolve_spent env (ska_totals env (wt_Outs tx)) (if has_ska_in tx then [(0xff, ska_in tx)] else []))
        (ska_totals env (wt_Outs tx)))"
    "vos = map (extract_vout env tx t) (enumerate 0 (wt_Outs tx))"
    "\<exists>ct. vis = map (extract_vin ct t) (enumerate 0 (wt_Ins tx))"
  using assms by (auto simp: extract_tx_def Let_def spent_totals_result sent_totals_result case_prod_unfold split: if_splits)

text \<open>A transaction with SKA outputs of one coin.\<close>

definition single_coin :: "extract_env \<Rightarrow> byte \<Rightarrow> wire_tx \<Rightarrow> bool" where
  "single_coin env c tx \<longleftrightarrow> (\<exists>u \<in> set (wt_Outs tx). is_ska_out env u) \<and> (\<forall>u \<in> set (wt_Outs tx). is_ska_out env u \<longrightarrow> txo_CoinType u = c)"

lemma distinct_one_element: "distinct xs \<Longrightarrow> set xs = {x} \<Longrightarrow> xs = [x]"
proof (cases xs)
  case (Cons y ys)
  assume a: "distinct xs" "set xs = {x}"
  then have y: "y = x" "y \<notin> set ys" "set ys \<subseteq> {x}" using Cons by auto
  then show ?thesis using Cons by (cases ys) simp_all
qed simp

lemma single_coin_totals:
  assumes "single_coin env c tx"
  shows "ska_totals env (wt_Outs tx) = [(c, sum_list (ska_outs_of env c (wt_Outs tx)))]"
proof -
  let ?m = "ska_totals env (wt_Outs tx)"
  have none: "ska_outs_of env ct us = [] \<longleftrightarrow> \<not> (\<exists>u \<in> set us. is_ska_out env u \<and> txo_CoinType u = ct)" for ct us
    by (auto simp: ska_outs_of_def is_ska_out_def)
  have "map_of ?m = [c \<mapsto> sum_list (ska_outs_of env c (wt_Outs tx))]"
    using assms by (intro ext) (auto simp: ska_totals_of none single_coin_def)
  then have "set ?m = {(c, sum_list (ska_outs_of env c (wt_Outs tx)))}"
    using distinct_ska_totals [of env "wt_Outs tx"] by (auto simp: map_of_eq_Some_iff [symmetric] split: if_splits)
  moreover have "distinct ?m" using distinct_ska_totals [of env "wt_Outs tx"] by (simp add: distinct_map)
  ultimately show ?thesis by (rule distinct_one_element [rotated])
qed

definition fair_iter :: "extract_env \<Rightarrow> bool" where
  "fair_iter env \<longleftrightarrow> (\<forall>m. mset (coin_iter env m) = mset m)"

lemma coin_iter_one: "fair_iter env \<Longrightarrow> coin_iter env [x] = [x]"
  by (simp add: fair_iter_def) (metis mset_single_iff_right mset.simps mset_single_iff)

lemma single_coin_fees:
  assumes "single_coin env c tx" and "has_ska_in tx" and "fair_iter env"
  shows "ska_fees (resolve_spent env (ska_totals env (wt_Outs tx)) (if has_ska_in tx then [(0xff, ska_in tx)] else [])) (ska_totals env (wt_Outs tx))
    = (let fee = ska_in tx - sum_list (ska_outs_of env c (wt_Outs tx)) in if fee > 0 then [(c, fee)] else [])"
  using assms by (simp add: single_coin_totals ska_fees_def resolve_spent_def first_coin_def coin_iter_one bigIntMapAdd_def Let_def)

text \<open>What is extracted from one transaction at its place in the block.\<close>

definition extracted :: "extract_env \<Rightarrow> msg_block \<Rightarrow> int \<Rightarrow> bool \<Rightarrow> bool \<Rightarrow> nat \<Rightarrow> wire_tx \<Rightarrow> db_tx \<Rightarrow> db_vout list \<Rightarrow> vin_prop list \<Rightarrow> bool" where
  "extracted env blk tree isValid isMainchain i tx t vos vis \<longleftrightarrow>
     dt_TxID t = wt_Hash tx \<and> dt_BlockHash t = mb_Hash blk \<and> dt_BlockIndex t = i \<and> dt_Tree t = tree
     \<and> dt_IsValid t = (isValid \<or> tree = 1) \<and> dt_IsMainchainBlock t = isMainchain
     \<and> dt_Fees t = wrap64 (var_in tx - var_out tx)
     \<and> (\<forall>c. single_coin env c tx \<and> has_ska_in tx \<longrightarrow>
          dt_FeesByCoin t = (let fee = ska_in tx - sum_list (ska_outs_of env c (wt_Outs tx)) in if fee > 0 then [(c, show_int fee)] else []))
     \<and> length vos = length (wt_Outs tx) \<and> length vis = length (wt_Ins tx)
     \<and> (\<forall>j < length vos. vo_TxHash (vos ! j) = wt_Hash tx \<and> vo_TxIndex (vos ! j) = j \<and> vo_TxTree (vos ! j) = tree
          \<and> vo_Addresses (vos ! j) = snd (ScriptAddrs env (wt_Outs tx ! j)))
     \<and> (\<forall>j < length vis. vp_TxID (vis ! j) = wt_Hash tx \<and> vp_TxIndex (vis ! j) = j \<and> vp_IsValid (vis ! j) = dt_IsValid t
          \<and> vp_IsMainchain (vis ! j) = isMainchain \<and> vp_PrevTxHash (vis ! j) = PrevHash (wi_In (wt_Ins tx ! j))
          \<and> vp_PrevTxIndex (vis ! j) = PrevIndex (wi_In (wt_Ins tx ! j)))"

lemma wrap64_diff: "wrap64 (wrap64 a - wrap64 b) = wrap64 (a - b)"
proof -
  have "wrap64 (x - wrap64 b) = wrap64 (x - b)" for x by (simp add: wrap64_def mod_simps algebra_simps)
  moreover have "wrap64 (wrap64 a + (- b)) = wrap64 (a + (- b))" by (rule wrap64_sum(1))
  ultimately show ?thesis by simp
qed

lemma extract_tx_extracted:
  assumes "extract_tx env blk tree isValid isMainchain (i, tx) = Some (t, vos, vis)" and "fair_iter env"
  shows "extracted env blk tree isValid isMainchain i tx t vos vis"
proof -
  note st = extract_tx_Some [OF assms(1)]
  obtain ct where vis: "vis = map (extract_vin ct t) (enumerate 0 (wt_Ins tx))" using st(13) by blast
  have "dt_FeesByCoin t = (let fee = ska_in tx - sum_list (ska_outs_of env c (wt_Outs tx)) in if fee > 0 then [(c, show_int fee)] else [])"
    if "single_coin env c tx \<and> has_ska_in tx" for c
    using st(11) single_coin_fees [of env c tx] that assms(2) by (simp add: bigIntMapToStrings_def Let_def)
  moreover have "dt_Fees t = wrap64 (var_in tx - var_out tx)" using st(10) unfolding wrap64_diff .
  ultimately show ?thesis
    unfolding extracted_def using st(1-4,8,9)
    by (simp add: st(12) vis nth_enumerate_eq extract_vout_def extract_vin_def Let_def)
qed

text \<open>C14. When no stake transaction is in the regular tree, the three slices that the extraction returns fit each other and the tree: the
  entry of every transaction has its hash and index, its fee is what its inputs exceed its outputs by (in 64 bits for VAR, as a decimal string and only
  when positive for the SKA coin of the transaction), it is valid if the block is or the tree is the stake tree, and its outputs and inputs are
  listed in order, each with its outpoint.\<close>

theorem extraction_correct:
  assumes "tree_txs blk tree = Some txs" and "tree = 0 \<Longrightarrow> \<forall>tx \<in> set txs. node_type env tx = TxTypeRegular" and "fair_iter env"
  shows "\<exists>dbTxs vouts vins. ExtractBlockTransactions env blk tree isValid isMainchain = (dbTxs, vouts, vins)
     \<and> length dbTxs = length txs \<and> length vouts = length txs \<and> length vins = length txs
     \<and> (\<forall>i < length txs. extracted env blk tree isValid isMainchain i (txs ! i) (dbTxs ! i) (vouts ! i) (vins ! i))"
proof -
  define rs where "rs = map (extract_tx env blk tree isValid isMainchain) (enumerate 0 txs)"
  have some: "rs ! i \<noteq> None" if "i < length txs" for i
    using that assms(1,2) by (auto simp: rs_def nth_enumerate_eq extract_tx_def tree_txs_def Let_def case_prod_unfold split: if_splits)
  then have "\<forall>r \<in> set rs. r \<noteq> None" unfolding all_set_conv_all_nth by (simp add: rs_def)
  then have all: "filter (\<lambda>r. r \<noteq> None) rs = rs" by (rule filter_True)
  let ?vouts = "map (\<lambda>r. case r of None \<Rightarrow> [] | Some (t, vos, vis) \<Rightarrow> vos) rs" and ?vins = "map (\<lambda>r. case r of None \<Rightarrow> [] | Some (t, vos, vis) \<Rightarrow> vis) rs"
  have "ExtractBlockTransactions env blk tree isValid isMainchain = (map fst (map the rs), ?vouts, ?vins)"
    using assms(1) all by (simp add: ExtractBlockTransactions_def processTransactions_def Let_def rs_def [symmetric])
  moreover have "extracted env blk tree isValid isMainchain i (txs ! i) (map fst (map the rs) ! i) (?vouts ! i) (?vins ! i)"
    if i: "i < length txs" for i
  proof -
    have len: "length rs = length txs" by (simp add: rs_def)
    obtain t vos vis where r: "rs ! i = Some (t, vos, vis)" using some [OF i] by (cases "rs ! i") auto
    then have "extract_tx env blk tree isValid isMainchain (i, txs ! i) = Some (t, vos, vis)"
      using i by (simp add: rs_def nth_enumerate_eq)
    then show ?thesis using extract_tx_extracted [OF _ assms(3)] i r len by simp
  qed
  ultimately show ?thesis by (intro exI [of _ "map fst (map the rs)"] exI [of _ ?vouts] exI [of _ ?vins]) (simp add: rs_def)
qed

definition ex_out :: TxOut where
  "ex_out = \<lparr>txo_Value = 0, txo_CoinType = 1, txo_SKAValue = Some 30, txo_PkScript = []\<rparr>"

definition ex_wire_tx :: wire_tx where
  "ex_wire_tx = \<lparr>wt_Ins = [\<lparr>wi_In = \<lparr>PrevHash = [7], PrevIndex = 0, ValueIn = 0, SKAValueIn = Some 40\<rparr>, wi_Tree = 0\<rparr>], wt_Outs = [ex_out],
     wt_Hash = [9], wt_Size = 250\<rparr>"

definition ex_msg_block :: msg_block where
  "ex_msg_block = \<lparr>mb_Hash = [1], mb_PrevBlock = [0], mb_Height = 1, mb_Time = 5, mb_SBits = 2, mb_VoteBits = 1, mb_Transactions = [ex_wire_tx],
     mb_STransactions = []\<rparr>"

definition ex_extract_env :: extract_env where
  "ex_extract_env = \<lparr>StakeTxType = (\<lambda>tx. TxTypeRegular), StandaloneCoinBase = (\<lambda>tx b. False), ScriptAddrs = (\<lambda>u. (STPubKeyHashEcdsaSecp256k1, [''addr''])),
     SSFeeMarkerOf = (\<lambda>s. SSFeeMarkerNone), IsSKA = (\<lambda>c. c \<noteq> 0), VarIntSize = (\<lambda>n. 1), mix_iter = rev, coin_iter = rev\<rparr>"

theorem extraction_correct_witness:
  "\<exists>t vouts vins. ExtractBlockTransactions ex_extract_env ex_msg_block 0 True True = ([t], vouts, vins) \<and> dt_FeesByCoin t = [(1, show_int 10)]
     \<and> map vo_Addresses (vouts ! 0) = [[''addr'']]"
proof -
  have txs: "tree_txs ex_msg_block 0 = Some [ex_wire_tx]" by (simp add: tree_txs_def ex_msg_block_def)
  have reg: "\<forall>tx \<in> set [ex_wire_tx]. node_type ex_extract_env tx = TxTypeRegular" by (simp add: node_type_def ex_extract_env_def)
  have fair: "fair_iter ex_extract_env" by (simp add: fair_iter_def ex_extract_env_def)
  have coin: "single_coin ex_extract_env 1 ex_wire_tx" "has_ska_in ex_wire_tx" "ska_in ex_wire_tx = 40"
    "sum_list (ska_outs_of ex_extract_env 1 (wt_Outs ex_wire_tx)) = 30"
    by (simp_all add: single_coin_def has_ska_in_def ska_in_def ska_outs_of_def is_ska_out_def ex_wire_tx_def ex_out_def ex_extract_env_def opt0_def)
  obtain dbTxs vouts vins where e: "ExtractBlockTransactions ex_extract_env ex_msg_block 0 True True = (dbTxs, vouts, vins)" "length dbTxs = 1"
    "extracted ex_extract_env ex_msg_block 0 True True 0 ex_wire_tx (dbTxs ! 0) (vouts ! 0) (vins ! 0)"
    using extraction_correct [OF txs _ fair, of True True] reg by auto
  obtain t where t: "dbTxs = [t]" using e(2) by (cases dbTxs) auto
  have "dt_FeesByCoin t = [(1, show_int 10)]" "length (vouts ! 0) = 1" "vo_Addresses (vouts ! 0 ! 0) = [''addr'']"
    using e(3) coin unfolding extracted_def t by (simp_all add: ex_wire_tx_def ex_extract_env_def)
  then show ?thesis using e(1) t by (cases "vouts ! 0") auto
qed

section \<open>A stake transaction in the regular tree\<close>

text \<open>A skipped transaction shifts the transactions but not their outputs and inputs: the next transaction is stored with those of the
  skipped one, which are none.\<close>

lemma skipped_tx_misaligns:
  assumes "mb_Transactions blk = [a, b]" and "node_type env a \<noteq> TxTypeRegular" and "node_type env b = TxTypeRegular" and "wt_Outs b \<noteq> []"
  shows "\<exists>t vouts vins. ExtractBlockTransactions env blk 0 isValid isMainchain = ([t], vouts, vins) \<and> dt_TxID t = wt_Hash b
     \<and> dt_NumVout t = length (wt_Outs b) \<and> vouts ! 0 = [] \<and> vins ! 0 = []"
  using assms
  by (simp add: ExtractBlockTransactions_def processTransactions_def tree_txs_def extract_tx_def Let_def case_prod_unfold)

end
