(* ===== verification/PgInsert.thy ===== *)
theory PgInsert
  imports PgRewind Extract
begin

text \<open>
  Inserting the rows of transactions (\<open>db/dcrpg/queries.go\<close> with the statements of \<open>db/dcrpg/internal\<close>), the caches of unspent outputs
  and of ticket identifiers, and \<open>storeTxns\<close> of \<open>db/dcrpg/pgblockchain.go\<close>. Every table has three insert statements:
  unchecked, or with a unique index and then either an update of the conflicting row or nothing. A sequence is advanced by every attempt.
  The numbers of transaction types (\<open>stake.TxType\<close>) and the text that \<open>pq.StringArray\<close> writes are parameters.
\<close>

section \<open>Insert statements\<close>

definition insert_row :: "bool \<Rightarrow> bool \<Rightarrow> ('r \<Rightarrow> bool) \<Rightarrow> ('r \<Rightarrow> 'r) \<Rightarrow> ('r \<Rightarrow> nat) \<Rightarrow> 'r \<Rightarrow> 'r list \<Rightarrow> 'r list \<times> nat" where
  "insert_row checked upsert conflict upd rid new t =
     (case (if checked then query_row conflict t else None) of
        None \<Rightarrow> (t @ [new], rid new)
      | Some r \<Rightarrow> (if upsert then update_rows conflict upd t else t, rid r))"

record insert_env =
  TxTypeNum :: "TxType \<Rightarrow> int"
  StringArray :: "string list \<Rightarrow> string"

definition insertVin :: "bool \<Rightarrow> bool \<Rightarrow> vin_prop \<Rightarrow> pg_tables \<Rightarrow> pg_tables \<times> nat" where
  "insertVin checked upsert vin db =
     (let (t, i) = insert_row checked upsert
            (\<lambda>v. v_tx v = vp_TxID vin \<and> v_index v = vp_TxIndex vin \<and> v_tree v = vp_TxTree vin)
            (\<lambda>v. v\<lparr>v_valid := vp_IsValid vin, v_main := vp_IsMainchain vin, v_time := vp_Time vin,
                   v_prevTx := vp_PrevTxHash vin, v_prevIndex := vp_PrevTxIndex vin, v_prevTree := vp_PrevTxTree vin\<rparr>)
            v_id
            \<lparr>v_id = serial db SeqVins, v_tx = vp_TxID vin, v_index = vp_TxIndex vin, v_tree = vp_TxTree vin, v_valid = vp_IsValid vin,
             v_main = vp_IsMainchain vin, v_time = vp_Time vin, v_prevTx = vp_PrevTxHash vin, v_prevIndex = vp_PrevTxIndex vin,
             v_prevTree = vp_PrevTxTree vin, v_value = vp_ValueIn vin\<rparr> (vins db)
      in ((advance_seq SeqVins db)\<lparr>vins := t\<rparr>, i))"

fun insertVinsStmt :: "bool \<Rightarrow> bool \<Rightarrow> vin_prop list \<Rightarrow> pg_tables \<Rightarrow> pg_tables \<times> nat list" where
  "insertVinsStmt checked upsert [] db = (db, [])"
| "insertVinsStmt checked upsert (vin # vs) db =
     (let (db, i) = insertVin checked upsert vin db; (db, ids) = insertVinsStmt checked upsert vs db in (db, i # ids))"

definition addressList_Value :: "insert_env \<Rightarrow> string list \<Rightarrow> string" where
  "addressList_Value env al = (case al of [] \<Rightarrow> ''unknown'' | [a] \<Rightarrow> a | _ \<Rightarrow> StringArray env al)"

text \<open>The upsert of an output changes its version only.\<close>

definition insertVout :: "insert_env \<Rightarrow> bool \<Rightarrow> bool \<Rightarrow> db_vout \<Rightarrow> pg_tables \<Rightarrow> pg_tables \<times> nat" where
  "insertVout env checked upsert vout db =
     (let (t, i) = insert_row checked upsert
            (\<lambda>u. o_tx u = vo_TxHash vout \<and> o_index u = vo_TxIndex vout \<and> o_tree u = vo_TxTree vout) (\<lambda>u. u) o_id
            \<lparr>o_id = serial db SeqVouts, o_tx = vo_TxHash vout, o_index = vo_TxIndex vout, o_tree = vo_TxTree vout, o_value = int (vo_Value vout),
             o_coin = vo_CoinType vout, o_type = ScriptClass_String (vo_Class vout), o_addresses = addressList_Value env (vo_Addresses vout),
             o_mixed = vo_Mixed vout, o_spend = None\<rparr> (vouts db)
      in ((advance_seq SeqVouts db)\<lparr>vouts := t\<rparr>, i))"

text \<open>An address row before it is completed: block time, kind, validity and matching transaction are not set.\<close>

definition vout_address_rows :: "insert_env \<Rightarrow> db_vout \<Rightarrow> nat \<Rightarrow> pg_address list" where
  "vout_address_rows env vout i =
     map (\<lambda>addr. \<lparr>a_id = 0, a_address = addr, a_tx = vo_TxHash vout, a_main = False, a_matching = None, a_value = int (vo_Value vout),
       a_coin = vo_CoinType vout, a_time = 0, a_funding = False, a_index = vo_TxIndex vout, a_row = i, a_type = TxTypeNum env (vo_TxType vout)\<rparr>)
       (vo_Addresses vout)"

fun insertVoutsStmt :: "insert_env \<Rightarrow> bool \<Rightarrow> bool \<Rightarrow> db_vout list \<Rightarrow> pg_tables \<Rightarrow> pg_tables \<times> nat list \<times> pg_address list" where
  "insertVoutsStmt env checked upsert [] db = (db, [], [])"
| "insertVoutsStmt env checked upsert (vout # vs) db =
     (let (db, i) = insertVout env checked upsert vout db;
          (db, ids, rows) = insertVoutsStmt env checked upsert vs db
      in (db, i # ids, vout_address_rows env vout i @ rows))"

text \<open>A transaction of the slice with the identifiers that the insertions set.\<close>

record stored_tx =
  sx_Tx :: db_tx
  sx_VinDbIds :: "nat list"
  sx_VoutDbIds :: "nat list"

definition insertTx :: "insert_env \<Rightarrow> bool \<Rightarrow> bool \<Rightarrow> stored_tx \<Rightarrow> pg_tables \<Rightarrow> pg_tables \<times> nat" where
  "insertTx env checked upsert x db =
     (let tx = sx_Tx x;
          (t, i) = insert_row checked upsert (\<lambda>t. t_hash t = dt_TxID tx \<and> t_block t = dt_BlockHash tx)
            (\<lambda>t. t\<lparr>t_valid := dt_IsValid tx, t_main := dt_IsMainchainBlock tx\<rparr>) t_id
            \<lparr>t_id = serial db SeqTransactions, t_block = dt_BlockHash tx, t_height = dt_BlockHeight tx, t_time = dt_BlockTime tx,
             t_type = TxTypeNum env (dt_TxType tx), t_tree = dt_Tree tx, t_hash = dt_TxID tx, t_index = dt_BlockIndex tx,
             t_vins = sx_VinDbIds x, t_vouts = sx_VoutDbIds x, t_valid = dt_IsValid tx, t_main = dt_IsMainchainBlock tx\<rparr> (transactions db)
      in ((advance_seq SeqTransactions db)\<lparr>transactions := t\<rparr>, i))"

fun insertTxnsStmt :: "insert_env \<Rightarrow> bool \<Rightarrow> bool \<Rightarrow> stored_tx list \<Rightarrow> pg_tables \<Rightarrow> pg_tables \<times> nat list" where
  "insertTxnsStmt env checked upsert [] db = (db, [])"
| "insertTxnsStmt env checked upsert (x # xs) db =
     (let (db, i) = insertTx env checked upsert x db; (db, ids) = insertTxnsStmt env checked upsert xs db in (db, i # ids))"

text \<open>The row ids of an input or output, the address and the kind are unique in the table of addresses.\<close>

definition insertAddressRow :: "bool \<Rightarrow> bool \<Rightarrow> pg_address \<Rightarrow> pg_tables \<Rightarrow> pg_tables" where
  "insertAddressRow checked upsert a db =
     (let (t, i) = insert_row checked upsert (\<lambda>r. a_row r = a_row a \<and> a_address r = a_address a \<and> a_funding r = a_funding a)
            (\<lambda>r. r\<lparr>a_matching := a_matching a, a_tx := a_tx a, a_index := a_index a, a_time := a_time a, a_main := a_main a, a_type := a_type a\<rparr>)
            a_id (a\<lparr>a_id := serial db SeqAddresses\<rparr>) (addresses db)
      in (advance_seq SeqAddresses db)\<lparr>addresses := t\<rparr>)"

definition insertAddressRowsDbTx :: "bool \<Rightarrow> bool \<Rightarrow> pg_address list \<Rightarrow> pg_tables \<Rightarrow> pg_tables" where
  "insertAddressRowsDbTx checked upsert rows db = fold (insertAddressRow checked upsert) rows db"

section \<open>Storing transactions\<close>

text \<open>The loop over the transactions: outputs, then inputs. The slices of outputs and inputs are at least as long as \<open>txns\<close>.\<close>

fun store_in_outs :: "insert_env \<Rightarrow> bool \<Rightarrow> bool \<Rightarrow> (db_tx \<times> db_vout list \<times> vin_prop list) list \<Rightarrow> pg_tables
    \<Rightarrow> pg_tables \<times> stored_tx list \<times> pg_address list list" where
  "store_in_outs env checked upsert [] db = (db, [], [])"
| "store_in_outs env checked upsert ((tx, vos, vis) # rest) db =
     (let (db, voutIds, rows) = insertVoutsStmt env checked upsert vos db;
          (db, vinIds) = insertVinsStmt checked upsert vis db;
          (db, xs, rowss) = store_in_outs env checked upsert rest db
      in (db, \<lparr>sx_Tx = tx, sx_VinDbIds = vinIds, sx_VoutDbIds = voutIds\<rparr> # xs, rows # rowss))"

definition storeTxns :: "insert_env \<Rightarrow> bool \<Rightarrow> bool \<Rightarrow> db_tx list \<Rightarrow> db_vout list list \<Rightarrow> vin_prop list list \<Rightarrow> pg_tables
    \<Rightarrow> pg_tables \<times> stored_tx list \<times> nat list \<times> pg_address list list" where
  "storeTxns env dupChecks updateExistingRecords txns dbVouts dbVins db =
     (let (db, xs, rowss) = store_in_outs env dupChecks updateExistingRecords (zip txns (zip dbVouts dbVins)) db;
          (db, txDbIDs) = insertTxnsStmt env dupChecks updateExistingRecords xs db
      in (db, xs, txDbIDs, rowss))"

section \<open>The cache of unspent outputs\<close>

record UTXOData =
  ud_Addresses :: "string list"
  ud_Value :: int
  ud_Mixed :: bool
  ud_VoutDbID :: int
  ud_CoinType :: byte

type_synonym utxoStore = "hash \<times> nat \<rightharpoonup> UTXOData"

definition utxo_Get :: "hash \<Rightarrow> nat \<Rightarrow> utxoStore \<Rightarrow> UTXOData option \<times> utxoStore" where
  "utxo_Get h i u = (u (h, i), u((h, i) := None))"

definition utxo_Peek :: "hash \<Rightarrow> nat \<Rightarrow> utxoStore \<Rightarrow> UTXOData option" where
  "utxo_Peek h i u = u (h, i)"

definition utxo_Set :: "hash \<Rightarrow> nat \<Rightarrow> UTXOData \<Rightarrow> utxoStore \<Rightarrow> utxoStore" where
  "utxo_Set h i d u = u((h, i) \<mapsto> d)"

definition utxo_Reinit :: "((hash \<times> nat) \<times> UTXOData) list \<Rightarrow> utxoStore \<Rightarrow> utxoStore" where
  "utxo_Reinit utxos u = (if utxos = [] then u else fold (\<lambda>((h, i), d). utxo_Set h i d) utxos Map.empty)"

text \<open>An entry is found once; other outpoints are not touched.\<close>

lemma utxo_Get_Set:
  "utxo_Get h i (utxo_Set h i d u) = (Some d, u((h, i) := None))"
  "(h', i') \<noteq> (h, i) \<Longrightarrow> utxo_Peek h' i' (utxo_Set h i d u) = utxo_Peek h' i' u"
  "(h', i') \<noteq> (h, i) \<Longrightarrow> utxo_Peek h' i' (snd (utxo_Get h i u)) = utxo_Peek h' i' u"
  "utxo_Peek h i (snd (utxo_Get h i u)) = None"
  by (auto simp: utxo_Get_def utxo_Set_def utxo_Peek_def)

text \<open>After a restart the cache holds the last entry given for an outpoint, and nothing else.\<close>

lemma utxo_Reinit_result: "utxos \<noteq> [] \<Longrightarrow> utxo_Reinit utxos u = map_of (rev utxos)"
proof -
  have "fold (\<lambda>((h, i), d). utxo_Set h i d) xs m = (\<lambda>k. case map_of (rev xs) k of None \<Rightarrow> m k | Some d \<Rightarrow> Some d)" for xs m
    by (induction xs arbitrary: m) (auto simp: utxo_Set_def map_add_def fun_eq_iff split: option.splits)
  then show "utxos \<noteq> [] \<Longrightarrow> ?thesis" by (simp add: utxo_Reinit_def fun_eq_iff split: option.split)
qed

text \<open>\<open>ids\<close> are the identifiers of the outputs, empty before the rows are stored.\<close>

definition cache_vouts :: "db_vout list \<Rightarrow> nat list \<Rightarrow> utxoStore \<Rightarrow> utxoStore" where
  "cache_vouts vos ids u =
     fold (\<lambda>(iv, vout) u.
        if vo_Value vout = 0 \<and> vo_CoinType vout = 0 then u
        else utxo_Set (vo_TxHash vout) (vo_TxIndex vout)
               \<lparr>ud_Addresses = vo_Addresses vout, ud_Value = wrap64 (int (vo_Value vout)), ud_Mixed = vo_Mixed vout,
                ud_VoutDbID = (if length ids = length vos then int (ids ! iv) else -1), ud_CoinType = vo_CoinType vout\<rparr> u)
       (enumerate 0 vos) u"

definition updateUtxoCache :: "(db_vout list \<times> nat list) list \<Rightarrow> utxoStore \<Rightarrow> utxoStore" where
  "updateUtxoCache txs u = fold (\<lambda>(vos, ids). cache_vouts vos ids) txs u"

text \<open>The text of the addresses is split at commas after the braces are removed; the quotes of an array stay.\<close>

fun split_comma :: "string \<Rightarrow> string \<Rightarrow> string list" where
  "split_comma acc [] = [rev acc]"
| "split_comma acc (ch # s) = (if ch = CHR '','' then rev acc # split_comma [] s else split_comma (ch # acc) s)"

definition retrieveTxOutData :: "hash \<Rightarrow> nat \<Rightarrow> int \<Rightarrow> pg_tables \<Rightarrow> UTXOData option" where
  "retrieveTxOutData h i tree db =
     map_option (\<lambda>u. \<lparr>ud_Addresses = split_comma [] (filter (\<lambda>ch. ch \<noteq> CHR ''{'' \<and> ch \<noteq> CHR ''}'') (o_addresses u)),
         ud_Value = o_value u, ud_Mixed = o_mixed u, ud_VoutDbID = int (o_id u), ud_CoinType = o_coin u\<rparr>)
       (query_row (\<lambda>u. o_tx u = h \<and> o_index u = i \<and> o_tree u = tree) (vouts db))"

section \<open>Address rows of spent outputs\<close>

definition setSpendingForFundingOP :: "hash \<Rightarrow> nat \<Rightarrow> hash \<Rightarrow> bool \<Rightarrow> pg_tables \<Rightarrow> pg_tables" where
  "setSpendingForFundingOP fundingTx fundingIndex spendingTx forMainchain db =
     db\<lparr>addresses := update_rows (\<lambda>a. a_tx a = fundingTx \<and> a_funding a \<and> a_index a = fundingIndex \<and> a_main a = forMainchain)
          (\<lambda>a. a\<lparr>a_matching := Some spendingTx\<rparr>) (addresses db)\<rparr>"

definition no_utxo :: UTXOData where
  "no_utxo = \<lparr>ud_Addresses = [], ud_Value = 0, ud_Mixed = False, ud_VoutDbID = 0, ud_CoinType = 0\<rparr>"

definition insertSpendingAddressRow ::
  "insert_env \<Rightarrow> bool \<Rightarrow> bool \<Rightarrow> bool \<Rightarrow> vin_prop \<Rightarrow> nat \<Rightarrow> UTXOData option \<Rightarrow> db_tx \<Rightarrow> pg_tables \<Rightarrow> pg_tables \<times> string list \<times> int \<times> bool" where
  "insertSpendingAddressRow env checked updateExisting updateFundingRow vin vinDbID spentUtxoData tx db =
     (let d = (case spentUtxoData of
                 Some d \<Rightarrow> d
               | None \<Rightarrow> (case retrieveTxOutData (vp_PrevTxHash vin) (vp_PrevTxIndex vin) (vp_PrevTxTree vin) db of Some d \<Rightarrow> d | None \<Rightarrow> no_utxo));
          db = fold (\<lambda>addr. insertAddressRow checked updateExisting
                 \<lparr>a_id = 0, a_address = addr, a_tx = vp_TxID vin, a_main = (dt_IsMainchainBlock tx \<and> dt_IsValid tx),
                  a_matching = Some (vp_PrevTxHash vin), a_value = ud_Value d, a_coin = ud_CoinType d, a_time = dt_BlockTime tx, a_funding = False,
                  a_index = vp_TxIndex vin, a_row = vinDbID, a_type = TxTypeNum env (vp_TxType vin)\<rparr>) (ud_Addresses d) db;
          db = (if updateFundingRow \<and> dt_IsValid tx
                then setSpendingForFundingOP (vp_PrevTxHash vin) (vp_PrevTxIndex vin) (vp_TxID vin) (dt_IsMainchainBlock tx) db else db)
      in (db, ud_Addresses d, ud_VoutDbID d, ud_Mixed d))"

text \<open>All the rows must exist, once each.\<close>

definition setSpendingForVouts :: "int list \<Rightarrow> nat \<Rightarrow> pg_tables \<Rightarrow> pg_tables option" where
  "setSpendingForVouts ids spendTx db =
     (let p = (\<lambda>u. int (o_id u) \<in> set ids)
      in if length (filter p (vouts db)) = length ids
         then Some (db\<lparr>vouts := update_rows p (\<lambda>u. u\<lparr>o_spend := Some spendTx\<rparr>) (vouts db)\<rparr>) else None)"

definition flattenAddressRows :: "(db_tx \<times> pg_address list) list \<Rightarrow> pg_address list" where
  "flattenAddressRows txs =
     concat (map (\<lambda>(tx, rows).
       map (\<lambda>a. a\<lparr>a_time := dt_BlockTime tx, a_funding := True, a_main := (dt_IsMainchainBlock tx \<and> (dt_IsValid tx \<or> dt_Tree tx = 1))\<rparr>)
         (filter (\<lambda>a. \<not> (a_value a = 0 \<and> a_coin a = 0)) rows)) txs)"

text \<open>An output without addresses: cached, it has none; read from the table, it has one with the name \<open>unknown\<close>.\<close>

lemma no_address_reads_unknown:
  assumes "vo_Addresses vout = []" and "vouts db = []" and "insertVout env checked upsert vout db = (db', i)"
  shows "map_option ud_Addresses (retrieveTxOutData (vo_TxHash vout) (vo_TxIndex vout) (vo_TxTree vout) db') = Some [''unknown'']"
    and "vo_Value vout \<noteq> 0 \<Longrightarrow> map_option ud_Addresses (utxo_Peek (vo_TxHash vout) (vo_TxIndex vout) (cache_vouts [vout] [i] u)) = Some []"
  using assms by (auto simp: insertVout_def insert_row_def query_row_def retrieveTxOutData_def addressList_Value_def Let_def cache_vouts_def
      utxo_Peek_def utxo_Set_def split: if_splits)

end
