(* ===== verification/PgStore.thy ===== *)
theory PgStore
  imports PgInsert
begin

text \<open>
  Storing a block: \<open>storeBlockTxnTree\<close> and \<open>StoreBlock\<close> of \<open>db/dcrpg/pgblockchain.go\<close> with the insertion of tickets, votes and
  misses. The two trees are stored by two goroutines over tables they share; here the regular tree is stored first. The stake
  node of the block (\<open>ExistsExpiredTicket\<close>, \<open>MissedByBlock\<close>) and the test for a vote are parameters. The tables of agendas are not
  modelled: their statements succeed. An atomic swap is never stored, as its statement has eleven parameters and is given ten.
  \<open>None\<close> is a panic; an error leaves what the finished database transactions wrote.
\<close>

section \<open>State and parameters\<close>

record store_env =
  se_extract :: extract_env
  se_insert :: insert_env
  dupChecks :: bool
  InBatchSync :: bool
  CheckSSGen :: "wire_tx \<Rightarrow> bool"
  ExistsExpiredTicket :: "hash \<Rightarrow> bool"
  MissedByBlock :: "hash list"

record tree_state =
  ts_db :: pg_tables
  ts_utxo :: utxoStore
  ts_tickets :: "hash \<rightharpoonup> nat"

datatype store_error = NotAVote | TicketNotFound hash | WrongStakeCount | TxidMismatch | WrongSpentRows | NoPoolInfo hash | PoolHeightMismatch
  | LastBlockFailed last_error

record storeTxnsResult =
  sr_numVins :: nat
  sr_numVouts :: nat
  sr_numAddresses :: nat
  sr_txDbIDs :: "nat list"
  sr_err :: "store_error option"
  sr_addresses :: "string set"
  sr_mixSetDelta :: int

abbreviation no_result :: storeTxnsResult where
  "no_result \<equiv> \<lparr>sr_numVins = 0, sr_numVouts = 0, sr_numAddresses = 0, sr_txDbIDs = [], sr_err = None, sr_addresses = {}, sr_mixSetDelta = 0\<rparr>"

section \<open>Mixed outputs\<close>

text \<open>Whether all previous outputs are mixed; an output that is found in the table is put into the cache.\<close>

fun prevouts_mixed :: "pg_tables \<Rightarrow> vin_prop list \<Rightarrow> utxoStore \<Rightarrow> utxoStore \<times> bool" where
  "prevouts_mixed db [] u = (u, True)"
| "prevouts_mixed db (vin # vs) u =
     (if vp_PrevTxHash vin = zeroHash then prevouts_mixed db vs u
      else case utxo_Peek (vp_PrevTxHash vin) (vp_PrevTxIndex vin) u of
        Some d \<Rightarrow> if ud_Mixed d then prevouts_mixed db vs u else (u, False)
      | None \<Rightarrow>
          (case retrieveTxOutData (vp_PrevTxHash vin) (vp_PrevTxIndex vin) (vp_PrevTxTree vin) db of
             None \<Rightarrow> (u, False)
           | Some d \<Rightarrow>
               let u = utxo_Set (vp_PrevTxHash vin) (vp_PrevTxIndex vin) d u
               in if ud_Mixed d then prevouts_mixed db vs u else (u, False)))"

fun tag_mixed :: "pg_tables \<Rightarrow> (db_tx \<times> db_vout list \<times> vin_prop list) list \<Rightarrow> utxoStore \<Rightarrow> (db_tx \<times> db_vout list \<times> vin_prop list) list \<times> utxoStore" where
  "tag_mixed db [] u = ([], u)"
| "tag_mixed db ((tx, vos, vis) # txs) u =
     (if dt_MixCount tx > 0 \<or> dt_TxType tx = TxTypeRegular
      then let (rest, u) = tag_mixed db txs u in ((tx, vos, vis) # rest, u)
      else let (u, allMixed) = prevouts_mixed db vis u;
               (rest, u) = tag_mixed db txs u
           in ((tx, if allMixed then map (\<lambda>v. v\<lparr>vo_Mixed := True\<rparr>) vos else vos, vis) # rest, u))"

definition mixed_value :: "bool \<Rightarrow> (db_tx \<times> db_vout list \<times> vin_prop list) list \<Rightarrow> int" where
  "mixed_value isMainchain txs =
     (if isMainchain
      then wrap64 (\<Sum>(tx, vos, vis)\<leftarrow>txs. if dt_IsValid tx then \<Sum>v\<leftarrow>filter vo_Mixed vos. int (vo_Value v) else 0) else 0)"

section \<open>Tickets, votes and misses\<close>

definition retrieveTicketIDByHash :: "hash \<Rightarrow> pg_tables \<Rightarrow> nat option" where
  "retrieveTicketIDByHash h db =
     map_option k_id (case query_row (\<lambda>k. k_tx k = h \<and> k_main k) (tickets db) of Some k \<Rightarrow> Some k | None \<Rightarrow> query_row (\<lambda>k. k_tx k = h) (tickets db))"

definition TxnDbID :: "hash \<Rightarrow> bool \<Rightarrow> tree_state \<Rightarrow> tree_state \<times> nat option" where
  "TxnDbID h expire s =
     (case ts_tickets s h of
        Some i \<Rightarrow> (if expire then s\<lparr>ts_tickets := (ts_tickets s)(h := None)\<rparr> else s, Some i)
      | None \<Rightarrow> (s, retrieveTicketIDByHash h (ts_db s)))"

definition ticket_SetN :: "(hash \<times> nat) list \<Rightarrow> tree_state \<Rightarrow> tree_state" where
  "ticket_SetN xs s = s\<lparr>ts_tickets := ts_tickets s ++ map_of (rev xs)\<rparr>"

definition is_ticket :: "db_tx \<Rightarrow> bool" where
  "is_ticket tx \<longleftrightarrow> dt_TxType tx = TxTypeSStx \<or> dt_TxType tx = TxTypeTicketPurchase"

definition insertTicket :: "bool \<Rightarrow> bool \<Rightarrow> db_tx \<Rightarrow> nat \<Rightarrow> pg_tables \<Rightarrow> pg_tables \<times> nat" where
  "insertTicket checked upsert tx txDbID db =
     (let (t, i) = insert_row checked upsert (\<lambda>k. k_tx k = dt_TxID tx \<and> k_block k = dt_BlockHash tx) (\<lambda>k. k\<lparr>k_main := dt_IsMainchainBlock tx\<rparr>) k_id
            \<lparr>k_id = serial db SeqTickets, k_tx = dt_TxID tx, k_block = dt_BlockHash tx, k_height = dt_BlockHeight tx, k_purchase = txDbID,
             k_spendType = 0, k_poolStatus = 0, k_main = dt_IsMainchainBlock tx, k_spendHeight = None, k_spendTx = None\<rparr> (tickets db)
      in ((advance_seq SeqTickets db)\<lparr>tickets := t\<rparr>, i))"

text \<open>The price is the value of the first output: a ticket without outputs is a panic.\<close>

fun insertTickets :: "bool \<Rightarrow> bool \<Rightarrow> (db_tx \<times> db_vout list \<times> nat) list \<Rightarrow> tree_state \<Rightarrow> tree_state option" where
  "insertTickets checked upsert [] s = Some s"
| "insertTickets checked upsert ((tx, vos, txDbID) # txs) s =
     (if \<not> is_ticket tx then insertTickets checked upsert txs s
      else if vos = [] then None
      else let (db, i) = insertTicket checked upsert tx txDbID (ts_db s)
           in insertTickets checked upsert txs (s\<lparr>ts_db := db, ts_tickets := (ts_tickets s)(dt_TxID tx \<mapsto> i)\<rparr>))"

definition insertVote :: "bool \<Rightarrow> bool \<Rightarrow> hash \<Rightarrow> hash \<Rightarrow> db_tx \<Rightarrow> pg_tables \<Rightarrow> pg_tables" where
  "insertVote checked upsert candidate ticketHash tx db =
     (let (t, i) = insert_row checked upsert (\<lambda>w. w_tx w = dt_TxID tx \<and> w_block w = dt_BlockHash tx) (\<lambda>w. w\<lparr>w_main := dt_IsMainchainBlock tx\<rparr>) w_id
            \<lparr>w_id = serial db SeqVotes, w_tx = dt_TxID tx, w_block = dt_BlockHash tx, w_candidate = candidate, w_ticket = ticketHash,
             w_main = dt_IsMainchainBlock tx\<rparr> (votes db)
      in (advance_seq SeqVotes db)\<lparr>votes := t\<rparr>)"

text \<open>The first occurrence is replaced by the last element.\<close>

fun swap_remove :: "hash \<Rightarrow> hash list \<Rightarrow> hash list" where
  "swap_remove x [] = []"
| "swap_remove x (y # ys) = (if y = x then (if ys = [] then [] else last ys # butlast ys) else y # swap_remove x ys)"

definition insertMiss :: "bool \<Rightarrow> bool \<Rightarrow> msg_block \<Rightarrow> hash \<Rightarrow> pg_tables \<Rightarrow> pg_tables" where
  "insertMiss checked upsert blk ticketHash db =
     (let (t, i) = insert_row checked upsert (\<lambda>s. s_ticket s = ticketHash \<and> s_block s = mb_Hash blk) (\<lambda>s. s) s_id
            \<lparr>s_id = serial db SeqMisses, s_height = mb_Height blk, s_block = mb_Hash blk, s_ticket = ticketHash\<rparr> (misses db)
      in (advance_seq SeqMisses db)\<lparr>misses := t\<rparr>)"

text \<open>The votes of the block with their wire form. The outer option is a panic, an error is \<open>Inl\<close>. The result has the tables and the tickets left to vote.\<close>

fun vote_loop :: "store_env \<Rightarrow> bool \<Rightarrow> hash \<Rightarrow> (db_tx \<times> wire_tx) list \<Rightarrow> hash list \<Rightarrow> tree_state \<Rightarrow> (store_error + tree_state \<times> hash list) option" where
  "vote_loop env upsert candidate [] validators s = Some (Inr (s, validators))"
| "vote_loop env upsert candidate ((tx, msgTx) # txs) validators s =
     (if \<not> CheckSSGen env msgTx then Some (Inl NotAVote)
      else if length (wt_Ins msgTx) < 2 then None
      else
        let ticketHash = PrevHash (wi_In (wt_Ins msgTx ! 1))
        in case TxnDbID ticketHash False s of
             (s, None) \<Rightarrow> Some (Inl (TicketNotFound ticketHash))
           | (s, Some ticketDbID) \<Rightarrow>
               vote_loop env upsert candidate txs (swap_remove ticketHash validators)
                 (s\<lparr>ts_db := insertVote (dupChecks env) upsert candidate ticketHash tx (ts_db s)\<rparr>))"

definition insertVotes :: "store_env \<Rightarrow> bool \<Rightarrow> msg_block \<Rightarrow> hash list \<Rightarrow> (db_tx \<times> wire_tx) list \<Rightarrow> tree_state
    \<Rightarrow> (store_error + tree_state \<times> hash list) option" where
  "insertVotes env upsert blk validators txs s =
     (let voteTxs = filter (\<lambda>(tx, msgTx). dt_TxType tx = TxTypeSSGen) txs
      in if voteTxs = [] then Some (Inr (s, []))
         else case vote_loop env upsert (mb_PrevBlock blk) voteTxs validators s of
                None \<Rightarrow> None
              | Some (Inl e) \<Rightarrow> Some (Inl e)
              | Some (Inr (s, ms)) \<Rightarrow>
                  if validators \<noteq> [] \<and> length voteTxs + length ms \<noteq> 5 then None
                  else Some (Inr (s\<lparr>ts_db := fold (insertMiss (dupChecks env) upsert blk) ms (ts_db s)\<rparr>, ms)))"

datatype spend_type = TicketVoted | TicketRevoked

record spent_ticket =
  sp_txDbID :: nat
  sp_type :: spend_type
  sp_hash :: hash
  sp_ticketDbID :: nat

fun spend_loop :: "bool \<Rightarrow> (db_tx \<times> nat \<times> wire_tx) list \<Rightarrow> tree_state \<Rightarrow> tree_state \<times> (store_error + spent_ticket list)" where
  "spend_loop isMainchain [] s = (s, Inr [])"
| "spend_loop isMainchain ((tx, txDbID, msgTx) # txs) s =
     (if dt_TxType tx \<noteq> TxTypeSSGen \<and> dt_TxType tx \<noteq> TxTypeSSRtx then spend_loop isMainchain txs s
      else if dt_TxID tx \<noteq> wt_Hash msgTx then (s, Inl TxidMismatch)
      else
        let k = (if dt_TxType tx = TxTypeSSGen then 1 else 0)
        in if length (wt_Ins msgTx) \<le> k then spend_loop isMainchain txs s
           else
             let ticketHash = PrevHash (wi_In (wt_Ins msgTx ! k))
             in case TxnDbID ticketHash isMainchain s of
                  (s, None) \<Rightarrow> (s, Inl (TicketNotFound ticketHash))
                | (s, Some i) \<Rightarrow>
                    (case spend_loop isMainchain txs s of
                       (s, Inl e) \<Rightarrow> (s, Inl e)
                     | (s, Inr rest) \<Rightarrow>
                         (s, Inr (\<lparr>sp_txDbID = txDbID, sp_type = (if k = 1 then TicketVoted else TicketRevoked), sp_hash = ticketHash,
                                   sp_ticketDbID = i\<rparr> # rest))))"

definition collectTicketSpendDBInfo :: "bool \<Rightarrow> db_tx list \<Rightarrow> nat list \<Rightarrow> wire_tx list \<Rightarrow> tree_state \<Rightarrow> tree_state \<times> (store_error + spent_ticket list)" where
  "collectTicketSpendDBInfo isMainchain dbTxns txDbIDs msgTxns s =
     (if length msgTxns \<noteq> length dbTxns then (s, Inl WrongStakeCount)
      else spend_loop isMainchain (zip dbTxns (zip txDbIDs msgTxns)) s)"

text \<open>Pool states: live 0, voted 1, expired 2, missed 3; spending types: unspent 0, revoked 1, voted 2.\<close>

definition spend_status :: "store_env \<Rightarrow> spent_ticket \<Rightarrow> nat \<times> nat" where
  "spend_status env x = (case sp_type x of TicketVoted \<Rightarrow> (2, 1) | TicketRevoked \<Rightarrow> (1, if ExistsExpiredTicket env (sp_hash x) then 2 else 3))"

definition setSpendingForTickets :: "store_env \<Rightarrow> int \<Rightarrow> spent_ticket list \<Rightarrow> pg_tables \<Rightarrow> pg_tables" where
  "setSpendingForTickets env height xs db =
     fold (\<lambda>x db. db\<lparr>tickets := update_rows (\<lambda>k. k_id k = sp_ticketDbID x)
         (\<lambda>k. k\<lparr>k_spendType := fst (spend_status env x), k_spendHeight := Some height, k_spendTx := Some (sp_txDbID x),
                k_poolStatus := snd (spend_status env x)\<rparr>) (tickets db)\<rparr>) xs db"

definition setPoolStatusForTickets :: "(nat \<times> nat) list \<Rightarrow> pg_tables \<Rightarrow> pg_tables" where
  "setPoolStatusForTickets xs db =
     fold (\<lambda>(i, st) db. db\<lparr>tickets := update_rows (\<lambda>k. k_id k = i) (\<lambda>k. k\<lparr>k_poolStatus := st\<rparr>) (tickets db)\<rparr>) xs db"

text \<open>The missed and expired tickets that are not revoked in this block, with their state.\<close>

definition unspent_lost :: "store_env \<Rightarrow> hash list \<Rightarrow> spent_ticket list \<Rightarrow> (hash \<times> nat) list" where
  "unspent_lost env missed spent =
     (let revokes = set (map sp_hash (filter (\<lambda>x. sp_type x = TicketRevoked) spent));
          unspentMisses = filter (\<lambda>h. h \<notin> revokes) missed
      in map (\<lambda>h. (h, 3)) unspentMisses
         @ map (\<lambda>h. (h, 2)) (filter (\<lambda>h. ExistsExpiredTicket env h \<and> h \<notin> set unspentMisses \<and> h \<notin> revokes) (MissedByBlock env)))"

fun lost_row_ids :: "(hash \<times> nat) list \<Rightarrow> tree_state \<Rightarrow> store_error + (nat \<times> nat) list" where
  "lost_row_ids [] s = Inr []"
| "lost_row_ids ((h, st) # hs) s =
     (case snd (TxnDbID h False s) of
        None \<Rightarrow> Inl (TicketNotFound h)
      | Some i \<Rightarrow> (case lost_row_ids hs s of Inl e \<Rightarrow> Inl e | Inr rest \<Rightarrow> Inr ((i, st) # rest)))"

text \<open>A vote whose ticket is not found gives \<open>sql.ErrNoRows\<close>: the votes are rolled back and the error is ignored.\<close>

definition ignore_missing :: "tree_state \<Rightarrow> (store_error + tree_state \<times> hash list) option \<Rightarrow> (store_error + tree_state \<times> hash list) option" where
  "ignore_missing s r = (case r of Some (Inl (TicketNotFound h)) \<Rightarrow> Some (Inr (s, [])) | _ \<Rightarrow> r)"

definition store_stake :: "store_env \<Rightarrow> bool \<Rightarrow> bool \<Rightarrow> msg_block \<Rightarrow> hash list \<Rightarrow> (db_tx \<times> db_vout list) list \<Rightarrow> nat list \<Rightarrow> tree_state
    \<Rightarrow> (tree_state \<times> store_error option) option" where
  "store_stake env isMainchain upsert blk validators txs txDbIDs s0 =
     (case insertTickets (dupChecks env) upsert (map (\<lambda>((tx, vos), i). (tx, vos, i)) (zip txs txDbIDs)) s0 of
        None \<Rightarrow> None
      | Some s1 \<Rightarrow>
          (case ignore_missing s1 (insertVotes env upsert blk validators (zip (map fst txs) (mb_STransactions blk)) s1) of
             None \<Rightarrow> None
           | Some (Inl e) \<Rightarrow> Some (s1, Some e)
           | Some (Inr (s2, missed)) \<Rightarrow>
               (case collectTicketSpendDBInfo isMainchain (map fst txs) txDbIDs (mb_STransactions blk) s2 of
                  (s3, Inl e) \<Rightarrow> Some (s3, Some e)
                | (s3, Inr spent) \<Rightarrow>
                    let s4 = s3\<lparr>ts_db := setSpendingForTickets env (mb_Height blk) spent (ts_db s3)\<rparr>
                    in case lost_row_ids (unspent_lost env missed spent) s4 of
                         Inl e \<Rightarrow> Some (s4, Some e)
                       | Inr ids \<Rightarrow> Some (s4\<lparr>ts_db := setPoolStatusForTickets ids (ts_db s4)\<rparr>, None))))"

section \<open>Spending address rows\<close>

text \<open>The result has the tables, the cache, the rows of the spent outputs, the addresses and the change of the mixed value.\<close>

fun spend_vins :: "store_env \<Rightarrow> bool \<Rightarrow> bool \<Rightarrow> bool \<Rightarrow> db_tx \<Rightarrow> (vin_prop \<times> nat) list \<Rightarrow> pg_tables \<Rightarrow> utxoStore
    \<Rightarrow> pg_tables \<times> utxoStore \<times> int list \<times> string list \<times> int" where
  "spend_vins env isMainchain upsert updateFunding tx [] db u = (db, u, [], [], 0)"
| "spend_vins env isMainchain upsert updateFunding tx ((vin, vinDbID) # vs) db u =
     (if vp_PrevTxHash vin = zeroHash then spend_vins env isMainchain upsert updateFunding tx vs db u
      else
        let (utxoData, u) = utxo_Get (vp_PrevTxHash vin) (vp_PrevTxIndex vin) u;
            (db, fromAddrs, voutDbID, mixedVout) =
              insertSpendingAddressRow (se_insert env) (dupChecks env) upsert updateFunding vin vinDbID utxoData tx db;
            (db, u, ids, addrs, diff) = spend_vins env isMainchain upsert updateFunding tx vs db u
        in (db, u, voutDbID # ids, fromAddrs @ addrs, if mixedVout \<and> dt_IsValid tx \<and> isMainchain then diff - vp_ValueIn vin else diff))"

fun spend_txs :: "store_env \<Rightarrow> bool \<Rightarrow> bool \<Rightarrow> bool \<Rightarrow> (stored_tx \<times> vin_prop list \<times> nat) list \<Rightarrow> pg_tables \<Rightarrow> utxoStore
    \<Rightarrow> utxoStore \<times> (store_error + pg_tables \<times> string list \<times> int)" where
  "spend_txs env isMainchain upsert updateFunding [] db u = (u, Inr (db, [], 0))"
| "spend_txs env isMainchain upsert updateFunding ((x, vis, txDbID) # txs) db u =
     (let (db, u, ids, addrs, diff) = spend_vins env isMainchain upsert updateFunding (sx_Tx x) (zip vis (sx_VinDbIds x)) db u
      in case (if dt_IsValid (sx_Tx x) \<and> isMainchain \<and> ids \<noteq> [] then setSpendingForVouts ids txDbID db else Some db) of
           None \<Rightarrow> (u, Inl WrongSpentRows)
         | Some db \<Rightarrow>
             (case spend_txs env isMainchain upsert updateFunding txs db u of
                (u, Inl e) \<Rightarrow> (u, Inl e)
              | (u, Inr (db, addrs', diff')) \<Rightarrow> (u, Inr (db, addrs @ addrs', diff + diff'))))"

section \<open>One tree\<close>

definition storeBlockTxnTree :: "store_env \<Rightarrow> msg_block \<Rightarrow> hash list \<Rightarrow> int \<Rightarrow> bool \<Rightarrow> bool \<Rightarrow> bool \<Rightarrow> bool \<Rightarrow> tree_state
    \<Rightarrow> (tree_state \<times> storeTxnsResult) option" where
  "storeBlockTxnTree env blk validators tree isValid isMainchain upsert updateFunding s0 =
     (let (dbTxs, dbVouts0, dbVins) = ExtractBlockTransactions (se_extract env) blk tree isValid isMainchain;
          u1 = updateUtxoCache (zip dbVouts0 (map (\<lambda>t. []) dbTxs)) (ts_utxo s0);
          (txs, u2) = tag_mixed (ts_db s0) (zip dbTxs (zip dbVouts0 dbVins)) u1;
          dbVouts = map (fst \<circ> snd) txs; vins = map (snd \<circ> snd) txs;
          mixDiff = mixed_value isMainchain txs;
          (db1, xs, txDbIDs, rowss) = storeTxns (se_insert env) (dupChecks env) upsert dbTxs dbVouts vins (ts_db s0);
          u3 = updateUtxoCache (zip dbVouts (map sx_VoutDbIds xs)) u2;
          rows = flattenAddressRows (zip dbTxs rowss);
          s1 = \<lparr>ts_db = db1, ts_utxo = u3, ts_tickets = ts_tickets s0\<rparr>;
          res = no_result\<lparr>sr_numVins := length (concat (map sx_VinDbIds xs)), sr_numVouts := length (concat (map sx_VoutDbIds xs)), sr_txDbIDs := txDbIDs\<rparr>
      in case (if tree = 1 then store_stake env isMainchain upsert blk (if isMainchain then validators else []) (zip dbTxs dbVouts) txDbIDs s1
               else Some (s1, None)) of
           None \<Rightarrow> None
         | Some (s2, Some e) \<Rightarrow> Some (s2, res\<lparr>sr_err := Some e\<rparr>)
         | Some (s2, None) \<Rightarrow>
             let db3 = insertAddressRowsDbTx (dupChecks env) upsert rows (ts_db s2)
             in case spend_txs env isMainchain upsert updateFunding (zip xs (zip vins txDbIDs)) db3 (ts_utxo s2) of
                  (u, Inl e) \<Rightarrow> Some (s2\<lparr>ts_utxo := u\<rparr>, res\<lparr>sr_err := Some e\<rparr>)
                | (u, Inr (db4, addrs, diff)) \<Rightarrow>
                    if tree \<noteq> 1 \<and> mb_Transactions blk = [] then None
                    else Some (s2\<lparr>ts_db := db4, ts_utxo := u\<rparr>,
                      res\<lparr>sr_numAddresses := length (concat rowss) + length addrs, sr_addresses := set (map a_address rows) \<union> set addrs,
                          sr_mixSetDelta := wrap64 (mixDiff + diff)\<rparr>))"

section \<open>The block\<close>

record chain_store =
  cs_chain :: ChainDB
  cs_utxo :: utxoStore
  cs_tickets :: "hash \<rightharpoonup> nat"
  cs_mixSetDiffs :: "int \<rightharpoonup> int"

definition coinbase_miners :: "extract_env \<Rightarrow> wire_tx \<Rightarrow> string list" where
  "coinbase_miners env tx =
     concat (map (\<lambda>u. if NewScriptClass (fst (ScriptAddrs env u)) \<in> {SCPubKeyHash, SCScriptHash, SCPubKey, SCPubkeyHashAlt, SCPubkeyAlt}
       then snd (ScriptAddrs env u) else []) (wt_Outs tx))"

definition store_miners :: "extract_env \<Rightarrow> bool \<Rightarrow> msg_block \<Rightarrow> pg_tables \<Rightarrow> pg_tables" where
  "store_miners env isMainchain blk db =
     (if isMainchain \<and> mb_Transactions blk \<noteq> []
      then fold (\<lambda>addr. upsertMiner addr (mb_Height blk)) (coinbase_miners env (hd (mb_Transactions blk))) db else db)"

text \<open>The height is unique in the table of statistics.\<close>

definition insertBlockStats :: "nat \<Rightarrow> int \<Rightarrow> pg_tables \<Rightarrow> pg_tables" where
  "insertBlockStats blockDbID height db =
     db\<lparr>stats := (if \<exists>x \<in> set (stats db). x_height x = height
          then update_rows (\<lambda>x. x_height x = height) (\<lambda>x. x\<lparr>x_block := blockDbID\<rparr>) (stats db)
          else stats db @ [\<lparr>x_block = blockDbID, x_height = height\<rparr>])\<rparr>"

text \<open>The block row and what follows it. The result has the addresses whose cached data are stale. That the parent of a side chain block is not
  found is no failure, but in a batch sync, where no address data are expired, that error is still the result.\<close>

definition store_block_row :: "extract_env \<Rightarrow> bool \<Rightarrow> bool \<Rightarrow> msg_block \<Rightarrow> nat list \<Rightarrow> nat list \<Rightarrow> bool \<Rightarrow> bool \<Rightarrow> ChainDB \<Rightarrow> ChainDB \<times> string set \<times> store_error option" where
  "store_block_row env batch checked blk txDbIDs stxDbIDs isValid isMainchain c =
     (let (db, blockDbID) = insertBlock \<lparr>br_Hash = mb_Hash blk, br_Height = mb_Height blk, br_PreviousHash = mb_PrevBlock blk, br_TxDbIDs = txDbIDs,
              br_STxDbIDs = stxDbIDs\<rparr> isValid isMainchain checked (tabs c);
          c = c\<lparr>lastBlock := (lastBlock c)(mb_Hash blk \<mapsto> blockDbID), tabs := insertBlockPrevNext blockDbID (mb_Hash blk) (mb_PrevBlock blk)
                (store_miners env isMainchain blk db)\<rparr>
      in case updateLastBlock (mb_Hash blk) (mb_PrevBlock blk) (mb_VoteBits blk) isMainchain c of
           (c, addrs, err) \<Rightarrow>
             if err \<noteq> None \<and> err \<noteq> Some ErrNoRows then (c, addrs, map_option LastBlockFailed err)
             else if isMainchain
             then (c\<lparr>bestHeight := mb_Height blk, bestHash := mb_Hash blk,
                     tabs := setDBBestBlock (mb_Hash blk) (mb_Height blk) (insertBlockStats blockDbID (mb_Height blk) (tabs c))\<rparr>, addrs, None)
             else (c, addrs, if batch then map_option LastBlockFailed err else None))"

text \<open>\<open>pool\<close> is \<open>PoolInfo\<close> of the stake database: the height and the winners of a block.\<close>

definition StoreBlock :: "store_env \<Rightarrow> (hash \<rightharpoonup> int \<times> hash list) \<Rightarrow> msg_block \<Rightarrow> bool \<Rightarrow> bool \<Rightarrow> bool \<Rightarrow> bool \<Rightarrow> chain_store
    \<Rightarrow> (chain_store \<times> string set \<times> (store_error + nat \<times> nat \<times> nat)) option" where
  "StoreBlock env pool blk isValid isMainchain upsert updateFunding c0 =
     (if isMainchain \<and> pool (mb_Hash blk) = None then Some (c0, {}, Inl (NoPoolInfo (mb_Hash blk)))
      else if isMainchain \<and> fst (the (pool (mb_Hash blk))) \<noteq> mb_Height blk then Some (c0, {}, Inl PoolHeightMismatch)
      else if isMainchain \<and> mb_PrevBlock blk \<noteq> zeroHash \<and> pool (mb_PrevBlock blk) = None then Some (c0, {}, Inl (NoPoolInfo (mb_PrevBlock blk)))
      else
        let validators = (if isMainchain \<and> mb_PrevBlock blk \<noteq> zeroHash then snd (the (pool (mb_PrevBlock blk))) else []);
            s0 = \<lparr>ts_db = tabs (cs_chain c0), ts_utxo = cs_utxo c0, ts_tickets = cs_tickets c0\<rparr>;
            wrap = (\<lambda>s. c0\<lparr>cs_chain := (cs_chain c0)\<lparr>tabs := ts_db s\<rparr>, cs_utxo := ts_utxo s, cs_tickets := ts_tickets s\<rparr>)
        in case storeBlockTxnTree env blk validators 0 isValid isMainchain upsert updateFunding s0 of
             None \<Rightarrow> None
           | Some (s1, reg) \<Rightarrow>
               (case storeBlockTxnTree env blk validators 1 isValid isMainchain upsert updateFunding s1 of
                  None \<Rightarrow> None
                | Some (s2, stk) \<Rightarrow>
                    (case (sr_err stk, sr_err reg) of
                       (Some e, _) \<Rightarrow> Some (wrap s2, {}, Inl e)
                     | (None, Some e) \<Rightarrow> Some (wrap s2, {}, Inl e)
                     | (None, None) \<Rightarrow>
                         let c1 = (wrap s2)\<lparr>cs_mixSetDiffs := (if isMainchain
                                then (cs_mixSetDiffs c0)(mb_Height blk \<mapsto> wrap64 (sr_mixSetDelta reg + sr_mixSetDelta stk)) else cs_mixSetDiffs c0)\<rparr>
                         in case store_block_row (se_extract env) (InBatchSync env) (dupChecks env) blk (sr_txDbIDs reg) (sr_txDbIDs stk) isValid isMainchain (cs_chain c1) of
                              (c, addrs, Some e) \<Rightarrow> Some (c1\<lparr>cs_chain := c\<rparr>, addrs, Inl e)
                            | (c, addrs, None) \<Rightarrow>
                                Some (c1\<lparr>cs_chain := c\<rparr>, addrs \<union> sr_addresses reg \<union> sr_addresses stk,
                                  Inr (sr_numVins stk + sr_numVins reg, sr_numVouts stk + sr_numVouts reg, sr_numAddresses stk + sr_numAddresses reg)))))"

text \<open>The votes of a block are dropped when the ticket of one of them is not found.\<close>

lemma missing_ticket_drops_votes:
  assumes "insertVotes env upsert blk validators txs s = Some (Inl (TicketNotFound h))"
  shows "ignore_missing s (insertVotes env upsert blk validators txs s) = Some (Inr (s, []))"
  using assms by (simp add: ignore_missing_def)

end
