(* ===== verification/PgStoreRefs.thy ===== *)
theory PgStoreRefs
  imports PgStore
begin

text \<open>
  What storing a block does to the references between the tables. Rows are inserted in an order in which a reference exists before its target:
  inputs and outputs before their transaction, transactions before their block. While the block is stored its row is missing; the
  invariant is that the references are right in the tables to which the row is added (\<open>with_block\<close>).
\<close>

section \<open>Statements that keep the references\<close>

lemma insert_row_images:
  assumes "insert_row checked upsert conflict upd rid new t = (t', i)" and "\<And>s. g (upd s) = g s"
  shows "g ` set t' \<subseteq> insert (g new) (g ` set t)" and "t' = t @ [new] \<and> i = rid new \<or> g ` set t' = g ` set t"
proof -
  have upd: "g ` set (update_rows conflict upd t) = g ` set t"
    using arg_cong [where f = set, OF update_rows_field [of g upd conflict t, OF assms(2)]] by simp
  show "t' = t @ [new] \<and> i = rid new \<or> g ` set t' = g ` set t"
    using assms(1) upd by (simp add: insert_row_def split: option.splits if_splits)
  then show "g ` set t' \<subseteq> insert (g new) (g ` set t)" by auto
qed

lemma subset_step: "A \<subseteq> B \<union> C \<Longrightarrow> C \<subseteq> insert x D \<Longrightarrow> A \<subseteq> insert x B \<union> D"
  by blast

lemma insertVin_rows:
  assumes "insertVin checked upsert vin db = (db', i)"
  obtains vs sq where "db' = db\<lparr>vins := vs, serial := sq\<rparr>" "v_id ` set vs \<subseteq> insert i (v_id ` set (vins db))"
proof -
  obtain t where t: "insert_row checked upsert
            (\<lambda>v. v_tx v = vp_TxID vin \<and> v_index v = vp_TxIndex vin \<and> v_tree v = vp_TxTree vin)
            (\<lambda>v. v\<lparr>v_valid := vp_IsValid vin, v_main := vp_IsMainchain vin, v_time := vp_Time vin,
                   v_prevTx := vp_PrevTxHash vin, v_prevIndex := vp_PrevTxIndex vin, v_prevTree := vp_PrevTxTree vin\<rparr>)
            v_id
            \<lparr>v_id = serial db SeqVins, v_tx = vp_TxID vin, v_index = vp_TxIndex vin, v_tree = vp_TxTree vin, v_valid = vp_IsValid vin,
             v_main = vp_IsMainchain vin, v_time = vp_Time vin, v_prevTx = vp_PrevTxHash vin, v_prevIndex = vp_PrevTxIndex vin,
             v_prevTree = vp_PrevTxTree vin, v_value = vp_ValueIn vin\<rparr> (vins db) = (t, i)" "db' = (advance_seq SeqVins db)\<lparr>vins := t\<rparr>"
    using assms by (auto simp: insertVin_def Let_def split: prod.splits)
  have "v_id ` set t \<subseteq> insert i (v_id ` set (vins db))" using insert_row_images(2) [OF t(1), of v_id] by auto
  then show ?thesis using t(2) by (intro that [of "(serial db)(SeqVins := Suc (serial db SeqVins))" t]) (simp_all add: advance_seq_def)
qed

lemma insertVinsStmt_rows:
  assumes "insertVinsStmt checked upsert vs db = (db', ids)"
  obtains ws sq where "db' = db\<lparr>vins := ws, serial := sq\<rparr>" "v_id ` set ws \<subseteq> set ids \<union> v_id ` set (vins db)" "length ids = length vs"
  using assms
proof (induction vs arbitrary: db db' ids thesis)
  case Nil
  then show ?case by (intro Nil.prems(1) [of "serial db" "vins db"]) simp_all
next
  case (Cons v vs)
  obtain db1 i ids1 where 1: "insertVin checked upsert v db = (db1, i)" "insertVinsStmt checked upsert vs db1 = (db', ids1)" "ids = i # ids1"
    using Cons.prems(2) by (auto split: prod.splits)
  obtain us sq where 2: "db1 = db\<lparr>vins := us, serial := sq\<rparr>" "v_id ` set us \<subseteq> insert i (v_id ` set (vins db))"
    by (rule insertVin_rows [OF 1(1)])
  obtain ws sq' where 3: "db' = db1\<lparr>vins := ws, serial := sq'\<rparr>" "v_id ` set ws \<subseteq> set ids1 \<union> v_id ` set (vins db1)" "length ids1 = length vs"
    by (rule Cons.IH [OF _ 1(2)])
  have "v_id ` set ws \<subseteq> insert i (set ids1) \<union> v_id ` set (vins db)" using 2 3(2) by (intro subset_step [of _ _ "v_id ` set us"]) simp_all
  then show ?case by (intro Cons.prems(1) [of sq' ws]) (simp_all add: 1(3) 2(1) 3(1,3))
qed

abbreviation spends :: "pg_vout \<Rightarrow> nat \<times> nat option" where
  "spends u \<equiv> (o_id u, o_spend u)"

lemma insertVout_rows:
  assumes "insertVout env checked upsert vout db = (db', i)"
  obtains us sq where "db' = db\<lparr>vouts := us, serial := sq\<rparr>" "spends ` set us \<subseteq> insert (i, None) (spends ` set (vouts db))"
proof -
  obtain t where t: "insert_row checked upsert
            (\<lambda>u. o_tx u = vo_TxHash vout \<and> o_index u = vo_TxIndex vout \<and> o_tree u = vo_TxTree vout) (\<lambda>u. u) o_id
            \<lparr>o_id = serial db SeqVouts, o_tx = vo_TxHash vout, o_index = vo_TxIndex vout, o_tree = vo_TxTree vout, o_value = int (vo_Value vout),
             o_coin = vo_CoinType vout, o_type = ScriptClass_String (vo_Class vout), o_addresses = addressList_Value env (vo_Addresses vout),
             o_mixed = vo_Mixed vout, o_spend = None\<rparr> (vouts db) = (t, i)" "db' = (advance_seq SeqVouts db)\<lparr>vouts := t\<rparr>"
    using assms by (auto simp: insertVout_def Let_def split: prod.splits)
  have "spends ` set t \<subseteq> insert (i, None) (spends ` set (vouts db))" using insert_row_images(2) [OF t(1), of spends] by auto
  then show ?thesis using t(2) by (intro that [of "(serial db)(SeqVouts := Suc (serial db SeqVouts))" t]) (simp_all add: advance_seq_def)
qed

lemma insertVoutsStmt_rows:
  assumes "insertVoutsStmt env checked upsert vs db = (db', ids, rows)"
  obtains us sq where "db' = db\<lparr>vouts := us, serial := sq\<rparr>" "spends ` set us \<subseteq> (\<lambda>i. (i, None)) ` set ids \<union> spends ` set (vouts db)"
    "length ids = length vs" "a_row ` set rows \<subseteq> set ids"
  using assms
proof (induction vs arbitrary: db db' ids rows thesis)
  case Nil
  then show ?case by (intro Nil.prems(1) [of "serial db" "vouts db"]) simp_all
next
  case (Cons v vs)
  obtain db1 i ids1 rows1 where 1: "insertVout env checked upsert v db = (db1, i)" "insertVoutsStmt env checked upsert vs db1 = (db', ids1, rows1)"
    "ids = i # ids1" "rows = vout_address_rows env v i @ rows1"
    using Cons.prems(2) by (auto split: prod.splits)
  obtain us sq where 2: "db1 = db\<lparr>vouts := us, serial := sq\<rparr>" "spends ` set us \<subseteq> insert (i, None) (spends ` set (vouts db))"
    by (rule insertVout_rows [OF 1(1)])
  obtain ws sq' where 3: "db' = db1\<lparr>vouts := ws, serial := sq'\<rparr>" "spends ` set ws \<subseteq> (\<lambda>i. (i, None)) ` set ids1 \<union> spends ` set (vouts db1)"
    "length ids1 = length vs" "a_row ` set rows1 \<subseteq> set ids1"
    by (rule Cons.IH [OF _ 1(2)])
  have "a_row ` set (vout_address_rows env v i) \<subseteq> {i}" by (auto simp: vout_address_rows_def)
  then have "a_row ` set rows \<subseteq> set ids" using 3(4) unfolding 1(3,4) set_append image_Un by auto
  moreover have "spends ` set ws \<subseteq> insert (i, None) ((\<lambda>i. (i, None)) ` set ids1) \<union> spends ` set (vouts db)"
    using 2 3(2) by (intro subset_step [of _ _ "spends ` set us"]) simp_all
  ultimately show ?case by (intro Cons.prems(1) [of sq' ws]) (simp_all add: 1(3) 2(1) 3(1,3))
qed

section \<open>Transactions\<close>

definition vin_ids :: "stored_tx list \<Rightarrow> nat set" where
  "vin_ids xs = (\<Union>x \<in> set xs. set (sx_VinDbIds x))"

definition vout_ids :: "stored_tx list \<Rightarrow> nat set" where
  "vout_ids xs = (\<Union>x \<in> set xs. set (sx_VoutDbIds x))"

lemma store_in_outs_rows:
  assumes "store_in_outs env checked upsert txs db = (db', xs, rowss)"
  obtains us vs sq where "db' = db\<lparr>vouts := us, vins := vs, serial := sq\<rparr>"
    "v_id ` set vs \<subseteq> vin_ids xs \<union> v_id ` set (vins db)"
    "spends ` set us \<subseteq> (\<lambda>i. (i, None)) ` vout_ids xs \<union> spends ` set (vouts db)"
    "map sx_Tx xs = map fst txs" "a_row ` set (concat rowss) \<subseteq> vout_ids xs" "length rowss = length txs"
    "list_all2 (\<lambda>x (tx, vos, vis). length (sx_VinDbIds x) = length vis \<and> length (sx_VoutDbIds x) = length vos) xs txs"
  using assms
proof (induction txs arbitrary: db db' xs rowss thesis)
  case Nil
  then show ?case by (intro Nil.prems(1) [of "serial db" "vins db" "vouts db"]) (simp_all add: vin_ids_def vout_ids_def)
next
  case (Cons tx txs)
  obtain t vos vis where tx: "tx = (t, vos, vis)" by (cases tx)
  obtain db1 db2 outs rows ins xs' rowss' where 1: "insertVoutsStmt env checked upsert vos db = (db1, outs, rows)"
    "insertVinsStmt checked upsert vis db1 = (db2, ins)" "store_in_outs env checked upsert txs db2 = (db', xs', rowss')"
    "xs = \<lparr>sx_Tx = t, sx_VinDbIds = ins, sx_VoutDbIds = outs\<rparr> # xs'" "rowss = rows # rowss'"
    using Cons.prems(2) by (auto simp: tx split: prod.splits)
  obtain us sq where 2: "db1 = db\<lparr>vouts := us, serial := sq\<rparr>" "spends ` set us \<subseteq> (\<lambda>i. (i, None)) ` set outs \<union> spends ` set (vouts db)"
    "length outs = length vos" "a_row ` set rows \<subseteq> set outs"
    by (rule insertVoutsStmt_rows [OF 1(1)])
  obtain ws sq' where 3: "db2 = db1\<lparr>vins := ws, serial := sq'\<rparr>" "v_id ` set ws \<subseteq> set ins \<union> v_id ` set (vins db1)" "length ins = length vis"
    by (rule insertVinsStmt_rows [OF 1(2)])
  obtain us' vs' sq'' where 4: "db' = db2\<lparr>vouts := us', vins := vs', serial := sq''\<rparr>" "v_id ` set vs' \<subseteq> vin_ids xs' \<union> v_id ` set (vins db2)"
    "spends ` set us' \<subseteq> (\<lambda>i. (i, None)) ` vout_ids xs' \<union> spends ` set (vouts db2)" "map sx_Tx xs' = map fst txs"
    "a_row ` set (concat rowss') \<subseteq> vout_ids xs'" "length rowss' = length txs"
    "list_all2 (\<lambda>x (tx, vos, vis). length (sx_VinDbIds x) = length vis \<and> length (sx_VoutDbIds x) = length vos) xs' txs"
    by (rule Cons.IH [OF _ 1(3)])
  have ids: "vin_ids xs = set ins \<union> vin_ids xs'" "vout_ids xs = set outs \<union> vout_ids xs'" by (simp_all add: 1(4) vin_ids_def vout_ids_def)
  have vs: "v_id ` set vs' \<subseteq> vin_ids xs \<union> v_id ` set (vins db)"
  proof -
    have "v_id ` set ws \<subseteq> set ins \<union> v_id ` set (vins db)" using 3(2) by (simp add: 2(1))
    moreover have "v_id ` set vs' \<subseteq> vin_ids xs' \<union> v_id ` set ws" using 4(2) by (simp add: 3(1))
    ultimately show ?thesis unfolding ids by blast
  qed
  have us: "spends ` set us' \<subseteq> (\<lambda>i. (i, None)) ` vout_ids xs \<union> spends ` set (vouts db)"
  proof -
    have "spends ` set us' \<subseteq> (\<lambda>i. (i, None)) ` vout_ids xs' \<union> spends ` set us" using 4(3) by (simp add: 3(1) 2(1))
    then show ?thesis using 2(2) unfolding ids image_Un by blast
  qed
  have rows: "a_row ` set (concat rowss) \<subseteq> vout_ids xs" using 2(4) 4(5) unfolding 1(5) ids concat.simps set_append image_Un by blast
  show ?case
    by (rule Cons.prems(1) [OF _ vs us _ rows, of sq'']) (use 4(4,6,7) in \<open>simp_all add: 4(1) 3(1) 2(1) 1(4,5) tx 2(3) 3(3)\<close>)
qed

text \<open>Transactions with hashes of their own are appended.\<close>

lemma insertTx_rows:
  assumes "insertTx env checked upsert x db = (db', i)"
    and "\<forall>t \<in> set (transactions db). \<not> (t_hash t = dt_TxID (sx_Tx x) \<and> t_block t = dt_BlockHash (sx_Tx x))"
  obtains t sq where "db' = db\<lparr>transactions := transactions db @ [t], serial := sq\<rparr>" "t_id t = i" "t_block t = dt_BlockHash (sx_Tx x)"
    "t_hash t = dt_TxID (sx_Tx x)" "t_vins t = sx_VinDbIds x" "t_vouts t = sx_VoutDbIds x" "t_tree t = dt_Tree (sx_Tx x)"
    "t_valid t = dt_IsValid (sx_Tx x)" "t_main t = dt_IsMainchainBlock (sx_Tx x)"
proof -
  have "query_row (\<lambda>t. t_hash t = dt_TxID (sx_Tx x) \<and> t_block t = dt_BlockHash (sx_Tx x)) (transactions db) = None"
    using assms(2) by (simp add: query_row_None)
  then have none: "(if checked then query_row (\<lambda>t. t_hash t = dt_TxID (sx_Tx x) \<and> t_block t = dt_BlockHash (sx_Tx x)) (transactions db) else None) = None"
    by simp
  define t where "t = \<lparr>t_id = serial db SeqTransactions, t_block = dt_BlockHash (sx_Tx x), t_height = dt_BlockHeight (sx_Tx x),
    t_time = dt_BlockTime (sx_Tx x), t_type = TxTypeNum env (dt_TxType (sx_Tx x)), t_tree = dt_Tree (sx_Tx x), t_hash = dt_TxID (sx_Tx x),
    t_index = dt_BlockIndex (sx_Tx x), t_vins = sx_VinDbIds x, t_vouts = sx_VoutDbIds x, t_valid = dt_IsValid (sx_Tx x),
    t_main = dt_IsMainchainBlock (sx_Tx x)\<rparr>"
  have d: "db' = db\<lparr>transactions := transactions db @ [t], serial := (serial db)(SeqTransactions := Suc (serial db SeqTransactions))\<rparr>" "i = t_id t"
    using assms(1) by (auto simp: insertTx_def insert_row_def none Let_def advance_seq_def t_def)
  show ?thesis by (rule that [OF d(1)]) (simp_all add: d(2), simp_all add: t_def)
qed

definition tx_for :: "stored_tx \<Rightarrow> pg_tx \<Rightarrow> bool" where
  "tx_for x t \<longleftrightarrow> t_block t = dt_BlockHash (sx_Tx x) \<and> t_hash t = dt_TxID (sx_Tx x) \<and> t_vins t = sx_VinDbIds x \<and> t_vouts t = sx_VoutDbIds x
     \<and> t_tree t = dt_Tree (sx_Tx x) \<and> t_valid t = dt_IsValid (sx_Tx x) \<and> t_main t = dt_IsMainchainBlock (sx_Tx x)"

lemma insertTxnsStmt_rows:
  assumes "insertTxnsStmt env checked upsert xs db = (db', ids)"
    and "\<forall>t \<in> set (transactions db). \<forall>x \<in> set xs. \<not> (t_hash t = dt_TxID (sx_Tx x) \<and> t_block t = dt_BlockHash (sx_Tx x))"
    and "distinct (map (dt_TxID \<circ> sx_Tx) xs)"
  obtains ts sq where "db' = db\<lparr>transactions := transactions db @ ts, serial := sq\<rparr>" "map t_id ts = ids" "list_all2 tx_for xs ts"
  using assms
proof (induction xs arbitrary: db db' ids thesis)
  case Nil
  show ?case by (rule Nil.prems(1) [of "serial db" "[]"]) (use Nil.prems(2) in simp_all)
next
  case (Cons x xs)
  obtain db1 i ids1 where 1: "insertTx env checked upsert x db = (db1, i)" "insertTxnsStmt env checked upsert xs db1 = (db', ids1)" "ids = i # ids1"
    using Cons.prems(2) by (auto split: prod.splits)
  have new: "\<forall>t \<in> set (transactions db). \<not> (t_hash t = dt_TxID (sx_Tx x) \<and> t_block t = dt_BlockHash (sx_Tx x))"
    using Cons.prems(3) by simp
  obtain t sq where 2: "db1 = db\<lparr>transactions := transactions db @ [t], serial := sq\<rparr>" "t_id t = i" "t_hash t = dt_TxID (sx_Tx x)" "tx_for x t"
    by (rule insertTx_rows [OF 1(1) new]) (simp add: tx_for_def)
  have fresh: "\<forall>s \<in> set (transactions db1). \<forall>y \<in> set xs. \<not> (t_hash s = dt_TxID (sx_Tx y) \<and> t_block s = dt_BlockHash (sx_Tx y))"
  proof (intro ballI)
    fix s y assume s: "s \<in> set (transactions db1)" and y: "y \<in> set xs"
    have "dt_TxID (sx_Tx y) \<noteq> dt_TxID (sx_Tx x)" using Cons.prems(4) image_eqI [OF _ y, of "dt_TxID (sx_Tx x)" "\<lambda>a. dt_TxID (sx_Tx a)"] by (auto simp: comp_def)
    moreover have "s \<in> set (transactions db) \<or> s = t" using s by (simp add: 2(1)) blast
    ultimately show "\<not> (t_hash s = dt_TxID (sx_Tx y) \<and> t_block s = dt_BlockHash (sx_Tx y))" using Cons.prems(3) y 2(3) by auto
  qed
  have "distinct (map (dt_TxID \<circ> sx_Tx) xs)" using Cons.prems(4) by (simp add: comp_def)
  then obtain ts sq' where 3: "db' = db1\<lparr>transactions := transactions db1 @ ts, serial := sq'\<rparr>" "map t_id ts = ids1" "list_all2 tx_for xs ts"
    using Cons.IH [OF _ 1(2) fresh] by blast
  show ?case by (rule Cons.prems(1) [of sq' "t # ts"]) (simp_all add: 3 2 1(3))
qed

section \<open>The tables with the row of the block\<close>

definition with_block :: "pg_block \<Rightarrow> pg_tables \<Rightarrow> pg_tables" where
  "with_block B db = db\<lparr>blocks := blocks db @ [B]\<rparr>"

lemma with_block_rows [simp]:
  "blocks (with_block B db) = blocks db @ [B]" "transactions (with_block B db) = transactions db" "vins (with_block B db) = vins db"
  "vouts (with_block B db) = vouts db" "addresses (with_block B db) = addresses db" "tickets (with_block B db) = tickets db"
  "votes (with_block B db) = votes db" "misses (with_block B db) = misses db" "stats (with_block B db) = stats db"
  by (simp_all add: with_block_def)

lemma row_refs_with_block: "row_refs (with_block B db) = row_refs db"
  by (simp only: row_refs_def with_block_rows)

definition add_ids :: "int \<Rightarrow> nat list \<Rightarrow> pg_block \<Rightarrow> pg_block" where
  "add_ids tree ids B = (if tree = 1 then B\<lparr>b_stxDbIDs := b_stxDbIDs B @ ids\<rparr> else B\<lparr>b_txDbIDs := b_txDbIDs B @ ids\<rparr>)"

lemma add_ids_fields [simp]:
  "b_hash (add_ids tree ids B) = b_hash B" "b_id (add_ids tree ids B) = b_id B"
  "set (b_txDbIDs (add_ids tree ids B) @ b_stxDbIDs (add_ids tree ids B)) = set (b_txDbIDs B @ b_stxDbIDs B) \<union> set ids"
  "set (b_stxDbIDs B) \<subseteq> set (b_stxDbIDs (add_ids tree ids B))"
  by (auto simp: add_ids_def)

text \<open>New transactions of the block, with the inputs and outputs that were stored before them.\<close>

lemma tx_refs_more:
  assumes "tx_refs (with_block B db)" and "transactions db' = transactions db @ ts" and "blocks db' = blocks db" and "\<forall>t \<in> set ts. t_block t = b_hash B"
  shows "tx_refs (with_block (add_ids tree (map t_id ts) B) db')"
proof -
  let ?B = "add_ids tree (map t_id ts) B"
  have ids: "set (b_txDbIDs ?B @ b_stxDbIDs ?B) = set (b_txDbIDs B @ b_stxDbIDs B) \<union> t_id ` set ts" unfolding add_ids_fields(3) by simp
  have "\<exists>b \<in> set (blocks db @ [?B]). b_hash b = t_block t \<and> t_id t \<in> set (b_txDbIDs b @ b_stxDbIDs b)" if "t \<in> set (transactions db @ ts)" for t
  proof (cases "t \<in> set ts")
    case True
    then show ?thesis using assms(4) ids by (intro bexI [of _ ?B]) auto
  next
    case False
    then have "t \<in> set (transactions db)" using that by simp
    then have "\<exists>b \<in> set (blocks db @ [B]). b_hash b = t_block t \<and> t_id t \<in> set (b_txDbIDs b @ b_stxDbIDs b)"
      using assms(1) unfolding tx_refs_def with_block_rows by (elim conjE) (rule bspec)
    then obtain b where b: "b \<in> set (blocks db @ [B])" "b_hash b = t_block t" "t_id t \<in> set (b_txDbIDs b @ b_stxDbIDs b)"
      by blast
    then show ?thesis
    proof (cases "b \<in> set (blocks db)")
      case True
      then show ?thesis using b by (intro bexI [of _ b]) simp_all
    next
      case False
      then have "b = B" using b(1) by simp
      then show ?thesis using b ids by (intro bexI [of _ ?B]) auto
    qed
  qed
  moreover have "\<exists>t \<in> set (transactions db @ ts). t_id t = i \<and> t_block t = b_hash b"
    if "b \<in> set (blocks db @ [?B])" and i: "i \<in> set (b_txDbIDs b @ b_stxDbIDs b)" for b i
  proof -
    have old: "\<exists>t \<in> set (transactions db). t_id t = i \<and> t_block t = b_hash b'" if "b' \<in> set (blocks db @ [B])" "i \<in> set (b_txDbIDs b' @ b_stxDbIDs b')" for b'
      using assms(1) that unfolding tx_refs_def with_block_rows by blast
    show ?thesis
    proof (cases "b \<in> set (blocks db)")
      case True
      then show ?thesis using old [of b] i by auto
    next
      case False
      then have b: "b = ?B" using that(1) by simp
      then consider "i \<in> set (b_txDbIDs B @ b_stxDbIDs B)" | "i \<in> t_id ` set ts" using i ids by blast
      then show ?thesis
      proof cases
        case 1
        then show ?thesis using old [of B] b by auto
      next
        case 2
        then show ?thesis using assms(4) b by auto
      qed
    qed
  qed
  ultimately show ?thesis unfolding tx_refs_def with_block_rows assms(2,3) by blast
qed

lemma row_refs_more:
  assumes "row_refs db" and "transactions db' = transactions db @ ts" and "addresses db' = addresses db"
    and "v_id ` set (vins db') \<subseteq> (\<Union>t \<in> set ts. set (t_vins t)) \<union> v_id ` set (vins db)"
    and "spends ` set (vouts db') \<subseteq> (\<lambda>i. (i, None)) ` (\<Union>t \<in> set ts. set (t_vouts t)) \<union> spends ` set (vouts db)"
  shows "row_refs db'"
proof -
  have vin: "\<exists>t \<in> set (transactions db'). v_id v \<in> set (t_vins t)" if "v \<in> set (vins db')" for v
  proof -
    have "v_id v \<in> (\<Union>t \<in> set ts. set (t_vins t)) \<union> v_id ` set (vins db)" using assms(4) that by blast
    then show ?thesis using assms(1) unfolding assms(2) row_refs_def by fastforce
  qed
  have out: "(\<exists>t \<in> set (transactions db'). o_id u \<in> set (t_vouts t)) \<and> (\<forall>i. o_spend u = Some i \<longrightarrow> (\<exists>t \<in> set (transactions db'). t_id t = i))"
    if "u \<in> set (vouts db')" for u
  proof -
    have "spends u \<in> (\<lambda>i. (i, None)) ` (\<Union>t \<in> set ts. set (t_vouts t)) \<union> spends ` set (vouts db)" using assms(5) that by blast
    then consider t where "t \<in> set ts" "o_id u \<in> set (t_vouts t)" "o_spend u = None" | w where "w \<in> set (vouts db)" "o_id u = o_id w" "o_spend u = o_spend w"
      by auto
    then show ?thesis
    proof cases
      case 1
      then show ?thesis by (auto simp: assms(2))
    next
      case 2
      then have "\<exists>t \<in> set (transactions db). o_id w \<in> set (t_vouts t)" "\<forall>i. o_spend w = Some i \<longrightarrow> (\<exists>t \<in> set (transactions db). t_id t = i)"
        using assms(1) unfolding row_refs_def by blast+
      then show ?thesis unfolding assms(2) 2(2,3) set_append by blast
    qed
  qed
  have "\<exists>t \<in> set (transactions db'). a_row a \<in> set (if a_funding a then t_vouts t else t_vins t)" if "a \<in> set (addresses db')" for a
    using assms(1) that unfolding assms(2,3) row_refs_def set_append by blast
  then show ?thesis unfolding row_refs_def using vin out by blast
qed

lemma bex_last: "\<exists>b \<in> set (bs @ [B]). P b \<Longrightarrow> (P B \<Longrightarrow> P B') \<Longrightarrow> \<exists>b \<in> set (bs @ [B']). P b"
  by auto

lemma block_refs_more:
  assumes "block_refs (with_block B db)" and "blocks db' = blocks db" and "tickets db' = tickets db" and "votes db' = votes db" and "misses db' = misses db"
    and "stats db' = stats db" and "b_hash B' = b_hash B" and "b_id B' = b_id B" and "set (b_stxDbIDs B) \<subseteq> set (b_stxDbIDs B')"
  shows "block_refs (with_block B' db')"
proof -
  have "\<exists>b \<in> set (blocks db @ [B']). b_hash b = k_block k \<and> k_purchase k \<in> set (b_stxDbIDs b)" if "k \<in> set (tickets db)" for k
    by (rule bex_last [of _ B]) (use assms(1,7,9) that in \<open>auto simp: block_refs_def\<close>)
  moreover have "\<exists>b \<in> set (blocks db @ [B']). b_hash b = w_block w" if "w \<in> set (votes db)" for w
    by (rule bex_last [of _ B]) (use assms(1,7) that in \<open>auto simp: block_refs_def\<close>)
  moreover have "\<exists>b \<in> set (blocks db @ [B']). b_hash b = s_block m" if "m \<in> set (misses db)" for m
    by (rule bex_last [of _ B]) (use assms(1,7) that in \<open>auto simp: block_refs_def\<close>)
  moreover have "\<exists>b \<in> set (blocks db @ [B']). b_id b = x_block x" if "x \<in> set (stats db)" for x
    by (rule bex_last [of _ B]) (use assms(1,8) that in \<open>auto simp: block_refs_def\<close>)
  ultimately show ?thesis unfolding block_refs_def with_block_rows assms(2-6) by blast
qed

text \<open>What storing the transactions of a tree gives: the references hold with the block, and every identifier that is returned belongs to a row.\<close>

definition ids_stored :: "pg_block \<Rightarrow> stored_tx list \<Rightarrow> nat list \<Rightarrow> pg_address list list \<Rightarrow> pg_tables \<Rightarrow> bool" where
  "ids_stored B xs ids rowss db \<longleftrightarrow>
     (\<forall>i \<in> vin_ids xs. \<exists>t \<in> set (transactions db). i \<in> set (t_vins t))
     \<and> (\<forall>a \<in> set (concat rowss). \<exists>t \<in> set (transactions db). a_row a \<in> set (t_vouts t))
     \<and> (\<forall>i \<in> set ids. \<exists>t \<in> set (transactions db). t_id t = i)"

lemma list_all2_UN:
  "list_all2 tx_for xs ts \<Longrightarrow> vin_ids xs = (\<Union>t \<in> set ts. set (t_vins t))"
  "list_all2 tx_for xs ts \<Longrightarrow> vout_ids xs = (\<Union>t \<in> set ts. set (t_vouts t))"
  by (induction rule: list_all2_induct) (simp_all add: vin_ids_def vout_ids_def tx_for_def)

lemma list_all2_right: "list_all2 P xs ys \<Longrightarrow> y \<in> set ys \<Longrightarrow> \<exists>x \<in> set xs. P x y"
  by (induction rule: list_all2_induct) auto

lemma storeTxns_refs:
  assumes "storeTxns env checked upsert txns dbVouts dbVins db = (db', xs, ids, rowss)" and "refs_ok (with_block B db)"
    and "length dbVouts = length txns" and "length dbVins = length txns" and "\<forall>t \<in> set txns. dt_BlockHash t = b_hash B"
    and "distinct (map dt_TxID txns)" and "\<forall>t \<in> set (transactions db). t_block t = b_hash B \<longrightarrow> t_hash t \<notin> dt_TxID ` set txns"
  shows "refs_ok (with_block (add_ids tree ids B) db')" and "ids_stored B xs ids rowss db'" and "length ids = length txns" and "blocks db' = blocks db"
    and "\<forall>t \<in> set (transactions db'). t \<in> set (transactions db) \<or> t_hash t \<in> dt_TxID ` set txns"
proof -
  obtain db1 where 1: "store_in_outs env checked upsert (zip txns (zip dbVouts dbVins)) db = (db1, xs, rowss)" "insertTxnsStmt env checked upsert xs db1 = (db', ids)"
    using assms(1) by (auto simp: storeTxns_def split: prod.splits)
  obtain us vs sq where 2: "db1 = db\<lparr>vouts := us, vins := vs, serial := sq\<rparr>" "v_id ` set vs \<subseteq> vin_ids xs \<union> v_id ` set (vins db)"
    "spends ` set us \<subseteq> (\<lambda>i. (i, None)) ` vout_ids xs \<union> spends ` set (vouts db)"
    "map sx_Tx xs = map fst (zip txns (zip dbVouts dbVins))" "a_row ` set (concat rowss) \<subseteq> vout_ids xs"
    by (rule store_in_outs_rows [OF 1(1)])
  have txs: "map sx_Tx xs = txns" using 2(4) assms(3,4) by simp
  have tx_set: "sx_Tx ` set xs = set txns" using arg_cong [where f = set, OF txs] by simp
  have "distinct (map (dt_TxID \<circ> sx_Tx) xs)" using assms(6) by (simp add: txs [symmetric] comp_def)
  moreover have "\<forall>t \<in> set (transactions db1). \<forall>x \<in> set xs. \<not> (t_hash t = dt_TxID (sx_Tx x) \<and> t_block t = dt_BlockHash (sx_Tx x))"
    using assms(5,7) tx_set by (force simp: 2(1))
  ultimately obtain ts sq' where 3: "db' = db1\<lparr>transactions := transactions db1 @ ts, serial := sq'\<rparr>" "map t_id ts = ids" "list_all2 tx_for xs ts"
    using insertTxnsStmt_rows [OF 1(2)] by blast
  have db': "db' = db\<lparr>vouts := us, vins := vs, transactions := transactions db @ ts, serial := sq'\<rparr>" unfolding 3(1) 2(1) by simp
  have for_t: "t_block t = b_hash B \<and> t_hash t \<in> dt_TxID ` set txns" if t: "t \<in> set ts" for t
  proof -
    obtain x where "x \<in> set xs" "tx_for x t" using list_all2_right [OF 3(3) t] by blast
    then show ?thesis using assms(5) tx_set by (auto simp: tx_for_def)
  qed
  have ids: "vin_ids xs = (\<Union>t \<in> set ts. set (t_vins t))" "vout_ids xs = (\<Union>t \<in> set ts. set (t_vouts t))"
    using list_all2_UN [OF 3(3)] by simp_all
  have refs: "tx_refs (with_block B db)" "block_refs (with_block B db)" "row_refs (with_block B db)" using assms(2) by (simp_all only: refs_ok_def)
  then have "row_refs db" by (simp only: row_refs_with_block)
  then have "row_refs db'" by (rule row_refs_more) (use 2(2,3) in \<open>simp_all add: db' ids\<close>)
  then have "row_refs (with_block (add_ids tree ids B) db')" by (simp only: row_refs_with_block)
  moreover have "tx_refs (with_block (add_ids tree ids B) db')"
    unfolding 3(2) [symmetric] by (rule tx_refs_more [OF refs(1)]) (use for_t in \<open>simp_all add: db'\<close>)
  moreover have "block_refs (with_block (add_ids tree ids B) db')"
    by (rule block_refs_more [OF refs(2)]) (simp_all add: db')
  ultimately show "refs_ok (with_block (add_ids tree ids B) db')" by (simp only: refs_ok_def)
  show "ids_stored B xs ids rowss db'"
    unfolding ids_stored_def
  proof (intro conjI ballI)
    fix i assume "i \<in> vin_ids xs"
    then show "\<exists>t \<in> set (transactions db'). i \<in> set (t_vins t)" unfolding ids by (auto simp: db')
  next
    fix a assume "a \<in> set (concat rowss)"
    then have "a_row a \<in> vout_ids xs" using 2(5) by blast
    then show "\<exists>t \<in> set (transactions db'). a_row a \<in> set (t_vouts t)" unfolding ids by (auto simp: db')
  next
    fix i assume "i \<in> set ids"
    then show "\<exists>t \<in> set (transactions db'). t_id t = i" unfolding 3(2) [symmetric] by (auto simp: db')
  qed
  show "length ids = length txns" using 3 txs by (metis length_map list_all2_lengthD)
  show "blocks db' = blocks db" by (simp add: db')
  show "\<forall>t \<in> set (transactions db'). t \<in> set (transactions db) \<or> t_hash t \<in> dt_TxID ` set txns" using for_t by (auto simp: db')
qed

section \<open>Tickets, votes and misses\<close>

definition stake_step :: "pg_block \<Rightarrow> pg_tables \<Rightarrow> pg_tables \<Rightarrow> bool" where
  "stake_step B db db' \<longleftrightarrow>
     (\<exists>ks ws ms sq. db' = db\<lparr>tickets := ks, votes := ws, misses := ms, serial := sq\<rparr>
        \<and> (\<lambda>k. (k_block k, k_purchase k)) ` set ks \<subseteq> Pair (b_hash B) ` set (b_stxDbIDs B) \<union> (\<lambda>k. (k_block k, k_purchase k)) ` set (tickets db)
        \<and> w_block ` set ws \<subseteq> insert (b_hash B) (w_block ` set (votes db)) \<and> s_block ` set ms \<subseteq> insert (b_hash B) (s_block ` set (misses db)))"

lemma stake_step_refl [simp]: "stake_step B db db"
  unfolding stake_step_def
  by (rule exI [of _ "tickets db"], rule exI [of _ "votes db"], rule exI [of _ "misses db"], rule exI [of _ "serial db"]) auto

lemma stake_step_trans:
  assumes "stake_step B db1 db2" and "stake_step B db2 db3"
  shows "stake_step B db1 db3"
proof -
  obtain ks ws ms sq where 1: "db2 = db1\<lparr>tickets := ks, votes := ws, misses := ms, serial := sq\<rparr>"
    "(\<lambda>k. (k_block k, k_purchase k)) ` set ks \<subseteq> Pair (b_hash B) ` set (b_stxDbIDs B) \<union> (\<lambda>k. (k_block k, k_purchase k)) ` set (tickets db1)"
    "w_block ` set ws \<subseteq> insert (b_hash B) (w_block ` set (votes db1))" "s_block ` set ms \<subseteq> insert (b_hash B) (s_block ` set (misses db1))"
    using assms(1) unfolding stake_step_def by (elim exE conjE) (rule that)
  obtain ks' ws' ms' sq' where 2: "db3 = db2\<lparr>tickets := ks', votes := ws', misses := ms', serial := sq'\<rparr>"
    "(\<lambda>k. (k_block k, k_purchase k)) ` set ks' \<subseteq> Pair (b_hash B) ` set (b_stxDbIDs B) \<union> (\<lambda>k. (k_block k, k_purchase k)) ` set (tickets db2)"
    "w_block ` set ws' \<subseteq> insert (b_hash B) (w_block ` set (votes db2))" "s_block ` set ms' \<subseteq> insert (b_hash B) (s_block ` set (misses db2))"
    using assms(2) unfolding stake_step_def by (elim exE conjE) (rule that)
  have rows: "tickets db2 = ks" "votes db2 = ws" "misses db2 = ms" by (simp_all add: 1(1))
  have "(\<lambda>k. (k_block k, k_purchase k)) ` set ks' \<subseteq> Pair (b_hash B) ` set (b_stxDbIDs B) \<union> (\<lambda>k. (k_block k, k_purchase k)) ` set (tickets db1)"
    using 2(2) 1(2) unfolding rows by (meson Un_upper1 le_sup_iff order_trans)
  moreover have "w_block ` set ws' \<subseteq> insert (b_hash B) (w_block ` set (votes db1))" using 2(3) 1(3) unfolding rows by blast
  moreover have "s_block ` set ms' \<subseteq> insert (b_hash B) (s_block ` set (misses db1))" using 2(4) 1(4) unfolding rows by blast
  moreover have "db3 = db1\<lparr>tickets := ks', votes := ws', misses := ms', serial := sq'\<rparr>" by (simp add: 2(1) 1(1))
  ultimately show ?thesis unfolding stake_step_def by (intro exI conjI) auto
qed

lemma stake_step_tickets:
  assumes "(\<lambda>k. (k_block k, k_purchase k)) ` set ks \<subseteq> Pair (b_hash B) ` set (b_stxDbIDs B) \<union> (\<lambda>k. (k_block k, k_purchase k)) ` set (tickets db)"
  shows "stake_step B db (db\<lparr>tickets := ks, serial := sq\<rparr>)"
  unfolding stake_step_def
  by (rule exI [of _ ks], rule exI [of _ "votes db"], rule exI [of _ "misses db"], rule exI [of _ sq]) (use assms in auto)

text \<open>An update that keeps the block and the purchase of the tickets.\<close>

lemma stake_step_update:
  assumes "\<And>k. k_block (f k) = k_block k" and "\<And>k. k_purchase (f k) = k_purchase k"
  shows "stake_step B db (db\<lparr>tickets := update_rows p f (tickets db)\<rparr>)"
proof -
  have "map (\<lambda>k. (k_block k, k_purchase k)) (update_rows p f (tickets db)) = map (\<lambda>k. (k_block k, k_purchase k)) (tickets db)"
    by (rule update_rows_field) (simp add: assms)
  from arg_cong [where f = set, OF this] show ?thesis
    using stake_step_tickets [of "update_rows p f (tickets db)" B db "serial db"] by simp
qed

lemma insertTicket_step:
  assumes "insertTicket checked upsert tx i db = (db', j)" and "dt_BlockHash tx = b_hash B" and "i \<in> set (b_stxDbIDs B)"
  shows "stake_step B db db'"
proof -
  obtain t where t: "insert_row checked upsert (\<lambda>k. k_tx k = dt_TxID tx \<and> k_block k = dt_BlockHash tx) (\<lambda>k. k\<lparr>k_main := dt_IsMainchainBlock tx\<rparr>) k_id
            \<lparr>k_id = serial db SeqTickets, k_tx = dt_TxID tx, k_block = dt_BlockHash tx, k_height = dt_BlockHeight tx, k_purchase = i,
             k_spendType = 0, k_poolStatus = 0, k_main = dt_IsMainchainBlock tx, k_spendHeight = None, k_spendTx = None\<rparr> (tickets db) = (t, j)"
    "db' = (advance_seq SeqTickets db)\<lparr>tickets := t\<rparr>"
    using assms(1) by (auto simp: insertTicket_def Let_def split: prod.splits)
  have d: "db' = db\<lparr>tickets := t, serial := (serial db)(SeqTickets := Suc (serial db SeqTickets))\<rparr>" unfolding t(2) advance_seq_def by simp
  show ?thesis
    unfolding d by (rule stake_step_tickets) (use insert_row_images(1) [OF t(1), of "\<lambda>k. (k_block k, k_purchase k)"] assms(2,3) in auto)
qed

lemma insertTickets_step:
  "insertTickets checked upsert txs s = Some s' \<Longrightarrow> \<forall>(tx, vos, i) \<in> set txs. dt_BlockHash tx = b_hash B \<and> i \<in> set (b_stxDbIDs B)
     \<Longrightarrow> stake_step B (ts_db s) (ts_db s') \<and> ts_utxo s' = ts_utxo s"
proof (induction checked upsert txs s rule: insertTickets.induct)
  case (2 checked upsert tx vos i txs s)
  show ?case
  proof (cases "is_ticket tx \<and> vos \<noteq> []")
    case True
    obtain db j where t: "insertTicket checked upsert tx i (ts_db s) = (db, j)" by fastforce
    have "stake_step B (ts_db s) db" by (rule insertTicket_step [OF t]) (use "2.prems"(2) in auto)
    moreover have "stake_step B db (ts_db s') \<and> ts_utxo s' = ts_utxo s"
      using "2.IH"(2) [of "(db, j)" db j] True t "2.prems" by auto
    ultimately show ?thesis using stake_step_trans by blast
  next
    case False
    then show ?thesis using "2.IH"(1) "2.prems" by (auto split: if_splits)
  qed
qed auto

lemma insertVote_step:
  assumes "dt_BlockHash tx = b_hash B"
  shows "stake_step B db (insertVote checked upsert candidate ticket tx db)"
proof -
  obtain t j where t: "insert_row checked upsert (\<lambda>w. w_tx w = dt_TxID tx \<and> w_block w = dt_BlockHash tx) (\<lambda>w. w\<lparr>w_main := dt_IsMainchainBlock tx\<rparr>) w_id
            \<lparr>w_id = serial db SeqVotes, w_tx = dt_TxID tx, w_block = dt_BlockHash tx, w_candidate = candidate, w_ticket = ticket,
             w_main = dt_IsMainchainBlock tx\<rparr> (votes db) = (t, j)" by fastforce
  have "insertVote checked upsert candidate ticket tx db
      = db\<lparr>tickets := tickets db, votes := t, misses := misses db, serial := (serial db)(SeqVotes := Suc (serial db SeqVotes))\<rparr>"
    by (simp add: insertVote_def t advance_seq_def)
  moreover have "w_block ` set t \<subseteq> insert (b_hash B) (w_block ` set (votes db))" using insert_row_images(1) [OF t, of w_block] assms by simp
  ultimately show ?thesis unfolding stake_step_def by (intro exI conjI) auto
qed

lemma insertMiss_step: "mb_Hash blk = b_hash B \<Longrightarrow> stake_step B db (insertMiss checked upsert blk ticket db)"
proof -
  assume h: "mb_Hash blk = b_hash B"
  obtain t j where t: "insert_row checked upsert (\<lambda>s. s_ticket s = ticket \<and> s_block s = mb_Hash blk) (\<lambda>s. s) s_id
            \<lparr>s_id = serial db SeqMisses, s_height = mb_Height blk, s_block = mb_Hash blk, s_ticket = ticket\<rparr> (misses db) = (t, j)" by fastforce
  have "insertMiss checked upsert blk ticket db
      = db\<lparr>tickets := tickets db, votes := votes db, misses := t, serial := (serial db)(SeqMisses := Suc (serial db SeqMisses))\<rparr>"
    by (simp add: insertMiss_def t advance_seq_def)
  moreover have "s_block ` set t \<subseteq> insert (b_hash B) (s_block ` set (misses db))" using insert_row_images(1) [OF t, of s_block] h by simp
  ultimately show ?thesis unfolding stake_step_def by (intro exI conjI) auto
qed

lemma fold_step:
  "(\<And>x db. stake_step B db (f x db)) \<Longrightarrow> stake_step B db (fold f xs db)"
  by (induction xs arbitrary: db) (simp, metis fold_simps(2) stake_step_trans)

lemma TxnDbID_tables [simp]: "ts_db (fst (TxnDbID h e s)) = ts_db s" "ts_utxo (fst (TxnDbID h e s)) = ts_utxo s"
  by (simp_all add: TxnDbID_def split: option.split)

lemma vote_loop_step:
  "vote_loop env upsert candidate txs validators s = Some (Inr (s', ms)) \<Longrightarrow> \<forall>(tx, m) \<in> set txs. dt_BlockHash tx = b_hash B
     \<Longrightarrow> stake_step B (ts_db s) (ts_db s') \<and> ts_utxo s' = ts_utxo s"
proof (induction txs arbitrary: validators s)
  case (Cons x txs)
  obtain tx m where x: "x = (tx, m)" by (cases x)
  obtain s1 i where 1: "TxnDbID (PrevHash (wi_In (wt_Ins m ! 1))) False s = (s1, Some i)"
    "vote_loop env upsert candidate txs (swap_remove (PrevHash (wi_In (wt_Ins m ! 1))) validators)
       (s1\<lparr>ts_db := insertVote (dupChecks env) upsert candidate (PrevHash (wi_In (wt_Ins m ! 1))) tx (ts_db s1)\<rparr>) = Some (Inr (s', ms))"
    using Cons.prems(1) by (auto simp: x Let_def split: if_splits prod.splits option.splits)
  have s1: "ts_db s1 = ts_db s" "ts_utxo s1 = ts_utxo s" using TxnDbID_tables [of "PrevHash (wi_In (wt_Ins m ! 1))" False s] unfolding 1(1) by simp_all
  have "dt_BlockHash tx = b_hash B" using Cons.prems(2) by (simp add: x)
  then have "stake_step B (ts_db s) (insertVote (dupChecks env) upsert candidate (PrevHash (wi_In (wt_Ins m ! 1))) tx (ts_db s1))"
    unfolding s1 by (rule insertVote_step)
  moreover have "\<forall>(tx, m) \<in> set txs. dt_BlockHash tx = b_hash B" using Cons.prems(2) by simp
  ultimately show ?case using Cons.IH [OF 1(2)] s1(2) by (auto intro: stake_step_trans)
qed simp

lemma insertVotes_step:
  assumes "insertVotes env upsert blk validators txs s = Some (Inr (s', ms))" and "\<forall>(tx, m) \<in> set txs. dt_BlockHash tx = b_hash B"
    and "mb_Hash blk = b_hash B"
  shows "stake_step B (ts_db s) (ts_db s') \<and> ts_utxo s' = ts_utxo s"
proof -
  let ?votes = "filter (\<lambda>(tx, msgTx). dt_TxType tx = TxTypeSSGen) txs"
  have votes: "\<forall>(tx, m) \<in> set ?votes. dt_BlockHash tx = b_hash B" using assms(2) by auto
  have "s' = s \<or> (\<exists>s1. vote_loop env upsert (mb_PrevBlock blk) ?votes validators s = Some (Inr (s1, ms))
      \<and> s' = s1\<lparr>ts_db := fold (insertMiss (dupChecks env) upsert blk) ms (ts_db s1)\<rparr>)"
    using assms(1) by (auto simp: insertVotes_def Let_def split: if_splits option.splits sum.splits prod.splits)
  then show ?thesis
  proof (elim disjE exE conjE)
    fix s1 assume 1: "vote_loop env upsert (mb_PrevBlock blk) ?votes validators s = Some (Inr (s1, ms))"
      "s' = s1\<lparr>ts_db := fold (insertMiss (dupChecks env) upsert blk) ms (ts_db s1)\<rparr>"
    have "stake_step B (ts_db s1) (fold (insertMiss (dupChecks env) upsert blk) ms (ts_db s1))" by (rule fold_step) (rule insertMiss_step [OF assms(3)])
    then show ?thesis using vote_loop_step [OF 1(1) votes] stake_step_trans [of B "ts_db s" "ts_db s1"] by (simp add: 1(2))
  qed simp
qed

definition same_tables :: "tree_state \<Rightarrow> tree_state \<Rightarrow> bool" where
  "same_tables s s' \<longleftrightarrow> ts_db s' = ts_db s \<and> ts_utxo s' = ts_utxo s"

lemma spend_body:
  assumes "\<And>s. same_tables s (fst (g s))"
  shows "same_tables s (fst (case TxnDbID h m s of (s, None) \<Rightarrow> (s, Inl e) | (s, Some i) \<Rightarrow>
    (case g s of (s, Inl e) \<Rightarrow> (s, Inl e) | (s, Inr rest) \<Rightarrow> (s, Inr (f i rest)))))"
proof -
  obtain s1 r where r: "TxnDbID h m s = (s1, r)" by fastforce
  obtain s2 q where q: "g s1 = (s2, q)" by fastforce
  have "ts_db s1 = ts_db s" "ts_utxo s1 = ts_utxo s" using TxnDbID_tables [of h m s] unfolding r by simp_all
  moreover have "ts_db s2 = ts_db s1" "ts_utxo s2 = ts_utxo s1" using assms [of s1] unfolding q same_tables_def by simp_all
  ultimately show ?thesis by (simp add: same_tables_def r q split: option.split sum.split)
qed

lemma spend_loop_tables: "same_tables s (fst (spend_loop m txs s))"
proof (induction txs arbitrary: s)
  case Nil
  show ?case by (simp add: same_tables_def)
next
  case (Cons x txs)
  obtain tx i t where x: "x = (tx, i, t)" by (cases x)
  have refl: "same_tables s s" by (simp add: same_tables_def)
  show ?case
    unfolding x spend_loop.simps Let_def if_distrib [of fst] fst_conv
    using refl Cons.IH by (auto intro!: spend_body split: if_splits)
qed

lemma setSpending_step: "stake_step B db (setSpendingForTickets env height xs db)"
  unfolding setSpendingForTickets_def by (rule fold_step) (rule stake_step_update, simp_all)

lemma setPoolStatus_step: "stake_step B db (setPoolStatusForTickets xs db)"
  unfolding setPoolStatusForTickets_def by (rule fold_step) (simp add: stake_step_update split: prod.split)

text \<open>Every outcome of the stake part.\<close>

lemma store_stake_step:
  assumes "store_stake env m upsert blk validators txs ids s = Some (s', r)" and "\<forall>x \<in> set txs. dt_BlockHash (fst x) = b_hash B"
    and "mb_Hash blk = b_hash B" and "set ids \<subseteq> set (b_stxDbIDs B)"
  shows "stake_step B (ts_db s) (ts_db s') \<and> ts_utxo s' = ts_utxo s"
proof -
  obtain s1 where 1: "insertTickets (dupChecks env) upsert (map (\<lambda>((tx, vos), i). (tx, vos, i)) (zip txs ids)) s = Some s1"
    using assms(1) by (auto simp: store_stake_def split: option.splits)
  have "\<forall>(tx, vos, i) \<in> set (map (\<lambda>((tx, vos), i). (tx, vos, i)) (zip txs ids)). dt_BlockHash tx = b_hash B \<and> i \<in> set (b_stxDbIDs B)"
    using assms(2,4) by (fastforce dest: set_zip_leftD set_zip_rightD)
  note s1 = insertTickets_step [OF 1 this]
  have tx: "\<forall>(tx, t) \<in> set (zip (map fst txs) (mb_STransactions blk)). dt_BlockHash tx = b_hash B"
    using assms(2) by (auto dest!: set_zip_leftD)
  define votes where "votes = ignore_missing s1 (insertVotes env upsert blk validators (zip (map fst txs) (mb_STransactions blk)) s1)"
  have voted: "stake_step B (ts_db s1) (ts_db s2) \<and> ts_utxo s2 = ts_utxo s1" if "votes = Some (Inr (s2, ms))" for s2 ms
    using that insertVotes_step [OF _ tx assms(3), of env upsert validators s1 s2 ms]
    by (auto simp: votes_def ignore_missing_def split: option.splits sum.splits store_error.splits)
  show ?thesis
  proof (cases votes)
    case None
    then show ?thesis using assms(1) 1 by (simp add: store_stake_def votes_def)
  next
    case (Some v)
    show ?thesis
    proof (cases v)
      case (Inl e)
      then have "s' = s1" using assms(1) 1 Some by (simp add: store_stake_def votes_def)
      then show ?thesis using s1 by simp
    next
      case (Inr p)
      obtain s2 ms where p: "p = (s2, ms)" by (cases p)
      have s2: "stake_step B (ts_db s) (ts_db s2)" "ts_utxo s2 = ts_utxo s"
        using voted [of s2 ms] s1 stake_step_trans [of B "ts_db s" "ts_db s1" "ts_db s2"] Some Inr p by simp_all
      obtain s3 c where c: "collectTicketSpendDBInfo m (map fst txs) ids (mb_STransactions blk) s2 = (s3, c)" by fastforce
      have s3: "ts_db s3 = ts_db s2" "ts_utxo s3 = ts_utxo s2"
        using c spend_loop_tables [of s2 m "zip (map fst txs) (zip ids (mb_STransactions blk))"]
        by (auto simp: collectTicketSpendDBInfo_def same_tables_def split: if_splits)
      have "s' = s3 \<or> (\<exists>spent. s' = s3\<lparr>ts_db := setSpendingForTickets env (mb_Height blk) spent (ts_db s3)\<rparr>
          \<or> (\<exists>is. s' = s3\<lparr>ts_db := setPoolStatusForTickets is (setSpendingForTickets env (mb_Height blk) spent (ts_db s3))\<rparr>))"
        using assms(1) 1 Some Inr p c by (auto simp: store_stake_def votes_def Let_def split: sum.splits)
      then show ?thesis
      proof (elim disjE exE)
        assume "s' = s3"
        then show ?thesis using s2 s3 by simp
      next
        fix spent assume "s' = s3\<lparr>ts_db := setSpendingForTickets env (mb_Height blk) spent (ts_db s3)\<rparr>"
        then show ?thesis using s2 s3 stake_step_trans [OF s2(1) setSpending_step] by simp
      next
        fix spent "is" assume "s' = s3\<lparr>ts_db := setPoolStatusForTickets is (setSpendingForTickets env (mb_Height blk) spent (ts_db s3))\<rparr>"
        then show ?thesis using s2 s3 stake_step_trans [OF stake_step_trans [OF s2(1) setSpending_step] setPoolStatus_step] by simp
      qed
    qed
  qed
qed

lemma stake_step_refs:
  assumes "stake_step B db db'" and "refs_ok (with_block B db)"
  shows "refs_ok (with_block B db')" and "transactions db' = transactions db" and "blocks db' = blocks db"
proof -
  obtain ks ws ms sq where 1: "db' = db\<lparr>tickets := ks, votes := ws, misses := ms, serial := sq\<rparr>"
    "(\<lambda>k. (k_block k, k_purchase k)) ` set ks \<subseteq> Pair (b_hash B) ` set (b_stxDbIDs B) \<union> (\<lambda>k. (k_block k, k_purchase k)) ` set (tickets db)"
    "w_block ` set ws \<subseteq> insert (b_hash B) (w_block ` set (votes db))" "s_block ` set ms \<subseteq> insert (b_hash B) (s_block ` set (misses db))"
    using assms(1) unfolding stake_step_def by (elim exE conjE) (rule that)
  have refs: "tx_refs (with_block B db)" "block_refs (with_block B db)" "row_refs (with_block B db)" using assms(2) by (simp_all only: refs_ok_def)
  have "\<exists>b \<in> set (blocks db @ [B]). b_hash b = k_block k \<and> k_purchase k \<in> set (b_stxDbIDs b)" if "k \<in> set ks" for k
  proof -
    have "(k_block k, k_purchase k) \<in> Pair (b_hash B) ` set (b_stxDbIDs B) \<union> (\<lambda>k. (k_block k, k_purchase k)) ` set (tickets db)" using 1(2) that by blast
    then consider "k_block k = b_hash B" "k_purchase k \<in> set (b_stxDbIDs B)"
      | k' where "k' \<in> set (tickets db)" "k_block k = k_block k'" "k_purchase k = k_purchase k'" by auto
    then show ?thesis
    proof cases
      case 2
      then show ?thesis using refs(2) unfolding block_refs_def with_block_rows by metis
    qed auto
  qed
  moreover have "\<exists>b \<in> set (blocks db @ [B]). b_hash b = w_block w" if "w \<in> set ws" for w
    using 1(3) that refs(2) unfolding block_refs_def with_block_rows by fastforce
  moreover have "\<exists>b \<in> set (blocks db @ [B]). b_hash b = s_block q" if "q \<in> set ms" for q
    using 1(4) that refs(2) unfolding block_refs_def with_block_rows by fastforce
  moreover have "\<forall>x \<in> set (stats db). \<exists>b \<in> set (blocks db @ [B]). b_id b = x_block x"
    using refs(2) unfolding block_refs_def with_block_rows by blast
  ultimately have "block_refs (with_block B db')" unfolding block_refs_def with_block_rows by (simp add: 1(1))
  moreover have "tx_refs (with_block B db')" "row_refs (with_block B db')" using refs(1,3) by (simp_all add: tx_refs_def row_refs_def 1(1))
  ultimately show "refs_ok (with_block B db')" by (simp only: refs_ok_def)
  show "transactions db' = transactions db" "blocks db' = blocks db" by (simp_all add: 1(1))
qed

section \<open>Address rows and spent outputs\<close>

text \<open>A row of an input or output that a stored transaction owns.\<close>

definition row_owned :: "pg_tx list \<Rightarrow> pg_address \<Rightarrow> bool" where
  "row_owned ts a \<longleftrightarrow> (\<exists>t \<in> set ts. a_row a \<in> set (if a_funding a then t_vouts t else t_vins t))"

definition addr_step :: "pg_tables \<Rightarrow> pg_tables \<Rightarrow> bool" where
  "addr_step db db' \<longleftrightarrow>
     (\<exists>as us sq. db' = db\<lparr>addresses := as, vouts := us, serial := sq\<rparr>
        \<and> ((\<forall>a \<in> set (addresses db). row_owned (transactions db) a) \<longrightarrow> (\<forall>a \<in> set as. row_owned (transactions db) a))
        \<and> map o_id us = map o_id (vouts db)
        \<and> (\<forall>u \<in> set us. \<forall>i. o_spend u = Some i \<longrightarrow> (\<exists>t \<in> set (transactions db). t_id t = i) \<or> (\<exists>w \<in> set (vouts db). o_spend w = Some i)))"

lemma addr_step_refl [simp]: "addr_step db db"
  unfolding addr_step_def by (rule exI [of _ "addresses db"], rule exI [of _ "vouts db"], rule exI [of _ "serial db"]) auto

lemma addr_step_trans:
  assumes "addr_step db1 db2" and "addr_step db2 db3"
  shows "addr_step db1 db3"
proof -
  obtain as us sq where 1: "db2 = db1\<lparr>addresses := as, vouts := us, serial := sq\<rparr>"
    "(\<forall>a \<in> set (addresses db1). row_owned (transactions db1) a) \<longrightarrow> (\<forall>a \<in> set as. row_owned (transactions db1) a)" "map o_id us = map o_id (vouts db1)"
    "\<forall>u \<in> set us. \<forall>i. o_spend u = Some i \<longrightarrow> (\<exists>t \<in> set (transactions db1). t_id t = i) \<or> (\<exists>w \<in> set (vouts db1). o_spend w = Some i)"
    using assms(1) unfolding addr_step_def by (elim exE conjE) (rule that)
  obtain as' us' sq' where 2: "db3 = db2\<lparr>addresses := as', vouts := us', serial := sq'\<rparr>"
    "(\<forall>a \<in> set (addresses db2). row_owned (transactions db2) a) \<longrightarrow> (\<forall>a \<in> set as'. row_owned (transactions db2) a)" "map o_id us' = map o_id (vouts db2)"
    "\<forall>u \<in> set us'. \<forall>i. o_spend u = Some i \<longrightarrow> (\<exists>t \<in> set (transactions db2). t_id t = i) \<or> (\<exists>w \<in> set (vouts db2). o_spend w = Some i)"
    using assms(2) unfolding addr_step_def by (elim exE conjE) (rule that)
  have rows: "transactions db2 = transactions db1" "addresses db2 = as" "vouts db2 = us" by (simp_all add: 1(1))
  have "db3 = db1\<lparr>addresses := as', vouts := us', serial := sq'\<rparr>" by (simp add: 2(1) 1(1))
  moreover have "(\<forall>a \<in> set (addresses db1). row_owned (transactions db1) a) \<longrightarrow> (\<forall>a \<in> set as'. row_owned (transactions db1) a)"
    using 1(2) 2(2) unfolding rows by blast
  moreover have "map o_id us' = map o_id (vouts db1)" using 1(3) 2(3) unfolding rows by simp
  moreover have "\<forall>u \<in> set us'. \<forall>i. o_spend u = Some i \<longrightarrow> (\<exists>t \<in> set (transactions db1). t_id t = i) \<or> (\<exists>w \<in> set (vouts db1). o_spend w = Some i)"
    using 1(4) 2(4) unfolding rows by blast
  ultimately show ?thesis unfolding addr_step_def by (intro exI conjI)
qed

lemma addr_step_addresses:
  assumes "(\<forall>a \<in> set (addresses db). row_owned (transactions db) a) \<Longrightarrow> \<forall>a \<in> set as. row_owned (transactions db) a"
  shows "addr_step db (db\<lparr>addresses := as, serial := sq\<rparr>)"
  unfolding addr_step_def by (rule exI [of _ as], rule exI [of _ "vouts db"], rule exI [of _ sq]) (use assms in auto)

lemma insertAddressRow_step:
  assumes "row_owned (transactions db) a"
  shows "addr_step db (insertAddressRow checked upsert a db)"
proof -
  obtain t j where t: "insert_row checked upsert (\<lambda>r. a_row r = a_row a \<and> a_address r = a_address a \<and> a_funding r = a_funding a)
            (\<lambda>r. r\<lparr>a_matching := a_matching a, a_tx := a_tx a, a_index := a_index a, a_time := a_time a, a_main := a_main a, a_type := a_type a\<rparr>)
            a_id (a\<lparr>a_id := serial db SeqAddresses\<rparr>) (addresses db) = (t, j)" by fastforce
  have "(\<lambda>r. (a_row r, a_funding r)) ` set t \<subseteq> insert (a_row a, a_funding a) ((\<lambda>r. (a_row r, a_funding r)) ` set (addresses db))"
    using insert_row_images(1) [OF t, of "\<lambda>r. (a_row r, a_funding r)"] by simp
  then have owned: "\<forall>r \<in> set t. row_owned (transactions db) r" if "\<forall>r \<in> set (addresses db). row_owned (transactions db) r"
    using that assms unfolding row_owned_def by force
  have d: "insertAddressRow checked upsert a db = db\<lparr>addresses := t, serial := (serial db)(SeqAddresses := Suc (serial db SeqAddresses))\<rparr>"
    by (simp add: insertAddressRow_def t advance_seq_def)
  show ?thesis unfolding d by (rule addr_step_addresses) (rule owned)
qed

lemma addr_step_tables: "addr_step db db' \<Longrightarrow> transactions db' = transactions db \<and> blocks db' = blocks db"
  unfolding addr_step_def by (elim exE conjE) simp

lemma insert_rows_step:
  "\<forall>a \<in> set as. row_owned (transactions db) a \<Longrightarrow> addr_step db (fold (insertAddressRow checked upsert) as db)"
proof (induction as arbitrary: db)
  case (Cons a as)
  have 1: "addr_step db (insertAddressRow checked upsert a db)" using Cons.prems by (intro insertAddressRow_step) simp
  have "addr_step (insertAddressRow checked upsert a db) (fold (insertAddressRow checked upsert) as (insertAddressRow checked upsert a db))"
    by (rule Cons.IH) (use Cons.prems addr_step_tables [OF 1] in simp)
  then show ?case using addr_step_trans [OF 1] by simp
qed simp

lemma setSpendingForFundingOP_step: "addr_step db (setSpendingForFundingOP ft fi st m db)"
proof -
  have "addr_step db (db\<lparr>addresses := update_rows p (\<lambda>a. a\<lparr>a_matching := Some st\<rparr>) (addresses db), serial := serial db\<rparr>)" for p
    by (rule addr_step_addresses) (simp add: ball_update row_owned_def)
  then show ?thesis by (simp add: setSpendingForFundingOP_def)
qed

lemma insertSpendingAddressRow_step:
  assumes "insertSpendingAddressRow env checked upd fund vin i d tx db = (db', r)" and "\<exists>t \<in> set (transactions db). i \<in> set (t_vins t)"
  shows "addr_step db db'"
proof -
  define data where "data = (case d of Some d \<Rightarrow> d
    | None \<Rightarrow> (case retrieveTxOutData (vp_PrevTxHash vin) (vp_PrevTxIndex vin) (vp_PrevTxTree vin) db of Some d \<Rightarrow> d | None \<Rightarrow> no_utxo))"
  define row where "row = (\<lambda>addr. \<lparr>a_id = 0, a_address = addr, a_tx = vp_TxID vin, a_main = (dt_IsMainchainBlock tx \<and> dt_IsValid tx),
                  a_matching = Some (vp_PrevTxHash vin), a_value = ud_Value data, a_coin = ud_CoinType data, a_time = dt_BlockTime tx, a_funding = False,
                  a_index = vp_TxIndex vin, a_row = i, a_type = TxTypeNum env (vp_TxType vin)\<rparr>)"
  define db1 where "db1 = fold (insertAddressRow checked upd) (map row (ud_Addresses data)) db"
  have 1: "addr_step db db1" unfolding db1_def by (rule insert_rows_step) (use assms(2) in \<open>simp add: row_def row_owned_def\<close>)
  have "db' = db1 \<or> (\<exists>ft fi st m. db' = setSpendingForFundingOP ft fi st m db1)"
    using assms(1) unfolding insertSpendingAddressRow_def data_def [symmetric] Let_def
    by (auto simp: db1_def row_def fold_map comp_def split: if_splits)
  then show ?thesis using 1 addr_step_trans [OF 1 setSpendingForFundingOP_step] by auto
qed

lemma setSpendingForVouts_step:
  assumes "setSpendingForVouts ids i db = Some db'" and "\<exists>t \<in> set (transactions db). t_id t = i"
  shows "addr_step db db'"
proof -
  let ?us = "update_rows (\<lambda>u. int (o_id u) \<in> set ids) (\<lambda>u. u\<lparr>o_spend := Some i\<rparr>) (vouts db)"
  have "db' = db\<lparr>addresses := addresses db, vouts := ?us, serial := serial db\<rparr>"
    using assms(1) by (auto simp: setSpendingForVouts_def Let_def split: if_splits)
  moreover have "map o_id ?us = map o_id (vouts db)" by (rule update_rows_field) simp
  moreover have "\<forall>u \<in> set ?us. \<forall>j. o_spend u = Some j \<longrightarrow> (\<exists>t \<in> set (transactions db). t_id t = j) \<or> (\<exists>w \<in> set (vouts db). o_spend w = Some j)"
    using assms(2) unfolding ball_update by auto
  ultimately show ?thesis
    unfolding addr_step_def by (intro exI [of _ "addresses db"] exI [of _ ?us] exI [of _ "serial db"] conjI) simp_all
qed

lemma addr_step_refs:
  assumes "addr_step db db'" and "refs_ok (with_block B db)"
  shows "refs_ok (with_block B db')"
proof -
  obtain as us sq where 1: "db' = db\<lparr>addresses := as, vouts := us, serial := sq\<rparr>"
    "(\<forall>a \<in> set (addresses db). row_owned (transactions db) a) \<longrightarrow> (\<forall>a \<in> set as. row_owned (transactions db) a)" "map o_id us = map o_id (vouts db)"
    "\<forall>u \<in> set us. \<forall>i. o_spend u = Some i \<longrightarrow> (\<exists>t \<in> set (transactions db). t_id t = i) \<or> (\<exists>w \<in> set (vouts db). o_spend w = Some i)"
    using assms(1) unfolding addr_step_def by (elim exE conjE) (rule that)
  have refs: "tx_refs (with_block B db)" "block_refs (with_block B db)" "row_refs db" using assms(2) by (simp_all only: refs_ok_def row_refs_with_block)
  have out: "\<exists>t \<in> set (transactions db). o_id u \<in> set (t_vouts t)" if "u \<in> set us" for u
  proof -
    have "o_id u \<in> o_id ` set (vouts db)" using arg_cong [where f = set, OF 1(3)] that by auto
    then obtain w where "w \<in> set (vouts db)" "o_id u = o_id w" by blast
    then show ?thesis using refs(3) unfolding row_refs_def by simp
  qed
  have spend: "\<exists>t \<in> set (transactions db). t_id t = i" if "u \<in> set us" "o_spend u = Some i" for u i
    using 1(4) that refs(3) unfolding row_refs_def by blast
  have addr: "\<forall>a \<in> set as. row_owned (transactions db) a" using 1(2) refs(3) unfolding row_refs_def row_owned_def by blast
  have vin: "\<forall>v \<in> set (vins db). \<exists>t \<in> set (transactions db). v_id v \<in> set (t_vins t)" using refs(3) unfolding row_refs_def by blast
  have rows: "transactions db' = transactions db" "vins db' = vins db" "vouts db' = us" "addresses db' = as" by (simp_all add: 1(1))
  have "row_refs (with_block B db')"
    unfolding row_refs_def with_block_rows rows using out spend addr vin unfolding row_owned_def by blast
  moreover have "tx_refs (with_block B db')" "block_refs (with_block B db')" using refs(1,2) by (simp_all add: tx_refs_def block_refs_def 1(1))
  ultimately show ?thesis by (simp only: refs_ok_def)
qed

lemma spend_vins_step:
  assumes "spend_vins env m up uf tx vs db u = (db', r)" and "\<forall>x \<in> set vs. \<exists>t \<in> set (transactions db). snd x \<in> set (t_vins t)"
  shows "addr_step db db'"
  using assms
proof (induction vs arbitrary: db u db' r)
  case (Cons x vs)
  obtain vin i where x: "x = (vin, i)" by (cases x)
  show ?case
  proof (cases "vp_PrevTxHash vin = zeroHash")
    case True
    then show ?thesis using Cons.IH [of db u db' r] Cons.prems by (simp add: x)
  next
    case False
    obtain d u1 where d: "utxo_Get (vp_PrevTxHash vin) (vp_PrevTxIndex vin) u = (d, u1)" by fastforce
    obtain db1 q where q: "insertSpendingAddressRow (se_insert env) (dupChecks env) up uf vin i d tx db = (db1, q)" by (metis surj_pair)
    obtain r' where r': "spend_vins env m up uf tx vs db1 u1 = (db', r')"
      using Cons.prems(1) False by (simp add: x d q Let_def split: prod.splits)
    have 1: "addr_step db db1" by (rule insertSpendingAddressRow_step [OF q]) (use Cons.prems(2) in \<open>simp add: x\<close>)
    have "addr_step db1 db'" by (rule Cons.IH [OF r']) (use Cons.prems(2) addr_step_tables [OF 1] in simp)
    then show ?thesis by (rule addr_step_trans [OF 1])
  qed
qed simp

lemma spend_txs_step:
  assumes "spend_txs env m up uf txs db u = (u', Inr (db', r))"
    and "\<forall>(x, vis, i) \<in> set txs. (\<forall>j \<in> set (sx_VinDbIds x). \<exists>t \<in> set (transactions db). j \<in> set (t_vins t)) \<and> (\<exists>t \<in> set (transactions db). t_id t = i)"
  shows "addr_step db db'"
  using assms
proof (induction txs arbitrary: db u u' db' r)
  case (Cons y txs)
  obtain x vis i where y: "y = (x, vis, i)" by (cases y)
  obtain db1 u1 ids addrs diff where 1: "spend_vins env m up uf (sx_Tx x) (zip vis (sx_VinDbIds x)) db u = (db1, u1, ids, addrs, diff)" by (metis prod_cases5)
  have s1: "addr_step db db1"
    by (rule spend_vins_step [OF 1]) (use Cons.prems(2) in \<open>auto simp: y dest: set_zip_rightD\<close>)
  have t1: "transactions db1 = transactions db" using addr_step_tables [OF s1] by simp
  obtain db2 where 2: "(if dt_IsValid (sx_Tx x) \<and> m \<and> ids \<noteq> [] then setSpendingForVouts ids i db1 else Some db1) = Some db2"
    using Cons.prems(1) by (auto simp: y 1 split: option.splits)
  have own: "\<exists>t \<in> set (transactions db1). t_id t = i" using Cons.prems(2) by (simp add: y t1)
  have s2: "addr_step db1 db2" using 2 setSpendingForVouts_step [OF _ own] by (auto split: if_splits)
  obtain r' where 3: "spend_txs env m up uf txs db2 u1 = (u', Inr (db', r'))"
    using Cons.prems(1) 2 by (auto simp: y 1 split: option.splits prod.splits sum.splits)
  have "addr_step db2 db'"
    by (rule Cons.IH [OF 3]) (use Cons.prems(2) addr_step_tables [OF s2] in \<open>simp add: y t1\<close>)
  then show ?case using addr_step_trans [OF addr_step_trans [OF s1 s2]] by blast
qed simp

section \<open>One tree\<close>

lemma tag_mixed_keeps:
  "map fst (fst (tag_mixed db txs u)) = map fst txs" "map (snd \<circ> snd) (fst (tag_mixed db txs u)) = map (snd \<circ> snd) txs"
proof (induction txs arbitrary: u)
  case (Cons x txs)
  obtain tx vos vis where x: "x = (tx, vos, vis)" by (cases x)
  {
    case 1
    show ?case using Cons.IH(1) by (simp add: x Let_def case_prod_unfold)
  next
    case 2
    show ?case using Cons.IH(2) by (simp add: x Let_def case_prod_unfold)
  }
qed simp_all

lemma flatten_owned:
  assumes "\<forall>a \<in> set (concat rowss). \<exists>t \<in> set ts. a_row a \<in> set (t_vouts t)" and "a \<in> set (flattenAddressRows (zip txs rowss))"
  shows "row_owned ts a"
proof -
  obtain tx rows r where r: "(tx, rows) \<in> set (zip txs rowss)" "r \<in> set rows" "a_row a = a_row r" "a_funding a"
    using assms(2) by (auto simp: flattenAddressRows_def)
  have "r \<in> set (concat rowss)" using r(2) set_zip_rightD [OF r(1)] by auto
  from bspec [OF assms(1) this] show ?thesis using r(3,4) by (simp add: row_owned_def)
qed

lemma extracted_txs:
  assumes "ExtractBlockTransactions env blk tree isValid isMainchain = (dbTxs, outs, ins)"
  shows "\<forall>t \<in> set dbTxs. dt_BlockHash t = mb_Hash blk" and "length dbTxs \<le> length outs" and "length dbTxs \<le> length ins"
    and "tree_txs blk tree = Some txs \<Longrightarrow> dt_TxID ` set dbTxs \<subseteq> wt_Hash ` set txs"
    and "tree_txs blk tree = Some txs \<Longrightarrow> distinct (map wt_Hash txs) \<Longrightarrow> distinct (map dt_TxID dbTxs)"
proof -
  show "\<forall>t \<in> set dbTxs. dt_BlockHash t = mb_Hash blk"
    using assms extract_tx_Some(2) [of env blk tree isValid isMainchain]
    by (fastforce simp: ExtractBlockTransactions_def processTransactions_def Let_def split: option.splits)
  show "length dbTxs \<le> length outs" "length dbTxs \<le> length ins"
  proof -
    have "length dbTxs \<le> length outs \<and> length dbTxs \<le> length ins"
    proof (cases "tree_txs blk tree")
      case None
      then show ?thesis using assms by (simp add: ExtractBlockTransactions_def processTransactions_def)
    next
      case (Some txs)
      define rs where "rs = map (extract_tx env blk tree isValid isMainchain) (enumerate 0 txs)"
      have "length dbTxs = length (filter (\<lambda>r. r \<noteq> None) rs)" "length outs = length rs" "length ins = length rs"
        using assms Some by (auto simp add: ExtractBlockTransactions_def processTransactions_def Let_def rs_def [symmetric])
      then show ?thesis using length_filter_le [of "\<lambda>r. r \<noteq> None" rs] by simp
    qed
    then show "length dbTxs \<le> length outs" "length dbTxs \<le> length ins" by simp_all
  qed
  assume txs: "tree_txs blk tree = Some txs"
  define rs where "rs = map (extract_tx env blk tree isValid isMainchain) (enumerate 0 txs)"
  have dbTxs: "dbTxs = map fst (map the (filter (\<lambda>r. r \<noteq> None) rs))"
    using assms txs by (simp add: ExtractBlockTransactions_def processTransactions_def Let_def rs_def [symmetric])
  have map_ids: "map dt_TxID dbTxs = map (wt_Hash \<circ> snd) (filter (\<lambda>x. extract_tx env blk tree isValid isMainchain x \<noteq> None) (enumerate 0 txs))"
    unfolding dbTxs rs_def filter_map map_map comp_def by (rule map_cong [OF refl]) (auto dest: extract_tx_Some(1))
  have hashes: "map wt_Hash txs = map (wt_Hash \<circ> snd) (enumerate 0 txs)" by (simp flip: map_map)
  show "dt_TxID ` set dbTxs \<subseteq> wt_Hash ` set txs"
    using arg_cong [where f = set, OF map_ids] arg_cong [where f = set, OF hashes] by auto
  show "distinct (map dt_TxID dbTxs)" if "distinct (map wt_Hash txs)" using that unfolding map_ids hashes by (rule distinct_map_filter)
qed

text \<open>The address rows of the outputs, then those of the inputs.\<close>

lemma spend_part:
  assumes "ids_stored B xs ids rowss db" and "transactions db2 = transactions db"
    and "spend_txs env m up uf (zip xs (zip ins ids)) (insertAddressRowsDbTx checked up (flattenAddressRows (zip dbTxs rowss)) db2) u = (u', Inr (db', q))"
  shows "addr_step db2 db'"
proof -
  let ?db3 = "insertAddressRowsDbTx checked up (flattenAddressRows (zip dbTxs rowss)) db2"
  have "\<forall>a \<in> set (flattenAddressRows (zip dbTxs rowss)). row_owned (transactions db2) a"
    using assms(1) flatten_owned [of rowss "transactions db"] unfolding ids_stored_def assms(2) by blast
  then have 3: "addr_step db2 ?db3" unfolding insertAddressRowsDbTx_def by (rule insert_rows_step)
  have tx3: "transactions ?db3 = transactions db" using addr_step_tables [OF 3] assms(2) by simp
  have "addr_step ?db3 db'"
  proof (rule spend_txs_step [OF assms(3)], unfold tx3, intro ballI)
    fix y assume y: "y \<in> set (zip xs (zip ins ids))"
    obtain x vis i where y': "y = (x, vis, i)" by (cases y)
    have "x \<in> set xs" "i \<in> set ids" using y unfolding y' by (auto dest: set_zip_leftD set_zip_rightD)
    then have "(\<forall>j \<in> set (sx_VinDbIds x). \<exists>t \<in> set (transactions db). j \<in> set (t_vins t)) \<and> (\<exists>t \<in> set (transactions db). t_id t = i)"
      using assms(1) unfolding ids_stored_def vin_ids_def by blast
    then show "case y of (x, vis, i) \<Rightarrow> (\<forall>j \<in> set (sx_VinDbIds x). \<exists>t \<in> set (transactions db). j \<in> set (t_vins t)) \<and> (\<exists>t \<in> set (transactions db). t_id t = i)"
      by (simp add: y')
  qed
  then show ?thesis by (rule addr_step_trans [OF 3])
qed

text \<open>Every outcome of a tree, an error included, leaves references that are right once the row of the block is added.\<close>

lemma storeBlockTxnTree_refs:
  assumes "storeBlockTxnTree env blk validators tree isValid isMainchain upsert uf s = Some (s', res)" and "refs_ok (with_block B (ts_db s))"
    and "mb_Hash blk = b_hash B" and "tree_txs blk tree = Some txs" and "distinct (map wt_Hash txs)"
    and "\<forall>t \<in> set (transactions (ts_db s)). t_block t = b_hash B \<longrightarrow> t_hash t \<notin> wt_Hash ` set txs"
  shows "refs_ok (with_block (add_ids tree (sr_txDbIDs res) B) (ts_db s'))" and "blocks (ts_db s') = blocks (ts_db s)"
    and "\<forall>t \<in> set (transactions (ts_db s')). t \<in> set (transactions (ts_db s)) \<or> t_hash t \<in> wt_Hash ` set txs"
proof -
  obtain dbTxs outs0 ins0 where e: "ExtractBlockTransactions (se_extract env) blk tree isValid isMainchain = (dbTxs, outs0, ins0)" by (metis prod_cases3)
  note ex = extracted_txs [OF e]
  define u1 where "u1 = updateUtxoCache (zip outs0 (map (\<lambda>t. []) dbTxs)) (ts_utxo s)"
  obtain tagged u2 where t: "tag_mixed (ts_db s) (zip dbTxs (zip outs0 ins0)) u1 = (tagged, u2)" by fastforce
  define outs where "outs = map (fst \<circ> snd) tagged"
  define ins where "ins = map (snd \<circ> snd) tagged"
  have "map fst tagged = dbTxs" using tag_mixed_keeps(1) [of "ts_db s" "zip dbTxs (zip outs0 ins0)" u1] ex(2,3) unfolding t by (simp add: map_fst_zip_take)
  then have len: "length tagged = length dbTxs" using length_map by metis
  have lens: "length outs = length dbTxs" "length ins = length dbTxs" by (simp_all add: outs_def ins_def len)
  obtain db1 xs ids rowss where st: "storeTxns (se_insert env) (dupChecks env) upsert dbTxs outs ins (ts_db s) = (db1, xs, ids, rowss)" by (metis prod_cases4)
  have block: "\<forall>t \<in> set dbTxs. dt_BlockHash t = b_hash B" using ex(1) assms(3) by simp
  have new: "\<forall>t \<in> set (transactions (ts_db s)). t_block t = b_hash B \<longrightarrow> t_hash t \<notin> dt_TxID ` set dbTxs" using assms(6) ex(4) [OF assms(4)] by blast
  note txns = storeTxns_refs [OF st assms(2) lens block ex(5) [OF assms(4,5)] new]
  let ?B = "add_ids tree ids B"
  have refs1: "refs_ok (with_block ?B db1)" by (rule txns(1))
  define s1 where "s1 = \<lparr>ts_db = db1, ts_utxo = updateUtxoCache (zip outs (map sx_VoutDbIds xs)) u2, ts_tickets = ts_tickets s\<rparr>"
  define stake where "stake = (if tree = 1 then store_stake env isMainchain upsert blk (if isMainchain then validators else []) (zip dbTxs outs) ids s1
               else Some (s1, None))"
  have stake_ok: "stake_step ?B db1 (ts_db s2)" if "stake = Some (s2, r)" for s2 r
  proof (cases "tree = 1")
    case True
    then have "store_stake env isMainchain upsert blk (if isMainchain then validators else []) (zip dbTxs outs) ids s1 = Some (s2, r)"
      using that by (simp add: stake_def)
    then have "stake_step ?B (ts_db s1) (ts_db s2) \<and> ts_utxo s2 = ts_utxo s1"
      by (rule store_stake_step) (use block assms(3) True in \<open>auto simp: add_ids_def dest: set_zip_leftD\<close>)
    then show ?thesis by (simp add: s1_def)
  next
    case False
    then show ?thesis using that by (auto simp: stake_def s1_def)
  qed
  define rows where "rows = flattenAddressRows (zip dbTxs rowss)"
  have "\<exists>s2 r. stake = Some (s2, r) \<and> sr_txDbIDs res = ids \<and> (ts_db s' = ts_db s2 \<or>
      (\<exists>u q. spend_txs env isMainchain upsert uf (zip xs (zip ins ids)) (insertAddressRowsDbTx (dupChecks env) upsert rows (ts_db s2)) (ts_utxo s2) = (u, Inr (ts_db s', q))))"
    using assms(1) unfolding storeBlockTxnTree_def e u1_def [symmetric] Let_def prod.case t outs_def [symmetric] ins_def [symmetric] st rows_def [symmetric]
      s1_def [symmetric] stake_def [symmetric]
    by (auto split: option.splits prod.splits sum.splits if_splits)
  then obtain s2 r where 2: "stake = Some (s2, r)" "sr_txDbIDs res = ids" and cases: "ts_db s' = ts_db s2 \<or>
      (\<exists>u q. spend_txs env isMainchain upsert uf (zip xs (zip ins ids)) (insertAddressRowsDbTx (dupChecks env) upsert rows (ts_db s2)) (ts_utxo s2) = (u, Inr (ts_db s', q)))"
    by blast
  note refs2 = stake_step_refs [OF stake_ok [OF 2(1)] refs1]
  have "addr_step (ts_db s2) (ts_db s')"
    using cases spend_part [OF txns(2) refs2(2)] unfolding rows_def by auto
  note refs3 = addr_step_refs [OF this refs2(1)] addr_step_tables [OF this]
  show "refs_ok (with_block (add_ids tree (sr_txDbIDs res) B) (ts_db s'))" using refs3(1) 2(2) by simp
  show "blocks (ts_db s') = blocks (ts_db s)" using refs3(2) refs2(3) txns(4) by simp
  show "\<forall>t \<in> set (transactions (ts_db s')). t \<in> set (transactions (ts_db s)) \<or> t_hash t \<in> wt_Hash ` set txs"
    using refs3(2) refs2(2) txns(5) ex(4) [OF assms(4)] by auto
qed

section \<open>The row of the block and its parent\<close>

lemma refs_ok_updates:
  fixes db :: pg_tables
  shows "refs_ok (db\<lparr>blocks := update_rows p (\<lambda>b. b\<lparr>b_valid := v\<rparr>) (blocks db)\<rparr>) = refs_ok db"
    and "refs_ok (db\<lparr>transactions := update_rows q (\<lambda>t. t\<lparr>t_valid := v\<rparr>) (transactions db)\<rparr>) = refs_ok db"
    and "refs_ok (db\<lparr>vins := update_rows w (\<lambda>x. x\<lparr>v_valid := v, v_main := m\<rparr>) (vins db)\<rparr>) = refs_ok db"
    and "refs_ok (db\<lparr>addresses := update_rows z (\<lambda>a. a\<lparr>a_main := v\<rparr>) (addresses db)\<rparr>) = refs_ok db"
    and "refs_ok (db\<lparr>block_chain := ls\<rparr>) = refs_ok db" and "refs_ok (db\<lparr>miners := ns\<rparr>) = refs_ok db" and "refs_ok (db\<lparr>serial := sq\<rparr>) = refs_ok db"
    and "refs_ok (db\<lparr>bestMeta := bm\<rparr>) = refs_ok db"
  by (simp_all add: refs_ok_def tx_refs_def row_refs_def block_refs_def ball_update bex_update_rows)

lemma refs_ok_unspend:
  fixes db :: pg_tables
  shows "refs_ok db \<Longrightarrow> refs_ok (db\<lparr>vouts := update_rows p (\<lambda>u. u\<lparr>o_spend := None\<rparr>) (vouts db)\<rparr>)"
  by (simp add: refs_ok_def tx_refs_def row_refs_def block_refs_def ball_update)

lemma vins_loop_refs: "refs_ok db \<Longrightarrow> refs_ok (fst (vins_loop v m xs db))"
proof (induction xs arbitrary: db)
  case (Cons x xs)
  obtain h tree time where x: "x = (h, tree, time)" by (cases x)
  show ?case using Cons.IH Cons.prems by (simp add: x Let_def refs_ok_updates)
qed simp

lemma disapprove_refs:
  assumes "refs_ok db"
  shows "refs_ok (fst (disapprove h i m db))"
proof -
  have "refs_ok (fst (updateLastBlockValid i False db))" using assms by (simp add: updateLastBlockValid_def refs_ok_updates)
  then have 2: "refs_ok (clearVoutRegularSpendTxRowIDs h (fst (updateLastBlockValid i False db)))"
    unfolding clearVoutRegularSpendTxRowIDs_def by (rule refs_ok_unspend)
  have 3: "refs_ok (fst (updateLastVins h False m (clearVoutRegularSpendTxRowIDs h (fst (updateLastBlockValid i False db)))))"
    unfolding updateLastVins_def by (rule vins_loop_refs [OF 2])
  have addr: "refs_ok (fst (updateLastAddressesValid h False d))" if "refs_ok d" for d
    unfolding updateLastAddressesValid_def Let_def updateAddressesMainchainByIDs_rows using that by (simp add: refs_ok_updates)
  show ?thesis
    using \<open>refs_ok (fst (updateLastBlockValid i False db))\<close> 3
    by (simp add: disapprove_def Let_def case_prod_unfold) (simp add: addr updateTransactionsValid_def refs_ok_updates)
qed

abbreviation block_key :: "pg_block \<Rightarrow> nat \<times> hash \<times> int \<times> bool" where
  "block_key b \<equiv> (b_id b, b_hash b, b_height b, b_main b)"

lemma vins_loop_blocks: "blocks (fst (vins_loop v m xs db)) = blocks db"
proof (induction xs arbitrary: db)
  case (Cons x xs)
  obtain h tree time where x: "x = (h, tree, time)" by (cases x)
  show ?case using Cons.IH by (simp add: x Let_def)
qed simp

lemma disapprove_blocks: "map block_key (blocks (fst (disapprove h i m db))) = map block_key (blocks db)"
proof -
  have v: "map block_key (blocks (fst (updateLastBlockValid i False db))) = map block_key (blocks db)" by (simp add: updateLastBlockValid_def)
  have c: "blocks (clearVoutRegularSpendTxRowIDs h d) = blocks d" "blocks (fst (updateLastVins h False m d)) = blocks d"
    "blocks (updateTransactionsValid h False d) = blocks d" "blocks (fst (updateLastAddressesValid h False d)) = blocks d" for d
    by (simp_all add: clearVoutRegularSpendTxRowIDs_def updateLastVins_def vins_loop_blocks updateTransactionsValid_def updateLastAddressesValid_def
        Let_def updateAddressesMainchainByIDs_rows)
  show ?thesis by (simp add: disapprove_def Let_def case_prod_unfold c v)
qed

lemma updateLastBlock_refs:
  assumes "refs_ok (tabs c)"
  shows "refs_ok (tabs (fst (updateLastBlock h p bits m c)))"
    and "map block_key (blocks (tabs (fst (updateLastBlock h p bits m c)))) = map block_key (blocks (tabs c))"
proof -
  have nxt: "refs_ok (fst (updateBlockNext i h (tabs c)))" "blocks (fst (updateBlockNext i h (tabs c))) = blocks (tabs c)" for i
    using assms by (simp_all add: updateBlockNext_def refs_ok_updates)
  note dis = disapprove_refs [OF nxt(1)] disapprove_blocks
  show "refs_ok (tabs (fst (updateLastBlock h p bits m c)))"
    unfolding updateLastBlock_def using assms nxt dis by (simp add: case_prod_unfold Let_def split: option.split)
  show "map block_key (blocks (tabs (fst (updateLastBlock h p bits m c)))) = map block_key (blocks (tabs c))"
    unfolding updateLastBlock_def using nxt(2) dis(2) by (simp add: case_prod_unfold Let_def split: option.split)
qed

lemma store_miners_refs: "refs_ok (store_miners env m blk db) = refs_ok db" "blocks (store_miners env m blk db) = blocks db"
proof -
  have "refs_ok (fold (\<lambda>addr. upsertMiner addr h) as db) = refs_ok db \<and> blocks (fold (\<lambda>addr. upsertMiner addr h) as db) = blocks db" for as h
    by (induction as arbitrary: db) (simp_all add: upsertMiner_def refs_ok_updates)
  then show "refs_ok (store_miners env m blk db) = refs_ok db" "blocks (store_miners env m blk db) = blocks db" by (simp_all add: store_miners_def)
qed

lemma insertBlockStats_refs:
  assumes "refs_ok db" and "\<exists>b \<in> set (blocks db). b_id b = i"
  shows "refs_ok (insertBlockStats i height db)"
proof -
  have "\<forall>x \<in> set (stats (insertBlockStats i height db)). \<exists>b \<in> set (blocks db). b_id b = x_block x"
    using assms unfolding insertBlockStats_def by (auto simp: refs_ok_def block_refs_def ball_update)
  moreover have "transactions (insertBlockStats i height db) = transactions db" "blocks (insertBlockStats i height db) = blocks db"
    "vins (insertBlockStats i height db) = vins db" "vouts (insertBlockStats i height db) = vouts db" "addresses (insertBlockStats i height db) = addresses db"
    "tickets (insertBlockStats i height db) = tickets db" "votes (insertBlockStats i height db) = votes db" "misses (insertBlockStats i height db) = misses db"
    by (simp_all add: insertBlockStats_def)
  ultimately show ?thesis using assms(1) by (simp add: refs_ok_def tx_refs_def row_refs_def block_refs_def)
qed

definition block_of :: "msg_block \<Rightarrow> nat \<Rightarrow> bool \<Rightarrow> bool \<Rightarrow> nat list \<Rightarrow> nat list \<Rightarrow> pg_block" where
  "block_of blk i isValid isMainchain ids sids = \<lparr>b_id = i, b_hash = mb_Hash blk, b_height = mb_Height blk, b_valid = isValid, b_main = isMainchain,
     b_txDbIDs = ids, b_stxDbIDs = sids, b_prev = mb_PrevBlock blk\<rparr>"

lemma store_block_row_refs:
  assumes "store_block_row env batch checked blk ids sids isValid isMainchain c = (c', addrs, err)"
    and "\<forall>b \<in> set (blocks (tabs c)). b_hash b \<noteq> mb_Hash blk"
    and "refs_ok (with_block (block_of blk (serial (tabs c) SeqBlocks) isValid isMainchain ids sids) (tabs c))"
  shows "refs_ok (tabs c')"
    and "map block_key (blocks (tabs c')) = map block_key (blocks (tabs c)) @ [(serial (tabs c) SeqBlocks, mb_Hash blk, mb_Height blk, isMainchain)]"
    and "err = None \<Longrightarrow> isMainchain \<Longrightarrow> bestMeta (tabs c') = (mb_Height blk, mb_Hash blk) \<and> bestHeight c' = mb_Height blk \<and> bestHash c' = mb_Hash blk"
proof -
  let ?i = "serial (tabs c) SeqBlocks"
  let ?B = "block_of blk ?i isValid isMainchain ids sids"
  have "query_row (\<lambda>b. b_hash b = mb_Hash blk) (blocks (tabs c)) = None" using assms(2) by (simp add: query_row_None)
  then have ins: "insertBlock \<lparr>br_Hash = mb_Hash blk, br_Height = mb_Height blk, br_PreviousHash = mb_PrevBlock blk, br_TxDbIDs = ids, br_STxDbIDs = sids\<rparr>
      isValid isMainchain checked (tabs c) = (with_block ?B (advance_seq SeqBlocks (tabs c)), ?i)"
    by (simp add: insertBlock_def Let_def advance_seq_def with_block_def block_of_def)
  define db1 where "db1 = insertBlockPrevNext ?i (mb_Hash blk) (mb_PrevBlock blk) (store_miners env isMainchain blk (with_block ?B (advance_seq SeqBlocks (tabs c))))"
  have seq: "with_block ?B (advance_seq SeqBlocks (tabs c)) = (with_block ?B (tabs c))\<lparr>serial := (serial (tabs c))(SeqBlocks := Suc ?i)\<rparr>"
    by (simp add: with_block_def advance_seq_def)
  have db1: "refs_ok db1" "blocks db1 = blocks (tabs c) @ [?B]"
    using assms(3) by (simp_all add: db1_def insertBlockPrevNext_def refs_ok_updates store_miners_refs seq)
  define c1 where "c1 = c\<lparr>lastBlock := (lastBlock c)(mb_Hash blk \<mapsto> ?i), tabs := db1\<rparr>"
  obtain c2 as e where u: "updateLastBlock (mb_Hash blk) (mb_PrevBlock blk) (mb_VoteBits blk) isMainchain c1 = (c2, as, e)" by (metis prod_cases3)
  have c2: "refs_ok (tabs c2)" "map block_key (blocks (tabs c2)) = map block_key (blocks (tabs c) @ [?B])"
    using updateLastBlock_refs [of c1 "mb_Hash blk" "mb_PrevBlock blk" "mb_VoteBits blk" isMainchain] db1 unfolding u by (simp_all add: c1_def)
  have "(?i, mb_Hash blk, mb_Height blk, isMainchain) \<in> set (map block_key (blocks (tabs c2)))" unfolding c2(2) by (simp add: block_of_def)
  then have "\<exists>b \<in> set (blocks (tabs c2)). b_id b = ?i" by auto
  note stats = insertBlockStats_refs [OF c2(1) this]
  have res: "(c', addrs, err) = (if e \<noteq> None \<and> e \<noteq> Some ErrNoRows then (c2, as, map_option LastBlockFailed e)
      else if isMainchain then (c2\<lparr>bestHeight := mb_Height blk, bestHash := mb_Hash blk,
         tabs := setDBBestBlock (mb_Hash blk) (mb_Height blk) (insertBlockStats ?i (mb_Height blk) (tabs c2))\<rparr>, as, None)
      else (c2, as, if batch then map_option LastBlockFailed e else None))"
    using assms(1) unfolding store_block_row_def ins Let_def prod.case db1_def [symmetric] c1_def [symmetric] u by simp
  show "refs_ok (tabs c')" using res c2(1) stats by (auto simp: setDBBestBlock_def refs_ok_updates split: if_splits)
  have "map block_key (blocks (tabs c')) = map block_key (blocks (tabs c2))"
    using res by (auto simp: setDBBestBlock_def insertBlockStats_def split: if_splits)
  then show "map block_key (blocks (tabs c')) = map block_key (blocks (tabs c)) @ [(?i, mb_Hash blk, mb_Height blk, isMainchain)]"
    unfolding c2(2) by (simp add: block_of_def)
  show "bestMeta (tabs c') = (mb_Height blk, mb_Hash blk) \<and> bestHeight c' = mb_Height blk \<and> bestHash c' = mb_Hash blk" if "err = None" "isMainchain"
    using res that by (auto simp: setDBBestBlock_def split: if_splits)
qed

lemma main_hashes_keys: "main_hashes db = {h. \<exists>i height. (i, h, height, True) \<in> set (map block_key (blocks db))}"
proof (rule set_eqI)
  fix h
  show "h \<in> main_hashes db \<longleftrightarrow> h \<in> {h. \<exists>i height. (i, h, height, True) \<in> set (map block_key (blocks db))}"
    unfolding in_main_hashes mem_Collect_eq set_map image_iff prod.inject by metis
qed

section \<open>Storing a block\<close>

text \<open>The two trees.\<close>

lemma both_trees_refs:
  assumes "refs_ok (ts_db s)" and "\<forall>b \<in> set (blocks (ts_db s)). b_hash b \<noteq> mb_Hash blk"
    and "distinct (map wt_Hash (mb_Transactions blk @ mb_STransactions blk))"
    and "storeBlockTxnTree env blk validators 0 isValid isMainchain upsert uf s = Some (s1, reg)"
    and "storeBlockTxnTree env blk validators 1 isValid isMainchain upsert uf s1 = Some (s2, stk)"
  shows "refs_ok (with_block (block_of blk i isValid isMainchain (sr_txDbIDs reg) (sr_txDbIDs stk)) (ts_db s2))" and "blocks (ts_db s2) = blocks (ts_db s)"
proof -
  let ?B = "block_of blk i isValid isMainchain [] []"
  have h: "mb_Hash blk = b_hash ?B" by (simp add: block_of_def)
  have none: "t_block t \<noteq> mb_Hash blk" if "t \<in> set (transactions (ts_db s))" for t
    using assms(1,2) that unfolding refs_ok_def tx_refs_def by metis
  have 0: "refs_ok (with_block ?B (ts_db s))"
    using assms(1) by (auto simp: refs_ok_def tx_refs_def row_refs_with_block block_refs_def block_of_def)
  have new0: "\<forall>t \<in> set (transactions (ts_db s)). t_block t = b_hash ?B \<longrightarrow> t_hash t \<notin> wt_Hash ` set (mb_Transactions blk)"
    using none h by auto
  have t0: "tree_txs blk 0 = Some (mb_Transactions blk)" "tree_txs blk 1 = Some (mb_STransactions blk)" by (simp_all add: tree_txs_def)
  have d: "distinct (map wt_Hash (mb_Transactions blk))" "distinct (map wt_Hash (mb_STransactions blk))"
    "wt_Hash ` set (mb_Transactions blk) \<inter> wt_Hash ` set (mb_STransactions blk) = {}" using assms(3) by auto
  note 1 = storeBlockTxnTree_refs [OF assms(4) 0 h t0(1) d(1) new0]
  let ?B1 = "add_ids 0 (sr_txDbIDs reg) ?B"
  have h1: "mb_Hash blk = b_hash ?B1" by (simp add: block_of_def)
  have new1: "\<forall>t \<in> set (transactions (ts_db s1)). t_block t = b_hash ?B1 \<longrightarrow> t_hash t \<notin> wt_Hash ` set (mb_STransactions blk)"
    using 1(3) none h1 d(3) by (metis IntI empty_iff)
  note 2 = storeBlockTxnTree_refs [OF assms(5) 1(1) h1 t0(2) d(2) new1]
  have "add_ids 1 (sr_txDbIDs stk) ?B1 = block_of blk i isValid isMainchain (sr_txDbIDs reg) (sr_txDbIDs stk)" by (simp add: add_ids_def block_of_def)
  then show "refs_ok (with_block (block_of blk i isValid isMainchain (sr_txDbIDs reg) (sr_txDbIDs stk)) (ts_db s2))" using 2(1) by simp
  show "blocks (ts_db s2) = blocks (ts_db s)" using 1(2) 2(2) by simp
qed

section \<open>Storing a block returns\<close>

lemma mset_swap_remove: "mset (swap_remove x xs) = mset xs - {#x#}"
proof (induction xs)
  case (Cons y ys)
  have "mset (last ys # butlast ys) = mset (butlast ys @ [last ys])" by (simp del: append_butlast_last_id)
  then have "ys \<noteq> [] \<Longrightarrow> mset (last ys # butlast ys) = mset ys" by simp
  then show ?case using Cons by (auto simp: Multiset.diff_add_mset_swap)
qed simp

abbreviation ticket_of :: "wire_tx \<Rightarrow> hash" where
  "ticket_of m \<equiv> PrevHash (wi_In (wt_Ins m ! 1))"

text \<open>The misses are the validators that did not vote.\<close>

lemma vote_loop_misses:
  "vote_loop env upsert candidate txs validators s = Some (Inr (s', ms)) \<Longrightarrow> mset ms = mset validators - mset (map (ticket_of \<circ> snd) txs)"
proof (induction txs arbitrary: validators s)
  case (Cons x txs)
  obtain tx m where x: "x = (tx, m)" by (cases x)
  obtain s1 i where "vote_loop env upsert candidate txs (swap_remove (ticket_of m) validators)
       (s1\<lparr>ts_db := insertVote (dupChecks env) upsert candidate (ticket_of m) tx (ts_db s1)\<rparr>) = Some (Inr (s', ms))"
    using Cons.prems(1) by (auto simp: x Let_def split: if_splits prod.splits option.splits)
  from Cons.IH [OF this] show ?case by (simp add: x mset_swap_remove)
qed simp

lemma vote_loop_total:
  "\<forall>x \<in> set txs. CheckSSGen env (snd x) \<longrightarrow> 2 \<le> length (wt_Ins (snd x)) \<Longrightarrow> vote_loop env upsert candidate txs validators s \<noteq> None"
proof (induction txs arbitrary: validators s)
  case (Cons x txs)
  obtain tx m where x: "x = (tx, m)" by (cases x)
  have "vote_loop env upsert candidate txs vs q \<noteq> None" for vs q using Cons.IH Cons.prems by simp
  then show ?case using Cons.prems by (auto simp: x Let_def split: prod.splits option.splits)
qed simp

definition votes_fit :: "store_env \<Rightarrow> hash list \<Rightarrow> wire_tx list \<Rightarrow> bool" where
  "votes_fit env validators ms \<longleftrightarrow>
     (\<forall>m \<in> set ms. CheckSSGen env m \<longrightarrow> 2 \<le> length (wt_Ins m))
     \<and> (validators \<noteq> [] \<longrightarrow> length validators = 5 \<and> distinct (map ticket_of ms) \<and> ticket_of ` set ms \<subseteq> set validators)"

lemma insertVotes_total:
  assumes "votes_fit env validators (map snd (filter (\<lambda>(tx, msgTx). dt_TxType tx = TxTypeSSGen) txs))"
  shows "insertVotes env upsert blk validators txs s \<noteq> None"
proof -
  let ?votes = "filter (\<lambda>(tx, msgTx). dt_TxType tx = TxTypeSSGen) txs"
  obtain v where v: "vote_loop env upsert (mb_PrevBlock blk) ?votes validators s = Some v"
    using vote_loop_total [of ?votes env upsert "mb_PrevBlock blk" validators s] assms by (auto simp: votes_fit_def)
  have five: "length ?votes + length ms = 5" if "validators \<noteq> []" and "v = Inr (s', ms)" for s' ms
  proof -
    define ts where "ts = map (ticket_of \<circ> snd) ?votes"
    have fit: "length validators = 5" "distinct ts" "set ts \<subseteq> set validators"
      using assms that(1) by (simp_all add: votes_fit_def comp_def image_image ts_def)
    have "mset ts \<subseteq># mset validators"
      using fit(2,3) by (intro mset_subset_eqI) (auto simp: distinct_count_atmost_1 Suc_le_eq)
    moreover have "mset ms = mset validators - mset ts" unfolding ts_def using vote_loop_misses v that(2) by blast
    ultimately have "mset ms + mset ts = mset validators" by (simp add: subset_mset.diff_add)
    from arg_cong [where f = size, OF this] have "length ms + length ts = 5" using fit(1) by simp
    then show ?thesis by (simp add: ts_def)
  qed
  show ?thesis using v five by (auto simp: insertVotes_def Let_def split: sum.split prod.split)
qed

lemma insertTickets_total: "\<forall>(tx, vos, i) \<in> set txs. is_ticket tx \<longrightarrow> vos \<noteq> [] \<Longrightarrow> insertTickets checked upsert txs s \<noteq> None"
  by (induction checked upsert txs s rule: insertTickets.induct) (auto split: prod.split)

text \<open>In the stake tree no transaction is skipped.\<close>

lemma stake_extracted:
  assumes "ExtractBlockTransactions env blk 1 isValid isMainchain = (dbTxs, outs, ins)"
  shows "list_all2 (\<lambda>m t. dt_TxType t = stored_type env m) (mb_STransactions blk) dbTxs"
    and "list_all2 (\<lambda>m vos. length vos = length (wt_Outs m)) (mb_STransactions blk) outs"
proof -
  let ?f = "extract_tx env blk 1 isValid isMainchain"
  have some: "\<exists>t vos vis. ?f (i, m) = Some (t, vos, vis) \<and> dt_TxType t = stored_type env m \<and> length vos = length (wt_Outs m)" for i m
    by (simp add: extract_tx_def Let_def case_prod_unfold)
  have all: "filter (\<lambda>r. r \<noteq> None) (map ?f xs) = map ?f xs" for xs using some by (intro filter_True) fastforce
  have res: "dbTxs = map (\<lambda>x. fst (the (?f x))) (enumerate 0 (mb_STransactions blk))"
    "outs = map (\<lambda>x. case ?f x of None \<Rightarrow> [] | Some (t, vos, vis) \<Rightarrow> vos) (enumerate 0 (mb_STransactions blk))"
  proof -
    define rs where "rs = map ?f (enumerate 0 (mb_STransactions blk))"
    have "dbTxs = map fst (map the (filter (\<lambda>r. r \<noteq> None) rs))" "outs = map (\<lambda>r. case r of None \<Rightarrow> [] | Some (t, vos, vis) \<Rightarrow> vos) rs"
      using assms by (simp_all add: ExtractBlockTransactions_def processTransactions_def tree_txs_def Let_def rs_def [symmetric])
    then show "dbTxs = map (\<lambda>x. fst (the (?f x))) (enumerate 0 (mb_STransactions blk))"
      "outs = map (\<lambda>x. case ?f x of None \<Rightarrow> [] | Some (t, vos, vis) \<Rightarrow> vos) (enumerate 0 (mb_STransactions blk))"
      unfolding rs_def all map_map comp_def by simp_all
  qed
  show "list_all2 (\<lambda>m t. dt_TxType t = stored_type env m) (mb_STransactions blk) dbTxs"
    unfolding res(1) list_all2_conv_all_nth using some by (auto simp: nth_enumerate_eq) (metis fst_conv option.sel)
  show "list_all2 (\<lambda>m vos. length vos = length (wt_Outs m)) (mb_STransactions blk) outs"
    unfolding res(2) list_all2_conv_all_nth using some by (auto simp: nth_enumerate_eq split: option.split) (metis option.distinct(1) option.inject prod.inject)+
qed

lemma vote_txs:
  "list_all2 (\<lambda>m t. dt_TxType t = stored_type env m) ms dbTxs \<Longrightarrow>
     map snd (filter (\<lambda>(tx, m). dt_TxType tx = TxTypeSSGen) (zip dbTxs ms)) = filter (\<lambda>m. stored_type env m = TxTypeSSGen) ms"
  by (induction rule: list_all2_induct) simp_all

lemma tag_mixed_lengths: "map (length \<circ> fst \<circ> snd) (fst (tag_mixed db txs u)) = map (length \<circ> fst \<circ> snd) txs"
proof (induction txs arbitrary: u)
  case (Cons x txs)
  obtain tx vos vis where x: "x = (tx, vos, vis)" by (cases x)
  show ?case using Cons.IH by (simp add: x Let_def case_prod_unfold)
qed simp

text \<open>A block of the node: a coinbase, stake transactions with outputs, votes with two inputs, and on the main chain five validators of which each voter is one.\<close>

definition block_fits :: "store_env \<Rightarrow> hash list \<Rightarrow> msg_block \<Rightarrow> bool" where
  "block_fits env validators blk \<longleftrightarrow> mb_Transactions blk \<noteq> [] \<and> (\<forall>m \<in> set (mb_STransactions blk). wt_Outs m \<noteq> [])
     \<and> votes_fit env validators (filter (\<lambda>m. stored_type (se_extract env) m = TxTypeSSGen) (mb_STransactions blk))"

lemma votes_fit_side: "votes_fit env vs ms \<Longrightarrow> votes_fit env (if m then vs else []) ms"
  by (simp add: votes_fit_def)

lemma store_stake_total:
  assumes "block_fits env validators blk" and "ExtractBlockTransactions (se_extract env) blk 1 isValid isMainchain = (dbTxs, outs0, ins0)"
    and "length outs = length dbTxs" and "length ` set outs \<subseteq> length ` set outs0"
  shows "store_stake env m upsert blk (if m then validators else []) (zip dbTxs outs) ids s \<noteq> None"
proof -
  note al = stake_extracted [OF assms(2)]
  have ne: "vos \<noteq> []" if "vos \<in> set outs" for vos
  proof -
    have "length vos \<in> length ` set outs0" using assms(4) that by blast
    then obtain w where w: "w \<in> set outs0" "length w = length vos" by auto
    obtain t where "t \<in> set (mb_STransactions blk)" "length w = length (wt_Outs t)" using list_all2_right [OF al(2) w(1)] by blast
    then show ?thesis using assms(1) w(2) by (auto simp: block_fits_def)
  qed
  then have "insertTickets (dupChecks env) upsert (map (\<lambda>((tx, vos), i). (tx, vos, i)) (zip (zip dbTxs outs) ids)) s \<noteq> None"
    by (intro insertTickets_total) (auto dest: set_zip_leftD set_zip_rightD)
  then obtain s2 where s2: "insertTickets (dupChecks env) upsert (map (\<lambda>((tx, vos), i). (tx, vos, i)) (zip (zip dbTxs outs) ids)) s = Some s2" by blast
  have short: "map fst (zip dbTxs outs) = dbTxs" using assms(3) by simp
  have "insertVotes env upsert blk (if m then validators else []) (zip (map fst (zip dbTxs outs)) (mb_STransactions blk)) s2 \<noteq> None"
    unfolding short by (rule insertVotes_total) (use assms(1) in \<open>simp add: vote_txs [OF al(1)] votes_fit_side block_fits_def\<close>)
  then obtain v where v: "insertVotes env upsert blk (if m then validators else []) (zip (map fst (zip dbTxs outs)) (mb_STransactions blk)) s2 = Some v" by blast
  show ?thesis
    unfolding store_stake_def
    by (simp only: s2 v option.case ignore_missing_def) (simp add: Let_def split: option.split sum.split prod.split store_error.split)
qed

lemma storeBlockTxnTree_total:
  assumes "block_fits env validators blk"
  shows "storeBlockTxnTree env blk validators tree isValid isMainchain upsert uf s \<noteq> None"
proof -
  obtain dbTxs outs0 ins0 where e: "ExtractBlockTransactions (se_extract env) blk tree isValid isMainchain = (dbTxs, outs0, ins0)" by (metis prod_cases3)
  define u1 where "u1 = updateUtxoCache (zip outs0 (map (\<lambda>t. []) dbTxs)) (ts_utxo s)"
  obtain tagged u2 where t: "tag_mixed (ts_db s) (zip dbTxs (zip outs0 ins0)) u1 = (tagged, u2)" by fastforce
  define outs where "outs = map (fst \<circ> snd) tagged"
  define ins where "ins = map (snd \<circ> snd) tagged"
  obtain db1 xs ids rowss where st: "storeTxns (se_insert env) (dupChecks env) upsert dbTxs outs ins (ts_db s) = (db1, xs, ids, rowss)" by (metis prod_cases4)
  define s1 where "s1 = \<lparr>ts_db = db1, ts_utxo = updateUtxoCache (zip outs (map sx_VoutDbIds xs)) u2, ts_tickets = ts_tickets s\<rparr>"
  define vs where "vs = (if isMainchain then validators else [])"
  define stake where "stake = (if tree = 1 then store_stake env isMainchain upsert blk vs (zip dbTxs outs) ids s1 else Some (s1, None))"
  have stake_some: "stake \<noteq> None"
  proof (cases "tree = 1")
    case True
    have "map length outs = map (length \<circ> fst \<circ> snd) (zip dbTxs (zip outs0 ins0))"
      using tag_mixed_lengths [of "ts_db s" "zip dbTxs (zip outs0 ins0)" u1] unfolding t outs_def by (simp add: comp_assoc)
    from arg_cong [where f = set, OF this] have "length ` set outs = length ` (fst \<circ> snd) ` set (zip dbTxs (zip outs0 ins0))" by (simp add: image_comp comp_assoc)
    moreover have "(fst \<circ> snd) ` set (zip dbTxs (zip outs0 ins0)) \<subseteq> set outs0"
    proof -
      have "aa \<in> set outs0" if "(a, aa, b) \<in> set (zip dbTxs (zip outs0 ins0))" for a aa b using set_zip_leftD [OF set_zip_rightD [OF that]] .
      then show ?thesis by auto
    qed
    ultimately have "length ` set outs \<subseteq> length ` set outs0" by blast
    moreover have "length outs = length dbTxs"
    proof -
      have "map fst tagged = dbTxs"
        using tag_mixed_keeps(1) [of "ts_db s" "zip dbTxs (zip outs0 ins0)" u1] extracted_txs(2,3) [OF e] unfolding t by (simp add: map_fst_zip_take)
      then show ?thesis using length_map [of fst tagged] by (simp add: outs_def)
    qed
    ultimately show ?thesis using store_stake_total [OF assms e [unfolded True]] True by (simp add: stake_def vs_def)
  next
    case False
    then show ?thesis by (simp add: stake_def)
  qed
  have "mb_Transactions blk \<noteq> []" using assms by (simp add: block_fits_def)
  then show ?thesis
    using stake_some unfolding storeBlockTxnTree_def e u1_def [symmetric] Let_def prod.case t outs_def [symmetric] ins_def [symmetric] st
      vs_def [symmetric] s1_def [symmetric] stake_def [symmetric]
    by (auto split: option.splits prod.splits sum.splits)
qed

lemma StoreBlock_outcomes:
  assumes "StoreBlock env pool blk isValid isMainchain upsert uf c = Some (c', addrs, r)"
  obtains (refused) e where "c' = c" "r = Inl e"
  | (stored) s1 reg s2 stk where
      "storeBlockTxnTree env blk (if isMainchain \<and> mb_PrevBlock blk \<noteq> zeroHash then snd (the (pool (mb_PrevBlock blk))) else []) 0 isValid isMainchain upsert uf
         \<lparr>ts_db = tabs (cs_chain c), ts_utxo = cs_utxo c, ts_tickets = cs_tickets c\<rparr> = Some (s1, reg)"
      "storeBlockTxnTree env blk (if isMainchain \<and> mb_PrevBlock blk \<noteq> zeroHash then snd (the (pool (mb_PrevBlock blk))) else []) 1 isValid isMainchain upsert uf s1
         = Some (s2, stk)"
      "(\<exists>e. r = Inl e \<and> tabs (cs_chain c') = ts_db s2)
       \<or> (\<exists>as err. store_block_row (se_extract env) (InBatchSync env) (dupChecks env) blk (sr_txDbIDs reg) (sr_txDbIDs stk) isValid isMainchain ((cs_chain c)\<lparr>tabs := ts_db s2\<rparr>)
             = (cs_chain c', as, err) \<and> (err = None \<longleftrightarrow> (\<exists>n. r = Inr n)))"
proof -
  define vs where "vs = (if isMainchain \<and> mb_PrevBlock blk \<noteq> zeroHash then snd (the (pool (mb_PrevBlock blk))) else [])"
  define s0 where "s0 = \<lparr>ts_db = tabs (cs_chain c), ts_utxo = cs_utxo c, ts_tickets = cs_tickets c\<rparr>"
  let ?refuse = "isMainchain \<and> pool (mb_Hash blk) = None \<or> isMainchain \<and> fst (the (pool (mb_Hash blk))) \<noteq> mb_Height blk
    \<or> isMainchain \<and> mb_PrevBlock blk \<noteq> zeroHash \<and> pool (mb_PrevBlock blk) = None"
  show ?thesis
  proof (cases ?refuse)
    case True
    then have "c' = c \<and> (\<exists>e. r = Inl e)" using assms unfolding StoreBlock_def by (auto split: if_splits)
    then show ?thesis using refused by blast
  next
    case False
    have "StoreBlock env pool blk isValid isMainchain upsert uf c =
       (case storeBlockTxnTree env blk vs 0 isValid isMainchain upsert uf s0 of
             None \<Rightarrow> None
           | Some (s1, reg) \<Rightarrow>
               (case storeBlockTxnTree env blk vs 1 isValid isMainchain upsert uf s1 of
                  None \<Rightarrow> None
                | Some (s2, stk) \<Rightarrow>
                    let w = c\<lparr>cs_chain := (cs_chain c)\<lparr>tabs := ts_db s2\<rparr>, cs_utxo := ts_utxo s2, cs_tickets := ts_tickets s2\<rparr>
                    in (case (sr_err stk, sr_err reg) of
                       (Some e, _) \<Rightarrow> Some (w, {}, Inl e)
                     | (None, Some e) \<Rightarrow> Some (w, {}, Inl e)
                     | (None, None) \<Rightarrow>
                         let c1 = w\<lparr>cs_mixSetDiffs := (if isMainchain
                                then (cs_mixSetDiffs c)(mb_Height blk \<mapsto> wrap64 (sr_mixSetDelta reg + sr_mixSetDelta stk)) else cs_mixSetDiffs c)\<rparr>
                         in case store_block_row (se_extract env) (InBatchSync env) (dupChecks env) blk (sr_txDbIDs reg) (sr_txDbIDs stk) isValid isMainchain (cs_chain c1) of
                              (c, addrs, Some e) \<Rightarrow> Some (c1\<lparr>cs_chain := c\<rparr>, addrs, Inl e)
                            | (c, addrs, None) \<Rightarrow>
                                Some (c1\<lparr>cs_chain := c\<rparr>, addrs \<union> sr_addresses reg \<union> sr_addresses stk,
                                  Inr (sr_numVins stk + sr_numVins reg, sr_numVouts stk + sr_numVouts reg, sr_numAddresses stk + sr_numAddresses reg)))))"
      using False unfolding StoreBlock_def Let_def vs_def s0_def by auto
    then obtain s1 reg s2 stk where t: "storeBlockTxnTree env blk vs 0 isValid isMainchain upsert uf s0 = Some (s1, reg)"
      "storeBlockTxnTree env blk vs 1 isValid isMainchain upsert uf s1 = Some (s2, stk)"
      "(\<exists>e. r = Inl e \<and> tabs (cs_chain c') = ts_db s2)
       \<or> (\<exists>as err. store_block_row (se_extract env) (InBatchSync env) (dupChecks env) blk (sr_txDbIDs reg) (sr_txDbIDs stk) isValid isMainchain ((cs_chain c)\<lparr>tabs := ts_db s2\<rparr>)
             = (cs_chain c', as, err) \<and> (err = None \<longleftrightarrow> (\<exists>n. r = Inr n)))"
      using assms by (auto simp: Let_def split: option.splits prod.splits)
    show ?thesis by (rule stored [OF t(1,2) [unfolded vs_def s0_def] t(3)])
  qed
qed

text \<open>What holds of the tables afterwards.\<close>

definition stored_ok :: "msg_block \<Rightarrow> bool \<Rightarrow> chain_store \<Rightarrow> chain_store \<Rightarrow> store_error + nat \<times> nat \<times> nat \<Rightarrow> bool" where
  "stored_ok blk isMainchain c c' r \<longleftrightarrow>
     (case r of
        Inr n \<Rightarrow> refs_ok (tabs (cs_chain c'))
          \<and> main_hashes (tabs (cs_chain c')) = main_hashes (tabs (cs_chain c)) \<union> (if isMainchain then {mb_Hash blk} else {})
          \<and> map b_hash (blocks (tabs (cs_chain c'))) = map b_hash (blocks (tabs (cs_chain c))) @ [mb_Hash blk]
          \<and> (isMainchain \<longrightarrow> bestMeta (tabs (cs_chain c')) = (mb_Height blk, mb_Hash blk) \<and> bestHash (cs_chain c') = mb_Hash blk)
      | Inl e \<Rightarrow> refs_ok (tabs (cs_chain c')) \<or> (\<exists>B. b_hash B = mb_Hash blk \<and> refs_ok (with_block B (tabs (cs_chain c')))))"

lemma StoreBlock_stored_ok:
  assumes "refs_ok (tabs (cs_chain c))" and "\<forall>b \<in> set (blocks (tabs (cs_chain c))). b_hash b \<noteq> mb_Hash blk"
    and "distinct (map wt_Hash (mb_Transactions blk @ mb_STransactions blk))"
    and "StoreBlock env pool blk isValid isMainchain upsert uf c = Some (c', addrs, r)"
  shows "stored_ok blk isMainchain c c' r"
  using assms(4)
proof (cases rule: StoreBlock_outcomes)
  case (refused e)
  then show ?thesis using assms(1) by (simp add: stored_ok_def)
next
  case (stored s1 reg s2 stk)
  note trees = both_trees_refs [OF _ _ assms(3) stored(1,2), simplified, OF assms(1,2)]
  show ?thesis
    using stored(3)
  proof (elim disjE exE conjE)
    fix e assume "r = Inl e" "tabs (cs_chain c') = ts_db s2"
    then show ?thesis using trees(1) [of 0] by (auto simp: stored_ok_def block_of_def)
  next
    fix as err
    assume row: "store_block_row (se_extract env) (InBatchSync env) (dupChecks env) blk (sr_txDbIDs reg) (sr_txDbIDs stk) isValid isMainchain ((cs_chain c)\<lparr>tabs := ts_db s2\<rparr>)
        = (cs_chain c', as, err)" and err: "err = None \<longleftrightarrow> (\<exists>n. r = Inr n)"
    have new: "\<forall>b \<in> set (blocks (tabs ((cs_chain c)\<lparr>tabs := ts_db s2\<rparr>))). b_hash b \<noteq> mb_Hash blk" using assms(2) trees(2) by simp
    have "refs_ok (with_block (block_of blk (serial (tabs ((cs_chain c)\<lparr>tabs := ts_db s2\<rparr>)) SeqBlocks) isValid isMainchain (sr_txDbIDs reg) (sr_txDbIDs stk))
        (tabs ((cs_chain c)\<lparr>tabs := ts_db s2\<rparr>)))" using trees(1) by simp
    note st = store_block_row_refs [OF row new this]
    have keys: "map block_key (blocks (tabs (cs_chain c'))) = map block_key (blocks (tabs (cs_chain c))) @ [(serial (ts_db s2) SeqBlocks, mb_Hash blk, mb_Height blk, isMainchain)]"
      using st(2) trees(2) by simp
    have main: "main_hashes (tabs (cs_chain c')) = main_hashes (tabs (cs_chain c)) \<union> (if isMainchain then {mb_Hash blk} else {})"
      unfolding main_hashes_keys keys by auto
    have "map (fst \<circ> snd) (map block_key (blocks (tabs (cs_chain c')))) = map (fst \<circ> snd) (map block_key (blocks (tabs (cs_chain c)))) @ [mb_Hash blk]"
      unfolding keys by simp
    then have "map b_hash (blocks (tabs (cs_chain c'))) = map b_hash (blocks (tabs (cs_chain c))) @ [mb_Hash blk]" by (simp add: comp_def)
    then show ?thesis using st(1,3) main err by (cases r) (auto simp: stored_ok_def)
  qed
qed

lemma StoreBlock_total:
  assumes "block_fits env (if isMainchain \<and> mb_PrevBlock blk \<noteq> zeroHash then snd (the (pool (mb_PrevBlock blk))) else []) blk"
  shows "StoreBlock env pool blk isValid isMainchain upsert uf c \<noteq> None"
proof -
  define vs where "vs = (if isMainchain \<and> mb_PrevBlock blk \<noteq> zeroHash then snd (the (pool (mb_PrevBlock blk))) else [])"
  have tree: "storeBlockTxnTree env blk vs tree isValid isMainchain upsert uf s \<noteq> None" for tree s
    using assms unfolding vs_def by (rule storeBlockTxnTree_total)
  obtain s1 reg where 1: "storeBlockTxnTree env blk vs 0 isValid isMainchain upsert uf
      \<lparr>ts_db = tabs (cs_chain c), ts_utxo = cs_utxo c, ts_tickets = cs_tickets c\<rparr> = Some (s1, reg)" using tree by (metis option.exhaust surj_pair)
  obtain s2 stk where 2: "storeBlockTxnTree env blk vs 1 isValid isMainchain upsert uf s1 = Some (s2, stk)" using tree by (metis option.exhaust surj_pair)
  show ?thesis
    unfolding StoreBlock_def Let_def vs_def [symmetric] 1 option.case prod.case 2 by (simp split: option.split prod.split)
qed

text \<open>C13. Storing a new block keeps the references between the tables: when it succeeds, every transaction belongs to a block that lists it and
  conversely, every input, output and address row belongs to a transaction, every spent output names one, and every ticket, vote, miss and statistic
  has its block. The block is then the only new one; on the main chain it is the best block, in memory and in the meta table. When it
  fails, the references are right or become so when the row of the block is added.\<close>

theorem StoreBlock_refs:
  assumes "refs_ok (tabs (cs_chain c))" and "\<forall>b \<in> set (blocks (tabs (cs_chain c))). b_hash b \<noteq> mb_Hash blk"
    and "distinct (map wt_Hash (mb_Transactions blk @ mb_STransactions blk))"
    and "block_fits env (if isMainchain \<and> mb_PrevBlock blk \<noteq> zeroHash then snd (the (pool (mb_PrevBlock blk))) else []) blk"
  shows "\<exists>c' addrs r. StoreBlock env pool blk isValid isMainchain upsert uf c = Some (c', addrs, r) \<and> stored_ok blk isMainchain c c' r"
proof -
  obtain c' addrs r where "StoreBlock env pool blk isValid isMainchain upsert uf c = Some (c', addrs, r)"
    using StoreBlock_total [of env isMainchain blk pool, OF assms(4)] by (metis option.exhaust prod_cases3)
  then show ?thesis using StoreBlock_stored_ok [OF assms(1-3)] by blast
qed

text \<open>The first block, with a coinbase that pays one address and a transaction that spends its output.\<close>

definition first_block :: msg_block where
  "first_block = \<lparr>mb_Hash = [1], mb_PrevBlock = zeroHash, mb_Height = 1, mb_Time = 5, mb_SBits = 2, mb_VoteBits = 1,
     mb_Transactions =
       [\<lparr>wt_Ins = [\<lparr>wi_In = \<lparr>PrevHash = zeroHash, PrevIndex = 0, ValueIn = 50, SKAValueIn = None\<rparr>, wi_Tree = 0\<rparr>],
         wt_Outs = [\<lparr>txo_Value = 50, txo_CoinType = 0, txo_SKAValue = None, txo_PkScript = []\<rparr>], wt_Hash = [2], wt_Size = 100\<rparr>,
        \<lparr>wt_Ins = [\<lparr>wi_In = \<lparr>PrevHash = [2], PrevIndex = 0, ValueIn = 50, SKAValueIn = None\<rparr>, wi_Tree = 0\<rparr>],
         wt_Outs = [\<lparr>txo_Value = 40, txo_CoinType = 0, txo_SKAValue = None, txo_PkScript = []\<rparr>], wt_Hash = [3], wt_Size = 100\<rparr>],
     mb_STransactions = []\<rparr>"

definition first_env :: store_env where
  "first_env = \<lparr>se_extract = ex_extract_env, se_insert = \<lparr>TxTypeNum = (\<lambda>t. 0), StringArray = concat\<rparr>, dupChecks = True, InBatchSync = False, CheckSSGen = (\<lambda>m. False),
     ExistsExpiredTicket = (\<lambda>h. False), MissedByBlock = []\<rparr>"

definition empty_store :: chain_store where
  "empty_store = \<lparr>cs_chain = \<lparr>tabs = \<lparr>blocks = [], block_chain = [], transactions = [], vins = [], vouts = [], addresses = [], tickets = [], votes = [],
       misses = [], miners = [], stats = [], swaps = [], bestMeta = (-1, zeroHash), serial = (\<lambda>q. 0)\<rparr>, bestHash = zeroHash, bestHeight = -1,
       lastBlock = Map.empty\<rparr>, cs_utxo = Map.empty, cs_tickets = Map.empty, cs_mixSetDiffs = Map.empty\<rparr>"

definition first_pool :: "hash \<rightharpoonup> int \<times> hash list" where
  "first_pool = [[1] \<mapsto> (1, [])]"

lemma first_stored: "(case StoreBlock first_env first_pool first_block True True True True empty_store of Some (c', addrs, Inr n) \<Rightarrow> n = (2, 2, 3) | _ \<Rightarrow> False)"
  by code_simp

theorem StoreBlock_refs_witness:
  "\<exists>c' addrs. StoreBlock first_env first_pool first_block True True True True empty_store = Some (c', addrs, Inr (2, 2, 3))
     \<and> refs_ok (tabs (cs_chain c')) \<and> bestMeta (tabs (cs_chain c')) = (1, [1]) \<and> main_hashes (tabs (cs_chain c')) = {[1]}"
proof -
  have refs: "refs_ok (tabs (cs_chain empty_store))" by (simp add: empty_store_def refs_ok_def tx_refs_def row_refs_def block_refs_def)
  have fits: "block_fits first_env (if True \<and> mb_PrevBlock first_block \<noteq> zeroHash then snd (the (first_pool (mb_PrevBlock first_block))) else []) first_block"
    by (simp add: block_fits_def votes_fit_def first_block_def)
  have "\<forall>b \<in> set (blocks (tabs (cs_chain empty_store))). b_hash b \<noteq> mb_Hash first_block" "distinct (map wt_Hash (mb_Transactions first_block @ mb_STransactions first_block))"
    by (simp_all add: empty_store_def first_block_def)
  from StoreBlock_refs [where pool = first_pool and isMainchain = True, OF refs this fits, of True True True]
  obtain c' addrs r where st: "StoreBlock first_env first_pool first_block True True True True empty_store = Some (c', addrs, r)" "stored_ok first_block True empty_store c' r"
    by blast
  have "main_hashes (tabs (cs_chain empty_store)) = {}" by (simp add: main_hashes_def empty_store_def)
  moreover have "r = Inr (2, 2, 3)" using first_stored unfolding st(1) by (cases r) simp_all
  ultimately show ?thesis using st by (auto simp: stored_ok_def first_block_def)
qed

end
